(* ===== verification/Go_Prelude.thy ===== *)
theory Go_Prelude
  imports Main "HOL-Library.AList" "HOL-Library.Word" "HOL-Library.Multiset"
    "HOL-Library.Sublist" "HOL-Library.Signed_Division"
begin

text \<open>
  Shared vocabulary of the development: Go's instants and durations, 64-bit wrap-around,
  truncating division, Go maps (association lists whose order is the iteration order of a
  \<open>range\<close> loop), the \<open>strings\<close> operations the sources call, and the lemma collections the
  component theories use.  Nothing here is specific to one component.
\<close>

section \<open>Lemma collections\<close>

named_theorems time_units \<open>the units of time as numbers of nanoseconds\<close>
named_theorems map_ops \<open>lookup after an update or a deletion\<close>

section \<open>Time\<close>

text \<open>
  A Go \<open>time.Time\<close> is an instant in nanoseconds counted from Go's zero time, so that
  \<open>t.IsZero()\<close> is \<open>t = 0\<close>, \<open>t.After(u)\<close> is \<open>u < t\<close>, \<open>t.Before(u)\<close> is \<open>t < u\<close> and
  \<open>t.Sub(u)\<close> is \<open>t - u\<close>.  A \<open>time.Duration\<close> counts nanoseconds.
\<close>

type_synonym instant = int
type_synonym duration = int

definition second :: duration where "second = 1000000000"
definition minute :: duration where "minute = 60 * second"
definition hour :: duration where "hour = 60 * minute"

declare second_def [time_units] minute_def [time_units] hour_def [time_units]

lemma second_pos [simp]: "0 < second"
  by (simp add: second_def)

lemma minute_pos [simp]: "0 < minute"
  by (simp add: minute_def)

lemma hour_pos [simp]: "0 < hour"
  by (simp add: hour_def)

section \<open>Machine integers\<close>

text \<open>
  \<open>wrap64\<close> reads an integer as a Go \<open>int\<close>/\<open>int64\<close>/\<open>Duration\<close> on a 64-bit machine: the
  two's complement value of its low 64 bits.  It is used where the code can overflow.
\<close>

definition wrap64 :: "int \<Rightarrow> int" where
  "wrap64 x = (x + 2 ^ 63) mod 2 ^ 64 - 2 ^ 63"

definition in64 :: "int \<Rightarrow> bool" where
  "in64 x \<longleftrightarrow> - (2 ^ 63) \<le> x \<and> x < 2 ^ 63"

lemma wrap64_id: "in64 x \<Longrightarrow> wrap64 x = x"
  by (simp add: wrap64_def in64_def)

lemma wrap64_in64: "in64 (wrap64 x)"
  by (simp add: wrap64_def in64_def)

lemma wrap64_word: "wrap64 x = sint (word_of_int x :: 64 word)"
  by (simp add: wrap64_def sint_sbintrunc' signed_take_bit_eq_take_bit_shift take_bit_eq_mod)

text \<open>Go's integer division truncates towards zero; HOL's \<open>sdiv\<close> is that operation.\<close>

lemma sdiv_nonneg: "0 \<le> a \<Longrightarrow> 0 < b \<Longrightarrow> a sdiv b = a div (b::int)"
  by (simp add: signed_divide_int_def sgn_if)

section \<open>Go maps\<close>

text \<open>
  A Go map is an association list with distinct keys.  The order of the list stands for the
  order in which a \<open>range\<close> loop visits the entries: Go leaves that order open, and a lemma
  about every list is a lemma about every order.
\<close>

type_synonym ('k, 'v) gomap = "('k \<times> 'v) list"

definition gm_wf :: "('k, 'v) gomap \<Rightarrow> bool" where
  "gm_wf m \<longleftrightarrow> distinct (map fst m)"

abbreviation gm_get :: "('k, 'v) gomap \<Rightarrow> 'k \<Rightarrow> 'v option" where
  "gm_get \<equiv> map_of"

abbreviation gm_put :: "'k \<Rightarrow> 'v \<Rightarrow> ('k, 'v) gomap \<Rightarrow> ('k, 'v) gomap" where
  "gm_put \<equiv> AList.update"

abbreviation gm_del :: "'k \<Rightarrow> ('k, 'v) gomap \<Rightarrow> ('k, 'v) gomap" where
  "gm_del \<equiv> AList.delete"

lemma gm_wf_Nil [simp]: "gm_wf []"
  by (simp add: gm_wf_def)

lemma gm_wf_put [simp]: "gm_wf m \<Longrightarrow> gm_wf (gm_put k v m)"
  by (simp add: gm_wf_def distinct_update)

lemma gm_wf_del [simp]: "gm_wf m \<Longrightarrow> gm_wf (gm_del k m)"
  by (simp add: gm_wf_def distinct_delete)

lemma gm_wf_filter [simp]: "gm_wf m \<Longrightarrow> gm_wf (filter P m)"
  by (simp add: gm_wf_def distinct_map_filter)

lemma gm_wf_Cons [simp]: "gm_wf ((k, v) # m) \<longleftrightarrow> k \<notin> fst ` set m \<and> gm_wf m"
  by (simp add: gm_wf_def)

lemma gm_get_put [map_ops]: "gm_get (gm_put k v m) = (gm_get m)(k \<mapsto> v)"
  by (rule update_conv')

lemma gm_get_put_same [simp]: "gm_get (gm_put k v m) k = Some v"
  by (simp add: gm_get_put)

lemma gm_get_put_other [simp]: "k' \<noteq> k \<Longrightarrow> gm_get (gm_put k v m) k' = gm_get m k'"
  by (simp add: gm_get_put)

lemma gm_get_del [map_ops]: "gm_get (gm_del k m) = (gm_get m)(k := None)"
  by (rule delete_conv')

lemma gm_get_del_same [simp]: "gm_get (gm_del k m) k = None"
  by (simp add: gm_get_del)

lemma gm_get_del_other [simp]: "k' \<noteq> k \<Longrightarrow> gm_get (gm_del k m) k' = gm_get m k'"
  by (simp add: gm_get_del)

lemma gm_get_in: "gm_get m k = Some v \<Longrightarrow> (k, v) \<in> set m"
  by (rule map_of_SomeD)

lemma gm_in_get: "gm_wf m \<Longrightarrow> (k, v) \<in> set m \<longleftrightarrow> gm_get m k = Some v"
  by (auto simp: gm_wf_def dest: map_of_SomeD)

text \<open>The interface of a finite map, and Go maps as an instance of it.\<close>

locale key_store =
  fixes get :: "'s \<Rightarrow> 'k \<Rightarrow> 'v option"
    and put :: "'k \<Rightarrow> 'v \<Rightarrow> 's \<Rightarrow> 's"
    and del :: "'k \<Rightarrow> 's \<Rightarrow> 's"
    and wf :: "'s \<Rightarrow> bool"
  assumes get_put: "wf s \<Longrightarrow> get (put k v s) = (get s)(k \<mapsto> v)"
    and get_del: "wf s \<Longrightarrow> get (del k s) = (get s)(k := None)"
    and wf_put: "wf s \<Longrightarrow> wf (put k v s)"
    and wf_del: "wf s \<Longrightarrow> wf (del k s)"
begin

lemma put_then_del: "wf s \<Longrightarrow> get (del k (put k v s)) = (get s)(k := None)"
  by (simp add: get_put get_del wf_put)

lemma put_put_same: "wf s \<Longrightarrow> get (put k v' (put k v s)) = get (put k v' s)"
  by (simp add: get_put wf_put)

lemma put_commute:
  "wf s \<Longrightarrow> k \<noteq> k' \<Longrightarrow> get (put k v (put k' v' s)) = get (put k' v' (put k v s))"
  by (simp add: get_put wf_put fun_upd_twist)

end

interpretation gm: key_store gm_get gm_put gm_del gm_wf
  by unfold_locales (simp_all add: map_ops)

text \<open>Sums over the entries of a map, under update and deletion.\<close>

definition gm_sum :: "('v \<Rightarrow> int) \<Rightarrow> ('k, 'v) gomap \<Rightarrow> int" where
  "gm_sum f m = (\<Sum>(k, v)\<leftarrow>m. f v)"

lemma gm_sum_Nil [simp]: "gm_sum f [] = 0"
  by (simp add: gm_sum_def)

lemma gm_sum_Cons [simp]: "gm_sum f ((k, v) # m) = f v + gm_sum f m"
  by (simp add: gm_sum_def)

lemma gm_sum_nonneg: "\<forall>(k, v) \<in> set m. 0 \<le> f v \<Longrightarrow> 0 \<le> gm_sum f m"
  by (induction m) auto

lemma gm_sum_filter_split:
  "gm_sum f m = gm_sum f (filter P m) + gm_sum f (filter (\<lambda>x. \<not> P x) m)"
  by (induction m) auto

lemma gm_del_notin: "k \<notin> fst ` set m \<Longrightarrow> gm_del k m = m"
  by (rule delete_id)

lemma gm_sum_del:
  "gm_wf m \<Longrightarrow>
   gm_sum f (gm_del k m) = gm_sum f m - (case gm_get m k of None \<Rightarrow> 0 | Some v \<Rightarrow> f v)"
proof (induction m)
  case Nil
  then show ?case by simp
next
  case (Cons x m)
  obtain k' v where x: "x = (k', v)" by (cases x)
  show ?case using Cons x by (auto simp: gm_del_notin)
qed

lemma gm_sum_put:
  "gm_wf m \<Longrightarrow>
   gm_sum f (gm_put k v m) =
     gm_sum f m - (case gm_get m k of None \<Rightarrow> 0 | Some w \<Rightarrow> f w) + f v"
  by (induction m) (auto simp: gm_wf_def)

lemma gm_sum_mset: "gm_sum f m = (\<Sum>x \<in># mset m. f (snd x))"
  by (induction m) auto

lemma gm_sum_cong_mset: "mset a = mset b \<Longrightarrow> gm_sum f a = gm_sum f b"
  by (simp add: gm_sum_mset)

section \<open>Strings\<close>

text \<open>\<open>strings.Contains\<close>, \<open>strings.HasPrefix\<close> and \<open>strings.HasSuffix\<close>.\<close>

fun str_contains :: "string \<Rightarrow> string \<Rightarrow> bool" where
  "str_contains [] p = (p = [])"
| "str_contains (c # s) p = (prefix p (c # s) \<or> str_contains s p)"

lemma str_contains_sublist: "str_contains s p \<longleftrightarrow> sublist p s"
  by (induction s) (auto simp: sublist_Cons_right)

text \<open>ASCII lower case, \<open>strings.EqualFold\<close> on ASCII words, and \<open>strings.TrimSpace\<close> on ASCII.\<close>

definition lower_char :: "char \<Rightarrow> char" where
  "lower_char c = (if 65 \<le> (of_char c :: nat) \<and> (of_char c :: nat) \<le> 90
                   then char_of ((of_char c :: nat) + 32) else c)"

definition to_lower :: "string \<Rightarrow> string" where
  "to_lower s = map lower_char s"

definition equal_fold :: "string \<Rightarrow> string \<Rightarrow> bool" where
  "equal_fold s t \<longleftrightarrow> to_lower s = to_lower t"

lemma equal_fold_refl [simp]: "equal_fold s s"
  by (simp add: equal_fold_def)

lemma length_to_lower [simp]: "length (to_lower s) = length s"
  by (simp add: to_lower_def)

definition is_space :: "char \<Rightarrow> bool" where
  "is_space c \<longleftrightarrow> c \<in> {CHR '' '', CHR 0x09, CHR 0x0A, CHR 0x0B, CHR 0x0C, CHR 0x0D}"

definition trim_space :: "string \<Rightarrow> string" where
  "trim_space s = rev (dropWhile is_space (rev (dropWhile is_space s)))"

text \<open>The decimal rendering of \<open>%d\<close>, and reading it back.\<close>

fun dec_nat :: "nat \<Rightarrow> string" where
  "dec_nat n = (if n < 10 then [char_of (48 + n)] else dec_nat (n div 10) @ [char_of (48 + n mod 10)])"

declare dec_nat.simps [simp del]

definition dec_int :: "int \<Rightarrow> string" where
  "dec_int i = (if i < 0 then CHR ''-'' # dec_nat (nat (- i)) else dec_nat (nat i))"

definition read_nat :: "string \<Rightarrow> nat" where
  "read_nat s = foldl (\<lambda>n c. 10 * n + (of_char c - 48)) 0 s"

lemma read_dec_nat: "read_nat (dec_nat n) = n"
proof (induction n rule: dec_nat.induct)
  case (1 n)
  then show ?case
    by (subst dec_nat.simps) (auto simp: read_nat_def of_char_of)
qed

lemma dec_nat_inj: "dec_nat m = dec_nat n \<longleftrightarrow> m = n"
  by (metis read_dec_nat)

lemma dec_nat_digits: "c \<in> set (dec_nat n) \<Longrightarrow> 48 \<le> (of_char c :: nat) \<and> (of_char c :: nat) \<le> 57"
proof (induction n rule: dec_nat.induct)
  case (1 n)
  from "1.prems" show ?case
  proof (subst (asm) dec_nat.simps)
    assume c: "c \<in> set (if n < 10 then [char_of (48 + n)]
      else dec_nat (n div 10) @ [char_of (48 + n mod 10)])"
    then consider "n < 10" "c = char_of (48 + n)" | "\<not> n < 10" "c \<in> set (dec_nat (n div 10))"
      | "\<not> n < 10" "c = char_of (48 + n mod 10)" by (auto split: if_splits)
    then show ?thesis
    proof cases
      case 2
      then show ?thesis using "1.IH" by blast
    qed (auto simp: of_char_of)
  qed
qed

lemma dec_int_inj: "dec_int i = dec_int j \<longleftrightarrow> i = j"
proof
  have minus: "CHR ''-'' \<notin> set (dec_nat n)" for n
    using dec_nat_digits [of "CHR ''-''" n] by auto
  assume eq: "dec_int i = dec_int j"
  show "i = j"
  proof (cases "i < 0"; cases "j < 0")
    assume s: "i < 0" "\<not> j < 0"
    with eq have "CHR ''-'' \<in> set (dec_nat (nat j))" by (metis dec_int_def list.set_intros(1))
    with minus show ?thesis by blast
  next
    assume s: "\<not> i < 0" "j < 0"
    with eq have "CHR ''-'' \<in> set (dec_nat (nat i))" by (metis dec_int_def list.set_intros(1))
    with minus show ?thesis by blast
  qed (use eq in \<open>auto simp: dec_int_def dec_nat_inj\<close>)
qed simp

section \<open>Results\<close>

text \<open>Code that may panic (a nil dereference, a slice out of range) has one of two outcomes.\<close>

datatype 'a go_outcome = Returns 'a | Panics

text \<open>An operation that can fail returns a sum: \<open>Inl\<close> the error, \<open>Inr\<close> the value.\<close>

lemma sum_Inr_iff [simp]: "(\<exists>y. Inr x = Inr y)" "\<not> (\<exists>y. Inl e = Inr y)"
  by auto

definition is_ok :: "'e + 'a \<Rightarrow> bool" where
  "is_ok r = (case r of Inl _ \<Rightarrow> False | Inr _ \<Rightarrow> True)"

lemma is_ok_simps [simp]: "is_ok (Inr x)" "\<not> is_ok (Inl e)"
  by (simp_all add: is_ok_def)

end
