(* ===== verification/Go_Heap.thy ===== *)
theory Go_Heap
  imports Go_Prelude
begin

text \<open>
  The binary heap of Go's standard library package \<open>container/heap\<close>, as the job queue uses
  it: \<open>heap.Push\<close> and \<open>heap.Pop\<close> over a slice with a \<open>Less\<close> on elements.  The sift loops are
  written with their index arithmetic; the locale \<open>heap_less\<close> states what \<open>Less\<close> must
  satisfy, and proves the heap shape and the multiset of the elements kept by both operations.
\<close>

section \<open>The operations\<close>

definition swap :: "nat \<Rightarrow> nat \<Rightarrow> 'a list \<Rightarrow> 'a list" where
  "swap i j xs = xs[i := xs ! j, j := xs ! i]"

definition par :: "nat \<Rightarrow> nat" where
  "par j = (j - 1) div 2"

lemma par_less: "0 < j \<Longrightarrow> par j < j"
  by (auto simp: par_def)

text \<open>\<open>up\<close>: move the element at \<open>j\<close> towards the root while it is less than its parent.\<close>

function heap_up :: "('a \<Rightarrow> 'a \<Rightarrow> bool) \<Rightarrow> nat \<Rightarrow> 'a list \<Rightarrow> 'a list" where
  "heap_up lt j xs =
     (let i = par j
      in if i = j \<or> \<not> lt (xs ! j) (xs ! i) then xs
         else heap_up lt i (swap i j xs))"
  by pat_completeness auto
termination
  by (relation "measure (\<lambda>(lt, j, xs). j)") (auto simp: par_def)

text \<open>\<open>down\<close>: move the element at \<open>i\<close> towards the leaves, below index \<open>n\<close>.\<close>

definition down_child :: "('a \<Rightarrow> 'a \<Rightarrow> bool) \<Rightarrow> nat \<Rightarrow> nat \<Rightarrow> 'a list \<Rightarrow> nat" where
  "down_child lt i n xs =
     (let j1 = 2 * i + 1; j2 = j1 + 1
      in if j2 < n \<and> lt (xs ! j2) (xs ! j1) then j2 else j1)"

lemma down_child_gt [termination_simp]: "i < down_child lt i n xs"
  by (simp add: down_child_def Let_def)

lemma down_child_lt: "2 * i + 1 < n \<Longrightarrow> down_child lt i n xs < n"
  by (simp add: down_child_def Let_def)

function heap_down :: "('a \<Rightarrow> 'a \<Rightarrow> bool) \<Rightarrow> nat \<Rightarrow> nat \<Rightarrow> 'a list \<Rightarrow> 'a list" where
  "heap_down lt i n xs =
     (if n \<le> 2 * i + 1 then xs
      else let j = down_child lt i n xs
           in if \<not> lt (xs ! j) (xs ! i) then xs
              else heap_down lt j n (swap i j xs))"
  by pat_completeness auto
termination
  by (relation "measure (\<lambda>(lt, i, n, xs). n - i)")
     (auto simp: down_child_def Let_def)

declare heap_up.simps [simp del] heap_down.simps [simp del]

definition heap_push :: "('a \<Rightarrow> 'a \<Rightarrow> bool) \<Rightarrow> 'a \<Rightarrow> 'a list \<Rightarrow> 'a list" where
  "heap_push lt x xs = heap_up lt (length xs) (xs @ [x])"

text \<open>\<open>heap.Pop\<close> is called on a non-empty slice; on an empty one Go panics: \<open>None\<close>.\<close>

definition heap_pop :: "('a \<Rightarrow> 'a \<Rightarrow> bool) \<Rightarrow> 'a list \<Rightarrow> ('a \<times> 'a list) option" where
  "heap_pop lt xs =
     (if xs = [] then None
      else let n = length xs - 1;
               ys = heap_down lt 0 n (swap 0 n xs)
           in Some (last ys, butlast ys))"

section \<open>Facts that need no order\<close>

lemma length_swap [simp]: "length (swap i j xs) = length xs"
  by (simp add: swap_def)

lemma mset_swap_eq [simp]: "i < length xs \<Longrightarrow> j < length xs \<Longrightarrow> mset (swap i j xs) = mset xs"
  by (simp add: swap_def mset_swap)

lemma nth_swap:
  "i < length xs \<Longrightarrow> j < length xs \<Longrightarrow> k < length xs \<Longrightarrow>
   swap i j xs ! k = (if k = j then xs ! i else if k = i then xs ! j else xs ! k)"
  by (auto simp: swap_def nth_list_update)

lemma heap_up_mset: "j < length xs \<Longrightarrow> mset (heap_up lt j xs) = mset xs"
proof (induction lt j xs rule: heap_up.induct)
  case (1 lt j xs)
  have "par j \<le> j" by (auto simp: par_def)
  with 1 show ?case by (subst heap_up.simps) (auto simp: Let_def)
qed

lemma heap_up_length [simp]: "length (heap_up lt j xs) = length xs"
proof (induction lt j xs rule: heap_up.induct)
  case (1 lt j xs)
  then show ?case by (subst heap_up.simps) (auto simp: Let_def)
qed

lemma heap_down_mset: "n \<le> length xs \<Longrightarrow> mset (heap_down lt i n xs) = mset xs"
proof (induction lt i n xs rule: heap_down.induct)
  case (1 lt i n xs)
  show ?case
  proof (cases "n \<le> 2 * i + 1")
    case True
    then show ?thesis by (subst heap_down.simps) simp
  next
    case False
    then have "down_child lt i n xs < n" by (intro down_child_lt) simp
    with False 1 show ?thesis by (subst heap_down.simps) (auto simp: Let_def)
  qed
qed

lemma heap_down_length [simp]: "length (heap_down lt i n xs) = length xs"
proof (induction lt i n xs rule: heap_down.induct)
  case (1 lt i n xs)
  then show ?case by (subst heap_down.simps) (auto simp: Let_def)
qed

text \<open>\<open>down\<close> below \<open>n\<close> leaves every index from \<open>n\<close> on alone.\<close>

lemma heap_down_above: "n \<le> k \<Longrightarrow> k < length xs \<Longrightarrow> heap_down lt i n xs ! k = xs ! k"
proof (induction lt i n xs rule: heap_down.induct)
  case (1 lt i n xs)
  show ?case
  proof (cases "n \<le> 2 * i + 1")
    case True
    then show ?thesis by (subst heap_down.simps) simp
  next
    case False
    then have j: "down_child lt i n xs < n" by (intro down_child_lt) simp
    with False 1 show ?thesis
      by (subst heap_down.simps) (auto simp: Let_def nth_swap)
  qed
qed

lemma heap_push_mset: "mset (heap_push lt x xs) = add_mset x (mset xs)"
  by (simp add: heap_push_def heap_up_mset)

lemma heap_push_length [simp]: "length (heap_push lt x xs) = Suc (length xs)"
  by (simp add: heap_push_def)

lemma heap_pop_None_iff [simp]: "heap_pop lt xs = None \<longleftrightarrow> xs = []"
  by (simp add: heap_pop_def Let_def)

lemma heap_pop_Nil [simp]: "heap_pop lt [] = None"
  by simp

lemma mset_last_butlast: "xs \<noteq> [] \<Longrightarrow> mset xs = add_mset (last xs) (mset (butlast xs))"
  by (metis append_butlast_last_id mset_append union_mset_add_mset_right add.right_neutral
      mset.simps(1) mset.simps(2))

lemma heap_pop_parts:
  assumes "heap_pop lt xs = Some (x, ys)"
  shows "xs \<noteq> []" and "x = hd xs" and "length ys = length xs - 1"
    and "mset xs = add_mset x (mset ys)"
proof -
  show ne: "xs \<noteq> []" using assms by (auto simp: heap_pop_def)
  define n where "n = length xs - 1"
  define zs where "zs = heap_down lt 0 n (swap 0 n xs)"
  from ne have n: "n < length xs" by (simp add: n_def)
  have parts: "x = last zs" "ys = butlast zs"
    using assms ne by (auto simp: heap_pop_def Let_def n_def zs_def)
  have lz: "length zs = length xs" by (simp add: zs_def)
  with ne have zne: "zs \<noteq> []" by auto
  from n have mz: "mset zs = mset xs"
    by (simp add: zs_def heap_down_mset) (metis length_greater_0_conv ne mset_swap_eq)
  show "length ys = length xs - 1" using parts lz by simp
  show "mset xs = add_mset x (mset ys)"
    using parts zne mz by (metis mset_last_butlast)
  have "last zs = zs ! n" using zne lz by (simp add: last_conv_nth n_def)
  also have "\<dots> = swap 0 n xs ! n"
    unfolding zs_def by (rule heap_down_above) (use n in auto)
  also have "\<dots> = xs ! 0" using n ne by (subst nth_swap) auto
  finally show "x = hd xs" using parts ne by (simp add: hd_conv_nth)
qed

section \<open>The heap shape\<close>

definition is_heap_upto :: "('a \<Rightarrow> 'a \<Rightarrow> bool) \<Rightarrow> nat \<Rightarrow> 'a list \<Rightarrow> bool" where
  "is_heap_upto lt n xs \<longleftrightarrow> (\<forall>i < n. 0 < i \<longrightarrow> \<not> lt (xs ! i) (xs ! par i))"

definition is_heap :: "('a \<Rightarrow> 'a \<Rightarrow> bool) \<Rightarrow> 'a list \<Rightarrow> bool" where
  "is_heap lt xs = is_heap_upto lt (length xs) xs"

lemma is_heap_Nil [simp]: "is_heap lt []"
  by (simp add: is_heap_def is_heap_upto_def)

text \<open>
  The invariants of the two loops: the shape holds everywhere but at the moving index, and
  across it (its children are not less than its parent).
\<close>

definition up_inv :: "('a \<Rightarrow> 'a \<Rightarrow> bool) \<Rightarrow> nat \<Rightarrow> 'a list \<Rightarrow> bool" where
  "up_inv lt j xs \<longleftrightarrow>
     (\<forall>i < length xs. 0 < i \<longrightarrow> i \<noteq> j \<longrightarrow> \<not> lt (xs ! i) (xs ! par i)) \<and>
     (\<forall>i < length xs. 0 < i \<longrightarrow> 0 < j \<longrightarrow> par i = j \<longrightarrow> \<not> lt (xs ! i) (xs ! par j))"

definition down_inv :: "('a \<Rightarrow> 'a \<Rightarrow> bool) \<Rightarrow> nat \<Rightarrow> nat \<Rightarrow> 'a list \<Rightarrow> bool" where
  "down_inv lt j n xs \<longleftrightarrow>
     (\<forall>i < n. 0 < i \<longrightarrow> par i \<noteq> j \<longrightarrow> \<not> lt (xs ! i) (xs ! par i)) \<and>
     (\<forall>i < n. 0 < i \<longrightarrow> 0 < j \<longrightarrow> par i = j \<longrightarrow> \<not> lt (xs ! i) (xs ! par j))"

text \<open>The children of an index, for the case splits below.\<close>

lemma par_eq_iff: "0 < i \<Longrightarrow> par i = j \<longleftrightarrow> i = 2 * j + 1 \<or> i = 2 * j + 2"
  by (auto simp: par_def)

text \<open>What \<open>Less\<close> must satisfy: a strict weak order.\<close>

locale heap_less =
  fixes lt :: "'a \<Rightarrow> 'a \<Rightarrow> bool"
  assumes asym: "lt x y \<Longrightarrow> \<not> lt y x"
    and weak: "lt x z \<Longrightarrow> lt x y \<or> lt y z"
begin

lemma irrefl: "\<not> lt x x"
  using asym by blast

lemma not_less_trans: "\<not> lt y x \<Longrightarrow> \<not> lt z y \<Longrightarrow> \<not> lt z x"
  using weak by blast

lemma up_inv_step:
  assumes inv: "up_inv lt j xs" and j: "j < length xs" and pos: "0 < j"
    and lt: "lt (xs ! j) (xs ! par j)"
  shows "up_inv lt (par j) (swap (par j) j xs)"
proof -
  let ?p = "par j" and ?ys = "swap (par j) j xs"
  have p: "?p < j" using pos by (rule par_less)
  have nth: "?ys ! k = (if k = j then xs ! ?p else if k = ?p then xs ! j else xs ! k)"
    if "k < length xs" for k
    using that p j by (simp add: nth_swap)
  have rest: "\<not> lt (xs ! i) (xs ! par i)" if "i < length xs" "0 < i" "i \<noteq> j" for i
    using inv that by (auto simp: up_inv_def)
  have across: "\<not> lt (xs ! i) (xs ! ?p)" if "i < length xs" "0 < i" "par i = j" for i
    using inv that pos by (auto simp: up_inv_def)
  have parlen: "par i < length xs" if "i < length xs" for i
    using that by (auto simp: par_def)
  show ?thesis
    unfolding up_inv_def
  proof (intro conjI allI impI)
    fix i assume i: "i < length ?ys" "0 < i" "i \<noteq> ?p"
    show "\<not> lt (?ys ! i) (?ys ! par i)"
    proof (cases "i = j")
      case True
      with i p lt asym show ?thesis by (simp add: nth parlen)
    next
      case ne: False
      have r: "\<not> lt (xs ! i) (xs ! par i)" using rest i ne by simp
      consider "par i = j" | "par i = ?p" | "par i \<noteq> j" "par i \<noteq> ?p" by blast
      then show ?thesis
      proof cases
        case 1
        then show ?thesis using i ne across j by (simp add: nth parlen)
      next
        case 2
        then have "\<not> lt (xs ! i) (xs ! ?p)" using r by simp
        with lt have "\<not> lt (xs ! i) (xs ! j)" using weak asym by blast
        with 2 i ne p j show ?thesis by (simp add: nth parlen)
      next
        case 3
        with i ne r show ?thesis by (simp add: nth parlen)
      qed
    qed
  next
    fix i assume i: "i < length ?ys" "0 < i" "0 < ?p" "par i = ?p"
    have pp: "par ?p < ?p" using i by (intro par_less)
    have up: "\<not> lt (xs ! ?p) (xs ! par ?p)" using rest i p j pp by simp
    have top: "?ys ! par ?p = xs ! par ?p" using nth [of "par ?p"] pp p j by simp
    show "\<not> lt (?ys ! i) (?ys ! par ?p)"
    proof (cases "i = j")
      case True
      then have "?ys ! i = xs ! ?p" using nth [of j] j by simp
      with up top show ?thesis by simp
    next
      case False
      have "i \<noteq> ?p" using i par_less [of i] by auto
      then have "?ys ! i = xs ! i" using nth [of i] False i by simp
      moreover have "\<not> lt (xs ! i) (xs ! ?p)" using rest [of i] False i by simp
      ultimately show ?thesis using up top not_less_trans by simp
    qed
  qed
qed

lemma up_inv_done:
  assumes "up_inv lt j xs" and "par j = j \<or> \<not> lt (xs ! j) (xs ! par j)"
  shows "is_heap lt xs"
  using assms par_less [of j] unfolding is_heap_def is_heap_upto_def up_inv_def
  by (metis less_irrefl_nat)

lemma heap_up_heap: "j < length xs \<Longrightarrow> up_inv lt j xs \<Longrightarrow> is_heap lt (heap_up lt j xs)"
proof (induction j arbitrary: xs rule: less_induct)
  case (less j)
  show ?case
  proof (cases "par j = j \<or> \<not> lt (xs ! j) (xs ! par j)")
    case True
    with up_inv_done [OF less.prems(2) this] show ?thesis
      by (subst heap_up.simps) (simp add: Let_def)
  next
    case False
    then have pos: "0 < j" by (auto simp: par_def intro: Nat.gr0I)
    then have "par j < j" by (rule par_less)
    with False less.prems pos up_inv_step less.IH show ?thesis
      by (subst heap_up.simps) (simp add: Let_def)
  qed
qed

lemma heap_push_heap: "is_heap lt xs \<Longrightarrow> is_heap lt (heap_push lt x xs)"
proof -
  assume h: "is_heap lt xs"
  have "up_inv lt (length xs) (xs @ [x])"
    unfolding up_inv_def
  proof (intro conjI allI impI)
    fix i assume "i < length (xs @ [x])" "0 < i" "i \<noteq> length xs"
    then have i: "i < length xs" "0 < i" by auto
    then have "par i < length xs" by (auto simp: par_def)
    with i h show "\<not> lt ((xs @ [x]) ! i) ((xs @ [x]) ! par i)"
      by (simp add: nth_append is_heap_def is_heap_upto_def)
  next
    fix i assume "i < length (xs @ [x])" "0 < i" "par i = length xs"
    then show "\<not> lt ((xs @ [x]) ! i) ((xs @ [x]) ! par (length xs))"
      by (auto simp: par_def)
  qed
  then show ?thesis by (simp add: heap_push_def heap_up_heap)
qed

lemma down_child_min:
  assumes "2 * i + 1 < n" and "k < n" and "0 < k" and "par k = i"
  shows "\<not> lt (xs ! k) (xs ! down_child lt i n xs)"
  using assms asym irrefl by (auto simp: down_child_def Let_def par_eq_iff)

lemma down_child_par: "par (down_child lt i n xs) = i"
  by (auto simp: down_child_def Let_def par_def)

lemma down_inv_step:
  assumes inv: "down_inv lt i n xs" and n: "n \<le> length xs" and room: "2 * i + 1 < n"
    and lt: "lt (xs ! down_child lt i n xs) (xs ! i)"
  shows "down_inv lt (down_child lt i n xs) n (swap i (down_child lt i n xs) xs)"
proof -
  let ?j = "down_child lt i n xs"
  let ?ys = "swap i ?j xs"
  have j: "?j < n" "i < ?j" "par ?j = i"
    using room by (auto simp: down_child_lt down_child_gt down_child_par)
  have nth: "?ys ! k = (if k = ?j then xs ! i else if k = i then xs ! ?j else xs ! k)"
    if "k < n" for k
    using that j n room by (simp add: nth_swap)
  have parn: "par k < n" if "k < n" for k using that by (auto simp: par_def)
  have rest: "\<not> lt (xs ! k) (xs ! par k)" if "k < n" "0 < k" "par k \<noteq> i" for k
    using inv that by (auto simp: down_inv_def)
  have across: "\<not> lt (xs ! k) (xs ! par i)" if "k < n" "0 < k" "par k = i" "0 < i" for k
    using inv that by (auto simp: down_inv_def)
  have minj: "\<not> lt (xs ! k) (xs ! ?j)" if "k < n" "0 < k" "par k = i" for k
    using down_child_min room that by blast
  show ?thesis
    unfolding down_inv_def
  proof (intro conjI allI impI)
    fix k assume k: "k < n" "0 < k" "par k \<noteq> ?j"
    consider "k = ?j" | "k = i" | "k \<noteq> ?j" "k \<noteq> i" "par k = i" | "k \<noteq> ?j" "k \<noteq> i" "par k \<noteq> i"
      by blast
    then show "\<not> lt (?ys ! k) (?ys ! par k)"
    proof cases
      case 1
      then show ?thesis using j k lt asym by (simp add: nth parn)
    next
      case 2
      then have "par k < i" using k par_less by auto
      with 2 j k across [of ?j] show ?thesis by (simp add: nth parn)
    next
      case 3
      then show ?thesis using j k minj by (simp add: nth parn)
    next
      case 4
      then show ?thesis using j k rest by (simp add: nth parn)
    qed
  next
    fix k assume k: "k < n" "0 < k" "0 < ?j" "par k = ?j"
    have kj: "?j < k" using par_less [of k] k by simp
    have "\<not> lt (xs ! k) (xs ! ?j)" using rest [of k] k j by simp
    then show "\<not> lt (?ys ! k) (?ys ! par ?j)"
      using k j kj room by (simp add: nth)
  qed
qed

lemma heap_down_heap:
  "n \<le> length xs \<Longrightarrow> down_inv lt i n xs \<Longrightarrow> is_heap_upto lt n (heap_down lt i n xs)"
proof (induction "n - i" arbitrary: i xs rule: less_induct)
  case less
  show ?case
  proof (cases "n \<le> 2 * i + 1")
    case True
    then have "k < n \<Longrightarrow> 0 < k \<Longrightarrow> par k \<noteq> i" for k by (auto simp: par_def)
    with True less.prems show ?thesis
      by (subst heap_down.simps) (auto simp: is_heap_upto_def down_inv_def)
  next
    case room: False
    let ?j = "down_child lt i n xs"
    have j: "?j < n" "i < ?j" using room by (auto simp: down_child_lt down_child_gt)
    show ?thesis
    proof (cases "lt (xs ! ?j) (xs ! i)")
      case True
      have "down_inv lt ?j n (swap i ?j xs)"
        using less.prems room True by (intro down_inv_step) auto
      with less.hyps [of ?j "swap i ?j xs"] j less.prems room True show ?thesis
        by (subst heap_down.simps) (simp add: Let_def)
    next
      case False
      have "\<not> lt (xs ! k) (xs ! i)" if "k < n" "0 < k" "par k = i" for k
        using down_child_min [of i n k xs] room that False not_less_trans by fastforce
      then have "is_heap_upto lt n xs"
        using less.prems(2) by (auto simp: is_heap_upto_def down_inv_def)
      with room False show ?thesis by (subst heap_down.simps) (simp add: Let_def)
    qed
  qed
qed

lemma heap_pop_heap:
  assumes h: "is_heap lt xs" and pop: "heap_pop lt xs = Some (x, ys)"
  shows "is_heap lt ys"
proof -
  define n where "n = length xs - 1"
  define zs where "zs = heap_down lt 0 n (swap 0 n xs)"
  have ne: "xs \<noteq> []" using heap_pop_parts(1) [OF pop] .
  then have n: "n < length xs" by (simp add: n_def)
  have "down_inv lt 0 n (swap 0 n xs)"
    unfolding down_inv_def
  proof (intro conjI allI impI)
    fix i assume i: "i < n" "0 < i" "par i \<noteq> 0"
    then have "par i < n" "0 < length xs" using n by (auto simp: par_def)
    with i n h show "\<not> lt (swap 0 n xs ! i) (swap 0 n xs ! par i)"
      by (simp add: nth_swap is_heap_def is_heap_upto_def)
  qed simp
  then have "is_heap_upto lt n zs"
    unfolding zs_def using n by (intro heap_down_heap) auto
  moreover have "ys = butlast zs" "length zs = Suc n"
    using pop ne n by (auto simp: heap_pop_def Let_def n_def zs_def)
  moreover have "par i < n" if "i < n" for i using that by (auto simp: par_def)
  ultimately show ?thesis
    by (simp add: is_heap_def is_heap_upto_def nth_butlast)
qed

text \<open>The root of a heap is a minimum.\<close>

lemma heap_root_min: "is_heap lt xs \<Longrightarrow> i < length xs \<Longrightarrow> \<not> lt (xs ! i) (xs ! 0)"
proof (induction i rule: less_induct)
  case (less i)
  show ?case
  proof (cases "i = 0")
    case True
    then show ?thesis by (simp add: irrefl)
  next
    case False
    then have p: "par i < i" by (intro par_less) simp
    with less.IH less.prems have "\<not> lt (xs ! par i) (xs ! 0)" by simp
    moreover have "\<not> lt (xs ! i) (xs ! par i)"
      using less.prems False by (simp add: is_heap_def is_heap_upto_def)
    ultimately show ?thesis using not_less_trans by blast
  qed
qed

lemma heap_pop_min:
  assumes "is_heap lt xs" and "heap_pop lt xs = Some (x, ys)" and "y \<in> set xs"
  shows "\<not> lt y x"
proof -
  from assms(3) obtain i where "i < length xs" "y = xs ! i" by (auto simp: in_set_conv_nth)
  with heap_root_min [OF assms(1)] heap_pop_parts(1,2) [OF assms(2)] show ?thesis
    by (simp add: hd_conv_nth)
qed

end

end
