(* ===== verification/Exchange_Sort.thy ===== *)
theory Exchange_Sort
  imports Go_Heap
begin

text \<open>
  The hand-written sort of the cache's eviction and of the batch orchestrator: two nested loops
  that exchange \<open>xs[i]\<close> with every later element that belongs before it.  It is correct for every
  strict weak order (\<open>heap_less\<close>); it is not stable, which \<open>exchange_sort_unstable\<close> shows.
\<close>

text \<open>
  The inner loop for one \<open>i\<close>: \<open>x\<close> is the element at \<open>i\<close>, the list what follows it.  The result
  is the element at \<open>i\<close> afterwards and what then follows it.
\<close>

fun exchange_pass :: "('a \<Rightarrow> 'a \<Rightarrow> bool) \<Rightarrow> 'a \<Rightarrow> 'a list \<Rightarrow> 'a \<times> 'a list" where
  "exchange_pass before x [] = (x, [])"
| "exchange_pass before x (y # ys) =
     (if before y x
      then let (m, zs) = exchange_pass before y ys in (m, x # zs)
      else let (m, zs) = exchange_pass before x ys in (m, y # zs))"

lemma exchange_pass_mset:
  "exchange_pass before x ys = (m, zs) \<Longrightarrow> mset (m # zs) = mset (x # ys)"
  by (induction before x ys arbitrary: m zs rule: exchange_pass.induct)
     (fastforce split: if_splits prod.splits)+

lemma exchange_pass_length:
  "exchange_pass before x ys = (m, zs) \<Longrightarrow> length zs = length ys"
  by (drule exchange_pass_mset) (metis length_Cons mset_eq_length nat.inject)

function exchange_sort :: "('a \<Rightarrow> 'a \<Rightarrow> bool) \<Rightarrow> 'a list \<Rightarrow> 'a list" where
  "exchange_sort before [] = []"
| "exchange_sort before (x # xs) =
     (let (m, ys) = exchange_pass before x xs in m # exchange_sort before ys)"
  by pat_completeness auto
termination
  by (relation "measure (length \<circ> snd)") (auto dest!: exchange_pass_length [OF sym])

lemma exchange_sort_mset: "mset (exchange_sort before xs) = mset xs"
proof (induction before xs rule: exchange_sort.induct)
  case (2 before x xs)
  obtain m ys where p: "exchange_pass before x xs = (m, ys)"
    by (cases "exchange_pass before x xs")
  with 2 exchange_pass_mset [OF p] show ?case by simp
qed simp

lemma exchange_sort_set [simp]: "set (exchange_sort before xs) = set xs"
  using exchange_sort_mset [of before xs] by (metis set_mset_mset)

lemma exchange_sort_length [simp]: "length (exchange_sort before xs) = length xs"
  using exchange_sort_mset [of before xs] by (metis size_mset)

lemma exchange_sort_wf: "gm_wf m \<Longrightarrow> gm_wf (exchange_sort before m)"
  unfolding gm_wf_def
  by (metis exchange_sort_mset mset_eq_imp_distinct_iff mset_map)

text \<open>A three-element input on which equal elements change places.\<close>

lemma exchange_sort_unstable:
  "exchange_sort (\<lambda>a b. fst a < fst b) [(2 :: nat, ''a''), (2, ''b''), (1, ''c'')] =
     [(1, ''c''), (2, ''b''), (2, ''a'')]"
  by simp

context heap_less
begin

lemma exchange_pass_least:
  "exchange_pass lt x ys = (m, zs) \<Longrightarrow> (\<forall>y \<in> set zs. \<not> lt y m) \<and> \<not> lt x m"
proof (induction ys arbitrary: x m zs)
  case Nil
  then show ?case by (simp add: irrefl)
next
  case (Cons y ys)
  show ?case
  proof (cases "lt y x")
    case True
    obtain zs' where p: "exchange_pass lt y ys = (m, zs')" and zs: "zs = x # zs'"
      using Cons.prems True by (auto split: prod.splits)
    have "\<not> lt x m" using Cons.IH [OF p] asym [OF True] not_less_trans [of y m x] by blast
    with Cons.IH [OF p] zs show ?thesis by simp
  next
    case False
    obtain zs' where p: "exchange_pass lt x ys = (m, zs')" and zs: "zs = y # zs'"
      using Cons.prems False by (auto split: prod.splits)
    have "\<not> lt y m" using Cons.IH [OF p] False not_less_trans [of x m y] by blast
    with Cons.IH [OF p] zs show ?thesis by simp
  qed
qed

lemma exchange_sort_sorted: "sorted_wrt (\<lambda>a b. \<not> lt b a) (exchange_sort lt xs)"
proof (induction "length xs" arbitrary: xs rule: less_induct)
  case less
  show ?case
  proof (cases xs)
    case (Cons x xs')
    obtain m ys where p: "exchange_pass lt x xs' = (m, ys)" by (cases "exchange_pass lt x xs'")
    with less.hyps [of ys] exchange_pass_length [OF p] exchange_pass_least [OF p] Cons
    show ?thesis by simp
  qed simp
qed

end

end
