(* ===== verification/Go_Path.thy ===== *)
theory Go_Path
  imports Go_Prelude
begin

text \<open>
  The parts of Go's \<open>path/filepath\<close> that the sources use, on Unix: \<open>Clean\<close>, \<open>Join\<close>, \<open>Base\<close>,
  \<open>Dir\<close>, \<open>Ext\<close> and \<open>Abs\<close>, the last with the working directory as an argument.  The lemmas
  describe cleaned paths by their components.
\<close>

abbreviation slash :: char where "slash \<equiv> CHR ''/''"

section \<open>Components\<close>

text \<open>\<open>strings.Split(p, "/")\<close> and \<open>strings.Join(cs, "/")\<close>.\<close>

fun split_slash :: "string \<Rightarrow> string list" where
  "split_slash [] = [[]]"
| "split_slash (c # s) =
     (if c = slash then [] # split_slash s
      else case split_slash s of [] \<Rightarrow> [[c]] | w # ws \<Rightarrow> (c # w) # ws)"

fun join_slash :: "string list \<Rightarrow> string" where
  "join_slash [] = []"
| "join_slash [w] = w"
| "join_slash (w # ws) = w @ slash # join_slash ws"

text \<open>
  One component of \<open>Clean\<close>: empty ones and dots are dropped, two dots remove the component
  before, unless there is none to remove.  The stack holds the components so far, last first.
\<close>

definition clean_step :: "bool \<Rightarrow> string \<Rightarrow> string list \<Rightarrow> string list" where
  "clean_step rooted c st =
     (if c = [] \<or> c = ''.'' then st
      else if c = ''..'' then
        (case st of
           [] \<Rightarrow> (if rooted then [] else [''..''])
         | t # st' \<Rightarrow> (if t = ''..'' then ''..'' # st else st'))
      else c # st)"

definition clean_stack :: "bool \<Rightarrow> string list \<Rightarrow> string list \<Rightarrow> string list" where
  "clean_stack rooted cs st = fold (clean_step rooted) cs st"

definition render_path :: "bool \<Rightarrow> string list \<Rightarrow> string" where
  "render_path rooted cs =
     (if rooted then slash # join_slash cs else if cs = [] then ''.'' else join_slash cs)"

definition is_abs :: "string \<Rightarrow> bool" where
  "is_abs p = (case p of [] \<Rightarrow> False | c # _ \<Rightarrow> c = slash)"

definition clean_parts :: "string \<Rightarrow> string list" where
  "clean_parts p = rev (clean_stack (is_abs p) (split_slash p) [])"

definition path_clean :: "string \<Rightarrow> string" where
  "path_clean p = render_path (is_abs p) (clean_parts p)"

text \<open>\<open>Join\<close> of two elements: empty ones at the front are ignored.\<close>

definition path_join :: "string \<Rightarrow> string \<Rightarrow> string" where
  "path_join a b =
     (if a \<noteq> [] then path_clean (a @ slash # b) else if b \<noteq> [] then path_clean b else [])"

definition path_base :: "string \<Rightarrow> string" where
  "path_base p =
     (if p = [] then ''.''
      else let s = rev (dropWhile (\<lambda>c. c = slash) (rev p));
               b = rev (takeWhile (\<lambda>c. c \<noteq> slash) (rev s))
           in if b = [] then ''/'' else b)"

definition path_dir :: "string \<Rightarrow> string" where
  "path_dir p = path_clean (rev (dropWhile (\<lambda>c. c \<noteq> slash) (rev p)))"

definition path_ext :: "string \<Rightarrow> string" where
  "path_ext p =
     (let e = takeWhile (\<lambda>c. c \<noteq> slash \<and> c \<noteq> CHR ''.'') (rev p);
          r = dropWhile (\<lambda>c. c \<noteq> slash \<and> c \<noteq> CHR ''.'') (rev p)
      in case r of [] \<Rightarrow> [] | c # _ \<Rightarrow> if c = CHR ''.'' then CHR ''.'' # rev e else [])"

definition path_abs :: "string \<Rightarrow> string \<Rightarrow> string" where
  "path_abs cwd p = (if is_abs p then path_clean p else path_join cwd p)"

section \<open>Splitting and joining\<close>

lemma split_slash_nonempty [simp]: "split_slash s \<noteq> []"
  by (induction s) (auto split: list.splits)

lemma split_slash_append: "split_slash (a @ slash # b) = split_slash a @ split_slash b"
proof (induction a)
  case (Cons c a)
  obtain w ws where "split_slash a = w # ws" by (cases "split_slash a") auto
  with Cons show ?case by simp
qed simp

lemma split_slash_plain: "slash \<notin> set w \<Longrightarrow> split_slash w = [w]"
  by (induction w) auto

lemma split_slash_no_slash: "w \<in> set (split_slash s) \<Longrightarrow> slash \<notin> set w"
proof (induction s arbitrary: w)
  case (Cons c s)
  obtain v vs where "split_slash s = v # vs" by (cases "split_slash s") auto
  with Cons show ?case by (auto split: if_splits)
qed simp

lemma split_join: "cs \<noteq> [] \<Longrightarrow> \<forall>c \<in> set cs. slash \<notin> set c \<Longrightarrow> split_slash (join_slash cs) = cs"
  by (induction cs rule: join_slash.induct) (auto simp: split_slash_append split_slash_plain)

lemma join_append: "cs \<noteq> [] \<Longrightarrow> ds \<noteq> [] \<Longrightarrow> join_slash (cs @ ds) = join_slash cs @ slash # join_slash ds"
proof (induction cs rule: join_slash.induct)
  case (2 w)
  then show ?case by (cases ds) auto
qed auto

section \<open>Cleaned paths\<close>

text \<open>A normal component is a name: not empty, no dots, no slash.\<close>

definition normal :: "string \<Rightarrow> bool" where
  "normal c \<longleftrightarrow> c \<noteq> [] \<and> c \<noteq> ''.'' \<and> c \<noteq> ''..'' \<and> slash \<notin> set c"

lemma clean_step_normal: "normal c \<Longrightarrow> clean_step rooted c st = c # st"
  by (simp add: clean_step_def normal_def)

lemma clean_stack_normals: "\<forall>c \<in> set cs. normal c \<Longrightarrow> clean_stack rooted cs st = rev cs @ st"
  unfolding clean_stack_def by (induction cs arbitrary: st) (simp_all add: clean_step_normal)

lemma clean_stack_append:
  "clean_stack rooted (cs @ ds) st = clean_stack rooted ds (clean_stack rooted cs st)"
  by (simp add: clean_stack_def)

lemma clean_stack_empty [simp]: "clean_stack rooted ([] # cs) st = clean_stack rooted cs st"
  by (simp add: clean_stack_def clean_step_def)

lemma clean_stack_Nil [simp]: "clean_stack rooted [] st = st"
  by (simp add: clean_stack_def)

lemma clean_step_rooted:
  "\<forall>t \<in> set st. normal t \<Longrightarrow> slash \<notin> set c \<Longrightarrow> \<forall>t \<in> set (clean_step True c st). normal t"
  by (cases st) (simp_all add: clean_step_def normal_def)

text \<open>A rooted path cleans to names only: no dots are left that could lead out of it.\<close>

lemma clean_stack_rooted:
  "\<forall>t \<in> set st. normal t \<Longrightarrow> \<forall>c \<in> set cs. slash \<notin> set c \<Longrightarrow>
   \<forall>t \<in> set (clean_stack True cs st). normal t"
proof (induction cs arbitrary: st)
  case (Cons c cs)
  then have "\<forall>t \<in> set (clean_step True c st). normal t" by (intro clean_step_rooted) auto
  from Cons.IH [OF this] Cons.prems show ?case by (simp add: clean_stack_def)
qed simp

lemma clean_parts_rooted: "is_abs p \<Longrightarrow> \<forall>c \<in> set (clean_parts p). normal c"
  using clean_stack_rooted [of "[]" "split_slash p"] split_slash_no_slash
  by (auto simp: clean_parts_def)

text \<open>
  An unrooted cleaned path holds, from its front, two-dot components and then names; cleaning it
  again behind any rooted prefix gives what the original path gives there.
\<close>

definition unrooted_stack :: "string list \<Rightarrow> bool" where
  "unrooted_stack st \<longleftrightarrow> (\<forall>t \<in> set st. normal t \<or> t = ''..'')"

lemma clean_step_unrooted:
  "unrooted_stack st \<Longrightarrow> slash \<notin> set c \<Longrightarrow> unrooted_stack (clean_step False c st)"
  by (auto simp: clean_step_def unrooted_stack_def normal_def split: list.splits)

lemma clean_step_behind:
  assumes "unrooted_stack st"
  shows "clean_stack True (rev (clean_step False c st)) rt =
         clean_step True c (clean_stack True (rev st) rt)"
proof (cases "c = ''..''")
  case dots: True
  show ?thesis
  proof (cases st)
    case Nil
    with dots show ?thesis by (simp add: clean_step_def clean_stack_def)
  next
    case (Cons t st')
    show ?thesis
    proof (cases "t = ''..''")
      case True
      with dots Cons show ?thesis by (simp add: clean_step_def clean_stack_def)
    next
      case False
      with assms Cons have "normal t" by (simp add: unrooted_stack_def)
      with dots Cons False show ?thesis
        by (simp add: clean_step_def clean_stack_def normal_def)
    qed
  qed
next
  case False
  then show ?thesis by (simp add: clean_step_def clean_stack_def)
qed

lemma clean_stack_behind:
  "unrooted_stack st \<Longrightarrow> \<forall>c \<in> set cs. slash \<notin> set c \<Longrightarrow>
   clean_stack True (rev (clean_stack False cs st)) rt =
     clean_stack True cs (clean_stack True (rev st) rt)"
proof (induction cs arbitrary: st)
  case (Cons c cs)
  then have "unrooted_stack (clean_step False c st)" by (intro clean_step_unrooted) auto
  from Cons.IH [OF this] Cons.prems clean_step_behind [OF Cons.prems(1)] show ?case
    by (simp add: clean_stack_def)
qed simp

lemma clean_parts_no_slash: "c \<in> set (clean_parts p) \<Longrightarrow> slash \<notin> set c"
proof -
  have "\<forall>c \<in> set (clean_stack False cs st). slash \<notin> set c"
    if "\<forall>c \<in> set cs. slash \<notin> set c" "\<forall>c \<in> set st. slash \<notin> set c" for cs st
    using that
  proof (induction cs arbitrary: st)
    case (Cons c cs)
    have "\<forall>d \<in> set (clean_step False c st). slash \<notin> set d"
      using Cons.prems by (auto simp: clean_step_def split: list.splits)
    from Cons.IH [OF _ this] Cons.prems show ?case by (simp add: clean_stack_def)
  qed simp
  from this [of "split_slash p" "[]"]
  have "\<forall>c \<in> set (clean_stack False (split_slash p) []). slash \<notin> set c"
    using split_slash_no_slash [of _ p] by simp
  moreover have "\<forall>c \<in> set (clean_parts p). slash \<notin> set c" if "is_abs p"
    using clean_parts_rooted [OF that] by (simp add: normal_def)
  ultimately show "c \<in> set (clean_parts p) \<Longrightarrow> slash \<notin> set c"
    by (cases "is_abs p") (simp_all add: clean_parts_def)
qed

lemma is_abs_render: "is_abs (render_path True cs)"
  by (simp add: is_abs_def render_path_def)

lemma split_render_rooted:
  "\<forall>c \<in> set cs. slash \<notin> set c \<Longrightarrow>
   split_slash (render_path True cs) = [] # (if cs = [] then [[]] else cs)"
  by (auto simp: render_path_def split_join)

lemma clean_render_rooted:
  "\<forall>c \<in> set cs. normal c \<Longrightarrow> clean_parts (render_path True cs) = cs"
  by (auto simp: clean_parts_def is_abs_render split_render_rooted normal_def
      clean_stack_normals clean_stack_normals [unfolded normal_def])

lemma path_clean_rooted: "\<forall>c \<in> set cs. normal c \<Longrightarrow> path_clean (render_path True cs) = render_path True cs"
  by (simp add: path_clean_def is_abs_render clean_render_rooted)

lemma clean_stack_nonempty:
  "\<forall>t \<in> set st. t \<noteq> [] \<Longrightarrow> \<forall>t \<in> set (clean_stack rooted cs st). t \<noteq> []"
proof (induction cs arbitrary: st)
  case (Cons c cs)
  have "\<forall>t \<in> set (clean_step rooted c st). t \<noteq> []"
    using Cons.prems by (cases st) (simp_all add: clean_step_def)
  from Cons.IH [OF this] show ?case by (simp add: clean_stack_def)
qed simp

lemma path_clean_nonempty [simp]: "path_clean p \<noteq> []"
proof -
  have "\<forall>c \<in> set (clean_parts p). c \<noteq> []"
    using clean_stack_nonempty [of "[]"] by (simp add: clean_parts_def)
  then show ?thesis
    by (cases "clean_parts p" rule: join_slash.cases) (simp_all add: path_clean_def render_path_def)
qed

lemma path_abs_rooted:
  assumes "is_abs cwd"
  shows "\<exists>A. (\<forall>c \<in> set A. normal c) \<and> path_abs cwd p = render_path True A"
proof (cases "is_abs p")
  case True
  then show ?thesis using clean_parts_rooted [OF True] by (auto simp: path_abs_def path_clean_def)
next
  case False
  have cwd: "cwd \<noteq> []" and abs: "is_abs (cwd @ slash # p)"
    using assms by (cases cwd; simp add: is_abs_def)+
  have "path_abs cwd p = render_path True (clean_parts (cwd @ slash # p))"
    using False cwd abs by (simp add: path_abs_def path_join_def path_clean_def)
  with clean_parts_rooted [OF abs] show ?thesis by blast
qed

lemma path_abs_idem [simp]: "is_abs cwd \<Longrightarrow> path_abs cwd (path_abs cwd p) = path_abs cwd p"
proof -
  assume "is_abs cwd"
  then obtain A where A: "\<forall>c \<in> set A. normal c" "path_abs cwd p = render_path True A"
    using path_abs_rooted by blast
  then show ?thesis by (simp add: path_abs_def [of cwd "render_path True A"] is_abs_render path_clean_rooted)
qed

lemma path_abs_nonempty [simp]: "is_abs cwd \<Longrightarrow> path_abs cwd p \<noteq> []"
  by (drule path_abs_rooted [of cwd p]) (auto simp: render_path_def)

end
