(* ===== verification/Models.thy ===== *)
theory Models
  imports Go_Prelude
begin

text \<open>
  The data model of the daemon (\<open>daemon/models/job.go\<close> and \<open>daemon/models/schedule.go\<close>): job
  definitions with their export options, jobs with their status, progress and result, and
  scheduled jobs with their advanced configuration.  A Go pointer that may be nil is an
  option.  A \<open>float64\<close> that is only stored is kept as its bit pattern, a 64-bit word.  Of the
  values of a metadata map only strings are read, so \<open>MetaOther\<close> stands for the rest.
\<close>

section \<open>Job definitions\<close>

datatype job_status =
    JobStatusPending
  | JobStatusRunning
  | JobStatusCompleted
  | JobStatusFailed
  | JobStatusCancelled

record vcenter_config =
  vc_server :: string
  vc_username :: string
  vc_password :: string
  vc_insecure :: bool

record export_options =
  eo_parallel :: int
  eo_remove_cdrom :: bool
  eo_show_progress :: bool
  eo_enable_pipeline :: bool
  eo_h2kvm_path :: string
  eo_hyper2kvm_path :: string
  eo_inspect :: bool
  eo_fix :: bool
  eo_convert :: bool
  eo_validate :: bool
  eo_compress :: bool
  eo_compress_level :: int
  eo_enable_rdp :: "bool option"
  eo_libvirt :: bool
  eo_libvirt_uri :: string
  eo_libvirt_autostart :: bool
  eo_libvirt_bridge :: string
  eo_libvirt_pool :: string
  eo_h2kvm_daemon :: bool
  eo_h2kvm_instance :: string
  eo_h2kvm_watch :: string
  eo_h2kvm_output :: string
  eo_h2kvm_poll :: int
  eo_h2kvm_timeout :: int
  eo_hyper_daemon :: bool
  eo_hyper_instance :: string
  eo_hyper_watch :: string
  eo_hyper_output :: string
  eo_hyper_poll :: int
  eo_hyper_timeout :: int

text \<open>The zero value of the struct.\<close>

definition zero_export_options :: export_options where
  "zero_export_options =
     \<lparr>eo_parallel = 0, eo_remove_cdrom = False, eo_show_progress = False,
      eo_enable_pipeline = False, eo_h2kvm_path = [], eo_hyper2kvm_path = [], eo_inspect = False,
      eo_fix = False, eo_convert = False, eo_validate = False, eo_compress = False,
      eo_compress_level = 0, eo_enable_rdp = None, eo_libvirt = False, eo_libvirt_uri = [],
      eo_libvirt_autostart = False, eo_libvirt_bridge = [], eo_libvirt_pool = [],
      eo_h2kvm_daemon = False, eo_h2kvm_instance = [], eo_h2kvm_watch = [], eo_h2kvm_output = [],
      eo_h2kvm_poll = 0, eo_h2kvm_timeout = 0, eo_hyper_daemon = False, eo_hyper_instance = [],
      eo_hyper_watch = [], eo_hyper_output = [], eo_hyper_poll = 0, eo_hyper_timeout = 0\<rparr>"

datatype metaval = MetaString string | MetaOther

record job_definition =
  jd_id :: string
  jd_name :: string
  jd_vm_path :: string
  jd_output_path :: string
  jd_output_dir :: string
  jd_options :: "export_options option"
  jd_vcenter_url :: string
  jd_vcenter :: "vcenter_config option"
  jd_username :: string
  jd_password :: string
  jd_insecure :: bool
  jd_datacenter :: string
  jd_format :: string
  jd_provider :: string
  jd_export_method :: string
  jd_method :: string
  jd_compress :: bool
  jd_thin :: bool
  jd_enable_pipeline :: bool
  jd_enable_rdp :: "bool option"
  jd_created :: instant
  jd_metadata :: "(string, metaval) gomap option"

definition zero_job_definition :: job_definition where
  "zero_job_definition =
     \<lparr>jd_id = [], jd_name = [], jd_vm_path = [], jd_output_path = [], jd_output_dir = [],
      jd_options = None, jd_vcenter_url = [], jd_vcenter = None, jd_username = [],
      jd_password = [], jd_insecure = False, jd_datacenter = [], jd_format = [], jd_provider = [],
      jd_export_method = [], jd_method = [], jd_compress = False, jd_thin = False,
      jd_enable_pipeline = False, jd_enable_rdp = None, jd_created = 0, jd_metadata = None\<rparr>"

definition redacted :: "job_definition \<Rightarrow> job_definition" where
  "redacted d = (if jd_password d \<noteq> [] then d\<lparr>jd_password := ''***REDACTED***''\<rparr> else d)"

text \<open>
  \<open>ApplyH2KVMCompat\<close>: a field left unset (at its zero value \<open>z\<close>) takes its legacy value.
\<close>

definition unless_set :: "'a \<Rightarrow> 'a \<Rightarrow> 'a \<Rightarrow> 'a" where
  "unless_set z new old = (if new = z then old else new)"

definition apply_h2kvm_compat :: "export_options \<Rightarrow> export_options" where
  "apply_h2kvm_compat e =
     e\<lparr>eo_h2kvm_path := unless_set [] (eo_h2kvm_path e) (eo_hyper2kvm_path e),
       eo_h2kvm_daemon := unless_set False (eo_h2kvm_daemon e) (eo_hyper_daemon e),
       eo_h2kvm_instance := unless_set [] (eo_h2kvm_instance e) (eo_hyper_instance e),
       eo_h2kvm_watch := unless_set [] (eo_h2kvm_watch e) (eo_hyper_watch e),
       eo_h2kvm_output := unless_set [] (eo_h2kvm_output e) (eo_hyper_output e),
       eo_h2kvm_poll := unless_set 0 (eo_h2kvm_poll e) (eo_hyper_poll e),
       eo_h2kvm_timeout := unless_set 0 (eo_h2kvm_timeout e) (eo_hyper_timeout e)\<rparr>"

section \<open>Jobs\<close>

record job_progress =
  pg_phase :: string
  pg_current_file :: string
  pg_current_step :: string
  pg_files_downloaded :: int
  pg_total_files :: int
  pg_bytes_downloaded :: int
  pg_bytes_transferred :: int
  pg_total_bytes :: int
  pg_percent :: "64 word"
  pg_remaining :: string
  pg_export_method :: string

text \<open>The progress a job starts with: its phase, the other fields zero.\<close>

definition phase_progress :: "string \<Rightarrow> job_progress" where
  "phase_progress p =
     \<lparr>pg_phase = p, pg_current_file = [], pg_current_step = [], pg_files_downloaded = 0,
      pg_total_files = 0, pg_bytes_downloaded = 0, pg_bytes_transferred = 0, pg_total_bytes = 0,
      pg_percent = 0, pg_remaining = [], pg_export_method = []\<rparr>"

record export_result =
  er_vm_name :: string
  er_output_dir :: string
  er_ovf_path :: string
  er_files :: "string list"
  er_output_files :: "string list"
  er_total_size :: int
  er_duration :: duration
  er_success :: bool
  er_method :: string
  er_error :: string

record job =
  job_def :: job_definition
  job_stat :: job_status
  job_prog :: "job_progress option"
  job_res :: "export_result option"
  job_error :: string
  job_started :: "instant option"
  job_completed :: "instant option"
  job_updated :: instant

record daemon_status =
  ds_version :: string
  ds_uptime :: duration
  ds_total :: int
  ds_running :: int
  ds_completed :: int
  ds_failed :: int
  ds_cancelled :: int
  ds_timestamp :: instant

section \<open>Scheduled jobs\<close>

record job_dependency =
  dep_job :: string
  dep_state :: string
  dep_timeout :: int

record retry_policy =
  rp_max_attempts :: int
  rp_initial_delay :: int
  rp_max_delay :: int
  rp_strategy :: string
  rp_retry_on :: "string list"

record time_window =
  tw_start :: string
  tw_end :: string
  tw_days :: "string list"
  tw_zone :: string

record job_condition =
  jc_type :: string
  jc_operator :: string
  jc_value :: metaval
  jc_params :: "(string, metaval) gomap"

record advanced_config =
  ac_depends :: "job_dependency list"
  ac_retry :: "retry_policy option"
  ac_windows :: "time_window list"
  ac_priority :: int
  ac_conditions :: "job_condition list"
  ac_max_concurrent :: int
  ac_skip_if_running :: bool
  ac_notify_start :: bool
  ac_notify_success :: bool
  ac_notify_failure :: bool
  ac_notify_retry :: bool

definition zero_advanced_config :: advanced_config where
  "zero_advanced_config =
     \<lparr>ac_depends = [], ac_retry = None, ac_windows = [], ac_priority = 0, ac_conditions = [],
      ac_max_concurrent = 0, ac_skip_if_running = False, ac_notify_start = False,
      ac_notify_success = False, ac_notify_failure = False, ac_notify_retry = False\<rparr>"

record scheduled_job =
  sj_id :: string
  sj_name :: string
  sj_description :: string
  sj_schedule :: string
  sj_template :: job_definition
  sj_enabled :: bool
  sj_created :: instant
  sj_updated :: instant
  sj_next_run :: instant
  sj_last_run :: "instant option"
  sj_run_count :: int
  sj_tags :: "string list option"
  sj_advanced :: "advanced_config option"

section \<open>Lemmas\<close>

lemma redacted_idem: "redacted (redacted d) = redacted d"
  by (simp add: redacted_def)

lemma redacted_hides: "jd_password (redacted d) \<in> {[], ''***REDACTED***''}"
  by (simp add: redacted_def)

lemma unless_set_idem [simp]: "unless_set z (unless_set z a b) b = unless_set z a b"
  by (simp add: unless_set_def)

lemma apply_h2kvm_compat_daemon:
  "eo_h2kvm_daemon (apply_h2kvm_compat e) \<longleftrightarrow> eo_h2kvm_daemon e \<or> eo_hyper_daemon e"
  by (simp add: apply_h2kvm_compat_def unless_set_def)

lemma apply_h2kvm_compat_idem: "apply_h2kvm_compat (apply_h2kvm_compat e) = apply_h2kvm_compat e"
  by (simp add: apply_h2kvm_compat_def)

end
