(* ===== verification/Job_Queue.thy ===== *)
theory Job_Queue
  imports Go_Heap
begin

text \<open>
  The priority job queue of \<open>daemon/queue/queue.go\<close>: the heap of jobs with its capacity,
  the metrics the operations maintain, the workers that take and retry jobs, and the
  bounded channel of results.  The handler that runs a job is a parameter: a run is given by
  its outcome (\<open>handler_run\<close>).  Locks make every operation one step; \<open>queue_step\<close> interleaves
  the steps of callers, workers and the result collector.
\<close>

section \<open>Data\<close>

record 'p qjob =
  qj_id :: string
  qj_priority :: int
  qj_submitted :: instant
  qj_payload :: 'p
  qj_retry :: int
  qj_max :: int
  qj_timeout :: duration

datatype priority = PriorityLow | PriorityNormal | PriorityHigh | PriorityCritical

fun priority_int :: "priority \<Rightarrow> int" where
  "priority_int PriorityLow = 0"
| "priority_int PriorityNormal = 1"
| "priority_int PriorityHigh = 2"
| "priority_int PriorityCritical = 3"

instantiation priority :: linorder
begin

definition less_eq_priority :: "priority \<Rightarrow> priority \<Rightarrow> bool" where
  "less_eq_priority a b \<longleftrightarrow> priority_int a \<le> priority_int b"

definition less_priority :: "priority \<Rightarrow> priority \<Rightarrow> bool" where
  "less_priority a b \<longleftrightarrow> priority_int a < priority_int b"

instance
proof
  fix a b :: priority
  show "a \<le> b \<Longrightarrow> b \<le> a \<Longrightarrow> a = b"
    by (cases a; cases b) (simp_all add: less_eq_priority_def)
qed (auto simp: less_eq_priority_def less_priority_def)

end

definition priority_string :: "int \<Rightarrow> string" where
  "priority_string p =
     (if p = priority_int PriorityLow then ''low''
      else if p = priority_int PriorityNormal then ''normal''
      else if p = priority_int PriorityHigh then ''high''
      else if p = priority_int PriorityCritical then ''critical''
      else ''unknown'')"

record q_config =
  max_workers :: int
  max_queue_size :: int
  default_timeout :: duration
  enable_metrics :: bool

definition default_q_config :: q_config where
  "default_q_config =
     \<lparr>max_workers = 10, max_queue_size = 1000, default_timeout = 30 * minute,
      enable_metrics = True\<rparr>"

datatype queue_error = HandlerRequired | MaxWorkersNotPositive | QueueFull int | QueueEmpty

datatype run_error =
    HandlerFailed string
  | JobTimeout duration
  | RetryFailed queue_error run_error

record job_result =
  jr_id :: string
  jr_success :: bool
  jr_error :: "run_error option"
  jr_started :: instant
  jr_ended :: instant
  jr_duration :: duration

record q_metrics =
  m_enqueued :: int
  m_dequeued :: int
  m_completed :: int
  m_failed :: int
  m_timeout :: int
  m_retried :: int
  m_size :: int
  m_active :: int
  m_avg_wait :: duration
  m_avg_processing :: duration

definition zero_metrics :: q_metrics where
  "zero_metrics =
     \<lparr>m_enqueued = 0, m_dequeued = 0, m_completed = 0, m_failed = 0, m_timeout = 0,
      m_retried = 0, m_size = 0, m_active = 0, m_avg_wait = 0, m_avg_processing = 0\<rparr>"

record 'p queue =
  q_config :: q_config
  q_pq :: "'p qjob list"
  q_metrics :: q_metrics
  q_results :: "job_result list"
  q_busy :: "bool list"

text \<open>The capacity of the channel \<open>results\<close>.\<close>

definition results_cap :: nat where "results_cap = 100"

section \<open>Operations\<close>

text \<open>\<open>priorityQueue.Less\<close>: higher priority first, then earlier submission.\<close>

definition pq_less :: "'p qjob \<Rightarrow> 'p qjob \<Rightarrow> bool" where
  "pq_less a b =
     (if qj_priority a \<noteq> qj_priority b then qj_priority a > qj_priority b
      else qj_submitted a < qj_submitted b)"

definition new_queue :: "q_config option \<Rightarrow> bool \<Rightarrow> queue_error + 'p queue" where
  "new_queue config has_handler =
     (let c = (case config of None \<Rightarrow> default_q_config | Some c \<Rightarrow> c)
      in if \<not> has_handler then Inl HandlerRequired
         else if max_workers c \<le> 0 then Inl MaxWorkersNotPositive
         else Inr \<lparr>q_config = c, q_pq = [], q_metrics = zero_metrics, q_results = [],
                   q_busy = replicate (nat (max_workers c)) False\<rparr>)"

definition queue_size :: "'p queue \<Rightarrow> int" where
  "queue_size q = int (length (q_pq q))"

definition queue_is_empty :: "'p queue \<Rightarrow> bool" where
  "queue_is_empty q \<longleftrightarrow> queue_size q = 0"

definition queue_is_full :: "'p queue \<Rightarrow> bool" where
  "queue_is_full q \<longleftrightarrow> max_queue_size (q_config q) \<le> queue_size q"

definition set_job_defaults :: "instant \<Rightarrow> q_config \<Rightarrow> 'p qjob \<Rightarrow> 'p qjob" where
  "set_job_defaults now c job =
     (let job = (if qj_submitted job = 0 then job\<lparr>qj_submitted := now\<rparr> else job)
      in if qj_timeout job = 0 then job\<lparr>qj_timeout := default_timeout c\<rparr> else job)"

definition enqueue :: "instant \<Rightarrow> 'p qjob \<Rightarrow> 'p queue \<Rightarrow> queue_error + 'p queue" where
  "enqueue now job q =
     (let c = q_config q
      in if max_queue_size c \<le> int (length (q_pq q)) then Inl (QueueFull (max_queue_size c))
         else let pq = heap_push pq_less (set_job_defaults now c job) (q_pq q);
                  q = q\<lparr>q_pq := pq\<rparr>;
                  m = q_metrics q
              in Inr (if enable_metrics c
                      then q\<lparr>q_metrics := m\<lparr>m_enqueued := m_enqueued m + 1,
                                            m_size := int (length pq)\<rparr>\<rparr>
                      else q))"

definition dequeue :: "'p queue \<Rightarrow> queue_error + ('p qjob \<times> 'p queue)" where
  "dequeue q =
     (case heap_pop pq_less (q_pq q) of
        None \<Rightarrow> Inl QueueEmpty
      | Some (job, pq) \<Rightarrow>
          let q = q\<lparr>q_pq := pq\<rparr>; m = q_metrics q
          in Inr (job,
               if enable_metrics (q_config q)
               then q\<lparr>q_metrics := m\<lparr>m_dequeued := m_dequeued m + 1,
                                     m_size := int (length pq)\<rparr>\<rparr>
               else q))"

definition active_worker_count :: "'p queue \<Rightarrow> int" where
  "active_worker_count q = int (length (filter (\<lambda>b. b) (q_busy q)))"

definition get_metrics :: "'p queue \<Rightarrow> q_metrics \<times> 'p queue" where
  "get_metrics q =
     (let m = (q_metrics q)\<lparr>m_active := active_worker_count q\<rparr>
      in (m, q\<lparr>q_metrics := m\<rparr>))"

definition handle_result :: "job_result \<Rightarrow> 'p queue \<Rightarrow> 'p queue" where
  "handle_result r q =
     (if \<not> enable_metrics (q_config q) then q
      else let m = q_metrics q;
               m = (if jr_success r then m\<lparr>m_completed := m_completed m + 1\<rparr>
                    else m\<lparr>m_failed := m_failed m + 1\<rparr>);
               m = (if 0 < m_completed m
                    then m\<lparr>m_avg_processing :=
                            (m_completed m * m_avg_processing m + jr_duration r)
                              sdiv (m_completed m + 1)\<rparr>
                    else m\<lparr>m_avg_processing := jr_duration r\<rparr>)
           in q\<lparr>q_metrics := m\<rparr>)"

text \<open>\<open>collectResults\<close> receives the oldest result of the channel.\<close>

definition collect_result :: "'p queue \<Rightarrow> 'p queue option" where
  "collect_result q =
     (case q_results q of
        [] \<Rightarrow> None
      | r # rs \<Rightarrow> Some (handle_result r (q\<lparr>q_results := rs\<rparr>)))"

definition set_busy :: "nat \<Rightarrow> bool \<Rightarrow> 'p queue \<Rightarrow> 'p queue" where
  "set_busy w b q = q\<lparr>q_busy := (q_busy q)[w := b]\<rparr>"

text \<open>
  One run of the handler: when it started and ended, the error it returned, whether the
  job's context had exceeded its deadline, and the instant of the re-enqueue of a retry.
\<close>

record handler_run =
  hr_started :: instant
  hr_ended :: instant
  hr_error :: "string option"
  hr_deadline :: bool
  hr_requeue :: instant

definition run_outcome :: "handler_run \<Rightarrow> run_error option" where
  "run_outcome h =
     (if hr_deadline h then Some (JobTimeout (hr_ended h - hr_started h))
      else map_option HandlerFailed (hr_error h))"

definition send_result :: "job_result \<Rightarrow> 'p queue \<Rightarrow> 'p queue" where
  "send_result r q =
     (if length (q_results q) < results_cap then q\<lparr>q_results := q_results q @ [r]\<rparr> else q)"

definition make_result :: "handler_run \<Rightarrow> 'p qjob \<Rightarrow> run_error option \<Rightarrow> job_result" where
  "make_result h job err =
     \<lparr>jr_id = qj_id job, jr_success = (err = None), jr_error = err,
      jr_started = hr_started h, jr_ended = hr_ended h,
      jr_duration = hr_ended h - hr_started h\<rparr>"

definition note_timeout :: "handler_run \<Rightarrow> 'p queue \<Rightarrow> 'p queue" where
  "note_timeout h q =
     (if hr_deadline h
      then q\<lparr>q_metrics := (q_metrics q)\<lparr>m_timeout := m_timeout (q_metrics q) + 1\<rparr>\<rparr>
      else q)"

definition note_retry :: "'p queue \<Rightarrow> 'p queue" where
  "note_retry q = q\<lparr>q_metrics := (q_metrics q)\<lparr>m_retried := m_retried (q_metrics q) + 1\<rparr>\<rparr>"

text \<open>The retry branch: count the retry, put the job back, or report why it could not be.\<close>

definition retry_job :: "handler_run \<Rightarrow> 'p qjob \<Rightarrow> run_error \<Rightarrow> 'p queue \<Rightarrow> 'p queue" where
  "retry_job h job e q =
     (let job = job\<lparr>qj_retry := qj_retry job + 1\<rparr>; q = note_retry q
      in case enqueue (hr_requeue h) job q of
           Inl f \<Rightarrow> send_result (make_result h job (Some (RetryFailed f e))) q
         | Inr q' \<Rightarrow> q')"

definition process_job :: "nat \<Rightarrow> handler_run \<Rightarrow> 'p qjob \<Rightarrow> 'p queue \<Rightarrow> 'p queue" where
  "process_job w h job q =
     (let q = note_timeout h (set_busy w True q);
          q = (case run_outcome h of
                 Some e \<Rightarrow>
                   if qj_retry job < qj_max job then retry_job h job e q
                   else send_result (make_result h job (Some e)) q
               | None \<Rightarrow> send_result (make_result h job None) q)
      in set_busy w False q)"

text \<open>
  A worker's loop on a queue nobody adds to: it takes jobs until the queue is empty.  The
  result is the order in which the jobs are run.
\<close>

function drain :: "'p queue \<Rightarrow> 'p qjob list" where
  "drain q = (case dequeue q of Inl _ \<Rightarrow> [] | Inr (j, q') \<Rightarrow> j # drain q')"
  by pat_completeness auto
termination
proof (relation "measure (\<lambda>q. length (q_pq q))")
  fix q :: "'p queue" and p j q'
  assume deq: "dequeue q = Inr p" and p: "(j, q') = p"
  show "(q', q) \<in> measure (\<lambda>q. length (q_pq q))"
  proof (cases "heap_pop pq_less (q_pq q)")
    case None
    with deq show ?thesis by (simp add: dequeue_def)
  next
    case (Some r)
    obtain x ys where r: "r = (x, ys)" by (cases r)
    have "length ys < length (q_pq q)"
      using heap_pop_parts(1,3) [OF Some [unfolded r]] by (cases "q_pq q") auto
    moreover have "q_pq q' = ys"
      using deq p Some r by (auto simp: dequeue_def Let_def split: if_splits)
    ultimately show ?thesis by simp
  qed
qed simp

declare drain.simps [simp del]

section \<open>The heap order\<close>

interpretation pq: heap_less "pq_less :: 'p qjob \<Rightarrow> 'p qjob \<Rightarrow> bool"
  by unfold_locales (auto simp: pq_less_def split: if_splits)

text \<open>Jobs submitted at a declared priority are ordered by the order of the priorities.\<close>

lemma pq_less_priority:
  "qj_priority a = priority_int x \<Longrightarrow> qj_priority b = priority_int y \<Longrightarrow> y < x \<Longrightarrow> pq_less a b"
  by (simp add: pq_less_def less_priority_def)

section \<open>Facts about single operations\<close>

lemma enqueue_parts:
  assumes "enqueue now job q = Inr q'"
  shows "q_pq q' = heap_push pq_less (set_job_defaults now (q_config q) job) (q_pq q)"
    and "q_config q' = q_config q" and "q_results q' = q_results q" and "q_busy q' = q_busy q"
    and "int (length (q_pq q)) < max_queue_size (q_config q)"
    and "q_metrics q' =
           (if enable_metrics (q_config q)
            then (q_metrics q)\<lparr>m_enqueued := m_enqueued (q_metrics q) + 1,
                               m_size := int (length (q_pq q) + 1)\<rparr>
            else q_metrics q)"
  using assms by (auto simp: enqueue_def Let_def split: if_splits)

lemma dequeue_Inl_iff: "dequeue q = Inl e \<longleftrightarrow> e = QueueEmpty \<and> q_pq q = []"
proof (cases "heap_pop pq_less (q_pq q)")
  case None
  then show ?thesis by (auto simp: dequeue_def)
next
  case (Some r)
  then have "q_pq q \<noteq> []" by (metis heap_pop_None_iff option.distinct(1))
  with Some show ?thesis by (simp add: dequeue_def Let_def split: prod.splits)
qed

lemma dequeue_parts:
  assumes "dequeue q = Inr (j, q')"
  shows "heap_pop pq_less (q_pq q) = Some (j, q_pq q')"
    and "q_config q' = q_config q" and "q_results q' = q_results q" and "q_busy q' = q_busy q"
    and "q_metrics q' =
           (if enable_metrics (q_config q)
            then (q_metrics q)\<lparr>m_dequeued := m_dequeued (q_metrics q) + 1,
                               m_size := int (length (q_pq q'))\<rparr>
            else q_metrics q)"
  using assms by (auto simp: dequeue_def Let_def split: option.splits if_splits)

lemma dequeue_best:
  assumes heap: "is_heap pq_less (q_pq q)" and deq: "dequeue q = Inr (j, q')"
  shows "mset (q_pq q) = add_mset j (mset (q_pq q'))"
    and "\<And>k. k \<in> set (q_pq q) \<Longrightarrow> \<not> pq_less k j"
    and "is_heap pq_less (q_pq q')"
  using heap_pop_parts(4) [OF dequeue_parts(1) [OF deq]]
    pq.heap_pop_min [OF heap dequeue_parts(1) [OF deq]]
    pq.heap_pop_heap [OF heap dequeue_parts(1) [OF deq]]
  by blast+

lemma drain_sorted:
  "is_heap pq_less (q_pq q) \<Longrightarrow>
   mset (drain q) = mset (q_pq q) \<and> sorted_wrt (\<lambda>a b. \<not> pq_less b a) (drain q)"
proof (induction q rule: drain.induct)
  case (1 q)
  show ?case
  proof (cases "dequeue q")
    case (Inl e)
    then have "q_pq q = []" using dequeue_Inl_iff by blast
    with Inl show ?thesis by (subst (1 2) drain.simps) simp
  next
    case (Inr p)
    obtain j q' where p: "p = (j, q')" by (cases p)
    note deq = Inr [unfolded p]
    note best = dequeue_best [OF "1.prems" deq]
    have ih: "mset (drain q') = mset (q_pq q')" "sorted_wrt (\<lambda>a b. \<not> pq_less b a) (drain q')"
      using "1.IH" [OF Inr, of j q'] p best(3) by auto
    have "set (drain q') \<subseteq> set (q_pq q)"
      using ih(1) best(1) by (metis mset_eq_setD set_mset_mset set_mset_add_mset_insert subset_insertI)
    with best ih deq show ?thesis
      by (subst (1 2) drain.simps) auto
  qed
qed

section \<open>Interleaving\<close>

text \<open>
  The state of a running queue: the queue, and the job each worker holds between its
  \<open>Dequeue\<close> and the end of \<open>processJob\<close>.  Callers enqueue, workers take and finish jobs and
  the collector receives results, in any order.
\<close>

record 'p qsys =
  qs_queue :: "'p queue"
  qs_held :: "nat \<Rightarrow> 'p qjob option"

inductive queue_step :: "'p qsys \<Rightarrow> 'p qsys \<Rightarrow> bool" where
  submit: "enqueue now job (qs_queue s) = Inr q \<Longrightarrow> queue_step s (s\<lparr>qs_queue := q\<rparr>)"
| take: "w < length (q_busy (qs_queue s)) \<Longrightarrow> qs_held s w = None \<Longrightarrow>
     dequeue (qs_queue s) = Inr (j, q) \<Longrightarrow>
     queue_step s (s\<lparr>qs_queue := q, qs_held := (qs_held s)(w := Some j)\<rparr>)"
| finish: "qs_held s w = Some j \<Longrightarrow>
     queue_step s (s\<lparr>qs_queue := process_job w h j (qs_queue s),
                     qs_held := (qs_held s)(w := None)\<rparr>)"
| collect: "collect_result (qs_queue s) = Some q \<Longrightarrow> queue_step s (s\<lparr>qs_queue := q\<rparr>)"

inductive queue_reachable :: "q_config \<Rightarrow> 'p qsys \<Rightarrow> bool" for c where
  start: "new_queue (Some c) True = Inr q \<Longrightarrow>
     queue_reachable c \<lparr>qs_queue = q, qs_held = (\<lambda>_. None)\<rparr>"
| step: "queue_reachable c s \<Longrightarrow> queue_step s t \<Longrightarrow> queue_reachable c t"

inductive_cases queue_stepE: "queue_step s t"

text \<open>
  What the operations keep true: the heap shape, the capacity, the metrics that count the
  queue's length, and the bound on the result channel.
\<close>

definition queue_inv :: "q_config \<Rightarrow> 'p queue \<Rightarrow> bool" where
  "queue_inv c q \<longleftrightarrow>
     q_config q = c \<and>
     is_heap pq_less (q_pq q) \<and>
     int (length (q_pq q)) \<le> max 0 (max_queue_size c) \<and>
     length (q_results q) \<le> results_cap \<and>
     length (q_busy q) = nat (max_workers c) \<and>
     (enable_metrics c \<longrightarrow>
        m_size (q_metrics q) = int (length (q_pq q)) \<and>
        m_enqueued (q_metrics q) - m_dequeued (q_metrics q) = int (length (q_pq q)))"

lemma queue_inv_new: "new_queue (Some c) True = Inr q \<Longrightarrow> queue_inv c q"
  by (auto simp: new_queue_def queue_inv_def zero_metrics_def Let_def split: if_splits)

lemma queue_inv_enqueue:
  assumes "queue_inv c q" and "enqueue now job q = Inr q'"
  shows "queue_inv c q'"
  using assms(1) enqueue_parts [OF assms(2)]
  by (auto simp: queue_inv_def pq.heap_push_heap)

lemma queue_inv_dequeue:
  assumes "queue_inv c q" and "dequeue q = Inr (j, q')"
  shows "queue_inv c q'"
proof -
  have "length (q_pq q') = length (q_pq q) - 1" "q_pq q \<noteq> []"
    using heap_pop_parts(1,3) [OF dequeue_parts(1) [OF assms(2)]] by auto
  then have "int (length (q_pq q')) = int (length (q_pq q)) - 1" by (cases "q_pq q") auto
  then show ?thesis
    using assms(1) dequeue_parts [OF assms(2)] dequeue_best(3) [OF _ assms(2)]
    by (auto simp: queue_inv_def)
qed

lemma queue_inv_set_busy [simp]: "queue_inv c (set_busy w b q) \<longleftrightarrow> queue_inv c q"
  by (simp add: queue_inv_def set_busy_def)

lemma queue_inv_send_result [simp]: "queue_inv c q \<Longrightarrow> queue_inv c (send_result r q)"
  by (auto simp: queue_inv_def send_result_def)

lemma queue_inv_metrics:
  "m_size m = m_size (q_metrics q) \<Longrightarrow> m_enqueued m = m_enqueued (q_metrics q) \<Longrightarrow>
   m_dequeued m = m_dequeued (q_metrics q) \<Longrightarrow>
   queue_inv c (q\<lparr>q_metrics := m\<rparr>) \<longleftrightarrow> queue_inv c q"
  by (simp add: queue_inv_def)

lemma queue_inv_note [simp]:
  "queue_inv c (note_timeout h q) \<longleftrightarrow> queue_inv c q"
  "queue_inv c (note_retry q) \<longleftrightarrow> queue_inv c q"
  by (simp_all add: note_timeout_def note_retry_def queue_inv_metrics)

lemma queue_inv_retry_job: "queue_inv c q \<Longrightarrow> queue_inv c (retry_job h j e q)"
  by (auto simp: retry_job_def Let_def intro: queue_inv_enqueue [of c "note_retry q"]
      split: sum.splits)

lemma queue_inv_process_job: "queue_inv c q \<Longrightarrow> queue_inv c (process_job w h j q)"
  by (auto simp: process_job_def Let_def intro!: queue_inv_retry_job split: option.splits)

lemma queue_inv_handle_result: "queue_inv c q \<Longrightarrow> queue_inv c (handle_result r q)"
  by (auto simp: handle_result_def Let_def queue_inv_metrics)

lemma queue_inv_results:
  "queue_inv c q \<Longrightarrow> length rs \<le> results_cap \<Longrightarrow> queue_inv c (q\<lparr>q_results := rs\<rparr>)"
  by (simp add: queue_inv_def)

lemma queue_inv_collect:
  assumes "queue_inv c q" and "collect_result q = Some q'"
  shows "queue_inv c q'"
proof -
  obtain r rs where rs: "q_results q = r # rs" "q' = handle_result r (q\<lparr>q_results := rs\<rparr>)"
    using assms(2) by (auto simp: collect_result_def split: list.splits)
  then have "length rs \<le> results_cap" using assms(1) by (auto simp: queue_inv_def)
  with assms(1) rs show ?thesis by (simp add: queue_inv_handle_result queue_inv_results)
qed

lemma queue_inv_step: "queue_step s t \<Longrightarrow> queue_inv c (qs_queue s) \<Longrightarrow> queue_inv c (qs_queue t)"
  by (induction rule: queue_step.induct)
     (auto intro: queue_inv_enqueue queue_inv_dequeue queue_inv_process_job queue_inv_collect)

lemma queue_reachable_inv: "queue_reachable c s \<Longrightarrow> queue_inv c (qs_queue s)"
  by (induction rule: queue_reachable.induct) (auto intro: queue_inv_new queue_inv_step)

lemma process_job_config [simp]: "q_config (set_busy w b q) = q_config q"
  "q_config (note_timeout h q) = q_config q" "q_config (note_retry q) = q_config q"
  by (simp_all add: set_busy_def note_timeout_def note_retry_def)

lemma process_job_parts [simp]:
  "q_pq (set_busy w b q) = q_pq q" "q_results (set_busy w b q) = q_results q"
  "q_pq (note_timeout h q) = q_pq q" "q_results (note_timeout h q) = q_results q"
  "q_pq (note_retry q) = q_pq q" "q_results (note_retry q) = q_results q"
  "q_pq (send_result r q) = q_pq q"
  "q_results (send_result r q) =
     (if length (q_results q) < results_cap then q_results q @ [r] else q_results q)"
  by (simp_all add: set_busy_def note_timeout_def note_retry_def send_result_def)

lemma make_result_parts [simp]:
  "jr_id (make_result h j e) = qj_id j" "jr_success (make_result h j e) \<longleftrightarrow> e = None"
  "jr_duration (make_result h j e) = hr_ended h - hr_started h"
  by (simp_all add: make_result_def)

section \<open>A sample queue\<close>

definition sample_job :: "string \<Rightarrow> int \<Rightarrow> instant \<Rightarrow> unit qjob" where
  "sample_job i p t =
     \<lparr>qj_id = i, qj_priority = p, qj_submitted = t, qj_payload = (), qj_retry = 0, qj_max = 1,
      qj_timeout = 0\<rparr>"

definition sample_config :: q_config where
  "sample_config =
     \<lparr>max_workers = 1, max_queue_size = 2, default_timeout = minute, enable_metrics = True\<rparr>"

definition sample_start :: "unit queue" where
  "sample_start =
     \<lparr>q_config = sample_config, q_pq = [], q_metrics = zero_metrics, q_results = [],
      q_busy = [False]\<rparr>"

definition sample_queue :: "unit queue" where
  "sample_queue =
     (case enqueue 0 (sample_job ''a'' 0 5) sample_start of
        Inl _ \<Rightarrow> sample_start
      | Inr q \<Rightarrow> (case enqueue 0 (sample_job ''b'' 3 7) q of Inl _ \<Rightarrow> q | Inr q' \<Rightarrow> q'))"

lemmas sample_defs = sample_job_def sample_config_def sample_start_def enqueue_def
  set_job_defaults_def zero_metrics_def heap_push_def swap_def par_def pq_less_def

lemma sample_heap: "heap_up pq_less 0 xs = xs"
  "heap_up pq_less (Suc 0) [sample_job i p t, y] =
     (if pq_less y (sample_job i p t) then [y, sample_job i p t] else [sample_job i p t, y])"
  by (simp_all add: heap_up.simps [of _ 0] heap_up.simps [of _ "Suc 0"] par_def swap_def Let_def)

lemma sample_reachable:
  "queue_reachable sample_config \<lparr>qs_queue = sample_queue, qs_held = (\<lambda>_. None)\<rparr>"
proof -
  let ?s = "\<lambda>q. \<lparr>qs_queue = q, qs_held = (\<lambda>_. None)\<rparr> :: unit qsys"
  have start: "queue_reachable sample_config (?s sample_start)"
    by (rule queue_reachable.start)
       (simp add: new_queue_def sample_start_def sample_config_def)
  have one: "\<exists>q. enqueue 0 (sample_job ''a'' 0 5) sample_start = Inr q \<and> length (q_pq q) = 1
      \<and> q_config q = sample_config"
    by (simp add: enqueue_def sample_start_def sample_config_def Let_def)
  then obtain q1 where q1: "enqueue 0 (sample_job ''a'' 0 5) sample_start = Inr q1"
    and l1: "length (q_pq q1) = 1" and c1: "q_config q1 = sample_config" by blast
  have r1: "queue_reachable sample_config (?s q1)"
    using queue_reachable.step [OF start queue_step.submit] q1 by simp
  obtain q2 where q2: "enqueue 0 (sample_job ''b'' 3 7) q1 = Inr q2"
    using l1 c1 by (simp add: enqueue_def sample_config_def Let_def)
  have "queue_reachable sample_config (?s q2)"
    using queue_reachable.step [OF r1 queue_step.submit] q2 by simp
  with q1 q2 show ?thesis by (simp add: sample_queue_def)
qed

lemma sample_dequeue:
  "\<exists>j q'. dequeue sample_queue = Inr (j, q') \<and> qj_id j = ''b'' \<and> map qj_id (q_pq q') = [''a'']"
proof -
  have "(case dequeue sample_queue of Inl _ \<Rightarrow> False
         | Inr (j, q') \<Rightarrow> qj_id j = ''b'' \<and> map qj_id (q_pq q') = [''a''])"
    by code_simp
  then show ?thesis by (auto split: sum.splits)
qed

lemma sample_drain: "map qj_id (drain sample_queue) = [''b'', ''a'']"
  by code_simp

section \<open>Properties\<close>

text \<open>
  C3: in every reachable state a dequeue removes exactly one job from the queue, and it is a
  job of the highest priority present and, among those, of the earliest submission.
\<close>
theorem dequeue_highest_first:
  assumes "queue_reachable c s" and "dequeue (qs_queue s) = Inr (j, q')"
  shows "mset (q_pq (qs_queue s)) = add_mset j (mset (q_pq q')) \<and>
         (\<forall>k \<in> set (q_pq (qs_queue s)).
            qj_priority k < qj_priority j \<or>
            qj_priority k = qj_priority j \<and> qj_submitted j \<le> qj_submitted k)"
proof -
  have heap: "is_heap pq_less (q_pq (qs_queue s))"
    using queue_reachable_inv [OF assms(1)] by (simp add: queue_inv_def)
  note best = dequeue_best [OF heap assms(2)]
  have "qj_priority k < qj_priority j \<or>
        qj_priority k = qj_priority j \<and> qj_submitted j \<le> qj_submitted k"
    if "k \<in> set (q_pq (qs_queue s))" for k
    using best(2) [OF that] by (auto simp: pq_less_def split: if_splits)
  with best(1) show ?thesis by blast
qed

theorem dequeue_highest_first_witness:
  "\<exists>j q'. dequeue sample_queue = Inr (j, q') \<and> qj_id j = ''b'' \<and>
     (\<forall>k \<in> set (q_pq sample_queue).
        qj_priority k < qj_priority j \<or>
        qj_priority k = qj_priority j \<and> qj_submitted j \<le> qj_submitted k)"
proof -
  obtain j q' where deq: "dequeue sample_queue = Inr (j, q')" and j: "qj_id j = ''b''"
    using sample_dequeue by blast
  from dequeue_highest_first [OF sample_reachable, of j q'] deq j show ?thesis by auto
qed

text \<open>
  On a queue nobody adds to, a worker's loop runs every queued job exactly once, in
  order of priority and, within a priority, of submission.
\<close>
theorem drain_in_priority_order:
  assumes "queue_reachable c s"
  shows "mset (drain (qs_queue s)) = mset (q_pq (qs_queue s)) \<and>
         sorted_wrt (\<lambda>a b. qj_priority b < qj_priority a \<or>
                          qj_priority a = qj_priority b \<and> qj_submitted a \<le> qj_submitted b)
                    (drain (qs_queue s))"
proof -
  have "is_heap pq_less (q_pq (qs_queue s))"
    using queue_reachable_inv [OF assms] by (simp add: queue_inv_def)
  note sorted = drain_sorted [OF this]
  have "(\<lambda>a b. \<not> pq_less b a) =
        (\<lambda>a b :: 'a qjob. qj_priority b < qj_priority a \<or>
                 qj_priority a = qj_priority b \<and> qj_submitted a \<le> qj_submitted b)"
    by (auto simp: pq_less_def fun_eq_iff)
  with sorted show ?thesis by simp
qed

theorem drain_in_priority_order_witness:
  "map qj_id (drain sample_queue) = [''b'', ''a''] \<and>
   mset (drain sample_queue) = mset (q_pq sample_queue)"
  using drain_in_priority_order [OF sample_reachable] sample_drain by simp

text \<open>
  C6: in every reachable state the queue holds at most \<open>MaxQueueSize\<close> jobs and the result
  channel at most its capacity, and with metrics enabled the size metric and the difference
  of the enqueue and dequeue counters are the number of queued jobs.
\<close>
theorem queue_capacity_and_metrics:
  assumes "queue_reachable c s"
  shows "int (length (q_pq (qs_queue s))) \<le> max 0 (max_queue_size c) \<and>
         length (q_results (qs_queue s)) \<le> results_cap \<and>
         (if enable_metrics c
          then m_size (q_metrics (qs_queue s)) = int (length (q_pq (qs_queue s))) \<and>
               m_enqueued (q_metrics (qs_queue s)) - m_dequeued (q_metrics (qs_queue s)) =
                 int (length (q_pq (qs_queue s)))
          else True)"
  using queue_reachable_inv [OF assms] by (simp add: queue_inv_def)

theorem queue_capacity_and_metrics_witness:
  "int (length (q_pq sample_queue)) \<le> 2 \<and> m_size (q_metrics sample_queue) = 2"
proof -
  have "length (q_pq sample_queue) = 2" by code_simp
  with queue_capacity_and_metrics [OF sample_reachable] show ?thesis
    by (simp add: sample_config_def)
qed

text \<open>
  A processed job is never silently lost.  Either it is back in the queue with its retry
  count one higher and not above its maximum, or exactly its result was sent to the result
  channel, with success exactly when the handler returned no error in time; a result is
  dropped only when the channel is full.
\<close>
theorem process_job_accounts:
  "(\<exists>t. mset (q_pq (process_job w h j q)) = add_mset t (mset (q_pq q)) \<and>
        qj_id t = qj_id j \<and> qj_retry t = qj_retry j + 1 \<and> qj_retry t \<le> qj_max j \<and>
        q_results (process_job w h j q) = q_results q) \<or>
   q_pq (process_job w h j q) = q_pq q \<and>
   (\<exists>r. jr_id r = qj_id j \<and> jr_success r = (hr_error h = None \<and> hr_deadline h = False) \<and>
        q_results (process_job w h j q) =
          (if length (q_results q) < results_cap then q_results q @ [r] else q_results q))"
proof (cases "run_outcome h")
  case None
  then have "hr_error h = None \<and> hr_deadline h = False"
    by (auto simp: run_outcome_def split: if_splits)
  with None show ?thesis
    by (intro disjI2) (auto simp: process_job_def Let_def intro!: exI [of _ "make_result h j None"])
next
  case (Some e)
  then have fail: "(hr_error h = None \<and> hr_deadline h = False) = False"
    by (auto simp: run_outcome_def split: if_splits)
  let ?j = "j\<lparr>qj_retry := qj_retry j + 1\<rparr>"
  let ?q = "note_retry (note_timeout h (set_busy w True q))"
  show ?thesis
  proof (cases "qj_retry j < qj_max j")
    case False
    with Some fail show ?thesis
      by (intro disjI2)
        (auto simp: process_job_def Let_def intro!: exI [of _ "make_result h j (Some e)"])
  next
    case retry: True
    show ?thesis
    proof (cases "enqueue (hr_requeue h) ?j ?q")
      case (Inl f)
      with Some retry fail show ?thesis
        by (intro disjI2) (auto simp: process_job_def retry_job_def Let_def
            intro!: exI [of _ "make_result h ?j (Some (RetryFailed f e))"])
    next
      case (Inr q')
      note parts = enqueue_parts [OF Inr]
      let ?t = "set_job_defaults (hr_requeue h) (q_config q) ?j"
      have "qj_id ?t = qj_id j \<and> qj_retry ?t = qj_retry j + 1"
        by (simp add: set_job_defaults_def Let_def)
      with Some retry Inr parts show ?thesis
        by (intro disjI1 exI [of _ ?t])
          (simp add: process_job_def retry_job_def Let_def heap_push_mset)
    qed
  qed
qed

text \<open>
  The running average of processing times divides by one job too many.  The counter is
  already incremented when the new average is formed, so after the first successful job the
  reported average is half of that job's duration.
\<close>
theorem first_average_is_halved:
  assumes "enable_metrics (q_config q)" and "m_completed (q_metrics q) = 0"
    and "m_avg_processing (q_metrics q) = 0" and "jr_success r" and "0 \<le> jr_duration r"
  shows "m_avg_processing (q_metrics (handle_result r q)) = jr_duration r div 2"
  using assms by (simp add: handle_result_def Let_def sdiv_nonneg)

theorem first_average_is_halved_witness:
  "m_avg_processing (q_metrics (handle_result
     \<lparr>jr_id = ''a'', jr_success = True, jr_error = None, jr_started = 0, jr_ended = 10 * second,
      jr_duration = 10 * second\<rparr> sample_start)) = 5 * second"
  by (subst first_average_is_halved)
     (simp_all add: sample_start_def sample_config_def zero_metrics_def second_def)

end
