(* ===== verification/Mem_Cache.thy ===== *)
theory Mem_Cache
  imports Exchange_Sort
begin

text \<open>
  The in-memory cache of \<open>daemon/cache/cache.go\<close>: entries with an expiry and a size, the
  memory limit kept by evicting expired entries and then those that expire first, the
  statistics, and the periodic eviction tick.  JSON encoding is a parameter
  (\<open>marshal\<close>, \<open>None\<close> for an encoding error, whose data has length 0).  The locale
  \<open>cache_backend\<close> is the \<open>Cache\<close> interface as its clients rely on it.
\<close>

section \<open>Data\<close>

record cache_stats =
  st_hits :: int
  st_misses :: int
  st_sets :: int
  st_deletes :: int
  st_evictions :: int
  st_size :: int

definition zero_stats :: cache_stats where
  "zero_stats = \<lparr>st_hits = 0, st_misses = 0, st_sets = 0, st_deletes = 0, st_evictions = 0,
                 st_size = 0\<rparr>"

record cache_config =
  cc_backend :: string
  cc_redis_addr :: string
  cc_redis_password :: string
  cc_redis_db :: int
  cc_max_memory :: int
  cc_default_ttl :: duration
  cc_max_retries :: int
  cc_connect_timeout :: duration
  cc_read_timeout :: duration
  cc_write_timeout :: duration
  cc_pool_size :: int
  cc_min_idle :: int
  cc_max_idle :: int
  cc_max_lifetime :: duration
  cc_fallback :: bool

definition default_cache_config :: cache_config where
  "default_cache_config =
     \<lparr>cc_backend = ''memory'', cc_redis_addr = ''localhost:6379'', cc_redis_password = [],
      cc_redis_db = 0, cc_max_memory = 100 * 1024 * 1024, cc_default_ttl = hour,
      cc_max_retries = 3, cc_connect_timeout = 5 * second, cc_read_timeout = 3 * second,
      cc_write_timeout = 3 * second, cc_pool_size = 10, cc_min_idle = 5, cc_max_idle = 10,
      cc_max_lifetime = 5 * minute, cc_fallback = True\<rparr>"

record 'v cache_entry =
  ce_value :: 'v
  ce_expires :: instant
  ce_size :: int

record 'v mcache =
  mc_config :: cache_config
  mc_data :: "(string, 'v cache_entry) gomap"
  mc_stats :: cache_stats

datatype cache_error =
    CacheMiss
  | BackendError string
  | EncodeError
  | DecodeError
  | UnsupportedBackend

section \<open>Operations\<close>

definition new_memory_cache :: "cache_config \<Rightarrow> 'v mcache" where
  "new_memory_cache c = \<lparr>mc_config = c, mc_data = [], mc_stats = zero_stats\<rparr>"

definition expired :: "instant \<Rightarrow> 'v cache_entry \<Rightarrow> bool" where
  "expired now e \<longleftrightarrow> ce_expires e < now"

definition stat_hit :: "cache_stats \<Rightarrow> cache_stats" where
  "stat_hit s = s\<lparr>st_hits := st_hits s + 1\<rparr>"

definition stat_miss :: "cache_stats \<Rightarrow> cache_stats" where
  "stat_miss s = s\<lparr>st_misses := st_misses s + 1\<rparr>"

definition mem_get :: "instant \<Rightarrow> string \<Rightarrow> 'v mcache \<Rightarrow> (cache_error + 'v) \<times> 'v mcache" where
  "mem_get now key c =
     (case gm_get (mc_data c) key of
        None \<Rightarrow> (Inl CacheMiss, c\<lparr>mc_stats := stat_miss (mc_stats c)\<rparr>)
      | Some e \<Rightarrow>
          if expired now e then (Inl CacheMiss, c\<lparr>mc_stats := stat_miss (mc_stats c)\<rparr>)
          else (Inr (ce_value e), c\<lparr>mc_stats := stat_hit (mc_stats c)\<rparr>))"

definition mem_exists :: "instant \<Rightarrow> string \<Rightarrow> 'v mcache \<Rightarrow> bool" where
  "mem_exists now key c =
     (case gm_get (mc_data c) key of
        None \<Rightarrow> False
      | Some e \<Rightarrow> \<not> expired now e)"

definition calculate_size :: "(string, 'v cache_entry) gomap \<Rightarrow> int" where
  "calculate_size m = gm_sum ce_size m"

text \<open>
  \<open>evictOldest\<close>: the three loops over \<open>freed\<close>, the map and the eviction counter.  The first
  removes expired entries.
\<close>

fun evict_expired ::
  "instant \<Rightarrow> (string, 'v cache_entry) gomap \<Rightarrow> int \<Rightarrow> int \<Rightarrow>
   int \<times> int \<times> (string, 'v cache_entry) gomap" where
  "evict_expired now [] freed n = (freed, n, [])"
| "evict_expired now ((k, e) # m) freed n =
     (if expired now e then evict_expired now m (freed + ce_size e) (n + 1)
      else let (freed', n', m') = evict_expired now m freed n in (freed', n', (k, e) # m'))"

text \<open>
  The second sorts the remaining entries by expiry, by exchanging \<open>entries[i]\<close> with every
  later entry that expires earlier.
\<close>

definition expires_before ::
  "string \<times> 'v cache_entry \<Rightarrow> string \<times> 'v cache_entry \<Rightarrow> bool" where
  "expires_before a b \<longleftrightarrow> ce_expires (snd a) < ce_expires (snd b)"

definition sort_by_expiry ::
  "(string \<times> 'v cache_entry) list \<Rightarrow> (string \<times> 'v cache_entry) list" where
  "sort_by_expiry es = exchange_sort expires_before es"

text \<open>The third removes entries in that order until enough is freed.\<close>

fun evict_until ::
  "int \<Rightarrow> (string \<times> 'v cache_entry) list \<Rightarrow> int \<Rightarrow> int \<Rightarrow> (string, 'v cache_entry) gomap \<Rightarrow>
   int \<times> int \<times> (string, 'v cache_entry) gomap" where
  "evict_until needed [] freed n m = (freed, n, m)"
| "evict_until needed ((k, e) # es) freed n m =
     (if needed \<le> freed then (freed, n, m)
      else evict_until needed es (freed + ce_size e) (n + 1) (gm_del k m))"

definition evict_oldest ::
  "instant \<Rightarrow> int \<Rightarrow> (string, 'v cache_entry) gomap \<Rightarrow>
   int \<times> int \<times> (string, 'v cache_entry) gomap" where
  "evict_oldest now needed m =
     (let (freed, n, m1) = evict_expired now m 0 0
      in if freed < needed then evict_until needed (sort_by_expiry m1) freed n m1
         else (freed, n, m1))"

definition value_size :: "('v \<Rightarrow> string option) \<Rightarrow> 'v \<Rightarrow> int" where
  "value_size marshal v = (case marshal v of None \<Rightarrow> 0 | Some d \<Rightarrow> int (length d))"

text \<open>\<open>tev\<close> is the clock of the eviction, \<open>now\<close> the clock of the new entry's expiry.\<close>

definition mem_set ::
  "('v \<Rightarrow> string option) \<Rightarrow> instant \<Rightarrow> instant \<Rightarrow> string \<Rightarrow> 'v \<Rightarrow> duration \<Rightarrow> 'v mcache \<Rightarrow>
   'v mcache" where
  "mem_set marshal tev now key v ttl c =
     (let size = value_size marshal v;
          (freed, n, m) =
            (if cc_max_memory (mc_config c) < calculate_size (mc_data c) + size
             then evict_oldest tev size (mc_data c) else (0, 0, mc_data c));
          m = gm_put key \<lparr>ce_value = v, ce_expires = now + ttl, ce_size = size\<rparr> m;
          s = mc_stats c
      in c\<lparr>mc_data := m,
           mc_stats := s\<lparr>st_evictions := st_evictions s + n, st_sets := st_sets s + 1,
                         st_size := calculate_size m\<rparr>\<rparr>)"

definition mem_delete :: "string \<Rightarrow> 'v mcache \<Rightarrow> 'v mcache" where
  "mem_delete key c =
     (let m = gm_del key (mc_data c); s = mc_stats c
      in c\<lparr>mc_data := m,
           mc_stats := s\<lparr>st_deletes := st_deletes s + 1, st_size := calculate_size m\<rparr>\<rparr>)"

definition mem_clear :: "'v mcache \<Rightarrow> 'v mcache" where
  "mem_clear c = c\<lparr>mc_data := [], mc_stats := (mc_stats c)\<lparr>st_size := 0\<rparr>\<rparr>"

text \<open>One tick of \<open>evictionLoop\<close>.\<close>

definition eviction_tick :: "instant \<Rightarrow> 'v mcache \<Rightarrow> 'v mcache" where
  "eviction_tick now c =
     (let (freed, n, m) = evict_expired now (mc_data c) 0 0; s = mc_stats c
      in c\<lparr>mc_data := m, mc_stats := s\<lparr>st_evictions := st_evictions s + n\<rparr>\<rparr>)"

section \<open>The loops\<close>

lemma evict_expired_eq:
  "evict_expired now m freed n =
     (freed + calculate_size (filter (\<lambda>(k, e). expired now e) m),
      n + int (length (filter (\<lambda>(k, e). expired now e) m)),
      filter (\<lambda>(k, e). \<not> expired now e) m)"
  by (induction now m freed n rule: evict_expired.induct) (auto simp: calculate_size_def)

interpretation expiry: heap_less "expires_before :: string \<times> 'v cache_entry \<Rightarrow> _"
  by unfold_locales (auto simp: expires_before_def)

lemma sort_by_expiry_mset: "mset (sort_by_expiry es) = mset es"
  by (simp add: sort_by_expiry_def exchange_sort_mset)

lemma sort_by_expiry_set [simp]: "set (sort_by_expiry es) = set es"
  by (simp add: sort_by_expiry_def)

lemma sort_by_expiry_sorted:
  "sorted_wrt (\<lambda>a b. ce_expires (snd a) \<le> ce_expires (snd b)) (sort_by_expiry es)"
  using expiry.exchange_sort_sorted [of es]
  by (simp add: sort_by_expiry_def expires_before_def not_less)

lemma sort_by_expiry_wf: "gm_wf m \<Longrightarrow> gm_wf (sort_by_expiry m)"
  by (simp add: sort_by_expiry_def exchange_sort_wf)

text \<open>
  The removal loop on the sorted entries: it removes a prefix of them, and stops as soon as
  enough is freed.
\<close>

definition drop_keys :: "'k set \<Rightarrow> ('k \<times> 'v) list \<Rightarrow> ('k \<times> 'v) list" where
  "drop_keys K m = filter (\<lambda>(k, e). k \<notin> K) m"

lemma drop_keys_empty [simp]: "drop_keys {} m = m"
  by (simp add: drop_keys_def)

lemma drop_keys_del: "drop_keys K (gm_del k m) = drop_keys (insert k K) m"
  by (induction m) (auto simp: drop_keys_def)

lemma evict_until_prefix:
  "\<exists>es1 es2. es = es1 @ es2 \<and>
     evict_until needed es freed n m =
       (freed + calculate_size es1, n + int (length es1), drop_keys (fst ` set es1) m) \<and>
     (needed \<le> freed + calculate_size es1 \<or> es2 = [])"
proof (induction needed es freed n m rule: evict_until.induct)
  case (1 needed freed n m)
  then show ?case by (simp add: calculate_size_def)
next
  case (2 needed k e es freed n m)
  show ?case
  proof (cases "needed \<le> freed")
    case True
    then show ?thesis
      by (intro exI [of _ "[]"] exI [of _ "(k, e) # es"]) (simp add: calculate_size_def)
  next
    case False
    from "2.IH" [OF False] obtain es1 es2 where
      split: "es = es1 @ es2" and
      eq: "evict_until needed es (freed + ce_size e) (n + 1) (gm_del k m) =
        (freed + ce_size e + calculate_size es1, n + 1 + int (length es1),
         drop_keys (fst ` set es1) (gm_del k m))" and
      stop: "needed \<le> freed + ce_size e + calculate_size es1 \<or> es2 = []"
      by blast
    from False split eq stop show ?thesis
      by (intro exI [of _ "(k, e) # es1"] exI [of _ es2])
        (simp add: calculate_size_def drop_keys_del add.assoc)
  qed
qed

text \<open>Eviction as a whole.\<close>

definition sizes_ok :: "(string, 'v cache_entry) gomap \<Rightarrow> bool" where
  "sizes_ok m \<longleftrightarrow> (\<forall>(k, e) \<in> set m. 0 \<le> ce_size e)"

lemma calculate_size_nonneg: "sizes_ok m \<Longrightarrow> 0 \<le> calculate_size m"
  by (auto simp: calculate_size_def sizes_ok_def intro: gm_sum_nonneg)

lemma sizes_ok_filter [simp]: "sizes_ok m \<Longrightarrow> sizes_ok (filter P m)"
  by (auto simp: sizes_ok_def)

lemma drop_prefix_mset:
  assumes "gm_wf m" and "sort_by_expiry m = es1 @ es2"
  shows "mset (drop_keys (fst ` set es1) m) = mset es2"
proof -
  have m: "mset m = mset es1 + mset es2"
    using sort_by_expiry_mset [of m] assms(2) by simp
  have wf: "gm_wf (es1 @ es2)" using sort_by_expiry_wf [OF assms(1)] assms(2) by simp
  then have disj: "k \<notin> fst ` set es1" if "(k, e) \<in> set es2" for k e
    using that by (force simp: gm_wf_def)
  have "mset (drop_keys (fst ` set es1) m) =
        filter_mset (\<lambda>(k, e). k \<notin> fst ` set es1) (mset es1 + mset es2)"
    by (simp add: drop_keys_def m [symmetric])
  also have "filter_mset (\<lambda>(k, e). k \<notin> fst ` set es1) (mset es1) = {#}"
    by (auto simp: filter_mset_eq_mempty_iff intro: rev_image_eqI)
  then have "filter_mset (\<lambda>(k, e). k \<notin> fst ` set es1) (mset es1 + mset es2) =
        filter_mset (\<lambda>(k, e). k \<notin> fst ` set es1) (mset es2)"
    by simp
  also have "\<dots> = mset es2"
    using disj by (auto intro!: multiset.map_ident_strong simp: filter_mset_eq_conv)
  finally show ?thesis .
qed

lemma evict_oldest_cases:
  assumes wf: "gm_wf m" and ev: "evict_oldest now needed m = (freed, n, m')"
  obtains es1 es2 where
    "sort_by_expiry (filter (\<lambda>(k, e). \<not> expired now e) m) = es1 @ es2"
    "m' = drop_keys (fst ` set es1) (filter (\<lambda>(k, e). \<not> expired now e) m)"
    "mset m' = mset es2"
    "freed = calculate_size (filter (\<lambda>(k, e). expired now e) m) + calculate_size es1"
    "needed \<le> freed \<or> es2 = []"
proof -
  let ?m1 = "filter (\<lambda>(k, e). \<not> expired now e) m"
  let ?f0 = "calculate_size (filter (\<lambda>(k, e). expired now e) m)"
  have wf1: "gm_wf ?m1" using wf by simp
  show thesis
  proof (cases "?f0 < needed")
    case True
    obtain es1 es2 where split: "sort_by_expiry ?m1 = es1 @ es2" and
      eq: "evict_until needed (sort_by_expiry ?m1) ?f0
             (0 + int (length (filter (\<lambda>(k, e). expired now e) m))) ?m1 =
           (?f0 + calculate_size es1,
            0 + int (length (filter (\<lambda>(k, e). expired now e) m)) + int (length es1),
            drop_keys (fst ` set es1) ?m1)" and
      stop: "needed \<le> ?f0 + calculate_size es1 \<or> es2 = []"
      using evict_until_prefix by blast
    have "freed = ?f0 + calculate_size es1" "m' = drop_keys (fst ` set es1) ?m1"
      using ev True eq by (auto simp: evict_oldest_def evict_expired_eq)
    with that [OF split] drop_prefix_mset [OF wf1 split] stop show thesis by simp
  next
    case False
    then have "freed = ?f0" "m' = ?m1"
      using ev by (auto simp: evict_oldest_def evict_expired_eq)
    with False that [of "[]" "sort_by_expiry ?m1"] show thesis
      by (simp add: sort_by_expiry_mset calculate_size_def)
  qed
qed

lemma evict_oldest_size:
  assumes wf: "gm_wf m" and ev: "evict_oldest now needed m = (freed, n, m')"
  shows "calculate_size m' = calculate_size m - freed" and "needed \<le> freed \<or> m' = []"
    and "gm_wf m'" and "set m' \<subseteq> set m" and "(k, e) \<in> set m' \<Longrightarrow> \<not> expired now e"
proof -
  let ?m1 = "filter (\<lambda>(k, e). \<not> expired now e) m"
  obtain es1 es2 where split: "sort_by_expiry ?m1 = es1 @ es2" and
    m': "m' = drop_keys (fst ` set es1) ?m1" and es2: "mset m' = mset es2" and
    freed: "freed = calculate_size (filter (\<lambda>(k, e). expired now e) m) + calculate_size es1" and
    stop: "needed \<le> freed \<or> es2 = []"
    using evict_oldest_cases [OF wf ev] by metis
  have "calculate_size ?m1 = calculate_size es1 + calculate_size es2"
    using gm_sum_cong_mset [OF sort_by_expiry_mset [of ?m1]] split
    by (simp add: calculate_size_def gm_sum_def)
  moreover have "calculate_size m' = calculate_size es2"
    using gm_sum_cong_mset [OF es2] by (simp add: calculate_size_def)
  moreover have "calculate_size m =
      calculate_size (filter (\<lambda>(k, e). expired now e) m) + calculate_size ?m1"
    using gm_sum_filter_split [of ce_size m "\<lambda>(k, e). expired now e"]
    by (simp add: calculate_size_def case_prod_unfold)
  ultimately show "calculate_size m' = calculate_size m - freed" using freed by simp
  show "needed \<le> freed \<or> m' = []" using stop es2 by auto
  show "gm_wf m'" using wf by (simp add: m' drop_keys_def)
  show "set m' \<subseteq> set m" by (auto simp: m' drop_keys_def)
  show "\<not> expired now e" if "(k, e) \<in> set m'" using that by (auto simp: m' drop_keys_def)
qed

text \<open>What eviction keeps expires no earlier than what it removes early.\<close>

lemma evict_oldest_order:
  assumes wf: "gm_wf m" and ev: "evict_oldest now needed m = (freed, n, m')"
    and keep: "(k, e) \<in> set m'" and gone: "(k', e') \<in> set m" "(k', e') \<notin> set m'"
  shows "expired now e' \<or> ce_expires e' \<le> ce_expires e"
proof -
  let ?m1 = "filter (\<lambda>(k, e). \<not> expired now e) m"
  obtain es1 es2 where split: "sort_by_expiry ?m1 = es1 @ es2" and
    m': "m' = drop_keys (fst ` set es1) ?m1" and es2: "mset m' = mset es2"
    using evict_oldest_cases [OF wf ev] by metis
  have kept: "(k, e) \<in> set es2" using keep es2 by (metis set_mset_mset)
  have "ce_expires e' \<le> ce_expires e" if "\<not> expired now e'"
  proof -
    have "(k', e') \<in> set ?m1" using gone(1) that by simp
    then have "(k', e') \<in> set (es1 @ es2)" using split by (metis sort_by_expiry_set)
    moreover have "(k', e') \<notin> set es2" using gone(2) es2 by (metis set_mset_mset)
    ultimately have "(k', e') \<in> set es1" by simp
    with kept show ?thesis
      using sort_by_expiry_sorted [of ?m1] split by (fastforce simp: sorted_wrt_append)
  qed
  then show ?thesis by blast
qed

section \<open>The interface of a cache\<close>

locale cache_backend =
  fixes get :: "instant \<Rightarrow> string \<Rightarrow> 'c \<Rightarrow> (cache_error + 'v) \<times> 'c"
    and put :: "instant \<Rightarrow> instant \<Rightarrow> string \<Rightarrow> 'v \<Rightarrow> duration \<Rightarrow> 'c \<Rightarrow> 'c"
    and del :: "string \<Rightarrow> 'c \<Rightarrow> 'c"
    and clear :: "'c \<Rightarrow> 'c"
    and ok :: "'c \<Rightarrow> bool"
  assumes get_put: "ok c \<Longrightarrow> t \<le> now + ttl \<Longrightarrow> fst (get t k (put tev now k v ttl c)) = Inr v"
    and get_put_late:
      "ok c \<Longrightarrow> now + ttl < t \<Longrightarrow> fst (get t k (put tev now k v ttl c)) = Inl CacheMiss"
    and get_put_other:
      "ok c \<Longrightarrow> k' \<noteq> k \<Longrightarrow>
       fst (get t k' (put tev now k v ttl c)) \<in> {fst (get t k' c), Inl CacheMiss}"
    and get_del: "ok c \<Longrightarrow> fst (get t k (del k c)) = Inl CacheMiss"
    and get_del_other: "ok c \<Longrightarrow> k' \<noteq> k \<Longrightarrow> fst (get t k' (del k c)) = fst (get t k' c)"
    and get_clear: "ok c \<Longrightarrow> fst (get t k (clear c)) = Inl CacheMiss"
    and get_get: "ok c \<Longrightarrow> fst (get t' k' (snd (get t k c))) = fst (get t' k' c)"
    and ok_ops: "ok c \<Longrightarrow> ok (put tev now k v ttl c)" "ok c \<Longrightarrow> ok (del k c)"
      "ok c \<Longrightarrow> ok (clear c)" "ok c \<Longrightarrow> ok (snd (get t k c))"
begin

text \<open>Reads in between do not change what a read returns.\<close>

lemma reads_ok: "ok c \<Longrightarrow> ok (fold (\<lambda>(t, k) c. snd (get t k c)) rs c)"
  by (induction rs arbitrary: c) (auto intro: ok_ops)

lemma get_reads:
  "ok c \<Longrightarrow> fst (get t k (fold (\<lambda>(t, k) c. snd (get t k c)) rs c)) = fst (get t k c)"
  by (induction rs arbitrary: c) (auto simp: get_get ok_ops(4))

lemma put_then_reads:
  "ok c \<Longrightarrow> t \<le> now + ttl \<Longrightarrow>
   fst (get t k (fold (\<lambda>(t, k) c. snd (get t k c)) rs (put tev now k v ttl c))) = Inr v"
  by (simp add: get_reads ok_ops get_put)

lemma put_then_del: "ok c \<Longrightarrow> fst (get t k (del k (put tev now k v ttl c))) = Inl CacheMiss"
  by (simp add: get_del ok_ops)

text \<open>A write never makes another key return a value it did not have.\<close>

lemma put_no_new:
  "ok c \<Longrightarrow> k' \<noteq> k \<Longrightarrow> fst (get t k' (put tev now k v ttl c)) = Inr w \<Longrightarrow>
   fst (get t k' c) = Inr w"
  using get_put_other [of c k' k t tev now v ttl] by auto

end

text \<open>The memory cache provides it.\<close>

abbreviation mem_ok :: "'v mcache \<Rightarrow> bool" where
  "mem_ok c \<equiv> gm_wf (mc_data c)"

lemma mem_get_fst:
  "fst (mem_get t k c) =
     (case gm_get (mc_data c) k of None \<Rightarrow> Inl CacheMiss
      | Some e \<Rightarrow> if expired t e then Inl CacheMiss else Inr (ce_value e))"
  by (simp add: mem_get_def split: option.splits)

lemma mem_get_data [simp]: "mc_data (snd (mem_get t k c)) = mc_data c"
  by (simp add: mem_get_def split: option.splits)

lemma mem_set_data:
  assumes "mem_ok c"
  shows "\<exists>m. mc_data (mem_set marshal tev now k v ttl c) =
       gm_put k \<lparr>ce_value = v, ce_expires = now + ttl, ce_size = value_size marshal v\<rparr> m \<and>
     gm_wf m \<and> set m \<subseteq> set (mc_data c) \<and>
     (if cc_max_memory (mc_config c) < calculate_size (mc_data c) + value_size marshal v
      then calculate_size m + value_size marshal v \<le> calculate_size (mc_data c) \<or> m = []
      else m = mc_data c)"
proof (cases "cc_max_memory (mc_config c) < calculate_size (mc_data c) + value_size marshal v")
  case True
  obtain f n m where ev: "evict_oldest tev (value_size marshal v) (mc_data c) = (f, n, m)"
    by (cases "evict_oldest tev (value_size marshal v) (mc_data c)")
  note size = evict_oldest_size [OF assms ev]
  from True ev size show ?thesis
    by (intro exI [of _ m]) (auto simp: mem_set_def Let_def)
next
  case False
  with assms show ?thesis
    by (intro exI [of _ "mc_data c"]) (auto simp: mem_set_def Let_def)
qed

interpretation mem: cache_backend mem_get "mem_set marshal" mem_delete mem_clear mem_ok
  for marshal :: "'v \<Rightarrow> string option"
proof
  fix c :: "'v mcache" and t now ttl tev k k' v
  assume ok: "mem_ok c"
  obtain m where m: "mc_data (mem_set marshal tev now k v ttl c) =
       gm_put k \<lparr>ce_value = v, ce_expires = now + ttl, ce_size = value_size marshal v\<rparr> m"
    "gm_wf m" "set m \<subseteq> set (mc_data c)"
    using mem_set_data [OF ok, of marshal tev now k v ttl] by blast
  show "t \<le> now + ttl \<Longrightarrow> fst (mem_get t k (mem_set marshal tev now k v ttl c)) = Inr v"
    by (simp add: mem_get_fst m expired_def)
  show "now + ttl < t \<Longrightarrow> fst (mem_get t k (mem_set marshal tev now k v ttl c)) = Inl CacheMiss"
    by (simp add: mem_get_fst m expired_def)
  show "fst (mem_get t k' (mem_set marshal tev now k v ttl c))
          \<in> {fst (mem_get t k' c), Inl CacheMiss}" if "k' \<noteq> k"
  proof (cases "gm_get m k'")
    case None
    then show ?thesis using that by (simp add: mem_get_fst m)
  next
    case (Some e)
    then have "(k', e) \<in> set (mc_data c)" using m(3) by (auto dest: gm_get_in)
    then have "gm_get (mc_data c) k' = Some e" using ok gm_in_get by metis
    with Some that show ?thesis by (simp add: mem_get_fst m)
  qed
  show "fst (mem_get t k (mem_delete k c)) = Inl CacheMiss"
    by (simp add: mem_get_fst mem_delete_def Let_def)
  show "k' \<noteq> k \<Longrightarrow> fst (mem_get t k' (mem_delete k c)) = fst (mem_get t k' c)"
    by (simp add: mem_get_fst mem_delete_def Let_def)
  show "fst (mem_get t k (mem_clear c)) = Inl CacheMiss"
    by (simp add: mem_get_fst mem_clear_def)
  show "mem_ok (mem_set marshal tev now k v ttl c)" using m by simp
  show "mem_ok (mem_delete k c)" using ok by (simp add: mem_delete_def Let_def)
  show "mem_ok (mem_clear c)" by (simp add: mem_clear_def)
  show "mem_ok (snd (mem_get t k c))" using ok by simp
qed (simp add: mem_get_fst)

section \<open>Runs of the cache\<close>

text \<open>A list of reads, each at its instant.\<close>

definition mem_reads :: "(instant \<times> string) list \<Rightarrow> 'v mcache \<Rightarrow> 'v mcache" where
  "mem_reads rs c = fold (\<lambda>(t, k) c. snd (mem_get t k c)) rs c"

text \<open>
  The operations of the clients and the ticks of the eviction loop, in any order.  A stored
  value fits the limit on its own.
\<close>

inductive cache_step :: "('v \<Rightarrow> string option) \<Rightarrow> 'v mcache \<Rightarrow> 'v mcache \<Rightarrow> bool" for marshal where
  read: "cache_step marshal c (snd (mem_get now k c))"
| store: "value_size marshal v \<le> cc_max_memory (mc_config c) \<Longrightarrow>
     cache_step marshal c (mem_set marshal tev now k v ttl c)"
| remove: "cache_step marshal c (mem_delete k c)"
| wipe: "cache_step marshal c (mem_clear c)"
| tick: "cache_step marshal c (eviction_tick now c)"

definition cache_inv :: "cache_config \<Rightarrow> 'v mcache \<Rightarrow> bool" where
  "cache_inv cfg c \<longleftrightarrow>
     mc_config c = cfg \<and> gm_wf (mc_data c) \<and> sizes_ok (mc_data c) \<and>
     calculate_size (mc_data c) \<le> cc_max_memory cfg \<and>
     calculate_size (mc_data c) \<le> st_size (mc_stats c) \<and>
     st_size (mc_stats c) \<le> cc_max_memory cfg"

lemma value_size_nonneg [simp]: "0 \<le> value_size marshal v"
  by (simp add: value_size_def split: option.splits)

lemma calculate_size_put:
  assumes "gm_wf m" and "sizes_ok m" and "0 \<le> ce_size e"
  shows "calculate_size (gm_put k e m) \<le> calculate_size m + ce_size e"
proof -
  have "0 \<le> (case gm_get m k of None \<Rightarrow> 0 | Some w \<Rightarrow> ce_size w)"
    using assms(2) by (auto simp: sizes_ok_def dest!: gm_get_in split: option.splits)
  then show ?thesis using gm_sum_put [OF assms(1), of ce_size k e] by (simp add: calculate_size_def)
qed

lemma sizes_ok_put: "sizes_ok m \<Longrightarrow> 0 \<le> ce_size e \<Longrightarrow> sizes_ok (gm_put k e m)"
  by (induction m) (auto simp: sizes_ok_def)

lemma cache_inv_set:
  assumes inv: "cache_inv cfg c" and fits: "value_size marshal v \<le> cc_max_memory cfg"
  shows "cache_inv cfg (mem_set marshal tev now k v ttl c)"
proof -
  let ?e = "\<lparr>ce_value = v, ce_expires = now + ttl, ce_size = value_size marshal v\<rparr>"
  have wf: "gm_wf (mc_data c)" and sz: "sizes_ok (mc_data c)"
    and le: "calculate_size (mc_data c) \<le> cc_max_memory (mc_config c)" and cfg: "mc_config c = cfg"
    using inv by (auto simp: cache_inv_def)
  obtain m where data: "mc_data (mem_set marshal tev now k v ttl c) = gm_put k ?e m"
    and m: "gm_wf m" "set m \<subseteq> set (mc_data c)"
    and size: "if cc_max_memory (mc_config c) < calculate_size (mc_data c) + value_size marshal v
      then calculate_size m + value_size marshal v \<le> calculate_size (mc_data c) \<or> m = []
      else m = mc_data c"
    using mem_set_data [OF wf, of marshal tev now k v ttl] by blast
  have szm: "sizes_ok m" using sz m(2) by (auto simp: sizes_ok_def)
  have "calculate_size m + value_size marshal v \<le> cc_max_memory cfg"
    using size le fits cfg by (auto simp: calculate_size_def split: if_splits)
  then have "calculate_size (gm_put k ?e m) \<le> cc_max_memory cfg"
    using calculate_size_put [OF m(1) szm, of ?e k] by simp
  moreover have "st_size (mc_stats (mem_set marshal tev now k v ttl c)) =
      calculate_size (mc_data (mem_set marshal tev now k v ttl c))"
    "mc_config (mem_set marshal tev now k v ttl c) = cfg"
    using cfg by (auto simp: mem_set_def Let_def split: prod.splits)
  ultimately show ?thesis
    using m szm sizes_ok_put [OF szm, of ?e k] by (simp add: cache_inv_def data)
qed

lemma calculate_size_filter: "sizes_ok m \<Longrightarrow> calculate_size (filter P m) \<le> calculate_size m"
  using gm_sum_filter_split [of ce_size m P] calculate_size_nonneg [of "filter (\<lambda>x. \<not> P x) m"]
  by (simp add: calculate_size_def)

lemma gm_del_filter: "gm_del k m = filter (\<lambda>x. fst x \<noteq> k) m"
  by (induction m) auto

lemma cache_inv_step: "cache_step marshal c c' \<Longrightarrow> cache_inv cfg c \<Longrightarrow> cache_inv cfg c'"
proof (induction rule: cache_step.induct)
  case (read c now k)
  then show ?case
    by (auto simp: mem_get_def cache_inv_def stat_hit_def stat_miss_def split: option.splits)
next
  case (store v c tev now k ttl)
  then show ?case using cache_inv_set by (metis cache_inv_def)
next
  case (remove c k)
  then have "calculate_size (gm_del k (mc_data c)) \<le> calculate_size (mc_data c)"
    by (auto simp: cache_inv_def gm_del_filter calculate_size_filter)
  with remove show ?case by (auto simp: cache_inv_def mem_delete_def Let_def gm_del_filter)
next
  case (wipe c)
  then have "0 \<le> cc_max_memory cfg"
    using calculate_size_nonneg [of "mc_data c"] by (auto simp: cache_inv_def)
  with wipe show ?case by (simp add: cache_inv_def mem_clear_def sizes_ok_def calculate_size_def)
next
  case (tick c now)
  then have "calculate_size (filter (\<lambda>(k, e). \<not> expired now e) (mc_data c))
               \<le> calculate_size (mc_data c)"
    by (auto simp: cache_inv_def intro: calculate_size_filter)
  with tick show ?case
    by (auto simp: cache_inv_def eviction_tick_def evict_expired_eq Let_def)
qed

lemma cache_inv_new: "0 \<le> cc_max_memory cfg \<Longrightarrow> cache_inv cfg (new_memory_cache cfg)"
  by (simp add: cache_inv_def new_memory_cache_def sizes_ok_def calculate_size_def zero_stats_def)

lemma cache_run_inv:
  "(cache_step marshal)\<^sup>*\<^sup>* (new_memory_cache cfg) c \<Longrightarrow> 0 \<le> cc_max_memory cfg \<Longrightarrow> cache_inv cfg c"
  by (induction rule: rtranclp_induct) (auto intro: cache_inv_new cache_inv_step)

section \<open>A sample cache\<close>

definition small_config :: cache_config where
  "small_config = default_cache_config\<lparr>cc_max_memory := 8\<rparr>"

abbreviation plain :: "string \<Rightarrow> string option" where
  "plain \<equiv> Some"

definition small_cache :: "string mcache" where
  "small_cache =
     mem_set plain 0 0 ''y'' ''5678'' 100 (mem_set plain 0 0 ''x'' ''1234'' 50
       (new_memory_cache small_config))"

lemma small_cache_run: "(cache_step plain)\<^sup>*\<^sup>* (new_memory_cache small_config) small_cache"
proof -
  have "cache_step plain (new_memory_cache small_config)
      (mem_set plain 0 0 ''x'' ''1234'' 50 (new_memory_cache small_config))"
    by (rule cache_step.store) code_simp
  moreover have "cache_step plain (mem_set plain 0 0 ''x'' ''1234'' 50 (new_memory_cache small_config))
      small_cache"
    unfolding small_cache_def by (rule cache_step.store) code_simp
  ultimately show ?thesis by auto
qed

lemma small_cache_wf: "mem_ok small_cache"
  by code_simp

section \<open>Properties\<close>

text \<open>
  C4: starting from an empty cache, whatever the clients store, delete or clear and however
  the eviction loop interleaves, the stored bytes never exceed \<open>MaxMemorySize\<close> as long as no
  single value does, keys stay unique, and the reported size is an upper bound of the bytes
  held.
\<close>
theorem cache_memory_limit:
  assumes "(cache_step marshal)\<^sup>*\<^sup>* (new_memory_cache cfg) c" and "0 \<le> cc_max_memory cfg"
  shows "calculate_size (mc_data c) \<le> st_size (mc_stats c) \<and>
         st_size (mc_stats c) \<le> cc_max_memory cfg \<and> gm_wf (mc_data c)"
  using cache_run_inv [OF assms] by (simp add: cache_inv_def)

theorem cache_memory_limit_witness:
  "calculate_size (mc_data small_cache) \<le> 8 \<and> calculate_size (mc_data small_cache) = 8"
proof -
  have "calculate_size (mc_data small_cache) = 8" "0 \<le> cc_max_memory small_config"
    "cc_max_memory small_config = 8"
    by code_simp+
  with cache_memory_limit [OF small_cache_run] show ?thesis by simp
qed

text \<open>
  An eviction frees what it was asked for or empties the cache, removes expired entries
  first, and among the entries that are still valid removes those that expire first: every
  entry it keeps is unexpired and expires no earlier than any unexpired entry it removes.
\<close>
theorem eviction_order:
  assumes "gm_wf m" and "evict_oldest now needed m = (freed, n, m')"
  shows "calculate_size m' = calculate_size m - freed \<and> (needed \<le> freed \<or> m' = []) \<and>
         set m' \<subseteq> set m \<and>
         (\<forall>(k, e) \<in> set m'. \<not> expired now e \<and>
            (\<forall>(k', e') \<in> set m - set m'. expired now e' \<or> ce_expires e' \<le> ce_expires e))"
proof (intro conjI)
  show "\<forall>(k, e) \<in> set m'. \<not> expired now e \<and>
      (\<forall>(k', e') \<in> set m - set m'. expired now e' \<or> ce_expires e' \<le> ce_expires e)"
    using evict_oldest_size(5) [OF assms] evict_oldest_order [OF assms] by fast
qed (use evict_oldest_size [OF assms] in simp_all)

theorem eviction_order_witness:
  "\<exists>freed n m'. evict_oldest 10 3 (mc_data small_cache) = (freed, n, m') \<and>
     map fst m' = [''y''] \<and> calculate_size m' = calculate_size (mc_data small_cache) - freed"
proof -
  obtain freed n m' where ev: "evict_oldest 10 3 (mc_data small_cache) = (freed, n, m')"
    by (cases "evict_oldest 10 3 (mc_data small_cache)")
  have "map fst (snd (snd (evict_oldest 10 3 (mc_data small_cache)))) = [''y'']" by code_simp
  with ev eviction_order [OF small_cache_wf ev] show ?thesis by auto
qed

text \<open>
  A stored value is returned by every read up to its expiry, whatever other reads happen
  in between, and by no read after it; a deleted key is a miss.
\<close>
theorem cache_read_your_writes:
  assumes "mem_ok c"
  shows "fst (mem_get t k (mem_reads rs (mem_set marshal tev now k v ttl c))) =
           (if t \<le> now + ttl then Inr v else Inl CacheMiss) \<and>
         fst (mem_get t k (mem_delete k c)) = Inl CacheMiss"
  using mem.get_put [OF assms] mem.get_put_late [OF assms] mem.get_del [OF assms]
    mem.get_reads [OF mem.ok_ops(1) [OF assms]]
  by (simp add: mem_reads_def not_le)

theorem cache_read_your_writes_witness:
  "fst (mem_get 5 ''z'' (mem_reads [(1, ''x'')] (mem_set plain 0 0 ''z'' ''90'' 7 small_cache)))
     = Inr ''90''"
  using cache_read_your_writes [OF small_cache_wf, of 5 "''z''" "[(1, ''x'')]" plain 0 0 "''90''" 7]
  by simp

text \<open>
  The limit is not enforced for a single large value: a value above \<open>MaxMemorySize\<close> empties
  the cache of every other key and is stored all the same.
\<close>
theorem oversized_value_is_stored:
  assumes "mem_ok c" and "cc_max_memory (mc_config c) < value_size marshal v"
    and "sizes_ok (mc_data c)" and "calculate_size (mc_data c) < value_size marshal v"
  shows "mc_data (mem_set marshal tev now k v ttl c) =
           [(k, \<lparr>ce_value = v, ce_expires = now + ttl, ce_size = value_size marshal v\<rparr>)] \<and>
         cc_max_memory (mc_config c) < calculate_size (mc_data (mem_set marshal tev now k v ttl c))"
proof -
  obtain m where data: "mc_data (mem_set marshal tev now k v ttl c) =
       gm_put k \<lparr>ce_value = v, ce_expires = now + ttl, ce_size = value_size marshal v\<rparr> m"
    and sub: "gm_wf m" "set m \<subseteq> set (mc_data c)"
    and over: "if cc_max_memory (mc_config c) < calculate_size (mc_data c) + value_size marshal v
      then calculate_size m + value_size marshal v \<le> calculate_size (mc_data c) \<or> m = []
      else m = mc_data c"
    using mem_set_data [OF assms(1), of marshal tev now k v ttl] by blast
  have "sizes_ok m" using assms(3) sub(2) by (auto simp: sizes_ok_def)
  then have "0 \<le> calculate_size m" by (rule calculate_size_nonneg)
  moreover have "0 \<le> calculate_size (mc_data c)" using assms(3) by (rule calculate_size_nonneg)
  ultimately have "m = []" using over assms(2,4) by (auto split: if_splits)
  with data assms(2) show ?thesis by (simp add: calculate_size_def)
qed

theorem oversized_value_is_stored_witness:
  "map fst (mc_data (mem_set plain 0 0 ''big'' ''123456789'' 7 small_cache)) = [''big''] \<and>
   calculate_size (mc_data (mem_set plain 0 0 ''big'' ''123456789'' 7 small_cache)) = 9"
proof -
  have "cc_max_memory (mc_config small_cache) < value_size plain ''123456789''"
    "sizes_ok (mc_data small_cache)"
    "calculate_size (mc_data small_cache) < value_size plain ''123456789''"
    by code_simp+
  note r = oversized_value_is_stored [OF small_cache_wf this]
  show ?thesis using r [of 0 0 "''big''" 7] by (simp add: calculate_size_def value_size_def)
qed

end
