(* ===== verification/Redis_Cache.thy ===== *)
theory Redis_Cache
  imports Mem_Cache
begin

text \<open>
  The Redis-backed cache of \<open>daemon/cache/cache.go\<close> with its optional in-memory fallback, and
  the constructor that chooses a backend.  The Redis client is third-party code: its calls are
  the fields of \<open>redis_api\<close>, an argument of the operations, over an opaque server state.  JSON
  encoding and decoding are arguments too.
\<close>

section \<open>Data\<close>

datatype redis_error = RedisNil | RedisErr string

text \<open>The client's calls: the reply or error, and the new server state of a writing call.\<close>

record 'r redis_api =
  ra_get :: "'r \<Rightarrow> string \<Rightarrow> redis_error + string"
  ra_set :: "'r \<Rightarrow> string \<Rightarrow> string \<Rightarrow> duration \<Rightarrow> string option \<times> 'r"
  ra_del :: "'r \<Rightarrow> string \<Rightarrow> string option \<times> 'r"
  ra_exists :: "'r \<Rightarrow> string \<Rightarrow> string + int"
  ra_flush :: "'r \<Rightarrow> string option \<times> 'r"

record ('r, 'v) rcache =
  rc_server :: 'r
  rc_config :: cache_config
  rc_stats :: cache_stats
  rc_fallback :: "'v mcache option"

datatype ('r, 'v) any_cache = Redis "('r, 'v) rcache" | Memory "'v mcache"

section \<open>Operations\<close>

text \<open>\<open>ping\<close> is the result of connecting: an error or the server.\<close>

definition new_redis_cache ::
  "(string + 'r) \<Rightarrow> cache_config \<Rightarrow> cache_error + ('r, 'v) rcache" where
  "new_redis_cache ping c =
     (case ping of
        Inl msg \<Rightarrow> Inl (BackendError msg)
      | Inr s \<Rightarrow> Inr \<lparr>rc_server = s, rc_config = c, rc_stats = zero_stats,
                      rc_fallback = (if cc_fallback c then Some (new_memory_cache c) else None)\<rparr>)"

definition new_cache ::
  "(string + 'r) \<Rightarrow> cache_config option \<Rightarrow> cache_error + ('r, 'v) any_cache" where
  "new_cache ping config =
     (let c = (case config of None \<Rightarrow> default_cache_config | Some c \<Rightarrow> c)
      in if cc_backend c = ''redis'' then
           (case new_redis_cache ping c of
              Inl e \<Rightarrow> if cc_fallback c then Inr (Memory (new_memory_cache c)) else Inl e
            | Inr r \<Rightarrow> Inr (Redis r))
         else if cc_backend c = ''memory'' then Inr (Memory (new_memory_cache c))
         else Inl UnsupportedBackend)"

definition redis_get ::
  "'r redis_api \<Rightarrow> (string \<Rightarrow> 'v option) \<Rightarrow> instant \<Rightarrow> string \<Rightarrow> ('r, 'v) rcache \<Rightarrow>
   (cache_error + 'v) \<times> ('r, 'v) rcache" where
  "redis_get api unmarshal now key r =
     (case ra_get api (rc_server r) key of
        Inl err \<Rightarrow>
          let r = r\<lparr>rc_stats := stat_miss (rc_stats r)\<rparr>
          in (case err of
                RedisNil \<Rightarrow> (Inl CacheMiss, r)
              | RedisErr msg \<Rightarrow>
                  (case rc_fallback r of
                     Some f \<Rightarrow> let (res, f) = mem_get now key f in (res, r\<lparr>rc_fallback := Some f\<rparr>)
                   | None \<Rightarrow> (Inl (BackendError msg), r)))
      | Inr data \<Rightarrow>
          let r = r\<lparr>rc_stats := stat_hit (rc_stats r)\<rparr>
          in (case unmarshal data of
                None \<Rightarrow> (Inl DecodeError, r)
              | Some v \<Rightarrow> (Inr v, r)))"

text \<open>The writing operations return the error, \<open>None\<close> for success.\<close>

definition redis_set ::
  "'r redis_api \<Rightarrow> ('v \<Rightarrow> string option) \<Rightarrow> instant \<Rightarrow> instant \<Rightarrow> string \<Rightarrow> 'v \<Rightarrow> duration \<Rightarrow>
   ('r, 'v) rcache \<Rightarrow> cache_error option \<times> ('r, 'v) rcache" where
  "redis_set api marshal tev now key v ttl r =
     (case marshal v of
        None \<Rightarrow> (Some EncodeError, r)
      | Some data \<Rightarrow>
          let (err, s) = ra_set api (rc_server r) key data ttl; r = r\<lparr>rc_server := s\<rparr>
          in (case err of
                Some msg \<Rightarrow>
                  (case rc_fallback r of
                     Some f \<Rightarrow>
                       (None, r\<lparr>rc_fallback := Some (mem_set marshal tev now key v ttl f)\<rparr>)
                   | None \<Rightarrow> (Some (BackendError msg), r))
              | None \<Rightarrow>
                  (let r = r\<lparr>rc_stats := (rc_stats r)\<lparr>st_sets := st_sets (rc_stats r) + 1\<rparr>\<rparr>
                   in (None, r\<lparr>rc_fallback :=
                         map_option (mem_set marshal tev now key v ttl) (rc_fallback r)\<rparr>))))"

definition redis_delete ::
  "'r redis_api \<Rightarrow> string \<Rightarrow> ('r, 'v) rcache \<Rightarrow> cache_error option \<times> ('r, 'v) rcache" where
  "redis_delete api key r =
     (let (err, s) = ra_del api (rc_server r) key; r = r\<lparr>rc_server := s\<rparr>
      in (case err of
            Some msg \<Rightarrow>
              (case rc_fallback r of
                 Some f \<Rightarrow> (None, r\<lparr>rc_fallback := Some (mem_delete key f)\<rparr>)
               | None \<Rightarrow> (Some (BackendError msg), r))
          | None \<Rightarrow>
              (let r = r\<lparr>rc_stats := (rc_stats r)\<lparr>st_deletes := st_deletes (rc_stats r) + 1\<rparr>\<rparr>
               in (None, r\<lparr>rc_fallback := map_option (mem_delete key) (rc_fallback r)\<rparr>))))"

definition redis_exists ::
  "'r redis_api \<Rightarrow> instant \<Rightarrow> string \<Rightarrow> ('r, 'v) rcache \<Rightarrow> cache_error + bool" where
  "redis_exists api now key r =
     (case ra_exists api (rc_server r) key of
        Inl msg \<Rightarrow>
          (case rc_fallback r of
             Some f \<Rightarrow> Inr (mem_exists now key f)
           | None \<Rightarrow> Inl (BackendError msg))
      | Inr n \<Rightarrow> Inr (0 < n))"

definition redis_clear ::
  "'r redis_api \<Rightarrow> ('r, 'v) rcache \<Rightarrow> cache_error option \<times> ('r, 'v) rcache" where
  "redis_clear api r =
     (let (err, s) = ra_flush api (rc_server r); r = r\<lparr>rc_server := s\<rparr>
      in (case err of
            Some msg \<Rightarrow>
              (case rc_fallback r of
                 Some f \<Rightarrow> (None, r\<lparr>rc_fallback := Some (mem_clear f)\<rparr>)
               | None \<Rightarrow> (Some (BackendError msg), r))
          | None \<Rightarrow> (None, r\<lparr>rc_fallback := map_option mem_clear (rc_fallback r)\<rparr>)))"

section \<open>Lemmas\<close>

text \<open>An outage: the server answers a read with an error other than a missing key.\<close>

definition down :: "'r redis_api \<Rightarrow> 'r \<Rightarrow> bool" where
  "down api s \<longleftrightarrow> (\<forall>k. \<exists>msg. ra_get api s k = Inl (RedisErr msg))"

lemma redis_get_down:
  "down api (rc_server r) \<Longrightarrow> rc_fallback r = Some f \<Longrightarrow>
   fst (redis_get api unmarshal t k r) = fst (mem_get t k f)"
  unfolding down_def
  by (drule spec [of _ k]) (auto simp: redis_get_def Let_def split: prod.splits)

text \<open>Every successful write leaves the fallback as if the write had gone to it alone.\<close>

lemma redis_set_fallback:
  assumes "fst (redis_set api marshal tev now k v ttl r) = None" and "rc_fallback r = Some f"
  shows "rc_fallback (snd (redis_set api marshal tev now k v ttl r)) =
           Some (mem_set marshal tev now k v ttl f)"
  using assms by (auto simp: redis_set_def Let_def split: option.splits prod.splits)

lemma redis_delete_fallback:
  "rc_fallback r = Some f \<Longrightarrow>
   rc_fallback (snd (redis_delete api k r)) = Some (mem_delete k f) \<and>
   fst (redis_delete api k r) = None"
  by (auto simp: redis_delete_def Let_def split: option.splits prod.splits)

section \<open>A sample server\<close>

text \<open>A server that is reached or not, with its table of keys.\<close>

type_synonym sample_server = "bool \<times> (string, string) gomap"

definition sample_api :: "sample_server redis_api" where
  "sample_api =
     \<lparr>ra_get = (\<lambda>(up, m) k. if \<not> up then Inl (RedisErr ''down'')
                            else case gm_get m k of None \<Rightarrow> Inl RedisNil | Some d \<Rightarrow> Inr d),
      ra_set = (\<lambda>(up, m) k d ttl. if up then (None, (up, gm_put k d m)) else (Some ''down'', (up, m))),
      ra_del = (\<lambda>(up, m) k. if up then (None, (up, gm_del k m)) else (Some ''down'', (up, m))),
      ra_exists = (\<lambda>(up, m) k. if up then Inr (if gm_get m k = None then 0 else 1)
                               else Inl ''down''),
      ra_flush = (\<lambda>(up, m). if up then (None, (up, [])) else (Some ''down'', (up, m)))\<rparr>"

definition sample_rcache :: "bool \<Rightarrow> (sample_server, string) rcache" where
  "sample_rcache up =
     \<lparr>rc_server = (up, [(''k'', ''old'')]), rc_config = small_config, rc_stats = zero_stats,
      rc_fallback = Some (new_memory_cache small_config)\<rparr>"

lemma sample_down: "down sample_api (False, m)"
  by (simp add: down_def sample_api_def)

section \<open>Properties\<close>

text \<open>
  A write that reports success is readable through the fallback in an outage that follows
  it, until it expires; whether the server took the write or was already down does not matter.
\<close>
theorem fallback_serves_writes:
  assumes "fst (redis_set api marshal tev now k v ttl r) = None"
    and "rc_fallback r = Some f" and "mem_ok f"
    and "rc_fallback r' = rc_fallback (snd (redis_set api marshal tev now k v ttl r))"
    and "down api (rc_server r')" and "t \<le> now + ttl"
  shows "fst (redis_get api unmarshal t k r') = Inr v"
proof -
  have "rc_fallback r' = Some (mem_set marshal tev now k v ttl f)"
    using assms(4) redis_set_fallback [OF assms(1,2)] by simp
  from redis_get_down [OF assms(5) this] mem.get_put [OF assms(3,6)] show ?thesis by simp
qed

theorem fallback_serves_writes_witness:
  "fst (redis_get sample_api plain 5 ''n'' ((snd (redis_set sample_api plain 0 0 ''n'' ''new'' 9
     (sample_rcache True)))\<lparr>rc_server := (False, [])\<rparr>)) = Inr ''new''"
proof (rule fallback_serves_writes [where r = "sample_rcache True" and marshal = plain
      and tev = 0 and now = 0 and ttl = 9 and f = "new_memory_cache small_config"])
  show "fst (redis_set sample_api plain 0 0 ''n'' ''new'' 9 (sample_rcache True)) = None"
    by (simp add: redis_set_def sample_api_def sample_rcache_def Let_def)
qed (simp_all add: sample_rcache_def new_memory_cache_def sample_down)

text \<open>
  A deletion made in an outage is acknowledged without an error, but only the fallback
  forgets the key: once the server answers again, a read returns the deleted value.
\<close>
theorem delete_in_outage_is_lost:
  assumes "ra_del api s k = (Some msg, s)" and "rc_server r = s" and "rc_fallback r = Some f"
    and "ra_get api s' k = Inr data" and "unmarshal data = Some v"
  shows "fst (redis_delete api k r) = None \<and> rc_server (snd (redis_delete api k r)) = s \<and>
         fst (redis_get api unmarshal t k ((snd (redis_delete api k r))\<lparr>rc_server := s'\<rparr>)) = Inr v"
  using assms by (simp add: redis_delete_def redis_get_def Let_def)

theorem delete_in_outage_is_lost_witness:
  "fst (redis_delete sample_api ''k'' (sample_rcache False)) = None \<and>
   rc_server (snd (redis_delete sample_api ''k'' (sample_rcache False))) = (False, [(''k'', ''old'')]) \<and>
   fst (redis_get sample_api plain 0 ''k''
     ((snd (redis_delete sample_api ''k'' (sample_rcache False)))
        \<lparr>rc_server := (True, [(''k'', ''old'')])\<rparr>)) = Inr ''old''"
  by (rule delete_in_outage_is_lost [where s = "(False, [(''k'', ''old'')])" and msg = "''down''"
        and f = "new_memory_cache small_config" and data = "''old''"])
    (simp_all add: sample_api_def sample_rcache_def)

end
