(* ===== verification/Capabilities.thy ===== *)
theory Capabilities
  imports Go_Prelude
begin

text \<open>
  The detector of export tools of \<open>daemon/capabilities/detector.go\<close>.  Looking a program up in
  the path and running it are arguments (\<open>look\<close>, \<open>run\<close>).  The four detections run concurrently
  and their results arrive in any order: \<open>detect\<close> takes the order as an argument.
\<close>

section \<open>Data\<close>

type_synonym export_method = string

definition method_ctl :: export_method where "method_ctl = ''ctl''"
definition method_govc :: export_method where "method_govc = ''govc''"
definition method_ovftool :: export_method where "method_ovftool = ''ovftool''"
definition method_web :: export_method where "method_web = ''web''"
definition method_nutanix :: export_method where "method_nutanix = ''nutanix''"

lemmas method_defs = method_ctl_def method_govc_def method_ovftool_def method_web_def
  method_nutanix_def

record capability =
  cap_method :: export_method
  cap_available :: bool
  cap_version :: string
  cap_path :: string
  cap_priority :: int
  cap_checked :: instant

type_synonym detector = "(export_method, capability) gomap"

section \<open>Detection\<close>

text \<open>
  The tools: \<open>look p\<close> is the path of a program and \<open>run p\<close> the output of its version command,
  \<open>None\<close> when it fails.
\<close>

definition missing_tool :: "export_method \<Rightarrow> int \<Rightarrow> instant \<Rightarrow> capability" where
  "missing_tool m p now =
     \<lparr>cap_method = m, cap_available = False, cap_version = [], cap_path = [], cap_priority = p,
      cap_checked = now\<rparr>"

definition detect_ctl ::
  "(string \<Rightarrow> string option) \<Rightarrow> (string \<Rightarrow> string option) \<Rightarrow> instant \<Rightarrow> capability" where
  "detect_ctl look run now =
     (let cap = missing_tool method_ctl 1 now
      in case look ''hyperctl'' of
           None \<Rightarrow> cap
         | Some path \<Rightarrow>
             let cap = cap\<lparr>cap_path := path\<rparr>
             in case run ''hyperctl'' of
                  None \<Rightarrow> cap\<lparr>cap_available := True, cap_version := ''unknown''\<rparr>
                | Some out \<Rightarrow> cap\<lparr>cap_version := trim_space out, cap_available := True\<rparr>)"

definition detect_govc ::
  "(string \<Rightarrow> string option) \<Rightarrow> (string \<Rightarrow> string option) \<Rightarrow> instant \<Rightarrow> capability" where
  "detect_govc look run now =
     (let cap = missing_tool method_govc 2 now
      in case look ''govc'' of
           None \<Rightarrow> cap
         | Some path \<Rightarrow>
             let cap = cap\<lparr>cap_path := path\<rparr>
             in case run ''govc'' of
                  None \<Rightarrow> cap\<lparr>cap_available := True, cap_version := ''unknown''\<rparr>
                | Some out \<Rightarrow> cap\<lparr>cap_version := trim_space out, cap_available := True\<rparr>)"

text \<open>\<open>strings.Split\<close> at line feeds.\<close>

fun split_lines :: "string \<Rightarrow> string list" where
  "split_lines [] = [[]]"
| "split_lines (c # s) =
     (if c = CHR 0x0A then [] # split_lines s
      else case split_lines s of [] \<Rightarrow> [[c]] | l # ls \<Rightarrow> (c # l) # ls)"

definition ovftool_version :: "string \<Rightarrow> string" where
  "ovftool_version out =
     (let v = (case find (\<lambda>l. str_contains l ''VMware ovftool'') (split_lines out) of
                 None \<Rightarrow> [] | Some l \<Rightarrow> trim_space l)
      in if v = [] then trim_space out else v)"

definition detect_ovftool ::
  "(string \<Rightarrow> string option) \<Rightarrow> (string \<Rightarrow> string option) \<Rightarrow> instant \<Rightarrow> capability" where
  "detect_ovftool look run now =
     (let cap = missing_tool method_ovftool 3 now
      in case look ''ovftool'' of
           None \<Rightarrow> cap
         | Some path \<Rightarrow>
             let cap = cap\<lparr>cap_path := path\<rparr>
             in case run ''ovftool'' of
                  None \<Rightarrow> cap\<lparr>cap_available := True, cap_version := ''unknown''\<rparr>
                | Some out \<Rightarrow> cap\<lparr>cap_version := ovftool_version out, cap_available := True\<rparr>)"

definition detect_web :: "instant \<Rightarrow> capability" where
  "detect_web now =
     \<lparr>cap_method = method_web, cap_available = True, cap_version = ''built-in'',
      cap_path = ''internal'', cap_priority = 4, cap_checked = now\<rparr>"

definition detections ::
  "(string \<Rightarrow> string option) \<Rightarrow> (string \<Rightarrow> string option) \<Rightarrow> instant \<Rightarrow> capability list" where
  "detections look run now =
     [detect_ctl look run now, detect_govc look run now, detect_ovftool look run now,
      detect_web now]"

text \<open>\<open>Detect\<close> stores the results as they arrive.\<close>

fun store_detections :: "capability list \<Rightarrow> detector \<Rightarrow> detector" where
  "store_detections [] d = d"
| "store_detections (c # cs) d = store_detections cs (gm_put (cap_method c) c d)"

section \<open>Queries\<close>

definition is_available :: "detector \<Rightarrow> export_method \<Rightarrow> bool" where
  "is_available d m = (case gm_get d m of None \<Rightarrow> False | Some c \<Rightarrow> cap_available c)"

definition priority_order :: "export_method list" where
  "priority_order = [method_ctl, method_govc, method_ovftool, method_web]"

definition get_best_method :: "detector \<Rightarrow> export_method" where
  "get_best_method d =
     (case find (is_available d) priority_order of None \<Rightarrow> method_web | Some m \<Rightarrow> m)"

definition get_available_methods :: "detector \<Rightarrow> export_method list" where
  "get_available_methods d = filter (is_available d) priority_order"

text \<open>
  The exporter a factory creates for a method: it needs the tool, and knows four methods.
\<close>

datatype exporter = CTLExporter string | GovcExporter string | OvftoolExporter string
  | WebExporter | NutanixExporter

datatype exporter_error =
    MethodNotAvailable export_method
  | UnknownMethod export_method
  | NoProviderRegistry

definition create_exporter :: "detector \<Rightarrow> export_method \<Rightarrow> exporter_error + exporter" where
  "create_exporter d m =
     (if \<not> is_available d m then Inl (MethodNotAvailable m)
      else let path = (case gm_get d m of None \<Rightarrow> [] | Some c \<Rightarrow> cap_path c)
           in if m = method_ctl then Inr (CTLExporter path)
              else if m = method_govc then Inr (GovcExporter path)
              else if m = method_ovftool then Inr (OvftoolExporter path)
              else if m = method_web then Inr WebExporter
              else Inl (UnknownMethod m))"

definition create_nutanix_exporter :: "bool \<Rightarrow> exporter_error + exporter" where
  "create_nutanix_exporter has_registry =
     (if has_registry then Inr NutanixExporter else Inl NoProviderRegistry)"

definition get_or_create_default :: "detector \<Rightarrow> exporter_error + exporter" where
  "get_or_create_default d = create_exporter d (get_best_method d)"

section \<open>Lemmas\<close>

lemma detections_methods:
  "map cap_method (detections look run now) = priority_order"
  by (simp add: detections_def detect_ctl_def detect_govc_def detect_ovftool_def detect_web_def
      missing_tool_def priority_order_def Let_def split: option.splits)

lemma store_detections_get:
  "distinct (map cap_method cs) \<Longrightarrow>
   gm_get (store_detections cs d) m =
     (case find (\<lambda>c. cap_method c = m) cs of None \<Rightarrow> gm_get d m | Some c \<Rightarrow> Some c)"
proof (induction cs d rule: store_detections.induct)
  case (1 d)
  then show ?case by simp
next
  case (2 c cs d)
  then have "cap_method c \<notin> set (map cap_method cs)" by simp
  then have "find (\<lambda>x. cap_method x = cap_method c) cs = None"
    by (auto simp: find_None_iff) (metis imageI)
  with 2 show ?case by (auto split: option.splits)
qed

lemma find_unique:
  assumes "distinct (map f cs)" and "c \<in> set cs"
  shows "find (\<lambda>x. f x = f c) cs = Some c"
  using assms by (induction cs) (auto simp: rev_image_eqI)

lemma store_order_irrelevant:
  assumes "mset cs = mset cs'" and "distinct (map cap_method cs)"
  shows "gm_get (store_detections cs d) = gm_get (store_detections cs' d)"
proof
  fix m
  have d': "distinct (map cap_method cs')"
    using assms by (metis mset_eq_imp_distinct_iff mset_map)
  have s: "set cs = set cs'" using assms(1) by (rule mset_eq_setD)
  show "gm_get (store_detections cs d) m = gm_get (store_detections cs' d) m"
  proof (cases "\<exists>c \<in> set cs. cap_method c = m")
    case True
    then obtain c where c: "c \<in> set cs" "cap_method c = m" by blast
    with find_unique [OF assms(2) c(1)] find_unique [OF d', of c] s show ?thesis
      by (simp add: store_detections_get [OF assms(2)] store_detections_get [OF d'])
  next
    case False
    then have "find (\<lambda>c. cap_method c = m) cs = None" "find (\<lambda>c. cap_method c = m) cs' = None"
      using s by (auto simp: find_None_iff)
    then show ?thesis
      by (simp add: store_detections_get [OF assms(2)] store_detections_get [OF d'])
  qed
qed

lemma priority_order_distinct: "distinct priority_order"
  by (simp add: priority_order_def method_defs)

lemma best_method_eq:
  "get_best_method d =
     (if is_available d method_ctl then method_ctl
      else if is_available d method_govc then method_govc
      else if is_available d method_ovftool then method_ovftool else method_web)"
  by (simp add: get_best_method_def priority_order_def)

lemma create_exporter_best:
  "is_available d (get_best_method d) \<Longrightarrow> is_ok (get_or_create_default d)"
  by (auto simp: get_or_create_default_def create_exporter_def best_method_eq Let_def)

section \<open>Properties\<close>

text \<open>
  After a detection, in whatever order the four results arrive, the best method is the
  first of ctl, govc, ovftool and web whose tool was found (web always is), and a default
  exporter can be created.
\<close>
theorem detection_best_method:
  assumes "mset cs = mset (detections look run now)"
  shows "get_best_method (store_detections cs d) =
           (if look ''hyperctl'' \<noteq> None then method_ctl
            else if look ''govc'' \<noteq> None then method_govc
            else if look ''ovftool'' \<noteq> None then method_ovftool
            else method_web) \<and>
         is_ok (get_or_create_default (store_detections cs d))"
proof -
  let ?cs = "detections look run now"
  have dist: "distinct (map cap_method ?cs)"
    by (simp add: detections_methods priority_order_distinct)
  then have "distinct (map cap_method cs)"
    using assms by (metis mset_eq_imp_distinct_iff mset_map)
  then have get: "gm_get (store_detections cs d) = gm_get (store_detections ?cs d)"
    using store_order_irrelevant assms by blast
  have av: "is_available (store_detections cs d) (cap_method c) = cap_available c"
    if "c \<in> set ?cs" for c
    using find_unique [OF dist that] store_detections_get [OF dist, of d "cap_method c"]
    by (simp add: is_available_def get)
  have m: "cap_method (detect_ctl look run now) = method_ctl"
    "cap_method (detect_govc look run now) = method_govc"
    "cap_method (detect_ovftool look run now) = method_ovftool"
    "cap_method (detect_web now) = method_web"
    using detections_methods [of look run now] by (simp_all add: detections_def priority_order_def)
  have a: "cap_available (detect_ctl look run now) = (look ''hyperctl'' \<noteq> None)"
    "cap_available (detect_govc look run now) = (look ''govc'' \<noteq> None)"
    "cap_available (detect_ovftool look run now) = (look ''ovftool'' \<noteq> None)"
    "cap_available (detect_web now)"
    by (simp_all add: detect_ctl_def detect_govc_def detect_ovftool_def detect_web_def
        missing_tool_def Let_def split: option.splits)
  have avs: "is_available (store_detections cs d) method_ctl = (look ''hyperctl'' \<noteq> None)"
    "is_available (store_detections cs d) method_govc = (look ''govc'' \<noteq> None)"
    "is_available (store_detections cs d) method_ovftool = (look ''ovftool'' \<noteq> None)"
    "is_available (store_detections cs d) method_web"
    using av [of "detect_ctl look run now"] av [of "detect_govc look run now"]
      av [of "detect_ovftool look run now"] av [of "detect_web now"] m a
    by (simp_all add: detections_def)
  then have best: "get_best_method (store_detections cs d) =
      (if look ''hyperctl'' \<noteq> None then method_ctl else if look ''govc'' \<noteq> None then method_govc
       else if look ''ovftool'' \<noteq> None then method_ovftool else method_web)"
    by (simp add: best_method_eq)
  moreover have "is_available (store_detections cs d) (get_best_method (store_detections cs d))"
    using avs best by simp
  ultimately show ?thesis using create_exporter_best by simp
qed

theorem detection_best_method_witness:
  "get_best_method (store_detections (rev (detections
       (\<lambda>p. if p = ''govc'' then Some ''/usr/bin/govc'' else None) (\<lambda>p. None) 0)) []) = ''govc''"
  using detection_best_method [of "rev (detections
       (\<lambda>p. if p = ''govc'' then Some ''/usr/bin/govc'' else None) (\<lambda>p. None) 0)"
      "\<lambda>p. if p = ''govc'' then Some ''/usr/bin/govc'' else None" "\<lambda>p. None" 0 "[]"]
  by (simp add: method_govc_def)

end
