(* ===== verification/Job_Manager.thy ===== *)
theory Job_Manager
  imports Models Capabilities
begin

text \<open>
  The job manager of \<open>daemon/jobs/manager.go\<close>: submission, the goroutine that runs a job,
  cancellation, progress and the queries.  The export itself is done by external tools: the
  exporters' \<open>Validate\<close> and \<open>Export\<close> are an argument (\<open>export_env\<close>).  Each critical section of
  \<open>executeJob\<close> is an operation, and \<open>jm_step\<close> interleaves those of all jobs with the calls of
  the clients.  The notifications sent to the webhook manager are kept in order in \<open>jm_sent\<close>.
\<close>

section \<open>Data\<close>

datatype job_event =
    EvCreated string
  | EvStarted string
  | EvCompleted string
  | EvFailed string
  | EvCancelled string

datatype jm_error =
    JobAlreadyExists string
  | JobNotFound string
  | CannotCancel string job_status

record manager =
  jm_jobs :: "(string, job) gomap"
  jm_start :: instant
  jm_webhook :: bool
  jm_sent :: "job_event list"
  jm_detector :: detector
  jm_registry :: bool

definition new_manager :: "instant \<Rightarrow> detector \<Rightarrow> manager" where
  "new_manager now d =
     \<lparr>jm_jobs = [], jm_start = now, jm_webhook = False, jm_sent = [], jm_detector = d,
      jm_registry = False\<rparr>"

definition set_webhook_manager :: "bool \<Rightarrow> manager \<Rightarrow> manager" where
  "set_webhook_manager b m = m\<lparr>jm_webhook := b\<rparr>"

definition set_provider_context :: "bool \<Rightarrow> manager \<Rightarrow> manager" where
  "set_provider_context has_registry m = m\<lparr>jm_registry := has_registry\<rparr>"

definition notify :: "job_event \<Rightarrow> manager \<Rightarrow> manager" where
  "notify ev m = (if jm_webhook m then m\<lparr>jm_sent := jm_sent m @ [ev]\<rparr> else m)"

definition find_job :: "manager \<Rightarrow> string \<Rightarrow> job option" where
  "find_job m = gm_get (jm_jobs m)"

definition put_job :: "string \<Rightarrow> job \<Rightarrow> manager \<Rightarrow> manager" where
  "put_job jid j m = m\<lparr>jm_jobs := gm_put jid j (jm_jobs m)\<rparr>"

section \<open>Submission\<close>

definition new_job :: "instant \<Rightarrow> job_definition \<Rightarrow> job" where
  "new_job now d =
     \<lparr>job_def = d\<lparr>jd_created := now\<rparr>, job_stat = JobStatusPending, job_prog = None,
      job_res = None, job_error = [], job_started = None, job_completed = None,
      job_updated = now\<rparr>"

text \<open>\<open>uuid\<close> is the fresh identifier used when the definition has none.\<close>

definition submit_job ::
  "instant \<Rightarrow> string \<Rightarrow> job_definition \<Rightarrow> manager \<Rightarrow> jm_error + (string \<times> manager)" where
  "submit_job now uuid d m =
     (let d = (if jd_id d = [] then d\<lparr>jd_id := uuid\<rparr> else d); jid = jd_id d
      in if find_job m jid \<noteq> None then Inl (JobAlreadyExists jid)
         else Inr (jid, notify (EvCreated jid) (put_job jid (new_job now d) m)))"

text \<open>\<open>SubmitBatch\<close>; the \<open>n\<close>-th submission takes the \<open>n\<close>-th clock reading and identifier.\<close>

fun submit_batch ::
  "(instant \<times> string) list \<Rightarrow> job_definition list \<Rightarrow> manager \<Rightarrow> string list \<times> jm_error list \<times> manager"
where
  "submit_batch ((now, uuid) # fs) (d # ds) m =
     (case submit_job now uuid d m of
        Inl e \<Rightarrow> let (ids, es, m') = submit_batch fs ds m in (ids, e # es, m')
      | Inr (jid, m1) \<Rightarrow> let (ids, es, m') = submit_batch fs ds m1 in (jid # ids, es, m'))"
| "submit_batch _ _ m = ([], [], m)"

section \<open>Definitions are normalized\<close>

definition metadata_provider :: "job_definition \<Rightarrow> string option" where
  "metadata_provider d =
     (case jd_metadata d of
        None \<Rightarrow> None
      | Some md \<Rightarrow> (case gm_get md ''provider'' of Some (MetaString p) \<Rightarrow> Some p | _ \<Rightarrow> None))"

definition is_nutanix_job :: "job_definition \<Rightarrow> bool" where
  "is_nutanix_job d =
     (if equal_fold (jd_provider d) ''nutanix'' then True
      else if equal_fold (jd_export_method d) method_nutanix
              \<or> equal_fold (jd_method d) method_nutanix then True
      else (case metadata_provider d of Some p \<Rightarrow> equal_fold p ''nutanix'' | None \<Rightarrow> False))"

definition norm_vcenter :: "job_definition \<Rightarrow> job_definition" where
  "norm_vcenter d =
     (if jd_vcenter d = None \<and> (jd_vcenter_url d \<noteq> [] \<or> jd_username d \<noteq> [] \<or> jd_password d \<noteq> [])
      then d\<lparr>jd_vcenter := Some
               \<lparr>vc_server = (if jd_vcenter_url d = [] then ''vcenter.example.com''
                             else jd_vcenter_url d),
                vc_username = jd_username d, vc_password = jd_password d,
                vc_insecure = jd_insecure d\<rparr>\<rparr>
      else d)"

definition norm_output :: "job_definition \<Rightarrow> job_definition" where
  "norm_output d =
     (if jd_output_dir d = [] \<and> jd_output_path d \<noteq> [] then d\<lparr>jd_output_dir := jd_output_path d\<rparr>
      else d)"

definition norm_method :: "job_definition \<Rightarrow> job_definition" where
  "norm_method d =
     (if jd_export_method d = [] \<and> jd_method d \<noteq> [] then d\<lparr>jd_export_method := jd_method d\<rparr>
      else d)"

definition merge_options :: "bool \<Rightarrow> bool option \<Rightarrow> export_options \<Rightarrow> export_options" where
  "merge_options pipeline rdp eo =
     eo\<lparr>eo_enable_pipeline := (if pipeline then True else eo_enable_pipeline eo),
        eo_enable_rdp := (if rdp \<noteq> None then rdp else eo_enable_rdp eo)\<rparr>"

definition norm_options :: "job_definition \<Rightarrow> job_definition" where
  "norm_options d =
     (if jd_enable_pipeline d \<or> jd_enable_rdp d \<noteq> None
      then let eo = (case jd_options d of None \<Rightarrow> zero_export_options | Some eo \<Rightarrow> eo)
           in d\<lparr>jd_options := Some (merge_options (jd_enable_pipeline d) (jd_enable_rdp d) eo)\<rparr>
      else d)"

definition norm_format :: "job_definition \<Rightarrow> job_definition" where
  "norm_format d =
     (if jd_format d = [] then d\<lparr>jd_format := (if is_nutanix_job d then ''qcow2'' else ''ovf'')\<rparr>
      else d)"

definition norm_provider :: "job_definition \<Rightarrow> job_definition" where
  "norm_provider d =
     (if jd_provider d = [] then
        (case metadata_provider d of Some p \<Rightarrow> d\<lparr>jd_provider := p\<rparr> | None \<Rightarrow> d)
      else d)"

definition normalize_job_definition :: "job_definition \<Rightarrow> job_definition" where
  "normalize_job_definition d =
     norm_provider (norm_format (norm_options (norm_method (norm_output (norm_vcenter d)))))"

section \<open>The export\<close>

record export_env =
  xe_validate :: "exporter \<Rightarrow> job_definition \<Rightarrow> string option"
  xe_export :: "exporter \<Rightarrow> job_definition \<Rightarrow> string + export_result"

definition select_export_method :: "detector \<Rightarrow> job_definition \<Rightarrow> export_method" where
  "select_export_method det d =
     (if jd_export_method d \<noteq> [] \<and> is_available det (jd_export_method d) then jd_export_method d
      else get_best_method det)"

definition exporter_error_string :: "exporter_error \<Rightarrow> string" where
  "exporter_error_string e =
     (case e of
        MethodNotAvailable m \<Rightarrow> ''export method '' @ m @ '' is not available''
      | UnknownMethod m \<Rightarrow> ''unknown export method: '' @ m
      | NoProviderRegistry \<Rightarrow> ''provider registry is not configured'')"

text \<open>Validation and export with a created exporter.\<close>

definition run_exporter ::
  "export_env \<Rightarrow> exporter \<Rightarrow> job_definition \<Rightarrow> string + export_result" where
  "run_exporter env x d =
     (case xe_validate env x d of
        Some e \<Rightarrow> Inl (''validate job definition: '' @ e)
      | None \<Rightarrow>
          (case xe_export env x d of
             Inl e \<Rightarrow> Inl (''export failed: '' @ e)
           | Inr r \<Rightarrow> Inr r))"

definition run_nutanix_export ::
  "export_env \<Rightarrow> bool \<Rightarrow> job_definition \<Rightarrow> string + export_result" where
  "run_nutanix_export env has_registry d =
     (case create_nutanix_exporter has_registry of
        Inl e \<Rightarrow> Inl (''create nutanix exporter: '' @ exporter_error_string e)
      | Inr x \<Rightarrow> run_exporter env x d)"

text \<open>\<open>runExport\<close>: the error or result, and the definition as it left it.\<close>

definition run_export ::
  "export_env \<Rightarrow> detector \<Rightarrow> bool \<Rightarrow> job_definition \<Rightarrow> (string + export_result) \<times> job_definition"
where
  "run_export env det has_registry d =
     (let d = normalize_job_definition d
      in if is_nutanix_job d then (run_nutanix_export env has_registry d, d)
         else (case create_exporter det (select_export_method det d) of
                 Inl e \<Rightarrow> (Inl (''create exporter: '' @ exporter_error_string e), d)
               | Inr x \<Rightarrow> (run_exporter env x d, d)))"

section \<open>The goroutine of a job\<close>

text \<open>
  The first critical section: \<open>None\<close> when there is no such job, otherwise whether a webhook
  manager was captured, and the private copy of the definition.  The notification is sent
  after the lock is released.
\<close>

definition execute_begin ::
  "instant \<Rightarrow> string \<Rightarrow> manager \<Rightarrow> (bool \<times> job_definition \<times> manager) option" where
  "execute_begin now jid m =
     (case find_job m jid of
        None \<Rightarrow> None
      | Some j \<Rightarrow>
          let j = j\<lparr>job_stat := JobStatusRunning, job_started := Some now, job_updated := now,
                    job_prog := Some (phase_progress ''connecting'')\<rparr>
          in Some (jm_webhook m, job_def j, put_job jid j m))"

definition announce_start :: "bool \<Rightarrow> string \<Rightarrow> manager \<Rightarrow> manager" where
  "announce_start captured jid m =
     (if captured then m\<lparr>jm_sent := jm_sent m @ [EvStarted jid]\<rparr> else m)"

definition update_progress :: "instant \<Rightarrow> string \<Rightarrow> job_progress \<Rightarrow> manager \<Rightarrow> manager" where
  "update_progress now jid p m =
     (case find_job m jid of
        None \<Rightarrow> m
      | Some j \<Rightarrow> put_job jid (j\<lparr>job_prog := Some p, job_updated := now\<rparr>) m)"

definition store_result :: "string \<Rightarrow> export_result \<Rightarrow> manager \<Rightarrow> manager" where
  "store_result jid r m =
     (case find_job m jid of
        None \<Rightarrow> m
      | Some j \<Rightarrow> put_job jid (j\<lparr>job_res := Some r\<rparr>) m)"

text \<open>The last critical section, with the error of the export and the definition it left.\<close>

definition execute_end ::
  "instant \<Rightarrow> string \<Rightarrow> string option \<Rightarrow> job_definition \<Rightarrow> manager \<Rightarrow> manager" where
  "execute_end now jid err d m =
     (case find_job m jid of
        None \<Rightarrow> m
      | Some j \<Rightarrow>
          let j = j\<lparr>job_def := d, job_completed := Some now, job_updated := now\<rparr>
          in (case err of
                Some e \<Rightarrow>
                  notify (EvFailed jid)
                    (put_job jid (j\<lparr>job_stat := JobStatusFailed, job_error := e\<rparr>) m)
              | None \<Rightarrow>
                  notify (EvCompleted jid) (put_job jid (j\<lparr>job_stat := JobStatusCompleted\<rparr>) m)))"

section \<open>Cancellation and queries\<close>

definition cancel_job :: "instant \<Rightarrow> string \<Rightarrow> manager \<Rightarrow> jm_error + manager" where
  "cancel_job now jid m =
     (case find_job m jid of
        None \<Rightarrow> Inl (JobNotFound jid)
      | Some j \<Rightarrow>
          if job_stat j \<noteq> JobStatusRunning \<and> job_stat j \<noteq> JobStatusPending
          then Inl (CannotCancel jid (job_stat j))
          else Inr (notify (EvCancelled jid)
                 (put_job jid (j\<lparr>job_stat := JobStatusCancelled, job_completed := Some now,
                                job_updated := now\<rparr>) m)))"

definition get_job :: "string \<Rightarrow> manager \<Rightarrow> jm_error + job" where
  "get_job jid m = (case find_job m jid of None \<Rightarrow> Inl (JobNotFound jid) | Some j \<Rightarrow> Inr j)"

text \<open>\<open>ListJobs\<close>: the jobs in the order of the iteration, up to the limit.\<close>

fun list_jobs_loop :: "job_status list \<Rightarrow> int \<Rightarrow> job list \<Rightarrow> job list \<Rightarrow> job list" where
  "list_jobs_loop sts limit [] acc = acc"
| "list_jobs_loop sts limit (j # js) acc =
     (if sts \<noteq> [] \<and> job_stat j \<notin> set sts then list_jobs_loop sts limit js acc
      else let acc = acc @ [j]
           in if 0 < limit \<and> limit \<le> int (length acc) then acc
              else list_jobs_loop sts limit js acc)"

definition list_jobs :: "job_status list \<Rightarrow> int \<Rightarrow> manager \<Rightarrow> job list" where
  "list_jobs sts limit m = list_jobs_loop sts limit (map snd (jm_jobs m)) []"

definition get_all_jobs :: "manager \<Rightarrow> job list" where
  "get_all_jobs m = list_jobs [] 0 m"

definition count_status :: "job_status \<Rightarrow> manager \<Rightarrow> int" where
  "count_status s m = int (length (filter (\<lambda>(jid, j). job_stat j = s) (jm_jobs m)))"

definition get_status :: "instant \<Rightarrow> manager \<Rightarrow> daemon_status" where
  "get_status now m =
     \<lparr>ds_version = ''0.0.1'', ds_uptime = now - jm_start m, ds_total = int (length (jm_jobs m)),
      ds_running = count_status JobStatusRunning m,
      ds_completed = count_status JobStatusCompleted m,
      ds_failed = count_status JobStatusFailed m,
      ds_cancelled = count_status JobStatusCancelled m, ds_timestamp = now\<rparr>"

section \<open>Frame lemmas\<close>

lemma find_job_put [simp]: "find_job (put_job k j m) = (find_job m)(k \<mapsto> j)"
  by (simp add: find_job_def put_job_def gm_get_put)

lemma find_job_notify [simp]: "find_job (notify ev m) = find_job m"
  by (simp add: find_job_def notify_def)

lemma find_job_announce [simp]: "find_job (announce_start b k m) = find_job m"
  by (simp add: find_job_def announce_start_def)

lemma find_job_webhook [simp]: "find_job (set_webhook_manager b m) = find_job m"
  by (simp add: find_job_def set_webhook_manager_def)

lemma find_job_new [simp]: "find_job (new_manager now d) k = None"
  by (simp add: find_job_def new_manager_def)

lemma jobs_wf_put [simp]: "gm_wf (jm_jobs m) \<Longrightarrow> gm_wf (jm_jobs (put_job k j m))"
  by (simp add: put_job_def)

lemma jobs_notify [simp]: "jm_jobs (notify ev m) = jm_jobs m"
  by (simp add: notify_def)

lemma jobs_announce [simp]: "jm_jobs (announce_start b k m) = jm_jobs m"
  by (simp add: announce_start_def)

lemma jobs_webhook [simp]: "jm_jobs (set_webhook_manager b m) = jm_jobs m"
  by (simp add: set_webhook_manager_def)

lemma submit_jobD:
  assumes "submit_job now uuid d m = Inr (k, m')"
  shows "find_job m k = None" and "k = (if jd_id d = [] then uuid else jd_id d)"
    and "find_job m' = (find_job m)(k \<mapsto> new_job now (d\<lparr>jd_id := k\<rparr>))"
    and "gm_wf (jm_jobs m) \<Longrightarrow> gm_wf (jm_jobs m')"
  using assms by (auto simp: submit_job_def Let_def split: if_splits)

lemma submit_job_errorD:
  assumes "submit_job now uuid d m = Inl e"
  shows "\<exists>j k. e = JobAlreadyExists k \<and> k = (if jd_id d = [] then uuid else jd_id d)
           \<and> find_job m k = Some j"
  using assms by (auto simp: submit_job_def Let_def split: if_splits)

lemma new_job_simps [simp]:
  "jd_id (job_def (new_job now d)) = jd_id d"
  "job_stat (new_job now d) = JobStatusPending"
  "job_started (new_job now d) = None"
  "job_completed (new_job now d) = None"
  "job_res (new_job now d) = None"
  by (simp_all add: new_job_def)

lemma execute_beginD:
  assumes "execute_begin now k m = Some (b, d, m')"
  shows "\<exists>j j'. find_job m k = Some j \<and> d = job_def j \<and> find_job m' = (find_job m)(k \<mapsto> j')
           \<and> job_def j' = job_def j \<and> job_stat j' = JobStatusRunning
           \<and> job_started j' = Some now \<and> job_completed j' = job_completed j
           \<and> job_res j' = job_res j"
    and "gm_wf (jm_jobs m) \<Longrightarrow> gm_wf (jm_jobs m')"
  using assms by (auto simp: execute_begin_def Let_def split: option.splits)

lemma cancel_jobD:
  assumes "cancel_job now k m = Inr m'"
  shows "\<exists>j. find_job m k = Some j \<and> job_stat j \<in> {JobStatusRunning, JobStatusPending}
           \<and> find_job m' = (find_job m)(k \<mapsto> j\<lparr>job_stat := JobStatusCancelled,
                               job_completed := Some now, job_updated := now\<rparr>)"
    and "gm_wf (jm_jobs m) \<Longrightarrow> gm_wf (jm_jobs m')"
  using assms by (auto simp: cancel_job_def split: option.splits if_splits)

lemma update_progress_find:
  "find_job (update_progress now k p m) =
     (case find_job m k of None \<Rightarrow> find_job m
      | Some j \<Rightarrow> (find_job m)(k \<mapsto> j\<lparr>job_prog := Some p, job_updated := now\<rparr>))"
  by (simp add: update_progress_def split: option.split)

lemma store_result_find:
  "find_job (store_result k r m) =
     (case find_job m k of None \<Rightarrow> find_job m
      | Some j \<Rightarrow> (find_job m)(k \<mapsto> j\<lparr>job_res := Some r\<rparr>))"
  by (simp add: store_result_def split: option.split)

definition finished_job :: "instant \<Rightarrow> string option \<Rightarrow> job_definition \<Rightarrow> job \<Rightarrow> job" where
  "finished_job now err d j =
     (let j = j\<lparr>job_def := d, job_completed := Some now, job_updated := now\<rparr>
      in (case err of Some e \<Rightarrow> j\<lparr>job_stat := JobStatusFailed, job_error := e\<rparr>
          | None \<Rightarrow> j\<lparr>job_stat := JobStatusCompleted\<rparr>))"

lemma finished_job_simps [simp]:
  "job_def (finished_job now err d j) = d"
  "job_stat (finished_job now err d j) =
     (if err = None then JobStatusCompleted else JobStatusFailed)"
  "job_completed (finished_job now err d j) = Some now"
  "job_started (finished_job now err d j) = job_started j"
  "job_res (finished_job now err d j) = job_res j"
  by (simp_all add: finished_job_def Let_def split: option.split)

lemma execute_end_find:
  "find_job (execute_end now k err d m) =
     (case find_job m k of None \<Rightarrow> find_job m
      | Some j \<Rightarrow> (find_job m)(k \<mapsto> finished_job now err d j))"
  by (simp add: execute_end_def finished_job_def Let_def split: option.split)

lemma jobs_wf_frame [simp]:
  assumes "gm_wf (jm_jobs m)"
  shows "gm_wf (jm_jobs (update_progress now k p m))"
    and "gm_wf (jm_jobs (store_result k r m))"
    and "gm_wf (jm_jobs (execute_end now k err d m))"
  using assms
  by (simp_all add: update_progress_def store_result_def execute_end_def Let_def split: option.split)

text \<open>Normalization keeps the identifier.\<close>

lemma jd_id_norm_steps:
  "jd_id (norm_vcenter d) = jd_id d"
  "jd_id (norm_output d) = jd_id d"
  "jd_id (norm_method d) = jd_id d"
  "jd_id (norm_options d) = jd_id d"
  "jd_id (norm_format d) = jd_id d"
  "jd_id (norm_provider d) = jd_id d"
  by (simp_all only: norm_vcenter_def norm_output_def norm_method_def norm_options_def
      norm_format_def norm_provider_def Let_def split: option.split if_split)
    simp_all

lemma jd_id_normalize [simp]: "jd_id (normalize_job_definition d) = jd_id d"
  by (simp only: normalize_job_definition_def jd_id_norm_steps)

lemma run_export_definition: "snd (run_export env det reg d) = normalize_job_definition d"
  by (simp add: run_export_def Let_def split: sum.split)

section \<open>The contract of an executor\<close>

text \<open>
  What the scheduler relies on when it submits a job (\<open>JobExecutor\<close> in
  \<open>daemon/scheduler/scheduler.go\<close>): the identifier was free, it now names a pending job with
  the submitted template, nothing else changed; a refused submission means the identifier is
  taken.
\<close>

locale job_executor =
  fixes submit :: "instant \<Rightarrow> string \<Rightarrow> job_definition \<Rightarrow> 'm \<Rightarrow> jm_error + (string \<times> 'm)"
    and find :: "'m \<Rightarrow> string \<Rightarrow> job option"
  assumes submit_ok:
      "submit now uuid d m = Inr (k, m') \<Longrightarrow>
       find m k = None \<and> k = (if jd_id d = [] then uuid else jd_id d)
       \<and> find m' = (find m)(k \<mapsto> new_job now (d\<lparr>jd_id := k\<rparr>))"
    and submit_refused:
      "submit now uuid d m = Inl e \<Longrightarrow> find m (if jd_id d = [] then uuid else jd_id d) \<noteq> None"
begin

lemma submit_succeeds_iff:
  "is_ok (submit now uuid d m) \<longleftrightarrow> find m (if jd_id d = [] then uuid else jd_id d) = None"
proof (cases "submit now uuid d m")
  case (Inl e)
  then show ?thesis using submit_refused by fastforce
next
  case (Inr r)
  then show ?thesis using submit_ok by (cases r) fastforce
qed

lemma submit_keeps: "submit now uuid d m = Inr (k, m') \<Longrightarrow> find m i = Some j \<Longrightarrow> find m' i = Some j"
  using submit_ok by fastforce

text \<open>An identifier, once used, refuses every later submission.\<close>

lemma resubmit_refused:
  assumes "submit now uuid d m = Inr (k, m')" and "jd_id d' = k" and "k \<noteq> []"
  shows "\<not> is_ok (submit now' uuid' d' m')"
  using submit_ok [OF assms(1)] assms(2,3) by (auto simp: submit_succeeds_iff)

end

interpretation jm: job_executor submit_job find_job
proof unfold_locales
  fix now uuid d m k m'
  assume "submit_job now uuid d m = Inr (k, m')"
  then show "find_job m k = None \<and> k = (if jd_id d = [] then uuid else jd_id d)
    \<and> find_job m' = (find_job m)(k \<mapsto> new_job now (d\<lparr>jd_id := k\<rparr>))"
    using submit_jobD by blast
next
  fix now uuid d m e
  assume "submit_job now uuid d m = Inl e"
  then show "find_job m (if jd_id d = [] then uuid else jd_id d) \<noteq> None"
    using submit_job_errorD by blast
qed

section \<open>Interleavings\<close>

text \<open>
  Where the goroutine of a job stands: not yet begun; begun, with the captured webhook flag
  and its copy of the definition; exporting; and holding the outcome of the export.  A job
  whose goroutine has returned has no entry.
\<close>

datatype jm_thread =
    Spawned
  | Starting bool job_definition
  | Exporting job_definition
  | Finishing "string option" job_definition

record jm_sys =
  js_mgr :: manager
  js_threads :: "string \<Rightarrow> jm_thread option"

definition init_sys :: "instant \<Rightarrow> detector \<Rightarrow> jm_sys" where
  "init_sys now d = \<lparr>js_mgr = new_manager now d, js_threads = Map.empty\<rparr>"

text \<open>
  An exporter that reads the output of a tool does so in a goroutine it does not wait for
  (\<open>monitorOutput\<close> in \<open>govc_exporter.go\<close>), so that progress is reported from the start of the export on
  and also after its end.
\<close>

fun monitored :: "jm_thread option \<Rightarrow> bool" where
  "monitored (Some Spawned) = False"
| "monitored (Some (Starting b d)) = False"
| "monitored t = True"

inductive jm_step :: "jm_sys \<Rightarrow> jm_sys \<Rightarrow> bool" where
  submit: "submit_job now uuid d (js_mgr s) = Inr (k, m') \<Longrightarrow>
    jm_step s \<lparr>js_mgr = m', js_threads = (js_threads s)(k \<mapsto> Spawned)\<rparr>"
| begins: "js_threads s k = Some Spawned \<Longrightarrow> execute_begin now k (js_mgr s) = Some (b, d, m') \<Longrightarrow>
    jm_step s \<lparr>js_mgr = m', js_threads = (js_threads s)(k \<mapsto> Starting b d)\<rparr>"
| announce: "js_threads s k = Some (Starting b d) \<Longrightarrow>
    jm_step s \<lparr>js_mgr = announce_start b k (js_mgr s),
               js_threads = (js_threads s)(k \<mapsto> Exporting d)\<rparr>"
| progress: "monitored (js_threads s k) \<Longrightarrow>
    jm_step s (s\<lparr>js_mgr := update_progress now k p (js_mgr s)\<rparr>)"
| exported: "js_threads s k = Some (Exporting d) \<Longrightarrow>
    run_export env (jm_detector (js_mgr s)) (jm_registry (js_mgr s)) d = (Inr r, d') \<Longrightarrow>
    jm_step s \<lparr>js_mgr = store_result k r (js_mgr s),
               js_threads = (js_threads s)(k \<mapsto> Finishing None d')\<rparr>"
| export_failed: "js_threads s k = Some (Exporting d) \<Longrightarrow>
    run_export env (jm_detector (js_mgr s)) (jm_registry (js_mgr s)) d = (Inl e, d') \<Longrightarrow>
    jm_step s (s\<lparr>js_threads := (js_threads s)(k \<mapsto> Finishing (Some e) d')\<rparr>)"
| ends: "js_threads s k = Some (Finishing err d) \<Longrightarrow>
    jm_step s \<lparr>js_mgr = execute_end now k err d (js_mgr s),
               js_threads = (js_threads s)(k := None)\<rparr>"
| cancel: "cancel_job now k (js_mgr s) = Inr m' \<Longrightarrow> jm_step s (s\<lparr>js_mgr := m'\<rparr>)"
| webhooks: "jm_step s (s\<lparr>js_mgr := set_webhook_manager b (js_mgr s)\<rparr>)"

inductive jm_reachable :: "instant \<Rightarrow> detector \<Rightarrow> jm_sys \<Rightarrow> bool" for now d where
  init: "jm_reachable now d (init_sys now d)"
| step: "jm_reachable now d s \<Longrightarrow> jm_step s s' \<Longrightarrow> jm_reachable now d s'"

text \<open>What holds of a job, given where its goroutine stands.\<close>

definition job_ok :: "string \<Rightarrow> jm_thread option \<Rightarrow> job \<Rightarrow> bool" where
  "job_ok k t j \<longleftrightarrow>
     jd_id (job_def j) = k
     \<and> (job_completed j = None \<longrightarrow> job_stat j \<in> {JobStatusPending, JobStatusRunning})
     \<and> (job_stat j = JobStatusPending \<longrightarrow> job_completed j = None)
     \<and> (case t of
          Some Spawned \<Rightarrow> job_stat j \<in> {JobStatusPending, JobStatusCancelled}
                          \<and> job_started j = None \<and> job_res j = None
        | Some (Starting b d) \<Rightarrow> jd_id d = k \<and> job_started j \<noteq> None \<and> job_res j = None
            \<and> job_stat j \<in> {JobStatusRunning, JobStatusCancelled}
        | Some (Exporting d) \<Rightarrow> jd_id d = k \<and> job_started j \<noteq> None \<and> job_res j = None
            \<and> job_stat j \<in> {JobStatusRunning, JobStatusCancelled}
        | Some (Finishing err d) \<Rightarrow> jd_id d = k \<and> job_started j \<noteq> None
            \<and> (job_res j \<noteq> None \<longleftrightarrow> err = None)
            \<and> job_stat j \<in> {JobStatusRunning, JobStatusCancelled}
        | None \<Rightarrow> job_started j \<noteq> None
            \<and> job_stat j \<in> {JobStatusCompleted, JobStatusFailed}
            \<and> (job_res j \<noteq> None \<longleftrightarrow> job_stat j = JobStatusCompleted))"

definition jm_inv :: "jm_sys \<Rightarrow> bool" where
  "jm_inv s \<longleftrightarrow> gm_wf (jm_jobs (js_mgr s))
     \<and> (\<forall>k. case find_job (js_mgr s) k of
              None \<Rightarrow> js_threads s k = None
            | Some j \<Rightarrow> job_ok k (js_threads s k) j)"

lemma jm_inv_wf: "jm_inv s \<Longrightarrow> gm_wf (jm_jobs (js_mgr s))"
  by (simp add: jm_inv_def)

lemma jm_inv_entry:
  "jm_inv s \<Longrightarrow> case find_job (js_mgr s) k of None \<Rightarrow> js_threads s k = None
                | Some j \<Rightarrow> job_ok k (js_threads s k) j"
  by (simp add: jm_inv_def)

lemma jm_inv_job: "jm_inv s \<Longrightarrow> find_job (js_mgr s) k = Some j \<Longrightarrow> job_ok k (js_threads s k) j"
  using jm_inv_entry [of s k] by simp

lemma jm_inv_thread:
  "jm_inv s \<Longrightarrow> js_threads s k = Some t \<Longrightarrow>
   \<exists>j. find_job (js_mgr s) k = Some j \<and> job_ok k (Some t) j"
  using jm_inv_entry [of s k] by (auto split: option.splits)

text \<open>A step that changes the entry of one job keeps the invariant if the new entry is good.\<close>

lemma jm_inv_update:
  assumes inv: "jm_inv s" and wf: "gm_wf (jm_jobs (js_mgr s'))"
    and jobs: "find_job (js_mgr s') = (find_job (js_mgr s))(k \<mapsto> j')"
    and ths: "js_threads s' = (js_threads s)(k := t)"
    and ok: "job_ok k t j'"
  shows "jm_inv s'"
  unfolding jm_inv_def
proof (intro conjI allI wf)
  fix i
  show "case find_job (js_mgr s') i of None \<Rightarrow> js_threads s' i = None
        | Some j \<Rightarrow> job_ok i (js_threads s' i) j"
    using jm_inv_entry [OF inv, of i] ok by (cases "i = k") (simp_all add: jobs ths split: option.splits)
qed

lemma jm_inv_init: "jm_inv (init_sys now d)"
  by (simp add: jm_inv_def init_sys_def) (simp add: new_manager_def)

lemma job_ok_new: "job_ok k (Some Spawned) (new_job now (d\<lparr>jd_id := k\<rparr>))"
  by (simp add: job_ok_def)

lemma jm_inv_step:
  assumes "jm_step s s'" and inv: "jm_inv s"
  shows "jm_inv s'"
  using assms(1)
proof cases
  case (submit now uuid d k m')
  show ?thesis unfolding submit(1)
    by (rule jm_inv_update [OF inv _ _ _ job_ok_new])
      (use submit_jobD [OF submit(2)] jm_inv_wf [OF inv] in auto)
next
  case (begins k now b d m')
  obtain j j' where j: "find_job (js_mgr s) k = Some j" "d = job_def j"
      "find_job m' = (find_job (js_mgr s))(k \<mapsto> j')" "job_def j' = job_def j"
      "job_stat j' = JobStatusRunning" "job_started j' = Some now"
      "job_completed j' = job_completed j" "job_res j' = job_res j"
    using execute_beginD [OF begins(3)] by blast
  have "job_ok k (Some Spawned) j" using jm_inv_job [OF inv j(1)] begins(2) by simp
  then have ok: "job_ok k (Some (Starting b d)) j'" using j by (auto simp: job_ok_def)
  show ?thesis unfolding begins(1)
    by (rule jm_inv_update [OF inv _ _ _ ok])
      (use j(3) execute_beginD(2) [OF begins(3)] jm_inv_wf [OF inv] in auto)
next
  case (announce k b d)
  obtain j where j: "find_job (js_mgr s) k = Some j" "job_ok k (Some (Starting b d)) j"
    using jm_inv_thread [OF inv announce(2)] by blast
  have ok: "job_ok k (Some (Exporting d)) j" using j(2) by (simp add: job_ok_def)
  show ?thesis unfolding announce(1)
    by (rule jm_inv_update [OF inv _ _ _ ok]) (use j jm_inv_wf [OF inv] in auto)
next
  case (progress k now p)
  show ?thesis
  proof (cases "find_job (js_mgr s) k")
    case None
    then have "update_progress now k p (js_mgr s) = js_mgr s" by (simp add: update_progress_def)
    then show ?thesis using inv progress(1) by simp
  next
    case (Some j)
    have ok: "job_ok k (js_threads s k) (j\<lparr>job_prog := Some p, job_updated := now\<rparr>)"
      using jm_inv_job [OF inv Some] by (simp add: job_ok_def split: option.splits jm_thread.splits)
    show ?thesis unfolding progress(1)
      by (rule jm_inv_update [OF inv _ _ _ ok])
        (use Some jm_inv_wf [OF inv] in \<open>auto simp: update_progress_find\<close>)
  qed
next
  case (exported k d env r d')
  obtain j where j: "find_job (js_mgr s) k = Some j" "job_ok k (Some (Exporting d)) j"
    using jm_inv_thread [OF inv exported(2)] by blast
  have "jd_id d' = jd_id d" using exported(3) run_export_definition by (metis jd_id_normalize snd_conv)
  then have ok: "job_ok k (Some (Finishing None d')) (j\<lparr>job_res := Some r\<rparr>)"
    using j(2) by (simp add: job_ok_def)
  show ?thesis unfolding exported(1)
    by (rule jm_inv_update [OF inv _ _ _ ok])
      (use j jm_inv_wf [OF inv] in \<open>auto simp: store_result_find\<close>)
next
  case (export_failed k d env e d')
  obtain j where j: "find_job (js_mgr s) k = Some j" "job_ok k (Some (Exporting d)) j"
    using jm_inv_thread [OF inv export_failed(2)] by blast
  have "jd_id d' = jd_id d"
    using export_failed(3) run_export_definition by (metis jd_id_normalize snd_conv)
  then have ok: "job_ok k (Some (Finishing (Some e) d')) j" using j(2) by (simp add: job_ok_def)
  show ?thesis unfolding export_failed(1)
    by (rule jm_inv_update [OF inv _ _ _ ok]) (use j jm_inv_wf [OF inv] in auto)
next
  case (ends k err d now)
  obtain j where j: "find_job (js_mgr s) k = Some j" "job_ok k (Some (Finishing err d)) j"
    using jm_inv_thread [OF inv ends(2)] by blast
  have ok: "job_ok k None (finished_job now err d j)" using j(2) by (auto simp: job_ok_def)
  show ?thesis unfolding ends(1)
    by (rule jm_inv_update [OF inv _ _ _ ok])
      (use j jm_inv_wf [OF inv] in \<open>auto simp: execute_end_find\<close>)
next
  case (cancel now k m')
  obtain j where j: "find_job (js_mgr s) k = Some j"
      "job_stat j \<in> {JobStatusRunning, JobStatusPending}"
      "find_job m' = (find_job (js_mgr s))(k \<mapsto> j\<lparr>job_stat := JobStatusCancelled,
         job_completed := Some now, job_updated := now\<rparr>)"
    using cancel_jobD(1) [OF cancel(2)] by blast
  have ok: "job_ok k (js_threads s k) (j\<lparr>job_stat := JobStatusCancelled,
      job_completed := Some now, job_updated := now\<rparr>)"
    using jm_inv_job [OF inv j(1)] j(2)
    by (auto simp: job_ok_def split: option.splits jm_thread.splits)
  show ?thesis unfolding cancel(1)
    by (rule jm_inv_update [OF inv _ _ _ ok])
      (use j(3) cancel_jobD(2) [OF cancel(2)] jm_inv_wf [OF inv] in auto)
next
  case (webhooks b)
  have "jm_inv (s\<lparr>js_mgr := set_webhook_manager b (js_mgr s)\<rparr>)"
    unfolding jm_inv_def
  proof (intro conjI allI)
    fix i
    show "case find_job (js_mgr (s\<lparr>js_mgr := set_webhook_manager b (js_mgr s)\<rparr>)) i of
        None \<Rightarrow> js_threads (s\<lparr>js_mgr := set_webhook_manager b (js_mgr s)\<rparr>) i = None
      | Some j \<Rightarrow> job_ok i (js_threads (s\<lparr>js_mgr := set_webhook_manager b (js_mgr s)\<rparr>) i) j"
      using jm_inv_entry [OF inv, of i] by (simp split: option.splits)
  qed (simp add: jm_inv_wf [OF inv])
  then show ?thesis using webhooks by simp
qed

lemma jm_reachable_inv: "jm_reachable now d s \<Longrightarrow> jm_inv s"
  by (induction rule: jm_reachable.induct) (auto simp: jm_inv_init intro: jm_inv_step)

section \<open>Properties of the life cycle\<close>

text \<open>
  C1: in every reachable state the job stored under an identifier carries that identifier;
  a pending job has not started and its goroutine has not begun; a completed job has a result,
  a failed one has none; a job without a goroutine is completed or failed, and has a
  start and a completion time.
\<close>

theorem reachable_jobs_consistent:
  assumes "jm_reachable t0 det s" and "find_job (js_mgr s) k = Some j"
  shows "jd_id (job_def j) = k
    \<and> (job_stat j = JobStatusPending \<longrightarrow> js_threads s k = Some Spawned
         \<and> job_started j = None \<and> job_completed j = None)
    \<and> (job_stat j = JobStatusCompleted \<longrightarrow> job_res j \<noteq> None \<and> js_threads s k = None)
    \<and> (job_stat j = JobStatusFailed \<longrightarrow> job_res j = None \<and> js_threads s k = None)
    \<and> (js_threads s k = None \<longrightarrow> job_stat j \<in> {JobStatusCompleted, JobStatusFailed}
         \<and> job_started j \<noteq> None \<and> job_completed j \<noteq> None)"
  using jm_inv_job [OF jm_reachable_inv [OF assms(1)] assms(2)]
  by (auto simp: job_ok_def split: option.splits jm_thread.splits)

text \<open>What is left of a finished job: everything but the progress and the time of its last report.\<close>

lemma finished_entry_kept:
  assumes inv: "jm_inv s" and j: "find_job (js_mgr s) k = Some j"
    and fin: "job_stat j \<in> {JobStatusCompleted, JobStatusFailed}" and st: "jm_step s s'"
  shows "\<exists>p u. find_job (js_mgr s') k = Some (j\<lparr>job_prog := p, job_updated := u\<rparr>)"
proof -
  have none: "js_threads s k = None"
    using jm_inv_job [OF inv j] fin by (auto simp: job_ok_def split: option.splits jm_thread.splits)
  have same: "\<exists>p u. Some j = Some (j\<lparr>job_prog := p, job_updated := u\<rparr>)"
    by (intro exI [of _ "job_prog j"] exI [of _ "job_updated j"]) simp
  show ?thesis
    using st
  proof cases
    case (submit now uuid d i m')
    then show ?thesis using jm.submit_keeps [OF submit(2) j] same by simp
  next
    case (begins i now b d m')
    then have "find_job (js_mgr s') k = Some j" using execute_beginD(1) [OF begins(3)] none j by fastforce
    then show ?thesis using same by simp
  next
    case (cancel now i m')
    then have "find_job (js_mgr s') k = Some j" using cancel_jobD(1) [OF cancel(2)] j fin by fastforce
    then show ?thesis using same by simp
  next
    case (progress i now p)
    then show ?thesis using j same by (cases "i = k") (auto simp: update_progress_find split: option.splits)
  qed (use none j same in \<open>auto simp: store_result_find execute_end_find split: option.splits\<close>)
qed

text \<open>
  C2: the outcome of a completed or failed job never changes again: no step of any goroutine or client
  touches its definition, status, result, error or times, and its identifier is never reused.  Only
  a late report of the exporter may still replace the progress it shows.
\<close>

theorem finished_jobs_are_final:
  assumes "jm_reachable t0 det s" and "find_job (js_mgr s) k = Some j"
    and "job_stat j \<in> {JobStatusCompleted, JobStatusFailed}" and "jm_step\<^sup>*\<^sup>* s s'"
  shows "\<exists>p u. find_job (js_mgr s') k = Some (j\<lparr>job_prog := p, job_updated := u\<rparr>)"
  using assms(4)
proof (induction rule: rtranclp_induct)
  case base
  show ?case using assms(2) by (intro exI [of _ "job_prog j"] exI [of _ "job_updated j"]) simp
next
  case (step y z)
  have r: "jm_reachable t0 det y" using step(1)
    by (induction rule: rtranclp_induct) (auto intro: assms(1) jm_reachable.step)
  obtain p u where y: "find_job (js_mgr y) k = Some (j\<lparr>job_prog := p, job_updated := u\<rparr>)" using step(3) by blast
  show ?case using finished_entry_kept [OF jm_reachable_inv [OF r] y _ step(2)] assms(3) by auto
qed

lemma run_export_cases:
  "(\<exists>r d'. run_export env det reg d = (Inr r, d')) \<or> (\<exists>e d'. run_export env det reg d = (Inl e, d'))"
  by (metis old.sum.exhaust surj_pair)

lemma finishing_ends:
  assumes "js_threads s k = Some (Finishing err d)" and "find_job (js_mgr s) k = Some j"
  shows "\<exists>s' j'. jm_step\<^sup>*\<^sup>* s s' \<and> find_job (js_mgr s') k = Some j'
           \<and> job_stat j' \<in> {JobStatusCompleted, JobStatusFailed}"
proof (intro exI conjI)
  show "jm_step\<^sup>*\<^sup>* s \<lparr>js_mgr = execute_end 0 k err d (js_mgr s),
      js_threads = (js_threads s)(k := None)\<rparr>"
    using jm_step.ends [OF assms(1)] by (rule r_into_rtranclp)
  show "find_job (js_mgr \<lparr>js_mgr = execute_end 0 k err d (js_mgr s),
      js_threads = (js_threads s)(k := None)\<rparr>) k = Some (finished_job 0 err d j)"
    using assms(2) by (simp add: execute_end_find)
qed simp

lemma exporting_ends:
  assumes "js_threads s k = Some (Exporting d)" and "find_job (js_mgr s) k = Some j"
  shows "\<exists>s' j'. jm_step\<^sup>*\<^sup>* s s' \<and> find_job (js_mgr s') k = Some j'
           \<and> job_stat j' \<in> {JobStatusCompleted, JobStatusFailed}"
proof -
  obtain s1 j1 err d1 where s1: "jm_step s s1" "js_threads s1 k = Some (Finishing err d1)"
      "find_job (js_mgr s1) k = Some j1"
    using run_export_cases [of undefined "jm_detector (js_mgr s)" "jm_registry (js_mgr s)" d]
      jm_step.exported [OF assms(1)] jm_step.export_failed [OF assms(1)] assms(2)
    by (fastforce simp: store_result_find)
  then show ?thesis using finishing_ends [OF s1(2,3)] by (meson converse_rtranclp_into_rtranclp)
qed

lemma starting_ends:
  assumes "js_threads s k = Some (Starting b d)" and "find_job (js_mgr s) k = Some j"
  shows "\<exists>s' j'. jm_step\<^sup>*\<^sup>* s s' \<and> find_job (js_mgr s') k = Some j'
           \<and> job_stat j' \<in> {JobStatusCompleted, JobStatusFailed}"
  using jm_step.announce [OF assms(1)]
    exporting_ends [of "\<lparr>js_mgr = announce_start b k (js_mgr s),
      js_threads = (js_threads s)(k \<mapsto> Exporting d)\<rparr>" k d j] assms(2)
  by simp (meson converse_rtranclp_into_rtranclp)

lemma spawned_ends:
  assumes "js_threads s k = Some Spawned" and "find_job (js_mgr s) k = Some j"
  shows "\<exists>s' j'. jm_step\<^sup>*\<^sup>* s s' \<and> find_job (js_mgr s') k = Some j'
           \<and> job_stat j' \<in> {JobStatusCompleted, JobStatusFailed}"
proof -
  obtain b d m' where b: "execute_begin 0 k (js_mgr s) = Some (b, d, m')"
    using assms(2) by (auto simp: execute_begin_def Let_def)
  define s1 where "s1 = \<lparr>js_mgr = m', js_threads = (js_threads s)(k \<mapsto> Starting b d)\<rparr>"
  have st: "jm_step s s1" unfolding s1_def by (rule jm_step.begins [OF assms(1) b])
  obtain j1 where "find_job (js_mgr s1) k = Some j1"
    using execute_beginD(1) [OF b] by (auto simp: s1_def)
  then show ?thesis
    using starting_ends [of s1 k b d j1] st by (simp add: s1_def) (meson converse_rtranclp_into_rtranclp)
qed

text \<open>
  C9: every job that was accepted can be driven to an end: from any reachable state its own
  goroutine reaches completed or failed, whatever the other goroutines have done, also when
  the job was cancelled in between.
\<close>

theorem accepted_jobs_can_finish:
  assumes "jm_reachable t0 det s" and "find_job (js_mgr s) k = Some j"
  shows "\<exists>s' j'. jm_step\<^sup>*\<^sup>* s s' \<and> find_job (js_mgr s') k = Some j'
           \<and> job_stat j' \<in> {JobStatusCompleted, JobStatusFailed}"
proof (cases "js_threads s k")
  case None
  then have "job_stat j \<in> {JobStatusCompleted, JobStatusFailed}"
    using jm_inv_job [OF jm_reachable_inv [OF assms(1)] assms(2)] by (simp add: job_ok_def)
  then show ?thesis using assms(2) by blast
next
  case (Some t)
  then show ?thesis
    using assms(2) spawned_ends starting_ends exporting_ends finishing_ends by (cases t) blast+
qed

section \<open>Witnesses for the life cycle\<close>

text \<open>A system with one job: submitted, begun, announced, exported by a tool that succeeds.\<close>

definition web_detector :: detector where
  "web_detector = store_detections [detect_web 0] []"

definition good_env :: export_env where
  "good_env =
     \<lparr>xe_validate = (\<lambda>x d. None),
      xe_export = (\<lambda>x d. Inr \<lparr>er_vm_name = ''vm'', er_output_dir = ''/out'', er_ovf_path = [],
                 er_files = [], er_output_files = [], er_total_size = 0, er_duration = 0,
                 er_success = True, er_method = [], er_error = []\<rparr>)\<rparr>"

definition one_job :: job_definition where
  "one_job = zero_job_definition\<lparr>jd_id := ''j1'', jd_vm_path := ''/dc/vm/a'', jd_password := ''secret''\<rparr>"

definition sys_submitted :: jm_sys where
  "sys_submitted =
     \<lparr>js_mgr = snd (projr (submit_job 1 ''u'' one_job (new_manager 0 web_detector))),
      js_threads = [''j1'' \<mapsto> Spawned]\<rparr>"

lemma sys_submitted_reachable: "jm_reachable 0 web_detector sys_submitted"
proof -
  have "submit_job 1 ''u'' one_job (new_manager 0 web_detector) =
      Inr (''j1'', snd (projr (submit_job 1 ''u'' one_job (new_manager 0 web_detector))))"
    by code_simp
  then have "jm_step (init_sys 0 web_detector) sys_submitted"
    using jm_step.submit [of 1 "''u''" one_job "init_sys 0 web_detector" "''j1''"]
    by (simp add: sys_submitted_def init_sys_def)
  then show ?thesis by (rule jm_reachable.step [OF jm_reachable.init])
qed

lemma sys_submitted_job:
  "find_job (js_mgr sys_submitted) ''j1'' = Some (new_job 1 one_job)"
  by code_simp

lemma job_can_be_finished:
  "\<exists>s j. jm_reachable 0 web_detector s \<and> find_job (js_mgr s) ''j1'' = Some j
     \<and> job_stat j \<in> {JobStatusCompleted, JobStatusFailed}"
proof -
  obtain s' j' where s': "jm_step\<^sup>*\<^sup>* sys_submitted s'" "find_job (js_mgr s') ''j1'' = Some j'"
      "job_stat j' \<in> {JobStatusCompleted, JobStatusFailed}"
    using spawned_ends [of sys_submitted "''j1''"] sys_submitted_job
    by (auto simp: sys_submitted_def)
  have "jm_reachable 0 web_detector s'"
    using s'(1) by (induction rule: rtranclp_induct)
      (auto intro: sys_submitted_reachable jm_reachable.step)
  then show ?thesis using s' by blast
qed

theorem reachable_jobs_consistent_witness:
  "js_threads sys_submitted ''j1'' = Some Spawned"
  using reachable_jobs_consistent [OF sys_submitted_reachable sys_submitted_job] by simp

theorem finished_jobs_are_final_witness:
  "\<exists>s j p u. jm_reachable 0 web_detector s \<and> find_job (js_mgr s) ''j1'' = Some j
     \<and> find_job (update_progress 9 ''j1'' (phase_progress ''exporting'') (js_mgr s)) ''j1'' =
         Some (j\<lparr>job_prog := p, job_updated := u\<rparr>)"
proof -
  obtain s j where s: "jm_reachable 0 web_detector s" "find_job (js_mgr s) ''j1'' = Some j"
    "job_stat j \<in> {JobStatusCompleted, JobStatusFailed}"
    using job_can_be_finished by blast
  have "js_threads s ''j1'' = None"
    using jm_inv_job [OF jm_reachable_inv [OF s(1)] s(2)] s(3)
    by (auto simp: job_ok_def split: option.splits jm_thread.splits)
  then have "jm_step s (s\<lparr>js_mgr := update_progress 9 ''j1'' (phase_progress ''exporting'') (js_mgr s)\<rparr>)"
    by (intro jm_step.progress) simp
  from finished_jobs_are_final [OF s r_into_rtranclp [of jm_step, OF this]] show ?thesis using s(1,2) by auto
qed

theorem accepted_jobs_can_finish_witness:
  "\<exists>s' j'. jm_step\<^sup>*\<^sup>* sys_submitted s' \<and> find_job (js_mgr s') ''j1'' = Some j'
           \<and> job_stat j' \<in> {JobStatusCompleted, JobStatusFailed}"
  by (rule accepted_jobs_can_finish [OF sys_submitted_reachable sys_submitted_job])

section \<open>Cancellation\<close>

lemma cancelled_job_still_runs_parts:
  assumes "cancel_job now k m = Inr m1"
  shows "\<exists>b d m2 j. execute_begin t k m1 = Some (b, d, m2) \<and> find_job m2 k = Some j
           \<and> job_stat j = JobStatusRunning \<and> job_completed j = Some now"
    and "\<exists>j. find_job m1 k = Some j \<and> job_stat j = JobStatusCancelled"
    and "\<exists>j. find_job (execute_end t k None d' m1) k = Some j \<and> job_stat j = JobStatusCompleted"
proof -
  obtain j where j: "find_job m1 k = Some (j\<lparr>job_stat := JobStatusCancelled,
      job_completed := Some now, job_updated := now\<rparr>)"
    using cancel_jobD(1) [OF assms] by auto
  show "\<exists>b d m2 j. execute_begin t k m1 = Some (b, d, m2) \<and> find_job m2 k = Some j
      \<and> job_stat j = JobStatusRunning \<and> job_completed j = Some now"
    using j by (simp add: execute_begin_def Let_def)
  show "\<exists>j. find_job m1 k = Some j \<and> job_stat j = JobStatusCancelled"
    using j by simp
  show "\<exists>j. find_job (execute_end t k None d' m1) k = Some j \<and> job_stat j = JobStatusCompleted"
    using j by (simp add: execute_end_find)
qed

text \<open>
  A cancelled job still runs.  A job cancelled before its goroutine begins is set back to
  running with its completion time in place, and one cancelled during its export is
  reported completed when the export ends, although \<open>CancelJob\<close> returned no error.
\<close>

theorem cancelled_job_still_runs:
  assumes "cancel_job now k m = Inr m1"
  shows "(\<exists>j. find_job m1 k = Some j \<and> job_stat j = JobStatusCancelled)
     \<and> (\<exists>b d m2 j. execute_begin t k m1 = Some (b, d, m2) \<and> find_job m2 k = Some j
           \<and> job_stat j = JobStatusRunning \<and> job_completed j = Some now)
     \<and> (\<exists>j. find_job (execute_end t k None d' m1) k = Some j \<and> job_stat j = JobStatusCompleted)"
  using cancelled_job_still_runs_parts [OF assms] by blast

theorem cancelled_job_still_runs_witness:
  "\<exists>m1 j. cancel_job 2 ''j1'' (js_mgr sys_submitted) = Inr m1
     \<and> find_job (execute_end 3 ''j1'' None one_job m1) ''j1'' = Some j
     \<and> job_stat j = JobStatusCompleted"
proof -
  have "is_ok (cancel_job 2 ''j1'' (js_mgr sys_submitted))" by code_simp
  then obtain m1 where m1: "cancel_job 2 ''j1'' (js_mgr sys_submitted) = Inr m1"
    by (auto simp: is_ok_def split: sum.splits)
  show ?thesis using m1 cancelled_job_still_runs [OF m1, of 3 one_job] by blast
qed

section \<open>Queries\<close>

lemma list_jobs_loop_eq:
  assumes "limit \<le> 0 \<or> int (length acc) < limit"
  shows "list_jobs_loop sts limit js acc =
     (let all = acc @ filter (\<lambda>j. sts = [] \<or> job_stat j \<in> set sts) js
      in if 0 < limit then take (nat limit) all else all)"
  using assms
proof (induction js arbitrary: acc)
  case Nil
  then show ?case by (auto simp: Let_def)
next
  case (Cons j js)
  show ?case
  proof (cases "sts \<noteq> [] \<and> job_stat j \<notin> set sts")
    case True
    then show ?thesis using Cons by (simp add: Let_def)
  next
    case False
    show ?thesis
    proof (cases "0 < limit \<and> limit \<le> int (length acc) + 1")
      case True
      then have "nat limit = length acc + 1" using Cons.prems by simp
      then show ?thesis using False True by (auto simp: Let_def)
    next
      case no: False
      then have "limit \<le> 0 \<or> int (length (acc @ [j])) < limit" by auto
      from Cons.IH [OF this] show ?thesis using False no by (auto simp: Let_def)
    qed
  qed
qed

text \<open>
  \<open>ListJobs\<close> returns the stored jobs whose status is among the requested ones (all when
  none is requested) in iteration order, cut off after the limit when it is positive;
  \<open>GetAllJobs\<close> returns all of them.
\<close>

theorem list_jobs_selects:
  "list_jobs sts limit m =
     (let all = filter (\<lambda>j. sts = [] \<or> job_stat j \<in> set sts) (map snd (jm_jobs m))
      in if 0 < limit then take (nat limit) all else all)
   \<and> get_all_jobs m = map snd (jm_jobs m)"
  using list_jobs_loop_eq [of limit "[]" sts "map snd (jm_jobs m)"]
    list_jobs_loop_eq [of 0 "[]" "[]" "map snd (jm_jobs m)"]
  by (cases "0 < limit") (simp_all add: list_jobs_def get_all_jobs_def Let_def)

lemma count_status_split:
  "int (length jobs) =
     (\<Sum>s \<leftarrow> [JobStatusPending, JobStatusRunning, JobStatusCompleted, JobStatusFailed,
             JobStatusCancelled]. int (length (filter (\<lambda>(k, j). job_stat j = s) jobs)))"
proof (induction jobs)
  case (Cons kj jobs)
  obtain k j where "kj = (k, j)" by fastforce
  with Cons show ?case by (cases "job_stat j") simp_all
qed simp

lemma count_status_list: "count_status st m = int (length (list_jobs [st] 0 m))"
  using list_jobs_loop_eq [of 0 "[]" "[st]" "map snd (jm_jobs m)"]
  by (simp add: count_status_def list_jobs_def Let_def filter_map comp_def case_prod_unfold)

text \<open>
  The counts of \<open>GetStatus\<close> and the pending jobs, which it does not report, add up to
  its total, and each count is the number of jobs \<open>ListJobs\<close> returns for that status.
\<close>

theorem status_counts_add_up:
  "ds_total (get_status now m) =
     int (length (list_jobs [JobStatusPending] 0 m)) + ds_running (get_status now m)
     + ds_completed (get_status now m) + ds_failed (get_status now m)
     + ds_cancelled (get_status now m)
   \<and> ds_running (get_status now m) = int (length (list_jobs [JobStatusRunning] 0 m))"
  using count_status_split [of "jm_jobs m"]
  by (simp add: get_status_def count_status_list [symmetric]) (simp add: count_status_def)

section \<open>Normalization and routing\<close>

text \<open>
  The last two steps keep what decides the routing, the first four do not touch it or move
  the method into the field that is read first.
\<close>

lemma is_nutanix_norm_steps:
  "is_nutanix_job (norm_vcenter d) = is_nutanix_job d"
  "is_nutanix_job (norm_output d) = is_nutanix_job d"
  "is_nutanix_job (norm_options d) = is_nutanix_job d"
  "is_nutanix_job (norm_format d) = is_nutanix_job d"
  by (simp_all only: norm_output_def norm_vcenter_def norm_options_def norm_format_def
      Let_def split: option.split if_split)
    (simp_all add: is_nutanix_job_def metadata_provider_def)

lemma equal_fold_Nil: "equal_fold [] s \<longleftrightarrow> s = []"
  by (simp add: equal_fold_def to_lower_def)

lemma is_nutanix_norm_method: "is_nutanix_job (norm_method d) = is_nutanix_job d"
  by (simp add: is_nutanix_job_def norm_method_def metadata_provider_def equal_fold_Nil
      method_nutanix_def)

lemma is_nutanix_norm_provider: "is_nutanix_job (norm_provider d) = is_nutanix_job d"
  by (auto simp: is_nutanix_job_def norm_provider_def metadata_provider_def equal_fold_Nil
      split: option.splits metaval.splits)

lemma is_nutanix_normalize: "is_nutanix_job (normalize_job_definition d) = is_nutanix_job d"
  by (simp add: normalize_job_definition_def is_nutanix_norm_steps is_nutanix_norm_method
      is_nutanix_norm_provider)

lemma format_norm_steps:
  "jd_format (norm_vcenter d) = jd_format d"
  "jd_format (norm_output d) = jd_format d"
  "jd_format (norm_method d) = jd_format d"
  "jd_format (norm_options d) = jd_format d"
  "jd_format (norm_provider d) = jd_format d"
  by (simp_all only: norm_vcenter_def norm_output_def norm_method_def norm_options_def
      norm_provider_def Let_def split: option.split if_split)
    simp_all

text \<open>
  Normalization does not change whether a definition is routed to the Nutanix exporter; a
  definition without a format gets \<open>qcow2\<close> exactly when it is, and \<open>ovf\<close> otherwise; and without
  a provider registry every Nutanix job ends with the same error, whatever tools are installed.
\<close>

theorem nutanix_routing:
  "is_nutanix_job (normalize_job_definition d) = is_nutanix_job d
   \<and> jd_format (normalize_job_definition d) =
       (if jd_format d = [] then (if is_nutanix_job d then ''qcow2'' else ''ovf'') else jd_format d)
   \<and> fst (run_export env det False d) =
       (if is_nutanix_job d
        then Inl ''create nutanix exporter: provider registry is not configured''
        else fst (run_export env det True d))"
proof (intro conjI is_nutanix_normalize)
  show "jd_format (normalize_job_definition d) =
      (if jd_format d = [] then (if is_nutanix_job d then ''qcow2'' else ''ovf'') else jd_format d)"
    by (simp add: normalize_job_definition_def format_norm_steps norm_format_def [of "norm_options x" for x]
        is_nutanix_norm_steps is_nutanix_norm_method)
  show "fst (run_export env det False d) =
       (if is_nutanix_job d
        then Inl ''create nutanix exporter: provider registry is not configured''
        else fst (run_export env det True d))"
    by (simp add: run_export_def Let_def is_nutanix_normalize run_nutanix_export_def
        create_nutanix_exporter_def exporter_error_string_def)
qed

lemma vcenter_norm_steps:
  "jd_vcenter (norm_output d) = jd_vcenter d"
  "jd_vcenter (norm_method d) = jd_vcenter d"
  "jd_vcenter (norm_options d) = jd_vcenter d"
  "jd_vcenter (norm_format d) = jd_vcenter d"
  "jd_vcenter (norm_provider d) = jd_vcenter d"
  by (simp_all only: norm_output_def norm_method_def norm_options_def norm_format_def
      norm_provider_def Let_def split: option.split if_split)
    simp_all

lemma vcenter_normalize:
  "jd_vcenter (normalize_job_definition d) = jd_vcenter (norm_vcenter d)"
  by (simp only: normalize_job_definition_def vcenter_norm_steps)

text \<open>
  Normalization exposes the password.  A definition with old-style credentials gets a
  \<open>VCenter\<close> struct holding the password, which \<open>Redacted\<close> keeps: the copy meant for logs shows
  it, and so does the JSON of the job, from which the old field is excluded.
\<close>

theorem redacted_shows_vcenter_password:
  assumes "jd_vcenter d = None" and "jd_password d \<noteq> []"
  shows "\<exists>vc. jd_vcenter (redacted (normalize_job_definition d)) = Some vc
           \<and> vc_password vc = jd_password d"
  using assms by (simp add: redacted_def vcenter_normalize norm_vcenter_def)

theorem redacted_shows_vcenter_password_witness:
  "\<exists>vc. jd_vcenter (redacted (normalize_job_definition one_job)) = Some vc
        \<and> vc_password vc = ''secret''"
  using redacted_shows_vcenter_password [of one_job] by (simp add: one_job_def zero_job_definition_def)

end
