(* ===== verification/Dep_Tracker.thy ===== *)
theory Dep_Tracker
  imports Models
begin

text \<open>
  The dependency tracker of \<open>daemon/scheduler/dependencies.go\<close>: the last known state of every
  job, the jobs waiting for a dependency, and the waits' contexts.  A wait is identified by a
  number, its context; \<open>dt_signalled\<close> holds the contexts that have been cancelled, which is how
  a wait learns that its dependencies are satisfied.  The loop of \<open>WaitForDependencies\<close> is given
  by its registration and one operation per branch of its \<open>select\<close>.
\<close>

section \<open>Data\<close>

record job_state =
  js_job :: string
  js_state :: string
  js_completed :: instant
  js_error :: string

record waiting_job =
  wj_job :: scheduled_job
  wj_since :: instant
  wj_context :: nat

record dep_tracker =
  dt_states :: "(string, job_state) gomap"
  dt_waiting :: "(string, waiting_job list) gomap"
  dt_signalled :: "nat list"
  dt_callback :: bool

text \<open>Why a job may not run: one constructor per message of the code.\<close>

datatype dep_reason =
    NotRunYet string
  | NotCompleted string string
  | NotFailed string string
  | StillRunning string
  | UnknownRequiredState string
  | TooLongAgo string int

datatype wait_result = WaitOn | WaitDone | WaitCancelled | WaitTimeout dep_reason

definition new_dep_tracker :: dep_tracker where
  "new_dep_tracker = \<lparr>dt_states = [], dt_waiting = [], dt_signalled = [], dt_callback = False\<rparr>"

section \<open>Operations\<close>

definition depends_on :: "scheduled_job \<Rightarrow> job_dependency list" where
  "depends_on j = (case sj_advanced j of None \<Rightarrow> [] | Some c \<Rightarrow> ac_depends c)"

definition seconds :: "int \<Rightarrow> duration" where
  "seconds n = wrap64 (n * second)"

definition dep_too_old :: "instant \<Rightarrow> job_dependency \<Rightarrow> job_state \<Rightarrow> bool" where
  "dep_too_old now dep st \<longleftrightarrow>
     0 < dep_timeout dep \<and> seconds (dep_timeout dep) < now - js_completed st"

text \<open>One iteration of the loop of \<open>CheckDependencies\<close>: \<open>None\<close> to go on.\<close>

definition check_dep :: "instant \<Rightarrow> (string, job_state) gomap \<Rightarrow> job_dependency \<Rightarrow> dep_reason option"
where
  "check_dep now states dep =
     (case gm_get states (dep_job dep) of
        None \<Rightarrow> Some (NotRunYet (dep_job dep))
      | Some st \<Rightarrow>
          let bad =
            (if dep_state dep = ''completed'' then
               if js_state st \<noteq> ''completed''
               then Some (NotCompleted (dep_job dep) (js_state st)) else None
             else if dep_state dep = ''failed'' then
               if js_state st \<noteq> ''failed''
               then Some (NotFailed (dep_job dep) (js_state st)) else None
             else if dep_state dep = ''any'' then
               if js_state st \<noteq> ''completed'' \<and> js_state st \<noteq> ''failed''
               then Some (StillRunning (dep_job dep)) else None
             else Some (UnknownRequiredState (dep_state dep)))
          in case bad of
               Some r \<Rightarrow> Some r
             | None \<Rightarrow>
                 if dep_too_old now dep st
                 then Some (TooLongAgo (dep_job dep) (dep_timeout dep)) else None)"

fun first_reason :: "('d \<Rightarrow> dep_reason option) \<Rightarrow> 'd list \<Rightarrow> dep_reason option" where
  "first_reason f [] = None"
| "first_reason f (d # ds) = (case f d of Some r \<Rightarrow> Some r | None \<Rightarrow> first_reason f ds)"

text \<open>\<open>CheckDependencies\<close>: \<open>None\<close> when all are satisfied, else the reason.\<close>

definition check_dependencies :: "instant \<Rightarrow> scheduled_job \<Rightarrow> dep_tracker \<Rightarrow> dep_reason option" where
  "check_dependencies now job dt = first_reason (check_dep now (dt_states dt)) (depends_on job)"

text \<open>One iteration of the loop of \<open>checkDependenciesLocked\<close>.\<close>

definition check_dep_locked ::
  "instant \<Rightarrow> (string, job_state) gomap \<Rightarrow> job_dependency \<Rightarrow> dep_reason option" where
  "check_dep_locked now states dep =
     (case gm_get states (dep_job dep) of
        None \<Rightarrow> Some (NotRunYet (dep_job dep))
      | Some st \<Rightarrow>
          let bad =
            (if dep_state dep = ''completed'' then
               if js_state st \<noteq> ''completed''
               then Some (NotCompleted (dep_job dep) (js_state st)) else None
             else if dep_state dep = ''failed'' then
               if js_state st \<noteq> ''failed''
               then Some (NotFailed (dep_job dep) (js_state st)) else None
             else if dep_state dep = ''any'' then
               if js_state st \<noteq> ''completed'' \<and> js_state st \<noteq> ''failed''
               then Some (StillRunning (dep_job dep)) else None
             else None)
          in case bad of
               Some r \<Rightarrow> Some r
             | None \<Rightarrow>
                 if dep_too_old now dep st
                 then Some (TooLongAgo (dep_job dep) (dep_timeout dep)) else None)"

definition check_dependencies_locked ::
  "instant \<Rightarrow> scheduled_job \<Rightarrow> dep_tracker \<Rightarrow> dep_reason option" where
  "check_dependencies_locked now job dt =
     first_reason (check_dep_locked now (dt_states dt)) (depends_on job)"

text \<open>The jobs of \<open>GetWaitingJobs\<close>: an absent key is an empty list.\<close>

definition get_waiting_jobs :: "string \<Rightarrow> dep_tracker \<Rightarrow> waiting_job list" where
  "get_waiting_jobs d dt = (case gm_get (dt_waiting dt) d of None \<Rightarrow> [] | Some ws \<Rightarrow> ws)"

definition get_job_state :: "string \<Rightarrow> dep_tracker \<Rightarrow> job_state option" where
  "get_job_state d dt = gm_get (dt_states dt) d"

text \<open>Registration: the wait joins the list of every dependency.\<close>

fun register_wait :: "waiting_job \<Rightarrow> job_dependency list \<Rightarrow> dep_tracker \<Rightarrow> dep_tracker" where
  "register_wait w [] dt = dt"
| "register_wait w (d # ds) dt =
     register_wait w ds
       (dt\<lparr>dt_waiting := gm_put (dep_job d) (get_waiting_jobs (dep_job d) dt @ [w]) (dt_waiting dt)\<rparr>)"

definition begin_wait ::
  "nat \<Rightarrow> instant \<Rightarrow> scheduled_job \<Rightarrow> dep_tracker \<Rightarrow> wait_result \<times> waiting_job option \<times> dep_tracker" where
  "begin_wait ctx now job dt =
     (if depends_on job = [] then (WaitDone, None, dt)
      else let w = \<lparr>wj_job = job, wj_since = now, wj_context = ctx\<rparr>
           in (WaitOn, Some w, register_wait w (depends_on job) dt))"

definition remove_waiting :: "string \<Rightarrow> dep_tracker \<Rightarrow> dep_tracker" where
  "remove_waiting jid dt =
     dt\<lparr>dt_waiting :=
         filter (\<lambda>(d, ws). ws \<noteq> [])
           (map (\<lambda>(d, ws). (d, filter (\<lambda>w. sj_id (wj_job w) \<noteq> jid) ws)) (dt_waiting dt))\<rparr>"

definition signal :: "nat \<Rightarrow> dep_tracker \<Rightarrow> dep_tracker" where
  "signal ctx dt = dt\<lparr>dt_signalled := ctx # dt_signalled dt\<rparr>"

text \<open>
  The three branches of the \<open>select\<close>: the caller's context is done, the wait's own context is
  done, the ticker fires.  Every return also runs the deferred \<open>cancel\<close>.
\<close>

definition wait_caller_done :: "waiting_job \<Rightarrow> dep_tracker \<Rightarrow> wait_result \<times> dep_tracker" where
  "wait_caller_done w dt =
     (WaitCancelled, signal (wj_context w) (remove_waiting (sj_id (wj_job w)) dt))"

definition wait_signalled :: "waiting_job \<Rightarrow> dep_tracker \<Rightarrow> (wait_result \<times> dep_tracker) option" where
  "wait_signalled w dt =
     (if wj_context w \<in> set (dt_signalled dt)
      then Some (WaitDone, signal (wj_context w) (remove_waiting (sj_id (wj_job w)) dt))
      else None)"

definition wait_tick :: "instant \<Rightarrow> waiting_job \<Rightarrow> dep_tracker \<Rightarrow> wait_result \<times> dep_tracker" where
  "wait_tick now w dt =
     (let job = wj_job w
      in case check_dependencies now job dt of
           None \<Rightarrow> (WaitDone, signal (wj_context w) dt)
         | Some r \<Rightarrow>
             if list_ex (\<lambda>d. 0 < dep_timeout d \<and> seconds (dep_timeout d) < now - wj_since w)
                  (depends_on job)
             then (WaitTimeout r, signal (wj_context w) (remove_waiting (sj_id job) dt))
             else (WaitOn, dt))"

text \<open>Signal every wait of a list whose dependencies are satisfied now.\<close>

fun signal_satisfied :: "instant \<Rightarrow> waiting_job list \<Rightarrow> dep_tracker \<Rightarrow> dep_tracker" where
  "signal_satisfied now [] dt = dt"
| "signal_satisfied now (w # ws) dt =
     signal_satisfied now ws
       (if check_dependencies_locked now (wj_job w) dt = None then signal (wj_context w) dt else dt)"

text \<open>
  \<open>UpdateJobState\<close> reads the clock when it stores the state, and again in each check; \<open>now\<close> is
  the first reading and \<open>later\<close> the others.  The flag says whether the callback is started.
\<close>

definition update_job_state ::
  "instant \<Rightarrow> instant \<Rightarrow> string \<Rightarrow> string \<Rightarrow> string option \<Rightarrow> dep_tracker \<Rightarrow> bool \<times> dep_tracker" where
  "update_job_state now later jid st err dt =
     (let js = \<lparr>js_job = jid, js_state = st, js_completed = now,
                js_error = (case err of None \<Rightarrow> [] | Some e \<Rightarrow> e)\<rparr>;
          dt = dt\<lparr>dt_states := gm_put jid js (dt_states dt)\<rparr>
      in (dt_callback dt, signal_satisfied later (get_waiting_jobs jid dt) dt))"

definition clear_old_states :: "instant \<Rightarrow> duration \<Rightarrow> dep_tracker \<Rightarrow> dep_tracker" where
  "clear_old_states now max_age dt =
     dt\<lparr>dt_states := filter (\<lambda>(j, st). \<not> js_completed st < now - max_age) (dt_states dt)\<rparr>"

section \<open>Lemmas\<close>

lemma first_reason_None: "first_reason f ds = None \<longleftrightarrow> (\<forall>d \<in> set ds. f d = None)"
  by (induction f ds rule: first_reason.induct) (auto split: option.splits)

text \<open>What a satisfied dependency is.\<close>

definition state_matches :: "string \<Rightarrow> string \<Rightarrow> bool" where
  "state_matches req st \<longleftrightarrow>
     req = ''completed'' \<and> st = ''completed'' \<or> req = ''failed'' \<and> st = ''failed'' \<or>
     req = ''any'' \<and> (st = ''completed'' \<or> st = ''failed'')"

definition known_state :: "string \<Rightarrow> bool" where
  "known_state req \<longleftrightarrow> req \<in> {''completed'', ''failed'', ''any''}"

definition dep_satisfied :: "instant \<Rightarrow> (string, job_state) gomap \<Rightarrow> job_dependency \<Rightarrow> bool" where
  "dep_satisfied now states d =
     (case gm_get states (dep_job d) of
        None \<Rightarrow> False
      | Some st \<Rightarrow> state_matches (dep_state d) (js_state st) \<and> \<not> dep_too_old now d st)"

lemma check_dep_None: "check_dep now states d = None \<longleftrightarrow> dep_satisfied now states d"
  by (auto simp: check_dep_def dep_satisfied_def state_matches_def Let_def split: option.splits)

lemma check_dep_locked_None:
  "check_dep_locked now states d = None \<longleftrightarrow>
   (\<exists>st. gm_get states (dep_job d) = Some st \<and> \<not> dep_too_old now d st \<and>
        (known_state (dep_state d) \<longrightarrow> state_matches (dep_state d) (js_state st)))"
  by (auto simp: check_dep_locked_def known_state_def state_matches_def Let_def split: option.splits)

lemma check_dep_locked_known:
  "known_state (dep_state d) \<Longrightarrow>
   (check_dep_locked now states d = None) = (check_dep now states d = None)"
  by (auto simp: check_dep_None check_dep_locked_None dep_satisfied_def split: option.splits)

lemma check_locked_known:
  assumes "\<forall>d \<in> set (depends_on job). known_state (dep_state d)"
  shows "(check_dependencies_locked now job dt = None) = (check_dependencies now job dt = None)"
  using assms
  by (simp add: check_dependencies_locked_def check_dependencies_def first_reason_None
      check_dep_locked_known)

lemma signal_simps [simp]:
  "dt_states (signal c dt) = dt_states dt" "dt_waiting (signal c dt) = dt_waiting dt"
  "dt_signalled (signal c dt) = c # dt_signalled dt"
  by (simp_all add: signal_def)

lemma check_locked_signal [simp]:
  "check_dependencies_locked now job (signal c dt) = check_dependencies_locked now job dt"
  by (simp add: check_dependencies_locked_def)

lemma signal_satisfied_frame [simp]:
  "dt_states (signal_satisfied now ws dt) = dt_states dt"
  "dt_waiting (signal_satisfied now ws dt) = dt_waiting dt"
  by (induction now ws dt rule: signal_satisfied.induct) auto

lemma signal_satisfied_set:
  "set (dt_signalled (signal_satisfied now ws dt)) =
     set (dt_signalled dt) \<union>
     wj_context ` {w \<in> set ws. check_dependencies_locked now (wj_job w) dt = None}"
  by (induction now ws dt rule: signal_satisfied.induct) auto

lemma get_waiting_states [simp]:
  "get_waiting_jobs d (dt\<lparr>dt_states := s\<rparr>) = get_waiting_jobs d dt"
  by (simp add: get_waiting_jobs_def)

lemma register_wait_in:
  "set (get_waiting_jobs d (register_wait w ds dt)) =
     set (get_waiting_jobs d dt) \<union> (if d \<in> dep_job ` set ds then {w} else {})"
proof (induction w ds dt rule: register_wait.induct)
  case (1 w dt)
  then show ?case by simp
next
  case (2 w e ds dt)
  let ?dt = "dt\<lparr>dt_waiting :=
    gm_put (dep_job e) (get_waiting_jobs (dep_job e) dt @ [w]) (dt_waiting dt)\<rparr>"
  have "set (get_waiting_jobs d ?dt) =
      set (get_waiting_jobs d dt) \<union> (if d = dep_job e then {w} else {})"
    by (auto simp: get_waiting_jobs_def gm_get_put)
  with 2 show ?case by auto
qed

lemma gm_get_map_filter:
  assumes "gm_wf m"
  shows "gm_get (filter (\<lambda>(d, ws). ws \<noteq> []) (map (\<lambda>(d, ws). (d, f ws)) m)) k =
           (case gm_get m k of None \<Rightarrow> None | Some ws \<Rightarrow> if f ws = [] then None else Some (f ws))"
  using assms
proof (induction m)
  case Nil
  then show ?case by simp
next
  case (Cons x m)
  then show ?case
    by (cases x) (auto simp: map_of_eq_None_iff image_iff split: option.splits)
qed

lemma remove_waiting_lists:
  "gm_wf (dt_waiting dt) \<Longrightarrow>
   get_waiting_jobs d (remove_waiting jid dt) =
     filter (\<lambda>w. sj_id (wj_job w) \<noteq> jid) (get_waiting_jobs d dt)"
  by (auto simp: get_waiting_jobs_def remove_waiting_def gm_get_map_filter split: option.splits)

lemma register_wait_wf: "gm_wf (dt_waiting dt) \<Longrightarrow> gm_wf (dt_waiting (register_wait w ds dt))"
  by (induction w ds dt rule: register_wait.induct) auto

lemma check_dependencies_spec:
  "check_dependencies now job dt = None \<longleftrightarrow>
   list_all (dep_satisfied now (dt_states dt)) (depends_on job)"
  by (simp add: check_dependencies_def first_reason_None check_dep_None list_all_iff)

lemma update_states:
  "dt_states (snd (update_job_state now later jid st err dt)) =
     gm_put jid \<lparr>js_job = jid, js_state = st, js_completed = now,
                 js_error = (case err of None \<Rightarrow> [] | Some e \<Rightarrow> e)\<rparr> (dt_states dt)"
  by (simp add: update_job_state_def Let_def)

lemma update_waiting [simp]:
  "dt_waiting (snd (update_job_state now later jid st err dt)) = dt_waiting dt"
  by (simp add: update_job_state_def Let_def)

lemma check_locked_states:
  "dt_states dt = dt_states dt' \<Longrightarrow>
   check_dependencies_locked now job dt = check_dependencies_locked now job dt'"
  by (simp add: check_dependencies_locked_def)

lemma update_signalled:
  "set (dt_signalled (snd (update_job_state now later jid st err dt))) =
     set (dt_signalled dt) \<union>
     wj_context ` {w \<in> set (get_waiting_jobs jid dt).
        check_dependencies_locked later (wj_job w)
          (snd (update_job_state now later jid st err dt)) = None}"
  (is "_ = _ \<union> wj_context ` {w \<in> _. check_dependencies_locked _ _ ?u = None}")
proof -
  let ?d = "dt\<lparr>dt_states := dt_states ?u\<rparr>"
  have u: "?u = signal_satisfied later (get_waiting_jobs jid ?d) ?d"
    by (simp add: update_job_state_def Let_def)
  have "check_dependencies_locked later job ?u = check_dependencies_locked later job ?d" for job
    by (rule check_locked_states) simp
  then show ?thesis
    by (subst u) (simp add: signal_satisfied_set)
qed

section \<open>A sample tracker\<close>

definition sample_dep :: "string \<Rightarrow> string \<Rightarrow> job_dependency" where
  "sample_dep i s = \<lparr>dep_job = i, dep_state = s, dep_timeout = 0\<rparr>"

definition sample_scheduled :: "string \<Rightarrow> job_dependency list \<Rightarrow> scheduled_job" where
  "sample_scheduled i ds =
     \<lparr>sj_id = i, sj_name = i, sj_description = [], sj_schedule = ''@hourly'',
      sj_template = zero_job_definition\<lparr>jd_name := i\<rparr>, sj_enabled = True, sj_created = 0,
      sj_updated = 0, sj_next_run = 0, sj_last_run = None, sj_run_count = 0, sj_tags = None,
      sj_advanced = Some (zero_advanced_config\<lparr>ac_depends := ds\<rparr>)\<rparr>"

definition sample_wait :: "string \<Rightarrow> waiting_job" where
  "sample_wait st =
     \<lparr>wj_job = sample_scheduled ''b'' [sample_dep ''a'' st], wj_since = 10, wj_context = 7\<rparr>"

definition sample_tracker :: "string \<Rightarrow> dep_tracker" where
  "sample_tracker st =
     snd (snd (begin_wait 7 10 (wj_job (sample_wait st)) new_dep_tracker))"

lemmas sample_tracker_defs = sample_tracker_def sample_wait_def sample_scheduled_def
  sample_dep_def begin_wait_def depends_on_def new_dep_tracker_def get_waiting_jobs_def
  zero_advanced_config_def Let_def

lemma sample_tracker_waiting: "get_waiting_jobs ''a'' (sample_tracker st) = [sample_wait st]"
  by (simp add: sample_tracker_defs)

lemma sample_depends [simp]: "depends_on (wj_job (sample_wait st)) = [sample_dep ''a'' st]"
  by (simp add: sample_tracker_defs)

section \<open>Properties\<close>

text \<open>
  Updating a job's state cancels the contexts of exactly those waits registered for that
  job whose dependencies, with the new state, all exist, are in the state they require and are
  recent enough, provided the waits require one of the three documented states.
\<close>
theorem update_signals_satisfied:
  assumes "\<forall>w \<in> set (get_waiting_jobs jid dt). \<forall>d \<in> set (depends_on (wj_job w)).
             known_state (dep_state d)"
    and "dt' = snd (update_job_state now later jid st err dt)"
  shows "set (dt_signalled dt') =
           set (dt_signalled dt) \<union>
           wj_context ` {w \<in> set (get_waiting_jobs jid dt).
              list_all (dep_satisfied later (dt_states dt')) (depends_on (wj_job w))}"
proof -
  have "(check_dependencies_locked later (wj_job w) dt' = None) =
        list_all (dep_satisfied later (dt_states dt')) (depends_on (wj_job w))"
    if "w \<in> set (get_waiting_jobs jid dt)" for w
    using check_locked_known [of "wj_job w" later dt'] assms(1) that
    by (simp add: check_dependencies_spec)
  then show ?thesis
    using update_signalled [of now later jid st err dt] assms(2) by auto
qed

theorem update_signals_satisfied_witness:
  "7 \<in> set (dt_signalled (snd (update_job_state 20 20 ''a'' ''completed'' None
            (sample_tracker ''completed''))))"
proof -
  let ?u = "snd (update_job_state 20 20 ''a'' ''completed'' None (sample_tracker ''completed''))"
  have known: "\<forall>w \<in> set (get_waiting_jobs ''a'' (sample_tracker ''completed'')).
      \<forall>d \<in> set (depends_on (wj_job w)). known_state (dep_state d)"
    by (simp add: sample_tracker_waiting sample_dep_def known_state_def)
  have sat: "list_all (dep_satisfied 20 (dt_states ?u)) (depends_on (wj_job (sample_wait ''completed'')))"
    by (simp add: update_states dep_satisfied_def sample_dep_def state_matches_def dep_too_old_def)
  have "wj_context (sample_wait ''completed'') = 7" by (simp add: sample_wait_def)
  with update_signals_satisfied [OF known refl, of 20 20 "''completed''" None] sat
  show ?thesis by (force simp: sample_tracker_waiting)
qed

text \<open>
  The two checks disagree on a required state outside the documented three.  The public
  check never accepts such a dependency, but a state update of the dependency signals the wait,
  so that \<open>WaitForDependencies\<close> returns without an error.
\<close>
theorem unknown_state_is_accepted:
  assumes "w \<in> set (get_waiting_jobs jid dt)"
    and "depends_on (wj_job w) = [d]" and "dep_job d = jid" and "\<not> known_state (dep_state d)"
    and "dep_timeout d \<le> 0"
    and "dt' = snd (update_job_state now later jid st err dt)"
  shows "check_dependencies t (wj_job w) dt' = Some (UnknownRequiredState (dep_state d)) \<and>
         map_option fst (wait_signalled w dt') = Some WaitDone"
proof -
  let ?js = "\<lparr>js_job = jid, js_state = st, js_completed = now,
              js_error = (case err of None \<Rightarrow> [] | Some e \<Rightarrow> e)\<rparr>"
  have state: "gm_get (dt_states dt') jid = Some ?js" by (simp add: assms(6) update_states)
  have "check_dependencies t (wj_job w) dt' = Some (UnknownRequiredState (dep_state d))"
    using assms(2-4) state
    by (simp add: check_dependencies_def check_dep_def known_state_def Let_def)
  moreover have "check_dependencies_locked later (wj_job w) dt' = None"
    unfolding check_dependencies_locked_def first_reason_None
    using assms(2-5) state by (auto simp: check_dep_locked_None dep_too_old_def)
  then have "wj_context w \<in> set (dt_signalled dt')"
    using update_signalled [of now later jid st err dt] assms(1,6) by auto
  then have "map_option fst (wait_signalled w dt') = Some WaitDone"
    by (simp add: wait_signalled_def)
  ultimately show ?thesis by blast
qed

theorem unknown_state_is_accepted_witness:
  "map_option fst (wait_signalled (sample_wait ''success'')
     (snd (update_job_state 20 20 ''a'' ''failed'' None (sample_tracker ''success''))))
   = Some WaitDone"
proof -
  have d: "sample_wait ''success'' \<in> set (get_waiting_jobs ''a'' (sample_tracker ''success''))"
    "dep_job (sample_dep ''a'' ''success'') = ''a''"
    "\<not> known_state (dep_state (sample_dep ''a'' ''success''))"
    "dep_timeout (sample_dep ''a'' ''success'') \<le> 0"
    by (simp_all add: sample_tracker_waiting sample_dep_def known_state_def)
  from unknown_state_is_accepted [OF d(1) sample_depends d(2-4) refl] show ?thesis by blast
qed

text \<open>
  How a wait ends decides whether it is forgotten.  A wait that ends on its signal leaves
  no list that mentions its job; one that finds its dependencies satisfied on a tick of its own
  stays registered in every list it joined.
\<close>
theorem satisfied_tick_leaves_registration:
  assumes "gm_wf (dt_waiting dt)"
  shows "(if fst (wait_tick now w dt) = WaitDone
          then get_waiting_jobs d (snd (wait_tick now w dt)) = get_waiting_jobs d dt
          else True) \<and>
         (case wait_signalled w dt of
            None \<Rightarrow> True
          | Some (r, dt') \<Rightarrow>
              get_waiting_jobs d dt' =
                filter (\<lambda>v. sj_id (wj_job v) \<noteq> sj_id (wj_job w)) (get_waiting_jobs d dt))"
proof -
  have "get_waiting_jobs d (signal c dt') = get_waiting_jobs d dt'" for c dt'
    by (simp add: get_waiting_jobs_def)
  with assms show ?thesis
    by (auto simp: wait_tick_def wait_signalled_def remove_waiting_lists Let_def
        split: option.splits if_splits)
qed

theorem satisfied_tick_leaves_registration_witness:
  "get_waiting_jobs ''a'' (snd (wait_tick 30 (sample_wait ''any'')
     ((sample_tracker ''any'')\<lparr>dt_states :=
        [(''a'', \<lparr>js_job = ''a'', js_state = ''failed'', js_completed = 20, js_error = []\<rparr>)]\<rparr>)))
   = [sample_wait ''any'']"
proof -
  let ?dt = "(sample_tracker ''any'')\<lparr>dt_states :=
        [(''a'', \<lparr>js_job = ''a'', js_state = ''failed'', js_completed = 20, js_error = []\<rparr>)]\<rparr>"
  have wf: "gm_wf (dt_waiting ?dt)"
    by (simp add: sample_tracker_defs)
  have "fst (wait_tick 30 (sample_wait ''any'') ?dt) = WaitDone"
    by (simp add: wait_tick_def check_dependencies_def check_dep_def sample_dep_def
        dep_too_old_def Let_def)
  with satisfied_tick_leaves_registration [OF wf, of 30 "sample_wait ''any''" "''a''"]
  show ?thesis by (simp add: sample_tracker_waiting)
qed

end
