(* ===== verification/Backoff.thy ===== *)
theory Backoff
  imports Models
begin

text \<open>
  The delays of \<open>daemon/scheduler/advanced.go\<close> and \<open>daemon/scheduler/retry.go\<close>: both
  \<open>CalculateBackoff\<close> functions, at the width of the machine integers they compute with.
\<close>

section \<open>Shifts and Fibonacci numbers at 64 bits\<close>

text \<open>
  \<open>1 << uint(n)\<close>: a shift by 64 or more is zero, and a negative \<open>n\<close> converts to such a shift.
\<close>

definition shl_one :: "int \<Rightarrow> int" where
  "shl_one n = (if 0 \<le> n \<and> n < 64 then wrap64 (2 ^ nat n) else 0)"

function fibonacci :: "int \<Rightarrow> int" where
  "fibonacci n = (if n \<le> 1 then n else wrap64 (fibonacci (n - 1) + fibonacci (n - 2)))"
  by pat_completeness auto
termination by (relation "measure (\<lambda>n. nat (n + 1))") auto

declare fibonacci.simps [simp del]

section \<open>The policy of \<open>advanced.go\<close>\<close>

record adv_retry_policy =
  arp_max_attempts :: int
  arp_initial_delay :: duration
  arp_max_delay :: duration
  arp_strategy :: string
  arp_retry_on :: "string list"

definition default_retry_policy :: adv_retry_policy where
  "default_retry_policy =
     \<lparr>arp_max_attempts = 3, arp_initial_delay = minute, arp_max_delay = 30 * minute,
      arp_strategy = ''exponential'', arp_retry_on = []\<rparr>"

definition backoff :: "adv_retry_policy \<Rightarrow> int \<Rightarrow> duration" where
  "backoff rp attempt =
     (if arp_max_attempts rp \<le> attempt then 0
      else let initial = arp_initial_delay rp;
               delay = (if arp_strategy rp = ''linear'' then wrap64 (initial * wrap64 (attempt + 1))
                        else if arp_strategy rp = ''exponential'' then wrap64 (initial * shl_one attempt)
                        else if arp_strategy rp = ''fibonacci''
                        then wrap64 (initial * fibonacci (wrap64 (attempt + 1)))
                        else initial)
           in if arp_max_delay rp < delay then arp_max_delay rp else delay)"

section \<open>The delay of the retry manager\<close>

definition calculate_backoff :: "retry_policy \<Rightarrow> int \<Rightarrow> duration" where
  "calculate_backoff p attempt =
     (let initial = wrap64 (rp_initial_delay p * second);
          max_delay = wrap64 (rp_max_delay p * second);
          delay = (if rp_strategy p = ''linear'' then wrap64 (initial * attempt)
                   else if rp_strategy p = ''exponential'' then wrap64 (initial * shl_one attempt)
                   else if rp_strategy p = ''fibonacci''
                   then wrap64 (initial * fibonacci (wrap64 (attempt + 1)))
                   else initial)
      in if max_delay < delay then max_delay else delay)"

section \<open>Lemmas\<close>

lemma wrap64_cong: "wrap64 x mod 2 ^ 64 = x mod 2 ^ 64"
proof -
  have "wrap64 x mod 2 ^ 64 = ((x + 2 ^ 63) - 2 ^ 63) mod 2 ^ 64"
    unfolding wrap64_def by (rule mod_diff_left_eq)
  then show ?thesis by simp
qed

lemma wrap64_eqI: "x mod 2 ^ 64 = y mod 2 ^ 64 \<Longrightarrow> wrap64 x = wrap64 y"
  unfolding wrap64_def by (metis mod_add_left_eq)

lemma wrap64_mult: "wrap64 (wrap64 x * wrap64 y) = wrap64 (x * y)"
  by (rule wrap64_eqI) (metis mod_mult_eq wrap64_cong)

lemma wrap64_multiple: "2 ^ 64 dvd x \<Longrightarrow> wrap64 x = 0"
  using wrap64_eqI [of x 0] by (auto simp: wrap64_id in64_def)

lemma wrap64_nonneg_id: "0 \<le> x \<Longrightarrow> x < 2 ^ 63 \<Longrightarrow> wrap64 x = x"
  by (simp add: wrap64_id in64_def)

lemma shl_one_small: "0 \<le> n \<Longrightarrow> n < 63 \<Longrightarrow> shl_one n = 2 ^ nat n"
  by (auto simp: shl_one_def intro!: wrap64_nonneg_id power_strict_increasing)

lemma seconds_nonneg: "0 \<le> x \<Longrightarrow> 0 \<le> x * second"
  by (simp add: second_def)

text \<open>Up to 62 the Fibonacci numbers do not wrap and are below the powers of two.\<close>

fun fib :: "nat \<Rightarrow> int" where
  "fib 0 = 0"
| "fib (Suc 0) = 1"
| "fib (Suc (Suc n)) = fib (Suc n) + fib n"

lemma fib_nonneg [simp]: "0 \<le> fib n"
  by (induction n rule: fib.induct) auto

lemma fib_mono_Suc: "fib n \<le> fib (Suc n)"
  by (induction n rule: fib.induct) auto

lemma fib_Suc_le_power: "fib (Suc n) \<le> 2 ^ n"
proof (induction n)
  case (Suc n)
  then show ?case using fib_mono_Suc [of n] by simp
qed simp

lemma fib_Suc_pos: "1 \<le> fib (Suc n)"
proof (induction n)
  case (Suc n)
  then show ?case by (simp add: add_increasing2)
qed simp

lemma fibonacci_fib: "n \<le> 63 \<Longrightarrow> fibonacci (int n) = fib n"
proof (induction n rule: fib.induct)
  case (3 n)
  have "fib (Suc (Suc n)) \<le> 2 ^ Suc n" by (rule fib_Suc_le_power)
  also have "(2::int) ^ Suc n < 2 ^ 63" using 3(3) by (intro power_strict_increasing) auto
  finally have lt: "fib (Suc (Suc n)) < 2 ^ 63" .
  have "fibonacci (int (Suc (Suc n))) = wrap64 (fibonacci (int (Suc n)) + fibonacci (int n))"
    by (subst fibonacci.simps) (simp add: algebra_simps)
  also have "\<dots> = wrap64 (fib (Suc (Suc n)))" using 3 by simp
  also have "\<dots> = fib (Suc (Suc n))" using lt by (intro wrap64_nonneg_id) auto
  finally show ?case .
qed (simp_all add: fibonacci.simps)

section \<open>The intended delay\<close>

text \<open>The multiple of the initial delay at the \<open>n\<close>-th retry, over unbounded integers.\<close>

definition growth :: "string \<Rightarrow> nat \<Rightarrow> int" where
  "growth s n = (if s = ''linear'' then int n else if s = ''exponential'' then 2 ^ n
                 else if s = ''fibonacci'' then fib (Suc n) else 1)"

lemma growth_bounds: "1 \<le> n \<Longrightarrow> 1 \<le> growth s n \<and> growth s n \<le> 2 ^ n"
  using fib_Suc_le_power [of n] fib_Suc_pos [of n] less_exp [of n]
  by (auto simp: growth_def simp flip: of_nat_less_iff)

lemma growth_mono: "growth s n \<le> growth s (Suc n)"
  using fib_mono_Suc [of "Suc n"] by (simp add: growth_def)

text \<open>Within 64 bits the code computes the intended delay.\<close>

lemma calculate_backoff_intended:
  assumes i: "1 \<le> rp_initial_delay p" and m: "0 \<le> rp_max_delay p" "rp_max_delay p * second < 2 ^ 63"
    and n: "1 \<le> n" and fits: "rp_initial_delay p * second * 2 ^ n < 2 ^ 63"
  shows "calculate_backoff p (int n) =
     min (rp_max_delay p * second) (rp_initial_delay p * second * growth (rp_strategy p) n)"
proof -
  let ?i = "rp_initial_delay p * second"
  have i1: "1 \<le> ?i" using i second_pos by (metis int_one_le_iff_zero_less zero_less_mult_iff less_le_trans zero_less_one)
  have "2 ^ n \<le> ?i * 2 ^ n" using i1 by simp
  then have "(2::int) ^ n < 2 ^ 63" using fits by linarith
  then have n63: "n < 63" by (rule power_less_imp_less_exp [rotated]) simp
  have wi: "wrap64 ?i = ?i"
  proof (rule wrap64_nonneg_id)
    have "?i * 1 \<le> ?i * 2 ^ n" using i1 by (intro mult_left_mono) auto
    then show "?i < 2 ^ 63" using fits by simp
  qed (use i1 in simp)
  have wm: "wrap64 (rp_max_delay p * second) = rp_max_delay p * second"
    using m by (intro wrap64_nonneg_id) (simp_all add: seconds_nonneg)
  have g: "wrap64 (?i * growth s n) = ?i * growth s n" for s
  proof (rule wrap64_nonneg_id)
    have "0 \<le> ?i" "0 \<le> growth s n" using i1 growth_bounds [OF n, of s] by simp_all
    then show "0 \<le> ?i * growth s n" by (rule mult_nonneg_nonneg)
    have "?i * growth s n \<le> ?i * 2 ^ n" using i1 growth_bounds [OF n, of s] by (intro mult_left_mono) auto
    then show "?i * growth s n < 2 ^ 63" using fits by linarith
  qed
  have f: "fibonacci (wrap64 (int n + 1)) = fib (Suc n)"
  proof -
    have "wrap64 (int n + 1) = int (Suc n)" using n63 by (subst wrap64_nonneg_id) auto
    then show ?thesis using fibonacci_fib [of "Suc n"] n63 by simp
  qed
  have s: "shl_one (int n) = 2 ^ n" using n63 by (simp add: shl_one_small)
  show ?thesis
    using g [of "rp_strategy p"] n63
    by (auto simp: calculate_backoff_def Let_def wi wm f s growth_def)
qed

lemma retry_delay_as_intended_parts:
  assumes "1 \<le> rp_initial_delay p" and "0 \<le> rp_max_delay p" and "rp_max_delay p * second < 2 ^ 63"
    and "1 \<le> n" and "rp_initial_delay p * second * 2 ^ Suc n < 2 ^ 63"
  shows "calculate_backoff p (int n) =
           min (rp_max_delay p * second) (rp_initial_delay p * second * growth (rp_strategy p) n)"
    and "0 \<le> calculate_backoff p (int n)"
    and "calculate_backoff p (int n) \<le> rp_max_delay p * second"
    and "calculate_backoff p (int n) \<le> calculate_backoff p (int (Suc n))"
proof -
  have i: "0 \<le> rp_initial_delay p * second" using assms(1) by (simp add: seconds_nonneg)
  have "rp_initial_delay p * second * 2 ^ n \<le> rp_initial_delay p * second * 2 ^ Suc n"
    using i by (intro mult_left_mono) auto
  then have fits: "rp_initial_delay p * second * 2 ^ n < 2 ^ 63" using assms(5) by linarith
  show eq: "calculate_backoff p (int n) =
      min (rp_max_delay p * second) (rp_initial_delay p * second * growth (rp_strategy p) n)"
    by (rule calculate_backoff_intended [OF assms(1-4) fits])
  have eq': "calculate_backoff p (int (Suc n)) =
      min (rp_max_delay p * second) (rp_initial_delay p * second * growth (rp_strategy p) (Suc n))"
    by (rule calculate_backoff_intended [OF assms(1-3) _ assms(5)]) simp
  have "0 \<le> rp_initial_delay p * second * growth (rp_strategy p) n"
    using growth_bounds [OF assms(4), of "rp_strategy p"] by (intro mult_nonneg_nonneg [OF i]) simp
  then show "0 \<le> calculate_backoff p (int n)"
    using assms(2) by (simp add: eq seconds_nonneg)
  show "calculate_backoff p (int n) \<le> rp_max_delay p * second" by (simp add: eq)
  have "rp_initial_delay p * second * growth (rp_strategy p) n
      \<le> rp_initial_delay p * second * growth (rp_strategy p) (Suc n)"
    by (rule mult_left_mono [OF growth_mono i])
  then show "calculate_backoff p (int n) \<le> calculate_backoff p (int (Suc n))"
    unfolding eq eq' by linarith
qed

text \<open>
  As long as the doubled delays fit 64 bits, the \<open>n\<close>-th retry waits the initial delay times
  \<open>n\<close>, \<open>2 ^ n\<close>, the \<open>n + 1\<close>-st Fibonacci number or one, cut off at the maximal delay; the delay
  is never negative nor above the maximum and never shrinks from one retry to the next.
\<close>

theorem retry_delay_as_intended:
  assumes "1 \<le> rp_initial_delay p" and "0 \<le> rp_max_delay p" and "rp_max_delay p * second < 2 ^ 63"
    and "1 \<le> n" and "rp_initial_delay p * second * 2 ^ Suc n < 2 ^ 63"
  shows "calculate_backoff p (int n) =
           min (rp_max_delay p * second) (rp_initial_delay p * second * growth (rp_strategy p) n)
     \<and> 0 \<le> calculate_backoff p (int n)
     \<and> calculate_backoff p (int n) \<le> rp_max_delay p * second
     \<and> calculate_backoff p (int n) \<le> calculate_backoff p (int (Suc n))"
  using retry_delay_as_intended_parts [OF assms] by blast

definition minute_policy :: "int \<Rightarrow> retry_policy" where
  "minute_policy attempts =
     \<lparr>rp_max_attempts = attempts, rp_initial_delay = 60, rp_max_delay = 1800,
      rp_strategy = ''exponential'', rp_retry_on = []\<rparr>"

lemma minute_policy_simps [simp]:
  "rp_max_attempts (minute_policy n) = n" "rp_initial_delay (minute_policy n) = 60"
  "rp_max_delay (minute_policy n) = 1800" "rp_strategy (minute_policy n) = ''exponential''"
  "rp_retry_on (minute_policy n) = []"
  by (simp_all add: minute_policy_def)

theorem retry_delay_as_intended_witness:
  "calculate_backoff (minute_policy 3) 1 = 120 * second
   \<and> calculate_backoff (minute_policy 3) 1 \<le> calculate_backoff (minute_policy 3) 2"
  using retry_delay_as_intended [of "minute_policy 3" 1]
  by (simp add: minute_policy_def second_def growth_def)

lemma exponential_backoff_vanishes_parts:
  assumes "rp_strategy p = ''exponential''" and "55 \<le> attempt"
    and "0 \<le> rp_max_delay p" and "rp_max_delay p * second < 2 ^ 63"
  shows "calculate_backoff p attempt = 0" and "calculate_backoff (minute_policy 100) 28 < 0"
proof -
  have "wrap64 (wrap64 (rp_initial_delay p * second) * shl_one attempt) = 0"
  proof (cases "attempt < 64")
    case True
    have pow: "(2::int) ^ nat attempt = 2 ^ 55 * 2 ^ (nat attempt - 55)"
      using assms(2) by (subst power_add [symmetric]) (simp add: le_nat_iff)
    have "wrap64 (wrap64 (rp_initial_delay p * second) * shl_one attempt)
        = wrap64 (rp_initial_delay p * second * 2 ^ nat attempt)"
      using assms(2) True by (simp add: shl_one_def wrap64_mult)
    moreover have "(2::int) ^ 64 dvd rp_initial_delay p * second * 2 ^ nat attempt"
    proof -
      have "rp_initial_delay p * second * 2 ^ nat attempt
          = 2 ^ 64 * (rp_initial_delay p * 5 ^ 9 * 2 ^ (nat attempt - 55))"
        by (simp add: pow second_def)
      then show ?thesis by (metis dvd_triv_left)
    qed
    ultimately show ?thesis by (simp add: wrap64_multiple)
  next
    case False
    then show ?thesis by (simp add: shl_one_def wrap64_nonneg_id)
  qed
  moreover have "wrap64 (rp_max_delay p * second) = rp_max_delay p * second"
    using assms(3,4) by (intro wrap64_nonneg_id) (simp_all add: seconds_nonneg)
  moreover have "0 \<le> rp_max_delay p * second"
    using assms(3) by (simp add: seconds_nonneg)
  ultimately show "calculate_backoff p attempt = 0"
    using assms(1) by (simp add: calculate_backoff_def Let_def)
  show "calculate_backoff (minute_policy 100) 28 < 0" by code_simp
qed

text \<open>
  The exponential delay is not protected against overflow.  From the 55th retry on it is
  zero for every policy, so that retries follow one another without a pause; with a minute as
  initial delay the 28th delay is negative already, and fires at once.
\<close>

theorem exponential_backoff_vanishes:
  assumes "rp_strategy p = ''exponential''" and "55 \<le> attempt"
    and "0 \<le> rp_max_delay p" and "rp_max_delay p * second < 2 ^ 63"
  shows "calculate_backoff p attempt = 0 \<and> calculate_backoff (minute_policy 100) 28 < 0"
  using exponential_backoff_vanishes_parts [OF assms] by blast

theorem exponential_backoff_vanishes_witness:
  "calculate_backoff (minute_policy 100) 60 = 0"
  using exponential_backoff_vanishes [of "minute_policy 100" 60]
  by (simp add: minute_policy_def second_def)

end
