(* ===== verification/Job_Retry.thy ===== *)
theory Job_Retry
  imports Backoff Job_Manager
begin

text \<open>
  The retry manager of \<open>daemon/scheduler/retry.go\<close>.  The executor is an argument: a function
  that submits a definition and returns the error text, if any, with its next state, which
  stands for everything the executor and its environment do meanwhile.  The goroutine started
  by \<open>ScheduleRetry\<close> runs \<open>execute_retry\<close> after the delay; \<open>retry_chain\<close> follows it until no
  further retry is scheduled.
\<close>

section \<open>Data\<close>

record retry_record =
  rr_attempt :: int
  rr_timestamp :: instant
  rr_error :: string
  rr_delay :: duration

record retry_attempt =
  ra_job :: string
  ra_name :: string
  ra_attempt :: int
  ra_max :: int
  ra_last_error :: string
  ra_next :: instant
  ra_history :: "retry_record list"

record retry_manager =
  rm_attempts :: "(string, retry_attempt) gomap"
  rm_notifier :: bool
  rm_notified :: "(string \<times> string \<times> int \<times> int \<times> instant) list"

text \<open>\<open>AvgAttempts\<close> is the quotient of the two numbers of \<open>rs_average\<close>, zero without retries.\<close>

record retry_stats =
  rs_total :: int
  rs_success :: int
  rs_failed :: int
  rs_average :: "(int \<times> int) option"

definition new_retry_manager :: retry_manager where
  "new_retry_manager = \<lparr>rm_attempts = [], rm_notifier = False, rm_notified = []\<rparr>"

definition set_notifier :: "bool \<Rightarrow> retry_manager \<Rightarrow> retry_manager" where
  "set_notifier b rm = rm\<lparr>rm_notifier := b\<rparr>"

section \<open>Operations\<close>

definition job_policy :: "scheduled_job \<Rightarrow> retry_policy option" where
  "job_policy sj = (case sj_advanced sj of None \<Rightarrow> None | Some c \<Rightarrow> ac_retry c)"

definition current_attempt :: "retry_manager \<Rightarrow> string \<Rightarrow> int" where
  "current_attempt rm k = (case gm_get (rm_attempts rm) k of None \<Rightarrow> 0 | Some a \<Rightarrow> ra_attempt a)"

definition should_retry :: "retry_manager \<Rightarrow> scheduled_job \<Rightarrow> string \<Rightarrow> bool" where
  "should_retry rm sj err =
     (case job_policy sj of
        None \<Rightarrow> False
      | Some p \<Rightarrow>
          if rp_max_attempts p \<le> current_attempt rm (sj_id sj) then False
          else if rp_retry_on p \<noteq> [] \<and> \<not> list_ex (str_contains err) (rp_retry_on p) then False
          else True)"

definition fresh_attempt :: "scheduled_job \<Rightarrow> retry_policy \<Rightarrow> retry_attempt" where
  "fresh_attempt sj p =
     \<lparr>ra_job = sj_id sj, ra_name = sj_name sj, ra_attempt = 0, ra_max = rp_max_attempts p,
      ra_last_error = [], ra_next = 0, ra_history = []\<rparr>"

definition next_attempt :: "instant \<Rightarrow> retry_policy \<Rightarrow> string \<Rightarrow> retry_attempt \<Rightarrow> retry_attempt" where
  "next_attempt now p err a =
     (let n = wrap64 (ra_attempt a + 1); delay = calculate_backoff p n
      in a\<lparr>ra_attempt := n, ra_last_error := err, ra_next := now + delay,
           ra_history := ra_history a @ [\<lparr>rr_attempt = n, rr_timestamp = now, rr_error = err,
                                          rr_delay = delay\<rparr>]\<rparr>)"

text \<open>The new state and the delay of the started goroutine; \<open>None\<close> when retrying is not allowed.\<close>

definition schedule_retry ::
  "instant \<Rightarrow> scheduled_job \<Rightarrow> string \<Rightarrow> retry_manager \<Rightarrow> (retry_manager \<times> duration) option" where
  "schedule_retry now sj err rm =
     (if \<not> should_retry rm sj err then None
      else case job_policy sj of
             None \<Rightarrow> None
           | Some p \<Rightarrow>
               let a = (case gm_get (rm_attempts rm) (sj_id sj) of
                          None \<Rightarrow> fresh_attempt sj p | Some a \<Rightarrow> a);
                   a = next_attempt now p err a;
                   rm = rm\<lparr>rm_attempts := gm_put (sj_id sj) a (rm_attempts rm)\<rparr>;
                   rm = (if rm_notifier rm
                         then rm\<lparr>rm_notified := rm_notified rm @
                                [(sj_id sj, sj_name sj, ra_attempt a, ra_max a, ra_next a)]\<rparr>
                         else rm)
               in Some (rm, calculate_backoff p (ra_attempt a)))"

definition clear_retry :: "string \<Rightarrow> retry_manager \<Rightarrow> retry_manager" where
  "clear_retry k rm = rm\<lparr>rm_attempts := gm_del k (rm_attempts rm)\<rparr>"

text \<open>
  \<open>executeRetry\<close>: \<open>cancelled\<close> says that the \<open>select\<close> takes the end of the context, which leaves the
  record as it is; otherwise the timer fired.  The first component is the delay of the next retry,
  if any.
\<close>

definition execute_retry ::
  "bool \<Rightarrow> instant \<Rightarrow> (job_definition \<Rightarrow> 'm \<Rightarrow> string option \<times> 'm) \<Rightarrow> scheduled_job \<Rightarrow> retry_manager \<Rightarrow> 'm
   \<Rightarrow> duration option \<times> retry_manager \<times> 'm" where
  "execute_retry cancelled now submit sj rm m =
     (if cancelled then (None, rm, m)
      else case submit (sj_template sj) m of
             (None, m') \<Rightarrow> (None, clear_retry (sj_id sj) rm, m')
           | (Some err, m') \<Rightarrow>
               if should_retry rm sj err
               then (case schedule_retry now sj err rm of
                       None \<Rightarrow> (None, rm, m')
                     | Some (rm', delay) \<Rightarrow> (Some delay, rm', m'))
               else (None, clear_retry (sj_id sj) rm, m'))"

definition get_retry_attempt :: "string \<Rightarrow> retry_manager \<Rightarrow> retry_attempt option" where
  "get_retry_attempt k rm = gm_get (rm_attempts rm) k"

definition old_attempt :: "instant \<Rightarrow> retry_attempt \<Rightarrow> bool" where
  "old_attempt cutoff a = (ra_history a \<noteq> [] \<and> rr_timestamp (last (ra_history a)) < cutoff)"

definition clear_old_retries :: "instant \<Rightarrow> duration \<Rightarrow> retry_manager \<Rightarrow> retry_manager" where
  "clear_old_retries now max_age rm =
     rm\<lparr>rm_attempts := filter (\<lambda>(k, a). \<not> old_attempt (now - max_age) a) (rm_attempts rm)\<rparr>"

definition get_retry_stats :: "retry_manager \<Rightarrow> retry_stats" where
  "get_retry_stats rm =
     (let total = int (length (rm_attempts rm));
          failed = int (length (filter (\<lambda>(k, a). ra_max a \<le> ra_attempt a) (rm_attempts rm)));
          attempts = gm_sum ra_attempt (rm_attempts rm)
      in \<lparr>rs_total = total, rs_success = total - failed, rs_failed = failed,
          rs_average = (if 0 < total then Some (attempts, total) else None)\<rparr>)"

section \<open>Lemmas\<close>

lemma should_retry_iff:
  "should_retry rm sj err \<longleftrightarrow>
     (\<exists>p. job_policy sj = Some p \<and> current_attempt rm (sj_id sj) < rp_max_attempts p
        \<and> (rp_retry_on p = [] \<or> (\<exists>e \<in> set (rp_retry_on p). sublist e err)))"
  by (auto simp: should_retry_def list_ex_iff str_contains_sublist split: option.splits)

lemma should_retryD:
  assumes "should_retry rm sj err" and "job_policy sj = Some p"
  shows "current_attempt rm (sj_id sj) < rp_max_attempts p"
  using assms by (auto simp: should_retry_iff)

text \<open>Machine integers: an attempt below a 64-bit maximum can be counted up.\<close>

definition policy_ok :: "scheduled_job \<Rightarrow> bool" where
  "policy_ok sj = (case job_policy sj of None \<Rightarrow> True | Some p \<Rightarrow> in64 (rp_max_attempts p))"

definition attempt_ok :: "retry_attempt \<Rightarrow> bool" where
  "attempt_ok a \<longleftrightarrow> ra_attempt a = int (length (ra_history a)) \<and> 1 \<le> ra_attempt a \<and> in64 (ra_attempt a)"

definition attempts_ok :: "retry_manager \<Rightarrow> bool" where
  "attempts_ok rm \<longleftrightarrow> gm_wf (rm_attempts rm)
     \<and> (\<forall>k a. gm_get (rm_attempts rm) k = Some a \<longrightarrow> attempt_ok a)"

lemma attempts_ok_get: "attempts_ok rm \<Longrightarrow> gm_get (rm_attempts rm) k = Some a \<Longrightarrow> attempt_ok a"
  by (simp add: attempts_ok_def)

lemma current_attempt_nonneg: "attempts_ok rm \<Longrightarrow> 0 \<le> current_attempt rm k"
  by (auto simp: current_attempt_def attempt_ok_def dest!: attempts_ok_get split: option.split)

lemma wrap64_succ: "0 \<le> a \<Longrightarrow> a < b \<Longrightarrow> in64 b \<Longrightarrow> wrap64 (a + 1) = a + 1"
  by (rule wrap64_id) (simp add: in64_def)

lemma schedule_retry_is_some: "schedule_retry now sj err rm \<noteq> None \<longleftrightarrow> should_retry rm sj err"
  by (auto simp: schedule_retry_def should_retry_def Let_def split: option.splits if_splits)

text \<open>What a scheduled retry records.\<close>

lemma schedule_retryD:
  assumes "schedule_retry now sj err rm = Some (rm', delay)"
  shows "\<exists>p a. job_policy sj = Some p
     \<and> a = next_attempt now p err (case gm_get (rm_attempts rm) (sj_id sj) of
                                    None \<Rightarrow> fresh_attempt sj p | Some a \<Rightarrow> a)
     \<and> delay = calculate_backoff p (ra_attempt a)
     \<and> rm_attempts rm' = gm_put (sj_id sj) a (rm_attempts rm)"
  using assms by (auto simp: schedule_retry_def Let_def split: option.splits if_splits)

lemma ra_attempt_next:
  "ra_attempt (next_attempt now p err (case gm_get (rm_attempts rm) k of
       None \<Rightarrow> fresh_attempt sj p | Some a \<Rightarrow> a)) = wrap64 (current_attempt rm k + 1)"
  by (simp add: next_attempt_def Let_def current_attempt_def fresh_attempt_def split: option.split)

lemma ra_history_next [simp]:
  "length (ra_history (next_attempt now p err a)) = Suc (length (ra_history a))"
  by (simp add: next_attempt_def Let_def)

lemma schedule_retry_counts:
  assumes ok: "attempts_ok rm" and pol: "policy_ok sj"
    and s: "schedule_retry now sj err rm = Some (rm', delay)"
  shows "current_attempt rm' (sj_id sj) = current_attempt rm (sj_id sj) + 1"
proof -
  have sh: "should_retry rm sj err" using s schedule_retry_is_some by force
  obtain p a where p: "job_policy sj = Some p"
    "a = next_attempt now p err (case gm_get (rm_attempts rm) (sj_id sj) of
       None \<Rightarrow> fresh_attempt sj p | Some a \<Rightarrow> a)"
    "rm_attempts rm' = gm_put (sj_id sj) a (rm_attempts rm)"
    using schedule_retryD [OF s] by blast
  have "in64 (rp_max_attempts p)" using pol p(1) by (simp add: policy_ok_def)
  then have "wrap64 (current_attempt rm (sj_id sj) + 1) = current_attempt rm (sj_id sj) + 1"
    by (rule wrap64_succ [OF current_attempt_nonneg [OF ok] should_retryD [OF sh p(1)]])
  then show ?thesis
    using p ra_attempt_next [of now p err sj rm "sj_id sj"] by (simp add: current_attempt_def)
qed

lemma schedule_retry_keeps:
  assumes ok: "attempts_ok rm" and pol: "policy_ok sj"
    and s: "schedule_retry now sj err rm = Some (rm', delay)"
  shows "attempts_ok rm'"
proof -
  obtain p a where p: "job_policy sj = Some p"
    "a = next_attempt now p err (case gm_get (rm_attempts rm) (sj_id sj) of
       None \<Rightarrow> fresh_attempt sj p | Some a \<Rightarrow> a)"
    "rm_attempts rm' = gm_put (sj_id sj) a (rm_attempts rm)"
    using schedule_retryD [OF s] by blast
  have cur: "ra_attempt a = current_attempt rm (sj_id sj) + 1"
    using schedule_retry_counts [OF ok pol s] p(3) by (simp add: current_attempt_def)
  have "length (ra_history a) = nat (current_attempt rm (sj_id sj)) + 1"
    using ok p(2) by (auto simp: current_attempt_def fresh_attempt_def attempt_ok_def
        dest!: attempts_ok_get split: option.splits)
  moreover have "in64 (ra_attempt a)" using p(2) ra_attempt_next wrap64_in64 by metis
  ultimately have "attempt_ok a"
    using cur current_attempt_nonneg [OF ok, of "sj_id sj"] by (simp add: attempt_ok_def)
  then show ?thesis using ok by (simp add: attempts_ok_def p(3) gm_get_put)
qed

lemma clear_retry_keeps: "attempts_ok rm \<Longrightarrow> attempts_ok (clear_retry k rm)"
  by (auto simp: attempts_ok_def clear_retry_def gm_get_del split: if_splits)

lemma current_attempt_clear: "current_attempt (clear_retry k rm) k = 0"
  by (simp add: current_attempt_def clear_retry_def)

section \<open>The chain of retries\<close>

text \<open>
  How many retries the policy still allows.  The chain stops when it is used up, whatever the
  executor answers.
\<close>

definition retries_left :: "retry_manager \<Rightarrow> scheduled_job \<Rightarrow> nat" where
  "retries_left rm sj =
     (case job_policy sj of None \<Rightarrow> 0
      | Some p \<Rightarrow> nat (rp_max_attempts p - current_attempt rm (sj_id sj)))"

lemma execute_retry_cancelled [simp]: "execute_retry True now submit sj rm m = (None, rm, m)"
  by (simp add: execute_retry_def)

lemma execute_retryD:
  assumes "execute_retry False now submit sj rm m = (d, rm', m')"
  shows "(d = None \<longrightarrow> rm' = clear_retry (sj_id sj) rm)
    \<and> (\<forall>delay. d = Some delay \<longrightarrow>
          (\<exists>err. fst (submit (sj_template sj) m) = Some err \<and> should_retry rm sj err
               \<and> schedule_retry now sj err rm = Some (rm', delay)))
    \<and> m' = snd (submit (sj_template sj) m)"
proof (cases "submit (sj_template sj) m")
  case (Pair e m1)
  show ?thesis
  proof (cases e)
    case None
    then show ?thesis using assms Pair by (auto simp: execute_retry_def)
  next
    case (Some err)
    then show ?thesis
      using assms Pair schedule_retry_is_some [of now sj err rm]
      by (auto simp: execute_retry_def split: if_splits option.splits)
  qed
qed

lemma execute_retry_less:
  assumes ok: "attempts_ok rm" and pol: "policy_ok sj"
    and e: "execute_retry False now submit sj rm m = (Some delay, rm', m')"
  shows "attempts_ok rm'" and "Suc (retries_left rm' sj) = retries_left rm sj"
    and "current_attempt rm' (sj_id sj) = current_attempt rm (sj_id sj) + 1"
proof -
  obtain err where err: "should_retry rm sj err" "schedule_retry now sj err rm = Some (rm', delay)"
    using execute_retryD [OF e] by blast
  obtain p where p: "job_policy sj = Some p" using err(1) by (auto simp: should_retry_iff)
  show "attempts_ok rm'" by (rule schedule_retry_keeps [OF ok pol err(2)])
  show "Suc (retries_left rm' sj) = retries_left rm sj"
    using schedule_retry_counts [OF ok pol err(2)] should_retryD [OF err(1) p]
    by (simp add: retries_left_def p)
  show "current_attempt rm' (sj_id sj) = current_attempt rm (sj_id sj) + 1"
    by (rule schedule_retry_counts [OF ok pol err(2)])
qed

text \<open>
  The chain with a bound on its length: the delays waited, whether it came to an end, and the
  final states.  The clock advances by each delay; \<open>others\<close> is what other goroutines do to the
  retry manager before the \<open>i\<close>-th retry runs, \<open>cancelled\<close> which of its branches the \<open>i\<close>-th
  \<open>select\<close> takes.
\<close>

fun retry_chain ::
  "nat \<Rightarrow> (nat \<Rightarrow> bool) \<Rightarrow> (nat \<Rightarrow> retry_manager \<Rightarrow> retry_manager) \<Rightarrow> instant
   \<Rightarrow> (job_definition \<Rightarrow> 'm \<Rightarrow> string option \<times> 'm) \<Rightarrow> scheduled_job \<Rightarrow> retry_manager \<Rightarrow> 'm
   \<Rightarrow> duration list \<times> bool \<times> retry_manager \<times> 'm" where
  "retry_chain 0 cancelled others now submit sj rm m = ([], False, rm, m)"
| "retry_chain (Suc n) cancelled others now submit sj rm m =
     (case execute_retry (cancelled 0) now submit sj (others 0 rm) m of
        (None, rm', m') \<Rightarrow> ([], True, rm', m')
      | (Some delay, rm', m') \<Rightarrow>
          (case retry_chain n (\<lambda>i. cancelled (Suc i)) (\<lambda>i. others (Suc i)) (now + max 0 delay)
                  submit sj rm' m' of
             (ds, fin, rm2, m2) \<Rightarrow> (delay # ds, fin, rm2, m2)))"

text \<open>Other goroutines leave the record of the job alone: they retry and clear other jobs.\<close>

definition spares :: "string \<Rightarrow> (nat \<Rightarrow> retry_manager \<Rightarrow> retry_manager) \<Rightarrow> bool" where
  "spares k others \<longleftrightarrow> (\<forall>i rm. attempts_ok rm \<longrightarrow> attempts_ok (others i rm)
     \<and> get_retry_attempt k (others i rm) = get_retry_attempt k rm)"

lemma sparesD:
  assumes "spares k others" and "attempts_ok rm"
  shows "attempts_ok (others i rm)" and "current_attempt (others i rm) k = current_attempt rm k"
    and "get_retry_attempt k (others i rm) = get_retry_attempt k rm"
  using assms by (simp_all add: spares_def current_attempt_def get_retry_attempt_def)

lemma spares_Suc: "spares k others \<Longrightarrow> spares k (\<lambda>i. others (Suc i))"
  unfolding spares_def by blast

lemma retry_chain_ends:
  assumes "attempts_ok rm" and "policy_ok sj" and "retries_left rm sj < n" and "spares (sj_id sj) others"
    and "retry_chain n cancelled others now submit sj rm m = (ds, fin, rm', m')"
  shows "fin \<and> length ds \<le> retries_left rm sj \<and> (\<forall>i < length ds. \<not> cancelled i)
     \<and> (if cancelled (length ds)
        then current_attempt rm' (sj_id sj) = current_attempt rm (sj_id sj) + int (length ds)
        else gm_get (rm_attempts rm') (sj_id sj) = None)"
  using assms
proof (induction n arbitrary: cancelled others now rm m ds fin rm' m')
  case (Suc n)
  note o = sparesD [OF Suc.prems(4,1)]
  show ?case
  proof (cases "cancelled 0")
    case True
    then show ?thesis using Suc.prems(5) o(2) by auto
  next
    case False
    obtain d rm1 m1 where e: "execute_retry False now submit sj (others 0 rm) m = (d, rm1, m1)"
      by (metis surj_pair)
    show ?thesis
    proof (cases d)
      case None
      then show ?thesis
        using Suc.prems(5) execute_retryD [OF e] e False by (auto simp: clear_retry_def gm_get_del)
    next
      case (Some delay)
      obtain ds1 fin1 rm2 m2 where r:
        "retry_chain n (\<lambda>i. cancelled (Suc i)) (\<lambda>i. others (Suc i)) (now + max 0 delay) submit sj rm1 m1
           = (ds1, fin1, rm2, m2)"
        by (metis surj_pair)
      have ds: "ds = delay # ds1" "fin = fin1" "rm' = rm2" using Suc.prems(5) e Some r False by auto
      have left: "retries_left (others 0 rm) sj = retries_left rm sj"
        by (simp add: retries_left_def o(2) split: option.split)
      note l = execute_retry_less [OF o(1) Suc.prems(2) e [unfolded Some]]
      have "retries_left rm1 sj < n" using l(2) left Suc.prems(3) by simp
      note ih = Suc.IH [OF l(1) Suc.prems(2) this spares_Suc [OF Suc.prems(4)] r]
      then show ?thesis
        unfolding ds using l(2,3) left o(2) False by (auto simp: less_Suc_eq_0_disj)
    qed
  qed
qed simp

text \<open>
  C8: the chain of retries of a job ends.  Whatever the executor answers and other goroutines
  do to the retries of other jobs, at most as many further retries are scheduled as the policy
  has left.  The last one either found the context done and left the record with the attempts
  counted so far, or the retry information of the job is cleared.
\<close>

theorem retries_come_to_an_end:
  assumes "attempts_ok rm" and "policy_ok sj" and "spares (sj_id sj) others"
  shows "\<exists>ds rm' m'. retry_chain (Suc (retries_left rm sj)) cancelled others now submit sj rm m
             = (ds, True, rm', m')
           \<and> length ds \<le> retries_left rm sj \<and> (\<forall>i < length ds. \<not> cancelled i)
           \<and> (if cancelled (length ds)
              then current_attempt rm' (sj_id sj) = current_attempt rm (sj_id sj) + int (length ds)
              else get_retry_attempt (sj_id sj) rm' = None)"
proof -
  obtain ds fin rm' m' where r:
    "retry_chain (Suc (retries_left rm sj)) cancelled others now submit sj rm m = (ds, fin, rm', m')"
    by (metis surj_pair)
  then show ?thesis
    using retry_chain_ends [OF assms(1,2) lessI assms(3) r] by (simp add: get_retry_attempt_def)
qed

text \<open>
  A clean-up that finds the record of a waiting retry too old forgets its attempts, so the policy
  starts over.
\<close>

lemma forgotten_retries_start_over:
  assumes "gm_wf (rm_attempts rm)" and "gm_get (rm_attempts rm) k = Some a" and "old_attempt (now - age) a"
  shows "current_attempt (clear_old_retries now age rm) k = 0"
proof -
  have "gm_get (rm_attempts (clear_old_retries now age rm)) k = None"
  proof (rule ccontr)
    assume "gm_get (rm_attempts (clear_old_retries now age rm)) k \<noteq> None"
    then obtain b where "(k, b) \<in> set (rm_attempts rm)" "\<not> old_attempt (now - age) b"
      by (auto simp: clear_old_retries_def dest!: map_of_SomeD)
    then show False using assms by (simp add: gm_in_get)
  qed
  then show ?thesis by (simp add: current_attempt_def)
qed

definition nightly :: "retry_policy option \<Rightarrow> scheduled_job" where
  "nightly p =
     \<lparr>sj_id = ''s1'', sj_name = ''nightly'', sj_description = [], sj_schedule = ''0 2 * * *'',
      sj_template = zero_job_definition\<lparr>jd_id := ''t1''\<rparr>, sj_enabled = True, sj_created = 0, sj_updated = 0,
      sj_next_run = 0, sj_last_run = None, sj_run_count = 0, sj_tags = None,
      sj_advanced = Some (zero_advanced_config\<lparr>ac_retry := p\<rparr>)\<rparr>"

lemma nightly_simps [simp]:
  "sj_id (nightly p) = ''s1''" "sj_name (nightly p) = ''nightly''"
  "job_policy (nightly p) = p" "jd_id (sj_template (nightly p)) = ''t1''"
  by (simp_all add: nightly_def job_policy_def)

lemma new_attempts_ok [simp]: "attempts_ok new_retry_manager"
  by (simp add: attempts_ok_def new_retry_manager_def)

lemma nightly_policy_ok: "in64 n \<Longrightarrow> policy_ok (nightly (Some (minute_policy n)))"
  by (simp add: policy_ok_def minute_policy_def)

lemma current_attempt_new [simp]: "current_attempt new_retry_manager k = 0"
  by (simp add: current_attempt_def new_retry_manager_def)

theorem retries_come_to_an_end_witness:
  "\<exists>ds rm' m'. retry_chain 4 (\<lambda>i. i = 2) (\<lambda>i rm. rm) 0 (\<lambda>d m. (Some ''down'', m)) (nightly (Some (minute_policy 3)))
       new_retry_manager () = (ds, True, rm', m') \<and> length ds \<le> 2"
proof -
  have o: "spares ''s1'' (\<lambda>i rm. rm)" by (simp add: spares_def)
  have "retries_left new_retry_manager (nightly (Some (minute_policy 3))) = 3"
    by (simp add: retries_left_def)
  then show ?thesis
    using retries_come_to_an_end [of new_retry_manager "nightly (Some (minute_policy 3))" "\<lambda>i rm. rm"
        "\<lambda>i. i = 2" 0 "\<lambda>d m. (Some ''down'', m)" "()"] nightly_policy_ok [of 3] o
    by (fastforce simp: in64_def numeral_eq_Suc not_less)
qed

text \<open>
  A retry is scheduled exactly when the job has a policy with attempts left and the error
  contains one of the policy's patterns, if it has any.  Then the job's attempt is one more,
  its history one record longer with the delay waited, the other jobs' retries are as before,
  and attempt counters equal the history lengths throughout.
\<close>

theorem schedule_retry_records:
  assumes "attempts_ok rm" and "policy_ok sj" and "job_policy sj = Some p"
    and "current_attempt rm (sj_id sj) < rp_max_attempts p"
    and "rp_retry_on p = [] \<or> (\<exists>e \<in> set (rp_retry_on p). sublist e err)"
  shows "\<exists>rm' a. schedule_retry now sj err rm = Some (rm', calculate_backoff p (ra_attempt a))
     \<and> get_retry_attempt (sj_id sj) rm' = Some a
     \<and> ra_attempt a = current_attempt rm (sj_id sj) + 1 \<and> ra_attempt a \<le> rp_max_attempts p
     \<and> ra_last_error a = err \<and> ra_next a = now + calculate_backoff p (ra_attempt a)
     \<and> ra_attempt a = int (length (ra_history a))
     \<and> last (ra_history a) = \<lparr>rr_attempt = ra_attempt a, rr_timestamp = now, rr_error = err,
                               rr_delay = calculate_backoff p (ra_attempt a)\<rparr>
     \<and> (\<forall>k. k \<noteq> sj_id sj \<longrightarrow> get_retry_attempt k rm' = get_retry_attempt k rm)
     \<and> attempts_ok rm'"
proof -
  have "should_retry rm sj err" using assms(3-5) by (auto simp: should_retry_iff)
  then obtain rm' delay where s: "schedule_retry now sj err rm = Some (rm', delay)"
    using schedule_retry_is_some by fast
  obtain a where a:
    "a = next_attempt now p err (case gm_get (rm_attempts rm) (sj_id sj) of
       None \<Rightarrow> fresh_attempt sj p | Some a \<Rightarrow> a)"
    "delay = calculate_backoff p (ra_attempt a)"
    "rm_attempts rm' = gm_put (sj_id sj) a (rm_attempts rm)"
    using schedule_retryD [OF s] assms(3) by auto
  have ok: "attempts_ok rm'" by (rule schedule_retry_keeps [OF assms(1,2) s])
  have get: "get_retry_attempt (sj_id sj) rm' = Some a" using a(3) by (simp add: get_retry_attempt_def)
  then have "attempt_ok a" using ok attempts_ok_get by (metis get_retry_attempt_def)
  then have len: "ra_attempt a = int (length (ra_history a))" by (simp add: attempt_ok_def)
  have cur: "ra_attempt a = current_attempt rm (sj_id sj) + 1"
    using schedule_retry_counts [OF assms(1,2) s] a(3) by (simp add: current_attempt_def)
  have rec: "ra_last_error a = err \<and> ra_next a = now + calculate_backoff p (ra_attempt a)
     \<and> last (ra_history a) = \<lparr>rr_attempt = ra_attempt a, rr_timestamp = now, rr_error = err,
                               rr_delay = calculate_backoff p (ra_attempt a)\<rparr>"
    by (simp add: a(1) next_attempt_def Let_def)
  have others: "\<forall>k. k \<noteq> sj_id sj \<longrightarrow> get_retry_attempt k rm' = get_retry_attempt k rm"
    by (simp add: a(3) get_retry_attempt_def gm_get_put)
  have max: "ra_attempt a \<le> rp_max_attempts p" using cur assms(4) by simp
  show ?thesis using s a(2) get cur len rec others max ok by blast
qed

theorem schedule_retry_records_witness:
  "\<exists>rm' (a::retry_attempt). schedule_retry 7 (nightly (Some (minute_policy 3))) ''timeout'' new_retry_manager =
       Some (rm', calculate_backoff (minute_policy 3) (ra_attempt a)) \<and> ra_attempt a = 1"
proof -
  let ?sj = "nightly (Some (minute_policy 3))"
  have p: "policy_ok ?sj" by (rule nightly_policy_ok) (simp add: in64_def)
  have c: "current_attempt new_retry_manager (sj_id ?sj) < rp_max_attempts (minute_policy 3)" by simp
  have "\<exists>rm' (a::retry_attempt). schedule_retry 7 ?sj ''timeout'' new_retry_manager =
      Some (rm', calculate_backoff (minute_policy 3) (ra_attempt a))
      \<and> ra_attempt a = current_attempt new_retry_manager (sj_id ?sj) + 1"
    using schedule_retry_records [OF new_attempts_ok p nightly_simps(3) c
        disjI1 [OF minute_policy_simps(5)], of 7 "''timeout''"]
    by blast
  then show ?thesis by simp
qed

lemma waiting_retry_counted_as_success_parts:
  assumes "schedule_retry now sj err new_retry_manager = Some (rm', delay)"
    and "job_policy sj = Some p" and "1 < rp_max_attempts p"
  shows "rs_success (get_retry_stats rm') = 1"
    and "submit (sj_template sj) m = (None, m') \<Longrightarrow>
         rs_total (get_retry_stats (fst (snd (execute_retry False later submit sj rm' m)))) = 0"
proof -
  obtain a where a: "a = next_attempt now p err (fresh_attempt sj p)"
    "rm_attempts rm' = [(sj_id sj, a)]"
    using schedule_retryD [OF assms(1)] assms(2) by (auto simp: new_retry_manager_def)
  have "wrap64 1 = 1" by (simp add: wrap64_id in64_def)
  then show "rs_success (get_retry_stats rm') = 1"
    using assms(3) by (simp add: get_retry_stats_def Let_def a next_attempt_def fresh_attempt_def)
  show "rs_total (get_retry_stats (fst (snd (execute_retry False later submit sj rm' m)))) = 0"
    if "submit (sj_template sj) m = (None, m')"
    using that by (simp add: execute_retry_def clear_retry_def get_retry_stats_def Let_def a(2))
qed

text \<open>
  The statistics call a retry that is still waiting a success.  After the first retry of a
  job has been scheduled under a policy with more attempts, \<open>SuccessRetries\<close> is one although no
  retry has run; and once the executor accepts the retry nothing is counted any more.
\<close>

theorem waiting_retry_counted_as_success:
  assumes "schedule_retry now sj err new_retry_manager = Some (rm', delay)"
    and "job_policy sj = Some p" and "1 < rp_max_attempts p"
    and "submit (sj_template sj) m = (None, m')"
  shows "rs_success (get_retry_stats rm') = 1
     \<and> rs_total (get_retry_stats (fst (snd (execute_retry False later submit sj rm' m)))) = 0"
  using waiting_retry_counted_as_success_parts(1) [OF assms(1-3)]
    waiting_retry_counted_as_success_parts(2) [OF assms(1-3), of submit m m' later, OF assms(4)] by simp

theorem waiting_retry_counted_as_success_witness:
  "\<exists>rm' delay. schedule_retry 7 (nightly (Some (minute_policy 3))) ''timeout'' new_retry_manager =
       Some (rm', delay) \<and> rs_success (get_retry_stats rm') = 1"
proof -
  have "should_retry new_retry_manager (nightly (Some (minute_policy 3))) ''timeout''"
    by (simp add: should_retry_iff)
  then obtain rm' delay where
    s: "schedule_retry 7 (nightly (Some (minute_policy 3))) ''timeout'' new_retry_manager = Some (rm', delay)"
    using schedule_retry_is_some by fast
  show ?thesis
    using s waiting_retry_counted_as_success [OF s, of "minute_policy 3" "\<lambda>d m. (None, m)" "()" "()"]
    by simp
qed

section \<open>Retries on a real executor\<close>

text \<open>
  The executor of a submission contract, as the retry manager sees it: only the error text is
  kept.  \<open>jm_error_string\<close> is the text of the manager's errors.
\<close>

definition jm_error_string :: "(job_status \<Rightarrow> string) \<Rightarrow> jm_error \<Rightarrow> string" where
  "jm_error_string st e =
     (case e of
        JobAlreadyExists k \<Rightarrow> ''job with ID '' @ k @ '' already exists''
      | JobNotFound k \<Rightarrow> ''job not found: '' @ k
      | CannotCancel k s \<Rightarrow> ''job '' @ k @ '' cannot be cancelled (status: '' @ st s @ '')'')"

definition executor_of ::
  "(jm_error \<Rightarrow> string) \<Rightarrow> (job_definition \<Rightarrow> 'm \<Rightarrow> jm_error + (string \<times> 'm))
   \<Rightarrow> job_definition \<Rightarrow> 'm \<Rightarrow> string option \<times> 'm" where
  "executor_of text submit d m =
     (case submit d m of Inl e \<Rightarrow> (Some (text e), m) | Inr (k, m') \<Rightarrow> (None, m'))"

context job_executor
begin

lemma executor_refuses:
  assumes "jd_id d \<noteq> []" and "find m (jd_id d) \<noteq> None"
  shows "\<exists>err. executor_of text (submit now uuid) d m = (Some err, m)"
proof (cases "submit now uuid d m")
  case (Inl e)
  then show ?thesis by (simp add: executor_of_def)
next
  case (Inr r)
  obtain k m' where "r = (k, m')" by fastforce
  then show ?thesis using Inr assms submit_ok [of now uuid d m k m'] by auto
qed

text \<open>With a taken identifier in the template the whole chain is refused.\<close>

lemma retries_of_taken_id_refused:
  assumes "attempts_ok rm" and "policy_ok sj" and "job_policy sj = Some p" and "rp_retry_on p = []"
    and "jd_id (sj_template sj) \<noteq> []" and "find m (jd_id (sj_template sj)) \<noteq> None"
    and "retries_left rm sj < n"
  shows "\<exists>ds rm'. retry_chain n (\<lambda>i. False) (\<lambda>i rm. rm) t (executor_of text (submit now uuid)) sj rm m = (ds, True, rm', m)
           \<and> length ds = retries_left rm sj"
  using assms(1,7)
proof (induction n arbitrary: t rm)
  case (Suc n)
  obtain err where err: "executor_of text (submit now uuid) (sj_template sj) m = (Some err, m)"
    using executor_refuses [OF assms(5,6)] by blast
  show ?case
  proof (cases "should_retry rm sj err")
    case False
    then have "retries_left rm sj = 0"
      using assms(3,4) by (simp add: should_retry_iff retries_left_def)
    then show ?thesis using False err by (simp add: execute_retry_def)
  next
    case True
    then obtain rm1 delay where s: "schedule_retry t sj err rm = Some (rm1, delay)"
      using schedule_retry_is_some by fast
    have e: "execute_retry False t (executor_of text (submit now uuid)) sj rm m = (Some delay, rm1, m)"
      using True s err by (simp add: execute_retry_def)
    have l: "attempts_ok rm1" "Suc (retries_left rm1 sj) = retries_left rm sj"
      using execute_retry_less [OF Suc.prems(1) assms(2) e] by blast+
    then obtain ds rm' where
      "retry_chain n (\<lambda>i. False) (\<lambda>i rm. rm) (t + max 0 delay) (executor_of text (submit now uuid)) sj rm1 m = (ds, True, rm', m)"
      "length ds = retries_left rm1 sj"
      using Suc.IH [of rm1 "t + max 0 delay"] Suc.prems(2) by auto
    then show ?thesis using e l(2) by simp
  qed
qed simp

end

text \<open>
  A scheduled job whose template carries an identifier the job manager already knows cannot
  be retried: every attempt the policy allows is used up on refused submissions, and the job
  manager is left as it was.
\<close>

theorem template_id_defeats_retries:
  assumes "attempts_ok rm" and "policy_ok sj" and "job_policy sj = Some p" and "rp_retry_on p = []"
    and "jd_id (sj_template sj) \<noteq> []" and "find_job m (jd_id (sj_template sj)) \<noteq> None"
  shows "\<exists>ds rm'. retry_chain (Suc (retries_left rm sj)) (\<lambda>i. False) (\<lambda>i rm. rm) t
             (executor_of text (submit_job now uuid)) sj rm m = (ds, True, rm', m)
           \<and> length ds = retries_left rm sj"
  by (rule jm.retries_of_taken_id_refused [OF assms lessI])

theorem template_id_defeats_retries_witness:
  "\<exists>ds rm'. retry_chain 4 (\<lambda>i. False) (\<lambda>i rm. rm) 0 (executor_of (jm_error_string (\<lambda>s. []))
        (submit_job 0 ''u'')) (nightly (Some (minute_policy 3))) new_retry_manager
        (put_job ''t1'' (new_job 0 zero_job_definition) (new_manager 0 [])) =
        (ds, True, rm', put_job ''t1'' (new_job 0 zero_job_definition) (new_manager 0 []))
      \<and> length ds = 3"
proof -
  have "retries_left new_retry_manager (nightly (Some (minute_policy 3))) = 3"
    by (simp add: retries_left_def)
  then show ?thesis
    using template_id_defeats_retries [of new_retry_manager "nightly (Some (minute_policy 3))"
        "minute_policy 3" "put_job ''t1'' (new_job 0 zero_job_definition) (new_manager 0 [])" 0
        "jm_error_string (\<lambda>s. [])" 0 "''u''"] nightly_policy_ok [of 3]
    by (simp add: in64_def numeral_eq_Suc)
qed

end
