(* ===== verification/Time_Window.thy ===== *)
theory Time_Window
  imports Models
begin

text \<open>
  Time windows: \<open>daemon/scheduler/timewindow.go\<close> and \<open>IsInTimeWindow\<close> of
  \<open>daemon/scheduler/advanced.go\<close>, with the part of Go's \<open>time\<close> package they use.  A location is
  its offset from UTC at every instant; which locations exist is the zone database, an argument
  (\<open>zones\<close>).  An instant counts nanoseconds from the first of January of the year one, a Monday.
\<close>

section \<open>Civil time\<close>

type_synonym location = "instant \<Rightarrow> duration"
type_synonym zone_db = "string \<Rightarrow> location option"

definition day :: duration where "day = 24 * hour"

lemma day_value: "day = 86400000000000"
  by (simp add: day_def time_units)

lemma day_pos [simp]: "0 < day" "0 \<le> day"
  by (simp_all add: day_value)

text \<open>The local day number and the time of day at an instant.\<close>

definition local_day :: "location \<Rightarrow> instant \<Rightarrow> int" where
  "local_day loc t = (t + loc t) div day"

definition time_of_day :: "location \<Rightarrow> instant \<Rightarrow> duration" where
  "time_of_day loc t = (t + loc t) mod day"

definition weekday_name :: "int \<Rightarrow> string" where
  "weekday_name d = [''Mon'', ''Tue'', ''Wed'', ''Thu'', ''Fri'', ''Sat'', ''Sun''] ! nat (d mod 7)"

text \<open>
  \<open>time.Date\<close>: the instant of a local day and time.  The offset is looked up as if the local
  time were UTC, and once more at the instant this gives.
\<close>

definition date_in :: "location \<Rightarrow> int \<Rightarrow> duration \<Rightarrow> instant" where
  "date_in loc d tod =
     (let l = d * day + tod
      in if loc l = 0 then l else l - loc (l - loc l))"

text \<open>\<open>time.Parse("15:04", s)\<close>: one or two digits for the hour, two for the minute.\<close>

definition is_digit :: "char \<Rightarrow> bool" where
  "is_digit c \<longleftrightarrow> 48 \<le> (of_char c :: nat) \<and> (of_char c :: nat) \<le> 57"

definition digit :: "char \<Rightarrow> int" where
  "digit c = int (of_char c) - 48"

fun get_num :: "bool \<Rightarrow> string \<Rightarrow> (int \<times> string) option" where
  "get_num fixed [] = None"
| "get_num fixed [c] = (if is_digit c \<and> \<not> fixed then Some (digit c, []) else None)"
| "get_num fixed (c # e # s) =
     (if \<not> is_digit c then None
      else if \<not> is_digit e then (if fixed then None else Some (digit c, e # s))
      else Some (10 * digit c + digit e, s))"

definition parse_hhmm :: "string \<Rightarrow> duration option" where
  "parse_hhmm s =
     (case get_num False s of
        None \<Rightarrow> None
      | Some (h, s1) \<Rightarrow>
          if 24 \<le> h then None
          else (case s1 of
                  [] \<Rightarrow> None
                | c # s2 \<Rightarrow>
                    if c \<noteq> CHR '':'' then None
                    else (case get_num True s2 of
                            None \<Rightarrow> None
                          | Some (m, s3) \<Rightarrow>
                              if 60 \<le> m \<or> s3 \<noteq> [] then None
                              else Some (h * hour + m * minute))))"

section \<open>The time window manager\<close>

datatype window_error =
    InvalidTimezone string
  | InvalidStart string
  | InvalidEnd string
  | NoDays
  | InvalidDay string

definition check_window :: "zone_db \<Rightarrow> time_window \<Rightarrow> instant \<Rightarrow> window_error + bool" where
  "check_window zones w t =
     (case zones (tw_zone w) of
        None \<Rightarrow> Inl (InvalidTimezone (tw_zone w))
      | Some loc \<Rightarrow>
          if weekday_name (local_day loc t) \<notin> set (tw_days w) then Inr False
          else (case parse_hhmm (tw_start w) of
                  None \<Rightarrow> Inl (InvalidStart (tw_start w))
                | Some s \<Rightarrow>
                    (case parse_hhmm (tw_end w) of
                       None \<Rightarrow> Inl (InvalidEnd (tw_end w))
                     | Some e \<Rightarrow>
                         let start = date_in loc (local_day loc t) s;
                             fin = date_in loc (local_day loc t) e
                         in if fin < start
                            then (if start < t then Inr True
                                  else Inr (start \<le> t \<and> t < fin + 24 * hour))
                            else Inr (start \<le> t \<and> t < fin))))"

text \<open>\<open>IsInTimeWindow\<close> of \<open>advanced.go\<close>.\<close>

definition adv_is_in_time_window :: "zone_db \<Rightarrow> time_window \<Rightarrow> instant \<Rightarrow> window_error + bool" where
  "adv_is_in_time_window zones w t =
     (case zones (tw_zone w) of
        None \<Rightarrow> Inl (InvalidTimezone (tw_zone w))
      | Some loc \<Rightarrow>
          if weekday_name (local_day loc t) \<notin> set (tw_days w) then Inr False
          else (case parse_hhmm (tw_start w) of
                  None \<Rightarrow> Inl (InvalidStart (tw_start w))
                | Some s \<Rightarrow>
                    (case parse_hhmm (tw_end w) of
                       None \<Rightarrow> Inl (InvalidEnd (tw_end w))
                     | Some e \<Rightarrow> Inr (date_in loc (local_day loc t) s < t
                                    \<and> t < date_in loc (local_day loc t) e))))"

definition default_time_window :: time_window where
  "default_time_window =
     \<lparr>tw_start = ''09:00'', tw_end = ''17:00'',
      tw_days = [''Mon'', ''Tue'', ''Wed'', ''Thu'', ''Fri''], tw_zone = ''UTC''\<rparr>"

text \<open>The loop of \<open>calculateNextWindowStart\<close> from \<open>ahead\<close> days on, with \<open>n\<close> days left to try.\<close>

fun next_start_from :: "location \<Rightarrow> string list \<Rightarrow> duration \<Rightarrow> instant \<Rightarrow> int \<Rightarrow> nat \<Rightarrow> instant option" where
  "next_start_from loc days s from ahead 0 = None"
| "next_start_from loc days s from ahead (Suc n) =
     (let check = from + ahead * 24 * hour;
          start = date_in loc (local_day loc check) s
      in if weekday_name (local_day loc check) \<in> set days \<and> \<not> (ahead = 0 \<and> start < from)
         then Some start
         else next_start_from loc days s from (ahead + 1) n)"

definition calculate_next_window_start :: "zone_db \<Rightarrow> time_window \<Rightarrow> instant \<Rightarrow> instant option" where
  "calculate_next_window_start zones w from =
     (case zones (tw_zone w) of
        None \<Rightarrow> None
      | Some loc \<Rightarrow>
          (case parse_hhmm (tw_start w) of
             None \<Rightarrow> None
           | Some s \<Rightarrow> next_start_from loc (tw_days w) s from 0 7))"

fun earlier :: "instant option \<Rightarrow> instant option \<Rightarrow> instant option" where
  "earlier best None = best"
| "earlier None (Some t) = Some t"
| "earlier (Some b) (Some t) = (if t < b then Some t else Some b)"

definition find_next_window :: "zone_db \<Rightarrow> time_window list \<Rightarrow> instant \<Rightarrow> instant option" where
  "find_next_window zones ws from =
     foldl (\<lambda>best w. earlier best (calculate_next_window_start zones w from)) None ws"

datatype window_reason = NoReason | NextWindowAt instant | OutsideAllWindows

definition job_windows :: "scheduled_job \<Rightarrow> time_window list" where
  "job_windows sj = (case sj_advanced sj of None \<Rightarrow> [] | Some c \<Rightarrow> ac_windows c)"

definition in_window :: "zone_db \<Rightarrow> instant \<Rightarrow> time_window \<Rightarrow> bool" where
  "in_window zones now w = (check_window zones w now = Inr True)"

definition is_in_time_window :: "zone_db \<Rightarrow> instant \<Rightarrow> scheduled_job \<Rightarrow> bool \<times> window_reason" where
  "is_in_time_window zones now sj =
     (if job_windows sj = [] then (True, NoReason)
      else if list_ex (in_window zones now) (job_windows sj) then (True, NoReason)
      else (case find_next_window zones (job_windows sj) now of
              Some t \<Rightarrow> (False, NextWindowAt t)
            | None \<Rightarrow> (False, OutsideAllWindows)))"

text \<open>\<open>WaitForTimeWindow\<close>: the first of the ticks at which the job is in a window.\<close>

fun wait_for_time_window :: "zone_db \<Rightarrow> scheduled_job \<Rightarrow> instant list \<Rightarrow> instant option" where
  "wait_for_time_window zones sj [] = None"
| "wait_for_time_window zones sj (now # ticks) =
     (if fst (is_in_time_window zones now sj) then Some now
      else wait_for_time_window zones sj ticks)"

record window_status =
  ws_index :: nat
  ws_window :: time_window
  ws_active :: bool
  ws_next :: instant
  ws_error :: "window_error option"

datatype window_message =
    NoWindowsConfigured
  | WithinWindow
  | NextWindow instant
  | NoUpcomingWindows

record time_window_status =
  ts_job :: string
  ts_name :: string
  ts_in_window :: bool
  ts_message :: window_message
  ts_next :: instant
  ts_windows :: "window_status list"

definition window_status_of :: "zone_db \<Rightarrow> instant \<Rightarrow> nat \<Rightarrow> time_window \<Rightarrow> window_status" where
  "window_status_of zones now i w =
     (let ws = \<lparr>ws_index = i, ws_window = w, ws_active = False, ws_next = 0, ws_error = None\<rparr>
      in case check_window zones w now of
           Inl e \<Rightarrow> ws\<lparr>ws_error := Some e\<rparr>
         | Inr b \<Rightarrow> ws\<lparr>ws_active := b,
                       ws_next := (case calculate_next_window_start zones w now of
                                     None \<Rightarrow> 0 | Some t \<Rightarrow> t)\<rparr>)"

fun window_statuses :: "zone_db \<Rightarrow> instant \<Rightarrow> nat \<Rightarrow> time_window list \<Rightarrow> window_status list" where
  "window_statuses zones now i [] = []"
| "window_statuses zones now i (w # ws) =
     window_status_of zones now i w # window_statuses zones now (Suc i) ws"

definition get_time_window_status :: "zone_db \<Rightarrow> instant \<Rightarrow> scheduled_job \<Rightarrow> time_window_status" where
  "get_time_window_status zones now sj =
     (let st = \<lparr>ts_job = sj_id sj, ts_name = sj_name sj, ts_in_window = False,
                ts_message = NoUpcomingWindows, ts_next = 0, ts_windows = []\<rparr>
      in if job_windows sj = []
         then st\<lparr>ts_in_window := True, ts_message := NoWindowsConfigured\<rparr>
         else let wss = window_statuses zones now 0 (job_windows sj);
                  inside = list_ex ws_active wss;
                  st = st\<lparr>ts_windows := wss, ts_in_window := inside\<rparr>
              in if inside then st\<lparr>ts_message := WithinWindow\<rparr>
                 else (case find_next_window zones (job_windows sj) now of
                         Some t \<Rightarrow> st\<lparr>ts_message := NextWindow t, ts_next := t\<rparr>
                       | None \<Rightarrow> st))"

definition valid_days :: "string list" where
  "valid_days = [''Mon'', ''Tue'', ''Wed'', ''Thu'', ''Fri'', ''Sat'', ''Sun'']"

definition validate_time_window :: "zone_db \<Rightarrow> time_window \<Rightarrow> window_error option" where
  "validate_time_window zones w =
     (if zones (tw_zone w) = None then Some (InvalidTimezone (tw_zone w))
      else if parse_hhmm (tw_start w) = None then Some (InvalidStart (tw_start w))
      else if parse_hhmm (tw_end w) = None then Some (InvalidEnd (tw_end w))
      else if tw_days w = [] then Some NoDays
      else (case List.find (\<lambda>d. d \<notin> set valid_days) (tw_days w) of
              Some d \<Rightarrow> Some (InvalidDay d)
            | None \<Rightarrow> None))"

section \<open>Lemmas on civil time\<close>

lemma digit_bounds: "is_digit c \<Longrightarrow> 0 \<le> digit c \<and> digit c \<le> 9"
  by (simp add: is_digit_def digit_def)

lemma get_num_nonneg: "get_num fixed s = Some (n, r) \<Longrightarrow> 0 \<le> n"
  by (induction fixed s rule: get_num.induct) (auto split: if_splits dest!: digit_bounds)

lemma parse_hhmm_bounds:
  assumes "parse_hhmm s = Some x"
  shows "0 \<le> x" and "x < day"
proof -
  obtain h m where "0 \<le> h" "h < 24" "0 \<le> m" "m < 60" "x = h * hour + m * minute"
    using assms
    by (auto simp: parse_hhmm_def split: option.splits if_splits list.splits dest!: get_num_nonneg)
  then show "0 \<le> x" and "x < day"
    by (simp_all add: day_value time_units)
qed

text \<open>In a location with a fixed offset a local day and time determine the instant.\<close>

definition fixed_zone :: "duration \<Rightarrow> location" where
  "fixed_zone off t = off"

lemma date_in_fixed: "date_in (fixed_zone off) d tod = d * day + tod - off"
  by (simp add: date_in_def fixed_zone_def Let_def)

lemma instant_split: "t = local_day (fixed_zone off) t * day + time_of_day (fixed_zone off) t - off"
  by (simp add: local_day_def time_of_day_def fixed_zone_def)

lemma time_of_day_bounds: "0 \<le> time_of_day loc t" "time_of_day loc t < day"
  by (simp_all add: time_of_day_def)

lemma date_in_le:
  "date_in (fixed_zone off) (local_day (fixed_zone off) t) s \<le> t \<longleftrightarrow> s \<le> time_of_day (fixed_zone off) t"
  "date_in (fixed_zone off) (local_day (fixed_zone off) t) s < t \<longleftrightarrow> s < time_of_day (fixed_zone off) t"
  "t < date_in (fixed_zone off) (local_day (fixed_zone off) t) s \<longleftrightarrow> time_of_day (fixed_zone off) t < s"
  using instant_split [of t off] unfolding date_in_fixed by linarith+

lemma local_date:
  assumes "0 \<le> s" and "s < day"
  shows "local_day (fixed_zone off) (d * day + s - off) = d"
    and "time_of_day (fixed_zone off) (d * day + s - off) = s"
  using assms by (simp_all add: local_day_def time_of_day_def fixed_zone_def)

lemma local_day_ahead:
  "local_day (fixed_zone off) (t + a * 24 * hour) = local_day (fixed_zone off) t + a"
proof -
  have eq: "t + a * 24 * hour + off = t + off + a * day" by (simp add: day_def)
  show ?thesis unfolding local_day_def fixed_zone_def eq by (simp add: day_value)
qed

lemma check_window_plus_day:
  "0 \<le> e \<Longrightarrow> e < s \<Longrightarrow> s < day \<Longrightarrow>
   t < date_in (fixed_zone off) (local_day (fixed_zone off) t) e + 24 * hour \<longleftrightarrow>
   time_of_day (fixed_zone off) t < e + day"
  using instant_split [of t off] day_def unfolding date_in_fixed by linarith

section \<open>When a window is open\<close>

lemma check_window_fixed:
  assumes "zones (tw_zone w) = Some (fixed_zone off)"
    and "parse_hhmm (tw_start w) = Some s" and "parse_hhmm (tw_end w) = Some e"
  shows "check_window zones w t =
     Inr (weekday_name (local_day (fixed_zone off) t) \<in> set (tw_days w)
          \<and> s \<le> time_of_day (fixed_zone off) t
          \<and> (time_of_day (fixed_zone off) t < e \<or> e < s))"
proof -
  have b: "0 \<le> e" "s < day" using parse_hhmm_bounds assms(2,3) by blast+
  have order: "date_in (fixed_zone off) d e < date_in (fixed_zone off) d s \<longleftrightarrow> e < s" for d
    by (simp add: date_in_fixed)
  show ?thesis
    using b time_of_day_bounds [of "fixed_zone off" t] check_window_plus_day [of e s t off]
    by (auto simp: check_window_def assms Let_def order date_in_le)
qed

text \<open>
  In a location with a fixed offset, a window from \<open>s\<close> to \<open>e\<close> is open exactly on the listed
  weekdays, from \<open>s\<close> (included) to \<open>e\<close> (excluded) when \<open>s \<le> e\<close>, and from \<open>s\<close> to midnight when it
  is an overnight window.  The morning hours of an overnight window, before its end, are
  never inside it, on whichever day.
\<close>

theorem window_open_when:
  assumes "zones (tw_zone w) = Some (fixed_zone off)"
    and "parse_hhmm (tw_start w) = Some s" and "parse_hhmm (tw_end w) = Some e"
  shows "check_window zones w t =
     Inr (weekday_name (local_day (fixed_zone off) t) \<in> set (tw_days w)
          \<and> s \<le> time_of_day (fixed_zone off) t
          \<and> (if e < s then True else time_of_day (fixed_zone off) t < e))"
  by (simp add: check_window_fixed [of zones w off s e, OF assms])

definition utc_zones :: zone_db where
  "utc_zones z = (if z = ''UTC'' then Some (fixed_zone 0) else None)"

definition night_window :: time_window where
  "night_window = \<lparr>tw_start = ''22:00'', tw_end = ''06:00'', tw_days = [''Mon''], tw_zone = ''UTC''\<rparr>"

lemma night_simps [simp]:
  "tw_zone night_window = ''UTC''" "tw_days night_window = [''Mon'']"
  "parse_hhmm (tw_start night_window) = Some (22 * hour)"
  "parse_hhmm (tw_end night_window) = Some (6 * hour)"
  "utc_zones ''UTC'' = Some (fixed_zone 0)"
  by (simp_all add: night_window_def utc_zones_def) code_simp+

theorem window_open_when_witness:
  "check_window utc_zones night_window (23 * hour) = Inr True
   \<and> check_window utc_zones night_window (3 * hour) = Inr False"
  using window_open_when [of utc_zones night_window 0 "22 * hour" "6 * hour" "23 * hour"]
    window_open_when [of utc_zones night_window 0 "22 * hour" "6 * hour" "3 * hour"]
  by (simp add: local_day_def time_of_day_def fixed_zone_def weekday_name_def day_value time_units)

text \<open>
  The check of \<open>advanced.go\<close> differs from that of the manager at both ends of this: the
  start itself is outside, and an overnight window is never open.
\<close>

theorem advanced_window_is_open_when:
  assumes "zones (tw_zone w) = Some (fixed_zone off)"
    and "parse_hhmm (tw_start w) = Some s" and "parse_hhmm (tw_end w) = Some e"
  shows "adv_is_in_time_window zones w t =
     Inr (weekday_name (local_day (fixed_zone off) t) \<in> set (tw_days w)
          \<and> s < time_of_day (fixed_zone off) t \<and> time_of_day (fixed_zone off) t < e)"
    and "e < s \<Longrightarrow> adv_is_in_time_window zones w t = Inr False"
    and "s < e \<Longrightarrow> weekday_name (local_day (fixed_zone off) t) \<in> set (tw_days w) \<Longrightarrow>
         time_of_day (fixed_zone off) t = s \<Longrightarrow>
         check_window zones w t = Inr True \<and> adv_is_in_time_window zones w t = Inr False"
proof -
  show adv: "adv_is_in_time_window zones w t =
     Inr (weekday_name (local_day (fixed_zone off) t) \<in> set (tw_days w)
          \<and> s < time_of_day (fixed_zone off) t \<and> time_of_day (fixed_zone off) t < e)"
    by (auto simp: adv_is_in_time_window_def assms date_in_le)
  show "e < s \<Longrightarrow> adv_is_in_time_window zones w t = Inr False"
    unfolding adv by simp
  show "s < e \<Longrightarrow> weekday_name (local_day (fixed_zone off) t) \<in> set (tw_days w) \<Longrightarrow>
         time_of_day (fixed_zone off) t = s \<Longrightarrow>
         check_window zones w t = Inr True \<and> adv_is_in_time_window zones w t = Inr False"
    unfolding adv check_window_fixed [of zones w off s e, OF assms] by simp
qed

theorem advanced_window_is_open_when_witness:
  "adv_is_in_time_window utc_zones night_window (23 * hour) = Inr False"
  using advanced_window_is_open_when(2) [of utc_zones night_window 0 "22 * hour" "6 * hour"]
  by simp

section \<open>The next start\<close>

abbreviation start_at :: "duration \<Rightarrow> instant \<Rightarrow> duration \<Rightarrow> int \<Rightarrow> instant" where
  "start_at off from s a \<equiv> (local_day (fixed_zone off) from + a) * day + s - off"

definition start_ok :: "duration \<Rightarrow> string list \<Rightarrow> duration \<Rightarrow> instant \<Rightarrow> int \<Rightarrow> bool" where
  "start_ok off days s from a \<longleftrightarrow>
     weekday_name (local_day (fixed_zone off) from + a) \<in> set days
     \<and> (a = 0 \<longrightarrow> from \<le> start_at off from s a)"

lemma next_start_from_step:
  "next_start_from (fixed_zone off) days s from a (Suc n) =
     (if start_ok off days s from a then Some (start_at off from s a)
      else next_start_from (fixed_zone off) days s from (a + 1) n)"
  by (auto simp: Let_def local_day_ahead date_in_fixed start_ok_def not_less)

lemma next_start_from_Some:
  "next_start_from (fixed_zone off) days s from ahead n = Some t \<Longrightarrow>
   \<exists>a. ahead \<le> a \<and> a < ahead + int n \<and> t = start_at off from s a \<and> start_ok off days s from a
     \<and> (\<forall>b. ahead \<le> b \<longrightarrow> b < a \<longrightarrow> \<not> start_ok off days s from b)"
proof (induction n arbitrary: ahead)
  case (Suc n)
  show ?case
  proof (cases "start_ok off days s from ahead")
    case True
    then show ?thesis using Suc.prems
      unfolding next_start_from_step by (intro exI [of _ ahead]) auto
  next
    case False
    then obtain a where a: "ahead + 1 \<le> a" "a < ahead + 1 + int n" "t = start_at off from s a"
      "start_ok off days s from a"
      "\<forall>b. ahead + 1 \<le> b \<longrightarrow> b < a \<longrightarrow> \<not> start_ok off days s from b"
      using Suc.IH [of "ahead + 1"] Suc.prems unfolding next_start_from_step by auto
    have "\<not> start_ok off days s from b" if "ahead \<le> b" "b < a" for b
      using that False a(5) by (cases "b = ahead") auto
    then show ?thesis using a by (intro exI [of _ a]) auto
  qed
qed simp

lemma next_start_from_None:
  "next_start_from (fixed_zone off) days s from ahead n = None \<longleftrightarrow>
   (\<forall>a. ahead \<le> a \<longrightarrow> a < ahead + int n \<longrightarrow> \<not> start_ok off days s from a)"
proof (induction n arbitrary: ahead)
  case (Suc n)
  show ?case
  proof (cases "start_ok off days s from ahead")
    case True
    then show ?thesis unfolding next_start_from_step by auto
  next
    case False
    have "(ahead \<le> a \<longrightarrow> a < ahead + int (Suc n) \<longrightarrow> \<not> start_ok off days s from a) \<longleftrightarrow>
        (ahead + 1 \<le> a \<longrightarrow> a < ahead + 1 + int n \<longrightarrow> \<not> start_ok off days s from a)" for a
      using False by (cases "a = ahead") auto
    then show ?thesis unfolding next_start_from_step using Suc.IH [of "ahead + 1"] False by simp
  qed
qed simp

lemma next_start_is_first_parts:
  assumes "zones (tw_zone w) = Some (fixed_zone off)"
    and "parse_hhmm (tw_start w) = Some s" and "parse_hhmm (tw_end w) = Some e" and "s \<noteq> e"
    and "calculate_next_window_start zones w from = Some t"
  shows "from \<le> t" and "check_window zones w t = Inr True"
    and "\<And>u. from \<le> u \<Longrightarrow> u < t \<Longrightarrow> weekday_name (local_day (fixed_zone off) u) \<in> set (tw_days w) \<Longrightarrow>
         time_of_day (fixed_zone off) u \<noteq> s"
proof -
  let ?z = "fixed_zone off"
  have s: "0 \<le> s" "s < day" using parse_hhmm_bounds assms(2) by blast+
  have "next_start_from ?z (tw_days w) s from 0 7 = Some t"
    using assms by (simp add: calculate_next_window_start_def)
  then obtain a where a: "0 \<le> a" "t = start_at off from s a" "start_ok off (tw_days w) s from a"
    "\<forall>b. 0 \<le> b \<longrightarrow> b < a \<longrightarrow> \<not> start_ok off (tw_days w) s from b"
    using next_start_from_Some [of off "tw_days w" s "from" 0 7 t] by auto
  have loc: "local_day ?z t = local_day ?z from + a" "time_of_day ?z t = s"
    unfolding a(2) using local_date [OF s] by blast+
  show "from \<le> t"
  proof (cases "a = 0")
    case True
    then show ?thesis using a(2,3) by (simp add: start_ok_def)
  next
    case False
    then have "(local_day ?z from + 1) * day \<le> (local_day ?z from + a) * day"
      using a(1) by (intro mult_right_mono) auto
    then show ?thesis
      using instant_split [of "from" off] time_of_day_bounds [of ?z "from"] s
      unfolding a(2) distrib_right [of _ 1] by linarith
  qed
  have days: "weekday_name (local_day ?z t) \<in> set (tw_days w)"
    using a(3) by (simp add: loc start_ok_def)
  show "check_window zones w t = Inr True"
    unfolding check_window_fixed [of zones w off s e, OF assms(1-3)] using days loc assms(4) by auto
  show "time_of_day ?z u \<noteq> s"
    if u: "from \<le> u" "u < t" "weekday_name (local_day ?z u) \<in> set (tw_days w)" for u
  proof
    assume us: "time_of_day ?z u = s"
    define b where "b = local_day ?z u - local_day ?z from"
    have ub: "u = start_at off from s b" using instant_split [of u off] us by (simp add: b_def)
    have "local_day ?z from \<le> local_day ?z u"
      using u(1) by (simp add: local_day_def fixed_zone_def zdiv_mono1)
    then have b0: "0 \<le> b" by (simp add: b_def)
    have "b < a"
    proof (rule ccontr)
      assume "\<not> b < a"
      then have "(local_day ?z from + a) * day \<le> (local_day ?z from + b) * day"
        by (intro mult_right_mono) auto
      then show False using u(2) ub a(2) by simp
    qed
    moreover have "start_ok off (tw_days w) s from b"
      unfolding start_ok_def
    proof (intro conjI impI)
      show "weekday_name (local_day ?z from + b) \<in> set (tw_days w)" using u(3) by (simp add: b_def)
      show "from \<le> start_at off from s b" using u(1) unfolding ub [symmetric] .
    qed
    ultimately show False using a(4) b0 by blast
  qed
qed

text \<open>
  A reported next start is right: in a location with a fixed offset it is not in the past,
  falls on a listed weekday at the start time, the window is open then, and no other instant
  from now until then is a start of the window.
\<close>

theorem next_start_is_first:
  assumes "zones (tw_zone w) = Some (fixed_zone off)"
    and "parse_hhmm (tw_start w) = Some s" and "parse_hhmm (tw_end w) = Some e" and "s \<noteq> e"
    and "calculate_next_window_start zones w from = Some t"
  shows "from \<le> t \<and> check_window zones w t = Inr True
     \<and> (\<forall>u. from \<le> u \<and> u < t \<and> weekday_name (local_day (fixed_zone off) u) \<in> set (tw_days w) \<longrightarrow>
            time_of_day (fixed_zone off) u \<noteq> s)"
  using next_start_is_first_parts [OF assms] by blast

theorem next_start_is_first_witness:
  "calculate_next_window_start utc_zones night_window (3 * hour) = Some (22 * hour)
   \<and> check_window utc_zones night_window (22 * hour) = Inr True"
proof -
  have c: "calculate_next_window_start utc_zones night_window (3 * hour) = Some (22 * hour)"
    by code_simp
  show ?thesis using c next_start_is_first [of utc_zones night_window 0 "22 * hour" "6 * hour"
      "3 * hour" "22 * hour"] by (simp add: time_units)
qed

lemma weekday_name_week:
  assumes "weekday_name d = weekday_name d'"
  shows "d mod 7 = d' mod 7"
proof -
  let ?names = "[''Mon'', ''Tue'', ''Wed'', ''Thu'', ''Fri'', ''Sat'', ''Sun'']"
  have "distinct ?names" "nat (d mod 7) < length ?names" "nat (d' mod 7) < length ?names"
    by (simp_all add: nat_less_iff)
  from nth_eq_iff_index_eq [OF this] have "nat (d mod 7) = nat (d' mod 7)"
    using assms by (simp only: weekday_name_def)
  then show ?thesis by (metis eq_nat_nat_iff pos_mod_sign zero_less_numeral)
qed

lemma other_weekday: "0 < a \<Longrightarrow> a < 7 \<Longrightarrow> (d + a) mod 7 \<noteq> d mod (7::int)"
  by presburger

text \<open>
  The search looks at today and the six days after it only.  A window on a single weekday
  whose start has passed today has no next start, although it opens again in a week.
\<close>

theorem weekly_window_has_no_next_start:
  assumes "zones (tw_zone w) = Some (fixed_zone off)" and "parse_hhmm (tw_start w) = Some s"
    and "tw_days w = [weekday_name (local_day (fixed_zone off) from)]"
    and "s < time_of_day (fixed_zone off) from"
  shows "calculate_next_window_start zones w from = None"
proof -
  have "\<not> start_ok off (tw_days w) s from a" if "0 \<le> a" "a < 7" for a
  proof (cases "a = 0")
    case True
    then show ?thesis using instant_split [of "from" off] assms(4) by (simp add: start_ok_def)
  next
    case False
    have "(local_day (fixed_zone off) from + a) mod 7 \<noteq> local_day (fixed_zone off) from mod 7"
      by (rule other_weekday) (use that False in simp_all)
    then have "weekday_name (local_day (fixed_zone off) from + a)
        \<noteq> weekday_name (local_day (fixed_zone off) from)"
      by (rule contrapos_nn) (rule weekday_name_week)
    then show ?thesis by (simp add: start_ok_def assms(3))
  qed
  then have "next_start_from (fixed_zone off) (tw_days w) s from 0 7 = None"
    by (subst next_start_from_None) simp
  then show ?thesis by (simp add: calculate_next_window_start_def assms(1,2))
qed

theorem weekly_window_has_no_next_start_witness:
  "calculate_next_window_start utc_zones night_window (23 * hour) = None"
  using weekly_window_has_no_next_start [of utc_zones night_window 0 "22 * hour" "23 * hour"]
  by (simp add: local_day_def time_of_day_def fixed_zone_def weekday_name_def day_value time_units)

section \<open>Status and validation\<close>

lemma ws_active_of: "ws_active (window_status_of zones now i w) \<longleftrightarrow> in_window zones now w"
  by (simp add: window_status_of_def in_window_def Let_def split: sum.split)

lemma statuses_active:
  "list_ex ws_active (window_statuses zones now i ws) \<longleftrightarrow> list_ex (in_window zones now) ws"
  by (induction ws arbitrary: i) (simp_all add: ws_active_of)

text \<open>
  The status report agrees with the decision: it says the job is inside exactly when
  \<open>IsInTimeWindow\<close> does, and otherwise announces the same next start, or none, and one entry per
  configured window.
\<close>

theorem status_agrees_with_decision:
  "ts_in_window (get_time_window_status zones now sj) = fst (is_in_time_window zones now sj)
   \<and> (snd (is_in_time_window zones now sj) =
        (case ts_message (get_time_window_status zones now sj) of
           NextWindow t \<Rightarrow> NextWindowAt t
         | NoUpcomingWindows \<Rightarrow> OutsideAllWindows
         | _ \<Rightarrow> NoReason))
   \<and> length (ts_windows (get_time_window_status zones now sj)) = length (job_windows sj)"
proof -
  have "length (window_statuses zones now i ws) = length ws" for i ws
    by (induction ws arbitrary: i) simp_all
  then show ?thesis
    by (simp add: get_time_window_status_def is_in_time_window_def Let_def statuses_active
        split: option.split)
qed

text \<open>
  A window that passes \<open>ValidateTimeWindow\<close> is never skipped: checking it gives no error at
  any time, in any location, and every one of its days is a weekday name.
\<close>

theorem validated_window_checks:
  assumes "validate_time_window zones w = None"
  shows "is_ok (check_window zones w t)" and "set (tw_days w) \<subseteq> set valid_days" and "tw_days w \<noteq> []"
  using assms
  by (auto simp: validate_time_window_def check_window_def Let_def find_None_iff
      split: if_splits option.splits)

theorem validated_window_checks_witness: "is_ok (check_window utc_zones night_window 0)"
proof -
  have "validate_time_window utc_zones night_window = None" by code_simp
  then show ?thesis by (rule validated_window_checks(1))
qed

end
