(* ===== verification/Adv_Queue.thy ===== *)
theory Adv_Queue
  imports Models
begin

text \<open>
  The conditions and the slot-limited priority queue of \<open>daemon/scheduler/advanced.go\<close>.  A
  condition's \<open>float64\<close> value is read through \<open>int(...)\<close> only, so it is kept as that integer.
\<close>

section \<open>Conditions\<close>

datatype cond_value = CondFloat int | CondOtherValue

record adv_condition =
  cv_type :: string
  cv_operator :: string
  cv_value :: cond_value

datatype cond_error =
    UnknownCondition string
  | InvalidValueType
  | UnsupportedOperator string

text \<open>\<open>hr\<close> is the hour of the current local time.\<close>

definition evaluate_time_of_day :: "int \<Rightarrow> adv_condition \<Rightarrow> cond_error + bool" where
  "evaluate_time_of_day hr c =
     (if cv_operator c = ''>''
      then (case cv_value c of CondFloat n \<Rightarrow> Inr (n < hr) | CondOtherValue \<Rightarrow> Inl InvalidValueType)
      else if cv_operator c = ''<''
      then (case cv_value c of CondFloat n \<Rightarrow> Inr (hr < n) | CondOtherValue \<Rightarrow> Inl InvalidValueType)
      else Inl (UnsupportedOperator (cv_operator c)))"

definition evaluate_disk_space :: "adv_condition \<Rightarrow> cond_error + bool" where
  "evaluate_disk_space c = Inr True"

definition evaluate_custom_condition :: "adv_condition \<Rightarrow> cond_error + bool" where
  "evaluate_custom_condition c = Inr True"

definition evaluate_condition :: "int \<Rightarrow> adv_condition \<Rightarrow> cond_error + bool" where
  "evaluate_condition hr c =
     (if cv_type c = ''time_of_day'' then evaluate_time_of_day hr c
      else if cv_type c = ''disk_space'' then evaluate_disk_space c
      else if cv_type c = ''custom'' then evaluate_custom_condition c
      else Inl (UnknownCondition (cv_type c)))"

section \<open>The queue\<close>

record queued_job =
  qd_job :: scheduled_job
  qd_config :: advanced_config
  qd_added :: instant
  qd_attempts :: int

text \<open>\<open>aq_running\<close> lists the keys of the map, without duplicates.\<close>

record adv_queue =
  aq_jobs :: "queued_job list"
  aq_running :: "string list"
  aq_slots :: int

definition new_job_queue :: "int \<Rightarrow> adv_queue" where
  "new_job_queue slots = \<lparr>aq_jobs = [], aq_running = [], aq_slots = slots\<rparr>"

abbreviation qd_priority :: "queued_job \<Rightarrow> int" where
  "qd_priority q \<equiv> ac_priority (qd_config q)"

text \<open>Insertion before the first entry of strictly lower priority, else at the end.\<close>

fun insert_queued :: "queued_job \<Rightarrow> queued_job list \<Rightarrow> queued_job list" where
  "insert_queued q [] = [q]"
| "insert_queued q (e # es) =
     (if qd_priority e < qd_priority q then q # e # es else e # insert_queued q es)"

definition queue_add :: "instant \<Rightarrow> scheduled_job \<Rightarrow> advanced_config \<Rightarrow> adv_queue \<Rightarrow> adv_queue" where
  "queue_add now sj c jq =
     jq\<lparr>aq_jobs := insert_queued \<lparr>qd_job = sj, qd_config = c, qd_added = now, qd_attempts = 0\<rparr>
                     (aq_jobs jq)\<rparr>"

definition queue_get_next :: "adv_queue \<Rightarrow> queued_job option \<times> adv_queue" where
  "queue_get_next jq =
     (case aq_jobs jq of
        [] \<Rightarrow> (None, jq)
      | q # qs \<Rightarrow>
          if aq_slots jq \<le> int (length (aq_running jq)) then (None, jq)
          else (Some q, jq\<lparr>aq_jobs := qs,
                          aq_running := List.insert (sj_id (qd_job q)) (aq_running jq)\<rparr>))"

definition queue_complete :: "string \<Rightarrow> adv_queue \<Rightarrow> adv_queue" where
  "queue_complete k jq = jq\<lparr>aq_running := remove1 k (aq_running jq)\<rparr>"

definition queue_len :: "adv_queue \<Rightarrow> int" where
  "queue_len jq = int (length (aq_jobs jq))"

definition queue_is_running :: "string \<Rightarrow> adv_queue \<Rightarrow> bool" where
  "queue_is_running k jq = (k \<in> set (aq_running jq))"

section \<open>Invariant\<close>

definition aq_inv :: "adv_queue \<Rightarrow> bool" where
  "aq_inv jq \<longleftrightarrow> sorted_wrt (\<lambda>a b. qd_priority b \<le> qd_priority a) (aq_jobs jq)
     \<and> distinct (aq_running jq) \<and> (0 \<le> aq_slots jq \<longrightarrow> int (length (aq_running jq)) \<le> aq_slots jq)"

lemma set_insert_queued [simp]: "set (insert_queued q es) = insert q (set es)"
  by (induction es) auto

lemma insert_queued_sorted:
  "sorted_wrt (\<lambda>a b. qd_priority b \<le> qd_priority a) es \<Longrightarrow>
   sorted_wrt (\<lambda>a b. qd_priority b \<le> qd_priority a) (insert_queued q es)"
  by (induction es) fastforce+

lemma insert_queued_split:
  "insert_queued q es =
     takeWhile (\<lambda>e. qd_priority q \<le> qd_priority e) es @ q #
     dropWhile (\<lambda>e. qd_priority q \<le> qd_priority e) es"
  by (induction es) auto

lemma insert_queued_behind_equals:
  "sorted_wrt (\<lambda>a b. qd_priority b \<le> qd_priority a) es \<Longrightarrow>
   filter (\<lambda>e. qd_priority e = p) (insert_queued q es) =
   filter (\<lambda>e. qd_priority e = p) es @ (if qd_priority q = p then [q] else [])"
proof (induction es)
  case (Cons e es)
  have "filter (\<lambda>x. qd_priority x = qd_priority q) (e # es) = []" if "qd_priority e < qd_priority q"
    using that Cons.prems by (auto simp: filter_empty_conv)
  then show ?case using Cons by auto
qed simp

text \<open>The actions of the queue's clients.\<close>

datatype aq_action =
    AqAdd instant scheduled_job advanced_config
  | AqGetNext
  | AqComplete string

primrec aq_apply :: "aq_action \<Rightarrow> adv_queue \<Rightarrow> adv_queue" where
  "aq_apply (AqAdd now sj c) jq = queue_add now sj c jq"
| "aq_apply AqGetNext jq = snd (queue_get_next jq)"
| "aq_apply (AqComplete k) jq = queue_complete k jq"

lemma aq_inv_new: "aq_inv (new_job_queue n)"
  by (simp add: aq_inv_def new_job_queue_def)

lemma aq_slots_apply [simp]: "aq_slots (aq_apply a jq) = aq_slots jq"
  by (cases a) (simp_all add: queue_add_def queue_get_next_def queue_complete_def split: list.split)

lemma aq_inv_apply:
  assumes "aq_inv jq"
  shows "aq_inv (aq_apply a jq)"
proof (cases a)
  case (AqAdd now sj c)
  then show ?thesis using assms by (simp add: aq_inv_def queue_add_def insert_queued_sorted)
next
  case AqGetNext
  then show ?thesis using assms
    by (auto simp: aq_inv_def queue_get_next_def List.insert_def split: list.splits)
next
  case (AqComplete k)
  have "length (remove1 k xs) \<le> length xs" for xs :: "string list"
    by (simp add: length_remove1)
  then show ?thesis using AqComplete assms
    by (auto simp: aq_inv_def queue_complete_def length_remove1)
qed

lemma aq_inv_run: "aq_inv jq \<Longrightarrow> aq_inv (fold aq_apply as jq)"
  by (induction as arbitrary: jq) (auto intro: aq_inv_apply)

lemma slot_queue_order_parts:
  assumes "jq = fold aq_apply as (new_job_queue n)" and "0 \<le> n"
  shows "int (length (aq_running jq)) \<le> n"
    and "\<And>q jq' e. queue_get_next jq = (Some q, jq') \<Longrightarrow> e \<in> set (aq_jobs jq) \<Longrightarrow>
           qd_priority e \<le> qd_priority q"
    and "\<And>p. filter (\<lambda>e. qd_priority e = p) (aq_jobs (queue_add now sj c jq)) =
           filter (\<lambda>e. qd_priority e = p) (aq_jobs jq)
           @ (if ac_priority c = p
              then [\<lparr>qd_job = sj, qd_config = c, qd_added = now, qd_attempts = 0\<rparr>] else [])"
proof -
  have inv: "aq_inv jq" unfolding assms(1) by (rule aq_inv_run [OF aq_inv_new])
  have "aq_slots (fold aq_apply as jq0) = aq_slots jq0" for jq0
    by (induction as arbitrary: jq0) simp_all
  then have "aq_slots jq = n" by (simp add: assms(1) new_job_queue_def)
  then show "int (length (aq_running jq)) \<le> n" using inv assms(2) by (simp add: aq_inv_def)
  show "qd_priority e \<le> qd_priority q"
    if "queue_get_next jq = (Some q, jq')" "e \<in> set (aq_jobs jq)" for q jq' e
    using that inv by (auto simp: queue_get_next_def aq_inv_def split: list.splits if_splits)
  show "filter (\<lambda>e. qd_priority e = p) (aq_jobs (queue_add now sj c jq)) =
           filter (\<lambda>e. qd_priority e = p) (aq_jobs jq)
           @ (if ac_priority c = p
              then [\<lparr>qd_job = sj, qd_config = c, qd_added = now, qd_attempts = 0\<rparr>] else [])" for p
    using inv insert_queued_behind_equals [of "aq_jobs jq" p] by (simp add: queue_add_def aq_inv_def)
qed

text \<open>
  After any sequence of additions, removals and completions the waiting jobs are ordered by
  falling priority and no more jobs are marked running than there are slots; the next job
  handed out has the highest priority of all that wait, and among equal priorities the one
  added first comes first.
\<close>

theorem slot_queue_order:
  assumes "jq = fold aq_apply as (new_job_queue n)" and "0 \<le> n"
  shows "int (length (aq_running jq)) \<le> n
     \<and> (\<forall>q jq' e. queue_get_next jq = (Some q, jq') \<and> e \<in> set (aq_jobs jq) \<longrightarrow>
            qd_priority e \<le> qd_priority q)
     \<and> (\<forall>p. filter (\<lambda>e. qd_priority e = p) (aq_jobs (queue_add now sj c jq)) =
            filter (\<lambda>e. qd_priority e = p) (aq_jobs jq)
            @ (if ac_priority c = p
               then [\<lparr>qd_job = sj, qd_config = c, qd_added = now, qd_attempts = 0\<rparr>] else []))"
  using slot_queue_order_parts [OF assms] by blast

definition plain_sj :: "string \<Rightarrow> scheduled_job" where
  "plain_sj k =
     \<lparr>sj_id = k, sj_name = k, sj_description = [], sj_schedule = ''@daily'',
      sj_template = zero_job_definition, sj_enabled = True, sj_created = 0, sj_updated = 0,
      sj_next_run = 0, sj_last_run = None, sj_run_count = 0, sj_tags = None, sj_advanced = None\<rparr>"

definition with_priority :: "int \<Rightarrow> advanced_config" where
  "with_priority p = zero_advanced_config\<lparr>ac_priority := p\<rparr>"

theorem slot_queue_order_witness:
  "int (length (aq_running (fold aq_apply
      [AqAdd 0 (plain_sj ''a'') (with_priority 1), AqAdd 1 (plain_sj ''b'') (with_priority 9),
       AqGetNext, AqGetNext] (new_job_queue 1)))) \<le> 1"
  using slot_queue_order [OF refl, of 1 "[AqAdd 0 (plain_sj ''a'') (with_priority 1),
      AqAdd 1 (plain_sj ''b'') (with_priority 9), AqGetNext, AqGetNext]"] by simp

end
