(* ===== verification/Job_Scheduler.thy ===== *)
theory Job_Scheduler
  imports Job_Manager
begin

text \<open>
  The scheduler of \<open>daemon/scheduler/scheduler.go\<close>.  The cron library is an argument
  (\<open>cron_lib\<close>) acting on a state of its own; \<open>cron_laws\<close> names what the scheduler relies on.
  Scheduled jobs are shared by reference between the scheduler's map, the closures handed to
  cron and the callers: a reference is a number and \<open>sc_heap\<close> holds the objects.  Errors of the
  schedule store are only logged by the code, so the store is the list of the calls made.
\<close>

section \<open>State\<close>

datatype cron_task = CronNoop | CronRun nat

record 'c cron_lib =
  cr_add :: "string \<Rightarrow> cron_task \<Rightarrow> 'c \<Rightarrow> string + (nat \<times> 'c)"
  cr_remove :: "nat \<Rightarrow> 'c \<Rightarrow> 'c"
  cr_next :: "nat \<Rightarrow> 'c \<Rightarrow> instant"

datatype store_call =
    SaveSchedule scheduled_job
  | UpdateSchedule scheduled_job
  | DeleteSchedule string

record 'c scheduler =
  sc_cron :: 'c
  sc_heap :: "nat \<Rightarrow> scheduled_job"
  sc_jobs :: "(string, nat) gomap"
  sc_entries :: "(string, nat) gomap"
  sc_store :: bool
  sc_calls :: "store_call list"

datatype sched_error =
    ScheduleNotFound string
  | InvalidCronSchedule string
  | FailedToSchedule string
  | FailedToReschedule string
  | FailedToEnable string
  | SubmitFailed jm_error

definition new_scheduler :: "'c \<Rightarrow> (nat \<Rightarrow> scheduled_job) \<Rightarrow> 'c scheduler" where
  "new_scheduler c heap =
     \<lparr>sc_cron = c, sc_heap = heap, sc_jobs = [], sc_entries = [], sc_store = False, sc_calls = []\<rparr>"

definition set_store :: "bool \<Rightarrow> 'c scheduler \<Rightarrow> 'c scheduler" where
  "set_store b s = s\<lparr>sc_store := b\<rparr>"

definition set_object :: "nat \<Rightarrow> scheduled_job \<Rightarrow> 'c scheduler \<Rightarrow> 'c scheduler" where
  "set_object p sj s = s\<lparr>sc_heap := (sc_heap s)(p := sj)\<rparr>"

definition call_store :: "store_call \<Rightarrow> 'c scheduler \<Rightarrow> 'c scheduler" where
  "call_store call s = (if sc_store s then s\<lparr>sc_calls := sc_calls s @ [call]\<rparr> else s)"

text \<open>
  Adding the object \<open>p\<close> to cron: \<open>AddFunc\<close> with its closure, the entry recorded and the next
  run read back.
\<close>

definition schedule_object ::
  "'c cron_lib \<Rightarrow> nat \<Rightarrow> 'c scheduler \<Rightarrow> string + 'c scheduler" where
  "schedule_object C p s =
     (case cr_add C (sj_schedule (sc_heap s p)) (CronRun p) (sc_cron s) of
        Inl e \<Rightarrow> Inl e
      | Inr (eid, c) \<Rightarrow>
          Inr (set_object p ((sc_heap s p)\<lparr>sj_next_run := cr_next C eid c\<rparr>)
                 (s\<lparr>sc_cron := c,
                    sc_entries := gm_put (sj_id (sc_heap s p)) eid (sc_entries s)\<rparr>)))"

definition entry_of :: "'c scheduler \<Rightarrow> string \<Rightarrow> nat" where
  "entry_of s k = (case gm_get (sc_entries s) k of None \<Rightarrow> 0 | Some eid \<Rightarrow> eid)"

definition unschedule_object :: "'c cron_lib \<Rightarrow> nat \<Rightarrow> 'c scheduler \<Rightarrow> 'c scheduler" where
  "unschedule_object C p s =
     s\<lparr>sc_cron := cr_remove C (entry_of s (sj_id (sc_heap s p))) (sc_cron s)\<rparr>"

section \<open>Operations\<close>

text \<open>Each returns the error, if any, and the state it leaves.\<close>

definition add_scheduled_job ::
  "'c cron_lib \<Rightarrow> instant \<Rightarrow> nat \<Rightarrow> 'c scheduler \<Rightarrow> sched_error option \<times> 'c scheduler" where
  "add_scheduled_job C now p s =
     (case cr_add C (sj_schedule (sc_heap s p)) CronNoop (sc_cron s) of
        Inl e \<Rightarrow> (Some (InvalidCronSchedule e), s)
      | Inr (_, c) \<Rightarrow>
          let s = set_object p ((sc_heap s p)\<lparr>sj_created := now, sj_updated := now\<rparr>) (s\<lparr>sc_cron := c\<rparr>);
              res = (if sj_enabled (sc_heap s p) then schedule_object C p s else Inr s)
          in (case res of
                Inl e \<Rightarrow> (Some (FailedToSchedule e), s)
              | Inr s \<Rightarrow>
                  (None, call_store (SaveSchedule (sc_heap s p))
                           (s\<lparr>sc_jobs := gm_put (sj_id (sc_heap s p)) p (sc_jobs s)\<rparr>))))"

definition remove_scheduled_job ::
  "'c cron_lib \<Rightarrow> string \<Rightarrow> 'c scheduler \<Rightarrow> sched_error option \<times> 'c scheduler" where
  "remove_scheduled_job C k s =
     (case gm_get (sc_jobs s) k of
        None \<Rightarrow> (Some (ScheduleNotFound k), s)
      | Some p \<Rightarrow>
          let s = (if sj_enabled (sc_heap s p) then unschedule_object C p s else s)
          in (None, call_store (DeleteSchedule k) (s\<lparr>sc_jobs := gm_del k (sc_jobs s)\<rparr>)))"

definition apply_updates :: "instant \<Rightarrow> scheduled_job \<Rightarrow> scheduled_job \<Rightarrow> scheduled_job" where
  "apply_updates now u sj =
     sj\<lparr>sj_name := (if sj_name u \<noteq> [] then sj_name u else sj_name sj),
        sj_description := (if sj_description u \<noteq> [] then sj_description u else sj_description sj),
        sj_schedule := (if sj_schedule u \<noteq> [] then sj_schedule u else sj_schedule sj),
        sj_template := (if jd_vm_path (sj_template u) \<noteq> [] then sj_template u else sj_template sj),
        sj_tags := (if sj_tags u \<noteq> None then sj_tags u else sj_tags sj),
        sj_enabled := sj_enabled u,
        sj_updated := now\<rparr>"

definition update_scheduled_job ::
  "'c cron_lib \<Rightarrow> instant \<Rightarrow> string \<Rightarrow> scheduled_job \<Rightarrow> 'c scheduler \<Rightarrow> sched_error option \<times> 'c scheduler"
where
  "update_scheduled_job C now k u s =
     (case gm_get (sc_jobs s) k of
        None \<Rightarrow> (Some (ScheduleNotFound k), s)
      | Some p \<Rightarrow>
          let s = (if sj_enabled (sc_heap s p) then unschedule_object C p s else s);
              s = set_object p (apply_updates now u (sc_heap s p)) s;
              res = (if sj_enabled (sc_heap s p) then schedule_object C p s else Inr s)
          in (case res of
                Inl e \<Rightarrow> (Some (FailedToReschedule e), s)
              | Inr s \<Rightarrow> (None, call_store (UpdateSchedule (sc_heap s p)) s)))"

definition get_scheduled_job :: "string \<Rightarrow> 'c scheduler \<Rightarrow> sched_error + scheduled_job" where
  "get_scheduled_job k s =
     (case gm_get (sc_jobs s) k of
        None \<Rightarrow> Inl (ScheduleNotFound k)
      | Some p \<Rightarrow> Inr (sc_heap s p))"

definition refresh_next_run :: "'c cron_lib \<Rightarrow> nat \<Rightarrow> 'c scheduler \<Rightarrow> 'c scheduler" where
  "refresh_next_run C p s =
     (if sj_enabled (sc_heap s p)
      then set_object p ((sc_heap s p)\<lparr>sj_next_run :=
             cr_next C (entry_of s (sj_id (sc_heap s p))) (sc_cron s)\<rparr>) s
      else s)"

definition list_scheduled_jobs :: "'c cron_lib \<Rightarrow> 'c scheduler \<Rightarrow> nat list \<times> 'c scheduler" where
  "list_scheduled_jobs C s =
     (map snd (sc_jobs s), fold (\<lambda>(k, p). refresh_next_run C p) (sc_jobs s) s)"

definition enable_scheduled_job ::
  "'c cron_lib \<Rightarrow> instant \<Rightarrow> string \<Rightarrow> 'c scheduler \<Rightarrow> sched_error option \<times> 'c scheduler" where
  "enable_scheduled_job C now k s =
     (case gm_get (sc_jobs s) k of
        None \<Rightarrow> (Some (ScheduleNotFound k), s)
      | Some p \<Rightarrow>
          if sj_enabled (sc_heap s p) then (None, s)
          else (case schedule_object C p s of
                  Inl e \<Rightarrow> (Some (FailedToEnable e), s)
                | Inr s \<Rightarrow>
                    (None, set_object p ((sc_heap s p)\<lparr>sj_enabled := True, sj_updated := now\<rparr>) s)))"

definition disable_scheduled_job ::
  "'c cron_lib \<Rightarrow> instant \<Rightarrow> string \<Rightarrow> 'c scheduler \<Rightarrow> sched_error option \<times> 'c scheduler" where
  "disable_scheduled_job C now k s =
     (case gm_get (sc_jobs s) k of
        None \<Rightarrow> (Some (ScheduleNotFound k), s)
      | Some p \<Rightarrow>
          if \<not> sj_enabled (sc_heap s p) then (None, s)
          else let s = unschedule_object C p s
               in (None, set_object p ((sc_heap s p)\<lparr>sj_enabled := False, sj_updated := now\<rparr>) s))"

text \<open>
  \<open>LoadSchedules\<close>: \<open>loaded\<close> are the objects read from the store, by reference.  An enabled
  schedule that cron refuses stays in the map without an entry and is counted as failed, which the
  code only logs.
\<close>

definition load_schedule ::
  "'c cron_lib \<Rightarrow> nat \<times> scheduled_job \<Rightarrow> nat \<times> 'c scheduler \<Rightarrow> nat \<times> 'c scheduler" where
  "load_schedule C psj acc =
     (case (psj, acc) of ((p, sj), (failed, s)) \<Rightarrow>
        let s = set_object p sj (s\<lparr>sc_jobs := gm_put (sj_id sj) p (sc_jobs s)\<rparr>)
        in if sj_enabled sj
           then (case schedule_object C p s of
                   Inl e \<Rightarrow> (failed + 1, s)
                 | Inr s \<Rightarrow> (failed, s))
           else (failed, s))"

definition load_all ::
  "'c cron_lib \<Rightarrow> (nat \<times> scheduled_job) list \<Rightarrow> 'c scheduler \<Rightarrow> nat \<times> 'c scheduler" where
  "load_all C objs s = fold (load_schedule C) objs (0, s)"

definition load_schedules ::
  "'c cron_lib \<Rightarrow> string + (nat \<times> scheduled_job) list \<Rightarrow> 'c scheduler \<Rightarrow> string option \<times> 'c scheduler"
where
  "load_schedules C loaded s =
     (if \<not> sc_store s then (None, s)
      else (case loaded of
              Inl e \<Rightarrow> (Some (''failed to load schedules: '' @ e), s)
            | Inr objs \<Rightarrow> (None, snd (load_all C objs s))))"

section \<open>Execution\<close>

text \<open>\<open>time.Unix()\<close> of an instant counted from the year one.\<close>

definition unix_seconds :: "instant \<Rightarrow> int" where
  "unix_seconds t = t div second - 62135596800"

definition run_definition :: "instant \<Rightarrow> scheduled_job \<Rightarrow> job_definition" where
  "run_definition now sj =
     (sj_template sj)\<lparr>jd_id := sj_id sj @ ''-'' @ dec_int (unix_seconds now),
                      jd_name := jd_name (sj_template sj) @ '' (scheduled)''\<rparr>"

text \<open>The statistics updated after a successful submission.\<close>

definition record_run :: "instant \<Rightarrow> nat \<Rightarrow> 'c scheduler \<Rightarrow> 'c scheduler" where
  "record_run now p s =
     (let sj = sc_heap s p;
          sj = sj\<lparr>sj_last_run := Some now, sj_run_count := sj_run_count sj + 1, sj_updated := now\<rparr>
      in call_store (UpdateSchedule sj) (set_object p sj s))"

definition execute_scheduled_job ::
  "instant \<Rightarrow> (job_definition \<Rightarrow> 'm \<Rightarrow> jm_error + (string \<times> 'm)) \<Rightarrow> nat \<Rightarrow> 'c scheduler \<Rightarrow> 'm
   \<Rightarrow> sched_error option \<times> 'c scheduler \<times> 'm" where
  "execute_scheduled_job now submit p s m =
     (case submit (run_definition now (sc_heap s p)) m of
        Inl e \<Rightarrow> (Some (SubmitFailed e), s, m)
      | Inr (k, m') \<Rightarrow> (None, record_run now p s, m'))"

text \<open>\<open>TriggerNow\<close>: the object whose execution is started.\<close>

definition trigger_now :: "string \<Rightarrow> 'c scheduler \<Rightarrow> sched_error + nat" where
  "trigger_now k s =
     (case gm_get (sc_jobs s) k of None \<Rightarrow> Inl (ScheduleNotFound k) | Some p \<Rightarrow> Inr p)"

record schedule_stats =
  st_total :: int
  st_enabled :: int
  st_runs :: int
  st_next :: "instant option"

definition count_schedule :: "scheduled_job \<Rightarrow> schedule_stats \<Rightarrow> schedule_stats" where
  "count_schedule sj st =
     (if sj_enabled sj
      then st\<lparr>st_enabled := st_enabled st + 1, st_runs := st_runs st + sj_run_count sj,
              st_next := (case st_next st of
                            None \<Rightarrow> Some (sj_next_run sj)
                          | Some t \<Rightarrow> if sj_next_run sj < t then Some (sj_next_run sj) else Some t)\<rparr>
      else st)"

definition get_schedule_stats :: "'c scheduler \<Rightarrow> schedule_stats" where
  "get_schedule_stats s =
     fold count_schedule (map (\<lambda>(k, p). sc_heap s p) (sc_jobs s))
       \<lparr>st_total = int (length (sc_jobs s)), st_enabled = 0, st_runs = 0, st_next = None\<rparr>"

section \<open>The cron library\<close>

text \<open>
  What the scheduler relies on: \<open>ents c\<close> are the entries of the cron state \<open>c\<close>.  \<open>AddFunc\<close> gives an
  entry under an unused identifier or an error that leaves no trace, and \<open>Remove\<close> deletes one
  entry.
\<close>

type_synonym 'c cron_view = "'c \<Rightarrow> nat \<Rightarrow> (string \<times> cron_task) option"

definition cron_laws :: "'c cron_lib \<Rightarrow> 'c cron_view \<Rightarrow> bool" where
  "cron_laws C ents \<longleftrightarrow>
     (\<forall>c spec f eid c'. cr_add C spec f c = Inr (eid, c') \<longrightarrow>
          ents c eid = None \<and> ents c' = (ents c)(eid \<mapsto> (spec, f)))
     \<and> (\<forall>c eid. ents (cr_remove C eid c) = (ents c)(eid := None))"

lemma cron_addD:
  "cron_laws C ents \<Longrightarrow> cr_add C spec f c = Inr (eid, c') \<Longrightarrow>
   ents c eid = None \<and> ents c' = (ents c)(eid \<mapsto> (spec, f))"
  unfolding cron_laws_def by blast

lemma cron_removeD: "cron_laws C ents \<Longrightarrow> ents (cr_remove C eid c) = (ents c)(eid := None)"
  unfolding cron_laws_def by blast

text \<open>A list-backed library that accepts every non-empty specification.\<close>

definition list_cron :: "(nat \<times> (nat, string \<times> cron_task) gomap) cron_lib" where
  "list_cron =
     \<lparr>cr_add = (\<lambda>spec f (n, es).
        if spec = [] then Inl ''empty spec''
        else (case gm_get es n of Some _ \<Rightarrow> Inl ''entry in use''
              | None \<Rightarrow> Inr (n, (Suc n, gm_put n (spec, f) es)))),
      cr_remove = (\<lambda>eid (n, es). (n, gm_del eid es)),
      cr_next = (\<lambda>eid (n, es). if gm_get es eid = None then 0 else 1)\<rparr>"

lemma list_cron_laws: "cron_laws list_cron (\<lambda>(n, es). gm_get es)"
  by (auto simp: cron_laws_def list_cron_def map_ops split: if_splits option.splits)

section \<open>Frame lemmas\<close>

lemma store_frame [simp]:
  "sc_cron (call_store x s) = sc_cron s" "sc_heap (call_store x s) = sc_heap s"
  "sc_jobs (call_store x s) = sc_jobs s" "sc_entries (call_store x s) = sc_entries s"
  by (simp_all add: call_store_def)

lemma object_frame [simp]:
  "sc_cron (set_object p sj s) = sc_cron s" "sc_heap (set_object p sj s) = (sc_heap s)(p := sj)"
  "sc_jobs (set_object p sj s) = sc_jobs s" "sc_entries (set_object p sj s) = sc_entries s"
  by (simp_all add: set_object_def)

lemma entry_of_frame [simp]:
  "entry_of (call_store x s) k = entry_of s k" "entry_of (set_object p sj s) k = entry_of s k"
  "entry_of (s\<lparr>sc_jobs := j\<rparr>) k = entry_of s k" "entry_of (s\<lparr>sc_cron := c\<rparr>) k = entry_of s k"
  by (simp_all add: entry_of_def)

lemma unschedule_frame [simp]:
  "sc_heap (unschedule_object C p s) = sc_heap s" "sc_jobs (unschedule_object C p s) = sc_jobs s"
  "sc_entries (unschedule_object C p s) = sc_entries s"
  "entry_of (unschedule_object C p s) k = entry_of s k"
  "sc_cron (unschedule_object C p s) = cr_remove C (entry_of s (sj_id (sc_heap s p))) (sc_cron s)"
  by (simp_all add: unschedule_object_def)

lemma schedule_objectD:
  assumes laws: "cron_laws C ents" and s: "schedule_object C p s = Inr s'"
  shows "\<exists>eid. ents (sc_cron s) eid = None
    \<and> ents (sc_cron s') = (ents (sc_cron s))(eid \<mapsto> (sj_schedule (sc_heap s p), CronRun p))
    \<and> sc_heap s' = (sc_heap s)(p := (sc_heap s p)\<lparr>sj_next_run := cr_next C eid (sc_cron s')\<rparr>)
    \<and> sc_jobs s' = sc_jobs s
    \<and> (\<forall>k. entry_of s' k = (if k = sj_id (sc_heap s p) then eid else entry_of s k))"
proof -
  obtain eid c where a: "cr_add C (sj_schedule (sc_heap s p)) (CronRun p) (sc_cron s) = Inr (eid, c)"
    "s' = set_object p ((sc_heap s p)\<lparr>sj_next_run := cr_next C eid c\<rparr>)
       (s\<lparr>sc_cron := c, sc_entries := gm_put (sj_id (sc_heap s p)) eid (sc_entries s)\<rparr>)"
    using s by (auto simp: schedule_object_def split: sum.splits)
  show ?thesis
    using cron_addD [OF laws a(1)]
    by (intro exI [of _ eid]) (simp add: a(2) entry_of_def gm_get_put)
qed

lemma unix_not_empty: "run_definition now sj = d \<Longrightarrow> jd_id d \<noteq> []"
  by (auto simp: run_definition_def)

section \<open>Entries left behind\<close>

lemma add_enabledD:
  assumes laws: "cron_laws C ents" and en: "sj_enabled (sc_heap s p)"
    and add: "add_scheduled_job C now p s = (None, s1)"
  shows "\<exists>e0 eid. ents (sc_cron s) e0 = None \<and> ents (sc_cron s) eid = None \<and> e0 \<noteq> eid
     \<and> ents (sc_cron s1) = (ents (sc_cron s))(e0 \<mapsto> (sj_schedule (sc_heap s p), CronNoop),
                              eid \<mapsto> (sj_schedule (sc_heap s p), CronRun p))
     \<and> gm_get (sc_jobs s1) = (gm_get (sc_jobs s))(sj_id (sc_heap s p) \<mapsto> p)
     \<and> (\<forall>k. entry_of s1 k = (if k = sj_id (sc_heap s p) then eid else entry_of s k))
     \<and> (\<forall>q. q \<noteq> p \<longrightarrow> sc_heap s1 q = sc_heap s q)
     \<and> sj_id (sc_heap s1 p) = sj_id (sc_heap s p) \<and> sj_enabled (sc_heap s1 p)
     \<and> sj_schedule (sc_heap s1 p) = sj_schedule (sc_heap s p)
     \<and> sj_next_run (sc_heap s1 p) = cr_next C eid (sc_cron s1)"
proof -
  obtain e0 c0 where v: "cr_add C (sj_schedule (sc_heap s p)) CronNoop (sc_cron s) = Inr (e0, c0)"
    using add by (auto simp: add_scheduled_job_def split: sum.splits)
  let ?s0 = "set_object p ((sc_heap s p)\<lparr>sj_created := now, sj_updated := now\<rparr>) (s\<lparr>sc_cron := c0\<rparr>)"
  obtain s0 where s0: "schedule_object C p ?s0 = Inr s0"
    "s1 = call_store (SaveSchedule (sc_heap s0 p))
            (s0\<lparr>sc_jobs := gm_put (sj_id (sc_heap s0 p)) p (sc_jobs s0)\<rparr>)"
    using add en by (auto simp: add_scheduled_job_def v Let_def split: sum.splits)
  note v' = cron_addD [OF laws v]
  obtain eid where e: "ents (sc_cron ?s0) eid = None"
    "ents (sc_cron s0) = (ents (sc_cron ?s0))(eid \<mapsto> (sj_schedule (sc_heap ?s0 p), CronRun p))"
    "sc_heap s0 = (sc_heap ?s0)(p := (sc_heap ?s0 p)\<lparr>sj_next_run := cr_next C eid (sc_cron s0)\<rparr>)"
    "sc_jobs s0 = sc_jobs ?s0"
    "\<forall>k. entry_of s0 k = (if k = sj_id (sc_heap ?s0 p) then eid else entry_of ?s0 k)"
    using schedule_objectD [OF laws s0(1)] by blast
  show ?thesis
    using e v' en by (intro exI [of _ e0] exI [of _ eid]) (auto simp: s0(2) gm_get_put split: if_splits)
qed

text \<open>
  Adding a schedule validates its specification by adding an empty function to cron, which
  is never removed.  After an enabled schedule has been added and removed again, cron has one
  entry more than before.
\<close>

theorem validation_entry_leaks:
  assumes laws: "cron_laws C ents" and en: "sj_enabled (sc_heap s p)"
    and add: "add_scheduled_job C now p s = (None, s1)"
    and rem: "remove_scheduled_job C (sj_id (sc_heap s p)) s1 = (None, s2)"
  shows "\<exists>eid. ents (sc_cron s) eid = None
     \<and> ents (sc_cron s2) = (ents (sc_cron s))(eid \<mapsto> (sj_schedule (sc_heap s p), CronNoop))"
proof -
  obtain e0 e1 where a: "ents (sc_cron s) e0 = None" "ents (sc_cron s) e1 = None" "e0 \<noteq> e1"
    "ents (sc_cron s1) = (ents (sc_cron s))
        (e0 \<mapsto> (sj_schedule (sc_heap s p), CronNoop), e1 \<mapsto> (sj_schedule (sc_heap s p), CronRun p))"
    "gm_get (sc_jobs s1) = (gm_get (sc_jobs s))(sj_id (sc_heap s p) \<mapsto> p)"
    "\<forall>k. entry_of s1 k = (if k = sj_id (sc_heap s p) then e1 else entry_of s k)"
    "sj_id (sc_heap s1 p) = sj_id (sc_heap s p)" "sj_enabled (sc_heap s1 p)"
    using add_enabledD [OF laws en add] by blast
  have "sc_cron s2 = cr_remove C e1 (sc_cron s1)"
    using rem a(5-8) by (auto simp: remove_scheduled_job_def Let_def)
  then have "ents (sc_cron s2) = (ents (sc_cron s))(e0 \<mapsto> (sj_schedule (sc_heap s p), CronNoop))"
    using a(2-4) by (auto simp: cron_removeD [OF laws] fun_eq_iff)
  then show ?thesis using a(1) by blast
qed

definition sample_sj :: "string \<Rightarrow> scheduled_job" where
  "sample_sj k =
     \<lparr>sj_id = k, sj_name = k, sj_description = [], sj_schedule = ''@hourly'',
      sj_template = zero_job_definition, sj_enabled = True, sj_created = 0, sj_updated = 0,
      sj_next_run = 0, sj_last_run = None, sj_run_count = 0, sj_tags = None, sj_advanced = None\<rparr>"

definition sample_scheduler :: "(nat \<times> (nat, string \<times> cron_task) gomap) scheduler" where
  "sample_scheduler = new_scheduler (0, []) (\<lambda>p. sample_sj ''s1'')"

theorem validation_entry_leaks_witness:
  "\<exists>s1 s2 eid. add_scheduled_job list_cron 5 0 sample_scheduler = (None, s1)
     \<and> remove_scheduled_job list_cron ''s1'' s1 = (None, s2)
     \<and> gm_get (snd (sc_cron s2)) eid = Some (''@hourly'', CronNoop)"
proof -
  obtain s1 where s1: "add_scheduled_job list_cron 5 0 sample_scheduler = (None, s1)"
    by (auto simp: add_scheduled_job_def sample_scheduler_def new_scheduler_def list_cron_def
        sample_sj_def schedule_object_def set_object_def Let_def)
  obtain s2 where s2: "remove_scheduled_job list_cron ''s1'' s1 = (None, s2)"
    using s1 by (auto simp: add_scheduled_job_def sample_scheduler_def new_scheduler_def list_cron_def
        sample_sj_def schedule_object_def set_object_def Let_def remove_scheduled_job_def
        call_store_def)
  have "sj_enabled (sc_heap sample_scheduler 0)" "sj_id (sc_heap sample_scheduler 0) = ''s1''"
    "sj_schedule (sc_heap sample_scheduler 0) = ''@hourly''"
    by (simp_all add: sample_scheduler_def new_scheduler_def sample_sj_def)
  then show ?thesis
    using validation_entry_leaks [OF list_cron_laws _ s1, of s2] s1 s2
    by (auto simp: case_prod_unfold)
qed

lemma duplicate_schedule_keeps_running_parts:
  assumes laws: "cron_laws C ents"
    and en: "sj_enabled (sc_heap s p)" "sj_enabled (sc_heap s q)" and pq: "p \<noteq> q"
    and same: "sj_id (sc_heap s p) = k" "sj_id (sc_heap s q) = k"
    and add: "add_scheduled_job C t p s = (None, s1)" "add_scheduled_job C t' q s1 = (None, s2)"
    and rem: "remove_scheduled_job C k s2 = (None, s3)"
  shows "\<exists>eid. ents (sc_cron s3) eid = Some (sj_schedule (sc_heap s p), CronRun p)"
    and "gm_get (sc_jobs s3) k = None"
proof -
  obtain e0 e1 where a: "ents (sc_cron s1) = (ents (sc_cron s))
        (e0 \<mapsto> (sj_schedule (sc_heap s p), CronNoop), e1 \<mapsto> (sj_schedule (sc_heap s p), CronRun p))"
    "\<forall>q. q \<noteq> p \<longrightarrow> sc_heap s1 q = sc_heap s q"
    using add_enabledD [OF laws en(1) add(1)] by blast
  have q: "sc_heap s1 q = sc_heap s q" using a(2) pq by simp
  obtain e2 e3 where b: "ents (sc_cron s1) e2 = None" "ents (sc_cron s1) e3 = None"
    "ents (sc_cron s2) = (ents (sc_cron s1))(e2 \<mapsto> (sj_schedule (sc_heap s1 q), CronNoop),
        e3 \<mapsto> (sj_schedule (sc_heap s1 q), CronRun q))"
    "gm_get (sc_jobs s2) = (gm_get (sc_jobs s1))(sj_id (sc_heap s1 q) \<mapsto> q)"
    "\<forall>k. entry_of s2 k = (if k = sj_id (sc_heap s1 q) then e3 else entry_of s1 k)"
    "sj_id (sc_heap s2 q) = sj_id (sc_heap s1 q)" "sj_enabled (sc_heap s2 q)"
    using add_enabledD [OF laws _ add(2)] en(2) q by auto
  have e1: "ents (sc_cron s1) e1 = Some (sj_schedule (sc_heap s p), CronRun p)" by (simp add: a(1))
  then have ne: "e1 \<noteq> e2" "e1 \<noteq> e3" using b(1,2) by auto
  have s3: "sc_cron s3 = cr_remove C e3 (sc_cron s2)" "sc_jobs s3 = gm_del k (sc_jobs s2)"
    using rem same(2) b(4-7) q
    by (auto simp: remove_scheduled_job_def Let_def)
  show "\<exists>eid. ents (sc_cron s3) eid = Some (sj_schedule (sc_heap s p), CronRun p)"
    using ne e1 by (intro exI [of _ e1]) (simp add: s3(1) cron_removeD [OF laws] b(3))
  show "gm_get (sc_jobs s3) k = None" by (simp add: s3(2))
qed

text \<open>
  Adding a second schedule under an identifier in use does not replace the first: cron keeps
  running the first one, and removing the identifier removes only the second.
\<close>

theorem duplicate_schedule_keeps_running:
  assumes "cron_laws C ents" and "sj_enabled (sc_heap s p)" "sj_enabled (sc_heap s q)" and "p \<noteq> q"
    and "sj_id (sc_heap s p) = k" "sj_id (sc_heap s q) = k"
    and "add_scheduled_job C t p s = (None, s1)" "add_scheduled_job C t' q s1 = (None, s2)"
    and "remove_scheduled_job C k s2 = (None, s3)"
  shows "(\<exists>eid. ents (sc_cron s3) eid = Some (sj_schedule (sc_heap s p), CronRun p))
    \<and> remove_scheduled_job C k s3 = (Some (ScheduleNotFound k), s3)"
  using duplicate_schedule_keeps_running_parts [OF assms] by (simp add: remove_scheduled_job_def)

definition two_schedules :: "(nat \<times> (nat, string \<times> cron_task) gomap) scheduler" where
  "two_schedules = new_scheduler (0, []) (\<lambda>p. sample_sj ''s1'')"

theorem duplicate_schedule_keeps_running_witness:
  "\<exists>s1 s2 s3 eid. add_scheduled_job list_cron 5 0 two_schedules = (None, s1)
     \<and> add_scheduled_job list_cron 6 1 s1 = (None, s2)
     \<and> remove_scheduled_job list_cron ''s1'' s2 = (None, s3)
     \<and> gm_get (snd (sc_cron s3)) eid = Some (''@hourly'', CronRun 0)"
proof -
  note defs = add_scheduled_job_def two_schedules_def new_scheduler_def list_cron_def sample_sj_def
    schedule_object_def set_object_def Let_def call_store_def remove_scheduled_job_def
  obtain s1 where s1: "add_scheduled_job list_cron 5 0 two_schedules = (None, s1)"
    by (auto simp: defs)
  obtain s2 where s2: "add_scheduled_job list_cron 6 1 s1 = (None, s2)"
    using s1 by (auto simp: defs)
  obtain s3 where s3: "remove_scheduled_job list_cron ''s1'' s2 = (None, s3)"
    using s1 s2 by (auto simp: defs)
  have h: "sj_enabled (sc_heap two_schedules r)" "sj_id (sc_heap two_schedules r) = ''s1''"
    "sj_schedule (sc_heap two_schedules r) = ''@hourly''" for r
    by (simp_all add: two_schedules_def new_scheduler_def sample_sj_def)
  show ?thesis
    using duplicate_schedule_keeps_running [OF list_cron_laws h(1) h(1) zero_neq_one h(2) h(2) s1 s2 s3]
      s1 s2 s3 h(3)
    by (auto simp: case_prod_unfold)
qed

section \<open>A failed update\<close>

text \<open>
  An update whose specification cron refuses returns an error, but has changed the schedule
  already: it is marked enabled with the refused specification, and its entry is gone, so it
  will never run again.
\<close>

theorem failed_update_stops_schedule:
  assumes laws: "cron_laws C ents" and p: "gm_get (sc_jobs s) k = Some p" "sj_id (sc_heap s p) = k"
    and en: "sj_enabled (sc_heap s p)" "sj_enabled u" and spec: "sj_schedule u \<noteq> []"
    and bad: "\<And>c. \<exists>e. cr_add C (sj_schedule u) (CronRun p) c = Inl e"
  shows "\<exists>e s'. update_scheduled_job C now k u s = (Some (FailedToReschedule e), s')
     \<and> sj_enabled (sc_heap s' p) \<and> sj_schedule (sc_heap s' p) = sj_schedule u
     \<and> gm_get (sc_jobs s') k = Some p \<and> ents (sc_cron s') (entry_of s' k) = None"
proof -
  let ?s1 = "set_object p (apply_updates now u (sc_heap s p)) (unschedule_object C p s)"
  have u: "sj_enabled (sc_heap ?s1 p)" "sj_schedule (sc_heap ?s1 p) = sj_schedule u"
    "sj_id (sc_heap ?s1 p) = k"
    using en spec p by (simp_all add: apply_updates_def)
  obtain e where e: "schedule_object C p ?s1 = Inl e"
    using bad [of "sc_cron ?s1"] u(2) by (auto simp: schedule_object_def)
  have "update_scheduled_job C now k u s = (Some (FailedToReschedule e), ?s1)"
    using p en e u by (simp add: update_scheduled_job_def Let_def)
  moreover have "ents (sc_cron ?s1) (entry_of ?s1 k) = None"
    using p(2) by (simp add: cron_removeD [OF laws])
  ultimately show ?thesis using u p(1) by auto
qed

definition refusing_cron :: "(nat \<times> (nat, string \<times> cron_task) gomap) cron_lib" where
  "refusing_cron = list_cron\<lparr>cr_add := (\<lambda>spec f c. if spec = ''x'' then Inl ''bad'' else cr_add list_cron spec f c)\<rparr>"

lemma refusing_cron_laws: "cron_laws refusing_cron (\<lambda>(n, es). gm_get es)"
proof -
  have "cr_add refusing_cron spec f c = Inr r \<Longrightarrow> cr_add list_cron spec f c = Inr r" for spec f c r
    by (simp add: refusing_cron_def split: if_splits)
  moreover have "cr_remove refusing_cron = cr_remove list_cron" by (simp add: refusing_cron_def)
  ultimately show ?thesis using list_cron_laws unfolding cron_laws_def by metis
qed

theorem failed_update_stops_schedule_witness:
  "\<exists>e s'. update_scheduled_job refusing_cron 9 ''s1'' (sample_sj ''s1''\<lparr>sj_schedule := ''x''\<rparr>)
       (two_schedules\<lparr>sc_jobs := [(''s1'', 0)]\<rparr>) = (Some (FailedToReschedule e), s')
     \<and> sj_enabled (sc_heap s' 0)"
proof -
  let ?s = "two_schedules\<lparr>sc_jobs := [(''s1'', 0)]\<rparr>" and ?u = "sample_sj ''s1''\<lparr>sj_schedule := ''x''\<rparr>"
  have "gm_get (sc_jobs ?s) ''s1'' = Some 0" "sj_id (sc_heap ?s 0) = ''s1''"
    "sj_enabled (sc_heap ?s 0)" "sj_enabled ?u" "sj_schedule ?u \<noteq> []"
    "\<And>c. \<exists>e. cr_add refusing_cron (sj_schedule ?u) (CronRun 0) c = Inl e"
    by (simp_all add: two_schedules_def new_scheduler_def sample_sj_def refusing_cron_def)
  from failed_update_stops_schedule [OF refusing_cron_laws this, of 9] show ?thesis by blast
qed

section \<open>Enabled schedules are wired to cron\<close>

text \<open>
  The agreement of the scheduler's map with cron: every enabled schedule has a recorded entry
  that runs this very object at its specification.
\<close>

definition wired :: "'c cron_view \<Rightarrow> 'c scheduler \<Rightarrow> bool" where
  "wired ents s \<longleftrightarrow>
     (\<forall>k p. gm_get (sc_jobs s) k = Some p \<longrightarrow> sj_id (sc_heap s p) = k
        \<and> (sj_enabled (sc_heap s p) \<longrightarrow>
             ents (sc_cron s) (entry_of s k) = Some (sj_schedule (sc_heap s p), CronRun p)))"

lemma wiredD:
  "wired ents s \<Longrightarrow> gm_get (sc_jobs s) k = Some p \<Longrightarrow> sj_id (sc_heap s p) = k"
  "wired ents s \<Longrightarrow> gm_get (sc_jobs s) k = Some p \<Longrightarrow> sj_enabled (sc_heap s p) \<Longrightarrow>
   ents (sc_cron s) (entry_of s k) = Some (sj_schedule (sc_heap s p), CronRun p)"
  unfolding wired_def by blast+

lemma wired_inj:
  assumes "wired ents s" and "gm_get (sc_jobs s) i = Some p" and "gm_get (sc_jobs s) k = Some p"
  shows "i = k"
  using wiredD(1) [OF assms(1,2)] wiredD(1) [OF assms(1,3)] by simp

lemma wired_new: "wired ents (new_scheduler c heap)"
  by (simp add: wired_def new_scheduler_def)

text \<open>Changing fields that cron does not depend on keeps the agreement.\<close>

lemma wired_set_object:
  assumes "wired ents s" and "sj_id o' = sj_id (sc_heap s p)"
    and "sj_schedule o' = sj_schedule (sc_heap s p)" and "sj_enabled o' \<longrightarrow> sj_enabled (sc_heap s p)"
  shows "wired ents (set_object p o' s)"
  using assms unfolding wired_def by auto

lemma wired_set_scheduled:
  assumes "wired ents s" and "sj_id o' = sj_id (sc_heap s p)"
    and "\<And>k. gm_get (sc_jobs s) k = Some p \<Longrightarrow> sj_enabled o' \<Longrightarrow>
           ents (sc_cron s) (entry_of s k) = Some (sj_schedule o', CronRun p)"
  shows "wired ents (set_object p o' s)"
  using assms unfolding wired_def by auto

lemma wired_call_store [simp]: "wired ents (call_store x s) = wired ents s"
  by (simp add: wired_def)

text \<open>Removing the entry of a schedule that is disabled or dropped.\<close>

lemma wired_unschedule:
  assumes w: "wired ents s" and laws: "cron_laws C ents"
    and p: "gm_get (sc_jobs s) k = Some p" and en: "sj_enabled (sc_heap s p)"
    and q: "gm_get (sc_jobs s) i = Some q" and enq: "sj_enabled (sc_heap s q)" and ne: "q \<noteq> p"
  shows "ents (sc_cron (unschedule_object C p s)) (entry_of s i) = Some (sj_schedule (sc_heap s q), CronRun q)"
proof -
  have "ents (sc_cron s) (entry_of s k) = Some (sj_schedule (sc_heap s p), CronRun p)"
    "ents (sc_cron s) (entry_of s i) = Some (sj_schedule (sc_heap s q), CronRun q)"
    using wiredD(2) [OF w] p en q enq by blast+
  then have "entry_of s i \<noteq> entry_of s k" using ne by auto
  then show ?thesis
    using wiredD(1) [OF w p] wiredD(2) [OF w q enq] by (simp add: cron_removeD [OF laws])
qed

text \<open>Scheduling an object keeps the entries of all others.\<close>

lemma wired_schedule:
  assumes laws: "cron_laws C ents" and s: "schedule_object C p s = Inr s'"
    and others: "\<And>i q. gm_get (sc_jobs s) i = Some q \<Longrightarrow> q \<noteq> p \<Longrightarrow>
       sj_id (sc_heap s q) = i \<and> i \<noteq> sj_id (sc_heap s p)
       \<and> (sj_enabled (sc_heap s q) \<longrightarrow>
            ents (sc_cron s) (entry_of s i) = Some (sj_schedule (sc_heap s q), CronRun q))"
    and self: "\<And>i. gm_get (sc_jobs s) i = Some p \<Longrightarrow> i = sj_id (sc_heap s p)"
  shows "wired ents s'"
  unfolding wired_def
proof (intro allI impI)
  obtain eid where e: "ents (sc_cron s) eid = None"
    "ents (sc_cron s') = (ents (sc_cron s))(eid \<mapsto> (sj_schedule (sc_heap s p), CronRun p))"
    "sc_heap s' = (sc_heap s)(p := (sc_heap s p)\<lparr>sj_next_run := cr_next C eid (sc_cron s')\<rparr>)"
    "sc_jobs s' = sc_jobs s"
    "\<forall>k. entry_of s' k = (if k = sj_id (sc_heap s p) then eid else entry_of s k)"
    using schedule_objectD [OF laws s] by blast
  fix i q
  assume iq: "gm_get (sc_jobs s') i = Some q"
  show "sj_id (sc_heap s' q) = i \<and> (sj_enabled (sc_heap s' q) \<longrightarrow>
      ents (sc_cron s') (entry_of s' i) = Some (sj_schedule (sc_heap s' q), CronRun q))"
  proof (cases "q = p")
    case True
    then have "i = sj_id (sc_heap s p)" using iq self by (simp add: e(4))
    moreover have "entry_of s' (sj_id (sc_heap s p)) = eid" using e(5) by simp
    moreover have "sj_id (sc_heap s' p) = sj_id (sc_heap s p)"
      "sj_schedule (sc_heap s' p) = sj_schedule (sc_heap s p)" by (simp_all add: e(3))
    ultimately show ?thesis using True e(2) by simp
  next
    case False
    have o: "sj_id (sc_heap s q) = i \<and> i \<noteq> sj_id (sc_heap s p)
       \<and> (sj_enabled (sc_heap s q) \<longrightarrow>
            ents (sc_cron s) (entry_of s i) = Some (sj_schedule (sc_heap s q), CronRun q))"
      using others iq False by (simp add: e(4))
    have h: "sc_heap s' q = sc_heap s q" using False by (simp add: e(3))
    have en: "entry_of s' i = entry_of s i" using o e(5) by simp
    show ?thesis using o e(1) unfolding h en e(2) by auto
  qed
qed

text \<open>
  The operations of the clients and of cron, as long as they succeed.  A load succeeds when no
  enabled schedule of the store failed; the objects it reads are new, as the identifiers are, which
  the table of the store keeps apart.
\<close>

definition new_objects :: "(nat \<times> scheduled_job) list \<Rightarrow> 'c scheduler \<Rightarrow> bool" where
  "new_objects objs s \<longleftrightarrow>
     distinct (map fst objs) \<and> distinct (map (\<lambda>o'. sj_id (snd o')) objs)
     \<and> (\<forall>(p, sj) \<in> set objs. gm_get (sc_jobs s) (sj_id sj) = None
          \<and> (\<forall>k. gm_get (sc_jobs s) k \<noteq> Some p))"

inductive sched_step :: "'c cron_lib \<Rightarrow> 'c scheduler \<Rightarrow> 'c scheduler \<Rightarrow> bool" for C where
  added: "\<forall>k. gm_get (sc_jobs s) k \<noteq> Some p \<Longrightarrow> gm_get (sc_jobs s) (sj_id sj) = None \<Longrightarrow>
    add_scheduled_job C now p (set_object p sj s) = (None, s') \<Longrightarrow> sched_step C s s'"
| removed: "remove_scheduled_job C k s = (None, s') \<Longrightarrow> sched_step C s s'"
| updated: "update_scheduled_job C now k u s = (None, s') \<Longrightarrow> sched_step C s s'"
| enabled: "enable_scheduled_job C now k s = (None, s') \<Longrightarrow> sched_step C s s'"
| disabled: "disable_scheduled_job C now k s = (None, s') \<Longrightarrow> sched_step C s s'"
| executed: "sched_step C s (record_run now p s)"
| stored: "sched_step C s (set_store b s)"
| restored: "load_schedules C (Inr objs) s = (None, s') \<Longrightarrow> new_objects objs s \<Longrightarrow>
    fst (load_all C objs s) = 0 \<Longrightarrow> sched_step C s s'"

lemma wired_add:
  assumes w: "wired ents s" and laws: "cron_laws C ents"
    and fresh: "\<forall>k. gm_get (sc_jobs s) k \<noteq> Some p" and unused: "gm_get (sc_jobs s) (sj_id sj) = None"
    and add: "add_scheduled_job C now p (set_object p sj s) = (None, s')"
  shows "wired ents s'"
proof -
  have other: "sc_heap (set_object p sj s) q = sc_heap s q" if "gm_get (sc_jobs s) i = Some q" for i q
    using that fresh by auto
  obtain e0 c0 where v: "cr_add C (sj_schedule sj) CronNoop (sc_cron s) = Inr (e0, c0)"
    using add by (auto simp: add_scheduled_job_def split: sum.splits)
  let ?s0 = "set_object p (sj\<lparr>sj_created := now, sj_updated := now\<rparr>)
      ((set_object p sj s)\<lparr>sc_cron := c0\<rparr>)"
  have heap0: "sc_heap ?s0 p = sj\<lparr>sj_created := now, sj_updated := now\<rparr>" by simp
  have kept: "sj_id (sc_heap ?s0 q) = i \<and> i \<noteq> sj_id (sc_heap ?s0 p)
       \<and> (sj_enabled (sc_heap ?s0 q) \<longrightarrow>
            ents (sc_cron ?s0) (entry_of ?s0 i) = Some (sj_schedule (sc_heap ?s0 q), CronRun q))"
    if iq: "gm_get (sc_jobs ?s0) i = Some q" for i q
  proof -
    have q: "q \<noteq> p" "sc_heap ?s0 q = sc_heap s q" using iq fresh by auto
    have "i \<noteq> sj_id sj" using iq unused by auto
    moreover have "ents (sc_cron ?s0) (entry_of ?s0 i) = Some (sj_schedule (sc_heap s q), CronRun q)"
      if "sj_enabled (sc_heap s q)"
    proof -
      have "ents (sc_cron s) (entry_of s i) = Some (sj_schedule (sc_heap s q), CronRun q)"
        using wiredD(2) [OF w _ that] iq by simp
      moreover have "entry_of s i \<noteq> e0" using calculation cron_addD [OF laws v] by auto
      ultimately show ?thesis using cron_addD [OF laws v] by simp
    qed
    ultimately show ?thesis using q wiredD(1) [OF w] iq by simp
  qed
  show ?thesis
  proof (cases "sj_enabled sj")
    case False
    have s': "s' = call_store (SaveSchedule (sc_heap ?s0 p))
        (?s0\<lparr>sc_jobs := gm_put (sj_id sj) p (sc_jobs ?s0)\<rparr>)"
      using add False by (simp add: add_scheduled_job_def v Let_def)
    show ?thesis
      unfolding s' wired_call_store unfolding wired_def
      using kept False by (auto simp: gm_get_put split: if_splits)
  next
    case True
    obtain s0 where s0: "schedule_object C p ?s0 = Inr s0"
      "s' = call_store (SaveSchedule (sc_heap s0 p))
              (s0\<lparr>sc_jobs := gm_put (sj_id (sc_heap s0 p)) p (sc_jobs s0)\<rparr>)"
      using add True by (auto simp: add_scheduled_job_def v Let_def split: sum.splits)
    have w0: "wired ents s0"
    proof (rule wired_schedule [OF laws s0(1)], goal_cases)
      case (1 i q)
      show ?case by (rule kept [OF 1(1)])
    next
      case (2 i)
      then show ?case using fresh by simp
    qed
    obtain eid where e: 
      "ents (sc_cron s0) = (ents (sc_cron ?s0))(eid \<mapsto> (sj_schedule (sc_heap ?s0 p), CronRun p))"
      "sc_heap s0 = (sc_heap ?s0)(p := (sc_heap ?s0 p)\<lparr>sj_next_run := cr_next C eid (sc_cron s0)\<rparr>)"
      "\<forall>k. entry_of s0 k = (if k = sj_id (sc_heap ?s0 p) then eid else entry_of ?s0 k)"
      using schedule_objectD [OF laws s0(1)] by blast
    have p0: "sj_id (sc_heap s0 p) = sj_id sj" "sj_schedule (sc_heap s0 p) = sj_schedule sj"
      "entry_of s0 (sj_id sj) = eid"
      using e(2,3) by simp_all
    then have "ents (sc_cron s0) (entry_of s0 (sj_id sj)) = Some (sj_schedule sj, CronRun p)"
      using e(1) by simp
    then show ?thesis
      unfolding s0(2) wired_call_store unfolding wired_def
      using wiredD [OF w0] p0 by (auto simp: gm_get_put)
  qed
qed

lemma wired_drop_entry:
  assumes w: "wired ents s" and laws: "cron_laws C ents" and p: "gm_get (sc_jobs s) k = Some p"
    and en: "sj_enabled (sc_heap s p)"
    and jobs: "\<And>i q. gm_get jobs i = Some q \<Longrightarrow> gm_get (sc_jobs s) i = Some q"
    and o': "sj_id o' = k" and gone: "gm_get jobs k = None \<or> \<not> sj_enabled o'"
  shows "wired ents (set_object p o' (unschedule_object C p s\<lparr>sc_jobs := jobs\<rparr>))"
  unfolding wired_def
proof (intro allI impI)
  fix i q
  let ?s' = "set_object p o' (unschedule_object C p s\<lparr>sc_jobs := jobs\<rparr>)"
  assume "gm_get (sc_jobs ?s') i = Some q"
  then have iq: "gm_get jobs i = Some q" by simp
  note iq' = jobs [OF iq]
  show "sj_id (sc_heap ?s' q) = i \<and> (sj_enabled (sc_heap ?s' q) \<longrightarrow>
      ents (sc_cron ?s') (entry_of ?s' i) = Some (sj_schedule (sc_heap ?s' q), CronRun q))"
  proof (cases "q = p")
    case True
    then have "i = k" using wiredD(1) [OF w iq'] wiredD(1) [OF w p] by simp
    then show ?thesis using True o' gone iq by auto
  next
    case False
    then show ?thesis
      using wiredD(1) [OF w iq'] wired_unschedule [OF w laws p en iq' _ False] by simp
  qed
qed

lemma wired_remove:
  assumes w: "wired ents s" and laws: "cron_laws C ents"
    and r: "remove_scheduled_job C k s = (None, s')"
  shows "wired ents s'"
proof -
  obtain p where p: "gm_get (sc_jobs s) k = Some p"
    using r by (auto simp: remove_scheduled_job_def split: option.splits)
  have sub: "gm_get (sc_jobs s) i = Some q" if "gm_get (gm_del k (sc_jobs s)) i = Some q" for i q
    using that by (simp add: gm_get_del split: if_splits)
  show ?thesis
  proof (cases "sj_enabled (sc_heap s p)")
    case True
    have same: "set_object p (sc_heap s p) (unschedule_object C p s\<lparr>sc_jobs := gm_del k (sc_jobs s)\<rparr>)
        = unschedule_object C p s\<lparr>sc_jobs := gm_del k (sc_jobs s)\<rparr>"
      by (simp add: set_object_def unschedule_object_def)
    have "s' = call_store (DeleteSchedule k) (unschedule_object C p s\<lparr>sc_jobs := gm_del k (sc_jobs s)\<rparr>)"
      using r p True by (simp add: remove_scheduled_job_def Let_def)
    then show ?thesis
      using wired_drop_entry [OF w laws p True, of "gm_del k (sc_jobs s)" "sc_heap s p"]
        wiredD(1) [OF w p] sub unfolding same by simp
  next
    case False
    have "s' = call_store (DeleteSchedule k) (s\<lparr>sc_jobs := gm_del k (sc_jobs s)\<rparr>)"
      using r p False by (simp add: remove_scheduled_job_def Let_def)
    then show ?thesis using w sub unfolding wired_def by auto
  qed
qed

lemma wired_disable:
  assumes w: "wired ents s" and laws: "cron_laws C ents"
    and r: "disable_scheduled_job C now k s = (None, s')"
  shows "wired ents s'"
proof -
  obtain p where p: "gm_get (sc_jobs s) k = Some p"
    using r by (auto simp: disable_scheduled_job_def split: option.splits)
  show ?thesis
  proof (cases "sj_enabled (sc_heap s p)")
    case True
    have same: "unschedule_object C p s\<lparr>sc_jobs := sc_jobs s\<rparr> = unschedule_object C p s"
      by (simp add: unschedule_object_def)
    have "s' = set_object p ((sc_heap s p)\<lparr>sj_enabled := False, sj_updated := now\<rparr>) (unschedule_object C p s)"
      using r p True by (simp add: disable_scheduled_job_def Let_def)
    then show ?thesis
      using wired_drop_entry [OF w laws p True, of "sc_jobs s"
          "(sc_heap s p)\<lparr>sj_enabled := False, sj_updated := now\<rparr>"] wiredD(1) [OF w p]
      unfolding same by simp
  next
    case False
    then show ?thesis using r p w by (simp add: disable_scheduled_job_def)
  qed
qed

text \<open>Scheduling a listed object that is not enabled, or whose entry has just been removed.\<close>

lemma wired_reschedule:
  assumes laws: "cron_laws C ents" and r: "schedule_object C p s1 = Inr s2"
    and p: "gm_get (sc_jobs s1) k = Some p" "sj_id (sc_heap s1 p) = k"
    and others: "\<And>i q. gm_get (sc_jobs s1) i = Some q \<Longrightarrow> q \<noteq> p \<Longrightarrow> sj_id (sc_heap s1 q) = i
       \<and> (sj_enabled (sc_heap s1 q) \<longrightarrow>
            ents (sc_cron s1) (entry_of s1 i) = Some (sj_schedule (sc_heap s1 q), CronRun q))"
    and self: "\<And>i. gm_get (sc_jobs s1) i = Some p \<Longrightarrow> i = k"
  shows "wired ents s2"
proof (rule wired_schedule [OF laws r], goal_cases)
  case (1 i q)
  have "i \<noteq> k" using 1 p(1) by auto
  then show ?case using others [OF 1] p(2) by simp
next
  case (2 i)
  then show ?case using self p(2) by simp
qed

lemma wired_enable:
  assumes w: "wired ents s" and laws: "cron_laws C ents"
    and r: "enable_scheduled_job C now k s = (None, s')"
  shows "wired ents s'"
proof -
  obtain p where p: "gm_get (sc_jobs s) k = Some p"
    using r by (auto simp: enable_scheduled_job_def split: option.splits)
  show ?thesis
  proof (cases "sj_enabled (sc_heap s p)")
    case True
    then show ?thesis using r p w by (simp add: enable_scheduled_job_def)
  next
    case False
    obtain s2 where s2: "schedule_object C p s = Inr s2"
      "s' = set_object p ((sc_heap s2 p)\<lparr>sj_enabled := True, sj_updated := now\<rparr>) s2"
      using r p False by (auto simp: enable_scheduled_job_def split: sum.splits)
    have w2: "wired ents s2"
      by (rule wired_reschedule [OF laws s2(1) p wiredD(1) [OF w p]])
        (use wiredD [OF w] p in blast)+
    obtain eid where e: 
      "ents (sc_cron s2) = (ents (sc_cron s))(eid \<mapsto> (sj_schedule (sc_heap s p), CronRun p))"
      "sc_heap s2 = (sc_heap s)(p := (sc_heap s p)\<lparr>sj_next_run := cr_next C eid (sc_cron s2)\<rparr>)"
      "sc_jobs s2 = sc_jobs s"
      "\<forall>k. entry_of s2 k = (if k = sj_id (sc_heap s p) then eid else entry_of s k)"
      using schedule_objectD [OF laws s2(1)] by blast
    have p2: "sj_id (sc_heap s2 p) = k" "sj_schedule (sc_heap s2 p) = sj_schedule (sc_heap s p)"
      "entry_of s2 k = eid" "\<And>i. gm_get (sc_jobs s2) i = Some p \<Longrightarrow> i = k"
      using e(2,4) wiredD(1) [OF w p] wired_inj [OF w _ p] by (simp_all add: e(3))
    show ?thesis
      unfolding s2(2)
      by (rule wired_set_scheduled [OF w2]) (use p2 e(1) in \<open>simp_all split: if_splits\<close>)
  qed
qed

lemma wired_update:
  assumes w: "wired ents s" and laws: "cron_laws C ents"
    and r: "update_scheduled_job C now k u s = (None, s')"
  shows "wired ents s'"
proof -
  obtain p where p: "gm_get (sc_jobs s) k = Some p"
    using r by (auto simp: update_scheduled_job_def split: option.splits)
  define s0 where "s0 = (if sj_enabled (sc_heap s p) then unschedule_object C p s else s)"
  define s1 where "s1 = set_object p (apply_updates now u (sc_heap s p)) s0"
  have frame: "sc_heap s0 = sc_heap s" "sc_jobs s0 = sc_jobs s" "\<And>i. entry_of s0 i = entry_of s i"
    by (simp_all add: s0_def)
  have idp: "sj_id (apply_updates now u (sc_heap s p)) = k"
    "sj_enabled (apply_updates now u (sc_heap s p)) = sj_enabled u"
    using wiredD(1) [OF w p] by (simp_all add: apply_updates_def)
  have others: "sj_id (sc_heap s1 q) = i
       \<and> (sj_enabled (sc_heap s1 q) \<longrightarrow>
            ents (sc_cron s1) (entry_of s1 i) = Some (sj_schedule (sc_heap s1 q), CronRun q))"
    if iq: "gm_get (sc_jobs s1) i = Some q" "q \<noteq> p" for i q
  proof -
    have iq': "gm_get (sc_jobs s) i = Some q" using iq frame by (simp add: s1_def)
    show ?thesis
      using wiredD [OF w iq'] wired_unschedule [OF w laws p _ iq' _ iq(2)] iq(2)
      by (auto simp: s1_def s0_def)
  qed
  have self: "i = k" if "gm_get (sc_jobs s1) i = Some p" for i
    using wired_inj [OF w _ p] that frame by (simp add: s1_def)
  have p1: "gm_get (sc_jobs s1) k = Some p" "sj_id (sc_heap s1 p) = k" "sj_enabled (sc_heap s1 p) = sj_enabled u"
    using p frame idp by (simp_all add: s1_def)
  have upd: "update_scheduled_job C now k u s =
      (case (if sj_enabled (sc_heap s1 p) then schedule_object C p s1 else Inr s1) of
         Inl e \<Rightarrow> (Some (FailedToReschedule e), s1)
       | Inr s \<Rightarrow> (None, call_store (UpdateSchedule (sc_heap s p)) s))"
    by (simp add: update_scheduled_job_def p Let_def s1_def s0_def split: sum.split)
  show ?thesis
  proof (cases "sj_enabled u")
    case True
    obtain s2 where s2: "schedule_object C p s1 = Inr s2" "s' = call_store (UpdateSchedule (sc_heap s2 p)) s2"
      using r True unfolding upd by (auto simp: p1 split: sum.splits)
    have "wired ents s2"
      by (rule wired_reschedule [OF laws s2(1) p1(1,2)]) (use others self in blast)+
    then show ?thesis by (simp add: s2(2))
  next
    case False
    then have s': "s' = call_store (UpdateSchedule (sc_heap s1 p)) s1"
      using r unfolding upd by (simp add: p1)
    have "wired ents s1"
      unfolding wired_def using others self p1 False by metis
    then show ?thesis by (simp add: s')
  qed
qed

lemma wired_record_run:
  assumes "wired ents s"
  shows "wired ents (record_run now p s)"
proof -
  let ?o = "(sc_heap s p)\<lparr>sj_last_run := Some now, sj_run_count := sj_run_count (sc_heap s p) + 1,
      sj_updated := now\<rparr>"
  have "wired ents (set_object p ?o s)" by (rule wired_set_object [OF assms]) simp_all
  then show ?thesis by (simp add: record_run_def Let_def)
qed

text \<open>A load that cron accepts: one object, then all.\<close>

lemma wired_load_schedule:
  assumes w: "wired ents s" and laws: "cron_laws C ents"
    and fresh: "\<forall>k. gm_get (sc_jobs s) k \<noteq> Some p" and unused: "gm_get (sc_jobs s) (sj_id sj) = None"
    and load: "load_schedule C (p, sj) (n, s) = (n, s')"
  shows "wired ents s'" and "sc_jobs s' = gm_put (sj_id sj) p (sc_jobs s)"
proof -
  let ?s0 = "set_object p sj (s\<lparr>sc_jobs := gm_put (sj_id sj) p (sc_jobs s)\<rparr>)"
  have kept: "sj_id (sc_heap ?s0 q) = i \<and> i \<noteq> sj_id (sc_heap ?s0 p)
       \<and> (sj_enabled (sc_heap ?s0 q) \<longrightarrow>
            ents (sc_cron ?s0) (entry_of ?s0 i) = Some (sj_schedule (sc_heap ?s0 q), CronRun q))"
    if iq: "gm_get (sc_jobs ?s0) i = Some q" "q \<noteq> p" for i q
    using that wiredD [OF w, of i q] unused by (auto simp: gm_get_put split: if_splits)
  have self: "i = sj_id (sc_heap ?s0 p)" if "gm_get (sc_jobs ?s0) i = Some p" for i
    using that fresh by (simp add: gm_get_put split: if_splits)
  have "wired ents s' \<and> sc_jobs s' = gm_put (sj_id sj) p (sc_jobs s)"
  proof (cases "sj_enabled sj")
    case True
    have s': "schedule_object C p ?s0 = Inr s'"
      using load True by (auto simp: load_schedule_def Let_def split: sum.splits)
    have "wired ents s'" by (rule wired_schedule [OF laws s']) (use kept self in blast)+
    moreover have "sc_jobs s' = sc_jobs ?s0" using schedule_objectD [OF laws s'] by blast
    ultimately show ?thesis by simp
  next
    case False
    then have s': "s' = ?s0" using load by (simp add: load_schedule_def Let_def)
    have "wired ents ?s0"
      unfolding wired_def
    proof (intro allI impI)
      fix i q
      assume iq: "gm_get (sc_jobs ?s0) i = Some q"
      show "sj_id (sc_heap ?s0 q) = i \<and> (sj_enabled (sc_heap ?s0 q) \<longrightarrow>
          ents (sc_cron ?s0) (entry_of ?s0 i) = Some (sj_schedule (sc_heap ?s0 q), CronRun q))"
      proof (cases "q = p")
        case True
        then show ?thesis using self iq False by auto
      next
        case False
        then show ?thesis using kept [OF iq] by blast
      qed
    qed
    then show ?thesis by (simp add: s')
  qed
  then show "wired ents s'" and "sc_jobs s' = gm_put (sj_id sj) p (sc_jobs s)" by blast+
qed

lemma load_schedule_count:
  "\<exists>m s'. load_schedule C psj (n, s) = (m, s') \<and> (m = n \<or> m = Suc n)"
  by (cases psj) (auto simp: load_schedule_def Let_def split: sum.split)

lemma load_fold_count: "n \<le> fst (fold (load_schedule C) objs (n, s))"
proof (induction objs arbitrary: n s)
  case (Cons psj objs)
  obtain m s' where m: "load_schedule C psj (n, s) = (m, s')" "m = n \<or> m = Suc n"
    using load_schedule_count [of C psj n s] by blast
  then show ?case using Cons.IH [of m s'] by auto
qed simp

lemma wired_load_fold:
  assumes laws: "cron_laws C ents"
  shows "wired ents s \<Longrightarrow> new_objects objs s \<Longrightarrow> fst (fold (load_schedule C) objs (n, s)) = n \<Longrightarrow>
    wired ents (snd (fold (load_schedule C) objs (n, s)))"
proof (induction objs arbitrary: s)
  case (Cons psj objs)
  obtain p sj where psj: "psj = (p, sj)" by (cases psj)
  obtain m s' where m: "load_schedule C psj (n, s) = (m, s')" "m = n \<or> m = Suc n"
    using load_schedule_count [of C psj n s] by blast
  have "m = n" using Cons.prems(3) m load_fold_count [of m C objs s'] by auto
  note m = m(1) [unfolded this psj]
  have new: "\<forall>k. gm_get (sc_jobs s) k \<noteq> Some p" "gm_get (sc_jobs s) (sj_id sj) = None"
    using Cons.prems(2) by (simp_all add: psj new_objects_def)
  have "new_objects objs s'"
    using Cons.prems(2) new
    by (fastforce simp: new_objects_def psj gm_get_put wired_load_schedule(2) [OF Cons.prems(1) laws new m]
        image_iff)
  then show ?case
    using Cons.IH wired_load_schedule(1) [OF Cons.prems(1) laws new m] Cons.prems(3) by (simp add: psj m)
qed simp

lemma wired_load:
  assumes "wired ents s" and "cron_laws C ents" and "new_objects objs s"
    and "load_schedules C (Inr objs) s = (None, s')" and "fst (load_all C objs s) = 0"
  shows "wired ents s'"
  using assms wired_load_fold [OF assms(2,1,3), of 0]
  by (auto simp: load_schedules_def load_all_def split: if_splits)

lemma enabled_schedules_are_wired_parts:
  assumes laws: "cron_laws C ents" and run: "(sched_step C)\<^sup>*\<^sup>* (new_scheduler c heap) s"
    and k: "gm_get (sc_jobs s) k = Some p"
  shows "sj_id (sc_heap s p) = k"
    and "sj_enabled (sc_heap s p) \<Longrightarrow>
         ents (sc_cron s) (entry_of s k) = Some (sj_schedule (sc_heap s p), CronRun p)"
proof -
  have "wired ents s"
    using run
  proof (induction rule: rtranclp_induct)
    case base
    show ?case by (rule wired_new)
  next
    case (step y z)
    from step(2) show ?case
    proof cases
      case (added p sj now)
      show ?thesis by (rule wired_add [OF step(3) laws added])
    next
      case (removed k)
      show ?thesis by (rule wired_remove [OF step(3) laws removed])
    next
      case (updated now k u)
      show ?thesis by (rule wired_update [OF step(3) laws updated])
    next
      case (enabled now k)
      show ?thesis by (rule wired_enable [OF step(3) laws enabled])
    next
      case (disabled now k)
      show ?thesis by (rule wired_disable [OF step(3) laws disabled])
    next
      case (executed now p)
      then show ?thesis by (simp add: wired_record_run [OF step(3)])
    next
      case (stored b)
      then show ?thesis using step(3) by (simp add: set_store_def wired_def entry_of_def)
    next
      case (restored objs)
      show ?thesis by (rule wired_load [OF step(3) laws restored(2,1,3)])
    qed
  qed
  then show "sj_id (sc_heap s p) = k"
    and "sj_enabled (sc_heap s p) \<Longrightarrow>
         ents (sc_cron s) (entry_of s k) = Some (sj_schedule (sc_heap s p), CronRun p)"
    using wiredD k by blast+
qed

text \<open>
  A load that cron does not accept returns without an error and leaves the enabled schedule in
  the map without an entry.
\<close>

lemma refused_load_is_silent:
  assumes "sc_store s" and "sj_enabled sj" and "gm_get (sc_entries s) (sj_id sj) = None"
    and "cr_add C (sj_schedule sj) (CronRun p) (sc_cron s) = Inl e"
  shows "\<exists>s'. load_schedules C (Inr [(p, sj)]) s = (None, s')
     \<and> gm_get (sc_jobs s') (sj_id sj) = Some p \<and> sj_enabled (sc_heap s' p)
     \<and> gm_get (sc_entries s') (sj_id sj) = None \<and> fst (load_all C [(p, sj)] s) = 1"
  using assms by (simp add: load_schedules_def load_all_def load_schedule_def schedule_object_def
      set_object_def gm_get_put Let_def)

text \<open>
  C5: after any sequence of successful operations (a load at which cron accepts every enabled
  schedule of the store among them) in which schedules come in under new identifiers, every
  enabled schedule is known under its own identifier and has a cron entry that runs it at its
  current specification.
\<close>

theorem enabled_schedules_are_wired:
  assumes "cron_laws C ents" and "(sched_step C)\<^sup>*\<^sup>* (new_scheduler c heap) s"
    and "gm_get (sc_jobs s) k = Some p"
  shows "sj_id (sc_heap s p) = k
     \<and> (sj_enabled (sc_heap s p) \<longrightarrow>
          ents (sc_cron s) (entry_of s k) = Some (sj_schedule (sc_heap s p), CronRun p))"
  using enabled_schedules_are_wired_parts [OF assms] by blast

theorem enabled_schedules_are_wired_witness:
  "\<exists>s. (sched_step list_cron)\<^sup>*\<^sup>* (new_scheduler (0, []) (\<lambda>p. sample_sj ''s0'')) s
     \<and> gm_get (snd (sc_cron s)) (entry_of s ''s1'') = Some (''@hourly'', CronRun 3)"
proof -
  let ?s0 = "new_scheduler (0, []) (\<lambda>p. sample_sj ''s0'') :: (nat \<times> (nat, string \<times> cron_task) gomap) scheduler"
  obtain s1 where s1: "add_scheduled_job list_cron 5 3 (set_object 3 (sample_sj ''s1'') ?s0) = (None, s1)"
      "sj_enabled (sc_heap s1 3)" "sj_schedule (sc_heap s1 3) = ''@hourly''"
      "gm_get (sc_jobs s1) ''s1'' = Some 3"
    by (auto simp: add_scheduled_job_def new_scheduler_def list_cron_def sample_sj_def
        schedule_object_def set_object_def Let_def call_store_def)
  have "sched_step list_cron ?s0 s1"
    by (rule sched_step.added [OF _ _ s1(1)]) (simp_all add: new_scheduler_def)
  then have run: "(sched_step list_cron)\<^sup>*\<^sup>* ?s0 s1" by blast
  then show ?thesis
    using enabled_schedules_are_wired [OF list_cron_laws run s1(4)] s1(2,3)
    by (auto simp: case_prod_unfold)
qed

section \<open>Running a schedule\<close>

lemma run_definition_id [simp]:
  "jd_id (run_definition now sj) = sj_id sj @ ''-'' @ dec_int (unix_seconds now)"
  by (simp add: run_definition_def)

context job_executor
begin

lemma executed_once_per_second:
  assumes "execute_scheduled_job now (submit now uuid) p s m = (None, s', m')"
    and "unix_seconds now' = unix_seconds now"
  shows "\<exists>e. execute_scheduled_job now' (submit now' uuid') p s' m' = (Some (SubmitFailed e), s', m')"
proof -
  obtain k where k: "submit now uuid (run_definition now (sc_heap s p)) m = Inr (k, m')"
    "s' = record_run now p s"
    using assms(1) by (auto simp: execute_scheduled_job_def split: sum.splits)
  have kid: "k = sj_id (sc_heap s p) @ ''-'' @ dec_int (unix_seconds now)"
    using submit_ok [OF k(1)] by simp
  have "sj_id (sc_heap s' p) = sj_id (sc_heap s p)" by (simp add: k(2) record_run_def Let_def)
  then have "\<not> is_ok (submit now' uuid' (run_definition now' (sc_heap s' p)) m')"
    by (intro resubmit_refused [OF k(1)]) (simp_all add: kid assms(2))
  then obtain e where "submit now' uuid' (run_definition now' (sc_heap s' p)) m' = Inl e"
    by (cases "submit now' uuid' (run_definition now' (sc_heap s' p)) m'") auto
  then show ?thesis by (simp add: execute_scheduled_job_def)
qed

end

text \<open>
  On the job manager a schedule runs at most once per second.  When a run was submitted, a
  second run of the schedule in the same second, a manual trigger for instance, is refused:
  no job is created and its statistics do not count it.
\<close>

theorem same_second_run_is_lost:
  assumes "execute_scheduled_job now (submit_job now uuid) p s m = (None, s', m')"
    and "unix_seconds now' = unix_seconds now"
  shows "\<exists>e. execute_scheduled_job now' (submit_job now' uuid') p s' m' = (Some (SubmitFailed e), s', m')"
  by (rule jm.executed_once_per_second [OF assms])

theorem same_second_run_is_lost_witness:
  "\<exists>s' m' e. execute_scheduled_job 100 (submit_job 100 ''u'') 0 two_schedules (new_manager 0 []) = (None, s', m')
     \<and> execute_scheduled_job 200 (submit_job 200 ''v'') 0 s' m' = (Some (SubmitFailed e), s', m')"
proof -
  obtain s' m' where r:
    "execute_scheduled_job 100 (submit_job 100 ''u'') 0 two_schedules (new_manager 0 []) = (None, s', m')"
    by (auto simp: execute_scheduled_job_def submit_job_def Let_def)
  have "unix_seconds 200 = unix_seconds 100" by (simp add: unix_seconds_def second_def)
  from same_second_run_is_lost [OF r this] r show ?thesis by blast
qed

lemma scheduled_run_submits_template_parts:
  assumes "execute_scheduled_job now (submit_job now uuid) p s m = (None, s', m')"
  shows "\<exists>j. find_job m' (sj_id (sc_heap s p) @ ''-'' @ dec_int (unix_seconds now)) = Some j
       \<and> job_stat j = JobStatusPending
       \<and> jd_vm_path (job_def j) = jd_vm_path (sj_template (sc_heap s p))
       \<and> jd_options (job_def j) = jd_options (sj_template (sc_heap s p))"
    and "sj_run_count (sc_heap s' p) = sj_run_count (sc_heap s p) + 1"
    and "unix_seconds now' \<noteq> unix_seconds now \<Longrightarrow>
         jd_id (run_definition now' (sc_heap s p)) \<noteq> jd_id (run_definition now (sc_heap s p))"
proof -
  obtain k where k: "submit_job now uuid (run_definition now (sc_heap s p)) m = Inr (k, m')"
    "s' = record_run now p s"
    using assms by (auto simp: execute_scheduled_job_def split: sum.splits)
  show "\<exists>j. find_job m' (sj_id (sc_heap s p) @ ''-'' @ dec_int (unix_seconds now)) = Some j
       \<and> job_stat j = JobStatusPending
       \<and> jd_vm_path (job_def j) = jd_vm_path (sj_template (sc_heap s p))
       \<and> jd_options (job_def j) = jd_options (sj_template (sc_heap s p))"
    using submit_jobD(2,3) [OF k(1)] by (simp add: new_job_def run_definition_def)
  show "sj_run_count (sc_heap s' p) = sj_run_count (sc_heap s p) + 1"
    by (simp add: k(2) record_run_def Let_def)
  show "unix_seconds now' \<noteq> unix_seconds now \<Longrightarrow>
         jd_id (run_definition now' (sc_heap s p)) \<noteq> jd_id (run_definition now (sc_heap s p))"
    by (simp add: dec_int_inj)
qed

text \<open>
  A run that is accepted submits the schedule's template as a pending job under the
  schedule's identifier and the second of the run, and counts the run; the identifiers of runs of
  one schedule in different seconds differ.
\<close>

theorem scheduled_run_submits_template:
  assumes "execute_scheduled_job now (submit_job now uuid) p s m = (None, s', m')"
  shows "(\<exists>j. find_job m' (sj_id (sc_heap s p) @ ''-'' @ dec_int (unix_seconds now)) = Some j
       \<and> job_stat j = JobStatusPending
       \<and> jd_vm_path (job_def j) = jd_vm_path (sj_template (sc_heap s p))
       \<and> jd_options (job_def j) = jd_options (sj_template (sc_heap s p)))
     \<and> sj_run_count (sc_heap s' p) = sj_run_count (sc_heap s p) + 1
     \<and> (\<forall>now'. unix_seconds now' \<noteq> unix_seconds now \<longrightarrow>
          jd_id (run_definition now' (sc_heap s p)) \<noteq> jd_id (run_definition now (sc_heap s p)))"
  using scheduled_run_submits_template_parts [OF assms] by blast

theorem scheduled_run_submits_template_witness:
  "\<exists>s' m'. execute_scheduled_job 100 (submit_job 100 ''u'') 0 two_schedules (new_manager 0 []) = (None, s', m')
     \<and> sj_run_count (sc_heap s' 0) = 1"
proof -
  obtain s' m' where r:
    "execute_scheduled_job 100 (submit_job 100 ''u'') 0 two_schedules (new_manager 0 []) = (None, s', m')"
    by (auto simp: execute_scheduled_job_def submit_job_def Let_def)
  have "sj_run_count (sc_heap two_schedules 0) = 0"
    by (simp add: two_schedules_def new_scheduler_def sample_sj_def)
  then show ?thesis using scheduled_run_submits_template [OF r] r by simp
qed

end
