(* ===== verification/Retryer.thy ===== *)
theory Retryer
  imports Complex_Main Go_Prelude
begin

text \<open>
  The retry loop of \<open>retry/retry.go\<close>.  Errors are values with a chain of wrapped errors; an
  error made by the program's callers carries a number, its identity.  The context, the waits,
  the random numbers, the network monitor and the operation are arguments that act on a state of
  the environment (\<open>retry_env\<close>); the arithmetic on \<open>float64\<close> is an argument too (\<open>float_ops\<close>).
\<close>

section \<open>Errors\<close>

datatype go_error =
    PlainError nat string
  | RetryableError nat go_error
  | NonRetryableError nat go_error
  | WrappedError "nat option" string go_error

text \<open>
  \<open>Error()\<close>.  \<open>WrappedError\<close> is an error of \<open>fmt.Errorf("...%w", err)\<close>: \<open>Some i\<close> is the identity of
  one made by a caller, \<open>None\<close> marks one the loop has just made, which equals no other.
\<close>

primrec error_text :: "go_error \<Rightarrow> string" where
  "error_text (PlainError i m) = m"
| "error_text (RetryableError i e) = error_text e"
| "error_text (NonRetryableError i e) = error_text e"
| "error_text (WrappedError i p e) = p @ error_text e"

text \<open>\<open>errors.Is\<close>: the error or one it wraps is the target itself.\<close>

primrec errors_is :: "go_error \<Rightarrow> go_error \<Rightarrow> bool" where
  "errors_is (PlainError i m) t = (t = PlainError i m)"
| "errors_is (RetryableError i e) t = (t = RetryableError i e \<or> errors_is e t)"
| "errors_is (NonRetryableError i e) t = (t = NonRetryableError i e \<or> errors_is e t)"
| "errors_is (WrappedError i p e) t = (i \<noteq> None \<and> t = WrappedError i p e \<or> errors_is e t)"

definition mark_retryable :: "nat \<Rightarrow> go_error option \<Rightarrow> go_error option" where
  "mark_retryable fresh e = map_option (RetryableError fresh) e"

definition mark_non_retryable :: "nat \<Rightarrow> go_error option \<Rightarrow> go_error option" where
  "mark_non_retryable fresh e = map_option (NonRetryableError fresh) e"

section \<open>Configuration\<close>

record 'f retry_config =
  rc_max_attempts :: int
  rc_initial_delay :: duration
  rc_max_delay :: duration
  rc_multiplier :: 'f
  rc_jitter :: bool
  rc_retryable :: "go_error list"
  rc_wait_network :: bool

record 'f float_ops =
  fl_of_int :: "int \<Rightarrow> 'f"
  fl_mul :: "'f \<Rightarrow> 'f \<Rightarrow> 'f"
  fl_add :: "'f \<Rightarrow> 'f \<Rightarrow> 'f"
  fl_pow :: "'f \<Rightarrow> int \<Rightarrow> 'f"
  fl_less :: "'f \<Rightarrow> 'f \<Rightarrow> bool"
  fl_quarter :: 'f
  fl_to_int :: "'f \<Rightarrow> int"

definition default_retry_config :: "'f float_ops \<Rightarrow> 'f retry_config" where
  "default_retry_config F =
     \<lparr>rc_max_attempts = 3, rc_initial_delay = second, rc_max_delay = 30 * second,
      rc_multiplier = fl_of_int F 2, rc_jitter = True, rc_retryable = [], rc_wait_network = False\<rparr>"

definition new_retryer :: "'f float_ops \<Rightarrow> 'f retry_config option \<Rightarrow> 'f retry_config" where
  "new_retryer F c =
     (let c = (case c of None \<Rightarrow> default_retry_config F | Some c \<Rightarrow> c);
          c = (if rc_max_attempts c \<le> 0 then c\<lparr>rc_max_attempts := 3\<rparr> else c);
          c = (if rc_initial_delay c \<le> 0 then c\<lparr>rc_initial_delay := second\<rparr> else c);
          c = (if rc_max_delay c \<le> 0 then c\<lparr>rc_max_delay := 30 * second\<rparr> else c)
      in if \<not> fl_less F (fl_of_int F 0) (rc_multiplier c) then c\<lparr>rc_multiplier := fl_of_int F 2\<rparr>
         else c)"

text \<open>\<open>calculateDelay\<close>, with the random number drawn for the jitter.\<close>

definition calculate_delay :: "'f float_ops \<Rightarrow> 'f retry_config \<Rightarrow> int \<Rightarrow> 'f \<Rightarrow> duration" where
  "calculate_delay F c attempt rnd =
     (let delay = fl_mul F (fl_of_int F (rc_initial_delay c)) (fl_pow F (rc_multiplier c) (attempt - 1));
          delay = (if fl_less F (fl_of_int F (rc_max_delay c)) delay then fl_of_int F (rc_max_delay c)
                   else delay);
          delay = (if rc_jitter c then fl_add F delay (fl_mul F (fl_mul F delay (fl_quarter F)) rnd)
                   else delay)
      in fl_to_int F delay)"

section \<open>Which errors are retried\<close>

text \<open>\<open>indexString\<close> from position \<open>i\<close> on, \<open>s\<close> being the rest of the string.\<close>

fun index_from :: "int \<Rightarrow> string \<Rightarrow> string \<Rightarrow> int" where
  "index_from i s sub =
     (if length sub \<le> length s
      then if prefix sub s then i
           else (case s of [] \<Rightarrow> -1 | c # s' \<Rightarrow> index_from (i + 1) s' sub)
      else -1)"

declare index_from.simps [simp del]

definition index_string :: "string \<Rightarrow> string \<Rightarrow> int" where
  "index_string s sub = index_from 0 s sub"

definition contains_string :: "string \<Rightarrow> string \<Rightarrow> bool" where
  "contains_string s sub =
     (let s' = to_lower s; sub' = to_lower sub
      in length sub' \<le> length s' \<and> 0 \<le> index_string s' sub')"

definition contains_ignore_case :: "string \<Rightarrow> string \<Rightarrow> bool" where
  "contains_ignore_case s sub = contains_string s sub"

definition network_errors :: "string list" where
  "network_errors =
     [''connection refused'', ''connection reset'', ''connection timeout'', ''network unreachable'',
      ''no such host'', ''temporary failure'', ''timeout'', ''TLS handshake timeout'',
      ''i/o timeout'', ''broken pipe'', ''EOF'']"

definition http_errors :: "string list" where
  "http_errors =
     [''500 Internal Server Error'', ''502 Bad Gateway'', ''503 Service Unavailable'',
      ''504 Gateway Timeout'', ''429 Too Many Requests'', ''RequestTimeout'', ''ServiceUnavailable'',
      ''InternalError'', ''SlowDown'', ''ThrottlingException'']"

definition cloud_errors :: "string list" where
  "cloud_errors =
     [''RequestLimitExceeded'', ''ProvisionedThroughputExceededException'',
      ''TransactionInProgressException'', ''TooManyRequests'']"

definition is_retryable :: "'f retry_config \<Rightarrow> go_error option \<Rightarrow> bool" where
  "is_retryable c err =
     (case err of
        None \<Rightarrow> False
      | Some e \<Rightarrow>
          if list_ex (errors_is e) (rc_retryable c) then True
          else if list_ex (contains_ignore_case (error_text e)) network_errors then True
          else if list_ex (contains_ignore_case (error_text e)) http_errors then True
          else list_ex (contains_ignore_case (error_text e)) cloud_errors)"

section \<open>The loop\<close>

record ('s, 'f) retry_env =
  re_done :: "'s \<Rightarrow> go_error option"
  re_wait :: "duration \<Rightarrow> 's \<Rightarrow> go_error option \<times> 's"
  re_rand :: "'s \<Rightarrow> 'f \<times> 's"
  re_monitor :: bool
  re_is_up :: "'s \<Rightarrow> bool"
  re_wait_network :: "'s \<Rightarrow> go_error option \<times> 's"

definition attempts_text :: "string \<Rightarrow> int \<Rightarrow> string" where
  "attempts_text name n = name @ '' failed after '' @ dec_int n @ '' attempts: ''"

text \<open>What follows a failed attempt: go on (\<open>None\<close>) or return the error.\<close>

definition after_failure ::
  "'f float_ops \<Rightarrow> ('s, 'f) retry_env \<Rightarrow> 'f retry_config \<Rightarrow> string \<Rightarrow> int \<Rightarrow> go_error \<Rightarrow> 's
   \<Rightarrow> go_error option \<times> 's" where
  "after_failure F env c name attempt err s =
     (if \<not> is_retryable c (Some err)
      then (Some (WrappedError None (name @ '' (attempt '' @ dec_int attempt @ ''/''
                    @ dec_int (rc_max_attempts c) @ ''): '') err), s)
      else if rc_max_attempts c \<le> attempt
      then (Some (WrappedError None (attempts_text name (rc_max_attempts c)) err), s)
      else if re_monitor env \<and> rc_wait_network c \<and> \<not> re_is_up env s
      then (case re_wait_network env s of
              (Some e, s') \<Rightarrow> (Some (WrappedError None (name @ '': network wait cancelled: '') e), s')
            | (None, s') \<Rightarrow> (None, s'))
      else (case re_rand env s of
              (rnd, s1) \<Rightarrow>
                (case re_wait env (calculate_delay F c attempt rnd) s1 of
                   (Some e, s2) \<Rightarrow> (Some (WrappedError None (name @ '': '') e), s2)
                 | (None, s2) \<Rightarrow> (None, s2))))"

text \<open>\<open>Do\<close> from a given attempt on; \<open>last\<close> is the last error.\<close>

function retry_do_from ::
  "'f float_ops \<Rightarrow> ('s, 'f) retry_env \<Rightarrow> 'f retry_config \<Rightarrow> string
   \<Rightarrow> (int \<Rightarrow> 's \<Rightarrow> go_error option \<times> 's) \<Rightarrow> int \<Rightarrow> go_error \<Rightarrow> 's \<Rightarrow> go_error option \<times> 's" where
  "retry_do_from F env c name op attempt last_err s =
     (if rc_max_attempts c < attempt
      then (Some (WrappedError None (attempts_text name (rc_max_attempts c)) last_err), s)
      else (case re_done env s of
              Some e \<Rightarrow> (Some (WrappedError None (name @ '': '') e), s)
            | None \<Rightarrow>
                (case op attempt s of
                   (None, s1) \<Rightarrow> (None, s1)
                 | (Some err, s1) \<Rightarrow>
                     (case after_failure F env c name attempt err s1 of
                        (Some e, s2) \<Rightarrow> (Some e, s2)
                      | (None, s2) \<Rightarrow> retry_do_from F env c name op (attempt + 1) err s2))))"
  by pat_completeness auto
termination
  by (relation "measure (\<lambda>(F, env, c, name, op, attempt, last_err, s). nat (rc_max_attempts c + 1 - attempt))")
    auto

declare retry_do_from.simps [simp del]

text \<open>\<open>lastErr\<close> starts as nil; it is only read when no attempt is allowed at all.\<close>

definition nil_error :: go_error where
  "nil_error = PlainError 0 ''%!w(<nil>)''"

definition retry_do ::
  "'f float_ops \<Rightarrow> ('s, 'f) retry_env \<Rightarrow> 'f retry_config \<Rightarrow> string
   \<Rightarrow> (int \<Rightarrow> 's \<Rightarrow> go_error option \<times> 's) \<Rightarrow> 's \<Rightarrow> go_error option \<times> 's" where
  "retry_do F env c name op s = retry_do_from F env c name op 1 nil_error s"

text \<open>\<open>DoWithResult\<close> likewise, for an operation with a result.\<close>

function retry_result_from ::
  "'f float_ops \<Rightarrow> ('s, 'f) retry_env \<Rightarrow> 'f retry_config \<Rightarrow> string
   \<Rightarrow> (int \<Rightarrow> 's \<Rightarrow> (go_error + 'r) \<times> 's) \<Rightarrow> int \<Rightarrow> go_error \<Rightarrow> 's \<Rightarrow> (go_error + 'r) \<times> 's" where
  "retry_result_from F env c name op attempt last_err s =
     (if rc_max_attempts c < attempt
      then (Inl (WrappedError None (attempts_text name (rc_max_attempts c)) last_err), s)
      else (case re_done env s of
              Some e \<Rightarrow> (Inl (WrappedError None (name @ '': '') e), s)
            | None \<Rightarrow>
                (case op attempt s of
                   (Inr r, s1) \<Rightarrow> (Inr r, s1)
                 | (Inl err, s1) \<Rightarrow>
                     (case after_failure F env c name attempt err s1 of
                        (Some e, s2) \<Rightarrow> (Inl e, s2)
                      | (None, s2) \<Rightarrow> retry_result_from F env c name op (attempt + 1) err s2))))"
  by pat_completeness auto
termination
  by (relation "measure (\<lambda>(F, env, c, name, op, attempt, last_err, s). nat (rc_max_attempts c + 1 - attempt))")
    auto

declare retry_result_from.simps [simp del]

definition retry_result ::
  "'f float_ops \<Rightarrow> ('s, 'f) retry_env \<Rightarrow> 'f retry_config \<Rightarrow> string
   \<Rightarrow> (int \<Rightarrow> 's \<Rightarrow> (go_error + 'r) \<times> 's) \<Rightarrow> 's \<Rightarrow> (go_error + 'r) \<times> 's" where
  "retry_result F env c name op s = retry_result_from F env c name op 1 nil_error s"

definition with_retry ::
  "'f float_ops \<Rightarrow> ('s, 'f) retry_env \<Rightarrow> string \<Rightarrow> (int \<Rightarrow> 's \<Rightarrow> go_error option \<times> 's) \<Rightarrow> 's
   \<Rightarrow> go_error option \<times> 's" where
  "with_retry F env name op s =
     retry_do F env (new_retryer F (Some (default_retry_config F))) name op s"

definition with_custom_retry ::
  "'f float_ops \<Rightarrow> ('s, 'f) retry_env \<Rightarrow> string \<Rightarrow> 'f retry_config option
   \<Rightarrow> (int \<Rightarrow> 's \<Rightarrow> go_error option \<times> 's) \<Rightarrow> 's \<Rightarrow> go_error option \<times> 's" where
  "with_custom_retry F env name c op s = retry_do F env (new_retryer F c) name op s"

section \<open>Substring search\<close>

lemma index_from_nonneg: "0 \<le> i \<Longrightarrow> 0 \<le> index_from i s sub \<longleftrightarrow> sublist sub s"
proof (induction s arbitrary: i)
  case Nil
  then show ?case by (simp add: index_from.simps [of i "[]"])
next
  case (Cons c s)
  have len: "sublist sub (c # s) \<Longrightarrow> length sub \<le> length (c # s)" by (rule sublist_length_le)
  show ?case
    using Cons.IH [of "i + 1"] Cons.prems len
    by (subst index_from.simps) (auto simp: sublist_Cons_right)
qed

lemma contains_string_iff: "contains_string s sub \<longleftrightarrow> sublist (to_lower sub) (to_lower s)"
  by (auto simp: contains_string_def Let_def index_string_def index_from_nonneg
      dest: sublist_length_le)

text \<open>
  An error is retried exactly when its chain contains one of the configured errors or its
  text contains one of the known patterns, ignoring case; the hand-written search agrees with
  the substring relation.
\<close>

theorem is_retryable_iff:
  "is_retryable c (Some e) \<longleftrightarrow>
     list_ex (errors_is e) (rc_retryable c)
     \<or> list_ex (\<lambda>p. sublist (to_lower p) (to_lower (error_text e)))
         (network_errors @ http_errors @ cloud_errors)"
proof -
  have "contains_ignore_case (error_text e) = (\<lambda>p. sublist (to_lower p) (to_lower (error_text e)))"
    by (rule ext) (simp add: contains_ignore_case_def contains_string_iff)
  then show ?thesis by (auto simp: is_retryable_def)
qed

lemma retry_markers_ignored_parts:
  assumes "NonRetryableError i e \<notin> set (rc_retryable c)" and "RetryableError i e \<notin> set (rc_retryable c)"
  shows "is_retryable c (mark_non_retryable i (Some e)) = is_retryable c (Some e)"
    and "is_retryable c (mark_retryable i (Some e)) = is_retryable c (Some e)"
proof -
  have "list_ex (errors_is (NonRetryableError i e)) ts = list_ex (errors_is e) ts"
    if "NonRetryableError i e \<notin> set ts" for ts
    using that by (auto simp: list_ex_iff)
  moreover have "list_ex (errors_is (RetryableError i e)) ts = list_ex (errors_is e) ts"
    if "RetryableError i e \<notin> set ts" for ts
    using that by (auto simp: list_ex_iff)
  ultimately show "is_retryable c (mark_non_retryable i (Some e)) = is_retryable c (Some e)"
    and "is_retryable c (mark_retryable i (Some e)) = is_retryable c (Some e)"
    using assms by (simp_all add: is_retryable_def mark_non_retryable_def mark_retryable_def)
qed

text \<open>
  The markers have no effect.  Whether an error is retried does not change when it is
  marked retryable or non-retryable, unless the marked value itself is configured.
\<close>

theorem retry_markers_ignored:
  assumes "NonRetryableError i e \<notin> set (rc_retryable c)" and "RetryableError i e \<notin> set (rc_retryable c)"
  shows "is_retryable c (mark_non_retryable i (Some e)) = is_retryable c (Some e)
     \<and> is_retryable c (mark_retryable i (Some e)) = is_retryable c (Some e)"
  using retry_markers_ignored_parts [OF assms] by blast

section \<open>Exact arithmetic\<close>

definition rat_ops :: "rat float_ops" where
  "rat_ops =
     \<lparr>fl_of_int = of_int, fl_mul = (*), fl_add = (+), fl_pow = (\<lambda>x n. x ^ nat n), fl_less = (<),
      fl_quarter = 1 / 4, fl_to_int = floor\<rparr>"

theorem retry_markers_ignored_witness:
  "is_retryable (default_retry_config rat_ops) (mark_non_retryable 7 (Some (PlainError 1 ''timeout'')))"
proof -
  have t: "is_retryable (default_retry_config rat_ops) (Some (PlainError 1 ''timeout''))"
    by (simp add: is_retryable_iff network_errors_def)
  show ?thesis
    using t retry_markers_ignored [of 7 "PlainError 1 ''timeout''" "default_retry_config rat_ops"]
    by (simp add: default_retry_config_def)
qed

text \<open>
  Over exact arithmetic the delay grows by the multiplier and is cut off at the maximum, but
  the jitter is added after the cut-off: the wait is between the cut-off delay and a quarter
  more, so it can exceed \<open>MaxDelay\<close>.
\<close>

theorem jitter_exceeds_max_delay:
  assumes "rc_jitter c" and "0 \<le> rnd" and "rnd < 1" and "0 < rc_max_delay c"
    and "of_int (rc_max_delay c) \<le> of_int (rc_initial_delay c) * rc_multiplier c ^ nat (attempt - 1)"
  shows "calculate_delay rat_ops c attempt rnd =
           \<lfloor>of_int (rc_max_delay c) * (1 + rnd / 4 :: rat)\<rfloor>"
    and "rc_max_delay c \<le> calculate_delay rat_ops c attempt rnd"
    and "4 \<le> of_int (rc_max_delay c) * rnd \<Longrightarrow> rc_max_delay c < calculate_delay rat_ops c attempt rnd"
proof -
  let ?m = "of_int (rc_max_delay c) :: rat"
  have cut: "(if ?m < of_int (rc_initial_delay c) * rc_multiplier c ^ nat (attempt - 1) then ?m
      else of_int (rc_initial_delay c) * rc_multiplier c ^ nat (attempt - 1)) = ?m"
    using assms(5) by auto
  show eq: "calculate_delay rat_ops c attempt rnd = \<lfloor>?m * (1 + rnd / 4)\<rfloor>"
  proof -
    have "calculate_delay rat_ops c attempt rnd = (let d = (if ?m < of_int (rc_initial_delay c) *
        rc_multiplier c ^ nat (attempt - 1) then ?m
        else of_int (rc_initial_delay c) * rc_multiplier c ^ nat (attempt - 1))
      in \<lfloor>d + d * (1 / 4) * rnd\<rfloor>)"
      using assms(1) by (simp only: calculate_delay_def rat_ops_def Let_def float_ops.simps if_True)
    then show ?thesis unfolding cut Let_def by (simp add: algebra_simps)
  qed
  have "?m \<le> ?m * (1 + rnd / 4)" using assms(2,4) by (simp add: algebra_simps)
  then show "rc_max_delay c \<le> calculate_delay rat_ops c attempt rnd"
    unfolding eq le_floor_iff .
  show "rc_max_delay c < calculate_delay rat_ops c attempt rnd" if "4 \<le> ?m * rnd"
  proof -
    have "?m + 1 \<le> ?m * (1 + rnd / 4)" using that by (simp add: algebra_simps)
    then have "rc_max_delay c + 1 \<le> \<lfloor>?m * (1 + rnd / 4)\<rfloor>" by (simp add: le_floor_iff)
    then show ?thesis unfolding eq by simp
  qed
qed

theorem jitter_exceeds_max_delay_witness:
  "30 * second < calculate_delay rat_ops (default_retry_config rat_ops) 6 (1 / 2)"
  using jitter_exceeds_max_delay(3) [of "default_retry_config rat_ops" "1 / 2" 6]
  by (simp add: default_retry_config_def rat_ops_def second_def)

section \<open>The run of the loop\<close>

text \<open>An environment and an operation that also record the results of the operation.\<close>

definition log_env :: "('s, 'f) retry_env \<Rightarrow> ('s \<times> 'l, 'f) retry_env" where
  "log_env env =
     \<lparr>re_done = (\<lambda>(s, tr). re_done env s),
      re_wait = (\<lambda>d (s, tr). case re_wait env d s of (e, s') \<Rightarrow> (e, (s', tr))),
      re_rand = (\<lambda>(s, tr). case re_rand env s of (x, s') \<Rightarrow> (x, (s', tr))),
      re_monitor = re_monitor env,
      re_is_up = (\<lambda>(s, tr). re_is_up env s),
      re_wait_network = (\<lambda>(s, tr). case re_wait_network env s of (e, s') \<Rightarrow> (e, (s', tr)))\<rparr>"

definition log_op :: "(int \<Rightarrow> 's \<Rightarrow> 'a \<times> 's) \<Rightarrow> int \<Rightarrow> 's \<times> 'a list \<Rightarrow> 'a \<times> ('s \<times> 'a list)" where
  "log_op op attempt st =
     (case st of (s, tr) \<Rightarrow> (case op attempt s of (e, s') \<Rightarrow> (e, (s', tr @ [e]))))"

lemma after_failure_log:
  "after_failure F (log_env env) c name a err (s, tr) =
     (case after_failure F env c name a err s of (e, s') \<Rightarrow> (e, (s', tr)))"
  by (simp add: after_failure_def log_env_def split: prod.split option.split)

lemma after_failure_goes_on:
  "after_failure F env c name a err s = (None, s') \<Longrightarrow>
   is_retryable c (Some err) \<and> a < rc_max_attempts c"
  by (auto simp: after_failure_def split: if_splits)

lemma retry_do_from_run:
  "\<exists>new r s'. retry_do_from F env c name op a last_err s = (r, s')
     \<and> retry_do_from F (log_env env) c name (log_op op) a last_err (s, tr) = (r, (s', tr @ new))
     \<and> length new \<le> nat (rc_max_attempts c + 1 - a)
     \<and> (r = None \<longleftrightarrow> new \<noteq> [] \<and> last new = None)
     \<and> list_all (is_retryable c) (butlast new)"
proof (induction F env c name op a last_err s arbitrary: tr rule: retry_do_from.induct)
  case (1 F env c name op a last_err s)
  note unf = retry_do_from.simps [of F env c name op a last_err s]
    retry_do_from.simps [of F "log_env env" c name "log_op op" a last_err "(s, tr)"]
  have done_eq: "re_done (log_env env) (s, tr) = re_done env s" by (simp add: log_env_def)
  show ?case
  proof (cases "rc_max_attempts c < a \<or> re_done env s \<noteq> None")
    case True
    then show ?thesis
      by (intro exI [of _ "[]"]) (auto simp: unf done_eq split: option.split)
  next
    case go: False
    obtain e s1 where op: "op a s = (e, s1)" by fastforce
    have opl: "log_op op a (s, tr) = (e, (s1, tr @ [e]))" by (simp add: log_op_def op)
    show ?thesis
    proof (cases e)
      case None
      then show ?thesis
        using go by (intro exI [of _ "[None]"]) (auto simp: unf done_eq op opl)
    next
      case (Some err)
      obtain e2 s2 where af: "after_failure F env c name a err s1 = (e2, s2)" by fastforce
      have afl: "after_failure F (log_env env) c name a err (s1, tr @ [Some err])
          = (e2, (s2, tr @ [Some err]))"
        by (simp add: after_failure_log af)
      show ?thesis
      proof (cases e2)
        case stop: (Some e3)
        then show ?thesis
          using go by (intro exI [of _ "[e]"]) (auto simp: unf done_eq op opl Some af afl)
      next
        case None
        have more: "is_retryable c (Some err)" "a < rc_max_attempts c"
          using after_failure_goes_on [of F env c name a err s1 s2] af None by simp_all
        obtain new r s' where ih:
          "retry_do_from F env c name op (a + 1) err s2 = (r, s')"
          "retry_do_from F (log_env env) c name (log_op op) (a + 1) err (s2, tr @ [e])
             = (r, (s', (tr @ [e]) @ new))"
          "length new \<le> nat (rc_max_attempts c + 1 - (a + 1))"
          "r = None \<longleftrightarrow> new \<noteq> [] \<and> last new = None"
          "list_all (is_retryable c) (butlast new)"
          using "1.IH" [where tr = "tr @ [e]"] go op Some af None by fastforce
        have "retry_do_from F env c name op a last_err s = (r, s')"
          using go by (simp add: unf op Some af None ih(1))
        moreover have "retry_do_from F (log_env env) c name (log_op op) a last_err (s, tr)
            = (r, (s', tr @ (e # new)))"
          using go ih(2) by (simp add: unf done_eq opl Some afl None)
        moreover have "length (e # new) \<le> nat (rc_max_attempts c + 1 - a)"
          using ih(3) more(2) by simp
        moreover have "r = None \<longleftrightarrow> e # new \<noteq> [] \<and> last (e # new) = None"
          using ih(4) Some by (cases new) auto
        moreover have "list_all (is_retryable c) (butlast (e # new))"
          using ih(5) more(1) Some by simp
        ultimately show ?thesis by blast
      qed
    qed
  qed
qed

lemma new_retryer_attempts: "1 \<le> rc_max_attempts (new_retryer F c)"
  by (simp add: new_retryer_def Let_def split: option.split)

text \<open>
  C7: the loop always returns, after at most \<open>MaxAttempts\<close> calls of the operation.  It returns nil
  exactly when the operation was called and its last call succeeded; every call but the last
  failed with an error that is retried; and recording the calls changes nothing.
\<close>

theorem retry_loop_outcome:
  "\<exists>calls r s'. with_custom_retry F env name c op s = (r, s')
     \<and> with_custom_retry F (log_env env) name c (log_op op) (s, []) = (r, (s', calls))
     \<and> int (length calls) \<le> rc_max_attempts (new_retryer F c)
     \<and> (r = None \<longleftrightarrow> calls \<noteq> [] \<and> last calls = None)
     \<and> list_all (is_retryable (new_retryer F c)) (butlast calls)"
proof -
  obtain calls r s' where run:
    "retry_do_from F env (new_retryer F c) name op 1 nil_error s = (r, s')"
    "retry_do_from F (log_env env) (new_retryer F c) name (log_op op) 1 nil_error (s, [])
       = (r, (s', [] @ calls))"
    "length calls \<le> nat (rc_max_attempts (new_retryer F c) + 1 - 1)"
    "r = None \<longleftrightarrow> calls \<noteq> [] \<and> last calls = None"
    "list_all (is_retryable (new_retryer F c)) (butlast calls)"
    using retry_do_from_run [of F env "new_retryer F c" name op 1 nil_error s "[]"] by blast
  moreover have "int (length calls) \<le> rc_max_attempts (new_retryer F c)"
    using run(3) new_retryer_attempts [of F c] by linarith
  ultimately show ?thesis by (auto simp: with_custom_retry_def retry_do_def)
qed

definition without_result :: "(int \<Rightarrow> 's \<Rightarrow> (go_error + 'r) \<times> 's) \<Rightarrow> int \<Rightarrow> 's \<Rightarrow> go_error option \<times> 's" where
  "without_result op attempt s =
     (case op attempt s of (Inl e, s') \<Rightarrow> (Some e, s') | (Inr r, s') \<Rightarrow> (None, s'))"

lemma retry_result_from_do:
  "retry_do_from F env c name (without_result op) a last_err s =
     (case retry_result_from F env c name op a last_err s of
        (Inl e, s') \<Rightarrow> (Some e, s') | (Inr r, s') \<Rightarrow> (None, s'))"
proof (induction F env c name op a last_err s rule: retry_result_from.induct)
  case (1 F env c name op a last_err s)
  show ?case
    by (subst retry_do_from.simps, subst retry_result_from.simps)
      (auto simp: without_result_def 1 split: option.split prod.split sum.split)
qed

text \<open>
  \<open>DoWithResult\<close> and \<open>Do\<close> are the same loop: on an operation with a result, \<open>Do\<close> of the
  operation without it ends in the same state with the same error, or with nil.
\<close>

theorem do_is_do_with_result:
  "retry_do F env c name (without_result op) s =
     (case retry_result F env c name op s of
        (Inl e, s') \<Rightarrow> (Some e, s') | (Inr r, s') \<Rightarrow> (None, s'))"
  unfolding retry_do_def retry_result_def by (rule retry_result_from_do)

end
