(* ===== verification/Rbac.thy ===== *)
theory Rbac
  imports Go_Prelude
begin

text \<open>
  Role-based access control, \<open>daemon/rbac/rbac.go\<close>: the table of the permissions of each role,
  the manager's users and its operations.  A role, a resource and an action are strings, as in
  the code, so that the validation of roles is part of the model.  \<open>GetUser\<close> and \<open>ListUsers\<close>
  hand out the stored objects; what a caller does with them is not modelled.
\<close>

section \<open>Roles, resources and actions\<close>

type_synonym role = string
type_synonym action = string
type_synonym resource = string

definition role_admin :: role where "role_admin = ''admin''"
definition role_operator :: role where "role_operator = ''operator''"
definition role_viewer :: role where "role_viewer = ''viewer''"

definition action_create :: action where "action_create = ''create''"
definition action_read :: action where "action_read = ''read''"
definition action_update :: action where "action_update = ''update''"
definition action_delete :: action where "action_delete = ''delete''"
definition action_export :: action where "action_export = ''export''"
definition action_cancel :: action where "action_cancel = ''cancel''"

definition resource_vm :: resource where "resource_vm = ''vm''"
definition resource_job :: resource where "resource_job = ''job''"
definition resource_schedule :: resource where "resource_schedule = ''schedule''"
definition resource_webhook :: resource where "resource_webhook = ''webhook''"
definition resource_user :: resource where "resource_user = ''user''"
definition resource_system :: resource where "resource_system = ''system''"

lemmas role_names = role_admin_def role_operator_def role_viewer_def
lemmas action_names = action_create_def action_read_def action_update_def action_delete_def
  action_export_def action_cancel_def
lemmas resource_names = resource_vm_def resource_job_def resource_schedule_def
  resource_webhook_def resource_user_def resource_system_def
lemmas rbac_names = role_names action_names resource_names

record permission =
  pm_resource :: resource
  pm_action :: action

definition perm :: "resource \<Rightarrow> action \<Rightarrow> permission" where
  "perm r a = \<lparr>pm_resource = r, pm_action = a\<rparr>"

definition permission_string :: "permission \<Rightarrow> string" where
  "permission_string p = pm_resource p @ '':'' @ pm_action p"

definition role_permissions :: "(role, permission list) gomap" where
  "role_permissions =
     [(role_admin,
       [perm resource_vm action_create, perm resource_vm action_read,
        perm resource_vm action_update, perm resource_vm action_delete,
        perm resource_vm action_export,
        perm resource_job action_create, perm resource_job action_read,
        perm resource_job action_update, perm resource_job action_delete,
        perm resource_job action_cancel,
        perm resource_schedule action_create, perm resource_schedule action_read,
        perm resource_schedule action_update, perm resource_schedule action_delete,
        perm resource_webhook action_create, perm resource_webhook action_read,
        perm resource_webhook action_update, perm resource_webhook action_delete,
        perm resource_user action_create, perm resource_user action_read,
        perm resource_user action_update, perm resource_user action_delete,
        perm resource_system action_read, perm resource_system action_update]),
      (role_operator,
       [perm resource_vm action_read, perm resource_vm action_export,
        perm resource_job action_create, perm resource_job action_read,
        perm resource_job action_cancel, perm resource_schedule action_read,
        perm resource_webhook action_read, perm resource_user action_read,
        perm resource_system action_read]),
      (role_viewer,
       [perm resource_vm action_read, perm resource_job action_read,
        perm resource_schedule action_read, perm resource_webhook action_read,
        perm resource_user action_read, perm resource_system action_read])]"

definition is_valid_role :: "role \<Rightarrow> bool" where
  "is_valid_role r \<longleftrightarrow> r = role_admin \<or> r = role_operator \<or> r = role_viewer"

definition get_all_roles :: "role list" where
  "get_all_roles = [role_admin, role_operator, role_viewer]"

definition get_role_description :: "role \<Rightarrow> string" where
  "get_role_description r =
     (if r = role_admin then ''Full administrative access to all resources and operations''
      else if r = role_operator then ''Can export VMs, manage jobs, and view system status''
      else if r = role_viewer
        then ''Read-only access to VMs, jobs, schedules, and system status''
      else ''Unknown role'')"

section \<open>The manager\<close>

record rbac_user =
  us_username :: string
  us_roles :: "role list"

record rbac =
  rb_users :: "(string, rbac_user) gomap"

datatype rbac_error =
    EmptyUsername
  | InvalidRole role
  | UserNotFound string
  | NoPermission string resource action

definition new_rbac :: rbac where
  "new_rbac = \<lparr>rb_users = []\<rparr>"

text \<open>The validation loop stops at the first invalid role.\<close>

fun first_invalid :: "role list \<Rightarrow> role option" where
  "first_invalid [] = None"
| "first_invalid (r # rs) = (if \<not> is_valid_role r then Some r else first_invalid rs)"

definition add_user :: "string \<Rightarrow> role list \<Rightarrow> rbac \<Rightarrow> rbac_error option \<times> rbac" where
  "add_user u roles m =
     (if u = [] then (Some EmptyUsername, m)
      else case first_invalid roles of
             Some r \<Rightarrow> (Some (InvalidRole r), m)
           | None \<Rightarrow>
               (None, m\<lparr>rb_users := gm_put u \<lparr>us_username = u, us_roles = roles\<rparr> (rb_users m)\<rparr>))"

definition remove_user :: "string \<Rightarrow> rbac \<Rightarrow> rbac_error option \<times> rbac" where
  "remove_user u m =
     (case gm_get (rb_users m) u of
        None \<Rightarrow> (Some (UserNotFound u), m)
      | Some _ \<Rightarrow> (None, m\<lparr>rb_users := gm_del u (rb_users m)\<rparr>))"

definition get_user :: "string \<Rightarrow> rbac \<Rightarrow> rbac_error + rbac_user" where
  "get_user u m =
     (case gm_get (rb_users m) u of
        None \<Rightarrow> Inl (UserNotFound u)
      | Some us \<Rightarrow> Inr us)"

definition update_user_roles :: "string \<Rightarrow> role list \<Rightarrow> rbac \<Rightarrow> rbac_error option \<times> rbac" where
  "update_user_roles u roles m =
     (case gm_get (rb_users m) u of
        None \<Rightarrow> (Some (UserNotFound u), m)
      | Some us \<Rightarrow>
          (case first_invalid roles of
             Some r \<Rightarrow> (Some (InvalidRole r), m)
           | None \<Rightarrow> (None, m\<lparr>rb_users := gm_put u (us\<lparr>us_roles := roles\<rparr>) (rb_users m)\<rparr>)))"

text \<open>
  The two nested loops of \<open>CheckPermission\<close>: over the roles of the user, skipping those the
  table does not have, and over the permissions of a role.
\<close>

fun grants :: "resource \<Rightarrow> action \<Rightarrow> permission list \<Rightarrow> bool" where
  "grants r a [] = False"
| "grants r a (p # ps) = (if pm_resource p = r \<and> pm_action p = a then True else grants r a ps)"

fun any_role_grants :: "resource \<Rightarrow> action \<Rightarrow> role list \<Rightarrow> bool" where
  "any_role_grants r a [] = False"
| "any_role_grants r a (role # roles) =
     (case gm_get role_permissions role of
        None \<Rightarrow> any_role_grants r a roles
      | Some ps \<Rightarrow> if grants r a ps then True else any_role_grants r a roles)"

definition check_permission ::
  "string \<Rightarrow> resource \<Rightarrow> action \<Rightarrow> rbac \<Rightarrow> rbac_error option" where
  "check_permission u r a m =
     (case gm_get (rb_users m) u of
        None \<Rightarrow> Some (UserNotFound u)
      | Some us \<Rightarrow> if any_role_grants r a (us_roles us) then None else Some (NoPermission u r a))"

definition has_role :: "string \<Rightarrow> role \<Rightarrow> rbac \<Rightarrow> bool" where
  "has_role u role m =
     (case gm_get (rb_users m) u of
        None \<Rightarrow> False
      | Some us \<Rightarrow> List.member (us_roles us) role)"

definition list_users :: "rbac \<Rightarrow> rbac_user list" where
  "list_users m = map snd (rb_users m)"

text \<open>\<open>GetUserPermissions\<close> collects the permissions in a map keyed by their rendering.\<close>

fun collect_permissions :: "role list \<Rightarrow> (string, permission) gomap \<Rightarrow> (string, permission) gomap" where
  "collect_permissions [] pm = pm"
| "collect_permissions (role # roles) pm =
     (case gm_get role_permissions role of
        None \<Rightarrow> collect_permissions roles pm
      | Some ps \<Rightarrow>
          collect_permissions roles (fold (\<lambda>p. gm_put (permission_string p) p) ps pm))"

definition get_user_permissions :: "string \<Rightarrow> rbac \<Rightarrow> rbac_error + permission list" where
  "get_user_permissions u m =
     (case gm_get (rb_users m) u of
        None \<Rightarrow> Inl (UserNotFound u)
      | Some us \<Rightarrow> Inr (map snd (collect_permissions (us_roles us) [])))"

record resource_permissions =
  rp_resource :: resource
  rp_create :: bool
  rp_read :: bool
  rp_update :: bool
  rp_delete :: bool
  rp_export :: bool
  rp_cancel :: bool

definition no_permissions :: "resource \<Rightarrow> resource_permissions" where
  "no_permissions r = \<lparr>rp_resource = r, rp_create = False, rp_read = False, rp_update = False,
     rp_delete = False, rp_export = False, rp_cancel = False\<rparr>"

definition note_permission :: "resource \<Rightarrow> permission \<Rightarrow> resource_permissions \<Rightarrow> resource_permissions" where
  "note_permission r p rp =
     (if pm_resource p = r
      then if pm_action p = action_create then rp\<lparr>rp_create := True\<rparr>
           else if pm_action p = action_read then rp\<lparr>rp_read := True\<rparr>
           else if pm_action p = action_update then rp\<lparr>rp_update := True\<rparr>
           else if pm_action p = action_delete then rp\<lparr>rp_delete := True\<rparr>
           else if pm_action p = action_export then rp\<lparr>rp_export := True\<rparr>
           else if pm_action p = action_cancel then rp\<lparr>rp_cancel := True\<rparr>
           else rp
      else rp)"

definition get_user_resource_permissions ::
  "string \<Rightarrow> resource \<Rightarrow> rbac \<Rightarrow> rbac_error + resource_permissions" where
  "get_user_resource_permissions u r m =
     (case get_user_permissions u m of
        Inl e \<Rightarrow> Inl e
      | Inr ps \<Rightarrow> Inr (fold (note_permission r) ps (no_permissions r)))"

section \<open>What the table grants\<close>

definition role_perms :: "role \<Rightarrow> permission set" where
  "role_perms role = (case gm_get role_permissions role of None \<Rightarrow> {} | Some ps \<Rightarrow> set ps)"

text \<open>
  The policy the table stands for, in words of its own: viewers read everything, operators also
  export machines and create and cancel jobs, administrators also create, update and delete
  everything but the system, which they only update.
\<close>

definition may_view :: "resource \<Rightarrow> action \<Rightarrow> bool" where
  "may_view r a \<longleftrightarrow> a = action_read \<and>
     r \<in> {resource_vm, resource_job, resource_schedule, resource_webhook, resource_user,
          resource_system}"

definition may_operate :: "resource \<Rightarrow> action \<Rightarrow> bool" where
  "may_operate r a \<longleftrightarrow> may_view r a \<or> r = resource_vm \<and> a = action_export \<or>
     r = resource_job \<and> a \<in> {action_create, action_cancel}"

definition may_administer :: "resource \<Rightarrow> action \<Rightarrow> bool" where
  "may_administer r a \<longleftrightarrow> may_operate r a \<or>
     a \<in> {action_create, action_update, action_delete} \<and>
     r \<in> {resource_vm, resource_job, resource_schedule, resource_webhook, resource_user} \<or>
     r = resource_system \<and> a = action_update"

definition may :: "role \<Rightarrow> resource \<Rightarrow> action \<Rightarrow> bool" where
  "may role r a \<longleftrightarrow>
     role = role_admin \<and> may_administer r a \<or> role = role_operator \<and> may_operate r a \<or>
     role = role_viewer \<and> may_view r a"

lemmas policy_defs = may_def may_administer_def may_operate_def may_view_def

lemma perm_eq [simp]: "perm r a = perm r' a' \<longleftrightarrow> r = r' \<and> a = a'"
  by (simp add: perm_def)

lemma permission_is_perm: "p = perm (pm_resource p) (pm_action p)"
  by (simp add: perm_def)

lemma role_perms_simps:
  "role_perms role =
     (if role = role_admin then set (snd (role_permissions ! 0))
      else if role = role_operator then set (snd (role_permissions ! 1))
      else if role = role_viewer then set (snd (role_permissions ! 2)) else {})"
  by (simp add: role_perms_def role_permissions_def role_names)

lemma role_distinct: "role_admin \<noteq> role_operator" "role_admin \<noteq> role_viewer"
  "role_operator \<noteq> role_viewer"
  by (simp_all add: role_names)

lemma resource_cases:
  obtains "r = resource_vm" | "r = resource_job" | "r = resource_schedule"
    | "r = resource_webhook" | "r = resource_user" | "r = resource_system"
    | "r \<notin> {resource_vm, resource_job, resource_schedule, resource_webhook, resource_user,
             resource_system}"
  by blast

lemma table_admin: "perm r a \<in> set (snd (role_permissions ! 0)) \<longleftrightarrow> may_administer r a"
  by (cases rule: resource_cases [of r])
     (simp_all add: role_permissions_def policy_defs resource_names, auto)

lemma table_operator: "perm r a \<in> set (snd (role_permissions ! 1)) \<longleftrightarrow> may_operate r a"
  by (cases rule: resource_cases [of r])
     (simp_all add: role_permissions_def policy_defs resource_names, auto)

lemma table_viewer: "perm r a \<in> set (snd (role_permissions ! 2)) \<longleftrightarrow> may_view r a"
  by (cases rule: resource_cases [of r])
     (simp_all add: role_permissions_def policy_defs resource_names)

lemma role_perms_may: "perm r a \<in> role_perms role \<longleftrightarrow> may role r a"
  using role_distinct
  by (simp only: role_perms_simps may_def split: if_split)
    (auto simp only: table_admin table_operator table_viewer empty_iff)

lemma grants_iff: "grants r a ps \<longleftrightarrow> perm r a \<in> set ps"
  by (induction ps) (auto simp: perm_def)

lemma any_role_grants_iff: "any_role_grants r a roles \<longleftrightarrow> (\<exists>role \<in> set roles. may role r a)"
  by (induction roles)
     (auto simp: grants_iff role_perms_may [symmetric] role_perms_def split: option.splits)

lemma first_invalid_None: "first_invalid roles = None \<longleftrightarrow> (\<forall>r \<in> set roles. is_valid_role r)"
  by (induction roles) auto

lemma first_invalid_Some: "first_invalid roles = Some r \<Longrightarrow> r \<in> set roles \<and> \<not> is_valid_role r"
  by (induction roles) (auto split: if_splits)

section \<open>Collecting permissions\<close>

text \<open>No two permissions of the table have the same rendering.\<close>

lemma role_perms_admin: "role_perms role \<subseteq> role_perms role_admin"
proof
  fix p assume "p \<in> role_perms role"
  then have "may role (pm_resource p) (pm_action p)"
    using role_perms_may permission_is_perm by metis
  then have "may role_admin (pm_resource p) (pm_action p)"
    by (auto simp: policy_defs)
  then show "p \<in> role_perms role_admin"
    using role_perms_may permission_is_perm by metis
qed

lemma permission_string_inj: "inj_on permission_string (role_perms role_admin)"
proof -
  have "distinct (map permission_string (snd (role_permissions ! 0)))"
    by (simp add: role_permissions_def permission_string_def perm_def rbac_names)
  then show ?thesis by (simp add: role_perms_simps distinct_map)
qed

definition keyed :: "(string, permission) gomap \<Rightarrow> bool" where
  "keyed pm \<longleftrightarrow> gm_wf pm \<and> snd ` set pm \<subseteq> role_perms role_admin \<and>
     (\<forall>(k, p) \<in> set pm. k = permission_string p)"

lemma keyed_put:
  assumes pm: "keyed pm" and p: "p \<in> role_perms role_admin"
  shows "keyed (gm_put (permission_string p) p pm) \<and>
         snd ` set (gm_put (permission_string p) p pm) = insert p (snd ` set pm)"
proof -
  let ?k = "permission_string p"
  have same: "q = p" if "(?k, q) \<in> set pm" for q
  proof -
    have "permission_string q = ?k" "q \<in> role_perms role_admin"
      using pm that by (force simp: keyed_def)+
    then show ?thesis using permission_string_inj p by (metis inj_onD)
  qed
  have wf: "gm_wf pm" using pm by (simp add: keyed_def)
  have entries: "(k, q) \<in> set (gm_put ?k p pm) \<longleftrightarrow> (k, q) \<in> set pm \<or> k = ?k \<and> q = p" for k q
    using gm_in_get [OF wf, of k q] gm_in_get [OF gm_wf_put [OF wf], of k q ?k p] same [of q]
    by (auto simp: gm_get_put split: if_splits)
  have snds: "snd ` set (gm_put ?k p pm) = insert p (snd ` set pm)"
  proof (rule set_eqI)
    fix q
    have "q \<in> snd ` set (gm_put ?k p pm) \<longleftrightarrow> (\<exists>k. (k, q) \<in> set (gm_put ?k p pm))" by force
    also have "\<dots> \<longleftrightarrow> q \<in> insert p (snd ` set pm)" by (force simp: entries)
    finally show "q \<in> snd ` set (gm_put ?k p pm) \<longleftrightarrow> q \<in> insert p (snd ` set pm)" .
  qed
  have "k = permission_string q" if "(k, q) \<in> set (gm_put ?k p pm)" for k q
    using that pm by (auto simp: entries keyed_def)
  with snds pm p show ?thesis by (auto simp: keyed_def)
qed

lemma keyed_fold:
  "keyed pm \<Longrightarrow> set ps \<subseteq> role_perms role_admin \<Longrightarrow>
   keyed (fold (\<lambda>p. gm_put (permission_string p) p) ps pm) \<and>
   snd ` set (fold (\<lambda>p. gm_put (permission_string p) p) ps pm) = set ps \<union> snd ` set pm"
proof (induction ps arbitrary: pm)
  case (Cons p ps)
  with keyed_put [of pm p] show ?case by simp
qed simp

lemma collect_permissions_set:
  "keyed pm \<Longrightarrow> keyed (collect_permissions roles pm) \<and>
   snd ` set (collect_permissions roles pm) = (\<Union>role \<in> set roles. role_perms role) \<union> snd ` set pm"
proof (induction roles arbitrary: pm)
  case (Cons role roles)
  show ?case
  proof (cases "gm_get role_permissions role")
    case None
    then have "role_perms role = {}" by (simp add: role_perms_def)
    with Cons None show ?thesis by simp
  next
    case (Some ps)
    then have ps: "role_perms role = set ps" by (simp add: role_perms_def)
    have "set ps \<subseteq> role_perms role_admin" using role_perms_admin [of role] ps by simp
    from keyed_fold [OF Cons.prems this] Cons.IH Some ps show ?thesis by (simp add: Un_ac)
  qed
qed simp

lemma keyed_Nil: "keyed []"
  by (simp add: keyed_def)

lemma keyed_distinct_values: "keyed pm \<Longrightarrow> distinct (map snd pm)"
proof -
  assume pm: "keyed pm"
  then have "map fst pm = map permission_string (map snd pm)"
    by (auto simp: keyed_def)
  moreover have "distinct (map fst pm)" using pm by (simp add: keyed_def gm_wf_def)
  ultimately have "distinct (map permission_string (map snd pm))" by metis
  then show ?thesis by (rule distinct_map [THEN iffD1, THEN conjunct1])
qed

section \<open>The flags of a resource\<close>

lemma note_permission_resource [simp]: "rp_resource (note_permission r p rp) = rp_resource rp"
  by (simp add: note_permission_def)

lemma note_permission_flags:
  "rp_create (note_permission r p rp) \<longleftrightarrow> rp_create rp \<or> p = perm r action_create"
  "rp_read (note_permission r p rp) \<longleftrightarrow> rp_read rp \<or> p = perm r action_read"
  "rp_update (note_permission r p rp) \<longleftrightarrow> rp_update rp \<or> p = perm r action_update"
  "rp_delete (note_permission r p rp) \<longleftrightarrow> rp_delete rp \<or> p = perm r action_delete"
  "rp_export (note_permission r p rp) \<longleftrightarrow> rp_export rp \<or> p = perm r action_export"
  "rp_cancel (note_permission r p rp) \<longleftrightarrow> rp_cancel rp \<or> p = perm r action_cancel"
  by (auto simp: note_permission_def perm_def action_names)

lemma fold_note_flags:
  "rp_resource (fold (note_permission r) ps rp) = rp_resource rp"
  "rp_create (fold (note_permission r) ps rp) \<longleftrightarrow> rp_create rp \<or> perm r action_create \<in> set ps"
  "rp_read (fold (note_permission r) ps rp) \<longleftrightarrow> rp_read rp \<or> perm r action_read \<in> set ps"
  "rp_update (fold (note_permission r) ps rp) \<longleftrightarrow> rp_update rp \<or> perm r action_update \<in> set ps"
  "rp_delete (fold (note_permission r) ps rp) \<longleftrightarrow> rp_delete rp \<or> perm r action_delete \<in> set ps"
  "rp_export (fold (note_permission r) ps rp) \<longleftrightarrow> rp_export rp \<or> perm r action_export \<in> set ps"
  "rp_cancel (fold (note_permission r) ps rp) \<longleftrightarrow> rp_cancel rp \<or> perm r action_cancel \<in> set ps"
  by (induction ps arbitrary: rp) (auto simp: note_permission_flags)

section \<open>The manager refines the policy\<close>

text \<open>
  The requests of the manager, and what it answers: whether the request was accepted.  The
  abstract manager keeps the set of roles of each user and decides by \<open>may\<close>.
\<close>

datatype rbac_request =
    AddUser string "role list"
  | RemoveUser string
  | UpdateUserRoles string "role list"
  | CheckPermission string resource action
  | HasRole string role

fun rbac_exec :: "rbac_request \<Rightarrow> rbac \<Rightarrow> bool \<times> rbac" where
  "rbac_exec (AddUser u roles) m = (let (e, m') = add_user u roles m in (e = None, m'))"
| "rbac_exec (RemoveUser u) m = (let (e, m') = remove_user u m in (e = None, m'))"
| "rbac_exec (UpdateUserRoles u roles) m =
     (let (e, m') = update_user_roles u roles m in (e = None, m'))"
| "rbac_exec (CheckPermission u r a) m = (check_permission u r a m = None, m)"
| "rbac_exec (HasRole u role) m = (has_role u role m, m)"

type_synonym policy_state = "string \<Rightarrow> role set option"

fun policy_exec :: "rbac_request \<Rightarrow> policy_state \<Rightarrow> bool \<times> policy_state" where
  "policy_exec (AddUser u roles) s =
     (if u \<noteq> [] \<and> set roles \<subseteq> set get_all_roles then (True, s(u \<mapsto> set roles)) else (False, s))"
| "policy_exec (RemoveUser u) s = (if s u = None then (False, s) else (True, s(u := None)))"
| "policy_exec (UpdateUserRoles u roles) s =
     (if s u \<noteq> None \<and> set roles \<subseteq> set get_all_roles then (True, s(u \<mapsto> set roles)) else (False, s))"
| "policy_exec (CheckPermission u r a) s =
     ((case s u of None \<Rightarrow> False | Some R \<Rightarrow> \<exists>role \<in> R. may role r a), s)"
| "policy_exec (HasRole u role) s = ((case s u of None \<Rightarrow> False | Some R \<Rightarrow> role \<in> R), s)"

fun run_requests :: "('q \<Rightarrow> 's \<Rightarrow> bool \<times> 's) \<Rightarrow> 'q list \<Rightarrow> 's \<Rightarrow> bool list \<times> 's" where
  "run_requests f [] s = ([], s)"
| "run_requests f (q # qs) s =
     (let (b, s1) = f q s; (bs, s2) = run_requests f qs s1 in (b # bs, s2))"

definition rbac_abs :: "rbac \<Rightarrow> policy_state" where
  "rbac_abs m = (\<lambda>u. map_option (set \<circ> us_roles) (gm_get (rb_users m) u))"

lemma all_roles_valid: "set roles \<subseteq> set get_all_roles \<longleftrightarrow> first_invalid roles = None"
  by (auto simp: first_invalid_None is_valid_role_def get_all_roles_def)

lemma rbac_abs_put:
  "rbac_abs (m\<lparr>rb_users := gm_put u us (rb_users m)\<rparr>) = (rbac_abs m)(u \<mapsto> set (us_roles us))"
  by (rule ext) (simp add: rbac_abs_def gm_get_put)

lemma rbac_abs_del: "rbac_abs (m\<lparr>rb_users := gm_del u (rb_users m)\<rparr>) = (rbac_abs m)(u := None)"
  by (rule ext) (simp add: rbac_abs_def gm_get_del)

lemma rbac_abs_None: "rbac_abs m u = None \<longleftrightarrow> gm_get (rb_users m) u = None"
  by (simp add: rbac_abs_def)

lemma rbac_exec_refines:
  "policy_exec q (rbac_abs m) = (fst (rbac_exec q m), rbac_abs (snd (rbac_exec q m)))"
proof (cases q)
  case (AddUser u roles)
  then show ?thesis
    by (simp add: add_user_def all_roles_valid rbac_abs_put split: option.split)
next
  case (RemoveUser u)
  then show ?thesis
    by (simp add: remove_user_def rbac_abs_None rbac_abs_del split: option.split)
next
  case (UpdateUserRoles u roles)
  then show ?thesis
    by (simp add: update_user_roles_def all_roles_valid rbac_abs_None rbac_abs_put
        split: option.split)
next
  case (CheckPermission u r a)
  then show ?thesis
    by (simp add: check_permission_def rbac_abs_def any_role_grants_iff split: option.split)
next
  case (HasRole u role)
  then show ?thesis by (simp add: has_role_def rbac_abs_def split: option.split)
qed

lemma run_requests_refines:
  "run_requests policy_exec qs (rbac_abs m) =
     (fst (run_requests rbac_exec qs m), rbac_abs (snd (run_requests rbac_exec qs m)))"
proof (induction qs arbitrary: m)
  case (Cons q qs)
  show ?case
    using Cons [of "snd (rbac_exec q m)"] rbac_exec_refines [of q m]
    by (simp add: split_beta)
qed simp

text \<open>
  C10: The access control manager implements the access policy: whatever requests arrive and in
  whatever order, it accepts exactly those that the policy accepts, where the policy knows only
  the set of roles of each user and grants an action when one of them may perform it, and its
  users carry the roles the policy records.
\<close>

theorem rbac_refines_policy:
  "run_requests policy_exec qs (rbac_abs new_rbac) =
     (fst (run_requests rbac_exec qs new_rbac), rbac_abs (snd (run_requests rbac_exec qs new_rbac)))"
  by (rule run_requests_refines)

text \<open>What every stored user looks like.\<close>

definition rbac_ok :: "rbac \<Rightarrow> bool" where
  "rbac_ok m \<longleftrightarrow> gm_wf (rb_users m) \<and>
     (\<forall>u us. gm_get (rb_users m) u = Some us \<longrightarrow>
        u \<noteq> [] \<and> us_username us = u \<and> set (us_roles us) \<subseteq> set get_all_roles)"

lemma rbac_ok_new: "rbac_ok new_rbac"
  by (simp add: rbac_ok_def new_rbac_def)

lemma rbac_ok_put:
  assumes "rbac_ok m" and "u \<noteq> []" and "us_username us = u" and "first_invalid (us_roles us) = None"
  shows "rbac_ok (m\<lparr>rb_users := gm_put u us (rb_users m)\<rparr>)"
  using assms by (auto simp: rbac_ok_def gm_get_put all_roles_valid)

lemma rbac_ok_exec: "rbac_ok m \<Longrightarrow> rbac_ok (snd (rbac_exec q m))"
proof (cases q)
  case (AddUser u roles)
  assume "rbac_ok m"
  then show ?thesis
    using rbac_ok_put [of m u "\<lparr>us_username = u, us_roles = roles\<rparr>"]
    by (simp add: AddUser add_user_def split: option.split)
next
  case (RemoveUser u)
  assume "rbac_ok m"
  then show ?thesis
    by (auto simp: RemoveUser remove_user_def rbac_ok_def gm_get_del split: option.split)
next
  case (UpdateUserRoles u roles)
  assume ok: "rbac_ok m"
  show ?thesis
  proof (cases "gm_get (rb_users m) u")
    case (Some us)
    with ok have "u \<noteq> []" "us_username us = u" by (auto simp: rbac_ok_def)
    with ok Some show ?thesis
      using rbac_ok_put [of m u "us\<lparr>us_roles := roles\<rparr>"]
      by (simp add: UpdateUserRoles update_user_roles_def split: option.split)
  qed (simp add: ok UpdateUserRoles update_user_roles_def)
qed simp_all

lemma rbac_ok_run: "rbac_ok m \<Longrightarrow> rbac_ok (snd (run_requests rbac_exec qs m))"
proof (induction qs arbitrary: m)
  case (Cons q qs)
  then show ?case
    using Cons.IH [of "snd (rbac_exec q m)"] rbac_ok_exec [of m q] by (simp add: split_beta)
qed simp

lemma may_needs_admin:
  "may role r a \<Longrightarrow> a = action_update \<or> a = action_delete \<Longrightarrow> role = role_admin"
  by (auto simp: policy_defs action_names)

text \<open>
  C17: After any requests every stored user has a name, is stored under it and has only the
  three known roles, and updating or deleting anything is granted to users with the
  administrator's role only.
\<close>

theorem changes_need_admin:
  "let m = snd (run_requests rbac_exec qs new_rbac)
   in (\<forall>u us. get_user u m = Inr us \<longrightarrow>
         u \<noteq> [] \<and> us_username us = u \<and> (\<forall>role \<in> set (us_roles us). is_valid_role role)) \<and>
      (\<forall>u r a. a \<in> {action_update, action_delete} \<longrightarrow> check_permission u r a m = None \<longrightarrow>
         has_role u role_admin m)"
proof -
  let ?m = "snd (run_requests rbac_exec qs new_rbac)"
  have ok: "rbac_ok ?m" by (intro rbac_ok_run rbac_ok_new)
  have "u \<noteq> [] \<and> us_username us = u \<and> (\<forall>role \<in> set (us_roles us). is_valid_role role)"
    if "get_user u ?m = Inr us" for u us
    using that ok
    by (auto simp: get_user_def rbac_ok_def is_valid_role_def get_all_roles_def
        split: option.splits)
  moreover have "has_role u role_admin ?m"
    if "a \<in> {action_update, action_delete}" "check_permission u r a ?m = None" for u r a
  proof -
    from that(2) obtain us role where "gm_get (rb_users ?m) u = Some us"
      "role \<in> set (us_roles us)" "may role r a"
      by (auto simp: check_permission_def any_role_grants_iff split: option.splits if_splits)
    with may_needs_admin [of role r a] that(1) show ?thesis by (auto simp: has_role_def)
  qed
  ultimately show ?thesis unfolding Let_def by blast
qed

theorem changes_need_admin_witness:
  "check_permission ''root'' resource_job action_delete
     (snd (run_requests rbac_exec [AddUser ''root'' [role_viewer, role_admin]] new_rbac)) = None \<and>
   has_role ''root'' role_admin
     (snd (run_requests rbac_exec [AddUser ''root'' [role_viewer, role_admin]] new_rbac))"
proof -
  let ?m = "snd (run_requests rbac_exec [AddUser ''root'' [role_viewer, role_admin]] new_rbac)"
  have "check_permission ''root'' resource_job action_delete ?m = None" by code_simp
  with changes_need_admin [of "[AddUser ''root'' [role_viewer, role_admin]]"]
  show ?thesis unfolding Let_def by blast
qed

text \<open>
  For every user the listing of permissions, the flags of a resource and the permission
  check agree: the listing fails exactly for unknown users, lists each permission once, lists
  exactly those that the check grants, and the six flags are the check's answers.
\<close>

theorem permission_views_agree:
  "case get_user_permissions u m of
     Inl e \<Rightarrow> e = UserNotFound u \<and> get_user_resource_permissions u r m = Inl e \<and>
       check_permission u r a m = Some e
   | Inr ps \<Rightarrow> distinct ps \<and> (perm r a \<in> set ps \<longleftrightarrow> check_permission u r a m = None) \<and>
       get_user_resource_permissions u r m =
         Inr \<lparr>rp_resource = r, rp_create = (check_permission u r action_create m = None),
              rp_read = (check_permission u r action_read m = None),
              rp_update = (check_permission u r action_update m = None),
              rp_delete = (check_permission u r action_delete m = None),
              rp_export = (check_permission u r action_export m = None),
              rp_cancel = (check_permission u r action_cancel m = None)\<rparr>"
proof (cases "gm_get (rb_users m) u")
  case None
  then show ?thesis
    by (simp add: get_user_permissions_def get_user_resource_permissions_def check_permission_def)
next
  case (Some us)
  let ?pm = "collect_permissions (us_roles us) []"
  have pm: "keyed ?pm" and set_pm: "snd ` set ?pm = (\<Union>role \<in> set (us_roles us). role_perms role)"
    using collect_permissions_set [OF keyed_Nil, of "us_roles us"] by simp_all
  have iff: "perm r a \<in> snd ` set ?pm \<longleftrightarrow> check_permission u r a m = None" for r a
    by (simp add: set_pm role_perms_may check_permission_def Some any_role_grants_iff)
  have flags: "fold (note_permission r) (map snd ?pm) (no_permissions r) =
      \<lparr>rp_resource = r, rp_create = (check_permission u r action_create m = None),
       rp_read = (check_permission u r action_read m = None),
       rp_update = (check_permission u r action_update m = None),
       rp_delete = (check_permission u r action_delete m = None),
       rp_export = (check_permission u r action_export m = None),
       rp_cancel = (check_permission u r action_cancel m = None)\<rparr>"
    by (rule resource_permissions.equality)
       (simp_all add: fold_note_flags iff no_permissions_def)
  from keyed_distinct_values [OF pm] iff [of r a] flags show ?thesis
    by (simp add: get_user_permissions_def get_user_resource_permissions_def Some)
qed

end
