(* ===== verification/Cloud_Storage.thy ===== *)
theory Cloud_Storage
  imports Go_Path
begin

text \<open>
  The upload of converted images, \<open>providers/common/cloud_storage.go\<close>: the configuration and its
  validation, and \<open>UploadConvertedImages\<close>.  The uploader and the file system are arguments
  (\<open>upload_env\<close>).  A nil dereference is a panic of the program, the value \<open>Panics\<close>.
\<close>

section \<open>Configuration\<close>

type_synonym cloud_provider = string

definition provider_s3 :: cloud_provider where "provider_s3 = ''s3''"
definition provider_azure :: cloud_provider where "provider_azure = ''azure''"
definition provider_gcs :: cloud_provider where "provider_gcs = ''gcs''"
definition provider_local :: cloud_provider where "provider_local = ''local''"

lemmas provider_names = provider_s3_def provider_azure_def provider_gcs_def provider_local_def

record s3_config =
  s3_bucket :: string
  s3_region :: string
  s3_access_key_id :: string
  s3_secret_access_key :: string
  s3_endpoint :: string
  s3_prefix :: string
  s3_storage_class :: string

record azure_config =
  az_account_name :: string
  az_account_key :: string
  az_connection_string :: string
  az_container :: string
  az_prefix :: string
  az_blob_type :: string

record gcs_config =
  gc_bucket :: string
  gc_project_id :: string
  gc_credentials_file :: string
  gc_prefix :: string
  gc_storage_class :: string

record cloud_config =
  cs_provider :: cloud_provider
  cs_s3 :: "s3_config option"
  cs_azure :: "azure_config option"
  cs_gcs :: "gcs_config option"
  cs_upload_parallel :: int
  cs_delete_local :: bool
  cs_encrypt :: bool
  cs_compress :: bool

datatype cloud_error =
    S3ConfigRequired
  | S3BucketRequired
  | S3RegionRequired
  | AzureConfigRequired
  | AzureAccountRequired
  | AzureContainerRequired
  | GCSConfigRequired
  | GCSBucketRequired
  | GCSProjectRequired
  | UnsupportedCloudProvider string

definition validate_cloud :: "cloud_config \<Rightarrow> cloud_error option" where
  "validate_cloud c =
     (if cs_provider c = provider_s3 then
        (case cs_s3 c of
           None \<Rightarrow> Some S3ConfigRequired
         | Some s \<Rightarrow> if s3_bucket s = [] then Some S3BucketRequired
                     else if s3_region s = [] then Some S3RegionRequired else None)
      else if cs_provider c = provider_azure then
        (case cs_azure c of
           None \<Rightarrow> Some AzureConfigRequired
         | Some a \<Rightarrow> if az_account_name a = [] then Some AzureAccountRequired
                     else if az_container a = [] then Some AzureContainerRequired else None)
      else if cs_provider c = provider_gcs then
        (case cs_gcs c of
           None \<Rightarrow> Some GCSConfigRequired
         | Some g \<Rightarrow> if gc_bucket g = [] then Some GCSBucketRequired
                     else if gc_project_id g = [] then Some GCSProjectRequired else None)
      else if cs_provider c = provider_local then None
      else Some (UnsupportedCloudProvider (cs_provider c)))"

section \<open>Uploading\<close>

record upload_result =
  ur_provider :: cloud_provider
  ur_remote_path :: string
  ur_url :: string
  ur_size :: int
  ur_checksum :: string
  ur_duration :: duration
  ur_storage_class :: string

datatype upload_error =
    NoUploader
  | NoConvertedFiles
  | UploadFailed string

text \<open>
  What the world answers: \<open>UploadMultiple\<close> on the map from local to remote paths, the size that
  \<open>os.Stat\<close> reports, and the time the upload took.
\<close>

record upload_env =
  ue_upload :: "(string, string) gomap \<Rightarrow> string option"
  ue_size :: "string \<Rightarrow> int option"
  ue_duration :: duration

record cloud_manager =
  cm_config :: "cloud_config option"
  cm_uploader :: bool

datatype new_manager_error = CloudConfigRequired | InvalidCloudConfig cloud_error

definition new_cloud_manager :: "cloud_config option \<Rightarrow> new_manager_error + cloud_manager" where
  "new_cloud_manager config =
     (case config of
        None \<Rightarrow> Inl CloudConfigRequired
      | Some c \<Rightarrow>
          (case validate_cloud c of
             Some e \<Rightarrow> Inl (InvalidCloudConfig e)
           | None \<Rightarrow> Inr \<lparr>cm_config = config, cm_uploader = False\<rparr>))"

definition set_uploader :: "bool \<Rightarrow> cloud_manager \<Rightarrow> cloud_manager" where
  "set_uploader up m = m\<lparr>cm_uploader := up\<rparr>"

definition upload_files :: "string \<Rightarrow> string list \<Rightarrow> (string, string) gomap" where
  "upload_files pfx locals =
     fold (\<lambda>p files. gm_put p (path_join pfx (path_base p)) files) locals []"

definition uploaded :: "upload_env \<Rightarrow> cloud_provider \<Rightarrow> string \<times> string \<Rightarrow> upload_result" where
  "uploaded env prov f =
     \<lparr>ur_provider = prov, ur_remote_path = snd f, ur_url = [],
      ur_size = (case ue_size env (fst f) of None \<Rightarrow> 0 | Some n \<Rightarrow> n),
      ur_checksum = [], ur_duration = ue_duration env, ur_storage_class = []\<rparr>"

text \<open>
  The answer is the results and the local files to be deleted.  Go's map order of the results
  is left open; here it is the order of the converted files.
\<close>

definition upload_converted_images ::
  "upload_env \<Rightarrow> cloud_manager \<Rightarrow> string list \<Rightarrow> string \<Rightarrow>
   (upload_error + upload_result list \<times> string list) go_outcome" where
  "upload_converted_images env m converted pfx =
     (if \<not> cm_uploader m then Returns (Inl NoUploader)
      else if converted = [] then Returns (Inl NoConvertedFiles)
      else
        let files = upload_files pfx converted
        in case ue_upload env files of
             Some e \<Rightarrow> Returns (Inl (UploadFailed e))
           | None \<Rightarrow>
               (case cm_config m of
                  None \<Rightarrow> Panics
                | Some c \<Rightarrow>
                    Returns (Inr (map (uploaded env (cs_provider c)) files,
                                  if cs_delete_local c then map fst files else []))))"

section \<open>Where the files go\<close>

lemma fold_put_get:
  "gm_get (fold (\<lambda>p files. gm_put p (f p) files) ps m) p =
     (if p \<in> set ps then Some (f p) else gm_get m p)"
  by (induction ps arbitrary: m) (auto simp: gm_get_put)

lemma fold_put_wf: "gm_wf m \<Longrightarrow> gm_wf (fold (\<lambda>p files. gm_put p (f p) files) ps m)"
  by (induction ps arbitrary: m) simp_all

lemma upload_files_get:
  "gm_get (upload_files pfx locals) p =
     (if p \<in> set locals then Some (path_join pfx (path_base p)) else None)"
  by (simp add: upload_files_def fold_put_get)

lemma upload_files_wf: "gm_wf (upload_files pfx locals)"
  by (simp add: upload_files_def fold_put_wf)

lemma upload_files_set:
  "set (upload_files pfx locals) = (\<lambda>p. (p, path_join pfx (path_base p))) ` set locals"
proof (rule set_eqI)
  fix f :: "string \<times> string"
  obtain p q where f: "f = (p, q)" by (cases f)
  show "f \<in> set (upload_files pfx locals) \<longleftrightarrow> f \<in> (\<lambda>p. (p, path_join pfx (path_base p))) ` set locals"
    using gm_in_get [OF upload_files_wf, of p q] by (auto simp: f upload_files_get)
qed

lemma upload_results_set:
  assumes "upload_converted_images env m converted pfx = Returns (Inr (rs, dels))"
  shows "ur_remote_path ` set rs = (\<lambda>p. path_join pfx (path_base p)) ` set converted \<and>
         length rs = card (set converted) \<and>
         (\<exists>c. cm_config m = Some c \<and>
            set dels = (if cs_delete_local c then set converted else {}))"
proof -
  obtain c where c: "cm_config m = Some c"
    and rs: "rs = map (uploaded env (cs_provider c)) (upload_files pfx converted)"
    and dels: "dels = (if cs_delete_local c then map fst (upload_files pfx converted) else [])"
    using assms
    by (auto simp: upload_converted_images_def Let_def split: if_splits option.splits)
  have "ur_remote_path ` set rs = snd ` set (upload_files pfx converted)"
    by (simp add: rs uploaded_def image_image)
  moreover have "snd ` set (upload_files pfx converted) =
      (\<lambda>p. path_join pfx (path_base p)) ` set converted"
    by (simp add: upload_files_set image_image)
  moreover have "fst ` set (upload_files pfx converted) = set converted"
    by (simp add: upload_files_set image_image)
  moreover have "length (upload_files pfx converted) = card (fst ` set (upload_files pfx converted))"
    using upload_files_wf [of pfx converted]
    by (metis distinct_card gm_wf_def length_map list.set_map)
  ultimately show ?thesis
    by (simp add: rs dels c)
qed

text \<open>
  A successful upload reports one result for each distinct converted file, at the prefix
  joined with the file's base name.  Files are told apart by that name only: two different
  converted files with the same base name are both sent to the same remote path, and with
  \<open>DeleteLocal\<close> all local files are then deleted.
\<close>

theorem same_base_name_collides:
  assumes "upload_converted_images env m converted pfx = Returns (Inr (rs, dels))"
  shows "length rs = card (set converted) \<and>
    ur_remote_path ` set rs = (\<lambda>p. path_join pfx (path_base p)) ` set converted \<and>
    (\<exists>c. cm_config m = Some c \<and> set dels = (if cs_delete_local c then set converted else {})) \<and>
    (\<forall>p \<in> set converted. \<forall>q \<in> set converted. path_base p = path_base q \<longrightarrow> p \<noteq> q \<longrightarrow>
       card (ur_remote_path ` set rs) < length rs)"
proof -
  note r = upload_results_set [OF assms]
  have "card (ur_remote_path ` set rs) < length rs"
    if pq: "p \<in> set converted" "q \<in> set converted" "path_base p = path_base q" "p \<noteq> q" for p q
  proof -
    let ?f = "\<lambda>p. path_join pfx (path_base p)"
    have "\<not> inj_on ?f (set converted)" using pq by (metis inj_onD)
    then have "card (?f ` set converted) \<noteq> card (set converted)" by (meson List.finite_set eq_card_imp_inj_on)
    then have "card (?f ` set converted) < card (set converted)"
      using card_image_le [of "set converted" ?f] by simp
    then show ?thesis using r by simp
  qed
  with r show ?thesis by blast
qed

definition local_manager :: cloud_manager where
  "local_manager =
     \<lparr>cm_config = Some \<lparr>cs_provider = provider_local, cs_s3 = None, cs_azure = None, cs_gcs = None,
        cs_upload_parallel = 0, cs_delete_local = True, cs_encrypt = False, cs_compress = False\<rparr>,
      cm_uploader = True\<rparr>"

definition good_upload :: upload_env where
  "good_upload = \<lparr>ue_upload = (\<lambda>files. None), ue_size = (\<lambda>p. Some 7), ue_duration = 1\<rparr>"

theorem same_base_name_collides_witness:
  "\<exists>rs dels.
     upload_converted_images good_upload local_manager [''a/disk.qcow2'', ''b/disk.qcow2''] ''vm1'' =
       Returns (Inr (rs, dels)) \<and>
     length rs = 2 \<and> card (ur_remote_path ` set rs) < length rs"
proof -
  let ?fs = "[''a/disk.qcow2'', ''b/disk.qcow2'']"
  obtain rs dels where
    up: "upload_converted_images good_upload local_manager ?fs ''vm1'' = Returns (Inr (rs, dels))"
    by (simp add: upload_converted_images_def good_upload_def local_manager_def Let_def)
  have base: "path_base ''a/disk.qcow2'' = path_base ''b/disk.qcow2''" by code_simp
  from same_base_name_collides [OF up] base have "length rs = 2" "card (ur_remote_path ` set rs) < length rs"
    by simp_all
  with up show ?thesis by blast
qed

end
