(* ===== verification/Batch_Orchestrator.thy ===== *)
theory Batch_Orchestrator
  imports Cloud_Storage Exchange_Sort
begin

text \<open>
  Batch migration of virtual machines, \<open>providers/common/batch_orchestrator.go\<close>: validation,
  the order by priority, one migration with its retries, and \<open>Execute\<close>, whose goroutines share a
  semaphore and a result channel.  Exporter, converter, uploader and file system are arguments.
  The pipeline and guest configurations that a task carries are not read by this code and are
  left out, as is the result's metadata, which stays empty.
\<close>

section \<open>Configuration\<close>

record convert_options =
  co_stream_output :: bool
  co_verbose :: bool
  co_dry_run :: bool
  co_target_format :: string
  co_compression_level :: int
  co_preserve_mac :: bool
  co_custom_args :: "string list"

record conversion_result =
  cr_success :: bool
  cr_converted_files :: "string list"
  cr_report_path :: string
  cr_duration :: duration
  cr_error :: string
  cr_warnings :: "string list"

record vm_task =
  vt_id :: string
  vt_name :: string
  vt_provider :: string
  vt_priority :: int
  vt_output_dir :: string
  vt_metadata :: "(string, string) gomap"

record batch_config =
  bc_vms :: "vm_task list"
  bc_max_parallel :: int
  bc_output_dir :: string
  bc_convert_options :: convert_options
  bc_upload_to_cloud :: bool
  bc_cloud_storage :: "cloud_config option"
  bc_max_retries :: int
  bc_retry_delay :: duration
  bc_continue_on_error :: bool

datatype batch_config_error =
    NoConfig
  | NoVMs
  | OutputDirRequired
  | IdRequired nat
  | NameRequired nat
  | ProviderRequired nat
  | CloudStorageInvalid cloud_error

fun validate_tasks :: "nat \<Rightarrow> vm_task list \<Rightarrow> batch_config_error option" where
  "validate_tasks i [] = None"
| "validate_tasks i (t # ts) =
     (if vt_id t = [] then Some (IdRequired i)
      else if vt_name t = [] then Some (NameRequired i)
      else if vt_provider t = [] then Some (ProviderRequired i)
      else validate_tasks (Suc i) ts)"

definition validate_batch :: "batch_config \<Rightarrow> batch_config_error option" where
  "validate_batch c =
     (if bc_vms c = [] then Some NoVMs
      else if bc_output_dir c = [] then Some OutputDirRequired
      else case validate_tasks 0 (bc_vms c) of
             Some e \<Rightarrow> Some e
           | None \<Rightarrow>
               if bc_upload_to_cloud c
               then (case bc_cloud_storage c of
                       None \<Rightarrow> None
                     | Some cc \<Rightarrow> map_option CloudStorageInvalid (validate_cloud cc))
               else None)"

text \<open>Of the collaborators the orchestrator only asks whether they were set.\<close>

record orchestrator =
  bo_config :: batch_config
  bo_converter :: bool
  bo_uploader :: bool
  bo_exporter :: bool

definition batch_defaults :: "batch_config \<Rightarrow> batch_config" where
  "batch_defaults c =
     (let c = (if bc_max_parallel c \<le> 0 then c\<lparr>bc_max_parallel := 1\<rparr> else c);
          c = (if bc_max_retries c < 0 then c\<lparr>bc_max_retries := 0\<rparr> else c)
      in if bc_retry_delay c = 0 then c\<lparr>bc_retry_delay := 30 * second\<rparr> else c)"

definition new_batch_orchestrator :: "batch_config option \<Rightarrow> batch_config_error + orchestrator" where
  "new_batch_orchestrator config =
     (case config of
        None \<Rightarrow> Inl NoConfig
      | Some c \<Rightarrow>
          (case validate_batch c of
             Some e \<Rightarrow> Inl e
           | None \<Rightarrow> Inr \<lparr>bo_config = batch_defaults c, bo_converter = False, bo_uploader = False,
                          bo_exporter = False\<rparr>))"

definition set_converter :: "bool \<Rightarrow> orchestrator \<Rightarrow> orchestrator" where
  "set_converter b bo = bo\<lparr>bo_converter := b\<rparr>"

definition set_batch_uploader :: "bool \<Rightarrow> orchestrator \<Rightarrow> orchestrator" where
  "set_batch_uploader b bo = bo\<lparr>bo_uploader := b\<rparr>"

definition set_exporter :: "bool \<Rightarrow> orchestrator \<Rightarrow> orchestrator" where
  "set_exporter b bo = bo\<lparr>bo_exporter := b\<rparr>"

section \<open>Order by priority\<close>

definition higher_priority :: "vm_task \<Rightarrow> vm_task \<Rightarrow> bool" where
  "higher_priority a b \<longleftrightarrow> vt_priority a > vt_priority b"

definition sort_vms_by_priority :: "batch_config \<Rightarrow> vm_task list" where
  "sort_vms_by_priority c = exchange_sort higher_priority (bc_vms c)"

interpretation vms: heap_less higher_priority
  by unfold_locales (auto simp: higher_priority_def)

text \<open>
  The tasks are sorted by falling priority, each of them exactly once.
\<close>

theorem sort_vms_correct:
  "mset (sort_vms_by_priority c) = mset (bc_vms c) \<and>
   sorted_wrt (\<lambda>a b. vt_priority a \<ge> vt_priority b) (sort_vms_by_priority c)"
  using vms.exchange_sort_sorted [of "bc_vms c"]
  by (simp add: sort_vms_by_priority_def exchange_sort_mset higher_priority_def not_less)

section \<open>One migration\<close>

record migration_result =
  mr_task :: vm_task
  mr_success :: bool
  mr_error :: string
  mr_export_duration :: duration
  mr_conversion_duration :: duration
  mr_total_duration :: duration
  mr_converted_files :: "string list"
  mr_upload_results :: "upload_result list"

datatype migration_error =
    CreateDirFailed string
  | ExportFailed string
  | ManifestMissing string
  | ConversionFailed string
  | UploadStepFailed upload_error

text \<open>What the world answers during one attempt.\<close>

record attempt_env =
  ae_mkdir :: "string \<Rightarrow> string option"
  ae_export :: "string \<Rightarrow> string \<Rightarrow> string \<Rightarrow> string + (string \<times> duration)"
  ae_missing :: "string \<Rightarrow> bool"
  ae_convert :: "string \<Rightarrow> convert_options \<Rightarrow> string + conversion_result"
  ae_convert_time :: duration
  ae_upload :: upload_env

definition output_dir :: "batch_config \<Rightarrow> vm_task \<Rightarrow> string" where
  "output_dir c t =
     (if vt_output_dir t = [] then path_join (bc_output_dir c) (vt_id t) else vt_output_dir t)"

text \<open>The three stages of \<open>executeMigration\<close>; each writes into the result as it goes.\<close>

definition export_stage ::
  "orchestrator \<Rightarrow> attempt_env \<Rightarrow> vm_task \<Rightarrow> migration_result \<Rightarrow>
   migration_error + (string \<times> migration_result)" where
  "export_stage bo env t r =
     (let dir = output_dir (bo_config bo) t
      in case ae_mkdir env dir of
           Some e \<Rightarrow> Inl (CreateDirFailed e)
         | None \<Rightarrow>
             if bo_exporter bo
             then (case ae_export env (vt_name t) (vt_provider t) dir of
                     Inl e \<Rightarrow> Inl (ExportFailed e)
                   | Inr (path, d) \<Rightarrow> Inr (path, r\<lparr>mr_export_duration := d\<rparr>))
             else let path = path_join dir ''artifact-manifest.json''
                  in if ae_missing env path then Inl (ManifestMissing path) else Inr (path, r))"

definition convert_stage ::
  "orchestrator \<Rightarrow> attempt_env \<Rightarrow> string \<Rightarrow> migration_result \<Rightarrow>
   migration_error + migration_result" where
  "convert_stage bo env path r =
     (if bo_converter bo
      then (case ae_convert env path (bc_convert_options (bo_config bo)) of
              Inl e \<Rightarrow> Inl (ConversionFailed e)
            | Inr cr \<Rightarrow> Inr (r\<lparr>mr_conversion_duration := ae_convert_time env,
                              mr_converted_files := cr_converted_files cr\<rparr>))
      else Inr r)"

definition upload_stage ::
  "orchestrator \<Rightarrow> attempt_env \<Rightarrow> vm_task \<Rightarrow> migration_result \<Rightarrow>
   (migration_error option \<times> migration_result) go_outcome" where
  "upload_stage bo env t r =
     (if bc_upload_to_cloud (bo_config bo) \<and> bo_uploader bo
      then (case upload_converted_images (ae_upload env)
                   \<lparr>cm_config = bc_cloud_storage (bo_config bo), cm_uploader = bo_uploader bo\<rparr>
                   (mr_converted_files r) (vt_id t) of
              Panics \<Rightarrow> Panics
            | Returns (Inl e) \<Rightarrow> Returns (Some (UploadStepFailed e), r)
            | Returns (Inr (rs, dels)) \<Rightarrow> Returns (None, r\<lparr>mr_upload_results := rs\<rparr>))
      else Returns (None, r))"

definition execute_migration ::
  "orchestrator \<Rightarrow> attempt_env \<Rightarrow> vm_task \<Rightarrow> migration_result \<Rightarrow>
   (migration_error option \<times> migration_result) go_outcome" where
  "execute_migration bo env t r =
     (case export_stage bo env t r of
        Inl e \<Rightarrow> Returns (Some e, r)
      | Inr (path, r) \<Rightarrow>
          (case convert_stage bo env path r of
             Inl e \<Rightarrow> Returns (Some e, r)
           | Inr r \<Rightarrow> upload_stage bo env t r))"

definition migration_error_text :: "migration_error \<Rightarrow> string" where
  "migration_error_text e =
     (case e of
        CreateDirFailed s \<Rightarrow> ''create output directory: '' @ s
      | ExportFailed s \<Rightarrow> ''export VM: '' @ s
      | ManifestMissing p \<Rightarrow> ''no exporter configured and manifest not found at '' @ p
      | ConversionFailed s \<Rightarrow> ''conversion failed: '' @ s
      | UploadStepFailed NoUploader \<Rightarrow> ''upload failed: no uploader configured''
      | UploadStepFailed NoConvertedFiles \<Rightarrow> ''upload failed: no converted files to upload''
      | UploadStepFailed (UploadFailed s) \<Rightarrow> ''upload failed: upload failed: '' @ s)"

definition fresh_result :: "vm_task \<Rightarrow> migration_result" where
  "fresh_result t = \<lparr>mr_task = t, mr_success = False, mr_error = [], mr_export_duration = 0,
     mr_conversion_duration = 0, mr_total_duration = 0, mr_converted_files = [],
     mr_upload_results = []\<rparr>"

text \<open>
  The retry loop; \<open>k\<close> is \<open>attempt\<close>, \<open>err\<close> the error of the attempt before.  Besides the result
  it returns the errors of all failed attempts, which the code logs.  The result is kept across
  attempts.  When no attempt is made at all, \<open>err.Error()\<close> dereferences nil.
\<close>

function migrate_loop ::
  "orchestrator \<Rightarrow> (nat \<Rightarrow> attempt_env) \<Rightarrow> duration \<Rightarrow> vm_task \<Rightarrow> nat \<Rightarrow> migration_error option \<Rightarrow>
   migration_result \<Rightarrow> (migration_error list \<times> migration_result) go_outcome" where
  "migrate_loop bo env elapsed t k err r =
     (if int k \<le> bc_max_retries (bo_config bo)
      then (case execute_migration bo (env k) t r of
              Panics \<Rightarrow> Panics
            | Returns (None, r) \<Rightarrow>
                Returns ([], r\<lparr>mr_success := True, mr_total_duration := elapsed\<rparr>)
            | Returns (Some e, r) \<Rightarrow>
                (case migrate_loop bo env elapsed t (Suc k) (Some e) r of
                   Panics \<Rightarrow> Panics
                 | Returns (es, r) \<Rightarrow> Returns (e # es, r)))
      else (case err of
              None \<Rightarrow> Panics
            | Some e \<Rightarrow> Returns ([], r\<lparr>mr_success := False, mr_error := migration_error_text e,
                                      mr_total_duration := elapsed\<rparr>)))"
  by pat_completeness auto
termination
  by (relation "measure (\<lambda>(bo, env, elapsed, t, k, err, r).
        nat (bc_max_retries (bo_config bo) + 1 - int k))") auto

declare migrate_loop.simps [simp del]

definition migrate_vm ::
  "orchestrator \<Rightarrow> (nat \<Rightarrow> attempt_env) \<Rightarrow> duration \<Rightarrow> vm_task \<Rightarrow>
   (migration_error list \<times> migration_result) go_outcome" where
  "migrate_vm bo env elapsed t = migrate_loop bo env elapsed t 0 None (fresh_result t)"

text \<open>The result as it stands before attempt \<open>k\<close>.\<close>

primrec result_before :: "orchestrator \<Rightarrow> (nat \<Rightarrow> attempt_env) \<Rightarrow> vm_task \<Rightarrow> nat \<Rightarrow> migration_result" where
  "result_before bo env t 0 = fresh_result t"
| "result_before bo env t (Suc k) =
     (case execute_migration bo (env k) t (result_before bo env t k) of
        Panics \<Rightarrow> result_before bo env t k
      | Returns (e, r) \<Rightarrow> r)"

definition attempt :: "orchestrator \<Rightarrow> (nat \<Rightarrow> attempt_env) \<Rightarrow> vm_task \<Rightarrow> nat \<Rightarrow>
    (migration_error option \<times> migration_result) go_outcome" where
  "attempt bo env t k = execute_migration bo (env k) t (result_before bo env t k)"

lemma result_before_Suc:
  "attempt bo env t k = Returns (e, r) \<Longrightarrow> result_before bo env t (Suc k) = r"
  by (simp add: attempt_def)

text \<open>
  What the loop returns when it starts at attempt \<open>k\<close>: the errors of the attempts that failed,
  and either the first success or, when all have failed, the text of the last error.
\<close>

definition loop_outcome ::
  "orchestrator \<Rightarrow> (nat \<Rightarrow> attempt_env) \<Rightarrow> duration \<Rightarrow> vm_task \<Rightarrow> nat \<Rightarrow> migration_error option \<Rightarrow>
   migration_error list \<Rightarrow> migration_result \<Rightarrow> bool" where
  "loop_outcome bo env elapsed t k err es r \<longleftrightarrow>
     (\<forall>i < length es. \<exists>r'. attempt bo env t (k + i) = Returns (Some (es ! i), r')) \<and>
     (int (k + length es) \<le> bc_max_retries (bo_config bo) \<and>
        (\<exists>r'. attempt bo env t (k + length es) = Returns (None, r') \<and>
              r = r'\<lparr>mr_success := True, mr_total_duration := elapsed\<rparr>)
      \<or> int (k + length es) = bc_max_retries (bo_config bo) + 1 \<and>
        (\<exists>e. last (err # map Some es) = Some e \<and>
             r = (result_before bo env t (k + length es))
                   \<lparr>mr_success := False, mr_error := migration_error_text e, mr_total_duration := elapsed\<rparr>))"

lemma loop_outcome_Cons:
  assumes a: "attempt bo env t k = Returns (Some e, r')"
    and l: "loop_outcome bo env elapsed t (Suc k) (Some e) es r"
  shows "loop_outcome bo env elapsed t k err (e # es) r"
proof -
  have "\<exists>r'. attempt bo env t (k + i) = Returns (Some ((e # es) ! i), r')"
    if "i < length (e # es)" for i
    using that a l by (cases i) (auto simp: loop_outcome_def)
  moreover have "last (err # map Some (e # es)) = last (Some e # map Some es)" by simp
  ultimately show ?thesis using l by (simp add: loop_outcome_def)
qed

lemma migrate_loop_outcome:
  "int k \<le> bc_max_retries (bo_config bo) + 1 \<Longrightarrow>
   migrate_loop bo env elapsed t k err (result_before bo env t k) = Returns (es, r) \<Longrightarrow>
   loop_outcome bo env elapsed t k err es r"
proof (induction "nat (bc_max_retries (bo_config bo) + 1 - int k)" arbitrary: k err es rule: less_induct)
  case less
  show ?case
  proof (cases "int k \<le> bc_max_retries (bo_config bo)")
    case False
    with less.prems show ?thesis
      by (subst (asm) migrate_loop.simps) (auto simp: loop_outcome_def split: option.splits)
  next
    case more: True
    show ?thesis
    proof (cases "attempt bo env t k")
      case Panics
      with less.prems more show ?thesis
        by (subst (asm) migrate_loop.simps) (simp add: attempt_def)
    next
      case (Returns x)
      obtain e r1 where x: "x = (e, r1)" by (cases x)
      show ?thesis
      proof (cases e)
        case None
        with less.prems more Returns x show ?thesis
          by (subst (asm) migrate_loop.simps) (auto simp: attempt_def loop_outcome_def)
      next
        case (Some e1)
        have a: "attempt bo env t k = Returns (Some e1, r1)" using Returns x Some by simp
        then obtain es' where
          rec: "migrate_loop bo env elapsed t (Suc k) (Some e1) (result_before bo env t (Suc k)) =
                  Returns (es', r)" and es: "es = e1 # es'"
          using less.prems more result_before_Suc [OF a]
          by (subst (asm) migrate_loop.simps)
            (auto simp: attempt_def split: go_outcome.splits prod.splits)
        have "loop_outcome bo env elapsed t (Suc k) (Some e1) es' r"
          using more by (intro less.hyps [OF _ _ rec]) auto
        from loop_outcome_Cons [OF a this] es show ?thesis by simp
      qed
    qed
  qed
qed

lemma execute_panics:
  "execute_migration bo env t r = Panics \<Longrightarrow>
   bc_upload_to_cloud (bo_config bo) \<and> bo_uploader bo \<and> bc_cloud_storage (bo_config bo) = None"
  by (auto simp: execute_migration_def upload_stage_def upload_converted_images_def Let_def
      split: sum.splits prod.splits option.splits if_splits go_outcome.splits)

lemma migrate_loop_returns:
  assumes "\<forall>k r. execute_migration bo (env k) t r \<noteq> Panics"
    and "0 \<le> bc_max_retries (bo_config bo)" and "k = 0 \<or> err \<noteq> None"
  shows "\<exists>es r'. migrate_loop bo env elapsed t k err r = Returns (es, r')"
  using assms(3)
proof (induction "nat (bc_max_retries (bo_config bo) + 1 - int k)" arbitrary: k err r rule: less_induct)
  case less
  show ?case
  proof (cases "int k \<le> bc_max_retries (bo_config bo)")
    case False
    with less.prems assms(2) obtain e where "err = Some e" by auto
    with False show ?thesis by (subst migrate_loop.simps) simp
  next
    case True
    obtain e r1 where x: "execute_migration bo (env k) t r = Returns (e, r1)"
      using assms(1) by (cases "execute_migration bo (env k) t r") auto
    show ?thesis
    proof (cases e)
      case None
      with True x show ?thesis by (subst migrate_loop.simps) simp
    next
      case (Some e1)
      obtain es r' where "migrate_loop bo env elapsed t (Suc k) (Some e1) r1 = Returns (es, r')"
        using less.hyps [of "Suc k" "Some e1" r1] True by auto
      with True x Some show ?thesis by (subst migrate_loop.simps) simp
    qed
  qed
qed

definition cloud_configured :: "orchestrator \<Rightarrow> bool" where
  "cloud_configured bo \<longleftrightarrow>
     bc_upload_to_cloud (bo_config bo) \<longrightarrow> bo_uploader bo \<longrightarrow> bc_cloud_storage (bo_config bo) \<noteq> None"

text \<open>
  With a retry limit that is not negative and a cloud configuration where one is needed, the
  migration of a machine always returns.  It makes at most \<open>MaxRetries + 1\<close> attempts, each on the
  result the one before left; it reports success exactly when an attempt succeeded, which was
  the last one made, and otherwise the error of the last attempt.
\<close>

theorem migrate_vm_outcome:
  assumes "0 \<le> bc_max_retries (bo_config bo)" and "cloud_configured bo"
  shows "\<exists>es r. migrate_vm bo env elapsed t = Returns (es, r) \<and>
    int (length es) \<le> bc_max_retries (bo_config bo) + 1 \<and>
    (\<forall>i < length es. \<exists>r'. attempt bo env t i = Returns (Some (es ! i), r')) \<and>
    (mr_success r \<longleftrightarrow> int (length es) \<le> bc_max_retries (bo_config bo)) \<and>
    (if mr_success r then \<exists>r'. attempt bo env t (length es) = Returns (None, r')
     else es \<noteq> [] \<and> mr_error r = migration_error_text (last es)) \<and>
    mr_total_duration r = elapsed"
proof -
  have np: "\<forall>k r. execute_migration bo (env k) t r \<noteq> Panics"
    using assms(2) execute_panics [of bo _ t] by (auto simp: cloud_configured_def)
  obtain es r where
    ret: "migrate_loop bo env elapsed t 0 None (fresh_result t) = Returns (es, r)"
    using migrate_loop_returns [OF np assms(1), of 0 None] by blast
  then have lo: "loop_outcome bo env elapsed t 0 None es r"
    using assms(1) by (intro migrate_loop_outcome) simp_all
  have last: "es \<noteq> [] \<Longrightarrow> last (None # map Some es) = Some (last es)"
    by (simp add: last_map)
  from lo have "int (length es) \<le> bc_max_retries (bo_config bo) + 1 \<and>
    (\<forall>i < length es. \<exists>r'. attempt bo env t i = Returns (Some (es ! i), r')) \<and>
    (mr_success r \<longleftrightarrow> int (length es) \<le> bc_max_retries (bo_config bo)) \<and>
    (if mr_success r then \<exists>r'. attempt bo env t (length es) = Returns (None, r')
     else es \<noteq> [] \<and> mr_error r = migration_error_text (last es)) \<and>
    mr_total_duration r = elapsed"
    using last assms(1) by (cases "es = []") (auto simp: loop_outcome_def)
  with ret show ?thesis by (auto simp: migrate_vm_def)
qed

text \<open>A world in which every step succeeds, and one machine in it.\<close>

definition good_attempt :: attempt_env where
  "good_attempt = \<lparr>ae_mkdir = (\<lambda>d. None), ae_export = (\<lambda>n p d. Inr (d @ ''/m.json'', 5)),
     ae_missing = (\<lambda>p. False),
     ae_convert = (\<lambda>p o'. Inr \<lparr>cr_success = True, cr_converted_files = [''/out/disk.qcow2''],
        cr_report_path = [], cr_duration = 3, cr_error = [], cr_warnings = []\<rparr>),
     ae_convert_time = 3, ae_upload = good_upload\<rparr>"

definition bad_attempt :: attempt_env where
  "bad_attempt = good_attempt\<lparr>ae_export := (\<lambda>n p d. Inl ''timeout'')\<rparr>"

definition vm_named :: "string \<Rightarrow> int \<Rightarrow> vm_task" where
  "vm_named n p = \<lparr>vt_id = n, vt_name = n, vt_provider = ''vsphere'', vt_priority = p,
     vt_output_dir = [], vt_metadata = []\<rparr>"

definition plain_convert :: convert_options where
  "plain_convert = \<lparr>co_stream_output = False, co_verbose = False, co_dry_run = False,
     co_target_format = ''qcow2'', co_compression_level = 0, co_preserve_mac = False,
     co_custom_args = []\<rparr>"

definition batch_of :: "vm_task list \<Rightarrow> batch_config" where
  "batch_of vms = \<lparr>bc_vms = vms, bc_max_parallel = 1, bc_output_dir = ''/out'',
     bc_convert_options = plain_convert, bc_upload_to_cloud = False, bc_cloud_storage = None,
     bc_max_retries = 1, bc_retry_delay = 0, bc_continue_on_error = False\<rparr>"

definition orchestrator_of :: "vm_task list \<Rightarrow> orchestrator" where
  "orchestrator_of vms = \<lparr>bo_config = batch_defaults (batch_of vms), bo_converter = True,
     bo_uploader = True, bo_exporter = True\<rparr>"

theorem migrate_vm_outcome_witness:
  "\<exists>es r. migrate_vm (orchestrator_of [vm_named ''a'' 0]) (\<lambda>k. bad_attempt) 9 (vm_named ''a'' 0) =
      Returns (es, r) \<and> length es \<le> 2"
proof -
  let ?bo = "orchestrator_of [vm_named ''a'' 0]"
  have c: "bc_max_retries (bo_config ?bo) = 1" "cloud_configured ?bo"
    by (simp_all add: orchestrator_of_def batch_of_def batch_defaults_def cloud_configured_def)
  then have "0 \<le> bc_max_retries (bo_config ?bo)" by simp
  from migrate_vm_outcome [OF this c(2), of "\<lambda>k. bad_attempt" 9 "vm_named ''a'' 0"] c(1)
  show ?thesis by auto
qed

text \<open>
  \<open>Validate\<close> looks at the cloud configuration only when there is one.  A batch that asks for
  an upload without it is accepted, and once an uploader is set the first machine whose
  conversion yields files is exported, converted and uploaded before the orchestrator
  dereferences the missing configuration and the program panics.
\<close>

theorem missing_cloud_config_panics:
  "\<exists>bo. new_batch_orchestrator (Some ((batch_of [vm_named ''a'' 0])\<lparr>bc_upload_to_cloud := True\<rparr>)) =
      Inr bo \<and>
    migrate_vm (set_exporter True (set_converter True (set_batch_uploader True bo)))
      (\<lambda>k. good_attempt) 9 (vm_named ''a'' 0) = Panics"
  by (simp add: new_batch_orchestrator_def validate_batch_def batch_of_def batch_defaults_def
      vm_named_def set_exporter_def set_converter_def set_batch_uploader_def migrate_vm_def
      migrate_loop.simps execute_migration_def export_stage_def convert_stage_def
      upload_stage_def upload_converted_images_def good_attempt_def good_upload_def
      fresh_result_def Let_def)

end
