(* ===== verification/Batch_Execute.thy ===== *)
theory Batch_Execute
  imports Batch_Orchestrator
begin

text \<open>
  \<open>Execute\<close> of \<open>providers/common/batch_orchestrator.go\<close> as a transition system: one goroutine per
  task, a semaphore of \<open>MaxParallel\<close> slots, the result channel and the collecting loop.  A task is
  known by its position in the sorted list.  A goroutine takes a slot when one is free, migrates
  its machine, and then sends its result and gives the slot back in one step (the channel has
  room for all results).  The order of the steps is open, as the scheduler of Go leaves it.
\<close>

section \<open>The transition system\<close>

datatype batch_outcome = AllCollected | Stopped string | Crashed

record batch_run =
  br_waiting :: "nat list"
  br_running :: "nat list"
  br_channel :: "migration_result list"
  br_collected :: "migration_result list"
  br_outcome :: "batch_outcome option"

text \<open>What a batch is run with: the orchestrator and the answers of the world to each task.\<close>

record batch_world =
  bw_orch :: orchestrator
  bw_env :: "nat \<Rightarrow> nat \<Rightarrow> attempt_env"
  bw_elapsed :: "nat \<Rightarrow> duration"

definition bw_config :: "batch_world \<Rightarrow> batch_config" where
  "bw_config w = bo_config (bw_orch w)"

definition sorted_vms :: "batch_world \<Rightarrow> vm_task list" where
  "sorted_vms w = sort_vms_by_priority (bw_config w)"

text \<open>The result of task \<open>i\<close>; \<open>None\<close> when its goroutine panics.\<close>

definition task_result :: "batch_world \<Rightarrow> nat \<Rightarrow> migration_result option" where
  "task_result w i =
     (case migrate_vm (bw_orch w) (bw_env w i) (bw_elapsed w i) (sorted_vms w ! i) of
        Panics \<Rightarrow> None
      | Returns (es, r) \<Rightarrow> Some r)"

definition batch_start :: "batch_world \<Rightarrow> batch_run" where
  "batch_start w = \<lparr>br_waiting = [0..<length (sorted_vms w)], br_running = [], br_channel = [],
     br_collected = [], br_outcome = None\<rparr>"

datatype batch_event = Acquire nat | Finish nat | Collect | CloseResults

text \<open>One event, if it is possible in the state.  After a crash nothing is.\<close>

definition do_acquire :: "batch_world \<Rightarrow> nat \<Rightarrow> batch_run \<Rightarrow> batch_run option" where
  "do_acquire w i s =
     (if List.member (br_waiting s) i \<and> int (length (br_running s)) < bc_max_parallel (bw_config w)
      then Some (s\<lparr>br_waiting := remove1 i (br_waiting s), br_running := br_running s @ [i]\<rparr>)
      else None)"

definition do_finish :: "batch_world \<Rightarrow> nat \<Rightarrow> batch_run \<Rightarrow> batch_run option" where
  "do_finish w i s =
     (if List.member (br_running s) i
      then (case task_result w i of
              None \<Rightarrow> Some (s\<lparr>br_outcome := Some Crashed\<rparr>)
            | Some r \<Rightarrow> Some (s\<lparr>br_running := remove1 i (br_running s),
                              br_channel := br_channel s @ [r]\<rparr>))
      else None)"

definition do_collect :: "batch_world \<Rightarrow> batch_run \<Rightarrow> batch_run option" where
  "do_collect w s =
     (case br_channel s of
        [] \<Rightarrow> None
      | r # rs \<Rightarrow>
          if br_outcome s \<noteq> None then None
          else
            let s = s\<lparr>br_channel := rs, br_collected := br_collected s @ [r]\<rparr>
            in if mr_success r \<or> bc_continue_on_error (bw_config w) then Some s
               else Some (s\<lparr>br_outcome := Some (Stopped (mr_error r))\<rparr>))"

definition do_close :: "batch_run \<Rightarrow> batch_run option" where
  "do_close s =
     (if br_waiting s = [] \<and> br_running s = [] \<and> br_channel s = [] \<and> br_outcome s = None
      then Some (s\<lparr>br_outcome := Some AllCollected\<rparr>) else None)"

definition batch_exec :: "batch_world \<Rightarrow> batch_event \<Rightarrow> batch_run \<Rightarrow> batch_run option" where
  "batch_exec w ev s =
     (if br_outcome s = Some Crashed then None
      else case ev of
             Acquire i \<Rightarrow> do_acquire w i s
           | Finish i \<Rightarrow> do_finish w i s
           | Collect \<Rightarrow> do_collect w s
           | CloseResults \<Rightarrow> do_close s)"

inductive batch_reachable :: "batch_world \<Rightarrow> batch_run \<Rightarrow> bool" for w where
  start: "batch_reachable w (batch_start w)"
| step: "batch_reachable w s \<Longrightarrow> batch_exec w ev s = Some s' \<Longrightarrow> batch_reachable w s'"

text \<open>A run given by its events.\<close>

fun batch_trace :: "batch_world \<Rightarrow> batch_event list \<Rightarrow> batch_run \<Rightarrow> batch_run option" where
  "batch_trace w [] s = Some s"
| "batch_trace w (ev # evs) s =
     (case batch_exec w ev s of None \<Rightarrow> None | Some s' \<Rightarrow> batch_trace w evs s')"

lemma batch_trace_reachable:
  "batch_reachable w s \<Longrightarrow> batch_trace w evs s = Some s' \<Longrightarrow> batch_reachable w s'"
  by (induction evs arbitrary: s) (auto split: option.splits intro: batch_reachable.step)

lemma batch_exec_cases:
  assumes "batch_exec w ev s = Some s'"
  obtains (acquire) i where "br_outcome s \<noteq> Some Crashed" "i \<in> set (br_waiting s)"
      "int (length (br_running s)) < bc_max_parallel (bw_config w)"
      "s' = s\<lparr>br_waiting := remove1 i (br_waiting s), br_running := br_running s @ [i]\<rparr>"
  | (finish) i r where "br_outcome s \<noteq> Some Crashed" "i \<in> set (br_running s)"
      "task_result w i = Some r"
      "s' = s\<lparr>br_running := remove1 i (br_running s), br_channel := br_channel s @ [r]\<rparr>"
  | (crash) i where "br_outcome s \<noteq> Some Crashed" "i \<in> set (br_running s)"
      "task_result w i = None" "s' = s\<lparr>br_outcome := Some Crashed\<rparr>"
  | (collect) r rs where "br_channel s = r # rs" "br_outcome s = None"
      "mr_success r \<or> bc_continue_on_error (bw_config w)"
      "s' = s\<lparr>br_channel := rs, br_collected := br_collected s @ [r]\<rparr>"
  | (stop) r rs where "br_channel s = r # rs" "br_outcome s = None"
      "\<not> mr_success r" "\<not> bc_continue_on_error (bw_config w)"
      "s' = s\<lparr>br_channel := rs, br_collected := br_collected s @ [r],
             br_outcome := Some (Stopped (mr_error r))\<rparr>"
  | (close) "br_waiting s = []" "br_running s = []" "br_channel s = []" "br_outcome s = None"
      "s' = s\<lparr>br_outcome := Some AllCollected\<rparr>"
proof (cases ev)
  case (Acquire i)
  with assms show thesis
    by (intro acquire [of i])
      (auto simp: batch_exec_def do_acquire_def List.member_iff split: if_splits)
next
  case (Finish i)
  with assms show thesis
    by (cases "task_result w i")
      (auto simp: batch_exec_def do_finish_def List.member_iff split: if_splits
        intro: finish crash)
next
  case Collect
  with assms show thesis
    by (auto simp: batch_exec_def do_collect_def Let_def split: if_splits list.splits
        intro: collect stop)
next
  case CloseResults
  with assms show thesis
    by (auto simp: batch_exec_def do_close_def split: if_splits intro: close)
qed

section \<open>What every run keeps\<close>

text \<open>Results sent and tasks still to run account for every task once.\<close>

definition all_accounted :: "batch_world \<Rightarrow> batch_run \<Rightarrow> bool" where
  "all_accounted w s \<longleftrightarrow>
     mset (map Some (br_collected s @ br_channel s)) +
       image_mset (task_result w) (mset (br_waiting s @ br_running s)) =
     image_mset (task_result w) (mset [0..<length (sorted_vms w)])"

definition acceptable :: "batch_world \<Rightarrow> migration_result \<Rightarrow> bool" where
  "acceptable w r \<longleftrightarrow> mr_success r \<or> bc_continue_on_error (bw_config w)"

definition outcome_right :: "batch_world \<Rightarrow> batch_run \<Rightarrow> bool" where
  "outcome_right w s \<longleftrightarrow>
     (case br_outcome s of
        None \<Rightarrow> \<forall>r \<in> set (br_collected s). acceptable w r
      | Some AllCollected \<Rightarrow>
          br_waiting s = [] \<and> br_running s = [] \<and> br_channel s = [] \<and>
          (\<forall>r \<in> set (br_collected s). acceptable w r)
      | Some (Stopped e) \<Rightarrow>
          (\<exists>rs r. br_collected s = rs @ [r] \<and> \<not> acceptable w r \<and> e = mr_error r \<and>
             (\<forall>r \<in> set rs. acceptable w r))
      | Some Crashed \<Rightarrow> True)"

definition within_slots :: "batch_world \<Rightarrow> batch_run \<Rightarrow> bool" where
  "within_slots w s \<longleftrightarrow> int (length (br_running s)) \<le> bc_max_parallel (bw_config w)"

lemma all_accounted_exec:
  assumes "batch_exec w ev s = Some s'" and "all_accounted w s"
  shows "all_accounted w s'"
  using assms(1)
proof (cases rule: batch_exec_cases)
  case (acquire i)
  define ws where "ws = remove1 i (br_waiting s)"
  have "mset (br_waiting s) = add_mset i (mset ws)" using acquire(2) by (simp add: ws_def)
  with assms(2) acquire(4) show ?thesis by (simp add: all_accounted_def flip: ws_def)
next
  case (finish i r)
  define ws where "ws = remove1 i (br_running s)"
  have "mset (br_running s) = add_mset i (mset ws)" using finish(2) by (simp add: ws_def)
  with assms(2) finish(3,4) show ?thesis by (simp add: all_accounted_def flip: ws_def)
qed (use assms(2) in \<open>simp_all add: all_accounted_def\<close>)

lemma within_slots_exec:
  assumes "batch_exec w ev s = Some s'" and "within_slots w s"
  shows "within_slots w s'"
  using assms(1)
proof (cases rule: batch_exec_cases)
  case (finish i r)
  then have "length (remove1 i (br_running s)) \<le> length (br_running s)"
    by (simp add: length_remove1)
  with assms(2) finish show ?thesis by (simp add: within_slots_def)
qed (use assms(2) in \<open>simp_all add: within_slots_def\<close>)

lemma outcome_right_exec:
  assumes "batch_exec w ev s = Some s'" and "outcome_right w s"
  shows "outcome_right w s'"
  using assms(1)
proof (cases rule: batch_exec_cases)
  case (acquire i)
  with assms(2) show ?thesis
    by (auto simp: outcome_right_def split: option.splits batch_outcome.splits)
next
  case (finish i r)
  with assms(2) show ?thesis
    by (auto simp: outcome_right_def split: option.splits batch_outcome.splits)
qed (use assms(2) in \<open>auto simp: outcome_right_def acceptable_def\<close>)

lemma reachable_invariants:
  assumes "batch_reachable w s" and "1 \<le> bc_max_parallel (bw_config w)"
  shows "all_accounted w s \<and> within_slots w s \<and> outcome_right w s"
  using assms(1)
proof (induction rule: batch_reachable.induct)
  case start
  show ?case
    using assms(2)
    by (simp add: batch_start_def all_accounted_def within_slots_def outcome_right_def)
next
  case (step s ev s')
  with all_accounted_exec within_slots_exec outcome_right_exec show ?case by blast
qed

lemma sorted_vms_length: "length (sorted_vms w) = length (bc_vms (bw_config w))"
  by (simp add: sorted_vms_def sort_vms_by_priority_def)

text \<open>
  C14: However the goroutines of a batch are scheduled, at most \<open>MaxParallel\<close> machines are migrated
  at a time.  When \<open>Execute\<close> returns without an error it has collected exactly one result of
  every task, all of them successes unless \<open>ContinueOnError\<close> is set; when it returns an error,
  that is the error of the first failure collected, after successes only, and
  \<open>ContinueOnError\<close> is not set.
\<close>

theorem batch_outcomes:
  assumes "batch_reachable w s" and "1 \<le> bc_max_parallel (bw_config w)"
  shows "int (length (br_running s)) \<le> bc_max_parallel (bw_config w) \<and>
    (br_outcome s = Some AllCollected \<longrightarrow>
       mset (map Some (br_collected s)) =
         image_mset (task_result w) (mset [0..<length (bc_vms (bw_config w))]) \<and>
       (bc_continue_on_error (bw_config w) \<or> (\<forall>r \<in> set (br_collected s). mr_success r))) \<and>
    (\<forall>e. br_outcome s = Some (Stopped e) \<longrightarrow>
       \<not> bc_continue_on_error (bw_config w) \<and>
       (\<exists>rs r. br_collected s = rs @ [r] \<and> (\<forall>r \<in> set rs. mr_success r) \<and>
               \<not> mr_success r \<and> e = mr_error r))"
proof -
  note inv = reachable_invariants [OF assms]
  have "mset (map Some (br_collected s)) =
         image_mset (task_result w) (mset [0..<length (bc_vms (bw_config w))]) \<and>
       (bc_continue_on_error (bw_config w) \<or> (\<forall>r \<in> set (br_collected s). mr_success r))"
    if "br_outcome s = Some AllCollected"
    using inv that
    by (auto simp: outcome_right_def all_accounted_def acceptable_def sorted_vms_length)
  moreover have "\<not> bc_continue_on_error (bw_config w) \<and>
       (\<exists>rs r. br_collected s = rs @ [r] \<and> (\<forall>r \<in> set rs. mr_success r) \<and>
               \<not> mr_success r \<and> e = mr_error r)"
    if "br_outcome s = Some (Stopped e)" for e
    using inv that by (auto simp: outcome_right_def acceptable_def)
  ultimately show ?thesis using inv by (simp add: within_slots_def)
qed

text \<open>Two machines, the less important one succeeding, the other failing; one slot.\<close>

definition two_vms :: batch_world where
  "two_vms = \<lparr>bw_orch = orchestrator_of [vm_named ''low'' 1, vm_named ''high'' 5],
     bw_env = (\<lambda>i k. if i = 0 then bad_attempt else good_attempt), bw_elapsed = (\<lambda>i. 9)\<rparr>"

lemma two_vms_config: "bc_max_parallel (bw_config two_vms) = 1"
  by (simp add: two_vms_def bw_config_def orchestrator_of_def batch_of_def batch_defaults_def)

lemma two_vms_sorted: "sorted_vms two_vms = [vm_named ''high'' 5, vm_named ''low'' 1]"
  by (simp add: two_vms_def bw_config_def orchestrator_of_def batch_of_def batch_defaults_def
      sorted_vms_def sort_vms_by_priority_def higher_priority_def vm_named_def)

definition high_failed :: migration_result where
  "high_failed = (fresh_result (vm_named ''high'' 5))
     \<lparr>mr_error := ''export VM: timeout'', mr_total_duration := 9\<rparr>"

lemma two_vms_result_0: "task_result two_vms 0 = Some high_failed"
proof -
  let ?bo = "orchestrator_of [vm_named ''low'' 1, vm_named ''high'' 5]"
  let ?t = "vm_named ''high'' 5"
  have ex: "execute_migration ?bo bad_attempt ?t (fresh_result ?t) =
      Returns (Some (ExportFailed ''timeout''), fresh_result ?t)"
    by (simp add: execute_migration_def export_stage_def bad_attempt_def good_attempt_def
        orchestrator_of_def Let_def)
  have "bc_max_retries (bo_config ?bo) = 1"
    by (simp add: orchestrator_of_def batch_of_def batch_defaults_def)
  then have "migrate_vm ?bo (\<lambda>k. bad_attempt) 9 ?t =
      Returns ([ExportFailed ''timeout'', ExportFailed ''timeout''], high_failed)"
    by (simp add: migrate_vm_def migrate_loop.simps ex migration_error_text_def)
      (simp add: high_failed_def fresh_result_def)
  then show ?thesis by (simp add: task_result_def two_vms_sorted) (simp add: two_vms_def)
qed

theorem batch_outcomes_witness:
  "\<exists>s. batch_reachable two_vms s \<and> int (length (br_running s)) \<le> 1 \<and>
       br_outcome s = Some (Stopped ''export VM: timeout'') \<and> br_collected s = [high_failed]"
proof -
  obtain s where t: "batch_trace two_vms [Acquire 0, Finish 0, Collect] (batch_start two_vms) = Some s"
    and s: "br_outcome s = Some (Stopped ''export VM: timeout'')" "br_collected s = [high_failed]"
    by (simp add: batch_start_def batch_exec_def do_acquire_def do_finish_def do_collect_def
        two_vms_config two_vms_sorted two_vms_result_0 List.member_iff upt_rec Let_def)
      (simp add: high_failed_def fresh_result_def bw_config_def two_vms_def orchestrator_of_def
        batch_of_def batch_defaults_def)
  then have r: "batch_reachable two_vms s" by (intro batch_trace_reachable [OF batch_reachable.start])
  have "1 \<le> bc_max_parallel (bw_config two_vms)" by (simp add: two_vms_config)
  from batch_outcomes [OF r this] r s show ?thesis by (auto simp: two_vms_config)
qed

section \<open>Every run ends\<close>

definition work_left :: "batch_run \<Rightarrow> nat" where
  "work_left s = 3 * length (br_waiting s) + 2 * length (br_running s) + length (br_channel s) +
     (if br_outcome s = None then 1 else 0)"

lemma length_remove1_mem: "x \<in> set xs \<Longrightarrow> length xs = Suc (length (remove1 x xs))"
  by (metis One_nat_def Suc_pred length_pos_if_in_set length_remove1)

lemma batch_exec_progress:
  assumes "batch_exec w ev s = Some s'"
    and crash: "\<forall>i \<in> set (br_running s). task_result w i \<noteq> None"
  shows "work_left s' < work_left s"
  using assms(1)
proof (cases rule: batch_exec_cases)
  case (acquire i)
  then show ?thesis using length_remove1_mem [OF acquire(2)] by (simp add: work_left_def)
next
  case (finish i r)
  then show ?thesis using length_remove1_mem [OF finish(2)] by (simp add: work_left_def)
qed (use crash in \<open>auto simp: work_left_def\<close>)

lemma batch_exec_stays:
  assumes "batch_exec w ev s = Some s'"
  shows "set (br_waiting s') \<union> set (br_running s') \<subseteq> set (br_waiting s) \<union> set (br_running s)"
  using assms by (cases rule: batch_exec_cases) (use set_remove1_subset in fastforce)+

lemma batch_trace_bound:
  assumes "batch_trace w evs s = Some s'"
    and "\<forall>i \<in> set (br_waiting s) \<union> set (br_running s). task_result w i \<noteq> None"
  shows "length evs + work_left s' \<le> work_left s"
  using assms
proof (induction evs arbitrary: s)
  case (Cons ev evs)
  then obtain s1 where s1: "batch_exec w ev s = Some s1" "batch_trace w evs s1 = Some s'"
    by (auto split: option.splits)
  have "\<forall>i \<in> set (br_waiting s1) \<union> set (br_running s1). task_result w i \<noteq> None"
    using batch_exec_stays [OF s1(1)] Cons.prems(2) by blast
  from Cons.IH [OF s1(2) this] batch_exec_progress [OF s1(1)] Cons.prems(2) show ?case by simp
qed simp

lemma stuck_is_done:
  assumes "1 \<le> bc_max_parallel (bw_config w)" and "\<forall>ev. batch_exec w ev s = None"
    and "br_outcome s \<noteq> Some Crashed"
  shows "br_outcome s \<noteq> None \<and> br_waiting s = [] \<and> br_running s = []"
proof -
  have no: "do_acquire w i s = None" "do_finish w i s = None" "do_collect w s = None"
    "do_close s = None" for i
    using assms(2) [THEN spec, of "Acquire i"] assms(2) [THEN spec, of "Finish i"]
      assms(2) [THEN spec, of Collect] assms(2) [THEN spec, of CloseResults] assms(3)
    by (simp_all add: batch_exec_def)
  have run: "br_running s = []"
  proof (rule ccontr)
    assume "br_running s \<noteq> []"
    then have "do_finish w (hd (br_running s)) s \<noteq> None"
      by (simp add: do_finish_def List.member_iff split: option.splits)
    with no(2) [of "hd (br_running s)"] show False by simp
  qed
  have wait: "br_waiting s = []"
  proof (rule ccontr)
    assume "br_waiting s \<noteq> []"
    then have "do_acquire w (hd (br_waiting s)) s \<noteq> None"
      using run assms(1) by (simp add: do_acquire_def List.member_iff)
    with no(1) [of "hd (br_waiting s)"] show False by simp
  qed
  have "br_outcome s \<noteq> None"
  proof
    assume o: "br_outcome s = None"
    then have "br_channel s = []"
      using no(3) by (cases "br_channel s") (simp_all add: do_collect_def Let_def split: if_splits)
    with o run wait no(4) show False by (simp add: do_close_def)
  qed
  with run wait show ?thesis by simp
qed

text \<open>
  C15: Batches end.  With at least one slot and no task that panics, no schedule of the
  goroutines has more than \<open>3n + 1\<close> steps for \<open>n\<close> machines, and when none can go on, \<open>Execute\<close>
  has returned and every machine has been migrated or given up.
\<close>

theorem batch_always_ends:
  assumes "1 \<le> bc_max_parallel (bw_config w)"
    and "\<forall>i < length (bc_vms (bw_config w)). task_result w i \<noteq> None"
    and "batch_trace w evs (batch_start w) = Some s"
  shows "length evs \<le> 3 * length (bc_vms (bw_config w)) + 1 \<and>
    ((\<forall>ev. batch_exec w ev s = None) \<longrightarrow>
       br_outcome s \<noteq> None \<and> br_waiting s = [] \<and> br_running s = [])"
proof -
  have "\<forall>i \<in> set (br_waiting (batch_start w)) \<union> set (br_running (batch_start w)).
      task_result w i \<noteq> None"
    using assms(2) by (simp add: batch_start_def sorted_vms_length)
  from batch_trace_bound [OF assms(3) this]
  have bound: "length evs + work_left s \<le> 3 * length (bc_vms (bw_config w)) + 1"
    by (simp add: work_left_def batch_start_def sorted_vms_length)
  have "br_outcome s \<noteq> Some Crashed"
  proof -
    have "br_outcome s' \<noteq> Some Crashed \<and>
        set (br_waiting s') \<union> set (br_running s') \<subseteq> {..<length (bc_vms (bw_config w))}"
      if "batch_reachable w s'" for s'
      using that
    proof (induction rule: batch_reachable.induct)
      case start
      show ?case by (auto simp: batch_start_def sorted_vms_length)
    next
      case (step s1 ev s2)
      have "br_outcome s2 \<noteq> Some Crashed"
        using step.hyps(2)
        by (cases rule: batch_exec_cases) (use step.IH assms(2) in auto)
      with batch_exec_stays [OF step.hyps(2)] step.IH show ?case by blast
    qed
    with batch_trace_reachable [OF batch_reachable.start assms(3)] show ?thesis by blast
  qed
  with stuck_is_done [OF assms(1), of s] bound show ?thesis by simp
qed

lemma two_vms_result_1: "task_result two_vms 1 \<noteq> None"
proof -
  let ?bo = "orchestrator_of [vm_named ''low'' 1, vm_named ''high'' 5]"
  have "0 \<le> bc_max_retries (bo_config ?bo)" "cloud_configured ?bo"
    by (simp_all add: orchestrator_of_def batch_of_def batch_defaults_def cloud_configured_def)
  from migrate_vm_outcome [OF this, of "\<lambda>k. good_attempt" 9 "vm_named ''low'' 1"]
  obtain es r where "migrate_vm ?bo (\<lambda>k. good_attempt) 9 (vm_named ''low'' 1) = Returns (es, r)"
    by blast
  then show ?thesis by (simp add: task_result_def two_vms_sorted) (simp add: two_vms_def)
qed

lemma two_vms_vms: "length (bc_vms (bw_config two_vms)) = 2"
  by (simp add: sorted_vms_length [symmetric] two_vms_sorted)

theorem batch_always_ends_witness:
  "\<exists>s. batch_trace two_vms [Acquire 1, Finish 1] (batch_start two_vms) = Some s \<and>
       length [Acquire 1, Finish 1] \<le> 7"
proof -
  have r: "\<forall>i < length (bc_vms (bw_config two_vms)). task_result two_vms i \<noteq> None"
    using two_vms_result_0 two_vms_result_1 by (auto simp: two_vms_vms less_2_cases_iff)
  obtain r1 where r1: "task_result two_vms 1 = Some r1" using two_vms_result_1 by blast
  obtain s where t: "batch_trace two_vms [Acquire 1, Finish 1] (batch_start two_vms) = Some s"
    using r1
    by (simp add: batch_start_def batch_exec_def do_acquire_def do_finish_def two_vms_config
        two_vms_sorted List.member_iff upt_rec)
  have "1 \<le> bc_max_parallel (bw_config two_vms)" by (simp add: two_vms_config)
  from batch_always_ends [OF this r t] t show ?thesis by (simp add: two_vms_vms)
qed

section \<open>What priorities and errors do not do\<close>

text \<open>
  Priorities do not decide which machine is migrated first: the goroutines are started in
  their order, but any of them may get the first slot, also that of the least important machine.
\<close>

theorem any_machine_may_be_first:
  assumes "i < length (bc_vms (bw_config w))" and "1 \<le> bc_max_parallel (bw_config w)"
  shows "\<exists>s. batch_trace w [Acquire i] (batch_start w) = Some s \<and> batch_reachable w s \<and>
     br_running s = [i] \<and>
     (\<forall>j < length (bc_vms (bw_config w)). j \<noteq> i \<longrightarrow> j \<in> set (br_waiting s))"
proof -
  let ?s = "(batch_start w)\<lparr>br_waiting := remove1 i [0..<length (sorted_vms w)], br_running := [i]\<rparr>"
  have t: "batch_trace w [Acquire i] (batch_start w) = Some ?s"
    using assms
    by (simp add: batch_exec_def do_acquire_def batch_start_def List.member_iff sorted_vms_length)
  from batch_trace_reachable [OF batch_reachable.start t] t
  show ?thesis by (auto simp: sorted_vms_length)
qed

theorem any_machine_may_be_first_witness:
  "\<exists>s. batch_trace two_vms [Acquire 1] (batch_start two_vms) = Some s \<and> br_running s = [1] \<and>
       vt_priority (sorted_vms two_vms ! 1) < vt_priority (sorted_vms two_vms ! 0)"
  using any_machine_may_be_first [of 1 two_vms]
  by (auto simp: two_vms_config two_vms_vms two_vms_sorted vm_named_def)

text \<open>
  Without \<open>ContinueOnError\<close> the first failure ends \<open>Execute\<close>, but not the batch: after the
  error has been returned a machine that had not been started is still migrated, and its
  result is never collected.
\<close>

theorem stopped_batch_goes_on:
  "\<exists>s1 s2. batch_trace two_vms [Acquire 0, Finish 0, Collect] (batch_start two_vms) = Some s1 \<and>
     br_outcome s1 = Some (Stopped ''export VM: timeout'') \<and> br_waiting s1 = [1] \<and>
     br_running s1 = [] \<and>
     batch_trace two_vms [Acquire 1, Finish 1] s1 = Some s2 \<and>
     br_waiting s2 = [] \<and> br_running s2 = [] \<and> length (br_channel s2) = 1 \<and>
     br_collected s2 = br_collected s1"
proof -
  obtain r1 where r1: "task_result two_vms (Suc 0) = Some r1" using two_vms_result_1 by auto
  let ?s1 = "\<lparr>br_waiting = [1], br_running = [], br_channel = [], br_collected = [high_failed],
     br_outcome = Some (Stopped ''export VM: timeout'')\<rparr>"
  have stop: "\<not> bc_continue_on_error (bw_config two_vms)" "\<not> mr_success high_failed"
    "mr_error high_failed = ''export VM: timeout''"
    by (simp_all add: bw_config_def two_vms_def orchestrator_of_def batch_of_def
        batch_defaults_def high_failed_def fresh_result_def)
  have "batch_trace two_vms [Acquire 0, Finish 0, Collect] (batch_start two_vms) = Some ?s1"
    by (simp add: batch_start_def batch_exec_def do_acquire_def do_finish_def do_collect_def
        two_vms_config two_vms_sorted two_vms_result_0 List.member_iff upt_rec Let_def stop)
  moreover have "batch_trace two_vms [Acquire 1, Finish 1] ?s1 =
      Some (?s1\<lparr>br_waiting := [], br_channel := [r1]\<rparr>)"
    by (simp add: batch_exec_def do_acquire_def do_finish_def two_vms_config List.member_iff r1)
  ultimately show ?thesis by simp
qed

end
