(* ===== verification/Checkpoint.thy ===== *)
theory Checkpoint
  imports Go_Path
begin

text \<open>
  The checkpoint of an export, \<open>providers/common/checkpoint.go\<close>: the progress of its files, and how
  it is saved and loaded.  JSON encoding is an argument; the file system is a map from paths to
  contents with the errors of each call given by \<open>save_env\<close>.
\<close>

section \<open>The checkpoint\<close>

record file_checkpoint =
  fc_path :: string
  fc_url :: string
  fc_total_size :: int
  fc_downloaded_size :: int
  fc_checksum :: string
  fc_status :: string
  fc_last_modified :: instant
  fc_retry_count :: int

record checkpoint =
  ck_version :: string
  ck_vm_name :: string
  ck_provider :: string
  ck_export_format :: string
  ck_output_path :: string
  ck_created_at :: instant
  ck_updated_at :: instant
  ck_files :: "file_checkpoint list"
  ck_metadata :: "(string, string) gomap"

definition checkpoint_version :: string where
  "checkpoint_version = ''1.0''"

definition new_checkpoint :: "instant \<Rightarrow> string \<Rightarrow> string \<Rightarrow> string \<Rightarrow> string \<Rightarrow> checkpoint" where
  "new_checkpoint now vm prov fmt out =
     \<lparr>ck_version = checkpoint_version, ck_vm_name = vm, ck_provider = prov,
      ck_export_format = fmt, ck_output_path = out, ck_created_at = now, ck_updated_at = now,
      ck_files = [], ck_metadata = []\<rparr>"

definition new_file :: "instant \<Rightarrow> string \<Rightarrow> string \<Rightarrow> int \<Rightarrow> file_checkpoint" where
  "new_file now path url sz =
     \<lparr>fc_path = path, fc_url = url, fc_total_size = sz, fc_downloaded_size = 0,
      fc_checksum = [], fc_status = ''pending'', fc_last_modified = now, fc_retry_count = 0\<rparr>"

definition add_file :: "instant \<Rightarrow> string \<Rightarrow> string \<Rightarrow> int \<Rightarrow> checkpoint \<Rightarrow> checkpoint" where
  "add_file now path url sz c =
     c\<lparr>ck_files := ck_files c @ [new_file now path url sz], ck_updated_at := now\<rparr>"

text \<open>The loop of \<open>UpdateFileProgress\<close>: only the first file with the path is changed.\<close>

fun update_first :: "instant \<Rightarrow> string \<Rightarrow> int \<Rightarrow> string \<Rightarrow> file_checkpoint list \<Rightarrow>
    file_checkpoint list option" where
  "update_first now path sz status [] = None"
| "update_first now path sz status (f # fs) =
     (if fc_path f = path
      then Some (f\<lparr>fc_downloaded_size := sz, fc_status := status, fc_last_modified := now\<rparr> # fs)
      else map_option ((#) f) (update_first now path sz status fs))"

definition update_file_progress :: "instant \<Rightarrow> string \<Rightarrow> int \<Rightarrow> string \<Rightarrow> checkpoint \<Rightarrow> checkpoint" where
  "update_file_progress now path sz status c =
     (case update_first now path sz status (ck_files c) of
        None \<Rightarrow> c
      | Some fs \<Rightarrow> c\<lparr>ck_files := fs, ck_updated_at := now\<rparr>)"

definition get_file_progress :: "string \<Rightarrow> checkpoint \<Rightarrow> file_checkpoint option" where
  "get_file_progress path c = List.find (\<lambda>f. fc_path f = path) (ck_files c)"

definition is_complete :: "checkpoint \<Rightarrow> bool" where
  "is_complete c \<longleftrightarrow> ck_files c \<noteq> [] \<and> list_all (\<lambda>f. fc_status f = ''completed'') (ck_files c)"

text \<open>The two \<open>int64\<close> sums; the progress is their quotient, here before rounding to a float.\<close>

definition total_size :: "checkpoint \<Rightarrow> int" where
  "total_size c = fold (\<lambda>f s. wrap64 (s + fc_total_size f)) (ck_files c) 0"

definition downloaded_size :: "checkpoint \<Rightarrow> int" where
  "downloaded_size c = fold (\<lambda>f s. wrap64 (s + fc_downloaded_size f)) (ck_files c) 0"

definition get_progress :: "checkpoint \<Rightarrow> (int \<times> int) option" where
  "get_progress c =
     (if ck_files c = [] then None
      else if total_size c = 0 then None
      else Some (downloaded_size c, total_size c))"

section \<open>Saving and loading\<close>

type_synonym file_store = "(string, string) gomap"

record save_env =
  se_mkdir :: "string option"
  se_write :: "string option"
  se_rename :: "string option"

datatype checkpoint_error =
    CkMkdir string
  | CkMarshal
  | CkWrite string
  | CkRename string
  | CkRead
  | CkUnmarshal
  | CkVersion string
  | CkDelete string

definition temp_path :: "string \<Rightarrow> string" where
  "temp_path path = path @ ''.tmp''"

text \<open>\<open>os.Rename\<close> replaces the target in one step.  A failed write may leave anything in the file.\<close>

definition save_checkpoint ::
  "(checkpoint \<Rightarrow> string option) \<Rightarrow> save_env \<Rightarrow> string \<Rightarrow> string \<Rightarrow> checkpoint \<Rightarrow> file_store \<Rightarrow>
   checkpoint_error option \<times> file_store" where
  "save_checkpoint marshal env partly path c fs =
     (case se_mkdir env of
        Some e \<Rightarrow> (Some (CkMkdir e), fs)
      | None \<Rightarrow>
          (case marshal c of
             None \<Rightarrow> (Some CkMarshal, fs)
           | Some data \<Rightarrow>
               (case se_write env of
                  Some e \<Rightarrow> (Some (CkWrite e), gm_put (temp_path path) partly fs)
                | None \<Rightarrow>
                    let fs = gm_put (temp_path path) data fs
                    in case se_rename env of
                         Some e \<Rightarrow> (Some (CkRename e), fs)
                       | None \<Rightarrow> (None, gm_put path data (gm_del (temp_path path) fs)))))"

definition load_checkpoint ::
  "(string \<Rightarrow> checkpoint option) \<Rightarrow> string \<Rightarrow> file_store \<Rightarrow> checkpoint_error + checkpoint" where
  "load_checkpoint unmarshal path fs =
     (case gm_get fs path of
        None \<Rightarrow> Inl CkRead
      | Some data \<Rightarrow>
          (case unmarshal data of
             None \<Rightarrow> Inl CkUnmarshal
           | Some c \<Rightarrow> if ck_version c \<noteq> checkpoint_version then Inl (CkVersion (ck_version c))
                       else Inr c))"

text \<open>\<open>DeleteCheckpoint\<close>: a missing file is no error.\<close>

definition delete_checkpoint ::
  "string option \<Rightarrow> string \<Rightarrow> file_store \<Rightarrow> checkpoint_error option \<times> file_store" where
  "delete_checkpoint err path fs =
     (if gm_get fs path = None then (None, fs)
      else case err of
             Some e \<Rightarrow> (Some (CkDelete e), fs)
           | None \<Rightarrow> (None, gm_del path fs))"

definition checkpoint_exists :: "string \<Rightarrow> file_store \<Rightarrow> bool" where
  "checkpoint_exists path fs = (gm_get fs path \<noteq> None)"

definition get_checkpoint_path :: "string \<Rightarrow> string \<Rightarrow> string" where
  "get_checkpoint_path dir vm = path_join dir (''.'' @ vm @ ''.checkpoint'')"

section \<open>Progress of files\<close>

definition paths :: "checkpoint \<Rightarrow> string list" where
  "paths c = map fc_path (ck_files c)"

lemma update_first_None: "update_first now p sz st fs = None \<longleftrightarrow> p \<notin> fc_path ` set fs"
  by (induction fs) auto

lemma update_first_paths:
  "update_first now p sz st fs = Some fs' \<Longrightarrow> map fc_path fs' = map fc_path fs"
  by (induction fs arbitrary: fs') (auto split: if_splits)

lemma find_path: "find (\<lambda>f. fc_path f = p) fs = None \<longleftrightarrow> p \<notin> fc_path ` set fs"
  by (auto simp: find_None_iff)

lemma update_first_find:
  "update_first now p sz st fs = Some fs' \<Longrightarrow>
   find (\<lambda>f. fc_path f = q) fs' =
     (if q = p then map_option (\<lambda>f. f\<lparr>fc_downloaded_size := sz, fc_status := st,
                      fc_last_modified := now\<rparr>) (find (\<lambda>f. fc_path f = q) fs)
      else find (\<lambda>f. fc_path f = q) fs)"
  by (induction fs arbitrary: fs') (auto split: if_splits)

lemma paths_update [simp]: "paths (update_file_progress now p sz st c) = paths c"
  by (auto simp: paths_def update_file_progress_def update_first_paths split: option.splits)

lemma paths_add [simp]: "paths (add_file now p url sz c) = paths c @ [p]"
  by (simp add: paths_def add_file_def new_file_def)

lemma get_none_iff: "get_file_progress p c = None \<longleftrightarrow> p \<notin> set (paths c)"
  by (auto simp: get_file_progress_def paths_def find_None_iff)

lemma get_after_update:
  "get_file_progress q (update_file_progress now p sz st c) =
     (if q = p then map_option (\<lambda>f. f\<lparr>fc_downloaded_size := sz, fc_status := st,
                                       fc_last_modified := now\<rparr>) (get_file_progress q c)
      else get_file_progress q c)"
proof (cases "update_first now p sz st (ck_files c)")
  case None
  then have "find (\<lambda>f. fc_path f = p) (ck_files c) = None"
    by (simp add: update_first_None find_path)
  with None show ?thesis by (simp add: update_file_progress_def get_file_progress_def)
next
  case (Some fs)
  from update_first_find [OF this, of q] Some show ?thesis
    by (simp add: update_file_progress_def get_file_progress_def)
qed

lemma get_after_add:
  "get_file_progress q (add_file now p url sz c) =
     (case get_file_progress q c of
        Some f \<Rightarrow> Some f
      | None \<Rightarrow> if q = p then Some (new_file now p url sz) else None)"
proof -
  have "find P (xs @ ys) = (case find P xs of Some x \<Rightarrow> Some x | None \<Rightarrow> find P ys)"
    for P :: "file_checkpoint \<Rightarrow> bool" and xs ys
    by (induction xs) auto
  then show ?thesis by (simp add: get_file_progress_def add_file_def new_file_def split: option.split)
qed

lemma find_distinct:
  "distinct (map fc_path fs) \<Longrightarrow> f \<in> set fs \<Longrightarrow> find (\<lambda>g. fc_path g = fc_path f) fs = Some f"
  by (induction fs) auto

lemma complete_iff_progress:
  assumes "distinct (paths c)"
  shows "is_complete c \<longleftrightarrow> paths c \<noteq> [] \<and>
     (\<forall>p \<in> set (paths c). \<exists>f. get_file_progress p c = Some f \<and> fc_status f = ''completed'')"
proof -
  have get: "get_file_progress (fc_path f) c = Some f" if "f \<in> set (ck_files c)" for f
    using assms that by (simp add: get_file_progress_def paths_def find_distinct)
  show ?thesis
  proof
    assume c: "is_complete c"
    then have "\<forall>p \<in> set (paths c). \<exists>f. get_file_progress p c = Some f \<and> fc_status f = ''completed''"
      using get by (auto simp: is_complete_def paths_def list_all_iff)
    with c show "paths c \<noteq> [] \<and>
      (\<forall>p \<in> set (paths c). \<exists>f. get_file_progress p c = Some f \<and> fc_status f = ''completed'')"
      by (simp add: is_complete_def paths_def)
  next
    assume "paths c \<noteq> [] \<and>
      (\<forall>p \<in> set (paths c). \<exists>f. get_file_progress p c = Some f \<and> fc_status f = ''completed'')"
    then show "is_complete c"
      using get by (fastforce simp: is_complete_def paths_def list_all_iff)
  qed
qed

section \<open>The checkpoint as a table of progress\<close>

text \<open>
  The uses of a checkpoint: a file is added when it is not there yet, as the download does, and
  its progress is updated.  The abstract checkpoint is a map from paths to the total size, the
  bytes downloaded and the status.
\<close>

datatype checkpoint_use = Ensure string string int | Update string int string

definition ensure_file :: "instant \<Rightarrow> string \<Rightarrow> string \<Rightarrow> int \<Rightarrow> checkpoint \<Rightarrow> checkpoint" where
  "ensure_file now p url sz c =
     (if get_file_progress p c = None then add_file now p url sz c else c)"

fun use_checkpoint :: "instant \<Rightarrow> checkpoint_use \<Rightarrow> checkpoint \<Rightarrow> checkpoint" where
  "use_checkpoint now (Ensure p url sz) c = ensure_file now p url sz c"
| "use_checkpoint now (Update p sz st) c = update_file_progress now p sz st c"

type_synonym progress_table = "string \<Rightarrow> (int \<times> int \<times> string) option"

fun use_table :: "checkpoint_use \<Rightarrow> progress_table \<Rightarrow> progress_table" where
  "use_table (Ensure p url sz) t = (if t p = None then t(p \<mapsto> (sz, 0, ''pending'')) else t)"
| "use_table (Update p sz st) t =
     (case t p of None \<Rightarrow> t | Some (tot, d, s) \<Rightarrow> t(p \<mapsto> (tot, sz, st)))"

definition table_of :: "checkpoint \<Rightarrow> progress_table" where
  "table_of c p = map_option (\<lambda>f. (fc_total_size f, fc_downloaded_size f, fc_status f))
                    (get_file_progress p c)"

lemma table_of_None: "table_of c p = None \<longleftrightarrow> get_file_progress p c = None"
  by (simp add: table_of_def)

lemma table_of_add:
  "get_file_progress p c = None \<Longrightarrow>
   table_of (add_file now p url sz c) = (table_of c)(p \<mapsto> (sz, 0, ''pending''))"
  by (rule ext) (simp add: table_of_def get_after_add new_file_def split: option.split)

lemma table_of_update:
  "table_of (update_file_progress now p sz st c) = use_table (Update p sz st) (table_of c)"
  by (rule ext) (simp add: table_of_def get_after_update split: option.split)

lemma table_of_use: "table_of (use_checkpoint now u c) = use_table u (table_of c)"
  by (cases u) (simp_all add: table_of_update ensure_file_def table_of_add table_of_None
      del: use_table.simps(2))

lemma distinct_use: "distinct (paths c) \<Longrightarrow> distinct (paths (use_checkpoint now u c))"
  by (cases u) (simp_all add: ensure_file_def get_none_iff)

lemma table_dom: "dom (table_of c) = set (paths c)"
  using get_none_iff [of _ c] by (auto simp: dom_def table_of_def)

lemma complete_iff_table:
  "distinct (paths c) \<Longrightarrow>
   is_complete c \<longleftrightarrow> dom (table_of c) \<noteq> {} \<and>
     (\<forall>p tot d st. table_of c p = Some (tot, d, st) \<longrightarrow> st = ''completed'')"
proof -
  assume d: "distinct (paths c)"
  have "(\<forall>p tot d st. table_of c p = Some (tot, d, st) \<longrightarrow> st = ''completed'') \<longleftrightarrow>
        (\<forall>p \<in> set (paths c). \<exists>f. get_file_progress p c = Some f \<and> fc_status f = ''completed'')"
    unfolding table_dom [symmetric] dom_def table_of_def by (auto, blast)
  with complete_iff_progress [OF d] show ?thesis by (simp add: table_dom)
qed

definition use_all :: "(instant \<times> checkpoint_use) list \<Rightarrow> checkpoint \<Rightarrow> checkpoint" where
  "use_all us c = fold (\<lambda>(now, u). use_checkpoint now u) us c"

lemma use_all_table:
  "table_of (use_all us c) = fold use_table (map snd us) (table_of c)"
  unfolding use_all_def by (induction us arbitrary: c) (auto simp: table_of_use)

lemma use_all_distinct: "distinct (paths c) \<Longrightarrow> distinct (paths (use_all us c))"
  unfolding use_all_def by (induction us arbitrary: c) (auto simp: distinct_use)

text \<open>
  C11: A checkpoint used as the download uses it is a table of progress: whatever files are added
  and updated, in whatever order, the progress of a path is what the last update of it said,
  and the checkpoint is complete exactly when it knows a file and all of its files were last
  reported completed.
\<close>

theorem checkpoint_refines_table:
  "let c = use_all us (new_checkpoint t0 vm prov fmt out);
       t = fold use_table (map snd us) (\<lambda>p. None)
   in (\<forall>p. map_option (\<lambda>f. (fc_total_size f, fc_downloaded_size f, fc_status f))
             (get_file_progress p c) = t p) \<and>
      (is_complete c \<longleftrightarrow> dom t \<noteq> {} \<and>
         (\<forall>p tot d st. t p = Some (tot, d, st) \<longrightarrow> st = ''completed''))"
proof -
  let ?c0 = "new_checkpoint t0 vm prov fmt out"
  have "table_of ?c0 = (\<lambda>p. None)" "distinct (paths ?c0)"
    by (auto simp: table_of_def get_file_progress_def new_checkpoint_def paths_def)
  with use_all_table [of us ?c0] complete_iff_table [OF use_all_distinct, of ?c0 us]
  show ?thesis by (simp add: Let_def table_of_def [symmetric])
qed

theorem checkpoint_refines_table_witness:
  "is_complete (use_all [(1, Ensure ''a'' ''u'' 5), (2, Update ''a'' 5 ''completed'')]
      (new_checkpoint 0 ''vm'' ''vsphere'' ''ovf'' ''/out''))"
proof -
  let ?us = "[(1, Ensure ''a'' ''u'' 5), (2, Update ''a'' 5 ''completed'')]"
  have t: "fold use_table (map snd ?us) (\<lambda>p. None) = [''a'' \<mapsto> (5, 5, ''completed'')]"
    by simp
  show ?thesis
    using checkpoint_refines_table [of ?us 0 "''vm''" "''vsphere''" "''ovf''" "''/out''"]
    unfolding t Let_def by (auto split: if_splits)
qed

section \<open>The file of a checkpoint\<close>

lemma temp_path_neq [simp]: "temp_path p \<noteq> p" "p \<noteq> temp_path p"
  by (simp_all add: temp_path_def)

lemma save_keeps_or_writes:
  "gm_get (snd (save_checkpoint marshal env partly path c fs)) path = gm_get fs path \<or>
   gm_get (snd (save_checkpoint marshal env partly path c fs)) path = marshal c"
  by (auto simp: save_checkpoint_def Let_def gm_get_put gm_get_del split: option.split)

text \<open>
  Saving is atomic: a save that fails, at whatever step, leaves the checkpoint file as it
  was, one that succeeds makes loading return the saved checkpoint, and no other file than the
  checkpoint and its temporary file changes.  The encoding is only assumed to be read back.
\<close>

theorem save_is_atomic:
  assumes "ck_version c = checkpoint_version"
    and "\<And>d. marshal c = Some d \<Longrightarrow> unmarshal d = Some c"
    and "save_checkpoint marshal env partly path c fs = (err, fs')"
  shows "(case err of
            None \<Rightarrow> load_checkpoint unmarshal path fs' = Inr c
          | Some e \<Rightarrow> load_checkpoint unmarshal path fs' = load_checkpoint unmarshal path fs) \<and>
         (\<forall>q. q \<noteq> path \<longrightarrow> q \<noteq> temp_path path \<longrightarrow> gm_get fs' q = gm_get fs q)"
  using assms
  by (auto simp: save_checkpoint_def load_checkpoint_def Let_def gm_get_put gm_get_del
      split: option.splits)

theorem save_is_atomic_witness:
  "\<exists>fs'. save_checkpoint (\<lambda>c. Some ''data'') \<lparr>se_mkdir = None, se_write = None, se_rename = None\<rparr>
      [] ''/c'' (new_checkpoint 0 ''vm'' ''vsphere'' ''ovf'' ''/out'') [] = (None, fs') \<and>
    load_checkpoint (\<lambda>d. Some (new_checkpoint 0 ''vm'' ''vsphere'' ''ovf'' ''/out'')) ''/c'' fs' =
      Inr (new_checkpoint 0 ''vm'' ''vsphere'' ''ovf'' ''/out'')"
proof -
  let ?c = "new_checkpoint 0 ''vm'' ''vsphere'' ''ovf'' ''/out''"
  let ?env = "\<lparr>se_mkdir = None, se_write = None, se_rename = None\<rparr>"
  obtain fs' where s: "save_checkpoint (\<lambda>c. Some ''data'') ?env [] ''/c'' ?c [] = (None, fs')"
    by (simp add: save_checkpoint_def Let_def)
  have v: "ck_version ?c = checkpoint_version" by (simp add: new_checkpoint_def)
  from save_is_atomic [OF v _ s, of "\<lambda>d. Some ?c"] s show ?thesis by simp
qed

text \<open>Sums of sizes: within 63 bits they do not wrap around.\<close>

lemma fold_sum_exact:
  fixes g :: "file_checkpoint \<Rightarrow> int"
  assumes "\<forall>f \<in> set fs. 0 \<le> g f" and "0 \<le> s" and "s + (\<Sum>f\<leftarrow>fs. g f) < 2 ^ 63"
  shows "fold (\<lambda>f s. wrap64 (s + g f)) fs s = s + (\<Sum>f\<leftarrow>fs. g f)"
  using assms
proof (induction fs arbitrary: s)
  case (Cons f fs)
  have "0 \<le> (\<Sum>f\<leftarrow>fs. g f)" using Cons.prems(1) by (intro sum_list_nonneg) auto
  with Cons.prems have "wrap64 (s + g f) = s + g f" by (intro wrap64_id) (simp add: in64_def)
  with Cons show ?case by (simp add: add.assoc)
qed simp

definition sizes_fit :: "checkpoint \<Rightarrow> bool" where
  "sizes_fit c \<longleftrightarrow>
     (\<forall>f \<in> set (ck_files c). 0 \<le> fc_downloaded_size f \<and> fc_downloaded_size f \<le> fc_total_size f) \<and>
     (\<Sum>f\<leftarrow>ck_files c. fc_total_size f) < 2 ^ 63"

text \<open>
  While the sizes of the files add up within 63 bits and no file is longer than expected,
  the overall progress is a fraction between nothing and one, and it is one exactly when every
  byte of every file has been downloaded.
\<close>

theorem progress_is_a_fraction:
  assumes "sizes_fit c" and "get_progress c = Some (d, t)"
  shows "0 \<le> d \<and> d \<le> t \<and> 0 < t \<and>
         (d = t \<longleftrightarrow> (\<forall>f \<in> set (ck_files c). fc_downloaded_size f = fc_total_size f))"
proof -
  let ?D = "\<Sum>f\<leftarrow>ck_files c. fc_downloaded_size f" and ?T = "\<Sum>f\<leftarrow>ck_files c. fc_total_size f"
  have dl: "\<forall>f \<in> set (ck_files c). 0 \<le> fc_downloaded_size f"
    and le: "\<forall>f \<in> set (ck_files c). fc_downloaded_size f \<le> fc_total_size f"
    and fit: "?T < 2 ^ 63"
    using assms(1) by (auto simp: sizes_fit_def)
  have tot: "\<forall>f \<in> set (ck_files c). 0 \<le> fc_total_size f" using dl le by fastforce
  have DT: "?D \<le> ?T" using le by (intro sum_list_mono) auto
  have D0: "0 \<le> ?D" using dl by (intro sum_list_nonneg) auto
  have t: "total_size c = ?T" using fold_sum_exact [OF tot, of 0] fit by (simp add: total_size_def)
  have d: "downloaded_size c = ?D"
    using fold_sum_exact [OF dl, of 0] fit DT by (simp add: downloaded_size_def)
  have eq: "?D = ?T \<longleftrightarrow> (\<forall>f \<in> set (ck_files c). fc_downloaded_size f = fc_total_size f)"
  proof -
    have "(\<Sum>f\<leftarrow>fs. fc_downloaded_size f) = (\<Sum>f\<leftarrow>fs. fc_total_size f) \<longleftrightarrow>
          (\<forall>f \<in> set fs. fc_downloaded_size f = fc_total_size f)"
      if "\<forall>f \<in> set fs. fc_downloaded_size f \<le> fc_total_size f" for fs
      using that
    proof (induction fs)
      case (Cons f fs)
      have "(\<Sum>f\<leftarrow>fs. fc_downloaded_size f) \<le> (\<Sum>f\<leftarrow>fs. fc_total_size f)"
        using Cons.prems by (intro sum_list_mono) auto
      with Cons show ?case by auto
    qed simp
    with le show ?thesis by blast
  qed
  have "d = ?D" "t = ?T" "?T \<noteq> 0" using assms(2) t d by (auto simp: get_progress_def split: if_splits)
  with D0 DT eq show ?thesis by auto
qed

theorem progress_is_a_fraction_witness:
  "get_progress (use_all [(1, Ensure ''a'' ''u'' 8), (2, Update ''a'' 3 ''failed'')]
      (new_checkpoint 0 ''vm'' ''vsphere'' ''ovf'' ''/out'')) = Some (3, 8) \<and> (3::int) \<le> 8"
proof -
  let ?c = "use_all [(1, Ensure ''a'' ''u'' 8), (2, Update ''a'' 3 ''failed'')]
      (new_checkpoint 0 ''vm'' ''vsphere'' ''ovf'' ''/out'')"
  have files: "ck_files ?c = [\<lparr>fc_path = ''a'', fc_url = ''u'', fc_total_size = 8,
      fc_downloaded_size = 3, fc_checksum = [], fc_status = ''failed'', fc_last_modified = 2,
      fc_retry_count = 0\<rparr>]"
    by (simp add: use_all_def ensure_file_def new_checkpoint_def get_file_progress_def
        add_file_def new_file_def update_file_progress_def)
  have "sizes_fit ?c" by (simp add: sizes_fit_def files)
  moreover have "get_progress ?c = Some (3, 8)"
    by (simp add: get_progress_def total_size_def downloaded_size_def files wrap64_def)
  ultimately show ?thesis using progress_is_a_fraction by blast
qed

end
