(* ===== verification/Vm_Download.thy ===== *)
theory Vm_Download
  imports Checkpoint
begin

text \<open>
  The parts of \<open>providers/vsphere/export.go\<close> that do not depend on vSphere: how a machine's name
  becomes a file name, and the parallel download of its files with a checkpoint.  The lease's
  files, the file system and the HTTP download are arguments (\<open>download_world\<close>).
\<close>

section \<open>File names\<close>

definition max_filename_length :: nat where
  "max_filename_length = 255"

definition replace_char :: "char \<Rightarrow> string \<Rightarrow> string" where
  "replace_char c s = map (\<lambda>x. if x = c then CHR ''-'' else x) s"

text \<open>\<open>strings.ReplaceAll(s, "..", "-")\<close>, from the left and without overlaps.\<close>

fun replace_dots :: "string \<Rightarrow> string" where
  "replace_dots [] = []"
| "replace_dots [c] = [c]"
| "replace_dots (c # d # s) =
     (if c = CHR ''.'' \<and> d = CHR ''.'' then CHR ''-'' # replace_dots s
      else c # replace_dots (d # s))"

definition trim_chars :: "string \<Rightarrow> string \<Rightarrow> string" where
  "trim_chars cs s =
     rev (dropWhile (\<lambda>c. c \<in> set cs) (rev (dropWhile (\<lambda>c. c \<in> set cs) s)))"

definition sanitize_vm_name :: "string \<Rightarrow> string" where
  "sanitize_vm_name name =
     (let name = replace_char slash name;
          name = replace_char (CHR 0x5C) name;
          name = replace_dots name;
          name = filter (\<lambda>c. c \<noteq> CHR 0x00) name;
          name = replace_char (CHR '':'') name;
          name = replace_char (CHR ''*'') name;
          name = replace_char (CHR ''?'') name;
          name = replace_char (CHR 0x22) name;
          name = replace_char (CHR ''<'') name;
          name = replace_char (CHR ''>'') name;
          name = replace_char (CHR ''|'') name;
          name = trim_chars ''.-'' name;
          name = (if name = [] then ''unnamed-vm'' else name)
      in if length name > max_filename_length then take max_filename_length name else name)"

lemma replace_char_set: "c \<noteq> CHR ''-'' \<Longrightarrow> c \<in> set (replace_char d s) \<longleftrightarrow> c \<in> set s \<and> c \<noteq> d"
  by (auto simp: replace_char_def)

lemma replace_dots_set: "c \<in> set (replace_dots s) \<Longrightarrow> c = CHR ''-'' \<or> c \<in> set s"
  by (induction s rule: replace_dots.induct) (auto split: if_splits)

lemma trim_chars_set: "c \<in> set (trim_chars cs s) \<Longrightarrow> c \<in> set s"
  by (simp add: trim_chars_def) (metis set_dropWhileD set_rev)

lemma trim_chars_hd: "trim_chars cs s \<noteq> [] \<Longrightarrow> hd (trim_chars cs s) \<notin> set cs"
proof -
  let ?t = "dropWhile (\<lambda>c. c \<in> set cs) s"
  assume ne: "trim_chars cs s \<noteq> []"
  have t: "?t = trim_chars cs s @ rev (takeWhile (\<lambda>c. c \<in> set cs) (rev ?t))"
    unfolding trim_chars_def by (metis rev_append rev_rev_ident takeWhile_dropWhile_id)
  then have "hd ?t = hd (trim_chars cs s)" "?t \<noteq> []" using ne by (metis hd_append2, metis append_is_Nil_conv)
  then show ?thesis using hd_dropWhile [of "\<lambda>c. c \<in> set cs" s] by metis
qed

text \<open>
  Whatever a machine is called, the sanitized name is a proper file name: not empty, at most
  255 bytes, without slash or backslash, and neither one dot nor two; the checkpoint of the
  machine then lies directly in the output directory.
\<close>

theorem sanitized_names_are_safe:
  "let n = sanitize_vm_name name
   in normal n \<and> CHR 0x5C \<notin> set n \<and> length n \<le> 255 \<and>
      (is_abs dir \<longrightarrow>
         get_checkpoint_path dir n = render_path True (clean_parts dir @ [''.'' @ n @ ''.checkpoint'']))"
proof -
  define t where "t = trim_chars ''.-'' (replace_char (CHR ''|'') (replace_char (CHR ''>'')
     (replace_char (CHR ''<'') (replace_char (CHR 0x22) (replace_char (CHR ''?'')
     (replace_char (CHR ''*'') (replace_char (CHR '':'') (filter (\<lambda>c. c \<noteq> CHR 0x00)
     (replace_dots (replace_char (CHR 0x5C) (replace_char slash name)))))))))))"
  define u where "u = (if t = [] then ''unnamed-vm'' else t)"
  let ?n = "sanitize_vm_name name"
  have n: "?n = take max_filename_length u"
    by (auto simp: sanitize_vm_name_def t_def [symmetric] u_def Let_def max_filename_length_def)
  have "c \<notin> set t" if c: "c = slash \<or> c = CHR 0x5C" for c
  proof -
    from c have "c \<noteq> CHR ''-''" by auto
    note rc = replace_char_set [OF this]
    have "c \<notin> set (replace_char (CHR 0x5C) (replace_char slash name))" using c by (simp only: rc) auto
    then have "c \<notin> set (replace_dots (replace_char (CHR 0x5C) (replace_char slash name)))"
      using replace_dots_set [of c] \<open>c \<noteq> CHR ''-''\<close> by blast
    then show ?thesis
      unfolding t_def by (intro notI) (drule trim_chars_set, simp add: rc)
  qed
  then have bad: "slash \<notin> set u" "CHR 0x5C \<notin> set u" by (auto simp: u_def)
  have ne: "u \<noteq> []" and hd: "hd u \<noteq> CHR ''.''"
    using trim_chars_hd [of "''.-''"] by (auto simp: u_def t_def)
  then have "normal ?n"
    using bad by (cases u) (auto simp: n normal_def max_filename_length_def dest: in_set_takeD)
  moreover have "CHR 0x5C \<notin> set ?n" using bad by (auto simp: n dest: in_set_takeD)
  moreover have "length ?n \<le> 255" by (simp add: n max_filename_length_def)
  moreover have "get_checkpoint_path dir ?n =
      render_path True (clean_parts dir @ [''.'' @ ?n @ ''.checkpoint''])" if abs: "is_abs dir"
  proof -
    let ?f = "''.'' @ ?n @ ''.checkpoint''"
    from abs have abs2: "dir \<noteq> []" "is_abs (dir @ slash # ?f)"
      by (auto simp: is_abs_def split: list.splits)
    have "normal ?f" using \<open>normal ?n\<close> by (auto simp: normal_def)
    moreover from this have "split_slash ?f = [?f]" by (intro split_slash_plain) (simp add: normal_def)
    ultimately have "clean_parts (dir @ slash # ?f) = clean_parts dir @ [?f]"
      using abs abs2(2)
      by (simp add: clean_parts_def split_slash_append clean_stack_append clean_stack_normals
          del: append.simps)
    with abs2 show ?thesis by (simp add: get_checkpoint_path_def path_join_def path_clean_def)
  qed
  ultimately show ?thesis by (simp add: Let_def)
qed

theorem sanitized_names_are_safe_witness:
  "get_checkpoint_path ''/exports'' (sanitize_vm_name ''../../etc/passwd'') =
     ''/exports/.etc-passwd.checkpoint''"
proof -
  have "sanitize_vm_name ''../../etc/passwd'' = ''etc-passwd''" "is_abs ''/exports''"
    "render_path True (clean_parts ''/exports'' @ [''.'' @ ''etc-passwd'' @ ''.checkpoint'']) =
       ''/exports/.etc-passwd.checkpoint''"
    by code_simp+
  with sanitized_names_are_safe [of "''../../etc/passwd''" "''/exports''"] show ?thesis
    by (simp only: Let_def)
qed

section \<open>The parallel download\<close>

record nfc_item =
  ni_path :: string
  ni_url :: string
  ni_size :: int

text \<open>
  What the download runs in: the files of the lease, the directory and the options, the answers
  of the file system (\<open>dw_stat\<close> is the size of a file that exists), the outcome of
  \<open>downloadFileWithRetry\<close> (an error or the number of bytes), and how checkpoints are encoded
  and saved at a time.
\<close>

record download_world =
  dw_items :: "nfc_item list"
  dw_dir :: string
  dw_concurrency :: int
  dw_stat :: "string \<Rightarrow> int option"
  dw_mkdir :: "string \<Rightarrow> string option"
  dw_fetch :: "string \<Rightarrow> string \<Rightarrow> string + int"
  dw_interval :: duration
  dw_ck_path :: string
  dw_marshal :: "checkpoint \<Rightarrow> string option"
  dw_save_env :: "instant \<Rightarrow> save_env"

datatype download_error = DirError string string | FetchError string string

text \<open>
  The state of \<open>downloadFilesParallel\<close>: the next file to launch, the goroutines before their
  look at the checkpoint and those that are downloading, and the shared variables.
\<close>

record download =
  dl_next :: nat
  dl_launched :: "nat list"
  dl_loading :: "nat list"
  dl_results :: "string list"
  dl_errors :: "download_error list"
  dl_checkpoint :: "checkpoint option"
  dl_store :: file_store
  dl_last_save :: instant

definition item :: "download_world \<Rightarrow> nat \<Rightarrow> nfc_item" where
  "item w i = dw_items w ! i"

definition target :: "download_world \<Rightarrow> nat \<Rightarrow> string" where
  "target w i = path_join (dw_dir w) (ni_path (item w i))"

definition slots :: "download_world \<Rightarrow> int" where
  "slots w = (if dw_concurrency w < 1 then 1 else dw_concurrency w)"

definition seed_checkpoint :: "instant \<Rightarrow> nfc_item list \<Rightarrow> checkpoint \<Rightarrow> checkpoint" where
  "seed_checkpoint now items c =
     fold (\<lambda>it. ensure_file now (ni_path it) (ni_url it) (ni_size it)) items c"

definition save_to_store :: "download_world \<Rightarrow> instant \<Rightarrow> checkpoint \<Rightarrow> file_store \<Rightarrow> file_store" where
  "save_to_store w now c fs =
     snd (save_checkpoint (dw_marshal w) (dw_save_env w now) [] (dw_ck_path w) c fs)"

definition start_download ::
  "download_world \<Rightarrow> instant \<Rightarrow> checkpoint option \<Rightarrow> file_store \<Rightarrow> download" where
  "start_download w now ck fs =
     (let ck = map_option (seed_checkpoint now (dw_items w)) ck
      in \<lparr>dl_next = 0, dl_launched = [], dl_loading = [],
          dl_results = replicate (length (dw_items w)) [], dl_errors = [], dl_checkpoint = ck,
          dl_store = (case ck of None \<Rightarrow> fs | Some c \<Rightarrow> save_to_store w now c fs),
          dl_last_save = (case ck of None \<Rightarrow> 0 | Some c \<Rightarrow> now)\<rparr>)"

text \<open>The main loop takes a slot and starts the next goroutine.\<close>

definition launch :: "download_world \<Rightarrow> download \<Rightarrow> download option" where
  "launch w d =
     (if dl_next d < length (dw_items w) \<and>
         int (length (dl_launched d) + length (dl_loading d)) < slots w
      then Some (d\<lparr>dl_next := Suc (dl_next d), dl_launched := dl_launched d @ [dl_next d]\<rparr>)
      else None)"

text \<open>A goroutine looks whether its file is there already, and prepares the directory.\<close>

definition already_there :: "download_world \<Rightarrow> checkpoint option \<Rightarrow> nat \<Rightarrow> bool" where
  "already_there w ck i =
     (case ck of
        None \<Rightarrow> False
      | Some c \<Rightarrow>
          (case get_file_progress (ni_path (item w i)) c of
             None \<Rightarrow> False
           | Some f \<Rightarrow> fc_status f = ''completed'' \<and> dw_stat w (target w i) = Some (ni_size (item w i))))"

definition look :: "download_world \<Rightarrow> nat \<Rightarrow> download \<Rightarrow> download option" where
  "look w i d =
     (if \<not> List.member (dl_launched d) i then None
      else
        let d' = d\<lparr>dl_launched := remove1 i (dl_launched d)\<rparr>
        in if already_there w (dl_checkpoint d) i
           then Some (d'\<lparr>dl_results := (dl_results d)[i := target w i]\<rparr>)
           else case dw_mkdir w (path_dir (target w i)) of
                  Some e \<Rightarrow>
                    Some (d'\<lparr>dl_errors := dl_errors d @ [DirError (ni_path (item w i)) e]\<rparr>)
                | None \<Rightarrow> Some (d'\<lparr>dl_loading := dl_loading d @ [i]\<rparr>))"

text \<open>The download of a file has ended at \<open>now\<close>; the checkpoint is saved when it is due.\<close>

definition note_completed :: "download_world \<Rightarrow> instant \<Rightarrow> nat \<Rightarrow> int \<Rightarrow> download \<Rightarrow> download" where
  "note_completed w now i bytes d =
     (case dl_checkpoint d of
        None \<Rightarrow> d
      | Some c \<Rightarrow>
          let c = update_file_progress now (ni_path (item w i)) bytes ''completed'' c;
              d = d\<lparr>dl_checkpoint := Some c\<rparr>;
              due = (dw_interval w = 0 \<or> now - dl_last_save d \<ge> dw_interval w);
              d = (if dw_interval w \<noteq> 0 \<and> due then d\<lparr>dl_last_save := now\<rparr> else d)
          in if due then d\<lparr>dl_store := save_to_store w now c (dl_store d)\<rparr> else d)"

definition note_failed :: "download_world \<Rightarrow> instant \<Rightarrow> nat \<Rightarrow> download \<Rightarrow> download" where
  "note_failed w now i d =
     d\<lparr>dl_checkpoint :=
         map_option (update_file_progress now (ni_path (item w i)) 0 ''failed'') (dl_checkpoint d)\<rparr>"

definition finish_file :: "download_world \<Rightarrow> nat \<Rightarrow> instant \<Rightarrow> download \<Rightarrow> download option" where
  "finish_file w i now d =
     (if \<not> List.member (dl_loading d) i then None
      else
        let d' = d\<lparr>dl_loading := remove1 i (dl_loading d)\<rparr>
        in case dw_fetch w (ni_url (item w i)) (target w i) of
             Inl e \<Rightarrow>
               Some ((note_failed w now i d')
                       \<lparr>dl_errors := dl_errors d @ [FetchError (ni_path (item w i)) e]\<rparr>)
           | Inr bytes \<Rightarrow>
               Some (note_completed w now i bytes
                       (d'\<lparr>dl_results := (dl_results d)[i := target w i]\<rparr>)))"

datatype download_event = Launch | Look nat | FinishFile nat instant

fun download_exec :: "download_world \<Rightarrow> download_event \<Rightarrow> download \<Rightarrow> download option" where
  "download_exec w Launch d = launch w d"
| "download_exec w (Look i) d = look w i d"
| "download_exec w (FinishFile i now) d = finish_file w i now d"

inductive downloading :: "download_world \<Rightarrow> download \<Rightarrow> download \<Rightarrow> bool" for w d0 where
  start: "downloading w d0 d0"
| step: "downloading w d0 d \<Longrightarrow> download_exec w ev d = Some d' \<Longrightarrow> downloading w d0 d'"

definition all_done :: "download_world \<Rightarrow> download \<Rightarrow> bool" where
  "all_done w d \<longleftrightarrow> dl_next d = length (dw_items w) \<and> dl_launched d = [] \<and> dl_loading d = []"

text \<open>What the function returns once \<open>wg.Wait()\<close> has returned.\<close>

definition download_answer :: "download \<Rightarrow> download_error list + string list" where
  "download_answer d =
     (if dl_errors d \<noteq> [] then Inl (dl_errors d)
      else Inr (filter (\<lambda>r. r \<noteq> []) (dl_results d)))"

section \<open>Every schedule settles the files the same way\<close>

definition progress_of :: "checkpoint option \<Rightarrow> string \<Rightarrow> file_checkpoint option" where
  "progress_of ck p = (case ck of None \<Rightarrow> None | Some c \<Rightarrow> get_file_progress p c)"

definition completed_in :: "checkpoint option \<Rightarrow> string \<Rightarrow> bool" where
  "completed_in ck p \<longleftrightarrow> (\<exists>f. progress_of ck p = Some f \<and> fc_status f = ''completed'')"

lemma already_there_progress:
  "already_there w ck i \<longleftrightarrow>
     completed_in ck (ni_path (item w i)) \<and> dw_stat w (target w i) = Some (ni_size (item w i))"
  by (auto simp: already_there_def completed_in_def progress_of_def split: option.splits)

text \<open>Whether file \<open>i\<close> ends well, by the checkpoint at the start and the answers of the world.\<close>

definition ends_well :: "download_world \<Rightarrow> checkpoint option \<Rightarrow> nat \<Rightarrow> bool" where
  "ends_well w ck i \<longleftrightarrow> already_there w ck i \<or>
     dw_mkdir w (path_dir (target w i)) = None \<and>
     (\<exists>bytes. dw_fetch w (ni_url (item w i)) (target w i) = Inr bytes)"

definition pending :: "download_world \<Rightarrow> download \<Rightarrow> nat set" where
  "pending w d = {dl_next d..<length (dw_items w)} \<union> set (dl_launched d) \<union> set (dl_loading d)"

definition settled :: "download_world \<Rightarrow> download \<Rightarrow> nat set" where
  "settled w d = {..<length (dw_items w)} - pending w d"

definition queues_ok :: "download_world \<Rightarrow> download \<Rightarrow> bool" where
  "queues_ok w d \<longleftrightarrow> dl_next d \<le> length (dw_items w) \<and>
     distinct (dl_launched d @ dl_loading d) \<and>
     set (dl_launched d) \<union> set (dl_loading d) \<subseteq> {..<dl_next d} \<and>
     int (length (dl_launched d) + length (dl_loading d)) \<le> slots w"

definition files_ok :: "download_world \<Rightarrow> checkpoint option \<Rightarrow> download \<Rightarrow> bool" where
  "files_ok w ck d \<longleftrightarrow> length (dl_results d) = length (dw_items w) \<and>
     (\<forall>i \<in> pending w d. dl_results d ! i = [] \<and>
        progress_of (dl_checkpoint d) (ni_path (item w i)) = progress_of ck (ni_path (item w i))) \<and>
     (\<forall>i \<in> set (dl_loading d). \<not> already_there w ck i \<and>
        dw_mkdir w (path_dir (target w i)) = None) \<and>
     (\<forall>i \<in> settled w d. dl_results d ! i = (if ends_well w ck i then target w i else [])) \<and>
     (dl_errors d \<noteq> [] \<longleftrightarrow> (\<exists>i \<in> settled w d. \<not> ends_well w ck i))"

definition progress_ok :: "download_world \<Rightarrow> checkpoint option \<Rightarrow> download \<Rightarrow> bool" where
  "progress_ok w ck d \<longleftrightarrow> (dl_checkpoint d = None) = (ck = None) \<and>
     (\<forall>p. (progress_of (dl_checkpoint d) p = None) = (progress_of ck p = None)) \<and>
     (\<forall>i \<in> settled w d. progress_of ck (ni_path (item w i)) \<noteq> None \<longrightarrow> ends_well w ck i \<longrightarrow>
        completed_in (dl_checkpoint d) (ni_path (item w i))) \<and>
     (\<forall>p. completed_in (dl_checkpoint d) p \<longrightarrow> completed_in ck p \<or>
        (\<exists>i \<in> settled w d. ends_well w ck i \<and> ni_path (item w i) = p))"

text \<open>One file is settled: what every way of ending does to the state.\<close>

definition settles :: "download_world \<Rightarrow> checkpoint option \<Rightarrow> nat \<Rightarrow> download \<Rightarrow> download \<Rightarrow> bool" where
  "settles w ck i d d' \<longleftrightarrow> i \<in> pending w d \<and> i < length (dw_items w) \<and>
     pending w d' = pending w d - {i} \<and>
     set (dl_loading d') \<subseteq> set (dl_loading d) \<and>
     dl_results d' = (dl_results d)[i := (if ends_well w ck i then target w i else [])] \<and>
     (dl_errors d' = dl_errors d \<longleftrightarrow> ends_well w ck i) \<and>
     (dl_errors d' = [] \<longrightarrow> dl_errors d = []) \<and>
     (\<not> ends_well w ck i \<longrightarrow> dl_errors d' \<noteq> []) \<and>
     (dl_checkpoint d' = None) = (dl_checkpoint d = None) \<and>
     (\<forall>p. p \<noteq> ni_path (item w i) \<longrightarrow>
        progress_of (dl_checkpoint d') p = progress_of (dl_checkpoint d) p) \<and>
     (progress_of (dl_checkpoint d') (ni_path (item w i)) = None) =
       (progress_of (dl_checkpoint d) (ni_path (item w i)) = None) \<and>
     (progress_of (dl_checkpoint d) (ni_path (item w i)) \<noteq> None \<longrightarrow> ends_well w ck i \<longrightarrow>
        completed_in (dl_checkpoint d') (ni_path (item w i))) \<and>
     (completed_in (dl_checkpoint d') (ni_path (item w i)) \<longrightarrow>
        completed_in (dl_checkpoint d) (ni_path (item w i)) \<or> ends_well w ck i)"

definition distinct_paths :: "download_world \<Rightarrow> bool" where
  "distinct_paths w \<longleftrightarrow> distinct (map ni_path (dw_items w))"

lemma distinct_paths_eq:
  "distinct_paths w \<Longrightarrow> i < length (dw_items w) \<Longrightarrow> j < length (dw_items w) \<Longrightarrow>
   ni_path (item w i) = ni_path (item w j) \<longleftrightarrow> i = j"
  unfolding distinct_paths_def item_def
  by (metis distinct_conv_nth length_map nth_map)

lemma settles_settled: "settles w ck i d d' \<Longrightarrow> settled w d' = insert i (settled w d)"
  by (auto simp: settles_def settled_def)

lemma pending_range: "queues_ok w d \<Longrightarrow> pending w d \<subseteq> {..<length (dw_items w)}"
  by (auto simp: queues_ok_def pending_def)

lemma settles_files:
  assumes s: "settles w ck i d d'" and q: "queues_ok w d" and f: "files_ok w ck d"
    and dp: "distinct_paths w"
  shows "files_ok w ck d'"
  unfolding files_ok_def
proof (intro conjI ballI)
  have i: "i < length (dw_items w)" and ip: "i \<in> pending w d" and len: "length (dl_results d) = length (dw_items w)"
    using s f by (auto simp: settles_def files_ok_def)
  have sd: "settled w d' = insert i (settled w d)" by (rule settles_settled [OF s])
  show "length (dl_results d') = length (dw_items w)" using s len by (simp add: settles_def)
  fix j
  {
    assume j: "j \<in> pending w d'"
    then have j': "j \<in> pending w d" "j \<noteq> i" using s by (auto simp: settles_def)
    then have "j < length (dw_items w)" using pending_range [OF q] by auto
    then have ne: "ni_path (item w j) \<noteq> ni_path (item w i)"
      using distinct_paths_eq [OF dp _ i] j' by blast
    show "dl_results d' ! j = []" using s f j' by (simp add: settles_def files_ok_def)
    show "progress_of (dl_checkpoint d') (ni_path (item w j)) = progress_of ck (ni_path (item w j))"
      using s f j' ne by (simp add: settles_def files_ok_def)
  }
  {
    assume "j \<in> set (dl_loading d')"
    then have "j \<in> set (dl_loading d)" using s by (auto simp: settles_def)
    then show "\<not> already_there w ck j" "dw_mkdir w (path_dir (target w j)) = None"
      using f by (auto simp: files_ok_def)
  }
  {
    assume j: "j \<in> settled w d'"
    show "dl_results d' ! j = (if ends_well w ck j then target w j else [])"
    proof (cases "j = i")
      case True
      then show ?thesis using s i len by (simp add: settles_def)
    next
      case False
      then have "j \<in> settled w d" using j sd by simp
      with False f s show ?thesis by (simp add: settles_def files_ok_def)
    qed
  }
  show "(dl_errors d' \<noteq> []) = (\<exists>i\<in>settled w d'. \<not> ends_well w ck i)"
    using s f sd unfolding settles_def files_ok_def by auto
qed

lemma settles_progress:
  assumes s: "settles w ck i d d'" and q: "queues_ok w d" and f: "files_ok w ck d"
    and p: "progress_ok w ck d" and dp: "distinct_paths w"
  shows "progress_ok w ck d'"
  unfolding progress_ok_def
proof (intro conjI allI ballI impI)
  have i: "i < length (dw_items w)" and ip: "i \<in> pending w d"
    using s by (auto simp: settles_def)
  have sd: "settled w d' = insert i (settled w d)" by (rule settles_settled [OF s])
  show "(dl_checkpoint d' = None) = (ck = None)" using s p by (simp add: settles_def progress_ok_def)
  fix q
  show none: "(progress_of (dl_checkpoint d') q = None) = (progress_of ck q = None)"
    using s p by (cases "q = ni_path (item w i)") (auto simp: settles_def progress_ok_def)
  {
    fix j assume j: "j \<in> settled w d'" "progress_of ck (ni_path (item w j)) \<noteq> None" "ends_well w ck j"
    show "completed_in (dl_checkpoint d') (ni_path (item w j))"
    proof (cases "j = i")
      case True
      with s p j show ?thesis by (auto simp: settles_def progress_ok_def)
    next
      case False
      then have js: "j \<in> settled w d" using j sd by simp
      then have "j < length (dw_items w)" by (simp add: settled_def)
      then have ne: "ni_path (item w j) \<noteq> ni_path (item w i)"
        using distinct_paths_eq [OF dp _ i] False by blast
      have "completed_in (dl_checkpoint d) (ni_path (item w j))"
        using p js j by (auto simp: progress_ok_def)
      with s ne show ?thesis by (simp add: settles_def completed_in_def)
    qed
  }
  assume c: "completed_in (dl_checkpoint d') q"
  show "completed_in ck q \<or> (\<exists>i\<in>settled w d'. ends_well w ck i \<and> ni_path (item w i) = q)"
  proof (cases "q = ni_path (item w i) \<and> ends_well w ck i")
    case True
    then show ?thesis using sd by blast
  next
    case False
    have "completed_in (dl_checkpoint d) q"
    proof (cases "q = ni_path (item w i)")
      case True
      with s c False show ?thesis by (auto simp: settles_def)
    next
      case False
      with s c show ?thesis by (simp add: settles_def completed_in_def)
    qed
    with p sd show ?thesis unfolding progress_ok_def by blast
  qed
qed

text \<open>What the bookkeeping of the checkpoint leaves alone, and what it does to progress.\<close>

lemma note_completed_frame [simp]:
  "dl_next (note_completed w now i b d) = dl_next d"
  "dl_launched (note_completed w now i b d) = dl_launched d"
  "dl_loading (note_completed w now i b d) = dl_loading d"
  "dl_results (note_completed w now i b d) = dl_results d"
  "dl_errors (note_completed w now i b d) = dl_errors d"
  "dl_checkpoint (note_completed w now i b d) =
     map_option (update_file_progress now (ni_path (item w i)) b ''completed'') (dl_checkpoint d)"
  by (simp_all add: note_completed_def Let_def split: option.split)

lemma note_failed_frame [simp]:
  "dl_next (note_failed w now i d) = dl_next d"
  "dl_launched (note_failed w now i d) = dl_launched d"
  "dl_loading (note_failed w now i d) = dl_loading d"
  "dl_results (note_failed w now i d) = dl_results d"
  "dl_store (note_failed w now i d) = dl_store d"
  "dl_checkpoint (note_failed w now i d) =
     map_option (update_file_progress now (ni_path (item w i)) 0 ''failed'') (dl_checkpoint d)"
  by (simp_all add: note_failed_def)

lemma progress_of_update:
  "progress_of (map_option (update_file_progress now p b st) ck) q =
     (if q = p then map_option (\<lambda>f. f\<lparr>fc_downloaded_size := b, fc_status := st,
                                       fc_last_modified := now\<rparr>) (progress_of ck q)
      else progress_of ck q)"
  by (simp add: progress_of_def get_after_update split: option.split)

lemma completed_after_update:
  "completed_in (map_option (update_file_progress now p b st) ck) p \<longleftrightarrow>
     progress_of ck p \<noteq> None \<and> st = ''completed''"
  by (auto simp: completed_in_def progress_of_update)

lemma queues_remove:
  assumes "queues_ok w d" and "i \<in> set (dl_launched d) \<union> set (dl_loading d)"
  shows "i < length (dw_items w)" and "i \<in> pending w d"
    and "i \<in> set (dl_launched d) \<Longrightarrow> i \<notin> set (dl_loading d)"
    and "set (remove1 i (dl_launched d)) = set (dl_launched d) - {i}"
    and "set (remove1 i (dl_loading d)) = set (dl_loading d) - {i}"
    and "\<not> dl_next d \<le> i"
  using assms by (auto simp: queues_ok_def pending_def)

text \<open>The shape of every step.\<close>

lemma download_step:
  assumes step: "download_exec w ev d = Some d'" and q: "queues_ok w d" and f: "files_ok w ck d"
    and p: "progress_ok w ck d"
  shows "queues_ok w d' \<and>
    (settled w d' = settled w d \<and> pending w d' = pending w d \<and>
       dl_results d' = dl_results d \<and> dl_errors d' = dl_errors d \<and>
       dl_checkpoint d' = dl_checkpoint d \<and>
       (\<forall>i \<in> set (dl_loading d'). i \<in> set (dl_loading d) \<or>
          \<not> already_there w ck i \<and> dw_mkdir w (path_dir (target w i)) = None)
     \<or> (\<exists>i. settles w ck i d d'))"
proof (cases ev)
  case Launch
  with step have d': "d' = d\<lparr>dl_next := Suc (dl_next d), dl_launched := dl_launched d @ [dl_next d]\<rparr>"
    and room: "dl_next d < length (dw_items w)"
      "int (length (dl_launched d) + length (dl_loading d)) < slots w"
    by (auto simp: launch_def split: if_splits)
  have "pending w d' = pending w d" using room by (auto simp: pending_def d')
  moreover have "queues_ok w d'" using q room by (fastforce simp: queues_ok_def d')
  ultimately show ?thesis by (simp add: d' settled_def)
next
  case (Look i)
  with step have i: "i \<in> set (dl_launched d)" by (auto simp: look_def List.member_iff split: if_splits)
  note r = queues_remove [OF q UnI1 [OF i]]
  have same: "already_there w (dl_checkpoint d) i = already_there w ck i"
    using f r(2) by (simp add: already_there_progress completed_in_def files_ok_def)
  have res: "dl_results d ! i = []" using f r(2) by (simp add: files_ok_def)
  have noupd: "(dl_results d)[i := []] = dl_results d" by (metis res list_update_id)
  let ?d = "d\<lparr>dl_launched := remove1 i (dl_launched d)\<rparr>"
  have q1: "queues_ok w ?d" using q i by (auto simp: queues_ok_def r length_remove1)
  have pd: "pending w ?d = pending w d - {i}" using r i by (auto simp: pending_def)
  show ?thesis
  proof (cases "already_there w ck i")
    case True
    then have d': "d' = ?d\<lparr>dl_results := (dl_results d)[i := target w i]\<rparr>"
      using step Look i same by (simp add: look_def List.member_iff Let_def)
    have "ends_well w ck i" using True by (simp add: ends_well_def)
    moreover have "completed_in (dl_checkpoint d) (ni_path (item w i))"
      using True same by (simp add: already_there_progress)
    ultimately have "settles w ck i d d'" using r pd by (simp add: settles_def d' pending_def)
    moreover have "queues_ok w d'" using q1 by (simp add: queues_ok_def d')
    ultimately show ?thesis by blast
  next
    case na: False
    show ?thesis
    proof (cases "dw_mkdir w (path_dir (target w i))")
      case None
      then have d': "d' = ?d\<lparr>dl_loading := dl_loading d @ [i]\<rparr>"
        using step Look i same na by (simp add: look_def List.member_iff Let_def)
      have "pending w d' = pending w d" using r i by (auto simp: pending_def d')
      moreover have "queues_ok w d'"
      proof -
        obtain k where "length (dl_launched d) = Suc k"
          using length_pos_if_in_set [OF i] by (cases "length (dl_launched d)") simp_all
        with q i r show ?thesis by (auto simp: queues_ok_def d' length_remove1)
      qed
      ultimately show ?thesis using na None by (simp add: d' settled_def)
    next
      case (Some e)
      then have d': "d' = ?d\<lparr>dl_errors := dl_errors d @ [DirError (ni_path (item w i)) e]\<rparr>"
        using step Look i same na by (simp add: look_def List.member_iff Let_def)
      have "\<not> ends_well w ck i" using na Some by (simp add: ends_well_def)
      then have "settles w ck i d d'" using r pd noupd by (simp add: settles_def d' pending_def)
      moreover have "queues_ok w d'" using q1 by (simp add: queues_ok_def d')
      ultimately show ?thesis by blast
    qed
  qed
next
  case (FinishFile i now)
  with step have i: "i \<in> set (dl_loading d)"
    by (auto simp: finish_file_def List.member_iff split: if_splits)
  note r = queues_remove [OF q UnI2 [OF i]]
  have ni: "i \<notin> set (dl_launched d)" using r(3) i by blast
  have load: "\<not> already_there w ck i" "dw_mkdir w (path_dir (target w i)) = None"
    using f i by (auto simp: files_ok_def)
  have res: "dl_results d ! i = []" using f r(2) by (simp add: files_ok_def)
  have noupd: "(dl_results d)[i := []] = dl_results d" by (metis res list_update_id)
  let ?d = "d\<lparr>dl_loading := remove1 i (dl_loading d)\<rparr>"
  have q1: "queues_ok w ?d" using q i by (auto simp: queues_ok_def r length_remove1)
  have pd: "pending w ?d = pending w d - {i}" using r ni by (auto simp: pending_def)
  show ?thesis
  proof (cases "dw_fetch w (ni_url (item w i)) (target w i)")
    case (Inl e)
    then have d': "d' = (note_failed w now i ?d)
        \<lparr>dl_errors := dl_errors d @ [FetchError (ni_path (item w i)) e]\<rparr>"
      using step FinishFile i by (simp add: finish_file_def List.member_iff Let_def)
    have "\<not> ends_well w ck i" using load Inl by (simp add: ends_well_def)
    moreover have "pending w d' = pending w d - {i}" using pd by (simp add: pending_def d')
    ultimately have "settles w ck i d d'" using r noupd
      by (simp add: settles_def d' progress_of_update completed_after_update set_remove1_subset)
    moreover have "queues_ok w d'" using q1 by (simp add: queues_ok_def d')
    ultimately show ?thesis by blast
  next
    case (Inr b)
    then have d': "d' = note_completed w now i b
        (?d\<lparr>dl_results := (dl_results d)[i := target w i]\<rparr>)"
      using step FinishFile i by (simp add: finish_file_def List.member_iff Let_def)
    have "ends_well w ck i" using load Inr by (simp add: ends_well_def)
    moreover have "pending w d' = pending w d - {i}" using pd by (simp add: pending_def d')
    ultimately have "settles w ck i d d'" using r
      by (simp add: settles_def d' progress_of_update completed_after_update set_remove1_subset)
    moreover have "queues_ok w d'" using q1 by (simp add: queues_ok_def d')
    ultimately show ?thesis by blast
  qed
qed

definition download_inv :: "download_world \<Rightarrow> checkpoint option \<Rightarrow> download \<Rightarrow> bool" where
  "download_inv w ck d \<longleftrightarrow> queues_ok w d \<and> files_ok w ck d \<and> progress_ok w ck d"

lemma download_inv_step:
  assumes "download_exec w ev d = Some d'" and "download_inv w ck d" and "distinct_paths w"
  shows "download_inv w ck d'"
proof -
  have inv: "queues_ok w d" "files_ok w ck d" "progress_ok w ck d"
    using assms(2) by (simp_all add: download_inv_def)
  from download_step [OF assms(1) inv] show ?thesis
  proof (elim conjE disjE exE)
    fix i assume "queues_ok w d'" "settles w ck i d d'"
    with settles_files [OF _ inv(1,2) assms(3)] settles_progress [OF _ inv assms(3)]
    show ?thesis by (simp add: download_inv_def)
  next
    assume same: "queues_ok w d'" "settled w d' = settled w d" "pending w d' = pending w d"
      "dl_results d' = dl_results d" "dl_errors d' = dl_errors d"
      "dl_checkpoint d' = dl_checkpoint d"
      and load: "\<forall>i \<in> set (dl_loading d'). i \<in> set (dl_loading d) \<or>
          \<not> already_there w ck i \<and> dw_mkdir w (path_dir (target w i)) = None"
    have "files_ok w ck d'"
      using inv(2) load unfolding files_ok_def same by blast
    moreover have "progress_ok w ck d'" using inv(3) unfolding progress_ok_def same by blast
    ultimately show ?thesis using same(1) by (simp add: download_inv_def)
  qed
qed

lemma download_inv_start:
  "download_inv w (dl_checkpoint (start_download w now ck fs)) (start_download w now ck fs)"
proof -
  let ?d = "start_download w now ck fs"
  have shape: "dl_next ?d = 0" "dl_launched ?d = []" "dl_loading ?d = []" "dl_errors ?d = []"
    "dl_results ?d = replicate (length (dw_items w)) []"
    by (simp_all add: start_download_def Let_def)
  have "pending w ?d = {..<length (dw_items w)}" "settled w ?d = {}"
    by (auto simp: pending_def settled_def shape)
  then show ?thesis
    by (simp add: download_inv_def queues_ok_def files_ok_def progress_ok_def shape slots_def)
qed

lemma downloading_inv:
  assumes "downloading w (start_download w now ck fs) d" and "distinct_paths w"
  shows "download_inv w (dl_checkpoint (start_download w now ck fs)) d"
  using assms(1)
proof (induction rule: downloading.induct)
  case start
  show ?case by (rule download_inv_start)
next
  case (step d ev d')
  from download_inv_step [OF step.hyps(2) step.IH assms(2)] show ?case .
qed

lemma all_done_settled: "all_done w d \<Longrightarrow> settled w d = {..<length (dw_items w)}"
  by (simp add: all_done_def settled_def pending_def)

lemma target_nonempty: "dw_dir w \<noteq> [] \<Longrightarrow> target w i \<noteq> []"
  by (simp add: target_def path_join_def)

section \<open>What the download returns\<close>

lemma ensure_progress:
  "progress_of (Some (ensure_file now p url sz c)) q =
     (case progress_of (Some c) q of
        Some f \<Rightarrow> Some f
      | None \<Rightarrow> if q = p then Some (new_file now p url sz) else None)"
  by (simp add: ensure_file_def progress_of_def get_after_add split: option.split)

lemma seed_progress:
  "(progress_of (Some (seed_checkpoint now its c)) q \<noteq> None \<longleftrightarrow>
      progress_of (Some c) q \<noteq> None \<or> q \<in> ni_path ` set its) \<and>
   (completed_in (Some (seed_checkpoint now its c)) q \<longleftrightarrow> completed_in (Some c) q)"
proof (induction its arbitrary: c)
  case Nil
  show ?case by (simp add: seed_checkpoint_def)
next
  case (Cons it its)
  let ?c = "ensure_file now (ni_path it) (ni_url it) (ni_size it) c"
  have "completed_in (Some ?c) q = completed_in (Some c) q"
    by (simp add: completed_in_def ensure_progress new_file_def split: option.split)
  moreover have "progress_of (Some ?c) q \<noteq> None \<longleftrightarrow> progress_of (Some c) q \<noteq> None \<or> q = ni_path it"
    by (simp add: ensure_progress split: option.split)
  ultimately show ?case using Cons.IH [of ?c] by (auto simp: seed_checkpoint_def)
qed

lemma start_checkpoint:
  "dl_checkpoint (start_download w now ck fs) = map_option (seed_checkpoint now (dw_items w)) ck"
  by (simp add: start_download_def Let_def)

text \<open>
  C13: the files have different paths.  For every order in which the goroutines look and finish, at most the
  configured number of files is in work, and when all are done the answer is determined by the
  checkpoint at the start and the outcome of each file: it is an error exactly when some file
  could not be written, and otherwise lists the paths of all files in the order of the lease;
  then every file is recorded as completed in the checkpoint, if there is one.
\<close>

theorem download_answers:
  assumes "dw_dir w \<noteq> []" and "distinct_paths w"
    and "downloading w (start_download w now ck fs) d"
  shows "int (length (dl_launched d) + length (dl_loading d)) \<le> slots w \<and>
    (all_done w d \<longrightarrow>
       (if \<forall>i < length (dw_items w).
             ends_well w (map_option (seed_checkpoint now (dw_items w)) ck) i
        then download_answer d = Inr (map (target w) [0..<length (dw_items w)]) \<and>
             (ck \<noteq> None \<longrightarrow>
                (\<forall>i < length (dw_items w). completed_in (dl_checkpoint d) (ni_path (item w i))))
        else (\<exists>es. es \<noteq> [] \<and> download_answer d = Inl es)))"
proof -
  let ?ck = "map_option (seed_checkpoint now (dw_items w)) ck"
  have inv: "queues_ok w d" "files_ok w ?ck d" "progress_ok w ?ck d"
    using downloading_inv [OF assms(3,2)] by (simp_all add: download_inv_def start_checkpoint)
  have "if \<forall>i < length (dw_items w). ends_well w ?ck i
        then download_answer d = Inr (map (target w) [0..<length (dw_items w)]) \<and>
             (ck \<noteq> None \<longrightarrow>
                (\<forall>i < length (dw_items w). completed_in (dl_checkpoint d) (ni_path (item w i))))
        else \<exists>es. es \<noteq> [] \<and> download_answer d = Inl es" if fin: "all_done w d"
  proof (cases "\<forall>i < length (dw_items w). ends_well w ?ck i")
    case well: True
    note st = all_done_settled [OF fin]
    have res: "dl_results d = map (target w) [0..<length (dw_items w)]"
      using inv(2) well st by (intro nth_equalityI) (auto simp: files_ok_def)
    moreover have "dl_errors d = []" using inv(2) well st by (auto simp: files_ok_def)
    moreover have "filter (\<lambda>r. r \<noteq> []) (map (target w) [0..<length (dw_items w)]) =
        map (target w) [0..<length (dw_items w)]"
      using target_nonempty [OF assms(1)] by (auto simp: filter_id_conv)
    moreover have "completed_in (dl_checkpoint d) (ni_path (item w i))"
      if i: "i < length (dw_items w)" and c: "ck \<noteq> None" for i
    proof -
      obtain c0 where c0: "ck = Some c0" using c by blast
      have "ni_path (item w i) \<in> ni_path ` set (dw_items w)" using i by (simp add: item_def)
      then have "progress_of ?ck (ni_path (item w i)) \<noteq> None"
        using seed_progress [of now "dw_items w" c0 "ni_path (item w i)"] by (simp add: c0)
      with inv(3) well st i show ?thesis by (simp add: progress_ok_def)
    qed
    ultimately show ?thesis using well by (simp add: download_answer_def)
  next
    case False
    then have "dl_errors d \<noteq> []" using inv(2) all_done_settled [OF fin] by (auto simp: files_ok_def)
    with False show ?thesis by (auto simp: download_answer_def)
  qed
  with inv(1) show ?thesis by (simp add: queues_ok_def)
qed

section \<open>What is on disk can be trusted\<close>

definition truthful :: "download_world \<Rightarrow> checkpoint option \<Rightarrow> download \<Rightarrow> checkpoint \<Rightarrow> bool" where
  "truthful w ck d c \<longleftrightarrow> (\<forall>p. completed_in (Some c) p \<longrightarrow> completed_in ck p \<or>
     (\<exists>i \<in> settled w d. ends_well w ck i \<and> ni_path (item w i) = p))"

definition disk_ok :: "download_world \<Rightarrow> checkpoint option \<Rightarrow> file_store \<Rightarrow> download \<Rightarrow> bool" where
  "disk_ok w ck fs d \<longleftrightarrow>
     gm_get (dl_store d) (dw_ck_path w) = gm_get fs (dw_ck_path w) \<or>
     (\<exists>c. gm_get (dl_store d) (dw_ck_path w) = dw_marshal w c \<and> truthful w ck d c)"

lemma store_step:
  assumes "download_exec w ev d = Some d'"
  shows "dl_store d' = dl_store d \<or>
    (\<exists>now c. dl_checkpoint d' = Some c \<and> dl_store d' = save_to_store w now c (dl_store d))"
proof (cases ev)
  case (FinishFile i now)
  let ?d = "d\<lparr>dl_loading := remove1 i (dl_loading d)\<rparr>"
  let ?d1 = "?d\<lparr>dl_results := (dl_results d)[i := target w i]\<rparr>"
  show ?thesis
  proof (cases "dw_fetch w (ni_url (item w i)) (target w i)")
    case (Inl e)
    with FinishFile assms show ?thesis by (auto simp: finish_file_def Let_def split: if_splits)
  next
    case (Inr b)
    with FinishFile assms have d': "d' = note_completed w now i b ?d1"
      by (simp add: finish_file_def Let_def split: if_splits)
    show ?thesis
    proof (cases "dl_checkpoint d")
      case None
      then show ?thesis by (simp add: d' note_completed_def)
    next
      case (Some c)
      then show ?thesis by (auto simp: d' note_completed_def Let_def)
    qed
  qed
qed (use assms in \<open>auto simp: launch_def look_def Let_def split: if_splits option.splits\<close>)

lemma disk_ok_step:
  assumes step: "download_exec w ev d = Some d'" and disk: "disk_ok w ck fs d"
    and inv: "download_inv w ck d" and inv': "download_inv w ck d'"
  shows "disk_ok w ck fs d'"
proof -
  have "settled w d \<subseteq> settled w d'"
    using download_step [OF step, of ck] inv settles_settled by (auto simp: download_inv_def)
  then have mono: "truthful w ck d c \<Longrightarrow> truthful w ck d' c" for c
    unfolding truthful_def by blast
  have old: ?thesis if "gm_get (dl_store d') (dw_ck_path w) = gm_get (dl_store d) (dw_ck_path w)"
    using disk that mono unfolding disk_ok_def by auto
  from store_step [OF step] show ?thesis
  proof (elim disjE exE conjE)
    fix now c assume c: "dl_checkpoint d' = Some c"
      and st: "dl_store d' = save_to_store w now c (dl_store d)"
    have "truthful w ck d' c"
      using inv' c by (simp add: download_inv_def progress_ok_def truthful_def)
    with save_keeps_or_writes [of "dw_marshal w" "dw_save_env w now" "[]" "dw_ck_path w" c "dl_store d"]
    show ?thesis using old st unfolding disk_ok_def save_to_store_def by metis
  qed (use old in simp)
qed

lemma disk_ok_start:
  "disk_ok w (dl_checkpoint (start_download w now ck fs)) fs (start_download w now ck fs)"
proof (cases ck)
  case None
  then show ?thesis by (simp add: disk_ok_def start_download_def Let_def)
next
  case (Some c0)
  let ?c = "seed_checkpoint now (dw_items w) c0"
  have "truthful w (Some ?c) d ?c" for d by (simp add: truthful_def)
  with save_keeps_or_writes [of "dw_marshal w" "dw_save_env w now" "[]" "dw_ck_path w" ?c fs]
  show ?thesis unfolding disk_ok_def by (auto simp: start_download_def Let_def save_to_store_def Some)
qed

lemma downloading_disk:
  assumes "downloading w (start_download w now ck fs) d" and "distinct_paths w"
  shows "disk_ok w (dl_checkpoint (start_download w now ck fs)) fs d"
  using assms(1)
proof (induction rule: downloading.induct)
  case start
  show ?case by (rule disk_ok_start)
next
  case (step d ev d')
  have "download_inv w (dl_checkpoint (start_download w now ck fs)) d"
    by (rule downloading_inv [OF step.hyps(1) assms(2)])
  with disk_ok_step [OF step.hyps(2) step.IH] download_inv_step [OF step.hyps(2) _ assms(2)]
  show ?case by blast
qed

lemma saved_checkpoint_parts:
  assumes "distinct_paths w"
    and "\<forall>c data. dw_marshal w c = Some data \<longrightarrow> unmarshal data = Some c"
    and "downloading w (start_download w now (Some c0) fs) d"
    and "load_checkpoint unmarshal (dw_ck_path w) (dl_store d) = Inr c"
    and "gm_get (dl_store d) (dw_ck_path w) \<noteq> gm_get fs (dw_ck_path w)"
    and "completed_in (Some c) p"
  shows "completed_in (Some c0) p \<or>
    (\<exists>i \<in> settled w d. ends_well w (Some (seed_checkpoint now (dw_items w) c0)) i \<and>
       ni_path (item w i) = p)"
proof -
  let ?ck = "Some (seed_checkpoint now (dw_items w) c0)"
  have "disk_ok w ?ck fs d"
    using downloading_disk [OF assms(3,1)] by (simp add: start_checkpoint)
  with assms(5) obtain c1 where "gm_get (dl_store d) (dw_ck_path w) = dw_marshal w c1"
    and t: "truthful w ?ck d c1"
    by (auto simp: disk_ok_def)
  with assms(4) assms(2) have "c1 = c"
    by (auto simp: load_checkpoint_def split: option.splits if_splits)
  with t assms(6) seed_progress [of now "dw_items w" c0 p] show ?thesis
    by (auto simp: truthful_def)
qed

text \<open>A download that resumes from the checkpoint on disk needs no exception for the old file.\<close>

lemma resumed_checkpoint_is_truthful:
  assumes "distinct_paths w"
    and "\<forall>c data. dw_marshal w c = Some data \<longrightarrow> unmarshal data = Some c"
    and "downloading w (start_download w now (Some c0) fs) d"
    and "load_checkpoint unmarshal (dw_ck_path w) fs = Inr c0"
    and "load_checkpoint unmarshal (dw_ck_path w) (dl_store d) = Inr c"
    and "completed_in (Some c) p"
  shows "completed_in (Some c0) p \<or>
    (\<exists>i \<in> settled w d. ends_well w (Some (seed_checkpoint now (dw_items w) c0)) i \<and>
       ni_path (item w i) = p)"
proof (cases "gm_get (dl_store d) (dw_ck_path w) = gm_get fs (dw_ck_path w)")
  case True
  with assms(4,5) have "c = c0" by (simp add: load_checkpoint_def)
  with assms(6) show ?thesis by simp
next
  case False
  show ?thesis by (rule saved_checkpoint_parts [OF assms(1-3,5) False assms(6)])
qed

text \<open>
  C12: after a crash at any moment of a download of files with different paths, a checkpoint that
  can be loaded from disk records a file as completed only when it was completed in the checkpoint
  at the start or has ended well in this run, unless the file on disk is still, byte for byte, the
  one that lay there before, because no save has succeeded.
\<close>

theorem saved_checkpoint_is_truthful:
  assumes "distinct_paths w"
    and "\<forall>c data. dw_marshal w c = Some data \<longrightarrow> unmarshal data = Some c"
    and "downloading w (start_download w now (Some c0) fs) d"
    and "load_checkpoint unmarshal (dw_ck_path w) (dl_store d) = Inr c"
    and "completed_in (Some c) p"
  shows "completed_in (Some c0) p
    \<or> (\<exists>i \<in> settled w d. ends_well w (Some (seed_checkpoint now (dw_items w) c0)) i
         \<and> ni_path (item w i) = p)
    \<or> gm_get (dl_store d) (dw_ck_path w) = gm_get fs (dw_ck_path w)"
  using saved_checkpoint_parts [OF assms(1-4) _ assms(5)] by blast

text \<open>One file, downloaded and recorded.\<close>

definition fresh_ck :: checkpoint where
  "fresh_ck = new_checkpoint 0 ''vm'' ''vsphere'' ''ovf'' ''/out''"

definition done_ck :: checkpoint where
  "done_ck = update_file_progress 2 ''disk.vmdk'' 7 ''completed''
     (add_file 1 ''disk.vmdk'' ''u'' 7 fresh_ck)"

definition one_file :: download_world where
  "one_file = \<lparr>dw_items = [\<lparr>ni_path = ''disk.vmdk'', ni_url = ''u'', ni_size = 7\<rparr>],
     dw_dir = ''/out'', dw_concurrency = 1, dw_stat = (\<lambda>p. None), dw_mkdir = (\<lambda>p. None),
     dw_fetch = (\<lambda>u p. Inr 7), dw_interval = 0, dw_ck_path = ''/out/.vm.checkpoint'',
     dw_marshal = (\<lambda>c. if c = done_ck then Some ''json'' else None),
     dw_save_env = (\<lambda>t. \<lparr>se_mkdir = None, se_write = None, se_rename = None\<rparr>)\<rparr>"

definition one_done :: download where
  "one_done = \<lparr>dl_next = 1, dl_launched = [], dl_loading = [], dl_results = [target one_file 0],
     dl_errors = [], dl_checkpoint = Some done_ck,
     dl_store = [(''/out/.vm.checkpoint'', ''json'')], dl_last_save = 1\<rparr>"

lemma one_file_facts:
  "dw_dir one_file = ''/out''" "length (dw_items one_file) = 1" "distinct_paths one_file"
  "dw_ck_path one_file = ''/out/.vm.checkpoint''" "ni_path (item one_file 0) = ''disk.vmdk''"
  "dw_fetch one_file u p = Inr 7" "dw_interval one_file = 0"
  "dw_marshal one_file done_ck = Some ''json''"
  "dw_save_env one_file t = \<lparr>se_mkdir = None, se_write = None, se_rename = None\<rparr>"
  by (simp_all add: one_file_def distinct_paths_def item_def)

lemma one_file_seed: "seed_checkpoint 1 (dw_items one_file) fresh_ck = add_file 1 ''disk.vmdk'' ''u'' 7 fresh_ck"
  by (simp add: seed_checkpoint_def one_file_def ensure_file_def fresh_ck_def new_checkpoint_def
      get_file_progress_def)

lemma one_file_pending: "add_file 1 ''disk.vmdk'' ''u'' 7 fresh_ck \<noteq> done_ck"
  by (simp add: done_ck_def fresh_ck_def add_file_def new_file_def update_file_progress_def
      new_checkpoint_def)

lemma one_file_runs:
  "downloading one_file (start_download one_file 1 (Some fresh_ck) []) one_done"
proof -
  let ?c = "add_file 1 ''disk.vmdk'' ''u'' 7 fresh_ck"
  let ?d0 = "start_download one_file 1 (Some fresh_ck) []"
  have nofile: "\<not> already_there one_file (Some ?c) 0"
    by (simp add: already_there_progress one_file_def)
  have d0: "?d0 = \<lparr>dl_next = 0, dl_launched = [], dl_loading = [], dl_results = [[]],
      dl_errors = [], dl_checkpoint = Some ?c, dl_store = [], dl_last_save = 1\<rparr>"
    using one_file_pending
    by (simp add: start_download_def one_file_seed Let_def save_to_store_def save_checkpoint_def)
      (simp add: one_file_def)
  have s1: "download_exec one_file Launch ?d0 = Some (?d0\<lparr>dl_next := 1, dl_launched := [0]\<rparr>)"
    by (simp add: launch_def d0 slots_def) (simp add: one_file_def)
  have s2: "download_exec one_file (Look 0) (?d0\<lparr>dl_next := 1, dl_launched := [0]\<rparr>) =
      Some (?d0\<lparr>dl_next := 1, dl_loading := [0]\<rparr>)"
    using nofile by (simp add: look_def d0 List.member_iff Let_def) (simp add: one_file_def)
  have s3: "download_exec one_file (FinishFile 0 2) (?d0\<lparr>dl_next := 1, dl_loading := [0]\<rparr>) =
      Some one_done"
    by (simp add: finish_file_def d0 List.member_iff Let_def one_file_facts note_completed_def
        done_ck_def [symmetric] save_to_store_def save_checkpoint_def one_done_def)
  from downloading.step [OF downloading.step [OF downloading.step [OF downloading.start s1] s2] s3]
  show ?thesis .
qed

theorem download_answers_witness:
  "download_answer one_done = Inr [''/out/disk.vmdk''] \<and> int (length (dl_loading one_done)) \<le> 1"
proof -
  have ne: "dw_dir one_file \<noteq> []" by (simp add: one_file_facts)
  have well: "ends_well one_file ck i" if "i < length (dw_items one_file)" for ck i
    by (simp add: ends_well_def one_file_def)
  have fin: "all_done one_file one_done" by (simp add: all_done_def one_done_def one_file_facts)
  have t: "target one_file 0 = ''/out/disk.vmdk''" by code_simp
  from download_answers [OF ne one_file_facts(3) one_file_runs] fin well t
  show ?thesis by (simp add: one_file_facts one_done_def)
qed

theorem saved_checkpoint_is_truthful_witness:
  "\<exists>i \<in> settled one_file one_done. ni_path (item one_file i) = ''disk.vmdk''"
proof -
  have codec: "\<forall>c data. dw_marshal one_file c = Some data \<longrightarrow> (\<lambda>d. Some done_ck) data = Some c"
    by (simp add: one_file_def split: if_splits)
  have load: "load_checkpoint (\<lambda>d. Some done_ck) (dw_ck_path one_file) (dl_store one_done) = Inr done_ck"
    by (simp add: load_checkpoint_def one_done_def one_file_facts done_ck_def fresh_ck_def
        add_file_def new_file_def update_file_progress_def new_checkpoint_def)
  have comp: "completed_in (Some done_ck) ''disk.vmdk''"
    by (simp add: completed_in_def progress_of_def done_ck_def fresh_ck_def add_file_def
        new_file_def update_file_progress_def new_checkpoint_def get_file_progress_def)
  have "\<not> completed_in (Some fresh_ck) ''disk.vmdk''"
    by (simp add: completed_in_def progress_of_def fresh_ck_def new_checkpoint_def
        get_file_progress_def)
  with saved_checkpoint_is_truthful [where unmarshal = "\<lambda>d. Some done_ck", OF one_file_facts(3) codec one_file_runs load comp]
  show ?thesis by (auto simp: one_done_def one_file_facts)
qed

end
