(* ===== verification/Incremental_Tracker.thy ===== *)
theory Incremental_Tracker
  imports Go_Path "HOL-Library.Char_ord" "HOL-Library.List_Lexorder"
begin

text \<open>
  The change tracker of incremental exports, \<open>providers/incremental/tracker.go\<close>: where the metadata
  of a machine lives, how it is saved, found, listed and aged out, and the decisions taken from
  the last export.  A directory of the store holds named files with their modification times and
  the symbolic link \<open>latest.json\<close>.  JSON encoding and the rendering of a time in file names
  (to the second, in the location the time carries) are arguments, and so are the errors of the
  system calls that change the store; reading a file that exists succeeds.
\<close>

section \<open>Metadata\<close>

record disk_metadata =
  dm_key :: string
  dm_path :: string
  dm_capacity :: int
  dm_change_id :: string
  dm_backing_info :: string

record export_metadata =
  em_vm_id :: string
  em_vm_name :: string
  em_export_time :: instant
  em_snapshot_id :: string
  em_change_id :: string
  em_disk_change_ids :: "(string, string) gomap"
  em_export_path :: string
  em_total_size :: int
  em_disks :: "disk_metadata list"

record changed_block =
  cb_offset :: int
  cb_length :: int

record disk_changes =
  dc_disk_key :: string
  dc_change_id :: string
  dc_prev_change_id :: string
  dc_blocks :: "changed_block list"
  dc_total_changed :: int

section \<open>The directory of a machine\<close>

datatype tracker_error =
    VmIdRequired
  | OutsideMetadataDir string
  | CreateVmDirFailed string
  | MarshalFailed
  | WriteMetadataFailed string
  | RemoveLinkFailed string
  | ParseMetadataFailed
  | DeleteFailed nat

definition safe_vm_dir :: "string \<Rightarrow> string \<Rightarrow> string \<Rightarrow> tracker_error + string" where
  "safe_vm_dir cwd base vm =
     (if vm = [] then Inl VmIdRequired
      else
        let cleaned = path_clean (slash # vm);
            dir = path_join base cleaned;
            abs_base = path_abs cwd base;
            abs_dir = path_abs cwd dir
        in if abs_dir \<noteq> abs_base \<and> \<not> prefix (abs_base @ [slash]) abs_dir
           then Inl (OutsideMetadataDir vm)
           else Inr dir)"

section \<open>The store\<close>

record meta_file =
  mf_data :: string
  mf_mtime :: instant

record vm_dir =
  vd_files :: "(string, meta_file) gomap"
  vd_latest :: "string option"

type_synonym meta_store = "(string, vm_dir) gomap"

definition no_files :: vm_dir where
  "no_files = \<lparr>vd_files = [], vd_latest = None\<rparr>"

record meta_env =
  me_mkdir :: "string option"
  me_write :: "string option"
  me_remove_link :: "string option"
  me_symlink :: "string option"

text \<open>What a store is opened with: the working directory, the base path and the two codecs.\<close>

record metadata_store =
  ms_cwd :: string
  ms_base :: string
  ms_marshal :: "export_metadata \<Rightarrow> string option"
  ms_unmarshal :: "string \<Rightarrow> export_metadata option"
  ms_stamp :: "instant \<Rightarrow> string"

definition export_file :: "metadata_store \<Rightarrow> export_metadata \<Rightarrow> string" where
  "export_file ms m = ms_stamp ms (em_export_time m) @ ''.json''"

definition latest_json :: string where
  "latest_json = ''latest.json''"

text \<open>The steps of \<open>SaveExport\<close> in the directory; a failed write leaves some content behind.\<close>

definition save_in_dir ::
  "metadata_store \<Rightarrow> meta_env \<Rightarrow> instant \<Rightarrow> string \<Rightarrow> export_metadata \<Rightarrow> vm_dir \<Rightarrow>
   tracker_error option \<times> vm_dir" where
  "save_in_dir ms env now partly m d =
     (case ms_marshal ms m of
        None \<Rightarrow> (Some MarshalFailed, d)
      | Some data \<Rightarrow>
          (case me_write env of
             Some e \<Rightarrow> (Some (WriteMetadataFailed e),
                d\<lparr>vd_files := gm_put (export_file ms m) \<lparr>mf_data = partly, mf_mtime = now\<rparr> (vd_files d)\<rparr>)
           | None \<Rightarrow>
               let d = d\<lparr>vd_files := gm_put (export_file ms m) \<lparr>mf_data = data, mf_mtime = now\<rparr>
                                       (vd_files d)\<rparr>
               in if vd_latest d \<noteq> None \<and> me_remove_link env \<noteq> None
                  then (Some (RemoveLinkFailed (the (me_remove_link env))), d)
                  else case me_symlink env of
                         Some e \<Rightarrow> (None, d\<lparr>vd_latest := None\<rparr>)
                       | None \<Rightarrow> (None, d\<lparr>vd_latest := Some (export_file ms m)\<rparr>)))"

definition save_export ::
  "metadata_store \<Rightarrow> meta_env \<Rightarrow> instant \<Rightarrow> string \<Rightarrow> export_metadata \<Rightarrow> meta_store \<Rightarrow>
   tracker_error option \<times> meta_store" where
  "save_export ms env now partly m fs =
     (case safe_vm_dir (ms_cwd ms) (ms_base ms) (em_vm_id m) of
        Inl e \<Rightarrow> (Some e, fs)
      | Inr dir \<Rightarrow>
          (case me_mkdir env of
             Some e \<Rightarrow> (Some (CreateVmDirFailed e), fs)
           | None \<Rightarrow>
               let d = (case gm_get fs dir of None \<Rightarrow> no_files | Some d \<Rightarrow> d);
                   (err, d) = save_in_dir ms env now partly m d
               in (err, gm_put dir d fs)))"

text \<open>\<open>os.ReadDir\<close> lists the entries by name; only metadata files are looked at.\<close>

definition metadata_files :: "vm_dir \<Rightarrow> (string \<times> meta_file) list" where
  "metadata_files d =
     filter (\<lambda>(name, f). path_ext name = ''.json'' \<and> name \<noteq> latest_json) (sort_key fst (vd_files d))"

fun newest :: "(string \<times> meta_file) list \<Rightarrow> instant \<Rightarrow> string option \<Rightarrow> string option" where
  "newest [] t best = best"
| "newest ((name, f) # fs) t best =
     (if t < mf_mtime f then newest fs (mf_mtime f) (Some name) else newest fs t best)"

definition read_metadata :: "metadata_store \<Rightarrow> vm_dir \<Rightarrow> string \<Rightarrow> export_metadata option" where
  "read_metadata ms d name =
     (case gm_get (vd_files d) name of
        None \<Rightarrow> None
      | Some f \<Rightarrow> ms_unmarshal ms (mf_data f))"

definition latest_in_dir :: "metadata_store \<Rightarrow> vm_dir \<Rightarrow> tracker_error + export_metadata option" where
  "latest_in_dir ms d =
     (case Option.bind (vd_latest d) (read_metadata ms d) of
        Some m \<Rightarrow> Inr (Some m)
      | None \<Rightarrow>
          (case newest (metadata_files d) 0 None of
             None \<Rightarrow> Inr None
           | Some name \<Rightarrow>
               (case read_metadata ms d name of
                  None \<Rightarrow> Inl ParseMetadataFailed
                | Some m \<Rightarrow> Inr (Some m))))"

definition get_latest_export ::
  "metadata_store \<Rightarrow> string \<Rightarrow> meta_store \<Rightarrow> tracker_error + export_metadata option" where
  "get_latest_export ms vm fs =
     (case safe_vm_dir (ms_cwd ms) (ms_base ms) vm of
        Inl e \<Rightarrow> Inl e
      | Inr dir \<Rightarrow>
          (case gm_get fs dir of None \<Rightarrow> Inr None | Some d \<Rightarrow> latest_in_dir ms d))"

definition exports_in_dir :: "metadata_store \<Rightarrow> vm_dir \<Rightarrow> export_metadata list" where
  "exports_in_dir ms d = List.map_filter (\<lambda>(name, f). ms_unmarshal ms (mf_data f)) (metadata_files d)"

definition list_exports ::
  "metadata_store \<Rightarrow> string \<Rightarrow> meta_store \<Rightarrow> tracker_error + export_metadata list" where
  "list_exports ms vm fs =
     (case safe_vm_dir (ms_cwd ms) (ms_base ms) vm of
        Inl e \<Rightarrow> Inl e
      | Inr dir \<Rightarrow> Inr (case gm_get fs dir of None \<Rightarrow> [] | Some d \<Rightarrow> exports_in_dir ms d))"

text \<open>The deletion loop; \<open>refuse\<close> are the files whose removal fails, \<open>n\<close> counts the failures.\<close>

fun delete_old ::
  "metadata_store \<Rightarrow> (string \<Rightarrow> bool) \<Rightarrow> instant \<Rightarrow> export_metadata list \<Rightarrow> nat \<Rightarrow> vm_dir \<Rightarrow> nat \<times> vm_dir" where
  "delete_old ms refuse cutoff [] n d = (n, d)"
| "delete_old ms refuse cutoff (m # es) n d =
     (if em_export_time m < cutoff
      then let name = export_file ms m
           in if gm_get (vd_files d) name = None then delete_old ms refuse cutoff es n d
              else if refuse name then delete_old ms refuse cutoff es (Suc n) d
              else delete_old ms refuse cutoff es n (d\<lparr>vd_files := gm_del name (vd_files d)\<rparr>)
      else delete_old ms refuse cutoff es n d)"

definition delete_old_exports ::
  "metadata_store \<Rightarrow> (string \<Rightarrow> bool) \<Rightarrow> instant \<Rightarrow> string \<Rightarrow> duration \<Rightarrow> meta_store \<Rightarrow>
   tracker_error option \<times> meta_store" where
  "delete_old_exports ms refuse now vm max_age fs =
     (case safe_vm_dir (ms_cwd ms) (ms_base ms) vm of
        Inl e \<Rightarrow> (Some e, fs)
      | Inr dir \<Rightarrow>
          (case gm_get fs dir of
             None \<Rightarrow> (None, fs)
           | Some d \<Rightarrow>
               let (n, d) = delete_old ms refuse (now - max_age) (exports_in_dir ms d) 0 d
               in (if n > 0 then Some (DeleteFailed n) else None, gm_put dir d fs)))"

section \<open>Decisions\<close>

text \<open>The comparison of disks by position, and the answer with its reason.\<close>

datatype full_reason =
    NoPreviousExport
  | DiskCountChanged
  | DiskChanged string
  | TrackingDisabled string
  | PreviousWithoutTracking
  | PreviousTooOld

fun compare_disks :: "disk_metadata list \<Rightarrow> disk_metadata list \<Rightarrow> full_reason option" where
  "compare_disks (c # cur) (l # was) =
     (if dm_key c \<noteq> dm_key l then Some (DiskChanged (dm_key c))
      else if dm_change_id c = [] then Some (TrackingDisabled (dm_key c))
      else if dm_change_id l = [] then Some PreviousWithoutTracking
      else compare_disks cur was)"
| "compare_disks _ _ = None"

definition max_tracking_age :: duration where
  "max_tracking_age = 7 * 24 * hour"

text \<open>\<open>Inr\<close> stands for \<open>true\<close>; \<open>was\<close> is what \<open>GetLastExport\<close> answered.\<close>

definition is_incremental_possible ::
  "instant \<Rightarrow> tracker_error + export_metadata option \<Rightarrow> disk_metadata list \<Rightarrow> full_reason + unit" where
  "is_incremental_possible now was cur =
     (case was of
        Inl e \<Rightarrow> Inl NoPreviousExport
      | Inr None \<Rightarrow> Inl NoPreviousExport
      | Inr (Some l) \<Rightarrow>
          if length (em_disks l) \<noteq> length cur then Inl DiskCountChanged
          else case compare_disks cur (em_disks l) of
                 Some r \<Rightarrow> Inl r
               | None \<Rightarrow>
                   if max_tracking_age < now - em_export_time l then Inl PreviousTooOld else Inr ())"

definition calculate_changes :: "string \<Rightarrow> string \<Rightarrow> string \<Rightarrow> int \<Rightarrow> disk_changes" where
  "calculate_changes key prev cur capacity =
     \<lparr>dc_disk_key = key, dc_change_id = cur, dc_prev_change_id = prev, dc_blocks = [],
      dc_total_changed = 0\<rparr>"

definition last_change_id :: "disk_metadata list \<Rightarrow> string \<Rightarrow> string" where
  "last_change_id was key =
     (case List.find (\<lambda>l. dm_key l = key) was of None \<Rightarrow> [] | Some l \<Rightarrow> dm_change_id l)"

definition changed_size :: "disk_metadata list \<Rightarrow> disk_metadata \<Rightarrow> int" where
  "changed_size was c =
     (let prev = last_change_id was (dm_key c)
      in if prev = [] then dm_capacity c
         else dc_total_changed (calculate_changes (dm_key c) prev (dm_change_id c) (dm_capacity c)))"

definition estimate_changed_size ::
  "tracker_error + export_metadata option \<Rightarrow> disk_metadata list \<Rightarrow> int" where
  "estimate_changed_size was cur =
     (case was of
        Inr (Some l) \<Rightarrow> fold (\<lambda>c s. wrap64 (s + changed_size (em_disks l) c)) cur 0
      | _ \<Rightarrow> fold (\<lambda>c s. wrap64 (s + dm_capacity c)) cur 0)"

section \<open>The directory stays inside the base\<close>

lemma render_rooted_inj:
  assumes "\<forall>c \<in> set A. normal c" and "\<forall>c \<in> set B. normal c"
  shows "render_path True A = render_path True B \<longleftrightarrow> A = B"
  using clean_render_rooted [OF assms(1)] clean_render_rooted [OF assms(2)] by metis

lemma prefix_render:
  assumes "\<forall>c \<in> set (A @ v). normal c" and "v \<noteq> []"
  shows "prefix (render_path True A @ [slash]) (render_path True (A @ v)) \<longleftrightarrow> A \<noteq> []"
proof (cases "A = []")
  case True
  obtain c v' where v: "v = c # v'" using assms(2) by (cases v) auto
  then obtain x xs where c: "c = x # xs" "x \<noteq> slash"
    using assms(1) by (cases c) (auto simp: normal_def)
  then have "\<exists>ys. join_slash v = x # ys" by (cases v') (simp_all add: v)
  with True c(2) show ?thesis by (auto simp: render_path_def)
next
  case False
  then show ?thesis
    using assms(2) by (auto simp: render_path_def join_append prefix_def)
qed

lemma split_below:
  assumes "\<forall>c \<in> set v. normal c"
  shows "split_slash (base @ slash # render_path True v) =
     split_slash base @ [] # (if v = [] then [[]] else v)"
proof -
  have "\<forall>c \<in> set v. slash \<notin> set c" using assms by (simp add: normal_def)
  from split_render_rooted [OF this] show ?thesis by (simp add: split_slash_append)
qed

lemma clean_stack_below:
  "\<forall>c \<in> set v. normal c \<Longrightarrow>
   clean_stack rooted (split_slash (base @ slash # render_path True v)) st =
     rev v @ clean_stack rooted (split_slash base) st"
  by (simp only: split_below clean_stack_append) (simp add: clean_stack_normals)

lemma join_below:
  assumes "base \<noteq> []" and "\<forall>c \<in> set v. normal c"
  shows "path_join base (render_path True v) = render_path (is_abs base) (clean_parts base @ v)"
proof -
  have "is_abs (base @ slash # render_path True v) = is_abs base"
    using assms(1) by (cases base) (simp_all add: is_abs_def)
  with assms show ?thesis
    by (simp add: path_join_def path_clean_def clean_parts_def clean_stack_below)
qed

lemma abs_join: "is_abs cwd \<Longrightarrow> is_abs (cwd @ slash # p) \<and> cwd \<noteq> []"
  by (cases cwd) (simp_all add: is_abs_def)

lemma abs_below:
  assumes base: "base \<noteq> []" and cwd: "is_abs cwd" and v: "\<forall>c \<in> set v. normal c"
  shows "\<exists>A. (\<forall>c \<in> set A. normal c) \<and> path_abs cwd base = render_path True A \<and>
     path_abs cwd (render_path (is_abs base) (clean_parts base @ v)) = render_path True (A @ v)"
proof (cases "is_abs base")
  case True
  have n: "\<forall>c \<in> set (clean_parts base @ v). normal c"
    using clean_parts_rooted [OF True] v by auto
  have "path_abs cwd base = render_path True (clean_parts base)"
    by (simp add: path_abs_def True path_clean_def)
  moreover have "path_abs cwd (render_path True (clean_parts base @ v)) =
      render_path True (clean_parts base @ v)"
    using path_clean_rooted [OF n] by (simp add: path_abs_def is_abs_render)
  ultimately show ?thesis using n True by auto
next
  case False
  let ?S = "clean_stack True (split_slash cwd) []"
  let ?A = "rev (clean_stack True (split_slash base) ?S)"
  let ?bcs = "clean_parts base"
  have S: "\<forall>t \<in> set ?S. normal t" using clean_stack_rooted [of "[]"] split_slash_no_slash by auto
  have A: "\<forall>c \<in> set ?A. normal c"
    using clean_stack_rooted [OF S, of "split_slash base"] split_slash_no_slash by auto
  have abs_base: "path_abs cwd base = render_path True ?A"
    using abs_join [OF cwd, of base] False
    by (simp add: path_abs_def path_join_def path_clean_def clean_parts_def split_slash_append
        clean_stack_append)
  have behind: "clean_stack True ?bcs ?S = clean_stack True (split_slash base) ?S"
    using clean_stack_behind [of "[]" "split_slash base" ?S] split_slash_no_slash False
    by (auto simp: clean_parts_def unrooted_stack_def)
  have noslash: "\<forall>c \<in> set (?bcs @ v). slash \<notin> set c"
    using clean_parts_no_slash v by (auto simp: normal_def)
  let ?dir = "render_path False (?bcs @ v)"
  have split: "clean_stack True (split_slash ?dir) ?S = rev v @ clean_stack True (split_slash base) ?S"
  proof (cases "?bcs @ v = []")
    case True
    then have "clean_stack True (split_slash base) ?S = ?S" using behind by simp
    with True show ?thesis by (simp add: render_path_def clean_stack_def clean_step_def)
  next
    case ne: False
    then have "split_slash ?dir = ?bcs @ v" using split_join [OF ne noslash] by (simp add: render_path_def)
    with behind v show ?thesis by (simp add: clean_stack_append clean_stack_normals)
  qed
  have "\<not> is_abs ?dir"
  proof -
    have hd_split: "is_abs p \<Longrightarrow> hd (split_slash p) = []" for p
      by (cases p) (auto simp: is_abs_def)
    have nonempty: "\<forall>c \<in> set ?bcs. c \<noteq> []"
      using clean_stack_nonempty [of "[]"] by (simp add: clean_parts_def)
    show ?thesis
    proof (cases "?bcs @ v = []")
      case True
      then show ?thesis by (simp add: render_path_def is_abs_def)
    next
      case ne: False
      then have "split_slash ?dir = ?bcs @ v" using split_join [OF ne noslash] by (simp add: render_path_def)
      moreover have "hd (?bcs @ v) \<noteq> []"
        using nonempty v ne by (cases "?bcs") (auto simp: normal_def)
      ultimately show ?thesis using hd_split [of ?dir] by auto
    qed
  qed
  then have "path_abs cwd ?dir = render_path True (?A @ v)"
    using abs_join [OF cwd, of ?dir] split
    by (simp add: path_abs_def path_join_def path_clean_def clean_parts_def split_slash_append
        clean_stack_append)
  with A abs_base False show ?thesis by (intro exI [of _ ?A]) simp
qed

text \<open>
  C16: The metadata of a machine never leaves the base directory, whatever the identifier: its
  absolute path is that of the base followed by the names the identifier cleans to, none of them
  dots.  Apart from the empty identifier the guard refuses only when the base is the root
  directory, and then it refuses every identifier that names anything.
\<close>

theorem vm_dir_is_contained:
  assumes "base \<noteq> []" and "is_abs cwd"
  shows "\<exists>A v. path_abs cwd base = render_path True A \<and> v = clean_parts (slash # vm) \<and>
    (\<forall>c \<in> set (A @ v). normal c) \<and>
    (case safe_vm_dir cwd base vm of
       Inr dir \<Rightarrow> vm \<noteq> [] \<and> path_abs cwd dir = render_path True (A @ v) \<and> (A \<noteq> [] \<or> v = [])
     | Inl e \<Rightarrow> vm = [] \<and> e = VmIdRequired \<or> A = [] \<and> v \<noteq> [] \<and> e = OutsideMetadataDir vm)"
proof -
  let ?v = "clean_parts (slash # vm)"
  have abs: "is_abs (slash # vm)" by (simp add: is_abs_def)
  note v = clean_parts_rooted [OF abs]
  obtain A where A: "\<forall>c \<in> set A. normal c" "path_abs cwd base = render_path True A"
    "path_abs cwd (render_path (is_abs base) (clean_parts base @ ?v)) = render_path True (A @ ?v)"
    using abs_below [OF assms v] by blast
  have all: "\<forall>c \<in> set (A @ ?v). normal c" using A(1) v by auto
  have dir: "path_join base (path_clean (slash # vm)) = render_path (is_abs base) (clean_parts base @ ?v)"
    using join_below [OF assms(1) v] abs by (simp add: path_clean_def)
  have guard: "path_abs cwd (path_join base (path_clean (slash # vm))) \<noteq> path_abs cwd base \<and>
      \<not> prefix (path_abs cwd base @ [slash]) (path_abs cwd (path_join base (path_clean (slash # vm))))
      \<longleftrightarrow> A = [] \<and> ?v \<noteq> []"
    using render_rooted_inj [OF all A(1)] prefix_render [OF all] by (auto simp: dir A(2,3))
  show ?thesis
    using A(2,3) all guard dir
    by (intro exI [of _ A] exI [of _ ?v]) (auto simp: safe_vm_dir_def Let_def)
qed

theorem vm_dir_is_contained_witness:
  "safe_vm_dir ''/srv'' ''meta'' ''../../etc'' = Inr ''meta/etc'' \<and>
   (\<exists>A. path_abs ''/srv'' ''meta'' = render_path True A \<and>
        path_abs ''/srv'' ''meta/etc'' = render_path True (A @ [''etc'']))"
proof -
  have h: "(''meta'' :: string) \<noteq> []" "is_abs ''/srv''" by (simp_all add: is_abs_def)
  have r: "safe_vm_dir ''/srv'' ''meta'' ''../../etc'' = Inr ''meta/etc''" by code_simp
  have v: "clean_parts (slash # ''../../etc'') = [''etc'']" by code_simp
  from vm_dir_is_contained [OF h, of "''../../etc''"] show ?thesis
    unfolding r v by auto
qed

section \<open>Saving, finding and ageing out\<close>

text \<open>What is relied on: documents are read back, and a truncated one is not a document.\<close>

definition codec_ok :: "metadata_store \<Rightarrow> bool" where
  "codec_ok ms \<longleftrightarrow> (\<forall>m data. ms_marshal ms m = Some data \<longrightarrow> ms_unmarshal ms data = Some m) \<and>
     (\<forall>t. ms_stamp ms t \<noteq> ''latest'')"

definition well_named :: "metadata_store \<Rightarrow> vm_dir \<Rightarrow> bool" where
  "well_named ms d \<longleftrightarrow> gm_wf (vd_files d) \<and>
     (\<forall>name f m. (name, f) \<in> set (vd_files d) \<longrightarrow> ms_unmarshal ms (mf_data f) = Some m \<longrightarrow>
        name = export_file ms m)"

lemma path_ext_json [simp]: "path_ext (s @ ''.json'') = ''.json''"
  by (simp add: path_ext_def)

lemma export_file_listed:
  "codec_ok ms \<Longrightarrow> path_ext (export_file ms m) = ''.json'' \<and> export_file ms m \<noteq> latest_json"
proof -
  assume "codec_ok ms"
  then have "ms_stamp ms (em_export_time m) \<noteq> ''latest''" by (simp add: codec_ok_def)
  moreover have "latest_json = ''latest'' @ ''.json''" by (simp add: latest_json_def)
  ultimately show ?thesis unfolding export_file_def by (metis append_same_eq path_ext_json)
qed

lemma metadata_files_set:
  "(name, f) \<in> set (metadata_files d) \<longleftrightarrow>
     (name, f) \<in> set (vd_files d) \<and> path_ext name = ''.json'' \<and> name \<noteq> latest_json"
  by (auto simp: metadata_files_def)

lemma save_in_dir_named:
  assumes "well_named ms d" and "codec_ok ms" and "ms_unmarshal ms partly = None"
  shows "well_named ms (snd (save_in_dir ms env now partly m d))"
proof -
  have put: "well_named ms (d\<lparr>vd_files := gm_put (export_file ms m) \<lparr>mf_data = x, mf_mtime = now\<rparr> (vd_files d)\<rparr>)"
    if x: "\<forall>m'. ms_unmarshal ms x = Some m' \<longrightarrow> m' = m" for x
  proof -
    have wf: "gm_wf (vd_files d)" using assms(1) by (simp add: well_named_def)
    have "name = export_file ms m'"
      if "(name, f) \<in> set (gm_put (export_file ms m) \<lparr>mf_data = x, mf_mtime = now\<rparr> (vd_files d))"
        "ms_unmarshal ms (mf_data f) = Some m'" for name f m'
    proof (cases "name = export_file ms m")
      case True
      with that wf x show ?thesis by (auto simp: gm_in_get gm_get_put)
    next
      case False
      with that wf have "(name, f) \<in> set (vd_files d)" by (simp add: gm_in_get gm_get_put)
      with assms(1) that show ?thesis unfolding well_named_def by blast
    qed
    with wf show ?thesis by (simp add: well_named_def)
  qed
  have latest: "well_named ms (d'\<lparr>vd_latest := l\<rparr>)" if "well_named ms d'" for d' :: vm_dir and l
    using that by (simp add: well_named_def)
  have data: "\<forall>m'. ms_unmarshal ms x = Some m' \<longrightarrow> m' = m" if "ms_marshal ms m = Some x" for x
    using assms(2) that by (simp add: codec_ok_def)
  show ?thesis
    using put [of partly] put [OF data] latest assms(1,3)
    by (simp add: save_in_dir_def Let_def split: option.split)
qed

lemma save_in_dir_result:
  assumes "save_in_dir ms env now partly m d = (None, d')" and "codec_ok ms"
  shows "\<exists>data. ms_marshal ms m = Some data \<and> ms_unmarshal ms data = Some m \<and>
    vd_files d' = gm_put (export_file ms m) \<lparr>mf_data = data, mf_mtime = now\<rparr> (vd_files d) \<and>
    vd_latest d' = (if me_symlink env = None then Some (export_file ms m) else None)"
  using assms
  by (auto simp: save_in_dir_def Let_def codec_ok_def split: option.splits if_splits)

lemma newest_stays: "\<forall>(n, g) \<in> set fs. \<not> t < mf_mtime g \<Longrightarrow> newest fs t best = best"
  by (induction fs t best rule: newest.induct) auto

lemma newest_found:
  assumes "(name, f) \<in> set fs" and "t < mf_mtime f"
    and "\<forall>(n, g) \<in> set fs. n \<noteq> name \<longrightarrow> mf_mtime g < mf_mtime f"
    and "distinct (map fst fs)"
  shows "newest fs t best = Some name"
  using assms
proof (induction fs t best rule: newest.induct)
  case (2 n g fs t best)
  show ?case
  proof (cases "n = name")
    case True
    have "g = f" using 2(3,6) True by (auto simp: rev_image_eqI)
    have later: "\<not> mf_mtime f < mf_mtime h" if "(k, h) \<in> set fs" for k h
      using 2(5,6) that True by (fastforce simp: rev_image_eqI)
    have "newest fs (mf_mtime f) (Some name) = Some name"
      using later by (intro newest_stays) auto
    with True \<open>g = f\<close> 2(4) show ?thesis by simp
  next
    case False
    with 2 show ?thesis by auto
  qed
qed simp

lemma metadata_files_distinct: "gm_wf (vd_files d) \<Longrightarrow> distinct (map fst (metadata_files d))"
  unfolding metadata_files_def gm_wf_def
  by (intro distinct_map_filter) (metis mset_eq_imp_distinct_iff mset_map mset_sort)

text \<open>
  An export that was saved is the last export: once \<open>SaveExport\<close> has succeeded,
  \<open>GetLatestExport\<close> returns that very metadata, through the link or, where the file system
  refuses links, because its file is the newest; and it is listed.
\<close>

theorem saved_export_is_latest:
  assumes "codec_ok ms" and "save_export ms env now partly m fs = (None, fs')"
    and "\<forall>dir d. gm_get fs dir = Some d \<longrightarrow>
           well_named ms d \<and> (\<forall>(n, f) \<in> set (vd_files d). mf_mtime f < now)"
    and "0 < now"
  shows "get_latest_export ms (em_vm_id m) fs' = Inr (Some m) \<and>
    (\<exists>es. list_exports ms (em_vm_id m) fs' = Inr es \<and> m \<in> set es)"
proof -
  obtain dir where dir: "safe_vm_dir (ms_cwd ms) (ms_base ms) (em_vm_id m) = Inr dir"
    using assms(2) by (auto simp: save_export_def split: sum.splits)
  define d where "d = (case gm_get fs dir of None \<Rightarrow> no_files | Some d \<Rightarrow> d)"
  obtain d' where d': "save_in_dir ms env now partly m d = (None, d')" "fs' = gm_put dir d' fs"
    using assms(2) dir by (auto simp: save_export_def d_def Let_def split: option.splits prod.splits)
  have old: "gm_wf (vd_files d)" "\<forall>(n, f) \<in> set (vd_files d). mf_mtime f < now"
    using assms(3) by (auto simp: d_def no_files_def well_named_def split: option.splits)
  obtain data where data: "ms_unmarshal ms data = Some m"
    "vd_files d' = gm_put (export_file ms m) \<lparr>mf_data = data, mf_mtime = now\<rparr> (vd_files d)"
    "vd_latest d' = (if me_symlink env = None then Some (export_file ms m) else None)"
    using save_in_dir_result [OF d'(1) assms(1)] by blast
  let ?f = "\<lparr>mf_data = data, mf_mtime = now\<rparr>"
  have wf: "gm_wf (vd_files d')" using old by (simp add: data(2))
  have mem: "(export_file ms m, ?f) \<in> set (metadata_files d')"
    using wf export_file_listed [OF assms(1), of m] by (simp add: metadata_files_set gm_in_get data(2))
  have older: "\<forall>(n, g) \<in> set (metadata_files d'). n \<noteq> export_file ms m \<longrightarrow> mf_mtime g < mf_mtime ?f"
    using old wf by (auto simp: metadata_files_set gm_in_get data(2) gm_get_put)
  have read: "read_metadata ms d' (export_file ms m) = Some m"
    by (simp add: read_metadata_def data(1,2))
  have "newest (metadata_files d') 0 None = Some (export_file ms m)"
    using newest_found [OF mem _ older metadata_files_distinct [OF wf]] assms(4) by simp
  then have "latest_in_dir ms d' = Inr (Some m)"
    using read by (simp add: latest_in_dir_def data(3))
  moreover have "m \<in> set (exports_in_dir ms d')"
    using mem data(1) by (force simp: exports_in_dir_def List.map_filter_def)
  ultimately show ?thesis by (simp add: get_latest_export_def list_exports_def dir d'(2))
qed

lemma delete_old_files:
  "snd (delete_old ms (\<lambda>n. False) cutoff es n d) =
     d\<lparr>vd_files := filter (\<lambda>(k, f). k \<notin> export_file ms ` {m \<in> set es. em_export_time m < cutoff})
                    (vd_files d)\<rparr> \<and>
   fst (delete_old ms (\<lambda>n. False) cutoff es n d) = n"
proof (induction es arbitrary: d)
  case Nil
  show ?case by (cases d) simp
next
  case (Cons m es)
  let ?old = "\<lambda>es. export_file ms ` {m \<in> set es. em_export_time m < cutoff}"
  show ?case
  proof (cases "em_export_time m < cutoff")
    case False
    then have "?old (m # es) = ?old es" by auto
    with False Cons show ?thesis by (simp only: delete_old.simps if_False)
  next
    case True
    then have names: "?old (m # es) = insert (export_file ms m) (?old es)" by auto
    have del: "filter (\<lambda>(k, f). k \<notin> ?old es) (gm_del (export_file ms m) (vd_files d)) =
        filter (\<lambda>(k, f). k \<notin> insert (export_file ms m) (?old es)) (vd_files d)"
      by (induction "vd_files d" rule: list.induct) (auto simp: AList.delete_eq filter_filter intro: filter_cong)
    show ?thesis
    proof (cases "gm_get (vd_files d) (export_file ms m)")
      case None
      then have "gm_del (export_file ms m) (vd_files d) = vd_files d"
        by (intro gm_del_notin) (simp add: map_of_eq_None_iff)
      with Cons [of d] True None del names show ?thesis by (simp add: Let_def del: gm_del_notin)
    next
      case (Some f)
      with Cons [of "d\<lparr>vd_files := gm_del (export_file ms m) (vd_files d)\<rparr>"] True del names
      show ?thesis by (simp add: Let_def)
    qed
  qed
qed

lemma exports_after_delete:
  assumes "well_named ms d"
  shows "exports_in_dir ms (snd (delete_old ms (\<lambda>n. False) cutoff (exports_in_dir ms d) 0 d)) =
     filter (\<lambda>m. \<not> em_export_time m < cutoff) (exports_in_dir ms d)"
proof -
  let ?names = "export_file ms ` {m \<in> set (exports_in_dir ms d). em_export_time m < cutoff}"
  let ?g = "\<lambda>(name, f). ms_unmarshal ms (mf_data f)"
  let ?P = "\<lambda>(k :: string, f :: meta_file). k \<notin> ?names"
  have files: "metadata_files (snd (delete_old ms (\<lambda>n. False) cutoff (exports_in_dir ms d) 0 d)) =
      filter ?P (metadata_files d)"
    using delete_old_files [of ms cutoff "exports_in_dir ms d" 0 d]
    by (simp add: metadata_files_def filter_sort [symmetric] conj_commute split_beta)
  have iff: "k \<notin> ?names \<longleftrightarrow> \<not> em_export_time m < cutoff"
    if kf: "(k, f) \<in> set (metadata_files d)" and m: "ms_unmarshal ms (mf_data f) = Some m" for k f m
  proof -
    have mem: "m \<in> set (exports_in_dir ms d)"
      using kf m by (force simp: exports_in_dir_def List.map_filter_def)
    have k: "k = export_file ms m"
      using assms kf m unfolding well_named_def metadata_files_set by blast
    have uniq: "m' = m" if m': "m' \<in> set (exports_in_dir ms d)" "export_file ms m' = k" for m'
    proof -
      obtain k' f' where f': "(k', f') \<in> set (metadata_files d)" "ms_unmarshal ms (mf_data f') = Some m'"
        using m'(1) by (auto simp: exports_in_dir_def List.map_filter_def)
      have "k' = k" using assms f' m'(2) unfolding well_named_def metadata_files_set by blast
      moreover have wf: "gm_wf (vd_files d)" using assms by (simp add: well_named_def)
      ultimately have "f' = f" using kf f'(1) by (auto simp: metadata_files_set gm_in_get)
      with f'(2) m show ?thesis by simp
    qed
    show ?thesis
    proof
      assume "k \<notin> ?names"
      then show "\<not> em_export_time m < cutoff" using mem k by blast
    next
      assume new: "\<not> em_export_time m < cutoff"
      show "k \<notin> ?names"
      proof
        assume "k \<in> ?names"
        then obtain m' where "m' \<in> set (exports_in_dir ms d)" "em_export_time m' < cutoff"
          "export_file ms m' = k" by blast
        with uniq new show False by blast
      qed
    qed
  qed
  have "List.map_filter ?g (filter ?P fs) = filter (\<lambda>m. \<not> em_export_time m < cutoff) (List.map_filter ?g fs)"
    if "set fs \<subseteq> set (metadata_files d)" for fs
    using that
  proof (induction fs)
    case (Cons x fs)
    obtain k f where x: "x = (k, f)" by (cases x)
    with Cons iff [of k f] show ?case
      by (cases "ms_unmarshal ms (mf_data f)") (auto simp: List.map_filter_simps)
  qed (simp add: List.map_filter_simps)
  then show ?thesis unfolding exports_in_dir_def [of ms "snd _"] files by (simp add: exports_in_dir_def)
qed

text \<open>The stores that saving and deleting lead to.\<close>

inductive meta_reachable :: "metadata_store \<Rightarrow> meta_store \<Rightarrow> bool" for ms where
  empty: "meta_reachable ms []"
| save: "meta_reachable ms fs \<Longrightarrow> ms_unmarshal ms partly = None \<Longrightarrow>
    meta_reachable ms (snd (save_export ms env now partly m fs))"
| delete: "meta_reachable ms fs \<Longrightarrow>
    meta_reachable ms (snd (delete_old_exports ms refuse now vm age fs))"

definition all_well_named :: "metadata_store \<Rightarrow> meta_store \<Rightarrow> bool" where
  "all_well_named ms fs \<longleftrightarrow> (\<forall>dir d. gm_get fs dir = Some d \<longrightarrow> well_named ms d)"

lemma all_well_named_put:
  "all_well_named ms fs \<Longrightarrow> well_named ms d \<Longrightarrow> all_well_named ms (gm_put dir d fs)"
  by (simp add: all_well_named_def gm_get_put)

lemma well_named_del: "well_named ms d \<Longrightarrow> well_named ms (d\<lparr>vd_files := gm_del n (vd_files d)\<rparr>)"
  by (auto simp: well_named_def AList.delete_eq)

lemma delete_old_named: "well_named ms d \<Longrightarrow> well_named ms (snd (delete_old ms refuse cutoff es n d))"
  by (induction ms refuse cutoff es n d rule: delete_old.induct) (simp_all add: Let_def well_named_del)

lemma meta_reachable_named:
  assumes "meta_reachable ms fs" and "codec_ok ms"
  shows "all_well_named ms fs"
  using assms(1)
proof (induction rule: meta_reachable.induct)
  case empty
  show ?case by (simp add: all_well_named_def)
next
  case (save fs partly env now m)
  have "well_named ms (case gm_get fs dir of None \<Rightarrow> no_files | Some d \<Rightarrow> d)" for dir
    using save.IH by (auto simp: all_well_named_def well_named_def no_files_def split: option.split)
  from save_in_dir_named [OF this assms(2) save.hyps(2)] all_well_named_put [OF save.IH]
  have put: "all_well_named ms (gm_put dir (snd (save_in_dir ms env now partly m
      (case gm_get fs dir of None \<Rightarrow> no_files | Some d \<Rightarrow> d))) fs)" for dir by blast
  show ?case
  proof (cases "safe_vm_dir (ms_cwd ms) (ms_base ms) (em_vm_id m)")
    case (Inl e)
    with save.IH show ?thesis by (simp add: save_export_def)
  next
    case (Inr dir)
    with put [of dir] save.IH show ?thesis
      by (cases "me_mkdir env") (simp_all add: save_export_def Let_def split_beta)
  qed
next
  case (delete fs refuse now vm age)
  show ?case
  proof (cases "safe_vm_dir (ms_cwd ms) (ms_base ms) vm")
    case (Inl e)
    with delete.IH show ?thesis by (simp add: delete_old_exports_def)
  next
    case (Inr dir)
    show ?thesis
    proof (cases "gm_get fs dir")
      case None
      with Inr delete.IH show ?thesis by (simp add: delete_old_exports_def)
    next
      case (Some d)
      then have "well_named ms d" using delete.IH by (simp add: all_well_named_def)
      from all_well_named_put [OF delete.IH delete_old_named [OF this]] Inr Some
      show ?thesis by (simp add: delete_old_exports_def Let_def split_beta)
    qed
  qed
qed

text \<open>
  Deleting old exports of a machine removes exactly those: in every store that saving and
  deleting lead to, when no removal fails, the exports listed afterwards are those listed before
  whose time is not before the cutoff, in the same order.
\<close>

theorem old_exports_are_deleted:
  assumes "codec_ok ms" and "meta_reachable ms fs"
    and "list_exports ms vm fs = Inr es"
    and "delete_old_exports ms (\<lambda>n. False) now vm age fs = (err, fs')"
  shows "err = None \<and>
    list_exports ms vm fs' = Inr (filter (\<lambda>m. now - age \<le> em_export_time m) es)"
proof -
  obtain dir where dir: "safe_vm_dir (ms_cwd ms) (ms_base ms) vm = Inr dir"
    using assms(3) by (auto simp: list_exports_def split: sum.splits)
  show ?thesis
  proof (cases "gm_get fs dir")
    case None
    with assms(3,4) dir show ?thesis by (auto simp: list_exports_def delete_old_exports_def)
  next
    case (Some d)
    then have d: "well_named ms d"
      using meta_reachable_named [OF assms(2,1)] by (simp add: all_well_named_def)
    have es: "es = exports_in_dir ms d" using assms(3) dir Some by (simp add: list_exports_def)
    obtain n d' where del: "delete_old ms (\<lambda>n. False) (now - age) (exports_in_dir ms d) 0 d = (n, d')"
      by (cases "delete_old ms (\<lambda>n. False) (now - age) (exports_in_dir ms d) 0 d")
    have n: "n = 0"
      using delete_old_files [of ms "now - age" "exports_in_dir ms d" 0 d] del by simp
    have "exports_in_dir ms d' = filter (\<lambda>m. now - age \<le> em_export_time m) es"
      using exports_after_delete [OF d, of "now - age"] del es by (simp add: not_less)
    with assms(4) dir Some del n show ?thesis
      by (auto simp: delete_old_exports_def list_exports_def)
  qed
qed

text \<open>A store with one-letter documents, and two exports of one machine in it.\<close>

definition meta_of :: "instant \<Rightarrow> export_metadata" where
  "meta_of t = \<lparr>em_vm_id = ''vm'', em_vm_name = ''vm'', em_export_time = t, em_snapshot_id = [],
     em_change_id = [], em_disk_change_ids = [], em_export_path = [], em_total_size = 0,
     em_disks = []\<rparr>"

definition tiny_store :: metadata_store where
  "tiny_store = \<lparr>ms_cwd = ''/'', ms_base = ''/meta'',
     ms_marshal = (\<lambda>m. if m = meta_of 10 then Some ''A'' else if m = meta_of 90 then Some ''B'' else None),
     ms_unmarshal = (\<lambda>s. if s = ''A'' then Some (meta_of 10)
                        else if s = ''B'' then Some (meta_of 90) else None),
     ms_stamp = (\<lambda>t. dec_int t)\<rparr>"

definition no_errors :: meta_env where
  "no_errors = \<lparr>me_mkdir = None, me_write = None, me_remove_link = None, me_symlink = None\<rparr>"

lemma tiny_codec: "codec_ok tiny_store"
proof -
  have "dec_int t \<noteq> ''latest''" for t
  proof
    assume "dec_int t = ''latest''"
    then have "CHR ''l'' \<in> set (dec_int t)" by simp
    moreover have "c \<in> set (dec_int t) \<Longrightarrow> c = CHR ''-'' \<or> (of_char c :: nat) \<le> 57" for c
      using dec_nat_digits by (auto simp: dec_int_def split: if_splits)
    ultimately show False by fastforce
  qed
  moreover have "meta_of 10 \<noteq> meta_of 90" by (simp add: meta_of_def)
  ultimately show ?thesis by (auto simp: codec_ok_def tiny_store_def split: if_splits)
qed

lemma tiny_dir: "safe_vm_dir (ms_cwd tiny_store) (ms_base tiny_store) ''vm'' = Inr ''/meta/vm''"
proof -
  have "safe_vm_dir ''/'' ''/meta'' ''vm'' = Inr ''/meta/vm''" by code_simp
  then show ?thesis by (simp add: tiny_store_def)
qed

lemma tiny_saves: "\<exists>fs. save_export tiny_store no_errors 10 [] (meta_of 10) [] = (None, fs)"
proof -
  have "em_vm_id (meta_of 10) = ''vm''" by (simp add: meta_of_def)
  then show ?thesis
    using tiny_dir
    by (simp add: save_export_def save_in_dir_def no_errors_def Let_def)
      (simp add: tiny_store_def)
qed

theorem saved_export_is_latest_witness:
  "\<exists>fs. save_export tiny_store no_errors 10 [] (meta_of 10) [] = (None, fs) \<and>
        get_latest_export tiny_store ''vm'' fs = Inr (Some (meta_of 10))"
proof -
  obtain fs where fs: "save_export tiny_store no_errors 10 [] (meta_of 10) [] = (None, fs)"
    using tiny_saves by blast
  have "em_vm_id (meta_of 10) = ''vm''" by (simp add: meta_of_def)
  with saved_export_is_latest [OF tiny_codec fs] fs show ?thesis by simp
qed

theorem old_exports_are_deleted_witness:
  "\<exists>fs fs'. meta_reachable tiny_store fs \<and>
     delete_old_exports tiny_store (\<lambda>n. False) 100 ''vm'' 50 fs = (None, fs') \<and>
     list_exports tiny_store ''vm'' fs' = Inr []"
proof -
  obtain fs where fs: "save_export tiny_store no_errors 10 [] (meta_of 10) [] = (None, fs)"
    using tiny_saves by blast
  have r: "meta_reachable tiny_store fs"
    using meta_reachable.save [OF meta_reachable.empty, of tiny_store "[]" no_errors 10 "meta_of 10"] fs
    by (simp add: tiny_store_def)
  have files: "fs = [(''/meta/vm'', \<lparr>vd_files = [(''10.json'', \<lparr>mf_data = ''A'', mf_mtime = 10\<rparr>)],
      vd_latest = Some ''10.json''\<rparr>)]"
  proof -
    have vm: "em_vm_id (meta_of 10) = ''vm''" by (simp add: meta_of_def)
    have ef: "export_file tiny_store (meta_of 10) = ''10.json''" by code_simp
    have ma: "ms_marshal tiny_store (meta_of 10) = Some ''A''" by (simp add: tiny_store_def)
    show ?thesis
      using fs tiny_dir vm ef ma
      by (simp add: save_export_def save_in_dir_def no_errors_def Let_def no_files_def)
  qed
  have ext: "path_ext ''10.json'' = ''.json''" by code_simp
  have l: "list_exports tiny_store ''vm'' fs = Inr [meta_of 10]"
    using tiny_dir
    by (simp add: list_exports_def files exports_in_dir_def metadata_files_def ext latest_json_def
        List.map_filter_simps) (simp add: tiny_store_def)
  obtain err fs' where d: "delete_old_exports tiny_store (\<lambda>n. False) 100 ''vm'' 50 fs = (err, fs')"
    by (cases "delete_old_exports tiny_store (\<lambda>n. False) 100 ''vm'' 50 fs")
  from old_exports_are_deleted [OF tiny_codec r l d] r d show ?thesis
    by (auto simp: meta_of_def)
qed

section \<open>When an export can be incremental\<close>

lemma compare_disks_None:
  "length cur = length was \<Longrightarrow>
   compare_disks cur was = None \<longleftrightarrow>
     (\<forall>i < length cur. dm_key (cur ! i) = dm_key (was ! i) \<and> dm_change_id (cur ! i) \<noteq> [] \<and>
        dm_change_id (was ! i) \<noteq> [])"
proof (induction cur was rule: list_induct2)
  case (Cons c cur l was)
  then show ?case by (auto simp: less_Suc_eq_0_disj)
qed simp

lemma incremental_iff:
  "is_incremental_possible now was cur = Inr () \<longleftrightarrow>
     (\<exists>l. was = Inr (Some l) \<and> length (em_disks l) = length cur \<and>
        (\<forall>i < length cur. dm_key (cur ! i) = dm_key (em_disks l ! i) \<and>
           dm_change_id (cur ! i) \<noteq> [] \<and> dm_change_id (em_disks l ! i) \<noteq> []) \<and>
        now - em_export_time l \<le> max_tracking_age)"
proof (cases "\<exists>l. was = Inr (Some l) \<and> length (em_disks l) = length cur")
  case True
  then obtain l where l: "was = Inr (Some l)" "length cur = length (em_disks l)" by auto
  show ?thesis
    using compare_disks_None [OF l(2)]
    by (cases "compare_disks cur (em_disks l)") (simp_all add: is_incremental_possible_def l not_less)
next
  case False
  then show ?thesis
    by (auto simp: is_incremental_possible_def split: sum.splits option.splits if_splits)
qed

lemma fold_add_zero:
  "\<forall>c \<in> set cs. f c = 0 \<Longrightarrow> fold (\<lambda>c s. wrap64 (s + f c)) cs (0 :: int) = 0"
proof -
  have "wrap64 0 = 0" by (simp add: wrap64_def)
  then show "\<forall>c \<in> set cs. f c = 0 \<Longrightarrow> fold (\<lambda>c s. wrap64 (s + f c)) cs 0 = 0"
    by (induction cs) simp_all
qed

text \<open>
  An incremental export is possible exactly when there is a last export, not older than seven
  days, with the same disks in the same order, all of them tracked now and then.  Whenever it is
  possible, the estimate of the changed data is zero bytes, although the query of the changed
  blocks is a placeholder that logs a hint at a full export.
\<close>

theorem incremental_estimate_is_zero:
  "(is_incremental_possible now was cur = Inr () \<longleftrightarrow>
      (\<exists>l. was = Inr (Some l) \<and> length (em_disks l) = length cur \<and>
         (\<forall>i < length cur. dm_key (cur ! i) = dm_key (em_disks l ! i) \<and>
            dm_change_id (cur ! i) \<noteq> [] \<and> dm_change_id (em_disks l ! i) \<noteq> []) \<and>
         now - em_export_time l \<le> max_tracking_age)) \<and>
   (is_incremental_possible now was cur = Inr () \<longrightarrow> estimate_changed_size was cur = 0)"
proof (intro conjI impI)
  assume "is_incremental_possible now was cur = Inr ()"
  then obtain l where was: "was = Inr (Some l)" and len: "length (em_disks l) = length cur"
    and same: "\<forall>i < length cur. dm_key (cur ! i) = dm_key (em_disks l ! i) \<and>
           dm_change_id (cur ! i) \<noteq> [] \<and> dm_change_id (em_disks l ! i) \<noteq> []"
    using incremental_iff [of now was cur] by blast
  have tracked: "dm_change_id d \<noteq> []" if "d \<in> set (em_disks l)" for d
    using that same len by (metis in_set_conv_nth)
  have "changed_size (em_disks l) c = 0" if "c \<in> set cur" for c
  proof -
    from that obtain i where i: "i < length cur" "c = cur ! i" by (auto simp: in_set_conv_nth)
    then have "\<exists>d \<in> set (em_disks l). dm_key d = dm_key c"
      using same len by (intro bexI [of _ "em_disks l ! i"]) auto
    then obtain d where d: "List.find (\<lambda>l. dm_key l = dm_key c) (em_disks l) = Some d"
      by (cases "List.find (\<lambda>l. dm_key l = dm_key c) (em_disks l)") (auto simp: find_None_iff)
    then have "d \<in> set (em_disks l)" by (auto simp: find_Some_iff)
    with tracked d show ?thesis
      by (simp add: changed_size_def last_change_id_def calculate_changes_def Let_def)
  qed
  then show "estimate_changed_size was cur = 0"
    unfolding estimate_changed_size_def was by (simp add: fold_add_zero)
qed (rule incremental_iff)

theorem incremental_estimate_is_zero_witness:
  "is_incremental_possible 5 (Inr (Some ((meta_of 0)\<lparr>em_disks := [\<lparr>dm_key = ''2000'', dm_path = [],
       dm_capacity = 40, dm_change_id = ''c1'', dm_backing_info = []\<rparr>]\<rparr>)))
     [\<lparr>dm_key = ''2000'', dm_path = [], dm_capacity = 40, dm_change_id = ''c9'',
       dm_backing_info = []\<rparr>] = Inr () \<and>
   estimate_changed_size (Inr (Some ((meta_of 0)\<lparr>em_disks := [\<lparr>dm_key = ''2000'', dm_path = [],
       dm_capacity = 40, dm_change_id = ''c1'', dm_backing_info = []\<rparr>]\<rparr>)))
     [\<lparr>dm_key = ''2000'', dm_path = [], dm_capacity = 40, dm_change_id = ''c9'',
       dm_backing_info = []\<rparr>] = 0"
proof -
  let ?cur = "[\<lparr>dm_key = ''2000'', dm_path = [], dm_capacity = 40, dm_change_id = ''c9'',
       dm_backing_info = []\<rparr>]"
  let ?was = "Inr (Some ((meta_of 0)\<lparr>em_disks := [\<lparr>dm_key = ''2000'', dm_path = [],
       dm_capacity = 40, dm_change_id = ''c1'', dm_backing_info = []\<rparr>]\<rparr>))
     :: tracker_error + export_metadata option"
  have "is_incremental_possible 5 ?was ?cur = Inr ()"
    by (simp add: is_incremental_possible_def meta_of_def max_tracking_age_def time_units)
  with incremental_estimate_is_zero [of 5 ?was ?cur] show ?thesis by blast
qed

end
