(* ===== verification/Artifact_Manifest.thy ===== *)
theory Artifact_Manifest
  imports Go_Path
begin

text \<open>
  The artifact manifest, the contract between the exporters and the converter, \<open>manifest/\<close>: its
  data (\<open>types.go\<close>), the builder (\<open>builder.go\<close>), the validation and the verification of checksums
  (\<open>validator.go\<close>), and reading and writing it (\<open>serializer.go\<close>).  The working directory, the
  existence of files, SHA-256 of a file and the two codecs are arguments.
\<close>

section \<open>Data\<close>

record source_metadata =
  sm_provider :: string
  sm_vm_id :: string
  sm_vm_name :: string
  sm_datacenter :: string
  sm_export_timestamp :: "instant option"
  sm_export_method :: string

record vm_metadata =
  vm_cpu :: int
  vm_mem_gb :: int
  vm_firmware :: string
  vm_secure_boot :: bool
  vm_os_hint :: string
  vm_os_version :: string

record disk_artifact =
  da_id :: string
  da_source_format :: string
  da_bytes :: int
  da_local_path :: string
  da_checksum :: string
  da_boot_order_hint :: int
  da_label :: string
  da_disk_type :: string

record nic_info =
  nic_id :: string
  nic_mac :: string
  nic_network :: string

record manifest_warning =
  mw_stage :: string
  mw_message :: string
  mw_timestamp :: "instant option"

record manifest_metadata =
  mm_version :: string
  mm_job_id :: string
  mm_created_at :: "instant option"
  mm_tags :: "(string, string) gomap"

record stage_config =
  stg_enabled :: bool
  stg_collect_guest_info :: bool

record fix_stage_config =
  fx_enabled :: bool
  fx_backup :: bool
  fx_print_fstab :: bool
  fx_update_grub :: bool
  fx_regen_initramfs :: bool
  fx_fstab_mode :: string
  fx_remove_vmware_tools :: bool
  fx_enable_rdp :: "bool option"

record convert_stage_config =
  cv_enabled :: bool
  cv_compress :: bool
  cv_compress_level :: int

record validate_stage_config =
  va_enabled :: bool
  va_check_image_integrity :: bool

record pipeline_config =
  pl_inspect :: "stage_config option"
  pl_fix :: "fix_stage_config option"
  pl_convert :: "convert_stage_config option"
  pl_validate :: "validate_stage_config option"

record output_config =
  oc_directory :: string
  oc_format :: string
  oc_filename :: string

record report_config =
  rc_enabled :: bool
  rc_path :: string

record runtime_options =
  ro_dry_run :: bool
  ro_verbose :: int
  ro_report :: "report_config option"

text \<open>The injected guest configuration, free-form maps that no code here reads, is left out.\<close>

record artifact_manifest =
  am_version :: string
  am_source :: "source_metadata option"
  am_vm :: "vm_metadata option"
  am_disks :: "disk_artifact list"
  am_nics :: "nic_info list"
  am_notes :: "string list"
  am_warnings :: "manifest_warning list"
  am_metadata :: "manifest_metadata option"
  am_pipeline :: "pipeline_config option"
  am_output :: "output_config option"
  am_options :: "runtime_options option"

definition current_version :: string where
  "current_version = ''1.0''"

section \<open>Validation\<close>

definition is_alnum :: "char \<Rightarrow> bool" where
  "is_alnum c = (let n = (of_char c :: nat)
     in 97 \<le> n \<and> n \<le> 122 \<or> 65 \<le> n \<and> n \<le> 90 \<or> 48 \<le> n \<and> n \<le> 57)"

text \<open>The two regular expressions, \<open>^[a-zA-Z0-9_-]+$\<close> and \<open>^sha256:[a-f0-9]{64}$\<close>.\<close>

definition valid_disk_id :: "string \<Rightarrow> bool" where
  "valid_disk_id s \<longleftrightarrow> s \<noteq> [] \<and> list_all (\<lambda>c. is_alnum c \<or> c = CHR ''_'' \<or> c = CHR ''-'') s"

definition is_hex :: "char \<Rightarrow> bool" where
  "is_hex c = (let n = (of_char c :: nat) in 97 \<le> n \<and> n \<le> 102 \<or> 48 \<le> n \<and> n \<le> 57)"

definition valid_checksum :: "string \<Rightarrow> bool" where
  "valid_checksum s \<longleftrightarrow> take 7 s = ''sha256:'' \<and> length s = 71 \<and> list_all is_hex (drop 7 s)"

definition valid_format :: "string \<Rightarrow> bool" where
  "valid_format f = List.member [''vmdk'', ''qcow2'', ''raw'', ''vhd'', ''vhdx'', ''vdi''] f"

definition valid_disk_type :: "string \<Rightarrow> bool" where
  "valid_disk_type t = List.member [''boot'', ''data'', ''unknown''] t"

definition valid_firmware :: "string \<Rightarrow> bool" where
  "valid_firmware f = List.member [''bios'', ''uefi'', ''unknown''] f"

datatype manifest_error =
    BadVersion string
  | NoDisks
  | DiskIdRequired nat
  | DiskIdInvalid nat string
  | DuplicateDiskId string
  | FormatInvalid nat string
  | BytesNegative nat int
  | PathRequired nat
  | PathNotFound nat string
  | ChecksumInvalid nat string
  | BootOrderNegative nat int
  | DiskTypeInvalid nat string
  | FirmwareInvalid string
  | CpuNegative int
  | MemNegative int
  | MacInvalid nat string
  | ChecksumFailed string string
  | ChecksumMismatch string string string
  | BuildFailed nat
  | ReadFailed
  | DecodeFailed

text \<open>\<open>exists\<close> stands for \<open>os.Stat\<close> without an error; \<open>seen\<close> is the set of identifiers so far.\<close>

definition validate_disk ::
  "string \<Rightarrow> (string \<Rightarrow> bool) \<Rightarrow> disk_artifact \<Rightarrow> nat \<Rightarrow> string list \<Rightarrow> manifest_error + string list" where
  "validate_disk cwd ex d i seen =
     (if da_id d = [] then Inl (DiskIdRequired i)
      else if \<not> valid_disk_id (da_id d) then Inl (DiskIdInvalid i (da_id d))
      else if List.member seen (da_id d) then Inl (DuplicateDiskId (da_id d))
      else if \<not> valid_format (da_source_format d) then Inl (FormatInvalid i (da_source_format d))
      else if da_bytes d < 0 then Inl (BytesNegative i (da_bytes d))
      else if da_local_path d = [] then Inl (PathRequired i)
      else if \<not> ex (path_abs cwd (da_local_path d))
        then Inl (PathNotFound i (path_abs cwd (da_local_path d)))
      else if da_checksum d \<noteq> [] \<and> \<not> valid_checksum (da_checksum d)
        then Inl (ChecksumInvalid i (da_checksum d))
      else if da_boot_order_hint d < 0 then Inl (BootOrderNegative i (da_boot_order_hint d))
      else if da_disk_type d \<noteq> [] \<and> \<not> valid_disk_type (da_disk_type d)
        then Inl (DiskTypeInvalid i (da_disk_type d))
      else Inr (da_id d # seen))"

fun validate_disks ::
  "string \<Rightarrow> (string \<Rightarrow> bool) \<Rightarrow> disk_artifact list \<Rightarrow> nat \<Rightarrow> string list \<Rightarrow> manifest_error option" where
  "validate_disks cwd ex [] i seen = None"
| "validate_disks cwd ex (d # ds) i seen =
     (case validate_disk cwd ex d i seen of
        Inl e \<Rightarrow> Some e
      | Inr seen \<Rightarrow> validate_disks cwd ex ds (Suc i) seen)"

definition validate_vm :: "vm_metadata \<Rightarrow> manifest_error option" where
  "validate_vm v =
     (if vm_firmware v \<noteq> [] \<and> \<not> valid_firmware (vm_firmware v)
      then Some (FirmwareInvalid (vm_firmware v))
      else if vm_cpu v < 0 then Some (CpuNegative (vm_cpu v))
      else if vm_mem_gb v < 0 then Some (MemNegative (vm_mem_gb v)) else None)"

definition validate_nic :: "nic_info \<Rightarrow> nat \<Rightarrow> manifest_error option" where
  "validate_nic n i =
     (if nic_mac n \<noteq> [] \<and> length (nic_mac n) < 17 then Some (MacInvalid i (nic_mac n)) else None)"

fun validate_nics :: "nic_info list \<Rightarrow> nat \<Rightarrow> manifest_error option" where
  "validate_nics [] i = None"
| "validate_nics (n # ns) i =
     (case validate_nic n i of Some e \<Rightarrow> Some e | None \<Rightarrow> validate_nics ns (Suc i))"

definition validate_manifest ::
  "string \<Rightarrow> (string \<Rightarrow> bool) \<Rightarrow> artifact_manifest \<Rightarrow> manifest_error option" where
  "validate_manifest cwd ex m =
     (if am_version m \<noteq> current_version then Some (BadVersion (am_version m))
      else if am_disks m = [] then Some NoDisks
      else case validate_disks cwd ex (am_disks m) 0 [] of
             Some e \<Rightarrow> Some e
           | None \<Rightarrow>
               (case Option.bind (am_vm m) validate_vm of
                  Some e \<Rightarrow> Some e
                | None \<Rightarrow> validate_nics (am_nics m) 0))"

text \<open>
  \<open>VerifyChecksums\<close>: \<open>sha\<close> is \<open>ComputeSHA256\<close>.  The first seven bytes are cut off without a
  look at the length: a shorter checksum makes the slice panic.
\<close>

fun verify_checksums ::
  "(string \<Rightarrow> string + string) \<Rightarrow> disk_artifact list \<Rightarrow> (string, bool) gomap \<Rightarrow>
   (manifest_error option \<times> (string, bool) gomap) go_outcome" where
  "verify_checksums sha [] res = Returns (None, res)"
| "verify_checksums sha (d # ds) res =
     (if da_checksum d = [] then verify_checksums sha ds res
      else if length (da_checksum d) < 7 then Panics
      else
        let expected = drop 7 (da_checksum d)
        in case sha (da_local_path d) of
             Inl e \<Rightarrow> Returns (Some (ChecksumFailed (da_id d) e), res)
           | Inr actual \<Rightarrow>
               let res = gm_put (da_id d) (actual = expected) res
               in if actual \<noteq> expected
                  then Returns (Some (ChecksumMismatch (da_id d) expected actual), res)
                  else verify_checksums sha ds res)"

section \<open>The builder\<close>

datatype build_error =
    InvalidDiskId string
  | DuplicateId string
  | InvalidFormat string
  | DiskFileNotFound string
  | ChecksumError string string

record manifest_builder =
  mb_manifest :: artifact_manifest
  mb_errors :: "build_error list"

definition new_builder :: "instant \<Rightarrow> manifest_builder" where
  "new_builder now =
     \<lparr>mb_manifest = \<lparr>am_version = current_version, am_source = None, am_vm = None, am_disks = [],
        am_nics = [], am_notes = [], am_warnings = [],
        am_metadata = Some \<lparr>mm_version = [], mm_job_id = [], mm_created_at = Some now, mm_tags = []\<rparr>,
        am_pipeline = None, am_output = None, am_options = None\<rparr>,
      mb_errors = []\<rparr>"

definition on_manifest :: "(artifact_manifest \<Rightarrow> artifact_manifest) \<Rightarrow> manifest_builder \<Rightarrow> manifest_builder" where
  "on_manifest f b = b\<lparr>mb_manifest := f (mb_manifest b)\<rparr>"

definition builder_error :: "build_error \<Rightarrow> manifest_builder \<Rightarrow> manifest_builder" where
  "builder_error e b = b\<lparr>mb_errors := mb_errors b @ [e]\<rparr>"

definition with_source ::
  "instant \<Rightarrow> string \<Rightarrow> string \<Rightarrow> string \<Rightarrow> string \<Rightarrow> string \<Rightarrow> manifest_builder \<Rightarrow> manifest_builder" where
  "with_source now prov vid vname dc meth =
     on_manifest (\<lambda>m. m\<lparr>am_source := Some \<lparr>sm_provider = prov, sm_vm_id = vid, sm_vm_name = vname,
       sm_datacenter = dc, sm_export_timestamp = Some now, sm_export_method = meth\<rparr>\<rparr>)"

definition with_vm ::
  "int \<Rightarrow> int \<Rightarrow> string \<Rightarrow> string \<Rightarrow> string \<Rightarrow> bool \<Rightarrow> manifest_builder \<Rightarrow> manifest_builder" where
  "with_vm cpu mem fw hint ver sb =
     on_manifest (\<lambda>m. m\<lparr>am_vm := Some \<lparr>vm_cpu = cpu, vm_mem_gb = mem, vm_firmware = fw,
       vm_secure_boot = sb, vm_os_hint = hint, vm_os_version = ver\<rparr>\<rparr>)"

definition add_disk ::
  "string \<Rightarrow> (string \<Rightarrow> bool) \<Rightarrow> string \<Rightarrow> string \<Rightarrow> string \<Rightarrow> int \<Rightarrow> int \<Rightarrow> string \<Rightarrow>
   manifest_builder \<Rightarrow> manifest_builder" where
  "add_disk cwd ex did fmt path bytes boot dtype b =
     (if \<not> valid_disk_id did then builder_error (InvalidDiskId did) b
      else if list_ex (\<lambda>d. da_id d = did) (am_disks (mb_manifest b))
        then builder_error (DuplicateId did) b
      else if \<not> valid_format fmt then builder_error (InvalidFormat fmt) b
      else if \<not> ex (path_abs cwd path) then builder_error (DiskFileNotFound (path_abs cwd path)) b
      else on_manifest (\<lambda>m. m\<lparr>am_disks := am_disks m @
             [\<lparr>da_id = did, da_source_format = fmt, da_bytes = bytes,
               da_local_path = path_abs cwd path, da_checksum = [], da_boot_order_hint = boot,
               da_label = did, da_disk_type = dtype\<rparr>]\<rparr>) b)"

definition add_disk_with_checksum ::
  "string \<Rightarrow> (string \<Rightarrow> bool) \<Rightarrow> (string \<Rightarrow> string + string) \<Rightarrow> string \<Rightarrow> string \<Rightarrow> string \<Rightarrow> int \<Rightarrow> int \<Rightarrow>
   string \<Rightarrow> bool \<Rightarrow> manifest_builder \<Rightarrow> manifest_builder" where
  "add_disk_with_checksum cwd ex sha did fmt path bytes boot dtype compute b =
     (let b = add_disk cwd ex did fmt path bytes boot dtype b
      in if mb_errors b \<noteq> [] then b
         else if compute \<and> am_disks (mb_manifest b) \<noteq> [] then
           (let d = last (am_disks (mb_manifest b))
            in case sha (da_local_path d) of
                 Inl e \<Rightarrow> builder_error (ChecksumError (da_id d) e) b
               | Inr s \<Rightarrow>
                   on_manifest (\<lambda>m. m\<lparr>am_disks := butlast (am_disks m) @
                     [d\<lparr>da_checksum := ''sha256:'' @ s\<rparr>]\<rparr>) b)
         else b)"

definition add_nic :: "string \<Rightarrow> string \<Rightarrow> string \<Rightarrow> manifest_builder \<Rightarrow> manifest_builder" where
  "add_nic nid mac net =
     on_manifest (\<lambda>m. m\<lparr>am_nics := am_nics m @ [\<lparr>nic_id = nid, nic_mac = mac, nic_network = net\<rparr>]\<rparr>)"

definition add_note :: "string \<Rightarrow> manifest_builder \<Rightarrow> manifest_builder" where
  "add_note n = on_manifest (\<lambda>m. m\<lparr>am_notes := am_notes m @ [n]\<rparr>)"

definition add_warning :: "instant \<Rightarrow> string \<Rightarrow> string \<Rightarrow> manifest_builder \<Rightarrow> manifest_builder" where
  "add_warning now stage msg =
     on_manifest (\<lambda>m. m\<lparr>am_warnings := am_warnings m @
       [\<lparr>mw_stage = stage, mw_message = msg, mw_timestamp = Some now\<rparr>]\<rparr>)"

definition with_metadata ::
  "instant \<Rightarrow> string \<Rightarrow> string \<Rightarrow> (string, string) gomap option \<Rightarrow> manifest_builder \<Rightarrow> manifest_builder" where
  "with_metadata now ver job tags =
     on_manifest (\<lambda>m.
       let md = (case am_metadata m of
                   None \<Rightarrow> \<lparr>mm_version = [], mm_job_id = [], mm_created_at = Some now, mm_tags = []\<rparr>
                 | Some md \<Rightarrow> md);
           md = md\<lparr>mm_version := ver, mm_job_id := job\<rparr>;
           md = (case tags of None \<Rightarrow> md | Some t \<Rightarrow> md\<lparr>mm_tags := t\<rparr>)
       in m\<lparr>am_metadata := Some md\<rparr>)"

definition with_pipeline :: "bool \<Rightarrow> bool \<Rightarrow> bool \<Rightarrow> bool \<Rightarrow> manifest_builder \<Rightarrow> manifest_builder" where
  "with_pipeline ins fx cv va =
     on_manifest (\<lambda>m. m\<lparr>am_pipeline := Some
       \<lparr>pl_inspect = Some \<lparr>stg_enabled = ins, stg_collect_guest_info = True\<rparr>,
        pl_fix = Some \<lparr>fx_enabled = fx, fx_backup = True, fx_print_fstab = False,
          fx_update_grub = True, fx_regen_initramfs = True, fx_fstab_mode = ''stabilize-all'',
          fx_remove_vmware_tools = True, fx_enable_rdp = None\<rparr>,
        pl_convert = Some \<lparr>cv_enabled = cv, cv_compress = True, cv_compress_level = 0\<rparr>,
        pl_validate = Some \<lparr>va_enabled = va, va_check_image_integrity = True\<rparr>\<rparr>\<rparr>)"

definition bare_fix :: fix_stage_config where
  "bare_fix = \<lparr>fx_enabled = True, fx_backup = False, fx_print_fstab = False,
     fx_update_grub = False, fx_regen_initramfs = False, fx_fstab_mode = [],
     fx_remove_vmware_tools = False, fx_enable_rdp = None\<rparr>"

definition with_fix_enable_rdp :: "bool \<Rightarrow> manifest_builder \<Rightarrow> manifest_builder" where
  "with_fix_enable_rdp enable b =
     (let b = (if am_pipeline (mb_manifest b) = None then with_pipeline False False False False b else b)
      in on_manifest (\<lambda>m. m\<lparr>am_pipeline := map_option (\<lambda>p.
           p\<lparr>pl_fix := Some ((case pl_fix p of None \<Rightarrow> bare_fix | Some f \<Rightarrow> f)
               \<lparr>fx_enable_rdp := Some enable\<rparr>)\<rparr>) (am_pipeline m)\<rparr>) b)"

definition with_output :: "string \<Rightarrow> string \<Rightarrow> string \<Rightarrow> manifest_builder \<Rightarrow> manifest_builder" where
  "with_output dir fmt name =
     on_manifest (\<lambda>m. m\<lparr>am_output := Some \<lparr>oc_directory = dir, oc_format = fmt, oc_filename = name\<rparr>\<rparr>)"

definition with_options :: "bool \<Rightarrow> int \<Rightarrow> manifest_builder \<Rightarrow> manifest_builder" where
  "with_options dry verb =
     on_manifest (\<lambda>m. m\<lparr>am_options := Some \<lparr>ro_dry_run = dry, ro_verbose = verb,
       ro_report = Some \<lparr>rc_enabled = True, rc_path = ''report.json''\<rparr>\<rparr>\<rparr>)"

definition build_manifest :: "manifest_builder \<Rightarrow> manifest_error + artifact_manifest" where
  "build_manifest b =
     (if mb_errors b \<noteq> [] then Inl (BuildFailed (length (mb_errors b)))
      else if am_disks (mb_manifest b) = [] then Inl NoDisks
      else Inr (mb_manifest b))"

section \<open>Files\<close>

text \<open>The test for YAML: five characters at least, and one of two endings.\<close>

definition is_yaml_path :: "string \<Rightarrow> bool" where
  "is_yaml_path p \<longleftrightarrow> 5 \<le> length p \<and>
     (drop (length p - 5) p = ''.yaml'' \<or> drop (length p - 4) p = ''.yml'')"

record manifest_codec =
  mc_to_json :: "artifact_manifest \<Rightarrow> string option"
  mc_to_yaml :: "artifact_manifest \<Rightarrow> string option"
  mc_from_json :: "string \<Rightarrow> artifact_manifest option"
  mc_from_yaml :: "string \<Rightarrow> artifact_manifest option"

text \<open>The answer of \<open>WriteToFile\<close> is whether it succeeded, with the files afterwards.\<close>

definition write_to_file ::
  "manifest_codec \<Rightarrow> bool \<Rightarrow> artifact_manifest \<Rightarrow> string \<Rightarrow> (string, string) gomap \<Rightarrow>
   bool \<times> (string, string) gomap" where
  "write_to_file c writable m path fs =
     (case (if is_yaml_path path then mc_to_yaml c m else mc_to_json c m) of
        None \<Rightarrow> (False, fs)
      | Some data \<Rightarrow> if writable then (True, gm_put path data fs) else (False, fs))"

definition read_from_file ::
  "manifest_codec \<Rightarrow> string \<Rightarrow> (string \<Rightarrow> bool) \<Rightarrow> string \<Rightarrow> (string, string) gomap \<Rightarrow>
   manifest_error + artifact_manifest" where
  "read_from_file c cwd ex path fs =
     (case gm_get fs path of
        None \<Rightarrow> Inl ReadFailed
      | Some data \<Rightarrow>
          (case (if is_yaml_path path then mc_from_yaml c data else mc_from_json c data) of
             None \<Rightarrow> Inl DecodeFailed
           | Some m \<Rightarrow>
               (case validate_manifest cwd ex m of Some e \<Rightarrow> Inl e | None \<Rightarrow> Inr m)))"

section \<open>What validation accepts\<close>

definition disk_valid :: "string \<Rightarrow> (string \<Rightarrow> bool) \<Rightarrow> disk_artifact \<Rightarrow> bool" where
  "disk_valid cwd ex d \<longleftrightarrow> valid_disk_id (da_id d) \<and> valid_format (da_source_format d) \<and>
     0 \<le> da_bytes d \<and> da_local_path d \<noteq> [] \<and> ex (path_abs cwd (da_local_path d)) \<and>
     (da_checksum d = [] \<or> valid_checksum (da_checksum d)) \<and> 0 \<le> da_boot_order_hint d \<and>
     (da_disk_type d = [] \<or> valid_disk_type (da_disk_type d))"

definition vm_valid :: "vm_metadata \<Rightarrow> bool" where
  "vm_valid v \<longleftrightarrow> (vm_firmware v = [] \<or> valid_firmware (vm_firmware v)) \<and> 0 \<le> vm_cpu v \<and>
     0 \<le> vm_mem_gb v"

definition nic_valid :: "nic_info \<Rightarrow> bool" where
  "nic_valid n \<longleftrightarrow> nic_mac n = [] \<or> 17 \<le> length (nic_mac n)"

lemma validate_disk_Inr:
  "validate_disk cwd ex d i seen = Inr seen' \<longleftrightarrow>
     disk_valid cwd ex d \<and> da_id d \<notin> set seen \<and> seen' = da_id d # seen"
  by (auto simp: validate_disk_def disk_valid_def List.member_iff valid_disk_id_def)

lemma validate_disks_None:
  "validate_disks cwd ex ds i seen = None \<longleftrightarrow>
     (\<forall>d \<in> set ds. disk_valid cwd ex d) \<and> distinct (map da_id ds) \<and>
     set (map da_id ds) \<inter> set seen = {}"
proof (induction ds arbitrary: i seen)
  case (Cons d ds)
  show ?case
  proof (cases "validate_disk cwd ex d i seen")
    case (Inl e)
    then have "\<not> (disk_valid cwd ex d \<and> da_id d \<notin> set seen)"
      using validate_disk_Inr [of cwd ex d i seen] by auto
    with Inl show ?thesis by auto
  next
    case (Inr seen')
    with Cons validate_disk_Inr [of cwd ex d i seen seen'] show ?thesis by auto
  qed
qed simp

lemma validate_vm_None: "validate_vm v = None \<longleftrightarrow> vm_valid v"
  by (auto simp: validate_vm_def vm_valid_def)

lemma validate_nics_None: "validate_nics ns i = None \<longleftrightarrow> (\<forall>n \<in> set ns. nic_valid n)"
  by (induction ns arbitrary: i) (auto simp: validate_nic_def nic_valid_def split: option.split)

lemma validate_manifest_None:
  "validate_manifest cwd ex m = None \<longleftrightarrow>
     am_version m = current_version \<and> am_disks m \<noteq> [] \<and>
     (\<forall>d \<in> set (am_disks m). disk_valid cwd ex d) \<and> distinct (map da_id (am_disks m)) \<and>
     (\<forall>v. am_vm m = Some v \<longrightarrow> vm_valid v) \<and> (\<forall>n \<in> set (am_nics m). nic_valid n)"
proof -
  have vm: "Option.bind (am_vm m) validate_vm = None \<longleftrightarrow> (\<forall>v. am_vm m = Some v \<longrightarrow> vm_valid v)"
    by (cases "am_vm m") (simp_all add: validate_vm_None)
  show ?thesis
  proof (cases "validate_disks cwd ex (am_disks m) 0 []")
    case None
    with validate_disks_None [of cwd ex "am_disks m" 0 "[]"] vm
      validate_nics_None [of "am_nics m" 0]
    show ?thesis
      by (cases "Option.bind (am_vm m) validate_vm") (auto simp: validate_manifest_def)
  next
    case (Some e)
    with validate_disks_None [of cwd ex "am_disks m" 0 "[]"] show ?thesis
      by (auto simp: validate_manifest_def)
  qed
qed

section \<open>What the builder guarantees\<close>

text \<open>The calls of the builder and a chain of them.\<close>

datatype builder_call =
    WithSource instant string string string string string
  | WithVM int int string string string bool
  | AddDisk string string string int int string
  | AddDiskWithChecksum string string string int int string bool
  | AddNIC string string string
  | AddNote string
  | AddWarning instant string string
  | WithMetadata instant string string "(string, string) gomap option"
  | WithPipeline bool bool bool bool
  | WithFixEnableRDP bool
  | WithOutput string string string
  | WithOptions bool int

fun builder_step ::
  "string \<Rightarrow> (string \<Rightarrow> bool) \<Rightarrow> (string \<Rightarrow> string + string) \<Rightarrow> builder_call \<Rightarrow> manifest_builder \<Rightarrow>
   manifest_builder" where
  "builder_step cwd ex sha (WithSource now p i n d e) b = with_source now p i n d e b"
| "builder_step cwd ex sha (WithVM c m f h v s) b = with_vm c m f h v s b"
| "builder_step cwd ex sha (AddDisk i f p n k t) b = add_disk cwd ex i f p n k t b"
| "builder_step cwd ex sha (AddDiskWithChecksum i f p n k t c) b =
     add_disk_with_checksum cwd ex sha i f p n k t c b"
| "builder_step cwd ex sha (AddNIC i m n) b = add_nic i m n b"
| "builder_step cwd ex sha (AddNote n) b = add_note n b"
| "builder_step cwd ex sha (AddWarning now s m) b = add_warning now s m b"
| "builder_step cwd ex sha (WithMetadata now v j t) b = with_metadata now v j t b"
| "builder_step cwd ex sha (WithPipeline i f c v) b = with_pipeline i f c v b"
| "builder_step cwd ex sha (WithFixEnableRDP e) b = with_fix_enable_rdp e b"
| "builder_step cwd ex sha (WithOutput d f n) b = with_output d f n b"
| "builder_step cwd ex sha (WithOptions d v) b = with_options d v b"

definition run_builder ::
  "string \<Rightarrow> (string \<Rightarrow> bool) \<Rightarrow> (string \<Rightarrow> string + string) \<Rightarrow> instant \<Rightarrow> builder_call list \<Rightarrow>
   manifest_builder" where
  "run_builder cwd ex sha now calls = fold (builder_step cwd ex sha) calls (new_builder now)"

text \<open>What the builder checks of a disk, and what it records as checksum.\<close>

definition disk_built ::
  "string \<Rightarrow> (string \<Rightarrow> bool) \<Rightarrow> (string \<Rightarrow> string + string) \<Rightarrow> disk_artifact \<Rightarrow> bool" where
  "disk_built cwd ex sha d \<longleftrightarrow> valid_disk_id (da_id d) \<and> valid_format (da_source_format d) \<and>
     da_local_path d \<noteq> [] \<and> path_abs cwd (da_local_path d) = da_local_path d \<and>
     ex (da_local_path d) \<and>
     (da_checksum d = [] \<or> (\<exists>s. sha (da_local_path d) = Inr s \<and> da_checksum d = ''sha256:'' @ s))"

definition built_ok ::
  "string \<Rightarrow> (string \<Rightarrow> bool) \<Rightarrow> (string \<Rightarrow> string + string) \<Rightarrow> artifact_manifest \<Rightarrow> bool" where
  "built_ok cwd ex sha m \<longleftrightarrow> am_version m = current_version \<and>
     (\<forall>d \<in> set (am_disks m). disk_built cwd ex sha d) \<and> distinct (map da_id (am_disks m))"

lemma built_ok_cong:
  "am_version m' = am_version m \<Longrightarrow> am_disks m' = am_disks m \<Longrightarrow>
   built_ok cwd ex sha m' = built_ok cwd ex sha m"
  by (simp add: built_ok_def)

lemma add_disk_ok:
  assumes "is_abs cwd" and "built_ok cwd ex sha (mb_manifest b)"
  shows "built_ok cwd ex sha (mb_manifest (add_disk cwd ex i f p n k t b))"
  using assms
  by (auto simp: add_disk_def on_manifest_def builder_error_def built_ok_def disk_built_def
      list_ex_iff)

lemma set_last_checksum_ok:
  assumes "built_ok cwd ex sha m" and "am_disks m \<noteq> []"
    and "sha (da_local_path (last (am_disks m))) = Inr s"
  shows "built_ok cwd ex sha (m\<lparr>am_disks := butlast (am_disks m) @
     [(last (am_disks m))\<lparr>da_checksum := ''sha256:'' @ s\<rparr>]\<rparr>)"
proof -
  obtain ds d where ds: "am_disks m = ds @ [d]" using assms(2) by (metis rev_exhaust)
  with assms show ?thesis by (auto simp: built_ok_def disk_built_def)
qed

lemma builder_step_ok:
  assumes "is_abs cwd" and "built_ok cwd ex sha (mb_manifest b)"
  shows "built_ok cwd ex sha (mb_manifest (builder_step cwd ex sha c b))"
proof (cases c)
  case (AddDisk i f p n k t)
  then show ?thesis using add_disk_ok [OF assms] by simp
next
  case (AddDiskWithChecksum i f p n k t cc)
  let ?b = "add_disk cwd ex i f p n k t b"
  have b: "built_ok cwd ex sha (mb_manifest ?b)" by (rule add_disk_ok [OF assms])
  with set_last_checksum_ok [OF b] AddDiskWithChecksum show ?thesis
    by (auto simp: add_disk_with_checksum_def Let_def builder_error_def on_manifest_def
        split: sum.split)
qed (use assms(2) in \<open>simp_all add: on_manifest_def with_source_def with_vm_def add_nic_def
    add_note_def add_warning_def with_metadata_def with_pipeline_def with_fix_enable_rdp_def
    with_output_def with_options_def Let_def built_ok_def split: option.split\<close>)

lemma run_builder_ok:
  assumes "is_abs cwd"
  shows "built_ok cwd ex sha (mb_manifest (run_builder cwd ex sha now calls))"
proof -
  have step: "built_ok cwd ex sha (mb_manifest (fold (builder_step cwd ex sha) calls b))"
    if "built_ok cwd ex sha (mb_manifest b)" for b
    using that builder_step_ok [OF assms] by (induction calls arbitrary: b) auto
  have "built_ok cwd ex sha (mb_manifest (new_builder now))"
    by (simp add: new_builder_def built_ok_def)
  then show ?thesis unfolding run_builder_def by (rule step)
qed

definition sha_ok :: "(string \<Rightarrow> string + string) \<Rightarrow> bool" where
  "sha_ok sha \<longleftrightarrow> (\<forall>p s. sha p = Inr s \<longrightarrow> length s = 64 \<and> list_all is_hex s)"

text \<open>
  A manifest that the builder returns has passed most of the validation: it validates exactly
  when the values the builder takes without a look are in order, that is no disk has a negative
  size, boot order or an unknown type, the machine's data are valid, and no MAC address is too
  short.  SHA-256 digests are only assumed to be 64 hexadecimal digits.
\<close>

theorem built_manifest_validates:
  assumes "is_abs cwd" and "sha_ok sha"
    and "build_manifest (run_builder cwd ex sha now calls) = Inr m"
  shows "validate_manifest cwd ex m = None \<longleftrightarrow>
    (\<forall>d \<in> set (am_disks m). 0 \<le> da_bytes d \<and> 0 \<le> da_boot_order_hint d \<and>
       (da_disk_type d = [] \<or> valid_disk_type (da_disk_type d))) \<and>
    (\<forall>v. am_vm m = Some v \<longrightarrow> vm_valid v) \<and> (\<forall>n \<in> set (am_nics m). nic_valid n)"
proof -
  have m: "built_ok cwd ex sha m" "am_disks m \<noteq> []"
    using assms(3) run_builder_ok [OF assms(1), of ex sha now calls]
    by (auto simp: build_manifest_def split: if_splits)
  have "disk_valid cwd ex d \<longleftrightarrow> 0 \<le> da_bytes d \<and> 0 \<le> da_boot_order_hint d \<and>
       (da_disk_type d = [] \<or> valid_disk_type (da_disk_type d))" if "d \<in> set (am_disks m)" for d
  proof -
    have d: "disk_built cwd ex sha d" using m(1) that by (simp add: built_ok_def)
    then have "da_checksum d = [] \<or> valid_checksum (da_checksum d)"
      using assms(2) by (auto simp: disk_built_def sha_ok_def valid_checksum_def)
    with d show ?thesis by (auto simp: disk_built_def disk_valid_def)
  qed
  with m show ?thesis by (auto simp: validate_manifest_None built_ok_def)
qed

text \<open>One disk with a digest, one interface, one note.\<close>

definition demo_sha :: "string \<Rightarrow> string + string" where
  "demo_sha p = Inr (replicate 64 (CHR ''a''))"

definition demo_calls :: "builder_call list" where
  "demo_calls = [WithVM 2 4 ''bios'' ''linux'' [] False,
     AddDiskWithChecksum ''disk-0'' ''vmdk'' ''d.vmdk'' 10 0 ''boot'' True,
     AddNIC ''n0'' ''00:11:22:33:44:55'' ''net'']"

definition demo_manifest :: artifact_manifest where
  "demo_manifest = mb_manifest (run_builder ''/w'' (\<lambda>_. True) demo_sha 0 demo_calls)"

lemma demo_sha_ok: "sha_ok demo_sha"
  by (simp add: sha_ok_def demo_sha_def is_hex_def list_all_iff)

lemma demo_built:
  "build_manifest (run_builder ''/w'' (\<lambda>_. True) demo_sha 0 demo_calls) = Inr demo_manifest"
  "am_disks demo_manifest = [\<lparr>da_id = ''disk-0'', da_source_format = ''vmdk'', da_bytes = 10,
     da_local_path = ''/w/d.vmdk'', da_checksum = ''sha256:'' @ replicate 64 (CHR ''a''),
     da_boot_order_hint = 0, da_label = ''disk-0'', da_disk_type = ''boot''\<rparr>]"
  by (code_simp, code_simp)

theorem built_manifest_validates_witness:
  "validate_manifest ''/w'' (\<lambda>_. True) demo_manifest = None"
proof -
  have "validate_manifest ''/w'' (\<lambda>_. True) demo_manifest = None \<longleftrightarrow>
    (\<forall>d \<in> set (am_disks demo_manifest). 0 \<le> da_bytes d \<and> 0 \<le> da_boot_order_hint d \<and>
       (da_disk_type d = [] \<or> valid_disk_type (da_disk_type d))) \<and>
    (\<forall>v. am_vm demo_manifest = Some v \<longrightarrow> vm_valid v) \<and> (\<forall>n \<in> set (am_nics demo_manifest). nic_valid n)"
    by (rule built_manifest_validates [OF _ demo_sha_ok demo_built(1)]) (simp add: is_abs_def)
  moreover have "am_vm demo_manifest = Some \<lparr>vm_cpu = 2, vm_mem_gb = 4, vm_firmware = ''bios'',
      vm_secure_boot = False, vm_os_hint = ''linux'', vm_os_version = []\<rparr>"
    "am_nics demo_manifest = [\<lparr>nic_id = ''n0'', nic_mac = ''00:11:22:33:44:55'', nic_network = ''net''\<rparr>]"
    by (code_simp, code_simp)
  ultimately show ?thesis
    by (simp add: demo_built(2) vm_valid_def valid_firmware_def nic_valid_def valid_disk_type_def
        List.member_iff)
qed

section \<open>Checksums\<close>

definition checksum_matches :: "(string \<Rightarrow> string + string) \<Rightarrow> disk_artifact \<Rightarrow> bool" where
  "checksum_matches sha d \<longleftrightarrow> da_checksum d = [] \<or> sha (da_local_path d) = Inr (drop 7 (da_checksum d))"

lemma valid_checksum_length: "valid_checksum s \<Longrightarrow> length s = 71"
  by (simp add: valid_checksum_def)

lemma verify_checksums_runs:
  assumes "\<forall>d \<in> set ds. da_checksum d = [] \<or> 7 \<le> length (da_checksum d)"
  shows "\<exists>e res'. verify_checksums sha ds res = Returns (e, res') \<and>
    (e = None \<longleftrightarrow> (\<forall>d \<in> set ds. checksum_matches sha d))"
  using assms
proof (induction ds arbitrary: res)
  case (Cons d ds)
  then show ?case
    by (cases "sha (da_local_path d)") (auto simp: checksum_matches_def Let_def)
qed simp

text \<open>
  On a manifest that validates, the verification of the checksums does not panic, and it
  reports no error exactly when the file of every disk with a checksum has that digest; a
  manifest that the builder returns verifies as long as the files stay as they are.  One with a
  checksum of fewer than seven characters, which nothing keeps from the exported function,
  makes it panic.
\<close>

theorem verify_checksums_correct:
  "(validate_manifest cwd ex m = None \<longrightarrow>
      (\<exists>e res. verify_checksums sha (am_disks m) [] = Returns (e, res) \<and>
         (e = None \<longleftrightarrow> (\<forall>d \<in> set (am_disks m). checksum_matches sha d)))) \<and>
   (is_abs cwd \<and> build_manifest (run_builder cwd ex sha now calls) = Inr m \<longrightarrow>
      (\<exists>res. verify_checksums sha (am_disks m) [] = Returns (None, res))) \<and>
   (da_checksum d \<noteq> [] \<and> length (da_checksum d) < 7 \<longrightarrow> verify_checksums sha [d] res = Panics)"
proof (intro conjI impI)
  assume "validate_manifest cwd ex m = None"
  then have "\<forall>d \<in> set (am_disks m). da_checksum d = [] \<or> 7 \<le> length (da_checksum d)"
    by (auto simp: validate_manifest_None disk_valid_def dest!: bspec valid_checksum_length)
  then show "\<exists>e res. verify_checksums sha (am_disks m) [] = Returns (e, res) \<and>
      (e = None \<longleftrightarrow> (\<forall>d \<in> set (am_disks m). checksum_matches sha d))"
    by (rule verify_checksums_runs)
next
  assume *: "is_abs cwd \<and> build_manifest (run_builder cwd ex sha now calls) = Inr m"
  then have "built_ok cwd ex sha m"
    using run_builder_ok [of cwd ex sha now calls] by (auto simp: build_manifest_def split: if_splits)
  then have "(da_checksum d = [] \<or> 7 \<le> length (da_checksum d)) \<and> checksum_matches sha d"
    if "d \<in> set (am_disks m)" for d
    using that by (auto simp: built_ok_def disk_built_def checksum_matches_def)
  then show "\<exists>res. verify_checksums sha (am_disks m) [] = Returns (None, res)"
    using verify_checksums_runs [of "am_disks m" sha "[]"] by auto
qed auto

theorem verify_checksums_correct_witness:
  "(\<exists>res. verify_checksums demo_sha (am_disks demo_manifest) [] = Returns (None, res)) \<and>
   verify_checksums demo_sha [hd (am_disks demo_manifest)\<lparr>da_checksum := ''abc''\<rparr>] [] = Panics"
  using verify_checksums_correct [of "''/w''" "\<lambda>_. True" demo_manifest demo_sha 0 demo_calls
      "hd (am_disks demo_manifest)\<lparr>da_checksum := ''abc''\<rparr>" "[]"] demo_built(1)
  by (simp add: is_abs_def)

section \<open>Writing and reading\<close>

text \<open>What is relied on: both codecs read back what they wrote.\<close>

definition codec_ok :: "manifest_codec \<Rightarrow> bool" where
  "codec_ok c \<longleftrightarrow> (\<forall>m s. mc_to_json c m = Some s \<longrightarrow> mc_from_json c s = Some m) \<and>
     (\<forall>m s. mc_to_yaml c m = Some s \<longrightarrow> mc_from_yaml c s = Some m)"

text \<open>
  A manifest written to a file reads back, whatever the ending of the path, exactly when it
  validates; writing does not validate, so a manifest with a bad value is written without an error
  and refused when it is read, with the error of the validation.
\<close>

theorem written_manifest_reads_back:
  assumes "codec_ok c" and "write_to_file c writable m path fs = (True, fs')"
  shows "read_from_file c cwd ex path fs' =
    (case validate_manifest cwd ex m of None \<Rightarrow> Inr m | Some e \<Rightarrow> Inl e)"
  using assms
  by (auto simp: write_to_file_def read_from_file_def codec_ok_def
      split: option.splits if_splits)

definition demo_codec :: "string \<Rightarrow> manifest_codec" where
  "demo_codec tag = \<lparr>mc_to_json = (\<lambda>m. if m = demo_manifest then Some tag else None), mc_to_yaml = (\<lambda>m. None),
     mc_from_json = (\<lambda>s. Some demo_manifest), mc_from_yaml = (\<lambda>s. None)\<rparr>"

theorem written_manifest_reads_back_witness:
  "read_from_file (demo_codec ''x'') ''/w'' (\<lambda>_. True) ''/m.json'' [(''/m.json'', ''x'')] =
     (case validate_manifest ''/w'' (\<lambda>_. True) demo_manifest of None \<Rightarrow> Inr demo_manifest | Some e \<Rightarrow> Inl e)"
  by (rule written_manifest_reads_back [of _ True _ _ "[]"])
    (simp_all add: codec_ok_def demo_codec_def write_to_file_def is_yaml_path_def)

end
