(* ===== verification/Progress_Tracker.thy ===== *)
theory Progress_Tracker
  imports Go_Prelude Complex_Main
begin

text \<open>
  The progress tracker of migrations, \<open>providers/common/progress_api.go\<close>: the progress of every
  task and the channels of its listeners.  Channels are numbered in the order in which they are
  made; a channel has a buffer of ten updates.  Sending on a closed channel and closing a
  channel twice panic, as in Go.  The HTTP handlers only encode what is modelled here.
\<close>

section \<open>State\<close>

type_synonym progress_status = string

definition status_pending :: progress_status where "status_pending = ''pending''"
definition status_exporting :: progress_status where "status_exporting = ''exporting''"
definition status_converting :: progress_status where "status_converting = ''converting''"
definition status_uploading :: progress_status where "status_uploading = ''uploading''"
definition status_completed :: progress_status where "status_completed = ''completed''"
definition status_failed :: progress_status where "status_failed = ''failed''"

record stage_progress =
  sp_stage :: string
  sp_status :: string
  sp_start_time :: instant
  sp_percentage :: real
  sp_bytes_total :: int
  sp_bytes_done :: int
  sp_rate :: int
  sp_eta :: int
  sp_message :: string

record progress_info =
  pi_task_id :: string
  pi_vm_name :: string
  pi_provider :: string
  pi_status :: progress_status
  pi_start_time :: instant
  pi_updated_time :: instant
  pi_end_time :: "instant option"
  pi_current_stage :: string
  pi_total_stages :: int
  pi_stage_index :: int
  pi_percentage :: real
  pi_export :: "stage_progress option"
  pi_conversion :: "stage_progress option"
  pi_upload :: "stage_progress option"
  pi_error :: string
  pi_warnings :: "string list"
  pi_metadata :: "(string, string) gomap"

record chan =
  ch_buffer :: "progress_info list"
  ch_closed :: bool

definition chan_capacity :: nat where
  "chan_capacity = 10"

text \<open>\<open>pt_chans\<close> are all channels made so far; a channel is its position in the list.\<close>

record progress_tracker =
  pt_tasks :: "(string, progress_info) gomap"
  pt_listeners :: "(string, nat list) gomap"
  pt_chans :: "chan list"

definition new_progress_tracker :: progress_tracker where
  "new_progress_tracker = \<lparr>pt_tasks = [], pt_listeners = [], pt_chans = []\<rparr>"

definition listeners_of :: "string \<Rightarrow> progress_tracker \<Rightarrow> nat list" where
  "listeners_of t pt = (case gm_get (pt_listeners pt) t of None \<Rightarrow> [] | Some cs \<Rightarrow> cs)"

section \<open>Channels\<close>

text \<open>The \<open>select\<close> with a default: a full channel is skipped.\<close>

definition try_send :: "progress_info \<Rightarrow> nat \<Rightarrow> chan list \<Rightarrow> chan list go_outcome" where
  "try_send i c chs =
     (if ch_closed (chs ! c) then Panics
      else if length (ch_buffer (chs ! c)) < chan_capacity
        then Returns (chs[c := (chs ! c)\<lparr>ch_buffer := ch_buffer (chs ! c) @ [i]\<rparr>])
      else Returns chs)"

fun notify_all :: "progress_info \<Rightarrow> nat list \<Rightarrow> chan list \<Rightarrow> chan list go_outcome" where
  "notify_all i [] chs = Returns chs"
| "notify_all i (c # cs) chs =
     (case try_send i c chs of Panics \<Rightarrow> Panics | Returns chs \<Rightarrow> notify_all i cs chs)"

definition close_chan :: "nat \<Rightarrow> chan list \<Rightarrow> chan list go_outcome" where
  "close_chan c chs =
     (if ch_closed (chs ! c) then Panics else Returns (chs[c := (chs ! c)\<lparr>ch_closed := True\<rparr>]))"

fun close_all :: "nat list \<Rightarrow> chan list \<Rightarrow> chan list go_outcome" where
  "close_all [] chs = Returns chs"
| "close_all (c # cs) chs =
     (case close_chan c chs of Panics \<Rightarrow> Panics | Returns chs \<Rightarrow> close_all cs chs)"

definition notify_listeners :: "string \<Rightarrow> progress_info \<Rightarrow> progress_tracker \<Rightarrow> progress_tracker go_outcome" where
  "notify_listeners t i pt =
     (case notify_all i (listeners_of t pt) (pt_chans pt) of
        Panics \<Rightarrow> Panics
      | Returns chs \<Rightarrow> Returns (pt\<lparr>pt_chans := chs\<rparr>))"

section \<open>Operations\<close>

definition new_task :: "instant \<Rightarrow> string \<Rightarrow> string \<Rightarrow> string \<Rightarrow> progress_info" where
  "new_task now t vm prov =
     \<lparr>pi_task_id = t, pi_vm_name = vm, pi_provider = prov, pi_status = status_pending,
      pi_start_time = now, pi_updated_time = now, pi_end_time = None, pi_current_stage = [],
      pi_total_stages = 3, pi_stage_index = 0, pi_percentage = 0, pi_export = None,
      pi_conversion = None, pi_upload = None, pi_error = [], pi_warnings = [], pi_metadata = []\<rparr>"

definition start_task ::
  "instant \<Rightarrow> string \<Rightarrow> string \<Rightarrow> string \<Rightarrow> progress_tracker \<Rightarrow> progress_tracker go_outcome" where
  "start_task now t vm prov pt =
     (let i = new_task now t vm prov
      in notify_listeners t i (pt\<lparr>pt_tasks := gm_put t i (pt_tasks pt)\<rparr>))"

text \<open>The answer of an update is whether the task was found.\<close>

definition pt_update_progress ::
  "instant \<Rightarrow> string \<Rightarrow> (progress_info \<Rightarrow> progress_info) \<Rightarrow> progress_tracker \<Rightarrow>
   (bool \<times> progress_tracker) go_outcome" where
  "pt_update_progress now t upd pt =
     (case gm_get (pt_tasks pt) t of
        None \<Rightarrow> Returns (False, pt)
      | Some i \<Rightarrow>
          let i = (upd i)\<lparr>pi_updated_time := now\<rparr>
          in case notify_listeners t i (pt\<lparr>pt_tasks := gm_put t i (pt_tasks pt)\<rparr>) of
               Panics \<Rightarrow> Panics
             | Returns pt \<Rightarrow> Returns (True, pt))"

definition set_status :: "progress_status \<Rightarrow> progress_info \<Rightarrow> progress_info" where
  "set_status st i = i\<lparr>pi_status := st\<rparr>"

definition set_stage :: "string \<Rightarrow> int \<Rightarrow> progress_info \<Rightarrow> progress_info" where
  "set_stage st n i = i\<lparr>pi_current_stage := st, pi_stage_index := n\<rparr>"

definition set_percentage :: "real \<Rightarrow> progress_info \<Rightarrow> progress_info" where
  "set_percentage p i = i\<lparr>pi_percentage := p\<rparr>"

definition set_export_progress :: "stage_progress option \<Rightarrow> progress_info \<Rightarrow> progress_info" where
  "set_export_progress sp i = i\<lparr>pi_export := sp, pi_status := status_exporting\<rparr>"

definition set_conversion_progress :: "stage_progress option \<Rightarrow> progress_info \<Rightarrow> progress_info" where
  "set_conversion_progress sp i = i\<lparr>pi_conversion := sp, pi_status := status_converting\<rparr>"

definition set_upload_progress :: "stage_progress option \<Rightarrow> progress_info \<Rightarrow> progress_info" where
  "set_upload_progress sp i = i\<lparr>pi_upload := sp, pi_status := status_uploading\<rparr>"

definition complete_task :: "instant \<Rightarrow> progress_info \<Rightarrow> progress_info" where
  "complete_task now i =
     i\<lparr>pi_status := status_completed, pi_end_time := Some now, pi_percentage := 100\<rparr>"

definition fail_task :: "instant \<Rightarrow> string \<Rightarrow> progress_info \<Rightarrow> progress_info" where
  "fail_task now err i =
     i\<lparr>pi_status := status_failed, pi_end_time := Some now, pi_error := err\<rparr>"

definition pt_add_warning :: "string \<Rightarrow> progress_info \<Rightarrow> progress_info" where
  "pt_add_warning w i = i\<lparr>pi_warnings := pi_warnings i @ [w]\<rparr>"

definition get_task_progress :: "string \<Rightarrow> progress_tracker \<Rightarrow> progress_info option" where
  "get_task_progress t pt = gm_get (pt_tasks pt) t"

definition get_all_progress :: "progress_tracker \<Rightarrow> progress_info list" where
  "get_all_progress pt = map snd (pt_tasks pt)"

definition subscribe :: "string \<Rightarrow> progress_tracker \<Rightarrow> nat \<times> progress_tracker" where
  "subscribe t pt =
     (let c = length (pt_chans pt)
      in (c, pt\<lparr>pt_chans := pt_chans pt @ [\<lparr>ch_buffer = [], ch_closed = False\<rparr>],
                pt_listeners := gm_put t (listeners_of t pt @ [c]) (pt_listeners pt)\<rparr>))"

definition unsubscribe :: "string \<Rightarrow> nat \<Rightarrow> progress_tracker \<Rightarrow> progress_tracker go_outcome" where
  "unsubscribe t c pt =
     (if List.member (listeners_of t pt) c
      then (case close_chan c (pt_chans pt) of
              Panics \<Rightarrow> Panics
            | Returns chs \<Rightarrow>
                Returns (pt\<lparr>pt_chans := chs,
                  pt_listeners := gm_put t (remove1 c (listeners_of t pt)) (pt_listeners pt)\<rparr>))
      else Returns pt)"

definition remove_task :: "string \<Rightarrow> progress_tracker \<Rightarrow> progress_tracker go_outcome" where
  "remove_task t pt =
     (case close_all (listeners_of t pt) (pt_chans pt) of
        Panics \<Rightarrow> Panics
      | Returns chs \<Rightarrow>
          Returns (pt\<lparr>pt_tasks := gm_del t (pt_tasks pt), pt_chans := chs,
                     pt_listeners := gm_del t (pt_listeners pt)\<rparr>))"

text \<open>
  What the stream handler does with its channel: it takes the next update, or sees that the
  channel was closed and has been emptied; otherwise it waits.
\<close>

datatype received = Update progress_info | StreamEnded | Waiting

definition receive :: "nat \<Rightarrow> progress_tracker \<Rightarrow> received \<times> progress_tracker" where
  "receive c pt =
     (case ch_buffer (pt_chans pt ! c) of
        i # is \<Rightarrow> (Update i, pt\<lparr>pt_chans := (pt_chans pt)[c := (pt_chans pt ! c)\<lparr>ch_buffer := is\<rparr>]\<rparr>)
      | [] \<Rightarrow> (if ch_closed (pt_chans pt ! c) then StreamEnded else Waiting, pt))"

section \<open>Runs\<close>

datatype tracker_request =
    StartTask instant string string string
  | UpdateTask instant string "progress_info \<Rightarrow> progress_info"
  | Subscribe string
  | Unsubscribe string nat
  | RemoveTask string
  | Receive nat

definition snd_outcome :: "('a \<times> 'b) go_outcome \<Rightarrow> 'b go_outcome" where
  "snd_outcome r = (case r of Panics \<Rightarrow> Panics | Returns (a, b) \<Rightarrow> Returns b)"

text \<open>Nobody can receive from a channel that was never made.\<close>

fun tracker_exec :: "tracker_request \<Rightarrow> progress_tracker \<Rightarrow> progress_tracker go_outcome" where
  "tracker_exec (StartTask now t vm prov) pt = start_task now t vm prov pt"
| "tracker_exec (UpdateTask now t upd) pt = snd_outcome (pt_update_progress now t upd pt)"
| "tracker_exec (Subscribe t) pt = Returns (snd (subscribe t pt))"
| "tracker_exec (Unsubscribe t c) pt = unsubscribe t c pt"
| "tracker_exec (RemoveTask t) pt = remove_task t pt"
| "tracker_exec (Receive c) pt =
     Returns (if c < length (pt_chans pt) then snd (receive c pt) else pt)"

fun tracker_run :: "tracker_request list \<Rightarrow> progress_tracker \<Rightarrow> progress_tracker go_outcome" where
  "tracker_run [] pt = Returns pt"
| "tracker_run (q # qs) pt =
     (case tracker_exec q pt of Panics \<Rightarrow> Panics | Returns pt \<Rightarrow> tracker_run qs pt)"

text \<open>The states of a task that a run publishes, and what it takes from a channel.\<close>

fun published :: "string \<Rightarrow> tracker_request \<Rightarrow> progress_tracker \<Rightarrow> progress_info list" where
  "published t (StartTask now t' vm prov) pt = (if t' = t then [new_task now t vm prov] else [])"
| "published t (UpdateTask now t' upd) pt =
     (if t' = t
      then (case gm_get (pt_tasks pt) t of None \<Rightarrow> [] | Some i \<Rightarrow> [(upd i)\<lparr>pi_updated_time := now\<rparr>])
      else [])"
| "published t _ pt = []"

fun taken :: "nat \<Rightarrow> tracker_request \<Rightarrow> progress_tracker \<Rightarrow> progress_info list" where
  "taken c (Receive c') pt =
     (if c' = c \<and> c < length (pt_chans pt)
      then (case fst (receive c pt) of Update i \<Rightarrow> [i] | _ \<Rightarrow> []) else [])"
| "taken c _ pt = []"

fun collect_run ::
  "(tracker_request \<Rightarrow> progress_tracker \<Rightarrow> progress_info list) \<Rightarrow> tracker_request list \<Rightarrow>
   progress_tracker \<Rightarrow> progress_info list" where
  "collect_run f [] pt = []"
| "collect_run f (q # qs) pt =
     f q pt @ (case tracker_exec q pt of Panics \<Rightarrow> [] | Returns pt \<Rightarrow> collect_run f qs pt)"

section \<open>The channels stay in order\<close>

definition chan_of :: "nat \<Rightarrow> progress_tracker \<Rightarrow> chan" where
  "chan_of c pt = pt_chans pt ! c"

definition listening :: "progress_tracker \<Rightarrow> nat \<Rightarrow> string \<Rightarrow> bool" where
  "listening pt c t \<longleftrightarrow> c \<in> set (listeners_of t pt)"

definition tracker_ok :: "progress_tracker \<Rightarrow> bool" where
  "tracker_ok pt \<longleftrightarrow> (\<forall>t. distinct (listeners_of t pt)) \<and>
     (\<forall>t c. listening pt c t \<longrightarrow> c < length (pt_chans pt) \<and> \<not> ch_closed (chan_of c pt) \<and>
        (\<forall>t'. listening pt c t' \<longrightarrow> t' = t))"

lemma listeners_of_put:
  "listeners_of t (pt\<lparr>pt_listeners := gm_put t' cs (pt_listeners pt)\<rparr>) =
     (if t = t' then cs else listeners_of t pt)"
  by (simp add: listeners_of_def map_ops)

lemma listeners_of_del:
  "listeners_of t (pt\<lparr>pt_listeners := gm_del t' (pt_listeners pt)\<rparr>) =
     (if t = t' then [] else listeners_of t pt)"
  by (simp add: listeners_of_def map_ops)

lemma listeners_of_other [simp]:
  "listeners_of t (pt\<lparr>pt_tasks := ts\<rparr>) = listeners_of t pt"
  "listeners_of t (pt\<lparr>pt_chans := chs\<rparr>) = listeners_of t pt"
  by (simp_all add: listeners_of_def)

text \<open>What a notification does: every open listed channel with room gets the state.\<close>

definition sent :: "progress_info \<Rightarrow> nat set \<Rightarrow> chan list \<Rightarrow> chan list" where
  "sent i C chs = map (\<lambda>c. let ch = chs ! c in
     if c \<in> C \<and> length (ch_buffer ch) < chan_capacity then ch\<lparr>ch_buffer := ch_buffer ch @ [i]\<rparr> else ch)
     [0..<length chs]"

lemma length_sent [simp]: "length (sent i C chs) = length chs"
  by (simp add: sent_def)

lemma sent_nth:
  "c < length chs \<Longrightarrow> sent i C chs ! c =
     (if c \<in> C \<and> length (ch_buffer (chs ! c)) < chan_capacity
      then (chs ! c)\<lparr>ch_buffer := ch_buffer (chs ! c) @ [i]\<rparr> else chs ! c)"
  by (simp add: sent_def Let_def)

lemma notify_all_sent:
  assumes "distinct cs" and "\<forall>c \<in> set cs. c < length chs \<and> \<not> ch_closed (chs ! c)"
  shows "notify_all i cs chs = Returns (sent i (set cs) chs)"
  using assms
proof (induction cs arbitrary: chs)
  case Nil
  show ?case by (simp add: sent_def map_nth)
next
  case (Cons c cs)
  define chs' where "chs' = (if length (ch_buffer (chs ! c)) < chan_capacity
    then chs[c := (chs ! c)\<lparr>ch_buffer := ch_buffer (chs ! c) @ [i]\<rparr>] else chs)"
  have t: "try_send i c chs = Returns chs'" using Cons.prems by (simp add: try_send_def chs'_def)
  have len: "length chs' = length chs" by (simp add: chs'_def)
  have nth: "chs' ! d = (if d = c \<and> length (ch_buffer (chs ! c)) < chan_capacity
      then (chs ! c)\<lparr>ch_buffer := ch_buffer (chs ! c) @ [i]\<rparr> else chs ! d)" for d
    using Cons.prems by (simp add: chs'_def nth_list_update)
  have "\<forall>d \<in> set cs. d < length chs' \<and> \<not> ch_closed (chs' ! d)"
    using Cons.prems by (auto simp: len nth)
  then have n: "notify_all i cs chs' = Returns (sent i (set cs) chs')"
    using Cons.IH Cons.prems(1) by simp
  have "sent i (set cs) chs' = sent i (set (c # cs)) chs"
    using Cons.prems by (intro nth_equalityI) (auto simp: sent_nth len nth)
  with t n show ?case by simp
qed

definition all_closed :: "nat set \<Rightarrow> chan list \<Rightarrow> chan list" where
  "all_closed C chs = map (\<lambda>c. if c \<in> C then (chs ! c)\<lparr>ch_closed := True\<rparr> else chs ! c) [0..<length chs]"

lemma length_all_closed [simp]: "length (all_closed C chs) = length chs"
  by (simp add: all_closed_def)

lemma all_closed_nth:
  "c < length chs \<Longrightarrow> all_closed C chs ! c =
     (if c \<in> C then (chs ! c)\<lparr>ch_closed := True\<rparr> else chs ! c)"
  by (simp add: all_closed_def)

lemma close_all_closed:
  assumes "distinct cs" and "\<forall>c \<in> set cs. c < length chs \<and> \<not> ch_closed (chs ! c)"
  shows "close_all cs chs = Returns (all_closed (set cs) chs)"
  using assms
proof (induction cs arbitrary: chs)
  case Nil
  show ?case by (simp add: all_closed_def map_nth)
next
  case (Cons c cs)
  define chs' where "chs' = chs[c := (chs ! c)\<lparr>ch_closed := True\<rparr>]"
  have t: "close_chan c chs = Returns chs'" using Cons.prems by (simp add: close_chan_def chs'_def)
  have "\<forall>d \<in> set cs. d < length chs' \<and> \<not> ch_closed (chs' ! d)"
    using Cons.prems by (auto simp: chs'_def nth_list_update)
  then have n: "close_all cs chs' = Returns (all_closed (set cs) chs')"
    using Cons.IH Cons.prems(1) by simp
  have "all_closed (set cs) chs' = all_closed (set (c # cs)) chs"
    using Cons.prems by (intro nth_equalityI) (auto simp: all_closed_nth chs'_def nth_list_update)
  with t n show ?case by simp
qed

text \<open>Each operation on a tracker in order, written as one update of the channels.\<close>

lemma notify_listeners_ok:
  assumes "tracker_ok pt"
  shows "notify_listeners t i pt =
     Returns (pt\<lparr>pt_chans := sent i (set (listeners_of t pt)) (pt_chans pt)\<rparr>)"
proof -
  have "distinct (listeners_of t pt)"
    "\<forall>c \<in> set (listeners_of t pt). c < length (pt_chans pt) \<and> \<not> ch_closed (pt_chans pt ! c)"
    using assms by (auto simp: tracker_ok_def listening_def chan_of_def)
  from notify_all_sent [OF this] show ?thesis by (simp add: notify_listeners_def)
qed

lemma tracker_ok_tasks [simp]: "tracker_ok (pt\<lparr>pt_tasks := ts\<rparr>) = tracker_ok pt"
  by (simp add: tracker_ok_def listening_def chan_of_def)

lemma tracker_ok_sent [simp]:
  assumes "tracker_ok pt"
  shows "tracker_ok (pt\<lparr>pt_chans := sent i C (pt_chans pt)\<rparr>)"
  using assms by (auto simp: tracker_ok_def listening_def chan_of_def sent_nth)

lemma start_task_ok:
  assumes "tracker_ok pt"
  shows "start_task now t vm prov pt =
     Returns (pt\<lparr>pt_tasks := gm_put t (new_task now t vm prov) (pt_tasks pt),
       pt_chans := sent (new_task now t vm prov) (set (listeners_of t pt)) (pt_chans pt)\<rparr>)"
  using assms notify_listeners_ok [of "pt\<lparr>pt_tasks := gm_put t (new_task now t vm prov) (pt_tasks pt)\<rparr>"]
  by (simp add: start_task_def Let_def)

lemma update_progress_ok:
  assumes "tracker_ok pt" and "gm_get (pt_tasks pt) t = Some i"
  shows "pt_update_progress now t upd pt =
     Returns (True, pt\<lparr>pt_tasks := gm_put t ((upd i)\<lparr>pi_updated_time := now\<rparr>) (pt_tasks pt),
       pt_chans := sent ((upd i)\<lparr>pi_updated_time := now\<rparr>) (set (listeners_of t pt)) (pt_chans pt)\<rparr>)"
  using assms notify_listeners_ok
    [of "pt\<lparr>pt_tasks := gm_put t ((upd i)\<lparr>pi_updated_time := now\<rparr>) (pt_tasks pt)\<rparr>"]
  by (simp add: pt_update_progress_def Let_def)

lemma unsubscribe_ok:
  assumes "tracker_ok pt" and "listening pt c t"
  shows "unsubscribe t c pt =
     Returns (pt\<lparr>pt_chans := all_closed {c} (pt_chans pt),
       pt_listeners := gm_put t (remove1 c (listeners_of t pt)) (pt_listeners pt)\<rparr>)"
proof -
  have "c < length (pt_chans pt)" "\<not> ch_closed (pt_chans pt ! c)"
    using assms by (auto simp: tracker_ok_def chan_of_def)
  with close_all_closed [of "[c]" "pt_chans pt"] assms(2) show ?thesis
    by (auto simp: unsubscribe_def listening_def List.member_iff split: go_outcome.splits)
qed

lemma remove_task_ok:
  assumes "tracker_ok pt"
  shows "remove_task t pt =
     Returns (pt\<lparr>pt_tasks := gm_del t (pt_tasks pt),
       pt_chans := all_closed (set (listeners_of t pt)) (pt_chans pt),
       pt_listeners := gm_del t (pt_listeners pt)\<rparr>)"
proof -
  have "distinct (listeners_of t pt)"
    "\<forall>c \<in> set (listeners_of t pt). c < length (pt_chans pt) \<and> \<not> ch_closed (pt_chans pt ! c)"
    using assms by (auto simp: tracker_ok_def listening_def chan_of_def)
  from close_all_closed [OF this] show ?thesis by (simp add: remove_task_def)
qed

text \<open>A channel as its owner sees it: what one step does to it.\<close>

definition owned :: "string \<Rightarrow> nat \<Rightarrow> progress_tracker \<Rightarrow> bool" where
  "owned t c pt \<longleftrightarrow> c < length (pt_chans pt) \<and> (ch_closed (chan_of c pt) \<or> listening pt c t)"

definition step_right :: "tracker_request \<Rightarrow> progress_tracker \<Rightarrow> progress_tracker \<Rightarrow> bool" where
  "step_right q pt pt' \<longleftrightarrow> tracker_ok pt' \<and>
     (\<forall>c t. owned t c pt \<longrightarrow> owned t c pt' \<and>
        (ch_closed (chan_of c pt) \<longrightarrow> ch_closed (chan_of c pt')) \<and>
        taken c q pt @ ch_buffer (chan_of c pt') = ch_buffer (chan_of c pt) @
          (if \<not> ch_closed (chan_of c pt) \<and> length (ch_buffer (chan_of c pt)) < chan_capacity
           then published t q pt else []))"

lemma owned_sent [simp]:
  "owned t c (pt\<lparr>pt_tasks := ts, pt_chans := sent i C (pt_chans pt)\<rparr>) = owned t c pt"
  by (auto simp: owned_def listening_def chan_of_def sent_nth split: if_splits)

lemma chan_of_sent:
  "c < length (pt_chans pt) \<Longrightarrow>
   chan_of c (pt\<lparr>pt_tasks := ts, pt_chans := sent i C (pt_chans pt)\<rparr>) =
     (if c \<in> C \<and> length (ch_buffer (chan_of c pt)) < chan_capacity
      then (chan_of c pt)\<lparr>ch_buffer := ch_buffer (chan_of c pt) @ [i]\<rparr> else chan_of c pt)"
  by (simp add: chan_of_def sent_nth)

lemma tracker_ok_sent' [simp]:
  "tracker_ok pt \<Longrightarrow> tracker_ok (pt\<lparr>pt_tasks := ts, pt_chans := sent i C (pt_chans pt)\<rparr>)"
  by (auto simp: tracker_ok_def listening_def chan_of_def sent_nth)

lemma owned_listening:
  assumes "tracker_ok pt" and "owned t c pt"
  shows "c \<in> set (listeners_of t' pt) \<longleftrightarrow> t' = t \<and> \<not> ch_closed (chan_of c pt)"
  using assms unfolding tracker_ok_def owned_def listening_def by blast

lemma send_right:
  assumes ok: "tracker_ok pt" and "\<And>c. taken c q pt = []"
    and "\<And>t. published t q pt = (if t' = t then [i] else [])"
  shows "step_right q pt (pt\<lparr>pt_tasks := ts, pt_chans := sent i (set (listeners_of t' pt)) (pt_chans pt)\<rparr>)"
proof -
  let ?pt = "pt\<lparr>pt_tasks := ts, pt_chans := sent i (set (listeners_of t' pt)) (pt_chans pt)\<rparr>"
  have "(ch_closed (chan_of c pt) \<longrightarrow> ch_closed (chan_of c ?pt)) \<and>
      ch_buffer (chan_of c ?pt) = ch_buffer (chan_of c pt) @
        (if \<not> ch_closed (chan_of c pt) \<and> length (ch_buffer (chan_of c pt)) < chan_capacity
         then published t q pt else [])" if o: "owned t c pt" for c t
    using o owned_listening [OF ok o, of t'] by (simp add: assms(3) chan_of_sent owned_def)
  with ok assms(2) show ?thesis by (simp add: step_right_def)
qed

lemma subscribe_right:
  assumes ok: "tracker_ok pt"
  shows "step_right (Subscribe t') pt (snd (subscribe t' pt))"
proof -
  let ?pt = "snd (subscribe t' pt)" and ?n = "length (pt_chans pt)"
  have l: "listeners_of t ?pt = listeners_of t pt @ (if t = t' then [?n] else [])" for t
    by (simp add: subscribe_def Let_def listeners_of_def map_ops)
  have c: "chan_of c ?pt = (if c < ?n then chan_of c pt else \<lparr>ch_buffer = [], ch_closed = False\<rparr>)"
    if "c \<le> ?n" for c
    using that by (auto simp: subscribe_def Let_def chan_of_def nth_append)
  have n: "length (pt_chans ?pt) = Suc ?n" by (simp add: subscribe_def Let_def)
  have old: "c < ?n \<and> \<not> ch_closed (chan_of c pt) \<and> (\<forall>t'. listening pt c t' \<longrightarrow> t' = t)"
    if "listening pt c t" for c t
    using ok that by (auto simp: tracker_ok_def)
  have new: "\<not> listening pt ?n t" for t using old [of ?n t] by blast
  have li: "listening ?pt c t \<longleftrightarrow> listening pt c t \<or> t = t' \<and> c = ?n" for c t
    by (auto simp: listening_def l)
  have "distinct (listeners_of t ?pt)" for t
    using ok new [of t] by (auto simp: l tracker_ok_def listening_def)
  moreover have "c < Suc ?n \<and> \<not> ch_closed (chan_of c ?pt) \<and> (\<forall>t''. listening ?pt c t'' \<longrightarrow> t'' = t)"
    if "listening ?pt c t" for c t
    using that old [of c t] new c [of c] by (auto simp: li)
  ultimately have "tracker_ok ?pt" by (simp add: tracker_ok_def n)
  moreover have "owned t c ?pt \<and> chan_of c ?pt = chan_of c pt" if "owned t c pt" for t c
    using that c [of c] by (auto simp: owned_def n li)
  ultimately show ?thesis by (simp add: step_right_def)
qed

text \<open>Closing the channels of a list and taking them off the lists.\<close>

lemma close_right:
  assumes ok: "tracker_ok pt" and "\<And>c. taken c q pt = []" and "\<And>t. published t q pt = []"
    and chans: "pt_chans pt' = all_closed C (pt_chans pt)"
    and gone: "\<And>c t. listening pt' c t \<longleftrightarrow> listening pt c t \<and> c \<notin> C"
    and dist: "\<And>t. distinct (listeners_of t pt')"
  shows "step_right q pt pt'"
proof -
  have c: "chan_of c pt' = (if c \<in> C then (chan_of c pt)\<lparr>ch_closed := True\<rparr> else chan_of c pt)"
    if "c < length (pt_chans pt)" for c
    using that by (simp add: chan_of_def chans all_closed_nth)
  have len: "length (pt_chans pt') = length (pt_chans pt)" by (simp add: chans)
  have old: "c < length (pt_chans pt) \<and> \<not> ch_closed (chan_of c pt) \<and> (\<forall>t'. listening pt c t' \<longrightarrow> t' = t)"
    if "listening pt c t" for c t
    using ok that by (auto simp: tracker_ok_def)
  have "c < length (pt_chans pt') \<and> \<not> ch_closed (chan_of c pt') \<and>
      (\<forall>t''. listening pt' c t'' \<longrightarrow> t'' = t)" if "listening pt' c t" for c t
    using that old [of c t] c [of c] by (auto simp: gone len)
  then have "tracker_ok pt'" using dist by (simp add: tracker_ok_def)
  moreover have "owned t c pt' \<and> (ch_closed (chan_of c pt) \<longrightarrow> ch_closed (chan_of c pt')) \<and>
      ch_buffer (chan_of c pt') = ch_buffer (chan_of c pt)" if "owned t c pt" for t c
    using that c [of c] by (auto simp: owned_def gone len)
  ultimately show ?thesis using assms(2,3) by (simp add: step_right_def)
qed

lemma receive_right:
  assumes ok: "tracker_ok pt" and d: "d < length (pt_chans pt)"
  shows "step_right (Receive d) pt (snd (receive d pt))"
proof (cases "ch_buffer (chan_of d pt)")
  case Nil
  then have "snd (receive d pt) = pt" "\<And>c. taken c (Receive d) pt = []"
    by (auto simp: receive_def chan_of_def)
  with ok show ?thesis by (simp add: step_right_def)
next
  case (Cons i rest)
  let ?pt = "snd (receive d pt)"
  have r: "receive d pt =
      (Update i, pt\<lparr>pt_chans := (pt_chans pt)[d := (chan_of d pt)\<lparr>ch_buffer := rest\<rparr>]\<rparr>)"
    using Cons by (simp add: receive_def chan_of_def)
  then have c: "chan_of c ?pt = (if c = d then (chan_of d pt)\<lparr>ch_buffer := rest\<rparr> else chan_of c pt)"
    and li: "listeners_of t ?pt = listeners_of t pt" for c t
    using d by (simp_all add: chan_of_def nth_list_update)
  have len: "length (pt_chans ?pt) = length (pt_chans pt)" by (simp add: r)
  have "tracker_ok ?pt" using ok by (auto simp: tracker_ok_def listening_def c li len)
  moreover have "taken c (Receive d) pt = (if c = d then [i] else [])" for c using d r by simp
  ultimately show ?thesis
    using Cons
    by (simp del: taken.simps add: step_right_def owned_def listening_def c li len)
qed

lemma tracker_step:
  assumes ok: "tracker_ok pt"
  shows "\<exists>pt'. tracker_exec q pt = Returns pt' \<and> step_right q pt pt'"
proof (cases q)
  case (StartTask now t vm prov)
  with send_right [OF ok] show ?thesis by (simp add: start_task_ok [OF ok])
next
  case (UpdateTask now t upd)
  show ?thesis
  proof (cases "gm_get (pt_tasks pt) t")
    case None
    with UpdateTask ok show ?thesis
      by (simp add: step_right_def pt_update_progress_def snd_outcome_def)
  next
    case (Some i)
    let ?i = "(upd i)\<lparr>pi_updated_time := now\<rparr>"
    have "step_right q pt (pt\<lparr>pt_tasks := gm_put t ?i (pt_tasks pt),
        pt_chans := sent ?i (set (listeners_of t pt)) (pt_chans pt)\<rparr>)"
      by (rule send_right [OF ok]) (auto simp: UpdateTask Some)
    with UpdateTask show ?thesis by (simp add: update_progress_ok [OF ok Some] snd_outcome_def)
  qed
next
  case (Subscribe t)
  with subscribe_right [OF ok] show ?thesis by simp
next
  case (Unsubscribe t c)
  show ?thesis
  proof (cases "listening pt c t")
    case False
    then have "unsubscribe t c pt = Returns pt"
      by (simp add: unsubscribe_def listening_def List.member_iff)
    with Unsubscribe ok show ?thesis by (simp add: step_right_def)
  next
    case True
    let ?pt = "pt\<lparr>pt_chans := all_closed {c} (pt_chans pt),
       pt_listeners := gm_put t (remove1 c (listeners_of t pt)) (pt_listeners pt)\<rparr>"
    have l: "listeners_of t' ?pt = (if t' = t then remove1 c (listeners_of t pt) else listeners_of t' pt)" for t'
      by (simp add: listeners_of_def map_ops)
    have dist: "distinct (listeners_of t' pt)" for t' using ok by (simp add: tracker_ok_def)
    have "t' = t" if "listening pt c t'" for t' using ok True that unfolding tracker_ok_def by blast
    then have "step_right q pt ?pt"
      by (intro close_right [OF ok, of _ _ "{c}"])
        (auto simp: Unsubscribe l listening_def dist set_remove1_eq distinct_remove1)
    with Unsubscribe show ?thesis by (simp add: unsubscribe_ok [OF ok True])
  qed
next
  case (RemoveTask t)
  let ?pt = "pt\<lparr>pt_tasks := gm_del t (pt_tasks pt),
     pt_chans := all_closed (set (listeners_of t pt)) (pt_chans pt),
     pt_listeners := gm_del t (pt_listeners pt)\<rparr>"
  have l: "listeners_of t' ?pt = (if t' = t then [] else listeners_of t' pt)" for t'
    by (simp add: listeners_of_def map_ops)
  have dist: "distinct (listeners_of t' pt)" for t' using ok by (simp add: tracker_ok_def)
  have uniq: "t' = t''" if "listening pt c t'" "listening pt c t''" for c t' t''
    using ok that unfolding tracker_ok_def by blast
  have "step_right q pt ?pt"
    by (intro close_right [OF ok, of _ _ "set (listeners_of t pt)"])
      (auto simp: RemoveTask l listening_def dist dest: uniq [unfolded listening_def])
  with RemoveTask show ?thesis by (simp add: remove_task_ok [OF ok])
next
  case (Receive c)
  show ?thesis
  proof (cases "c < length (pt_chans pt)")
    case True
    with Receive receive_right [OF ok True] show ?thesis by simp
  next
    case False
    have "taken d (Receive c) pt = []" if "d < length (pt_chans pt)" for d using False that by auto
    with False Receive ok show ?thesis by (auto simp: step_right_def owned_def)
  qed
qed

section \<open>What listeners see\<close>

lemma tracker_ok_new: "tracker_ok new_progress_tracker"
  by (simp add: tracker_ok_def new_progress_tracker_def listening_def listeners_of_def)

lemma tracker_run_returns:
  "tracker_ok pt \<Longrightarrow> \<exists>pt'. tracker_run qs pt = Returns pt' \<and> tracker_ok pt'"
proof (induction qs arbitrary: pt)
  case (Cons q qs)
  obtain pt' where "tracker_exec q pt = Returns pt'" "tracker_ok pt'"
    using tracker_step [OF Cons.prems, of q] by (auto simp: step_right_def)
  with Cons.IH show ?case by simp
qed simp

lemma closed_stays_closed:
  "tracker_ok pt \<Longrightarrow> owned t c pt \<Longrightarrow> ch_closed (chan_of c pt) \<Longrightarrow> tracker_run qs pt = Returns pt' \<Longrightarrow>
   ch_closed (chan_of c pt')"
proof (induction qs arbitrary: pt)
  case (Cons q qs)
  obtain p1 where "tracker_exec q pt = Returns p1" "step_right q pt p1"
    using tracker_step [OF Cons.prems(1), of q] by blast
  then have "tracker_ok p1" "owned t c p1" "ch_closed (chan_of c p1)" "tracker_run qs p1 = Returns pt'"
    using Cons.prems by (simp_all add: step_right_def)
  then show ?case by (rule Cons.IH)
qed simp

lemma delivery:
  assumes "tracker_ok pt" and "owned t c pt" and "tracker_run qs pt = Returns pt'"
  shows "subseq (collect_run (taken c) qs pt @ ch_buffer (chan_of c pt'))
           (ch_buffer (chan_of c pt) @ collect_run (published t) qs pt) \<and>
    (\<not> ch_closed (chan_of c pt') \<longrightarrow>
       length (ch_buffer (chan_of c pt)) + length (collect_run (published t) qs pt) \<le> chan_capacity \<longrightarrow>
       collect_run (taken c) qs pt @ ch_buffer (chan_of c pt') =
         ch_buffer (chan_of c pt) @ collect_run (published t) qs pt)"
  using assms
proof (induction qs arbitrary: pt)
  case (Cons q qs)
  obtain p1 where p1: "tracker_exec q pt = Returns p1" and r: "step_right q pt p1"
    using tracker_step [OF Cons.prems(1), of q] by blast
  let ?buf = "ch_buffer (chan_of c pt)" and ?buf1 = "ch_buffer (chan_of c p1)"
  let ?new = "if \<not> ch_closed (chan_of c pt) \<and> length ?buf < chan_capacity then published t q pt else []"
  let ?T = "collect_run (taken c) qs p1" and ?P = "collect_run (published t) qs p1"
  have eq: "taken c q pt @ ?buf1 = ?buf @ ?new" and ok1: "tracker_ok p1" and own1: "owned t c p1"
    using r Cons.prems(2) by (simp_all add: step_right_def)
  have run: "tracker_run qs p1 = Returns pt'" using Cons.prems(3) p1 by simp
  note ih = Cons.IH [OF ok1 own1 run]
  have new: "subseq ?new (published t q pt)" by simp
  have "subseq (taken c q pt @ ?T @ ch_buffer (chan_of c pt')) (taken c q pt @ ?buf1 @ ?P)"
    using conjunct1 [OF ih] by (simp only: subseq_append')
  also have "taken c q pt @ ?buf1 @ ?P = ?buf @ ?new @ ?P" using eq by (metis append.assoc)
  also have "subseq (?buf @ ?new @ ?P) (?buf @ published t q pt @ ?P)"
    using new by (intro list_emb_append_mono) simp_all
  finally have sub: "subseq (taken c q pt @ ?T @ ch_buffer (chan_of c pt'))
      (?buf @ published t q pt @ ?P)" .
  have "taken c q pt @ ?T @ ch_buffer (chan_of c pt') = ?buf @ published t q pt @ ?P"
    if op: "\<not> ch_closed (chan_of c pt')"
      and len: "length ?buf + length (published t q pt @ ?P) \<le> chan_capacity"
  proof -
    have op0: "\<not> ch_closed (chan_of c pt)"
      using closed_stays_closed [OF Cons.prems(1,2) _ Cons.prems(3)] op by blast
    have "length ?buf < chan_capacity \<or> published t q pt = []" using len by (cases "published t q pt") auto
    with op0 have n: "?new = published t q pt" by auto
    have "length ?buf1 + length ?P \<le> chan_capacity"
      using len arg_cong [OF eq, of length] by (simp add: n)
    with ih op have "?T @ ch_buffer (chan_of c pt') = ?buf1 @ ?P" by blast
    then have "taken c q pt @ ?T @ ch_buffer (chan_of c pt') = (taken c q pt @ ?buf1) @ ?P" by simp
    also have "\<dots> = ?buf @ published t q pt @ ?P" by (simp only: eq n append_assoc)
    finally show ?thesis .
  qed
  with sub p1 show ?case by simp
qed simp

text \<open>
  C19: Whatever clients and handlers do, the tracker never sends on a closed channel nor closes one
  twice.  What a listener takes from its channel and what is still in it are states of its task
  published since it subscribed, in the order of the updates, each at most once; nothing is lost
  as long as the channel is open and no more than ten states were published in all.
\<close>

theorem listeners_see_updates:
  "\<exists>pt0. tracker_run qs0 new_progress_tracker = Returns pt0 \<and>
     (let (c, pt) = subscribe t pt0
      in \<exists>pt'. tracker_run qs pt = Returns pt' \<and>
           subseq (collect_run (taken c) qs pt @ ch_buffer (chan_of c pt'))
             (collect_run (published t) qs pt) \<and>
           (\<not> ch_closed (chan_of c pt') \<longrightarrow>
              length (collect_run (published t) qs pt) \<le> 10 \<longrightarrow>
              collect_run (taken c) qs pt @ ch_buffer (chan_of c pt') =
                collect_run (published t) qs pt))"
proof -
  obtain pt0 where pt0: "tracker_run qs0 new_progress_tracker = Returns pt0" "tracker_ok pt0"
    using tracker_run_returns [OF tracker_ok_new] by blast
  obtain c pt where sub: "subscribe t pt0 = (c, pt)" by fastforce
  have ok: "tracker_ok pt" using subscribe_right [OF pt0(2), of t] sub by (simp add: step_right_def)
  have c: "ch_buffer (chan_of c pt) = []" "owned t c pt"
    using sub by (auto simp: subscribe_def Let_def chan_of_def owned_def listening_def listeners_of_def map_ops)
  obtain pt' where run: "tracker_run qs pt = Returns pt'" using tracker_run_returns [OF ok] by blast
  from delivery [OF ok c(2) run] pt0(1) run show ?thesis
    by (simp add: sub c(1) chan_capacity_def)
qed

theorem listeners_see_updates_witness:
  "\<exists>pt0 pt'. tracker_run [StartTask 1 ''t'' ''vm'' ''aws''] new_progress_tracker = Returns pt0 \<and>
     tracker_run [UpdateTask 2 ''t'' (complete_task 2), Receive 0] (snd (subscribe ''t'' pt0)) = Returns pt' \<and>
     collect_run (taken 0) [UpdateTask 2 ''t'' (complete_task 2), Receive 0] (snd (subscribe ''t'' pt0)) =
       [complete_task 2 (new_task 1 ''t'' ''vm'' ''aws'')\<lparr>pi_updated_time := 2\<rparr>]"
proof -
  let ?qa = "[StartTask 1 ''t'' ''vm'' ''aws'']"
  let ?q = "[UpdateTask 2 ''t'' (complete_task 2), Receive 0]"
  let ?i = "new_task 1 ''t'' ''vm'' ''aws''"
  let ?j = "complete_task 2 ?i\<lparr>pi_updated_time := 2\<rparr>"
  let ?pa = "\<lparr>pt_tasks = [(''t'', ?i)], pt_listeners = [], pt_chans = []\<rparr>"
  let ?pc = "\<lparr>pt_tasks = [(''t'', ?j)], pt_listeners = [(''t'', [0])],
     pt_chans = [\<lparr>ch_buffer = [], ch_closed = False\<rparr>]\<rparr>"
  have p0: "tracker_run ?qa new_progress_tracker = Returns ?pa"
    by (simp add: start_task_def notify_listeners_def listeners_of_def new_progress_tracker_def)
  have s: "subscribe ''t'' ?pa = (0, \<lparr>pt_tasks = [(''t'', ?i)], pt_listeners = [(''t'', [0])],
     pt_chans = [\<lparr>ch_buffer = [], ch_closed = False\<rparr>]\<rparr>)" (is "_ = (0, ?pb)")
    by (simp add: subscribe_def listeners_of_def)
  have run: "tracker_run ?q ?pb = Returns ?pc"
    by (simp add: pt_update_progress_def notify_listeners_def listeners_of_def snd_outcome_def
        try_send_def chan_capacity_def receive_def Let_def)
  have "collect_run (published ''t'') ?q ?pb = [?j]"
    by (simp add: pt_update_progress_def notify_listeners_def listeners_of_def snd_outcome_def
        try_send_def chan_capacity_def Let_def)
  with listeners_see_updates [of ?qa "''t''" ?q] p0 s run show ?thesis
    by (simp add: chan_of_def)
qed

end
