(* ===== verification/Audit_Log.thy ===== *)
theory Audit_Log
  imports Go_Prelude
begin

text \<open>
  The audit log of migrations, \<open>providers/common/audit.go\<close>: its events, the log file with its
  rotation, and queries.  A file is the list of its lines.  Which system calls fail is an
  argument (\<open>log_env\<close>); a failed write leaves nothing behind.  JSON encoding, the identifiers of
  events and the clock are arguments.
\<close>

section \<open>Events\<close>

type_synonym audit_event_type = string

definition event_migration_start :: audit_event_type where "event_migration_start = ''migration_start''"
definition event_migration_complete :: audit_event_type where "event_migration_complete = ''migration_complete''"
definition event_migration_failed :: audit_event_type where "event_migration_failed = ''migration_failed''"
definition event_export_start :: audit_event_type where "event_export_start = ''export_start''"
definition event_export_complete :: audit_event_type where "event_export_complete = ''export_complete''"
definition event_conversion_start :: audit_event_type where "event_conversion_start = ''conversion_start''"
definition event_conversion_complete :: audit_event_type where "event_conversion_complete = ''conversion_complete''"
definition event_upload_start :: audit_event_type where "event_upload_start = ''upload_start''"
definition event_upload_complete :: audit_event_type where "event_upload_complete = ''upload_complete''"
definition event_config_change :: audit_event_type where "event_config_change = ''config_change''"
definition event_api_access :: audit_event_type where "event_api_access = ''api_access''"
definition event_warning :: audit_event_type where "event_warning = ''warning''"
definition event_error :: audit_event_type where "event_error = ''error''"

datatype detail = DText string | DInt int | DTexts "string list"

record audit_event =
  ev_id :: string
  ev_type :: audit_event_type
  ev_timestamp :: instant
  ev_task_id :: string
  ev_vm_name :: string
  ev_provider :: string
  ev_user :: string
  ev_ip_address :: string
  ev_user_agent :: string
  ev_action :: string
  ev_description :: string
  ev_status :: string
  ev_duration :: duration
  ev_details :: "(string, detail) gomap"
  ev_success :: bool
  ev_error :: string
  ev_resources :: "string list"
  ev_changes :: "(string, detail) gomap"

definition zero_event :: audit_event where
  "zero_event = \<lparr>ev_id = [], ev_type = [], ev_timestamp = 0, ev_task_id = [], ev_vm_name = [],
     ev_provider = [], ev_user = [], ev_ip_address = [], ev_user_agent = [], ev_action = [],
     ev_description = [], ev_status = [], ev_duration = 0, ev_details = [], ev_success = False,
     ev_error = [], ev_resources = [], ev_changes = []\<rparr>"

definition migration_start_event :: "string \<Rightarrow> string \<Rightarrow> string \<Rightarrow> string \<Rightarrow> audit_event" where
  "migration_start_event t vm prov usr = zero_event
     \<lparr>ev_type := event_migration_start, ev_task_id := t, ev_vm_name := vm, ev_provider := prov,
      ev_user := usr, ev_action := ''start_migration'',
      ev_description := ''Started migration for VM '' @ vm, ev_status := ''started'',
      ev_success := True\<rparr>"

definition migration_complete_event ::
  "string \<Rightarrow> string \<Rightarrow> string \<Rightarrow> string \<Rightarrow> duration \<Rightarrow> (string, detail) gomap \<Rightarrow> audit_event" where
  "migration_complete_event t vm prov usr dur details = zero_event
     \<lparr>ev_type := event_migration_complete, ev_task_id := t, ev_vm_name := vm, ev_provider := prov,
      ev_user := usr, ev_action := ''complete_migration'',
      ev_description := ''Completed migration for VM '' @ vm, ev_status := ''completed'',
      ev_duration := dur, ev_details := details, ev_success := True\<rparr>"

definition migration_failed_event :: "string \<Rightarrow> string \<Rightarrow> string \<Rightarrow> string \<Rightarrow> string \<Rightarrow> audit_event" where
  "migration_failed_event t vm prov usr err = zero_event
     \<lparr>ev_type := event_migration_failed, ev_task_id := t, ev_vm_name := vm, ev_provider := prov,
      ev_user := usr, ev_action := ''fail_migration'',
      ev_description := ''Failed migration for VM '' @ vm, ev_status := ''failed'',
      ev_error := err, ev_success := False\<rparr>"

definition export_start_event :: "string \<Rightarrow> string \<Rightarrow> string \<Rightarrow> audit_event" where
  "export_start_event t vm prov = zero_event
     \<lparr>ev_type := event_export_start, ev_task_id := t, ev_vm_name := vm, ev_provider := prov,
      ev_action := ''start_export'', ev_description := ''Started export for VM '' @ vm,
      ev_status := ''started'', ev_success := True\<rparr>"

definition export_complete_event :: "string \<Rightarrow> string \<Rightarrow> string \<Rightarrow> duration \<Rightarrow> int \<Rightarrow> audit_event" where
  "export_complete_event t vm prov dur bytes = zero_event
     \<lparr>ev_type := event_export_complete, ev_task_id := t, ev_vm_name := vm, ev_provider := prov,
      ev_action := ''complete_export'', ev_description := ''Completed export for VM '' @ vm,
      ev_status := ''completed'', ev_duration := dur,
      ev_details := [(''bytes_exported'', DInt bytes)], ev_success := True\<rparr>"

definition conversion_start_event :: "string \<Rightarrow> string \<Rightarrow> audit_event" where
  "conversion_start_event t vm = zero_event
     \<lparr>ev_type := event_conversion_start, ev_task_id := t, ev_vm_name := vm,
      ev_action := ''start_conversion'', ev_description := ''Started conversion for VM '' @ vm,
      ev_status := ''started'', ev_success := True\<rparr>"

definition conversion_complete_event :: "string \<Rightarrow> string \<Rightarrow> duration \<Rightarrow> string list \<Rightarrow> audit_event" where
  "conversion_complete_event t vm dur files = zero_event
     \<lparr>ev_type := event_conversion_complete, ev_task_id := t, ev_vm_name := vm,
      ev_action := ''complete_conversion'', ev_description := ''Completed conversion for VM '' @ vm,
      ev_status := ''completed'', ev_duration := dur,
      ev_details := [(''converted_files'', DTexts files), (''file_count'', DInt (int (length files)))],
      ev_success := True\<rparr>"

definition upload_start_event :: "string \<Rightarrow> string \<Rightarrow> string \<Rightarrow> audit_event" where
  "upload_start_event t vm dest = zero_event
     \<lparr>ev_type := event_upload_start, ev_task_id := t, ev_vm_name := vm, ev_action := ''start_upload'',
      ev_description := ''Started upload for VM '' @ vm @ '' to '' @ dest, ev_status := ''started'',
      ev_details := [(''destination'', DText dest)], ev_success := True\<rparr>"

definition upload_complete_event :: "string \<Rightarrow> string \<Rightarrow> string \<Rightarrow> duration \<Rightarrow> int \<Rightarrow> audit_event" where
  "upload_complete_event t vm dest dur bytes = zero_event
     \<lparr>ev_type := event_upload_complete, ev_task_id := t, ev_vm_name := vm, ev_action := ''complete_upload'',
      ev_description := ''Completed upload for VM '' @ vm @ '' to '' @ dest, ev_status := ''completed'',
      ev_duration := dur,
      ev_details := [(''destination'', DText dest), (''bytes_uploaded'', DInt bytes)],
      ev_success := True\<rparr>"

definition config_change_event :: "string \<Rightarrow> string \<Rightarrow> (string, detail) gomap \<Rightarrow> audit_event" where
  "config_change_event usr kind changes = zero_event
     \<lparr>ev_type := event_config_change, ev_user := usr, ev_action := ''change_config'',
      ev_description := ''Changed '' @ kind @ '' configuration'', ev_status := ''completed'',
      ev_changes := changes, ev_success := True\<rparr>"

definition api_access_event ::
  "string \<Rightarrow> string \<Rightarrow> string \<Rightarrow> string \<Rightarrow> string \<Rightarrow> int \<Rightarrow> audit_event" where
  "api_access_event usr ip agent method path code = zero_event
     \<lparr>ev_type := event_api_access, ev_user := usr, ev_ip_address := ip, ev_user_agent := agent,
      ev_action := ''api_access'', ev_description := method @ '' '' @ path,
      ev_status := ''status_'' @ dec_int code,
      ev_details := [(''method'', DText method), (''path'', DText path), (''status_code'', DInt code)],
      ev_success := (code < 400)\<rparr>"

definition warning_event :: "string \<Rightarrow> string \<Rightarrow> string \<Rightarrow> audit_event" where
  "warning_event t vm w = zero_event
     \<lparr>ev_type := event_warning, ev_task_id := t, ev_vm_name := vm, ev_action := ''warning'',
      ev_description := w, ev_status := ''warning'', ev_success := True\<rparr>"

definition error_event :: "string \<Rightarrow> string \<Rightarrow> string \<Rightarrow> audit_event" where
  "error_event t vm err = zero_event
     \<lparr>ev_type := event_error, ev_task_id := t, ev_vm_name := vm, ev_action := ''error'',
      ev_description := err, ev_status := ''error'', ev_error := err, ev_success := False\<rparr>"

section \<open>The log file\<close>

definition generate_event_id :: "int \<Rightarrow> nat \<Rightarrow> string" where
  "generate_event_id unix_nano seq = ''event_'' @ dec_int unix_nano @ ''_'' @ dec_nat seq"

text \<open>
  \<open>lf_current\<close> is the file at the path of the log, \<open>lf_rotated\<close> the files with a number behind
  the path.  \<open>al_file\<close> is the handle of the logger: an open file, one that was closed by a
  rotation and not replaced, or none.
\<close>

datatype log_handle = Opened | ClosedFile | NoFile

record log_files =
  lf_current :: "string list option"
  lf_rotated :: "(nat, string list) gomap"

record audit_logger =
  al_file :: log_handle
  al_rotate_size :: int
  al_max_files :: nat
  al_current_size :: int

record log_env =
  le_write :: "string option"
  le_close :: bool
  le_rename :: "nat \<Rightarrow> bool"
  le_rename_current :: bool
  le_remove :: bool
  le_open :: bool

definition line_size :: "string \<Rightarrow> int" where
  "line_size l = int (length l) + 1"

definition file_size :: "string list \<Rightarrow> int" where
  "file_size ls = (\<Sum>l\<leftarrow>ls. line_size l)"

datatype audit_error =
    MakeLogDirFailed
  | OpenLogFailed
  | MarshalEventFailed
  | WriteLogFailed string
  | CloseLogFailed
  | RotateFailed
  | RemoveOldestFailed
  | ReopenFailed

definition new_audit_logger ::
  "bool \<Rightarrow> bool \<Rightarrow> log_files \<Rightarrow> audit_error + audit_logger \<times> log_files" where
  "new_audit_logger mkdir_ok open_ok fs =
     (if \<not> mkdir_ok then Inl MakeLogDirFailed
      else if \<not> open_ok then Inl OpenLogFailed
      else
        let cur = (case lf_current fs of None \<Rightarrow> [] | Some ls \<Rightarrow> ls)
        in Inr (\<lparr>al_file = Opened, al_rotate_size = 100 * 1024 * 1024, al_max_files = 10,
                 al_current_size = file_size cur\<rparr>, fs\<lparr>lf_current := Some cur\<rparr>))"

text \<open>The loop of \<open>rotate\<close> from the highest number down; a missing file is skipped.\<close>

fun shift_files ::
  "(nat \<Rightarrow> bool) \<Rightarrow> nat \<Rightarrow> (nat, string list) gomap \<Rightarrow> bool \<times> (nat, string list) gomap" where
  "shift_files bad 0 m = (True, m)"
| "shift_files bad (Suc i) m =
     (case gm_get m (Suc i) of
        None \<Rightarrow> shift_files bad i m
      | Some f \<Rightarrow>
          if bad (Suc i) then (False, m)
          else shift_files bad i (gm_put (Suc (Suc i)) f (gm_del (Suc i) m)))"

definition rotate ::
  "log_env \<Rightarrow> audit_logger \<Rightarrow> log_files \<Rightarrow> audit_error option \<times> audit_logger \<times> log_files" where
  "rotate env al fs =
     (let al = al\<lparr>al_file := ClosedFile\<rparr>
      in if le_close env then (Some CloseLogFailed, al, fs)
         else
           let (ok, m) = shift_files (le_rename env) (al_max_files al - 1) (lf_rotated fs);
               fs = fs\<lparr>lf_rotated := m\<rparr>
           in if \<not> ok then (Some RotateFailed, al, fs)
              else case lf_current fs of
                     None \<Rightarrow> (Some RotateFailed, al, fs)
                   | Some cur \<Rightarrow>
                       if le_rename_current env then (Some RotateFailed, al, fs)
                       else
                         let fs = fs\<lparr>lf_current := None, lf_rotated := gm_put 1 cur m\<rparr>;
                             oldest = Suc (al_max_files al)
                         in if gm_get (lf_rotated fs) oldest \<noteq> None \<and> le_remove env
                            then (Some RemoveOldestFailed, al, fs)
                            else
                              let fs = fs\<lparr>lf_rotated := gm_del oldest (lf_rotated fs)\<rparr>
                              in if le_open env then (Some ReopenFailed, al, fs)
                                 else (None, al\<lparr>al_file := Opened, al_current_size := 0\<rparr>,
                                       fs\<lparr>lf_current := Some []\<rparr>))"

definition log_event ::
  "(audit_event \<Rightarrow> string option) \<Rightarrow> log_env \<Rightarrow> string \<Rightarrow> instant \<Rightarrow> audit_event \<Rightarrow>
   audit_logger \<Rightarrow> log_files \<Rightarrow> audit_error option \<times> audit_logger \<times> log_files" where
  "log_event marshal env fresh now ev al fs =
     (let ev = (if ev_id ev = [] then ev\<lparr>ev_id := fresh\<rparr> else ev);
          ev = (if ev_timestamp ev = 0 then ev\<lparr>ev_timestamp := now\<rparr> else ev)
      in case marshal ev of
           None \<Rightarrow> (Some MarshalEventFailed, al, fs)
         | Some line \<Rightarrow>
             if al_file al = ClosedFile then (Some (WriteLogFailed ''file already closed''), al, fs)
             else if al_file al = NoFile then (Some (WriteLogFailed ''invalid argument''), al, fs)
             else case le_write env of
                    Some e \<Rightarrow> (Some (WriteLogFailed e), al, fs)
                  | None \<Rightarrow>
                      let fs = fs\<lparr>lf_current := map_option (\<lambda>ls. ls @ [line]) (lf_current fs)\<rparr>;
                          al = al\<lparr>al_current_size := al_current_size al + line_size line\<rparr>
                      in if al_rotate_size al \<le> al_current_size al then rotate env al fs
                         else (None, al, fs))"

definition close_logger :: "bool \<Rightarrow> audit_logger \<Rightarrow> audit_error option \<times> audit_logger" where
  "close_logger fails al =
     (if al_file al = NoFile then (None, al)
      else (if al_file al = ClosedFile \<or> fails then Some CloseLogFailed else None,
            al\<lparr>al_file := NoFile\<rparr>))"

section \<open>Queries\<close>

record query_options =
  qo_start :: instant
  qo_end :: instant
  qo_types :: "audit_event_type list"
  qo_task_id :: string
  qo_vm_name :: string
  qo_provider :: string
  qo_user :: string
  qo_success :: "bool option"
  qo_limit :: int

definition skips :: "query_options \<Rightarrow> audit_event \<Rightarrow> bool" where
  "skips q e \<longleftrightarrow>
     (if qo_start q \<noteq> 0 \<and> ev_timestamp e < qo_start q then True
      else if qo_end q \<noteq> 0 \<and> qo_end q < ev_timestamp e then True
      else if qo_types q \<noteq> [] \<and> \<not> List.member (qo_types q) (ev_type e) then True
      else if qo_task_id q \<noteq> [] \<and> ev_task_id e \<noteq> qo_task_id q then True
      else if qo_vm_name q \<noteq> [] \<and> ev_vm_name e \<noteq> qo_vm_name q then True
      else if qo_provider q \<noteq> [] \<and> ev_provider e \<noteq> qo_provider q then True
      else if qo_user q \<noteq> [] \<and> ev_user e \<noteq> qo_user q then True
      else case qo_success q of None \<Rightarrow> False | Some b \<Rightarrow> ev_success e \<noteq> b)"

text \<open>The decoder gives up at the first line that is not an event.\<close>

fun query_loop ::
  "(string \<Rightarrow> audit_event option) \<Rightarrow> query_options \<Rightarrow> string list \<Rightarrow> audit_event list \<Rightarrow> audit_event list" where
  "query_loop unmarshal q [] es = es"
| "query_loop unmarshal q (l # ls) es =
     (case unmarshal l of
        None \<Rightarrow> es
      | Some e \<Rightarrow>
          if skips q e then query_loop unmarshal q ls es
          else let es = es @ [e]
               in if 0 < qo_limit q \<and> qo_limit q \<le> int (length es) then es
                  else query_loop unmarshal q ls es)"

definition query_audit_logs ::
  "(string \<Rightarrow> audit_event option) \<Rightarrow> query_options \<Rightarrow> log_files \<Rightarrow> audit_error + audit_event list" where
  "query_audit_logs unmarshal q fs =
     (case lf_current fs of
        None \<Rightarrow> Inl OpenLogFailed
      | Some ls \<Rightarrow> Inr (query_loop unmarshal q ls []))"

section \<open>What the log keeps\<close>

lemma shift_files_get:
  assumes "\<forall>i. \<not> bad i"
  shows "\<exists>m'. shift_files bad n m = (True, m') \<and>
    (\<forall>i. gm_get m' i =
       (if i = 0 \<or> Suc n < i then gm_get m i
        else if i = Suc n then (if n = 0 \<or> gm_get m n = None then gm_get m i else gm_get m n)
        else if i = 1 then None else gm_get m (i - 1)))"
proof (induction n arbitrary: m)
  case (Suc n)
  show ?case
  proof (cases "gm_get m (Suc n)")
    case None
    with Suc.IH [of m] show ?thesis by (auto simp: le_less_Suc_eq)
  next
    case (Some f)
    with Suc.IH [of "gm_put (Suc (Suc n)) f (gm_del (Suc n) m)"] assms show ?thesis
      by (auto simp: map_ops)
  qed
qed auto

text \<open>The files numbered from \<open>k\<close> down to 1, the oldest lines first.\<close>

definition kept :: "nat \<Rightarrow> (nat, string list) gomap \<Rightarrow> string list" where
  "kept k m = concat (map (\<lambda>i. the (gm_get m i)) (rev [1..<Suc k]))"

lemma kept_0 [simp]: "kept 0 m = []"
  by (simp add: kept_def)

lemma kept_Suc [simp]: "kept (Suc k) m = the (gm_get m (Suc k)) @ kept k m"
  by (simp add: kept_def)

lemma kept_pred: "1 \<le> k \<Longrightarrow> kept k m = the (gm_get m k) @ kept (k - 1) m"
  by (cases k) simp_all

lemma kept_shift:
  assumes "gm_get m' 1 = Some cur" and "\<forall>i. 1 \<le> i \<and> i \<le> k \<longrightarrow> gm_get m' (Suc i) = gm_get m i"
  shows "kept (Suc k) m' = kept k m @ cur"
  using assms(2)
proof (induction k)
  case 0
  then show ?case using assms(1) by simp
next
  case (Suc k)
  then show ?case by simp
qed

definition nothing_fails :: "log_env \<Rightarrow> bool" where
  "nothing_fails env \<longleftrightarrow> le_write env = None \<and> \<not> le_close env \<and> (\<forall>i. \<not> le_rename env i) \<and>
     \<not> le_rename_current env \<and> \<not> le_remove env \<and> \<not> le_open env"

text \<open>The numbers in use are those from 1 to \<open>k\<close>.\<close>

definition numbered :: "nat \<Rightarrow> (nat, string list) gomap \<Rightarrow> bool" where
  "numbered k m \<longleftrightarrow> (\<forall>i. gm_get m i \<noteq> None \<longleftrightarrow> 1 \<le> i \<and> i \<le> k)"

lemma rotate_ok:
  assumes "nothing_fails env" and cur: "lf_current fs = Some cur"
    and num: "numbered k (lf_rotated fs)" and k: "k \<le> al_max_files al" and m1: "1 \<le> al_max_files al"
  shows "\<exists>fs'. rotate env al fs = (None, al\<lparr>al_file := Opened, al_current_size := 0\<rparr>, fs') \<and>
    lf_current fs' = Some [] \<and>
    (\<forall>i. gm_get (lf_rotated fs') i =
       (if i = 1 then Some cur
        else if 2 \<le> i \<and> i \<le> Suc k \<and> i \<le> al_max_files al then gm_get (lf_rotated fs) (i - 1) else None))"
proof -
  let ?n = "al_max_files al"
  obtain n where n: "?n = Suc n" using m1 by (cases ?n) auto
  obtain m' where m': "shift_files (le_rename env) n (lf_rotated fs) = (True, m')"
    and get: "\<And>i. gm_get m' i =
       (if i = 0 \<or> Suc n < i then gm_get (lf_rotated fs) i
        else if i = Suc n then (if n = 0 \<or> gm_get (lf_rotated fs) n = None
                                then gm_get (lf_rotated fs) i else gm_get (lf_rotated fs) n)
        else if i = 1 then None else gm_get (lf_rotated fs) (i - 1))"
    using shift_files_get [of "le_rename env" n "lf_rotated fs"] assms(1)
    by (auto simp: nothing_fails_def)
  have none: "gm_get (lf_rotated fs) i = None" if "i = 0 \<or> k < i" for i
  proof -
    have "\<not> (1 \<le> i \<and> i \<le> k)" using that by auto
    with num show ?thesis unfolding numbered_def by metis
  qed
  have some: "gm_get (lf_rotated fs) i \<noteq> None" if "1 \<le> i" "i \<le> k" for i
    using num that by (simp add: numbered_def)
  let ?fs = "fs\<lparr>lf_rotated := gm_del (Suc ?n) (gm_put 1 cur m'), lf_current := Some []\<rparr>"
  have r: "rotate env al fs = (None, al\<lparr>al_file := Opened, al_current_size := 0\<rparr>, ?fs)"
    using assms(1) cur m' n by (simp add: rotate_def nothing_fails_def Let_def)
  have "gm_get (lf_rotated ?fs) i =
       (if i = 1 then Some cur
        else if 2 \<le> i \<and> i \<le> Suc k \<and> i \<le> ?n then gm_get (lf_rotated fs) (i - 1) else None)" for i
  proof (cases "i = 1 \<or> i = 0 \<or> ?n < i")
    case True
    with n k none [of i] get [of i] show ?thesis by (auto simp: map_ops)
  next
    case False
    then have i: "2 \<le> i" "i \<le> Suc n" using n by auto
    show ?thesis
    proof (cases "i = Suc n")
      case True
      with i n k none [of n] none [of "Suc n"] some [of n] get [of i] show ?thesis
        by (auto simp: map_ops)
    next
      case False
      with i n k none [of "i - 1"] get [of i] show ?thesis by (auto simp: map_ops)
    qed
  qed
  with r show ?thesis by auto
qed

definition log_inv :: "string list \<Rightarrow> audit_logger \<Rightarrow> log_files \<Rightarrow> bool" where
  "log_inv ls al fs \<longleftrightarrow> al_file al = Opened \<and> 1 \<le> al_max_files al \<and>
     (\<exists>old k cur. lf_current fs = Some cur \<and> al_current_size al = file_size cur \<and>
        file_size cur < al_rotate_size al \<and> k \<le> al_max_files al \<and> numbered k (lf_rotated fs) \<and>
        (\<forall>i f. gm_get (lf_rotated fs) i = Some f \<longrightarrow> al_rotate_size al \<le> file_size f) \<and>
        ls = old @ kept k (lf_rotated fs) @ cur \<and> (old \<noteq> [] \<longrightarrow> k = al_max_files al))"

lemma file_size_append [simp]: "file_size (xs @ ys) = file_size xs + file_size ys"
  by (simp add: file_size_def)

lemma file_size_line [simp]: "file_size [l] = line_size l" "file_size [] = 0"
  by (simp_all add: file_size_def)

lemma log_inv_rotate:
  assumes env: "nothing_fails env" and m1: "1 \<le> al_max_files al" and pos: "0 < al_rotate_size al"
    and cur: "lf_current fs = Some cur" and big: "al_rotate_size al \<le> file_size cur"
    and k: "k \<le> al_max_files al" and num: "numbered k (lf_rotated fs)"
    and full: "\<forall>i f. gm_get (lf_rotated fs) i = Some f \<longrightarrow> al_rotate_size al \<le> file_size f"
    and ls: "ls = old @ kept k (lf_rotated fs) @ cur" and old: "old \<noteq> [] \<longrightarrow> k = al_max_files al"
  shows "\<exists>al' fs'. rotate env al fs = (None, al', fs') \<and> log_inv ls al' fs' \<and>
    al_rotate_size al' = al_rotate_size al \<and> al_max_files al' = al_max_files al"
proof -
  let ?n = "al_max_files al"
  obtain fs' where r: "rotate env al fs = (None, al\<lparr>al_file := Opened, al_current_size := 0\<rparr>, fs')"
    and c: "lf_current fs' = Some []"
    and get: "\<And>i. gm_get (lf_rotated fs') i =
       (if i = 1 then Some cur
        else if 2 \<le> i \<and> i \<le> Suc k \<and> i \<le> ?n then gm_get (lf_rotated fs) (i - 1) else None)"
    using rotate_ok [OF env cur num k m1] by blast
  define j where "j = (if k = ?n then k - 1 else k)"
  define gone where "gone = (if k = ?n then the (gm_get (lf_rotated fs) k) else [])"
  have j: "Suc j \<le> ?n" using k m1 by (auto simp: j_def)
  have some: "gm_get (lf_rotated fs) i \<noteq> None \<longleftrightarrow> 1 \<le> i \<and> i \<le> k" for i
    using num by (simp add: numbered_def)
  have "numbered (Suc j) (lf_rotated fs')"
    unfolding numbered_def
  proof
    fix i
    show "gm_get (lf_rotated fs') i \<noteq> None \<longleftrightarrow> 1 \<le> i \<and> i \<le> Suc j"
      using k m1 some [of "i - 1"] by (auto simp: get j_def)
  qed
  moreover have "kept (Suc j) (lf_rotated fs') = kept j (lf_rotated fs) @ cur"
  proof (rule kept_shift)
    show "gm_get (lf_rotated fs') 1 = Some cur" by (simp add: get)
    show "\<forall>i. 1 \<le> i \<and> i \<le> j \<longrightarrow> gm_get (lf_rotated fs') (Suc i) = gm_get (lf_rotated fs) i"
      using j by (auto simp: get j_def split: if_splits)
  qed
  moreover have "kept k (lf_rotated fs) = gone @ kept j (lf_rotated fs)"
  proof (cases "k = ?n")
    case True
    then have "gone = the (gm_get (lf_rotated fs) k)" "j = k - 1" by (simp_all add: j_def gone_def)
    with True m1 show ?thesis by (simp only: kept_pred)
  qed (simp add: j_def gone_def)
  moreover have "Suc j = ?n" if "old @ gone \<noteq> []"
    using that old m1 by (auto simp: j_def gone_def split: if_splits)
  moreover have "\<forall>i f. gm_get (lf_rotated fs') i = Some f \<longrightarrow> al_rotate_size al \<le> file_size f"
    using full big by (auto simp: get split: if_splits)
  ultimately have "log_inv ls (al\<lparr>al_file := Opened, al_current_size := 0\<rparr>) fs'"
    unfolding log_inv_def
    by (intro conjI exI [of _ "old @ gone"] exI [of _ "Suc j"] exI [of _ "[]"])
      (use m1 pos c j ls in simp_all)
  with r show ?thesis by simp
qed

text \<open>A sequence of calls of \<open>Log\<close>, with the identifier and the time each is given.\<close>

definition stamped :: "string \<Rightarrow> instant \<Rightarrow> audit_event \<Rightarrow> audit_event" where
  "stamped fresh now ev =
     (let ev = (if ev_id ev = [] then ev\<lparr>ev_id := fresh\<rparr> else ev)
      in if ev_timestamp ev = 0 then ev\<lparr>ev_timestamp := now\<rparr> else ev)"

fun log_all ::
  "(audit_event \<Rightarrow> string option) \<Rightarrow> log_env \<Rightarrow> (string \<times> instant \<times> audit_event) list \<Rightarrow>
   audit_logger \<Rightarrow> log_files \<Rightarrow> audit_error option list \<times> audit_logger \<times> log_files" where
  "log_all marshal env [] al fs = ([], al, fs)"
| "log_all marshal env ((fresh, now, ev) # evs) al fs =
     (let (e, al, fs) = log_event marshal env fresh now ev al fs;
          (es, al, fs) = log_all marshal env evs al fs
      in (e # es, al, fs))"

definition lines_of ::
  "(audit_event \<Rightarrow> string option) \<Rightarrow> (string \<times> instant \<times> audit_event) list \<Rightarrow> string list" where
  "lines_of marshal evs = List.map_filter (\<lambda>(fresh, now, ev). marshal (stamped fresh now ev)) evs"

lemma log_event_inv:
  assumes env: "nothing_fails env" and pos: "0 < al_rotate_size al" and inv: "log_inv ls al fs"
  shows "\<exists>al' fs'. log_event marshal env fresh now ev al fs =
      ((if marshal (stamped fresh now ev) = None then Some MarshalEventFailed else None), al', fs') \<and>
    log_inv (ls @ (case marshal (stamped fresh now ev) of None \<Rightarrow> [] | Some l \<Rightarrow> [l])) al' fs' \<and>
    al_rotate_size al' = al_rotate_size al \<and> al_max_files al' = al_max_files al"
proof (cases "marshal (stamped fresh now ev)")
  case None
  then have "log_event marshal env fresh now ev al fs = (Some MarshalEventFailed, al, fs)"
    by (simp add: log_event_def stamped_def Let_def)
  with None inv show ?thesis by simp
next
  case (Some l)
  obtain old k cur where i: "al_file al = Opened" "1 \<le> al_max_files al" "lf_current fs = Some cur"
    "al_current_size al = file_size cur" "k \<le> al_max_files al" "numbered k (lf_rotated fs)"
    "\<forall>i f. gm_get (lf_rotated fs) i = Some f \<longrightarrow> al_rotate_size al \<le> file_size f"
    "ls = old @ kept k (lf_rotated fs) @ cur" "old \<noteq> [] \<longrightarrow> k = al_max_files al"
    using inv unfolding log_inv_def by blast
  define fs1 where "fs1 = fs\<lparr>lf_current := Some (cur @ [l])\<rparr>"
  define al1 where "al1 = al\<lparr>al_current_size := file_size (cur @ [l])\<rparr>"
  have ev: "log_event marshal env fresh now ev al fs =
      (if al_rotate_size al1 \<le> al_current_size al1 then rotate env al1 fs1 else (None, al1, fs1))"
    using Some i env
    by (simp add: log_event_def stamped_def nothing_fails_def Let_def fs1_def al1_def)
  show ?thesis
  proof (cases "al_rotate_size al1 \<le> al_current_size al1")
    case True
    have "\<exists>al' fs'. rotate env al1 fs1 = (None, al', fs') \<and> log_inv (ls @ [l]) al' fs' \<and>
        al_rotate_size al' = al_rotate_size al1 \<and> al_max_files al' = al_max_files al1"
      by (rule log_inv_rotate [OF env, where k = k and old = old and cur = "cur @ [l]"])
        (use True i pos in \<open>simp_all add: fs1_def al1_def\<close>)
    with Some ev True show ?thesis by (simp add: al1_def)
  next
    case False
    have "log_inv (ls @ [l]) al1 fs1"
      unfolding log_inv_def
      by (intro conjI exI [of _ old] exI [of _ k] exI [of _ "cur @ [l]"])
        (use False i in \<open>simp_all add: fs1_def al1_def\<close>)
    with Some ev False show ?thesis by (simp add: al1_def)
  qed
qed

lemma log_all_inv:
  assumes "nothing_fails env" and "0 < al_rotate_size al" and "log_inv ls al fs"
  shows "\<exists>al' fs'. log_all marshal env evs al fs =
      (map (\<lambda>(fresh, now, ev). if marshal (stamped fresh now ev) = None
         then Some MarshalEventFailed else None) evs, al', fs') \<and>
    log_inv (ls @ lines_of marshal evs) al' fs' \<and> al_rotate_size al' = al_rotate_size al \<and>
    al_max_files al' = al_max_files al"
  using assms(2,3)
proof (induction evs arbitrary: ls al fs)
  case Nil
  then show ?case by (simp add: lines_of_def List.map_filter_simps)
next
  case (Cons e evs)
  obtain fresh now ev where e: "e = (fresh, now, ev)" by (cases e) auto
  let ?l = "case marshal (stamped fresh now ev) of None \<Rightarrow> [] | Some l \<Rightarrow> [l]"
  obtain a1 f1 where s: "log_event marshal env fresh now ev al fs =
      ((if marshal (stamped fresh now ev) = None then Some MarshalEventFailed else None), a1, f1)"
    "log_inv (ls @ ?l) a1 f1" "al_rotate_size a1 = al_rotate_size al" "al_max_files a1 = al_max_files al"
    using log_event_inv [OF assms(1) Cons.prems] by blast
  have "lines_of marshal (e # evs) = ?l @ lines_of marshal evs"
    by (simp add: e lines_of_def List.map_filter_simps split: option.split)
  with s Cons.IH [of a1 "ls @ ?l" f1] Cons.prems(1) show ?case by (auto simp: e)
qed

text \<open>
  As long as no system call fails, every event that can be encoded is in the log until ten
  newer files have been filled: the numbered files from the highest to the first followed by the
  current file are the end of the sequence of all lines ever written, in their order, and all of
  it as long as fewer than \<open>maxFiles\<close> files are in use.  The numbers are consecutive, no numbered
  file is smaller than the rotation size, and the current file is.
\<close>

theorem audit_log_keeps_newest:
  assumes "nothing_fails env"
    and "new_audit_logger True True \<lparr>lf_current = None, lf_rotated = []\<rparr> = Inr (al, fs)"
    and "log_all marshal env evs al fs = (es, al', fs')"
  shows "\<exists>old k cur. lf_current fs' = Some cur \<and>
    lines_of marshal evs = old @ kept k (lf_rotated fs') @ cur \<and>
    (old \<noteq> [] \<longrightarrow> k = 10) \<and> k \<le> 10 \<and> numbered k (lf_rotated fs') \<and>
    (\<forall>i f. gm_get (lf_rotated fs') i = Some f \<longrightarrow> 104857600 \<le> file_size f) \<and>
    file_size cur < 104857600"
proof -
  have al: "al_rotate_size al = 104857600" "al_max_files al = 10" and inv: "log_inv [] al fs"
    using assms(2)
    by (auto simp: new_audit_logger_def Let_def log_inv_def numbered_def
        intro!: exI [of _ 0])
  obtain a f where r: "log_all marshal env evs al fs =
      (map (\<lambda>(fresh, now, ev). if marshal (stamped fresh now ev) = None
         then Some MarshalEventFailed else None) evs, a, f)"
    "log_inv ([] @ lines_of marshal evs) a f" "al_rotate_size a = al_rotate_size al"
    "al_max_files a = al_max_files al"
    using log_all_inv [OF assms(1) _ inv, of marshal evs] al(1) by auto
  have a: "a = al'" "f = fs'" using r(1) assms(3) by auto
  from r(2) obtain old k cur where "lf_current fs' = Some cur" "file_size cur < al_rotate_size al'"
    "k \<le> al_max_files al'" "numbered k (lf_rotated fs')"
    "\<forall>i f. gm_get (lf_rotated fs') i = Some f \<longrightarrow> al_rotate_size al' \<le> file_size f"
    "lines_of marshal evs = old @ kept k (lf_rotated fs') @ cur" "old \<noteq> [] \<longrightarrow> k = al_max_files al'"
    unfolding a log_inv_def by auto
  with r(3,4) al show ?thesis
    by (intro exI [of _ old] exI [of _ k] exI [of _ cur]) (simp add: a)
qed

text \<open>
  The log does not survive a rotation that fails: the line that triggered it has been written,
  but the file is closed and not replaced, so that every later event is lost with an error and
  nothing in the log changes any more.
\<close>

theorem failed_rotation_silences_log:
  assumes "rotate env al fs = (Some e, al', fs')"
  shows "\<exists>err. log_event marshal env' fresh now ev al' fs' = (Some err, al', fs')"
proof -
  have "al_file al' = ClosedFile"
    using assms by (auto simp: rotate_def Let_def split: if_splits option.splits prod.splits)
  then show ?thesis by (simp add: log_event_def Let_def split: option.split)
qed

section \<open>What a query finds\<close>

definition selected :: "query_options \<Rightarrow> audit_event \<Rightarrow> bool" where
  "selected q e \<longleftrightarrow> (qo_start q = 0 \<or> qo_start q \<le> ev_timestamp e) \<and>
     (qo_end q = 0 \<or> ev_timestamp e \<le> qo_end q) \<and>
     (qo_types q = [] \<or> ev_type e \<in> set (qo_types q)) \<and>
     (qo_task_id q \<in> {[], ev_task_id e}) \<and> (qo_vm_name q \<in> {[], ev_vm_name e}) \<and>
     (qo_provider q \<in> {[], ev_provider e}) \<and> (qo_user q \<in> {[], ev_user e}) \<and>
     (qo_success q \<in> {None, Some (ev_success e)})"

lemma skips_selected: "skips q e \<longleftrightarrow> \<not> selected q e"
proof -
  have t: "ev_timestamp e < qo_start q \<longleftrightarrow> \<not> qo_start q \<le> ev_timestamp e"
    "qo_end q < ev_timestamp e \<longleftrightarrow> \<not> ev_timestamp e \<le> qo_end q" by auto
  have s: "(case qo_success q of None \<Rightarrow> False | Some b \<Rightarrow> ev_success e \<noteq> b) \<longleftrightarrow>
      qo_success q \<notin> {None, Some (ev_success e)}"
    by (auto split: option.split)
  have m: "x \<in> {[], y} \<longleftrightarrow> \<not> (x \<noteq> [] \<and> y \<noteq> x)" for x y :: string by auto
  show ?thesis
    unfolding skips_def selected_def t s m List.member_iff if_bool_eq_disj by argo
qed

definition limited :: "query_options \<Rightarrow> audit_event list \<Rightarrow> audit_event list" where
  "limited q es = (if 0 < qo_limit q then take (nat (qo_limit q)) es else es)"

lemma query_loop_limited:
  assumes "0 < qo_limit q \<longrightarrow> int (length es) < qo_limit q"
    and "map unmarshal ls = map Some evs"
  shows "query_loop unmarshal q ls es = limited q (es @ filter (selected q) evs)"
  using assms
proof (induction ls arbitrary: es evs)
  case Nil
  then show ?case by (auto simp: limited_def)
next
  case (Cons l ls)
  obtain e evs' where evs: "evs = e # evs'" "unmarshal l = Some e" "map unmarshal ls = map Some evs'"
    using Cons.prems(2) by (cases evs) auto
  show ?case
  proof (cases "\<not> selected q e \<or> \<not> (0 < qo_limit q \<and> qo_limit q \<le> int (length (es @ [e])))")
    case True
    with Cons.prems(1) Cons.IH [OF _ evs(3)] evs show ?thesis
      by (auto simp: skips_selected Let_def)
  next
    case False
    then have "nat (qo_limit q) = Suc (length es)" using Cons.prems(1) by auto
    with False evs show ?thesis by (auto simp: skips_selected limited_def Let_def)
  qed
qed

text \<open>
  What was logged is found: when nothing fails, no file has been rotated and the encoding can
  be read back, a query answers with the logged events that its options select, in the order in
  which they were logged and cut off at its limit.  A query reads the current file only.
\<close>

theorem queries_find_events:
  assumes "nothing_fails env"
    and codec: "\<forall>(fresh, now, ev) \<in> set evs. \<exists>l. marshal (stamped fresh now ev) = Some l \<and>
      unmarshal l = Some (stamped fresh now ev)"
    and new: "new_audit_logger True True \<lparr>lf_current = None, lf_rotated = []\<rparr> = Inr (al, fs)"
    and run: "log_all marshal env evs al fs = (es, al', fs')" and one: "lf_rotated fs' = []"
  shows "query_audit_logs unmarshal q fs' =
    Inr (limited q (filter (selected q) (map (\<lambda>(fresh, now, ev). stamped fresh now ev) evs)))"
proof -
  let ?evs = "map (\<lambda>(fresh, now, ev). stamped fresh now ev) evs"
  have lines: "map unmarshal (lines_of marshal evs) = map Some ?evs"
    using codec
  proof (induction evs)
    case (Cons e evs)
    obtain fresh now ev where e: "e = (fresh, now, ev)" by (cases e) auto
    obtain l where "marshal (stamped fresh now ev) = Some l" "unmarshal l = Some (stamped fresh now ev)"
      using Cons.prems e by auto
    with Cons show ?case by (simp add: e lines_of_def List.map_filter_simps)
  qed (simp add: lines_of_def List.map_filter_simps)
  have inv: "log_inv [] al fs"
    using new by (auto simp: new_audit_logger_def Let_def log_inv_def numbered_def intro!: exI [of _ 0])
  have "0 < al_rotate_size al" using new by (auto simp: new_audit_logger_def Let_def)
  from log_all_inv [OF assms(1) this inv, of marshal evs] run
  have "log_inv (lines_of marshal evs) al' fs'" by auto
  then obtain old k cur where k: "lf_current fs' = Some cur" "numbered k (lf_rotated fs')"
    "lines_of marshal evs = old @ kept k (lf_rotated fs') @ cur" "old \<noteq> [] \<longrightarrow> k = al_max_files al'"
    "1 \<le> al_max_files al'"
    unfolding log_inv_def by blast
  have "k = 0" using k(2) one by (cases k) (auto simp: numbered_def)
  with k have "lf_current fs' = Some (lines_of marshal evs)" by auto
  with query_loop_limited [of q "[]" unmarshal "lines_of marshal evs" ?evs] lines show ?thesis
    by (simp add: query_audit_logs_def)
qed

text \<open>A log of three events.\<close>

definition quiet :: log_env where
  "quiet = \<lparr>le_write = None, le_close = False, le_rename = (\<lambda>i. False), le_rename_current = False,
     le_remove = False, le_open = False\<rparr>"

definition small_log :: "audit_logger \<times> log_files" where
  "small_log = (\<lparr>al_file = Opened, al_rotate_size = 104857600, al_max_files = 10,
     al_current_size = 0\<rparr>, \<lparr>lf_current = Some [], lf_rotated = []\<rparr>)"

lemma small_log_new:
  "new_audit_logger True True \<lparr>lf_current = None, lf_rotated = []\<rparr> = Inr (fst small_log, snd small_log)"
  by (simp add: new_audit_logger_def small_log_def)

lemma quiet_ok: "nothing_fails quiet"
  by (simp add: nothing_fails_def quiet_def)

definition two_events :: "(string \<times> instant \<times> audit_event) list" where
  "two_events = [(''e1'', 5, migration_start_event ''t'' ''vm'' ''aws'' ''root''),
     (''e2'', 6, conversion_start_event ''t'' ''vm'')]"

lemma two_events_logged:
  "log_all (\<lambda>e. Some (ev_id e)) quiet two_events (fst small_log) (snd small_log) =
     ([None, None], (fst small_log)\<lparr>al_current_size := 6\<rparr>,
      \<lparr>lf_current = Some [''e1'', ''e2''], lf_rotated = []\<rparr>)"
  by (simp add: two_events_def log_event_def quiet_def small_log_def line_size_def Let_def
      migration_start_event_def conversion_start_event_def zero_event_def)

theorem audit_log_keeps_newest_witness:
  "\<exists>old k cur. cur = [''e1'', ''e2''] \<and>
     lines_of (\<lambda>e. Some (ev_id e)) two_events = old @ kept k [] @ cur \<and> (old \<noteq> [] \<longrightarrow> k = 10) \<and>
     numbered k [] \<and> file_size cur < 104857600"
  using audit_log_keeps_newest [OF quiet_ok small_log_new two_events_logged] by auto

theorem failed_rotation_silences_log_witness:
  "\<exists>err. log_event (\<lambda>e. Some ''x'') quiet ''id'' 1 zero_event
      ((fst small_log)\<lparr>al_file := ClosedFile\<rparr>) (snd small_log) =
    (Some err, (fst small_log)\<lparr>al_file := ClosedFile\<rparr>, snd small_log)"
proof -
  have "shift_files (\<lambda>i. False) 9 [] = (True, [])" by code_simp
  then have "rotate (quiet\<lparr>le_rename_current := True\<rparr>) (fst small_log) (snd small_log) =
      (Some RotateFailed, (fst small_log)\<lparr>al_file := ClosedFile\<rparr>, snd small_log)"
    by (simp add: rotate_def Let_def small_log_def quiet_def)
  then show ?thesis by (rule failed_rotation_silences_log)
qed

definition two_decoded :: "string \<Rightarrow> audit_event option" where
  "two_decoded l =
     (if l = ''e1'' then Some (stamped ''e1'' 5 (migration_start_event ''t'' ''vm'' ''aws'' ''root''))
      else if l = ''e2'' then Some (stamped ''e2'' 6 (conversion_start_event ''t'' ''vm''))
      else None)"

definition starts_only :: query_options where
  "starts_only = \<lparr>qo_start = 0, qo_end = 0, qo_types = [event_conversion_start], qo_task_id = ''t'',
     qo_vm_name = [], qo_provider = [], qo_user = [], qo_success = Some True, qo_limit = 5\<rparr>"

theorem queries_find_events_witness:
  "query_audit_logs two_decoded starts_only \<lparr>lf_current = Some [''e1'', ''e2''], lf_rotated = []\<rparr> =
     Inr [stamped ''e2'' 6 (conversion_start_event ''t'' ''vm'')]"
proof -
  have codec: "\<forall>(fresh, now, ev) \<in> set two_events. \<exists>l. Some (ev_id (stamped fresh now ev)) = Some l \<and>
      two_decoded l = Some (stamped fresh now ev)"
    by (simp add: two_events_def two_decoded_def stamped_def zero_event_def
        migration_start_event_def conversion_start_event_def)
  have "limited starts_only (filter (selected starts_only)
      (map (\<lambda>(fresh, now, ev). stamped fresh now ev) two_events)) =
    [stamped ''e2'' 6 (conversion_start_event ''t'' ''vm'')]"
    by (simp add: two_events_def stamped_def zero_event_def migration_start_event_def
        conversion_start_event_def selected_def starts_only_def limited_def Let_def
        event_migration_start_def event_conversion_start_def)
  with queries_find_events [OF quiet_ok codec small_log_new two_events_logged, of starts_only]
  show ?thesis by simp
qed

end
