(* ===== verification/Job_Webhooks.thy ===== *)
theory Job_Webhooks
  imports Models Backoff
begin

text \<open>
  Webhooks of the daemon's jobs, \<open>daemon/webhooks/webhooks.go\<close>: who is subscribed, what is sent for
  each event of a job, and the delivery with its retries under one deadline.  An HTTP request is
  an argument: for each attempt its error, if any, and the time it takes.
\<close>

section \<open>Webhooks and payloads\<close>

definition event_job_created :: string where "event_job_created = ''job.created''"
definition event_job_started :: string where "event_job_started = ''job.started''"
definition event_job_completed :: string where "event_job_completed = ''job.completed''"
definition event_job_failed :: string where "event_job_failed = ''job.failed''"
definition event_job_cancelled :: string where "event_job_cancelled = ''job.cancelled''"
definition event_job_progress :: string where "event_job_progress = ''job.progress''"
definition event_vm_discovered :: string where "event_vm_discovered = ''vm.discovered''"

record webhook =
  wh_url :: string
  wh_events :: "string list"
  wh_headers :: "(string, string) gomap"
  wh_timeout :: duration
  wh_retry :: int
  wh_enabled :: bool

text \<open>A duration is sent as its seconds, a percentage as the float it is.\<close>

datatype payload_value =
    PText string
  | PInt int
  | PFloat "64 word"
  | PSeconds duration
  | PTexts "string list"

record payload =
  py_event :: string
  py_timestamp :: instant
  py_data :: "(string, payload_value) gomap"

fun subscribed_in :: "string \<Rightarrow> string list \<Rightarrow> bool" where
  "subscribed_in event [] = False"
| "subscribed_in event (e # es) =
     (if e = event \<or> e = ''*'' then True else subscribed_in event es)"

definition is_subscribed :: "webhook \<Rightarrow> string \<Rightarrow> bool" where
  "is_subscribed w event =
     (if length (wh_events w) = 0 then True else subscribed_in event (wh_events w))"

text \<open>\<open>Send\<close> starts one delivery for each webhook that wants the event.\<close>

definition send_payload :: "webhook list \<Rightarrow> payload \<Rightarrow> (webhook \<times> payload) list" where
  "send_payload ws p =
     map (\<lambda>w. (w, p)) (filter (\<lambda>w. wh_enabled w \<and> is_subscribed w (py_event p)) ws)"

definition send_event ::
  "webhook list \<Rightarrow> instant \<Rightarrow> string \<Rightarrow> (string, payload_value) gomap \<Rightarrow> (webhook \<times> payload) list" where
  "send_event ws now event d =
     send_payload ws \<lparr>py_event = event, py_timestamp = now, py_data = d\<rparr>"

definition send_job_created :: "webhook list \<Rightarrow> instant \<Rightarrow> job \<Rightarrow> (webhook \<times> payload) list" where
  "send_job_created ws now j = send_event ws now event_job_created
     [(''job_id'', PText (jd_id (job_def j))), (''job_name'', PText (jd_name (job_def j))),
      (''vm_path'', PText (jd_vm_path (job_def j))),
      (''output_path'', PText (jd_output_path (job_def j)))]"

definition send_job_started :: "webhook list \<Rightarrow> instant \<Rightarrow> job \<Rightarrow> (webhook \<times> payload) list" where
  "send_job_started ws now j = send_event ws now event_job_started
     [(''job_id'', PText (jd_id (job_def j))), (''job_name'', PText (jd_name (job_def j))),
      (''vm_path'', PText (jd_vm_path (job_def j)))]"

definition run_time :: "job \<Rightarrow> duration" where
  "run_time j =
     (case (job_started j, job_completed j) of (Some s, Some c) \<Rightarrow> c - s | _ \<Rightarrow> 0)"

definition send_job_completed :: "webhook list \<Rightarrow> instant \<Rightarrow> job \<Rightarrow> (webhook \<times> payload) list" where
  "send_job_completed ws now j = send_event ws now event_job_completed
     ([(''job_id'', PText (jd_id (job_def j))), (''job_name'', PText (jd_name (job_def j))),
       (''vm_path'', PText (jd_vm_path (job_def j))), (''duration_seconds'', PSeconds (run_time j))] @
      (case job_res j of
         None \<Rightarrow> []
       | Some r \<Rightarrow> [(''ovf_path'', PText (er_ovf_path r)), (''exported_files'', PTexts (er_files r))]))"

definition send_job_failed :: "webhook list \<Rightarrow> instant \<Rightarrow> job \<Rightarrow> (webhook \<times> payload) list" where
  "send_job_failed ws now j = send_event ws now event_job_failed
     [(''job_id'', PText (jd_id (job_def j))), (''job_name'', PText (jd_name (job_def j))),
      (''vm_path'', PText (jd_vm_path (job_def j))), (''error'', PText (job_error j))]"

definition send_job_cancelled :: "webhook list \<Rightarrow> instant \<Rightarrow> job \<Rightarrow> (webhook \<times> payload) list" where
  "send_job_cancelled ws now j = send_event ws now event_job_cancelled
     [(''job_id'', PText (jd_id (job_def j))), (''job_name'', PText (jd_name (job_def j))),
      (''vm_path'', PText (jd_vm_path (job_def j)))]"

definition send_job_progress :: "webhook list \<Rightarrow> instant \<Rightarrow> job \<Rightarrow> (webhook \<times> payload) list" where
  "send_job_progress ws now j =
     (case job_prog j of
        None \<Rightarrow> []
      | Some p \<Rightarrow> send_event ws now event_job_progress
          [(''job_id'', PText (jd_id (job_def j))), (''job_name'', PText (jd_name (job_def j))),
           (''phase'', PText (pg_phase p)), (''percent_complete'', PFloat (pg_percent p)),
           (''files_done'', PInt (pg_files_downloaded p)), (''files_total'', PInt (pg_total_files p)),
           (''bytes_done'', PInt (pg_bytes_downloaded p)), (''bytes_total'', PInt (pg_total_bytes p))])"

section \<open>Delivery\<close>

text \<open>
  Times count from the start of the delivery.  A request that is not answered before the
  deadline of the context ends there with its error, and one made after it is not sent at all.
\<close>

definition deadline_error :: string where
  "deadline_error = ''context deadline exceeded''"

definition deliver_webhook ::
  "(nat \<Rightarrow> string option \<times> duration) \<Rightarrow> duration \<Rightarrow> nat \<Rightarrow> duration \<Rightarrow> string option \<times> duration" where
  "deliver_webhook http deadline k t =
     (if deadline \<le> t then (Some deadline_error, t)
      else let (r, d) = http k
           in if deadline \<le> t + d then (Some deadline_error, deadline) else (r, t + d))"

definition webhook_backoff :: "nat \<Rightarrow> duration" where
  "webhook_backoff k = wrap64 (shl_one (int k - 1) * second)"

definition max_tries :: "webhook \<Rightarrow> int" where
  "max_tries w = (if wh_retry w = 0 then 3 else wh_retry w)"

definition delivery_timeout :: "webhook \<Rightarrow> duration" where
  "delivery_timeout w = (if wh_timeout w = 0 then 10 * second else wh_timeout w)"

text \<open>One attempt: when it began, and what came of it.\<close>

record try_made =
  tm_at :: duration
  tm_error :: "string option"

function send_loop ::
  "(nat \<Rightarrow> string option \<times> duration) \<Rightarrow> duration \<Rightarrow> int \<Rightarrow> nat \<Rightarrow> duration \<Rightarrow> try_made list" where
  "send_loop http deadline retries k t =
     (if retries < int k then []
      else
        let t = (if k > 0 then t + max 0 (webhook_backoff k) else t);
            (e, t') = deliver_webhook http deadline k t;
            m = \<lparr>tm_at = t, tm_error = e\<rparr>
        in if e = None then [m] else m # send_loop http deadline retries (Suc k) t')"
  by pat_completeness auto
termination by (relation "measure (\<lambda>(http, deadline, retries, k, t). nat (retries + 1 - int k))") auto

declare send_loop.simps [simp del]

definition send_webhook :: "(nat \<Rightarrow> string option \<times> duration) \<Rightarrow> webhook \<Rightarrow> try_made list" where
  "send_webhook http w = send_loop http (delivery_timeout w) (max_tries w) 0 0"

section \<open>What a delivery does\<close>

lemma webhook_backoff_small:
  assumes "1 \<le> k" and "k \<le> 33"
  shows "webhook_backoff k = 2 ^ (k - 1) * second"
proof -
  have "shl_one (int k - 1) = 2 ^ nat (int k - 1)" using assms by (intro shl_one_small) auto
  moreover have "nat (int k - 1) = k - 1" using assms by auto
  moreover have "in64 (2 ^ (k - 1) * second)"
  proof -
    define x :: int where "x = 2 ^ (k - 1)"
    have "x \<le> 2 ^ 32" unfolding x_def using assms by (intro power_increasing) auto
    moreover have "0 \<le> x" by (simp add: x_def)
    ultimately have "in64 (x * second)" by (simp add: in64_def second_def)
    then show ?thesis by (simp only: x_def)
  qed
  ultimately show ?thesis by (simp add: webhook_backoff_def wrap64_id)
qed

definition delivered :: "try_made list \<Rightarrow> bool" where
  "delivered ms \<longleftrightarrow> ms \<noteq> [] \<and> tm_error (last ms) = None"

lemma deliver_webhook_cases:
  assumes "deliver_webhook http d k t = (e, t')"
  shows "(e = None \<longrightarrow> t < d) \<and> (0 \<le> snd (http k) \<longrightarrow> t \<le> t')"
  using assms by (auto simp: deliver_webhook_def Let_def split: if_splits prod.splits)

lemma send_loop_step:
  assumes "int k \<le> retries"
  obtains t1 e t2 where "t1 = (if k > 0 then t + max 0 (webhook_backoff k) else t)"
    "deliver_webhook http d k t1 = (e, t2)"
    "send_loop http d retries k t = \<lparr>tm_at = t1, tm_error = e\<rparr> #
       (if e = None then [] else send_loop http d retries (Suc k) t2)"
proof -
  define t1 where "t1 = (if k > 0 then t + max 0 (webhook_backoff k) else t)"
  obtain e t2 where d: "deliver_webhook http d k t1 = (e, t2)" by fastforce
  have "send_loop http d retries k t = \<lparr>tm_at = t1, tm_error = e\<rparr> #
       (if e = None then [] else send_loop http d retries (Suc k) t2)"
    using assms d by (subst send_loop.simps) (simp add: Let_def t1_def [symmetric])
  with t1_def d that show thesis by blast
qed

lemma send_loop_end: "retries < int k \<Longrightarrow> send_loop http d retries k t = []"
  by (simp add: send_loop.simps)

lemma send_loop_shape:
  assumes "int k \<le> retries + 1" and "ms = send_loop http d retries k t"
  shows "int (length ms) \<le> retries + 1 - int k \<and>
    (\<forall>i. Suc i < length ms \<longrightarrow> tm_error (ms ! i) \<noteq> None) \<and>
    (delivered ms \<or> int (length ms) = retries + 1 - int k) \<and>
    (\<forall>m \<in> set ms. tm_error m = None \<longrightarrow> tm_at m < d)"
  using assms
proof (induction "nat (retries + 1 - int k)" arbitrary: k t ms)
  case 0
  then show ?case by (simp add: send_loop_end)
next
  case (Suc n)
  then have k: "int k \<le> retries" by simp
  obtain t1 e t2 where s: "deliver_webhook http d k t1 = (e, t2)"
    "send_loop http d retries k t = \<lparr>tm_at = t1, tm_error = e\<rparr> #
       (if e = None then [] else send_loop http d retries (Suc k) t2)"
    using send_loop_step [OF k] by metis
  define ms' where "ms' = send_loop http d retries (Suc k) t2"
  have ih: "int (length ms') \<le> retries + 1 - int (Suc k) \<and>
    (\<forall>i. Suc i < length ms' \<longrightarrow> tm_error (ms' ! i) \<noteq> None) \<and>
    (delivered ms' \<or> int (length ms') = retries + 1 - int (Suc k)) \<and>
    (\<forall>m \<in> set ms'. tm_error m = None \<longrightarrow> tm_at m < d)"
    using Suc.hyps(1) [of "Suc k" ms' t2] Suc.hyps(2) k ms'_def by auto
  show ?case
  proof (cases "e = None")
    case True
    with s Suc.prems(2) k deliver_webhook_cases [OF s(1)] show ?thesis by (simp add: delivered_def)
  next
    case False
    have ms: "ms = \<lparr>tm_at = t1, tm_error = e\<rparr> # ms'" using s(2) Suc.prems(2) False ms'_def by simp
    have "tm_error (ms ! i) \<noteq> None" if "Suc i < length ms" for i
      using that ih False by (cases i) (auto simp: ms)
    moreover have "delivered ms \<or> int (length ms) = retries + 1 - int k"
      using ih by (auto simp: ms delivered_def)
    ultimately show ?thesis using ih False by (auto simp: ms)
  qed
qed

lemma sleep_grows:
  assumes "0 \<le> t" and "0 < k \<longrightarrow> (2 ^ min (k - 1) 33 - 1) * second \<le> t"
    and "t1 = (if k > 0 then t + max 0 (webhook_backoff k) else t)"
  shows "(2 ^ min k 33 - 1) * second \<le> t1 \<and> 0 \<le> t1"
proof (cases "1 \<le> k \<and> k \<le> 33")
  case True
  then obtain j where j: "k = Suc j" by (cases k) auto
  have b: "webhook_backoff k = 2 ^ j * second" using webhook_backoff_small [of k] True j by simp
  have "min k 33 = Suc j" "min (k - 1) 33 = j" using True j by auto
  with assms b j show ?thesis by (simp add: algebra_simps second_def)
next
  case False
  then consider "k = 0" | "33 < k" by linarith
  then show ?thesis
  proof cases
    case 2
    then have "min k 33 = 33" "min (k - 1) 33 = 33" by auto
    with assms 2 show ?thesis by (auto simp: max_def)
  qed (use assms in simp)
qed

lemma send_loop_times:
  assumes "\<forall>k. 0 \<le> snd (http k)" and "0 \<le> t" and "0 < k \<longrightarrow> (2 ^ min (k - 1) 33 - 1) * second \<le> t"
    and "i < length (send_loop http d retries k t)"
  shows "(2 ^ min (k + i) 33 - 1) * second \<le> tm_at (send_loop http d retries k t ! i)"
  using assms(2-4)
proof (induction i arbitrary: k t)
  case 0
  then have k: "int k \<le> retries" using send_loop_end [of retries k http d t] by (cases "retries < int k") auto
  obtain t1 where t1: "t1 = (if k > 0 then t + max 0 (webhook_backoff k) else t)"
    "tm_at (send_loop http d retries k t ! 0) = t1"
    using send_loop_step [OF k, of t http d] by (metis nth_Cons_0 try_made.select_convs(1))
  with sleep_grows [OF 0(1,2) t1(1)] show ?case by simp
next
  case (Suc i)
  then have k: "int k \<le> retries" using send_loop_end [of retries k http d t] by (cases "retries < int k") auto
  obtain t1 e t2 where s: "t1 = (if k > 0 then t + max 0 (webhook_backoff k) else t)"
    "deliver_webhook http d k t1 = (e, t2)"
    "send_loop http d retries k t = \<lparr>tm_at = t1, tm_error = e\<rparr> #
       (if e = None then [] else send_loop http d retries (Suc k) t2)"
    using send_loop_step [OF k] by metis
  have t12: "t1 \<le> t2" using deliver_webhook_cases [OF s(2)] assms(1) by blast
  with sleep_grows [OF Suc.prems(1,2) s(1)]
  have t2: "0 \<le> t2" "0 < Suc k \<longrightarrow> (2 ^ min (Suc k - 1) 33 - 1) * second \<le> t2" by auto
  have ne: "e \<noteq> None" and i: "i < length (send_loop http d retries (Suc k) t2)"
    using Suc.prems(3) s(3) by (auto split: if_splits)
  from Suc.IH [OF t2 i] s(3) ne show ?case by simp
qed

text \<open>
  The delivery of a webhook always ends, after at most as many requests as its retries allow
  and one more, and every request before the last one failed.  Without a success all of them are
  made.  The waits double from one second on while the deadline covers the whole delivery, so
  that try \<open>i\<close> begins no earlier than \<open>2^i - 1\<close> seconds (\<open>i\<close> cut off at 33) after the first: within the default
  ten seconds only four requests can succeed, whatever number of retries is configured.
\<close>

theorem webhook_delivery:
  assumes "\<forall>k. 0 \<le> snd (http k)" and "0 \<le> max_tries w"
  shows "let ms = send_webhook http w
    in ms \<noteq> [] \<and> int (length ms) \<le> max_tries w + 1 \<and>
       (\<forall>i. Suc i < length ms \<longrightarrow> tm_error (ms ! i) \<noteq> None) \<and>
       (delivered ms \<or> int (length ms) = max_tries w + 1) \<and>
       (\<forall>i < length ms. (2 ^ min i 33 - 1) * second \<le> tm_at (ms ! i)) \<and>
       (\<forall>m \<in> set ms. tm_error m = None \<longrightarrow> tm_at m < delivery_timeout w) \<and>
       (delivered ms \<and> wh_timeout w = 0 \<longrightarrow> length ms \<le> 4)"
proof -
  define ms where "ms = send_webhook http w"
  have shape: "int (length ms) \<le> max_tries w + 1" "\<forall>i. Suc i < length ms \<longrightarrow> tm_error (ms ! i) \<noteq> None"
    "delivered ms \<or> int (length ms) = max_tries w + 1"
    "\<forall>m \<in> set ms. tm_error m = None \<longrightarrow> tm_at m < delivery_timeout w"
    using send_loop_shape [of 0 "max_tries w" ms http "delivery_timeout w" 0] assms(2)
    by (simp_all add: ms_def send_webhook_def)
  have times: "(2 ^ min i 33 - 1) * second \<le> tm_at (ms ! i)" if "i < length ms" for i
    using send_loop_times [OF assms(1), of 0 0 i "delivery_timeout w" "max_tries w"] that
    by (simp add: ms_def send_webhook_def)
  have four: "length ms \<le> 4" if del: "delivered ms" and to: "wh_timeout w = 0"
  proof (rule ccontr)
    assume "\<not> length ms \<le> 4"
    define i where "i = length ms - 1"
    have i: "4 \<le> i" "i < length ms" using \<open>\<not> length ms \<le> 4\<close> by (auto simp: i_def)
    have "tm_error (ms ! i) = None" using del last_conv_nth [of ms] by (auto simp: delivered_def i_def)
    then have at: "tm_at (ms ! i) < 10 * second"
      using shape(4) i(2) to by (force simp: delivery_timeout_def)
    have "(2::int) ^ 4 \<le> 2 ^ min i 33" using i(1) by (intro power_increasing) auto
    with times [OF i(2)] at show False by (simp add: second_def)
  qed
  have "ms \<noteq> []" using shape(3) assms(2) by (auto simp: delivered_def)
  with shape times four show ?thesis by (simp add: ms_def [symmetric] Let_def)
qed

definition slow_hook :: webhook where
  "slow_hook = \<lparr>wh_url = ''http://h'', wh_events = [], wh_headers = [], wh_timeout = 0, wh_retry = 6,
     wh_enabled = True\<rparr>"

text \<open>
  A server that is up again nine seconds later is reached by none of six retries.\<close>

theorem webhook_delivery_witness:
  "length (send_webhook (\<lambda>k. (if k < 4 then Some ''refused'' else None, 0)) slow_hook) = 7 \<and>
   \<not> delivered (send_webhook (\<lambda>k. (if k < 4 then Some ''refused'' else None, 0)) slow_hook)"
proof -
  let ?http = "\<lambda>k::nat. (if k < 4 then Some ''refused'' else None, 0::duration)"
  let ?ms = "send_webhook ?http slow_hook"
  have t: "max_tries slow_hook = 6" "delivery_timeout slow_hook = 10 * second" "wh_timeout slow_hook = 0"
    by (simp_all add: max_tries_def delivery_timeout_def slow_hook_def)
  have *: "\<forall>k. 0 \<le> snd (?http k)" "0 \<le> max_tries slow_hook" by (simp_all add: t)
  note w = webhook_delivery [OF *, unfolded Let_def t]
  have "\<not> delivered ?ms" by code_simp
  with w show ?thesis by simp
qed

end
