(* ===== verification/Migration_Webhooks.thy ===== *)
theory Migration_Webhooks
  imports Go_Prelude
begin

text \<open>
  Webhooks of migrations, \<open>providers/common/webhooks.go\<close>: the configuration with its defaults, the
  event filter, the messages for Slack and Discord, and the delivery with its retries.  An HTTP
  request is an argument, its error for each attempt; so are the renderings of durations and
  times.  The metadata of an event, which this code never sets, is left out.
\<close>

section \<open>Configuration and events\<close>

type_synonym webhook_type = string

definition webhook_slack :: webhook_type where "webhook_slack = ''slack''"
definition webhook_discord :: webhook_type where "webhook_discord = ''discord''"
definition webhook_generic :: webhook_type where "webhook_generic = ''generic''"
definition webhook_email :: webhook_type where "webhook_email = ''email''"

record webhook_config =
  wc_type :: webhook_type
  wc_url :: string
  wc_enabled :: bool
  wc_on_start :: bool
  wc_on_complete :: bool
  wc_on_error :: bool
  wc_on_warning :: bool
  wc_slack_channel :: string
  wc_slack_username :: string
  wc_slack_icon_url :: string
  wc_discord_username :: string
  wc_discord_avatar_url :: string
  wc_email_from :: string
  wc_email_to :: "string list"
  wc_email_subject :: string
  wc_max_retries :: int
  wc_retry_delay :: duration
  wc_timeout :: duration

record webhook_event =
  we_type :: string
  we_task_id :: string
  we_vm_name :: string
  we_provider :: string
  we_status :: string
  we_message :: string
  we_timestamp :: instant
  we_duration :: duration
  we_error :: string

definition new_notifier :: "webhook_config \<Rightarrow> webhook_config" where
  "new_notifier c =
     (let c = (if wc_timeout c = 0 then c\<lparr>wc_timeout := 10 * second\<rparr> else c);
          c = (if wc_max_retries c = 0 then c\<lparr>wc_max_retries := 3\<rparr> else c)
      in if wc_retry_delay c = 0 then c\<lparr>wc_retry_delay := 5 * second\<rparr> else c)"

definition should_notify :: "webhook_config \<Rightarrow> webhook_event \<Rightarrow> bool" where
  "should_notify c e =
     (if we_type e = ''start'' then wc_on_start c
      else if we_type e = ''complete'' then wc_on_complete c
      else if we_type e = ''error'' then wc_on_error c
      else if we_type e = ''warning'' then wc_on_warning c
      else True)"

section \<open>Messages\<close>

datatype json =
    JText string
  | JInt int
  | JBool bool
  | JList "json list"
  | JObject "(string \<times> json) list"

record renderings =
  rn_duration :: "duration \<Rightarrow> string"
  rn_rfc3339 :: "instant \<Rightarrow> string"

definition unix_time :: "instant \<Rightarrow> int" where
  "unix_time t = t div second - 62135596800"

definition slack_field :: "string \<Rightarrow> string \<Rightarrow> bool \<Rightarrow> json" where
  "slack_field title v short =
     JObject [(''title'', JText title), (''value'', JText v), (''short'', JBool short)]"

definition slack_color :: "webhook_event \<Rightarrow> string" where
  "slack_color e =
     (if we_type e = ''error'' then ''danger''
      else if we_type e = ''warning'' then ''warning'' else ''good'')"

definition user_or_default :: "string \<Rightarrow> string" where
  "user_or_default u = (if u = [] then ''HyperSDK Migration'' else u)"

definition format_slack :: "renderings \<Rightarrow> webhook_config \<Rightarrow> webhook_event \<Rightarrow> json" where
  "format_slack rn c e =
     (let fields =
            [slack_field ''Event'' (we_type e) True, slack_field ''Status'' (we_status e) True,
             slack_field ''Task ID'' (we_task_id e) True, slack_field ''Provider'' (we_provider e) True] @
            (if we_error e \<noteq> [] then [slack_field ''Error'' (we_error e) False] else []) @
            (if 0 < we_duration e then [slack_field ''Duration'' (rn_duration rn (we_duration e)) True]
             else []);
          attachment = JObject
            ([(''color'', JText (slack_color e)), (''title'', JText (''VM Migration: '' @ we_vm_name e)),
              (''fields'', JList fields), (''footer'', JText ''HyperSDK''),
              (''ts'', JInt (unix_time (we_timestamp e)))] @
             (if we_message e \<noteq> [] then [(''text'', JText (we_message e))] else []))
      in JObject
           ([(''username'', JText (user_or_default (wc_slack_username c))),
             (''attachments'', JList [attachment])] @
            (if wc_slack_channel c \<noteq> [] then [(''channel'', JText (wc_slack_channel c))] else []) @
            (if wc_slack_icon_url c \<noteq> [] then [(''icon_url'', JText (wc_slack_icon_url c))] else [])))"

definition discord_field :: "string \<Rightarrow> string \<Rightarrow> bool \<Rightarrow> json" where
  "discord_field name v inl =
     JObject [(''name'', JText name), (''value'', JText v), (''inline'', JBool inl)]"

definition discord_color :: "webhook_event \<Rightarrow> int" where
  "discord_color e =
     (if we_type e = ''error'' then 0xff0000
      else if we_type e = ''warning'' then 0xffa500 else 0x00ff00)"

definition format_discord :: "renderings \<Rightarrow> webhook_config \<Rightarrow> webhook_event \<Rightarrow> json" where
  "format_discord rn c e =
     (let fields =
            [discord_field ''Event'' (we_type e) True, discord_field ''Status'' (we_status e) True,
             discord_field ''Task ID'' (we_task_id e) True, discord_field ''Provider'' (we_provider e) True] @
            (if we_error e \<noteq> [] then [discord_field ''Error'' (we_error e) False] else []) @
            (if 0 < we_duration e then [discord_field ''Duration'' (rn_duration rn (we_duration e)) True]
             else []);
          embed = JObject
            [(''title'', JText (''VM Migration: '' @ we_vm_name e)),
             (''description'', JText (we_message e)), (''color'', JInt (discord_color e)),
             (''fields'', JList fields), (''footer'', JObject [(''text'', JText ''HyperSDK'')]),
             (''timestamp'', JText (rn_rfc3339 rn (we_timestamp e)))]
      in JObject
           ([(''username'', JText (user_or_default (wc_discord_username c))), (''embeds'', JList [embed])] @
            (if wc_discord_avatar_url c \<noteq> []
             then [(''avatar_url'', JText (wc_discord_avatar_url c))] else [])))"

text \<open>The event itself is sent to a generic webhook.\<close>

datatype webhook_payload = Message json | Event webhook_event

section \<open>Delivery\<close>

datatype notify_error =
    UnsupportedWebhook string
  | AllAttemptsFailed int "string option"

text \<open>The answer is the error and the payload with the number of requests made.\<close>

function notify_loop ::
  "(nat \<Rightarrow> string option) \<Rightarrow> int \<Rightarrow> nat \<Rightarrow> string option \<Rightarrow> notify_error option \<times> nat" where
  "notify_loop http retries k err =
     (if retries < int k then (Some (AllAttemptsFailed (retries + 1) err), k)
      else case http k of
             None \<Rightarrow> (None, Suc k)
           | Some e \<Rightarrow> notify_loop http retries (Suc k) (Some e))"
  by pat_completeness auto
termination by (relation "measure (\<lambda>(http, retries, k, err). nat (retries + 1 - int k))") auto

declare notify_loop.simps [simp del]

definition payload_for ::
  "renderings \<Rightarrow> webhook_config \<Rightarrow> webhook_event \<Rightarrow> notify_error + webhook_payload" where
  "payload_for rn c e =
     (if wc_type c = webhook_slack then Inr (Message (format_slack rn c e))
      else if wc_type c = webhook_discord then Inr (Message (format_discord rn c e))
      else if wc_type c = webhook_generic then Inr (Event e)
      else Inl (UnsupportedWebhook (wc_type c)))"

definition notify_webhook ::
  "renderings \<Rightarrow> (webhook_payload \<Rightarrow> nat \<Rightarrow> string option) \<Rightarrow> webhook_config \<Rightarrow> webhook_event \<Rightarrow>
   notify_error option \<times> nat" where
  "notify_webhook rn http c e =
     (if \<not> wc_enabled c then (None, 0)
      else if \<not> should_notify c e then (None, 0)
      else case payload_for rn c e of
             Inl err \<Rightarrow> (Some err, 0)
           | Inr p \<Rightarrow> notify_loop (http p) (wc_max_retries c) 0 None)"

text \<open>The manager keeps the enabled webhooks; each event is given to all of them.\<close>

definition new_webhook_manager :: "webhook_config list \<Rightarrow> webhook_config list" where
  "new_webhook_manager cs = map new_notifier (filter wc_enabled cs)"

definition notify_all_webhooks :: "webhook_config list \<Rightarrow> webhook_event \<Rightarrow> (webhook_config \<times> webhook_event) list" where
  "notify_all_webhooks ws e = map (\<lambda>w. (w, e)) ws"

definition bare_event :: "instant \<Rightarrow> string \<Rightarrow> string \<Rightarrow> string \<Rightarrow> string \<Rightarrow> string \<Rightarrow> webhook_event" where
  "bare_event now kind t vm prov st = \<lparr>we_type = kind, we_task_id = t, we_vm_name = vm,
     we_provider = prov, we_status = st, we_message = [], we_timestamp = now, we_duration = 0,
     we_error = []\<rparr>"

definition start_event :: "instant \<Rightarrow> string \<Rightarrow> string \<Rightarrow> string \<Rightarrow> webhook_event" where
  "start_event now t vm prov = bare_event now ''start'' t vm prov ''started''"

definition complete_event :: "instant \<Rightarrow> string \<Rightarrow> string \<Rightarrow> string \<Rightarrow> duration \<Rightarrow> webhook_event" where
  "complete_event now t vm prov d =
     (bare_event now ''complete'' t vm prov ''completed'')\<lparr>we_duration := d\<rparr>"

definition failure_event :: "instant \<Rightarrow> string \<Rightarrow> string \<Rightarrow> string \<Rightarrow> string \<Rightarrow> webhook_event" where
  "failure_event now t vm prov err =
     (bare_event now ''error'' t vm prov ''failed'')\<lparr>we_error := err\<rparr>"

text \<open>The events a single notifier sends carry a message as well.\<close>

definition notifier_start :: "instant \<Rightarrow> string \<Rightarrow> string \<Rightarrow> string \<Rightarrow> webhook_event" where
  "notifier_start now t vm prov =
     (start_event now t vm prov)\<lparr>we_message := ''VM migration started for '' @ vm\<rparr>"

definition notifier_complete :: "instant \<Rightarrow> string \<Rightarrow> string \<Rightarrow> string \<Rightarrow> duration \<Rightarrow> webhook_event" where
  "notifier_complete now t vm prov d =
     (complete_event now t vm prov d)
       \<lparr>we_message := ''VM migration completed successfully for '' @ vm\<rparr>"

definition notifier_failure :: "instant \<Rightarrow> string \<Rightarrow> string \<Rightarrow> string \<Rightarrow> string \<Rightarrow> webhook_event" where
  "notifier_failure now t vm prov err =
     (failure_event now t vm prov err)\<lparr>we_message := ''VM migration failed for '' @ vm\<rparr>"

definition notifier_warning :: "instant \<Rightarrow> string \<Rightarrow> string \<Rightarrow> string \<Rightarrow> string \<Rightarrow> webhook_event" where
  "notifier_warning now t vm prov w =
     (bare_event now ''warning'' t vm prov ''warning'')\<lparr>we_message := w\<rparr>"

section \<open>What a notification does\<close>

lemma notify_loop_outcome:
  assumes "int k \<le> retries + 1"
  shows "\<exists>r n. notify_loop http retries k err = (r, n) \<and> k \<le> n \<and> int n \<le> retries + 1 \<and>
    (\<forall>i. k \<le> i \<and> Suc i < n \<longrightarrow> http i \<noteq> None) \<and>
    (case r of None \<Rightarrow> k < n \<and> http (n - 1) = None
     | Some e \<Rightarrow> e = AllAttemptsFailed (retries + 1) (if k < n then http (n - 1) else err) \<and>
         int n = retries + 1 \<and> (\<forall>i. k \<le> i \<and> i < n \<longrightarrow> http i \<noteq> None))"
  using assms
proof (induction "nat (retries + 1 - int k)" arbitrary: k err)
  case 0
  then have k: "int k = retries + 1" by simp
  have "notify_loop http retries k err = (Some (AllAttemptsFailed (retries + 1) err), k)"
    using k by (simp add: notify_loop.simps)
  with k show ?case by auto
next
  case (Suc n)
  then have k: "int k \<le> retries" by simp
  show ?case
  proof (cases "http k")
    case None
    have "notify_loop http retries k err = (None, Suc k)"
      using None k by (subst notify_loop.simps) simp
    with None k show ?thesis by auto
  next
    case (Some e)
    have s: "notify_loop http retries k err = notify_loop http retries (Suc k) (Some e)"
      using Some k by (subst notify_loop.simps) simp
    have m: "n = nat (retries + 1 - int (Suc k))" using Suc.hyps(2) by simp
    have le: "int (Suc k) \<le> retries + 1" using k by simp
    obtain r m where ih: "notify_loop http retries (Suc k) (Some e) = (r, m)" "Suc k \<le> m"
      "int m \<le> retries + 1" "\<forall>i. Suc k \<le> i \<and> Suc i < m \<longrightarrow> http i \<noteq> None"
      "case r of None \<Rightarrow> Suc k < m \<and> http (m - 1) = None
       | Some e' \<Rightarrow> e' = AllAttemptsFailed (retries + 1) (if Suc k < m then http (m - 1) else Some e) \<and>
           int m = retries + 1 \<and> (\<forall>i. Suc k \<le> i \<and> i < m \<longrightarrow> http i \<noteq> None)"
      using Suc.hyps(1) [OF m le] by blast
    have "http i \<noteq> None" if "k \<le> i \<and> Suc i < m" for i
      using that ih(4) Some by (cases "i = k") auto
    moreover have "http i \<noteq> None" if "k \<le> i \<and> i < m" "r = Some e'" for i e'
      using that ih(5) Some by (cases "i = k") auto
    moreover have "(if Suc k < m then http (m - 1) else Some e) = http (m - 1)"
      using ih(2) Some by (cases "m = Suc k") auto
    ultimately show ?thesis
      using s ih by (intro exI [of _ r] exI [of _ m]) (auto split: option.splits)
  qed
qed

text \<open>
  A webhook of the manager that wants an event gets it: one request at least and no more than
  its retries and one, each but the last one refused; the notification reports no error exactly
  when the last one was accepted.  A webhook that filters the event gets no request, and one of a
  type that is not Slack, Discord or generic, e-mail included, fails without a request.
\<close>

theorem notification_outcome:
  assumes "w \<in> set (new_webhook_manager cs)" and "0 \<le> wc_max_retries w"
    and "notify_webhook rn http w e = (err, n)"
  shows "(\<not> should_notify w e \<longrightarrow> err = None \<and> n = 0) \<and>
    (should_notify w e \<longrightarrow>
       (case payload_for rn w e of
          Inl x \<Rightarrow> err = Some x \<and> n = 0 \<and>
            wc_type w \<notin> {webhook_slack, webhook_discord, webhook_generic}
        | Inr p \<Rightarrow> 1 \<le> n \<and> int n \<le> wc_max_retries w + 1 \<and>
            (\<forall>i. Suc i < n \<longrightarrow> http p i \<noteq> None) \<and> (err = None \<longleftrightarrow> http p (n - 1) = None) \<and>
            (err \<noteq> None \<longrightarrow> int n = wc_max_retries w + 1))) \<and>
    (should_notify w e \<and> wc_type w = webhook_email \<longrightarrow> err = Some (UnsupportedWebhook ''email''))"
proof -
  have en: "wc_enabled w"
    using assms(1) by (auto simp: new_webhook_manager_def new_notifier_def Let_def)
  show ?thesis
  proof (cases "should_notify w e")
    case False
    with en assms(3) show ?thesis by (simp add: notify_webhook_def)
  next
    case True
    show ?thesis
    proof (cases "payload_for rn w e")
      case (Inl x)
      with en True assms(3) show ?thesis
        by (auto simp: notify_webhook_def payload_for_def webhook_email_def split: if_splits)
    next
      case (Inr p)
      then have ty: "wc_type w \<noteq> webhook_email"
        by (auto simp: payload_for_def webhook_email_def webhook_slack_def webhook_discord_def
            webhook_generic_def split: if_splits)
      have "notify_loop (http p) (wc_max_retries w) 0 None = (err, n)"
        using en True Inr assms(3) by (simp add: notify_webhook_def)
      with notify_loop_outcome [of 0 "wc_max_retries w" "http p" None] assms(2)
      have n: "int n \<le> wc_max_retries w + 1" "\<forall>i. Suc i < n \<longrightarrow> http p i \<noteq> None"
        "case err of None \<Rightarrow> 0 < n \<and> http p (n - 1) = None
         | Some e \<Rightarrow> int n = wc_max_retries w + 1 \<and> (\<forall>i < n. http p i \<noteq> None)"
        by (auto split: option.splits)
      then have "1 \<le> n" using assms(2) by (auto split: option.splits)
      with n True Inr ty show ?thesis by (auto split: option.splits)
    qed
  qed
qed

definition plain_hook :: webhook_config where
  "plain_hook = \<lparr>wc_type = webhook_generic, wc_url = ''http://h'', wc_enabled = True,
     wc_on_start = True, wc_on_complete = True, wc_on_error = True, wc_on_warning = False,
     wc_slack_channel = [], wc_slack_username = [], wc_slack_icon_url = [], wc_discord_username = [],
     wc_discord_avatar_url = [], wc_email_from = [], wc_email_to = [], wc_email_subject = [],
     wc_max_retries = 0, wc_retry_delay = 0, wc_timeout = 0\<rparr>"

theorem notification_outcome_witness:
  "\<exists>n. notify_webhook \<lparr>rn_duration = (\<lambda>d. []), rn_rfc3339 = (\<lambda>t. [])\<rparr> (\<lambda>p i. Some ''refused'')
     (new_notifier plain_hook) (start_event 1 ''t'' ''vm'' ''aws'') =
       (Some (AllAttemptsFailed 4 (Some ''refused'')), n) \<and> int n = 4"
proof -
  let ?w = "new_notifier plain_hook" and ?e = "start_event 1 ''t'' ''vm'' ''aws''"
  let ?rn = "\<lparr>rn_duration = (\<lambda>d. []), rn_rfc3339 = (\<lambda>t. [])\<rparr>"
  have w: "?w \<in> set (new_webhook_manager [plain_hook])" "wc_max_retries ?w = 3" "should_notify ?w ?e"
    "payload_for ?rn ?w ?e = Inr (Event ?e)"
    by (simp_all add: new_webhook_manager_def new_notifier_def plain_hook_def should_notify_def
        start_event_def bare_event_def payload_for_def webhook_generic_def webhook_slack_def
        webhook_discord_def)
  obtain n where n: "notify_webhook ?rn (\<lambda>p i. Some ''refused'') ?w ?e =
      (Some (AllAttemptsFailed 4 (Some ''refused'')), n)"
    using notify_loop_outcome [of 0 3 "\<lambda>i. Some ''refused''" None] w
    by (auto simp: notify_webhook_def new_notifier_def plain_hook_def split: option.splits)
  with notification_outcome [OF w(1) _ n] w show ?thesis by simp
qed

end
