(* ===== verification/Migration_Orchestrator.thy ===== *)
theory Migration_Orchestrator
  imports Progress_Tracker Audit_Log Migration_Webhooks Batch_Orchestrator
begin

text \<open>
  End-to-end migrations: \<open>providers/common/migration_orchestrator.go\<close>, with the conversion manager
  (\<open>conversion_manager.go\<close>) and the metrics (\<open>metrics.go\<close>) it uses, over the progress tracker, the
  audit log, the webhooks and the cloud storage manager.  The audit log is the list of events
  given to it (its errors are only logged here), the webhooks the list of events given to all of
  them.  The converter, the file sizes, the clock and the uploader are arguments (\<open>migration_env\<close>).
\<close>

section \<open>Conversion manager\<close>

record converter_config =
  cvc_timeout :: duration

record conversion_manager =
  cvm_config :: converter_config
  cvm_converter :: bool

definition new_conversion_manager :: "converter_config option \<Rightarrow> conversion_manager" where
  "new_conversion_manager c =
     (let c = (case c of None \<Rightarrow> \<lparr>cvc_timeout = 0\<rparr> | Some c \<Rightarrow> c);
          c = (if cvc_timeout c = 0 then c\<lparr>cvc_timeout := 2 * hour\<rparr> else c)
      in \<lparr>cvm_config = c, cvm_converter = False\<rparr>)"

definition set_manager_converter :: "bool \<Rightarrow> conversion_manager \<Rightarrow> conversion_manager" where
  "set_manager_converter b m = m\<lparr>cvm_converter := b\<rparr>"

record converter_env =
  ce_validate :: "string option"
  ce_convert :: "string \<Rightarrow> convert_options \<Rightarrow> string + conversion_result"

text \<open>Errors are their texts; the result that accompanies an error is not used by any caller.\<close>

definition manager_convert ::
  "converter_env \<Rightarrow> conversion_manager \<Rightarrow> string \<Rightarrow> convert_options \<Rightarrow> string + conversion_result" where
  "manager_convert env m path opts =
     (if \<not> cvm_converter m then Inl ''no converter configured''
      else case ce_validate env of
             Some e \<Rightarrow> Inl (''converter validation failed: '' @ e)
           | None \<Rightarrow>
               (case ce_convert env path opts of Inl e \<Rightarrow> Inl e | Inr r \<Rightarrow> Inr r))"

definition contains_text :: "string \<Rightarrow> string \<Rightarrow> bool" where
  "contains_text s p = sublist p s"

definition provider_tag :: "string \<Rightarrow> string" where
  "provider_tag p = [CHR 0x22] @ ''provider'' @ [CHR 0x22] @ '':'' @ [CHR 0x22] @ p @ [CHR 0x22]"

text \<open>\<open>DetectProvider\<close> on the content of the manifest; \<open>None\<close> is a file that cannot be read.\<close>

definition detect_provider :: "string option \<Rightarrow> string option" where
  "detect_provider content =
     (case content of
        None \<Rightarrow> None
      | Some s \<Rightarrow>
          if contains_text s (provider_tag ''vsphere'') \<or> contains_text s (provider_tag ''vmware'')
          then Some ''vsphere''
          else if contains_text s (provider_tag ''aws'') \<or> contains_text s ''ec2'' then Some ''aws''
          else if contains_text s (provider_tag ''azure'') then Some ''azure''
          else if contains_text s (provider_tag ''gcp'') \<or> contains_text s ''compute'' then Some ''gcp''
          else None)"

section \<open>Metrics\<close>

text \<open>The sums of seconds are kept as the lists of their summands, in the order of addition.\<close>

record migration_metrics =
  mm_total :: int
  mm_succeeded :: int
  mm_failed :: int
  mm_export_times :: "duration list"
  mm_conversion_times :: "duration list"
  mm_upload_times :: "duration list"
  mm_migration_times :: "duration list"
  mm_bytes_exported :: int
  mm_bytes_converted :: int
  mm_bytes_uploaded :: int
  mm_active :: int
  mm_providers :: "(string, int) gomap"
  mm_start :: instant

definition new_metrics :: "instant \<Rightarrow> migration_metrics" where
  "new_metrics now = \<lparr>mm_total = 0, mm_succeeded = 0, mm_failed = 0, mm_export_times = [],
     mm_conversion_times = [], mm_upload_times = [], mm_migration_times = [], mm_bytes_exported = 0,
     mm_bytes_converted = 0, mm_bytes_uploaded = 0, mm_active = 0, mm_providers = [],
     mm_start = now\<rparr>"

definition record_migration_start :: "string \<Rightarrow> migration_metrics \<Rightarrow> migration_metrics" where
  "record_migration_start prov m =
     m\<lparr>mm_total := mm_total m + 1, mm_active := mm_active m + 1,
       mm_providers := gm_put prov
         ((case gm_get (mm_providers m) prov of None \<Rightarrow> 0 | Some n \<Rightarrow> n) + 1) (mm_providers m)\<rparr>"

definition record_migration_success ::
  "duration \<Rightarrow> duration \<Rightarrow> duration \<Rightarrow> int \<Rightarrow> int \<Rightarrow> int \<Rightarrow> migration_metrics \<Rightarrow> migration_metrics" where
  "record_migration_success ex cv up bex bcv bup m =
     m\<lparr>mm_succeeded := mm_succeeded m + 1, mm_active := mm_active m - 1,
       mm_export_times := mm_export_times m @ [ex],
       mm_conversion_times := mm_conversion_times m @ [cv],
       mm_upload_times := mm_upload_times m @ [up],
       mm_migration_times := mm_migration_times m @ [ex + cv + up],
       mm_bytes_exported := mm_bytes_exported m + bex,
       mm_bytes_converted := mm_bytes_converted m + bcv,
       mm_bytes_uploaded := mm_bytes_uploaded m + bup\<rparr>"

definition record_migration_failure :: "migration_metrics \<Rightarrow> migration_metrics" where
  "record_migration_failure m = m\<lparr>mm_failed := mm_failed m + 1, mm_active := mm_active m - 1\<rparr>"

definition reset_metrics :: "instant \<Rightarrow> migration_metrics \<Rightarrow> migration_metrics" where
  "reset_metrics now m = new_metrics now"

section \<open>The orchestrator\<close>

record migration_orchestrator =
  mo_conversion :: "conversion_manager option"
  mo_parallel :: bool
  mo_cloud :: "cloud_manager option"
  mo_batch :: "orchestrator option"
  mo_tracker :: "progress_tracker option"
  mo_metrics :: "migration_metrics option"
  mo_audited :: "audit_event list option"
  mo_webhooks :: "webhook_config list option"
  mo_notified :: "webhook_event list"

record orchestrator_config =
  orc_conversion :: bool
  orc_parallel :: bool
  orc_cloud :: bool
  orc_batch :: bool
  orc_progress :: bool
  orc_metrics :: bool
  orc_audit :: bool
  orc_webhooks :: bool
  orc_audit_path :: string
  orc_webhook_configs :: "webhook_config list"

definition zero_batch_config :: batch_config where
  "zero_batch_config = \<lparr>bc_vms = [], bc_max_parallel = 0, bc_output_dir = [],
     bc_convert_options = \<lparr>co_stream_output = False, co_verbose = False, co_dry_run = False,
       co_target_format = [], co_compression_level = 0, co_preserve_mac = False, co_custom_args = []\<rparr>,
     bc_upload_to_cloud = False, bc_cloud_storage = None, bc_max_retries = 0, bc_retry_delay = 0,
     bc_continue_on_error = False\<rparr>"

datatype new_orchestrator_error = BatchOrchestratorFailed batch_config_error | AuditLoggerFailed

text \<open>\<open>audit_ok\<close> is whether the audit log could be opened.\<close>

definition new_migration_orchestrator ::
  "bool \<Rightarrow> instant \<Rightarrow> orchestrator_config \<Rightarrow> new_orchestrator_error + migration_orchestrator" where
  "new_migration_orchestrator audit_ok now c =
     (let mo = \<lparr>mo_conversion = (if orc_conversion c
                  then Some (new_conversion_manager (Some \<lparr>cvc_timeout = 0\<rparr>)) else None),
            mo_parallel = orc_parallel c, mo_cloud = None, mo_batch = None, mo_tracker = None,
            mo_metrics = None, mo_audited = None, mo_webhooks = None, mo_notified = []\<rparr>
      in case (if orc_batch c then
                 (case new_batch_orchestrator (Some zero_batch_config) of
                    Inl e \<Rightarrow> Inl (BatchOrchestratorFailed e)
                  | Inr b \<Rightarrow> Inr (mo\<lparr>mo_batch := Some b\<rparr>))
               else Inr mo) of
           Inl e \<Rightarrow> Inl e
         | Inr mo \<Rightarrow>
             let mo = mo\<lparr>mo_tracker := if orc_progress c then Some new_progress_tracker else None,
                         mo_metrics := if orc_metrics c then Some (new_metrics now) else None\<rparr>
             in if orc_audit c \<and> orc_audit_path c \<noteq> [] \<and> \<not> audit_ok then Inl AuditLoggerFailed
                else Inr (mo\<lparr>mo_audited := if orc_audit c \<and> orc_audit_path c \<noteq> [] then Some [] else None,
                  mo_webhooks := if orc_webhooks c \<and> orc_webhook_configs c \<noteq> []
                    then Some (new_webhook_manager (orc_webhook_configs c)) else None\<rparr>))"

record migration_config =
  mgc_vm_name :: string
  mgc_provider :: string
  mgc_output_dir :: string
  mgc_target_format :: string
  mgc_export_manifest :: bool
  mgc_verify_export :: bool
  mgc_enable_conversion :: bool
  mgc_convert_options :: convert_options
  mgc_parallel_disks :: bool
  mgc_max_parallel_disks :: int
  mgc_upload_to_cloud :: bool
  mgc_cloud_destination :: string
  mgc_user :: string
  mgc_ip_address :: string

record migration_outcome =
  mg_task_id :: string
  mg_vm_name :: string
  mg_provider :: string
  mg_success :: bool
  mg_error :: string
  mg_export_duration :: duration
  mg_exported_files :: "string list"
  mg_export_size :: int
  mg_manifest_path :: string
  mg_conversion_duration :: duration
  mg_converted_files :: "string list"
  mg_conversion_size :: int
  mg_conversion_report :: string
  mg_upload_duration :: duration
  mg_uploaded_files :: "string list"
  mg_cloud_destination :: string
  mg_total_duration :: duration
  mg_total_size :: int
  mg_start_time :: instant
  mg_end_time :: instant

text \<open>
  What the world answers during a migration: the nanosecond that names the task, the readings of
  the clock at the places numbered below, the converter, the sizes of files, and the uploader.
\<close>

record migration_env =
  men_nano :: int
  men_clock :: "nat \<Rightarrow> instant"
  men_converter :: converter_env
  men_conversion_time :: duration
  men_file_size :: "string \<Rightarrow> int option"
  men_upload :: upload_env
  men_upload_time :: duration

definition generate_task_id :: "int \<Rightarrow> string" where
  "generate_task_id unix_nano = ''task_'' @ dec_int unix_nano"

section \<open>One migration\<close>

text \<open>What each part of the orchestrator is told, when there is that part.\<close>

definition tell_tracker ::
  "(progress_tracker \<Rightarrow> progress_tracker go_outcome) \<Rightarrow> migration_orchestrator \<Rightarrow>
   migration_orchestrator go_outcome" where
  "tell_tracker f mo =
     (case mo_tracker mo of
        None \<Rightarrow> Returns mo
      | Some pt \<Rightarrow>
          (case f pt of Panics \<Rightarrow> Panics | Returns pt \<Rightarrow> Returns (mo\<lparr>mo_tracker := Some pt\<rparr>)))"

definition tell_metrics ::
  "(migration_metrics \<Rightarrow> migration_metrics) \<Rightarrow> migration_orchestrator \<Rightarrow> migration_orchestrator" where
  "tell_metrics f mo = mo\<lparr>mo_metrics := map_option f (mo_metrics mo)\<rparr>"

definition tell_audit :: "audit_event \<Rightarrow> migration_orchestrator \<Rightarrow> migration_orchestrator" where
  "tell_audit e mo = mo\<lparr>mo_audited := map_option (\<lambda>es. es @ [e]) (mo_audited mo)\<rparr>"

definition tell_webhooks :: "webhook_event \<Rightarrow> migration_orchestrator \<Rightarrow> migration_orchestrator" where
  "tell_webhooks e mo =
     (if mo_webhooks mo = None then mo else mo\<lparr>mo_notified := mo_notified mo @ [e]\<rparr>)"

definition update_task ::
  "instant \<Rightarrow> string \<Rightarrow> (progress_info \<Rightarrow> progress_info) \<Rightarrow> progress_tracker \<Rightarrow> progress_tracker go_outcome" where
  "update_task now t f pt = snd_outcome (pt_update_progress now t f pt)"

definition new_outcome :: "migration_env \<Rightarrow> migration_config \<Rightarrow> migration_outcome" where
  "new_outcome env c =
     \<lparr>mg_task_id = generate_task_id (men_nano env), mg_vm_name = mgc_vm_name c,
      mg_provider = mgc_provider c, mg_success = False, mg_error = [], mg_export_duration = 0,
      mg_exported_files = [], mg_export_size = 0, mg_manifest_path = [],
      mg_conversion_duration = 0, mg_converted_files = [], mg_conversion_size = 0,
      mg_conversion_report = [], mg_upload_duration = 0, mg_uploaded_files = [],
      mg_cloud_destination = [], mg_total_duration = 0, mg_total_size = 0,
      mg_start_time = men_clock env 0, mg_end_time = 0\<rparr>"

definition begin_migration ::
  "migration_env \<Rightarrow> migration_config \<Rightarrow> migration_orchestrator \<Rightarrow> migration_orchestrator go_outcome" where
  "begin_migration env c mo =
     (let t = generate_task_id (men_nano env); vm = mgc_vm_name c; prov = mgc_provider c
      in case tell_tracker (start_task (men_clock env 1) t vm prov) mo of
           Panics \<Rightarrow> Panics
         | Returns mo \<Rightarrow>
             Returns (tell_webhooks (start_event (men_clock env 2) t vm prov)
               (tell_audit (migration_start_event t vm prov (mgc_user c))
                 (tell_metrics (record_migration_start prov) mo))))"

definition stat_total :: "(string \<Rightarrow> int option) \<Rightarrow> string list \<Rightarrow> int" where
  "stat_total size_of files =
     fold (\<lambda>f s. case size_of f of None \<Rightarrow> s | Some n \<Rightarrow> s + n) files 0"

text \<open>The conversion phase: the error of the conversion, if it was tried and failed.\<close>

definition conversion_phase ::
  "migration_env \<Rightarrow> migration_config \<Rightarrow> migration_outcome \<Rightarrow> migration_orchestrator \<Rightarrow>
   (string option \<times> migration_outcome \<times> migration_orchestrator) go_outcome" where
  "conversion_phase env c r mo =
     (case (if mgc_enable_conversion c then mo_conversion mo else None) of
        None \<Rightarrow> Returns (None, r, mo)
      | Some cm \<Rightarrow>
          (let t = mg_task_id r; vm = mgc_vm_name c
           in case tell_tracker (update_task (men_clock env 3) t (set_status status_converting)) mo of
                Panics \<Rightarrow> Panics
              | Returns mo \<Rightarrow>
                  let mo = tell_audit (conversion_start_event t vm) mo;
                      path = mgc_output_dir c @ ''/manifest.json''
                  in case manager_convert (men_converter env) cm path (mgc_convert_options c) of
                       Inl e \<Rightarrow> Returns (Some (''conversion: '' @ e), r, mo)
                     | Inr cr \<Rightarrow>
                         let files = cr_converted_files cr;
                             r = r\<lparr>mg_conversion_duration := men_conversion_time env,
                                   mg_converted_files := files,
                                   mg_conversion_size := stat_total (men_file_size env) files\<rparr>
                         in Returns (None, r, tell_audit
                              (conversion_complete_event t vm (men_conversion_time env) files) mo)))"

definition files_to_upload :: "migration_outcome \<Rightarrow> string list" where
  "files_to_upload r = (if mg_converted_files r \<noteq> [] then mg_converted_files r else mg_exported_files r)"

text \<open>The texts of the errors of \<open>UploadConvertedImages\<close>.\<close>

definition upload_error_text :: "upload_error \<Rightarrow> string" where
  "upload_error_text e =
     (case e of
        NoUploader \<Rightarrow> ''no uploader configured''
      | NoConvertedFiles \<Rightarrow> ''no converted files to upload''
      | UploadFailed s \<Rightarrow> ''upload failed: '' @ s)"

definition upload_phase ::
  "migration_env \<Rightarrow> migration_config \<Rightarrow> migration_outcome \<Rightarrow> migration_orchestrator \<Rightarrow>
   (string option \<times> migration_outcome \<times> migration_orchestrator) go_outcome" where
  "upload_phase env c r mo =
     (case (if mgc_upload_to_cloud c \<and> mgc_cloud_destination c \<noteq> [] then mo_cloud mo else None) of
        None \<Rightarrow> Returns (None, r, mo)
      | Some cs \<Rightarrow>
          (let t = mg_task_id r; vm = mgc_vm_name c; dest = mgc_cloud_destination c
           in case tell_tracker (update_task (men_clock env 4) t (set_status status_uploading)) mo of
                Panics \<Rightarrow> Panics
              | Returns mo \<Rightarrow>
                  let mo = tell_audit (upload_start_event t vm dest) mo;
                      files = files_to_upload r
                  in if files = [] then Returns (None, r, mo)
                     else case upload_converted_images (men_upload env) cs files dest of
                            Panics \<Rightarrow> Panics
                          | Returns (Inl e) \<Rightarrow>
                              Returns (Some (''cloud upload: '' @ upload_error_text e), r, mo)
                          | Returns (Inr (urs, dels)) \<Rightarrow>
                              let r = r\<lparr>mg_upload_duration := men_upload_time env,
                                        mg_cloud_destination := dest,
                                        mg_uploaded_files := map ur_remote_path urs\<rparr>
                              in Returns (None, r, tell_audit (upload_complete_event t vm dest
                                   (men_upload_time env) (\<Sum>u\<leftarrow>urs. ur_size u)) mo)))"

definition completion_details :: "migration_outcome \<Rightarrow> (string, detail) gomap" where
  "completion_details r =
     [(''exported_files'', DInt (int (length (mg_exported_files r)))),
      (''converted_files'', DInt (int (length (mg_converted_files r)))),
      (''uploaded_files'', DInt (int (length (mg_uploaded_files r)))),
      (''total_size'', DInt (mg_total_size r))]"

definition complete_migration ::
  "migration_env \<Rightarrow> migration_config \<Rightarrow> migration_outcome \<Rightarrow> migration_orchestrator \<Rightarrow>
   (migration_outcome \<times> migration_orchestrator) go_outcome" where
  "complete_migration env c r mo =
     (let t = mg_task_id r; vm = mgc_vm_name c; prov = mgc_provider c;
          now = men_clock env 5; dur = now - mg_start_time r;
          r = r\<lparr>mg_success := True, mg_end_time := now, mg_total_duration := dur,
                mg_total_size := mg_export_size r + mg_conversion_size r\<rparr>
      in case tell_tracker (update_task (men_clock env 7) t (complete_task (men_clock env 6))) mo of
           Panics \<Rightarrow> Panics
         | Returns mo \<Rightarrow>
             Returns (r, tell_webhooks (complete_event (men_clock env 8) t vm prov dur)
               (tell_audit (migration_complete_event t vm prov (mgc_user c) dur (completion_details r))
                 (tell_metrics (record_migration_success (mg_export_duration r)
                    (mg_conversion_duration r) (mg_upload_duration r) (mg_export_size r)
                    (mg_conversion_size r) (mg_conversion_size r)) mo))))"

definition handle_failure ::
  "migration_env \<Rightarrow> migration_config \<Rightarrow> string \<Rightarrow> migration_outcome \<Rightarrow> migration_orchestrator \<Rightarrow>
   (migration_outcome \<times> migration_orchestrator) go_outcome" where
  "handle_failure env c err r mo =
     (let t = mg_task_id r; vm = mgc_vm_name c; prov = mgc_provider c; now = men_clock env 5;
          r = r\<lparr>mg_success := False, mg_error := err, mg_end_time := now,
                mg_total_duration := now - mg_start_time r\<rparr>
      in case tell_tracker (update_task (men_clock env 7) t (fail_task (men_clock env 6) err)) mo of
           Panics \<Rightarrow> Panics
         | Returns mo \<Rightarrow>
             Returns (r, tell_webhooks (failure_event (men_clock env 8) t vm prov err)
               (tell_audit (migration_failed_event t vm prov (mgc_user c) err)
                 (tell_metrics record_migration_failure mo))))"

text \<open>The answer of a migration is its error, its result and the orchestrator afterwards.\<close>

definition finish_phase ::
  "migration_env \<Rightarrow> migration_config \<Rightarrow> string option \<Rightarrow> migration_outcome \<Rightarrow> migration_orchestrator \<Rightarrow>
   (string option \<times> migration_outcome \<times> migration_orchestrator) go_outcome" where
  "finish_phase env c err r mo =
     (case (case err of None \<Rightarrow> complete_migration env c r mo
                      | Some e \<Rightarrow> handle_failure env c e r mo) of
        Panics \<Rightarrow> Panics
      | Returns (r, mo) \<Rightarrow> Returns (err, r, mo))"

definition migrate ::
  "migration_env \<Rightarrow> migration_config \<Rightarrow> migration_orchestrator \<Rightarrow>
   (string option \<times> migration_outcome \<times> migration_orchestrator) go_outcome" where
  "migrate env c mo =
     (case begin_migration env c mo of
        Panics \<Rightarrow> Panics
      | Returns mo \<Rightarrow>
          (case conversion_phase env c (new_outcome env c) mo of
             Panics \<Rightarrow> Panics
           | Returns (Some e, r, mo) \<Rightarrow> finish_phase env c (Some e) r mo
           | Returns (None, r, mo) \<Rightarrow>
               (case upload_phase env c r mo of
                  Panics \<Rightarrow> Panics
                | Returns (err, r, mo) \<Rightarrow> finish_phase env c err r mo)))"

fun migrate_each ::
  "(migration_env \<times> migration_config) list \<Rightarrow> migration_orchestrator \<Rightarrow>
   (migration_outcome list \<times> migration_orchestrator) go_outcome" where
  "migrate_each [] mo = Returns ([], mo)"
| "migrate_each ((env, c) # cs) mo =
     (case migrate env c mo of
        Panics \<Rightarrow> Panics
      | Returns (err, r, mo) \<Rightarrow>
          (case migrate_each cs mo of
             Panics \<Rightarrow> Panics
           | Returns (rs, mo) \<Rightarrow> Returns (r # rs, mo)))"

text \<open>\<open>MigrateBatch\<close>: \<open>Inl\<close> when there is no batch orchestrator; failures do not stop it.\<close>

definition migrate_batch ::
  "(migration_env \<times> migration_config) list \<Rightarrow> migration_orchestrator \<Rightarrow>
   (string + migration_outcome list \<times> migration_orchestrator) go_outcome" where
  "migrate_batch cs mo =
     (if mo_batch mo = None then Returns (Inl ''batch orchestration not enabled'')
      else case migrate_each cs mo of Panics \<Rightarrow> Panics | Returns x \<Rightarrow> Returns (Inr x))"

section \<open>Everybody hears the same story\<close>

definition tracked :: "string \<Rightarrow> (progress_info \<Rightarrow> bool) \<Rightarrow> migration_orchestrator \<Rightarrow> bool" where
  "tracked t P mo \<longleftrightarrow> (\<forall>pt. mo_tracker mo = Some pt \<longrightarrow>
     tracker_ok pt \<and> (\<exists>i. get_task_progress t pt = Some i \<and> P i))"

lemma tell_fields [simp]:
  "mo_tracker (tell_metrics f mo) = mo_tracker mo" "mo_tracker (tell_audit e mo) = mo_tracker mo"
  "mo_tracker (tell_webhooks w mo) = mo_tracker mo" "mo_metrics (tell_audit e mo) = mo_metrics mo"
  "mo_metrics (tell_webhooks w mo) = mo_metrics mo" "mo_audited (tell_metrics f mo) = mo_audited mo"
  "mo_audited (tell_webhooks w mo) = mo_audited mo" "mo_notified (tell_metrics f mo) = mo_notified mo"
  "mo_notified (tell_audit e mo) = mo_notified mo" "mo_webhooks (tell_metrics f mo) = mo_webhooks mo"
  "mo_webhooks (tell_audit e mo) = mo_webhooks mo" "mo_webhooks (tell_webhooks w mo) = mo_webhooks mo"
  "mo_cloud (tell_metrics f mo) = mo_cloud mo" "mo_cloud (tell_audit e mo) = mo_cloud mo"
  "mo_cloud (tell_webhooks w mo) = mo_cloud mo"
  "mo_conversion (tell_metrics f mo) = mo_conversion mo" "mo_conversion (tell_audit e mo) = mo_conversion mo"
  "mo_conversion (tell_webhooks w mo) = mo_conversion mo"
  "mo_batch (tell_metrics f mo) = mo_batch mo" "mo_batch (tell_audit e mo) = mo_batch mo"
  "mo_batch (tell_webhooks w mo) = mo_batch mo"
  by (simp_all add: tell_metrics_def tell_audit_def tell_webhooks_def)

lemma told [simp]:
  "mo_metrics (tell_metrics f mo) = map_option f (mo_metrics mo)"
  "mo_audited (tell_audit e mo) = map_option (\<lambda>es. es @ [e]) (mo_audited mo)"
  "mo_notified (tell_webhooks w mo) =
     (if mo_webhooks mo = None then mo_notified mo else mo_notified mo @ [w])"
  by (simp_all add: tell_metrics_def tell_audit_def tell_webhooks_def)

lemma tracked_tell [simp]:
  "tracked t P (tell_metrics f mo) = tracked t P mo" "tracked t P (tell_audit e mo) = tracked t P mo"
  "tracked t P (tell_webhooks w mo) = tracked t P mo"
  by (simp_all add: tracked_def)

text \<open>Only the tracker differs.\<close>

definition same_but_tracker :: "migration_orchestrator \<Rightarrow> migration_orchestrator \<Rightarrow> bool" where
  "same_but_tracker mo mo' \<longleftrightarrow> (\<exists>x. mo' = mo\<lparr>mo_tracker := x\<rparr>)"

lemma same_but_trackerD:
  assumes "same_but_tracker mo mo'"
  shows "mo_metrics mo' = mo_metrics mo" "mo_audited mo' = mo_audited mo"
    "mo_notified mo' = mo_notified mo" "mo_webhooks mo' = mo_webhooks mo" "mo_cloud mo' = mo_cloud mo"
    "mo_conversion mo' = mo_conversion mo" "mo_batch mo' = mo_batch mo"
  using assms by (auto simp: same_but_tracker_def)

lemma tell_start:
  assumes "\<forall>pt. mo_tracker mo = Some pt \<longrightarrow> tracker_ok pt"
  shows "\<exists>mo'. tell_tracker (start_task now t vm prov) mo = Returns mo' \<and>
    tracked t (\<lambda>i. i = new_task now t vm prov) mo' \<and> same_but_tracker mo mo'"
proof (cases "mo_tracker mo")
  case (Some pt)
  with assms have "tracker_ok pt" by simp
  from start_task_ok [OF this] tracker_ok_sent' [OF this] Some show ?thesis
    by (auto simp: tell_tracker_def tracked_def same_but_tracker_def get_task_progress_def)
qed (auto simp: tell_tracker_def tracked_def same_but_tracker_def intro: exI [of _ "mo_tracker mo"])

lemma tell_update:
  assumes tr: "tracked t P mo" and Q: "\<forall>i. P i \<longrightarrow> Q ((f i)\<lparr>pi_updated_time := now\<rparr>)"
  shows "\<exists>mo'. tell_tracker (update_task now t f) mo = Returns mo' \<and> tracked t Q mo' \<and>
    same_but_tracker mo mo'"
proof (cases "mo_tracker mo")
  case (Some pt)
  with tr obtain i where pt: "tracker_ok pt" and i: "gm_get (pt_tasks pt) t = Some i" "P i"
    by (auto simp: tracked_def get_task_progress_def)
  from update_progress_ok [OF pt i(1)] tracker_ok_sent' [OF pt] Some Q i(2) show ?thesis
    by (auto simp: tell_tracker_def tracked_def same_but_tracker_def get_task_progress_def
        update_task_def snd_outcome_def)
qed (auto simp: tell_tracker_def tracked_def same_but_tracker_def intro: exI [of _ "mo_tracker mo"])

text \<open>What the two phases leave of the result and of the orchestrator.\<close>

definition no_verdict :: "audit_event \<Rightarrow> bool" where
  "no_verdict e \<longleftrightarrow>
     ev_type e \<notin> {event_migration_start, event_migration_complete, event_migration_failed}"

definition carried ::
  "migration_outcome \<Rightarrow> migration_orchestrator \<Rightarrow> migration_outcome \<Rightarrow> migration_orchestrator \<Rightarrow> bool" where
  "carried r mo r' mo' \<longleftrightarrow>
     tracked (mg_task_id r) (\<lambda>i. pi_error i = []) mo' \<and> mo_metrics mo' = mo_metrics mo \<and>
     mo_notified mo' = mo_notified mo \<and> mo_webhooks mo' = mo_webhooks mo \<and> mo_cloud mo' = mo_cloud mo \<and>
     (\<exists>mid. mo_audited mo' = map_option (\<lambda>es. es @ mid) (mo_audited mo) \<and> list_all no_verdict mid) \<and>
     mg_task_id r' = mg_task_id r \<and> mg_start_time r' = mg_start_time r \<and>
     mg_success r' = mg_success r \<and> mg_error r' = mg_error r"

lemma carried_refl:
  "tracked (mg_task_id r) (\<lambda>i. pi_error i = []) mo \<Longrightarrow> carried r mo r mo"
  by (auto simp: carried_def option.map_ident intro!: exI [of _ "[]"])

lemma carried_trans:
  assumes "carried r mo r1 mo1" and "carried r1 mo1 r2 mo2"
  shows "carried r mo r2 mo2"
proof -
  obtain m1 m2 where "mo_audited mo1 = map_option (\<lambda>es. es @ m1) (mo_audited mo)" "list_all no_verdict m1"
    "mo_audited mo2 = map_option (\<lambda>es. es @ m2) (mo_audited mo1)" "list_all no_verdict m2"
    using assms unfolding carried_def by blast
  then have "\<exists>mid. mo_audited mo2 = map_option (\<lambda>es. es @ mid) (mo_audited mo) \<and> list_all no_verdict mid"
    by (intro exI [of _ "m1 @ m2"]) (simp add: option.map_comp comp_def)
  with assms show ?thesis unfolding carried_def by simp
qed

lemmas plain_events = conversion_start_event_def conversion_complete_event_def upload_start_event_def
  upload_complete_event_def zero_event_def event_migration_start_def event_migration_complete_def
  event_migration_failed_def event_conversion_start_def event_conversion_complete_def
  event_upload_start_def event_upload_complete_def

lemma plain_no_verdict [simp]:
  "no_verdict (conversion_start_event t vm)" "no_verdict (conversion_complete_event t vm d fs)"
  "no_verdict (upload_start_event t vm dest)" "no_verdict (upload_complete_event t vm dest d n)"
  by (simp_all add: no_verdict_def plain_events)

lemma carried_audit:
  assumes "carried r mo r' mo'" and "no_verdict e"
  shows "carried r mo r' (tell_audit e mo')"
proof -
  obtain m1 where "mo_audited mo' = map_option (\<lambda>es. es @ m1) (mo_audited mo)" "list_all no_verdict m1"
    using assms(1) unfolding carried_def by blast
  then have "\<exists>mid. mo_audited (tell_audit e mo') = map_option (\<lambda>es. es @ mid) (mo_audited mo) \<and>
      list_all no_verdict mid"
    using assms(2) by (intro exI [of _ "m1 @ [e]"]) (simp add: option.map_comp comp_def)
  with assms(1) show ?thesis unfolding carried_def by (simp del: told)
qed

lemma carried_status:
  assumes "tracked (mg_task_id r) (\<lambda>i. pi_error i = []) mo"
  shows "\<exists>mo'. tell_tracker (update_task now (mg_task_id r) (set_status st)) mo = Returns mo' \<and>
    carried r mo r mo'"
proof -
  obtain mo' where "tell_tracker (update_task now (mg_task_id r) (set_status st)) mo = Returns mo'"
    "tracked (mg_task_id r) (\<lambda>i. pi_error i = []) mo'" "same_but_tracker mo mo'"
    using tell_update [OF assms, of "\<lambda>i. pi_error i = []" now "set_status st"] by (auto simp: set_status_def)
  with same_but_trackerD [OF this(3)] show ?thesis
    by (auto simp: carried_def option.map_ident intro!: exI [of _ "[]"])
qed

lemma carried_result:
  assumes "carried r mo r1 mo'" and "mg_task_id r2 = mg_task_id r1"
    and "mg_start_time r2 = mg_start_time r1" and "mg_success r2 = mg_success r1"
    and "mg_error r2 = mg_error r1"
  shows "carried r mo r2 mo'"
  using assms by (simp add: carried_def)

lemma conversion_phase_ok:
  assumes "tracked (mg_task_id r) (\<lambda>i. pi_error i = []) mo"
  shows "\<exists>err r' mo'. conversion_phase env c r mo = Returns (err, r', mo') \<and> carried r mo r' mo'"
proof (cases "if mgc_enable_conversion c then mo_conversion mo else None")
  case None
  then show ?thesis using carried_refl [OF assms] by (auto simp: conversion_phase_def)
next
  case (Some cm)
  obtain mo1 where s: "tell_tracker (update_task (men_clock env 3) (mg_task_id r)
      (set_status status_converting)) mo = Returns mo1" "carried r mo r mo1"
    using carried_status [OF assms] by blast
  let ?mo2 = "tell_audit (conversion_start_event (mg_task_id r) (mgc_vm_name c)) mo1"
  have 2: "carried r mo r ?mo2" using s(2) by (intro carried_audit) simp_all
  show ?thesis
  proof (cases "manager_convert (men_converter env) cm (mgc_output_dir c @ ''/manifest.json'')
      (mgc_convert_options c)")
    case (Inl e)
    with Some s 2 show ?thesis by (simp add: conversion_phase_def Let_def)
  next
    case (Inr cr)
    let ?r = "r\<lparr>mg_conversion_duration := men_conversion_time env,
      mg_converted_files := cr_converted_files cr,
      mg_conversion_size := stat_total (men_file_size env) (cr_converted_files cr)\<rparr>"
    have "carried r mo ?r (tell_audit (conversion_complete_event (mg_task_id r) (mgc_vm_name c)
        (men_conversion_time env) (cr_converted_files cr)) ?mo2)"
      by (rule carried_audit [OF carried_result [OF 2]]) simp_all
    with Inr Some s show ?thesis by (simp add: conversion_phase_def Let_def)
  qed
qed

definition cloud_ready :: "migration_orchestrator \<Rightarrow> bool" where
  "cloud_ready mo \<longleftrightarrow> (\<forall>cs. mo_cloud mo = Some cs \<longrightarrow> cm_config cs \<noteq> None)"

lemma upload_phase_ok:
  assumes "tracked (mg_task_id r) (\<lambda>i. pi_error i = []) mo" and "cloud_ready mo"
  shows "\<exists>err r' mo'. upload_phase env c r mo = Returns (err, r', mo') \<and> carried r mo r' mo'"
proof (cases "if mgc_upload_to_cloud c \<and> mgc_cloud_destination c \<noteq> [] then mo_cloud mo else None")
  case None
  then show ?thesis using carried_refl [OF assms(1)] by (auto simp: upload_phase_def)
next
  case (Some cs)
  then have cfg: "cm_config cs \<noteq> None" using assms(2) by (auto simp: cloud_ready_def split: if_splits)
  obtain mo1 where s: "tell_tracker (update_task (men_clock env 4) (mg_task_id r)
      (set_status status_uploading)) mo = Returns mo1" "carried r mo r mo1"
    using carried_status [OF assms(1)] by blast
  let ?mo2 = "tell_audit (upload_start_event (mg_task_id r) (mgc_vm_name c) (mgc_cloud_destination c)) mo1"
  have 2: "carried r mo r ?mo2" using s(2) by (intro carried_audit) simp_all
  show ?thesis
  proof (cases "files_to_upload r = []")
    case True
    with Some s 2 show ?thesis by (simp add: upload_phase_def Let_def)
  next
    case False
    have np: "upload_converted_images (men_upload env) cs (files_to_upload r) (mgc_cloud_destination c) \<noteq> Panics"
      using cfg by (auto simp: upload_converted_images_def Let_def split: option.splits)
    show ?thesis
    proof (cases "upload_converted_images (men_upload env) cs (files_to_upload r) (mgc_cloud_destination c)")
      case (Returns x)
      show ?thesis
      proof (cases x)
        case (Inl e)
        with Some s 2 False Returns show ?thesis by (simp add: upload_phase_def Let_def)
      next
        case (Inr y)
        obtain urs dels where y: "y = (urs, dels)" by fastforce
        let ?r = "r\<lparr>mg_upload_duration := men_upload_time env,
          mg_cloud_destination := mgc_cloud_destination c, mg_uploaded_files := map ur_remote_path urs\<rparr>"
        have "carried r mo ?r (tell_audit (upload_complete_event (mg_task_id r) (mgc_vm_name c)
            (mgc_cloud_destination c) (men_upload_time env) (\<Sum>u\<leftarrow>urs. ur_size u)) ?mo2)"
          by (rule carried_audit [OF carried_result [OF 2]]) simp_all
        with Inr y Some s False Returns show ?thesis by (simp add: upload_phase_def Let_def)
      qed
    qed (use np in simp)
  qed
qed

text \<open>The start and the two ends of a migration as every part sees them.\<close>

definition ends_with ::
  "migration_config \<Rightarrow> string option \<Rightarrow> migration_outcome \<Rightarrow> migration_outcome \<Rightarrow>
   migration_orchestrator \<Rightarrow> migration_orchestrator \<Rightarrow> bool" where
  "ends_with c err r r' mo mo' \<longleftrightarrow>
     mg_task_id r' = mg_task_id r \<and> (mg_success r' \<longleftrightarrow> err = None) \<and>
     mg_error r' = (case err of None \<Rightarrow> mg_error r | Some e \<Rightarrow> e) \<and>
     tracked (mg_task_id r) (\<lambda>i. pi_status i = (if err = None then status_completed else status_failed) \<and>
       pi_end_time i \<noteq> None \<and> pi_error i = (case err of None \<Rightarrow> [] | Some e \<Rightarrow> e)) mo' \<and>
     (\<forall>m. mo_metrics mo = Some m \<longrightarrow> (\<exists>m'. mo_metrics mo' = Some m' \<and>
        mm_total m' = mm_total m \<and> mm_active m' = mm_active m - 1 \<and>
        mm_succeeded m' = mm_succeeded m + (if err = None then 1 else 0) \<and>
        mm_failed m' = mm_failed m + (if err = None then 0 else 1))) \<and>
     (\<exists>e. mo_audited mo' = map_option (\<lambda>es. es @ [e]) (mo_audited mo) \<and>
        ev_type e = (if err = None then event_migration_complete else event_migration_failed) \<and>
        ev_task_id e = mg_task_id r \<and> ev_error e = (case err of None \<Rightarrow> [] | Some x \<Rightarrow> x)) \<and>
     (mo_webhooks mo \<noteq> None \<longrightarrow> (\<exists>w. mo_notified mo' = mo_notified mo @ [w] \<and>
        we_type w = (if err = None then ''complete'' else ''error'') \<and> we_task_id w = mg_task_id r \<and>
        we_error w = (case err of None \<Rightarrow> [] | Some x \<Rightarrow> x)))"

lemma verdicts:
  "ev_type (migration_complete_event t vm p u d x) = event_migration_complete"
  "ev_task_id (migration_complete_event t vm p u d x) = t"
  "ev_error (migration_complete_event t vm p u d x) = []"
  "ev_type (migration_failed_event t vm p u e) = event_migration_failed"
  "ev_task_id (migration_failed_event t vm p u e) = t"
  "ev_error (migration_failed_event t vm p u e) = e"
  "we_type (complete_event now t vm p d) = ''complete''" "we_task_id (complete_event now t vm p d) = t"
  "we_error (complete_event now t vm p d) = []"
  "we_type (failure_event now t vm p e) = ''error''" "we_task_id (failure_event now t vm p e) = t"
  "we_error (failure_event now t vm p e) = e"
  by (simp_all add: migration_complete_event_def migration_failed_event_def zero_event_def
      complete_event_def failure_event_def bare_event_def)

lemma finish_phase_ok:
  assumes "tracked (mg_task_id r) (\<lambda>i. pi_error i = []) mo"
  shows "\<exists>r' mo'. finish_phase env c err r mo = Returns (err, r', mo') \<and> ends_with c err r r' mo mo'"
proof (cases err)
  case None
  obtain mo1 where s: "tell_tracker (update_task (men_clock env 7) (mg_task_id r)
      (complete_task (men_clock env 6))) mo = Returns mo1"
    "tracked (mg_task_id r) (\<lambda>i. pi_status i = status_completed \<and> pi_end_time i \<noteq> None \<and> pi_error i = []) mo1"
    "same_but_tracker mo mo1"
    using tell_update [OF assms, of
        "\<lambda>i. pi_status i = status_completed \<and> pi_end_time i \<noteq> None \<and> pi_error i = []"
        "men_clock env 7" "complete_task (men_clock env 6)"]
    by (auto simp: complete_task_def)
  note f = same_but_trackerD [OF s(3)]
  show ?thesis
    unfolding None finish_phase_def complete_migration_def
    using s(2)
    by (auto simp: Let_def s(1) ends_with_def f record_migration_success_def verdicts
        intro!: exI [of _ "migration_complete_event t vm p u d x" for t vm p u d x])
next
  case (Some e)
  obtain mo1 where s: "tell_tracker (update_task (men_clock env 7) (mg_task_id r)
      (fail_task (men_clock env 6) e)) mo = Returns mo1"
    "tracked (mg_task_id r) (\<lambda>i. pi_status i = status_failed \<and> pi_end_time i \<noteq> None \<and> pi_error i = e) mo1"
    "same_but_tracker mo mo1"
    using tell_update [OF assms, of
        "\<lambda>i. pi_status i = status_failed \<and> pi_end_time i \<noteq> None \<and> pi_error i = e"
        "men_clock env 7" "fail_task (men_clock env 6) e"]
    by (auto simp: fail_task_def)
  note f = same_but_trackerD [OF s(3)]
  show ?thesis
    unfolding Some finish_phase_def handle_failure_def
    using s(2)
    by (auto simp: Let_def s(1) ends_with_def f record_migration_failure_def verdicts
        intro!: exI [of _ "migration_failed_event t vm p u x" for t vm p u x])
qed

lemma begin_ok:
  assumes "\<forall>pt. mo_tracker mo = Some pt \<longrightarrow> tracker_ok pt"
  shows "\<exists>mo1. begin_migration env c mo = Returns mo1 \<and>
    tracked (generate_task_id (men_nano env)) (\<lambda>i. pi_error i = []) mo1 \<and>
    mo_metrics mo1 = map_option (record_migration_start (mgc_provider c)) (mo_metrics mo) \<and>
    mo_audited mo1 = map_option (\<lambda>es. es @ [migration_start_event (generate_task_id (men_nano env))
      (mgc_vm_name c) (mgc_provider c) (mgc_user c)]) (mo_audited mo) \<and>
    mo_notified mo1 = (if mo_webhooks mo = None then mo_notified mo
      else mo_notified mo @ [start_event (men_clock env 2) (generate_task_id (men_nano env))
        (mgc_vm_name c) (mgc_provider c)]) \<and>
    mo_webhooks mo1 = mo_webhooks mo \<and> mo_cloud mo1 = mo_cloud mo \<and> mo_conversion mo1 = mo_conversion mo"
proof -
  let ?t = "generate_task_id (men_nano env)"
  obtain mo1 where s: "tell_tracker (start_task (men_clock env 1) ?t (mgc_vm_name c) (mgc_provider c)) mo =
      Returns mo1" "tracked ?t (\<lambda>i. i = new_task (men_clock env 1) ?t (mgc_vm_name c) (mgc_provider c)) mo1"
    "same_but_tracker mo mo1"
    using tell_start [OF assms] by blast
  have "tracked ?t (\<lambda>i. pi_error i = []) mo1"
    using s(2) by (auto simp: tracked_def new_task_def)
  with s(1) same_but_trackerD [OF s(3)] show ?thesis by (simp add: begin_migration_def Let_def)
qed

text \<open>A migration in three parts: the start, what the phases leave alone, and the end.\<close>

lemma migrate_phases:
  assumes "\<forall>pt. mo_tracker mo = Some pt \<longrightarrow> tracker_ok pt" and "cloud_ready mo"
  shows "\<exists>mo1 err r2 mo2 r mo'. migrate env c mo = Returns (err, r, mo') \<and>
    begin_migration env c mo = Returns mo1 \<and> carried (new_outcome env c) mo1 r2 mo2 \<and>
    ends_with c err r2 r mo2 mo'"
proof -
  let ?r0 = "new_outcome env c"
  have r0: "mg_task_id ?r0 = generate_task_id (men_nano env)" by (simp add: new_outcome_def)
  obtain mo1 where b: "begin_migration env c mo = Returns mo1"
    "tracked (mg_task_id ?r0) (\<lambda>i. pi_error i = []) mo1" "mo_cloud mo1 = mo_cloud mo"
    using begin_ok [OF assms(1), of env c] r0 by auto
  obtain e1 r1 moc where 1: "conversion_phase env c ?r0 mo1 = Returns (e1, r1, moc)"
    "carried ?r0 mo1 r1 moc"
    using conversion_phase_ok [OF b(2)] by blast
  have tr1: "tracked (mg_task_id r1) (\<lambda>i. pi_error i = []) moc" and cl: "cloud_ready moc"
    using 1(2) assms(2) b(3) by (simp_all add: carried_def cloud_ready_def)
  obtain err r2 mo2 where 2: "migrate env c mo = finish_phase env c err r2 mo2" "carried ?r0 mo1 r2 mo2"
  proof (cases e1)
    case None
    obtain e2 r2 mo2 where "upload_phase env c r1 moc = Returns (e2, r2, mo2)" "carried r1 moc r2 mo2"
      using upload_phase_ok [OF tr1 cl] by blast
    with that [of e2 r2 mo2] None 1 b(1) carried_trans show thesis by (auto simp: migrate_def)
  next
    case (Some e)
    with that [of "Some e" r1 moc] 1 b(1) show thesis by (simp add: migrate_def)
  qed
  have "tracked (mg_task_id r2) (\<lambda>i. pi_error i = []) mo2" using 2(2) by (simp add: carried_def)
  from finish_phase_ok [OF this] 2 b(1) show ?thesis by metis
qed

text \<open>
  C18: A migration always ends with a result, and every part of the orchestrator that is there is
  told the same: the result is a success exactly when no error is returned; the tracker has the
  task as completed, or as failed with that error; of the metrics the total and one of the two
  verdicts go up by one and the number of active migrations is as before; the audit log gets
  the start, then no other verdict, and the verdict last; the webhooks get the start and the
  verdict.
\<close>

theorem migration_is_told_alike:
  assumes "\<forall>pt. mo_tracker mo = Some pt \<longrightarrow> tracker_ok pt" and "cloud_ready mo"
  shows "\<exists>err r mo'. migrate env c mo = Returns (err, r, mo') \<and>
    mg_task_id r = generate_task_id (men_nano env) \<and> (mg_success r \<longleftrightarrow> err = None) \<and>
    mg_error r = (case err of None \<Rightarrow> [] | Some e \<Rightarrow> e) \<and>
    (\<forall>pt. mo_tracker mo' = Some pt \<longrightarrow> tracker_ok pt \<and>
       (\<exists>i. get_task_progress (mg_task_id r) pt = Some i \<and>
          pi_status i = (if err = None then status_completed else status_failed) \<and>
          pi_end_time i \<noteq> None \<and> pi_error i = mg_error r)) \<and>
    (\<forall>m. mo_metrics mo = Some m \<longrightarrow> (\<exists>m'. mo_metrics mo' = Some m' \<and>
       mm_total m' = mm_total m + 1 \<and> mm_active m' = mm_active m \<and>
       mm_succeeded m' = mm_succeeded m + (if err = None then 1 else 0) \<and>
       mm_failed m' = mm_failed m + (if err = None then 0 else 1))) \<and>
    (\<forall>es. mo_audited mo = Some es \<longrightarrow> (\<exists>mid e. mo_audited mo' =
       Some (es @ migration_start_event (mg_task_id r) (mgc_vm_name c) (mgc_provider c) (mgc_user c) # mid @ [e]) \<and>
       list_all no_verdict mid \<and> ev_task_id e = mg_task_id r \<and> ev_error e = mg_error r \<and>
       ev_type e = (if err = None then event_migration_complete else event_migration_failed))) \<and>
    (mo_webhooks mo \<noteq> None \<longrightarrow> (\<exists>w. mo_notified mo' = mo_notified mo @
       [start_event (men_clock env 2) (mg_task_id r) (mgc_vm_name c) (mgc_provider c), w] \<and>
       we_type w = (if err = None then ''complete'' else ''error'') \<and>
       we_task_id w = mg_task_id r \<and> we_error w = mg_error r))"
proof -
  let ?t = "generate_task_id (men_nano env)"
  obtain mo1 err r2 mo2 r mo' where m: "migrate env c mo = Returns (err, r, mo')"
    and b: "begin_migration env c mo = Returns mo1" and c: "carried (new_outcome env c) mo1 r2 mo2"
    and ends: "ends_with c err r2 r mo2 mo'"
    using migrate_phases [OF assms] by blast
  have t2: "mg_task_id r2 = ?t" "mg_error r2 = []"
    using c by (simp_all add: carried_def new_outcome_def)
  obtain mid where mid: "mo_audited mo2 = map_option (\<lambda>es. es @ mid) (mo_audited mo1)" "list_all no_verdict mid"
    using c unfolding carried_def by blast
  have f: "mo_metrics mo2 = map_option (record_migration_start (mgc_provider c)) (mo_metrics mo)"
    "mo_audited mo2 = map_option (\<lambda>es. es @ migration_start_event ?t (mgc_vm_name c)
       (mgc_provider c) (mgc_user c) # mid) (mo_audited mo)"
    "mo_webhooks mo \<noteq> None \<Longrightarrow> mo_webhooks mo2 \<noteq> None \<and> mo_notified mo2 = mo_notified mo @
       [start_event (men_clock env 2) ?t (mgc_vm_name c) (mgc_provider c)]"
    using begin_ok [OF assms(1), of env c] b c mid(1)
    by (auto simp: carried_def option.map_comp comp_def)
  have r: "mg_task_id r = ?t" "mg_success r \<longleftrightarrow> err = None"
    "mg_error r = (case err of None \<Rightarrow> [] | Some e \<Rightarrow> e)"
    using ends t2 by (cases err; simp add: ends_with_def)+
  have metrics: "\<exists>m'. mo_metrics mo' = Some m' \<and>
       mm_total m' = mm_total m + 1 \<and> mm_active m' = mm_active m \<and>
       mm_succeeded m' = mm_succeeded m + (if err = None then 1 else 0) \<and>
       mm_failed m' = mm_failed m + (if err = None then 0 else 1)" if "mo_metrics mo = Some m" for m
    using ends that unfolding ends_with_def by (fastforce simp: f(1) record_migration_start_def)
  obtain e where e: "mo_audited mo' = map_option (\<lambda>es. es @ [e]) (mo_audited mo2)"
    "ev_type e = (if err = None then event_migration_complete else event_migration_failed)"
    "ev_task_id e = ?t" "ev_error e = mg_error r"
    using ends unfolding ends_with_def t2(1) r(3) by blast
  have hooks: "\<exists>w. mo_notified mo' = mo_notified mo @
       [start_event (men_clock env 2) ?t (mgc_vm_name c) (mgc_provider c), w] \<and>
       we_type w = (if err = None then ''complete'' else ''error'') \<and>
       we_task_id w = ?t \<and> we_error w = mg_error r" if wh: "mo_webhooks mo \<noteq> None"
  proof -
    obtain w where "mo_notified mo' = mo_notified mo2 @ [w]"
      "we_type w = (if err = None then ''complete'' else ''error'')" "we_task_id w = ?t"
      "we_error w = mg_error r"
      using ends f(3) [OF wh] unfolding ends_with_def t2(1) r(3) by blast
    with f(3) [OF wh] show ?thesis by simp
  qed
  show ?thesis
    apply (intro exI [of _ err] exI [of _ r] exI [of _ mo'] conjI)
    subgoal by (rule m)
    subgoal by (rule r(1))
    subgoal by (rule r(2))
    subgoal by (rule r(3))
    subgoal using ends unfolding ends_with_def tracked_def t2(1) r(1,3) by blast
    subgoal using metrics by blast
    subgoal using e mid(2) unfolding r(1) f(2) by auto
    subgoal using hooks unfolding r(1) by blast
    done
qed

text \<open>An orchestrator with all parts, and a migration that converts nothing.\<close>

definition full_config :: orchestrator_config where
  "full_config = \<lparr>orc_conversion = True, orc_parallel = False, orc_cloud = True, orc_batch = False,
     orc_progress = True, orc_metrics = True, orc_audit = True, orc_webhooks = True,
     orc_audit_path = ''/log'', orc_webhook_configs = [plain_hook]\<rparr>"

definition plain_migration :: migration_config where
  "plain_migration = \<lparr>mgc_vm_name = ''vm'', mgc_provider = ''aws'', mgc_output_dir = ''/out'',
     mgc_target_format = ''qcow2'', mgc_export_manifest = True, mgc_verify_export = False,
     mgc_enable_conversion = True, mgc_convert_options = bc_convert_options zero_batch_config,
     mgc_parallel_disks = False, mgc_max_parallel_disks = 0, mgc_upload_to_cloud = True,
     mgc_cloud_destination = ''s3'', mgc_user = ''root'', mgc_ip_address = []\<rparr>"

definition full_orchestrator :: migration_orchestrator where
  "full_orchestrator = \<lparr>mo_conversion = Some (new_conversion_manager (Some \<lparr>cvc_timeout = 0\<rparr>)),
     mo_parallel = False, mo_cloud = None, mo_batch = None, mo_tracker = Some new_progress_tracker,
     mo_metrics = Some (new_metrics 1), mo_audited = Some [],
     mo_webhooks = Some (new_webhook_manager [plain_hook]), mo_notified = []\<rparr>"

definition quiet_env :: migration_env where
  "quiet_env = \<lparr>men_nano = 1, men_clock = int,
     men_converter = \<lparr>ce_validate = None, ce_convert = \<lambda>path opts. Inl ''failed''\<rparr>,
     men_conversion_time = 1, men_file_size = \<lambda>f. None,
     men_upload = \<lparr>ue_upload = \<lambda>fs. None, ue_size = \<lambda>f. None, ue_duration = 0\<rparr>, men_upload_time = 0\<rparr>"

lemma full_orchestrator_new:
  "new_migration_orchestrator True 1 full_config = Inr full_orchestrator"
  by (simp add: new_migration_orchestrator_def full_config_def full_orchestrator_def)

theorem migration_is_told_alike_witness:
  "\<exists>err r mo'. migrate quiet_env plain_migration full_orchestrator = Returns (err, r, mo') \<and>
     (\<exists>m. mo_metrics mo' = Some m \<and> mm_total m = 1 \<and> mm_succeeded m + mm_failed m = 1 \<and> mm_active m = 0)"
proof -
  have "\<forall>pt. mo_tracker full_orchestrator = Some pt \<longrightarrow> tracker_ok pt" "cloud_ready full_orchestrator"
    by (simp_all add: full_orchestrator_def tracker_ok_new cloud_ready_def)
  from migration_is_told_alike [OF this, of quiet_env plain_migration]
  obtain err r mo' where m: "migrate quiet_env plain_migration full_orchestrator = Returns (err, r, mo')"
    and "\<forall>m. mo_metrics full_orchestrator = Some m \<longrightarrow> (\<exists>m'. mo_metrics mo' = Some m' \<and>
       mm_total m' = mm_total m + 1 \<and> mm_active m' = mm_active m \<and>
       mm_succeeded m' = mm_succeeded m + (if err = None then 1 else 0) \<and>
       mm_failed m' = mm_failed m + (if err = None then 0 else 1))"
    by blast
  then have "\<exists>m. mo_metrics mo' = Some m \<and> mm_total m = 1 \<and> mm_succeeded m + mm_failed m = 1 \<and> mm_active m = 0"
    by (auto simp: full_orchestrator_def new_metrics_def)
  with m show ?thesis by blast
qed

section \<open>What a new orchestrator can do\<close>

lemma new_orchestrator_parts:
  assumes "new_migration_orchestrator audit_ok now oc = Inr mo"
  shows "\<not> orc_batch oc \<and> mo_batch mo = None \<and> mo_cloud mo = None \<and>
    mo_conversion mo = (if orc_conversion oc then Some (new_conversion_manager (Some \<lparr>cvc_timeout = 0\<rparr>)) else None) \<and>
    (\<forall>pt. mo_tracker mo = Some pt \<longrightarrow> tracker_ok pt)"
proof -
  have "validate_batch zero_batch_config = Some NoVMs" by (simp add: validate_batch_def zero_batch_config_def)
  with assms show ?thesis
    by (auto simp: new_migration_orchestrator_def new_batch_orchestrator_def Let_def tracker_ok_new
        split: if_splits)
qed

lemma finish_phase_uploads:
  "finish_phase env c err r mo = Returns (err', r', mo') \<Longrightarrow> mg_uploaded_files r' = mg_uploaded_files r"
  by (auto simp: finish_phase_def complete_migration_def handle_failure_def Let_def
      split: go_outcome.splits option.splits)

text \<open>
  No orchestrator that the constructor returns can do what its configuration offers: batch
  orchestration makes the constructor fail, conversion makes every migration fail for want of a
  converter, and cloud storage is never set up, so that a migration that is to be uploaded is
  reported as a success although nothing was.
\<close>

theorem constructed_orchestrator_is_limited:
  assumes "new_migration_orchestrator audit_ok now oc = Inr mo"
  shows "\<not> orc_batch oc \<and>
    (\<exists>err r mo'. migrate env c mo = Returns (err, r, mo') \<and> mg_uploaded_files r = [] \<and>
       err = (if orc_conversion oc \<and> mgc_enable_conversion c
              then Some ''conversion: no converter configured'' else None) \<and>
       (mg_success r \<longleftrightarrow> err = None))"
proof -
  note p = new_orchestrator_parts [OF assms]
  let ?r0 = "new_outcome env c"
  have r0: "mg_task_id ?r0 = generate_task_id (men_nano env)" "mg_uploaded_files ?r0 = []"
    by (simp_all add: new_outcome_def)
  obtain mo1 where b: "begin_migration env c mo = Returns mo1"
    "tracked (mg_task_id ?r0) (\<lambda>i. pi_error i = []) mo1" "mo_cloud mo1 = None"
    "mo_conversion mo1 = mo_conversion mo"
    using begin_ok [of mo env c] r0 p by auto
  define err where "err = (if orc_conversion oc \<and> mgc_enable_conversion c
    then Some ''conversion: no converter configured'' else None)"
  have "\<exists>mo2. migrate env c mo = finish_phase env c err ?r0 mo2 \<and> carried ?r0 mo1 ?r0 mo2"
  proof (cases "orc_conversion oc \<and> mgc_enable_conversion c")
    case True
    obtain mo2 where s: "tell_tracker (update_task (men_clock env 3) (mg_task_id ?r0)
        (set_status status_converting)) mo1 = Returns mo2" "carried ?r0 mo1 ?r0 mo2"
      using carried_status [OF b(2)] by blast
    have "carried ?r0 mo1 ?r0 (tell_audit (conversion_start_event (mg_task_id ?r0) (mgc_vm_name c)) mo2)"
      using s(2) by (intro carried_audit) simp_all
    with True s(1) b(1,4) p show ?thesis
      by (auto simp: migrate_def conversion_phase_def manager_convert_def new_conversion_manager_def
          err_def Let_def)
  next
    case False
    have "(if mgc_enable_conversion c then mo_conversion mo1 else None) = None"
      using False b(4) p by auto
    then have 1: "conversion_phase env c ?r0 mo1 = Returns (None, ?r0, mo1)"
      by (simp only: conversion_phase_def option.case)
    have "upload_phase env c ?r0 mo1 = Returns (None, ?r0, mo1)" by (simp add: upload_phase_def b(3))
    with 1 b(1) False have "migrate env c mo = finish_phase env c err ?r0 mo1"
      by (auto simp: migrate_def err_def)
    then show ?thesis using carried_refl [OF b(2)] by blast
  qed
  then obtain mo2 where m: "migrate env c mo = finish_phase env c err ?r0 mo2" "carried ?r0 mo1 ?r0 mo2"
    by blast
  have "tracked (mg_task_id ?r0) (\<lambda>i. pi_error i = []) mo2" using m(2) by (simp add: carried_def)
  from finish_phase_ok [OF this, of env c err]
  obtain r mo' where f: "finish_phase env c err ?r0 mo2 = Returns (err, r, mo')"
    "ends_with c err ?r0 r mo2 mo'" by blast
  have "mg_uploaded_files r = []" using finish_phase_uploads [OF f(1)] r0(2) by simp
  moreover have "mg_success r \<longleftrightarrow> err = None" using f(2) by (simp add: ends_with_def)
  ultimately show ?thesis using m(1) f(1) p unfolding err_def by auto
qed

theorem constructed_orchestrator_is_limited_witness:
  "\<exists>r mo'. migrate quiet_env plain_migration full_orchestrator =
     Returns (Some ''conversion: no converter configured'', r, mo') \<and> \<not> mg_success r"
  using constructed_orchestrator_is_limited [OF full_orchestrator_new, of quiet_env plain_migration]
  by (auto simp: full_config_def plain_migration_def)

end
