(* ===== verification/Rate_Limit.thy ===== *)
theory Rate_Limit
  imports Go_Prelude Complex_Main
begin

text \<open>
  \<open>daemon/ratelimit/ratelimit.go\<close>: rate limits per user, globally and per provider, and the HTTP
  middleware that applies them.  The limiter itself is \<open>golang.org/x/time/rate\<close>, a parameter
  (\<open>limiter_lib\<close>); \<open>limiter_laws\<close> states what its documentation says, a bucket of tokens that starts
  full, is refilled at a fixed rate up to its burst, and gives one token per admitted event.
\<close>

section \<open>The limiter of the library\<close>

record 'l limiter_lib =
  ll_new :: "real \<Rightarrow> int \<Rightarrow> 'l"
  ll_allow :: "instant \<Rightarrow> 'l \<Rightarrow> bool \<times> 'l"
  ll_tokens :: "instant \<Rightarrow> 'l \<Rightarrow> real"
  ll_limit :: "'l \<Rightarrow> real"
  ll_burst :: "'l \<Rightarrow> int"

text \<open>The tokens that a time span brings at a rate per second.\<close>

definition refill :: "real \<Rightarrow> duration \<Rightarrow> real" where
  "refill r d = r * (of_int d / of_int second)"

definition limiter_laws :: "'l limiter_lib \<Rightarrow> bool" where
  "limiter_laws L \<longleftrightarrow>
     (\<forall>r b t. 0 \<le> r \<and> 0 \<le> b \<longrightarrow>
        ll_limit L (ll_new L r b) = r \<and> ll_burst L (ll_new L r b) = b \<and>
        ll_tokens L t (ll_new L r b) = of_int b) \<and>
     (\<forall>l t ok l'. ll_allow L t l = (ok, l') \<longrightarrow>
        ll_limit L l' = ll_limit L l \<and> ll_burst L l' = ll_burst L l \<and>
        (ok \<longleftrightarrow> 1 \<le> ll_tokens L t l) \<and>
        (\<forall>t' \<ge> t. ll_tokens L t' l' =
           min (of_int (ll_burst L l))
             (ll_tokens L t l - (if ok then 1 else 0) + refill (ll_limit L l) (t' - t))))"

section \<open>Limits per user\<close>

record 'l per_user_limiter =
  pul_limiters :: "(string, 'l) gomap"
  pul_rate :: real
  pul_burst :: int

definition new_per_user_limiter :: "real \<Rightarrow> int \<Rightarrow> 'l per_user_limiter" where
  "new_per_user_limiter r b = \<lparr>pul_limiters = [], pul_rate = r, pul_burst = b\<rparr>"

definition get_limiter ::
  "'l limiter_lib \<Rightarrow> string \<Rightarrow> 'l per_user_limiter \<Rightarrow> 'l \<times> 'l per_user_limiter" where
  "get_limiter L u p =
     (case gm_get (pul_limiters p) u of
        Some l \<Rightarrow> (l, p)
      | None \<Rightarrow> let l = ll_new L (pul_rate p) (pul_burst p)
                in (l, p\<lparr>pul_limiters := gm_put u l (pul_limiters p)\<rparr>))"

text \<open>
  \<open>Allow\<close> without an interruption between \<open>GetLimiter\<close>, which releases the mutex, and
  \<open>limiter.Allow\<close>: the limiter is the one in the map.  \<open>Rate_Traffic\<close> has the two halves apart.
\<close>

definition allow_user ::
  "'l limiter_lib \<Rightarrow> instant \<Rightarrow> string \<Rightarrow> 'l per_user_limiter \<Rightarrow> bool \<times> 'l per_user_limiter" where
  "allow_user L t u p =
     (let (l, p) = get_limiter L u p; (ok, l) = ll_allow L t l
      in (ok, p\<lparr>pul_limiters := gm_put u l (pul_limiters p)\<rparr>))"

definition cleanup_limiters :: "'l limiter_lib \<Rightarrow> instant \<Rightarrow> 'l per_user_limiter \<Rightarrow> 'l per_user_limiter" where
  "cleanup_limiters L t p =
     p\<lparr>pul_limiters := filter (\<lambda>(u, l). \<not> of_int (pul_burst p) \<le> ll_tokens L t l) (pul_limiters p)\<rparr>"

section \<open>The middleware\<close>

record 'l rate_middleware =
  rm_per_user :: "'l per_user_limiter"
  rm_global :: 'l

definition new_rate_middleware ::
  "'l limiter_lib \<Rightarrow> real \<Rightarrow> real \<Rightarrow> int \<Rightarrow> int \<Rightarrow> 'l rate_middleware" where
  "new_rate_middleware L user_rate global_rate user_burst global_burst =
     \<lparr>rm_per_user = new_per_user_limiter user_rate user_burst,
      rm_global = ll_new L global_rate global_burst\<rparr>"

text \<open>
  A request has its headers, where an absent one reads as empty, and its remote address.  A
  response writer has the headers set so far and, once the status line is written, what was sent.
\<close>

record http_request =
  hr_header :: "(string, string) gomap"
  hr_remote :: string

definition header_value :: "http_request \<Rightarrow> string \<Rightarrow> string" where
  "header_value r k = (case gm_get (hr_header r) k of None \<Rightarrow> [] | Some v \<Rightarrow> v)"

record http_answer =
  ha_status :: int
  ha_header :: "(string, string) gomap"
  ha_body :: string

record response_writer =
  rw_header :: "(string, string) gomap"
  rw_sent :: "http_answer option"

definition set_header :: "string \<Rightarrow> string \<Rightarrow> response_writer \<Rightarrow> response_writer" where
  "set_header k v w = w\<lparr>rw_header := gm_put k v (rw_header w)\<rparr>"

text \<open>
  \<open>http.Error\<close> of the standard library: it removes \<open>Content-Length\<close>, sets two headers, and sends
  the status and the headers as they are then.
\<close>

definition http_error :: "string \<Rightarrow> int \<Rightarrow> response_writer \<Rightarrow> response_writer" where
  "http_error msg code w =
     (let h = gm_put ''X-Content-Type-Options'' ''nosniff''
                (gm_put ''Content-Type'' ''text/plain; charset=utf-8''
                  (gm_del ''Content-Length'' (rw_header w)))
      in w\<lparr>rw_header := h,
           rw_sent := (case rw_sent w of
              None \<Rightarrow> Some \<lparr>ha_status = code, ha_header = h, ha_body = msg @ [CHR 0x0A]\<rparr>
            | Some a \<Rightarrow> Some (a\<lparr>ha_body := ha_body a @ msg @ [CHR 0x0A]\<rparr>))\<rparr>)"

definition get_ip :: "http_request \<Rightarrow> string" where
  "get_ip r =
     (let forwarded = header_value r ''X-Forwarded-For''; real = header_value r ''X-Real-Ip''
      in if forwarded \<noteq> [] then forwarded
         else if real \<noteq> [] then real
         else hr_remote r)"

definition user_key :: "http_request \<Rightarrow> string" where
  "user_key r = (let u = header_value r ''X-User-Id'' in if u = [] then get_ip r else u)"

text \<open>Whether the wrapped handler is called, the response so far, and the limiters afterwards.\<close>

definition rate_handler ::
  "'l limiter_lib \<Rightarrow> instant \<Rightarrow> http_request \<Rightarrow> response_writer \<Rightarrow> 'l rate_middleware \<Rightarrow>
   bool \<times> response_writer \<times> 'l rate_middleware" where
  "rate_handler L t r w m =
     (let (ok, g) = ll_allow L t (rm_global m); m = m\<lparr>rm_global := g\<rparr>
      in if \<not> ok
         then (False, set_header ''Retry-After'' ''60'' (http_error ''global rate limit exceeded'' 429 w), m)
         else let (ok, p) = allow_user L t (user_key r) (rm_per_user m); m = m\<lparr>rm_per_user := p\<rparr>
              in if \<not> ok
                 then (False, set_header ''Retry-After'' ''60'' (http_error ''user rate limit exceeded'' 429 w), m)
                 else (True, w, m))"

section \<open>Limits per provider\<close>

record provider_limit =
  pl_requests_per_minute :: int
  pl_burst :: int
  pl_concurrent_ops :: int

record rate_config =
  rc_per_user_requests_per_minute :: int
  rc_per_user_burst :: int
  rc_global_requests_per_minute :: int
  rc_global_burst :: int
  rc_provider_limits :: "(string, provider_limit) gomap"

definition default_rate_config :: rate_config where
  "default_rate_config =
     (let cloud = \<lparr>pl_requests_per_minute = 100, pl_burst = 20, pl_concurrent_ops = 10\<rparr>
      in \<lparr>rc_per_user_requests_per_minute = 100, rc_per_user_burst = 20,
          rc_global_requests_per_minute = 1000, rc_global_burst = 200,
          rc_provider_limits =
            [(''aws'', cloud), (''azure'', cloud), (''gcp'', cloud),
             (''vsphere'', \<lparr>pl_requests_per_minute = 50, pl_burst = 10, pl_concurrent_ops = 5\<rparr>)]\<rparr>)"

text \<open>A semaphore is a buffered channel: its capacity and the number of tokens in it.\<close>

record semaphore =
  sem_capacity :: nat
  sem_used :: nat

record 'l provider_limiter =
  pr_limiters :: "(string, 'l) gomap"
  pr_concurrency :: "(string, semaphore) gomap"
  pr_config :: rate_config

text \<open>\<open>make\<close> panics when the capacity asked for is negative.\<close>

definition new_provider_limiter :: "'l limiter_lib \<Rightarrow> rate_config \<Rightarrow> 'l provider_limiter go_outcome" where
  "new_provider_limiter L c =
     (if list_ex (\<lambda>(p, l). pl_concurrent_ops l < 0) (rc_provider_limits c) then Panics
      else Returns
        \<lparr>pr_limiters = map (\<lambda>(p, l). (p, ll_new L (of_int (pl_requests_per_minute l) / 60) (pl_burst l)))
           (rc_provider_limits c),
         pr_concurrency = map (\<lambda>(p, l). (p, \<lparr>sem_capacity = nat (pl_concurrent_ops l), sem_used = 0\<rparr>))
           (rc_provider_limits c),
         pr_config = c\<rparr>)"

definition allow_provider ::
  "'l limiter_lib \<Rightarrow> instant \<Rightarrow> string \<Rightarrow> 'l provider_limiter \<Rightarrow> bool \<times> 'l provider_limiter" where
  "allow_provider L t p pl =
     (case gm_get (pr_limiters pl) p of
        None \<Rightarrow> (True, pl)
      | Some l \<Rightarrow> let (ok, l) = ll_allow L t l
                  in (ok, pl\<lparr>pr_limiters := gm_put p l (pr_limiters pl)\<rparr>))"

text \<open>\<open>AcquireConcurrency\<close> answers whether a slot was taken (its error is \<open>nil\<close>).\<close>

definition acquire_concurrency :: "string \<Rightarrow> 'l provider_limiter \<Rightarrow> bool \<times> 'l provider_limiter" where
  "acquire_concurrency p pl =
     (case gm_get (pr_concurrency pl) p of
        None \<Rightarrow> (True, pl)
      | Some s \<Rightarrow>
          if sem_used s < sem_capacity s
          then (True, pl\<lparr>pr_concurrency := gm_put p (s\<lparr>sem_used := Suc (sem_used s)\<rparr>) (pr_concurrency pl)\<rparr>)
          else (False, pl))"

definition release_concurrency :: "string \<Rightarrow> 'l provider_limiter \<Rightarrow> 'l provider_limiter" where
  "release_concurrency p pl =
     (case gm_get (pr_concurrency pl) p of
        None \<Rightarrow> pl
      | Some s \<Rightarrow>
          if sem_used s = 0 then pl
          else pl\<lparr>pr_concurrency := gm_put p (s\<lparr>sem_used := sem_used s - 1\<rparr>) (pr_concurrency pl)\<rparr>)"

section \<open>Buckets\<close>

lemma refill_nonneg [simp]: "0 \<le> r \<Longrightarrow> 0 \<le> d \<Longrightarrow> 0 \<le> refill r d"
  by (simp add: refill_def second_def)

lemma refill_zero [simp]: "refill r 0 = 0"
  by (simp add: refill_def)

lemma refill_add: "refill r (c - a) = refill r (b - a) + refill r (c - b)"
  by (simp add: refill_def algebra_simps add_divide_distrib diff_divide_distrib)

definition settled :: "'l limiter_lib \<Rightarrow> real \<Rightarrow> int \<Rightarrow> instant \<Rightarrow> 'l \<Rightarrow> bool" where
  "settled L r b t l \<longleftrightarrow> ll_limit L l = r \<and> ll_burst L l = b \<and>
     (\<forall>t' \<ge> t. ll_tokens L t' l = min (of_int b) (ll_tokens L t l + refill r (t' - t)))"

lemma settled_at:
  assumes "settled L r b t l" and "t \<le> t'"
  shows "ll_tokens L t' l = min (of_int b) (ll_tokens L t l + refill r (t' - t))"
  using assms unfolding settled_def by blast

lemma settled_le: "settled L r b t l \<Longrightarrow> ll_tokens L t l \<le> of_int b"
  using settled_at [of L r b t l t] by simp

lemma settled_new:
  assumes "limiter_laws L" and "0 \<le> r" and "0 \<le> b"
  shows "settled L r b t (ll_new L r b)" and "ll_tokens L t (ll_new L r b) = of_int b"
proof -
  have n: "ll_limit L (ll_new L r b) = r" "ll_burst L (ll_new L r b) = b"
    "ll_tokens L t' (ll_new L r b) = of_int b" for t'
    using assms unfolding limiter_laws_def by blast+
  then show "settled L r b t (ll_new L r b)" and "ll_tokens L t (ll_new L r b) = of_int b"
    using refill_nonneg [OF assms(2)] by (auto simp: settled_def min_def)
qed

lemma min_refill:
  assumes "t \<le> t'" and "t' \<le> t''" and "0 \<le> r"
  shows "min (of_int b) (min (of_int b) (x + refill r (t' - t)) + refill r (t'' - t')) =
    min (of_int b) (x + refill r (t'' - t))"
proof -
  have "0 \<le> refill r (t'' - t')" using assms by simp
  moreover have "refill r (t'' - t) = refill r (t' - t) + refill r (t'' - t')" by (rule refill_add)
  ultimately show ?thesis by (auto simp: min_def)
qed

lemma settled_later:
  assumes "settled L r b t l" and "t \<le> t'" and "0 \<le> r"
  shows "settled L r b t' l"
proof -
  have "ll_tokens L t'' l = min (of_int b) (ll_tokens L t' l + refill r (t'' - t'))" if "t' \<le> t''" for t''
  proof -
    have "t \<le> t''" using assms(2) that by simp
    from settled_at [OF assms(1) this] show ?thesis
      unfolding settled_at [OF assms(1,2)] min_refill [OF assms(2) that assms(3)] .
  qed
  then show ?thesis using assms(1) unfolding settled_def by blast
qed

lemma allow_settled:
  assumes "limiter_laws L" and "settled L r b t l" and "t \<le> t'" and "0 \<le> r"
    and "ll_allow L t' l = (ok, l')"
  shows "ok \<longleftrightarrow> 1 \<le> ll_tokens L t' l" and "settled L r b t' l'"
    and "ll_tokens L t' l' = ll_tokens L t' l - (if ok then 1 else 0)"
proof -
  note later = settled_later [OF assms(2-4)]
  have laws: "ll_limit L l' = r" "ll_burst L l' = b" "ok \<longleftrightarrow> 1 \<le> ll_tokens L t' l"
    "\<And>t''. t' \<le> t'' \<Longrightarrow> ll_tokens L t'' l' =
       min (of_int b) (ll_tokens L t' l - (if ok then 1 else 0) + refill r (t'' - t'))"
    using assms(1,5) later unfolding limiter_laws_def settled_def by blast+
  then show "ok \<longleftrightarrow> 1 \<le> ll_tokens L t' l" by blast
  show now: "ll_tokens L t' l' = ll_tokens L t' l - (if ok then 1 else 0)"
    using laws(4) [of t'] settled_le [OF later] by simp
  show "settled L r b t' l'" using laws(1,2,4) unfolding settled_def now by blast
qed

text \<open>What a user may still take: the tokens of the limiter, or a full bucket without one.\<close>

definition user_tokens :: "'l limiter_lib \<Rightarrow> instant \<Rightarrow> string \<Rightarrow> 'l per_user_limiter \<Rightarrow> real" where
  "user_tokens L t u p =
     (case gm_get (pul_limiters p) u of None \<Rightarrow> of_int (pul_burst p) | Some l \<Rightarrow> ll_tokens L t l)"

definition users_settled :: "'l limiter_lib \<Rightarrow> instant \<Rightarrow> 'l per_user_limiter \<Rightarrow> bool" where
  "users_settled L t p \<longleftrightarrow> gm_wf (pul_limiters p) \<and> 0 \<le> pul_rate p \<and> 0 \<le> pul_burst p \<and>
     (\<forall>u l. gm_get (pul_limiters p) u = Some l \<longrightarrow> settled L (pul_rate p) (pul_burst p) t l)"

lemma users_settled_later: "users_settled L t p \<Longrightarrow> t \<le> t' \<Longrightarrow> users_settled L t' p"
  by (auto simp: users_settled_def intro: settled_later)

lemma user_tokens_at:
  assumes "users_settled L t p" and "t \<le> t'"
  shows "user_tokens L t' u p = min (of_int (pul_burst p)) (user_tokens L t u p + refill (pul_rate p) (t' - t))"
  using assms settled_at [of L "pul_rate p" "pul_burst p" t _ t']
  by (auto simp: users_settled_def user_tokens_def split: option.splits)

lemma allow_user_tokens:
  assumes "limiter_laws L" and "users_settled L t p" and "t \<le> t'" and "allow_user L t' u p = (ok, p')"
  shows "ok \<longleftrightarrow> 1 \<le> user_tokens L t' u p" and "users_settled L t' p'"
    and "pul_rate p' = pul_rate p" and "pul_burst p' = pul_burst p"
    and "user_tokens L t' v p' = user_tokens L t' v p - (if ok \<and> u = v then 1 else 0)"
proof -
  obtain l p1 where g: "get_limiter L u p = (l, p1)" by fastforce
  obtain l' where a: "ll_allow L t' l = (ok, l')" and p': "p' = p1\<lparr>pul_limiters := gm_put u l' (pul_limiters p1)\<rparr>"
    using assms(4) g by (auto simp: allow_user_def split: prod.splits)
  have r: "0 \<le> pul_rate p" "0 \<le> pul_burst p" using assms(2) by (auto simp: users_settled_def)
  have later: "users_settled L t' p" by (rule users_settled_later [OF assms(2,3)])
  have l: "settled L (pul_rate p) (pul_burst p) t l" "ll_tokens L t' l = user_tokens L t' u p"
    "pul_rate p1 = pul_rate p" "pul_burst p1 = pul_burst p"
    "pul_limiters p' = gm_put u l' (pul_limiters p) \<or> pul_limiters p' = gm_put u l' (gm_put u l (pul_limiters p))"
    using g assms(2) settled_new [OF assms(1) r]
    by (auto simp: get_limiter_def users_settled_def user_tokens_def p' Let_def split: option.splits)
  note s = allow_settled [OF assms(1) l(1) assms(3) r(1) a]
  show "ok \<longleftrightarrow> 1 \<le> user_tokens L t' u p" using s(1) l(2) by simp
  show "pul_rate p' = pul_rate p" "pul_burst p' = pul_burst p" using l(3,4) by (simp_all add: p')
  have get: "gm_get (pul_limiters p') = (gm_get (pul_limiters p))(u \<mapsto> l')" "gm_wf (pul_limiters p')"
    using l(5) later by (auto simp: map_ops users_settled_def)
  show "users_settled L t' p'"
    using later get s(2) l(3,4) by (auto simp: users_settled_def p')
  show "user_tokens L t' v p' = user_tokens L t' v p - (if ok \<and> u = v then 1 else 0)"
    using get s(3) l(2) \<open>pul_burst p' = pul_burst p\<close> by (auto simp: user_tokens_def split: option.splits)
qed

lemma cleanup_tokens:
  assumes "users_settled L t p" and "t \<le> t'"
  shows "users_settled L t' (cleanup_limiters L t' p)"
    and "user_tokens L t' u (cleanup_limiters L t' p) = user_tokens L t' u p"
    and "pul_rate (cleanup_limiters L t' p) = pul_rate p" "pul_burst (cleanup_limiters L t' p) = pul_burst p"
proof -
  let ?keep = "\<lambda>l. \<not> of_int (pul_burst p) \<le> ll_tokens L t' l"
  have later: "users_settled L t' p" by (rule users_settled_later [OF assms])
  have "gm_get (filter (\<lambda>(u, l). ?keep l) m) u =
      (case gm_get m u of None \<Rightarrow> None | Some l \<Rightarrow> if ?keep l then Some l else None)"
    if "gm_wf m" for m and u :: string
    using that
  proof (induction m)
    case (Cons x m)
    have "gm_get (filter (\<lambda>(u, l). ?keep l) m) (fst x) = None"
      using Cons.prems by (cases x) (force simp: map_of_eq_None_iff)
    with Cons show ?case by (cases x) auto
  qed simp
  then have get: "gm_get (pul_limiters (cleanup_limiters L t' p)) u =
      (case gm_get (pul_limiters p) u of None \<Rightarrow> None | Some l \<Rightarrow> if ?keep l then Some l else None)" for u
    using later by (simp add: cleanup_limiters_def users_settled_def)
  show "pul_rate (cleanup_limiters L t' p) = pul_rate p" "pul_burst (cleanup_limiters L t' p) = pul_burst p"
    by (simp_all add: cleanup_limiters_def)
  then show "users_settled L t' (cleanup_limiters L t' p)"
    using later get by (auto simp: users_settled_def cleanup_limiters_def split: option.splits if_splits)
  show "user_tokens L t' u (cleanup_limiters L t' p) = user_tokens L t' u p"
    using get [of u] later settled_le [of L "pul_rate p" "pul_burst p" t']
    by (fastforce simp: user_tokens_def users_settled_def cleanup_limiters_def split: option.splits)
qed

section \<open>A limiter is a bucket per user\<close>

text \<open>
  The abstract limiter: a level and the time it was taken for every user.  It is never cleaned.
\<close>

definition bucket_level :: "real \<Rightarrow> int \<Rightarrow> instant \<Rightarrow> real \<times> instant \<Rightarrow> real" where
  "bucket_level r b t k = min (of_int b) (fst k + refill r (t - snd k))"

definition bucket_take :: "real \<Rightarrow> int \<Rightarrow> instant \<Rightarrow> real \<times> instant \<Rightarrow> bool \<times> real \<times> instant" where
  "bucket_take r b t k =
     (let y = bucket_level r b t k in if 1 \<le> y then (True, y - 1, t) else (False, y, t))"

datatype limit_event = AllowAt instant string | CleanupAt instant

primrec limit_time :: "limit_event \<Rightarrow> instant" where
  "limit_time (AllowAt t u) = t"
| "limit_time (CleanupAt t) = t"

fun run_limits :: "'l limiter_lib \<Rightarrow> limit_event list \<Rightarrow> 'l per_user_limiter \<Rightarrow> bool list" where
  "run_limits L [] p = []"
| "run_limits L (AllowAt t u # es) p = (let (ok, p) = allow_user L t u p in ok # run_limits L es p)"
| "run_limits L (CleanupAt t # es) p = run_limits L es (cleanup_limiters L t p)"

fun run_buckets :: "real \<Rightarrow> int \<Rightarrow> limit_event list \<Rightarrow> (string \<Rightarrow> real \<times> instant) \<Rightarrow> bool list" where
  "run_buckets r b [] s = []"
| "run_buckets r b (AllowAt t u # es) s = (let (ok, k) = bucket_take r b t (s u) in ok # run_buckets r b es (s(u := k)))"
| "run_buckets r b (CleanupAt t # es) s = run_buckets r b es s"

definition represents_buckets ::
  "'l limiter_lib \<Rightarrow> instant \<Rightarrow> 'l per_user_limiter \<Rightarrow> (string \<Rightarrow> real \<times> instant) \<Rightarrow> bool" where
  "represents_buckets L now p s \<longleftrightarrow> users_settled L now p \<and>
     (\<forall>u. \<forall>t \<ge> now. user_tokens L t u p = bucket_level (pul_rate p) (pul_burst p) t (s u))"

lemma run_refines_buckets:
  assumes "limiter_laws L"
  shows "represents_buckets L now p s \<Longrightarrow> sorted (now # map limit_time es) \<Longrightarrow>
    run_limits L es p = run_buckets (pul_rate p) (pul_burst p) es s"
proof (induction es arbitrary: now p s)
  case (Cons e es)
  have st: "users_settled L now p"
    and lv: "\<And>u t. now \<le> t \<Longrightarrow> user_tokens L t u p = bucket_level (pul_rate p) (pul_burst p) t (s u)"
    using Cons.prems(1) by (auto simp: represents_buckets_def)
  show ?case
  proof (cases e)
    case (AllowAt t u)
    have t: "now \<le> t" "sorted (t # map limit_time es)" using Cons.prems(2) AllowAt by auto
    obtain ok p' where a: "allow_user L t u p = (ok, p')" by fastforce
    obtain ok' k where b: "bucket_take (pul_rate p) (pul_burst p) t (s u) = (ok', k)" by (metis prod.exhaust)
    note s = allow_user_tokens [OF assms st t(1) a]
    have ok: "ok' = ok" using b s(1) lv [OF t(1), of u] by (auto simp: bucket_take_def Let_def split: if_splits)
    have k: "k = (user_tokens L t u p', t)"
      using b ok lv [OF t(1), of u] s(5) [of u] by (auto simp: bucket_take_def Let_def split: if_splits)
    have r: "0 \<le> pul_rate p" using st by (simp add: users_settled_def)
    have "user_tokens L t' v p' = bucket_level (pul_rate p) (pul_burst p) t' ((s(u := k)) v)"
      if "t \<le> t'" for t' v
    proof (cases "v = u")
      case True
      then show ?thesis using user_tokens_at [OF s(2) that, of v] s(3,4) k by (simp add: bucket_level_def)
    next
      case False
      then have "user_tokens L t v p' = bucket_level (pul_rate p) (pul_burst p) t (s v)"
        using s(5) [of v] lv [OF t(1)] by simp
      moreover have "bucket_level (pul_rate p) (pul_burst p) t' (s v) = user_tokens L t' v p"
        using lv t(1) that by simp
      ultimately show ?thesis
        using False user_tokens_at [OF s(2) that, of v] s(3,4)
          user_tokens_at [OF users_settled_later [OF st t(1)] that, of v] lv [OF t(1), of v] by simp
    qed
    then have "represents_buckets L t p' (s(u := k))" using s(2-4) by (simp add: represents_buckets_def)
    from Cons.IH [OF this t(2)] show ?thesis using AllowAt a b ok s(3,4) by (simp add: fun_upd_def)
  next
    case (CleanupAt t)
    have t: "now \<le> t" "sorted (t # map limit_time es)" using Cons.prems(2) CleanupAt by auto
    note c = cleanup_tokens [OF st t(1)]
    have "user_tokens L t' v (cleanup_limiters L t p) = bucket_level (pul_rate p) (pul_burst p) t' (s v)"
      if "t \<le> t'" for t' v
      using user_tokens_at [OF c(1) that, of v] user_tokens_at [OF users_settled_later [OF st t(1)] that, of v]
        c lv that t(1) by simp
    then have "represents_buckets L t (cleanup_limiters L t p) s" using c by (simp add: represents_buckets_def)
    from Cons.IH [OF this t(2)] show ?thesis using CleanupAt c by simp
  qed
qed simp

lemma new_limiter_represents:
  "0 \<le> r \<Longrightarrow> 0 \<le> b \<Longrightarrow> represents_buckets L now (new_per_user_limiter r b) (\<lambda>u. (of_int b, now))"
  by (auto simp: represents_buckets_def users_settled_def user_tokens_def bucket_level_def new_per_user_limiter_def)

text \<open>
  C21: To its users the limiter is one full bucket of tokens each: over any sequence of requests and
  clean-ups at times that do not decrease, it admits exactly the requests that a table of buckets
  admits which is never cleaned.  Removing idle limiters, as \<open>Cleanup\<close> does to save memory, can
  never be noticed.
\<close>

theorem limiter_is_a_bucket_per_user:
  assumes "limiter_laws L" and "0 \<le> r" and "0 \<le> b" and "sorted (now # map limit_time es)"
  shows "run_limits L es (new_per_user_limiter r b) = run_buckets r b es (\<lambda>u. (of_int b, now))"
  using run_refines_buckets [OF assms(1) new_limiter_represents [OF assms(2,3)] assms(4)]
  by (simp add: new_per_user_limiter_def)

section \<open>Two weaknesses\<close>

text \<open>
  A refused request is answered with the status 429, but the header that tells the client when to
  come back is set after the headers were sent.
\<close>

theorem refusal_lacks_retry_after:
  assumes "rate_handler L t r w m = (False, w', m')" and "rw_sent w = None"
    and "gm_get (rw_header w) ''Retry-After'' = None"
  shows "\<exists>ans. rw_sent w' = Some ans \<and> ha_status ans = 429 \<and> gm_get (ha_header ans) ''Retry-After'' = None"
  using assms
  by (auto simp: rate_handler_def Let_def set_header_def http_error_def split: prod.splits if_splits)

text \<open>
  The user is whoever the request says: a client that sends another \<open>X-User-ID\<close> each time is never
  stopped by the limit per user.
\<close>

theorem fresh_names_are_free:
  assumes "limiter_laws L" and "users_settled L now p" and "now \<le> t" and "1 \<le> pul_burst p"
    and "gm_get (pul_limiters p) u = None"
  shows "fst (allow_user L t u p)"
proof -
  obtain ok p' where a: "allow_user L t u p = (ok, p')" by fastforce
  show ?thesis using allow_user_tokens(1) [OF assms(1-3) a] assms(4,5) a by (simp add: user_tokens_def)
qed

section \<open>Slots of a provider\<close>

datatype slot_event = Acquire string | Release string

text \<open>
  The number of operations that hold a slot of a provider: those that acquired one and have not
  released it.  Whoever holds none does not release.
\<close>

fun run_slots :: "slot_event list \<Rightarrow> 'l provider_limiter \<Rightarrow> (string \<Rightarrow> nat) \<Rightarrow> 'l provider_limiter \<times> (string \<Rightarrow> nat)" where
  "run_slots [] pl held = (pl, held)"
| "run_slots (Acquire p # es) pl held =
     (let (ok, pl) = acquire_concurrency p pl
      in run_slots es pl (if ok then held(p := Suc (held p)) else held))"
| "run_slots (Release p # es) pl held =
     (if held p = 0 then run_slots es pl held
      else run_slots es (release_concurrency p pl) (held(p := held p - 1)))"

fun slot_ok :: "provider_limit option \<Rightarrow> semaphore option \<Rightarrow> nat \<Rightarrow> bool" where
  "slot_ok None s n \<longleftrightarrow> s = None"
| "slot_ok (Some l) s n \<longleftrightarrow>
     s = Some \<lparr>sem_capacity = nat (pl_concurrent_ops l), sem_used = n\<rparr> \<and> n \<le> nat (pl_concurrent_ops l)"

definition slots_ok :: "rate_config \<Rightarrow> 'l provider_limiter \<Rightarrow> (string \<Rightarrow> nat) \<Rightarrow> bool" where
  "slots_ok c pl held \<longleftrightarrow>
     (\<forall>p. slot_ok (gm_get (rc_provider_limits c) p) (gm_get (pr_concurrency pl) p) (held p))"

lemma slots_ok_new:
  assumes "new_provider_limiter L c = Returns pl"
  shows "slots_ok c pl (\<lambda>p. 0)"
proof -
  have m: "gm_get (map (\<lambda>(p, l). (p, f l)) m) p = map_option f (gm_get m p)"
    for f :: "provider_limit \<Rightarrow> semaphore" and m and p :: string
    by (induction m) auto
  have "pr_concurrency pl = map (\<lambda>(p, l). (p, \<lparr>sem_capacity = nat (pl_concurrent_ops l), sem_used = 0\<rparr>))
      (rc_provider_limits c)"
    using assms by (auto simp: new_provider_limiter_def split: if_splits)
  then have "slot_ok (gm_get (rc_provider_limits c) p) (gm_get (pr_concurrency pl) p) 0" for p
    using m [of "\<lambda>l. \<lparr>sem_capacity = nat (pl_concurrent_ops l), sem_used = 0\<rparr>" "rc_provider_limits c" p]
    by (cases "gm_get (rc_provider_limits c) p") simp_all
  then show ?thesis by (simp add: slots_ok_def)
qed

lemma slots_ok_acquire:
  assumes "slots_ok c pl held" and "acquire_concurrency p pl = (ok, pl')"
  shows "slots_ok c pl' (if ok then held(p := Suc (held p)) else held)"
    and "ok \<longleftrightarrow> (case gm_get (rc_provider_limits c) p of None \<Rightarrow> True | Some l \<Rightarrow> held p < nat (pl_concurrent_ops l))"
proof -
  have p: "slot_ok (gm_get (rc_provider_limits c) q) (gm_get (pr_concurrency pl) q) (held q)" for q
    using assms(1) by (simp add: slots_ok_def)
  show "ok \<longleftrightarrow> (case gm_get (rc_provider_limits c) p of None \<Rightarrow> True | Some l \<Rightarrow> held p < nat (pl_concurrent_ops l))"
    using assms(2) p [of p]
    by (cases "gm_get (rc_provider_limits c) p") (auto simp: acquire_concurrency_def split: if_splits)
  have "slot_ok (gm_get (rc_provider_limits c) q) (gm_get (pr_concurrency pl') q)
      ((if ok then held(p := Suc (held p)) else held) q)" for q
    using assms(2) p [of p] p [of q]
    by (cases "gm_get (rc_provider_limits c) p"; cases "q = p")
      (auto simp: acquire_concurrency_def map_ops split: if_splits)
  then show "slots_ok c pl' (if ok then held(p := Suc (held p)) else held)" unfolding slots_ok_def by blast
qed

lemma slots_ok_release:
  assumes "slots_ok c pl held" and "held p \<noteq> 0"
  shows "slots_ok c (release_concurrency p pl) (held(p := held p - 1))"
proof -
  have p: "slot_ok (gm_get (rc_provider_limits c) q) (gm_get (pr_concurrency pl) q) (held q)" for q
    using assms(1) by (simp add: slots_ok_def)
  have "slot_ok (gm_get (rc_provider_limits c) q) (gm_get (pr_concurrency (release_concurrency p pl)) q)
      ((held(p := held p - 1)) q)" for q
    using assms(2) p [of p] p [of q]
    by (cases "gm_get (rc_provider_limits c) p"; cases "q = p")
      (auto simp: release_concurrency_def map_ops)
  then show ?thesis unfolding slots_ok_def by blast
qed

lemma slots_ok_run:
  "slots_ok c pl held \<Longrightarrow> run_slots es pl held = (pl', held') \<Longrightarrow> slots_ok c pl' held'"
proof (induction es arbitrary: pl held)
  case (Cons e es)
  show ?case
  proof (cases e)
    case (Acquire p)
    obtain ok pl1 where a: "acquire_concurrency p pl = (ok, pl1)" by fastforce
    have "run_slots es pl1 (if ok then held(p := Suc (held p)) else held) = (pl', held')"
      using Cons.prems(2) a by (simp add: Acquire)
    from Cons.IH [OF slots_ok_acquire(1) [OF Cons.prems(1) a] this] show ?thesis .
  next
    case (Release p)
    show ?thesis
    proof (cases "held p = 0")
      case True
      with Cons show ?thesis by (simp add: Release)
    next
      case False
      then have "run_slots es (release_concurrency p pl) (held(p := held p - 1)) = (pl', held')"
        using Cons.prems(2) by (simp add: Release)
      from Cons.IH [OF slots_ok_release [OF Cons.prems(1) False] this] show ?thesis .
    qed
  qed
qed simp

text \<open>
  A provider limiter that could be created never lets more operations of a provider run at a
  time than configured, whatever is acquired and released by whoever holds a slot, and it refuses
  an operation exactly when that many are running; providers without a limit are never refused.
\<close>

theorem provider_slots_are_limited:
  assumes "new_provider_limiter L c = Returns pl" and "run_slots es pl (\<lambda>p. 0) = (pl', held)"
  shows "case gm_get (rc_provider_limits c) p of
      None \<Rightarrow> fst (acquire_concurrency p pl')
    | Some l \<Rightarrow> int (held p) \<le> pl_concurrent_ops l \<and>
        (fst (acquire_concurrency p pl') \<longleftrightarrow> int (held p) < pl_concurrent_ops l)"
proof -
  have ok: "slots_ok c pl' held" by (rule slots_ok_run [OF slots_ok_new [OF assms(1)] assms(2)])
  obtain b pl'' where a: "acquire_concurrency p pl' = (b, pl'')" by fastforce
  have "0 \<le> pl_concurrent_ops l" if "gm_get (rc_provider_limits c) p = Some l" for l
    using assms(1) gm_get_in [OF that]
    by (fastforce simp: new_provider_limiter_def list_ex_iff split: if_splits)
  moreover have "held p \<le> nat (pl_concurrent_ops l)" if "gm_get (rc_provider_limits c) p = Some l" for l
    using ok that unfolding slots_ok_def by (metis slot_ok.simps(2))
  ultimately show ?thesis using slots_ok_acquire(2) [OF ok a] a by (auto split: option.splits)
qed

section \<open>Concrete cases\<close>

text \<open>A token bucket in exact arithmetic: rate, burst, and the level at some time if ever used.\<close>

record bucket =
  bu_rate :: real
  bu_burst :: int
  bu_level :: "(real \<times> instant) option"

definition level_at :: "instant \<Rightarrow> bucket \<Rightarrow> real" where
  "level_at t l =
     (case bu_level l of None \<Rightarrow> of_int (bu_burst l)
      | Some (x, s) \<Rightarrow> min (of_int (bu_burst l)) (x + refill (bu_rate l) (t - s)))"

definition bucket_lib :: "bucket limiter_lib" where
  "bucket_lib =
     \<lparr>ll_new = \<lambda>r b. \<lparr>bu_rate = r, bu_burst = b, bu_level = None\<rparr>,
      ll_allow = \<lambda>t l. let y = level_at t l; ok = 1 \<le> y
                       in (ok, l\<lparr>bu_level := Some (if ok then y - 1 else y, t)\<rparr>),
      ll_tokens = level_at, ll_limit = bu_rate, ll_burst = bu_burst\<rparr>"

lemma bucket_lib_laws: "limiter_laws bucket_lib"
  by (auto simp: limiter_laws_def bucket_lib_def Let_def level_at_def)

definition from_user :: "string \<Rightarrow> http_request" where
  "from_user u = \<lparr>hr_header = [(''X-User-Id'', u)], hr_remote = ''10.0.0.1''\<rparr>"

definition fresh_writer :: response_writer where
  "fresh_writer = \<lparr>rw_header = [], rw_sent = None\<rparr>"

lemmas limit_eval =
  bucket_lib_def level_at_def refill_def second_def allow_user_def get_limiter_def cleanup_limiters_def
  new_per_user_limiter_def Let_def

theorem limiter_is_a_bucket_per_user_witness:
  "run_limits bucket_lib [AllowAt 1 ''a'', AllowAt 1 ''a'', CleanupAt 2, AllowAt second ''b'']
      (new_per_user_limiter 1 1) =
    run_buckets 1 1 [AllowAt 1 ''a'', AllowAt 1 ''a'', CleanupAt 2, AllowAt second ''b''] (\<lambda>u. (1, 0)) \<and>
   run_limits bucket_lib [AllowAt 1 ''a'', AllowAt 1 ''a''] (new_per_user_limiter 1 1) = [True, False]"
  using limiter_is_a_bucket_per_user [OF bucket_lib_laws, of 1 1 0
      "[AllowAt 1 ''a'', AllowAt 1 ''a'', CleanupAt 2, AllowAt second ''b'']"]
  by (simp add: second_def) (simp add: limit_eval)

theorem refusal_lacks_retry_after_witness:
  "\<exists>w' m' ans. rate_handler bucket_lib 0 (from_user ''a'') fresh_writer (new_rate_middleware bucket_lib 1 1 0 0) =
      (False, w', m') \<and> rw_sent w' = Some ans \<and> gm_get (ha_header ans) ''Retry-After'' = None"
proof -
  obtain w' m' where r: "rate_handler bucket_lib 0 (from_user ''a'') fresh_writer
      (new_rate_middleware bucket_lib 1 1 0 0) = (False, w', m')"
    by (simp add: rate_handler_def new_rate_middleware_def limit_eval)
  with refusal_lacks_retry_after [OF r] show ?thesis by (fastforce simp: fresh_writer_def)
qed

theorem fresh_names_are_free_witness:
  "fst (allow_user bucket_lib 0 ''new'' (new_per_user_limiter 1 1))"
  by (rule fresh_names_are_free [OF bucket_lib_laws, of 0])
    (simp_all add: new_per_user_limiter_def users_settled_def)

definition one_slot :: rate_config where
  "one_slot = default_rate_config\<lparr>rc_provider_limits :=
     [(''p'', \<lparr>pl_requests_per_minute = 60, pl_burst = 1, pl_concurrent_ops = 1\<rparr>)]\<rparr>"

theorem provider_slots_are_limited_witness:
  "\<exists>pl pl' held. new_provider_limiter bucket_lib one_slot = Returns pl \<and>
     run_slots [Acquire ''p'', Acquire ''p''] pl (\<lambda>p. 0) = (pl', held) \<and>
     int (held ''p'') \<le> 1 \<and> (fst (acquire_concurrency ''p'' pl') \<longleftrightarrow> int (held ''p'') < 1)"
proof -
  obtain pl where n: "new_provider_limiter bucket_lib one_slot = Returns pl"
    by (simp add: new_provider_limiter_def one_slot_def)
  obtain pl' held where r: "run_slots [Acquire ''p'', Acquire ''p''] pl (\<lambda>p. 0) = (pl', held)" by fastforce
  show ?thesis using provider_slots_are_limited [OF n r, of "''p''"] n r by (auto simp: one_slot_def)
qed

end
