(* ===== verification/Rate_Traffic.thy ===== *)
theory Rate_Traffic
  imports Rate_Limit
begin

text \<open>
  The middleware of \<open>daemon/ratelimit/ratelimit.go\<close> under concurrent requests.  \<open>GetLimiter\<close>
  releases the mutex before the request asks the limiter it was given, so other requests and
  clean-ups may come in between, and a clean-up may drop a limiter that a request still holds.
  Limiters are therefore referred to by number here; \<open>user_view\<close> is the state of \<open>Rate_Limit\<close>
  that the map shows.
\<close>

declare split_paired_All [simp del] split_paired_Ex [simp del]

section \<open>Shared limiters\<close>

record 'l shared_limiters =
  sl_limiters :: "'l list"
  sl_users :: "(string, nat) gomap"
  sl_rate :: real
  sl_burst :: int

definition lookup_limiter ::
  "'l limiter_lib \<Rightarrow> string \<Rightarrow> 'l shared_limiters \<Rightarrow> nat \<times> 'l shared_limiters" where
  "lookup_limiter L u s =
     (case gm_get (sl_users s) u of
        Some i \<Rightarrow> (i, s)
      | None \<Rightarrow>
          let i = length (sl_limiters s)
          in (i, s\<lparr>sl_limiters := sl_limiters s @ [ll_new L (sl_rate s) (sl_burst s)],
                   sl_users := gm_put u i (sl_users s)\<rparr>))"

definition ask_limiter ::
  "'l limiter_lib \<Rightarrow> instant \<Rightarrow> nat \<Rightarrow> 'l shared_limiters \<Rightarrow> bool \<times> 'l shared_limiters" where
  "ask_limiter L t i s =
     (let (ok, l) = ll_allow L t (sl_limiters s ! i)
      in (ok, s\<lparr>sl_limiters := (sl_limiters s)[i := l]\<rparr>))"

definition sweep_limiters :: "'l limiter_lib \<Rightarrow> instant \<Rightarrow> 'l shared_limiters \<Rightarrow> 'l shared_limiters" where
  "sweep_limiters L t s =
     s\<lparr>sl_users := filter (\<lambda>(u, i). \<not> of_int (sl_burst s) \<le> ll_tokens L t (sl_limiters s ! i)) (sl_users s)\<rparr>"

definition user_view :: "'l shared_limiters \<Rightarrow> 'l per_user_limiter" where
  "user_view s =
     \<lparr>pul_limiters = map (\<lambda>(u, i). (u, sl_limiters s ! i)) (sl_users s),
      pul_rate = sl_rate s, pul_burst = sl_burst s\<rparr>"

section \<open>Requests in two halves\<close>

text \<open>
  A request that passed the global limit holds the limiter of its user, by its own number, until
  it has asked it.
\<close>

record 'l live_middleware =
  lm_users :: "'l shared_limiters"
  lm_global :: 'l
  lm_asking :: "(nat, http_request \<times> nat) gomap"

definition new_live_middleware ::
  "'l limiter_lib \<Rightarrow> real \<Rightarrow> real \<Rightarrow> int \<Rightarrow> int \<Rightarrow> 'l live_middleware" where
  "new_live_middleware L user_rate global_rate user_burst global_burst =
     \<lparr>lm_users = \<lparr>sl_limiters = [], sl_users = [], sl_rate = user_rate, sl_burst = user_burst\<rparr>,
      lm_global = ll_new L global_rate global_burst, lm_asking = []\<rparr>"

text \<open>The global limit and \<open>GetLimiter\<close>; whether the request goes on.\<close>

definition enter_middleware ::
  "'l limiter_lib \<Rightarrow> instant \<Rightarrow> nat \<Rightarrow> http_request \<Rightarrow> 'l live_middleware \<Rightarrow> bool \<times> 'l live_middleware" where
  "enter_middleware L t n r m =
     (let (ok, g) = ll_allow L t (lm_global m); m = m\<lparr>lm_global := g\<rparr>
      in if \<not> ok then (False, m)
         else let (i, s) = lookup_limiter L (user_key r) (lm_users m)
              in (True, m\<lparr>lm_users := s, lm_asking := gm_put n (r, i) (lm_asking m)\<rparr>))"

text \<open>\<open>limiter.Allow\<close>; the requests served are those it lets through.\<close>

definition leave_middleware ::
  "'l limiter_lib \<Rightarrow> instant \<Rightarrow> nat \<Rightarrow> 'l live_middleware \<Rightarrow> http_request list \<times> 'l live_middleware" where
  "leave_middleware L t n m =
     (case gm_get (lm_asking m) n of
        None \<Rightarrow> ([], m)
      | Some (r, i) \<Rightarrow>
          let (ok, s) = ask_limiter L t i (lm_users m)
          in (if ok then [r] else [], m\<lparr>lm_users := s, lm_asking := gm_del n (lm_asking m)\<rparr>))"

datatype live_event =
    Enters instant nat http_request
  | Leaves instant nat
  | Sweeps instant

primrec live_time :: "live_event \<Rightarrow> instant" where
  "live_time (Enters t n r) = t"
| "live_time (Leaves t n) = t"
| "live_time (Sweeps t) = t"

text \<open>The number of a request is its own.\<close>

fun live_step ::
  "'l limiter_lib \<Rightarrow> live_event \<Rightarrow> 'l live_middleware \<Rightarrow> http_request list \<times> 'l live_middleware" where
  "live_step L (Enters t n r) m =
     (if gm_get (lm_asking m) n \<noteq> None then ([], m) else ([], snd (enter_middleware L t n r m)))"
| "live_step L (Leaves t n) m = leave_middleware L t n m"
| "live_step L (Sweeps t) m = ([], m\<lparr>lm_users := sweep_limiters L t (lm_users m)\<rparr>)"

fun live_run ::
  "'l limiter_lib \<Rightarrow> live_event list \<Rightarrow> 'l live_middleware \<Rightarrow> http_request list \<times> 'l live_middleware" where
  "live_run L [] m = ([], m)"
| "live_run L (e # es) m =
     (let (out, m) = live_step L e m; (outs, m) = live_run L es m in (out @ outs, m))"

text \<open>No clean-up finds a request of the user between its two halves.\<close>

definition asks :: "string \<Rightarrow> 'l live_middleware \<Rightarrow> bool" where
  "asks k m \<longleftrightarrow> list_ex (\<lambda>(n, r, i). user_key r = k) (lm_asking m)"

fun calm :: "'l limiter_lib \<Rightarrow> string \<Rightarrow> live_event list \<Rightarrow> 'l live_middleware \<Rightarrow> bool" where
  "calm L k [] m = True"
| "calm L k (e # es) m =
     ((case e of Sweeps t \<Rightarrow> \<not> asks k m | _ \<Rightarrow> True) \<and> calm L k es (snd (live_step L e m)))"

section \<open>What the map shows\<close>

definition refs_ok :: "'l shared_limiters \<Rightarrow> bool" where
  "refs_ok s \<longleftrightarrow> gm_wf (sl_users s) \<and> distinct (map snd (sl_users s))
     \<and> (\<forall>i \<in> snd ` set (sl_users s). i < length (sl_limiters s))"

lemma refs_ok_range: "refs_ok s \<Longrightarrow> gm_get (sl_users s) u = Some i \<Longrightarrow> i < length (sl_limiters s)"
  unfolding refs_ok_def by (force dest: map_of_SomeD)

lemma user_view_simps [simp]:
  "pul_rate (user_view s) = sl_rate s" "pul_burst (user_view s) = sl_burst s"
  by (simp_all add: user_view_def)

lemma user_view_get:
  "gm_get (pul_limiters (user_view s)) u = map_option (\<lambda>i. sl_limiters s ! i) (gm_get (sl_users s) u)"
proof -
  have "gm_get (map (\<lambda>(u, i). (u, f i)) m) u = map_option f (gm_get m u)"
    for f :: "nat \<Rightarrow> 'b" and m and u :: string
    by (induction m) auto
  then show ?thesis by (simp add: user_view_def)
qed

lemma view_keys: "map fst (pul_limiters (user_view s)) = map fst (sl_users s)"
  by (simp add: user_view_def case_prod_unfold)

lemma lookup_limiter_ok:
  assumes "refs_ok s" and "lookup_limiter L u s = (i, s')"
  shows "refs_ok s'" and "gm_get (sl_users s') u = Some i" and "sl_rate s' = sl_rate s"
    and "sl_burst s' = sl_burst s" and "\<forall>v. v \<noteq> u \<longrightarrow> gm_get (sl_users s') v = gm_get (sl_users s) v"
    and "gm_get (sl_users s) u = None \<Longrightarrow> i = length (sl_limiters s)"
    and "length (sl_limiters s) \<le> length (sl_limiters s')"
    and "snd ` set (sl_users s') \<subseteq> insert i (snd ` set (sl_users s))"
    and "gm_get (sl_users s) u \<noteq> None \<Longrightarrow> s' = s"
proof -
  have app: "gm_put u j m = m @ [(u, j)]" if "gm_get m u = None" for j and m :: "(string, nat) gomap"
    using that by (induction m) (auto split: if_splits)
  have shape: "refs_ok s' \<and> gm_get (sl_users s') u = Some i \<and> sl_rate s' = sl_rate s \<and> sl_burst s' = sl_burst s
      \<and> (\<forall>v. v \<noteq> u \<longrightarrow> gm_get (sl_users s') v = gm_get (sl_users s) v)
      \<and> (gm_get (sl_users s) u = None \<longrightarrow> i = length (sl_limiters s)) \<and> length (sl_limiters s) \<le> length (sl_limiters s')
      \<and> snd ` set (sl_users s') \<subseteq> insert i (snd ` set (sl_users s))
      \<and> (gm_get (sl_users s) u \<noteq> None \<longrightarrow> s' = s)"
  proof (cases "gm_get (sl_users s) u")
    case None
    let ?n = "length (sl_limiters s)"
    have i: "i = ?n" "s' = s\<lparr>sl_limiters := sl_limiters s @ [ll_new L (sl_rate s) (sl_burst s)],
        sl_users := sl_users s @ [(u, ?n)]\<rparr>"
      using assms(2) None by (auto simp: lookup_limiter_def app Let_def)
    have "u \<notin> fst ` set (sl_users s)" using None by (simp add: map_of_eq_None_iff)
    moreover have "?n \<notin> snd ` set (sl_users s)" using assms(1) unfolding refs_ok_def by blast
    moreover have "\<forall>j \<in> snd ` set (sl_users s). j < Suc ?n" using assms(1) unfolding refs_ok_def by force
    ultimately have "refs_ok s'" using assms(1) by (auto simp: i refs_ok_def gm_wf_def)
    then show ?thesis
      using None by (auto simp: i map_add_def split: option.split)
  next
    case (Some j)
    then show ?thesis
      using assms by (auto simp: lookup_limiter_def)
  qed
  show "refs_ok s'" "gm_get (sl_users s') u = Some i" "sl_rate s' = sl_rate s" "sl_burst s' = sl_burst s"
    "\<forall>v. v \<noteq> u \<longrightarrow> gm_get (sl_users s') v = gm_get (sl_users s) v"
    "gm_get (sl_users s) u = None \<Longrightarrow> i = length (sl_limiters s)"
    "length (sl_limiters s) \<le> length (sl_limiters s')"
    "snd ` set (sl_users s') \<subseteq> insert i (snd ` set (sl_users s))"
    "gm_get (sl_users s) u \<noteq> None \<Longrightarrow> s' = s"
    using shape by blast+
qed

text \<open>The tokens of the users do not change by a look at the map.\<close>

lemma lookup_limiter_tokens:
  assumes "limiter_laws L" and "refs_ok s" and "users_settled L t (user_view s)"
    and "lookup_limiter L u s = (i, s')"
  shows "users_settled L t (user_view s')"
    and "user_tokens L t' v (user_view s') = user_tokens L t' v (user_view s)"
proof -
  have r: "0 \<le> sl_rate s" "0 \<le> sl_burst s" and wf: "gm_wf (sl_users s)"
    using assms(3) by (auto simp: users_settled_def gm_wf_def view_keys)
  have new: "ll_tokens L t' (ll_new L (sl_rate s) (sl_burst s)) = of_int (sl_burst s)" for t'
    using assms(1) r unfolding limiter_laws_def by blast
  have old: "(sl_limiters s @ [l]) ! j = sl_limiters s ! j" if "gm_get (sl_users s) v = Some j" for j v l
    using refs_ok_range [OF assms(2) that] by (simp add: nth_append)
  note l = lookup_limiter_ok [OF assms(2,4)]
  have get: "gm_get (pul_limiters (user_view s')) v =
      (if v = u \<and> gm_get (sl_users s) u = None then Some (ll_new L (sl_rate s) (sl_burst s))
       else gm_get (pul_limiters (user_view s)) v)" for v
    using assms(4) old
    by (cases "gm_get (sl_users s) u"; cases "gm_get (sl_users s) v")
      (auto simp: user_view_get lookup_limiter_def Let_def map_ops)
  show "users_settled L t (user_view s')"
    using assms(3) l(1,3,4) settled_new(1) [OF assms(1) r]
    by (auto simp: users_settled_def get refs_ok_def gm_wf_def view_keys split: if_splits)
  show "user_tokens L t' v (user_view s') = user_tokens L t' v (user_view s)"
    using l(4) new by (auto simp: user_tokens_def get user_view_get [of s u] split: option.split)
qed

text \<open>Asking the limiter that the map has is what \<open>allow_user\<close> does in one step.\<close>

lemma untouched:
  assumes "i \<notin> snd ` set m"
  shows "map (\<lambda>(u, j). (u, ls[i := l] ! j)) m = map (\<lambda>(u, j). (u, ls ! j)) m"
proof (intro map_cong refl)
  fix x
  assume "x \<in> set m"
  then have "snd x \<noteq> i" using assms by blast
  then show "(case x of (u, j) \<Rightarrow> (u, ls[i := l] ! j)) = (case x of (u, j) \<Rightarrow> (u, ls ! j))"
    by (simp add: case_prod_unfold)
qed

lemma ask_limiter_attached:
  assumes "refs_ok s" and "gm_get (sl_users s) u = Some i" and "ask_limiter L t i s = (ok, s')"
  shows "allow_user L t u (user_view s) = (ok, user_view s')"
proof -
  obtain l where l: "ll_allow L t (sl_limiters s ! i) = (ok, l)"
    and s': "s' = s\<lparr>sl_limiters := (sl_limiters s)[i := l]\<rparr>"
    using assms(3) by (auto simp: ask_limiter_def split: prod.splits)
  have upd: "map (\<lambda>(u, j). (u, ls[i := l] ! j)) m = gm_put u l (map (\<lambda>(u, j). (u, ls ! j)) m)"
    if "gm_get m u = Some i" "distinct (map snd m)" "gm_wf m" "\<forall>j \<in> snd ` set m. j < length ls" for m ls
    using that
  proof (induction m)
    case (Cons x m)
    obtain v j where x: "x = (v, j)" by (cases x)
    show ?case
    proof (cases "v = u")
      case True
      then have "j = i" "i \<notin> snd ` set m" using Cons.prems x by auto
      then have "map (\<lambda>(u, j). (u, ls[i := l] ! j)) m = map (\<lambda>(u, j). (u, ls ! j)) m"
        by (intro untouched) simp_all
      then show ?thesis using Cons.prems x True \<open>j = i\<close> by auto
    next
      case False
      then have "j \<noteq> i" using Cons.prems x by (force dest: map_of_SomeD)
      then show ?thesis using Cons x False by auto
    qed
  qed simp
  have "user_view s' = (user_view s)\<lparr>pul_limiters := gm_put u l (pul_limiters (user_view s))\<rparr>"
    using upd [OF assms(2), of "sl_limiters s"] assms(1) by (simp add: user_view_def s' refs_ok_def)
  then show ?thesis using assms(2) l by (simp add: allow_user_def get_limiter_def user_view_get)
qed

text \<open>So a request that nothing interrupts is a step of \<open>Rate_Limit\<close>.\<close>

lemma uninterrupted_request:
  assumes "limiter_laws L" and "refs_ok s" and "users_settled L t (user_view s)"
    and "lookup_limiter L u s = (i, s1)" and "ask_limiter L t i s1 = (ok, s2)"
  shows "ok = fst (allow_user L t u (user_view s))"
proof -
  obtain ok' p where a: "allow_user L t u (user_view s) = (ok', p)" by fastforce
  note l = lookup_limiter_ok [OF assms(2,4)] and v = lookup_limiter_tokens [OF assms(1-4)]
  show ?thesis
    using allow_user_tokens(1) [OF assms(1,3) order_refl a]
      allow_user_tokens(1) [OF assms(1) v(1) order_refl ask_limiter_attached [OF l(1,2) assms(5)]] v(2) a
    by simp
qed

lemma ask_limiter_ok:
  assumes "ask_limiter L t i s = (ok, s')"
  shows "sl_users s' = sl_users s" and "sl_rate s' = sl_rate s" and "sl_burst s' = sl_burst s"
    and "length (sl_limiters s') = length (sl_limiters s)"
  using assms by (auto simp: ask_limiter_def split: prod.splits)

text \<open>A limiter that the map no longer has is nobody's.\<close>

lemma ask_limiter_detached:
  assumes "i \<notin> snd ` set (sl_users s)" and "ask_limiter L t i s = (ok, s')"
  shows "user_view s' = user_view s"
  using assms by (auto simp: ask_limiter_def user_view_def untouched split: prod.splits)

lemma sweep_is_cleanup: "user_view (sweep_limiters L t s) = cleanup_limiters L t (user_view s)"
  by (simp add: user_view_def sweep_limiters_def cleanup_limiters_def filter_map comp_def case_prod_unfold)

lemma sweep_refs:
  assumes "refs_ok s"
  shows "refs_ok (sweep_limiters L t s)"
    and "gm_get (sl_users (sweep_limiters L t s)) u = Some i \<Longrightarrow> gm_get (sl_users s) u = Some i"
    and "snd ` set (sl_users (sweep_limiters L t s)) \<subseteq> snd ` set (sl_users s)"
proof -
  have wf: "gm_wf (sl_users s)" using assms by (simp add: refs_ok_def)
  show "refs_ok (sweep_limiters L t s)"
    using assms by (auto simp: refs_ok_def sweep_limiters_def distinct_map_filter)
  show "snd ` set (sl_users (sweep_limiters L t s)) \<subseteq> snd ` set (sl_users s)"
    by (auto simp: sweep_limiters_def)
  assume "gm_get (sl_users (sweep_limiters L t s)) u = Some i"
  then have "(u, i) \<in> set (sl_users s)" by (auto simp: sweep_limiters_def dest: map_of_SomeD)
  then show "gm_get (sl_users s) u = Some i" using wf by (simp add: gm_in_get)
qed

section \<open>How much is served\<close>

text \<open>What a request holds: the limiter of its user, unless a clean-up has dropped it from the map.\<close>

definition asking_ok :: "string \<Rightarrow> 'l shared_limiters \<Rightarrow> http_request \<Rightarrow> nat \<Rightarrow> bool" where
  "asking_ok k s r i \<longleftrightarrow> i < length (sl_limiters s)
     \<and> (i \<in> snd ` set (sl_users s) \<longrightarrow> gm_get (sl_users s) (user_key r) = Some i)
     \<and> (user_key r = k \<longrightarrow> gm_get (sl_users s) k = Some i)"

definition live_ok ::
  "'l limiter_lib \<Rightarrow> real \<Rightarrow> int \<Rightarrow> real \<Rightarrow> int \<Rightarrow> string \<Rightarrow> instant \<Rightarrow> 'l live_middleware \<Rightarrow> bool" where
  "live_ok L gr gb ur ub k t m \<longleftrightarrow>
     0 \<le> gr \<and> settled L gr gb t (lm_global m) \<and> refs_ok (lm_users m)
     \<and> users_settled L t (user_view (lm_users m)) \<and> sl_rate (lm_users m) = ur \<and> sl_burst (lm_users m) = ub
     \<and> gm_wf (lm_asking m)
     \<and> (\<forall>n r i. gm_get (lm_asking m) n = Some (r, i) \<longrightarrow> asking_ok k (lm_users m) r i)"

abbreviation global_tokens :: "'l limiter_lib \<Rightarrow> instant \<Rightarrow> 'l live_middleware \<Rightarrow> real" where
  "global_tokens L t m \<equiv> ll_tokens L t (lm_global m)"

abbreviation own_tokens :: "'l limiter_lib \<Rightarrow> instant \<Rightarrow> string \<Rightarrow> 'l live_middleware \<Rightarrow> real" where
  "own_tokens L t k m \<equiv> user_tokens L t k (user_view (lm_users m))"

lemma live_ok_later: "live_ok L gr gb ur ub k t m \<Longrightarrow> t \<le> t' \<Longrightarrow> live_ok L gr gb ur ub k t' m"
  unfolding live_ok_def by (blast intro: settled_later users_settled_later)

lemma asking_lookup:
  assumes "refs_ok s" and "lookup_limiter L u s = (i, s')"
  shows "asking_ok k s r j \<Longrightarrow> asking_ok k s' r j" and "u = user_key r \<Longrightarrow> asking_ok k s' r i"
proof -
  note l = lookup_limiter_ok [OF assms]
  show "asking_ok k s' r i" if "u = user_key r"
    using l(1,2) refs_ok_range [OF l(1,2)] that by (auto simp: asking_ok_def)
  show "asking_ok k s' r j" if a: "asking_ok k s r j"
  proof (cases "gm_get (sl_users s) u")
    case None
    have "j \<noteq> i" using a l(6) [OF None] by (simp add: asking_ok_def)
    then have "j \<in> snd ` set (sl_users s') \<Longrightarrow> j \<in> snd ` set (sl_users s)" using l(8) by blast
    moreover have "gm_get (sl_users s') v = Some j" if "gm_get (sl_users s) v = Some j" for v
      using that None l(5) by (cases "v = u") auto
    ultimately show ?thesis using a l(7) unfolding asking_ok_def by force
  next
    case (Some x)
    then show ?thesis using l(9) a by simp
  qed
qed

lemma asking_ask: "ask_limiter L t i s = (ok, s') \<Longrightarrow> asking_ok k s' r j = asking_ok k s r j"
  using ask_limiter_ok [of L t i s ok s'] by (simp add: asking_ok_def)

lemma asking_sweep:
  assumes "refs_ok s" and "asking_ok k s r i" and "user_key r \<noteq> k"
  shows "asking_ok k (sweep_limiters L t s) r i"
proof -
  let ?s = "sweep_limiters L t s"
  have "gm_get (sl_users ?s) (user_key r) = Some i" if i: "i \<in> snd ` set (sl_users ?s)"
  proof -
    obtain v where v: "(v, i) \<in> set (sl_users ?s)" using i by auto
    have wf: "gm_wf (sl_users ?s)" using sweep_refs(1) [OF assms(1)] by (simp add: refs_ok_def)
    then have get: "gm_get (sl_users ?s) v = Some i" using v by (simp add: gm_in_get)
    then have "(v, i) \<in> set (sl_users s)" using sweep_refs(2) [OF assms(1)] by (blast intro: gm_get_in)
    moreover have "(user_key r, i) \<in> set (sl_users s)"
      using assms(2) i sweep_refs(3) [OF assms(1)] unfolding asking_ok_def by (blast intro: gm_get_in)
    ultimately have "v = user_key r"
      using assms(1) unfolding refs_ok_def by (metis distinct_map inj_onD prod.inject snd_conv)
    then show ?thesis using get by simp
  qed
  then show ?thesis using assms(2,3) by (simp add: asking_ok_def sweep_limiters_def)
qed

lemma gm_put_length: "gm_get m n = None \<Longrightarrow> length (gm_put n x m) = Suc (length m)"
  by (induction m) (auto split: if_splits)

lemma gm_del_length: "gm_wf m \<Longrightarrow> gm_get m n = Some x \<Longrightarrow> Suc (length (gm_del n m)) = length m"
proof (induction m)
  case (Cons y m)
  have "gm_del n m = m" if "gm_get m n = None" using that by (simp add: map_of_eq_None_iff delete_conv)
  with Cons show ?case by (cases y) (auto simp: map_of_eq_None_iff split: if_splits)
qed simp

text \<open>Each event: what it serves is paid for by a token of the user and by the request's entry.\<close>

definition paid ::
  "'l limiter_lib \<Rightarrow> string \<Rightarrow> instant \<Rightarrow> 'l live_middleware \<Rightarrow> http_request list \<times> 'l live_middleware \<Rightarrow> bool" where
  "paid L k t m res \<longleftrightarrow>
     real (length (fst res)) + real (length (lm_asking (snd res))) + max 0 (global_tokens L t (snd res))
       \<le> real (length (lm_asking m)) + max 0 (global_tokens L t m)
     \<and> real (length (filter (\<lambda>r. user_key r = k) (fst res))) + max 0 (own_tokens L t k (snd res))
       \<le> max 0 (own_tokens L t k m)"

lemma paid_idle: "paid L k t m ([], m)"
  by (simp add: paid_def)

lemma enter_paid:
  assumes laws: "limiter_laws L" and ok: "live_ok L gr gb ur ub k t m" and le: "t \<le> t'"
    and free: "gm_get (lm_asking m) n = None"
  shows "live_ok L gr gb ur ub k t' (snd (enter_middleware L t' n r m))"
    and "paid L k t' m ([], snd (enter_middleware L t' n r m))"
proof -
  note now = live_ok_later [OF ok le]
  have g: "settled L gr gb t (lm_global m)" "0 \<le> gr" using ok by (simp_all add: live_ok_def)
  obtain b g' where a: "ll_allow L t' (lm_global m) = (b, g')" by fastforce
  note gs = allow_settled [OF laws g(1) le g(2) a]
  have "live_ok L gr gb ur ub k t' (snd (enter_middleware L t' n r m)) \<and>
    paid L k t' m ([], snd (enter_middleware L t' n r m))"
  proof (cases b)
    case False
    then show ?thesis
      using a gs(2,3) now by (auto simp: enter_middleware_def live_ok_def paid_def Let_def)
  next
    case True
    obtain i s where l: "lookup_limiter L (user_key r) (lm_users m) = (i, s)" by fastforce
    have refs: "refs_ok (lm_users m)" and us: "users_settled L t' (user_view (lm_users m))"
      using now by (simp_all add: live_ok_def)
    note lo = lookup_limiter_ok [OF refs l] and lt = lookup_limiter_tokens [OF laws refs us l]
      and la = asking_lookup [OF refs l]
    let ?m = "m\<lparr>lm_global := g', lm_users := s, lm_asking := gm_put n (r, i) (lm_asking m)\<rparr>"
    have m': "snd (enter_middleware L t' n r m) = ?m"
      using a l True by (simp add: enter_middleware_def Let_def)
    have "asking_ok k s r' j" if "gm_get (lm_asking ?m) n' = Some (r', j)" for n' r' j
      using that la now by (cases "n' = n") (auto simp: live_ok_def map_ops)
    then have "live_ok L gr gb ur ub k t' ?m"
      using now gs(2) lo(1,3,4) lt(1) unfolding live_ok_def by auto
    moreover have "paid L k t' m ([], ?m)"
      using gs(1,3) True lt(2) by (simp add: paid_def gm_put_length free)
    ultimately show ?thesis by (simp add: m')
  qed
  then show "live_ok L gr gb ur ub k t' (snd (enter_middleware L t' n r m))"
    and "paid L k t' m ([], snd (enter_middleware L t' n r m))" by blast+
qed

lemma leave_paid:
  assumes laws: "limiter_laws L" and ok: "live_ok L gr gb ur ub k t m" and le: "t \<le> t'"
  shows "live_ok L gr gb ur ub k t' (snd (leave_middleware L t' n m))"
    and "paid L k t' m (leave_middleware L t' n m)"
proof -
  note now = live_ok_later [OF ok le]
  have "live_ok L gr gb ur ub k t' (snd (leave_middleware L t' n m)) \<and>
    paid L k t' m (leave_middleware L t' n m)"
  proof (cases "gm_get (lm_asking m) n")
    case None
    then show ?thesis using now by (simp add: leave_middleware_def paid_idle)
  next
    case (Some x)
    obtain r i where x: "x = (r, i)" by fastforce
    obtain b s where a: "ask_limiter L t' i (lm_users m) = (b, s)" by fastforce
    let ?m = "m\<lparr>lm_users := s, lm_asking := gm_del n (lm_asking m)\<rparr>"
    have m': "leave_middleware L t' n m = (if b then [r] else [], ?m)"
      using Some x a by (simp add: leave_middleware_def Let_def)
    have refs: "refs_ok (lm_users m)" and us: "users_settled L t' (user_view (lm_users m))"
      and wf: "gm_wf (lm_asking m)" and ask: "asking_ok k (lm_users m) r i"
      using now Some x by (auto simp: live_ok_def)
    note ak = ask_limiter_ok [OF a]
    have refs': "refs_ok s" using refs ak by (simp add: refs_ok_def)
    have users: "users_settled L t' (user_view s) \<and> own_tokens L t' k ?m =
        own_tokens L t' k m - (if b \<and> user_key r = k then 1 else 0)
        \<and> (b \<and> user_key r = k \<longrightarrow> 1 \<le> own_tokens L t' k m)"
    proof (cases "i \<in> snd ` set (sl_users (lm_users m))")
      case True
      then have "gm_get (sl_users (lm_users m)) (user_key r) = Some i" using ask by (simp add: asking_ok_def)
      from allow_user_tokens [OF laws us order_refl ask_limiter_attached [OF refs this a]]
      show ?thesis by auto
    next
      case False
      then have "user_key r \<noteq> k"
        using ask gm_get_in [of "sl_users (lm_users m)" k i] by (force simp: asking_ok_def)
      then show ?thesis using ask_limiter_detached [OF False a] us by simp
    qed
    have "asking_ok k s r' j" if "gm_get (lm_asking ?m) n' = Some (r', j)" for n' r' j
      using that now asking_ask [OF a] by (auto simp: live_ok_def map_ops split: if_splits)
    then have "live_ok L gr gb ur ub k t' ?m"
      using now users refs' ak(2,3) wf unfolding live_ok_def by auto
    moreover have "paid L k t' m (if b then [r] else [], ?m)"
      using gm_del_length [OF wf Some] users by (auto simp: paid_def)
    ultimately show ?thesis by (simp add: m')
  qed
  then show "live_ok L gr gb ur ub k t' (snd (leave_middleware L t' n m))"
    and "paid L k t' m (leave_middleware L t' n m)" by blast+
qed

lemma sweep_paid:
  assumes ok: "live_ok L gr gb ur ub k t m" and le: "t \<le> t'" and calm: "\<not> asks k m"
  shows "live_ok L gr gb ur ub k t' (snd (live_step L (Sweeps t') m))"
    and "paid L k t' m (live_step L (Sweeps t') m)"
proof -
  note now = live_ok_later [OF ok le]
  have refs: "refs_ok (lm_users m)" and us: "users_settled L t' (user_view (lm_users m))"
    using now by (simp_all add: live_ok_def)
  note c = cleanup_tokens [OF us order_refl, folded sweep_is_cleanup]
  have "asking_ok k (sweep_limiters L t' (lm_users m)) r i" if g: "gm_get (lm_asking m) n = Some (r, i)" for n r i
  proof (rule asking_sweep [OF refs])
    show "asking_ok k (lm_users m) r i" using now g by (auto simp: live_ok_def)
    show "user_key r \<noteq> k" using calm gm_get_in [OF g] by (auto simp: asks_def list_ex_iff)
  qed
  then show "live_ok L gr gb ur ub k t' (snd (live_step L (Sweeps t') m))"
    using now c sweep_refs(1) [OF refs] unfolding live_ok_def by (simp add: sweep_limiters_def)
  show "paid L k t' m (live_step L (Sweeps t') m)" using c(2) by (simp add: paid_def)
qed

lemma live_step_paid:
  assumes "limiter_laws L" and "live_ok L gr gb ur ub k t m" and "t \<le> live_time e"
    and "calm L k [e] m"
  shows "live_ok L gr gb ur ub k (live_time e) (snd (live_step L e m))"
    and "paid L k (live_time e) m (live_step L e m)"
  using enter_paid [OF assms(1,2)] leave_paid [OF assms(1,2)] sweep_paid [OF assms(2)]
    live_ok_later [OF assms(2)] assms(3,4)
  by (cases e; simp add: paid_idle)+

lemma calm_Cons: "calm L k (e # es) m \<longleftrightarrow> calm L k [e] m \<and> calm L k es (snd (live_step L e m))"
  by simp

lemma calm_append: "calm L k (es @ es') m \<longleftrightarrow> calm L k es m \<and> calm L k es' (snd (live_run L es m))"
proof (induction es arbitrary: m)
  case (Cons e es)
  then show ?case by (auto simp: case_prod_unfold Let_def)
qed simp

text \<open>Whatever was served is paid for by tokens at hand and tokens refilled meanwhile.\<close>

lemma live_run_bound:
  assumes laws: "limiter_laws L"
  shows "live_ok L gr gb ur ub k t m \<Longrightarrow> sorted (t # map live_time es) \<Longrightarrow> t \<le> z \<Longrightarrow>
    \<forall>e \<in> set es. live_time e \<le> z \<Longrightarrow> calm L k es m \<Longrightarrow>
    real (length (fst (live_run L es m))) \<le>
      real (length (lm_asking m)) + max 0 (global_tokens L t m) + refill gr (z - t) \<and>
    real (length (filter (\<lambda>r. user_key r = k) (fst (live_run L es m)))) \<le>
      max 0 (own_tokens L t k m) + refill ur (z - t) \<and>
    live_ok L gr gb ur ub k z (snd (live_run L es m))"
proof (induction es arbitrary: t m)
  case Nil
  then have "0 \<le> gr" "0 \<le> ur" by (auto simp: live_ok_def users_settled_def)
  with Nil show ?case using live_ok_later by fastforce
next
  case (Cons e es)
  define t' where "t' = live_time e"
  have t: "t \<le> t'" "sorted (t' # map live_time es)" "t' \<le> z" "\<forall>e \<in> set es. live_time e \<le> z"
    using Cons.prems by (auto simp: t'_def)
  have now: "settled L gr gb t (lm_global m)" "users_settled L t (user_view (lm_users m))" "0 \<le> gr"
    "0 \<le> ur" "sl_rate (lm_users m) = ur"
    using Cons.prems(1) by (auto simp: live_ok_def users_settled_def)
  have g: "global_tokens L t' m \<le> global_tokens L t m + refill gr (t' - t)"
    using settled_at [OF now(1) t(1)] by simp
  have u: "own_tokens L t' k m \<le> own_tokens L t k m + refill ur (t' - t)"
    using user_tokens_at [OF now(2) t(1)] now(5) by simp
  have add: "refill gr (z - t) = refill gr (t' - t) + refill gr (z - t')"
    "refill ur (z - t) = refill ur (t' - t) + refill ur (z - t')"
    "0 \<le> refill gr (t' - t)" "0 \<le> refill ur (t' - t)"
    using t(1) now(3,4) by (simp_all add: refill_add [symmetric])
  have calm: "calm L k [e] m" "calm L k es (snd (live_step L e m))"
    using Cons.prems(5) calm_Cons by blast+
  note st = live_step_paid [OF laws Cons.prems(1) t(1) [unfolded t'_def] calm(1), folded t'_def]
  note ih = Cons.IH [OF st(1) t(2-4) calm(2)]
  have run: "fst (live_run L (e # es) m) = fst (live_step L e m) @ fst (live_run L es (snd (live_step L e m)))"
    "snd (live_run L (e # es) m) = snd (live_run L es (snd (live_step L e m)))"
    by (simp_all add: case_prod_unfold Let_def)
  have mx: "max 0 (global_tokens L t' m) \<le> max 0 (global_tokens L t m) + refill gr (t' - t)"
    "max 0 (own_tokens L t' k m) \<le> max 0 (own_tokens L t k m) + refill ur (t' - t)"
    using g u add(3,4) by (auto simp: max_def)
  from ih st(2) mx show ?case
    unfolding run paid_def add(1,2) length_append filter_append of_nat_add
    by (intro conjI; (elim conjE)?; (linarith | assumption))
qed

lemma live_ok_new:
  assumes "limiter_laws L" and "0 \<le> gr" and "0 \<le> gb" and "0 \<le> ur" and "0 \<le> ub"
  shows "live_ok L gr gb ur ub k t (new_live_middleware L ur gr ub gb)"
  using assms settled_new [OF assms(1-3), of t]
  by (simp add: live_ok_def new_live_middleware_def refs_ok_def users_settled_def user_view_def)

text \<open>A key that no request has is left in peace.\<close>

lemma calm_unused:
  assumes "\<And>t n r. Enters t n r \<in> set es \<Longrightarrow> user_key r \<noteq> k" and "\<not> asks k m"
  shows "calm L k es m"
  using assms
proof (induction es arbitrary: m)
  case (Cons e es)
  have "lm_asking (snd (live_step L e m)) = lm_asking m
      \<or> (\<exists>t n r i. e = Enters t n r \<and> lm_asking (snd (live_step L e m)) = gm_put n (r, i) (lm_asking m))
      \<or> (\<exists>n. lm_asking (snd (live_step L e m)) = gm_del n (lm_asking m))"
    by (cases e) (auto simp: enter_middleware_def leave_middleware_def Let_def split: prod.split option.split)
  then have "\<not> asks k (snd (live_step L e m))"
  proof (elim disjE exE conjE)
    fix t n r i
    assume e: "e = Enters t n r" and put: "lm_asking (snd (live_step L e m)) = gm_put n (r, i) (lm_asking m)"
    have "user_key r \<noteq> k" using Cons.prems(1) e by auto
    moreover have "set (gm_put n (r, i) as) \<subseteq> insert (n, r, i) (set as)" for as
      by (induction as) auto
    ultimately show ?thesis using Cons.prems(2) unfolding asks_def put list_ex_iff by blast
  next
    fix n
    assume del: "lm_asking (snd (live_step L e m)) = gm_del n (lm_asking m)"
    have "set (gm_del n (lm_asking m)) \<subseteq> set (lm_asking m)" by (auto simp: AList.delete_eq)
    then show ?thesis using Cons.prems(2) unfolding asks_def del list_ex_iff by blast
  qed (use Cons.prems(2) in \<open>simp add: asks_def\<close>)
  moreover have "Enters t n r \<in> set es \<Longrightarrow> user_key r \<noteq> k" for t n r using Cons.prems(1) by auto
  ultimately have "calm L k es (snd (live_step L e m))" by (rule Cons.IH [rotated])
  then show ?case using Cons.prems(2) by (cases e) simp_all
qed simp

lemma unused_key: "\<exists>k. \<forall>t n r. Enters t n r \<in> set es \<longrightarrow> user_key r \<noteq> k"
proof -
  have "finite ((\<lambda>e. case e of Enters t n r \<Rightarrow> user_key r | _ \<Rightarrow> []) ` set es)" by simp
  from ex_new_if_finite [OF infinite_UNIV_listI this] obtain k
    where "k \<notin> (\<lambda>e. case e of Enters t n r \<Rightarrow> user_key r | _ \<Rightarrow> []) ` set es" by blast
  then have "\<forall>t n r. Enters t n r \<in> set es \<longrightarrow> user_key r \<noteq> k" by (force simp: image_iff)
  then show ?thesis by blast
qed

text \<open>
  C20: requests and clean-ups are interleaved in any way, each request with its own number and in two
  halves.  Within any stretch of time, at whatever point of the traffic it begins, the
  middleware serves no more requests than the global burst and what the global rate brings
  meanwhile, besides those that had passed the global limit before; and for any one user key no
  more than the user burst and what the user rate brings, as long as no clean-up comes between the
  two halves of a request of that key.
\<close>

theorem traffic_is_limited:
  assumes "limiter_laws L" and "0 \<le> gr" and "0 \<le> gb" and "0 \<le> ur" and "0 \<le> ub"
    and "sorted (map live_time (es @ es'))"
    and "\<forall>e \<in> set es'. a \<le> live_time e \<and> live_time e \<le> z" and "\<forall>e \<in> set es. live_time e \<le> a"
    and "a \<le> z"
  shows "let m0 = new_live_middleware L ur gr ub gb; m = snd (live_run L es m0); out = fst (live_run L es' m)
    in real (length out) \<le> of_int gb + refill gr (z - a) + real (length (lm_asking m)) \<and>
       (\<forall>k. calm L k (es @ es') m0 \<longrightarrow>
          real (length (filter (\<lambda>r. user_key r = k) out)) \<le> of_int ub + refill ur (z - a))"
proof -
  let ?new = "new_live_middleware L ur gr ub gb"
  let ?m = "snd (live_run L es ?new)" and ?out = "fst (live_run L es' (snd (live_run L es ?new)))"
  define t where "t = (case es of [] \<Rightarrow> a | e # _ \<Rightarrow> live_time e)"
  have t: "sorted (t # map live_time es)" "t \<le> a" "sorted (a # map live_time es')"
    using assms(6-8) by (auto simp: t_def sorted_append split: list.splits)
  have bound: "real (length ?out) \<le> of_int gb + refill gr (z - a) + real (length (lm_asking ?m)) \<and>
      real (length (filter (\<lambda>r. user_key r = k) ?out)) \<le> of_int ub + refill ur (z - a)"
    if calm: "calm L k (es @ es') ?new" for k
  proof -
    have c: "calm L k es ?new" "calm L k es' ?m" using calm unfolding calm_append by blast+
    have s: "live_ok L gr gb ur ub k a ?m"
      using live_run_bound [OF assms(1) live_ok_new [OF assms(1-5)] t(1,2) assms(8) c(1)] by blast
    have "\<forall>e \<in> set es'. live_time e \<le> z" using assms(7) by blast
    note b = live_run_bound [OF assms(1) s t(3) assms(9) this c(2)]
    have "max 0 (global_tokens L a ?m) \<le> of_int gb"
      using s assms(3) settled_le [of L gr gb a] by (simp add: live_ok_def)
    moreover have "max 0 (own_tokens L a k ?m) \<le> of_int ub"
      using s assms(5) settled_le [of L ur ub a]
      by (auto simp: live_ok_def users_settled_def user_tokens_def split: option.splits)
    ultimately show ?thesis using b by linarith
  qed
  obtain k where "\<forall>t n r. Enters t n r \<in> set (es @ es') \<longrightarrow> user_key r \<noteq> k" using unused_key by blast
  then have "calm L k (es @ es') ?new"
    by (intro calm_unused) (blast, simp add: asks_def new_live_middleware_def)
  with bound show ?thesis unfolding Let_def by blast
qed

theorem traffic_is_limited_witness:
  "let m = snd (live_run bucket_lib [Enters 0 1 (from_user ''a''), Sweeps 0, Leaves 1 1]
         (new_live_middleware bucket_lib 1 1 1 2));
       out = fst (live_run bucket_lib [Enters 1 2 (from_user ''b''), Sweeps 2, Leaves 2 2] m)
   in real (length out) \<le> 2 + refill 1 1 + real (length (lm_asking m))"
  using traffic_is_limited [OF bucket_lib_laws, of 1 2 1 1
      "[Enters 0 1 (from_user ''a''), Sweeps 0, Leaves 1 1]"
      "[Enters 1 2 (from_user ''b''), Sweeps 2, Leaves 2 2]" 1 2]
  by (simp add: Let_def)

text \<open>
  The exception is needed.  A clean-up between the halves of a request drops the limiter the
  request holds, so the next request finds a new, full one: with a burst of one, two requests of
  the same user are served in the same instant.
\<close>

lemma sweep_gives_one_more:
  "fst (live_run bucket_lib
      [Enters 0 1 (from_user ''a''), Sweeps 0, Leaves 0 1, Enters 0 2 (from_user ''a''), Leaves 0 2]
      (new_live_middleware bucket_lib 1 1 1 9)) = [from_user ''a'', from_user ''a'']"
  by (simp add: new_live_middleware_def enter_middleware_def leave_middleware_def lookup_limiter_def
      ask_limiter_def sweep_limiters_def bucket_lib_def level_at_def Let_def from_user_def user_key_def
      header_value_def)

end
