(* ===== verification/Daemon_Audit.thy ===== *)
theory Daemon_Audit
  imports Go_Prelude "HOL-Library.List_Lexorder" "HOL-Library.Char_ord"
begin

text \<open>
  \<open>daemon/audit/audit.go\<close>: the audit log of the daemon, a directory with one file per day.  The
  directory is a map from file names to contents; JSON encoding, the rendering of a day and the
  failures of the file system (\<open>audit_env\<close>) are parameters.
\<close>

section \<open>Events\<close>

type_synonym event_type = string
type_synonym event_status = string

definition type_login :: event_type where "type_login = ''login''"
definition type_logout :: event_type where "type_logout = ''logout''"
definition type_export_vm :: event_type where "type_export_vm = ''export_vm''"
definition type_create_job :: event_type where "type_create_job = ''create_job''"
definition type_cancel_job :: event_type where "type_cancel_job = ''cancel_job''"
definition type_delete_job :: event_type where "type_delete_job = ''delete_job''"
definition type_create_schedule :: event_type where "type_create_schedule = ''create_schedule''"
definition type_update_schedule :: event_type where "type_update_schedule = ''update_schedule''"
definition type_delete_schedule :: event_type where "type_delete_schedule = ''delete_schedule''"
definition type_create_webhook :: event_type where "type_create_webhook = ''create_webhook''"
definition type_delete_webhook :: event_type where "type_delete_webhook = ''delete_webhook''"
definition type_create_user :: event_type where "type_create_user = ''create_user''"
definition type_update_user :: event_type where "type_update_user = ''update_user''"
definition type_delete_user :: event_type where "type_delete_user = ''delete_user''"
definition type_config_change :: event_type where "type_config_change = ''config_change''"

definition outcome_success :: event_status where "outcome_success = ''success''"
definition outcome_failure :: event_status where "outcome_failure = ''failure''"
definition outcome_denied :: event_status where "outcome_denied = ''denied''"

record event =
  ev_id :: string
  ev_timestamp :: instant
  ev_event_type :: event_type
  ev_status :: event_status
  ev_username :: string
  ev_user_id :: string
  ev_ip_address :: string
  ev_user_agent :: string
  ev_resource :: string
  ev_action :: string
  ev_details :: "(string, string) gomap"
  ev_error :: string
  ev_duration :: int

definition unique_event_id :: "int \<Rightarrow> nat \<Rightarrow> string" where
  "unique_event_id nano pid = dec_int nano @ ''-'' @ dec_nat pid"

definition new_event :: "int \<Rightarrow> nat \<Rightarrow> instant \<Rightarrow> event_type \<Rightarrow> string \<Rightarrow> event" where
  "new_event nano pid now typ user =
     \<lparr>ev_id = unique_event_id nano pid, ev_timestamp = now, ev_event_type = typ, ev_status = [],
      ev_username = user, ev_user_id = [], ev_ip_address = [], ev_user_agent = [], ev_resource = [],
      ev_action = [], ev_details = [], ev_error = [], ev_duration = 0\<rparr>"

section \<open>Text helpers\<close>

text \<open>The slices are within range because of the lengths tested before them.\<close>

definition contains_end :: "string \<Rightarrow> string \<Rightarrow> bool" where
  "contains_end s sub \<longleftrightarrow>
     (length sub \<le> length s \<and> drop (length s - length sub) s = sub) \<or>
     (length sub < length s \<and>
       (take (length sub) s = sub \<or>
        (length sub < length s \<and>
         take (length sub) (drop (length s - length sub - 1) s) = sub)))"

abbreviation newline :: char where "newline \<equiv> CHR 0x0A"

text \<open>\<open>cur\<close> is the slice from \<open>start\<close> to the current position.\<close>

fun split_from :: "string \<Rightarrow> string \<Rightarrow> string list" where
  "split_from cur [] = (if cur = [] then [] else [cur])"
| "split_from cur (c # s) = (if c = newline then cur # split_from [] s else split_from (cur @ [c]) s)"

definition split_lines :: "string \<Rightarrow> string list" where
  "split_lines s = split_from [] s"

section \<open>The logger\<close>

record log_file =
  lf_data :: string
  lf_mod :: instant

type_synonym log_dir = "(string, log_file) gomap"

text \<open>The handle is the name of the file opened last and whether it is still open.\<close>

record file_logger =
  fl_max_size :: int
  fl_max_age :: int
  fl_max_backups :: int
  fl_file :: "(string \<times> bool) option"

text \<open>
  What the system does during one call: the times read by \<open>shouldRotate\<close> and \<open>openNewFile\<close>, whether
  the calls succeed, and for a write that fails how many bytes were written before.
\<close>

record audit_env =
  ae_now :: instant
  ae_open_now :: instant
  ae_stat :: bool
  ae_close :: bool
  ae_open :: bool
  ae_write :: "nat option"
  ae_sync :: bool

definition day_file :: "string \<Rightarrow> string" where
  "day_file day = ''audit-'' @ day @ ''.log''"

definition append_data :: "instant \<Rightarrow> string \<Rightarrow> string \<Rightarrow> log_dir \<Rightarrow> log_dir" where
  "append_data now name s fs =
     (case gm_get fs name of
        None \<Rightarrow> fs
      | Some f \<Rightarrow> gm_put name \<lparr>lf_data = lf_data f @ s, lf_mod = now\<rparr> fs)"

text \<open>\<open>os.OpenFile\<close> with \<open>O_CREATE\<close> and \<open>O_APPEND\<close> creates a file that is not there.\<close>

definition open_new_file ::
  "audit_env \<Rightarrow> (instant \<Rightarrow> string) \<Rightarrow> file_logger \<Rightarrow> log_dir \<Rightarrow> bool \<times> file_logger \<times> log_dir" where
  "open_new_file env day fl fs =
     (let name = day_file (day (ae_open_now env))
      in if \<not> ae_open env then (False, fl, fs)
         else (True, fl\<lparr>fl_file := Some (name, True)\<rparr>,
               case gm_get fs name of
                 None \<Rightarrow> gm_put name \<lparr>lf_data = [], lf_mod = ae_open_now env\<rparr> fs
               | Some f \<Rightarrow> fs))"

definition new_file_logger ::
  "audit_env \<Rightarrow> (instant \<Rightarrow> string) \<Rightarrow> bool \<Rightarrow> int \<Rightarrow> int \<Rightarrow> int \<Rightarrow> log_dir \<Rightarrow> (file_logger \<times> log_dir) option" where
  "new_file_logger env day mkdir max_size_mb max_age max_backups fs =
     (if \<not> mkdir then None
      else case open_new_file env day \<lparr>fl_max_size = max_size_mb * 1024 * 1024, fl_max_age = max_age,
                  fl_max_backups = max_backups, fl_file = None\<rparr> fs of
             (ok, fl, fs) \<Rightarrow> if ok then Some (fl, fs) else None)"

definition should_rotate :: "audit_env \<Rightarrow> (instant \<Rightarrow> string) \<Rightarrow> file_logger \<Rightarrow> log_dir \<Rightarrow> bool" where
  "should_rotate env day fl fs =
     (case fl_file fl of
        None \<Rightarrow> True
      | Some (name, is_open) \<Rightarrow>
          if \<not> is_open \<or> \<not> ae_stat env then True
          else if fl_max_size fl \<le> (case gm_get fs name of None \<Rightarrow> 0 | Some f \<Rightarrow> int (length (lf_data f)))
          then True
          else \<not> contains_end name (day (ae_now env)))"

text \<open>A handle is closed by \<open>Close\<close> even when it reports an error; closing it again is one.\<close>

definition rotate_log ::
  "audit_env \<Rightarrow> (instant \<Rightarrow> string) \<Rightarrow> file_logger \<Rightarrow> log_dir \<Rightarrow> bool \<times> file_logger \<times> log_dir" where
  "rotate_log env day fl fs =
     (case fl_file fl of
        None \<Rightarrow> open_new_file env day fl fs
      | Some (name, is_open) \<Rightarrow>
          let fl = fl\<lparr>fl_file := Some (name, False)\<rparr>
          in if \<not> is_open \<or> \<not> ae_close env then (False, fl, fs) else open_new_file env day fl fs)"

datatype log_error = RotateFailed | MarshalFailed | WriteFailed | SyncFailed

definition log_audit ::
  "(event \<Rightarrow> string option) \<Rightarrow> audit_env \<Rightarrow> (instant \<Rightarrow> string) \<Rightarrow> event \<Rightarrow> file_logger \<times> log_dir \<Rightarrow>
   log_error option \<times> file_logger \<times> log_dir" where
  "log_audit enc env day e st =
     (let (fl, fs) = st;
          (ok, fl, fs) = (if should_rotate env day fl fs then rotate_log env day fl fs else (True, fl, fs))
      in if \<not> ok then (Some RotateFailed, fl, fs)
         else case enc e of
                None \<Rightarrow> (Some MarshalFailed, fl, fs)
              | Some s \<Rightarrow>
                  (case fl_file fl of
                     None \<Rightarrow> (Some WriteFailed, fl, fs)
                   | Some (name, is_open) \<Rightarrow>
                       if \<not> is_open then (Some WriteFailed, fl, fs)
                       else case ae_write env of
                              Some n \<Rightarrow> (Some WriteFailed, fl, append_data (ae_open_now env) name (take n (s @ [newline])) fs)
                            | None \<Rightarrow>
                                (if (ev_event_type e = type_login \<or> ev_event_type e = type_config_change) \<and> \<not> ae_sync env
                                 then Some SyncFailed else None,
                                 fl, append_data (ae_open_now env) name (s @ [newline]) fs)))"

definition close_audit :: "bool \<Rightarrow> file_logger \<Rightarrow> bool \<times> file_logger" where
  "close_audit close_ok fl =
     (case fl_file fl of
        None \<Rightarrow> (True, fl)
      | Some (name, is_open) \<Rightarrow> (is_open \<and> close_ok, fl\<lparr>fl_file := Some (name, False)\<rparr>))"

section \<open>Queries and clean-up\<close>

record query_filter =
  qf_start_time :: "instant option"
  qf_end_time :: "instant option"
  qf_username :: string
  qf_event_type :: event_type
  qf_status :: event_status
  qf_resource :: string
  qf_limit :: int
  qf_offset :: int

definition matches_filter :: "event \<Rightarrow> query_filter \<Rightarrow> bool" where
  "matches_filter e f =
     (if (case qf_start_time f of None \<Rightarrow> False | Some s \<Rightarrow> ev_timestamp e < s) then False
      else if (case qf_end_time f of None \<Rightarrow> False | Some s \<Rightarrow> s < ev_timestamp e) then False
      else if qf_username f \<noteq> [] \<and> ev_username e \<noteq> qf_username f then False
      else if qf_event_type f \<noteq> [] \<and> ev_event_type e \<noteq> qf_event_type f then False
      else if qf_status f \<noteq> [] \<and> ev_status e \<noteq> qf_status f then False
      else if qf_resource f \<noteq> [] \<and> ev_resource e \<noteq> qf_resource f then False
      else True)"

text \<open>The pattern \<open>audit-*.log*\<close>; \<open>filepath.Glob\<close> returns the names in order.\<close>

definition audit_name :: "string \<Rightarrow> bool" where
  "audit_name n \<longleftrightarrow> prefix ''audit-'' n \<and> sublist ''.log'' (drop 6 n)"

definition glob_audit :: "log_dir \<Rightarrow> string list" where
  "glob_audit fs = sort (filter audit_name (map fst fs))"

definition read_log_file :: "(string \<Rightarrow> event option) \<Rightarrow> string \<Rightarrow> event list" where
  "read_log_file dec data = List.map_filter dec (filter (\<lambda>l. l \<noteq> []) (split_lines data))"

text \<open>
  The loop over the events of one file: the events found so far and the number skipped; \<open>Inl\<close> is
  the early return at the limit.
\<close>

fun filter_events ::
  "query_filter \<Rightarrow> event list \<Rightarrow> event list \<Rightarrow> int \<Rightarrow> event list + event list \<times> int" where
  "filter_events f [] out skipped = Inr (out, skipped)"
| "filter_events f (e # es) out skipped =
     (if \<not> matches_filter e f then filter_events f es out skipped
      else if skipped < qf_offset f then filter_events f es out (skipped + 1)
      else let out = out @ [e]
           in if 0 < qf_limit f \<and> qf_limit f \<le> int (length out) then Inl out
              else filter_events f es out skipped)"

fun query_files ::
  "(string \<Rightarrow> event option) \<Rightarrow> (string \<Rightarrow> bool) \<Rightarrow> query_filter \<Rightarrow> log_dir \<Rightarrow> string list \<Rightarrow>
   event list \<Rightarrow> int \<Rightarrow> event list" where
  "query_files dec readable f fs [] out skipped = out"
| "query_files dec readable f fs (n # ns) out skipped =
     (case (if readable n then gm_get fs n else None) of
        None \<Rightarrow> query_files dec readable f fs ns out skipped
      | Some file \<Rightarrow>
          (case filter_events f (read_log_file dec (lf_data file)) out skipped of
             Inl out \<Rightarrow> out
           | Inr (out, skipped) \<Rightarrow> query_files dec readable f fs ns out skipped))"

definition query_audit ::
  "(string \<Rightarrow> event option) \<Rightarrow> (string \<Rightarrow> bool) \<Rightarrow> query_filter \<Rightarrow> log_dir \<Rightarrow> event list" where
  "query_audit dec readable f fs = query_files dec readable f fs (rev (glob_audit fs)) [] 0"

text \<open>
  One tick of \<open>cleanupOldFiles\<close>; \<open>days_from_now\<close> is \<open>time.Now().AddDate\<close> on days, and \<open>keeps\<close> tells for
  which files the system refuses the removal.
\<close>

definition cleanup_tick :: "(int \<Rightarrow> instant) \<Rightarrow> (string \<Rightarrow> bool) \<Rightarrow> file_logger \<Rightarrow> log_dir \<Rightarrow> log_dir" where
  "cleanup_tick days_from_now keeps fl fs =
     (let cutoff = days_from_now (- fl_max_age fl)
      in filter (\<lambda>(n, f). \<not> (audit_name n \<and> lf_mod f < cutoff \<and> \<not> keeps n)) fs)"

section \<open>Lines and slices\<close>

lemma split_from_line: "newline \<notin> set l \<Longrightarrow> split_from cur (l @ newline # s) = (cur @ l) # split_from [] s"
  by (induction l arbitrary: cur) auto

lemma split_lines_concat:
  "\<forall>l \<in> set ls. newline \<notin> set l \<Longrightarrow> split_lines (concat (map (\<lambda>l. l @ [newline]) ls)) = ls"
  by (induction ls) (simp_all add: split_lines_def split_from_line)

text \<open>What a limit and an offset leave of a list.\<close>

definition slice :: "query_filter \<Rightarrow> event list \<Rightarrow> event list" where
  "slice f es = (let es = drop (nat (qf_offset f)) es in if 0 < qf_limit f then take (nat (qf_limit f)) es else es)"

lemma filter_events_slice:
  assumes "0 < qf_limit f \<Longrightarrow> int (length out) < qf_limit f"
  shows "filter_events f es out skipped =
    (let ms = filter (\<lambda>e. matches_filter e f) es; k = nat (qf_offset f - skipped); found = drop k ms
     in if 0 < qf_limit f \<and> qf_limit f \<le> int (length out + length found)
        then Inl (out @ take (nat (qf_limit f) - length out) found)
        else Inr (out @ found, skipped + int (min k (length ms))))"
  using assms
proof (induction es arbitrary: out skipped)
  case (Cons e es)
  show ?case
  proof (cases "matches_filter e f")
    case False
    with Cons.IH [OF Cons.prems] show ?thesis by (simp add: Let_def)
  next
    case m: True
    show ?thesis
    proof (cases "skipped < qf_offset f")
      case True
      then have k: "nat (qf_offset f - skipped) = Suc (nat (qf_offset f - (skipped + 1)))" by simp
      have "filter_events f (e # es) out skipped = filter_events f es out (skipped + 1)"
        using m True by simp
      also note Cons.IH [OF Cons.prems, of "skipped + 1"]
      finally show ?thesis using m unfolding k by (simp add: Let_def)
    next
      case s: False
      then have k: "nat (qf_offset f - skipped) = 0" by simp
      show ?thesis
      proof (cases "0 < qf_limit f \<and> qf_limit f \<le> int (length (out @ [e]))")
        case True
        then have "nat (qf_limit f) = Suc (length out)" using Cons.prems by auto
        with True m s k show ?thesis by (simp add: Let_def)
      next
        case False
        have "filter_events f (e # es) out skipped = filter_events f es (out @ [e]) skipped"
          using m s False by (auto simp: Let_def)
        also note Cons.IH [of "out @ [e]" skipped]
        finally show ?thesis
          using m k False by (auto simp: Let_def take_Cons' Suc_diff_Suc)
      qed
    qed
  qed
qed (auto simp: Let_def)

lemma query_files_slice:
  assumes "\<forall>n \<in> set ns. \<exists>lf. gm_get fs n = Some lf \<and> read_log_file dec (lf_data lf) = ev n"
    and "0 < qf_limit f \<Longrightarrow> int (length out) < qf_limit f"
  shows "query_files dec (\<lambda>n. True) f fs ns out skipped =
    (let found = drop (nat (qf_offset f - skipped)) (filter (\<lambda>e. matches_filter e f) (concat (map ev ns)))
     in out @ (if 0 < qf_limit f then take (nat (qf_limit f) - length out) found else found))"
  using assms
proof (induction ns arbitrary: out skipped)
  case (Cons n ns)
  define ms where "ms = filter (\<lambda>e. matches_filter e f) (ev n)"
  define k where "k = nat (qf_offset f - skipped)"
  obtain lf where lf: "gm_get fs n = Some lf" "read_log_file dec (lf_data lf) = ev n"
    using Cons.prems(1) by auto
  note step = filter_events_slice [of f out "ev n" skipped, OF Cons.prems(2), folded ms_def k_def]
  have rest: "nat (qf_offset f - (skipped + int (min k (length ms)))) = k - length ms"
    by (auto simp: k_def)
  show ?case
  proof (cases "0 < qf_limit f \<and> qf_limit f \<le> int (length out + length (drop k ms))")
    case True
    then have "nat (qf_limit f) - length out \<le> length (drop k ms)" by auto
    with True lf step show ?thesis by (simp add: Let_def ms_def [symmetric] k_def [symmetric])
  next
    case False
    have "filter_events f (ev n) out skipped = Inr (out @ drop k ms, skipped + int (min k (length ms)))"
      using False step by (auto simp: Let_def)
    then have "query_files dec (\<lambda>n. True) f fs (n # ns) out skipped =
        query_files dec (\<lambda>n. True) f fs ns (out @ drop k ms) (skipped + int (min k (length ms)))"
      using lf by simp
    moreover have "\<forall>n \<in> set ns. \<exists>lf. gm_get fs n = Some lf \<and> read_log_file dec (lf_data lf) = ev n"
      using Cons.prems(1) by simp
    moreover have "0 < qf_limit f \<Longrightarrow> int (length (out @ drop k ms)) < qf_limit f" using False by auto
    ultimately have "query_files dec (\<lambda>n. True) f fs (n # ns) out skipped =
      (let found = drop (k - length ms) (filter (\<lambda>e. matches_filter e f) (concat (map ev ns)))
       in (out @ drop k ms) @
          (if 0 < qf_limit f then take (nat (qf_limit f) - length (out @ drop k ms)) found else found))"
      using Cons.IH [of "out @ drop k ms" "skipped + int (min k (length ms))"] unfolding rest by simp
    also have "\<dots> = (let found = drop k (ms @ filter (\<lambda>e. matches_filter e f) (concat (map ev ns)))
       in out @ (if 0 < qf_limit f then take (nat (qf_limit f) - length out) found else found))"
      using False by (auto simp: Let_def)
    finally show ?thesis by (simp add: ms_def k_def)
  qed
qed simp

lemma query_audit_slice:
  assumes "\<forall>n \<in> set (glob_audit fs). \<exists>file. gm_get fs n = Some file \<and> read_log_file dec (lf_data file) = ev n"
  shows "query_audit dec (\<lambda>n. True) f fs =
    slice f (filter (\<lambda>e. matches_filter e f) (concat (map ev (rev (glob_audit fs)))))"
  using query_files_slice [of "rev (glob_audit fs)" fs dec ev f "[]" 0] assms
  by (simp add: query_audit_def slice_def Let_def)

section \<open>Every event reopens the file\<close>

text \<open>Days are rendered by \<open>Format("2006-01-02")\<close>.\<close>

definition calendar :: "(instant \<Rightarrow> string) \<Rightarrow> bool" where
  "calendar day \<longleftrightarrow> (\<forall>t. length (day t) = 10 \<and> set (day t) \<subseteq> set ''0123456789-'')"

lemma contains_end_cases:
  assumes "contains_end s sub" and "sub \<noteq> []" and "2 \<le> length s"
  shows "last sub = last s \<or> hd sub = hd s \<or> last sub = last (butlast s)"
  using assms(1) unfolding contains_end_def
proof (elim disjE conjE)
  assume "length sub \<le> length s" "drop (length s - length sub) s = sub"
  then show ?thesis using assms(2) by (metis append_take_drop_id last_appendR)
next
  assume "length sub < length s" "take (length sub) s = sub"
  then show ?thesis using assms(2) by (metis append_take_drop_id hd_append2)
next
  assume l: "length sub < length s" and t: "take (length sub) (drop (length s - length sub - 1) s) = sub"
  have "last sub = sub ! (length sub - 1)" by (rule last_conv_nth [OF assms(2)])
  also have "\<dots> = take (length sub) (drop (length s - length sub - 1) s) ! (length sub - 1)" by (simp only: t)
  also have "\<dots> = s ! (length s - 2)" using l assms(2) by (simp add: Suc_le_eq numeral_2_eq_2)
  also have "\<dots> = last (butlast s)" using assms(3)
    by (simp add: last_conv_nth nth_butlast numeral_2_eq_2 flip: length_0_conv)
  finally show ?thesis by simp
qed

lemma day_file_not_dated:
  assumes "calendar day"
  shows "\<not> contains_end (day_file d) (day t)"
proof
  assume c: "contains_end (day_file d) (day t)"
  have d: "day t \<noteq> []" "set (day t) \<subseteq> set ''0123456789-''"
    using assms by (auto simp: calendar_def simp del: set_simps) (metis list.size(3) zero_neq_numeral)
  have "hd (day t) \<in> set (day t)" "last (day t) \<in> set (day t)" using d(1) by simp_all
  then have ends: "hd (day t) \<in> set ''0123456789-''" "last (day t) \<in> set ''0123456789-''" using d(2) by blast+
  have "last (day t) = CHR ''g'' \<or> hd (day t) = CHR ''a'' \<or> last (day t) = CHR ''o''"
    using contains_end_cases [OF c d(1)] by (simp add: day_file_def butlast_append)
  with ends show False by auto
qed

text \<open>
  The test whether the file of the day is open never succeeds, because its text search only
  looks at the two ends of the file name, which the date is not at.  So every event closes and
  reopens the file, and a limit of its size has no further effect: the file reopened is the same.
\<close>

theorem every_event_rotates:
  assumes "calendar day" and "fl_file fl = Some (day_file d, is_open)"
  shows "should_rotate env day fl fs \<and>
    (is_open \<and> ae_close env \<and> ae_open env \<and> d = day (ae_open_now env) \<and> gm_get fs (day_file d) \<noteq> None \<longrightarrow>
       rotate_log env day fl fs = (True, fl\<lparr>fl_file := Some (day_file d, True)\<rparr>, fs))"
  using assms day_file_not_dated [OF assms(1)]
  by (auto simp: should_rotate_def rotate_log_def open_new_file_def Let_def split: option.splits)

section \<open>What is logged is found\<close>

text \<open>The calls of \<open>Log\<close> and the ticks of the clean-up that run between them, under the mutex.\<close>

datatype audit_step = Logs audit_env event | CleansUp "int \<Rightarrow> instant"

fun audit_run ::
  "(event \<Rightarrow> string option) \<Rightarrow> (instant \<Rightarrow> string) \<Rightarrow> audit_step list \<Rightarrow> file_logger \<times> log_dir \<Rightarrow>
   log_error option list \<times> file_logger \<times> log_dir" where
  "audit_run enc day [] st = ([], st)"
| "audit_run enc day (Logs env e # es) st =
     (let (err, st) = log_audit enc env day e st; (errs, st) = audit_run enc day es st
      in (err # errs, st))"
| "audit_run enc day (CleansUp days_from_now # es) st =
     audit_run enc day es (fst st, cleanup_tick days_from_now (\<lambda>n. False) (fst st) (snd st))"

text \<open>
  The abstract log: for every day the events kept and the time of the last write.  A clean-up
  forgets the days last written before its cutoff.
\<close>

type_synonym audit_table = "(string, event list \<times> instant) gomap"

definition events_of :: "audit_table \<Rightarrow> string \<Rightarrow> event list" where
  "events_of tbl d = (case gm_get tbl d of None \<Rightarrow> [] | Some x \<Rightarrow> fst x)"

fun table_run :: "(instant \<Rightarrow> string) \<Rightarrow> int \<Rightarrow> audit_step list \<Rightarrow> audit_table \<Rightarrow> audit_table" where
  "table_run day age [] tbl = tbl"
| "table_run day age (Logs env e # es) tbl =
     (let d = day (ae_open_now env)
      in table_run day age es (gm_put d (events_of tbl d @ [e], ae_open_now env) tbl))"
| "table_run day age (CleansUp days_from_now # es) tbl =
     table_run day age es (filter (\<lambda>(d, es, t). days_from_now (- age) \<le> t) tbl)"

text \<open>Newest day first, and within a day in the order of logging.\<close>

definition table_events :: "audit_table \<Rightarrow> event list" where
  "table_events tbl = concat (map (events_of tbl) (rev (sort (map fst tbl))))"

definition works :: "audit_env \<Rightarrow> bool" where
  "works env \<longleftrightarrow> ae_close env \<and> ae_open env \<and> ae_write env = None \<and> ae_sync env"

text \<open>Encoding a value gives a line that decodes to it.\<close>

definition codec :: "(event \<Rightarrow> string option) \<Rightarrow> (string \<Rightarrow> event option) \<Rightarrow> event \<Rightarrow> bool" where
  "codec enc dec e \<longleftrightarrow> (\<exists>s. enc e = Some s \<and> s \<noteq> [] \<and> newline \<notin> set s \<and> dec s = Some e)"

definition encoded :: "(event \<Rightarrow> string option) \<Rightarrow> event list \<Rightarrow> string" where
  "encoded enc es = concat (map (\<lambda>e. the (enc e) @ [newline]) es)"

definition file_of :: "(event \<Rightarrow> string option) \<Rightarrow> string \<times> event list \<times> instant \<Rightarrow> string \<times> log_file" where
  "file_of enc x = (day_file (fst x), \<lparr>lf_data = encoded enc (fst (snd x)), lf_mod = snd (snd x)\<rparr>)"

definition holds ::
  "(event \<Rightarrow> string option) \<Rightarrow> (string \<Rightarrow> event option) \<Rightarrow> int \<Rightarrow> audit_table \<Rightarrow> file_logger \<times> log_dir \<Rightarrow> bool" where
  "holds enc dec age tbl st \<longleftrightarrow>
     (\<exists>d. fl_file (fst st) = Some (day_file d, True)) \<and> fl_max_age (fst st) = age \<and>
     snd st = map (file_of enc) tbl \<and> gm_wf tbl \<and>
     (\<forall>x \<in> set tbl. length (fst x) = 10 \<and> (\<forall>e \<in> set (fst (snd x)). codec enc dec e))"

lemma audit_name_day_file [simp]: "audit_name (day_file d)"
  by (simp add: audit_name_def day_file_def)

lemma day_file_inject [simp]: "day_file d = day_file d' \<longleftrightarrow> d = d'"
  by (simp add: day_file_def)

lemma log_audit_works:
  assumes "calendar day" and "works env" and "codec enc dec e" and "fl_file fl = Some (day_file d, True)"
  shows "log_audit enc env day e (fl, fs) =
    (None, fl\<lparr>fl_file := Some (day_file (day (ae_open_now env)), True)\<rparr>,
     append_data (ae_open_now env) (day_file (day (ae_open_now env))) (the (enc e) @ [newline])
       (snd (snd (open_new_file env day fl fs))))"
proof -
  have r: "should_rotate env day fl fs" using day_file_not_dated [OF assms(1)] assms(4) by (simp add: should_rotate_def)
  show ?thesis using assms r
    by (auto simp: log_audit_def rotate_log_def open_new_file_def works_def codec_def Let_def)
qed

lemma get_file_of: "gm_get (map (file_of enc) tbl) (day_file d) = map_option (\<lambda>x. snd (file_of enc (d, x))) (gm_get tbl d)"
  by (induction tbl) (auto simp: file_of_def)

lemma put_file_of:
  "gm_put (day_file d) (snd (file_of enc (d, x))) (map (file_of enc) tbl) = map (file_of enc) (gm_put d x tbl)"
  by (induction tbl) (auto simp: file_of_def)

lemma put_twice: "gm_put k x (gm_put k y m) = gm_put k x m"
  by (induction m) auto

lemma holds_log:
  assumes "calendar day" and "works env" and "codec enc dec e" and h: "holds enc dec age tbl (fl, fs)"
  shows "\<exists>st. log_audit enc env day e (fl, fs) = (None, st) \<and>
    holds enc dec age (gm_put (day (ae_open_now env))
        (events_of tbl (day (ae_open_now env)) @ [e], ae_open_now env) tbl) st"
proof -
  define t where "t = day (ae_open_now env)"
  define es where "es = events_of tbl t"
  define new where "new = (es @ [e], ae_open_now env)"
  obtain d where d: "fl_file fl = Some (day_file d, True)" using h by (auto simp: holds_def)
  have fs: "fs = map (file_of enc) tbl" and wf: "gm_wf tbl"
    and good: "\<forall>x \<in> set tbl. length (fst x) = 10 \<and> (\<forall>e \<in> set (fst (snd x)). codec enc dec e)"
    using h by (simp_all add: holds_def)
  have content: "snd (file_of enc (t, new)) =
      \<lparr>lf_data = encoded enc es @ the (enc e) @ [newline], lf_mod = ae_open_now env\<rparr>"
    by (simp add: file_of_def encoded_def new_def)
  have "append_data (ae_open_now env) (day_file t) (the (enc e) @ [newline])
      (snd (snd (open_new_file env day fl fs))) = map (file_of enc) (gm_put t new tbl)"
  proof (cases "gm_get tbl t")
    case None
    then have "snd (snd (open_new_file env day fl fs)) =
        gm_put (day_file t) \<lparr>lf_data = [], lf_mod = ae_open_now env\<rparr> fs"
      using assms(2) by (simp add: open_new_file_def works_def Let_def t_def fs get_file_of)
    moreover have "encoded enc es = []" using None by (simp add: es_def events_of_def encoded_def)
    ultimately show ?thesis
      using content by (simp add: append_data_def fs put_twice flip: put_file_of)
  next
    case (Some x)
    then have "snd (snd (open_new_file env day fl fs)) = fs"
      using assms(2) by (simp add: open_new_file_def works_def Let_def t_def fs get_file_of)
    moreover have "lf_data (snd (file_of enc (t, x))) = encoded enc es"
      using Some by (simp add: es_def events_of_def file_of_def)
    ultimately show ?thesis
      using Some content by (simp add: append_data_def fs get_file_of flip: put_file_of)
  qed
  moreover have "set (gm_put t new tbl) \<subseteq> insert (t, new) (set tbl)"
    by (induction tbl) auto
  moreover have "\<forall>e' \<in> set (fst new). codec enc dec e'"
  proof (cases "gm_get tbl t")
    case (Some x)
    then have "\<forall>e \<in> set (fst x). codec enc dec e" using good gm_get_in [OF Some] by force
    then show ?thesis using Some assms(3) by (simp add: new_def es_def events_of_def)
  qed (simp add: new_def es_def events_of_def assms(3))
  moreover have "length t = 10" using assms(1) by (simp add: calendar_def t_def)
  ultimately have "holds enc dec age (gm_put t new tbl)
      (fl\<lparr>fl_file := Some (day_file t, True)\<rparr>, append_data (ae_open_now env) (day_file t)
         (the (enc e) @ [newline]) (snd (snd (open_new_file env day fl fs))))"
    using h wf good by (fastforce simp: holds_def)
  then show ?thesis
    using log_audit_works [OF assms(1-3) d, of fs] by (simp add: t_def new_def es_def)
qed

lemma holds_cleanup:
  assumes "holds enc dec age tbl (fl, fs)"
  shows "holds enc dec age (filter (\<lambda>(d, es, t). f (- age) \<le> t) tbl) (fl, cleanup_tick f (\<lambda>n. False) fl fs)"
proof -
  have "cleanup_tick f (\<lambda>n. False) fl fs = map (file_of enc) (filter (\<lambda>(d, es, t). f (- age) \<le> t) tbl)"
    using assms by (simp add: holds_def cleanup_tick_def filter_map comp_def file_of_def case_prod_unfold not_less)
  moreover have "set (filter P tbl) \<subseteq> set tbl" for P by auto
  ultimately show ?thesis using assms unfolding holds_def fst_conv snd_conv
    by (intro conjI ballI gm_wf_filter) (auto dest: subsetD)
qed

lemma holds_run:
  "calendar day \<Longrightarrow> \<forall>env e. Logs env e \<in> set es \<longrightarrow> works env \<and> codec enc dec e \<Longrightarrow>
   holds enc dec age tbl st \<Longrightarrow>
   \<exists>errs st'. audit_run enc day es st = (errs, st') \<and> set errs \<subseteq> {None} \<and>
     holds enc dec age (table_run day age es tbl) st'"
proof (induction es arbitrary: tbl st)
  case (Cons x es)
  obtain fl fs where st: "st = (fl, fs)" by fastforce
  have rest: "\<forall>env e. Logs env e \<in> set es \<longrightarrow> works env \<and> codec enc dec e" using Cons.prems(2) by simp
  show ?case
  proof (cases x)
    case (Logs env e)
    then have we: "works env" "codec enc dec e" using Cons.prems(2) by auto
    from holds_log [OF Cons.prems(1) we Cons.prems(3) [unfolded st]]
    obtain st1 where l: "log_audit enc env day e (fl, fs) = (None, st1)"
      "holds enc dec age (gm_put (day (ae_open_now env))
        (events_of tbl (day (ae_open_now env)) @ [e], ae_open_now env) tbl) st1" by blast
    from Cons.IH [OF Cons.prems(1) rest l(2)] show ?thesis
      using l(1) by (auto simp: Logs st Let_def split: prod.splits)
  next
    case (CleansUp f)
    from Cons.IH [OF Cons.prems(1) rest holds_cleanup [OF Cons.prems(3) [unfolded st], of f]]
    show ?thesis by (simp add: CleansUp st)
  qed
qed simp

lemma read_encoded:
  assumes "\<forall>e \<in> set es. codec enc dec e"
  shows "read_log_file dec (encoded enc es) = es"
proof -
  let ?ls = "map (\<lambda>e. the (enc e)) es"
  have c: "newline \<notin> set (the (enc e))" "the (enc e) \<noteq> []" "dec (the (enc e)) = Some e" if "e \<in> set es" for e
    using assms that by (auto simp: codec_def)
  have "encoded enc es = concat (map (\<lambda>l. l @ [newline]) ?ls)" by (simp add: encoded_def comp_def)
  moreover have "\<forall>l \<in> set ?ls. newline \<notin> set l" using c(1) by auto
  ultimately have "split_lines (encoded enc es) = ?ls" using split_lines_concat [of ?ls] by simp
  moreover have "filter (\<lambda>l. l \<noteq> []) ?ls = ?ls" using c(2) by (auto intro: filter_True)
  ultimately have "read_log_file dec (encoded enc es) = List.map_filter dec ?ls" by (simp add: read_log_file_def)
  also have "\<dots> = es" using c(3) by (induction es) (simp_all add: List.map_filter_def)
  finally show ?thesis .
qed

lemma day_file_mono:
  assumes "length d = length d'" and "day_file d \<le> day_file d'"
  shows "d \<le> d'"
  using assms
proof (induction d d' rule: list_induct2)
  case (Cons x xs y ys)
  then show ?case by (auto simp: day_file_def)
qed simp

lemma sort_day_files:
  assumes "distinct ns" and "set ns = day_file ` set ds" and "distinct ds" and "\<forall>d \<in> set ds. length d = 10"
  shows "sort ns = map day_file (sort ds)"
proof (rule sorted_distinct_set_unique)
  have "sorted (map day_file ds)" if "sorted ds" "\<forall>d \<in> set ds. length d = 10" for ds
    using that
  proof (induction ds)
    case (Cons d ds)
    have "day_file d \<le> day_file d'" if "d' \<in> set ds" for d'
    proof (rule ccontr)
      assume n: "\<not> day_file d \<le> day_file d'"
      have "d' \<le> d" by (rule day_file_mono) (use n that Cons.prems in auto)
      moreover have "d \<le> d'" using Cons.prems that by simp
      ultimately show False using n by simp
    qed
    with Cons show ?case by simp
  qed simp
  from this [of "sort ds"] assms(4) show "sorted (map day_file (sort ds))" by simp
  show "distinct (map day_file (sort ds))" using assms(3) by (simp add: distinct_map inj_on_def)
qed (use assms in simp_all)

lemma query_table:
  assumes "holds enc dec age tbl (fl, fs)"
  shows "query_audit dec (\<lambda>n. True) f fs = slice f (filter (\<lambda>e. matches_filter e f) (table_events tbl))"
proof -
  have fs: "fs = map (file_of enc) tbl" and wf: "gm_wf tbl"
    and good: "\<forall>x \<in> set tbl. length (fst x) = 10 \<and> (\<forall>e \<in> set (fst (snd x)). codec enc dec e)"
    using assms by (simp_all add: holds_def)
  define ds where "ds = map fst tbl"
  have names: "map fst fs = map day_file ds" by (simp add: fs ds_def file_of_def comp_def)
  have dist: "distinct ds" using wf by (simp add: ds_def gm_wf_def)
  then have dist': "distinct (map fst fs)" unfolding names by (simp add: distinct_map inj_on_def)
  have "filter audit_name (map fst fs) = map fst fs" unfolding names by (intro filter_True) auto
  then have glob: "glob_audit fs = map day_file (sort ds)"
    using dist dist' good sort_day_files [of "map fst fs" ds] by (auto simp: glob_audit_def names ds_def)
  define ev where "ev = (\<lambda>n. events_of tbl (THE d. n = day_file d))"
  have ev: "ev (day_file d) = events_of tbl d" for d by (simp add: ev_def)
  have "\<exists>lf. gm_get fs n = Some lf \<and> read_log_file dec (lf_data lf) = ev n" if n: "n \<in> set (glob_audit fs)" for n
  proof -
    obtain d where d: "n = day_file d" "d \<in> set ds" using n glob by auto
    then obtain x where x: "gm_get tbl d = Some x" by (cases "gm_get tbl d") (auto simp: ds_def map_of_eq_None_iff)
    then have "\<forall>e \<in> set (fst x). codec enc dec e" using good gm_get_in [OF x] by force
    from read_encoded [OF this] show ?thesis
      using x by (simp add: d fs get_file_of file_of_def ev events_of_def)
  qed
  then have "query_audit dec (\<lambda>n. True) f fs =
      slice f (filter (\<lambda>e. matches_filter e f) (concat (map ev (rev (glob_audit fs)))))"
    by (intro query_audit_slice) blast
  moreover have "map ev (rev (glob_audit fs)) = map (events_of tbl) (rev (sort ds))"
    by (simp add: glob rev_map ev)
  ultimately show ?thesis by (simp add: table_events_def ds_def)
qed

text \<open>As long as no cutoff is later than a write, the table has for every day all that was logged.\<close>

definition day_events :: "(instant \<Rightarrow> string) \<Rightarrow> audit_step list \<Rightarrow> string \<Rightarrow> event list" where
  "day_events day es d = concat (map (\<lambda>x. case x of
      Logs env e \<Rightarrow> if day (ae_open_now env) = d then [e] else [] | CleansUp f \<Rightarrow> []) es)"

lemma recent_events_are_kept:
  assumes "\<forall>f. CleansUp f \<in> set es \<longrightarrow> f (- age) \<le> cutoff"
    and "\<forall>env e. Logs env e \<in> set es \<longrightarrow> cutoff \<le> ae_open_now env"
    and "\<forall>(d, x, t) \<in> set tbl. cutoff \<le> t"
  shows "events_of (table_run day age es tbl) d = events_of tbl d @ day_events day es d"
  using assms
proof (induction es arbitrary: tbl)
  case (Cons x es)
  show ?case
  proof (cases x)
    case (Logs env e)
    let ?d = "day (ae_open_now env)"
    let ?tbl = "gm_put ?d (events_of tbl ?d @ [e], ae_open_now env) tbl"
    have "set (gm_put k v m) \<subseteq> insert (k, v) (set m)" for k and v :: "event list \<times> instant" and m
      by (induction m) auto
    then have "\<forall>(d, x, t) \<in> set ?tbl. cutoff \<le> t" using Cons.prems(2,3) Logs by fastforce
    then have "events_of (table_run day age es ?tbl) d = events_of ?tbl d @ day_events day es d"
      by (intro Cons.IH) (use Cons.prems in auto)
    moreover have "events_of ?tbl d = events_of tbl d @ (if ?d = d then [e] else [])"
      by (simp add: events_of_def map_ops)
    ultimately show ?thesis by (simp add: Logs day_events_def Let_def)
  next
    case (CleansUp f)
    have "filter (\<lambda>(d, es, t). f (- age) \<le> t) tbl = tbl"
      using Cons.prems(1,3) CleansUp by (intro filter_True) fastforce
    moreover have "events_of (table_run day age es tbl) d = events_of tbl d @ day_events day es d"
      by (intro Cons.IH) (use Cons.prems in auto)
    ultimately show ?thesis by (simp add: CleansUp day_events_def)
  qed
qed (simp add: day_events_def)

text \<open>
  C22: on a log that starts in an empty directory, when nothing fails, a query after any sequence of
  events and clean-ups finds exactly the events kept that match its filter, from the newest day to
  the oldest and within a day in the order they were logged, less the offset and up to the limit.
  Kept is every event but those of a day whose file a clean-up found last written before its
  cutoff, the maximum age in days back.
\<close>

theorem logged_events_are_found:
  assumes "calendar day" and "new_file_logger env0 day True mb age backups [] = Some st"
    and "\<forall>env e. Logs env e \<in> set es \<longrightarrow> works env \<and> codec enc dec e"
  shows "\<exists>errs fl fs. audit_run enc day es st = (errs, fl, fs) \<and> set errs \<subseteq> {None} \<and>
    query_audit dec (\<lambda>n. True) f fs =
      slice f (filter (\<lambda>e. matches_filter e f)
        (table_events (table_run day age es [(day (ae_open_now env0), [], ae_open_now env0)])))"
proof -
  have "holds enc dec age [(day (ae_open_now env0), [], ae_open_now env0)] st" using assms(1,2)
    by (auto simp: new_file_logger_def open_new_file_def holds_def encoded_def file_of_def calendar_def Let_def
        split: if_splits)
  from holds_run [OF assms(1,3) this] obtain errs fl fs where
    "audit_run enc day es st = (errs, fl, fs)" "set errs \<subseteq> {None}"
    "holds enc dec age (table_run day age es [(day (ae_open_now env0), [], ae_open_now env0)]) (fl, fs)"
    by fastforce
  with query_table show ?thesis by blast
qed

text \<open>
  A rotation whose reopening fails leaves a closed file, which no later rotation gets past.\<close>

theorem failed_reopening_is_final:
  assumes "fl_file fl = Some (n, False)"
  shows "\<exists>fl'. log_audit enc env day e (fl, fs) = (Some RotateFailed, fl', fs) \<and> fl_file fl' = Some (n, False)"
  using assms by (auto simp: log_audit_def should_rotate_def rotate_log_def Let_def)

section \<open>A concrete log\<close>

definition two_days :: "instant \<Rightarrow> string" where
  "two_days t = (if t < 100 then ''2026-01-01'' else ''2026-01-02'')"

lemma two_days_calendar: "calendar two_days"
  by (simp add: calendar_def two_days_def)

definition at_time :: "instant \<Rightarrow> audit_env" where
  "at_time t = \<lparr>ae_now = t, ae_open_now = t, ae_stat = True, ae_close = True, ae_open = True,
     ae_write = None, ae_sync = True\<rparr>"

definition enc_user :: "event \<Rightarrow> string option" where
  "enc_user e = Some (CHR ''u'' # ev_username e)"

definition dec_user :: "string \<Rightarrow> event option" where
  "dec_user s = Some (new_event 0 0 0 type_login (tl s))"

definition login_of :: "string \<Rightarrow> event" where
  "login_of u = new_event 0 0 0 type_login u"

definition one_found :: query_filter where
  "one_found = \<lparr>qf_start_time = None, qf_end_time = None, qf_username = [], qf_event_type = [],
     qf_status = [], qf_resource = [], qf_limit = 1, qf_offset = 0\<rparr>"

text \<open>
  With a limit of one the query finds the first event of the last day, not the last event; the
  clean-up before it has removed the file of the first day.\<close>

theorem logged_events_are_found_witness:
  "\<exists>st errs fl fs. new_file_logger (at_time 0) two_days True 10 30 5 [] = Some st \<and>
     audit_run enc_user two_days [Logs (at_time 1) (login_of ''ann''), Logs (at_time 200) (login_of ''bob''),
       Logs (at_time 201) (login_of ''cid''), CleansUp (\<lambda>n. 100)] st = (errs, fl, fs) \<and> set errs \<subseteq> {None} \<and>
     query_audit dec_user (\<lambda>n. True) one_found fs = [login_of ''bob'']"
proof -
  let ?es = "[Logs (at_time 1) (login_of ''ann''), Logs (at_time 200) (login_of ''bob''),
       Logs (at_time 201) (login_of ''cid''), CleansUp (\<lambda>n. 100)]"
  obtain st where st: "new_file_logger (at_time 0) two_days True 10 30 5 [] = Some st"
    by (simp add: new_file_logger_def open_new_file_def at_time_def Let_def)
  have "\<forall>env e. Logs env e \<in> set ?es \<longrightarrow> works env \<and> codec enc_user dec_user e"
    by (auto simp: works_def at_time_def codec_def enc_user_def dec_user_def login_of_def new_event_def)
  from logged_events_are_found [OF two_days_calendar st this, of one_found] st show ?thesis
    by (auto simp: slice_def one_found_def matches_filter_def table_events_def events_of_def at_time_def
        two_days_def Let_def)
qed

theorem every_event_rotates_witness:
  "should_rotate (at_time 1) two_days \<lparr>fl_max_size = 100, fl_max_age = 1, fl_max_backups = 1,
     fl_file = Some (day_file (two_days 1), True)\<rparr> []"
  using every_event_rotates [OF two_days_calendar, of
      "\<lparr>fl_max_size = 100, fl_max_age = 1, fl_max_backups = 1, fl_file = Some (day_file (two_days 1), True)\<rparr>"
      "two_days 1" True "at_time 1" "[]"] by simp

theorem failed_reopening_is_final_witness:
  "\<exists>fl'. log_audit enc_user (at_time 1) two_days (login_of ''ann'')
      (\<lparr>fl_max_size = 100, fl_max_age = 1, fl_max_backups = 1, fl_file = Some (day_file (two_days 1), False)\<rparr>, []) =
    (Some RotateFailed, fl', [])"
  using failed_reopening_is_final [of
      "\<lparr>fl_max_size = 100, fl_max_age = 1, fl_max_backups = 1, fl_file = Some (day_file (two_days 1), False)\<rparr>"
      "day_file (two_days 1)" enc_user "at_time 1" two_days "login_of ''ann''" "[]"] by auto

end
