(* ===== verification/Operator_Types.thy ===== *)
theory Operator_Types
  imports Go_Prelude Complex_Main
begin

text \<open>
  The custom resources of the operator, \<open>pkg/apis/transiva/v1alpha1/vm_types.go\<close>, one record per
  struct.  Of the metadata of Kubernetes (\<open>ObjectMeta\<close>) the fields the controllers use are kept;
  affinities, tolerations and secret references are opaque.
\<close>

section \<open>Metadata\<close>

record object_meta =
  om_name :: string
  om_namespace :: string
  om_labels :: "(string, string) gomap"
  om_annotations :: "(string, string) gomap"
  om_finalizers :: "string list"
  om_deletion :: "instant option"
  om_created :: instant

definition plain_meta :: "string \<Rightarrow> string \<Rightarrow> (string, string) gomap \<Rightarrow> object_meta" where
  "plain_meta name ns ls = \<lparr>om_name = name, om_namespace = ns, om_labels = ls, om_annotations = [],
     om_finalizers = [], om_deletion = None, om_created = 0\<rparr>"

typedecl k8s_affinity
typedecl k8s_toleration
typedecl k8s_secret_reference

section \<open>Virtual machines\<close>

record vm_disk_source =
  vds_pvc :: string
  vds_http :: string
  vds_s3 :: string
  vds_container_disk :: string

record vm_disk =
  vd_name :: string
  vd_size :: string
  vd_storage_class :: string
  vd_boot_order :: "int option"
  vd_type :: string
  vd_source :: "vm_disk_source option"

record vm_network =
  vn_name :: string
  vn_type :: string
  vn_multus_network_name :: string
  vn_mac_address :: string

record vm_gpu =
  vg_name :: string
  vg_device_name :: string
  vg_vendor :: string
  vg_model :: string
  vg_count :: int
  vg_virtual_gpu :: bool
  vg_vgpu_id :: string
  vg_passthrough :: bool
  vg_resource_name :: string

record vm_usb_device =
  vu_name :: string
  vu_vendor_id :: string
  vu_product_id :: string
  vu_bus :: string
  vu_device :: string
  vu_serial :: string
  vu_hotplug :: bool
  vu_device_path :: string

record template_ref =
  tr_name :: string
  tr_namespace :: string

record image_checksum =
  ic_type :: string
  ic_value :: string

record vm_image =
  vi_source :: string
  vi_template_ref :: "template_ref option"
  vi_checksum :: "image_checksum option"

record cloud_init_config =
  ci_user_data :: string
  ci_network_data :: string
  ci_secret_ref :: "k8s_secret_reference option"

record carbon_aware_spec =
  ca_enabled :: bool
  ca_max_intensity :: int
  ca_prefer_green_energy :: bool
  ca_zone :: string

record vm_firmware =
  vf_bootloader :: string
  vf_secure_boot :: bool

record vm_guest_agent =
  vga_enabled :: bool

record vm_high_availability =
  ha_enabled :: bool
  ha_restart_policy :: string
  ha_restart_delay :: string
  ha_max_restarts :: int
  ha_eviction_strategy :: string

record vm_spec =
  vs_cpus :: int
  vs_memory :: string
  vs_gpus :: "vm_gpu list"
  vs_usb_devices :: "vm_usb_device list"
  vs_disks :: "vm_disk list"
  vs_networks :: "vm_network list"
  vs_image :: "vm_image option"
  vs_cloud_init :: "cloud_init_config option"
  vs_running :: bool
  vs_node_selector :: "(string, string) gomap"
  vs_affinity :: "k8s_affinity option"
  vs_tolerations :: "k8s_toleration list"
  vs_carbon_aware :: "carbon_aware_spec option"
  vs_machine_type :: string
  vs_firmware :: "vm_firmware option"
  vs_guest_agent :: "vm_guest_agent option"
  vs_high_availability :: "vm_high_availability option"
  vs_labels :: "(string, string) gomap"
  vs_annotations :: "(string, string) gomap"

type_synonym vm_phase = string

definition vm_pending :: vm_phase where "vm_pending = ''Pending''"
definition vm_creating :: vm_phase where "vm_creating = ''Creating''"
definition vm_running :: vm_phase where "vm_running = ''Running''"
definition vm_stopped :: vm_phase where "vm_stopped = ''Stopped''"
definition vm_migrating :: vm_phase where "vm_migrating = ''Migrating''"
definition vm_paused :: vm_phase where "vm_paused = ''Paused''"
definition vm_failed :: vm_phase where "vm_failed = ''Failed''"
definition vm_unknown :: vm_phase where "vm_unknown = ''Unknown''"

lemmas vm_phase_defs = vm_pending_def vm_creating_def vm_running_def vm_stopped_def vm_migrating_def
  vm_paused_def vm_failed_def vm_unknown_def

record vm_condition =
  vc_type :: string
  vc_status :: string
  vc_last_transition_time :: instant
  vc_reason :: string
  vc_message :: string

record guest_agent_status =
  gas_connected :: bool
  gas_version :: string
  gas_hostname :: string

record resource_metrics =
  rmx_usage :: string
  rmx_requests :: string

record gpu_memory_status =
  gms_total :: string
  gms_used :: string
  gms_free :: string

record gpu_status =
  gst_name :: string
  gst_model :: string
  gst_uuid :: string
  gst_pci_address :: string
  gst_utilization :: real
  gst_memory :: "gpu_memory_status option"
  gst_temperature :: int
  gst_power_usage :: int

record vm_resource_status =
  vrs_cpu :: "resource_metrics option"
  vrs_memory :: "resource_metrics option"
  vrs_gpus :: "gpu_status list"

record vnc_status =
  vnc_port :: int
  vnc_node_port :: int
  vnc_enabled :: bool

record vm_status =
  vt_phase :: vm_phase
  vt_conditions :: "vm_condition list"
  vt_guest_agent :: "guest_agent_status option"
  vt_ip_addresses :: "string list"
  vt_node_name :: string
  vt_resources :: "vm_resource_status option"
  vt_qemu_pid :: int
  vt_vnc :: "vnc_status option"
  vt_creation_timestamp :: "instant option"
  vt_start_time :: "instant option"
  vt_carbon_intensity :: real

definition no_vm_status :: vm_status where
  "no_vm_status = \<lparr>vt_phase = [], vt_conditions = [], vt_guest_agent = None, vt_ip_addresses = [],
     vt_node_name = [], vt_resources = None, vt_qemu_pid = 0, vt_vnc = None,
     vt_creation_timestamp = None, vt_start_time = None, vt_carbon_intensity = 0\<rparr>"

record virtual_machine =
  vm_meta :: object_meta
  vm_spec_of :: vm_spec
  vm_status_of :: vm_status

section \<open>Operations\<close>

record vm_reference =
  vr_name :: string
  vr_namespace :: string

type_synonym vm_operation_type = string

definition op_start :: vm_operation_type where "op_start = ''start''"
definition op_stop :: vm_operation_type where "op_stop = ''stop''"
definition op_restart :: vm_operation_type where "op_restart = ''restart''"
definition op_clone :: vm_operation_type where "op_clone = ''clone''"
definition op_migrate :: vm_operation_type where "op_migrate = ''migrate''"
definition op_snapshot :: vm_operation_type where "op_snapshot = ''snapshot''"
definition op_resize :: vm_operation_type where "op_resize = ''resize''"
definition op_delete :: vm_operation_type where "op_delete = ''delete''"

lemmas op_type_defs = op_start_def op_stop_def op_restart_def op_clone_def op_migrate_def
  op_snapshot_def op_resize_def op_delete_def

record clone_spec =
  cs_target_name :: string
  cs_target_namespace :: string
  cs_linked_clone :: bool
  cs_start_after_clone :: bool
  cs_snapshot_ref :: string
  cs_power_on_after :: bool

record migrate_spec =
  ms_target_node :: string
  ms_live :: bool
  ms_bandwidth :: string
  ms_auto_converge :: bool
  ms_post_copy :: bool

record resize_spec =
  rs_cpus :: int
  rs_memory :: string
  rs_hotplug :: bool

record snapshot_spec =
  ss_name :: string
  ss_description :: string
  ss_include_memory :: bool
  ss_quiesce :: bool

record vm_operation_spec =
  os_vm_ref :: vm_reference
  os_operation :: vm_operation_type
  os_force :: bool
  os_clone_spec :: "clone_spec option"
  os_migrate_spec :: "migrate_spec option"
  os_resize_spec :: "resize_spec option"
  os_snapshot_spec :: "snapshot_spec option"
  os_timeout :: string

type_synonym vm_op_phase = string

definition opp_pending :: vm_op_phase where "opp_pending = ''Pending''"
definition opp_running :: vm_op_phase where "opp_running = ''Running''"
definition opp_succeeded :: vm_op_phase where "opp_succeeded = ''Succeeded''"
definition opp_failed :: vm_op_phase where "opp_failed = ''Failed''"
definition opp_cancelled :: vm_op_phase where "opp_cancelled = ''Cancelled''"

lemmas op_phase_defs = opp_pending_def opp_running_def opp_succeeded_def opp_failed_def opp_cancelled_def

record vm_operation_status =
  ot_phase :: vm_op_phase
  ot_conditions :: "vm_condition list"
  ot_progress :: int
  ot_start_time :: "instant option"
  ot_completion_time :: "instant option"
  ot_message :: string
  ot_result :: string

definition no_op_status :: vm_operation_status where
  "no_op_status = \<lparr>ot_phase = [], ot_conditions = [], ot_progress = 0, ot_start_time = None,
     ot_completion_time = None, ot_message = [], ot_result = []\<rparr>"

record vm_operation =
  vo_meta :: object_meta
  vo_spec :: vm_operation_spec
  vo_status :: vm_operation_status

section \<open>Snapshots\<close>

record snapshot_retention =
  sr_keep_days :: int
  sr_keep_count :: int
  sr_auto_delete :: bool
  sr_expires_at :: "instant option"

record snapshot_destination =
  sd_storage_class :: string
  sd_location :: string

record vm_snapshot_spec =
  sp_vm_ref :: vm_reference
  sp_include_memory :: bool
  sp_quiesce :: bool
  sp_description :: string
  sp_retention :: "snapshot_retention option"
  sp_destination :: "snapshot_destination option"

type_synonym vm_snap_phase = string

definition snp_pending :: vm_snap_phase where "snp_pending = ''Pending''"
definition snp_creating :: vm_snap_phase where "snp_creating = ''Creating''"
definition snp_ready :: vm_snap_phase where "snp_ready = ''Ready''"
definition snp_failed :: vm_snap_phase where "snp_failed = ''Failed''"
definition snp_deleting :: vm_snap_phase where "snp_deleting = ''Deleting''"
definition snp_expired :: vm_snap_phase where "snp_expired = ''Expired''"

lemmas snap_phase_defs = snp_pending_def snp_creating_def snp_ready_def snp_failed_def snp_deleting_def
  snp_expired_def

record vm_state_snapshot =
  vss_cpus :: int
  vss_memory :: string
  vss_disk_count :: int
  vss_running :: bool

record vm_snapshot_status =
  st_phase :: vm_snap_phase
  st_conditions :: "vm_condition list"
  st_size :: string
  st_size_bytes :: int
  st_creation_time :: "instant option"
  st_ready_to_restore :: bool
  st_backing_files :: "string list"
  st_vm_state :: "vm_state_snapshot option"
  st_parent_snapshot :: string
  st_snapshot_chain :: "string list"

definition no_snapshot_status :: vm_snapshot_status where
  "no_snapshot_status = \<lparr>st_phase = [], st_conditions = [], st_size = [], st_size_bytes = 0,
     st_creation_time = None, st_ready_to_restore = False, st_backing_files = [], st_vm_state = None,
     st_parent_snapshot = [], st_snapshot_chain = []\<rparr>"

record vm_snapshot =
  sn_meta :: object_meta
  sn_spec :: vm_snapshot_spec
  sn_status :: vm_snapshot_status

section \<open>Backup schedules of machines\<close>

record vm_selector =
  sel_match_labels :: "(string, string) gomap"
  sel_match_names :: "string list"
  sel_match_namespaces :: "string list"
  sel_exclude_names :: "string list"

record vm_snapshot_template_spec =
  stp_include_memory :: bool
  stp_quiesce :: bool
  stp_destination :: "snapshot_destination option"
  stp_labels :: "(string, string) gomap"
  stp_annotations :: "(string, string) gomap"

record backup_retention_policy =
  brp_keep_last :: int
  brp_keep_daily :: int
  brp_keep_weekly :: int
  brp_keep_monthly :: int
  brp_keep_yearly :: int
  brp_max_age :: string
  brp_auto_delete :: bool

record vm_backup_schedule_spec =
  bss_vm_selector :: vm_selector
  bss_schedule :: string
  bss_snapshot_template :: vm_snapshot_template_spec
  bss_retention_policy :: backup_retention_policy
  bss_paused :: bool
  bss_timezone :: string

record vm_backup_schedule_status =
  bst_last_backup_time :: "instant option"
  bst_next_backup_time :: "instant option"
  bst_last_backup_snapshot :: string
  bst_total_backups :: int
  bst_active_backups :: int
  bst_failed_backups :: int
  bst_last_backup_status :: string
  bst_last_backup_message :: string
  bst_matched_vms :: "string list"
  bst_conditions :: "vm_condition list"

definition no_backup_schedule_status :: vm_backup_schedule_status where
  "no_backup_schedule_status = \<lparr>bst_last_backup_time = None, bst_next_backup_time = None,
     bst_last_backup_snapshot = [], bst_total_backups = 0, bst_active_backups = 0,
     bst_failed_backups = 0, bst_last_backup_status = [], bst_last_backup_message = [],
     bst_matched_vms = [], bst_conditions = []\<rparr>"

record vm_backup_schedule =
  bs_meta :: object_meta
  bs_spec :: vm_backup_schedule_spec
  bs_status :: vm_backup_schedule_status

section \<open>Migration policies\<close>

type_synonym migration_trigger_type = string

definition trigger_node_pressure :: migration_trigger_type where "trigger_node_pressure = ''NodePressure''"
definition trigger_carbon_intensity :: migration_trigger_type where "trigger_carbon_intensity = ''CarbonIntensity''"
definition trigger_cost :: migration_trigger_type where "trigger_cost = ''Cost''"
definition trigger_maintenance :: migration_trigger_type where "trigger_maintenance = ''Maintenance''"
definition trigger_load_balancing :: migration_trigger_type where "trigger_load_balancing = ''LoadBalancing''"
definition trigger_node_drain :: migration_trigger_type where "trigger_node_drain = ''NodeDrain''"
definition trigger_power_usage :: migration_trigger_type where "trigger_power_usage = ''PowerUsage''"
definition trigger_temperature :: migration_trigger_type where "trigger_temperature = ''Temperature''"

lemmas trigger_defs = trigger_node_pressure_def trigger_carbon_intensity_def trigger_cost_def
  trigger_maintenance_def trigger_load_balancing_def trigger_node_drain_def trigger_power_usage_def
  trigger_temperature_def

record migration_trigger =
  tg_type :: migration_trigger_type
  tg_threshold :: string
  tg_duration :: string
  tg_priority :: int

record policy_window =
  pw_start :: string
  pw_end :: string
  pw_days :: "string list"
  pw_timezone :: string

record migration_constraints =
  mc_max_concurrent :: int
  mc_allowed_windows :: "policy_window list"
  mc_blocked_windows :: "policy_window list"
  mc_require_live :: bool
  mc_max_per_node :: int
  mc_cooldown :: string
  mc_node_selector :: "(string, string) gomap"

type_synonym target_strategy = string

definition strategy_least_utilized :: target_strategy where "strategy_least_utilized = ''LeastUtilized''"
definition strategy_most_available :: target_strategy where "strategy_most_available = ''MostAvailable''"
definition strategy_lowest_carbon :: target_strategy where "strategy_lowest_carbon = ''LowestCarbon''"
definition strategy_lowest_cost :: target_strategy where "strategy_lowest_cost = ''LowestCost''"
definition strategy_round_robin :: target_strategy where "strategy_round_robin = ''RoundRobin''"
definition strategy_bin_packing :: target_strategy where "strategy_bin_packing = ''BinPacking''"
definition strategy_weighted_score :: target_strategy where "strategy_weighted_score = ''WeightedScore''"

lemmas strategy_defs = strategy_least_utilized_def strategy_most_available_def strategy_lowest_carbon_def
  strategy_lowest_cost_def strategy_round_robin_def strategy_bin_packing_def strategy_weighted_score_def

record target_filter =
  tf_type :: string
  tf_operator :: string
  tf_value :: string

record anti_affinity_rule =
  aa_vm_labels :: "(string, string) gomap"
  aa_strength :: string

record target_selection =
  ts_strategy :: target_strategy
  ts_weights :: "(string, int) gomap"
  ts_filters :: "target_filter list"
  ts_anti_affinity :: "anti_affinity_rule option"

record migration_policy_spec =
  mps_enabled :: bool
  mps_triggers :: "migration_trigger list"
  mps_constraints :: migration_constraints
  mps_target :: target_selection
  mps_dry_run :: bool
  mps_schedule :: string

record migration_record =
  mrc_vm_name :: string
  mrc_from_node :: string
  mrc_to_node :: string
  mrc_trigger :: migration_trigger_type
  mrc_start_time :: instant
  mrc_completion_time :: "instant option"
  mrc_status :: string
  mrc_reason :: string
  mrc_duration :: string

record migration_policy_status =
  mpt_active :: bool
  mpt_total :: int
  mpt_successful :: int
  mpt_failed :: int
  mpt_pending :: int
  mpt_last_migration :: "instant option"
  mpt_last_evaluation :: "instant option"
  mpt_triggered :: "migration_record list"
  mpt_conditions :: "vm_condition list"
  mpt_recommended :: int

definition no_policy_status :: migration_policy_status where
  "no_policy_status = \<lparr>mpt_active = False, mpt_total = 0, mpt_successful = 0, mpt_failed = 0, mpt_pending = 0,
     mpt_last_migration = None, mpt_last_evaluation = None, mpt_triggered = [], mpt_conditions = [],
     mpt_recommended = 0\<rparr>"

record migration_policy =
  mp_meta :: object_meta
  mp_spec :: migration_policy_spec
  mp_status :: migration_policy_status

end
