(* ===== verification/Kube_Client.thy ===== *)
theory Kube_Client
  imports Operator_Types
begin

text \<open>
  The Kubernetes API as the controllers see it through \<open>client.Client\<close>.  Both are outside the
  repository, so the client is a parameter: one record of calls per kind of object, over an
  abstract world.  \<open>client_laws\<close> states the documented meaning of the calls on the objects stored
  (\<open>obj_store\<close>); a call may also fail, with or without its effect, unless the API is \<open>reliable\<close>.
\<close>

section \<open>Errors\<close>

datatype api_reason = NotFound | AlreadyExists | OtherReason

record api_error =
  ae_reason :: api_reason
  ae_text :: string

text \<open>\<open>fmt.Errorf("...: %w", err)\<close>, which keeps the reason, and an error of the code's own.\<close>

definition wrap_error :: "string \<Rightarrow> api_error \<Rightarrow> api_error" where
  "wrap_error p e = e\<lparr>ae_text := p @ '': '' @ ae_text e\<rparr>"

definition own_error :: "string \<Rightarrow> api_error" where
  "own_error s = \<lparr>ae_reason = OtherReason, ae_text = s\<rparr>"

section \<open>Kinds of objects\<close>

type_synonym obj_key = "string \<times> string"

text \<open>How the parts of an object are read and replaced; the status is a subresource.\<close>

record 'o kind =
  kd_meta :: "'o \<Rightarrow> object_meta"
  kd_with_meta :: "object_meta \<Rightarrow> 'o \<Rightarrow> 'o"
  kd_with_status :: "'o \<Rightarrow> 'o \<Rightarrow> 'o"
  kd_no_status :: "'o \<Rightarrow> 'o"

definition key_of :: "'o kind \<Rightarrow> 'o \<Rightarrow> obj_key" where
  "key_of kd x = (om_namespace (kd_meta kd x), om_name (kd_meta kd x))"

definition vm_kind :: "virtual_machine kind" where
  "vm_kind = \<lparr>kd_meta = vm_meta, kd_with_meta = (\<lambda>m x. x\<lparr>vm_meta := m\<rparr>),
     kd_with_status = (\<lambda>x s. x\<lparr>vm_status_of := vm_status_of s\<rparr>),
     kd_no_status = (\<lambda>x. x\<lparr>vm_status_of := no_vm_status\<rparr>)\<rparr>"

definition op_kind :: "vm_operation kind" where
  "op_kind = \<lparr>kd_meta = vo_meta, kd_with_meta = (\<lambda>m x. x\<lparr>vo_meta := m\<rparr>),
     kd_with_status = (\<lambda>x s. x\<lparr>vo_status := vo_status s\<rparr>),
     kd_no_status = (\<lambda>x. x\<lparr>vo_status := no_op_status\<rparr>)\<rparr>"

definition snap_kind :: "vm_snapshot kind" where
  "snap_kind = \<lparr>kd_meta = sn_meta, kd_with_meta = (\<lambda>m x. x\<lparr>sn_meta := m\<rparr>),
     kd_with_status = (\<lambda>x s. x\<lparr>sn_status := sn_status s\<rparr>),
     kd_no_status = (\<lambda>x. x\<lparr>sn_status := no_snapshot_status\<rparr>)\<rparr>"

definition sched_kind :: "vm_backup_schedule kind" where
  "sched_kind = \<lparr>kd_meta = bs_meta, kd_with_meta = (\<lambda>m x. x\<lparr>bs_meta := m\<rparr>),
     kd_with_status = (\<lambda>x s. x\<lparr>bs_status := bs_status s\<rparr>),
     kd_no_status = (\<lambda>x. x\<lparr>bs_status := no_backup_schedule_status\<rparr>)\<rparr>"

definition policy_kind :: "migration_policy kind" where
  "policy_kind = \<lparr>kd_meta = mp_meta, kd_with_meta = (\<lambda>m x. x\<lparr>mp_meta := m\<rparr>),
     kd_with_status = (\<lambda>x s. x\<lparr>mp_status := mp_status s\<rparr>),
     kd_no_status = (\<lambda>x. x\<lparr>mp_status := no_policy_status\<rparr>)\<rparr>"

text \<open>The pods and volume claims of Kubernetes itself, with the fields the code uses.\<close>

record pod =
  pod_meta :: object_meta
  pod_node_name :: string
  pod_env :: "(string \<times> string) list"
  pod_mounts :: "(string \<times> string) list"
  pod_volumes :: "(string \<times> string) list"
  pod_node_selector :: "(string, string) gomap"
  pod_affinity :: "k8s_affinity option"
  pod_tolerations :: "k8s_toleration list"
  pod_phase :: string
  pod_ips :: "string list"

definition pod_kind :: "pod kind" where
  "pod_kind = \<lparr>kd_meta = pod_meta, kd_with_meta = (\<lambda>m x. x\<lparr>pod_meta := m\<rparr>),
     kd_with_status = (\<lambda>x s. x\<lparr>pod_phase := pod_phase s, pod_ips := pod_ips s\<rparr>),
     kd_no_status = (\<lambda>x. x\<lparr>pod_phase := [], pod_ips := []\<rparr>)\<rparr>"

record pvc =
  pvc_meta :: object_meta
  pvc_storage_class :: string
  pvc_size :: string
  pvc_phase :: string

definition pvc_kind :: "pvc kind" where
  "pvc_kind = \<lparr>kd_meta = pvc_meta, kd_with_meta = (\<lambda>m x. x\<lparr>pvc_meta := m\<rparr>),
     kd_with_status = (\<lambda>x s. x\<lparr>pvc_phase := pvc_phase s\<rparr>),
     kd_no_status = (\<lambda>x. x\<lparr>pvc_phase := []\<rparr>)\<rparr>"

lemma vm_kind_simps [simp]:
  "kd_meta vm_kind = vm_meta" "kd_with_meta vm_kind m x = x\<lparr>vm_meta := m\<rparr>"
  "kd_with_status vm_kind x s = x\<lparr>vm_status_of := vm_status_of s\<rparr>" "kd_no_status vm_kind x = x\<lparr>vm_status_of := no_vm_status\<rparr>"
  by (simp_all add: vm_kind_def)

lemma op_kind_simps [simp]:
  "kd_meta op_kind = vo_meta" "kd_with_meta op_kind m x = x\<lparr>vo_meta := m\<rparr>"
  "kd_with_status op_kind x s = x\<lparr>vo_status := vo_status s\<rparr>" "kd_no_status op_kind x = x\<lparr>vo_status := no_op_status\<rparr>"
  by (simp_all add: op_kind_def)

lemma snap_kind_simps [simp]:
  "kd_meta snap_kind = sn_meta" "kd_with_meta snap_kind m x = x\<lparr>sn_meta := m\<rparr>"
  "kd_with_status snap_kind x s = x\<lparr>sn_status := sn_status s\<rparr>" "kd_no_status snap_kind x = x\<lparr>sn_status := no_snapshot_status\<rparr>"
  by (simp_all add: snap_kind_def)

lemma sched_kind_simps [simp]:
  "kd_meta sched_kind = bs_meta" "kd_with_meta sched_kind m x = x\<lparr>bs_meta := m\<rparr>"
  "kd_with_status sched_kind x s = x\<lparr>bs_status := bs_status s\<rparr>" "kd_no_status sched_kind x = x\<lparr>bs_status := no_backup_schedule_status\<rparr>"
  by (simp_all add: sched_kind_def)

lemma policy_kind_simps [simp]:
  "kd_meta policy_kind = mp_meta" "kd_with_meta policy_kind m x = x\<lparr>mp_meta := m\<rparr>"
  "kd_with_status policy_kind x s = x\<lparr>mp_status := mp_status s\<rparr>" "kd_no_status policy_kind x = x\<lparr>mp_status := no_policy_status\<rparr>"
  by (simp_all add: policy_kind_def)

lemma pod_kind_simps [simp]:
  "kd_meta pod_kind = pod_meta" "kd_with_meta pod_kind m' p = p\<lparr>pod_meta := m'\<rparr>"
  "kd_with_status pod_kind p q = p\<lparr>pod_phase := pod_phase q, pod_ips := pod_ips q\<rparr>"
  "kd_no_status pod_kind p = p\<lparr>pod_phase := [], pod_ips := []\<rparr>"
  by (simp_all add: pod_kind_def)

lemma pvc_kind_simps [simp]:
  "kd_meta pvc_kind = pvc_meta" "kd_with_meta pvc_kind m' v = v\<lparr>pvc_meta := m'\<rparr>"
  "kd_with_status pvc_kind v u = v\<lparr>pvc_phase := pvc_phase u\<rparr>"
  "kd_no_status pvc_kind v = v\<lparr>pvc_phase := []\<rparr>"
  by (simp_all add: pvc_kind_def)

lemma key_of_status [simp]:
  "key_of vm_kind (x\<lparr>vm_status_of := a\<rparr>) = key_of vm_kind x" "key_of vm_kind (x\<lparr>vm_spec_of := b\<rparr>) = key_of vm_kind x"
  "key_of op_kind (z\<lparr>vo_status := c\<rparr>) = key_of op_kind z"
  "key_of snap_kind (y\<lparr>sn_status := d\<rparr>) = key_of snap_kind y"
  "key_of sched_kind (u\<lparr>bs_status := e\<rparr>) = key_of sched_kind u"
  "key_of policy_kind (v\<lparr>mp_status := g\<rparr>) = key_of policy_kind v"
  by (simp_all add: key_of_def)

section \<open>The meaning of the calls\<close>

type_synonym 'o obj_map = "obj_key \<Rightarrow> 'o option"

definition sem_get :: "obj_key \<Rightarrow> 'o obj_map \<Rightarrow> api_reason + 'o" where
  "sem_get k m = (case m k of None \<Rightarrow> Inl NotFound | Some x \<Rightarrow> Inr x)"

definition sem_create :: "'o kind \<Rightarrow> instant \<Rightarrow> 'o \<Rightarrow> 'o obj_map \<Rightarrow> (api_reason + 'o) \<times> 'o obj_map" where
  "sem_create kd t x m =
     (case m (key_of kd x) of
        Some y \<Rightarrow> (Inl AlreadyExists, m)
      | None \<Rightarrow>
          (let x' = kd_no_status kd (kd_with_meta kd ((kd_meta kd x)\<lparr>om_created := t, om_deletion := None\<rparr>) x)
           in (Inr x', m(key_of kd x \<mapsto> x'))))"

text \<open>An update keeps the stored status; removing the last finalizer of a deleted object removes it.\<close>

definition sem_update :: "'o kind \<Rightarrow> 'o \<Rightarrow> 'o obj_map \<Rightarrow> (api_reason + 'o) \<times> 'o obj_map" where
  "sem_update kd x m =
     (case m (key_of kd x) of
        None \<Rightarrow> (Inl NotFound, m)
      | Some s \<Rightarrow>
          (let meta = (kd_meta kd x)\<lparr>om_created := om_created (kd_meta kd s), om_deletion := om_deletion (kd_meta kd s)\<rparr>;
               x' = kd_with_status kd (kd_with_meta kd meta x) s
           in (Inr x', m(key_of kd x := (if om_deletion meta \<noteq> None \<and> om_finalizers meta = [] then None else Some x')))))"

definition sem_update_status :: "'o kind \<Rightarrow> 'o \<Rightarrow> 'o obj_map \<Rightarrow> (api_reason + 'o) \<times> 'o obj_map" where
  "sem_update_status kd x m =
     (case m (key_of kd x) of
        None \<Rightarrow> (Inl NotFound, m)
      | Some s \<Rightarrow> (let x' = kd_with_status kd s x in (Inr x', m(key_of kd x \<mapsto> x'))))"

definition sem_delete :: "'o kind \<Rightarrow> instant \<Rightarrow> 'o \<Rightarrow> 'o obj_map \<Rightarrow> (api_reason + unit) \<times> 'o obj_map" where
  "sem_delete kd t x m =
     (case m (key_of kd x) of
        None \<Rightarrow> (Inl NotFound, m)
      | Some s \<Rightarrow>
          (if om_finalizers (kd_meta kd s) = [] then (Inr (), m(key_of kd x := None))
           else (Inr (), m(key_of kd x \<mapsto>
             (if om_deletion (kd_meta kd s) = None
              then kd_with_meta kd ((kd_meta kd s)\<lparr>om_deletion := Some t\<rparr>) s else s)))))"

definition has_labels :: "(string, string) gomap \<Rightarrow> object_meta \<Rightarrow> bool" where
  "has_labels ls m \<longleftrightarrow> list_all (\<lambda>(k, v). gm_get (om_labels m) k = Some v) ls"

text \<open>A list has, in some order, the objects of the namespace that carry the labels.\<close>

definition lists :: "'o kind \<Rightarrow> string \<Rightarrow> (string, string) gomap \<Rightarrow> 'o obj_map \<Rightarrow> 'o list \<Rightarrow> bool" where
  "lists kd ns ls m xs \<longleftrightarrow> distinct xs \<and>
     (\<forall>x. x \<in> set xs \<longleftrightarrow> (\<exists>k. m k = Some x \<and> fst k = ns \<and> has_labels ls (kd_meta kd x)))"

section \<open>The client\<close>

record ('w, 'o) client =
  cl_get :: "obj_key \<Rightarrow> 'w \<Rightarrow> (api_error + 'o) \<times> 'w"
  cl_list :: "string \<Rightarrow> (string, string) gomap \<Rightarrow> 'w \<Rightarrow> (api_error + 'o list) \<times> 'w"
  cl_create :: "'o \<Rightarrow> 'w \<Rightarrow> (api_error + 'o) \<times> 'w"
  cl_update :: "'o \<Rightarrow> 'w \<Rightarrow> (api_error + 'o) \<times> 'w"
  cl_update_status :: "'o \<Rightarrow> 'w \<Rightarrow> (api_error + 'o) \<times> 'w"
  cl_delete :: "'o \<Rightarrow> 'w \<Rightarrow> (api_error + unit) \<times> 'w"

text \<open>What is stored of each kind.\<close>

record obj_store =
  os_vms :: "virtual_machine obj_map"
  os_ops :: "vm_operation obj_map"
  os_snaps :: "vm_snapshot obj_map"
  os_scheds :: "vm_backup_schedule obj_map"
  os_pods :: "pod obj_map"
  os_pvcs :: "pvc obj_map"
  os_policies :: "migration_policy obj_map"

record 'w kube =
  kb_vm :: "('w, virtual_machine) client"
  kb_op :: "('w, vm_operation) client"
  kb_snap :: "('w, vm_snapshot) client"
  kb_sched :: "('w, vm_backup_schedule) client"
  kb_pod :: "('w, pod) client"
  kb_pvc :: "('w, pvc) client"
  kb_policy :: "('w, migration_policy) client"

fun same_result :: "api_error + 'a \<Rightarrow> api_reason + 'a \<Rightarrow> bool" where
  "same_result (Inl e) (Inl r) \<longleftrightarrow> ae_reason e = r"
| "same_result (Inr x) (Inr y) \<longleftrightarrow> x = y"
| "same_result _ _ \<longleftrightarrow> False"

text \<open>
  A call performs its meaning, or fails for some other reason: then it may have had its effect,
  when only the answer was lost, or not.
\<close>

definition performs ::
  "bool \<Rightarrow> (api_error + 'a) \<Rightarrow> 's \<Rightarrow> 's \<Rightarrow> (api_reason + 'a) \<times> 's \<Rightarrow> bool" where
  "performs reliable r before after spec \<longleftrightarrow>
     (same_result r (fst spec) \<and> after = snd spec) \<or>
     (\<not> reliable \<and> (\<exists>e. r = Inl e \<and> ae_reason e = OtherReason) \<and> (after = before \<or> after = snd spec))"

text \<open>\<open>get\<close> and \<open>put\<close> select the kind's objects in the store; the other kinds stay as they are.\<close>

definition client_laws ::
  "bool \<Rightarrow> ('w \<Rightarrow> obj_store) \<Rightarrow> 'o kind \<Rightarrow> (obj_store \<Rightarrow> 'o obj_map) \<Rightarrow> ('o obj_map \<Rightarrow> obj_store \<Rightarrow> obj_store) \<Rightarrow>
   ('w, 'o) client \<Rightarrow> bool" where
  "client_laws reliable view kd get put C \<longleftrightarrow>
     (\<forall>w k r w'. cl_get C k w = (r, w') \<longrightarrow>
        performs reliable r (view w) (view w') (sem_get k (get (view w)), view w)) \<and>
     (\<forall>w ns ls r w'. cl_list C ns ls w = (r, w') \<longrightarrow> view w' = view w \<and>
        (case r of Inl e \<Rightarrow> \<not> reliable | Inr xs \<Rightarrow> lists kd ns ls (get (view w)) xs)) \<and>
     (\<forall>w x r w'. cl_create C x w = (r, w') \<longrightarrow>
        (\<exists>t. performs reliable r (view w) (view w') (apsnd (\<lambda>m. put m (view w)) (sem_create kd t x (get (view w)))))) \<and>
     (\<forall>w x r w'. cl_update C x w = (r, w') \<longrightarrow>
        performs reliable r (view w) (view w') (apsnd (\<lambda>m. put m (view w)) (sem_update kd x (get (view w))))) \<and>
     (\<forall>w x r w'. cl_update_status C x w = (r, w') \<longrightarrow>
        performs reliable r (view w) (view w') (apsnd (\<lambda>m. put m (view w)) (sem_update_status kd x (get (view w))))) \<and>
     (\<forall>w x r w'. cl_delete C x w = (r, w') \<longrightarrow>
        (\<exists>t. performs reliable r (view w) (view w') (apsnd (\<lambda>m. put m (view w)) (sem_delete kd t x (get (view w))))))"

definition kube_laws :: "bool \<Rightarrow> ('w \<Rightarrow> obj_store) \<Rightarrow> 'w kube \<Rightarrow> bool" where
  "kube_laws reliable view K \<longleftrightarrow>
     client_laws reliable view vm_kind os_vms (\<lambda>m s. s\<lparr>os_vms := m\<rparr>) (kb_vm K) \<and>
     client_laws reliable view op_kind os_ops (\<lambda>m s. s\<lparr>os_ops := m\<rparr>) (kb_op K) \<and>
     client_laws reliable view snap_kind os_snaps (\<lambda>m s. s\<lparr>os_snaps := m\<rparr>) (kb_snap K) \<and>
     client_laws reliable view sched_kind os_scheds (\<lambda>m s. s\<lparr>os_scheds := m\<rparr>) (kb_sched K) \<and>
     client_laws reliable view pod_kind os_pods (\<lambda>m s. s\<lparr>os_pods := m\<rparr>) (kb_pod K) \<and>
     client_laws reliable view pvc_kind os_pvcs (\<lambda>m s. s\<lparr>os_pvcs := m\<rparr>) (kb_pvc K) \<and>
     client_laws reliable view policy_kind os_policies (\<lambda>m s. s\<lparr>os_policies := m\<rparr>) (kb_policy K)"

section \<open>Consequences\<close>

text \<open>Every object is stored under its own key.\<close>

definition keyed :: "'o kind \<Rightarrow> 'o obj_map \<Rightarrow> bool" where
  "keyed kd m \<longleftrightarrow> (\<forall>k x. m k = Some x \<longrightarrow> key_of kd x = k)"

declare split_paired_All [simp del] split_paired_Ex [simp del]

lemma keyedD: "keyed kd m \<Longrightarrow> m k = Some x \<Longrightarrow> key_of kd x = k"
  by (simp add: keyed_def)

lemma keyed_store [simp]: "keyed kd m \<Longrightarrow> key_of kd x = k \<Longrightarrow> keyed kd (m(k \<mapsto> x))"
  by (auto simp: keyed_def)

lemma keyed_unstore [simp]: "keyed kd m \<Longrightarrow> keyed kd (m(k := None))"
  by (auto simp: keyed_def)

lemma kube_lawsD:
  assumes "kube_laws reliable view K"
  shows "client_laws reliable view vm_kind os_vms (\<lambda>m s. s\<lparr>os_vms := m\<rparr>) (kb_vm K)"
    and "client_laws reliable view op_kind os_ops (\<lambda>m s. s\<lparr>os_ops := m\<rparr>) (kb_op K)"
    and "client_laws reliable view snap_kind os_snaps (\<lambda>m s. s\<lparr>os_snaps := m\<rparr>) (kb_snap K)"
    and "client_laws reliable view sched_kind os_scheds (\<lambda>m s. s\<lparr>os_scheds := m\<rparr>) (kb_sched K)"
    and "client_laws reliable view pod_kind os_pods (\<lambda>m s. s\<lparr>os_pods := m\<rparr>) (kb_pod K)"
    and "client_laws reliable view pvc_kind os_pvcs (\<lambda>m s. s\<lparr>os_pvcs := m\<rparr>) (kb_pvc K)"
    and "client_laws reliable view policy_kind os_policies (\<lambda>m s. s\<lparr>os_policies := m\<rparr>) (kb_policy K)"
  using assms unfolding kube_laws_def by blast+

text \<open>The laws call by call, for use as destruction rules.\<close>

lemma client_performs:
  assumes "client_laws reliable view kd get put C"
  shows "cl_get C k w = (r, w') \<Longrightarrow> performs reliable r (view w) (view w') (sem_get k (get (view w)), view w)"
    and "cl_list C ns ls w = (r', w') \<Longrightarrow> view w' = view w \<and>
        (case r' of Inl e \<Rightarrow> \<not> reliable | Inr xs \<Rightarrow> lists kd ns ls (get (view w)) xs)"
    and "cl_create C x w = (r, w') \<Longrightarrow>
        \<exists>t. performs reliable r (view w) (view w') (apsnd (\<lambda>m. put m (view w)) (sem_create kd t x (get (view w))))"
    and "cl_update C x w = (r, w') \<Longrightarrow>
        performs reliable r (view w) (view w') (apsnd (\<lambda>m. put m (view w)) (sem_update kd x (get (view w))))"
    and "cl_update_status C x w = (r, w') \<Longrightarrow>
        performs reliable r (view w) (view w') (apsnd (\<lambda>m. put m (view w)) (sem_update_status kd x (get (view w))))"
    and "cl_delete C x w = (r'', w') \<Longrightarrow>
        \<exists>t. performs reliable r'' (view w) (view w') (apsnd (\<lambda>m. put m (view w)) (sem_delete kd t x (get (view w))))"
  using assms unfolding client_laws_def by - fast+

lemma performs_error: "performs reliable (Inl e) b a (Inr y, a') \<Longrightarrow> \<not> reliable \<and> (a = b \<or> a = a')"
  by (auto simp: performs_def)

lemma performs_value: "performs reliable (Inr x) b a (r, a') \<Longrightarrow> r = Inr x \<and> a = a'"
  by (cases r) (auto simp: performs_def)

lemma get_stored:
  assumes "client_laws reliable view kd get put C" and "cl_get C k w = (r, w')"
  shows "view w' = view w" and "r = Inr x \<Longrightarrow> get (view w) k = Some x"
    and "r = Inl e \<Longrightarrow> ae_reason e = NotFound \<Longrightarrow> get (view w) k = None"
    and "r = Inl e \<Longrightarrow> reliable \<Longrightarrow> get (view w) k = None \<and> ae_reason e = NotFound"
  using client_performs(1) [OF assms]
  by (auto simp: performs_def sem_get_def split: option.splits)

text \<open>No call on one kind changes the objects of another.\<close>

lemma other_kinds_kept:
  assumes "client_laws reliable view kd get put C" and "\<And>m s. look (put m s) = look s"
  shows "cl_get C k w = (r, w') \<Longrightarrow> look (view w') = look (view w)"
    and "cl_create C x w = (r, w') \<Longrightarrow> look (view w') = look (view w)"
    and "cl_update C x w = (r, w') \<Longrightarrow> look (view w') = look (view w)"
    and "cl_update_status C x w = (r, w') \<Longrightarrow> look (view w') = look (view w)"
    and "cl_delete C x w = (r'', w') \<Longrightarrow> look (view w') = look (view w)"
proof -
  have p: "performs reliable r (view w) (view w') (apsnd (\<lambda>m. put m (view w)) spec) \<Longrightarrow>
      look (view w') = look (view w)" for spec :: "(api_reason + 'x) \<times> _" and r
    using assms(2) by (auto simp: performs_def)
  show "cl_get C k w = (r, w') \<Longrightarrow> look (view w') = look (view w)"
    using get_stored(1) [OF assms(1)] by metis
  show "cl_create C x w = (r, w') \<Longrightarrow> look (view w') = look (view w)"
    "cl_update C x w = (r, w') \<Longrightarrow> look (view w') = look (view w)"
    "cl_update_status C x w = (r, w') \<Longrightarrow> look (view w') = look (view w)"
    using client_performs(3-5) [OF assms(1)] p by blast+
  show "cl_delete C x w = (r'', w') \<Longrightarrow> look (view w') = look (view w)"
    using client_performs(6) [OF assms(1), of x w r'' w'] assms(2) by (auto simp: performs_def)
qed


section \<open>Calls that succeed\<close>

lemma reliable_performs: "performs True r b a (Inr x, a') \<Longrightarrow> r = Inr x \<and> a = a'"
  by (cases r) (auto simp: performs_def)

lemma reliable_fails: "performs True r b a (Inl e, a') \<Longrightarrow> (\<exists>e'. r = Inl e' \<and> ae_reason e' = e) \<and> a = a'"
  by (cases r) (auto simp: performs_def)

lemma reliable_get:
  assumes "client_laws True view kd get put C"
  shows "get (view w) k = Some x \<Longrightarrow> \<exists>w'. cl_get C k w = (Inr x, w') \<and> view w' = view w"
    and "get (view w) k = None \<Longrightarrow> \<exists>e w'. cl_get C k w = (Inl e, w') \<and> ae_reason e = NotFound \<and> view w' = view w"
proof -
  obtain r w' where g: "cl_get C k w = (r, w')" by fastforce
  note p = client_performs(1) [OF assms g]
  show "get (view w) k = Some x \<Longrightarrow> \<exists>w'. cl_get C k w = (Inr x, w') \<and> view w' = view w"
    using p g by (auto simp: sem_get_def dest!: reliable_performs)
  show "get (view w) k = None \<Longrightarrow> \<exists>e w'. cl_get C k w = (Inl e, w') \<and> ae_reason e = NotFound \<and> view w' = view w"
    using p g by (auto simp: sem_get_def dest!: reliable_fails)
qed

lemma reliable_update_status:
  assumes "client_laws True view kd get put C" and "get (view w) (key_of kd x) = Some s"
  shows "\<exists>w'. cl_update_status C x w = (Inr (kd_with_status kd s x), w') \<and>
    view w' = put ((get (view w))(key_of kd x \<mapsto> kd_with_status kd s x)) (view w)"
proof -
  obtain r w' where g: "cl_update_status C x w = (r, w')" by fastforce
  show ?thesis using client_performs(5) [OF assms(1) g] assms(2) g
    by (auto simp: sem_update_status_def Let_def dest!: reliable_performs)
qed

text \<open>An update of an object that is not being deleted.\<close>

definition stored_meta :: "object_meta \<Rightarrow> object_meta \<Rightarrow> object_meta" where
  "stored_meta m s = m\<lparr>om_created := om_created s, om_deletion := om_deletion s\<rparr>"

lemma reliable_update:
  assumes "client_laws True view kd get put C" and "get (view w) (key_of kd x) = Some s"
    and "om_deletion (kd_meta kd s) = None"
    and "x' = kd_with_status kd (kd_with_meta kd (stored_meta (kd_meta kd x) (kd_meta kd s)) x) s"
  shows "\<exists>w'. cl_update C x w = (Inr x', w') \<and> view w' = put ((get (view w))(key_of kd x \<mapsto> x')) (view w)"
proof -
  obtain r w' where g: "cl_update C x w = (r, w')" by fastforce
  have "sem_update kd x (get (view w)) = (Inr x', (get (view w))(key_of kd x \<mapsto> x'))"
    using assms(2-4) by (simp add: sem_update_def Let_def stored_meta_def)
  then show ?thesis using client_performs(4) [OF assms(1) g] g by (auto dest!: reliable_performs)
qed

lemma reliable_create:
  assumes "client_laws True view kd get put C" and "get (view w) (key_of kd x) = None"
  shows "\<exists>t w' x'. x' = kd_no_status kd (kd_with_meta kd ((kd_meta kd x)\<lparr>om_created := t, om_deletion := None\<rparr>) x) \<and>
    cl_create C x w = (Inr x', w') \<and> view w' = put ((get (view w))(key_of kd x \<mapsto> x')) (view w)"
proof -
  obtain r w' where g: "cl_create C x w = (r, w')" by fastforce
  show ?thesis using client_performs(3) [OF assms(1) g] assms(2) g
    by (fastforce simp: sem_create_def Let_def dest!: reliable_performs)
qed

lemma reliable_delete:
  assumes "client_laws True view kd get put C" and "get (view w) (key_of kd x) = Some s"
  shows "\<exists>t w'. cl_delete C x w = (Inr (), w') \<and> view w' = put (snd (sem_delete kd t x (get (view w)))) (view w)"
proof -
  obtain r w' where g: "cl_delete C x w = (r, w')" by fastforce
  have d: "sem_delete kd t x (get (view w)) = (Inr (), snd (sem_delete kd t x (get (view w))))" for t
    using assms(2) by (simp add: sem_delete_def)
  obtain t where "performs True r (view w) (view w') (apsnd (\<lambda>m. put m (view w)) (sem_delete kd t x (get (view w))))"
    using client_performs(6) [OF assms(1) g] by blast
  then have "performs True r (view w) (view w') (Inr (), put (snd (sem_delete kd t x (get (view w)))) (view w))"
    by (subst (asm) d) simp
  then show ?thesis using g by (auto dest!: reliable_performs)
qed

lemma reliable_list:
  assumes "client_laws True view kd get put C"
  shows "\<exists>xs w'. cl_list C ns ls w = (Inr xs, w') \<and> view w' = view w \<and> lists kd ns ls (get (view w)) xs"
proof -
  obtain r w' where g: "cl_list C ns ls w = (r, w')" by fastforce
  show ?thesis using client_performs(2) [OF assms g] g by (cases r) auto
qed

section \<open>What calls keep, whatever they answer\<close>

text \<open>The parts of an object are independent, and only its metadata say where it is stored.\<close>

definition kind_ok :: "'o kind \<Rightarrow> bool" where
  "kind_ok kd \<longleftrightarrow> (\<forall>x s. kd_meta kd (kd_with_status kd x s) = kd_meta kd x) \<and> (\<forall>m x. kd_meta kd (kd_with_meta kd m x) = m) \<and>
     (\<forall>x. kd_meta kd (kd_no_status kd x) = kd_meta kd x)"

lemma kinds_ok [simp]: "kind_ok vm_kind" "kind_ok op_kind" "kind_ok snap_kind" "kind_ok sched_kind" "kind_ok pod_kind" "kind_ok pvc_kind"
  "kind_ok policy_kind"
  by (simp_all add: kind_ok_def)

text \<open>A property of objects that depends on their status only.\<close>

definition of_status :: "'o kind \<Rightarrow> ('o \<Rightarrow> bool) \<Rightarrow> bool" where
  "of_status kd P \<longleftrightarrow> (\<forall>x s. P (kd_with_status kd x s) = P s) \<and> (\<forall>m x. P (kd_with_meta kd m x) = P x)"

text \<open>Compared with \<open>m0\<close> only the object under \<open>k\<close> may have changed, and if it is there it has \<open>P\<close>.\<close>

definition obj_kept :: "'o kind \<Rightarrow> ('o \<Rightarrow> bool) \<Rightarrow> obj_key \<Rightarrow> 'o obj_map \<Rightarrow> 'o obj_map \<Rightarrow> bool" where
  "obj_kept kd P k m0 m \<longleftrightarrow> keyed kd m \<and> (\<forall>k'. k' \<noteq> k \<longrightarrow> m k' = m0 k') \<and> (\<forall>y. m k = Some y \<longrightarrow> P y)"

lemma obj_kept_cases: "obj_kept kd P k m0 m \<Longrightarrow> m' = m \<or> m' = m(k := None) \<or> (\<exists>y. m' = m(k \<mapsto> y) \<and> key_of kd y = k \<and> P y) \<Longrightarrow>
    obj_kept kd P k m0 m'"
  by (auto simp: obj_kept_def)

lemma sem_kept:
  assumes "kind_ok kd" and "of_status kd P" and "obj_kept kd P k m0 m" and "key_of kd x = k"
  shows "obj_kept kd P k m0 (snd (sem_update kd x m))"
    and "obj_kept kd P k m0 (snd (sem_delete kd t x m))"
    and "P x \<Longrightarrow> obj_kept kd P k m0 (snd (sem_update_status kd x m))"
proof -
  have st: "m k = Some s \<Longrightarrow> key_of kd s = k \<and> P s" for s using assms(3) by (auto simp: obj_kept_def keyed_def)
  show "obj_kept kd P k m0 (snd (sem_update kd x m))"
    by (rule obj_kept_cases [OF assms(3)])
      (use assms(1,2,4) st in \<open>auto simp: sem_update_def Let_def kind_ok_def of_status_def key_of_def split: option.splits\<close>)
  show "obj_kept kd P k m0 (snd (sem_delete kd t x m))"
    by (rule obj_kept_cases [OF assms(3)])
      (use assms(1,2,4) st in \<open>auto simp: sem_delete_def Let_def kind_ok_def of_status_def key_of_def split: option.splits\<close>)
  show "P x \<Longrightarrow> obj_kept kd P k m0 (snd (sem_update_status kd x m))"
    by (rule obj_kept_cases [OF assms(3)])
      (use assms(1,2,4) st in \<open>auto simp: sem_update_status_def Let_def kind_ok_def of_status_def key_of_def split: option.splits\<close>)
qed

lemma performs_cases: "performs reliable r b a (apsnd (\<lambda>m. put m b) spec) \<Longrightarrow> a = b \<or> a = put (snd spec) b"
  by (auto simp: performs_def)

lemma call_effects:
  assumes "client_laws reliable view kd get put C"
  shows "cl_create C x w = (r, w') \<Longrightarrow> view w' = view w \<or> (\<exists>t. view w' = put (snd (sem_create kd t x (get (view w)))) (view w))"
    and "cl_update C x w = (r, w') \<Longrightarrow> view w' = view w \<or> view w' = put (snd (sem_update kd x (get (view w)))) (view w)"
    and "cl_update_status C x w = (r, w') \<Longrightarrow> view w' = view w \<or> view w' = put (snd (sem_update_status kd x (get (view w)))) (view w)"
    and "cl_delete C x w = (r', w') \<Longrightarrow> view w' = view w \<or> (\<exists>t. view w' = put (snd (sem_delete kd t x (get (view w)))) (view w))"
  using client_performs(3-6) [OF assms] by (metis performs_cases)+

lemma answers:
  assumes "client_laws reliable view kd get put C"
  shows "cl_update C x w = (Inr y, w') \<Longrightarrow> fst (sem_update kd x (get (view w))) = Inr y"
    and "cl_update_status C x w = (Inr y, w') \<Longrightarrow> fst (sem_update_status kd x (get (view w))) = Inr y"
    and "cl_create C x w = (Inr y, w') \<Longrightarrow> \<exists>t. fst (sem_create kd t x (get (view w))) = Inr y"
proof -
  have val: "performs reliable (Inr y) (view w) (view w') (apsnd f spec) \<Longrightarrow> fst spec = Inr y" for f :: "'o obj_map \<Rightarrow> _" and spec
    using performs_value [of reliable y "view w" "view w'" "fst spec" "f (snd spec)"] by (cases spec) simp
  show "cl_update C x w = (Inr y, w') \<Longrightarrow> fst (sem_update kd x (get (view w))) = Inr y"
    "cl_update_status C x w = (Inr y, w') \<Longrightarrow> fst (sem_update_status kd x (get (view w))) = Inr y"
    "cl_create C x w = (Inr y, w') \<Longrightarrow> \<exists>t. fst (sem_create kd t x (get (view w))) = Inr y"
    using client_performs(3-5) [OF assms] val by blast+
qed

lemma calls_kept:
  assumes "client_laws reliable view kd get put C" and "\<And>m s. get (put m s) = m" and "kind_ok kd" and "of_status kd P"
    and "obj_kept kd P k m0 (get (view w))" and "key_of kd x = k"
  shows "cl_update C x w = (r, w') \<Longrightarrow> obj_kept kd P k m0 (get (view w'))"
    and "cl_delete C x w = (r', w') \<Longrightarrow> obj_kept kd P k m0 (get (view w'))"
    and "cl_update_status C x w = (r, w') \<Longrightarrow> P x \<Longrightarrow> obj_kept kd P k m0 (get (view w'))"
  using client_performs(4-6) [OF assms(1)] sem_kept [OF assms(3-6)] assms(2,5)
  by (metis performs_cases)+

lemma updated_key:
  assumes "client_laws reliable view kd get put C" and "kind_ok kd" and "of_status kd P"
    and "obj_kept kd P k m0 (get (view w))" and "key_of kd x = k"
  shows "cl_update C x w = (Inr x', w') \<Longrightarrow> key_of kd x' = k \<and> P x'"
    and "cl_update_status C x w = (Inr x', w') \<Longrightarrow> P x \<Longrightarrow> key_of kd x' = k \<and> P x'"
proof -
  have st: "get (view w) k = Some s \<Longrightarrow> key_of kd s = k \<and> P s" for s using assms(4) by (auto simp: obj_kept_def keyed_def)
  have "fst (sem_update kd x (get (view w))) = Inr x' \<Longrightarrow> key_of kd x' = k \<and> P x'"
    using st assms(2,3,5) by (auto simp: sem_update_def Let_def kind_ok_def of_status_def key_of_def split: option.splits)
  then show "cl_update C x w = (Inr x', w') \<Longrightarrow> key_of kd x' = k \<and> P x'"
    using answers(1) [OF assms(1)] by blast
  have "fst (sem_update_status kd x (get (view w))) = Inr x' \<Longrightarrow> P x \<Longrightarrow> key_of kd x' = k \<and> P x'"
    using st assms(2,3,5) by (auto simp: sem_update_status_def Let_def kind_ok_def of_status_def key_of_def split: option.splits)
  then show "cl_update_status C x w = (Inr x', w') \<Longrightarrow> P x \<Longrightarrow> key_of kd x' = k \<and> P x'"
    using answers(2) [OF assms(1)] by blast
qed

end
