(* ===== verification/Kube_Sim.thy ===== *)
theory Kube_Sim
  imports Kube_Client
begin

text \<open>
  A concrete API over association lists, on which every call succeeds: it has the laws of
  \<open>Kube_Client\<close>, so that they can hold, and it evaluates, so that the controllers run on it.
\<close>

record kube_sim =
  ks_vms :: "(obj_key, virtual_machine) gomap"
  ks_ops :: "(obj_key, vm_operation) gomap"
  ks_snaps :: "(obj_key, vm_snapshot) gomap"
  ks_scheds :: "(obj_key, vm_backup_schedule) gomap"
  ks_pods :: "(obj_key, pod) gomap"
  ks_pvcs :: "(obj_key, pvc) gomap"
  ks_policies :: "(obj_key, migration_policy) gomap"

definition sim_view :: "kube_sim \<Rightarrow> obj_store" where
  "sim_view w = \<lparr>os_vms = gm_get (ks_vms w), os_ops = gm_get (ks_ops w), os_snaps = gm_get (ks_snaps w),
     os_scheds = gm_get (ks_scheds w), os_pods = gm_get (ks_pods w), os_pvcs = gm_get (ks_pvcs w),
     os_policies = gm_get (ks_policies w)\<rparr>"

definition no_objects :: kube_sim where
  "no_objects = \<lparr>ks_vms = [], ks_ops = [], ks_snaps = [], ks_scheds = [], ks_pods = [], ks_pvcs = [],
     ks_policies = []\<rparr>"

text \<open>The clock of the server stands at 1.\<close>

definition sim_clock :: instant where "sim_clock = 1"

fun sim_answer :: "api_reason + 'a \<Rightarrow> api_error + 'a" where
  "sim_answer (Inl r) = Inl \<lparr>ae_reason = r, ae_text = []\<rparr>"
| "sim_answer (Inr x) = Inr x"

text \<open>Writing the meaning of a call back: only the object under its key may have changed.\<close>

definition sim_put :: "obj_key \<Rightarrow> 'o obj_map \<Rightarrow> (obj_key, 'o) gomap \<Rightarrow> (obj_key, 'o) gomap" where
  "sim_put k m l = (case m k of None \<Rightarrow> gm_del k l | Some x \<Rightarrow> gm_put k x l)"

definition sim_call ::
  "(kube_sim \<Rightarrow> (obj_key, 'o) gomap) \<Rightarrow> ((obj_key, 'o) gomap \<Rightarrow> kube_sim \<Rightarrow> kube_sim) \<Rightarrow> obj_key \<Rightarrow>
   ('o obj_map \<Rightarrow> (api_reason + 'a) \<times> 'o obj_map) \<Rightarrow> kube_sim \<Rightarrow> (api_error + 'a) \<times> kube_sim" where
  "sim_call get put k f w =
     (case f (gm_get (get w)) of (r, m) \<Rightarrow> (sim_answer r, put (sim_put k m (get w)) w))"

definition sim_list :: "'o kind \<Rightarrow> string \<Rightarrow> (string, string) gomap \<Rightarrow> (obj_key, 'o) gomap \<Rightarrow> 'o list" where
  "sim_list kd ns ls l = remdups (map snd (filter
     (\<lambda>(k, x). gm_get l k = Some x \<and> fst k = ns \<and> has_labels ls (kd_meta kd x)) l))"

definition sim_client ::
  "'o kind \<Rightarrow> (kube_sim \<Rightarrow> (obj_key, 'o) gomap) \<Rightarrow> ((obj_key, 'o) gomap \<Rightarrow> kube_sim \<Rightarrow> kube_sim) \<Rightarrow>
   (kube_sim, 'o) client" where
  "sim_client kd get put =
     \<lparr>cl_get = (\<lambda>k w. (sim_answer (sem_get k (gm_get (get w))), w)),
      cl_list = (\<lambda>ns ls w. (Inr (sim_list kd ns ls (get w)), w)),
      cl_create = (\<lambda>x. sim_call get put (key_of kd x) (sem_create kd sim_clock x)),
      cl_update = (\<lambda>x. sim_call get put (key_of kd x) (sem_update kd x)),
      cl_update_status = (\<lambda>x. sim_call get put (key_of kd x) (sem_update_status kd x)),
      cl_delete = (\<lambda>x. sim_call get put (key_of kd x) (sem_delete kd sim_clock x))\<rparr>"

definition sim_kube :: "kube_sim kube" where
  "sim_kube =
     \<lparr>kb_vm = sim_client vm_kind ks_vms (\<lambda>l w. w\<lparr>ks_vms := l\<rparr>),
      kb_op = sim_client op_kind ks_ops (\<lambda>l w. w\<lparr>ks_ops := l\<rparr>),
      kb_snap = sim_client snap_kind ks_snaps (\<lambda>l w. w\<lparr>ks_snaps := l\<rparr>),
      kb_sched = sim_client sched_kind ks_scheds (\<lambda>l w. w\<lparr>ks_scheds := l\<rparr>),
      kb_pod = sim_client pod_kind ks_pods (\<lambda>l w. w\<lparr>ks_pods := l\<rparr>),
      kb_pvc = sim_client pvc_kind ks_pvcs (\<lambda>l w. w\<lparr>ks_pvcs := l\<rparr>),
      kb_policy = sim_client policy_kind ks_policies (\<lambda>l w. w\<lparr>ks_policies := l\<rparr>)\<rparr>"

section \<open>The laws\<close>

lemma same_result_sim [simp]: "same_result (sim_answer r) r"
  by (cases r) simp_all

lemma sim_performs: "performs True (sim_answer r) b a (r, a)"
  by (simp add: performs_def)

lemma sim_list_lists: "lists kd ns ls (gm_get l) (sim_list kd ns ls l)"
  by (force simp: lists_def sim_list_def image_iff dest: map_of_SomeD)

text \<open>A call changes at most the object under its key.\<close>

definition changes_only :: "obj_key \<Rightarrow> ('o obj_map \<Rightarrow> 'r \<times> 'o obj_map) \<Rightarrow> bool" where
  "changes_only k f \<longleftrightarrow> (\<forall>m k'. k' \<noteq> k \<longrightarrow> snd (f m) k' = m k')"

lemma sem_changes_only [simp]:
  "changes_only (key_of kd x) (sem_create kd t x)" "changes_only (key_of kd x) (sem_update kd x)"
  "changes_only (key_of kd x) (sem_update_status kd x)" "changes_only (key_of kd x) (sem_delete kd t x)"
  by (auto simp: changes_only_def sem_create_def sem_update_def sem_update_status_def sem_delete_def Let_def
      split: option.splits)

lemma sim_put_get: "changes_only k f \<Longrightarrow> gm_get (sim_put k (snd (f (gm_get l))) l) = snd (f (gm_get l))"
  by (rule ext, rename_tac k', case_tac "k' = k")
    (auto simp: sim_put_def changes_only_def map_ops split: option.splits)

lemma sim_call_performs:
  assumes "sim_call get put k f w = (r, w')" and "changes_only k f"
    and "\<And>l. view (put l w) = vput (gm_get l) (view w)"
  shows "performs True r (view w) (view w') (apsnd (\<lambda>m. vput m (view w)) (f (gm_get (get w))))"
  using assms sim_put_get [OF assms(2), of "get w"]
  by (auto simp: sim_call_def performs_def split: prod.splits)

lemma sim_client_laws:
  assumes "\<And>w. vget (view w) = gm_get (get w)" and "\<And>l w. view (put l w) = vput (gm_get l) (view w)"
  shows "client_laws True view kd vget vput (sim_client kd get put)"
  unfolding client_laws_def using assms
  by (auto simp: sim_client_def sim_performs sim_list_lists intro!: exI [of _ sim_clock] sim_call_performs)

lemma sim_kube_laws: "kube_laws True sim_view sim_kube"
  unfolding kube_laws_def by (auto simp: sim_kube_def sim_view_def intro!: sim_client_laws)

section \<open>A machine\<close>

definition demo_vm :: virtual_machine where
  "demo_vm = \<lparr>vm_meta = plain_meta ''web'' ''prod'' [],
     vm_spec_of = \<lparr>vs_cpus = 2, vs_memory = ''4Gi'', vs_gpus = [], vs_usb_devices = [], vs_disks = [], vs_networks = [],
       vs_image = None, vs_cloud_init = None, vs_running = True, vs_node_selector = [], vs_affinity = None,
       vs_tolerations = [], vs_carbon_aware = None, vs_machine_type = [], vs_firmware = None,
       vs_guest_agent = None, vs_high_availability = None, vs_labels = [], vs_annotations = []\<rparr>,
     vm_status_of = no_vm_status\<rparr>"

definition demo_vms :: kube_sim where
  "demo_vms = no_objects\<lparr>ks_vms := [((''prod'', ''web''), demo_vm)]\<rparr>"

lemma demo_vm_simps [simp]:
  "vm_meta demo_vm = plain_meta ''web'' ''prod'' []" "vm_status_of demo_vm = no_vm_status"
  "key_of vm_kind demo_vm = (''prod'', ''web'')"
  by (simp_all add: demo_vm_def key_of_def plain_meta_def)

end
