(* ===== verification/Vm_Operation.thy ===== *)
theory Vm_Operation
  imports Kube_Sim
begin

text \<open>
  \<open>pkg/operator/controllers/vmoperation_controller.go\<close>: the controller that carries out operations
  on virtual machines.  The client of the API, the clock and JSON encoding are parameters.
\<close>

section \<open>Results and parameters\<close>

text \<open>\<open>ctrl.Result\<close>: when to look again, 0 for not at all.\<close>

type_synonym ctrl_result = duration

definition nothing_more :: ctrl_result where "nothing_more = 0"

text \<open>A length as an \<open>int32\<close> of a status.\<close>

definition clamp_int32 :: "int \<Rightarrow> int" where
  "clamp_int32 n = (if n > 2147483647 then 2147483647 else if n < 0 then 0 else n)"

datatype result_value = RText string | RInt int | RBool bool

record op_env =
  oe_now :: instant
  oe_json :: "(string \<times> result_value) list \<Rightarrow> string"

definition vm_op_finalizer :: string where
  "vm_op_finalizer = ''transiva.zyvor.ai/vmoperation-finalizer''"

definition add_finalizer :: "string \<Rightarrow> object_meta \<Rightarrow> object_meta" where
  "add_finalizer f m = (if f \<in> set (om_finalizers m) then m else m\<lparr>om_finalizers := om_finalizers m @ [f]\<rparr>)"

definition remove_finalizer :: "string \<Rightarrow> object_meta \<Rightarrow> object_meta" where
  "remove_finalizer f m = m\<lparr>om_finalizers := removeAll f (om_finalizers m)\<rparr>"

section \<open>Steps\<close>

text \<open>
  A step works on the operation in memory and ends with an error or without; the operation keeps
  what was set before an error.  A successful status update replaces it by the server's answer.
\<close>

fun and_then ::
  "api_error option \<times> 'x \<times> 'w \<Rightarrow> ('x \<Rightarrow> 'w \<Rightarrow> api_error option \<times> 'x \<times> 'w) \<Rightarrow> api_error option \<times> 'x \<times> 'w" where
  "and_then (Some e, x, w) f = (Some e, x, w)"
| "and_then (None, x, w) f = f x w"

definition save_op :: "'w kube \<Rightarrow> vm_operation \<Rightarrow> 'w \<Rightarrow> api_error option \<times> vm_operation \<times> 'w" where
  "save_op K x w =
     (case cl_update_status (kb_op K) x w of
        (Inl e, w) \<Rightarrow> (Some e, x, w)
      | (Inr x', w) \<Rightarrow> (None, x', w))"

definition report :: "int \<Rightarrow> string \<Rightarrow> vm_operation \<Rightarrow> vm_operation" where
  "report p msg x = x\<lparr>vo_status := (vo_status x)\<lparr>ot_progress := p, ot_message := msg\<rparr>\<rparr>"

definition set_message :: "string \<Rightarrow> vm_operation \<Rightarrow> vm_operation" where
  "set_message msg x = x\<lparr>vo_status := (vo_status x)\<lparr>ot_message := msg\<rparr>\<rparr>"

definition set_progress :: "int \<Rightarrow> vm_operation \<Rightarrow> vm_operation" where
  "set_progress p x = x\<lparr>vo_status := (vo_status x)\<lparr>ot_progress := p\<rparr>\<rparr>"

definition set_result :: "string \<Rightarrow> vm_operation \<Rightarrow> vm_operation" where
  "set_result r x = x\<lparr>vo_status := (vo_status x)\<lparr>ot_progress := 100, ot_result := r\<rparr>\<rparr>"

definition ref_key :: "object_meta \<Rightarrow> vm_reference \<Rightarrow> obj_key" where
  "ref_key m r = ((if vr_namespace r = [] then om_namespace m else vr_namespace r), vr_name r)"

text \<open>The call \<open>getVM\<close>; its error ends the step that made it.\<close>

definition with_op_vm ::
  "'w kube \<Rightarrow> vm_operation \<Rightarrow> 'w \<Rightarrow> (virtual_machine \<Rightarrow> 'w \<Rightarrow> api_error option \<times> vm_operation \<times> 'w) \<Rightarrow>
   api_error option \<times> vm_operation \<times> 'w" where
  "with_op_vm K x w f =
     (case cl_get (kb_vm K) (ref_key (vo_meta x) (os_vm_ref (vo_spec x))) w of
        (Inl e, w) \<Rightarrow> (Some e, x, w)
      | (Inr vm, w) \<Rightarrow> f vm w)"

definition update_vm ::
  "'w kube \<Rightarrow> virtual_machine \<Rightarrow> vm_operation \<Rightarrow> 'w \<Rightarrow> api_error option \<times> vm_operation \<times> 'w" where
  "update_vm K vm x w =
     (case cl_update (kb_vm K) vm w of (Inl e, w) \<Rightarrow> (Some e, x, w) | (Inr vm', w) \<Rightarrow> (None, x, w))"

definition set_running :: "bool \<Rightarrow> virtual_machine \<Rightarrow> virtual_machine" where
  "set_running b vm = vm\<lparr>vm_spec_of := (vm_spec_of vm)\<lparr>vs_running := b\<rparr>\<rparr>"

section \<open>The operations\<close>

definition execute_power ::
  "bool \<Rightarrow> 'w kube \<Rightarrow> vm_operation \<Rightarrow> 'w \<Rightarrow> api_error option \<times> vm_operation \<times> 'w" where
  "execute_power b K x w =
     with_op_vm K x w (\<lambda>vm w. and_then (update_vm K (set_running b vm) x w) (\<lambda>x w. (None, set_progress 100 x, w)))"

definition execute_start :: "'w kube \<Rightarrow> vm_operation \<Rightarrow> 'w \<Rightarrow> api_error option \<times> vm_operation \<times> 'w" where
  "execute_start = execute_power True"

definition execute_stop :: "'w kube \<Rightarrow> vm_operation \<Rightarrow> 'w \<Rightarrow> api_error option \<times> vm_operation \<times> 'w" where
  "execute_stop = execute_power False"

definition execute_restart :: "'w kube \<Rightarrow> vm_operation \<Rightarrow> 'w \<Rightarrow> api_error option \<times> vm_operation \<times> 'w" where
  "execute_restart K x w =
     and_then (save_op K (report 50 ''Stopping VM...'' x) w) (\<lambda>x w.
     and_then (execute_stop K x w) (\<lambda>x w.
     and_then (save_op K (report 75 ''Starting VM...'' x) w) (\<lambda>x w.
       execute_start K x w)))"

text \<open>
  The source of a clone, its specification and labels: the machine a snapshot was taken of, or
  the machine of the operation.
\<close>

definition clone_source ::
  "'w kube \<Rightarrow> clone_spec \<Rightarrow> vm_operation \<Rightarrow> 'w \<Rightarrow>
   (vm_spec \<Rightarrow> (string, string) gomap \<Rightarrow> vm_operation \<Rightarrow> 'w \<Rightarrow> api_error option \<times> vm_operation \<times> 'w) \<Rightarrow>
   api_error option \<times> vm_operation \<times> 'w" where
  "clone_source K c x w f =
     (if cs_snapshot_ref c \<noteq> []
      then and_then (save_op K (set_message ''Loading snapshot configuration...'' x) w) (\<lambda>x w.
        case cl_get (kb_snap K) (om_namespace (vo_meta x), cs_snapshot_ref c) w of
          (Inl e, w) \<Rightarrow> (Some (wrap_error ''failed to get snapshot'' e), x, w)
        | (Inr sn, w) \<Rightarrow>
            (let r = sp_vm_ref (sn_spec sn)
             in if vr_name r = [] then (Some (own_error ''snapshot does not reference a VM''), x, w)
                else case cl_get (kb_vm K) (vr_namespace r, vr_name r) w of
                       (Inl e, w) \<Rightarrow> (Some (wrap_error ''failed to get source VM from snapshot'' e), x, w)
                     | (Inr vm, w) \<Rightarrow> f (vm_spec_of vm) (om_labels (vm_meta vm)) x w))
      else with_op_vm K x w (\<lambda>vm w. f (vm_spec_of vm) (om_labels (vm_meta vm)) x w))"

definition clone_target ::
  "clone_spec \<Rightarrow> vm_operation \<Rightarrow> vm_spec \<Rightarrow> (string, string) gomap \<Rightarrow> virtual_machine" where
  "clone_target c x spec ls =
     (let ns = (if cs_target_namespace c = [] then om_namespace (vo_meta x) else cs_target_namespace c);
          run = (if cs_snapshot_ref c \<noteq> [] then cs_power_on_after c else cs_start_after_clone c)
      in \<lparr>vm_meta = plain_meta (cs_target_name c) ns ls, vm_spec_of = spec\<lparr>vs_running := run\<rparr>,
          vm_status_of = no_vm_status\<rparr>)"

definition execute_clone ::
  "op_env \<Rightarrow> 'w kube \<Rightarrow> vm_operation \<Rightarrow> 'w \<Rightarrow> api_error option \<times> vm_operation \<times> 'w" where
  "execute_clone env K x w =
     (case os_clone_spec (vo_spec x) of
        None \<Rightarrow> (Some (own_error ''clone spec is required for clone operation''), x, w)
      | Some c \<Rightarrow>
          clone_source K c x w (\<lambda>spec ls x w.
          and_then (save_op K (report 30 ''Cloning VM configuration...'' x) w) (\<lambda>x w.
          let target = clone_target c x spec ls
          in and_then (save_op K (report 60 ''Creating cloned VM...'' x) w) (\<lambda>x w.
             case cl_create (kb_vm K) target w of
               (Inl e, w) \<Rightarrow> (Some (wrap_error ''failed to create cloned VM'' e), x, w)
             | (Inr vm, w) \<Rightarrow>
                 (None, set_result (oe_json env [(''sourceSnapshot'', RText (cs_snapshot_ref c)),
                    (''targetNamespace'', RText (om_namespace (vm_meta vm))),
                    (''targetVM'', RText (om_name (vm_meta vm)))]) x, w)))))"

text \<open>\<open>Status().Update\<close> on the machine, whose answer replaces it in memory.\<close>

definition save_vm ::
  "'w kube \<Rightarrow> virtual_machine \<Rightarrow> vm_operation \<Rightarrow> 'w \<Rightarrow>
   (virtual_machine \<Rightarrow> 'w \<Rightarrow> api_error option \<times> vm_operation \<times> 'w) \<Rightarrow> api_error option \<times> vm_operation \<times> 'w" where
  "save_vm K vm x w f =
     (case cl_update_status (kb_vm K) vm w of (Inl e, w) \<Rightarrow> (Some e, x, w) | (Inr vm, w) \<Rightarrow> f vm w)"

definition set_vm_phase :: "vm_phase \<Rightarrow> virtual_machine \<Rightarrow> virtual_machine" where
  "set_vm_phase p vm = vm\<lparr>vm_status_of := (vm_status_of vm)\<lparr>vt_phase := p\<rparr>\<rparr>"

definition set_node :: "string \<Rightarrow> virtual_machine \<Rightarrow> virtual_machine" where
  "set_node n vm = vm\<lparr>vm_status_of := (vm_status_of vm)\<lparr>vt_node_name := n\<rparr>\<rparr>"

definition execute_migrate ::
  "op_env \<Rightarrow> 'w kube \<Rightarrow> vm_operation \<Rightarrow> 'w \<Rightarrow> api_error option \<times> vm_operation \<times> 'w" where
  "execute_migrate env K x w =
     (case os_migrate_spec (vo_spec x) of
        None \<Rightarrow> (Some (own_error ''migrate spec is required for migrate operation''), x, w)
      | Some m \<Rightarrow>
          with_op_vm K x w (\<lambda>vm w.
          and_then (save_op K (report 30 ''Preparing for migration...'' x) w) (\<lambda>x w.
          save_vm K (set_vm_phase vm_migrating vm) x w (\<lambda>vm w.
          and_then (save_op K (report 50 ''Migrating VM...'' x) w) (\<lambda>x w.
          let vm = set_node (ms_target_node m) vm
          in and_then (save_op K (report 90 ''Finalizing migration...'' x) w) (\<lambda>x w.
             save_vm K (set_vm_phase vm_running vm) x w (\<lambda>vm w.
               (None, set_result (oe_json env [(''live'', RBool (ms_live m)),
                  (''targetNode'', RText (ms_target_node m))]) x, w))))))))"

definition resized :: "resize_spec \<Rightarrow> virtual_machine \<Rightarrow> virtual_machine" where
  "resized r vm =
     (let s = vm_spec_of vm;
          s = (if 0 < rs_cpus r then s\<lparr>vs_cpus := rs_cpus r\<rparr> else s);
          s = (if rs_memory r \<noteq> [] then s\<lparr>vs_memory := rs_memory r\<rparr> else s)
      in vm\<lparr>vm_spec_of := s\<rparr>)"

definition execute_resize ::
  "op_env \<Rightarrow> 'w kube \<Rightarrow> vm_operation \<Rightarrow> 'w \<Rightarrow> api_error option \<times> vm_operation \<times> 'w" where
  "execute_resize env K x w =
     (case os_resize_spec (vo_spec x) of
        None \<Rightarrow> (Some (own_error ''resize spec is required for resize operation''), x, w)
      | Some r \<Rightarrow>
          with_op_vm K x w (\<lambda>vm w.
          and_then (save_op K (report 50 ''Resizing VM...'' x) w) (\<lambda>x w.
          case cl_update (kb_vm K) (resized r vm) w of
            (Inl e, w) \<Rightarrow> (Some e, x, w)
          | (Inr vm', w) \<Rightarrow>
              (None, set_result (oe_json env [(''hotplug'', RBool (rs_hotplug r)),
                 (''newCPUs'', RInt (vs_cpus (vm_spec_of vm'))), (''newMemory'', RText (vs_memory (vm_spec_of vm'))),
                 (''oldCPUs'', RInt (vs_cpus (vm_spec_of vm))), (''oldMemory'', RText (vs_memory (vm_spec_of vm)))]) x, w))))"

definition snapshot_of :: "snapshot_spec \<Rightarrow> virtual_machine \<Rightarrow> vm_snapshot" where
  "snapshot_of s vm =
     \<lparr>sn_meta = plain_meta (ss_name s) (om_namespace (vm_meta vm)) [(''vm'', om_name (vm_meta vm))],
      sn_spec = \<lparr>sp_vm_ref = \<lparr>vr_name = om_name (vm_meta vm), vr_namespace = om_namespace (vm_meta vm)\<rparr>,
        sp_include_memory = ss_include_memory s, sp_quiesce = ss_quiesce s,
        sp_description = ss_description s, sp_retention = None, sp_destination = None\<rparr>,
      sn_status = no_snapshot_status\<rparr>"

definition execute_snapshot ::
  "op_env \<Rightarrow> 'w kube \<Rightarrow> vm_operation \<Rightarrow> 'w \<Rightarrow> api_error option \<times> vm_operation \<times> 'w" where
  "execute_snapshot env K x w =
     (case os_snapshot_spec (vo_spec x) of
        None \<Rightarrow> (Some (own_error ''snapshot spec is required for snapshot operation''), x, w)
      | Some s \<Rightarrow>
          with_op_vm K x w (\<lambda>vm w.
          and_then (save_op K (report 30 ''Creating snapshot...'' x) w) (\<lambda>x w.
          case cl_create (kb_snap K) (snapshot_of s vm) w of
            (Inl e, w) \<Rightarrow> (Some (wrap_error ''failed to create snapshot'' e), x, w)
          | (Inr sn, w) \<Rightarrow>
              (None, set_result (oe_json env [(''includeMemory'', RBool (ss_include_memory s)),
                 (''snapshotName'', RText (om_name (sn_meta sn)))]) x, w))))"

definition execute_delete :: "'w kube \<Rightarrow> vm_operation \<Rightarrow> 'w \<Rightarrow> api_error option \<times> vm_operation \<times> 'w" where
  "execute_delete K x w =
     (case cl_get (kb_vm K) (ref_key (vo_meta x) (os_vm_ref (vo_spec x))) w of
        (Inl e, w) \<Rightarrow> (if ae_reason e = NotFound then (None, x, w) else (Some e, x, w))
      | (Inr vm, w) \<Rightarrow>
          and_then (save_op K (report 50 ''Deleting VM...'' x) w) (\<lambda>x w.
          case cl_delete (kb_vm K) vm w of
            (Inl e, w) \<Rightarrow> (Some e, x, w)
          | (Inr u, w) \<Rightarrow> (None, set_progress 100 x, w)))"

section \<open>Reconciliation\<close>

definition validate_operation ::
  "'w kube \<Rightarrow> vm_operation \<Rightarrow> 'w \<Rightarrow> api_error option \<times> 'w" where
  "validate_operation K x w =
     (case cl_get (kb_vm K) (ref_key (vo_meta x) (os_vm_ref (vo_spec x))) w of
        (Inl e, w) \<Rightarrow> (Some (wrap_error ''failed to get VM'' e), w)
      | (Inr vm, w) \<Rightarrow>
          (let s = vo_spec x; t = os_operation s in
           (if t = op_clone then
              (case os_clone_spec s of
                 None \<Rightarrow> Some (own_error ''clone spec is required'')
               | Some c \<Rightarrow> if cs_target_name c = [] then Some (own_error ''target name is required for clone operation'')
                           else None)
            else if t = op_migrate then
              (case os_migrate_spec s of
                 None \<Rightarrow> Some (own_error ''migrate spec is required'')
               | Some m \<Rightarrow> if ms_target_node m = [] then Some (own_error ''target node is required for migrate operation'')
                           else None)
            else if t = op_resize then
              (case os_resize_spec s of
                 None \<Rightarrow> Some (own_error ''resize spec is required'')
               | Some r \<Rightarrow> if rs_cpus r = 0 \<and> rs_memory r = []
                           then Some (own_error ''at least one of CPUs or Memory must be specified for resize operation'')
                           else None)
            else if t = op_snapshot then
              (case os_snapshot_spec s of
                 None \<Rightarrow> Some (own_error ''snapshot spec is required'')
               | Some r \<Rightarrow> if ss_name r = [] then Some (own_error ''snapshot name is required'') else None)
            else None, w)))"

definition finished :: "op_env \<Rightarrow> vm_op_phase \<Rightarrow> string \<Rightarrow> vm_operation \<Rightarrow> vm_operation" where
  "finished env p msg x =
     x\<lparr>vo_status := (vo_status x)\<lparr>ot_phase := p, ot_message := msg, ot_completion_time := Some (oe_now env)\<rparr>\<rparr>"

text \<open>A last status update, whose error is returned, and what to do next when it succeeds.\<close>

definition save_and_return ::
  "'w kube \<Rightarrow> vm_operation \<Rightarrow> 'w \<Rightarrow> ctrl_result \<Rightarrow> (ctrl_result \<times> api_error option) \<times> 'w" where
  "save_and_return K x w r =
     (case save_op K x w of (Some e, x, w) \<Rightarrow> ((nothing_more, Some e), w) | (None, x, w) \<Rightarrow> ((r, None), w))"

definition reconcile_pending ::
  "op_env \<Rightarrow> 'w kube \<Rightarrow> vm_operation \<Rightarrow> 'w \<Rightarrow> (ctrl_result \<times> api_error option) \<times> 'w" where
  "reconcile_pending env K x w =
     (case validate_operation K x w of
        (Some e, w) \<Rightarrow> save_and_return K (finished env opp_failed (''Validation failed: '' @ ae_text e) x) w nothing_more
      | (None, w) \<Rightarrow>
          save_and_return K
            (x\<lparr>vo_status := (vo_status x)\<lparr>ot_phase := opp_running, ot_progress := 10,
                 ot_message := ''Starting '' @ os_operation (vo_spec x) @ '' operation''\<rparr>\<rparr>) w (5 * second))"

definition execute_operation ::
  "op_env \<Rightarrow> 'w kube \<Rightarrow> vm_operation \<Rightarrow> 'w \<Rightarrow> api_error option \<times> vm_operation \<times> 'w" where
  "execute_operation env K x w =
     (let t = os_operation (vo_spec x)
      in if t = op_start then execute_start K x w
         else if t = op_stop then execute_stop K x w
         else if t = op_restart then execute_restart K x w
         else if t = op_clone then execute_clone env K x w
         else if t = op_migrate then execute_migrate env K x w
         else if t = op_resize then execute_resize env K x w
         else if t = op_snapshot then execute_snapshot env K x w
         else if t = op_delete then execute_delete K x w
         else (Some (own_error (''unknown operation: '' @ t)), x, w))"

definition reconcile_running ::
  "op_env \<Rightarrow> 'w kube \<Rightarrow> vm_operation \<Rightarrow> 'w \<Rightarrow> (ctrl_result \<times> api_error option) \<times> 'w" where
  "reconcile_running env K x w =
     (case execute_operation env K x w of
        (Some e, x, w) \<Rightarrow> save_and_return K (finished env opp_failed (''Operation failed: '' @ ae_text e) x) w nothing_more
      | (None, x, w) \<Rightarrow>
          save_and_return K
            (set_progress 100 (finished env opp_succeeded (os_operation (vo_spec x) @ '' operation completed successfully'') x))
            w nothing_more)"

definition handle_op_deletion ::
  "'w kube \<Rightarrow> vm_operation \<Rightarrow> 'w \<Rightarrow> (ctrl_result \<times> api_error option) \<times> 'w" where
  "handle_op_deletion K x w =
     (if vm_op_finalizer \<in> set (om_finalizers (vo_meta x))
      then case cl_update (kb_op K) (x\<lparr>vo_meta := remove_finalizer vm_op_finalizer (vo_meta x)\<rparr>) w of
             (Inl e, w) \<Rightarrow> ((nothing_more, Some e), w)
           | (Inr x, w) \<Rightarrow> ((nothing_more, None), w)
      else ((nothing_more, None), w))"

definition ensure_finalizer :: "'w kube \<Rightarrow> vm_operation \<Rightarrow> 'w \<Rightarrow> api_error option \<times> vm_operation \<times> 'w" where
  "ensure_finalizer K x w =
     (if vm_op_finalizer \<in> set (om_finalizers (vo_meta x)) then (None, x, w)
      else case cl_update (kb_op K) (x\<lparr>vo_meta := add_finalizer vm_op_finalizer (vo_meta x)\<rparr>) w of
             (Inl e, w) \<Rightarrow> (Some e, x, w)
           | (Inr x, w) \<Rightarrow> (None, x, w))"

definition ensure_phase :: "op_env \<Rightarrow> 'w kube \<Rightarrow> vm_operation \<Rightarrow> 'w \<Rightarrow> api_error option \<times> vm_operation \<times> 'w" where
  "ensure_phase env K x w =
     (if ot_phase (vo_status x) \<noteq> [] then (None, x, w)
      else save_op K (x\<lparr>vo_status := (vo_status x)\<lparr>ot_phase := opp_pending, ot_start_time := Some (oe_now env),
             ot_progress := 0\<rparr>\<rparr>) w)"

definition by_phase ::
  "op_env \<Rightarrow> 'w kube \<Rightarrow> vm_operation \<Rightarrow> 'w \<Rightarrow> (ctrl_result \<times> api_error option) \<times> 'w" where
  "by_phase env K x w =
     (let p = ot_phase (vo_status x)
      in if p = opp_pending then reconcile_pending env K x w
         else if p = opp_running then reconcile_running env K x w
         else ((nothing_more, None), w))"

definition reconcile_op ::
  "op_env \<Rightarrow> 'w kube \<Rightarrow> obj_key \<Rightarrow> 'w \<Rightarrow> (ctrl_result \<times> api_error option) \<times> 'w" where
  "reconcile_op env K k w =
     (case cl_get (kb_op K) k w of
        (Inl e, w) \<Rightarrow> ((nothing_more, if ae_reason e = NotFound then None else Some e), w)
      | (Inr x, w) \<Rightarrow>
          if om_deletion (vo_meta x) \<noteq> None then handle_op_deletion K x w
          else case and_then (ensure_finalizer K x w) (ensure_phase env K) of
                 (Some e, x, w) \<Rightarrow> ((nothing_more, Some e), w)
               | (None, x, w) \<Rightarrow> by_phase env K x w)"

section \<open>Phases only advance\<close>

text \<open>
  \<open>A\<close> is the set of statuses the reconciliation may store.  \<open>kept\<close> says of a store that the
  operation under \<open>k\<close> has one of them and that the other operations are as they were.
\<close>

definition kept :: "vm_operation_status set \<Rightarrow> obj_key \<Rightarrow> obj_store \<Rightarrow> obj_store \<Rightarrow> bool" where
  "kept A k s0 s \<longleftrightarrow> keyed op_kind (os_ops s) \<and> (\<forall>k'. k' \<noteq> k \<longrightarrow> os_ops s k' = os_ops s0 k') \<and>
     (\<exists>y. os_ops s k = Some y \<and> vo_status y \<in> A \<and> om_deletion (vo_meta y) = None)"

text \<open>The outcome of a step: the phase in memory is still the one given.\<close>

definition on_course ::
  "('w \<Rightarrow> obj_store) \<Rightarrow> vm_operation_status set \<Rightarrow> vm_op_phase \<Rightarrow> obj_key \<Rightarrow> obj_store \<Rightarrow>
   api_error option \<times> vm_operation \<times> 'w \<Rightarrow> bool" where
  "on_course view A p k s0 res \<longleftrightarrow>
     (case res of (e, x, w) \<Rightarrow> kept A k s0 (view w) \<and> key_of op_kind x = k \<and> ot_phase (vo_status x) = p)"

named_theorems on_course_rules \<open>steps that keep to the allowed statuses\<close>

lemma on_course_and_then [on_course_rules]:
  assumes "on_course view A p k s0 res"
    and "\<And>x w. on_course view A p k s0 (None, x, w) \<Longrightarrow> on_course view A p k s0 (f x w)"
  shows "on_course view A p k s0 (and_then res f)"
proof -
  obtain e x w where res: "res = (e, x, w)" by (cases res)
  show ?thesis using assms unfolding res by (cases e) (auto simp: on_course_def)
qed

lemma on_course_error: "on_course view A p k s0 (e, x, w) \<longleftrightarrow> on_course view A p k s0 (None, x, w)"
  by (simp add: on_course_def)

lemma kept_cong: "os_ops s = os_ops s' \<Longrightarrow> kept A k s0 s = kept A k s0 s'"
  by (simp add: kept_def)

lemma on_course_world:
  "on_course view A p k s0 (e, x, w) \<Longrightarrow> os_ops (view w') = os_ops (view w) \<Longrightarrow>
   key_of op_kind x' = key_of op_kind x \<Longrightarrow> ot_phase (vo_status x') = ot_phase (vo_status x) \<Longrightarrow>
   on_course view A p k s0 (e', x', w')"
  using kept_cong [of "view w" "view w'" A k s0] by (simp add: on_course_def)

lemma kept_put:
  assumes "kept A k s0 s" and "os_ops s k = Some y" and "st \<in> A"
  shows "kept A k s0 (s\<lparr>os_ops := (os_ops s)(k \<mapsto> y\<lparr>vo_status := st\<rparr>)\<rparr>)"
  using assms keyedD [of op_kind "os_ops s" k y] by (auto simp: kept_def)

lemma save_op_on_course [on_course_rules]:
  assumes "kube_laws reliable view K" and "on_course view A p k s0 (None, x, w)"
    and "key_of op_kind x' = key_of op_kind x" and "ot_phase (vo_status x') = p" and "vo_status x' \<in> A"
  shows "on_course view A p k s0 (save_op K x' w)"
proof -
  have k: "kept A k s0 (view w)" "key_of op_kind x' = k"
    using assms(2,3) by (auto simp: on_course_def)
  obtain y where y: "os_ops (view w) k = Some y" using k(1) by (auto simp: kept_def)
  have key: "key_of op_kind y = k" using k(1) y by (simp add: kept_def keyed_def)
  obtain r w' where c: "cl_update_status (kb_op K) x' w = (r, w')" by fastforce
  define y' where "y' = y\<lparr>vo_status := vo_status x'\<rparr>"
  have new: "kept A k s0 ((view w)\<lparr>os_ops := (os_ops (view w))(k \<mapsto> y')\<rparr>)"
    unfolding y'_def by (rule kept_put [OF k(1) y assms(5)])
  have "performs reliable r (view w) (view w')
      (Inr y', (view w)\<lparr>os_ops := (os_ops (view w))(k \<mapsto> y')\<rparr>)"
    using client_performs(5) [OF kube_lawsD(2) [OF assms(1)] c]
    by (simp add: sem_update_status_def k(2) y y'_def Let_def)
  then show ?thesis
    using k new c key assms(4)
    by (cases r) (auto simp: on_course_def save_op_def y'_def
        dest!: performs_error performs_value)
qed

lemma with_vm_on_course [on_course_rules]:
  assumes "kube_laws reliable view K" and "on_course view A p k s0 (None, x, w)"
    and "\<And>vm w. on_course view A p k s0 (None, x, w) \<Longrightarrow> on_course view A p k s0 (f vm w)"
  shows "on_course view A p k s0 (with_op_vm K x w f)"
proof -
  obtain r w' where c: "cl_get (kb_vm K) (ref_key (vo_meta x) (os_vm_ref (vo_spec x))) w = (r, w')" by fastforce
  have "on_course view A p k s0 (e, x, w')" for e
    using on_course_world [OF assms(2)] get_stored(1) [OF kube_lawsD(1) [OF assms(1)] c] by simp
  then show ?thesis using assms(3) c by (cases r) (simp_all add: with_op_vm_def)
qed

text \<open>Calls on machines and snapshots do not concern the operations.\<close>

lemma calls_on_course:
  assumes "kube_laws reliable view K" and "on_course view A p k s0 (None, x, w)"
    and "key_of op_kind x' = key_of op_kind x" and "ot_phase (vo_status x') = ot_phase (vo_status x)"
  shows "cl_get (kb_vm K) q w = (rv, w') \<Longrightarrow> on_course view A p k s0 (e, x', w')"
    and "cl_get (kb_snap K) q w = (rs, w') \<Longrightarrow> on_course view A p k s0 (e, x', w')"
    and "cl_update (kb_vm K) v w = (rv, w') \<Longrightarrow> on_course view A p k s0 (e, x', w')"
    and "cl_update_status (kb_vm K) v w = (rv, w') \<Longrightarrow> on_course view A p k s0 (e, x', w')"
    and "cl_create (kb_vm K) v w = (rv, w') \<Longrightarrow> on_course view A p k s0 (e, x', w')"
    and "cl_create (kb_snap K) sn w = (rs, w') \<Longrightarrow> on_course view A p k s0 (e, x', w')"
    and "cl_delete (kb_vm K) v w = (rd, w') \<Longrightarrow> on_course view A p k s0 (e, x', w')"
proof -
  note vm = other_kinds_kept [OF kube_lawsD(1) [OF assms(1)], where look = os_ops]
  note sn = other_kinds_kept [OF kube_lawsD(3) [OF assms(1)], where look = os_ops]
  note world = on_course_world [OF assms(2) _ assms(3,4), where e' = e]
  show "cl_get (kb_vm K) q w = (rv, w') \<Longrightarrow> on_course view A p k s0 (e, x', w')" by (rule world) (erule vm(1) [rotated]; simp)
  show "cl_get (kb_snap K) q w = (rs, w') \<Longrightarrow> on_course view A p k s0 (e, x', w')" by (rule world) (erule sn(1) [rotated]; simp)
  show "cl_update (kb_vm K) v w = (rv, w') \<Longrightarrow> on_course view A p k s0 (e, x', w')" by (rule world) (erule vm(3) [rotated]; simp)
  show "cl_update_status (kb_vm K) v w = (rv, w') \<Longrightarrow> on_course view A p k s0 (e, x', w')" by (rule world) (erule vm(4) [rotated]; simp)
  show "cl_create (kb_vm K) v w = (rv, w') \<Longrightarrow> on_course view A p k s0 (e, x', w')" by (rule world) (erule vm(2) [rotated]; simp)
  show "cl_create (kb_snap K) sn w = (rs, w') \<Longrightarrow> on_course view A p k s0 (e, x', w')" by (rule world) (erule sn(2) [rotated]; simp)
  show "cl_delete (kb_vm K) v w = (rd, w') \<Longrightarrow> on_course view A p k s0 (e, x', w')" by (rule world) (erule vm(5) [rotated]; simp)
qed

lemma key_of_edits [simp]:
  "key_of op_kind (report n msg x) = key_of op_kind x" "key_of op_kind (set_message msg x) = key_of op_kind x"
  "key_of op_kind (set_progress n x) = key_of op_kind x" "key_of op_kind (set_result r x) = key_of op_kind x"
  "key_of op_kind (finished env ph msg x) = key_of op_kind x"
  by (simp_all add: report_def set_message_def set_progress_def set_result_def finished_def)

lemma phase_of_edits [simp]:
  "ot_phase (vo_status (report n msg x)) = ot_phase (vo_status x)"
  "ot_phase (vo_status (set_message msg x)) = ot_phase (vo_status x)"
  "ot_phase (vo_status (set_progress n x)) = ot_phase (vo_status x)"
  "ot_phase (vo_status (set_result r x)) = ot_phase (vo_status x)"
  "ot_phase (vo_status (finished env ph msg x)) = ph"
  by (simp_all add: report_def set_message_def set_progress_def set_result_def finished_def)

lemma on_course_edit:
  "on_course view A p k s0 (None, x, w) \<Longrightarrow> key_of op_kind x' = key_of op_kind x \<Longrightarrow>
   ot_phase (vo_status x') = ot_phase (vo_status x) \<Longrightarrow> on_course view A p k s0 (e, x', w)"
  by (rule on_course_world) simp_all

lemma update_vm_on_course [on_course_rules]:
  assumes "kube_laws reliable view K" and "on_course view A p k s0 (None, x, w)"
  shows "on_course view A p k s0 (update_vm K vm x w)"
  using calls_on_course(3) [OF assms refl refl]
  by (cases "cl_update (kb_vm K) vm w") (auto simp: update_vm_def split: sum.splits)

lemma save_vm_on_course [on_course_rules]:
  assumes "kube_laws reliable view K" and "on_course view A p k s0 (None, x, w)"
    and "\<And>vm w. on_course view A p k s0 (None, x, w) \<Longrightarrow> on_course view A p k s0 (f vm w)"
  shows "on_course view A p k s0 (save_vm K vm x w f)"
  using calls_on_course(4) [OF assms(1,2) refl refl] assms(3)
  by (cases "cl_update_status (kb_vm K) vm w") (auto simp: save_vm_def split: sum.splits)

lemma execute_power_on_course [on_course_rules]:
  assumes "kube_laws reliable view K" and "on_course view A p k s0 (None, x, w)"
  shows "on_course view A p k s0 (execute_power b K x w)"
  unfolding execute_power_def using assms
  by (auto intro!: on_course_rules intro: on_course_edit)

text \<open>While an operation runs, only statuses of running operations are stored before the last.\<close>

definition keeps_running :: "vm_operation_status set \<Rightarrow> bool" where
  "keeps_running A \<longleftrightarrow> (\<forall>st. ot_phase st = opp_running \<longrightarrow> st \<in> A)"

lemma save_running_on_course:
  assumes "kube_laws reliable view K" and "keeps_running A" and "on_course view A opp_running k s0 (None, x, w)"
    and "key_of op_kind x' = key_of op_kind x" and "ot_phase (vo_status x') = ot_phase (vo_status x)"
  shows "on_course view A opp_running k s0 (save_op K x' w)"
  using save_op_on_course [OF assms(1,3,4)] assms(2,3,5) by (auto simp: on_course_def keeps_running_def)

lemma execute_restart_on_course:
  assumes "kube_laws reliable view K" and "keeps_running A" and "on_course view A opp_running k s0 (None, x, w)"
  shows "on_course view A opp_running k s0 (execute_restart K x w)"
  unfolding execute_restart_def execute_stop_def execute_start_def using assms
  by (auto intro!: on_course_and_then execute_power_on_course intro: save_running_on_course)

lemma clone_source_on_course:
  assumes "kube_laws reliable view K" and "keeps_running A" and "on_course view A opp_running k s0 (None, x, w)"
    and "\<And>spec ls x w. on_course view A opp_running k s0 (None, x, w) \<Longrightarrow> on_course view A opp_running k s0 (f spec ls x w)"
  shows "on_course view A opp_running k s0 (clone_source K c x w f)"
proof (cases "cs_snapshot_ref c = []")
  case True
  then show ?thesis using assms by (simp add: clone_source_def with_vm_on_course)
next
  case False
  have "on_course view A opp_running k s0 (case cl_get (kb_snap K) (om_namespace (vo_meta x), cs_snapshot_ref c) w of
          (Inl e, w) \<Rightarrow> (Some (wrap_error ''failed to get snapshot'' e), x, w)
        | (Inr sn, w) \<Rightarrow>
            (let r = sp_vm_ref (sn_spec sn)
             in if vr_name r = [] then (Some (own_error ''snapshot does not reference a VM''), x, w)
                else case cl_get (kb_vm K) (vr_namespace r, vr_name r) w of
                       (Inl e, w) \<Rightarrow> (Some (wrap_error ''failed to get source VM from snapshot'' e), x, w)
                     | (Inr vm, w) \<Rightarrow> f (vm_spec_of vm) (om_labels (vm_meta vm)) x w))"
    if c: "on_course view A opp_running k s0 (None, x, w)" for x w
  proof -
    obtain r w' where g: "cl_get (kb_snap K) (om_namespace (vo_meta x), cs_snapshot_ref c) w = (r, w')" by fastforce
    note c' = calls_on_course(2) [OF assms(1) c refl refl g]
    show ?thesis
    proof (cases r)
      case (Inr sn)
      obtain r2 w2 where g2: "cl_get (kb_vm K) (vr_namespace (sp_vm_ref (sn_spec sn)), vr_name (sp_vm_ref (sn_spec sn))) w' = (r2, w2)"
        by fastforce
      show ?thesis using calls_on_course(1) [OF assms(1) c' refl refl g2] c' assms(4)
        by (cases r2) (simp_all add: g Inr g2 Let_def)
    qed (simp add: g c')
  qed
  then show ?thesis using False assms(1-3)
    by (simp add: clone_source_def) (intro on_course_and_then save_running_on_course; simp)
qed

lemma created_on_course:
  assumes "kube_laws reliable view K" and "on_course view A p k s0 (None, x, w)"
  shows "on_course view A p k s0 (case cl_create (kb_vm K) v w of
      (Inl e, w) \<Rightarrow> (Some (g e), x, w) | (Inr vm, w) \<Rightarrow> (None, set_result (h vm) x, w))"
    and "on_course view A p k s0 (case cl_create (kb_snap K) sn w of
      (Inl e, w) \<Rightarrow> (Some (g e), x, w) | (Inr sn, w) \<Rightarrow> (None, set_result (h' sn) x, w))"
    and "on_course view A p k s0 (case cl_update (kb_vm K) v w of
      (Inl e, w) \<Rightarrow> (Some (g e), x, w) | (Inr vm, w) \<Rightarrow> (None, set_result (h vm) x, w))"
    and "on_course view A p k s0 (case cl_delete (kb_vm K) v w of
      (Inl e, w) \<Rightarrow> (Some (g e), x, w) | (Inr u, w) \<Rightarrow> (None, set_progress 100 x, w))"
  using calls_on_course(5,6,3,7) [OF assms]
  by (auto split: prod.splits sum.splits)

lemma execute_operation_on_course:
  assumes "kube_laws reliable view K" and "keeps_running A" and "on_course view A opp_running k s0 (None, x, w)"
  shows "on_course view A opp_running k s0 (execute_operation env K x w)"
proof -
  note save = save_running_on_course [OF assms(1,2)]
  note rules = on_course_and_then with_vm_on_course [OF assms(1)] save_vm_on_course [OF assms(1)]
    created_on_course [OF assms(1)] clone_source_on_course [OF assms(1,2)]
  have fail: "on_course view A opp_running k s0 (Some e, x, w)" for e using assms(3) by (simp add: on_course_def)
  have clone: "on_course view A opp_running k s0 (execute_clone env K x w)"
    unfolding execute_clone_def Let_def using assms(3) fail
    by (auto split: option.splits intro!: rules intro: save)
  have migrate: "on_course view A opp_running k s0 (execute_migrate env K x w)"
    unfolding execute_migrate_def Let_def using assms(3) fail
    by (auto split: option.splits intro!: rules intro: save on_course_edit)
  have resize: "on_course view A opp_running k s0 (execute_resize env K x w)"
    unfolding execute_resize_def using assms(3) fail
    by (auto split: option.splits intro!: on_course_and_then with_vm_on_course [OF assms(1)]
        created_on_course(3) [OF assms(1), where g = "\<lambda>e. e"] intro: save)
  have snapshot: "on_course view A opp_running k s0 (execute_snapshot env K x w)"
    unfolding execute_snapshot_def using assms(3) fail
    by (auto split: option.splits intro!: rules intro: save)
  have delete: "on_course view A opp_running k s0 (execute_delete K x w)"
  proof -
    obtain r w' where g: "cl_get (kb_vm K) (ref_key (vo_meta x) (os_vm_ref (vo_spec x))) w = (r, w')" by fastforce
    note c = calls_on_course(1) [OF assms(1,3) refl refl g]
    show ?thesis
      by (cases r) (auto simp: execute_delete_def g c intro!: on_course_and_then
          created_on_course(4) [OF assms(1), where g = "\<lambda>e. e"] intro: save c)
  qed
  show ?thesis using clone migrate resize snapshot delete fail
      execute_power_on_course [OF assms(1,3)] execute_restart_on_course [OF assms]
    by (simp add: execute_operation_def execute_start_def execute_stop_def Let_def)
qed

text \<open>The statuses that a reconciliation may leave behind, given the status it found.\<close>

definition done_status :: "vm_operation_status \<Rightarrow> bool" where
  "done_status st \<longleftrightarrow> ot_completion_time st \<noteq> None \<and>
     (ot_phase st = opp_failed \<or> ot_phase st = opp_succeeded \<and> ot_progress st = 100)"

definition started_status :: "vm_operation_status \<Rightarrow> bool" where
  "started_status st \<longleftrightarrow> ot_phase st = opp_running \<or> ot_phase st = opp_failed \<and> ot_completion_time st \<noteq> None"

definition successors :: "vm_operation_status \<Rightarrow> vm_operation_status set" where
  "successors st0 = {st. st = st0 \<or>
     (ot_phase st0 = [] \<and> (ot_phase st = opp_pending \<and> ot_start_time st \<noteq> None \<or> started_status st)) \<or>
     (ot_phase st0 = opp_pending \<and> started_status st) \<or>
     (ot_phase st0 = opp_running \<and> (ot_phase st = opp_running \<or> done_status st))}"

lemma save_and_return_kept:
  assumes "kube_laws reliable view K" and "on_course view A p k s0 (None, x, w)"
    and "key_of op_kind x' = key_of op_kind x" and "vo_status x' \<in> A"
    and "save_and_return K x' w r = (res, w')"
  shows "kept A k s0 (view w')"
proof -
  have "on_course view A (ot_phase (vo_status x')) k s0 (None, x', w)"
    using assms(2,3) by (simp add: on_course_def)
  from save_op_on_course [OF assms(1) this refl refl assms(4)] show ?thesis
    using assms(5) by (auto simp: save_and_return_def on_course_def split: prod.splits option.splits)
qed

lemma by_phase_kept:
  assumes "kube_laws reliable view K" and "on_course view A p k s0 (None, x, w)"
    and "p = opp_pending \<Longrightarrow> Collect started_status \<subseteq> A"
    and "p = opp_running \<Longrightarrow> keeps_running A \<and> Collect done_status \<subseteq> A"
    and "by_phase env K x w = (res, w')"
  shows "kept A k s0 (view w')"
proof -
  have p: "ot_phase (vo_status x) = p" using assms(2) by (simp add: on_course_def)
  note ret = save_and_return_kept [OF assms(1)]
  show ?thesis
  proof (cases "p = opp_pending")
    case True
    obtain e w1 where v: "validate_operation K x w = (e, w1)" by fastforce
    have "on_course view A p k s0 (None, x, w1)"
      using v calls_on_course(1) [OF assms(1,2) refl refl]
      by (auto simp: validate_operation_def Let_def split: prod.splits sum.splits)
    moreover have "reconcile_pending env K x w = (res, w')" using assms(5) p True by (simp add: by_phase_def)
    ultimately obtain c: "on_course view A p k s0 (None, x, w1)" and r: "reconcile_pending env K x w = (res, w')"
      by blast
    show ?thesis
    proof (cases e)
      case None
      let ?st = "(vo_status x)\<lparr>ot_phase := opp_running, ot_progress := 10,
        ot_message := ''Starting '' @ os_operation (vo_spec x) @ '' operation''\<rparr>"
      have "started_status ?st" by (simp add: started_status_def)
      then have "vo_status (x\<lparr>vo_status := ?st\<rparr>) \<in> A" using assms(3) [OF True] by auto
      then show ?thesis using r v None by (intro ret [OF c]) (auto simp: reconcile_pending_def)
    next
      case (Some err)
      let ?x = "finished env opp_failed (''Validation failed: '' @ ae_text err) x"
      have "started_status (vo_status ?x)" by (simp add: started_status_def finished_def)
      then have "vo_status ?x \<in> A" using assms(3) [OF True] by auto
      then show ?thesis using r v Some by (intro ret [OF c]) (auto simp: reconcile_pending_def)
    qed
  next
    case pend: False
    show ?thesis
    proof (cases "p = opp_running")
      case True
      have A: "keeps_running A" "Collect done_status \<subseteq> A" using assms(4) [OF True] by auto
      obtain e x1 w1 where ex: "execute_operation env K x w = (e, x1, w1)" by (cases "execute_operation env K x w")
      have c: "on_course view A opp_running k s0 (None, x1, w1)"
        using execute_operation_on_course [OF assms(1) A(1), of k s0 x w env] assms(2) True ex
        by (simp add: on_course_def)
      have r: "reconcile_running env K x w = (res, w')" using assms(5) p True pend by (simp add: by_phase_def)
      show ?thesis
      proof (cases e)
        case None
        let ?x = "set_progress 100 (finished env opp_succeeded (os_operation (vo_spec x1) @ '' operation completed successfully'') x1)"
        have "done_status (vo_status ?x)" by (simp add: done_status_def finished_def set_progress_def)
        then have "vo_status ?x \<in> A" using A(2) by auto
        then show ?thesis using r ex None by (intro ret [OF c]) (auto simp: reconcile_running_def)
      next
        case (Some err)
        let ?x = "finished env opp_failed (''Operation failed: '' @ ae_text err) x1"
        have "done_status (vo_status ?x)" by (simp add: done_status_def finished_def)
        then have "vo_status ?x \<in> A" using A(2) by auto
        then show ?thesis using r ex Some by (intro ret [OF c]) (auto simp: reconcile_running_def)
      qed
    next
      case False
      then have "w' = w" using assms(5) p pend by (simp add: by_phase_def)
      then show ?thesis using assms(2) by (simp add: on_course_def)
    qed
  qed
qed

lemma successors_closed:
  "ot_phase st = [] \<or> ot_phase st = opp_pending \<Longrightarrow> Collect started_status \<subseteq> successors st"
  "ot_phase st = opp_running \<Longrightarrow> keeps_running (successors st) \<and> Collect done_status \<subseteq> successors st"
  by (auto simp: successors_def keeps_running_def)

lemma ensure_finalizer_kept:
  assumes "kube_laws reliable view K" and "keyed op_kind (os_ops (view w))" and "os_ops (view w) k = Some x"
    and "om_deletion (vo_meta x) = None" and "vo_status x \<in> A" and "ensure_finalizer K x w = (e, x', w')"
  shows "kept A k (view w) (view w') \<and> key_of op_kind x' = k \<and> vo_status x' = vo_status x"
proof -
  have key: "key_of op_kind x = k" using assms(2,3) by (simp add: keyed_def)
  have start: "kept A k (view w) (view w)" using assms(2-5) by (auto simp: kept_def)
  show ?thesis
  proof (cases "vm_op_finalizer \<in> set (om_finalizers (vo_meta x))")
    case True
    then show ?thesis using assms(6) start key by (auto simp: ensure_finalizer_def)
  next
    case False
    define y where "y = x\<lparr>vo_meta := add_finalizer vm_op_finalizer (vo_meta x)\<rparr>"
    define z where "z = y\<lparr>vo_meta := (vo_meta y)\<lparr>om_created := om_created (vo_meta x), om_deletion := om_deletion (vo_meta x)\<rparr>\<rparr>"
    obtain r w1 where u: "cl_update (kb_op K) y w = (r, w1)" by fastforce
    have k: "key_of op_kind y = k" using key by (simp add: y_def key_of_def add_finalizer_def)
    have z: "key_of op_kind z = k" "vo_status z = vo_status x" "om_deletion (vo_meta z) = None"
      using k assms(4) by (simp_all add: z_def key_of_def) (simp add: y_def)
    have z2: "z = y\<lparr>vo_meta := (vo_meta y)\<lparr>om_created := om_created (vo_meta x), om_deletion := None\<rparr>,
        vo_status := vo_status x\<rparr>"
      using assms(4) by (simp add: z_def y_def)
    have "performs reliable r (view w) (view w1) (Inr z, (view w)\<lparr>os_ops := (os_ops (view w))(k \<mapsto> z)\<rparr>)"
      using client_performs(4) [OF kube_lawsD(2) [OF assms(1)] u] assms(4)
      by (simp add: sem_update_def k assms(3) Let_def z2)
    moreover have "kept A k (view w) ((view w)\<lparr>os_ops := (os_ops (view w))(k \<mapsto> z)\<rparr>)"
      using start z assms(5) by (auto simp: kept_def)
    ultimately show ?thesis using assms(6) False u start key z
      by (cases r) (auto simp: ensure_finalizer_def y_def [symmetric] dest!: performs_error performs_value)
  qed
qed

lemma reconcile_op_kept:
  assumes "kube_laws reliable view K" and "keyed op_kind (os_ops (view w))"
    and "os_ops (view w) k = Some x" and "om_deletion (vo_meta x) = None"
    and "reconcile_op env K k w = (res, w')"
  shows "kept (successors (vo_status x)) k (view w) (view w')"
proof -
  let ?A = "successors (vo_status x)"
  have "vo_status x \<in> ?A" by (simp add: successors_def)
  obtain r w1 where g: "cl_get (kb_op K) k w = (r, w1)" by fastforce
  note get = get_stored [OF kube_lawsD(2) [OF assms(1)] g]
  show ?thesis
  proof (cases r)
    case (Inl e)
    then have "w' = w1" using assms(5) g by (simp add: reconcile_op_def)
    then show ?thesis using get(1) assms(2-4) \<open>vo_status x \<in> ?A\<close> by (auto simp: kept_def)
  next
    case (Inr x1)
    then have x1: "x1 = x" using get(2) assms(3) by simp
    obtain e2 x2 w2 where f: "ensure_finalizer K x w1 = (e2, x2, w2)" by (cases "ensure_finalizer K x w1")
    have f': "kept ?A k (view w) (view w2)" "key_of op_kind x2 = k" "vo_status x2 = vo_status x"
      using ensure_finalizer_kept [OF assms(1) _ _ assms(4) \<open>vo_status x \<in> ?A\<close> f] assms(2,3)
      unfolding get(1) by blast+
    have c2: "on_course view ?A (ot_phase (vo_status x)) k (view w) (e, x2, w2)" for e
      using f' by (simp add: on_course_def)
    obtain e3 x3 w3 where p: "and_then (e2, x2, w2) (ensure_phase env K) = (e3, x3, w3)"
      by (cases "and_then (e2, x2, w2) (ensure_phase env K)")
    define ph where "ph = (if ot_phase (vo_status x) = [] then opp_pending else ot_phase (vo_status x))"
    have c3: "kept ?A k (view w) (view w3) \<and> (e3 = None \<longrightarrow> on_course view ?A ph k (view w) (None, x3, w3))"
    proof (cases e2)
      case (Some e)
      then show ?thesis using p f' by auto
    next
      case None
      show ?thesis
      proof (cases "ot_phase (vo_status x) = []")
        case False
        then show ?thesis using p None f' c2 by (auto simp: ensure_phase_def ph_def)
      next
        case True
        let ?st = "(vo_status x2)\<lparr>ot_phase := opp_pending, ot_start_time := Some (oe_now env), ot_progress := 0\<rparr>"
        have "on_course view ?A opp_pending k (view w) (None, x2\<lparr>vo_status := ?st\<rparr>, w2)"
          using f' by (simp add: on_course_def)
        then have "on_course view ?A opp_pending k (view w) (save_op K (x2\<lparr>vo_status := ?st\<rparr>) w2)"
          by (rule save_op_on_course [OF assms(1)]) (simp_all add: successors_def True)
        then show ?thesis using p None True f' by (auto simp: ensure_phase_def ph_def on_course_def)
      qed
    qed
    show ?thesis
    proof (cases e3)
      case (Some e)
      then show ?thesis using assms(5) g Inr x1 assms(4) f p c3 by (simp add: reconcile_op_def)
    next
      case None
      then have "by_phase env K x3 w3 = (res, w')"
        using assms(5) g Inr x1 assms(4) f p by (simp add: reconcile_op_def)
      moreover have "ph = opp_pending \<Longrightarrow> ot_phase (vo_status x) = [] \<or> ot_phase (vo_status x) = opp_pending"
        "ph = opp_running \<Longrightarrow> ot_phase (vo_status x) = opp_running"
        by (auto simp: ph_def op_phase_defs split: if_splits)
      ultimately show ?thesis using by_phase_kept [OF assms(1)] c3 None successors_closed by blast
    qed
  qed
qed

text \<open>
  C23: Whatever the API answers, a reconciliation only moves the stored status of its operation along
  the life cycle: from new to pending, running or failed, from pending to running or failed, and
  from running to done, where a status that is done has its completion time and a success all its
  progress.  A finished operation is never changed again, other operations never are, and an
  operation that is not being deleted stays.
\<close>

theorem operations_advance:
  assumes "kube_laws reliable view K" and "keyed op_kind (os_ops (view w))"
    and "os_ops (view w) k = Some x" and "om_deletion (vo_meta x) = None"
    and "reconcile_op env K k w = (res, w')"
  shows "(\<exists>y. os_ops (view w') k = Some y \<and> vo_status y \<in> successors (vo_status x)) \<and>
    (\<forall>k'. k' \<noteq> k \<longrightarrow> os_ops (view w') k' = os_ops (view w) k')"
  using reconcile_op_kept [OF assms] by (auto simp: kept_def)

section \<open>An operation\<close>

definition demo_op :: "vm_operation_type \<Rightarrow> vm_op_phase \<Rightarrow> vm_operation" where
  "demo_op t p =
     \<lparr>vo_meta = plain_meta ''op'' ''prod'' [],
      vo_spec = \<lparr>os_vm_ref = \<lparr>vr_name = ''web'', vr_namespace = []\<rparr>, os_operation = t, os_force = False,
        os_clone_spec = Some \<lparr>cs_target_name = ''copy'', cs_target_namespace = [], cs_linked_clone = False,
          cs_start_after_clone = True, cs_snapshot_ref = [], cs_power_on_after = False\<rparr>,
        os_migrate_spec = None, os_resize_spec = None, os_snapshot_spec = None, os_timeout = []\<rparr>,
      vo_status = no_op_status\<lparr>ot_phase := p\<rparr>\<rparr>"

definition demo_key :: obj_key where "demo_key = (''prod'', ''op'')"

definition demo_env :: op_env where "demo_env = \<lparr>oe_now = 5, oe_json = (\<lambda>r. [])\<rparr>"

definition demo_world :: "vm_operation_type \<Rightarrow> vm_op_phase \<Rightarrow> kube_sim" where
  "demo_world t p = demo_vms\<lparr>ks_ops := [(demo_key, demo_op t p)]\<rparr>"

lemma demo_world_ops [simp]: "os_ops (sim_view (demo_world t p)) = [demo_key \<mapsto> demo_op t p]"
  by (simp add: sim_view_def demo_world_def)

lemma demo_op_simps [simp]:
  "key_of op_kind (demo_op t p) = demo_key" "om_deletion (vo_meta (demo_op t p)) = None"
  "ot_phase (vo_status (demo_op t p)) = p"
  by (simp_all add: demo_op_def demo_key_def key_of_def plain_meta_def)

lemma demo_ops_keyed [simp]: "keyed op_kind [demo_key \<mapsto> demo_op t p]"
  by (simp add: keyed_def)

theorem operations_advance_witness:
  "\<exists>y. os_ops (sim_view (snd (reconcile_op demo_env sim_kube demo_key (demo_world op_clone opp_running)))) demo_key = Some y \<and>
     (ot_phase (vo_status y) = opp_running \<or> done_status (vo_status y))"
proof -
  obtain res w' where r: "reconcile_op demo_env sim_kube demo_key (demo_world op_clone opp_running) = (res, w')" by fastforce
  have "os_ops (sim_view (demo_world op_clone opp_running)) demo_key = Some (demo_op op_clone opp_running)" by simp
  from operations_advance [OF sim_kube_laws _ this _ r] show ?thesis
    unfolding r by (auto simp: successors_def) (simp_all add: op_phase_defs)
qed

end
