(* ===== verification/Vm_Operation_Effects.thy ===== *)
theory Vm_Operation_Effects
  imports Vm_Operation
begin

text \<open>
  What an operation does to machines and snapshots when no call of the API fails: an abstract
  effect, and the proof that the executors of \<open>Vm_Operation\<close> with all their status updates have it.
\<close>

section \<open>The abstract effect\<close>

type_synonym vm_world = "virtual_machine obj_map \<times> vm_snapshot obj_map"

definition vm_key :: "vm_operation \<Rightarrow> obj_key" where
  "vm_key x = ref_key (vo_meta x) (os_vm_ref (vo_spec x))"

text \<open>Replacing the machine of the operation; without one the operation fails.\<close>

definition change_vm :: "(virtual_machine \<Rightarrow> virtual_machine) \<Rightarrow> obj_key \<Rightarrow> vm_world \<Rightarrow> bool \<times> vm_world" where
  "change_vm f k s = (case fst s k of None \<Rightarrow> (False, s) | Some vm \<Rightarrow> (True, (fst s)(k \<mapsto> f vm), snd s))"

definition source_of :: "clone_spec \<Rightarrow> vm_operation \<Rightarrow> vm_world \<Rightarrow> virtual_machine option" where
  "source_of c x s =
     (if cs_snapshot_ref c = [] then fst s (vm_key x)
      else case snd s (om_namespace (vo_meta x), cs_snapshot_ref c) of
             None \<Rightarrow> None
           | Some sn \<Rightarrow> (let r = sp_vm_ref (sn_spec sn)
                        in if vr_name r = [] then None else fst s (vr_namespace r, vr_name r)))"

definition created_at :: "instant \<Rightarrow> object_meta \<Rightarrow> object_meta" where
  "created_at t m = m\<lparr>om_created := t, om_deletion := None\<rparr>"

definition clone_effect :: "instant \<Rightarrow> vm_operation \<Rightarrow> vm_world \<Rightarrow> bool \<times> vm_world" where
  "clone_effect t x s =
     (case os_clone_spec (vo_spec x) of
        None \<Rightarrow> (False, s)
      | Some c \<Rightarrow>
          (case source_of c x s of
             None \<Rightarrow> (False, s)
           | Some vm \<Rightarrow>
               (let v = clone_target c x (vm_spec_of vm) (om_labels (vm_meta vm)); k = key_of vm_kind v
                in if fst s k \<noteq> None then (False, s)
                   else (True, (fst s)(k \<mapsto> v\<lparr>vm_meta := created_at t (vm_meta v)\<rparr>), snd s))))"

definition snapshot_effect :: "instant \<Rightarrow> vm_operation \<Rightarrow> vm_world \<Rightarrow> bool \<times> vm_world" where
  "snapshot_effect t x s =
     (case os_snapshot_spec (vo_spec x) of
        None \<Rightarrow> (False, s)
      | Some sp \<Rightarrow>
          (case fst s (vm_key x) of
             None \<Rightarrow> (False, s)
           | Some vm \<Rightarrow>
               (let n = snapshot_of sp vm; k = key_of snap_kind n
                in if snd s k \<noteq> None then (False, s)
                   else (True, fst s, (snd s)(k \<mapsto> n\<lparr>sn_meta := created_at t (sn_meta n)\<rparr>)))))"

definition delete_effect :: "instant \<Rightarrow> vm_operation \<Rightarrow> vm_world \<Rightarrow> bool \<times> vm_world" where
  "delete_effect t x s =
     (case fst s (vm_key x) of
        None \<Rightarrow> (True, s)
      | Some vm \<Rightarrow> (True, snd (sem_delete vm_kind t vm (fst s)), snd s))"

definition op_effect :: "instant \<Rightarrow> vm_operation \<Rightarrow> vm_world \<Rightarrow> bool \<times> vm_world" where
  "op_effect t x s =
     (let p = os_operation (vo_spec x); k = vm_key x
      in if p = op_start \<or> p = op_restart then change_vm (set_running True) k s
         else if p = op_stop then change_vm (set_running False) k s
         else if p = op_clone then clone_effect t x s
         else if p = op_migrate then
           (case os_migrate_spec (vo_spec x) of
              None \<Rightarrow> (False, s)
            | Some m \<Rightarrow> change_vm (\<lambda>vm. set_vm_phase vm_running (set_node (ms_target_node m) vm)) k s)
         else if p = op_resize then
           (case os_resize_spec (vo_spec x) of None \<Rightarrow> (False, s) | Some r \<Rightarrow> change_vm (resized r) k s)
         else if p = op_snapshot then snapshot_effect t x s
         else if p = op_delete then delete_effect t x s
         else (False, s))"

section \<open>Calls of a reliable API\<close>

text \<open>Objects that are being deleted have finalizers, otherwise they would be gone.\<close>

definition vms_live :: "virtual_machine obj_map \<Rightarrow> bool" where
  "vms_live m \<longleftrightarrow> keyed vm_kind m \<and>
     (\<forall>k vm. m k = Some vm \<longrightarrow> om_deletion (vm_meta vm) \<noteq> None \<longrightarrow> om_finalizers (vm_meta vm) \<noteq> [])"

definition world_of :: "obj_store \<Rightarrow> vm_world" where
  "world_of s = (os_vms s, os_snaps s)"

text \<open>
  \<open>at_world\<close>: the operation in memory is the stored one up to its status, and these are the
  machines and snapshots.
\<close>

definition at_world :: "('w \<Rightarrow> obj_store) \<Rightarrow> vm_operation \<Rightarrow> vm_world \<Rightarrow> 'w \<Rightarrow> bool" where
  "at_world view x s w \<longleftrightarrow> world_of (view w) = s \<and> vms_live (fst s) \<and>
     (\<exists>st. os_ops (view w) (key_of op_kind x) = Some (x\<lparr>vo_status := st\<rparr>))"

definition same_op :: "vm_operation \<Rightarrow> vm_operation \<Rightarrow> bool" where
  "same_op x y \<longleftrightarrow> vo_meta x = vo_meta y \<and> vo_spec x = vo_spec y"

lemma same_op_refl [simp]: "same_op x x"
  by (simp add: same_op_def)

lemma same_op_edits [simp]:
  "same_op (report n msg x) y = same_op x y" "same_op (set_message msg x) y = same_op x y"
  "same_op (set_progress n x) y = same_op x y" "same_op (set_result r x) y = same_op x y"
  "same_op (finished env ph msg x) y = same_op x y" "same_op (x\<lparr>vo_status := st\<rparr>) y = same_op x y"
  by (simp_all add: same_op_def report_def set_message_def set_progress_def set_result_def finished_def)

lemma same_op_trans: "same_op x y \<Longrightarrow> same_op y z \<Longrightarrow> same_op x z"
  by (simp add: same_op_def)

lemma same_op_key: "same_op x y \<Longrightarrow> key_of op_kind x = key_of op_kind y"
  by (simp add: same_op_def key_of_def)

lemma at_world_same:
  assumes "at_world view x s w" and "same_op x' x"
  shows "at_world view x' s w"
proof -
  obtain st where "os_ops (view w) (key_of op_kind x) = Some (x\<lparr>vo_status := st\<rparr>)"
    using assms(1) by (auto simp: at_world_def)
  moreover have "x\<lparr>vo_status := st\<rparr> = x'\<lparr>vo_status := st\<rparr>" using assms(2) by (simp add: same_op_def)
  ultimately show ?thesis using assms same_op_key [OF assms(2)] by (auto simp: at_world_def)
qed

text \<open>The end of a step: whether it succeeded, and the machines and snapshots.\<close>

definition ends_in ::
  "('w \<Rightarrow> obj_store) \<Rightarrow> vm_operation \<Rightarrow> bool \<times> vm_world \<Rightarrow> api_error option \<times> vm_operation \<times> 'w \<Rightarrow> bool" where
  "ends_in view x0 q res \<longleftrightarrow>
     (case res of (e, x, w) \<Rightarrow> (e = None \<longleftrightarrow> fst q) \<and> same_op x x0 \<and> at_world view x (snd q) w)"

lemma ends_inI:
  "at_world view x s w \<Longrightarrow> same_op x' x \<Longrightarrow> same_op x x0 \<Longrightarrow> (e = None \<longleftrightarrow> ok) \<Longrightarrow> ends_in view x0 (ok, s) (e, x', w)"
  by (auto simp: ends_in_def intro: at_world_same same_op_trans)

lemma reliable_save:
  assumes "kube_laws True view K" and "at_world view x s w" and "same_op x' x"
  shows "\<exists>w'. save_op K x' w = (None, x', w') \<and> at_world view x' s w' \<and> os_ops (view w') (key_of op_kind x') = Some x'"
proof -
  obtain st where st: "os_ops (view w) (key_of op_kind x') = Some (x'\<lparr>vo_status := st\<rparr>)"
    using at_world_same [OF assms(2,3)] by (auto simp: at_world_def)
  obtain r w' where c: "cl_update_status (kb_op K) x' w = (r, w')" by fastforce
  have "performs True r (view w) (view w') (Inr x', (view w)\<lparr>os_ops := (os_ops (view w))(key_of op_kind x' \<mapsto> x')\<rparr>)"
    using client_performs(5) [OF kube_lawsD(2) [OF assms(1)] c]
    by (simp add: sem_update_status_def st Let_def)
  then have "r = Inr x'" "view w' = (view w)\<lparr>os_ops := (os_ops (view w))(key_of op_kind x' \<mapsto> x')\<rparr>"
    by (cases r; auto simp: performs_def)+
  moreover have "x'\<lparr>vo_status := vo_status x'\<rparr> = x'" by simp
  ultimately show ?thesis using c assms(2)
    by (auto simp: save_op_def at_world_def world_of_def intro: exI [of _ "vo_status x'"])
qed

lemma ends_save:
  assumes "kube_laws True view K" and "at_world view x s w" and "same_op x' x"
    and "\<And>w'. at_world view x' s w' \<Longrightarrow> ends_in view x0 q (f x' w')"
  shows "ends_in view x0 q (and_then (save_op K x' w) f)"
  using reliable_save [OF assms(1-3)] assms(4) by auto

text \<open>A call on machines: the rest of the world stays.\<close>

lemma at_world_vms:
  assumes "at_world view x s w" and "view w' = (view w)\<lparr>os_vms := m\<rparr>" and "vms_live m"
  shows "at_world view x (m, snd s) w'"
  using assms by (auto simp: at_world_def world_of_def)

lemma at_world_view: "at_world view x s w \<Longrightarrow> view w' = view w \<Longrightarrow> at_world view x s w'"
  by (simp add: at_world_def)

lemma reliable_get_vm:
  assumes "kube_laws True view K" and "at_world view x s w" and "cl_get (kb_vm K) k w = (r, w')"
  shows "at_world view x s w'" and "case fst s k of None \<Rightarrow> \<exists>e. r = Inl e \<and> ae_reason e = NotFound | Some vm \<Rightarrow> r = Inr vm"
  using get_stored [OF kube_lawsD(1) [OF assms(1)] assms(3)] assms(2) at_world_view [OF assms(2)]
  by (cases r; auto simp: at_world_def world_of_def split: option.splits)+

lemma ends_with_vm:
  assumes "kube_laws True view K" and "at_world view x s w" and "same_op x x0"
    and "fst s (vm_key x) = None \<Longrightarrow> q = (False, s)"
    and "\<And>vm w'. fst s (vm_key x) = Some vm \<Longrightarrow> at_world view x s w' \<Longrightarrow> ends_in view x0 q (f vm w')"
  shows "ends_in view x0 q (with_op_vm K x w f)"
proof -
  obtain r w' where g: "cl_get (kb_vm K) (vm_key x) w = (r, w')" by fastforce
  note c = reliable_get_vm [OF assms(1,2) g]
  show ?thesis using c assms(3-5) g
    by (cases "fst s (vm_key x)") (auto simp: with_op_vm_def vm_key_def ends_in_def)
qed

lemma vms_live_put:
  "vms_live m \<Longrightarrow> m k = Some vm \<Longrightarrow> vm_meta vm' = vm_meta vm \<Longrightarrow> vms_live (m(k \<mapsto> vm'))"
  by (auto simp: vms_live_def keyed_def key_of_def)

lemma reliable_update_vm:
  assumes "kube_laws True view K" and "at_world view x s w" and "fst s k = Some vm"
    and "vm_meta vm' = vm_meta vm" and "vm_status_of vm' = vm_status_of vm"
  shows "\<exists>w'. cl_update (kb_vm K) vm' w = (Inr vm', w') \<and> at_world view x ((fst s)(k \<mapsto> vm'), snd s) w'"
proof -
  have m: "os_vms (view w) = fst s" "vms_live (fst s)" using assms(2) by (auto simp: at_world_def world_of_def)
  have key: "key_of vm_kind vm' = k" using m(2) assms(3,4) by (auto simp: vms_live_def keyed_def key_of_def)
  obtain r w' where c: "cl_update (kb_vm K) vm' w = (r, w')" by fastforce
  have "vm'\<lparr>vm_meta := (vm_meta vm')\<lparr>om_created := om_created (vm_meta vm), om_deletion := om_deletion (vm_meta vm)\<rparr>,
      vm_status_of := vm_status_of vm\<rparr> = vm'"
    by (simp add: assms(4) flip: assms(5))
  then have "sem_update vm_kind vm' (fst s) = (Inr vm', (fst s)(k \<mapsto> vm'))"
    using m(2) assms(3,4) by (auto simp: sem_update_def key Let_def vms_live_def)
  then have "performs True r (view w) (view w') (Inr vm', (view w)\<lparr>os_vms := (fst s)(k \<mapsto> vm')\<rparr>)"
    using client_performs(4) [OF kube_lawsD(1) [OF assms(1)] c] m(1) by simp
  then have "r = Inr vm'" "view w' = (view w)\<lparr>os_vms := (fst s)(k \<mapsto> vm')\<rparr>"
    by (cases r; auto simp: performs_def)+
  then show ?thesis using c at_world_vms [OF assms(2)] vms_live_put [OF m(2) assms(3,4)] by auto
qed

lemma reliable_save_vm:
  assumes "kube_laws True view K" and "at_world view x s w" and "fst s k = Some vm"
    and "vm_meta vm' = vm_meta vm" and "vm_spec_of vm' = vm_spec_of vm"
  shows "\<exists>w'. cl_update_status (kb_vm K) vm' w = (Inr vm', w') \<and> at_world view x ((fst s)(k \<mapsto> vm'), snd s) w'"
proof -
  have m: "os_vms (view w) = fst s" "vms_live (fst s)" using assms(2) by (auto simp: at_world_def world_of_def)
  have key: "key_of vm_kind vm' = k" using m(2) assms(3,4) by (auto simp: vms_live_def keyed_def key_of_def)
  obtain r w' where c: "cl_update_status (kb_vm K) vm' w = (r, w')" by fastforce
  have "vm\<lparr>vm_status_of := vm_status_of vm'\<rparr> = vm'" using assms(4,5) by simp
  then have "sem_update_status vm_kind vm' (fst s) = (Inr vm', (fst s)(k \<mapsto> vm'))"
    using assms(3) by (simp add: sem_update_status_def key Let_def)
  then have "performs True r (view w) (view w') (Inr vm', (view w)\<lparr>os_vms := (fst s)(k \<mapsto> vm')\<rparr>)"
    using client_performs(5) [OF kube_lawsD(1) [OF assms(1)] c] m(1) by simp
  then have "r = Inr vm'" "view w' = (view w)\<lparr>os_vms := (fst s)(k \<mapsto> vm')\<rparr>"
    by (cases r; auto simp: performs_def)+
  then show ?thesis using c at_world_vms [OF assms(2)] vms_live_put [OF m(2) assms(3,4)] by auto
qed

section \<open>The executors have their effect\<close>

lemma set_running_parts [simp]:
  "vm_meta (set_running b vm) = vm_meta vm" "vm_status_of (set_running b vm) = vm_status_of vm"
  "set_running b (set_running c vm) = set_running b vm"
  by (simp_all add: set_running_def)

lemma resized_parts [simp]: "vm_meta (resized r vm) = vm_meta vm" "vm_status_of (resized r vm) = vm_status_of vm"
  by (simp_all add: resized_def Let_def)

lemma set_vm_parts [simp]:
  "vm_meta (set_vm_phase p vm) = vm_meta vm" "vm_spec_of (set_vm_phase p vm) = vm_spec_of vm"
  "vm_meta (set_node n vm) = vm_meta vm" "vm_spec_of (set_node n vm) = vm_spec_of vm"
  by (simp_all add: set_vm_phase_def set_node_def)

lemma migrated_status: "set_vm_phase p (set_node n (set_vm_phase p' vm)) = set_vm_phase p (set_node n vm)"
  unfolding set_vm_phase_def set_node_def by (cases vm; cases "vm_status_of vm") simp

lemma vm_key_same: "same_op x y \<Longrightarrow> vm_key x = vm_key y"
  by (simp add: same_op_def vm_key_def)

lemma power_effect:
  assumes "kube_laws True view K" and "at_world view x s w" and "same_op x x0"
  shows "ends_in view x0 (change_vm (set_running b) (vm_key x0) s) (execute_power b K x w)"
  unfolding execute_power_def
proof (rule ends_with_vm [OF assms])
  have k: "vm_key x = vm_key x0" by (rule vm_key_same [OF assms(3)])
  show "fst s (vm_key x) = None \<Longrightarrow> change_vm (set_running b) (vm_key x0) s = (False, s)" by (simp add: change_vm_def k)
  fix vm w' assume vm: "fst s (vm_key x) = Some vm" and w': "at_world view x s w'"
  from reliable_update_vm [OF assms(1) w' vm, of "set_running b vm"]
  obtain w2 where u: "cl_update (kb_vm K) (set_running b vm) w' = (Inr (set_running b vm), w2)"
    "at_world view x ((fst s)(vm_key x \<mapsto> set_running b vm), snd s) w2" by auto
  show "ends_in view x0 (change_vm (set_running b) (vm_key x0) s)
      (and_then (update_vm K (set_running b vm) x w') (\<lambda>x w. (None, set_progress 100 x, w)))"
    using u vm assms(3) by (auto simp: update_vm_def change_vm_def k [symmetric] intro!: ends_inI)
qed

lemma ends_and_then:
  assumes "ends_in view x0 (ok, s) res" and "\<not> ok \<Longrightarrow> q = (False, s)"
    and "\<And>x w. ok \<Longrightarrow> same_op x x0 \<Longrightarrow> at_world view x s w \<Longrightarrow> ends_in view x0 q (f x w)"
  shows "ends_in view x0 q (and_then res f)"
proof -
  obtain e x w where res: "res = (e, x, w)" by (cases res)
  show ?thesis using assms unfolding res by (cases e) (auto simp: ends_in_def)
qed

lemma restart_effect:
  assumes "kube_laws True view K" and "at_world view x s w" and "same_op x x0"
  shows "ends_in view x0 (change_vm (set_running True) (vm_key x0) s) (execute_restart K x w)"
  unfolding execute_restart_def execute_stop_def execute_start_def
proof (rule ends_save [OF assms(1,2)])
  fix w1 assume w1: "at_world view (report 50 ''Stopping VM...'' x) s w1"
  obtain ok s1 where c: "change_vm (set_running False) (vm_key x0) s = (ok, s1)" by fastforce
  have "ends_in view x0 (ok, s1) (execute_power False K (report 50 ''Stopping VM...'' x) w1)"
    using power_effect [OF assms(1) w1, of x0 False] assms(3) c by simp
  then show "ends_in view x0 (change_vm (set_running True) (vm_key x0) s)
      (and_then (execute_power False K (report 50 ''Stopping VM...'' x) w1)
        (\<lambda>x w. and_then (save_op K (report 75 ''Starting VM...'' x) w) (\<lambda>x w. execute_power True K x w)))"
  proof (rule ends_and_then)
    show "\<not> ok \<Longrightarrow> change_vm (set_running True) (vm_key x0) s = (False, s1)"
      using c by (auto simp: change_vm_def split: option.splits)
    fix y w2 assume y: "ok" "same_op y x0" "at_world view y s1 w2"
    have e: "change_vm (set_running True) (vm_key x0) s = change_vm (set_running True) (vm_key x0) s1"
      using c y(1) by (auto simp: change_vm_def split: option.splits)
    show "ends_in view x0 (change_vm (set_running True) (vm_key x0) s)
        (and_then (save_op K (report 75 ''Starting VM...'' y) w2) (\<lambda>x w. execute_power True K x w))"
      unfolding e by (rule ends_save [OF assms(1) y(3)]) (use power_effect [OF assms(1)] y(2) in auto)
  qed
qed simp

lemma same_opD:
  "same_op x y \<Longrightarrow> vm_key x = vm_key y \<and> vo_spec x = vo_spec y \<and> vo_meta x = vo_meta y"
  by (simp add: same_op_def vm_key_def)

lemma resize_effect:
  assumes "kube_laws True view K" and "at_world view x s w" and "same_op x x0" and "os_resize_spec (vo_spec x0) = Some r"
  shows "ends_in view x0 (change_vm (resized r) (vm_key x0) s) (execute_resize env K x w)"
proof -
  have k: "vm_key x = vm_key x0" "os_resize_spec (vo_spec x) = Some r"
    using same_opD [OF assms(3)] assms(4) by simp_all
  show ?thesis
    unfolding execute_resize_def k(2) option.case
  proof (rule ends_with_vm [OF assms(1-3)], goal_cases)
    case 1
    then show ?case by (simp add: change_vm_def k)
  next
    case (2 vm w1)
    show ?case
    proof (rule ends_save [OF assms(1) 2(2)], simp, goal_cases)
      case (1 w2)
      obtain w3 where "cl_update (kb_vm K) (resized r vm) w2 = (Inr (resized r vm), w3)"
        "at_world view (report 50 ''Resizing VM...'' x) ((fst s)(vm_key x \<mapsto> resized r vm), snd s) w3"
        using reliable_update_vm [OF assms(1) 1 2(1), of "resized r vm"] by auto
      then show ?case using 2(1) assms(3) by (auto simp: change_vm_def k(1) intro!: ends_inI)
    qed
  qed
qed

lemma migrate_effect:
  assumes "kube_laws True view K" and "at_world view x s w" and "same_op x x0" and "os_migrate_spec (vo_spec x0) = Some m"
  shows "ends_in view x0 (change_vm (\<lambda>vm. set_vm_phase vm_running (set_node (ms_target_node m) vm)) (vm_key x0) s)
    (execute_migrate env K x w)"
proof -
  have k: "vm_key x = vm_key x0" "os_migrate_spec (vo_spec x) = Some m"
    using same_opD [OF assms(3)] assms(4) by simp_all
  show ?thesis
    unfolding execute_migrate_def k(2) option.case
  proof (rule ends_with_vm [OF assms(1-3)], goal_cases)
    case 1
    then show ?case by (simp add: change_vm_def k)
  next
    case (2 vm w1)
    let ?k = "vm_key x0" and ?v1 = "set_vm_phase vm_migrating vm"
    let ?v2 = "set_vm_phase vm_running (set_node (ms_target_node m) ?v1)"
    have vm: "fst s ?k = Some vm" using 2(1) k by simp
    show ?case
    proof (rule ends_save [OF assms(1) 2(2)], simp, goal_cases)
      case (1 w2)
      obtain w3 where v1: "cl_update_status (kb_vm K) ?v1 w2 = (Inr ?v1, w3)"
        "at_world view (report 30 ''Preparing for migration...'' x) ((fst s)(?k \<mapsto> ?v1), snd s) w3"
        using reliable_save_vm [OF assms(1) 1 vm, of ?v1] by auto
      show ?case unfolding save_vm_def v1(1) prod.case sum.case
      proof (rule ends_save [OF assms(1) v1(2)], simp, goal_cases)
        case w4: (1 w4)
        show ?case unfolding Let_def
        proof (rule ends_save [OF assms(1) w4], simp, goal_cases)
          case w5: (1 w5)
          obtain w6 where v2: "cl_update_status (kb_vm K) ?v2 w5 = (Inr ?v2, w6)"
            "at_world view (report 90 ''Finalizing migration...'' (report 50 ''Migrating VM...'' (report 30 ''Preparing for migration...'' x)))
              ((fst s)(?k \<mapsto> ?v2), snd s) w6"
            using reliable_save_vm [OF assms(1) w5, of ?k ?v1 ?v2] by auto
          then show ?case using vm assms(3)
            by (auto simp: save_vm_def change_vm_def migrated_status intro!: ends_inI)
        qed
      qed
    qed
  qed
qed

text \<open>Creating and deleting, where the server chooses the time.\<close>

lemma reliable_create_vm:
  assumes "kube_laws True view K" and "at_world view x s w" and "vm_status_of v = no_vm_status"
  shows "\<exists>t r w'. cl_create (kb_vm K) v w = (r, w') \<and>
    (if fst s (key_of vm_kind v) \<noteq> None then (\<exists>e. r = Inl e) \<and> at_world view x s w'
     else r = Inr (v\<lparr>vm_meta := created_at t (vm_meta v)\<rparr>) \<and>
       at_world view x ((fst s)(key_of vm_kind v \<mapsto> v\<lparr>vm_meta := created_at t (vm_meta v)\<rparr>), snd s) w')"
proof -
  have m: "os_vms (view w) = fst s" "vms_live (fst s)" using assms(2) by (auto simp: at_world_def world_of_def)
  obtain r w' where c: "cl_create (kb_vm K) v w = (r, w')" by fastforce
  obtain t where t: "performs True r (view w) (view w')
      (apsnd (\<lambda>m. (view w)\<lparr>os_vms := m\<rparr>) (sem_create vm_kind t v (fst s)))"
    using client_performs(3) [OF kube_lawsD(1) [OF assms(1)] c] m(1) by auto
  let ?v = "v\<lparr>vm_meta := created_at t (vm_meta v)\<rparr>"
  show ?thesis
  proof (cases "fst s (key_of vm_kind v)")
    case (Some y)
    then have "(\<exists>e. r = Inl e) \<and> view w' = view w" using t m(1)
      by (cases r) (auto simp: sem_create_def performs_def)
    then show ?thesis using c Some at_world_view [OF assms(2)] by auto
  next
    case None
    have "?v\<lparr>vm_status_of := no_vm_status\<rparr> = ?v" by (simp flip: assms(3))
    then have "sem_create vm_kind t v (fst s) = (Inr ?v, (fst s)(key_of vm_kind v \<mapsto> ?v))"
      using None by (simp add: sem_create_def Let_def created_at_def)
    then have "r = Inr ?v \<and> view w' = (view w)\<lparr>os_vms := (fst s)(key_of vm_kind v \<mapsto> ?v)\<rparr>"
      using t by (cases r) (auto simp: performs_def)
    moreover have "vms_live ((fst s)(key_of vm_kind v \<mapsto> ?v))"
      using m(2) by (auto simp: vms_live_def keyed_def key_of_def created_at_def)
    ultimately show ?thesis using c None at_world_vms [OF assms(2)] by auto
  qed
qed

lemma reliable_create_snap:
  assumes "kube_laws True view K" and "at_world view x s w" and "sn_status n = no_snapshot_status"
  shows "\<exists>t r w'. cl_create (kb_snap K) n w = (r, w') \<and>
    (if snd s (key_of snap_kind n) \<noteq> None then (\<exists>e. r = Inl e) \<and> at_world view x s w'
     else r = Inr (n\<lparr>sn_meta := created_at t (sn_meta n)\<rparr>) \<and>
       at_world view x (fst s, (snd s)(key_of snap_kind n \<mapsto> n\<lparr>sn_meta := created_at t (sn_meta n)\<rparr>)) w')"
proof -
  have m: "os_snaps (view w) = snd s" using assms(2) by (auto simp: at_world_def world_of_def)
  obtain r w' where c: "cl_create (kb_snap K) n w = (r, w')" by fastforce
  obtain t where t: "performs True r (view w) (view w')
      (apsnd (\<lambda>m. (view w)\<lparr>os_snaps := m\<rparr>) (sem_create snap_kind t n (snd s)))"
    using client_performs(3) [OF kube_lawsD(3) [OF assms(1)] c] m by auto
  let ?n = "n\<lparr>sn_meta := created_at t (sn_meta n)\<rparr>"
  show ?thesis
  proof (cases "snd s (key_of snap_kind n)")
    case (Some y)
    then have "(\<exists>e. r = Inl e) \<and> view w' = view w" using t m
      by (cases r) (auto simp: sem_create_def performs_def)
    then show ?thesis using c Some at_world_view [OF assms(2)] by auto
  next
    case None
    have "?n\<lparr>sn_status := no_snapshot_status\<rparr> = ?n" by (simp flip: assms(3))
    then have "sem_create snap_kind t n (snd s) = (Inr ?n, (snd s)(key_of snap_kind n \<mapsto> ?n))"
      using None by (simp add: sem_create_def Let_def created_at_def)
    then have "r = Inr ?n \<and> view w' = (view w)\<lparr>os_snaps := (snd s)(key_of snap_kind n \<mapsto> ?n)\<rparr>"
      using t by (cases r) (auto simp: performs_def)
    then show ?thesis using c None assms(2) by (auto simp: at_world_def world_of_def)
  qed
qed

lemma snapshot_op_effect:
  assumes "kube_laws True view K" and "at_world view x s w" and "same_op x x0"
  shows "\<exists>t. ends_in view x0 (snapshot_effect t x0 s) (execute_snapshot env K x w)"
proof (cases "os_snapshot_spec (vo_spec x0)")
  case None
  then show ?thesis using assms same_opD [OF assms(3)]
    by (auto simp: snapshot_effect_def execute_snapshot_def intro!: ends_inI)
next
  case (Some sp)
  have k: "vm_key x = vm_key x0" "os_snapshot_spec (vo_spec x) = Some sp" using same_opD [OF assms(3)] Some by simp_all
  show ?thesis
  proof (cases "fst s (vm_key x0)")
    case None
    have "ends_in view x0 (False, s) (execute_snapshot env K x w)"
      unfolding execute_snapshot_def k(2) option.case
      by (rule ends_with_vm [OF assms]) (simp_all add: None k)
    then show ?thesis by (simp add: snapshot_effect_def Some None)
  next
    case (Some vm)
    let ?n = "snapshot_of sp vm"
    define P where "P = (\<lambda>t. snapshot_effect t x0 s)"
    have P: "P t = (if snd s (key_of snap_kind ?n) \<noteq> None then (False, s)
        else (True, fst s, (snd s)(key_of snap_kind ?n \<mapsto> ?n\<lparr>sn_meta := created_at t (sn_meta ?n)\<rparr>)))" for t
      using \<open>os_snapshot_spec (vo_spec x0) = Some sp\<close> Some by (simp add: P_def snapshot_effect_def Let_def)
    obtain r0 w0 where g: "cl_get (kb_vm K) (vm_key x) w = (r0, w0)" by fastforce
    have w0: "at_world view x s w0" "r0 = Inr vm"
      using reliable_get_vm [OF assms(1,2) g] Some k by auto
    obtain w1 where w1: "save_op K (report 30 ''Creating snapshot...'' x) w0 =
        (None, report 30 ''Creating snapshot...'' x, w1)" "at_world view (report 30 ''Creating snapshot...'' x) s w1"
      using reliable_save [OF assms(1) w0(1), of "report 30 ''Creating snapshot...'' x"] by auto
    obtain t r w2 where c: "cl_create (kb_snap K) ?n w1 = (r, w2)"
      "if snd s (key_of snap_kind ?n) \<noteq> None
       then (\<exists>e. r = Inl e) \<and> at_world view (report 30 ''Creating snapshot...'' x) s w2
       else r = Inr (?n\<lparr>sn_meta := created_at t (sn_meta ?n)\<rparr>) \<and>
         at_world view (report 30 ''Creating snapshot...'' x)
           (fst s, (snd s)(key_of snap_kind ?n \<mapsto> ?n\<lparr>sn_meta := created_at t (sn_meta ?n)\<rparr>)) w2"
      using reliable_create_snap [OF assms(1) w1(2), of ?n] by (auto simp: snapshot_of_def)
    have "ends_in view x0 (P t) (execute_snapshot env K x w)"
      using c g w0(2) w1(1) k(2) assms(3) unfolding P
      by (auto simp: execute_snapshot_def with_op_vm_def vm_key_def [symmetric] split: if_splits intro!: ends_inI)
    then show ?thesis unfolding P_def by blast
  qed
qed

lemma reliable_delete_vm:
  assumes "kube_laws True view K" and "at_world view x s w" and "fst s k = Some vm"
  shows "\<exists>t w'. cl_delete (kb_vm K) vm w = (Inr (), w') \<and>
    at_world view x (snd (sem_delete vm_kind t vm (fst s)), snd s) w'"
proof -
  have m: "os_vms (view w) = fst s" "vms_live (fst s)" using assms(2) by (auto simp: at_world_def world_of_def)
  have key: "key_of vm_kind vm = k" using m(2) assms(3) by (auto simp: vms_live_def keyed_def)
  obtain r w' where c: "cl_delete (kb_vm K) vm w = (r, w')" by fastforce
  obtain t where t: "performs True r (view w) (view w')
      (apsnd (\<lambda>m. (view w)\<lparr>os_vms := m\<rparr>) (sem_delete vm_kind t vm (fst s)))"
    using client_performs(6) [OF kube_lawsD(1) [OF assms(1)] c] m(1) by auto
  have "fst (sem_delete vm_kind t vm (fst s)) = Inr ()" by (simp add: sem_delete_def key assms(3))
  then have "r = Inr () \<and> view w' = (view w)\<lparr>os_vms := snd (sem_delete vm_kind t vm (fst s))\<rparr>"
    using t by (cases r) (auto simp: performs_def)
  moreover have "vms_live (snd (sem_delete vm_kind t vm (fst s)))"
    using m(2) key assms(3) by (auto simp: sem_delete_def vms_live_def keyed_def key_of_def)
  ultimately show ?thesis using c at_world_vms [OF assms(2)] by auto
qed

lemma delete_op_effect:
  assumes "kube_laws True view K" and "at_world view x s w" and "same_op x x0"
  shows "\<exists>t. ends_in view x0 (delete_effect t x0 s) (execute_delete K x w)"
proof -
  have k: "vm_key x = vm_key x0" using same_opD [OF assms(3)] by simp
  obtain r0 w0 where g: "cl_get (kb_vm K) (vm_key x) w = (r0, w0)" by fastforce
  note c = reliable_get_vm [OF assms(1,2) g]
  show ?thesis
  proof (cases "fst s (vm_key x0)")
    case None
    then show ?thesis using c k g assms(3)
      by (auto simp: execute_delete_def vm_key_def [symmetric] delete_effect_def intro!: ends_inI)
  next
    case (Some vm)
    let ?x = "report 50 ''Deleting VM...'' x"
    obtain w1 where w1: "save_op K ?x w0 = (None, ?x, w1)" "at_world view ?x s w1"
      using reliable_save [OF assms(1) c(1), of ?x] by auto
    obtain t w2 where "cl_delete (kb_vm K) vm w1 = (Inr (), w2)"
      "at_world view ?x (snd (sem_delete vm_kind t vm (fst s)), snd s) w2"
      using reliable_delete_vm [OF assms(1) w1(2) Some] by auto
    then have "ends_in view x0 (delete_effect t x0 s) (execute_delete K x w)"
      using c g w1(1) Some k assms(3)
      by (auto simp: execute_delete_def vm_key_def [symmetric] delete_effect_def intro!: ends_inI)
    then show ?thesis by blast
  qed
qed


lemma reliable_get_snap:
  assumes "kube_laws True view K" and "at_world view x s w" and "cl_get (kb_snap K) k w = (r, w')"
  shows "at_world view x s w'" and "case snd s k of None \<Rightarrow> \<exists>e. r = Inl e | Some sn \<Rightarrow> r = Inr sn"
  using get_stored [OF kube_lawsD(3) [OF assms(1)] assms(3)] assms(2) at_world_view [OF assms(2)]
  by (cases r; auto simp: at_world_def world_of_def split: option.splits)+

text \<open>Looking for the source of a clone ends in an error or goes on with the machine.\<close>

lemma clone_source_outcome:
  assumes "kube_laws True view K" and "at_world view x s w" and "same_op x x0"
  shows "\<exists>e y w'. same_op y x0 \<and> at_world view y s w' \<and>
    clone_source K c x w f =
      (case source_of c x0 s of None \<Rightarrow> (Some e, y, w') | Some vm \<Rightarrow> f (vm_spec_of vm) (om_labels (vm_meta vm)) y w')"
proof (cases "cs_snapshot_ref c = []")
  case True
  obtain r w' where g: "cl_get (kb_vm K) (vm_key x) w = (r, w')" by fastforce
  show ?thesis
    using reliable_get_vm [OF assms(1,2) g] same_opD [OF assms(3)] assms(3) True g
    by (cases r) (auto simp: clone_source_def with_op_vm_def vm_key_def [symmetric] source_of_def split: option.splits)
next
  case False
  let ?x = "set_message ''Loading snapshot configuration...'' x"
  have m: "vo_meta ?x = vo_meta x0" "same_op ?x x0" using assms(3) by (simp_all add: set_message_def same_op_def)
  obtain w1 where w1: "save_op K ?x w = (None, ?x, w1)" "at_world view ?x s w1"
    using reliable_save [OF assms(1,2), of ?x] by auto
  obtain r w2 where g: "cl_get (kb_snap K) (om_namespace (vo_meta x0), cs_snapshot_ref c) w1 = (r, w2)" by fastforce
  note snap = reliable_get_snap [OF assms(1) w1(2) g]
  show ?thesis
  proof (cases "snd s (om_namespace (vo_meta x0), cs_snapshot_ref c)")
    case None
    then show ?thesis using snap False m w1(1) g by (auto simp: clone_source_def source_of_def)
  next
    case (Some sn)
    let ?r = "sp_vm_ref (sn_spec sn)"
    obtain r' w3 where g': "cl_get (kb_vm K) (vr_namespace ?r, vr_name ?r) w2 = (r', w3)" by fastforce
    note vm = reliable_get_vm [OF assms(1) snap(1) g']
    show ?thesis
    proof (cases "vr_name ?r = []")
      case True
      then show ?thesis using snap Some False m w1(1) g by (auto simp: clone_source_def source_of_def Let_def)
    next
      case named: False
      show ?thesis
      proof (cases "fst s (vr_namespace ?r, vr_name ?r)")
        case None
        then obtain e where "r' = Inl e" using vm(2) by auto
        then show ?thesis using None named vm(1) snap Some False m w1(1) g g'
          by (auto simp: clone_source_def source_of_def Let_def)
      next
        case vm': (Some v)
        then have "r' = Inr v" using vm(2) by simp
        then have "clone_source K c x w f = f (vm_spec_of v) (om_labels (vm_meta v)) ?x w3"
          "source_of c x0 s = Some v"
          using vm' named snap Some False m w1(1) g g' by (auto simp: clone_source_def source_of_def Let_def)
        then show ?thesis using m(2) vm(1) by (intro exI [of _ ?x] exI [of _ w3] exI) simp
      qed
    qed
  qed
qed

lemma clone_op_effect:
  assumes "kube_laws True view K" and "at_world view x s w" and "same_op x x0"
  shows "\<exists>t. ends_in view x0 (clone_effect t x0 s) (execute_clone env K x w)"
proof (cases "os_clone_spec (vo_spec x0)")
  case None
  then show ?thesis using assms same_opD [OF assms(3)]
    by (auto simp: clone_effect_def execute_clone_def intro!: ends_inI)
next
  case (Some c)
  note k = same_opD [OF assms(3)]
  let ?create = "\<lambda>spec ls x w.
     and_then (save_op K (report 30 ''Cloning VM configuration...'' x) w) (\<lambda>x w.
     let target = clone_target c x spec ls
     in and_then (save_op K (report 60 ''Creating cloned VM...'' x) w) (\<lambda>x w.
        case cl_create (kb_vm K) target w of
          (Inl e, w) \<Rightarrow> (Some (wrap_error ''failed to create cloned VM'' e), x, w)
        | (Inr vm, w) \<Rightarrow>
            (None, set_result (oe_json env [(''sourceSnapshot'', RText (cs_snapshot_ref c)),
               (''targetNamespace'', RText (om_namespace (vm_meta vm))),
               (''targetVM'', RText (om_name (vm_meta vm)))]) x, w)))"
  have ex: "execute_clone env K x w = clone_source K c x w ?create"
    using k Some by (simp add: execute_clone_def)
  obtain e y w1 where y: "same_op y x0" "at_world view y s w1" and src: "clone_source K c x w ?create =
      (case source_of c x0 s of None \<Rightarrow> (Some e, y, w1) | Some vm \<Rightarrow> ?create (vm_spec_of vm) (om_labels (vm_meta vm)) y w1)"
    using clone_source_outcome [OF assms, of c ?create] by blast
  show ?thesis
  proof (cases "source_of c x0 s")
    case None
    then show ?thesis unfolding ex src using y by (auto simp: clone_effect_def Some intro!: ends_inI)
  next
    case src': (Some vm)
    let ?v = "clone_target c x0 (vm_spec_of vm) (om_labels (vm_meta vm))"
    let ?y = "report 30 ''Cloning VM configuration...'' y"
    let ?z = "report 60 ''Creating cloned VM...'' ?y"
    have v: "clone_target c ?y (vm_spec_of vm) (om_labels (vm_meta vm)) = ?v" "vm_status_of ?v = no_vm_status"
      using y(1) by (simp_all add: clone_target_def report_def same_op_def Let_def)
    define P where "P = (\<lambda>t. clone_effect t x0 s)"
    have P: "P t = (if fst s (key_of vm_kind ?v) \<noteq> None then (False, s)
        else (True, (fst s)(key_of vm_kind ?v \<mapsto> ?v\<lparr>vm_meta := created_at t (vm_meta ?v)\<rparr>), snd s))" for t
      by (simp add: P_def clone_effect_def Some src' Let_def)
    obtain w2 where w2: "save_op K ?y w1 = (None, ?y, w2)" "at_world view ?y s w2"
      using reliable_save [OF assms(1) y(2), of ?y] by auto
    obtain w3 where w3: "save_op K ?z w2 = (None, ?z, w3)" "at_world view ?z s w3"
      using reliable_save [OF assms(1) w2(2), of ?z] by auto
    obtain t r w4 where c: "cl_create (kb_vm K) ?v w3 = (r, w4)"
      "if fst s (key_of vm_kind ?v) \<noteq> None then (\<exists>e. r = Inl e) \<and> at_world view ?z s w4
       else r = Inr (?v\<lparr>vm_meta := created_at t (vm_meta ?v)\<rparr>) \<and>
         at_world view ?z ((fst s)(key_of vm_kind ?v \<mapsto> ?v\<lparr>vm_meta := created_at t (vm_meta ?v)\<rparr>), snd s) w4"
      using reliable_create_vm [OF assms(1) w3(2) v(2)] by blast
    have "ends_in view x0 (P t) (execute_clone env K x w)"
      unfolding P ex src src' option.case using c w2(1) w3(1) y(1)
      by (auto simp: Let_def v(1) split: if_splits intro!: ends_inI)
    then show ?thesis unfolding P_def by blast
  qed
qed

text \<open>Every operation, whatever its kind.\<close>

lemma execute_effect:
  assumes "kube_laws True view K" and "at_world view x s w" and "same_op x x0"
  shows "\<exists>t. ends_in view x0 (op_effect t x0 s) (execute_operation env K x w)"
proof -
  have k: "os_operation (vo_spec x) = os_operation (vo_spec x0)" "vo_spec x = vo_spec x0"
    using same_opD [OF assms(3)] by simp_all
  have fail: "ends_in view x0 (False, s) (Some e, x, w)" for e
    using assms(2,3) by (intro ends_inI) simp_all
  have migrate: "os_migrate_spec (vo_spec x0) = None \<Longrightarrow> ends_in view x0 (False, s) (execute_migrate env K x w)"
    using fail by (simp add: execute_migrate_def k(2))
  have resize: "os_resize_spec (vo_spec x0) = None \<Longrightarrow> ends_in view x0 (False, s) (execute_resize env K x w)"
    using fail by (simp add: execute_resize_def k(2))
  note parts = clone_op_effect [OF assms, of env] snapshot_op_effect [OF assms, of env] delete_op_effect [OF assms]
  note rules = power_effect [OF assms] restart_effect [OF assms]
  let ?p = "os_operation (vo_spec x0)"
  consider "?p = op_start" | "?p = op_stop" | "?p = op_restart" | "?p = op_clone" | "?p = op_migrate"
    | "?p = op_resize" | "?p = op_snapshot" | "?p = op_delete"
    | "?p \<notin> {op_start, op_stop, op_restart, op_clone, op_migrate, op_resize, op_snapshot, op_delete}" by blast
  then show ?thesis
  proof cases
    case 5
    then show ?thesis using migrate migrate_effect [OF assms]
      by (cases "os_migrate_spec (vo_spec x0)") (simp_all add: execute_operation_def op_effect_def k(1) op_type_defs)
  next
    case 6
    then show ?thesis using resize resize_effect [OF assms]
      by (cases "os_resize_spec (vo_spec x0)") (simp_all add: execute_operation_def op_effect_def k(1) op_type_defs)
  next
    case 9
    then show ?thesis using fail by (simp add: execute_operation_def op_effect_def k(1) Let_def)
  qed (use parts rules in \<open>simp_all add: execute_operation_def op_effect_def k(1) op_type_defs execute_start_def execute_stop_def\<close>)
qed

section \<open>Reconciliations with a reliable API\<close>

text \<open>The operation stored under \<open>k\<close>, and the machines and snapshots around it.\<close>

definition stored_op :: "('w \<Rightarrow> obj_store) \<Rightarrow> obj_key \<Rightarrow> vm_operation \<Rightarrow> vm_world \<Rightarrow> 'w \<Rightarrow> bool" where
  "stored_op view k x s w \<longleftrightarrow> os_ops (view w) k = Some x \<and> key_of op_kind x = k \<and> world_of (view w) = s \<and>
     vms_live (fst s) \<and> om_deletion (vo_meta x) = None"

definition ended :: "vm_operation_status \<Rightarrow> bool" where
  "ended st \<longleftrightarrow> ot_completion_time st \<noteq> None \<and> (ot_phase st = opp_succeeded \<or> ot_phase st = opp_failed)"

lemma stored_op_world: "stored_op view k x s w \<Longrightarrow> at_world view x s w"
  by (auto simp: stored_op_def at_world_def intro: exI [of _ "vo_status x"])

lemma reliable_get_op:
  assumes "kube_laws True view K" and "stored_op view k x s w"
  shows "\<exists>w'. cl_get (kb_op K) k w = (Inr x, w') \<and> stored_op view k x s w'"
proof -
  obtain r w' where g: "cl_get (kb_op K) k w = (r, w')" by fastforce
  have "r = Inr x" "view w' = view w"
    using get_stored [OF kube_lawsD(2) [OF assms(1)] g] assms(2) by (cases r; auto simp: stored_op_def)+
  then show ?thesis using g assms(2) by (simp add: stored_op_def)
qed

text \<open>A last status update of the operation \<open>y\<close>, edited to \<open>z\<close>.\<close>

lemma reliable_last_save:
  assumes "kube_laws True view K" and "at_world view y s w" and "same_op z y"
    and "key_of op_kind y = k" and "om_deletion (vo_meta y) = None"
  shows "\<exists>w'. save_and_return K z w r = ((r, None), w') \<and> stored_op view k z s w'"
proof -
  obtain w' where w': "save_op K z w = (None, z, w')" "at_world view z s w'" "os_ops (view w') (key_of op_kind z) = Some z"
    using reliable_save [OF assms(1-3)] by blast
  then show ?thesis using assms(3-5) same_op_key [OF assms(3)]
    by (auto simp: save_and_return_def stored_op_def at_world_def same_op_def)
qed

text \<open>The finalizer and the first phase are stored before anything else.\<close>

definition based_on :: "vm_operation \<Rightarrow> vm_operation \<Rightarrow> bool" where
  "based_on x x0 \<longleftrightarrow> vo_spec x = vo_spec x0 \<and> om_namespace (vo_meta x) = om_namespace (vo_meta x0) \<and>
     vm_op_finalizer \<in> set (om_finalizers (vo_meta x))"

lemma based_on_same: "based_on x x0 \<Longrightarrow> same_op y x \<Longrightarrow> based_on y x0"
  by (simp add: based_on_def same_op_def)

lemma op_effect_cong:
  assumes "vo_spec x = vo_spec x0" and "om_namespace (vo_meta x) = om_namespace (vo_meta x0)"
  shows "op_effect t x s = op_effect t x0 s"
proof -
  have k: "vm_key x = vm_key x0" "vo_spec x = vo_spec x0" "om_namespace (vo_meta x) = om_namespace (vo_meta x0)"
    using assms by (simp_all add: vm_key_def ref_key_def)
  have "clone_target c x = clone_target c x0" for c
    using k by (intro ext) (simp add: clone_target_def)
  moreover have "source_of c x = source_of c x0" for c
    using k by (intro ext) (simp add: source_of_def)
  ultimately have "clone_effect t x s = clone_effect t x0 s" "snapshot_effect t x s = snapshot_effect t x0 s"
    "delete_effect t x s = delete_effect t x0 s"
    by (simp_all add: clone_effect_def snapshot_effect_def delete_effect_def k cong: option.case_cong)
  then show ?thesis by (simp add: op_effect_def k Let_def)
qed

lemma reliable_ensure_finalizer:
  assumes "kube_laws True view K" and "stored_op view k x s w"
  shows "\<exists>y w'. ensure_finalizer K x w = (None, y, w') \<and> stored_op view k y s w' \<and> based_on y x \<and>
    vo_status y = vo_status x"
proof (cases "vm_op_finalizer \<in> set (om_finalizers (vo_meta x))")
  case True
  then show ?thesis using assms(2) by (auto simp: ensure_finalizer_def based_on_def)
next
  case False
  define y where "y = x\<lparr>vo_meta := add_finalizer vm_op_finalizer (vo_meta x)\<rparr>"
  have x: "os_ops (view w) k = Some x" "key_of op_kind x = k" "om_deletion (vo_meta x) = None"
    using assms(2) by (simp_all add: stored_op_def)
  have y: "key_of op_kind y = k" "based_on y x" "vo_status y = vo_status x" "om_deletion (vo_meta y) = None"
    "om_created (vo_meta y) = om_created (vo_meta x)"
    using x False by (simp_all add: y_def key_of_def add_finalizer_def based_on_def)
  obtain r w' where u: "cl_update (kb_op K) y w = (r, w')" by fastforce
  have "y\<lparr>vo_meta := (vo_meta y)\<lparr>om_created := om_created (vo_meta x), om_deletion := None\<rparr>, vo_status := vo_status x\<rparr> = y"
    by (simp flip: y(3,4,5))
  then have "sem_update op_kind y (os_ops (view w)) = (Inr y, (os_ops (view w))(k \<mapsto> y))"
    using x y(1) by (simp add: sem_update_def Let_def)
  then have "performs True r (view w) (view w') (Inr y, (view w)\<lparr>os_ops := (os_ops (view w))(k \<mapsto> y)\<rparr>)"
    using client_performs(4) [OF kube_lawsD(2) [OF assms(1)] u] by simp
  then have "r = Inr y" "view w' = (view w)\<lparr>os_ops := (os_ops (view w))(k \<mapsto> y)\<rparr>"
    by (cases r; auto simp: performs_def)+
  then show ?thesis using False u y assms(2)
    by (simp add: ensure_finalizer_def stored_op_def world_of_def flip: y_def)
qed

lemma reconcile_to_phase:
  assumes "kube_laws True view K" and "stored_op view k x s w"
  shows "\<exists>y w'. reconcile_op env K k w = by_phase env K y w' \<and> stored_op view k y s w' \<and> based_on y x \<and>
    (if ot_phase (vo_status x) = [] then ot_phase (vo_status y) = opp_pending else vo_status y = vo_status x)"
proof -
  obtain w1 where g: "cl_get (kb_op K) k w = (Inr x, w1)" "stored_op view k x s w1"
    using reliable_get_op [OF assms] by blast
  obtain y w2 where f: "ensure_finalizer K x w1 = (None, y, w2)" "stored_op view k y s w2" "based_on y x"
    "vo_status y = vo_status x" using reliable_ensure_finalizer [OF assms(1) g(2)] by blast
  have d: "om_deletion (vo_meta x) = None" using assms(2) by (simp add: stored_op_def)
  show ?thesis
  proof (cases "ot_phase (vo_status x) = []")
    case False
    then show ?thesis using g f d by (auto simp: reconcile_op_def ensure_phase_def)
  next
    case True
    let ?z = "y\<lparr>vo_status := (vo_status y)\<lparr>ot_phase := opp_pending, ot_start_time := Some (oe_now env), ot_progress := 0\<rparr>\<rparr>"
    obtain w3 where w3: "save_op K ?z w2 = (None, ?z, w3)" "at_world view ?z s w3"
      "os_ops (view w3) (key_of op_kind ?z) = Some ?z"
      using reliable_save [OF assms(1) stored_op_world [OF f(2)], of ?z] by auto
    then have "stored_op view k ?z s w3" using f(2) by (auto simp: stored_op_def at_world_def)
    moreover have "based_on ?z x" using f(3) by (simp add: based_on_def)
    ultimately show ?thesis using g(1) f(1,4) d w3(1) True
      by (intro exI [of _ ?z] exI [of _ w3]) (simp add: reconcile_op_def ensure_phase_def)
  qed
qed

lemma running_by_phase:
  assumes "kube_laws True view K" and "stored_op view k x s w" and "ot_phase (vo_status x) = opp_running"
    and "by_phase env K x w = (res, w')"
  shows "\<exists>t y s'. stored_op view k y s' w' \<and> same_op y x \<and> res = (nothing_more, None) \<and>
    ot_completion_time (vo_status y) = Some (oe_now env) \<and>
    (ot_phase (vo_status y), s') = apfst (\<lambda>ok. if ok then opp_succeeded else opp_failed) (op_effect t x s)"
proof -
  have x: "key_of op_kind x = k" "om_deletion (vo_meta x) = None" using assms(2) by (simp_all add: stored_op_def)
  have run: "reconcile_running env K x w = (res, w')"
    using assms(3,4) by (simp add: by_phase_def op_phase_defs)
  obtain t where t: "ends_in view x (op_effect t x s) (execute_operation env K x w)"
    using execute_effect [OF assms(1) stored_op_world [OF assms(2)]] same_op_refl by blast
  obtain ok s' where q: "op_effect t x s = (ok, s')" by fastforce
  obtain e y w2 where ex: "execute_operation env K x w = (e, y, w2)" by (cases "execute_operation env K x w")
  have y: "e = None \<longleftrightarrow> ok" "same_op y x" "at_world view y s' w2" using t q ex by (auto simp: ends_in_def)
  define z where "z = (case e of
      Some e \<Rightarrow> finished env opp_failed (''Operation failed: '' @ ae_text e) y
    | None \<Rightarrow> set_progress 100 (finished env opp_succeeded (os_operation (vo_spec y) @ '' operation completed successfully'') y))"
  have z: "same_op z x" "same_op z y" "ot_completion_time (vo_status z) = Some (oe_now env)"
    "ot_phase (vo_status z) = (if ok then opp_succeeded else opp_failed)"
    using y(1,2) by (auto simp: z_def set_progress_def finished_def same_op_def split: option.splits)
  have "key_of op_kind y = k" "om_deletion (vo_meta y) = None"
    using same_op_key [OF y(2)] y(2) x by (simp_all add: same_op_def)
  then obtain w3 where "save_and_return K z w2 nothing_more = ((nothing_more, None), w3)" "stored_op view k z s' w3"
    using reliable_last_save [OF assms(1) y(3) z(2)] by blast
  moreover have "save_and_return K z w2 nothing_more = (res, w')"
    using run ex by (cases e) (simp_all add: reconcile_running_def z_def)
  ultimately show ?thesis using z q by (intro exI [of _ t] exI [of _ z] exI [of _ s']) simp
qed

lemma running_reconciled:
  assumes "kube_laws True view K" and "stored_op view k x s w" and "ot_phase (vo_status x) = opp_running"
    and "reconcile_op env K k w = (res, w')"
  shows "\<exists>t y s'. stored_op view k y s' w' \<and> vo_spec y = vo_spec x \<and> res = (nothing_more, None) \<and>
    ot_completion_time (vo_status y) = Some (oe_now env) \<and>
    (ot_phase (vo_status y), s') = apfst (\<lambda>ok. if ok then opp_succeeded else opp_failed) (op_effect t x s)"
proof -
  obtain x1 w1 where x1: "reconcile_op env K k w = by_phase env K x1 w1" "stored_op view k x1 s w1" "based_on x1 x"
    "vo_status x1 = vo_status x"
    using reconcile_to_phase [OF assms(1,2), of env] assms(3) by (auto simp: op_phase_defs)
  show ?thesis
    using running_by_phase [OF assms(1) x1(2), of env res w'] x1(1,3,4) assms(3,4) op_effect_cong [of x1 x]
    by (simp add: same_op_def based_on_def) metis
qed

lemma pending_by_phase:
  assumes "kube_laws True view K" and "stored_op view k x s w" and "ot_phase (vo_status x) = opp_pending"
    and "by_phase env K x w = (res, w')"
  shows "\<exists>y. stored_op view k y s w' \<and> vo_spec y = vo_spec x \<and>
    (ot_phase (vo_status y) = opp_running \<or> ended (vo_status y))"
proof -
  have x: "key_of op_kind x = k" "om_deletion (vo_meta x) = None" using assms(2) by (simp_all add: stored_op_def)
  have run: "reconcile_pending env K x w = (res, w')" using assms(3,4) by (simp add: by_phase_def)
  obtain e w1 where v: "validate_operation K x w = (e, w1)" by fastforce
  obtain r w2 where g: "cl_get (kb_vm K) (vm_key x) w = (r, w2)" by fastforce
  have "w1 = w2" using v g by (auto simp: validate_operation_def vm_key_def Let_def split: sum.splits)
  then have w1: "at_world view x s w1" using reliable_get_vm(1) [OF assms(1) stored_op_world [OF assms(2)] g] by simp
  define z where "z = (case e of Some e \<Rightarrow> finished env opp_failed (''Validation failed: '' @ ae_text e) x
    | None \<Rightarrow> x\<lparr>vo_status := (vo_status x)\<lparr>ot_phase := opp_running, ot_progress := 10,
        ot_message := ''Starting '' @ os_operation (vo_spec x) @ '' operation''\<rparr>\<rparr>)"
  have z: "same_op z x" "ot_phase (vo_status z) = opp_running \<or> ended (vo_status z)"
    by (auto simp: z_def ended_def finished_def split: option.splits)
  have "save_and_return K z w1 (case e of None \<Rightarrow> 5 * second | Some e \<Rightarrow> nothing_more) = (res, w')"
    using run v by (cases e) (simp_all add: reconcile_pending_def z_def)
  then have "stored_op view k z s w'"
    using reliable_last_save [OF assms(1) w1 z(1) x] by (metis prod.inject)
  then show ?thesis using z by (auto simp: same_op_def)
qed

lemma ended_stays:
  assumes "kube_laws True view K" and "stored_op view k x s w" and "ended (vo_status x)"
    and "reconcile_op env K k w = (res, w')"
  shows "\<exists>y. stored_op view k y s w' \<and> vo_spec y = vo_spec x \<and> ended (vo_status y)"
proof -
  have "ot_phase (vo_status x) \<noteq> []" "ot_phase (vo_status x) \<noteq> opp_pending" "ot_phase (vo_status x) \<noteq> opp_running"
    using assms(3) by (auto simp: ended_def op_phase_defs)
  then show ?thesis
    using reconcile_to_phase [OF assms(1,2), of env] assms(3,4) by (auto simp: by_phase_def based_on_def)
qed

text \<open>
  C24: When the API does what it is asked, a reconciliation of a running operation ends it: it is stored as
  succeeded or failed, with its completion time and its specification unchanged, and the machines
  and snapshots are those that the abstract effect of the operation describes.
\<close>

theorem running_operation_has_its_effect:
  assumes "kube_laws True view K" and "stored_op view k x s w" and "ot_phase (vo_status x) = opp_running"
    and "reconcile_op env K k w = (res, w')"
  shows "\<exists>t y s'. stored_op view k y s' w' \<and> vo_spec y = vo_spec x \<and> res = (nothing_more, None) \<and>
    ot_completion_time (vo_status y) = Some (oe_now env) \<and>
    (ot_phase (vo_status y), s') = apfst (\<lambda>ok. if ok then opp_succeeded else opp_failed) (op_effect t x s)"
  by (rule running_reconciled [OF assms])

text \<open>
  C25: When the API does what it is asked, two reconciliations are enough for every operation that is
  new, pending or running: it is then stored as succeeded or failed, with its completion time, its
  specification unchanged.
\<close>

theorem operations_finish:
  assumes "kube_laws True view K" and "stored_op view k x s w"
    and "ot_phase (vo_status x) \<in> {[], opp_pending, opp_running}"
    and "reconcile_op env K k w = (r1, w1)" and "reconcile_op env' K k w1 = (r2, w2)"
  shows "\<exists>y s'. stored_op view k y s' w2 \<and> vo_spec y = vo_spec x \<and> ended (vo_status y)"
proof -
  have "\<exists>y s'. stored_op view k y s' w1 \<and> vo_spec y = vo_spec x \<and>
      (ot_phase (vo_status y) = opp_running \<or> ended (vo_status y))"
  proof (cases "ot_phase (vo_status x) = opp_running")
    case True
    show ?thesis using running_reconciled [OF assms(1,2) True assms(4)]
      by (auto simp: ended_def prod_eq_iff split: if_splits)
  next
    case False
    obtain x1 w0 where x1: "reconcile_op env K k w = by_phase env K x1 w0" "stored_op view k x1 s w0"
      "vo_spec x1 = vo_spec x" "ot_phase (vo_status x1) = opp_pending"
      using reconcile_to_phase [OF assms(1,2), of env] assms(3) False by (auto simp: based_on_def split: if_splits)
    show ?thesis using pending_by_phase [OF assms(1) x1(2,4), of env r1 w1] x1(1,3) assms(4) by auto
  qed
  then obtain y s' where y: "stored_op view k y s' w1" "vo_spec y = vo_spec x"
    "ot_phase (vo_status y) = opp_running \<or> ended (vo_status y)" by blast
  from y(3) show ?thesis
  proof
    assume "ot_phase (vo_status y) = opp_running"
    then show ?thesis using running_reconciled [OF assms(1) y(1) _ assms(5)] y(2)
      by (fastforce simp: ended_def prod_eq_iff split: if_splits)
  next
    assume "ended (vo_status y)"
    then show ?thesis using ended_stays [OF assms(1) y(1) _ assms(5)] y(2) by metis
  qed
qed


section \<open>Repeating an operation\<close>

text \<open>
  When the last status update of an operation is lost, the next reconciliation executes it again.
\<close>

lemma change_vm_again:
  assumes "change_vm f k s = (True, s')" and "\<And>vm. f (f vm) = f vm"
  shows "change_vm f k s' = (True, s')"
  using assms by (auto simp: change_vm_def split: option.splits)

lemma resized_again: "resized r (resized r vm) = resized r vm"
  by (simp add: resized_def Let_def)

lemma migrated_again:
  "set_vm_phase p (set_node n (set_vm_phase p (set_node n vm))) = set_vm_phase p (set_node n vm)"
  by (simp add: set_vm_phase_def set_node_def)

lemma delete_again:
  assumes "delete_effect t x s = (True, s')" and "vms_live (fst s)"
  shows "delete_effect t' x s' = (True, s')"
proof (cases "fst s (vm_key x)")
  case None
  then show ?thesis using assms(1) by (auto simp: delete_effect_def)
next
  case (Some vm)
  then have k: "key_of vm_kind vm = vm_key x" "om_deletion (vm_meta vm) \<noteq> None \<longrightarrow> om_finalizers (vm_meta vm) \<noteq> []"
    using assms(2) by (auto simp: vms_live_def keyed_def)
  then show ?thesis using assms(1) Some
    by (auto simp: delete_effect_def sem_delete_def key_of_def split: if_splits)
qed

lemma clone_again:
  assumes "clone_effect t x s = (True, s')"
  shows "clone_effect t' x s' = (False, s')"
proof -
  from assms obtain c vm where c: "os_clone_spec (vo_spec x) = Some c" "source_of c x s = Some vm"
    by (auto simp: clone_effect_def split: option.splits)
  let ?v = "clone_target c x (vm_spec_of vm) (om_labels (vm_meta vm))"
  have new: "fst s (key_of vm_kind ?v) = None"
    and s': "s' = ((fst s)(key_of vm_kind ?v \<mapsto> ?v\<lparr>vm_meta := created_at t (vm_meta ?v)\<rparr>), snd s)"
    using assms c by (auto simp: clone_effect_def Let_def split: if_splits)
  have "source_of c x s' = Some vm"
    using c(2) new unfolding s' by (auto simp: source_of_def Let_def split: if_splits option.splits)
  then show ?thesis using s' by (auto simp: clone_effect_def c(1) Let_def)
qed

lemma snapshot_again:
  assumes "snapshot_effect t x s = (True, s')"
  shows "snapshot_effect t' x s' = (False, s')"
  using assms by (auto simp: snapshot_effect_def Let_def split: option.splits if_splits)

lemma repeated_operations:
  assumes "op_effect t x s = (True, s')" and "vms_live (fst s)"
  shows "op_effect t' x s' = (os_operation (vo_spec x) \<notin> {op_clone, op_snapshot}, s')"
proof -
  let ?p = "os_operation (vo_spec x)"
  note power = change_vm_again [where f = "set_running b" for b]
  consider "?p = op_start" | "?p = op_stop" | "?p = op_restart" | "?p = op_clone" | "?p = op_migrate"
    | "?p = op_resize" | "?p = op_snapshot" | "?p = op_delete"
    using assms(1) by (auto simp: op_effect_def Let_def split: if_splits)
  then show ?thesis
  proof cases
    case 4
    then show ?thesis using assms clone_again by (simp add: op_effect_def op_type_defs)
  next
    case 5
    then show ?thesis using assms change_vm_again [where f = "\<lambda>vm. set_vm_phase vm_running (set_node n vm)" for n]
      by (simp add: op_effect_def op_type_defs migrated_again split: option.splits)
  next
    case 6
    then show ?thesis using assms change_vm_again [where f = "resized r" for r]
      by (simp add: op_effect_def op_type_defs resized_again split: option.splits)
  next
    case 7
    then show ?thesis using assms snapshot_again by (simp add: op_effect_def op_type_defs)
  next
    case 8
    then show ?thesis using assms delete_again by (simp add: op_effect_def op_type_defs)
  qed (use assms(1) power in \<open>simp_all add: op_effect_def op_type_defs\<close>)
qed

text \<open>
  When the controller stops after an operation was carried out and before its success was stored, the
  next reconciliation carries it out again.  That changes nothing more, and it is reported as a
  success, except for a clone and a snapshot: those are reported as failed although the machine or
  snapshot asked for was made.
\<close>

theorem interrupted_operations:
  assumes "kube_laws True view K" and "stored_op view k x s w" and "ot_phase (vo_status x) = opp_running"
    and "keyed op_kind (os_ops (view w))"
    and "execute_operation env K x w = (None, y, w1)" and "reconcile_op env' K k w1 = (res, w2)"
  shows "\<exists>z. stored_op view k z (world_of (view w1)) w2 \<and> ot_phase (vo_status z) =
    (if os_operation (vo_spec x) \<in> {op_clone, op_snapshot} then opp_failed else opp_succeeded)"
proof -
  let ?A = "{st. ot_phase st = opp_running}"
  have A: "keeps_running ?A" by (simp add: keeps_running_def)
  have "on_course view ?A opp_running k (view w) (None, x, w)"
    using assms(2-4) by (auto simp: on_course_def kept_def stored_op_def)
  from execute_operation_on_course [OF assms(1) A this, of env]
  have "kept ?A k (view w) (view w1)" using assms(5) by (simp add: on_course_def)
  then obtain x1 where x1: "os_ops (view w1) k = Some x1" "ot_phase (vo_status x1) = opp_running" by (auto simp: kept_def)
  obtain t s1 where t: "op_effect t x s = (True, s1)" "same_op y x" "at_world view y s1 w1"
    using execute_effect [OF assms(1) stored_op_world [OF assms(2)] same_op_refl, of env] assms(5)
    by (simp add: ends_in_def) (metis prod.collapse)
  have k: "key_of op_kind y = k" using same_op_key [OF t(2)] assms(2) by (simp add: stored_op_def)
  have s1: "world_of (view w1) = s1" using t(3) by (simp add: at_world_def)
  have "same_op x1 x" using t(2,3) x1(1) k by (auto simp: at_world_def same_op_def)
  then have so: "stored_op view k x1 s1 w1" "vo_spec x1 = vo_spec x" "op_effect t' x1 s1 = op_effect t' x s1" for t'
    using x1(1) t(3) assms(2) same_op_key [of x1 x]
    by (auto simp: stored_op_def at_world_def same_op_def op_effect_cong [of x1 x])
  have "vms_live (fst s)" using assms(2) by (simp add: stored_op_def)
  note again = repeated_operations [OF t(1) this]
  show ?thesis using running_reconciled [OF assms(1) so(1) x1(2) assms(6)] unfolding so(3) again s1 by fastforce
qed

section \<open>The theorems on a concrete API\<close>

lemma demo_stored:
  "stored_op sim_view demo_key (demo_op t p) ([(''prod'', ''web'') \<mapsto> demo_vm], Map.empty) (demo_world t p)"
  by (auto simp: stored_op_def vms_live_def keyed_def plain_meta_def) 
    (simp add: world_of_def sim_view_def demo_world_def demo_vms_def no_objects_def)

theorem running_operation_has_its_effect_witness:
  "\<exists>y s'. stored_op sim_view demo_key y s'
      (snd (reconcile_op demo_env sim_kube demo_key (demo_world op_stop opp_running))) \<and>
    ot_phase (vo_status y) = opp_succeeded \<and> s' = ([(''prod'', ''web'') \<mapsto> set_running False demo_vm], Map.empty)"
proof -
  obtain res w' where r: "reconcile_op demo_env sim_kube demo_key (demo_world op_stop opp_running) = (res, w')" by fastforce
  have e: "op_effect t (demo_op op_stop opp_running) ([(''prod'', ''web'') \<mapsto> demo_vm], Map.empty) =
      (True, [(''prod'', ''web'') \<mapsto> set_running False demo_vm], Map.empty)" for t
    by (simp add: op_effect_def change_vm_def vm_key_def ref_key_def demo_op_def plain_meta_def op_type_defs)
  show ?thesis using running_operation_has_its_effect [OF sim_kube_laws demo_stored _ r] r e by auto
qed

theorem operations_finish_witness:
  "\<exists>y s'. stored_op sim_view demo_key y s' (snd (reconcile_op demo_env sim_kube demo_key
      (snd (reconcile_op demo_env sim_kube demo_key (demo_world op_clone []))))) \<and> ended (vo_status y)"
proof -
  obtain r1 w1 where r1: "reconcile_op demo_env sim_kube demo_key (demo_world op_clone []) = (r1, w1)" by fastforce
  obtain r2 w2 where r2: "reconcile_op demo_env sim_kube demo_key w1 = (r2, w2)" by fastforce
  show ?thesis using operations_finish [OF sim_kube_laws demo_stored _ r1 r2] r1 r2 by auto
qed

lemma demo_clone_executes:
  "fst (execute_operation demo_env sim_kube (demo_op op_clone opp_running) (demo_world op_clone opp_running)) = None"
proof -
  have "fst (op_effect t (demo_op op_clone opp_running) ([(''prod'', ''web'') \<mapsto> demo_vm], Map.empty))" for t
    by (simp add: op_effect_def clone_effect_def source_of_def clone_target_def vm_key_def ref_key_def demo_op_def
        plain_meta_def op_type_defs key_of_def)
  then show ?thesis
    using execute_effect [OF sim_kube_laws stored_op_world [OF demo_stored] same_op_refl, of op_clone opp_running demo_env]
    by (cases "execute_operation demo_env sim_kube (demo_op op_clone opp_running) (demo_world op_clone opp_running)")
      (auto simp: ends_in_def)
qed

theorem interrupted_operations_witness:
  "\<exists>z s'. stored_op sim_view demo_key z s' (snd (reconcile_op demo_env sim_kube demo_key
      (snd (snd (execute_operation demo_env sim_kube (demo_op op_clone opp_running) (demo_world op_clone opp_running)))))) \<and>
    ot_phase (vo_status z) = opp_failed"
proof -
  obtain y w1 where e: "execute_operation demo_env sim_kube (demo_op op_clone opp_running) (demo_world op_clone opp_running) =
      (None, y, w1)" using demo_clone_executes by (metis prod.collapse)
  obtain res w2 where r: "reconcile_op demo_env sim_kube demo_key w1 = (res, w2)" by fastforce
  have "os_operation (vo_spec (demo_op op_clone opp_running)) = op_clone" by (simp add: demo_op_def)
  then show ?thesis using interrupted_operations [OF sim_kube_laws demo_stored _ _ e r] e r by auto
qed

end
