(* ===== verification/Vm_Snapshot.thy ===== *)
theory Vm_Snapshot
  imports Vm_Operation
begin

text \<open>
  \<open>pkg/operator/controllers/vmsnapshot_controller.go\<close>: the controller that takes snapshots of
  virtual machines and retires them.  The client of the API and the clock are parameters; one
  reading of the clock serves a whole reconciliation.  Sleeping has no effect in the model.
\<close>

section \<open>Conditions and expiry\<close>

definition snapshot_finalizer :: string where
  "snapshot_finalizer = ''transiva.zyvor.ai/vmsnapshot-finalizer''"

text \<open>The first condition of the type is replaced, or the new one appended.\<close>

fun put_condition :: "vm_condition \<Rightarrow> vm_condition list \<Rightarrow> vm_condition list" where
  "put_condition c [] = [c]"
| "put_condition c (d # ds) = (if vc_type d = vc_type c then c # ds else d # put_condition c ds)"

definition snap_condition :: "instant \<Rightarrow> string \<Rightarrow> string \<Rightarrow> string \<Rightarrow> string \<Rightarrow> vm_snapshot \<Rightarrow> vm_snapshot" where
  "snap_condition now ty st rs msg x =
     x\<lparr>sn_status := (sn_status x)\<lparr>st_conditions := put_condition
        \<lparr>vc_type = ty, vc_status = st, vc_last_transition_time = now, vc_reason = rs, vc_message = msg\<rparr>
        (st_conditions (sn_status x))\<rparr>\<rparr>"

text \<open>\<open>time.Duration(KeepDays) * 24 * time.Hour\<close>, on 64 bits.\<close>

definition keep_duration :: "int \<Rightarrow> duration" where
  "keep_duration d = wrap64 (wrap64 (d * 24) * hour)"

definition is_expired :: "instant \<Rightarrow> vm_snapshot \<Rightarrow> bool" where
  "is_expired now x =
     (case sp_retention (sn_spec x) of
        None \<Rightarrow> False
      | Some r \<Rightarrow>
          (case sr_expires_at r of
             Some e \<Rightarrow> e < now
           | None \<Rightarrow>
               (case st_creation_time (sn_status x) of
                  None \<Rightarrow> False
                | Some c \<Rightarrow> 0 < sr_keep_days r \<and> c + keep_duration (sr_keep_days r) < now)))"

section \<open>Taking a snapshot\<close>

text \<open>\<open>createSnapshot\<close> only waits; the size and its bytes are constants.\<close>

definition create_snapshot :: "vm_snapshot \<Rightarrow> virtual_machine \<Rightarrow> api_error option" where
  "create_snapshot x vm = None"

definition calculate_snapshot_size :: "virtual_machine \<Rightarrow> bool \<Rightarrow> string" where
  "calculate_snapshot_size vm mem = (if mem then ''10.5Gi'' else ''8.2Gi'')"

definition parse_size_to_bytes :: "string \<Rightarrow> int" where
  "parse_size_to_bytes s = 10737418240"

definition snapshot_dir :: string where "snapshot_dir = ''/var/lib/transiva/snapshots/''"

definition generate_backing_files :: "vm_snapshot \<Rightarrow> virtual_machine \<Rightarrow> string list" where
  "generate_backing_files x vm =
     map (\<lambda>(i, d). snapshot_dir @ om_name (sn_meta x) @ ''-'' @ vd_name d @ ''-disk'' @ dec_nat i @ ''.qcow2'')
       (enumerate 0 (vs_disks (vm_spec_of vm))) @
     (if sp_include_memory (sn_spec x) then [snapshot_dir @ om_name (sn_meta x) @ ''-memory.mem''] else [])"

definition capture_state :: "virtual_machine \<Rightarrow> vm_state_snapshot" where
  "capture_state vm = \<lparr>vss_cpus = vs_cpus (vm_spec_of vm), vss_memory = vs_memory (vm_spec_of vm),
     vss_disk_count = clamp_int32 (int (length (vs_disks (vm_spec_of vm)))), vss_running = vs_running (vm_spec_of vm)\<rparr>"

section \<open>Reconciliation\<close>

definition save_snap :: "'w kube \<Rightarrow> vm_snapshot \<Rightarrow> 'w \<Rightarrow> api_error option \<times> vm_snapshot \<times> 'w" where
  "save_snap K x w =
     (case cl_update_status (kb_snap K) x w of (Inl e, w) \<Rightarrow> (Some e, x, w) | (Inr x', w) \<Rightarrow> (None, x', w))"

type_synonym 'w outcome = "(ctrl_result \<times> api_error option) \<times> 'w"

text \<open>A status update, then the result given; an error of the update comes first.\<close>

definition save_then :: "'w kube \<Rightarrow> vm_snapshot \<Rightarrow> 'w \<Rightarrow> ctrl_result \<times> api_error option \<Rightarrow> 'w outcome" where
  "save_then K x w r =
     (case save_snap K x w of (Some e, x, w) \<Rightarrow> ((nothing_more, Some e), w) | (None, x, w) \<Rightarrow> (r, w))"

definition snap_vm_key :: "vm_snapshot \<Rightarrow> obj_key" where
  "snap_vm_key x = ref_key (sn_meta x) (sp_vm_ref (sn_spec x))"

definition set_snap_phase :: "vm_snap_phase \<Rightarrow> vm_snapshot \<Rightarrow> vm_snapshot" where
  "set_snap_phase p x = x\<lparr>sn_status := (sn_status x)\<lparr>st_phase := p\<rparr>\<rparr>"

definition no_vm_for_snap :: "instant \<Rightarrow> api_error \<Rightarrow> vm_snapshot \<Rightarrow> vm_snapshot" where
  "no_vm_for_snap now e x =
     snap_condition now ''VMFound'' ''False'' ''VMNotFound'' (''VM not found: '' @ ae_text e) (set_snap_phase snp_failed x)"

definition snap_reconcile_pending :: "instant \<Rightarrow> 'w kube \<Rightarrow> vm_snapshot \<Rightarrow> 'w \<Rightarrow> 'w outcome" where
  "snap_reconcile_pending now K x w =
     (case cl_get (kb_vm K) (snap_vm_key x) w of
        (Inl e, w) \<Rightarrow> save_then K (no_vm_for_snap now e x) w (nothing_more, Some e)
      | (Inr vm, w) \<Rightarrow>
          (let x = x\<lparr>sn_status := (sn_status x)\<lparr>st_vm_state := Some (capture_state vm)\<rparr>\<rparr>;
               x = snap_condition now ''Creating'' ''True'' ''SnapshotCreating'' ''Snapshot is being created''
                     (set_snap_phase snp_creating x)
           in save_then K x w (5 * second, None)))"

definition snap_made :: "instant \<Rightarrow> virtual_machine \<Rightarrow> vm_snapshot \<Rightarrow> vm_snapshot" where
  "snap_made now vm x =
     (let size = calculate_snapshot_size vm (sp_include_memory (sn_spec x))
      in snap_condition now ''Ready'' ''True'' ''SnapshotReady'' ''Snapshot is ready for restore''
           (x\<lparr>sn_status := (sn_status x)\<lparr>st_phase := snp_ready, st_ready_to_restore := True, st_size := size,
                st_size_bytes := parse_size_to_bytes size, st_backing_files := generate_backing_files x vm\<rparr>\<rparr>))"

definition snap_reconcile_creating :: "instant \<Rightarrow> 'w kube \<Rightarrow> vm_snapshot \<Rightarrow> 'w \<Rightarrow> 'w outcome" where
  "snap_reconcile_creating now K x w =
     (case cl_get (kb_vm K) (snap_vm_key x) w of
        (Inl e, w) \<Rightarrow> save_then K (no_vm_for_snap now e x) w (nothing_more, Some e)
      | (Inr vm, w) \<Rightarrow>
          (case create_snapshot x vm of
             Some e \<Rightarrow>
               save_then K (snap_condition now ''Ready'' ''False'' ''SnapshotFailed'' (''Snapshot creation failed: '' @ ae_text e)
                 (set_snap_phase snp_failed x)) w (nothing_more, Some e)
           | None \<Rightarrow> save_then K (snap_made now vm x) w (nothing_more, None)))"

definition auto_delete :: "vm_snapshot \<Rightarrow> bool" where
  "auto_delete x = (case sp_retention (sn_spec x) of None \<Rightarrow> False | Some r \<Rightarrow> sr_auto_delete r)"

definition delete_snap :: "'w kube \<Rightarrow> vm_snapshot \<Rightarrow> 'w \<Rightarrow> 'w outcome" where
  "delete_snap K x w =
     (if auto_delete x
      then case cl_delete (kb_snap K) x w of
             (Inl e, w) \<Rightarrow> ((nothing_more, Some e), w)
           | (Inr u, w) \<Rightarrow> ((nothing_more, None), w)
      else ((nothing_more, None), w))"

definition expired_snap :: "instant \<Rightarrow> vm_snapshot \<Rightarrow> vm_snapshot" where
  "expired_snap now x =
     snap_condition now ''Expired'' ''True'' ''RetentionExpired'' ''Snapshot has expired'' (set_snap_phase snp_expired x)"

definition handle_expiration :: "instant \<Rightarrow> 'w kube \<Rightarrow> vm_snapshot \<Rightarrow> 'w \<Rightarrow> 'w outcome" where
  "handle_expiration now K x w =
     (case save_snap K (expired_snap now x) w of
        (Some e, x, w) \<Rightarrow> ((nothing_more, Some e), w)
      | (None, x, w) \<Rightarrow> delete_snap K x w)"

definition snap_reconcile_ready :: "instant \<Rightarrow> 'w kube \<Rightarrow> vm_snapshot \<Rightarrow> 'w \<Rightarrow> 'w outcome" where
  "snap_reconcile_ready now K x w =
     (if is_expired now x then handle_expiration now K x w else ((hour, None), w))"

definition handle_snap_deletion :: "'w kube \<Rightarrow> vm_snapshot \<Rightarrow> 'w \<Rightarrow> 'w outcome" where
  "handle_snap_deletion K x w =
     (if snapshot_finalizer \<in> set (om_finalizers (sn_meta x))
      then case cl_update (kb_snap K) (x\<lparr>sn_meta := remove_finalizer snapshot_finalizer (sn_meta x)\<rparr>) w of
             (Inl e, w) \<Rightarrow> ((nothing_more, Some e), w)
           | (Inr x, w) \<Rightarrow> ((nothing_more, None), w)
      else ((nothing_more, None), w))"

definition snap_ensure_finalizer :: "'w kube \<Rightarrow> vm_snapshot \<Rightarrow> 'w \<Rightarrow> api_error option \<times> vm_snapshot \<times> 'w" where
  "snap_ensure_finalizer K x w =
     (if snapshot_finalizer \<in> set (om_finalizers (sn_meta x)) then (None, x, w)
      else case cl_update (kb_snap K) (x\<lparr>sn_meta := add_finalizer snapshot_finalizer (sn_meta x)\<rparr>) w of
             (Inl e, w) \<Rightarrow> (Some e, x, w)
           | (Inr x, w) \<Rightarrow> (None, x, w))"

definition snap_ensure_phase :: "instant \<Rightarrow> 'w kube \<Rightarrow> vm_snapshot \<Rightarrow> 'w \<Rightarrow> api_error option \<times> vm_snapshot \<times> 'w" where
  "snap_ensure_phase now K x w =
     (if st_phase (sn_status x) \<noteq> [] then (None, x, w)
      else save_snap K (x\<lparr>sn_status := (sn_status x)\<lparr>st_phase := snp_pending, st_creation_time := Some now\<rparr>\<rparr>) w)"

definition snap_by_phase :: "instant \<Rightarrow> 'w kube \<Rightarrow> vm_snapshot \<Rightarrow> 'w \<Rightarrow> 'w outcome" where
  "snap_by_phase now K x w =
     (if is_expired now x then handle_expiration now K x w
      else (let p = st_phase (sn_status x)
            in if p = snp_pending then snap_reconcile_pending now K x w
               else if p = snp_creating then snap_reconcile_creating now K x w
               else if p = snp_ready then snap_reconcile_ready now K x w
               else if p = snp_failed then ((nothing_more, None), w)
               else if p = snp_expired then delete_snap K x w
               else ((nothing_more, None), w)))"

definition reconcile_snap :: "instant \<Rightarrow> 'w kube \<Rightarrow> obj_key \<Rightarrow> 'w \<Rightarrow> 'w outcome" where
  "reconcile_snap now K k w =
     (case cl_get (kb_snap K) k w of
        (Inl e, w) \<Rightarrow> ((nothing_more, if ae_reason e = NotFound then None else Some e), w)
      | (Inr x, w) \<Rightarrow>
          if om_deletion (sn_meta x) \<noteq> None then handle_snap_deletion K x w
          else case and_then (snap_ensure_finalizer K x w) (snap_ensure_phase now K) of
                 (Some e, x, w) \<Rightarrow> ((nothing_more, Some e), w)
               | (None, x, w) \<Rightarrow> snap_by_phase now K x w)"


section \<open>The life of a snapshot\<close>

definition snap_moves :: "(vm_snap_phase \<times> vm_snap_phase) set" where
  "snap_moves = {([], snp_pending), (snp_pending, snp_creating), (snp_pending, snp_failed),
     (snp_creating, snp_ready), (snp_creating, snp_failed)} \<union> UNIV \<times> {snp_expired}"

text \<open>What a status says of its own history.\<close>

definition snap_inv :: "vm_snapshot_status \<Rightarrow> bool" where
  "snap_inv st \<longleftrightarrow> distinct (map vc_type (st_conditions st)) \<and>
     (st_phase st \<in> {snp_pending, snp_creating, snp_ready} \<longrightarrow> st_creation_time st \<noteq> None) \<and>
     (st_phase st \<in> {snp_creating, snp_ready} \<longrightarrow> st_vm_state st \<noteq> None) \<and>
     (st_phase st = snp_ready \<longrightarrow> st_ready_to_restore st)"

lemma put_condition_types:
  "set (map vc_type (put_condition c cs)) = insert (vc_type c) (set (map vc_type cs))"
  by (induction cs) auto

lemma put_condition_distinct: "distinct (map vc_type cs) \<Longrightarrow> distinct (map vc_type (put_condition c cs))"
proof (induction cs)
  case (Cons d ds)
  then show ?case using put_condition_types [of c ds] by auto
qed simp

text \<open>\<open>snap_since st0\<close>: a snapshot whose status has come from \<open>st0\<close>.\<close>

definition snap_since :: "vm_snapshot_status \<Rightarrow> vm_snapshot \<Rightarrow> bool" where
  "snap_since st0 x \<longleftrightarrow> snap_inv (sn_status x) \<and> (st_phase st0, st_phase (sn_status x)) \<in> snap_moves\<^sup>* \<and>
     (st_phase st0 \<noteq> [] \<longrightarrow> st_creation_time (sn_status x) = st_creation_time st0)"

lemma snap_since_status: "of_status snap_kind (snap_since st0)"
  by (simp add: of_status_def snap_since_def)

lemma snap_since_step:
  assumes "snap_since st0 x" and "(st_phase (sn_status x), st_phase (sn_status y)) \<in> snap_moves"
    and "snap_inv (sn_status y)" and "st_phase st0 \<noteq> [] \<Longrightarrow> st_creation_time (sn_status y) = st_creation_time (sn_status x)"
  shows "snap_since st0 y"
  using assms by (auto simp: snap_since_def intro: rtrancl_into_rtrancl)

definition snap_kept :: "('w \<Rightarrow> obj_store) \<Rightarrow> vm_snapshot_status \<Rightarrow> obj_key \<Rightarrow> obj_store \<Rightarrow> 'w \<Rightarrow> bool" where
  "snap_kept view st0 k s0 w \<longleftrightarrow> obj_kept snap_kind (snap_since st0) k (os_snaps s0) (os_snaps (view w)) \<and>
     os_vms (view w) = os_vms s0"

definition snap_at ::
  "('w \<Rightarrow> obj_store) \<Rightarrow> vm_snapshot_status \<Rightarrow> obj_key \<Rightarrow> obj_store \<Rightarrow> vm_snapshot \<Rightarrow> 'w \<Rightarrow> bool" where
  "snap_at view st0 k s0 x w \<longleftrightarrow> snap_kept view st0 k s0 w \<and> key_of snap_kind x = k \<and> snap_since st0 x"

lemma snap_get_vm:
  assumes "kube_laws reliable view K" and "snap_at view st0 k s0 x w" and "cl_get (kb_vm K) k' w = (r, w')"
  shows "snap_at view st0 k s0 x w'"
  using get_stored(1) [OF kube_lawsD(1) [OF assms(1)] assms(3)] assms(2) by (simp add: snap_at_def snap_kept_def)

lemma snap_calls:
  assumes "kube_laws reliable view K" and "snap_at view st0 k s0 x w" and "key_of snap_kind y = k"
  shows "cl_update (kb_snap K) y w = (r, w') \<Longrightarrow> snap_kept view st0 k s0 w'"
    and "cl_update (kb_snap K) y w = (Inr z, w') \<Longrightarrow> snap_at view st0 k s0 z w'"
    and "cl_delete (kb_snap K) y w = (r', w') \<Longrightarrow> snap_kept view st0 k s0 w'"
    and "cl_update_status (kb_snap K) y w = (r, w') \<Longrightarrow> snap_since st0 y \<Longrightarrow> snap_kept view st0 k s0 w'"
    and "cl_update_status (kb_snap K) y w = (Inr z, w') \<Longrightarrow> snap_since st0 y \<Longrightarrow> snap_at view st0 k s0 z w'"
proof -
  note L = kube_lawsD(3) [OF assms(1)]
  have o: "obj_kept snap_kind (snap_since st0) k (os_snaps s0) (os_snaps (view w))" "os_vms (view w) = os_vms s0"
    using assms(2) by (auto simp: snap_at_def snap_kept_def)
  note kept = calls_kept [OF L _ _ snap_since_status o(1) assms(3)]
  note key = updated_key [OF L _ snap_since_status o(1) assms(3)]
  note vms = other_kinds_kept [OF L, where look = os_vms]
  show u: "cl_update (kb_snap K) y w = (r, w') \<Longrightarrow> snap_kept view st0 k s0 w'" for r
    using kept(1) vms(3) o(2) by (simp add: snap_kept_def)
  show "cl_update (kb_snap K) y w = (Inr z, w') \<Longrightarrow> snap_at view st0 k s0 z w'"
    using u key(1) by (simp add: snap_at_def)
  show "cl_delete (kb_snap K) y w = (r', w') \<Longrightarrow> snap_kept view st0 k s0 w'"
    using kept(2) vms(5) o(2) by (simp add: snap_kept_def)
  show v: "cl_update_status (kb_snap K) y w = (r, w') \<Longrightarrow> snap_since st0 y \<Longrightarrow> snap_kept view st0 k s0 w'" for r
    using kept(3) vms(4) o(2) by (simp add: snap_kept_def)
  show "cl_update_status (kb_snap K) y w = (Inr z, w') \<Longrightarrow> snap_since st0 y \<Longrightarrow> snap_at view st0 k s0 z w'"
    using v key(2) by (simp add: snap_at_def)
qed

lemma save_then_kept:
  assumes "kube_laws reliable view K" and "snap_at view st0 k s0 x w" and "key_of snap_kind y = k" and "snap_since st0 y"
    and "save_then K y w r = (res, w')"
  shows "snap_kept view st0 k s0 w'"
  using snap_calls(4) [OF assms(1-3) _ assms(4)] assms(5)
  by (auto simp: save_then_def save_snap_def split: prod.splits sum.splits)

text \<open>The statuses that the steps compute.\<close>

lemma snap_key_edits [simp]:
  "key_of snap_kind (snap_condition now ty st rs msg x) = key_of snap_kind x"
  "key_of snap_kind (set_snap_phase p x) = key_of snap_kind x"
  "st_phase (sn_status (snap_condition now ty st rs msg x)) = st_phase (sn_status x)"
  "st_creation_time (sn_status (snap_condition now ty st rs msg x)) = st_creation_time (sn_status x)"
  "st_vm_state (sn_status (snap_condition now ty st rs msg x)) = st_vm_state (sn_status x)"
  "st_ready_to_restore (sn_status (snap_condition now ty st rs msg x)) = st_ready_to_restore (sn_status x)"
  "st_phase (sn_status (set_snap_phase p x)) = p"
  "st_creation_time (sn_status (set_snap_phase p x)) = st_creation_time (sn_status x)"
  "st_conditions (sn_status (set_snap_phase p x)) = st_conditions (sn_status x)"
  "st_vm_state (sn_status (set_snap_phase p x)) = st_vm_state (sn_status x)"
  "st_ready_to_restore (sn_status (set_snap_phase p x)) = st_ready_to_restore (sn_status x)"
  by (simp_all add: snap_condition_def set_snap_phase_def)

lemma snap_condition_distinct [simp]:
  "distinct (map vc_type (st_conditions (sn_status x))) \<Longrightarrow>
   distinct (map vc_type (st_conditions (sn_status (snap_condition now ty st rs msg x))))"
  by (simp add: snap_condition_def put_condition_distinct)

lemma snap_steps:
  assumes "snap_since st0 x"
  shows "st_phase (sn_status x) \<in> {snp_pending, snp_creating} \<Longrightarrow> snap_since st0 (no_vm_for_snap now e x)"
    and "snap_since st0 (expired_snap now x)"
    and "st_phase (sn_status x) = snp_pending \<Longrightarrow> snap_since st0 (snap_condition now ty st rs msg (set_snap_phase snp_creating
      (x\<lparr>sn_status := (sn_status x)\<lparr>st_vm_state := Some v\<rparr>\<rparr>)))"
    and "st_phase (sn_status x) = snp_creating \<Longrightarrow> snap_since st0 (snap_made now vm x)"
    and "st_phase (sn_status x) = [] \<Longrightarrow>
      snap_since st0 (x\<lparr>sn_status := (sn_status x)\<lparr>st_phase := snp_pending, st_creation_time := Some now\<rparr>\<rparr>)"
proof -
  have i: "snap_inv (sn_status x)" using assms by (simp add: snap_since_def)
  show "st_phase (sn_status x) \<in> {snp_pending, snp_creating} \<Longrightarrow> snap_since st0 (no_vm_for_snap now e x)"
    using i by (intro snap_since_step [OF assms]) (auto simp: no_vm_for_snap_def snap_moves_def snap_inv_def snap_phase_defs)
  show "snap_since st0 (expired_snap now x)"
    using i by (intro snap_since_step [OF assms]) (auto simp: expired_snap_def snap_moves_def snap_inv_def snap_phase_defs)
  show "st_phase (sn_status x) = snp_pending \<Longrightarrow> snap_since st0 (snap_condition now ty st rs msg (set_snap_phase snp_creating
      (x\<lparr>sn_status := (sn_status x)\<lparr>st_vm_state := Some v\<rparr>\<rparr>)))"
    using i by (intro snap_since_step [OF assms]) (auto simp: snap_moves_def snap_inv_def snap_phase_defs)
  show "st_phase (sn_status x) = snp_creating \<Longrightarrow> snap_since st0 (snap_made now vm x)"
    using i by (intro snap_since_step [OF assms]) (auto simp: snap_made_def Let_def snap_moves_def snap_inv_def snap_phase_defs)
  have "(st_phase st0, []) \<in> snap_moves\<^sup>* \<Longrightarrow> st_phase st0 = []"
    by (erule rtranclE) (auto simp: snap_moves_def snap_phase_defs)
  then show "st_phase (sn_status x) = [] \<Longrightarrow>
      snap_since st0 (x\<lparr>sn_status := (sn_status x)\<lparr>st_phase := snp_pending, st_creation_time := Some now\<rparr>\<rparr>)"
    using i assms by (intro snap_since_step [OF assms]) (auto simp: snap_since_def snap_moves_def snap_inv_def snap_phase_defs)
qed

lemma handle_expiration_kept:
  assumes "kube_laws reliable view K" and "snap_at view st0 k s0 x w" and "handle_expiration now K x w = (res, w')"
  shows "snap_kept view st0 k s0 w'"
proof -
  have s: "snap_since st0 (expired_snap now x)" "key_of snap_kind (expired_snap now x) = k"
    using assms(2) snap_steps(2) by (auto simp: snap_at_def) (simp add: expired_snap_def)
  obtain r w1 where u: "cl_update_status (kb_snap K) (expired_snap now x) w = (r, w1)" by fastforce
  note calls = snap_calls [OF assms(1,2) s(2)]
  show ?thesis
  proof (cases r)
    case (Inl e)
    then show ?thesis using calls(4) [OF u s(1)] assms(3) u by (simp add: handle_expiration_def save_snap_def)
  next
    case (Inr y)
    have y: "snap_at view st0 k s0 y w1" using calls(5) u s(1) Inr by blast
    then show ?thesis using snap_calls(3) [OF assms(1) y] assms(3) u Inr
      by (auto simp: handle_expiration_def save_snap_def delete_snap_def snap_at_def split: if_splits prod.splits sum.splits)
  qed
qed

lemma snap_by_phase_kept:
  assumes "kube_laws reliable view K" and "snap_at view st0 k s0 x w" and "snap_by_phase now K x w = (res, w')"
  shows "snap_kept view st0 k s0 w'"
proof (cases "is_expired now x")
  case True
  then show ?thesis using handle_expiration_kept [OF assms(1,2)] assms(3) by (simp add: snap_by_phase_def)
next
  case False
  note x = assms(2) [unfolded snap_at_def]
  obtain r w1 where g: "cl_get (kb_vm K) (snap_vm_key x) w = (r, w1)" by fastforce
  note at = snap_get_vm [OF assms(1,2) g]
  note save = save_then_kept [OF assms(1) at]
  let ?p = "st_phase (sn_status x)"
  consider "?p = snp_pending" | "?p = snp_creating" | "?p = snp_expired" | "?p \<notin> {snp_pending, snp_creating, snp_expired}"
    by blast
  then show ?thesis
  proof cases
    case 1
    note steps = snap_steps [of st0 x]
    show ?thesis
    proof (cases r)
      case (Inl e)
      then show ?thesis using 1 False assms(3) g x steps(1)
        by (intro save [of "no_vm_for_snap now e x"]) (auto simp: snap_by_phase_def snap_reconcile_pending_def no_vm_for_snap_def)
    next
      case (Inr vm)
      let ?y = "snap_condition now ''Creating'' ''True'' ''SnapshotCreating'' ''Snapshot is being created''
        (set_snap_phase snp_creating (x\<lparr>sn_status := (sn_status x)\<lparr>st_vm_state := Some (capture_state vm)\<rparr>\<rparr>))"
      show ?thesis using Inr 1 False assms(3) g x steps(3)
        by (intro save [of ?y]) (auto simp: snap_by_phase_def snap_reconcile_pending_def)
    qed
  next
    case 2
    have p: "snp_creating \<noteq> snp_pending" by (simp add: snap_phase_defs)
    note steps = snap_steps [of st0 x]
    show ?thesis
    proof (cases r)
      case (Inl e)
      then show ?thesis using 2 False assms(3) g x p steps(1)
        by (intro save [of "no_vm_for_snap now e x"]) (auto simp: snap_by_phase_def snap_reconcile_creating_def no_vm_for_snap_def)
    next
      case (Inr vm)
      then show ?thesis using 2 False assms(3) g x p steps(4)
        by (intro save [of "snap_made now vm x"])
          (auto simp: snap_by_phase_def snap_reconcile_creating_def create_snapshot_def snap_made_def Let_def)
    qed
  next
    case 3
    then have "delete_snap K x w = (res, w')" using False assms(3) by (auto simp: snap_by_phase_def snap_phase_defs)
    then show ?thesis using snap_calls(3) [OF assms(1,2)] x
      by (auto simp: delete_snap_def split: if_splits prod.splits sum.splits)
  next
    case 4
    then have "w' = w" using False assms(3)
      by (auto simp: snap_by_phase_def snap_reconcile_ready_def Let_def split: if_splits)
    then show ?thesis using x by simp
  qed
qed

lemma reconcile_snap_kept:
  assumes "kube_laws reliable view K" and "keyed snap_kind (os_snaps (view w))"
    and "os_snaps (view w) k = Some x" and "snap_inv (sn_status x)" and "reconcile_snap now K k w = (res, w')"
  shows "snap_kept view (sn_status x) k (view w) w'"
proof -
  let ?st = "sn_status x"
  obtain r w1 where g: "cl_get (kb_snap K) k w = (r, w1)" by fastforce
  note get = get_stored [OF kube_lawsD(3) [OF assms(1)] g]
  have key: "key_of snap_kind x = k" using assms(2,3) by (simp add: keyed_def)
  have "snap_since ?st x" using assms(4) by (simp add: snap_since_def)
  then have at: "snap_at view ?st k (view w) x w1"
    using key get(1) assms(2,3) by (auto simp: snap_at_def snap_kept_def obj_kept_def)
  then have kept1: "snap_kept view ?st k (view w) w1" by (simp add: snap_at_def)
  show ?thesis
  proof (cases r)
    case (Inl e)
    then show ?thesis using kept1 assms(5) g by (simp add: reconcile_snap_def)
  next
    case (Inr x1)
    then have x1: "x1 = x" using get(2) assms(3) by simp
    have k': "key_of snap_kind (x\<lparr>sn_meta := add_finalizer f (sn_meta x)\<rparr>) = k"
      "key_of snap_kind (x\<lparr>sn_meta := remove_finalizer f (sn_meta x)\<rparr>) = k" for f
      using key by (auto simp: key_of_def add_finalizer_def remove_finalizer_def)
    show ?thesis
    proof (cases "om_deletion (sn_meta x) = None")
      case False
      then show ?thesis using snap_calls(1) [OF assms(1) at k'(2)] kept1 assms(5) g Inr x1
        by (auto simp: reconcile_snap_def handle_snap_deletion_def split: if_splits prod.splits sum.splits)
    next
      case True
      obtain e2 x2 w2 where f: "snap_ensure_finalizer K x w1 = (e2, x2, w2)" by (cases "snap_ensure_finalizer K x w1")
      have f': "snap_kept view ?st k (view w) w2" "e2 = None \<Longrightarrow> snap_at view ?st k (view w) x2 w2"
        using f at kept1 snap_calls(1,2) [OF assms(1) at k'(1)]
        by (auto simp: snap_ensure_finalizer_def split: if_splits prod.splits sum.splits)
      obtain e3 x3 w3 where p: "and_then (e2, x2, w2) (snap_ensure_phase now K) = (e3, x3, w3)"
        by (cases "and_then (e2, x2, w2) (snap_ensure_phase now K)")
      have p': "snap_kept view ?st k (view w) w3 \<and> (e3 = None \<longrightarrow> snap_at view ?st k (view w) x3 w3)"
      proof (cases e2)
        case (Some e)
        then show ?thesis using p f' by auto
      next
        case None
        let ?z = "x2\<lparr>sn_status := (sn_status x2)\<lparr>st_phase := snp_pending, st_creation_time := Some now\<rparr>\<rparr>"
        note at2 = f'(2) [OF None]
        have z: "key_of snap_kind ?z = k" "st_phase (sn_status x2) = [] \<Longrightarrow> snap_since ?st ?z"
          using at2 snap_steps(5) by (auto simp: snap_at_def)
        show ?thesis using p None at2 f'(1) snap_calls(4,5) [OF assms(1) at2 z(1)] z(2)
          by (auto simp: snap_ensure_phase_def save_snap_def split: if_splits prod.splits sum.splits)
      qed
      show ?thesis
      proof (cases e3)
        case (Some e)
        then show ?thesis using assms(5) g Inr x1 True f p p' by (simp add: reconcile_snap_def)
      next
        case None
        then have "snap_by_phase now K x3 w3 = (res, w')" using assms(5) g Inr x1 True f p by (simp add: reconcile_snap_def)
        then show ?thesis using snap_by_phase_kept [OF assms(1)] p' None by blast
      qed
    qed
  qed
qed


text \<open>
  Whatever the API answers, a reconciliation of a snapshot only moves its stored phase along its life:
  new, pending, creating, ready, with failure from pending and creating and expiry from anywhere.
  Conditions keep distinct types, a snapshot that is being made or ready knows when it was asked for
  and what the machine was, a ready one can be restored, and the time it was asked for never changes.
  Other snapshots and all machines stay as they are.
\<close>

theorem snapshots_advance:
  assumes "kube_laws reliable view K" and "keyed snap_kind (os_snaps (view w))"
    and "os_snaps (view w) k = Some x" and "snap_inv (sn_status x)" and "reconcile_snap now K k w = (res, w')"
  shows "(\<forall>y. os_snaps (view w') k = Some y \<longrightarrow> snap_inv (sn_status y) \<and>
      (st_phase (sn_status x), st_phase (sn_status y)) \<in> snap_moves\<^sup>* \<and>
      (st_phase (sn_status x) \<noteq> [] \<longrightarrow> st_creation_time (sn_status y) = st_creation_time (sn_status x))) \<and>
    (\<forall>k'. k' \<noteq> k \<longrightarrow> os_snaps (view w') k' = os_snaps (view w) k') \<and> os_vms (view w') = os_vms (view w)"
  using reconcile_snap_kept [OF assms] by (auto simp: snap_kept_def obj_kept_def snap_since_def)

section \<open>With a reliable API\<close>

definition stored_snap ::
  "('w \<Rightarrow> obj_store) \<Rightarrow> obj_key \<Rightarrow> vm_snapshot \<Rightarrow> virtual_machine obj_map \<Rightarrow> 'w \<Rightarrow> bool" where
  "stored_snap view k x vms w \<longleftrightarrow> os_snaps (view w) k = Some x \<and> key_of snap_kind x = k \<and>
     om_deletion (sn_meta x) = None \<and> os_vms (view w) = vms"

definition same_snap :: "vm_snapshot \<Rightarrow> vm_snapshot \<Rightarrow> bool" where
  "same_snap x y \<longleftrightarrow> sn_meta x = sn_meta y \<and> sn_spec x = sn_spec y"

lemma same_snap_edits [simp]:
  "same_snap x x" "same_snap (snap_condition now ty st rs msg x) y = same_snap x y"
  "same_snap (set_snap_phase p x) y = same_snap x y" "same_snap (x\<lparr>sn_status := new\<rparr>) y = same_snap x y"
  "same_snap (snap_made now vm x) y = same_snap x y" "same_snap (expired_snap now x) y = same_snap x y"
  by (simp_all add: same_snap_def snap_condition_def set_snap_phase_def snap_made_def expired_snap_def Let_def)

lemma reliable_save_snap:
  assumes "kube_laws True view K" and "stored_snap view k x vms w" and "same_snap y x"
  shows "\<exists>w'. save_snap K y w = (None, y, w') \<and> stored_snap view k y vms w'"
proof -
  have k: "key_of snap_kind y = k" "os_snaps (view w) k = Some x"
    using assms(2,3) by (auto simp: stored_snap_def same_snap_def key_of_def)
  have "x\<lparr>sn_status := sn_status y\<rparr> = y" using assms(3) by (simp add: same_snap_def)
  then obtain w' where "cl_update_status (kb_snap K) y w = (Inr y, w')"
    "view w' = (view w)\<lparr>os_snaps := (os_snaps (view w))(k \<mapsto> y)\<rparr>"
    using reliable_update_status [OF kube_lawsD(3) [OF assms(1)], where x = y and s = x] k by auto
  then show ?thesis using k assms(2,3) by (auto simp: save_snap_def stored_snap_def same_snap_def)
qed

lemma reliable_save_then:
  assumes "kube_laws True view K" and "stored_snap view k x vms w" and "same_snap y x" and "save_then K y w r = (res, w')"
  shows "res = r \<and> stored_snap view k y vms w'"
  using reliable_save_snap [OF assms(1-3)] assms(4) by (auto simp: save_then_def)

lemma reliable_snap_start:
  assumes "kube_laws True view K" and "stored_snap view k x vms w"
  shows "\<exists>y w'. reconcile_snap now K k w = snap_by_phase now K y w' \<and> stored_snap view k y vms w' \<and>
    sn_spec y = sn_spec x \<and> om_name (sn_meta y) = om_name (sn_meta x) \<and> om_namespace (sn_meta y) = om_namespace (sn_meta x) \<and>
    sn_status y = (if st_phase (sn_status x) = []
      then (sn_status x)\<lparr>st_phase := snp_pending, st_creation_time := Some now\<rparr> else sn_status x)"
proof -
  have x: "os_snaps (view w) k = Some x" "om_deletion (sn_meta x) = None" "key_of snap_kind x = k"
    using assms(2) by (simp_all add: stored_snap_def)
  obtain w1 where g: "cl_get (kb_snap K) k w = (Inr x, w1)" "view w1 = view w"
    using reliable_get(1) [OF kube_lawsD(3) [OF assms(1)] x(1)] by blast
  have x1: "stored_snap view k x vms w1" using assms(2) g(2) by (simp add: stored_snap_def)
  have "\<exists>y w2. snap_ensure_finalizer K x w1 = (None, y, w2) \<and> stored_snap view k y vms w2 \<and> sn_spec y = sn_spec x \<and>
    sn_status y = sn_status x \<and> om_name (sn_meta y) = om_name (sn_meta x) \<and> om_namespace (sn_meta y) = om_namespace (sn_meta x)"
  proof (cases "snapshot_finalizer \<in> set (om_finalizers (sn_meta x))")
    case True
    then show ?thesis using x1 by (auto simp: snap_ensure_finalizer_def)
  next
    case False
    let ?m = "add_finalizer snapshot_finalizer (sn_meta x)"
    let ?y = "x\<lparr>sn_meta := ?m\<rparr>"
    have k: "key_of snap_kind ?y = k" using x(3) by (simp add: key_of_def add_finalizer_def)
    have "stored_meta ?m (sn_meta x) = ?m" by (simp add: stored_meta_def add_finalizer_def)
    then obtain w2 where "cl_update (kb_snap K) ?y w1 = (Inr ?y, w2)"
      "view w2 = (view w1)\<lparr>os_snaps := (os_snaps (view w1))(k \<mapsto> ?y)\<rparr>"
      using reliable_update [OF kube_lawsD(3) [OF assms(1)], where w = w1 and x = ?y and s = x and x' = ?y] k x g(2) by auto
    then show ?thesis using False k x1
      by (auto simp: snap_ensure_finalizer_def stored_snap_def add_finalizer_def)
  qed
  then obtain y w2 where y: "snap_ensure_finalizer K x w1 = (None, y, w2)" "stored_snap view k y vms w2"
    "sn_spec y = sn_spec x" "sn_status y = sn_status x" "om_name (sn_meta y) = om_name (sn_meta x)"
    "om_namespace (sn_meta y) = om_namespace (sn_meta x)" by blast
  show ?thesis
  proof (cases "st_phase (sn_status x) = []")
    case False
    then show ?thesis using g y x(2) by (auto simp: reconcile_snap_def snap_ensure_phase_def)
  next
    case True
    let ?z = "y\<lparr>sn_status := (sn_status y)\<lparr>st_phase := snp_pending, st_creation_time := Some now\<rparr>\<rparr>"
    obtain w3 where "save_snap K ?z w2 = (None, ?z, w3)" "stored_snap view k ?z vms w3"
      using reliable_save_snap [OF assms(1) y(2), of ?z] by auto
    then show ?thesis using g y x(2) True
      by (intro exI [of _ ?z] exI [of _ w3]) (simp add: reconcile_snap_def snap_ensure_phase_def)
  qed
qed

lemma snapshot_taken:
  assumes "kube_laws True view K" and "stored_snap view k x vms w" and "st_phase (sn_status x) = []"
    and "sp_retention (sn_spec x) = None" and "vms (snap_vm_key x) = Some vm"
    and "reconcile_snap now K k w = (r1, w1)" and "reconcile_snap now' K k w1 = (r2, w2)"
  shows "\<exists>y. stored_snap view k y vms w2 \<and> sn_spec y = sn_spec x \<and> st_phase (sn_status y) = snp_ready \<and>
    st_ready_to_restore (sn_status y) \<and> st_creation_time (sn_status y) = Some now \<and>
    st_vm_state (sn_status y) = Some (capture_state vm) \<and>
    st_backing_files (sn_status y) = generate_backing_files x vm \<and>
    length (st_backing_files (sn_status y)) =
      length (vs_disks (vm_spec_of vm)) + (if sp_include_memory (sn_spec x) then 1 else 0)"
proof -
  obtain y u where y: "reconcile_snap now K k w = snap_by_phase now K y u" "stored_snap view k y vms u"
    "sn_spec y = sn_spec x" "om_name (sn_meta y) = om_name (sn_meta x)" "om_namespace (sn_meta y) = om_namespace (sn_meta x)"
    "sn_status y = (sn_status x)\<lparr>st_phase := snp_pending, st_creation_time := Some now\<rparr>"
    using reliable_snap_start [OF assms(1,2), of now] assms(3) by auto
  have key: "snap_vm_key z = snap_vm_key x"
    if "sn_spec z = sn_spec x" "om_namespace (sn_meta z) = om_namespace (sn_meta x)" for z
    using that by (simp add: snap_vm_key_def ref_key_def)
  obtain u1 where g: "cl_get (kb_vm K) (snap_vm_key x) u = (Inr vm, u1)" "view u1 = view u"
    using reliable_get(1) [OF kube_lawsD(1) [OF assms(1)], of u "snap_vm_key x" vm] y(2) assms(5)
    by (auto simp: stored_snap_def)
  let ?z = "snap_condition now ''Creating'' ''True'' ''SnapshotCreating'' ''Snapshot is being created''
    (set_snap_phase snp_creating (y\<lparr>sn_status := (sn_status y)\<lparr>st_vm_state := Some (capture_state vm)\<rparr>\<rparr>))"
  have "save_then K ?z u1 (5 * second, None) = (r1, w1)"
    using assms(4,6) y(1,3,6) g(1) key [OF y(3,5)]
    by (simp add: snap_by_phase_def is_expired_def snap_reconcile_pending_def)
  moreover have "stored_snap view k y vms u1" using y(2) g(2) by (simp add: stored_snap_def)
  ultimately have z: "stored_snap view k ?z vms w1"
    using reliable_save_then [OF assms(1)] by fastforce
  have zs: "sn_spec ?z = sn_spec x" "om_name (sn_meta ?z) = om_name (sn_meta x)"
    "om_namespace (sn_meta ?z) = om_namespace (sn_meta x)"
    using y by (simp_all add: snap_condition_def set_snap_phase_def)
  have zp: "st_phase (sn_status ?z) = snp_creating" "snp_creating \<noteq> []" "snp_creating \<noteq> snp_pending"
    by (simp_all add: snap_phase_defs)
  obtain z' v where z': "reconcile_snap now' K k w1 = snap_by_phase now' K z' v" "stored_snap view k z' vms v"
    "sn_spec z' = sn_spec x" "om_name (sn_meta z') = om_name (sn_meta x)"
    "om_namespace (sn_meta z') = om_namespace (sn_meta x)" "sn_status z' = sn_status ?z"
    using reliable_snap_start [OF assms(1) z, of now'] zs zp by auto
  obtain v1 where h: "cl_get (kb_vm K) (snap_vm_key x) v = (Inr vm, v1)" "view v1 = view v"
    using reliable_get(1) [OF kube_lawsD(1) [OF assms(1)], of v "snap_vm_key x" vm] z'(2) assms(5)
    by (auto simp: stored_snap_def)
  have "save_then K (snap_made now' vm z') v1 (nothing_more, None) = (r2, w2)"
    using assms(4,7) z'(1,3,6) h(1) key [OF z'(3,5)] zp
    by (simp add: snap_by_phase_def is_expired_def snap_reconcile_creating_def create_snapshot_def)
  moreover have "stored_snap view k z' vms v1" using z'(2) h(2) by (simp add: stored_snap_def)
  ultimately have made: "stored_snap view k (snap_made now' vm z') vms w2"
    using reliable_save_then [OF assms(1)] by fastforce
  have files: "generate_backing_files z' vm = generate_backing_files x vm"
    using z'(3,4) by (simp add: generate_backing_files_def)
  show ?thesis
    using z'(3,6) y(6) files
    by (intro exI [of _ "snap_made now' vm z'"] conjI made)
      (simp_all add: snap_made_def Let_def snap_condition_def set_snap_phase_def, simp_all add: generate_backing_files_def)
qed

text \<open>
  When the API does what it is asked, two reconciliations take a new snapshot without a retention of an
  existing machine: it is ready, records the time of the first one and the machine's size and power
  state, and lists a file for each disk, and one for the memory if that was asked for.
\<close>

theorem snapshot_is_taken:
  assumes "kube_laws True view K" and "stored_snap view k x vms w" and "st_phase (sn_status x) = []"
    and "sp_retention (sn_spec x) = None" and "vms (snap_vm_key x) = Some vm"
    and "reconcile_snap now K k w = (r1, w1)" and "reconcile_snap now' K k w1 = (r2, w2)"
  shows "\<exists>y. stored_snap view k y vms w2 \<and> sn_spec y = sn_spec x \<and> st_phase (sn_status y) = snp_ready \<and>
    st_ready_to_restore (sn_status y) \<and> st_creation_time (sn_status y) = Some now \<and>
    st_vm_state (sn_status y) = Some (capture_state vm) \<and>
    st_backing_files (sn_status y) = generate_backing_files x vm \<and>
    length (st_backing_files (sn_status y)) =
      length (vs_disks (vm_spec_of vm)) + (if sp_include_memory (sn_spec x) then 1 else 0)"
  by (rule snapshot_taken [OF assms])

section \<open>Retention\<close>

text \<open>
  A retention in days, without an explicit time, is kept to the nanosecond as long as the days fit
  into a duration, which they do up to 106751.
\<close>

theorem retention_in_days:
  assumes "sp_retention (sn_spec x) = Some r" and "sr_expires_at r = None"
    and "0 < sr_keep_days r" and "sr_keep_days r \<le> 106751" and "st_creation_time (sn_status x) = Some c"
  shows "is_expired now x \<longleftrightarrow> c + sr_keep_days r * (24 * hour) < now"
proof -
  have "in64 (sr_keep_days r * 24)" "in64 (sr_keep_days r * 24 * hour)"
    using assms(3,4) by (auto simp: in64_def time_units)
  then show ?thesis using assms by (simp add: is_expired_def keep_duration_def wrap64_id mult.assoc)
qed

text \<open>
  The next number of days wraps around to a time before the snapshot was made: it has expired from
  the start.
\<close>

theorem long_retention_expires_at_once:
  assumes "sp_retention (sn_spec x) = Some r" and "sr_expires_at r = None"
    and "sr_keep_days r = 106752" and "st_creation_time (sn_status x) = Some c" and "c \<le> now"
  shows "is_expired now x"
proof -
  have "keep_duration 106752 < 0" by (simp add: keep_duration_def wrap64_def time_units)
  then show ?thesis using assms by (simp add: is_expired_def)
qed

text \<open>
  An expired snapshot that is not deleted automatically is written anew by every reconciliation: the
  time of its condition moves each time, whatever its phase was, so a failed snapshot becomes an
  expired one and an expired one is never left alone.
\<close>

theorem expiry_is_written_again:
  assumes "kube_laws True view K" and "stored_snap view k x vms w" and "is_expired now x"
    and "st_phase (sn_status x) \<noteq> []" and "\<not> auto_delete x" and "reconcile_snap now K k w = (res, w')"
  shows "\<exists>y c. stored_snap view k y vms w' \<and> st_phase (sn_status y) = snp_expired \<and>
    c \<in> set (st_conditions (sn_status y)) \<and> vc_type c = ''Expired'' \<and> vc_last_transition_time c = now \<and>
    res = (nothing_more, None)"
proof -
  obtain y u where y: "reconcile_snap now K k w = snap_by_phase now K y u" "stored_snap view k y vms u"
    "sn_spec y = sn_spec x" "sn_status y = sn_status x"
    using reliable_snap_start [OF assms(1,2), of now] assms(4) by auto
  have "is_expired now y" using assms(3) y(3,4) by (simp add: is_expired_def cong: option.case_cong)
  then have h: "handle_expiration now K y u = (res, w')" using y(1) assms(6) by (simp add: snap_by_phase_def)
  let ?z = "expired_snap now y"
  obtain u1 where u1: "save_snap K ?z u = (None, ?z, u1)" "stored_snap view k ?z vms u1"
    using reliable_save_snap [OF assms(1) y(2), of ?z] by auto
  have "\<not> auto_delete ?z" using assms(5) y(3) by (simp add: auto_delete_def expired_snap_def snap_condition_def set_snap_phase_def)
  then have r: "res = (nothing_more, None)" "w' = u1" using h u1(1) by (simp_all add: handle_expiration_def delete_snap_def)
  have in_put: "c \<in> set (put_condition c cs)" for c cs by (induction cs) auto
  have "st_phase (sn_status ?z) = snp_expired" by (simp add: expired_snap_def)
  then show ?thesis using u1(2) r in_put
    by (intro exI [of _ ?z] exI [of _ "\<lparr>vc_type = ''Expired'', vc_status = ''True'', vc_last_transition_time = now,
      vc_reason = ''RetentionExpired'', vc_message = ''Snapshot has expired''\<rparr>"])
      (simp add: expired_snap_def snap_condition_def)
qed

section \<open>A snapshot\<close>

definition demo_snap :: "snapshot_retention option \<Rightarrow> vm_snap_phase \<Rightarrow> vm_snapshot" where
  "demo_snap r p =
     \<lparr>sn_meta = plain_meta ''snap'' ''prod'' [],
      sn_spec = \<lparr>sp_vm_ref = \<lparr>vr_name = ''web'', vr_namespace = []\<rparr>, sp_include_memory = True, sp_quiesce = False,
        sp_description = [], sp_retention = r, sp_destination = None\<rparr>,
      sn_status = no_snapshot_status\<lparr>st_phase := p, st_creation_time := Some 1\<rparr>\<rparr>"

definition snap_key :: obj_key where "snap_key = (''prod'', ''snap'')"

definition snap_world :: "snapshot_retention option \<Rightarrow> vm_snap_phase \<Rightarrow> kube_sim" where
  "snap_world r p = demo_vms\<lparr>ks_snaps := [(snap_key, demo_snap r p)]\<rparr>"

lemma demo_snap_stored:
  "stored_snap sim_view snap_key (demo_snap r p) [(''prod'', ''web'') \<mapsto> demo_vm] (snap_world r p)"
  by (simp add: stored_snap_def sim_view_def snap_world_def demo_vms_def no_objects_def demo_snap_def snap_key_def
      key_of_def plain_meta_def)

definition demo_retention :: "int \<Rightarrow> snapshot_retention" where
  "demo_retention d = \<lparr>sr_keep_days = d, sr_keep_count = 0, sr_auto_delete = False, sr_expires_at = None\<rparr>"

theorem snapshots_advance_witness:
  "\<exists>y. os_snaps (sim_view (snd (reconcile_snap (8 * 24 * hour) sim_kube snap_key
      (snap_world (Some (demo_retention 7)) snp_failed)))) snap_key = Some y \<and>
    snap_inv (sn_status y) \<and> st_creation_time (sn_status y) = Some 1"
proof -
  let ?x = "demo_snap (Some (demo_retention 7)) snp_failed" and ?w = "snap_world (Some (demo_retention 7)) snp_failed"
  obtain res w' where r: "reconcile_snap (8 * 24 * hour) sim_kube snap_key ?w = (res, w')" by fastforce
  have s: "os_snaps (sim_view ?w) snap_key = Some ?x" "keyed snap_kind (os_snaps (sim_view ?w))"
    by (simp_all add: sim_view_def snap_world_def demo_snap_def snap_key_def key_of_def plain_meta_def keyed_def)
  have i: "snap_inv (sn_status ?x)" by (simp add: snap_inv_def demo_snap_def no_snapshot_status_def snap_phase_defs)
  have "keep_duration 7 = 7 * 24 * hour" by (simp add: keep_duration_def wrap64_def time_units)
  then have x: "is_expired (8 * 24 * hour) ?x" "st_phase (sn_status ?x) \<noteq> []" "\<not> auto_delete ?x"
    "st_creation_time (sn_status ?x) = Some 1"
    by (simp_all add: is_expired_def demo_snap_def demo_retention_def auto_delete_def snap_phase_defs time_units)
  obtain y where "os_snaps (sim_view w') snap_key = Some y"
    using expiry_is_written_again [OF sim_kube_laws demo_snap_stored x(1-3) r] by (auto simp: stored_snap_def)
  then show ?thesis using snapshots_advance [OF sim_kube_laws s(2,1) i r] x(2,4) r by simp
qed

theorem snapshot_is_taken_witness:
  "\<exists>y. stored_snap sim_view snap_key y [(''prod'', ''web'') \<mapsto> demo_vm]
      (snd (reconcile_snap 6 sim_kube snap_key (snd (reconcile_snap 5 sim_kube snap_key (snap_world None []))))) \<and>
    st_phase (sn_status y) = snp_ready"
proof -
  obtain r1 w1 where r1: "reconcile_snap 5 sim_kube snap_key (snap_world None []) = (r1, w1)" by fastforce
  obtain r2 w2 where r2: "reconcile_snap 6 sim_kube snap_key w1 = (r2, w2)" by fastforce
  have "snap_vm_key (demo_snap None []) = (''prod'', ''web'')" "st_phase (sn_status (demo_snap None [])) = []"
    "sp_retention (sn_spec (demo_snap None [])) = None"
    by (simp_all add: snap_vm_key_def ref_key_def demo_snap_def plain_meta_def)
  then show ?thesis using snapshot_is_taken [OF sim_kube_laws demo_snap_stored _ _ _ r1 r2, of demo_vm] r1 r2 by auto
qed

theorem retention_in_days_witness:
  "is_expired (2 + 7 * (24 * hour)) (demo_snap (Some (demo_retention 7)) snp_ready)"
  by (subst retention_in_days [where r = "demo_retention 7" and c = 1]) (simp_all add: demo_snap_def demo_retention_def)

theorem long_retention_expires_at_once_witness:
  "is_expired 1 (demo_snap (Some (demo_retention 106752)) snp_ready)"
  by (rule long_retention_expires_at_once [where r = "demo_retention 106752" and c = 1])
    (simp_all add: demo_snap_def demo_retention_def)

theorem expiry_is_written_again_witness:
  "\<exists>y. stored_snap sim_view snap_key y [(''prod'', ''web'') \<mapsto> demo_vm]
      (snd (reconcile_snap (8 * 24 * hour) sim_kube snap_key (snap_world (Some (demo_retention 7)) snp_failed))) \<and>
    st_phase (sn_status y) = snp_expired"
proof -
  let ?r = "Some (demo_retention 7)"
  obtain res w' where r: "reconcile_snap (8 * 24 * hour) sim_kube snap_key (snap_world ?r snp_failed) = (res, w')" by fastforce
  have "keep_duration 7 = 7 * 24 * hour" by (simp add: keep_duration_def wrap64_def time_units)
  then have "is_expired (8 * 24 * hour) (demo_snap ?r snp_failed)" "st_phase (sn_status (demo_snap ?r snp_failed)) \<noteq> []"
    "\<not> auto_delete (demo_snap ?r snp_failed)"
    by (simp_all add: is_expired_def demo_snap_def demo_retention_def auto_delete_def snap_phase_defs time_units)
  then show ?thesis using expiry_is_written_again [OF sim_kube_laws demo_snap_stored _ _ _ r] r by auto
qed

end
