(* ===== verification/Vm_Backup_Schedule.thy ===== *)
theory Vm_Backup_Schedule
  imports Vm_Snapshot Exchange_Sort
begin

text \<open>
  \<open>pkg/operator/controllers/vmbackupschedule_controller.go\<close>: the controller that takes snapshots
  of machines on a schedule and removes old ones.  Parameters: the client of the API, the readings
  of the clock in their order, and the cron parser, whose schedules map an instant to the next one.
\<close>

declare split_paired_All [simp del] split_paired_Ex [simp del]

section \<open>Parameters\<close>

record bs_env =
  be_clock :: "nat \<Rightarrow> instant"
  be_parse :: "string \<Rightarrow> api_error + (instant \<Rightarrow> instant)"

definition backup_schedule_finalizer :: string where
  "backup_schedule_finalizer = ''transiva.zyvor.ai/backupschedule-finalizer''"

section \<open>The machines of a schedule\<close>

text \<open>Both branches on the namespaces of the selector list the namespace of the schedule.\<close>

definition name_selected :: "vm_selector \<Rightarrow> string \<Rightarrow> bool" where
  "name_selected s n \<longleftrightarrow> (sel_match_names s = [] \<or> n \<in> set (sel_match_names s)) \<and> n \<notin> set (sel_exclude_names s)"

definition find_matching_vms ::
  "'w kube \<Rightarrow> vm_backup_schedule \<Rightarrow> 'w \<Rightarrow> (api_error + virtual_machine list) \<times> 'w" where
  "find_matching_vms K x w =
     (let s = bss_vm_selector (bs_spec x)
      in case cl_list (kb_vm K) (om_namespace (bs_meta x)) (sel_match_labels s) w of
           (Inl e, w) \<Rightarrow> (Inl e, w)
         | (Inr vms, w) \<Rightarrow> (Inr (filter (\<lambda>vm. name_selected s (om_name (vm_meta vm))) vms), w))"

section \<open>Taking backups\<close>

definition backup_name :: "vm_backup_schedule \<Rightarrow> virtual_machine \<Rightarrow> instant \<Rightarrow> string" where
  "backup_name x vm t =
     om_name (bs_meta x) @ ''-'' @ om_name (vm_meta vm) @ ''-'' @ dec_int (t div second - 62135596800)"

definition backup_labels :: "vm_backup_schedule \<Rightarrow> virtual_machine \<Rightarrow> (string, string) gomap" where
  "backup_labels x vm =
     foldl (\<lambda>m (k, v). gm_put k v m)
       [(''backup-schedule'', om_name (bs_meta x)), (''vm'', om_name (vm_meta vm)), (''backup-type'', ''scheduled'')]
       (stp_labels (bss_snapshot_template (bs_spec x)))"

definition backup_snapshot :: "vm_backup_schedule \<Rightarrow> virtual_machine \<Rightarrow> instant \<Rightarrow> vm_snapshot" where
  "backup_snapshot x vm t =
     (let tp = bss_snapshot_template (bs_spec x)
      in \<lparr>sn_meta = (plain_meta (backup_name x vm t) (om_namespace (vm_meta vm)) (backup_labels x vm))
            \<lparr>om_annotations := stp_annotations tp\<rparr>,
          sn_spec = \<lparr>sp_vm_ref = \<lparr>vr_name = om_name (vm_meta vm), vr_namespace = om_namespace (vm_meta vm)\<rparr>,
            sp_include_memory = stp_include_memory tp, sp_quiesce = stp_quiesce tp,
            sp_description = ''Automated backup from schedule: '' @ om_name (bs_meta x),
            sp_retention = None, sp_destination = stp_destination tp\<rparr>,
          sn_status = no_snapshot_status\<rparr>)"

definition create_backup_snapshot ::
  "'w kube \<Rightarrow> instant \<Rightarrow> virtual_machine \<Rightarrow> vm_backup_schedule \<Rightarrow> 'w \<Rightarrow> api_error option \<times> vm_backup_schedule \<times> 'w" where
  "create_backup_snapshot K t vm x w =
     (case cl_create (kb_snap K) (backup_snapshot x vm t) w of
        (Inl e, w) \<Rightarrow> (Some (wrap_error ''failed to create snapshot'' e), x, w)
      | (Inr sn, w) \<Rightarrow>
          (None, x\<lparr>bs_status := (bs_status x)\<lparr>bst_last_backup_snapshot := backup_name x vm t,
             bst_active_backups := bst_active_backups (bs_status x) + 1\<rparr>\<rparr>, w))"

text \<open>The loop over the machines; \<open>i\<close> readings of the clock were made before.\<close>

fun back_up_all ::
  "bs_env \<Rightarrow> 'w kube \<Rightarrow> nat \<Rightarrow> virtual_machine list \<Rightarrow> vm_backup_schedule \<Rightarrow> 'w \<Rightarrow> vm_backup_schedule \<times> 'w" where
  "back_up_all env K i [] x w = (x, w)"
| "back_up_all env K i (vm # vms) x w =
     (case create_backup_snapshot K (be_clock env i) vm x w of
        (Some e, x, w) \<Rightarrow>
          back_up_all env K (Suc i) vms
            (x\<lparr>bs_status := (bs_status x)\<lparr>bst_failed_backups := bst_failed_backups (bs_status x) + 1,
               bst_last_backup_status := ''Failed'', bst_last_backup_message := ae_text e\<rparr>\<rparr>) w
      | (None, x, w) \<Rightarrow>
          back_up_all env K (Suc i) vms
            (x\<lparr>bs_status := (bs_status x)\<lparr>bst_total_backups := bst_total_backups (bs_status x) + 1,
               bst_last_backup_status := ''Success''\<rparr>\<rparr>) w)"

section \<open>Removing old backups\<close>

definition created_before :: "vm_snapshot \<Rightarrow> vm_snapshot \<Rightarrow> bool" where
  "created_before a b \<longleftrightarrow> om_created (sn_meta a) < om_created (sn_meta b)"

text \<open>Newest first, then what exceeds \<open>KeepLast\<close>.\<close>

definition to_delete :: "backup_retention_policy \<Rightarrow> vm_snapshot list \<Rightarrow> vm_snapshot list" where
  "to_delete p snaps =
     (if 0 < brp_keep_last p \<and> brp_keep_last p < int (length snaps)
      then drop (nat (brp_keep_last p)) (exchange_sort (\<lambda>a b. created_before b a) snaps) else [])"

fun delete_backups ::
  "'w kube \<Rightarrow> vm_snapshot list \<Rightarrow> vm_backup_schedule \<Rightarrow> 'w \<Rightarrow> vm_backup_schedule \<times> 'w" where
  "delete_backups K [] x w = (x, w)"
| "delete_backups K (sn # sns) x w =
     (case cl_delete (kb_snap K) sn w of
        (Inl e, w) \<Rightarrow> delete_backups K sns x w
      | (Inr u, w) \<Rightarrow> delete_backups K sns
          (x\<lparr>bs_status := (bs_status x)\<lparr>bst_active_backups := bst_active_backups (bs_status x) - 1\<rparr>\<rparr>) w)"

definition schedule_label :: "vm_backup_schedule \<Rightarrow> (string, string) gomap" where
  "schedule_label x = [(''backup-schedule'', om_name (bs_meta x))]"

definition cleanup_old_backups :: "'w kube \<Rightarrow> vm_backup_schedule \<Rightarrow> 'w \<Rightarrow> api_error option \<times> vm_backup_schedule \<times> 'w" where
  "cleanup_old_backups K x w =
     (case cl_list (kb_snap K) (om_namespace (bs_meta x)) (schedule_label x) w of
        (Inl e, w) \<Rightarrow> (Some e, x, w)
      | (Inr snaps, w) \<Rightarrow> (None, delete_backups K (to_delete (bss_retention_policy (bs_spec x)) snaps) x w))"

section \<open>Reconciliation\<close>

definition handle_schedule_deletion :: "'w kube \<Rightarrow> vm_backup_schedule \<Rightarrow> 'w \<Rightarrow> 'w outcome" where
  "handle_schedule_deletion K x w =
     (if backup_schedule_finalizer \<in> set (om_finalizers (bs_meta x))
      then case cl_update (kb_sched K) (x\<lparr>bs_meta := remove_finalizer backup_schedule_finalizer (bs_meta x)\<rparr>) w of
             (Inl e, w) \<Rightarrow> ((nothing_more, Some e), w)
           | (Inr x, w) \<Rightarrow> ((nothing_more, None), w)
      else ((nothing_more, None), w))"

definition sched_ensure_finalizer ::
  "'w kube \<Rightarrow> vm_backup_schedule \<Rightarrow> 'w \<Rightarrow> api_error option \<times> vm_backup_schedule \<times> 'w" where
  "sched_ensure_finalizer K x w =
     (if backup_schedule_finalizer \<in> set (om_finalizers (bs_meta x)) then (None, x, w)
      else case cl_update (kb_sched K) (x\<lparr>bs_meta := add_finalizer backup_schedule_finalizer (bs_meta x)\<rparr>) w of
             (Inl e, w) \<Rightarrow> (Some e, x, w)
           | (Inr x, w) \<Rightarrow> (None, x, w))"

text \<open>Whether a backup is due, with the next time computed from the current one.\<close>

definition backup_due :: "instant \<Rightarrow> instant \<Rightarrow> vm_backup_schedule \<Rightarrow> bool" where
  "backup_due now next x \<longleftrightarrow> bst_last_backup_time (bs_status x) = None \<or> next < now"

definition run_schedule ::
  "bs_env \<Rightarrow> 'w kube \<Rightarrow> virtual_machine list \<Rightarrow> (instant \<Rightarrow> instant) \<Rightarrow> vm_backup_schedule \<Rightarrow> 'w \<Rightarrow> 'w outcome" where
  "run_schedule env K vms cron x w =
     (let now = be_clock env 0; next = cron now;
          x = x\<lparr>bs_status := (bs_status x)\<lparr>bst_next_backup_time := Some next\<rparr>\<rparr>;
          due = backup_due now next x;
          (x, w) = (if due
                    then case back_up_all env K 1 vms x w of
                           (x, w) \<Rightarrow> (x\<lparr>bs_status := (bs_status x)\<lparr>bst_last_backup_time := Some now\<rparr>\<rparr>, w)
                    else (x, w))
      in case cleanup_old_backups K x w of
           (e, x, w) \<Rightarrow>
             (case cl_update_status (kb_sched K) x w of
                (Inl e, w) \<Rightarrow> ((nothing_more, Some e), w)
              | (Inr x, w) \<Rightarrow>
                  (let after = next - be_clock env (if due then Suc (length vms) else 1)
                   in ((if after < 0 then minute else after, None), w))))"

definition reconcile_active :: "bs_env \<Rightarrow> 'w kube \<Rightarrow> vm_backup_schedule \<Rightarrow> 'w \<Rightarrow> 'w outcome" where
  "reconcile_active env K x w =
     (if bss_paused (bs_spec x) then ((minute, None), w)
      else case find_matching_vms K x w of
             (Inl e, w) \<Rightarrow> ((nothing_more, Some e), w)
           | (Inr vms, w) \<Rightarrow>
               (let x = x\<lparr>bs_status := (bs_status x)\<lparr>bst_matched_vms := map (\<lambda>vm. om_name (vm_meta vm)) vms\<rparr>\<rparr>
                in case be_parse env (bss_schedule (bs_spec x)) of
                     Inl e \<Rightarrow> ((nothing_more, Some e), w)
                   | Inr cron \<Rightarrow> run_schedule env K vms cron x w))"

definition reconcile_schedule :: "bs_env \<Rightarrow> 'w kube \<Rightarrow> obj_key \<Rightarrow> 'w \<Rightarrow> 'w outcome" where
  "reconcile_schedule env K k w =
     (case cl_get (kb_sched K) k w of
        (Inl e, w) \<Rightarrow> ((nothing_more, if ae_reason e = NotFound then None else Some e), w)
      | (Inr x, w) \<Rightarrow>
          if om_deletion (bs_meta x) \<noteq> None then handle_schedule_deletion K x w
          else case sched_ensure_finalizer K x w of
                 (Some e, x, w) \<Rightarrow> ((nothing_more, Some e), w)
               | (None, x, w) \<Rightarrow> reconcile_active env K x w)"


section \<open>Only the first run of a schedule takes backups\<close>

definition no_new_snaps :: "vm_snapshot obj_map \<Rightarrow> vm_snapshot obj_map \<Rightarrow> bool" where
  "no_new_snaps m0 m \<longleftrightarrow> (\<forall>k y. m k = Some y \<longrightarrow> (\<exists>x. m0 k = Some x \<and> sn_spec y = sn_spec x \<and> sn_status y = sn_status x))"

lemma no_new_snaps_refl [simp]: "no_new_snaps m m"
  by (simp add: no_new_snaps_def)

lemma no_new_snaps_trans: "no_new_snaps m0 m1 \<Longrightarrow> no_new_snaps m1 m2 \<Longrightarrow> no_new_snaps m0 m2"
  unfolding no_new_snaps_def by metis

lemma delete_no_new: "no_new_snaps m (snd (sem_delete snap_kind t x m))"
  by (auto simp: no_new_snaps_def sem_delete_def split: option.splits if_splits)

text \<open>The schedule under \<open>k\<close> has had a backup, and no snapshot has been added.\<close>

definition has_run :: "vm_backup_schedule \<Rightarrow> bool" where
  "has_run x \<longleftrightarrow> bst_last_backup_time (bs_status x) \<noteq> None"

definition quiet :: "('w \<Rightarrow> obj_store) \<Rightarrow> obj_key \<Rightarrow> obj_store \<Rightarrow> 'w \<Rightarrow> bool" where
  "quiet view k s0 w \<longleftrightarrow> obj_kept sched_kind has_run k (os_scheds s0) (os_scheds (view w)) \<and>
     no_new_snaps (os_snaps s0) (os_snaps (view w))"

lemma quiet_view: "quiet view k s0 w \<Longrightarrow> view w' = view w \<Longrightarrow> quiet view k s0 w'"
  by (simp add: quiet_def)

lemma has_run_status: "of_status sched_kind has_run"
  by (simp add: of_status_def has_run_def)

lemma delete_backups_quiet:
  shows "kube_laws reliable view K \<Longrightarrow> quiet view k s0 w \<Longrightarrow> delete_backups K sns x w = (x', w') \<Longrightarrow>
    quiet view k s0 w' \<and> bs_meta x' = bs_meta x \<and> has_run x' = has_run x"
proof (induction K sns x w arbitrary: x' w' rule: delete_backups.induct)
  case (2 K sn sns x w)
  note L = kube_lawsD(3) [OF 2(3)]
  obtain r w1 where d: "cl_delete (kb_snap K) sn w = (r, w1)" by fastforce
  obtain t where "performs reliable r (view w) (view w1)
      (apsnd (\<lambda>m. (view w)\<lparr>os_snaps := m\<rparr>) (sem_delete snap_kind t sn (os_snaps (view w))))"
    using client_performs(6) [OF L d] by blast
  then have "view w1 = view w \<or> view w1 = (view w)\<lparr>os_snaps := snd (sem_delete snap_kind t sn (os_snaps (view w)))\<rparr>"
    by (rule performs_cases)
  then have "quiet view k s0 w1"
    using 2(4) delete_no_new no_new_snaps_trans by (auto simp: quiet_def)
  note q = this
  show ?case
  proof (cases r)
    case (Inl e)
    then show ?thesis using 2(1) [OF d [symmetric] Inl 2(3) q] 2(5) d by simp
  next
    case (Inr u)
    let ?x = "x\<lparr>bs_status := (bs_status x)\<lparr>bst_active_backups := bst_active_backups (bs_status x) - 1\<rparr>\<rparr>"
    have "delete_backups K sns ?x w1 = (x', w')" using 2(5) d Inr by simp
    from 2(2) [OF d [symmetric] Inr 2(3) q this] show ?thesis by (simp add: has_run_def)
  qed
qed simp

lemma sched_calls_quiet:
  assumes "kube_laws reliable view K" and "quiet view k s0 w" and "key_of sched_kind x = k"
  shows "cl_update (kb_sched K) x w = (r, w') \<Longrightarrow> quiet view k s0 w'"
    and "cl_update (kb_sched K) x w = (Inr y, w') \<Longrightarrow> key_of sched_kind y = k \<and> has_run y"
    and "cl_update_status (kb_sched K) x w = (r, w') \<Longrightarrow> has_run x \<Longrightarrow> quiet view k s0 w'"
proof -
  note L = kube_lawsD(4) [OF assms(1)]
  have o: "obj_kept sched_kind has_run k (os_scheds s0) (os_scheds (view w))" "no_new_snaps (os_snaps s0) (os_snaps (view w))"
    using assms(2) by (auto simp: quiet_def)
  note kept = calls_kept [OF L _ _ has_run_status o(1) assms(3)]
  note snaps = other_kinds_kept [OF L, where look = os_snaps]
  show "cl_update (kb_sched K) x w = (r, w') \<Longrightarrow> quiet view k s0 w'"
    using kept(1) snaps(3) o(2) by (simp add: quiet_def)
  show "cl_update (kb_sched K) x w = (Inr y, w') \<Longrightarrow> key_of sched_kind y = k \<and> has_run y"
    using updated_key(1) [OF L _ has_run_status o(1) assms(3)] by simp
  show "cl_update_status (kb_sched K) x w = (r, w') \<Longrightarrow> has_run x \<Longrightarrow> quiet view k s0 w'"
    using kept(3) snaps(4) o(2) by (simp add: quiet_def)
qed

text \<open>
  The cron library's schedules name a later instant, or the zero time when there is none within
  five years.
\<close>

definition cron_ahead :: "bs_env \<Rightarrow> bool" where
  "cron_ahead env \<longleftrightarrow> (\<forall>s cron t. be_parse env s = Inr cron \<longrightarrow> cron t = 0 \<or> t < cron t)"

text \<open>At the time of the reconciliation the schedule has a next run.\<close>

definition next_run_ahead :: "bs_env \<Rightarrow> vm_backup_schedule \<Rightarrow> bool" where
  "next_run_ahead env x \<longleftrightarrow>
     (\<forall>cron. be_parse env (bss_schedule (bs_spec x)) = Inr cron \<longrightarrow> be_clock env 0 < cron (be_clock env 0))"

lemma updated_schedule:
  assumes "kube_laws reliable view K" and "cl_update (kb_sched K) x w = (Inr y, w')"
  shows "bs_spec y = bs_spec x"
proof -
  have "fst (sem_update sched_kind x (os_scheds (view w))) = Inr y \<Longrightarrow> bs_spec y = bs_spec x"
    by (auto simp: sem_update_def Let_def sched_kind_def split: option.splits if_splits)
  then show ?thesis using answers(1) [OF kube_lawsD(4) [OF assms(1)] assms(2)] by blast
qed

lemma run_schedule_quiet:
  assumes "kube_laws reliable view K" and "quiet view k s0 w" and "key_of sched_kind x = k" and "has_run x"
    and "be_clock env 0 < cron (be_clock env 0)" and "run_schedule env K vms cron x w = (res, w')"
  shows "quiet view k s0 w'"
proof -
  let ?x = "x\<lparr>bs_status := (bs_status x)\<lparr>bst_next_backup_time := Some (cron (be_clock env 0))\<rparr>\<rparr>"
  have due: "\<not> backup_due (be_clock env 0) (cron (be_clock env 0)) ?x"
    using assms(4,5) by (simp add: backup_due_def has_run_def)
  obtain e y w1 where c: "cleanup_old_backups K ?x w = (e, y, w1)" by (cases "cleanup_old_backups K ?x w")
  obtain r w2 where l: "cl_list (kb_snap K) (om_namespace (bs_meta ?x)) (schedule_label ?x) w = (r, w2)" by fastforce
  have q: "quiet view k s0 w2"
    by (rule quiet_view [OF assms(2)]) (use client_performs(2) [OF kube_lawsD(3) [OF assms(1)] l] in blast)
  have y: "quiet view k s0 w1 \<and> bs_meta y = bs_meta ?x \<and> has_run y = has_run ?x"
  proof (cases r)
    case (Inl e')
    then show ?thesis using c l q by (simp add: cleanup_old_backups_def)
  next
    case (Inr snaps)
    have "delete_backups K (to_delete (bss_retention_policy (bs_spec ?x)) snaps) ?x w2 = (y, w1)"
      using c l Inr by (simp add: cleanup_old_backups_def)
    from delete_backups_quiet [OF assms(1) q this] show ?thesis .
  qed
  obtain r' w3 where u: "cl_update_status (kb_sched K) y w1 = (r', w3)" by fastforce
  have "key_of sched_kind y = k" "has_run y" using y assms(3,4) by (simp_all add: key_of_def has_run_def)
  then have "quiet view k s0 w3" using sched_calls_quiet(3) [OF assms(1) _ _ u] y by blast
  moreover have "w' = w3" using assms(6) due c u by (auto simp: run_schedule_def Let_def split: sum.splits)
  ultimately show ?thesis by simp
qed

lemma reconcile_active_quiet:
  assumes "kube_laws reliable view K" and "quiet view k s0 w" and "key_of sched_kind x = k" and "has_run x"
    and "next_run_ahead env x" and "reconcile_active env K x w = (res, w')"
  shows "quiet view k s0 w'"
proof (cases "bss_paused (bs_spec x)")
  case True
  then show ?thesis using assms(2,6) by (simp add: reconcile_active_def)
next
  case False
  obtain r w1 where l: "cl_list (kb_vm K) (om_namespace (bs_meta x)) (sel_match_labels (bss_vm_selector (bs_spec x))) w = (r, w1)"
    by fastforce
  have q: "quiet view k s0 w1"
    by (rule quiet_view [OF assms(2)]) (use client_performs(2) [OF kube_lawsD(1) [OF assms(1)] l] in blast)
  show ?thesis
  proof (cases r)
    case (Inl e)
    then show ?thesis using q assms(6) False l by (simp add: reconcile_active_def find_matching_vms_def Let_def)
  next
    case vms: (Inr vms)
    show ?thesis
    proof (cases "be_parse env (bss_schedule (bs_spec x))")
      case (Inl e)
      then show ?thesis using q assms(6) False l vms by (simp add: reconcile_active_def find_matching_vms_def Let_def)
    next
      case (Inr cron)
      then have "be_clock env 0 < cron (be_clock env 0)" using assms(5) by (simp add: next_run_ahead_def)
      moreover obtain ms where "run_schedule env K ms cron
          (x\<lparr>bs_status := (bs_status x)\<lparr>bst_matched_vms := map (\<lambda>vm. om_name (vm_meta vm)) ms\<rparr>\<rparr>) w1 = (res, w')"
        using assms(6) False l vms Inr by (simp add: reconcile_active_def find_matching_vms_def Let_def)
      ultimately show ?thesis using assms(3,4) by (intro run_schedule_quiet [OF assms(1) q]) (auto simp: has_run_def)
    qed
  qed
qed

lemma reconcile_schedule_quiet:
  assumes "kube_laws reliable view K" and "quiet view k s0 w"
    and "\<And>x. os_scheds (view w) k = Some x \<Longrightarrow> next_run_ahead env x"
    and "reconcile_schedule env K k w = (res, w')"
  shows "quiet view k s0 w'"
proof -
  obtain r w1 where g: "cl_get (kb_sched K) k w = (r, w1)" by fastforce
  note get = get_stored [OF kube_lawsD(4) [OF assms(1)] g]
  have q: "quiet view k s0 w1" using get(1) assms(2) by (simp add: quiet_def)
  show ?thesis
  proof (cases r)
    case (Inl e)
    then show ?thesis using q g assms(4) by (simp add: reconcile_schedule_def)
  next
    case (Inr x)
    have "key_of sched_kind x = k" "has_run x"
      using assms(2) get(2) [OF Inr] by (auto simp: quiet_def obj_kept_def keyed_def)
    then have x: "key_of sched_kind x = k" "has_run x"
      "key_of sched_kind (x\<lparr>bs_meta := add_finalizer f (bs_meta x)\<rparr>) = k"
      "key_of sched_kind (x\<lparr>bs_meta := remove_finalizer f (bs_meta x)\<rparr>) = k" for f
      by (auto simp: key_of_def add_finalizer_def remove_finalizer_def)
    show ?thesis
    proof (cases "om_deletion (bs_meta x) = None")
      case False
      then show ?thesis using sched_calls_quiet(1) [OF assms(1) q x(4)] q g Inr assms(4)
        by (auto simp: reconcile_schedule_def handle_schedule_deletion_def split: if_splits prod.splits sum.splits)
    next
      case True
      obtain e y w2 where f: "sched_ensure_finalizer K x w1 = (e, y, w2)" by (cases "sched_ensure_finalizer K x w1")
      have f': "quiet view k s0 w2" "e = None \<Longrightarrow> key_of sched_kind y = k \<and> has_run y"
        using f q x(1,2) sched_calls_quiet(1,2) [OF assms(1) q x(3)]
        by (auto simp: sched_ensure_finalizer_def split: if_splits prod.splits sum.splits)
      have "bs_spec y = bs_spec x" if "e = None"
        using f that updated_schedule [OF assms(1)]
        by (fastforce simp: sched_ensure_finalizer_def split: if_splits prod.splits sum.splits)
      then have ahead: "next_run_ahead env y" if "e = None"
        using that assms(3) get(2) [OF Inr] by (simp add: next_run_ahead_def)
      show ?thesis
      proof (cases e)
        case (Some e')
        then show ?thesis using f f'(1) g Inr True assms(4) by (simp add: reconcile_schedule_def)
      next
        case None
        then have "reconcile_active env K y w2 = (res, w')" using f g Inr True assms(4) by (simp add: reconcile_schedule_def)
        then show ?thesis using reconcile_active_quiet [OF assms(1) f'(1)] f'(2) [OF None] ahead [OF None] by blast
      qed
    qed
  qed
qed

text \<open>A history of reconciliations, each with its clock.\<close>

fun reconcile_schedules :: "'w kube \<Rightarrow> obj_key \<Rightarrow> bs_env list \<Rightarrow> 'w \<Rightarrow> 'w" where
  "reconcile_schedules K k [] w = w"
| "reconcile_schedules K k (env # envs) w = reconcile_schedules K k envs (snd (reconcile_schedule env K k w))"

text \<open>At every reconciliation of the history cron finds a next run for the schedule as it is stored then.\<close>

fun finds_next_runs ::
  "('w \<Rightarrow> obj_store) \<Rightarrow> 'w kube \<Rightarrow> obj_key \<Rightarrow> bs_env list \<Rightarrow> 'w \<Rightarrow> bool" where
  "finds_next_runs view K k [] w = True"
| "finds_next_runs view K k (env # envs) w \<longleftrightarrow>
     (\<forall>x cron. os_scheds (view w) k = Some x \<longrightarrow> be_parse env (bss_schedule (bs_spec x)) = Inr cron \<longrightarrow>
        cron (be_clock env 0) \<noteq> 0)
     \<and> finds_next_runs view K k envs (snd (reconcile_schedule env K k w))"

text \<open>
  C26: after the first backups of a schedule no reconciliation takes another, however often and whenever
  it runs and whatever the API answers, as long as cron finds a next run within five years: the
  next time is computed from the current one, so it lies ahead.  The snapshots there are can only
  be deleted.
\<close>

theorem no_backup_after_the_first:
  assumes "kube_laws reliable view K" and "keyed sched_kind (os_scheds (view w))"
    and "os_scheds (view w) k = Some x" and "bst_last_backup_time (bs_status x) \<noteq> None"
    and "\<forall>env \<in> set envs. cron_ahead env" and "finds_next_runs view K k envs w"
  shows "no_new_snaps (os_snaps (view w)) (os_snaps (view (reconcile_schedules K k envs w)))"
proof -
  have "quiet view k (view w) w'' \<Longrightarrow> \<forall>env \<in> set envs. cron_ahead env \<Longrightarrow> finds_next_runs view K k envs w'' \<Longrightarrow>
      quiet view k (view w) (reconcile_schedules K k envs w'')" for w''
  proof (induction envs arbitrary: w'')
    case (Cons env envs)
    obtain res w1 where r: "reconcile_schedule env K k w'' = (res, w1)" by fastforce
    have "next_run_ahead env x" if "os_scheds (view w'') k = Some x" for x
      unfolding next_run_ahead_def
    proof (intro allI impI)
      fix cron assume c: "be_parse env (bss_schedule (bs_spec x)) = Inr cron"
      then have "cron (be_clock env 0) \<noteq> 0" using Cons.prems(3) that by simp
      moreover have "cron_ahead env" using Cons.prems(2) by simp
      ultimately show "be_clock env 0 < cron (be_clock env 0)" using c unfolding cron_ahead_def by blast
    qed
    then have "quiet view k (view w) w1" by (rule reconcile_schedule_quiet [OF assms(1) Cons.prems(1) _ r])
    then show ?case using Cons r by simp
  qed simp
  moreover have "quiet view k (view w) w"
    using assms(2-4) by (auto simp: quiet_def obj_kept_def has_run_def)
  ultimately show ?thesis using assms(5,6) by (simp add: quiet_def)
qed

text \<open>
  For a schedule without a date in the next five years it is the other way round: the zero time lies
  behind, and every reconciliation backs up every machine.
\<close>

lemma dateless_schedule_backs_up_always:
  assumes "0 < be_clock env 0" and "cron (be_clock env 0) = 0"
  shows "backup_due (be_clock env 0) (cron (be_clock env 0)) x"
  using assms by (simp add: backup_due_def)

section \<open>A round of backups\<close>

lemma backup_parts [simp]:
  "backup_snapshot (x\<lparr>bs_status := st\<rparr>) = backup_snapshot x" "backup_name (x\<lparr>bs_status := st\<rparr>) = backup_name x"
proof -
  show n: "backup_name (x\<lparr>bs_status := st\<rparr>) = backup_name x" by (intro ext) (simp add: backup_name_def)
  have "backup_labels (x\<lparr>bs_status := st\<rparr>) = backup_labels x" by (intro ext) (simp add: backup_labels_def)
  then show "backup_snapshot (x\<lparr>bs_status := st\<rparr>) = backup_snapshot x" by (intro ext) (simp add: backup_snapshot_def n)
qed

definition backup_keys :: "bs_env \<Rightarrow> vm_backup_schedule \<Rightarrow> nat \<Rightarrow> virtual_machine list \<Rightarrow> obj_key list" where
  "backup_keys env x i vms = map (\<lambda>(j, vm). key_of snap_kind (backup_snapshot x vm (be_clock env j))) (enumerate i vms)"

definition backed_up :: "bs_env \<Rightarrow> vm_backup_schedule \<Rightarrow> vm_snapshot obj_map \<Rightarrow> nat \<Rightarrow> virtual_machine \<Rightarrow> bool" where
  "backed_up env x m j vm \<longleftrightarrow> (let sn = backup_snapshot x vm (be_clock env j)
     in \<exists>t. m (key_of snap_kind sn) = Some (sn\<lparr>sn_meta := (sn_meta sn)\<lparr>om_created := t, om_deletion := None\<rparr>\<rparr>))"

lemma back_up_all_takes:
  assumes "kube_laws True view K"
  shows "distinct (backup_keys env x i vms) \<Longrightarrow> \<forall>k \<in> set (backup_keys env x i vms). os_snaps (view w) k = None \<Longrightarrow>
    \<exists>x' w'. back_up_all env K i vms x w = (x', w') \<and>
      bst_total_backups (bs_status x') = bst_total_backups (bs_status x) + int (length vms) \<and>
      bst_active_backups (bs_status x') = bst_active_backups (bs_status x) + int (length vms) \<and>
      bst_failed_backups (bs_status x') = bst_failed_backups (bs_status x) \<and>
      (\<forall>k. k \<notin> set (backup_keys env x i vms) \<longrightarrow> os_snaps (view w') k = os_snaps (view w) k) \<and>
      (\<forall>(j, vm) \<in> set (enumerate i vms). backed_up env x (os_snaps (view w')) j vm)"
proof (induction vms arbitrary: i x w)
  case (Cons vm vms)
  let ?sn = "backup_snapshot x vm (be_clock env i)"
  let ?k = "key_of snap_kind ?sn"
  have keys: "backup_keys env x i (vm # vms) = ?k # backup_keys env x (Suc i) vms" by (simp add: backup_keys_def)
  have "os_snaps (view w) ?k = None" using Cons(3) keys by simp
  then obtain t w1 sn' where c: "cl_create (kb_snap K) ?sn w = (Inr sn', w1)"
    "sn' = kd_no_status snap_kind (kd_with_meta snap_kind ((kd_meta snap_kind ?sn)\<lparr>om_created := t, om_deletion := None\<rparr>) ?sn)"
    "view w1 = (view w)\<lparr>os_snaps := (os_snaps (view w))(?k \<mapsto> sn')\<rparr>"
    using reliable_create [OF kube_lawsD(3) [OF assms], where x = ?sn] by blast
  have sn': "sn' = ?sn\<lparr>sn_meta := (sn_meta ?sn)\<lparr>om_created := t, om_deletion := None\<rparr>\<rparr>"
    using c(2) by (simp add: backup_snapshot_def Let_def)
  let ?x = "x\<lparr>bs_status := (bs_status x)\<lparr>bst_last_backup_snapshot := backup_name x vm (be_clock env i),
    bst_active_backups := bst_active_backups (bs_status x) + 1,
    bst_total_backups := bst_total_backups (bs_status x) + 1, bst_last_backup_status := ''Success''\<rparr>\<rparr>"
  have keys': "backup_keys env ?x (Suc i) vms = backup_keys env x (Suc i) vms" by (simp add: backup_keys_def)
  have step: "back_up_all env K i (vm # vms) x w = back_up_all env K (Suc i) vms ?x w1"
    using c(1) by (simp add: create_backup_snapshot_def)
  have "distinct (backup_keys env ?x (Suc i) vms)"
    "\<forall>k \<in> set (backup_keys env ?x (Suc i) vms). os_snaps (view w1) k = None"
    using Cons(2,3) keys keys' c(3) by auto
  from Cons(1) [OF this] obtain x' w' where r: "back_up_all env K (Suc i) vms ?x w1 = (x', w')"
    "bst_total_backups (bs_status x') = bst_total_backups (bs_status x) + 1 + int (length vms)"
    "bst_active_backups (bs_status x') = bst_active_backups (bs_status x) + 1 + int (length vms)"
    "bst_failed_backups (bs_status x') = bst_failed_backups (bs_status x)"
    "\<forall>k. k \<notin> set (backup_keys env x (Suc i) vms) \<longrightarrow> os_snaps (view w') k = os_snaps (view w1) k"
    "\<forall>(j, vm) \<in> set (enumerate (Suc i) vms). backed_up env ?x (os_snaps (view w')) j vm"
    unfolding keys' by auto
  have new: "os_snaps (view w') ?k = Some sn'" using r(5) Cons(2) keys c(3) by simp
  have "backed_up env x (os_snaps (view w')) i vm" unfolding backed_up_def Let_def using new sn' by blast
  moreover have "backed_up env ?x (os_snaps (view w')) j v = backed_up env x (os_snaps (view w')) j v" for j v
    by (simp add: backed_up_def)
  ultimately show ?case using r step keys c(3) by auto
qed simp

text \<open>
  When the API does what it is asked and the names are free, a round of backups takes a snapshot of
  every machine it is given, from the template of the schedule and under the schedule's name, changes
  no other snapshot, and counts each of them as taken and active and none as failed.
\<close>

theorem a_round_backs_up_every_machine:
  assumes "kube_laws True view K" and "distinct (backup_keys env x 1 vms)"
    and "\<forall>k \<in> set (backup_keys env x 1 vms). os_snaps (view w) k = None" and "back_up_all env K 1 vms x w = (x', w')"
  shows "(\<forall>(j, vm) \<in> set (enumerate 1 vms). backed_up env x (os_snaps (view w')) j vm) \<and>
    (\<forall>k. k \<notin> set (backup_keys env x 1 vms) \<longrightarrow> os_snaps (view w') k = os_snaps (view w) k) \<and>
    bst_total_backups (bs_status x') = bst_total_backups (bs_status x) + int (length vms) \<and>
    bst_active_backups (bs_status x') = bst_active_backups (bs_status x) + int (length vms) \<and>
    bst_failed_backups (bs_status x') = bst_failed_backups (bs_status x)"
  using back_up_all_takes [OF assms(1-3)] assms(4) by auto

section \<open>Removing old backups\<close>

interpretation newest: heap_less "\<lambda>a b. created_before b a"
  by unfold_locales (auto simp: created_before_def)

definition gone :: "vm_snapshot obj_map \<Rightarrow> vm_snapshot \<Rightarrow> bool" where
  "gone m sn \<longleftrightarrow> (\<forall>y. m (key_of snap_kind sn) = Some y \<longrightarrow> om_deletion (sn_meta y) \<noteq> None)"

lemma delete_backups_deletes:
  assumes "kube_laws True view K"
  shows "distinct (map (key_of snap_kind) sns) \<Longrightarrow> \<forall>sn \<in> set sns. os_snaps (view w) (key_of snap_kind sn) = Some sn \<Longrightarrow>
    \<exists>w'. delete_backups K sns x w =
        (x\<lparr>bs_status := (bs_status x)\<lparr>bst_active_backups := bst_active_backups (bs_status x) - int (length sns)\<rparr>\<rparr>, w') \<and>
      (\<forall>k. k \<notin> key_of snap_kind ` set sns \<longrightarrow> os_snaps (view w') k = os_snaps (view w) k) \<and>
      (\<forall>sn \<in> set sns. gone (os_snaps (view w')) sn)"
proof (induction sns arbitrary: x w)
  case (Cons sn sns)
  let ?k = "key_of snap_kind sn"
  have "os_snaps (view w) ?k = Some sn" using Cons(3) by simp
  then obtain t w1 where d: "cl_delete (kb_snap K) sn w = (Inr (), w1)"
    "view w1 = (view w)\<lparr>os_snaps := snd (sem_delete snap_kind t sn (os_snaps (view w)))\<rparr>"
    using reliable_delete [OF kube_lawsD(3) [OF assms], where x = sn] by blast
  have m: "os_snaps (view w1) k = os_snaps (view w) k" if "k \<noteq> ?k" for k
    using that d(2) by (auto simp: sem_delete_def split: option.splits)
  have g: "gone (os_snaps (view w1)) sn"
    using d(2) Cons(3) by (auto simp: sem_delete_def gone_def split: if_splits)
  let ?x = "x\<lparr>bs_status := (bs_status x)\<lparr>bst_active_backups := bst_active_backups (bs_status x) - 1\<rparr>\<rparr>"
  have "\<forall>s \<in> set sns. os_snaps (view w1) (key_of snap_kind s) = Some s"
    using Cons(2,3) m by (metis (no_types, lifting) distinct.simps(2) image_eqI list.set_intros(2) list.set_map list.simps(9))
  from Cons(1) [OF _ this, of ?x] Cons(2) obtain w' where r: "delete_backups K sns ?x w1 =
      (?x\<lparr>bs_status := (bs_status ?x)\<lparr>bst_active_backups := bst_active_backups (bs_status ?x) - int (length sns)\<rparr>\<rparr>, w')"
    "\<forall>k. k \<notin> key_of snap_kind ` set sns \<longrightarrow> os_snaps (view w') k = os_snaps (view w1) k"
    "\<forall>sn \<in> set sns. gone (os_snaps (view w')) sn" by auto
  have "os_snaps (view w') ?k = os_snaps (view w1) ?k" using r(2) Cons(2) by simp
  then have "gone (os_snaps (view w')) sn" using g by (simp add: gone_def)
  then show ?case using d(1) r m by (auto simp: algebra_simps)
qed simp

text \<open>
  When the API does what it is asked and \<open>KeepLast\<close> is set, the cleanup keeps the newest \<open>KeepLast\<close>
  snapshots that carry the schedule's label in its namespace and deletes all others of them; it
  touches nothing else.  The count of active backups falls by the number of deletions asked for, also
  for snapshots that are being deleted already.
\<close>

theorem cleanup_keeps_the_newest:
  assumes "kube_laws True view K" and "keyed snap_kind (os_snaps (view w))"
    and "0 < brp_keep_last (bss_retention_policy (bs_spec x))" and "cleanup_old_backups K x w = (e, x', w')"
  shows "e = None \<and> (\<exists>kept old. distinct (kept @ old) \<and>
    (\<forall>sn. sn \<in> set (kept @ old) \<longleftrightarrow>
      (\<exists>k. os_snaps (view w) k = Some sn \<and> fst k = om_namespace (bs_meta x) \<and> has_labels (schedule_label x) (sn_meta sn))) \<and>
    int (length kept) = min (brp_keep_last (bss_retention_policy (bs_spec x))) (int (length (kept @ old))) \<and>
    (\<forall>a \<in> set kept. \<forall>b \<in> set old. om_created (sn_meta b) \<le> om_created (sn_meta a)) \<and>
    (\<forall>b \<in> set old. gone (os_snaps (view w')) b) \<and>
    (\<forall>k. k \<notin> key_of snap_kind ` set old \<longrightarrow> os_snaps (view w') k = os_snaps (view w) k) \<and>
    bst_active_backups (bs_status x') = bst_active_backups (bs_status x) - int (length old))"
proof -
  obtain snaps w1 where l: "cl_list (kb_snap K) (om_namespace (bs_meta x)) (schedule_label x) w = (Inr snaps, w1)"
    "view w1 = view w" "lists snap_kind (om_namespace (bs_meta x)) (schedule_label x) (os_snaps (view w)) snaps"
    using reliable_list [OF kube_lawsD(3) [OF assms(1)]] by blast
  define sorted where "sorted = exchange_sort (\<lambda>a b. created_before b a) snaps"
  define n where "n = nat (brp_keep_last (bss_retention_policy (bs_spec x)))"
  let ?kept = "take n sorted" and ?old = "drop n sorted"
  have td: "to_delete (bss_retention_policy (bs_spec x)) snaps = ?old"
    using assms(3) by (auto simp: to_delete_def sorted_def n_def)
  have st: "os_snaps (view w) (key_of snap_kind sn) = Some sn" if "sn \<in> set snaps" for sn
    using that l(3) assms(2) by (auto simp: lists_def keyed_def)
  have "distinct sorted" using l(3) exchange_sort_mset [of "\<lambda>a b. created_before b a" snaps]
    by (metis lists_def mset_eq_imp_distinct_iff sorted_def)
  moreover have "inj_on (key_of snap_kind) (set snaps)" using st by (metis inj_onI option.inject)
  ultimately have d: "distinct sorted" "distinct (map (key_of snap_kind) ?old)"
    by (auto simp: distinct_map sorted_def intro: inj_on_subset dest: in_set_dropD)
      (metis exchange_sort_set inj_on_subset set_drop_subset)
  have stored: "\<forall>sn \<in> set ?old. os_snaps (view w1) (key_of snap_kind sn) = Some sn"
    using st l(2) by (auto simp: sorted_def dest: in_set_dropD)
  obtain w2 where r: "delete_backups K ?old x w1 =
      (x\<lparr>bs_status := (bs_status x)\<lparr>bst_active_backups := bst_active_backups (bs_status x) - int (length ?old)\<rparr>\<rparr>, w2)"
    "\<forall>k. k \<notin> key_of snap_kind ` set ?old \<longrightarrow> os_snaps (view w2) k = os_snaps (view w1) k"
    "\<forall>sn \<in> set ?old. gone (os_snaps (view w2)) sn"
    using delete_backups_deletes [OF assms(1) d(2) stored, of x] by blast
  have e: "e = None" "w' = w2"
    "x' = x\<lparr>bs_status := (bs_status x)\<lparr>bst_active_backups := bst_active_backups (bs_status x) - int (length ?old)\<rparr>\<rparr>"
    using assms(4) l(1) r(1) by (simp_all add: cleanup_old_backups_def td)
  have "sorted_wrt (\<lambda>a b. \<not> created_before a b) (?kept @ ?old)"
    using newest.exchange_sort_sorted [of snaps] by (simp add: sorted_def)
  then have newer: "\<forall>a \<in> set ?kept. \<forall>b \<in> set ?old. om_created (sn_meta b) \<le> om_created (sn_meta a)"
    unfolding sorted_wrt_append by (auto simp: created_before_def not_less)
  have mem: "\<forall>sn. sn \<in> set (?kept @ ?old) \<longleftrightarrow>
      (\<exists>k. os_snaps (view w) k = Some sn \<and> fst k = om_namespace (bs_meta x) \<and> has_labels (schedule_label x) (sn_meta sn))"
    using l(3) by (simp add: lists_def sorted_def)
  have len: "int (length ?kept) = min (brp_keep_last (bss_retention_policy (bs_spec x))) (int (length (?kept @ ?old)))"
    using assms(3) by (simp add: n_def)
  show ?thesis using d(1) mem newer len r e(3) l(2) by (intro conjI e(1) exI [of _ ?kept] exI [of _ ?old]) (simp_all add: e)
qed


section \<open>A schedule\<close>

definition demo_schedule :: "instant option \<Rightarrow> vm_backup_schedule" where
  "demo_schedule run_at =
     \<lparr>bs_meta = plain_meta ''nightly'' ''prod'' [],
      bs_spec = \<lparr>bss_vm_selector = \<lparr>sel_match_labels = [], sel_match_names = [], sel_match_namespaces = [], sel_exclude_names = []\<rparr>,
        bss_schedule = ''0 2 * * *'',
        bss_snapshot_template = \<lparr>stp_include_memory = False, stp_quiesce = False, stp_destination = None, stp_labels = [],
          stp_annotations = []\<rparr>,
        bss_retention_policy = \<lparr>brp_keep_last = 1, brp_keep_daily = 0, brp_keep_weekly = 0, brp_keep_monthly = 0,
          brp_keep_yearly = 0, brp_max_age = [], brp_auto_delete = False\<rparr>,
        bss_paused = False, bss_timezone = []\<rparr>,
      bs_status = no_backup_schedule_status\<lparr>bst_last_backup_time := run_at\<rparr>\<rparr>"

definition demo_bs_env :: bs_env where
  "demo_bs_env = \<lparr>be_clock = (\<lambda>i. 100 + int i), be_parse = (\<lambda>s. Inr (\<lambda>t. t + 24 * hour))\<rparr>"

definition schedule_world :: "instant option \<Rightarrow> kube_sim" where
  "schedule_world run_at = demo_vms\<lparr>ks_scheds := [((''prod'', ''nightly''), demo_schedule run_at)]\<rparr>"

lemma demo_cron_ahead: "cron_ahead demo_bs_env"
  by (auto simp: cron_ahead_def demo_bs_env_def time_units)

lemma schedule_world_parts [simp]:
  "os_scheds (sim_view (schedule_world run_at)) = [(''prod'', ''nightly'') \<mapsto> demo_schedule run_at]"
  "os_snaps (sim_view (schedule_world run_at)) = Map.empty"
  by (simp_all add: sim_view_def schedule_world_def demo_vms_def no_objects_def)

theorem no_backup_after_the_first_witness:
  "no_new_snaps Map.empty
     (os_snaps (sim_view (reconcile_schedules sim_kube (''prod'', ''nightly'') [demo_bs_env, demo_bs_env] (schedule_world (Some 5)))))"
proof -
  have "keyed sched_kind (os_scheds (sim_view (schedule_world (Some 5))))"
    by (simp add: keyed_def demo_schedule_def key_of_def plain_meta_def)
  moreover have "finds_next_runs sim_view sim_kube (''prod'', ''nightly'') [demo_bs_env, demo_bs_env] (schedule_world (Some 5))"
    by (auto simp: demo_bs_env_def time_units)
  ultimately show ?thesis
    using no_backup_after_the_first [OF sim_kube_laws, of "schedule_world (Some 5)" _ "demo_schedule (Some 5)"
        "[demo_bs_env, demo_bs_env]"] by (simp add: demo_cron_ahead demo_schedule_def)
qed

theorem a_round_backs_up_every_machine_witness:
  "backed_up demo_bs_env (demo_schedule None)
     (os_snaps (sim_view (snd (back_up_all demo_bs_env sim_kube 1 [demo_vm] (demo_schedule None) (schedule_world None))))) 1 demo_vm"
proof -
  obtain x' w' where r: "back_up_all demo_bs_env sim_kube 1 [demo_vm] (demo_schedule None) (schedule_world None) = (x', w')"
    by fastforce
  show ?thesis unfolding r using a_round_backs_up_every_machine [OF sim_kube_laws _ _ r] by (simp add: backup_keys_def)
qed

theorem cleanup_keeps_the_newest_witness:
  "fst (cleanup_old_backups sim_kube (demo_schedule None) (snap_world None snp_ready)) = None"
proof -
  obtain e x' w' where r: "cleanup_old_backups sim_kube (demo_schedule None) (snap_world None snp_ready) = (e, x', w')"
    by (cases "cleanup_old_backups sim_kube (demo_schedule None) (snap_world None snp_ready)")
  have "keyed snap_kind (os_snaps (sim_view (snap_world None snp_ready)))"
    by (simp add: keyed_def sim_view_def snap_world_def demo_snap_def snap_key_def key_of_def plain_meta_def)
  from cleanup_keeps_the_newest [OF sim_kube_laws this _ r] have "e = None" by (simp add: demo_schedule_def)
  then show ?thesis by (simp add: r)
qed

end
