(* ===== verification/Vm_Controller.thy ===== *)
theory Vm_Controller
  imports Vm_Snapshot
begin

text \<open>
  \<open>pkg/operator/controllers/vm_controller.go\<close>: the controller that runs virtual machines in pods.
  Parameters: the client of the API, the clock (one reading per reconciliation) and
  \<open>resource.MustParse\<close>, which panics on a text that is no quantity; the panic ends the reconciliation
  with an error.  Owner references are not modelled.
\<close>

declare split_paired_All [simp del] split_paired_Ex [simp del]

section \<open>Parameters and helpers\<close>

record vm_env =
  ve_now :: instant
  ve_quantity :: "string \<Rightarrow> string option"

definition vm_finalizer :: string where
  "vm_finalizer = ''transiva.zyvor.ai/vm-finalizer''"

definition vm_set_condition :: "instant \<Rightarrow> string \<Rightarrow> string \<Rightarrow> string \<Rightarrow> string \<Rightarrow> virtual_machine \<Rightarrow> virtual_machine" where
  "vm_set_condition now ty st rs msg vm =
     vm\<lparr>vm_status_of := (vm_status_of vm)\<lparr>vt_conditions := put_condition
        \<lparr>vc_type = ty, vc_status = st, vc_last_transition_time = now, vc_reason = rs, vc_message = msg\<rparr>
        (vt_conditions (vm_status_of vm))\<rparr>\<rparr>"

definition validate_vm_spec :: "virtual_machine \<Rightarrow> api_error option" where
  "validate_vm_spec vm =
     (if vs_cpus (vm_spec_of vm) < 1 then Some (own_error ''CPUs must be at least 1'')
      else if vs_memory (vm_spec_of vm) = [] then Some (own_error ''memory must be specified'')
      else None)"

definition check_carbon_intensity :: "virtual_machine \<Rightarrow> api_error + bool" where
  "check_carbon_intensity vm = Inr True"

definition select_node :: "virtual_machine \<Rightarrow> api_error + string" where
  "select_node vm = (if vs_node_selector (vm_spec_of vm) \<noteq> [] then Inr ''node-1'' else Inr ''node-1'')"

definition pvc_name :: "virtual_machine \<Rightarrow> vm_disk \<Rightarrow> string" where
  "pvc_name vm d = om_name (vm_meta vm) @ ''-'' @ vd_name d"

definition pvc_key :: "virtual_machine \<Rightarrow> vm_disk \<Rightarrow> obj_key" where
  "pvc_key vm d = (om_namespace (vm_meta vm), pvc_name vm d)"

definition vm_pod_key :: "virtual_machine \<Rightarrow> obj_key" where
  "vm_pod_key vm = (om_namespace (vm_meta vm), om_name (vm_meta vm))"

definition build_pvc_for_disk :: "virtual_machine \<Rightarrow> vm_disk \<Rightarrow> string \<Rightarrow> pvc" where
  "build_pvc_for_disk vm d qty =
     \<lparr>pvc_meta = plain_meta (pvc_name vm d) (om_namespace (vm_meta vm))
        [(''app'', ''transiva-vm''), (''vm'', om_name (vm_meta vm)), (''disk'', vd_name d)],
      pvc_storage_class = (if vd_storage_class d = [] then ''standard'' else vd_storage_class d),
      pvc_size = qty, pvc_phase = []\<rparr>"

definition build_volume_mounts :: "virtual_machine \<Rightarrow> (string \<times> string) list" where
  "build_volume_mounts vm = map (\<lambda>d. (vd_name d, ''/vm/disks/'' @ vd_name d)) (vs_disks (vm_spec_of vm))"

definition build_volumes :: "virtual_machine \<Rightarrow> (string \<times> string) list" where
  "build_volumes vm = map (\<lambda>d. (vd_name d, pvc_name vm d)) (vs_disks (vm_spec_of vm))"

definition build_pod_for_vm :: "virtual_machine \<Rightarrow> pod" where
  "build_pod_for_vm vm =
     \<lparr>pod_meta = plain_meta (om_name (vm_meta vm)) (om_namespace (vm_meta vm))
        [(''app'', ''transiva-vm''), (''vm'', om_name (vm_meta vm))],
      pod_node_name = vt_node_name (vm_status_of vm),
      pod_env = [(''VM_NAME'', om_name (vm_meta vm)), (''VM_CPUS'', dec_int (vs_cpus (vm_spec_of vm))),
        (''VM_MEMORY'', vs_memory (vm_spec_of vm))],
      pod_mounts = build_volume_mounts vm, pod_volumes = build_volumes vm,
      pod_node_selector = vs_node_selector (vm_spec_of vm), pod_affinity = vs_affinity (vm_spec_of vm),
      pod_tolerations = vs_tolerations (vm_spec_of vm), pod_phase = [], pod_ips = []\<rparr>"

section \<open>The steps of the machine\<close>

text \<open>\<open>Status().Update\<close>, whose error ends the reconciliation.\<close>

definition vm_save ::
  "'w kube \<Rightarrow> virtual_machine \<Rightarrow> 'w \<Rightarrow> (virtual_machine \<Rightarrow> 'w \<Rightarrow> 'w outcome) \<Rightarrow> 'w outcome" where
  "vm_save K vm w f =
     (case cl_update_status (kb_vm K) vm w of (Inl e, w) \<Rightarrow> ((nothing_more, Some e), w) | (Inr vm, w) \<Rightarrow> f vm w)"

definition vm_reconcile_pending :: "vm_env \<Rightarrow> 'w kube \<Rightarrow> virtual_machine \<Rightarrow> 'w \<Rightarrow> 'w outcome" where
  "vm_reconcile_pending env K vm w =
     (case validate_vm_spec vm of
        Some e \<Rightarrow>
          vm_save K (vm_set_condition (ve_now env) ''ValidationFailed'' ''False'' ''ValidationError'' (ae_text e)
            (set_vm_phase vm_failed vm)) w (\<lambda>vm w. ((nothing_more, Some e), w))
      | None \<Rightarrow>
          (let carbon = (case vs_carbon_aware (vm_spec_of vm) of None \<Rightarrow> False | Some c \<Rightarrow> ca_enabled c)
           in if carbon \<and> check_carbon_intensity vm = Inr False
              then vm_save K (vm_set_condition (ve_now env) ''CarbonAware'' ''False'' ''WaitingForGreenEnergy''
                     ''Waiting for carbon intensity to drop'' vm) w (\<lambda>vm w. ((5 * minute, None), w))
              else case (if vt_node_name (vm_status_of vm) = [] then select_node vm else Inr (vt_node_name (vm_status_of vm))) of
                     Inl e \<Rightarrow> ((30 * second, Some e), w)
                   | Inr node \<Rightarrow>
                       vm_save K (vm_set_condition (ve_now env) ''Creating'' ''True'' ''VMCreating''
                         ''VM resources are being created'' (set_vm_phase vm_creating (set_node node vm))) w
                         (\<lambda>vm w. ((5 * second, None), w))))"

text \<open>The loop over the disks: None when every claim is bound.\<close>

fun ensure_claims ::
  "vm_env \<Rightarrow> 'w kube \<Rightarrow> virtual_machine \<Rightarrow> vm_disk list \<Rightarrow> 'w \<Rightarrow> (ctrl_result \<times> api_error option) option \<times> 'w" where
  "ensure_claims env K vm [] w = (None, w)"
| "ensure_claims env K vm (d # ds) w =
     (case cl_get (kb_pvc K) (pvc_key vm d) w of
        (Inr c, w) \<Rightarrow> (if pvc_phase c = ''Bound'' then ensure_claims env K vm ds w else (Some (5 * second, None), w))
      | (Inl e, w) \<Rightarrow>
          (if ae_reason e \<noteq> NotFound then (Some (nothing_more, Some e), w)
           else case ve_quantity env (vd_size d) of
                  None \<Rightarrow> (Some (nothing_more, Some (own_error ''panic'')), w)
                | Some qty \<Rightarrow>
                    (case cl_create (kb_pvc K) (build_pvc_for_disk vm d qty) w of
                       (Inl e, w) \<Rightarrow> (Some (nothing_more, Some e), w)
                     | (Inr c, w) \<Rightarrow>
                         (if pvc_phase c = ''Bound'' then ensure_claims env K vm ds w else (Some (5 * second, None), w)))))"

definition vm_up :: "instant \<Rightarrow> pod \<Rightarrow> virtual_machine \<Rightarrow> virtual_machine" where
  "vm_up now p vm =
     (let st = (vm_status_of vm)\<lparr>vt_phase := vm_running, vt_start_time := Some now\<rparr>;
          st = (if pod_ips p \<noteq> [] then st\<lparr>vt_ip_addresses := pod_ips p\<rparr> else st)
      in vm_set_condition now ''Ready'' ''True'' ''VMReady'' ''VM is running and ready'' (vm\<lparr>vm_status_of := st\<rparr>))"

definition await_pod :: "vm_env \<Rightarrow> 'w kube \<Rightarrow> virtual_machine \<Rightarrow> pod \<Rightarrow> 'w \<Rightarrow> 'w outcome" where
  "await_pod env K vm p w =
     (if pod_phase p = ''Running'' then vm_save K (vm_up (ve_now env) p vm) w (\<lambda>vm w. ((nothing_more, None), w))
      else ((5 * second, None), w))"

definition vm_reconcile_creating :: "vm_env \<Rightarrow> 'w kube \<Rightarrow> virtual_machine \<Rightarrow> 'w \<Rightarrow> 'w outcome" where
  "vm_reconcile_creating env K vm w =
     (case ensure_claims env K vm (vs_disks (vm_spec_of vm)) w of
        (Some r, w) \<Rightarrow> (r, w)
      | (None, w) \<Rightarrow>
          (case cl_get (kb_pod K) (vm_pod_key vm) w of
             (Inr p, w) \<Rightarrow> await_pod env K vm p w
           | (Inl e, w) \<Rightarrow>
               (if ae_reason e \<noteq> NotFound then ((nothing_more, Some e), w)
                else case cl_create (kb_pod K) (build_pod_for_vm vm) w of
                       (Inl e, w) \<Rightarrow> ((nothing_more, Some e), w)
                     | (Inr p, w) \<Rightarrow> await_pod env K vm p w)))"

definition ha_restarts :: "virtual_machine \<Rightarrow> bool" where
  "ha_restarts vm =
     (case vs_high_availability (vm_spec_of vm) of
        None \<Rightarrow> False | Some h \<Rightarrow> ha_enabled h \<and> ha_restart_policy h \<noteq> ''Never'')"

definition handle_vm_failure :: "vm_env \<Rightarrow> 'w kube \<Rightarrow> virtual_machine \<Rightarrow> 'w \<Rightarrow> 'w outcome" where
  "handle_vm_failure env K vm w =
     (if \<not> ha_restarts vm then ((nothing_more, None), w)
      else vm_save K (vm_set_condition (ve_now env) ''Restarting'' ''True'' ''VMRestarting''
             ''VM is being restarted due to failure'' (set_vm_phase vm_pending vm)) w
             (\<lambda>vm w. ((30 * second, None), w)))"

text \<open>Deleting the pod if there is one; \<open>tolerant\<close> ignores that it has gone meanwhile.\<close>

definition delete_pod :: "bool \<Rightarrow> 'w kube \<Rightarrow> virtual_machine \<Rightarrow> 'w \<Rightarrow> (api_error + bool) \<times> 'w" where
  "delete_pod tolerant K vm w =
     (case cl_get (kb_pod K) (vm_pod_key vm) w of
        (Inl e, w) \<Rightarrow> (if ae_reason e = NotFound then Inr False else Inl e, w)
      | (Inr p, w) \<Rightarrow>
          (case cl_delete (kb_pod K) p w of
             (Inl e, w) \<Rightarrow> (if tolerant \<and> ae_reason e = NotFound then Inr True else Inl e, w)
           | (Inr u, w) \<Rightarrow> (Inr True, w)))"

definition stop_vm :: "vm_env \<Rightarrow> 'w kube \<Rightarrow> virtual_machine \<Rightarrow> 'w \<Rightarrow> 'w outcome" where
  "stop_vm env K vm w =
     (case delete_pod False K vm w of
        (Inl e, w) \<Rightarrow> ((nothing_more, Some e), w)
      | (Inr b, w) \<Rightarrow>
          vm_save K (vm_set_condition (ve_now env) ''Ready'' ''False'' ''VMStopped'' ''VM has been stopped''
            (vm\<lparr>vm_status_of := (vm_status_of vm)\<lparr>vt_phase := vm_stopped, vt_ip_addresses := []\<rparr>\<rparr>)) w
            (\<lambda>vm w. ((nothing_more, None), w)))"

definition start_vm :: "vm_env \<Rightarrow> 'w kube \<Rightarrow> virtual_machine \<Rightarrow> 'w \<Rightarrow> 'w outcome" where
  "start_vm env K vm w =
     vm_save K (vm_set_condition (ve_now env) ''Starting'' ''True'' ''VMStarting'' ''VM is starting''
       (set_vm_phase vm_creating vm)) w (\<lambda>vm w. ((5 * second, None), w))"

definition pod_lost :: "instant \<Rightarrow> string \<Rightarrow> string \<Rightarrow> virtual_machine \<Rightarrow> virtual_machine" where
  "pod_lost now rs msg vm = vm_set_condition now ''Ready'' ''False'' rs msg (set_vm_phase vm_failed vm)"

definition vm_resources :: "virtual_machine \<Rightarrow> vm_resource_status" where
  "vm_resources vm =
     \<lparr>vrs_cpu = Some \<lparr>rmx_usage = ''45%'', rmx_requests = dec_int (vs_cpus (vm_spec_of vm))\<rparr>,
      vrs_memory = Some \<lparr>rmx_usage = ''6.2Gi'', rmx_requests = vs_memory (vm_spec_of vm)\<rparr>, vrs_gpus = []\<rparr>"

definition vm_reconcile_running :: "vm_env \<Rightarrow> 'w kube \<Rightarrow> virtual_machine \<Rightarrow> 'w \<Rightarrow> 'w outcome" where
  "vm_reconcile_running env K vm w =
     (if \<not> vs_running (vm_spec_of vm) then stop_vm env K vm w
      else case cl_get (kb_pod K) (vm_pod_key vm) w of
             (Inl e, w) \<Rightarrow>
               (if ae_reason e \<noteq> NotFound then ((nothing_more, Some e), w)
                else vm_save K (pod_lost (ve_now env) ''PodLost'' ''VM pod was deleted unexpectedly'' vm) w
                       (handle_vm_failure env K))
           | (Inr p, w) \<Rightarrow>
               (if pod_phase p \<noteq> ''Running''
                then vm_save K (pod_lost (ve_now env) ''PodNotRunning'' (''VM pod phase: '' @ pod_phase p) vm) w
                       (handle_vm_failure env K)
                else vm_save K (vm\<lparr>vm_status_of := (vm_status_of vm)\<lparr>vt_resources := Some (vm_resources vm)\<rparr>\<rparr>) w
                       (\<lambda>vm w. ((30 * second, None), w))))"

definition vm_reconcile_stopped :: "vm_env \<Rightarrow> 'w kube \<Rightarrow> virtual_machine \<Rightarrow> 'w \<Rightarrow> 'w outcome" where
  "vm_reconcile_stopped env K vm w =
     (if vs_running (vm_spec_of vm) then start_vm env K vm w
      else case delete_pod True K vm w of
             (Inl e, w) \<Rightarrow> ((nothing_more, Some e), w)
           | (Inr there, w) \<Rightarrow> ((if there then 5 * second else nothing_more, None), w))"

definition vm_reconcile_failed :: "vm_env \<Rightarrow> 'w kube \<Rightarrow> virtual_machine \<Rightarrow> 'w \<Rightarrow> 'w outcome" where
  "vm_reconcile_failed env K vm w =
     (if (case vs_high_availability (vm_spec_of vm) of None \<Rightarrow> False | Some h \<Rightarrow> ha_enabled h)
      then handle_vm_failure env K vm w else ((nothing_more, None), w))"

section \<open>Deletion\<close>

fun delete_claims :: "'w kube \<Rightarrow> virtual_machine \<Rightarrow> vm_disk list \<Rightarrow> 'w \<Rightarrow> api_error option \<times> 'w" where
  "delete_claims K vm [] w = (None, w)"
| "delete_claims K vm (d # ds) w =
     (case cl_get (kb_pvc K) (pvc_key vm d) w of
        (Inl e, w) \<Rightarrow> (if ae_reason e = NotFound then delete_claims K vm ds w else (Some e, w))
      | (Inr c, w) \<Rightarrow>
          (case cl_delete (kb_pvc K) c w of
             (Inl e, w) \<Rightarrow> (Some e, w)
           | (Inr u, w) \<Rightarrow> delete_claims K vm ds w))"

definition handle_vm_deletion :: "'w kube \<Rightarrow> virtual_machine \<Rightarrow> 'w \<Rightarrow> 'w outcome" where
  "handle_vm_deletion K vm w =
     (if vm_finalizer \<notin> set (om_finalizers (vm_meta vm)) then ((nothing_more, None), w)
      else case delete_pod False K vm w of
             (Inl e, w) \<Rightarrow> ((nothing_more, Some e), w)
           | (Inr b, w) \<Rightarrow>
               (case delete_claims K vm (vs_disks (vm_spec_of vm)) w of
                  (Some e, w) \<Rightarrow> ((nothing_more, Some e), w)
                | (None, w) \<Rightarrow>
                    (case cl_update (kb_vm K) (vm\<lparr>vm_meta := remove_finalizer vm_finalizer (vm_meta vm)\<rparr>) w of
                       (Inl e, w) \<Rightarrow> ((nothing_more, Some e), w)
                     | (Inr vm, w) \<Rightarrow> ((nothing_more, None), w))))"

section \<open>Reconciliation\<close>

definition vm_ensure_finalizer ::
  "'w kube \<Rightarrow> virtual_machine \<Rightarrow> 'w \<Rightarrow> (virtual_machine \<Rightarrow> 'w \<Rightarrow> 'w outcome) \<Rightarrow> 'w outcome" where
  "vm_ensure_finalizer K vm w f =
     (if vm_finalizer \<in> set (om_finalizers (vm_meta vm)) then f vm w
      else case cl_update (kb_vm K) (vm\<lparr>vm_meta := add_finalizer vm_finalizer (vm_meta vm)\<rparr>) w of
             (Inl e, w) \<Rightarrow> ((nothing_more, Some e), w)
           | (Inr vm, w) \<Rightarrow> f vm w)"

definition vm_ensure_phase ::
  "vm_env \<Rightarrow> 'w kube \<Rightarrow> virtual_machine \<Rightarrow> 'w \<Rightarrow> (virtual_machine \<Rightarrow> 'w \<Rightarrow> 'w outcome) \<Rightarrow> 'w outcome" where
  "vm_ensure_phase env K vm w f =
     (if vt_phase (vm_status_of vm) \<noteq> [] then f vm w
      else vm_save K (vm\<lparr>vm_status_of := (vm_status_of vm)\<lparr>vt_phase := vm_pending,
             vt_creation_timestamp := Some (ve_now env)\<rparr>\<rparr>) w f)"

definition vm_by_phase :: "vm_env \<Rightarrow> 'w kube \<Rightarrow> virtual_machine \<Rightarrow> 'w \<Rightarrow> 'w outcome" where
  "vm_by_phase env K vm w =
     (let p = vt_phase (vm_status_of vm)
      in if p = vm_pending then vm_reconcile_pending env K vm w
         else if p = vm_creating then vm_reconcile_creating env K vm w
         else if p = vm_running then vm_reconcile_running env K vm w
         else if p = vm_stopped then vm_reconcile_stopped env K vm w
         else if p = vm_failed then vm_reconcile_failed env K vm w
         else ((nothing_more, None), w))"

definition reconcile_vm :: "vm_env \<Rightarrow> 'w kube \<Rightarrow> obj_key \<Rightarrow> 'w \<Rightarrow> 'w outcome" where
  "reconcile_vm env K k w =
     (case cl_get (kb_vm K) k w of
        (Inl e, w) \<Rightarrow> ((nothing_more, if ae_reason e = NotFound then None else Some e), w)
      | (Inr vm, w) \<Rightarrow>
          if om_deletion (vm_meta vm) \<noteq> None then handle_vm_deletion K vm w
          else vm_ensure_finalizer K vm w (\<lambda>vm w. vm_ensure_phase env K vm w (vm_by_phase env K)))"


section \<open>What a reconciliation may do\<close>

text \<open>The phases that one reconciliation may store, given the phase it found.\<close>

definition vm_steps :: "vm_phase \<Rightarrow> vm_phase set" where
  "vm_steps p =
     (if p = [] then {vm_pending, vm_creating, vm_failed}
      else if p = vm_pending then {vm_creating, vm_failed}
      else if p = vm_creating then {vm_running}
      else if p = vm_running then {vm_stopped, vm_failed, vm_pending}
      else if p = vm_stopped then {vm_creating}
      else if p = vm_failed then {vm_pending}
      else {})"

definition conditions_distinct :: "virtual_machine \<Rightarrow> bool" where
  "conditions_distinct vm \<longleftrightarrow> distinct (map vc_type (vt_conditions (vm_status_of vm)))"

definition phase_in :: "vm_phase set \<Rightarrow> virtual_machine \<Rightarrow> bool" where
  "phase_in S vm \<longleftrightarrow> vt_phase (vm_status_of vm) \<in> S \<and> conditions_distinct vm"

lemma phase_in_status: "of_status vm_kind (phase_in S)"
  by (simp add: of_status_def phase_in_def conditions_distinct_def)

text \<open>A pod of the machine's name that does not run.\<close>

definition stuck_pod :: "obj_key \<Rightarrow> obj_store \<Rightarrow> bool" where
  "stuck_pod k s \<longleftrightarrow> (\<exists>p. os_pods s k = Some p \<and> pod_phase p \<noteq> ''Running'')"

text \<open>
  Compared with \<open>s0\<close> only the machine under \<open>k\<close> has changed, its phase is in \<open>S\<close>, it is not being deleted, and
  as long as it neither runs nor stops a pod that does not run is left alone.
\<close>

definition vm_kept :: "('w \<Rightarrow> obj_store) \<Rightarrow> vm_phase set \<Rightarrow> obj_key \<Rightarrow> obj_store \<Rightarrow> 'w \<Rightarrow> bool" where
  "vm_kept view S k s0 w \<longleftrightarrow> obj_kept vm_kind (phase_in S) k (os_vms s0) (os_vms (view w)) \<and>
     (\<forall>y. os_vms (view w) k = Some y \<longrightarrow> om_deletion (vm_meta y) = None) \<and>
     os_ops (view w) = os_ops s0 \<and> os_snaps (view w) = os_snaps s0 \<and>
     (stuck_pod k s0 \<and> vm_running \<notin> S \<and> vm_stopped \<notin> S \<longrightarrow> os_pods (view w) = os_pods s0)"

definition vm_at :: "('w \<Rightarrow> obj_store) \<Rightarrow> vm_phase set \<Rightarrow> obj_key \<Rightarrow> obj_store \<Rightarrow> virtual_machine \<Rightarrow> 'w \<Rightarrow> bool" where
  "vm_at view S k s0 vm w \<longleftrightarrow> vm_kept view S k s0 w \<and> key_of vm_kind vm = k \<and> conditions_distinct vm"

lemma vm_kept_same:
  assumes "vm_kept view S k s0 w" and "os_vms (view w') = os_vms (view w)" and "os_ops (view w') = os_ops (view w)"
    and "os_snaps (view w') = os_snaps (view w)" and "os_pods (view w') = os_pods (view w) \<or> vm_running \<in> S \<or> vm_stopped \<in> S"
  shows "vm_kept view S k s0 w'"
  using assms unfolding vm_kept_def by auto

lemma vm_calls:
  assumes "kube_laws reliable view K" and "vm_kept view S k s0 w" and "key_of vm_kind v = k"
  shows "cl_update (kb_vm K) v w = (r, w') \<Longrightarrow> vm_kept view S k s0 w'"
    and "cl_update_status (kb_vm K) v w = (r, w') \<Longrightarrow> phase_in S v \<Longrightarrow> vm_kept view S k s0 w'"
    and "cl_update (kb_vm K) v w = (Inr y, w') \<Longrightarrow>
      key_of vm_kind y = k \<and> (\<exists>s. os_vms (view w) k = Some s \<and> vm_status_of y = vm_status_of s)"
    and "cl_update_status (kb_vm K) v w = (Inr y, w') \<Longrightarrow> key_of vm_kind y = k \<and> vm_status_of y = vm_status_of v"
proof -
  note L = kube_lawsD(1) [OF assms(1)]
  have o: "obj_kept vm_kind (phase_in S) k (os_vms s0) (os_vms (view w))" using assms(2) by (simp add: vm_kept_def)
  note kept = calls_kept [OF L _ _ phase_in_status o assms(3)]
  note ops = other_kinds_kept [OF L, where look = os_ops] and snaps = other_kinds_kept [OF L, where look = os_snaps]
    and pods = other_kinds_kept [OF L, where look = os_pods]
  have key: "os_vms (view w) k = Some s \<Longrightarrow> key_of vm_kind s = k" for s using o by (auto simp: obj_kept_def keyed_def)
  have nd: "os_vms (view w) k = Some s \<Longrightarrow> om_deletion (vm_meta s) = None" for s using assms(2) by (simp add: vm_kept_def)
  show "cl_update (kb_vm K) v w = (r, w') \<Longrightarrow> vm_kept view S k s0 w'"
  proof -
    assume u: "cl_update (kb_vm K) v w = (r, w')"
    have "os_vms (view w') k = Some y \<Longrightarrow> om_deletion (vm_meta y) = None" for y
      using call_effects(2) [OF L u] nd assms(3)
      by (auto simp: sem_update_def Let_def split: option.splits)
    then show ?thesis using kept(1) [OF _ _ u] ops(3) [OF _ u] snaps(3) [OF _ u] pods(3) [OF _ u] assms(2)
      by (auto simp: vm_kept_def)
  qed
  show "cl_update_status (kb_vm K) v w = (r, w') \<Longrightarrow> phase_in S v \<Longrightarrow> vm_kept view S k s0 w'"
  proof -
    assume u: "cl_update_status (kb_vm K) v w = (r, w')" and ph: "phase_in S v"
    have "os_vms (view w') k = Some y \<Longrightarrow> om_deletion (vm_meta y) = None" for y
      using call_effects(3) [OF L u] nd assms(3)
      by (auto simp: sem_update_status_def Let_def split: option.splits)
    then show ?thesis using kept(3) [OF _ _ u ph] ops(4) [OF _ u] snaps(4) [OF _ u] pods(4) [OF _ u] assms(2)
      by (auto simp: vm_kept_def)
  qed
  show "cl_update (kb_vm K) v w = (Inr y, w') \<Longrightarrow>
      key_of vm_kind y = k \<and> (\<exists>s. os_vms (view w) k = Some s \<and> vm_status_of y = vm_status_of s)"
    using answers(1) [OF L, of v w y w'] assms(3)
    by (auto simp: sem_update_def Let_def key_of_def split: option.splits)
  show "cl_update_status (kb_vm K) v w = (Inr y, w') \<Longrightarrow> key_of vm_kind y = k \<and> vm_status_of y = vm_status_of v"
    using answers(2) [OF L, of v w y w'] assms(3) key
    by (auto simp: sem_update_status_def Let_def key_of_def split: option.splits)
qed

lemma vm_save_kept:
  assumes "kube_laws reliable view K" and "vm_kept view S k s0 w" and "key_of vm_kind v = k" and "phase_in S v"
    and "\<And>y w'. vm_kept view S k s0 w' \<Longrightarrow> key_of vm_kind y = k \<Longrightarrow> vm_status_of y = vm_status_of v \<Longrightarrow>
      vm_kept view S k s0 (snd (f y w'))"
  shows "vm_kept view S k s0 (snd (vm_save K v w f))"
proof -
  obtain r w' where u: "cl_update_status (kb_vm K) v w = (r, w')" by fastforce
  note c = vm_calls [OF assms(1-3)]
  show ?thesis using c(2) [OF u assms(4)] c(4) u assms(5) by (cases r) (auto simp: vm_save_def)
qed

lemma vm_edits [simp]:
  "key_of vm_kind (vm_set_condition now ty st rs msg vm) = key_of vm_kind vm"
  "key_of vm_kind (set_vm_phase p vm) = key_of vm_kind vm" "key_of vm_kind (set_node n vm) = key_of vm_kind vm"
  "vt_phase (vm_status_of (vm_set_condition now ty st rs msg vm)) = vt_phase (vm_status_of vm)"
  "vt_phase (vm_status_of (set_vm_phase p vm)) = p"
  "vt_phase (vm_status_of (set_node n vm)) = vt_phase (vm_status_of vm)"
  "conditions_distinct vm \<Longrightarrow> conditions_distinct (vm_set_condition now ty st rs msg vm)"
  "conditions_distinct (set_vm_phase p vm) = conditions_distinct vm"
  "conditions_distinct (set_node n vm) = conditions_distinct vm"
  "vm_spec_of (vm_set_condition now ty st rs msg vm) = vm_spec_of vm"
  by (simp_all add: vm_set_condition_def set_vm_phase_def set_node_def key_of_def conditions_distinct_def put_condition_distinct)

text \<open>Calls on pods and claims.\<close>

lemma pod_calls:
  assumes "kube_laws reliable view K"
  shows "cl_get (kb_pod K) k w = (r, w') \<Longrightarrow> view w' = view w"
    and "cl_create (kb_pod K) p w = (r, w') \<Longrightarrow> os_vms (view w') = os_vms (view w) \<and> os_ops (view w') = os_ops (view w) \<and>
      os_snaps (view w') = os_snaps (view w) \<and> os_pvcs (view w') = os_pvcs (view w)"
    and "cl_delete (kb_pod K) p w = (r', w') \<Longrightarrow> os_vms (view w') = os_vms (view w) \<and> os_ops (view w') = os_ops (view w) \<and>
      os_snaps (view w') = os_snaps (view w) \<and> os_pvcs (view w') = os_pvcs (view w)"
  using get_stored(1) [OF kube_lawsD(5) [OF assms]] other_kinds_kept(2,5) [OF kube_lawsD(5) [OF assms], where look = os_vms]
    other_kinds_kept(2,5) [OF kube_lawsD(5) [OF assms], where look = os_ops]
    other_kinds_kept(2,5) [OF kube_lawsD(5) [OF assms], where look = os_snaps]
    other_kinds_kept(2,5) [OF kube_lawsD(5) [OF assms], where look = os_pvcs] by simp_all

lemma pvc_calls:
  assumes "kube_laws reliable view K"
  shows "cl_get (kb_pvc K) k w = (r, w') \<Longrightarrow> view w' = view w"
    and "cl_create (kb_pvc K) p w = (r, w') \<Longrightarrow> os_vms (view w') = os_vms (view w) \<and> os_ops (view w') = os_ops (view w) \<and>
      os_snaps (view w') = os_snaps (view w) \<and> os_pods (view w') = os_pods (view w)"
    and "cl_delete (kb_pvc K) p w = (r', w') \<Longrightarrow> os_vms (view w') = os_vms (view w) \<and> os_ops (view w') = os_ops (view w) \<and>
      os_snaps (view w') = os_snaps (view w) \<and> os_pods (view w') = os_pods (view w)"
  using get_stored(1) [OF kube_lawsD(6) [OF assms]] other_kinds_kept(2,5) [OF kube_lawsD(6) [OF assms], where look = os_vms]
    other_kinds_kept(2,5) [OF kube_lawsD(6) [OF assms], where look = os_ops]
    other_kinds_kept(2,5) [OF kube_lawsD(6) [OF assms], where look = os_snaps]
    other_kinds_kept(2,5) [OF kube_lawsD(6) [OF assms], where look = os_pods] by simp_all

lemma ensure_claims_kept:
  "kube_laws reliable view K \<Longrightarrow> vm_kept view S k s0 w \<Longrightarrow> vm_kept view S k s0 (snd (ensure_claims env K vm ds w))"
proof (induction env K vm ds w rule: ensure_claims.induct)
  case (2 env K vm d ds w)
  obtain r w1 where g: "cl_get (kb_pvc K) (pvc_key vm d) w = (r, w1)" by fastforce
  have w1: "vm_kept view S k s0 w1" using vm_kept_same [OF 2(4)] pvc_calls(1) [OF 2(3) g] by simp
  show ?case
  proof (cases r)
    case (Inr c)
    then show ?thesis using 2(2) [OF g [symmetric] Inr] 2(3) w1 g by simp
  next
    case (Inl e)
    show ?thesis
    proof (cases "ae_reason e \<noteq> NotFound \<or> ve_quantity env (vd_size d) = None")
      case True
      then show ?thesis using w1 g Inl by (auto split: option.splits)
    next
      case False
      then obtain q where q: "ve_quantity env (vd_size d) = Some q" "ae_reason e = NotFound" by auto
      obtain r' w2 where c: "cl_create (kb_pvc K) (build_pvc_for_disk vm d q) w1 = (r', w2)" by fastforce
      have w2: "vm_kept view S k s0 w2" using vm_kept_same [OF w1] pvc_calls(2) [OF 2(3) c] by simp
      show ?thesis
      proof (cases r')
        case (Inl e')
        then show ?thesis using w2 g \<open>r = Inl e\<close> q c by simp
      next
        case (Inr c')
        then show ?thesis using w2 g \<open>r = Inl e\<close> q c 2(1) [OF g [symmetric] \<open>r = Inl e\<close> _ q(1) c [symmetric] Inr] 2(3) by simp
      qed
    qed
  qed
qed simp


lemma vm_saves:
  assumes "kube_laws reliable view K" and "vm_at view S k s0 vm w"
    and "key_of vm_kind v = key_of vm_kind vm" and "vt_phase (vm_status_of v) \<in> S" and "conditions_distinct v"
  shows "vm_kept view S k s0 (snd (vm_save K v w (\<lambda>vm w. (r, w))))"
  using assms by (intro vm_save_kept [OF assms(1)]) (auto simp: vm_at_def phase_in_def)

lemma vm_at_same:
  "vm_at view S k s0 vm w \<Longrightarrow> view w' = view w \<Longrightarrow> vm_at view S k s0 vm w'"
  by (simp add: vm_at_def vm_kept_def)

lemma vm_pending_kept:
  assumes "kube_laws reliable view K" and "vm_at view S k s0 vm w" and "{vm_creating, vm_failed} \<subseteq> S"
    and "vt_phase (vm_status_of vm) \<in> S"
  shows "vm_kept view S k s0 (snd (vm_reconcile_pending env K vm w))"
proof -
  have vm: "vm_kept view S k s0 w" "conditions_distinct vm" using assms(2) by (simp_all add: vm_at_def)
  show ?thesis using assms(3,4) vm
    by (auto simp: vm_reconcile_pending_def Let_def select_node_def split: option.splits
        intro!: vm_saves [OF assms(1,2)])
qed

lemma conditions_of_status [simp]:
  "conditions_distinct (vm\<lparr>vm_status_of := new\<rparr>) \<longleftrightarrow> distinct (map vc_type (vt_conditions new))"
  by (simp add: conditions_distinct_def)

lemma await_pod_kept:
  assumes "kube_laws reliable view K" and "vm_at view S k s0 vm w" and "pod_phase p = ''Running'' \<longrightarrow> vm_running \<in> S"
  shows "vm_kept view S k s0 (snd (await_pod env K vm p w))"
proof -
  have vm: "vm_kept view S k s0 w" "conditions_distinct vm" using assms(2) by (simp_all add: vm_at_def)
  from vm(2) have up: "key_of vm_kind (vm_up (ve_now env) p vm) = key_of vm_kind vm"
    "vt_phase (vm_status_of (vm_up (ve_now env) p vm)) = vm_running" "conditions_distinct (vm_up (ve_now env) p vm)"
    by (auto simp: vm_up_def Let_def conditions_distinct_def [of vm])
  show ?thesis using vm(1) assms(3) up by (auto simp: await_pod_def intro!: vm_saves [OF assms(1,2)])
qed

lemma vm_creating_kept:
  assumes "kube_laws reliable view K" and "vm_at view S k s0 vm w"
    and "vm_running \<in> S \<or> stuck_pod k s0 \<and> vm_stopped \<notin> S"
  shows "vm_kept view S k s0 (snd (vm_reconcile_creating env K vm w))"
proof -
  obtain r w1 where e: "ensure_claims env K vm (vs_disks (vm_spec_of vm)) w = (r, w1)" by fastforce
  have w1: "vm_at view S k s0 vm w1"
    using ensure_claims_kept [OF assms(1), of S k s0 w env vm "vs_disks (vm_spec_of vm)"] e assms(2) by (simp add: vm_at_def)
  show ?thesis
  proof (cases r)
    case (Some q)
    then show ?thesis using e w1 by (simp add: vm_reconcile_creating_def vm_at_def)
  next
    case None
    have key: "vm_pod_key vm = k" using assms(2) by (simp add: vm_at_def vm_pod_key_def key_of_def)
    obtain r' w2 where g: "cl_get (kb_pod K) k w1 = (r', w2)" by fastforce
    have w2: "vm_at view S k s0 vm w2" using vm_at_same [OF w1 pod_calls(1) [OF assms(1) g]] .
    have stuck: "\<exists>p. os_pods (view w2) k = Some p \<and> pod_phase p \<noteq> ''Running''" if "vm_running \<notin> S"
      using assms(3) that w2 unfolding stuck_pod_def vm_at_def vm_kept_def by auto
    show ?thesis
    proof (cases r')
      case (Inr p)
      have "pod_phase p = ''Running'' \<longrightarrow> vm_running \<in> S"
        using stuck get_stored(1,2) [OF kube_lawsD(5) [OF assms(1)] g] Inr by auto
      then show ?thesis using await_pod_kept [OF assms(1) w2] e None g key Inr by (simp add: vm_reconcile_creating_def)
    next
      case (Inl er)
      show ?thesis
      proof (cases "ae_reason er = NotFound")
        case False
        then show ?thesis using w2 e None g key Inl by (simp add: vm_reconcile_creating_def vm_at_def)
      next
        case True
        then have "vm_running \<in> S"
          using stuck get_stored(1,3) [OF kube_lawsD(5) [OF assms(1)] g] Inl by auto
        moreover obtain r'' w3 where c: "cl_create (kb_pod K) (build_pod_for_vm vm) w2 = (r'', w3)" by fastforce
        ultimately have w3: "vm_at view S k s0 vm w3"
          using w2 vm_kept_same [of view S k s0 w2 w3] pod_calls(2) [OF assms(1) c] by (simp add: vm_at_def)
        show ?thesis
          using await_pod_kept [OF assms(1) w3] \<open>vm_running \<in> S\<close> w3 e None g key Inl True c
          by (cases r'') (simp_all add: vm_reconcile_creating_def vm_at_def)
      qed
    qed
  qed
qed

lemma handle_failure_kept:
  assumes "kube_laws reliable view K" and "vm_at view S k s0 vm w" and "vm_pending \<in> S"
  shows "vm_kept view S k s0 (snd (handle_vm_failure env K vm w))"
proof -
  have vm: "vm_kept view S k s0 w" "conditions_distinct vm" using assms(2) by (simp_all add: vm_at_def)
  show ?thesis using vm assms(3) by (auto simp: handle_vm_failure_def intro!: vm_saves [OF assms(1,2)])
qed

lemma delete_pod_kept:
  assumes "kube_laws reliable view K" and "vm_at view S k s0 vm w" and "vm_running \<in> S \<or> vm_stopped \<in> S"
  shows "vm_at view S k s0 vm (snd (delete_pod b K vm w))"
proof -
  obtain r w1 where g: "cl_get (kb_pod K) (vm_pod_key vm) w = (r, w1)" by fastforce
  have w1: "vm_at view S k s0 vm w1" using vm_at_same [OF assms(2) pod_calls(1) [OF assms(1) g]] .
  show ?thesis
  proof (cases r)
    case (Inl e)
    then show ?thesis using w1 g by (simp add: delete_pod_def)
  next
    case (Inr p)
    obtain r' w2 where d: "cl_delete (kb_pod K) p w1 = (r', w2)" by fastforce
    have "vm_at view S k s0 vm w2"
      using w1 vm_kept_same [of view S k s0 w1 w2] pod_calls(3) [OF assms(1) d] assms(3) by (auto simp: vm_at_def)
    then show ?thesis using g Inr d by (cases r') (simp_all add: delete_pod_def)
  qed
qed

lemma vm_running_kept:
  assumes "kube_laws reliable view K" and "vm_at view S k s0 vm w" and "{vm_running, vm_stopped, vm_failed, vm_pending} \<subseteq> S"
    and "vt_phase (vm_status_of vm) = vm_running"
  shows "vm_kept view S k s0 (snd (vm_reconcile_running env K vm w))"
proof (cases "vs_running (vm_spec_of vm)")
  case False
  obtain r w1 where d: "delete_pod False K vm w = (r, w1)" by fastforce
  have w1: "vm_at view S k s0 vm w1" using delete_pod_kept [OF assms(1,2), of False] assms(3) d by simp
  have "vm_kept view S k s0 w1" "conditions_distinct vm" using w1 by (simp_all add: vm_at_def)
  then show ?thesis using False d assms(3)
    by (cases r) (auto simp: vm_reconcile_running_def stop_vm_def conditions_distinct_def [of vm] intro!: vm_saves [OF assms(1) w1])
next
  case True
  obtain r w1 where g: "cl_get (kb_pod K) (vm_pod_key vm) w = (r, w1)" by fastforce
  have w1: "vm_at view S k s0 vm w1" using vm_at_same [OF assms(2) pod_calls(1) [OF assms(1) g]] .
  have vm: "vm_kept view S k s0 w1" "conditions_distinct vm" "key_of vm_kind vm = k" using w1 by (simp_all add: vm_at_def)
  have lost: "vm_kept view S k s0 (snd (vm_save K (pod_lost now rs msg vm) w1 (handle_vm_failure env K)))" for now rs msg
    using vm assms(3)
    by (intro vm_save_kept [OF assms(1)] handle_failure_kept [OF assms(1)])
       (auto simp: pod_lost_def phase_in_def vm_at_def conditions_distinct_def put_condition_distinct vm_set_condition_def set_vm_phase_def)
  have up: "vm_kept view S k s0 (snd (vm_save K (vm\<lparr>vm_status_of := (vm_status_of vm)\<lparr>vt_resources := rs\<rparr>\<rparr>) w1 (\<lambda>vm w. (q, w))))"
    for rs q using vm assms(3,4) by (intro vm_saves [OF assms(1) w1]) (auto simp: conditions_distinct_def)
  show ?thesis using True g lost up vm(1) by (cases r) (auto simp: vm_reconcile_running_def)
qed

lemma vm_stopped_kept:
  assumes "kube_laws reliable view K" and "vm_at view S k s0 vm w" and "{vm_stopped, vm_creating} \<subseteq> S"
  shows "vm_kept view S k s0 (snd (vm_reconcile_stopped env K vm w))"
proof (cases "vs_running (vm_spec_of vm)")
  case True
  have "vm_kept view S k s0 w" "conditions_distinct vm" using assms(2) by (simp_all add: vm_at_def)
  then show ?thesis using True assms(3)
    by (auto simp: vm_reconcile_stopped_def start_vm_def intro!: vm_saves [OF assms(1,2)])
next
  case False
  obtain r w1 where d: "delete_pod True K vm w = (r, w1)" by fastforce
  have "vm_at view S k s0 vm w1" using delete_pod_kept [OF assms(1,2), of True] assms(3) d by simp
  then show ?thesis using False d by (cases r) (auto simp: vm_reconcile_stopped_def vm_at_def)
qed

definition steps_ok :: "vm_phase set \<Rightarrow> obj_key \<Rightarrow> obj_store \<Rightarrow> vm_phase \<Rightarrow> bool" where
  "steps_ok S k s0 p \<longleftrightarrow> p \<in> S \<and> (vm_steps p \<subseteq> S \<or> p = vm_creating \<and> stuck_pod k s0 \<and> vm_stopped \<notin> S)"

lemma vm_by_phase_kept:
  assumes "kube_laws reliable view K" and "vm_at view S k s0 vm w" and "steps_ok S k s0 (vt_phase (vm_status_of vm))"
    and "vt_phase (vm_status_of vm) \<noteq> []"
  shows "vm_kept view S k s0 (snd (vm_by_phase env K vm w))"
proof -
  have kept: "vm_kept view S k s0 w" using assms(2) by (simp add: vm_at_def)
  let ?p = "vt_phase (vm_status_of vm)"
  note d = vm_phase_defs
  consider "?p = vm_pending" | "?p = vm_creating" | "?p = vm_running" | "?p = vm_stopped" | "?p = vm_failed"
    | "?p \<notin> {vm_pending, vm_creating, vm_running, vm_stopped, vm_failed}" by blast
  then show ?thesis
  proof cases
    case 1
    then have "{vm_creating, vm_failed} \<subseteq> S" "?p \<in> S" using assms(3) by (auto simp: steps_ok_def vm_steps_def d)
    from vm_pending_kept [OF assms(1,2) this] show ?thesis using 1 by (simp add: vm_by_phase_def)
  next
    case 2
    then have "vm_running \<in> S \<or> stuck_pod k s0 \<and> vm_stopped \<notin> S" using assms(3) by (auto simp: steps_ok_def vm_steps_def d)
    from vm_creating_kept [OF assms(1,2) this] show ?thesis using 2 by (simp add: vm_by_phase_def d)
  next
    case 3
    then have "{vm_running, vm_stopped, vm_failed, vm_pending} \<subseteq> S" using assms(3) by (auto simp: steps_ok_def vm_steps_def d)
    from vm_running_kept [OF assms(1,2) this 3] show ?thesis using 3 by (simp add: vm_by_phase_def d)
  next
    case 4
    then have "{vm_stopped, vm_creating} \<subseteq> S" using assms(3) by (auto simp: steps_ok_def vm_steps_def d)
    from vm_stopped_kept [OF assms(1,2) this] show ?thesis using 4 by (simp add: vm_by_phase_def d)
  next
    case 5
    then have "vm_pending \<in> S" using assms(3) by (auto simp: steps_ok_def vm_steps_def d)
    then show ?thesis using handle_failure_kept [OF assms(1,2)] kept 5
      by (auto simp: vm_by_phase_def vm_reconcile_failed_def d)
  next
    case 6
    then show ?thesis using kept by (simp add: vm_by_phase_def)
  qed
qed

lemma reconcile_vm_kept:
  assumes "kube_laws reliable view K" and "vm_kept view S k s0 w"
    and "\<And>vm. os_vms (view w) k = Some vm \<Longrightarrow> steps_ok S k s0 (vt_phase (vm_status_of vm))"
    and "\<And>vm. os_vms (view w) k = Some vm \<Longrightarrow> vt_phase (vm_status_of vm) = [] \<Longrightarrow> steps_ok S k s0 vm_pending"
  shows "vm_kept view S k s0 (snd (reconcile_vm env K k w))"
proof -
  obtain r w1 where g: "cl_get (kb_vm K) k w = (r, w1)" by fastforce
  note get = get_stored [OF kube_lawsD(1) [OF assms(1)] g]
  have w1: "vm_kept view S k s0 w1" using assms(2) get(1) by (simp add: vm_kept_def)
  show ?thesis
  proof (cases r)
    case (Inl e)
    then show ?thesis using w1 g by (simp add: reconcile_vm_def)
  next
    case (Inr vm)
    note st = get(2) [OF Inr]
    have vm: "key_of vm_kind vm = k" "conditions_distinct vm" "om_deletion (vm_meta vm) = None"
      using st assms(2) by (auto simp: vm_kept_def obj_kept_def keyed_def phase_in_def)
    let ?p = "vt_phase (vm_status_of vm)"
    have phase: "vm_kept view S k s0 (snd (vm_ensure_phase env K v w' (vm_by_phase env K)))"
      if v: "vm_kept view S k s0 w'" "key_of vm_kind v = k" "vm_status_of v = vm_status_of vm" for v w'
    proof (cases "?p = []")
      case False
      have "vm_at view S k s0 v w'" using v vm(2) by (simp add: vm_at_def conditions_distinct_def)
      from vm_by_phase_kept [OF assms(1) this] False assms(3) [OF st] v(3) show ?thesis by (simp add: vm_ensure_phase_def)
    next
      case True
      let ?v = "v\<lparr>vm_status_of := (vm_status_of v)\<lparr>vt_phase := vm_pending, vt_creation_timestamp := Some (ve_now env)\<rparr>\<rparr>"
      have p: "steps_ok S k s0 vm_pending" using assms(4) [OF st True] .
      have d: "conditions_distinct ?v" using vm(2) v(3) by (simp add: conditions_distinct_def)
      have "vm_kept view S k s0 (snd (vm_save K ?v w' (vm_by_phase env K)))"
      proof (rule vm_save_kept [OF assms(1) v(1)])
        show "key_of vm_kind ?v = k" using v(2) by simp
        show "phase_in S ?v" using p d by (simp add: phase_in_def steps_ok_def)
        fix y w'' assume y: "vm_kept view S k s0 w''" "key_of vm_kind y = k" "vm_status_of y = vm_status_of ?v"
        have "vm_at view S k s0 y w''" using y d by (simp add: vm_at_def conditions_distinct_def)
        from vm_by_phase_kept [OF assms(1) this] p y(3) show "vm_kept view S k s0 (snd (vm_by_phase env K y w''))"
          by (simp add: vm_phase_defs)
      qed
      then show ?thesis using True v(3) by (simp add: vm_ensure_phase_def)
    qed
    show ?thesis
    proof (cases "vm_finalizer \<in> set (om_finalizers (vm_meta vm))")
      case True
      then show ?thesis using phase [OF w1 vm(1)] g Inr vm(3) by (simp add: reconcile_vm_def vm_ensure_finalizer_def)
    next
      case False
      let ?v = "vm\<lparr>vm_meta := add_finalizer vm_finalizer (vm_meta vm)\<rparr>"
      have k: "key_of vm_kind ?v = k" using vm(1) by (simp add: key_of_def add_finalizer_def)
      obtain r' w2 where u: "cl_update (kb_vm K) ?v w1 = (r', w2)" by fastforce
      note c = vm_calls [OF assms(1) w1 k]
      have w2: "vm_kept view S k s0 w2" by (rule c(1) [OF u])
      show ?thesis
      proof (cases r')
        case (Inl e)
        then show ?thesis using w2 g Inr vm(3) False u by (simp add: reconcile_vm_def vm_ensure_finalizer_def)
      next
        case v: (Inr v)
        have "key_of vm_kind v = k" "vm_status_of v = vm_status_of vm"
          using c(3) u v st get(1) by auto
        then show ?thesis using phase [OF w2] g Inr vm(3) False u v by (simp add: reconcile_vm_def vm_ensure_finalizer_def)
      qed
    qed
  qed
qed

text \<open>
  C27: Whatever the API answers, a reconciliation of a machine that is not being deleted moves its stored
  phase at most along the steps given for the phase it found; a migrating or paused machine and one
  of unknown phase are left alone.  Conditions keep distinct types, and other machines, operations and
  snapshots are not changed.
\<close>

theorem machines_advance:
  assumes "kube_laws reliable view K" and "keyed vm_kind (os_vms (view w))" and "os_vms (view w) k = Some vm"
    and "conditions_distinct vm" and "om_deletion (vm_meta vm) = None" and "reconcile_vm env K k w = (res, w')"
  shows "(\<forall>y. os_vms (view w') k = Some y \<longrightarrow> conditions_distinct y \<and>
      vt_phase (vm_status_of y) \<in> insert (vt_phase (vm_status_of vm)) (vm_steps (vt_phase (vm_status_of vm)))) \<and>
    (\<forall>k'. k' \<noteq> k \<longrightarrow> os_vms (view w') k' = os_vms (view w) k') \<and>
    os_ops (view w') = os_ops (view w) \<and> os_snaps (view w') = os_snaps (view w)"
proof -
  let ?p = "vt_phase (vm_status_of vm)"
  let ?S = "insert ?p (vm_steps ?p)"
  have "vm_kept view ?S k (view w) w"
    using assms(2-5) by (auto simp: vm_kept_def obj_kept_def phase_in_def)
  moreover have "steps_ok ?S k (view w) ?p" by (auto simp: steps_ok_def)
  moreover have "?p = [] \<Longrightarrow> steps_ok ?S k (view w) vm_pending" by (auto simp: steps_ok_def vm_steps_def vm_phase_defs)
  ultimately have "vm_kept view ?S k (view w) w'"
    using reconcile_vm_kept [OF assms(1), of ?S k "view w" w env] assms(3,6) by auto
  then show ?thesis by (auto simp: vm_kept_def obj_kept_def phase_in_def)
qed

text \<open>A history of reconciliations of one machine.\<close>

fun reconcile_vms :: "'w kube \<Rightarrow> obj_key \<Rightarrow> vm_env list \<Rightarrow> 'w \<Rightarrow> 'w" where
  "reconcile_vms K k [] w = w"
| "reconcile_vms K k (env # envs) w = reconcile_vms K k envs (snd (reconcile_vm env K k w))"

text \<open>
  While the pod of a machine does not run, a failed machine never runs again, however often it is
  restarted and whatever the API answers: the controller finds the pod in every attempt, and neither
  replaces nor deletes it.
\<close>

theorem a_failed_pod_is_never_replaced:
  assumes "kube_laws reliable view K" and "keyed vm_kind (os_vms (view w))" and "os_vms (view w) k = Some vm"
    and "conditions_distinct vm" and "om_deletion (vm_meta vm) = None"
    and "vt_phase (vm_status_of vm) \<in> {vm_pending, vm_creating, vm_failed}"
    and "os_pods (view w) k = Some p" and "pod_phase p \<noteq> ''Running''"
  shows "os_pods (view (reconcile_vms K k envs w)) k = Some p \<and>
    (\<forall>y. os_vms (view (reconcile_vms K k envs w)) k = Some y \<longrightarrow>
      vt_phase (vm_status_of y) \<in> {vm_pending, vm_creating, vm_failed})"
proof -
  let ?S = "{vm_pending, vm_creating, vm_failed}"
  have stuck: "stuck_pod k (view w)" using assms(7,8) by (auto simp: stuck_pod_def)
  have "steps_ok ?S k (view w) q" if "q \<in> ?S" for q
    using that stuck by (auto simp: steps_ok_def vm_steps_def vm_phase_defs)
  then have step: "vm_kept view ?S k (view w) w'' \<Longrightarrow> vm_kept view ?S k (view w) (snd (reconcile_vm env K k w''))" for env w''
    by (intro reconcile_vm_kept [OF assms(1)]) (auto simp: vm_kept_def obj_kept_def phase_in_def)
  have "vm_kept view ?S k (view w) w'' \<Longrightarrow> vm_kept view ?S k (view w) (reconcile_vms K k envs w'')" for w''
    by (induction envs arbitrary: w'') (simp_all add: step)
  moreover have "vm_kept view ?S k (view w) w"
    using assms(2-6) by (auto simp: vm_kept_def obj_kept_def phase_in_def)
  ultimately have kept: "vm_kept view ?S k (view w) (reconcile_vms K k envs w)" by blast
  moreover have "vm_running \<notin> ?S" "vm_stopped \<notin> ?S" by (auto simp: vm_phase_defs)
  ultimately have "os_pods (view (reconcile_vms K k envs w)) = os_pods (view w)" using stuck by (simp add: vm_kept_def)
  then show ?thesis using kept assms(7) by (auto simp: vm_kept_def obj_kept_def phase_in_def)
qed


section \<open>Deleting a machine\<close>

text \<open>An object that is not there or is being deleted.\<close>

definition gone_at :: "'o kind \<Rightarrow> 'o obj_map \<Rightarrow> obj_key \<Rightarrow> bool" where
  "gone_at kd m k \<longleftrightarrow> (\<forall>y. m k = Some y \<longrightarrow> om_deletion (kd_meta kd y) \<noteq> None)"

lemma gone_after_delete:
  assumes "kind_ok kd" and "key_of kd x = k" and "m k = Some x"
  shows "gone_at kd (snd (sem_delete kd t x m)) k"
  using assms by (auto simp: gone_at_def sem_delete_def kind_ok_def split: if_splits)

lemma gone_stays: "kind_ok kd \<Longrightarrow> gone_at kd m k \<Longrightarrow> gone_at kd (snd (sem_delete kd t x m)) k"
  by (auto simp: gone_at_def sem_delete_def kind_ok_def split: option.splits if_splits)

lemma delete_keyed:
  assumes "kind_ok kd" and "keyed kd m"
  shows "keyed kd (snd (sem_delete kd t x m))"
proof (cases "m (key_of kd x)")
  case (Some s)
  then have "key_of kd s = key_of kd x" using assms(2) by (simp add: keyed_def)
  then have "key_of kd (kd_with_meta kd ((kd_meta kd s)\<lparr>om_deletion := d\<rparr>) s) = key_of kd x" for d
    using assms(1) by (simp add: kind_ok_def key_of_def)
  then show ?thesis using assms(2) Some \<open>key_of kd s = key_of kd x\<close> by (simp add: sem_delete_def)
qed (use assms(2) in \<open>simp add: sem_delete_def\<close>)

lemma deleted_gone:
  assumes "client_laws reliable view kd get put C" and "\<And>m s. get (put m s) = m" and "kind_ok kd"
    and "get (view w) k = Some x" and "key_of kd x = k" and "cl_delete C x w = (Inr u, w')"
  shows "gone_at kd (get (view w')) k"
proof -
  obtain t where "performs reliable (Inr u) (view w) (view w') (apsnd (\<lambda>m. put m (view w)) (sem_delete kd t x (get (view w))))"
    using client_performs(6) [OF assms(1,6)] by blast
  then have "view w' = put (snd (sem_delete kd t x (get (view w)))) (view w)"
    using assms(4,5) by (cases "sem_delete kd t x (get (view w))") (auto dest!: performs_value)
  then show ?thesis using gone_after_delete [of kd x k "get (view w)" t] assms(2-5) by simp
qed

lemma delete_pod_gone:
  assumes "kube_laws reliable view K" and "keyed pod_kind (os_pods (view w))" and "delete_pod False K vm w = (Inr b, w')"
  shows "gone_at pod_kind (os_pods (view w')) (vm_pod_key vm)"
proof -
  obtain r w1 where g: "cl_get (kb_pod K) (vm_pod_key vm) w = (r, w1)" by fastforce
  note get = get_stored [OF kube_lawsD(5) [OF assms(1)] g]
  show ?thesis
  proof (cases r)
    case (Inl e)
    then show ?thesis using assms(3) g get(1,3) by (auto simp: delete_pod_def gone_at_def split: if_splits)
  next
    case (Inr p)
    then obtain u where d: "cl_delete (kb_pod K) p w1 = (Inr u, w')"
      using assms(3) g by (auto simp: delete_pod_def split: prod.splits sum.splits)
    have "os_pods (view w1) (vm_pod_key vm) = Some p" "key_of pod_kind p = vm_pod_key vm"
      using get(1,2) Inr assms(2) by (auto simp: keyed_def)
    from deleted_gone [OF kube_lawsD(5) [OF assms(1)] _ _ this d] show ?thesis by simp
  qed
qed

lemma delete_claims_gone:
  "kube_laws reliable view K \<Longrightarrow> keyed pvc_kind (os_pvcs (view w)) \<Longrightarrow> delete_claims K vm ds w = (e, w') \<Longrightarrow>
    os_vms (view w') = os_vms (view w) \<and> os_pods (view w') = os_pods (view w) \<and>
    (\<forall>k. gone_at pvc_kind (os_pvcs (view w)) k \<longrightarrow> gone_at pvc_kind (os_pvcs (view w')) k) \<and>
    (e = None \<longrightarrow> (\<forall>d \<in> set ds. gone_at pvc_kind (os_pvcs (view w')) (pvc_key vm d)))"
proof (induction K vm ds w arbitrary: e w' rule: delete_claims.induct)
  case (2 K vm d ds w)
  note L = kube_lawsD(6) [OF 2(3)]
  obtain r w1 where g: "cl_get (kb_pvc K) (pvc_key vm d) w = (r, w1)" by fastforce
  note get = get_stored [OF L g]
  have k1: "keyed pvc_kind (os_pvcs (view w1))" using get(1) 2(4) by simp
  show ?case
  proof (cases r)
    case (Inl er)
    show ?thesis
    proof (cases "ae_reason er = NotFound")
      case True
      then have "delete_claims K vm ds w1 = (e, w')" using 2(5) g Inl by simp
      note ih = 2(1) [OF g [symmetric] Inl True 2(3) k1 this]
      have "gone_at pvc_kind (os_pvcs (view w1)) (pvc_key vm d)" using get(1,3) Inl True by (simp add: gone_at_def)
      then show ?thesis using ih get(1) by auto
    next
      case False
      then show ?thesis using 2(5) g Inl get(1) by auto
    qed
  next
    case (Inr c)
    obtain r' w2 where dl: "cl_delete (kb_pvc K) c w1 = (r', w2)" by fastforce
    note core = pvc_calls(3) [OF 2(3) dl]
    have gs: "gone_at pvc_kind (os_pvcs (view w1)) k \<Longrightarrow> gone_at pvc_kind (os_pvcs (view w2)) k" for k
      using call_effects(4) [OF L dl] gone_stays [of pvc_kind "os_pvcs (view w1)" k] by auto
    show ?thesis
    proof (cases r')
      case (Inl er)
      then show ?thesis using 2(5) g Inr dl core gs get(1) by auto
    next
      case u: (Inr u)
      have "delete_claims K vm ds w2 = (e, w')" using 2(5) g Inr dl u by simp
      moreover have "keyed pvc_kind (os_pvcs (view w2))"
        using call_effects(4) [OF L dl] k1 delete_keyed [of pvc_kind "os_pvcs (view w1)"] by auto
      ultimately have ih: "os_vms (view w') = os_vms (view w2) \<and> os_pods (view w') = os_pods (view w2) \<and>
          (\<forall>k. gone_at pvc_kind (os_pvcs (view w2)) k \<longrightarrow> gone_at pvc_kind (os_pvcs (view w')) k) \<and>
          (e = None \<longrightarrow> (\<forall>d \<in> set ds. gone_at pvc_kind (os_pvcs (view w')) (pvc_key vm d)))"
        using 2(2) [OF g [symmetric] Inr dl [symmetric] u 2(3)] by blast
      have "os_pvcs (view w1) (pvc_key vm d) = Some c" "key_of pvc_kind c = pvc_key vm d"
        using get(1,2) Inr 2(4) by (auto simp: keyed_def)
      then have "gone_at pvc_kind (os_pvcs (view w2)) (pvc_key vm d)"
        using deleted_gone [OF L _ _ _ _ dl [unfolded u]] by simp
      then show ?thesis using ih core gs get(1) by auto
    qed
  qed
qed simp

text \<open>
  C28: A machine that is being deleted is let go only after its pod and the claims of all its disks have been
  deleted, whatever the API answers: as long as one of them is neither gone nor being deleted, the
  stored machine keeps its finalizer.
\<close>

theorem machines_leave_nothing_behind:
  assumes "kube_laws reliable view K" and "keyed pod_kind (os_pods (view w))" and "keyed pvc_kind (os_pvcs (view w))"
    and "os_vms (view w) k = Some vm" and "om_deletion (vm_meta vm) \<noteq> None"
    and "vm_finalizer \<in> set (om_finalizers (vm_meta vm))" and "reconcile_vm env K k w = (res, w')"
    and "os_vms (view w') k \<noteq> Some vm"
  shows "gone_at pod_kind (os_pods (view w')) (vm_pod_key vm) \<and>
    (\<forall>d \<in> set (vs_disks (vm_spec_of vm)). gone_at pvc_kind (os_pvcs (view w')) (pvc_key vm d))"
proof -
  note L = kube_lawsD(1) [OF assms(1)]
  obtain r w1 where g: "cl_get (kb_vm K) k w = (r, w1)" by fastforce
  note get = get_stored [OF L g]
  obtain r: "r = Inr vm" and h: "handle_vm_deletion K vm w1 = (res, w')"
    using assms(4,5,7,8) get g by (cases r) (auto simp: reconcile_vm_def)
  obtain q w2 where d: "delete_pod False K vm w1 = (q, w2)" by fastforce
  have core: "os_vms (view w2) = os_vms (view w1) \<and> os_pvcs (view w2) = os_pvcs (view w1)"
    using d pod_calls(1,3) [OF assms(1)] unfolding delete_pod_def by (fastforce split: prod.splits sum.splits)
  show ?thesis
  proof (cases q)
    case (Inl e)
    then have "os_vms (view w') k = Some vm" using h d assms(4,6) core get(1) by (simp add: handle_vm_deletion_def)
    then show ?thesis using assms(8) by simp
  next
    case (Inr b)
    have pod: "gone_at pod_kind (os_pods (view w2)) (vm_pod_key vm)"
      using delete_pod_gone [OF assms(1) _ d [unfolded Inr]] get(1) assms(2) by simp
    obtain e w3 where c: "delete_claims K vm (vs_disks (vm_spec_of vm)) w2 = (e, w3)" by fastforce
    have "keyed pvc_kind (os_pvcs (view w2))" using core get(1) assms(3) by simp
    note cl = delete_claims_gone [OF assms(1) this c]
    show ?thesis
    proof (cases e)
      case (Some er)
      then have "w' = w3" using h d assms(6) Inr c by (simp add: handle_vm_deletion_def)
      then have "os_vms (view w') k = Some vm" using cl core get(1) assms(4) by simp
      then show ?thesis using assms(8) by simp
    next
      case None
      obtain r' w4 where u: "cl_update (kb_vm K) (vm\<lparr>vm_meta := remove_finalizer vm_finalizer (vm_meta vm)\<rparr>) w3 = (r', w4)"
        by fastforce
      have "w' = w4" using h d assms(6) Inr c None u by (cases r') (simp_all add: handle_vm_deletion_def)
      moreover have "os_pods (view w4) = os_pods (view w3)" "os_pvcs (view w4) = os_pvcs (view w3)"
        using other_kinds_kept(3) [OF L _ u, where look = os_pods] other_kinds_kept(3) [OF L _ u, where look = os_pvcs]
        by simp_all
      ultimately show ?thesis using pod cl None by (simp add: gone_at_def)
    qed
  qed
qed

section \<open>Bringing a machine up\<close>

definition claims_bound :: "obj_store \<Rightarrow> virtual_machine \<Rightarrow> bool" where
  "claims_bound s vm \<longleftrightarrow> (\<forall>d \<in> set (vs_disks (vm_spec_of vm)). \<exists>c. os_pvcs s (pvc_key vm d) = Some c \<and> pvc_phase c = ''Bound'')"

lemma ensure_claims_bound:
  "kube_laws True view K \<Longrightarrow> \<forall>d \<in> set ds. \<exists>c. os_pvcs (view w) (pvc_key vm d) = Some c \<and> pvc_phase c = ''Bound'' \<Longrightarrow>
    \<exists>w'. ensure_claims env K vm ds w = (None, w') \<and> view w' = view w"
proof (induction ds arbitrary: w)
  case (Cons d ds)
  obtain c where c: "os_pvcs (view w) (pvc_key vm d) = Some c" "pvc_phase c = ''Bound''" using Cons(3) by auto
  obtain w1 where g: "cl_get (kb_pvc K) (pvc_key vm d) w = (Inr c, w1)" "view w1 = view w"
    using reliable_get(1) [OF kube_lawsD(6) [OF Cons(2)] c(1)] by blast
  show ?case using Cons(1) [OF Cons(2), of w1] Cons(3) c(2) g by auto
qed simp

text \<open>
  When the API does what it is asked and the claims of its disks are bound, a machine that is being
  created gets its pod, built from its specification and assigned node, and once that pod runs the
  machine is running, with the addresses of the pod and the time it started.
\<close>

theorem machines_come_up:
  assumes "kube_laws True view K" and "os_vms (view w) k = Some vm" and "key_of vm_kind vm = k"
    and "om_deletion (vm_meta vm) = None" and "vm_finalizer \<in> set (om_finalizers (vm_meta vm))"
    and "vt_phase (vm_status_of vm) = vm_creating" and "claims_bound (view w) vm" and "reconcile_vm env K k w = (res, w')"
  shows "(os_pods (view w) k = None \<longrightarrow> snd res = None \<and> os_vms (view w') k = Some vm \<and>
      (\<exists>t. os_pods (view w') k = Some ((build_pod_for_vm vm)\<lparr>pod_meta := (pod_meta (build_pod_for_vm vm))\<lparr>om_created := t\<rparr>\<rparr>))) \<and>
    (\<forall>p. os_pods (view w) k = Some p \<and> pod_phase p = ''Running'' \<longrightarrow> snd res = None \<and>
      (\<exists>y. os_vms (view w') k = Some y \<and> vt_phase (vm_status_of y) = vm_running \<and> vm_spec_of y = vm_spec_of vm \<and>
        vt_start_time (vm_status_of y) = Some (ve_now env) \<and>
        (pod_ips p \<noteq> [] \<longrightarrow> vt_ip_addresses (vm_status_of y) = pod_ips p)))"
proof -
  obtain w1 where g: "cl_get (kb_vm K) k w = (Inr vm, w1)" "view w1 = view w"
    using reliable_get(1) [OF kube_lawsD(1) [OF assms(1)] assms(2)] by blast
  obtain w2 where c: "ensure_claims env K vm (vs_disks (vm_spec_of vm)) w1 = (None, w2)" "view w2 = view w"
    using ensure_claims_bound [OF assms(1), of "vs_disks (vm_spec_of vm)" w1 vm] assms(7) g(2) by (auto simp: claims_bound_def)
  have key: "vm_pod_key vm = k" using assms(3) by (simp add: vm_pod_key_def key_of_def)
  have run: "vm_reconcile_creating env K vm w1 = (res, w')"
    using assms(4-6,8) g(1) by (simp add: reconcile_vm_def vm_ensure_finalizer_def vm_ensure_phase_def vm_by_phase_def vm_phase_defs)
  note P = kube_lawsD(5) [OF assms(1)]
  show ?thesis
  proof (intro conjI impI allI)
    assume none: "os_pods (view w) k = None"
    have np: "os_pods (view w2) k = None" using none c(2) by simp
    obtain e w3 where gp: "cl_get (kb_pod K) k w2 = (Inl e, w3)" "ae_reason e = NotFound" "view w3 = view w"
      using reliable_get(2) [OF P np] c(2) by auto
    let ?b = "build_pod_for_vm vm"
    have bk: "key_of pod_kind ?b = k" using assms(3) by (simp add: build_pod_for_vm_def key_of_def plain_meta_def)
    have "os_pods (view w3) (key_of pod_kind ?b) = None" using none gp(3) bk by simp
    from reliable_create [OF P this] obtain t w4 x' where
      x': "x' = kd_no_status pod_kind (kd_with_meta pod_kind ((kd_meta pod_kind ?b)\<lparr>om_created := t, om_deletion := None\<rparr>) ?b)"
      and cr: "cl_create (kb_pod K) ?b w3 = (Inr x', w4)" "view w4 = (view w3)\<lparr>os_pods := (os_pods (view w3))(key_of pod_kind ?b \<mapsto> x')\<rparr>"
      by blast
    have x: "x' = ?b\<lparr>pod_meta := (pod_meta ?b)\<lparr>om_created := t\<rparr>\<rparr>"
      unfolding x' by (simp add: build_pod_for_vm_def plain_meta_def)
    have "pod_phase x' \<noteq> ''Running''" unfolding x by (simp add: build_pod_for_vm_def)
    then have r: "res = (5 * second, None)" "w' = w4"
      using run c(1) key gp(1,2) cr(1) by (simp_all add: vm_reconcile_creating_def await_pod_def)
    show "snd res = None" "os_vms (view w') k = Some vm"
      "\<exists>t. os_pods (view w') k = Some (?b\<lparr>pod_meta := (pod_meta ?b)\<lparr>om_created := t\<rparr>\<rparr>)"
      using r cr(2) gp(3) assms(2) bk x by auto
  next
    fix p assume p: "os_pods (view w) k = Some p \<and> pod_phase p = ''Running''"
    then have sp: "os_pods (view w2) k = Some p" using c(2) by simp
    obtain w3 where gp: "cl_get (kb_pod K) k w2 = (Inr p, w3)" "view w3 = view w"
      using reliable_get(1) [OF P sp] c(2) by auto
    let ?v = "vm_up (ve_now env) p vm"
    have k: "key_of vm_kind ?v = k" using assms(3) by (simp add: vm_up_def Let_def)
    have st: "os_vms (view w3) (key_of vm_kind ?v) = Some vm" using k assms(2) gp(2) by simp
    have "vm\<lparr>vm_status_of := vm_status_of ?v\<rparr> = ?v" by (simp add: vm_up_def vm_set_condition_def Let_def)
    then obtain w4 where u: "cl_update_status (kb_vm K) ?v w3 = (Inr ?v, w4)"
      "view w4 = (view w3)\<lparr>os_vms := (os_vms (view w3))(k \<mapsto> ?v)\<rparr>"
      using reliable_update_status [OF kube_lawsD(1) [OF assms(1)] st] k by auto
    have r: "res = (nothing_more, None)" "w' = w4"
      using run c(1) key gp(1) p u(1) by (simp_all add: vm_reconcile_creating_def await_pod_def vm_save_def)
    have "vt_phase (vm_status_of ?v) = vm_running" "vm_spec_of ?v = vm_spec_of vm"
      "vt_start_time (vm_status_of ?v) = Some (ve_now env)" "pod_ips p \<noteq> [] \<longrightarrow> vt_ip_addresses (vm_status_of ?v) = pod_ips p"
      by (simp_all add: vm_up_def vm_set_condition_def Let_def)
    then show "snd res = None" "\<exists>y. os_vms (view w') k = Some y \<and> vt_phase (vm_status_of y) = vm_running \<and> vm_spec_of y = vm_spec_of vm \<and>
        vt_start_time (vm_status_of y) = Some (ve_now env) \<and> (pod_ips p \<noteq> [] \<longrightarrow> vt_ip_addresses (vm_status_of y) = pod_ips p)"
      using r u(2) by auto
  qed
qed


section \<open>A machine\<close>

definition demo_vm_in :: "vm_phase \<Rightarrow> instant option \<Rightarrow> virtual_machine" where
  "demo_vm_in p d = demo_vm
     \<lparr>vm_meta := (plain_meta ''web'' ''prod'' [])\<lparr>om_finalizers := [vm_finalizer], om_deletion := d\<rparr>,
      vm_status_of := no_vm_status\<lparr>vt_phase := p\<rparr>\<rparr>"

definition demo_vm_key :: obj_key where "demo_vm_key = (''prod'', ''web'')"

definition demo_pod :: "string \<Rightarrow> pod" where
  "demo_pod p = (build_pod_for_vm demo_vm)\<lparr>pod_phase := p, pod_ips := [''10.0.0.7'']\<rparr>"

definition demo_vm_env :: vm_env where
  "demo_vm_env = \<lparr>ve_now = 9, ve_quantity = (\<lambda>s. Some s)\<rparr>"

definition vm_world :: "vm_phase \<Rightarrow> instant option \<Rightarrow> string \<Rightarrow> kube_sim" where
  "vm_world p d q = no_objects\<lparr>ks_vms := [(demo_vm_key, demo_vm_in p d)], ks_pods := [(demo_vm_key, demo_pod q)]\<rparr>"

lemma vm_world_simps [simp]:
  "os_vms (sim_view (vm_world p d q)) = [demo_vm_key \<mapsto> demo_vm_in p d]"
  "os_pods (sim_view (vm_world p d q)) = [demo_vm_key \<mapsto> demo_pod q]"
  "os_pvcs (sim_view (vm_world p d q)) = Map.empty"
  by (simp_all add: sim_view_def vm_world_def no_objects_def)

lemma demo_vm_in_simps [simp]:
  "key_of vm_kind (demo_vm_in p d) = demo_vm_key" "vm_pod_key (demo_vm_in p d) = demo_vm_key"
  "om_deletion (vm_meta (demo_vm_in p d)) = d" "om_finalizers (vm_meta (demo_vm_in p d)) = [vm_finalizer]"
  "vt_phase (vm_status_of (demo_vm_in p d)) = p" "conditions_distinct (demo_vm_in p d)"
  "vs_disks (vm_spec_of (demo_vm_in p d)) = []" "pod_phase (demo_pod q) = q" "key_of pod_kind (demo_pod q) = demo_vm_key"
  by (simp_all add: demo_vm_in_def key_of_def demo_vm_key_def vm_pod_key_def plain_meta_def conditions_distinct_def
      no_vm_status_def demo_vm_def demo_pod_def build_pod_for_vm_def)

lemma demo_keyed [simp]: "keyed vm_kind [demo_vm_key \<mapsto> demo_vm_in p d]" "keyed pod_kind [demo_vm_key \<mapsto> demo_pod q]"
  by (simp_all add: keyed_def)

theorem machines_advance_witness:
  "\<exists>y. os_vms (sim_view (snd (reconcile_vm demo_vm_env sim_kube demo_vm_key (vm_world vm_creating None ''Running'')))) demo_vm_key =
    Some y \<and> conditions_distinct y \<and> vt_phase (vm_status_of y) \<in> insert vm_creating (vm_steps vm_creating)"
proof -
  obtain res w' where r: "reconcile_vm demo_vm_env sim_kube demo_vm_key (vm_world vm_creating None ''Running'') = (res, w')" by fastforce
  have "\<exists>y. os_vms (sim_view w') demo_vm_key = Some y"
    using machines_come_up [OF sim_kube_laws _ _ _ _ _ _ r, of "demo_vm_in vm_creating None"] by (auto simp: claims_bound_def)
  with machines_advance [OF sim_kube_laws _ _ _ _ r, of "demo_vm_in vm_creating None"] show ?thesis by (auto simp: r)
qed

theorem a_failed_pod_is_never_replaced_witness:
  "os_pods (sim_view (reconcile_vms sim_kube demo_vm_key [demo_vm_env, demo_vm_env, demo_vm_env]
     (vm_world vm_failed None ''Failed''))) demo_vm_key = Some (demo_pod ''Failed'')"
  using a_failed_pod_is_never_replaced [OF sim_kube_laws, of "vm_world vm_failed None ''Failed''" demo_vm_key
    "demo_vm_in vm_failed None" "demo_pod ''Failed''" "[demo_vm_env, demo_vm_env, demo_vm_env]"] by simp

lemma demo_deletion_changes:
  "os_vms (sim_view (snd (reconcile_vm demo_vm_env sim_kube demo_vm_key (vm_world vm_running (Some 3) ''Running'')))) demo_vm_key = None"
  by (simp add: reconcile_vm_def handle_vm_deletion_def delete_pod_def sim_kube_def sim_client_def sem_get_def vm_world_def
      sim_call_def sem_delete_def sem_update_def sim_put_def no_objects_def Let_def sim_view_def remove_finalizer_def key_of_def)
    (simp add: demo_vm_in_def demo_pod_def build_pod_for_vm_def plain_meta_def demo_vm_key_def)

theorem machines_leave_nothing_behind_witness:
  "gone_at pod_kind (os_pods (sim_view (snd (reconcile_vm demo_vm_env sim_kube demo_vm_key
     (vm_world vm_running (Some 3) ''Running''))))) demo_vm_key"
proof -
  let ?w = "vm_world vm_running (Some 3) ''Running''"
  obtain res w' where r: "reconcile_vm demo_vm_env sim_kube demo_vm_key ?w = (res, w')" by fastforce
  have "keyed pvc_kind Map.empty" by (simp add: keyed_def)
  then show ?thesis
    using machines_leave_nothing_behind [OF sim_kube_laws _ _ _ _ _ r, of "demo_vm_in vm_running (Some 3)"]
      demo_deletion_changes r by simp
qed

theorem machines_come_up_witness:
  "\<exists>y. os_vms (sim_view (snd (reconcile_vm demo_vm_env sim_kube demo_vm_key (vm_world vm_creating None ''Running'')))) demo_vm_key =
    Some y \<and> vt_phase (vm_status_of y) = vm_running"
proof -
  obtain res w' where r: "reconcile_vm demo_vm_env sim_kube demo_vm_key (vm_world vm_creating None ''Running'') = (res, w')" by fastforce
  show ?thesis
    using machines_come_up [OF sim_kube_laws _ _ _ _ _ _ r, of "demo_vm_in vm_creating None"] r by (auto simp: claims_bound_def)
qed

end
