(* ===== verification/Operator_Pipeline.thy ===== *)
theory Operator_Pipeline
  imports Vm_Operation_Effects Vm_Snapshot
begin

text \<open>
  The controllers of operations and of snapshots together: a snapshot asked for by an operation is
  made by the other controller, which the two share only through the objects of the API.
\<close>

declare split_paired_All [simp del] split_paired_Ex [simp del]

definition asks_for_snapshot :: "snapshot_spec \<Rightarrow> virtual_machine \<Rightarrow> vm_operation \<Rightarrow> vm_world \<Rightarrow> bool" where
  "asks_for_snapshot sp vm x s \<longleftrightarrow> os_operation (vo_spec x) = op_snapshot \<and> os_snapshot_spec (vo_spec x) = Some sp \<and>
     fst s (vm_key x) = Some vm \<and> snd s (key_of snap_kind (snapshot_of sp vm)) = None"

text \<open>
  C29: When the API does what it is asked, a running operation that asks for a snapshot under a free name has
  succeeded after its reconciliation, and two reconciliations of the snapshot it created make that
  ready to be restored, with the state of the machine and the files of its disks.
\<close>

theorem a_requested_snapshot_is_made:
  assumes "kube_laws True view K" and "stored_op view k x s w" and "ot_phase (vo_status x) = opp_running"
    and "asks_for_snapshot sp vm x s" and "k' = key_of snap_kind (snapshot_of sp vm)"
    and "reconcile_op env K k w = (r0, w0)" and "reconcile_snap now K k' w0 = (r1, w1)" and "reconcile_snap now' K k' w1 = (r2, w2)"
  shows "(\<exists>y. os_ops (view w0) k = Some y \<and> ot_phase (vo_status y) = opp_succeeded) \<and>
    (\<exists>n. os_snaps (view w2) k' = Some n \<and> sn_spec n = sn_spec (snapshot_of sp vm) \<and> st_phase (sn_status n) = snp_ready \<and>
      st_ready_to_restore (sn_status n) \<and> st_vm_state (sn_status n) = Some (capture_state vm) \<and>
      st_backing_files (sn_status n) = generate_backing_files (snapshot_of sp vm) vm) \<and>
    os_vms (view w2) = fst s"
proof -
  let ?n = "snapshot_of sp vm"
  note ask = assms(4) [unfolded asks_for_snapshot_def]
  have live: "keyed vm_kind (fst s)" using assms(2) by (simp add: stored_op_def vms_live_def)
  obtain t y s' where y: "stored_op view k y s' w0"
    "(ot_phase (vo_status y), s') = apfst (\<lambda>ok. if ok then opp_succeeded else opp_failed) (op_effect t x s)"
    using running_reconciled [OF assms(1-3,6)] by blast
  have "op_effect t x s = (True, fst s, (snd s)(k' \<mapsto> ?n\<lparr>sn_meta := created_at t (sn_meta ?n)\<rparr>))"
    using ask assms(5) by (simp add: op_effect_def op_type_defs snapshot_effect_def Let_def)
  then have y': "ot_phase (vo_status y) = opp_succeeded" "fst s' = fst s"
    "snd s' = (snd s)(k' \<mapsto> ?n\<lparr>sn_meta := created_at t (sn_meta ?n)\<rparr>)" using y(2) by auto
  let ?m = "?n\<lparr>sn_meta := created_at t (sn_meta ?n)\<rparr>"
  have "os_snaps (view w0) = snd s'" "os_vms (view w0) = fst s'" using y(1) by (auto simp: stored_op_def world_of_def)
  then have st: "stored_snap view k' ?m (fst s) w0"
    using y' assms(5) by (auto simp: stored_snap_def key_of_def created_at_def)
  have "snap_vm_key ?m = key_of vm_kind vm" by (simp add: snap_vm_key_def ref_key_def snapshot_of_def key_of_def created_at_def plain_meta_def)
  then have "fst s (snap_vm_key ?m) = Some vm" using ask live by (auto simp: keyed_def)
  moreover have "st_phase (sn_status ?m) = []" "sp_retention (sn_spec ?m) = None"
    by (simp_all add: snapshot_of_def no_snapshot_status_def)
  ultimately obtain n where n: "stored_snap view k' n (fst s) w2" "sn_spec n = sn_spec ?m" "st_phase (sn_status n) = snp_ready"
    "st_ready_to_restore (sn_status n)" "st_vm_state (sn_status n) = Some (capture_state vm)"
    "st_backing_files (sn_status n) = generate_backing_files ?m vm"
    using snapshot_taken [OF assms(1) st _ _ _ assms(7,8)] by blast
  moreover have "generate_backing_files ?m vm = generate_backing_files ?n vm"
    by (simp add: generate_backing_files_def created_at_def)
  ultimately show ?thesis using y(1) y'(1) by (auto simp: stored_op_def stored_snap_def)
qed

definition demo_snapshot_op :: vm_operation where
  "demo_snapshot_op = (demo_op op_snapshot opp_running)
     \<lparr>vo_spec := (vo_spec (demo_op op_snapshot opp_running))
        \<lparr>os_snapshot_spec := Some \<lparr>ss_name = ''before'', ss_description = [], ss_include_memory = True, ss_quiesce = False\<rparr>\<rparr>\<rparr>"

definition snapshot_op_world :: kube_sim where
  "snapshot_op_world = demo_vms\<lparr>ks_ops := [(demo_key, demo_snapshot_op)]\<rparr>"

theorem a_requested_snapshot_is_made_witness:
  "\<exists>n. os_snaps (sim_view (snd (reconcile_snap 7 sim_kube (''prod'', ''before'') (snd (reconcile_snap 6 sim_kube (''prod'', ''before'')
      (snd (reconcile_op demo_env sim_kube demo_key snapshot_op_world))))))) (''prod'', ''before'') = Some n \<and>
    st_ready_to_restore (sn_status n)"
proof -
  let ?sp = "\<lparr>ss_name = ''before'', ss_description = [], ss_include_memory = True, ss_quiesce = False\<rparr>"
  let ?s = "([(''prod'', ''web'') \<mapsto> demo_vm], Map.empty)"
  obtain r0 w0 where r0: "reconcile_op demo_env sim_kube demo_key snapshot_op_world = (r0, w0)" by fastforce
  obtain r1 w1 where r1: "reconcile_snap 6 sim_kube (''prod'', ''before'') w0 = (r1, w1)" by fastforce
  obtain r2 w2 where r2: "reconcile_snap 7 sim_kube (''prod'', ''before'') w1 = (r2, w2)" by fastforce
  have h1: "stored_op sim_view demo_key demo_snapshot_op ?s snapshot_op_world"
    by (auto simp: stored_op_def vms_live_def keyed_def plain_meta_def sim_view_def snapshot_op_world_def world_of_def
        demo_vms_def no_objects_def demo_snapshot_op_def demo_op_def key_of_def demo_key_def)
  have h2: "ot_phase (vo_status demo_snapshot_op) = opp_running" by (simp add: demo_snapshot_op_def)
  have h3: "asks_for_snapshot ?sp demo_vm demo_snapshot_op ?s"
    by (simp add: asks_for_snapshot_def demo_snapshot_op_def demo_op_def vm_key_def ref_key_def plain_meta_def)
  have h4: "(''prod'', ''before'') = key_of snap_kind (snapshot_of ?sp demo_vm)"
    by (simp add: key_of_def snapshot_of_def plain_meta_def)
  show ?thesis using a_requested_snapshot_is_made [OF sim_kube_laws h1 h2 h3 h4 r0 r1 r2] by (auto simp: r0 r1 r2)
qed

end
