(* ===== verification/Migration_Policy.thy ===== *)
theory Migration_Policy
  imports Vm_Operation "HOL-Library.Char_ord" "HOL-Library.List_Lexorder"
begin

text \<open>
  \<open>pkg/operator/controllers/vmmigrationpolicy_controller.go\<close>: the controller that asks for
  migrations when the triggers of a policy fire.  Parameters: the client of the API, the readings
  of the clock, each by the place that makes it, the local hour of an instant, the order of the
  \<open>range\<close> loops over the nodes, the rendering of a carbon intensity and the cron parser.
\<close>

declare split_paired_All [simp del] split_paired_Ex [simp del]

section \<open>Parameters\<close>

record pol_env =
  pe_evaluated :: instant
  pe_started :: "nat \<Rightarrow> nat \<Rightarrow> instant"
  pe_checked :: instant
  pe_executed :: "nat \<Rightarrow> instant"
  pe_migrated :: "nat \<Rightarrow> instant"
  pe_planned :: instant
  pe_finished :: instant
  pe_hour :: "instant \<Rightarrow> int"
  pe_range :: "nat \<Rightarrow> (string, virtual_machine list) gomap \<Rightarrow> (string, virtual_machine list) gomap"
  pe_carbon :: "real \<Rightarrow> string"
  pe_parse :: "string \<Rightarrow> api_error + (instant \<Rightarrow> instant)"

definition migration_policy_finalizer :: string where
  "migration_policy_finalizer = ''transiva.zyvor.ai/migrationpolicy-finalizer''"

section \<open>Time windows\<close>

text \<open>\<open>strings.Split(s, c)\<close> for a separator of one character.\<close>

fun split_at :: "char \<Rightarrow> string \<Rightarrow> string list" where
  "split_at c [] = [[]]"
| "split_at c (d # s) = (if d = c then [] # split_at c s else (d # hd (split_at c s)) # tl (split_at c s))"

text \<open>
  The value of \<open>strconv.Atoi\<close>, whose error the code ignores: 0 for a syntax error, the nearest
  64-bit integer for one that is out of range.
\<close>

fun parse_uint :: "int \<Rightarrow> string \<Rightarrow> int option" where
  "parse_uint n [] = Some n"
| "parse_uint n (c # s) =
     (if CHR ''0'' \<le> c \<and> c \<le> CHR ''9''
      then let n' = 10 * n + (of_char c - 48) in if 2 ^ 64 \<le> n' then Some (2 ^ 64 - 1) else parse_uint n' s
      else None)"

definition atoi_value :: "string \<Rightarrow> int" where
  "atoi_value s =
     (let neg = (s \<noteq> [] \<and> hd s = CHR ''-''); ds = (if s \<noteq> [] \<and> hd s \<in> {CHR ''-'', CHR ''+''} then tl s else s)
      in if ds = [] then 0
         else case parse_uint 0 ds of
                None \<Rightarrow> 0
              | Some n \<Rightarrow> if neg then - min n (2 ^ 63) else min n (2 ^ 63 - 1))"

definition in_policy_window :: "int \<Rightarrow> policy_window \<Rightarrow> bool" where
  "in_policy_window h wd =
     (let st = split_at CHR '':'' (pw_start wd); en = split_at CHR '':'' (pw_end wd)
      in length st = 2 \<and> length en = 2 \<and> atoi_value (hd st) \<le> h \<and> h < atoi_value (hd en))"

section \<open>Triggers\<close>

definition select_target_node :: "string \<Rightarrow> migration_policy \<Rightarrow> string" where
  "select_target_node current x =
     (let s = ts_strategy (mps_target (mp_spec x))
      in if s = strategy_least_utilized then ''node-low-util''
         else if s = strategy_lowest_carbon then ''node-low-carbon''
         else if s = strategy_round_robin then ''node-'' @ dec_nat (if str_contains current ''1'' then 2 else 1)
         else ''node-1'')"

definition proposal :: "migration_trigger \<Rightarrow> virtual_machine \<Rightarrow> string \<Rightarrow> string \<Rightarrow> string \<Rightarrow> migration_record" where
  "proposal tg vm from to reason =
     \<lparr>mrc_vm_name = om_name (vm_meta vm), mrc_from_node = from, mrc_to_node = to, mrc_trigger = tg_type tg,
      mrc_start_time = 0, mrc_completion_time = None, mrc_status = ''pending'', mrc_reason = reason, mrc_duration = []\<rparr>"

text \<open>The start times are read from the clock one after the other; \<open>i\<close> counts the triggers.\<close>

definition stamp :: "pol_env \<Rightarrow> nat \<Rightarrow> migration_record list \<Rightarrow> migration_record list" where
  "stamp env i rs = map (\<lambda>(j, r). r\<lparr>mrc_start_time := pe_started env i j\<rparr>) (enumerate 0 rs)"

definition placed :: "virtual_machine \<Rightarrow> bool" where
  "placed vm \<longleftrightarrow> vt_node_name (vm_status_of vm) \<noteq> [] \<and> vt_phase (vm_status_of vm) = vm_running"

definition group_by_node :: "virtual_machine list \<Rightarrow> (string, virtual_machine list) gomap" where
  "group_by_node vms =
     foldl (\<lambda>m vm. if placed vm
                   then let n = vt_node_name (vm_status_of vm)
                        in gm_put n ((case gm_get m n of None \<Rightarrow> [] | Some l \<Rightarrow> l) @ [vm]) m
                   else m) [] vms"

definition node_pressure ::
  "pol_env \<Rightarrow> nat \<Rightarrow> virtual_machine list \<Rightarrow> migration_trigger \<Rightarrow> migration_policy \<Rightarrow> migration_record list" where
  "node_pressure env i vms tg x =
     stamp env i (concat (map (\<lambda>(n, l).
       if 5 < length l
       then map (\<lambda>vm. proposal tg vm n (select_target_node n x) (''Node '' @ n @ '' under pressure'')) (take 2 l)
       else []) (pe_range env i (group_by_node vms))))"

definition carbon_intensity ::
  "pol_env \<Rightarrow> nat \<Rightarrow> virtual_machine list \<Rightarrow> migration_trigger \<Rightarrow> migration_policy \<Rightarrow> migration_record list" where
  "carbon_intensity env i vms tg x =
     stamp env i (map (\<lambda>vm. let st = vm_status_of vm in
         proposal tg vm (vt_node_name st) (select_target_node (vt_node_name st) x)
           (''High carbon intensity: '' @ pe_carbon env (vt_carbon_intensity st) @ '' gCO2/kWh''))
       (filter (\<lambda>vm. (case vs_carbon_aware (vm_spec_of vm) of None \<Rightarrow> False | Some c \<Rightarrow> ca_enabled c) \<and>
          300 < vt_carbon_intensity (vm_status_of vm)) vms))"

text \<open>The loop that looks for the fullest and the emptiest node: both counts with their nodes.\<close>

fun extremes ::
  "(string, virtual_machine list) gomap \<Rightarrow> (nat \<times> string) \<times> (nat \<times> string) \<Rightarrow> (nat \<times> string) \<times> (nat \<times> string)" where
  "extremes [] a = a"
| "extremes ((n, l) # m) (most, least) =
     extremes m (if fst most < length l then (length l, n) else most,
                 if length l < fst least then (length l, n) else least)"

definition load_balancing ::
  "pol_env \<Rightarrow> nat \<Rightarrow> virtual_machine list \<Rightarrow> migration_trigger \<Rightarrow> migration_policy \<Rightarrow> migration_record list" where
  "load_balancing env i vms tg x =
     (case extremes (pe_range env i (group_by_node vms)) ((0, []), (999999, [])) of
        ((mx, a), (mn, b)) \<Rightarrow>
          if 3 < int mx - int mn \<and> a \<noteq> [] \<and> b \<noteq> []
          then stamp env i (map (\<lambda>vm. proposal tg vm a b
                 (''Load balancing: '' @ a @ '' ('' @ dec_nat mx @ '' VMs) -> '' @ b @ '' ('' @ dec_nat mn @ '' VMs)''))
               (take ((mx - mn) div 2) (case gm_get (group_by_node vms) a of None \<Rightarrow> [] | Some l \<Rightarrow> l)))
          else [])"

definition maintenance ::
  "pol_env \<Rightarrow> nat \<Rightarrow> virtual_machine list \<Rightarrow> migration_trigger \<Rightarrow> migration_policy \<Rightarrow> migration_record list" where
  "maintenance env i vms tg x =
     stamp env i (map (\<lambda>vm. let n = vt_node_name (vm_status_of vm) in
         proposal tg vm n (select_target_node n x) ''Node under maintenance'')
       (filter (\<lambda>vm. vt_node_name (vm_status_of vm) \<noteq> [] \<and> str_contains (vt_node_name (vm_status_of vm)) ''maint'') vms))"

definition evaluate_trigger ::
  "pol_env \<Rightarrow> nat \<Rightarrow> virtual_machine list \<Rightarrow> migration_policy \<Rightarrow> migration_trigger \<Rightarrow> migration_record list" where
  "evaluate_trigger env i vms x tg =
     (let t = tg_type tg
      in if t = trigger_node_pressure then node_pressure env i vms tg x
         else if t = trigger_carbon_intensity then carbon_intensity env i vms tg x
         else if t = trigger_load_balancing then load_balancing env i vms tg x
         else if t = trigger_maintenance then maintenance env i vms tg x
         else [])"

section \<open>Constraints\<close>

text \<open>\<open>sort.SliceStable\<close> by the type of the trigger, before the list is cut.\<close>

definition apply_constraints :: "pol_env \<Rightarrow> migration_policy \<Rightarrow> migration_record list \<Rightarrow> migration_record list" where
  "apply_constraints env x rs =
     (let c = mps_constraints (mp_spec x);
          rs = (if 0 < mc_max_concurrent c \<and> mc_max_concurrent c < clamp_int32 (int (length rs))
                then take (nat (mc_max_concurrent c)) (sort_key mrc_trigger rs) else rs);
          h = pe_hour env (pe_checked env)
      in if mc_allowed_windows c \<noteq> [] \<and> \<not> list_ex (in_policy_window h) (mc_allowed_windows c) then []
         else if list_ex (in_policy_window h) (mc_blocked_windows c) then []
         else rs)"

definition proposed :: "pol_env \<Rightarrow> migration_policy \<Rightarrow> virtual_machine list \<Rightarrow> migration_record list" where
  "proposed env x vms = apply_constraints env x
     (concat (map (\<lambda>(i, tg). evaluate_trigger env i vms x tg) (enumerate 0 (mps_triggers (mp_spec x)))))"

definition evaluate_triggers ::
  "pol_env \<Rightarrow> 'w kube \<Rightarrow> migration_policy \<Rightarrow> 'w \<Rightarrow> (api_error + migration_record list) \<times> 'w" where
  "evaluate_triggers env K x w =
     (case cl_list (kb_vm K) (om_namespace (mp_meta x)) [] w of
        (Inl e, w) \<Rightarrow> (Inl e, w)
      | (Inr vms, w) \<Rightarrow>
          (Inr (proposed env x vms), w))"

section \<open>Asking for migrations\<close>

definition migration_op :: "migration_policy \<Rightarrow> migration_record \<Rightarrow> instant \<Rightarrow> vm_operation" where
  "migration_op x r t =
     \<lparr>vo_meta = plain_meta (mrc_vm_name r @ ''-migrate-'' @ dec_int (t div second - 62135596800)) (om_namespace (mp_meta x))
        [(''migration-policy'', om_name (mp_meta x)), (''trigger-type'', mrc_trigger r)],
      vo_spec = \<lparr>os_vm_ref = \<lparr>vr_name = mrc_vm_name r, vr_namespace = om_namespace (mp_meta x)\<rparr>,
        os_operation = op_migrate, os_force = False, os_clone_spec = None,
        os_migrate_spec = Some \<lparr>ms_target_node = mrc_to_node r, ms_live = mc_require_live (mps_constraints (mp_spec x)),
          ms_bandwidth = [], ms_auto_converge = False, ms_post_copy = False\<rparr>,
        os_resize_spec = None, os_snapshot_spec = None, os_timeout = []\<rparr>,
      vo_status = no_op_status\<rparr>"

definition execute_migration_op ::
  "'w kube \<Rightarrow> instant \<Rightarrow> migration_record \<Rightarrow> migration_policy \<Rightarrow> 'w \<Rightarrow> api_error option \<times> migration_policy \<times> 'w" where
  "execute_migration_op K t r x w =
     (case cl_create (kb_op K) (migration_op x r t) w of
        (Inl e, w) \<Rightarrow> (Some (wrap_error ''failed to create migration operation'' e), x, w)
      | (Inr y, w) \<Rightarrow>
          (None, x\<lparr>mp_status := (mp_status x)\<lparr>mpt_triggered := mpt_triggered (mp_status x) @ [r],
             mpt_pending := mpt_pending (mp_status x) + 1\<rparr>\<rparr>, w))"

text \<open>The loop over the migrations; \<open>j\<close> have been asked for before.\<close>

fun execute_all ::
  "pol_env \<Rightarrow> 'w kube \<Rightarrow> nat \<Rightarrow> migration_record list \<Rightarrow> migration_policy \<Rightarrow> 'w \<Rightarrow> migration_policy \<times> 'w" where
  "execute_all env K j [] x w = (x, w)"
| "execute_all env K j (r # rs) x w =
     (case execute_migration_op K (pe_executed env j) r x w of
        (Some e, x, w) \<Rightarrow>
          execute_all env K (Suc j) rs (x\<lparr>mp_status := (mp_status x)\<lparr>mpt_failed := mpt_failed (mp_status x) + 1\<rparr>\<rparr>) w
      | (None, x, w) \<Rightarrow>
          execute_all env K (Suc j) rs
            (x\<lparr>mp_status := (mp_status x)\<lparr>mpt_successful := mpt_successful (mp_status x) + 1,
                 mpt_last_migration := Some (pe_migrated env j)\<rparr>\<rparr>) w)"

section \<open>Reconciliation\<close>

definition handle_policy_deletion :: "'w kube \<Rightarrow> migration_policy \<Rightarrow> 'w \<Rightarrow> (ctrl_result \<times> api_error option) \<times> 'w" where
  "handle_policy_deletion K x w =
     (if migration_policy_finalizer \<in> set (om_finalizers (mp_meta x))
      then case cl_update (kb_policy K) (x\<lparr>mp_meta := remove_finalizer migration_policy_finalizer (mp_meta x)\<rparr>) w of
             (Inl e, w) \<Rightarrow> ((nothing_more, Some e), w)
           | (Inr x, w) \<Rightarrow> ((nothing_more, None), w)
      else ((nothing_more, None), w))"

definition policy_ensure_finalizer ::
  "'w kube \<Rightarrow> migration_policy \<Rightarrow> 'w \<Rightarrow> api_error option \<times> migration_policy \<times> 'w" where
  "policy_ensure_finalizer K x w =
     (if migration_policy_finalizer \<in> set (om_finalizers (mp_meta x)) then (None, x, w)
      else case cl_update (kb_policy K) (x\<lparr>mp_meta := add_finalizer migration_policy_finalizer (mp_meta x)\<rparr>) w of
             (Inl e, w) \<Rightarrow> (Some e, x, w)
           | (Inr x, w) \<Rightarrow> (None, x, w))"

text \<open>A status update, and what to do next with the policy the server answers.\<close>

definition save_policy :: "'w kube \<Rightarrow> migration_policy \<Rightarrow> 'w \<Rightarrow> (migration_policy \<Rightarrow> ctrl_result) \<Rightarrow> (ctrl_result \<times> api_error option) \<times> 'w" where
  "save_policy K x w f =
     (case cl_update_status (kb_policy K) x w of
        (Inl e, w) \<Rightarrow> ((nothing_more, Some e), w)
      | (Inr x, w) \<Rightarrow> ((f x, None), w))"

definition policy_requeue :: "pol_env \<Rightarrow> migration_policy \<Rightarrow> ctrl_result" where
  "policy_requeue env x =
     (if mps_schedule (mp_spec x) = [] then 5 * minute
      else case pe_parse env (mps_schedule (mp_spec x)) of
             Inl e \<Rightarrow> 5 * minute
           | Inr cron \<Rightarrow> (let after = cron (pe_planned env) - pe_finished env in if after < 0 then minute else after))"

definition run_policy :: "pol_env \<Rightarrow> 'w kube \<Rightarrow> migration_policy \<Rightarrow> 'w \<Rightarrow> (ctrl_result \<times> api_error option) \<times> 'w" where
  "run_policy env K x w =
     (let x = x\<lparr>mp_status := (mp_status x)\<lparr>mpt_active := True, mpt_last_evaluation := Some (pe_evaluated env)\<rparr>\<rparr>
      in case evaluate_triggers env K x w of
           (Inl e, w) \<Rightarrow> ((nothing_more, Some e), w)
         | (Inr rs, w) \<Rightarrow>
             (let (x, w) =
                (if \<not> mps_dry_run (mp_spec x) \<and> rs \<noteq> [] then execute_all env K 0 rs x w
                 else if mps_dry_run (mp_spec x)
                      then (x\<lparr>mp_status := (mp_status x)\<lparr>mpt_recommended := clamp_int32 (int (length rs))\<rparr>\<rparr>, w)
                      else (x, w));
                x = x\<lparr>mp_status := (mp_status x)\<lparr>mpt_total := mpt_successful (mp_status x) + mpt_failed (mp_status x)\<rparr>\<rparr>
              in save_policy K x w (policy_requeue env)))"

definition reconcile_policy :: "pol_env \<Rightarrow> 'w kube \<Rightarrow> obj_key \<Rightarrow> 'w \<Rightarrow> (ctrl_result \<times> api_error option) \<times> 'w" where
  "reconcile_policy env K k w =
     (case cl_get (kb_policy K) k w of
        (Inl e, w) \<Rightarrow> ((nothing_more, if ae_reason e = NotFound then None else Some e), w)
      | (Inr x, w) \<Rightarrow>
          if om_deletion (mp_meta x) \<noteq> None then handle_policy_deletion K x w
          else case policy_ensure_finalizer K x w of
                 (Some e, x, w) \<Rightarrow> ((nothing_more, Some e), w)
               | (None, x, w) \<Rightarrow>
                   if \<not> mps_enabled (mp_spec x)
                   then save_policy K (x\<lparr>mp_status := (mp_status x)\<lparr>mpt_active := False\<rparr>\<rparr>) w (\<lambda>x. minute)
                   else run_policy env K x w)"

section \<open>Load balancing\<close>

definition on_node :: "string \<Rightarrow> virtual_machine list \<Rightarrow> virtual_machine list" where
  "on_node n vms = filter (\<lambda>vm. placed vm \<and> vt_node_name (vm_status_of vm) = n) vms"

lemma group_by_node_snoc:
  "group_by_node (vms @ [vm]) = (if placed vm
     then let n = vt_node_name (vm_status_of vm)
          in gm_put n ((case gm_get (group_by_node vms) n of None \<Rightarrow> [] | Some l \<Rightarrow> l) @ [vm]) (group_by_node vms)
     else group_by_node vms)"
  by (simp add: group_by_node_def)

lemma group_by_node_get: "gm_get (group_by_node vms) n = (if on_node n vms = [] then None else Some (on_node n vms))"
proof (induction vms rule: rev_induct)
  case Nil
  then show ?case by (simp add: group_by_node_def on_node_def)
next
  case (snoc vm vms)
  then show ?case by (auto simp: group_by_node_snoc Let_def on_node_def map_ops)
qed

lemma group_by_node_wf [simp]: "gm_wf (group_by_node vms)"
  by (induction vms rule: rev_induct) (simp_all add: group_by_node_snoc Let_def, simp add: group_by_node_def)

lemma group_by_node_set: "(n, l) \<in> set (group_by_node vms) \<longleftrightarrow> l = on_node n vms \<and> l \<noteq> []"
  by (auto simp: gm_in_get group_by_node_get split: if_splits)

lemma extremes_bounds:
  "extremes m (most, least) = (M, L) \<Longrightarrow>
     fst most \<le> fst M \<and> fst L \<le> fst least \<and> (\<forall>(n, l) \<in> set m. fst L \<le> length l \<and> length l \<le> fst M)"
proof (induction m arbitrary: most least)
  case (Cons p m)
  obtain n l where p: "p = (n, l)" by fastforce
  show ?case using Cons.IH [OF Cons.prems [unfolded p extremes.simps]] by (auto simp: p split: if_splits)
qed auto

lemma extremes_reached:
  "extremes m (most, least) = (M, L) \<Longrightarrow>
     (M = most \<or> (\<exists>l. (snd M, l) \<in> set m \<and> length l = fst M)) \<and>
     (L = least \<or> (\<exists>l. (snd L, l) \<in> set m \<and> length l = fst L))"
proof (induction m arbitrary: most least)
  case (Cons p m)
  obtain n l where p: "p = (n, l)" by fastforce
  show ?case using Cons.IH [OF Cons.prems [unfolded p extremes.simps]] by (auto simp: p split: if_splits)
qed auto

text \<open>A \<open>range\<close> loop visits every entry once, in any order.\<close>

definition fair_ranges :: "pol_env \<Rightarrow> bool" where
  "fair_ranges env \<longleftrightarrow> (\<forall>i m. mset (pe_range env i m) = mset m)"

lemma fair_set: "fair_ranges env \<Longrightarrow> set (pe_range env i m) = set m"
  unfolding fair_ranges_def by (metis set_mset_mset)

lemma map_stamped: "(\<And>j r. f (g j r) = h r) \<Longrightarrow> map f (map (\<lambda>(j, r). g j r) (enumerate k rs)) = map h rs"
  by (induction rs arbitrary: k) simp_all

lemma stamp_simps [simp]:
  "length (stamp env i rs) = length rs" "map mrc_vm_name (stamp env i rs) = map mrc_vm_name rs"
  "stamp env i rs = [] \<longleftrightarrow> rs = []"
  by (simp_all add: stamp_def map_stamped del: map_map flip: length_0_conv)

lemma stamp_set: "r \<in> set (stamp env i rs) \<Longrightarrow> \<exists>q t. q \<in> set rs \<and> r = q\<lparr>mrc_start_time := t\<rparr>"
  by (auto simp: stamp_def in_set_enumerate_eq) (metis nth_mem)

lemma stamp_all: "(\<And>r t. r \<in> set rs \<Longrightarrow> P (r\<lparr>mrc_start_time := t\<rparr>)) \<Longrightarrow> r \<in> set (stamp env i rs) \<Longrightarrow> P r"
  using stamp_set by blast

text \<open>
  C31: When a load-balancing trigger proposes migrations they all lead from one fullest node to one
  emptiest node, whose numbers of running machines differ by more than three, and move the first
  machines of the fullest; moving them evens the two nodes out to a difference of at most one.
\<close>

theorem load_balancing_evens_out:
  assumes "fair_ranges env" and "load_balancing env i vms tg x = rs" and "rs \<noteq> []"
  shows "\<exists>a b. (\<forall>r \<in> set rs. mrc_from_node r = a \<and> mrc_to_node r = b \<and> mrc_trigger r = tg_type tg \<and> mrc_status r = ''pending'') \<and>
    map mrc_vm_name rs = map (\<lambda>vm. om_name (vm_meta vm)) (take (length rs) (on_node a vms)) \<and>
    (\<forall>n. on_node n vms \<noteq> [] \<longrightarrow> length (on_node b vms) \<le> length (on_node n vms) \<and>
       length (on_node n vms) \<le> length (on_node a vms)) \<and>
    length (on_node b vms) + 3 < length (on_node a vms) \<and> on_node b vms \<noteq> [] \<and>
    length (on_node b vms) + length rs \<le> length (on_node a vms) - length rs \<and>
    length (on_node a vms) - length rs \<le> length (on_node b vms) + length rs + 1"
proof -
  obtain mx a mn b where e: "extremes (pe_range env i (group_by_node vms)) ((0, []), (999999, [])) = ((mx, a), (mn, b))"
    by (metis surj_pair)
  have g: "set (pe_range env i (group_by_node vms)) = set (group_by_node vms)" by (rule fair_set [OF assms(1)])
  have c: "3 < int mx - int mn" "a \<noteq> []" "b \<noteq> []" using assms(2,3) by (auto simp: load_balancing_def e split: if_splits)
  have ab: "mx = length (on_node a vms)" "mn = length (on_node b vms)" "on_node a vms \<noteq> []" "on_node b vms \<noteq> []"
    using extremes_reached [OF e] c by (auto simp: g group_by_node_set)
  let ?d = "(mx - mn) div 2"
  have rs: "rs = stamp env i (map (\<lambda>vm. proposal tg vm a b
      (''Load balancing: '' @ a @ '' ('' @ dec_nat mx @ '' VMs) -> '' @ b @ '' ('' @ dec_nat mn @ '' VMs)'')) (take ?d (on_node a vms)))"
    using assms(2) c ab by (simp add: load_balancing_def e group_by_node_get)
  have len: "length rs = ?d" unfolding rs using ab(1) by simp
  have "\<forall>r \<in> set rs. mrc_from_node r = a \<and> mrc_to_node r = b \<and> mrc_trigger r = tg_type tg \<and> mrc_status r = ''pending''"
    unfolding rs by (auto simp: proposal_def dest!: stamp_set)
  moreover have "map mrc_vm_name rs = map (\<lambda>vm. om_name (vm_meta vm)) (take (length rs) (on_node a vms))"
    unfolding len by (simp add: rs proposal_def)
  moreover have "mn \<le> length (on_node n vms) \<and> length (on_node n vms) \<le> mx" if "on_node n vms \<noteq> []" for n
    using extremes_bounds [OF e] that group_by_node_set [of n "on_node n vms" vms] by (auto simp: g)
  ultimately show ?thesis using c(1) ab len by (intro exI [of _ a] exI [of _ b]) auto
qed

section \<open>What a policy may do\<close>

lemma evaluated_names:
  assumes "fair_ranges env" and "r \<in> set (evaluate_trigger env i vms x tg)"
  shows "(\<exists>vm \<in> set vms. mrc_vm_name r = om_name (vm_meta vm)) \<and> mrc_trigger r = tg_type tg"
proof -
  let ?P = "\<lambda>r. (\<exists>vm \<in> set vms. mrc_vm_name r = om_name (vm_meta vm)) \<and> mrc_trigger r = tg_type tg"
  have g: "(n, l) \<in> set (pe_range env i (group_by_node vms)) \<Longrightarrow> set l \<subseteq> set vms" for n l
    by (auto simp: fair_set [OF assms(1)] group_by_node_set on_node_def)
  have "r \<in> set (node_pressure env i vms tg x) \<Longrightarrow> ?P r" unfolding node_pressure_def
    by (erule stamp_all [rotated]) (use g in \<open>fastforce simp: proposal_def dest: in_set_takeD split: if_splits\<close>)
  moreover have "r \<in> set (carbon_intensity env i vms tg x) \<Longrightarrow> ?P r" unfolding carbon_intensity_def
    by (erule stamp_all [rotated]) (auto simp: Let_def proposal_def)
  moreover have "r \<in> set (maintenance env i vms tg x) \<Longrightarrow> ?P r" unfolding maintenance_def
    by (erule stamp_all [rotated]) (auto simp: Let_def proposal_def)
  moreover have "r \<in> set (load_balancing env i vms tg x) \<Longrightarrow> ?P r" unfolding load_balancing_def
    by (auto split: prod.splits if_splits option.splits elim!: stamp_all [rotated]
        simp: proposal_def group_by_node_get on_node_def dest!: in_set_takeD) blast
  ultimately show ?thesis using assms(2) by (auto simp: evaluate_trigger_def Let_def split: if_splits)
qed

definition windows_open :: "pol_env \<Rightarrow> migration_policy \<Rightarrow> bool" where
  "windows_open env x \<longleftrightarrow>
     (let c = mps_constraints (mp_spec x); h = pe_hour env (pe_checked env)
      in (mc_allowed_windows c = [] \<or> (\<exists>wd \<in> set (mc_allowed_windows c). in_policy_window h wd)) \<and>
         (\<forall>wd \<in> set (mc_blocked_windows c). \<not> in_policy_window h wd))"

lemma constrained:
  "set (apply_constraints env x rs) \<subseteq> set rs"
  "apply_constraints env x rs \<noteq> [] \<Longrightarrow> windows_open env x"
  "0 < mc_max_concurrent (mps_constraints (mp_spec x)) \<Longrightarrow> mc_max_concurrent (mps_constraints (mp_spec x)) < 2147483647 \<Longrightarrow>
     int (length (apply_constraints env x rs)) \<le> mc_max_concurrent (mps_constraints (mp_spec x))"
  by (auto simp: apply_constraints_def Let_def windows_open_def list_ex_iff clamp_int32_def dest: in_set_takeD split: if_splits)

text \<open>The operations added to a store all have \<open>P\<close>, are at most \<open>n\<close>, and replace none.\<close>

definition new_ops :: "(vm_operation \<Rightarrow> bool) \<Rightarrow> nat \<Rightarrow> vm_operation obj_map \<Rightarrow> vm_operation obj_map \<Rightarrow> bool" where
  "new_ops P n m0 m \<longleftrightarrow> finite {k. m k \<noteq> m0 k} \<and> card {k. m k \<noteq> m0 k} \<le> n \<and>
     (\<forall>k. m k \<noteq> m0 k \<longrightarrow> m0 k = None \<and> (\<exists>y. m k = Some y \<and> P y))"

lemma new_ops_refl [simp]: "new_ops P n m m"
  by (simp add: new_ops_def)

lemma new_ops_mono: "new_ops P n m0 m \<Longrightarrow> n \<le> n' \<Longrightarrow> new_ops P n' m0 m"
  by (auto simp: new_ops_def)

lemma new_ops_create:
  assumes "new_ops P n m0 m" and "m k = None" and "P y"
  shows "new_ops P (Suc n) m0 (m(k \<mapsto> y))"
proof -
  have k: "m0 k = None" using assms(1,2) unfolding new_ops_def by metis
  then have "{k'. (m(k \<mapsto> y)) k' \<noteq> m0 k'} = insert k {k'. m k' \<noteq> m0 k'}" by auto
  moreover have "card (insert k {k'. m k' \<noteq> m0 k'}) \<le> Suc (card {k'. m k' \<noteq> m0 k'})"
    by (rule card_insert_le_m1) simp_all
  ultimately show ?thesis using assms k by (auto simp: new_ops_def)
qed

definition created_op :: "migration_policy \<Rightarrow> migration_record \<Rightarrow> instant \<Rightarrow> instant \<Rightarrow> vm_operation" where
  "created_op x r t c = (migration_op x r t)\<lparr>vo_meta := (vo_meta (migration_op x r t))\<lparr>om_created := c\<rparr>\<rparr>"

lemma migration_op_cong: "mp_meta x = mp_meta y \<Longrightarrow> mp_spec x = mp_spec y \<Longrightarrow> migration_op x r t = migration_op y r t"
  by (simp add: migration_op_def)

lemma created_op_eq:
  "sem_create op_kind c (migration_op x r t) m =
     (case m (key_of op_kind (migration_op x r t)) of Some y \<Rightarrow> (Inl AlreadyExists, m)
      | None \<Rightarrow> (Inr (created_op x r t c), m(key_of op_kind (migration_op x r t) \<mapsto> created_op x r t c)))"
  by (simp add: sem_create_def Let_def created_op_def migration_op_def plain_meta_def split: option.splits)

lemma execute_migration_new:
  assumes "kube_laws reliable view K" and "new_ops P n m0 (os_ops (view w))" and "\<And>t c. P (created_op x r t c)"
    and "execute_migration_op K t r x w = (e, x', w')"
  shows "new_ops P (Suc n) m0 (os_ops (view w')) \<and> os_vms (view w') = os_vms (view w) \<and>
    os_policies (view w') = os_policies (view w) \<and> mp_meta x' = mp_meta x \<and> mp_spec x' = mp_spec x"
proof -
  note L = kube_lawsD(2) [OF assms(1)]
  obtain res w1 where c: "cl_create (kb_op K) (migration_op x r t) w = (res, w1)" by fastforce
  have w: "w' = w1" "mp_meta x' = mp_meta x" "mp_spec x' = mp_spec x"
    using assms(4) c by (auto simp: execute_migration_op_def split: sum.splits)
  have "sem_create op_kind c (migration_op x r t) (os_ops (view w)) = (res', m) \<Longrightarrow> new_ops P (Suc n) m0 m" for c res' m
    using new_ops_mono [OF assms(2), of "Suc n"] new_ops_create [OF assms(2) _ assms(3), of "key_of op_kind (migration_op x r t)"]
    by (auto simp: created_op_eq split: option.splits)
  then have "new_ops P (Suc n) m0 (os_ops (view w1))"
    using call_effects(1) [OF L c] new_ops_mono [OF assms(2)] by (fastforce simp: prod_eq_iff)
  then show ?thesis using w other_kinds_kept(2) [OF L _ c, of os_vms] other_kinds_kept(2) [OF L _ c, of os_policies] by simp
qed

text \<open>An operation a policy with this specification may ask for, of a machine that is there.\<close>

definition may_ask :: "migration_policy \<Rightarrow> virtual_machine obj_map \<Rightarrow> vm_operation \<Rightarrow> bool" where
  "may_ask x vms y \<longleftrightarrow>
     (\<exists>vm k tg t c to. vms k = Some vm \<and> fst k = om_namespace (mp_meta x) \<and> tg \<in> set (mps_triggers (mp_spec x)) \<and>
        y = created_op x \<lparr>mrc_vm_name = om_name (vm_meta vm), mrc_from_node = [], mrc_to_node = to, mrc_trigger = tg_type tg,
          mrc_start_time = 0, mrc_completion_time = None, mrc_status = [], mrc_reason = [], mrc_duration = []\<rparr> t c)"

lemma may_askI:
  assumes "vms k = Some vm" and "fst k = om_namespace (mp_meta x)" and "tg \<in> set (mps_triggers (mp_spec x))"
    and "mrc_vm_name r = om_name (vm_meta vm)" and "mrc_trigger r = tg_type tg"
  shows "may_ask x vms (created_op x r t c)"
  unfolding may_ask_def using assms
  by (intro exI [of _ vm] exI [of _ k] exI [of _ tg] exI [of _ t] exI [of _ c] exI [of _ "mrc_to_node r"])
    (simp add: created_op_def migration_op_def)

lemma execute_all_new:
  assumes "kube_laws reliable view K"
  shows "new_ops P n m0 (os_ops (view w)) \<Longrightarrow> (\<And>r t c. r \<in> set rs \<Longrightarrow> P (created_op x r t c)) \<Longrightarrow>
    execute_all env K j rs x w = (x', w') \<Longrightarrow>
    new_ops P (n + length rs) m0 (os_ops (view w')) \<and> os_vms (view w') = os_vms (view w) \<and>
    os_policies (view w') = os_policies (view w) \<and> mp_meta x' = mp_meta x \<and> mp_spec x' = mp_spec x"
proof (induction rs arbitrary: n j x w)
  case (Cons r rs)
  obtain e x1 w1 where e: "execute_migration_op K (pe_executed env j) r x w = (e, x1, w1)" by (metis surj_pair)
  have one: "new_ops P (Suc n) m0 (os_ops (view w1)) \<and> os_vms (view w1) = os_vms (view w) \<and>
      os_policies (view w1) = os_policies (view w) \<and> mp_meta x1 = mp_meta x \<and> mp_spec x1 = mp_spec x"
    using execute_migration_new [OF assms Cons.prems(1) _ e] Cons.prems(2) by simp
  obtain x2 where x2: "execute_all env K (Suc j) rs x2 w1 = (x', w')" "mp_meta x2 = mp_meta x" "mp_spec x2 = mp_spec x"
    using Cons.prems(3) e one by (cases e) auto
  have "created_op x2 = created_op x" using x2(2,3) by (intro ext) (simp add: created_op_def migration_op_def)
  then have "r' \<in> set rs \<Longrightarrow> P (created_op x2 r' t c)" for r' t c using Cons.prems(2) by simp
  with one Cons.IH [OF _ _ x2(1), of "Suc n"] x2(2,3) show ?case by simp
qed simp

text \<open>Nothing but the status and the finalizers of the policy under \<open>k\<close> has changed so far.\<close>

definition policy_only :: "('w \<Rightarrow> obj_store) \<Rightarrow> obj_key \<Rightarrow> obj_store \<Rightarrow> 'w \<Rightarrow> bool" where
  "policy_only view k s0 w \<longleftrightarrow> os_vms (view w) = os_vms s0 \<and>
     obj_kept policy_kind (\<lambda>x. True) k (os_policies s0) (os_policies (view w))"

lemma policy_only_calls:
  assumes "kube_laws reliable view K" and "policy_only view k s0 w" and "key_of policy_kind x = k"
  shows "cl_update (kb_policy K) x w = (r, w') \<Longrightarrow> policy_only view k s0 w' \<and> os_ops (view w') = os_ops (view w)"
    and "cl_update_status (kb_policy K) x w = (r, w') \<Longrightarrow> policy_only view k s0 w' \<and> os_ops (view w') = os_ops (view w)"
    and "cl_update (kb_policy K) x w = (Inr y, w') \<Longrightarrow> key_of policy_kind y = k \<and> mp_spec y = mp_spec x \<and>
      om_namespace (mp_meta y) = om_namespace (mp_meta x) \<and> om_name (mp_meta y) = om_name (mp_meta x)"
proof -
  note L = kube_lawsD(7) [OF assms(1)]
  have t: "of_status policy_kind (\<lambda>x. True)" by (simp add: of_status_def)
  have o: "obj_kept policy_kind (\<lambda>x. True) k (os_policies s0) (os_policies (view w))" "os_vms (view w) = os_vms s0"
    using assms(2) by (simp_all add: policy_only_def)
  note kept = calls_kept [OF L _ _ t o(1) assms(3)]
  note ops = other_kinds_kept [OF L, where look = os_ops] and vms = other_kinds_kept [OF L, where look = os_vms]
  show "cl_update (kb_policy K) x w = (r, w') \<Longrightarrow> policy_only view k s0 w' \<and> os_ops (view w') = os_ops (view w)"
    using kept(1) ops(3) vms(3) o(2) by (simp add: policy_only_def)
  show "cl_update_status (kb_policy K) x w = (r, w') \<Longrightarrow> policy_only view k s0 w' \<and> os_ops (view w') = os_ops (view w)"
    using kept(3) ops(4) vms(4) o(2) by (simp add: policy_only_def)
  assume "cl_update (kb_policy K) x w = (Inr y, w')"
  then have "fst (sem_update policy_kind x (os_policies (view w))) = Inr y" using answers(1) [OF L] by blast
  then show "key_of policy_kind y = k \<and> mp_spec y = mp_spec x \<and>
      om_namespace (mp_meta y) = om_namespace (mp_meta x) \<and> om_name (mp_meta y) = om_name (mp_meta x)"
    using assms(3) by (auto simp: sem_update_def Let_def key_of_def split: option.splits)
qed

lemma save_policy_keeps:
  assumes "kube_laws reliable view K" and "policy_only view k s0 w" and "key_of policy_kind x = k" and "save_policy K x w f = (res, w')"
  shows "policy_only view k s0 w' \<and> os_ops (view w') = os_ops (view w)"
  using assms(4) policy_only_calls(2) [OF assms(1-3)] by (auto simp: save_policy_def split: prod.splits sum.splits)

lemma evaluated_may_ask:
  assumes "kube_laws reliable view K" and "fair_ranges env" and "evaluate_triggers env K x w = (Inr rs, w')" and "r \<in> set rs"
  shows "may_ask x (os_vms (view w)) (created_op x r t c)"
proof -
  obtain vms where l: "cl_list (kb_vm K) (om_namespace (mp_meta x)) [] w = (Inr vms, w')"
    "rs = apply_constraints env x (concat (map (\<lambda>(i, tg). evaluate_trigger env i vms x tg) (enumerate 0 (mps_triggers (mp_spec x)))))"
    using assms(3) by (auto simp: evaluate_triggers_def proposed_def split: prod.splits sum.splits)
  then obtain i tg where "r \<in> set (evaluate_trigger env i vms x tg)" "(i, tg) \<in> set (enumerate 0 (mps_triggers (mp_spec x)))"
    using assms(4) constrained(1) by fastforce
  moreover from this(2) have "tg \<in> set (mps_triggers (mp_spec x))" by (auto simp: in_set_enumerate_eq)
  ultimately obtain vm where vm: "vm \<in> set vms" "mrc_vm_name r = om_name (vm_meta vm)" "mrc_trigger r = tg_type tg"
      "tg \<in> set (mps_triggers (mp_spec x))"
    using evaluated_names [OF assms(2)] by blast
  then obtain k where "os_vms (view w) k = Some vm" "fst k = om_namespace (mp_meta x)"
    using client_performs(2) [OF kube_lawsD(1) [OF assms(1)] l(1)] by (auto simp: lists_def)
  then show ?thesis using vm(2-4) by (intro may_askI)
qed

definition policy_asks :: "pol_env \<Rightarrow> migration_policy \<Rightarrow> obj_store \<Rightarrow> obj_store \<Rightarrow> bool" where
  "policy_asks env x s s' \<longleftrightarrow>
     (let limit = mc_max_concurrent (mps_constraints (mp_spec x))
      in new_ops (may_ask x (os_vms s)) (card {k. os_ops s' k \<noteq> os_ops s k}) (os_ops s) (os_ops s') \<and>
         (0 < limit \<and> limit < 2147483647 \<longrightarrow> int (card {k. os_ops s' k \<noteq> os_ops s k}) \<le> limit) \<and>
         (os_ops s' \<noteq> os_ops s \<longrightarrow> mps_enabled (mp_spec x) \<and> \<not> mps_dry_run (mp_spec x) \<and> windows_open env x))"

lemma policy_asks_nothing: "os_ops s' = os_ops s \<Longrightarrow> policy_asks env x s s'"
  by (simp add: policy_asks_def)

lemma run_policy_asks:
  assumes "kube_laws reliable view K" and "policy_only view k s0 w" and "key_of policy_kind x = k" and "fair_ranges env"
    and "mps_enabled (mp_spec x)" and "os_ops (view w) = os_ops s0" and "run_policy env K x w = (res, w')"
  shows "policy_only view k s0 w' \<and> policy_asks env x s0 (view w')"
proof -
  let ?x = "x\<lparr>mp_status := (mp_status x)\<lparr>mpt_active := True, mpt_last_evaluation := Some (pe_evaluated env)\<rparr>\<rparr>"
  obtain r w1 where e: "evaluate_triggers env K ?x w = (r, w1)" by fastforce
  have v: "view w1 = view w"
    using e client_performs(2) [OF kube_lawsD(1) [OF assms(1)], of "om_namespace (mp_meta x)" "[]" w]
    by (auto simp: evaluate_triggers_def split: prod.splits sum.splits)
  have q: "policy_only view k s0 w1" using assms(2) v by (simp add: policy_only_def)
  show ?thesis
  proof (cases r)
    case (Inl a)
    then show ?thesis using assms(6,7) e q v by (auto simp: run_policy_def Let_def intro: policy_asks_nothing)
  next
    case (Inr rs)
    let ?run = "\<not> mps_dry_run (mp_spec x) \<and> rs \<noteq> []"
    obtain y w2 where y: "(if ?run then execute_all env K 0 rs ?x w1 else (?x, w1)) = (y, w2)" by fastforce
    have new: "r' \<in> set rs \<Longrightarrow> may_ask x (os_vms s0) (created_op ?x r' t c)" for r' t c
      using evaluated_may_ask [OF assms(1,4) e [unfolded Inr]] assms(2) by (simp add: may_ask_def created_op_def migration_op_def policy_only_def)
    have "new_ops (may_ask x (os_vms s0)) (length rs) (os_ops s0) (os_ops (view w2)) \<and> os_vms (view w2) = os_vms (view w1) \<and>
        os_policies (view w2) = os_policies (view w1) \<and> mp_meta y = mp_meta x \<and> (\<not> ?run \<longrightarrow> os_ops (view w2) = os_ops s0)"
      using execute_all_new [OF assms(1), of "may_ask x (os_vms s0)" 0 "os_ops s0" w1 rs ?x env 0 y w2] new y v assms(6)
      by (auto split: if_splits)
    then have n: "new_ops (may_ask x (os_vms s0)) (length rs) (os_ops s0) (os_ops (view w2))" "policy_only view k s0 w2"
        "key_of policy_kind y = k" "\<not> ?run \<Longrightarrow> os_ops (view w2) = os_ops s0"
      using q assms(3) by (auto simp: policy_only_def key_of_def)
    obtain z where z: "save_policy K z w2 (policy_requeue env) = (res, w')" "mp_meta z = mp_meta y"
      using assms(7) e Inr y by (auto simp: run_policy_def Let_def split: prod.splits if_splits)
    have s: "policy_only view k s0 w'" "os_ops (view w') = os_ops (view w2)"
      using save_policy_keeps [OF assms(1) n(2) _ z(1)] n(3) z(2) by (auto simp: key_of_def)
    obtain rs0 where rs: "rs = apply_constraints env ?x rs0" using e Inr by (auto simp: evaluate_triggers_def proposed_def split: prod.splits sum.splits)
    have "?run" if "os_ops (view w') \<noteq> os_ops s0" using n(4) s(2) that by auto
    moreover have "rs \<noteq> [] \<Longrightarrow> windows_open env x" using constrained(2) [of env ?x rs0] rs by (simp add: windows_open_def)
    moreover have "0 < mc_max_concurrent (mps_constraints (mp_spec x)) \<Longrightarrow> mc_max_concurrent (mps_constraints (mp_spec x)) < 2147483647 \<Longrightarrow>
        int (length rs) \<le> mc_max_concurrent (mps_constraints (mp_spec x))" using constrained(3) [of ?x env rs0] rs by simp
    ultimately show ?thesis using s n(1) assms(5) by (auto simp: policy_asks_def new_ops_def Let_def)
  qed
qed

lemma policy_asks_cong:
  assumes "mp_spec z = mp_spec x" and "om_namespace (mp_meta z) = om_namespace (mp_meta x)"
    and "om_name (mp_meta z) = om_name (mp_meta x)"
  shows "policy_asks env z s s' = policy_asks env x s s'"
proof -
  have "may_ask z v = may_ask x v" for v
    using assms by (intro ext) (simp add: may_ask_def created_op_def migration_op_def)
  then show ?thesis using assms(1) by (simp add: policy_asks_def windows_open_def)
qed

lemma ensured_policy:
  assumes "kube_laws reliable view K" and "policy_only view k s0 w" and "key_of policy_kind x = k"
    and "policy_ensure_finalizer K x w = (e, z, w')"
  shows "policy_only view k s0 w' \<and> os_ops (view w') = os_ops (view w) \<and> key_of policy_kind z = k \<and> mp_spec z = mp_spec x \<and>
    om_namespace (mp_meta z) = om_namespace (mp_meta x) \<and> om_name (mp_meta z) = om_name (mp_meta x)"
proof (cases "migration_policy_finalizer \<in> set (om_finalizers (mp_meta x))")
  case True
  then show ?thesis using assms(2-4) by (simp add: policy_ensure_finalizer_def)
next
  case False
  let ?x = "x\<lparr>mp_meta := add_finalizer migration_policy_finalizer (mp_meta x)\<rparr>"
  have x: "key_of policy_kind ?x = k" using assms(3) by (simp add: key_of_def add_finalizer_def)
  obtain r w1 where u: "cl_update (kb_policy K) ?x w = (r, w1)" by fastforce
  note kept = policy_only_calls(1) [OF assms(1,2) x u]
  show ?thesis
  proof (cases r)
    case (Inl a)
    then show ?thesis using kept u assms(3,4) False by (simp add: policy_ensure_finalizer_def)
  next
    case (Inr y)
    then have "z = y" "w' = w1" using u assms(4) False by (simp_all add: policy_ensure_finalizer_def)
    then show ?thesis using kept policy_only_calls(3) [OF assms(1,2) x u [unfolded Inr]] by (simp add: add_finalizer_def)
  qed
qed

lemma deleted_policy:
  assumes "kube_laws reliable view K" and "policy_only view k s0 w" and "key_of policy_kind x = k"
    and "handle_policy_deletion K x w = (res, w')"
  shows "policy_only view k s0 w' \<and> os_ops (view w') = os_ops (view w)"
  using policy_only_calls(1) [OF assms(1,2), of "x\<lparr>mp_meta := remove_finalizer migration_policy_finalizer (mp_meta x)\<rparr>"] assms(2-4)
  by (auto simp: handle_policy_deletion_def key_of_def remove_finalizer_def split: if_splits prod.splits sum.splits)

lemma reconcile_policy_asks:
  assumes "kube_laws reliable view K" and "keyed policy_kind (os_policies (view w))" and "os_policies (view w) k = Some x"
    and "fair_ranges env" and "reconcile_policy env K k w = (res, w')"
  shows "policy_only view k (view w) w' \<and> policy_asks env x (view w) (view w') \<and>
      (om_deletion (mp_meta x) \<noteq> None \<longrightarrow> os_ops (view w') = os_ops (view w))"
proof -
  obtain r w1 where g: "cl_get (kb_policy K) k w = (r, w1)" by fastforce
  note get = get_stored [OF kube_lawsD(7) [OF assms(1)] g]
  have q: "policy_only view k (view w) w1" "view w1 = view w"
    using get(1) assms(2) by (simp_all add: policy_only_def obj_kept_def)
  have key: "key_of policy_kind x = k" using keyedD [OF assms(2,3)] .
  consider (err) a where "r = Inl a" | (gone) "r = Inr x" "om_deletion (mp_meta x) \<noteq> None" | (live) "r = Inr x" "om_deletion (mp_meta x) = None"
    using get(2) assms(3) by (cases r) auto
  then show ?thesis
  proof cases
    case err
    then show ?thesis using assms(5) g q by (auto simp: reconcile_policy_def intro: policy_asks_nothing)
  next
    case gone
    then have "handle_policy_deletion K x w1 = (res, w')" using assms(5) g by (simp add: reconcile_policy_def)
    then show ?thesis using deleted_policy [OF assms(1) q(1) key] q(2) by (auto intro: policy_asks_nothing)
  next
    case live
    obtain e z w2 where f: "policy_ensure_finalizer K x w1 = (e, z, w2)" by (metis surj_pair)
    note z = ensured_policy [OF assms(1) q(1) key f, unfolded q(2)]
    consider (fail) a where "e = Some a" | (off) "e = None" "\<not> mps_enabled (mp_spec z)" | (on) "e = None" "mps_enabled (mp_spec z)"
      by (cases e) auto
    then show ?thesis
    proof cases
      case fail
      then show ?thesis using assms(5) g live f z by (auto simp: reconcile_policy_def intro: policy_asks_nothing)
    next
      case off
      then have "save_policy K (z\<lparr>mp_status := (mp_status z)\<lparr>mpt_active := False\<rparr>\<rparr>) w2 (\<lambda>x. minute) = (res, w')"
        using assms(5) g live f by (simp add: reconcile_policy_def)
      from save_policy_keeps [OF assms(1) _ _ this, of k "view w"] z
      have "policy_only view k (view w) w'" "os_ops (view w') = os_ops (view w)" by simp_all
      then show ?thesis using live(2) by (simp add: policy_asks_nothing)
    next
      case on
      have "run_policy env K z w2 = (res, w')" using assms(5) g live f on by (simp add: reconcile_policy_def)
      from run_policy_asks [OF assms(1) conjunct1 [OF z] _ assms(4) on(2) _ this] z
      have "policy_only view k (view w) w'" "policy_asks env z (view w) (view w')" by blast+
      then show ?thesis using policy_asks_cong [of z x env] z live(2) by blast
    qed
  qed
qed

text \<open>
  C30: Whatever the API answers, a reconciliation of a policy leaves all machines and all other policies
  as they are and replaces no operation.  What it adds are migrations, from the policy's triggers, of
  machines of its namespace that are there; they are no more than its limit, and there are none
  unless the policy is live, enabled, not in dry-run mode and within its time windows.
\<close>

theorem policies_keep_to_their_limits:
  assumes "kube_laws reliable view K" and "keyed policy_kind (os_policies (view w))" and "os_policies (view w) k = Some x"
    and "fair_ranges env" and "reconcile_policy env K k w = (res, w')"
  shows "policy_asks env x (view w) (view w') \<and> os_vms (view w') = os_vms (view w) \<and>
    (\<forall>k'. k' \<noteq> k \<longrightarrow> os_policies (view w') k' = os_policies (view w) k') \<and>
    (om_deletion (mp_meta x) \<noteq> None \<longrightarrow> os_ops (view w') = os_ops (view w))"
  using reconcile_policy_asks [OF assms] by (simp add: policy_only_def obj_kept_def)

section \<open>A round with a reliable API\<close>

definition mig_key :: "pol_env \<Rightarrow> migration_policy \<Rightarrow> nat \<times> migration_record \<Rightarrow> obj_key" where
  "mig_key env x jr = key_of op_kind (migration_op x (snd jr) (pe_executed env (fst jr)))"

lemma mig_key_cong: "mp_meta x = mp_meta y \<Longrightarrow> mig_key env x = mig_key env y"
  by (intro ext) (simp add: mig_key_def key_of_def migration_op_def)

lemma reliable_execute_migration:
  assumes "kube_laws True view K" and "os_ops (view w) (key_of op_kind (migration_op x r t)) = None"
  shows "\<exists>c w'. execute_migration_op K t r x w =
      (None, x\<lparr>mp_status := (mp_status x)\<lparr>mpt_triggered := mpt_triggered (mp_status x) @ [r],
         mpt_pending := mpt_pending (mp_status x) + 1\<rparr>\<rparr>, w') \<and>
    view w' = (view w)\<lparr>os_ops := (os_ops (view w))(key_of op_kind (migration_op x r t) \<mapsto> created_op x r t c)\<rparr>"
proof -
  have "kd_no_status op_kind (kd_with_meta op_kind ((kd_meta op_kind (migration_op x r t))\<lparr>om_created := c, om_deletion := None\<rparr>)
      (migration_op x r t)) = created_op x r t c" for c
    by (simp add: created_op_def migration_op_def plain_meta_def)
  then show ?thesis using reliable_create [OF kube_lawsD(2) [OF assms(1)] assms(2)]
    by (fastforce simp: execute_migration_op_def)
qed

text \<open>What a round adds to the status.\<close>

definition counted :: "nat \<Rightarrow> migration_record list \<Rightarrow> migration_policy_status \<Rightarrow> migration_policy_status \<Rightarrow> bool" where
  "counted n rs st st' \<longleftrightarrow> mpt_triggered st' = mpt_triggered st @ rs \<and> mpt_pending st' = mpt_pending st + int n \<and>
     mpt_successful st' = mpt_successful st + int n \<and> mpt_failed st' = mpt_failed st \<and>
     mpt_active st' = mpt_active st \<and> mpt_last_evaluation st' = mpt_last_evaluation st"

lemma execute_all_reliable:
  assumes "kube_laws True view K"
  shows "distinct (map (mig_key env x) (enumerate j rs)) \<Longrightarrow>
    (\<forall>jr \<in> set (enumerate j rs). os_ops (view w) (mig_key env x jr) = None) \<Longrightarrow> execute_all env K j rs x w = (x', w') \<Longrightarrow>
    (\<forall>jr \<in> set (enumerate j rs). \<exists>c. os_ops (view w') (mig_key env x jr) =
       Some (created_op x (snd jr) (pe_executed env (fst jr)) c)) \<and>
    (\<forall>k. k \<notin> mig_key env x ` set (enumerate j rs) \<longrightarrow> os_ops (view w') k = os_ops (view w) k) \<and>
    os_vms (view w') = os_vms (view w) \<and> os_snaps (view w') = os_snaps (view w) \<and> os_policies (view w') = os_policies (view w) \<and>
    mp_meta x' = mp_meta x \<and> mp_spec x' = mp_spec x \<and> counted (length rs) rs (mp_status x) (mp_status x')"
proof (induction rs arbitrary: j x w)
  case (Cons r rs)
  have key: "key_of op_kind (migration_op x r (pe_executed env j)) = mig_key env x (j, r)" by (simp add: mig_key_def)
  obtain c w1 x1 where e: "execute_migration_op K (pe_executed env j) r x w = (None, x1, w1)"
    "x1 = x\<lparr>mp_status := (mp_status x)\<lparr>mpt_triggered := mpt_triggered (mp_status x) @ [r], mpt_pending := mpt_pending (mp_status x) + 1\<rparr>\<rparr>"
    "view w1 = (view w)\<lparr>os_ops := (os_ops (view w))(mig_key env x (j, r) \<mapsto> created_op x r (pe_executed env j) c)\<rparr>"
    using reliable_execute_migration [OF assms, of w x r "pe_executed env j"] Cons.prems(2) key by auto
  define x2 where "x2 = x1\<lparr>mp_status := (mp_status x1)\<lparr>mpt_successful := mpt_successful (mp_status x1) + 1,
      mpt_last_migration := Some (pe_migrated env j)\<rparr>\<rparr>"
  have x2: "mp_meta x2 = mp_meta x" "mp_spec x2 = mp_spec x" by (simp_all add: x2_def e(2))
  have same: "mig_key env x2 = mig_key env x" "created_op x2 = created_op x"
    using x2 by (simp_all add: mig_key_cong [of x2 x] fun_eq_iff created_op_def migration_op_def)
  have run: "execute_all env K (Suc j) rs x2 w1 = (x', w')" using Cons.prems(3) e(1) by (simp add: x2_def)
  have d: "distinct (map (mig_key env x) (enumerate (Suc j) rs))" "mig_key env x (j, r) \<notin> mig_key env x ` set (enumerate (Suc j) rs)"
    using Cons.prems(1) by simp_all
  have "\<forall>jr \<in> set (enumerate (Suc j) rs). os_ops (view w1) (mig_key env x jr) = None"
    using Cons.prems(2) d(2) e(3) by (auto simp: image_iff)
  from Cons.IH [of x2 "Suc j" w1, unfolded same, OF d(1) this run]
  show ?case using x2 d(2) e(3) by (auto simp: counted_def x2_def e(2))
qed (simp add: counted_def)

lemma proposed_cong:
  assumes "mp_spec x = mp_spec y"
  shows "proposed env x = proposed env y"
proof -
  have t: "select_target_node n x = select_target_node n y" for n using assms by (simp add: select_target_node_def)
  have "evaluate_trigger env i vms x tg = evaluate_trigger env i vms y tg" for i vms tg
    unfolding evaluate_trigger_def node_pressure_def carbon_intensity_def load_balancing_def maintenance_def t by (rule refl)
  moreover have "apply_constraints env x rs = apply_constraints env y rs" for rs
    using assms by (simp add: apply_constraints_def)
  ultimately show ?thesis by (intro ext) (simp add: proposed_def assms)
qed

text \<open>A policy that reconciliation runs.\<close>

definition live_policy :: "('w \<Rightarrow> obj_store) \<Rightarrow> obj_key \<Rightarrow> migration_policy \<Rightarrow> 'w \<Rightarrow> bool" where
  "live_policy view k x w \<longleftrightarrow> os_policies (view w) k = Some x \<and> key_of policy_kind x = k \<and>
     om_deletion (mp_meta x) = None \<and> migration_policy_finalizer \<in> set (om_finalizers (mp_meta x)) \<and>
     mps_enabled (mp_spec x) \<and> \<not> mps_dry_run (mp_spec x)"

lemma reliable_run_policy:
  assumes "kube_laws True view K" and "live_policy view k x w" and "reconcile_policy env K k w = (res, w')"
  shows "\<exists>vms w1. lists vm_kind (om_namespace (mp_meta x)) [] (os_vms (view w)) vms \<and> view w1 = view w \<and>
    (\<forall>y w2. execute_all env K 0 (proposed env x vms)
       (x\<lparr>mp_status := (mp_status x)\<lparr>mpt_active := True, mpt_last_evaluation := Some (pe_evaluated env)\<rparr>\<rparr>) w1 = (y, w2) \<longrightarrow>
       mp_meta y = mp_meta x \<longrightarrow> os_policies (view w2) = os_policies (view w) \<longrightarrow>
       snd res = None \<and> view w' = (view w2)\<lparr>os_policies := (os_policies (view w))(k \<mapsto> x\<lparr>mp_status := (mp_status y)
         \<lparr>mpt_total := mpt_successful (mp_status y) + mpt_failed (mp_status y)\<rparr>\<rparr>)\<rparr>)"
proof -
  note live = assms(2) [unfolded live_policy_def]
  let ?x = "x\<lparr>mp_status := (mp_status x)\<lparr>mpt_active := True, mpt_last_evaluation := Some (pe_evaluated env)\<rparr>\<rparr>"
  obtain w0 where g: "cl_get (kb_policy K) k w = (Inr x, w0)" "view w0 = view w"
    using reliable_get(1) [OF kube_lawsD(7) [OF assms(1)]] live by blast
  obtain vms w1 where l: "cl_list (kb_vm K) (om_namespace (mp_meta x)) [] w0 = (Inr vms, w1)" "view w1 = view w0"
      "lists vm_kind (om_namespace (mp_meta x)) [] (os_vms (view w0)) vms"
    using reliable_list [OF kube_lawsD(1) [OF assms(1)]] by blast
  have run: "run_policy env K x w0 = (res, w')"
    using assms(3) g(1) live by (simp add: reconcile_policy_def policy_ensure_finalizer_def)
  have "snd res = None \<and> view w' = (view w2)\<lparr>os_policies := (os_policies (view w))(k \<mapsto> x\<lparr>mp_status := (mp_status y)
         \<lparr>mpt_total := mpt_successful (mp_status y) + mpt_failed (mp_status y)\<rparr>\<rparr>)\<rparr>"
    if e: "execute_all env K 0 (proposed env x vms) ?x w1 = (y, w2)" and m: "mp_meta y = mp_meta x"
      "os_policies (view w2) = os_policies (view w)" for y w2
  proof -
    let ?z = "y\<lparr>mp_status := (mp_status y)\<lparr>mpt_total := mpt_successful (mp_status y) + mpt_failed (mp_status y)\<rparr>\<rparr>"
    have "save_policy K ?z w2 (policy_requeue env) = (res, w')"
      using run l(1) live e proposed_cong [of ?x x env]
      by (auto simp: run_policy_def evaluate_triggers_def Let_def split: if_splits)
    moreover have "key_of policy_kind ?z = k" using m(1) live by (simp add: key_of_def)
    moreover obtain w3 where "cl_update_status (kb_policy K) ?z w2 = (Inr (kd_with_status policy_kind x ?z), w3)"
      "view w3 = (view w2)\<lparr>os_policies := (os_policies (view w2))(key_of policy_kind ?z \<mapsto> kd_with_status policy_kind x ?z)\<rparr>"
      using reliable_update_status [OF kube_lawsD(7) [OF assms(1)], of w2 ?z x] m live by (auto simp: key_of_def)
    ultimately show ?thesis using m(2) by (auto simp: save_policy_def)
  qed
  then show ?thesis using l(2,3) g(2) by (intro exI [of _ vms] exI [of _ w1]) simp
qed

text \<open>Every migration is asked for under its key, no other operation is, and each is recorded.\<close>

definition all_asked ::
  "pol_env \<Rightarrow> obj_key \<Rightarrow> migration_policy \<Rightarrow> migration_record list \<Rightarrow> obj_store \<Rightarrow> obj_store \<Rightarrow> bool" where
  "all_asked env k x rs s s' \<longleftrightarrow> os_vms s' = os_vms s \<and> os_snaps s' = os_snaps s \<and>
     (\<forall>jr \<in> set (enumerate 0 rs). \<exists>c. os_ops s' (mig_key env x jr) =
        Some (created_op x (snd jr) (pe_executed env (fst jr)) c)) \<and>
     (\<forall>k'. k' \<notin> mig_key env x ` set (enumerate 0 rs) \<longrightarrow> os_ops s' k' = os_ops s k') \<and>
     (\<exists>st. os_policies s' = (os_policies s)(k \<mapsto> x\<lparr>mp_status := st\<rparr>) \<and>
        mpt_triggered st = mpt_triggered (mp_status x) @ rs \<and> mpt_pending st = mpt_pending (mp_status x) + int (length rs) \<and>
        mpt_successful st = mpt_successful (mp_status x) + int (length rs) \<and> mpt_failed st = mpt_failed (mp_status x) \<and>
        mpt_total st = mpt_successful st + mpt_failed st)"

definition names_free :: "pol_env \<Rightarrow> migration_policy \<Rightarrow> migration_record list \<Rightarrow> obj_store \<Rightarrow> bool" where
  "names_free env x rs s \<longleftrightarrow> distinct (map (mig_key env x) (enumerate 0 rs)) \<and>
     (\<forall>jr \<in> set (enumerate 0 rs). os_ops s (mig_key env x jr) = None)"

lemma live_policy_asks:
  assumes "kube_laws True view K" and "live_policy view k x w" and "reconcile_policy env K k w = (res, w')"
  shows "\<exists>vms. lists vm_kind (om_namespace (mp_meta x)) [] (os_vms (view w)) vms \<and>
    (names_free env x (proposed env x vms) (view w) \<longrightarrow>
     snd res = None \<and> all_asked env k x (proposed env x vms) (view w) (view w'))"
proof -
  let ?x = "x\<lparr>mp_status := (mp_status x)\<lparr>mpt_active := True, mpt_last_evaluation := Some (pe_evaluated env)\<rparr>\<rparr>"
  obtain vms w1 where r: "lists vm_kind (om_namespace (mp_meta x)) [] (os_vms (view w)) vms" "view w1 = view w"
    "\<And>y w2. execute_all env K 0 (proposed env x vms) ?x w1 = (y, w2) \<Longrightarrow> mp_meta y = mp_meta x \<Longrightarrow>
       os_policies (view w2) = os_policies (view w) \<Longrightarrow>
       snd res = None \<and> view w' = (view w2)\<lparr>os_policies := (os_policies (view w))(k \<mapsto> x\<lparr>mp_status := (mp_status y)
         \<lparr>mpt_total := mpt_successful (mp_status y) + mpt_failed (mp_status y)\<rparr>\<rparr>)\<rparr>"
    using reliable_run_policy [OF assms] by blast
  obtain y w2 where e: "execute_all env K 0 (proposed env x vms) ?x w1 = (y, w2)" by fastforce
  have same: "mig_key env ?x = mig_key env x" "created_op ?x = created_op x"
    by (simp_all add: mig_key_cong [of ?x x] fun_eq_iff created_op_def migration_op_def)
  have "snd res = None \<and> all_asked env k x (proposed env x vms) (view w) (view w')"
    if free: "names_free env x (proposed env x vms) (view w)"
  proof -
    note all = execute_all_reliable [OF assms(1) _ _ e, unfolded same r(2), OF free [unfolded names_free_def, THEN conjunct1]
        free [unfolded names_free_def, THEN conjunct2]]
    have v: "snd res = None" "view w' = (view w2)\<lparr>os_policies := (os_policies (view w))(k \<mapsto> x\<lparr>mp_status := (mp_status y)
         \<lparr>mpt_total := mpt_successful (mp_status y) + mpt_failed (mp_status y)\<rparr>\<rparr>)\<rparr>" using r(3) [OF e] all by simp_all
    show ?thesis using all unfolding all_asked_def v
      by (intro conjI exI [of _ "(mp_status y)\<lparr>mpt_total := mpt_successful (mp_status y) + mpt_failed (mp_status y)\<rparr>"])
        (simp_all add: counted_def)
  qed
  then show ?thesis using r(1) by blast
qed

text \<open>
  When the API does what it is asked, a reconciliation of a live policy asks for every migration its
  triggers propose and its constraints leave, if their names are free and differ, adds no other
  operation, records and counts each one as successful and as pending, and changes nothing else.
\<close>

theorem a_policy_asks_for_every_migration:
  assumes "kube_laws True view K" and "live_policy view k x w" and "reconcile_policy env K k w = (res, w')"
  shows "\<exists>vms. lists vm_kind (om_namespace (mp_meta x)) [] (os_vms (view w)) vms \<and>
    (names_free env x (proposed env x vms) (view w) \<longrightarrow>
     snd res = None \<and> all_asked env k x (proposed env x vms) (view w) (view w'))"
  by (rule live_policy_asks [OF assms])

section \<open>A policy\<close>

definition no_limits :: migration_constraints where
  "no_limits = \<lparr>mc_max_concurrent = 0, mc_allowed_windows = [], mc_blocked_windows = [], mc_require_live = True,
     mc_max_per_node = 0, mc_cooldown = [], mc_node_selector = []\<rparr>"

definition drain_policy :: migration_policy where
  "drain_policy = \<lparr>mp_meta = (plain_meta ''drain'' ''prod'' [])\<lparr>om_finalizers := [migration_policy_finalizer]\<rparr>,
     mp_spec = \<lparr>mps_enabled = True,
       mps_triggers = [\<lparr>tg_type = trigger_maintenance, tg_threshold = [], tg_duration = [], tg_priority = 0\<rparr>],
       mps_constraints = no_limits,
       mps_target = \<lparr>ts_strategy = strategy_round_robin, ts_weights = [], ts_filters = [], ts_anti_affinity = None\<rparr>,
       mps_dry_run = False, mps_schedule = []\<rparr>,
     mp_status = no_policy_status\<rparr>"

definition drain_env :: pol_env where
  "drain_env = \<lparr>pe_evaluated = 5, pe_started = (\<lambda>i j. 5), pe_checked = 5, pe_executed = (\<lambda>j. 5), pe_migrated = (\<lambda>j. 5),
     pe_planned = 5, pe_finished = 5, pe_hour = (\<lambda>t. 12), pe_range = (\<lambda>i m. m), pe_carbon = (\<lambda>r. []),
     pe_parse = (\<lambda>s. Inl (own_error []))\<rparr>"

definition vm_on_maint :: virtual_machine where
  "vm_on_maint = set_node ''maint-1'' (set_vm_phase vm_running demo_vm)"

definition drain_key :: obj_key where "drain_key = (''prod'', ''drain'')"

definition drain_world :: kube_sim where
  "drain_world = no_objects\<lparr>ks_vms := [((''prod'', ''web''), vm_on_maint)], ks_policies := [(drain_key, drain_policy)]\<rparr>"

lemma drain_world_simps [simp]:
  "os_vms (sim_view drain_world) = [(''prod'', ''web'') \<mapsto> vm_on_maint]" "os_ops (sim_view drain_world) = Map.empty"
  "os_policies (sim_view drain_world) = [drain_key \<mapsto> drain_policy]"
  by (simp_all add: sim_view_def drain_world_def no_objects_def)

lemma vm_on_maint_simps [simp]:
  "vm_meta vm_on_maint = plain_meta ''web'' ''prod'' []" "vt_node_name (vm_status_of vm_on_maint) = ''maint-1''"
  "vt_phase (vm_status_of vm_on_maint) = vm_running" "key_of vm_kind vm_on_maint = (''prod'', ''web'')"
  by (simp_all add: vm_on_maint_def set_node_def set_vm_phase_def key_of_def plain_meta_def)

lemma drain_live: "live_policy sim_view drain_key drain_policy drain_world"
  by (simp add: live_policy_def drain_policy_def drain_key_def key_of_def plain_meta_def)

lemma drain_fair: "fair_ranges drain_env"
  by (simp add: fair_ranges_def drain_env_def)

lemma drain_lists:
  assumes "lists vm_kind ''prod'' [] [(''prod'', ''web'') \<mapsto> vm_on_maint] vms"
  shows "vms = [vm_on_maint]"
proof -
  have s: "set vms = {vm_on_maint}" "distinct vms" using assms by (auto simp: lists_def has_labels_def split: if_splits)
  then obtain a l where v: "vms = a # l" by (cases vms) auto
  have "a = vm_on_maint" "set l \<subseteq> {vm_on_maint}" using s(1) v by auto
  moreover from this have "set l = {}" using s(2) v by (cases l) auto
  ultimately show ?thesis using v by simp
qed

theorem policies_keep_to_their_limits_witness:
  "policy_asks drain_env drain_policy (sim_view drain_world) (sim_view (snd (reconcile_policy drain_env sim_kube drain_key drain_world)))"
  using policies_keep_to_their_limits [OF sim_kube_laws _ _ drain_fair, of drain_world drain_key drain_policy]
  by (cases "reconcile_policy drain_env sim_kube drain_key drain_world")
    (fastforce simp: keyed_def drain_key_def drain_policy_def key_of_def plain_meta_def)

theorem a_policy_asks_for_every_migration_witness:
  "all_asked drain_env drain_key drain_policy (proposed drain_env drain_policy [vm_on_maint]) (sim_view drain_world)
     (sim_view (snd (reconcile_policy drain_env sim_kube drain_key drain_world)))"
proof -
  obtain res w' where r: "reconcile_policy drain_env sim_kube drain_key drain_world = (res, w')" by fastforce
  have "length (proposed drain_env drain_policy [vm_on_maint]) \<le> 1"
    by (simp add: proposed_def drain_policy_def evaluate_trigger_def trigger_defs maintenance_def
        apply_constraints_def no_limits_def Let_def)
  then have "names_free drain_env drain_policy (proposed drain_env drain_policy [vm_on_maint]) (sim_view drain_world)"
    by (cases "proposed drain_env drain_policy [vm_on_maint]") (simp_all add: names_free_def)
  then show ?thesis
    using a_policy_asks_for_every_migration [OF sim_kube_laws drain_live r] drain_lists r
    by (auto simp: drain_policy_def plain_meta_def)
qed

text \<open>Five machines on one node and one on another: two of the five move.\<close>

definition crowded :: "virtual_machine list" where
  "crowded = map (\<lambda>n. set_node (if n = CHR ''f'' then ''b'' else ''a'') (set_vm_phase vm_running
     (demo_vm\<lparr>vm_meta := plain_meta [n] ''prod'' []\<rparr>))) ''abcdef''"

theorem load_balancing_evens_out_witness:
  "map mrc_vm_name (load_balancing drain_env 0 crowded (hd (mps_triggers (mp_spec drain_policy))) drain_policy) = [''a'', ''b'']"
proof -
  let ?tg = "hd (mps_triggers (mp_spec drain_policy))"
  have on: "on_node n crowded = (if n = ''a'' then take 5 crowded else if n = ''b'' then drop 5 crowded else [])" for n
    by (auto simp: on_node_def crowded_def placed_def set_node_def set_vm_phase_def demo_vm_def vm_running_def)
  have g: "group_by_node crowded = [(''a'', take 5 crowded), (''b'', drop 5 crowded)]"
    by (simp add: Let_def group_by_node_def crowded_def placed_def set_node_def set_vm_phase_def demo_vm_def vm_running_def)
  have l: "length crowded = 6" by (simp add: crowded_def)
  have "load_balancing drain_env 0 crowded ?tg drain_policy \<noteq> []"
    using l by (auto simp: load_balancing_def g drain_env_def)
  from load_balancing_evens_out [OF drain_fair refl this] obtain a b where
    m: "map mrc_vm_name (load_balancing drain_env 0 crowded ?tg drain_policy) = map (\<lambda>vm. om_name (vm_meta vm))
        (take (length (load_balancing drain_env 0 crowded ?tg drain_policy)) (on_node a crowded))"
    "length (on_node b crowded) + 3 < length (on_node a crowded)" "on_node b crowded \<noteq> []"
    "length (on_node b crowded) + length (load_balancing drain_env 0 crowded ?tg drain_policy) \<le>
       length (on_node a crowded) - length (load_balancing drain_env 0 crowded ?tg drain_policy)"
    "length (on_node a crowded) - length (load_balancing drain_env 0 crowded ?tg drain_policy) \<le>
       length (on_node b crowded) + length (load_balancing drain_env 0 crowded ?tg drain_policy) + 1" by blast
  then have "a = ''a''" "b = ''b''" by (auto simp: on l split: if_splits)
  with m(4,5) have "length (load_balancing drain_env 0 crowded ?tg drain_policy) = 2" by (simp add: on l)
  with m(1) show ?thesis by (simp add: on \<open>a = ''a''\<close>) (simp add: crowded_def plain_meta_def set_node_def set_vm_phase_def)
qed

end
