(* ===== verification/Migration_Pipeline.thy ===== *)
theory Migration_Pipeline
  imports Vm_Operation_Effects Migration_Policy
begin

text \<open>
  The controllers of migration policies and of operations together: what a policy asks for is
  carried out by the other controller, which the two share only through the objects of the API.
\<close>

declare split_paired_All [simp del] split_paired_Ex [simp del]

section \<open>A new migration runs and moves its machine\<close>


definition moved :: "string \<Rightarrow> virtual_machine \<Rightarrow> virtual_machine" where
  "moved n vm = set_vm_phase vm_running (set_node n vm)"

lemma moved_simps [simp]: "vt_node_name (vm_status_of (moved n vm)) = n" "vt_phase (vm_status_of (moved n vm)) = vm_running"
  "vm_spec_of (moved n vm) = vm_spec_of vm" "vm_meta (moved n vm) = vm_meta vm"
  by (simp_all add: moved_def set_vm_phase_def set_node_def)




section \<open>Maintenance\<close>











end
