(* ===== verification/File_System.thy ===== *)
theory File_System
  imports Go_Path
begin

text \<open>
  A file system without links, as the calls of package \<open>os\<close> see it: the nodes under the components
  of their absolute paths.  Permissions are recorded and not enforced.
\<close>

type_synonym byte = "8 word"

datatype fs_node = DirNode (node_mode: int) | FileNode (node_mode: int) (node_data: "byte list")

type_synonym fs_key = "string list"
type_synonym fs = "(fs_key, fs_node) gomap"

definition fs_key_of :: "string \<Rightarrow> string \<Rightarrow> fs_key" where
  "fs_key_of cwd p = clean_parts (path_abs cwd p)"

definition is_dir_at :: "fs_key \<Rightarrow> fs \<Rightarrow> bool" where
  "is_dir_at k s \<longleftrightarrow> k = [] \<or> (case gm_get s k of Some (DirNode m) \<Rightarrow> True | _ \<Rightarrow> False)"

datatype fs_error = NotExist | NotADirectory | IsADirectory | OtherFault string

text \<open>\<open>os.MkdirAll\<close>: the directories on the way, from the root down.\<close>

fun make_dirs :: "int \<Rightarrow> fs_key list \<Rightarrow> fs \<Rightarrow> fs_error option \<times> fs" where
  "make_dirs m [] s = (None, s)"
| "make_dirs m (k # ks) s =
     (case gm_get s k of
        Some (DirNode m') \<Rightarrow> make_dirs m ks s
      | Some (FileNode m' d) \<Rightarrow> (Some NotADirectory, s)
      | None \<Rightarrow> make_dirs m ks (gm_put k (DirNode m) s))"

definition mkdir_all :: "int \<Rightarrow> fs_key \<Rightarrow> fs \<Rightarrow> fs_error option \<times> fs" where
  "mkdir_all m k s = make_dirs m (tl (prefixes k)) s"

text \<open>\<open>os.OpenFile\<close> with creation and truncation, before anything is written.\<close>

definition create_file :: "int \<Rightarrow> fs_key \<Rightarrow> fs \<Rightarrow> fs_error option \<times> fs" where
  "create_file m k s =
     (if k = [] then (Some IsADirectory, s)
      else case gm_get s k of
        Some (DirNode m') \<Rightarrow> (Some IsADirectory, s)
      | Some (FileNode m' d) \<Rightarrow> (None, gm_put k (FileNode m' []) s)
      | None \<Rightarrow>
          if is_dir_at (butlast k) s then (None, gm_put k (FileNode m []) s)
          else (Some (if gm_get s (butlast k) = None then NotExist else NotADirectory), s))"

text \<open>Writing to an open file.\<close>

definition write_file :: "fs_key \<Rightarrow> byte list \<Rightarrow> fs \<Rightarrow> fs" where
  "write_file k d s =
     (case gm_get s k of Some (FileNode m d') \<Rightarrow> gm_put k (FileNode m d) s | _ \<Rightarrow> s)"

definition read_file :: "fs_key \<Rightarrow> fs \<Rightarrow> fs_error + byte list" where
  "read_file k s =
     (case gm_get s k of
        None \<Rightarrow> Inl (if k = [] then IsADirectory else NotExist)
      | Some (DirNode m) \<Rightarrow> Inl IsADirectory
      | Some (FileNode m d) \<Rightarrow> Inr d)"

text \<open>\<open>os.Remove\<close> of a file, or of an empty directory.\<close>

definition remove_node :: "fs_key \<Rightarrow> fs \<Rightarrow> fs_error option \<times> fs" where
  "remove_node k s =
     (case gm_get s k of
        None \<Rightarrow> (Some NotExist, s)
      | Some (FileNode m d) \<Rightarrow> (None, gm_del k s)
      | Some (DirNode m) \<Rightarrow>
          if list_ex (\<lambda>(k', n). strict_prefix k k') s then (Some (OtherFault ''directory not empty''), s)
          else (None, gm_del k s))"

section \<open>What the calls change\<close>

lemma make_dirs_only:
  "make_dirs m ks s = (e, s') \<Longrightarrow> gm_get s' k \<noteq> gm_get s k \<Longrightarrow> k \<in> set ks \<and> gm_get s k = None \<and> gm_get s' k = Some (DirNode m)"
proof (induction ks arbitrary: s)
  case (Cons j ks)
  show ?case
  proof (cases "gm_get s j")
    case None
    then have r: "make_dirs m ks (gm_put j (DirNode m) s) = (e, s')" using Cons.prems(1) by simp
    show ?thesis
    proof (cases "gm_get s' k = gm_get (gm_put j (DirNode m) s) k")
      case True
      then show ?thesis using Cons.prems(2) None by (cases "k = j") auto
    next
      case False
      then show ?thesis using Cons.IH [OF r False] by (cases "k = j") auto
    qed
  next
    case (Some n)
    then show ?thesis using Cons.IH [of s] Cons.prems by (cases n) auto
  qed
qed simp

lemma proper_prefixes: "set (tl (prefixes k)) = {j. prefix j k \<and> j \<noteq> []}"
  by (cases k) (auto simp: prefix_Cons image_iff)

lemma mkdir_all_only:
  assumes "mkdir_all m k s = (e, s')" and "gm_get s' j \<noteq> gm_get s j"
  shows "prefix j k \<and> j \<noteq> [] \<and> gm_get s j = None \<and> gm_get s' j = Some (DirNode m)"
proof -
  have "j \<in> set (tl (prefixes k))" "gm_get s j = None" "gm_get s' j = Some (DirNode m)"
    using make_dirs_only [OF assms(1) [unfolded mkdir_all_def] assms(2)] by blast+
  then show ?thesis unfolding proper_prefixes by blast
qed

lemma make_dirs_done:
  "make_dirs m ks s = (None, s') \<Longrightarrow> k \<in> set ks \<Longrightarrow> \<exists>m'. gm_get s' k = Some (DirNode m')"
proof (induction ks arbitrary: s)
  case (Cons j ks)
  have "\<exists>t m1. make_dirs m ks t = (None, s') \<and> gm_get t j = Some (DirNode m1)"
  proof (cases "gm_get s j")
    case None
    then have "make_dirs m ks (gm_put j (DirNode m) s) = (None, s')" using Cons.prems(1) by simp
    moreover have "gm_get (gm_put j (DirNode m) s) j = Some (DirNode m)" by (rule gm_get_put_same)
    ultimately show ?thesis by blast
  next
    case (Some n)
    then show ?thesis using Cons.prems(1) by (cases n) auto
  qed
  then obtain t m1 where r: "make_dirs m ks t = (None, s')" "gm_get t j = Some (DirNode m1)" by blast
  show ?case
  proof (cases "k \<in> set ks")
    case True
    then show ?thesis using Cons.IH [OF r(1)] by blast
  next
    case False
    then have "k = j" using Cons.prems(2) by simp
    then show ?thesis using make_dirs_only [OF r(1), of j] r(2) by (cases "gm_get s' j = gm_get t j") auto
  qed
qed simp

lemma mkdir_all_done: "mkdir_all m k s = (None, s') \<Longrightarrow> prefix j k \<Longrightarrow> is_dir_at j s'"
proof -
  assume a: "mkdir_all m k s = (None, s')" "prefix j k"
  from a(2) have "j = [] \<or> j \<in> set (tl (prefixes k))" unfolding proper_prefixes by blast
  then show ?thesis using make_dirs_done [OF a(1) [unfolded mkdir_all_def], of j] by (auto simp: is_dir_at_def)
qed

lemma create_file_only: "create_file m k s = (e, s') \<Longrightarrow> gm_get s' j \<noteq> gm_get s j \<Longrightarrow> j = k"
  by (auto simp: create_file_def map_ops split: if_splits option.splits fs_node.splits)

lemma write_file_only: "gm_get (write_file k d s) j \<noteq> gm_get s j \<Longrightarrow> j = k"
  by (auto simp: write_file_def map_ops split: if_splits option.splits fs_node.splits)

lemma create_then_write:
  assumes "create_file m k s = (None, s')"
  shows "\<exists>m'. gm_get (write_file k d s') k = Some (FileNode m' d)"
  using assms by (auto simp: create_file_def write_file_def map_ops split: if_splits option.splits fs_node.splits)

section \<open>Keys of paths\<close>

lemma fs_key_abs: "is_abs p \<Longrightarrow> fs_key_of cwd p = clean_parts p"
  by (simp add: fs_key_of_def path_abs_def path_clean_def clean_render_rooted clean_parts_rooted)

lemma fs_key_rel:
  assumes "is_abs cwd" and "\<not> is_abs p"
  shows "fs_key_of cwd p = rev (clean_stack True (split_slash p) (rev (clean_parts cwd)))"
proof -
  have a: "is_abs (cwd @ slash # p)" "cwd \<noteq> []" using assms(1) by (cases cwd; simp add: is_abs_def)+
  have "fs_key_of cwd p = clean_parts (cwd @ slash # p)"
    using assms(2) a clean_parts_rooted [OF a(1)]
    by (simp add: fs_key_of_def path_abs_def path_join_def path_clean_def clean_render_rooted)
  also have "\<dots> = rev (clean_stack True (split_slash p) (clean_stack True (split_slash cwd) []))"
    using a(1) by (simp add: clean_parts_def split_slash_append clean_stack_append)
  finally show ?thesis using assms(1) by (simp add: clean_parts_def)
qed

lemma fs_key_normal: "is_abs cwd \<Longrightarrow> \<forall>c \<in> set (fs_key_of cwd p). normal c"
  using path_abs_rooted [of cwd p] by (auto simp: fs_key_of_def clean_render_rooted)

lemma is_abs_clean [simp]: "is_abs (path_clean p) \<longleftrightarrow> is_abs p"
proof (cases "is_abs p")
  case False
  have c: "c \<noteq> [] \<and> slash \<notin> set c" if "c \<in> set (clean_parts p)" for c
    using that clean_parts_no_slash [OF that] clean_stack_nonempty [of "[]" False "split_slash p"] False
    by (auto simp: clean_parts_def)
  have "\<not> is_abs (join_slash (clean_parts p))" if ne: "clean_parts p \<noteq> []"
  proof -
    obtain w ws where w: "clean_parts p = w # ws" using ne by (cases "clean_parts p") auto
    then obtain x xs where "w = x # xs" "x \<noteq> slash" using c [of w] by (cases w) auto
    then show ?thesis using w by (cases ws) (simp_all add: is_abs_def)
  qed
  then show ?thesis using False by (auto simp: path_clean_def render_path_def) (simp add: is_abs_def)
qed (simp add: path_clean_def is_abs_render)

text \<open>Cleaning a path does not change what it names.\<close>

lemma fs_key_clean:
  assumes "is_abs cwd"
  shows "fs_key_of cwd (path_clean p) = fs_key_of cwd p"
proof (cases "is_abs p")
  case True
  then show ?thesis by (simp add: fs_key_abs path_clean_def clean_render_rooted clean_parts_rooted is_abs_render)
next
  case False
  have s: "clean_stack True (split_slash (path_clean p)) rt = clean_stack True (split_slash p) rt" for rt
  proof -
    have "clean_stack True (split_slash (path_clean p)) rt = clean_stack True (clean_parts p) rt"
      using clean_parts_no_slash [of _ p] False
      by (cases "clean_parts p") (simp_all add: path_clean_def render_path_def split_join clean_stack_def clean_step_def)
    also have "\<dots> = clean_stack True (split_slash p) rt"
      using clean_stack_behind [of "[]" "split_slash p" rt] split_slash_no_slash [of _ p] False
      by (simp add: clean_parts_def unrooted_stack_def)
    finally show ?thesis .
  qed
  show ?thesis using False assms by (simp add: fs_key_rel s)
qed

lemma fs_key_join:
  assumes "is_abs cwd" and "d \<noteq> []"
  shows "fs_key_of cwd (path_join d n) = rev (clean_stack True (split_slash n) (rev (fs_key_of cwd d)))"
proof -
  have a: "is_abs (d @ slash # n) = is_abs d" using assms(2) by (cases d) (simp_all add: is_abs_def)
  have "fs_key_of cwd (path_join d n) = fs_key_of cwd (d @ slash # n)" using assms by (simp add: path_join_def fs_key_clean)
  also have "\<dots> = rev (clean_stack True (split_slash n) (rev (fs_key_of cwd d)))"
  proof (cases "is_abs d")
    case True
    then show ?thesis using a by (simp add: fs_key_abs clean_parts_def split_slash_append clean_stack_append)
  next
    case False
    then show ?thesis using a assms(1) by (simp add: fs_key_rel split_slash_append clean_stack_append)
  qed
  finally show ?thesis .
qed

lemma fs_key_in_dir:
  assumes "is_abs cwd" and "normal n"
  shows "fs_key_of cwd (path_join d n) = fs_key_of cwd (if d = [] then ''.'' else d) @ [n]"
proof (cases "d = []")
  case True
  have n: "n \<noteq> []" "\<not> is_abs n" "split_slash n = [n]"
    using assms(2) by (auto simp: normal_def is_abs_def split_slash_plain split: list.splits)
  have "\<not> is_abs ''.''" "split_slash ''.'' = [''.'']" by (simp_all add: is_abs_def)
  moreover have "fs_key_of cwd (path_join d n) = fs_key_of cwd n" using True n(1) assms(1) by (simp add: path_join_def fs_key_clean)
  ultimately show ?thesis using True n assms
    by (simp add: fs_key_rel clean_stack_def clean_step_normal) (simp add: clean_step_def)
next
  case False
  have "split_slash n = [n]" using assms(2) by (simp add: normal_def split_slash_plain)
  then show ?thesis using fs_key_join [OF assms(1) False] False assms(2)
    by (simp add: clean_stack_def clean_step_normal)
qed

text \<open>The parent directory, and what a prefix of a cleaned absolute path means for the components.\<close>

lemma render_snoc: "render_path True (U @ [t]) = render_path True U @ (if U = [] then t else slash # t)"
  using join_append [of U "[t]"] by (cases "U = []") (simp_all add: render_path_def)

lemma fs_key_dir:
  assumes "\<forall>c \<in> set T. normal c"
  shows "fs_key_of cwd (path_dir (render_path True T)) = butlast T"
proof (cases T rule: rev_cases)
  case Nil
  then show ?thesis
    by (simp add: path_dir_def render_path_def path_clean_def is_abs_def clean_parts_def clean_stack_def clean_step_def
        fs_key_of_def path_abs_def)
next
  case (snoc U t)
  have t: "slash \<notin> set t" "\<forall>c \<in> set U. normal c" using assms snoc by (auto simp: normal_def)
  have upto: "rev (dropWhile (\<lambda>c. c \<noteq> slash) (rev (x @ slash # t))) = x @ [slash]" for x
    using t(1) by (simp add: dropWhile_append)
  have q: "rev (dropWhile (\<lambda>c. c \<noteq> slash) (rev (render_path True T))) = (if U = [] then [slash] else render_path True U @ [slash])"
    using upto [of "[]"] upto [of "render_path True U"] by (simp add: snoc render_snoc) (simp add: render_path_def)
  have "clean_parts (render_path True U @ [slash]) = U"
  proof -
    have "is_abs (render_path True U @ [slash])" by (simp add: render_path_def is_abs_def)
    moreover have "split_slash (render_path True U @ [slash]) = split_slash (render_path True U) @ [[]]"
      using split_slash_append [of "render_path True U" "[]"] by simp
    ultimately have "clean_parts (render_path True U @ [slash]) = clean_parts (render_path True U)"
      by (simp add: clean_parts_def clean_stack_append is_abs_render)
    then show ?thesis using clean_render_rooted [OF t(2)] by simp
  qed
  moreover have "clean_parts [slash] = []" by (simp add: clean_parts_def is_abs_def clean_stack_def clean_step_def)
  moreover define q where "q = (if U = [] then [slash] else render_path True U @ [slash])"
  ultimately have "clean_parts q = U" "is_abs q" by (simp_all add: is_abs_def render_path_def)
  moreover have "path_dir (render_path True T) = path_clean q" by (simp add: path_dir_def q q_def)
  ultimately show ?thesis using snoc t(2) by (simp add: fs_key_abs path_clean_def clean_render_rooted is_abs_render)
qed

lemma prefix_of_render:
  assumes "\<forall>c \<in> set A. normal c" and "\<forall>c \<in> set T. normal c" and "prefix (render_path True A @ [slash]) (render_path True T)"
  shows "strict_prefix A T \<and> A \<noteq> []"
proof -
  obtain r where r: "render_path True T = render_path True A @ slash # r" using assms(3) by (auto simp: prefix_def)
  have ns: "\<forall>c \<in> set A. slash \<notin> set c" "\<forall>c \<in> set T. slash \<notin> set c" using assms(1,2) by (simp_all add: normal_def)
  have "split_slash (render_path True T) = split_slash (render_path True A) @ split_slash r" by (simp add: r split_slash_append)
  then have e: "[] # (if T = [] then [[]] else T) = ([] # (if A = [] then [[]] else A)) @ split_slash r"
    using split_render_rooted [OF ns(1)] split_render_rooted [OF ns(2)] by simp
  obtain q qs where q: "split_slash r = q # qs" by (cases "split_slash r") simp_all
  have e': "(if T = [] then [[]] else T) = (if A = [] then [[]] else A) @ q # qs"
    using e q by (simp only: append_Cons list.inject simp_thms)
  have "A \<noteq> []"
  proof
    assume "A = []"
    then have h: "(if T = [] then [[]] else T) = [] # q # qs" using e' by simp
    show False
    proof (cases T)
      case Nil
      then show False using h by simp
    next
      case (Cons t ts)
      then show False using h assms(2) by (simp add: normal_def)
    qed
  qed
  moreover have "T = A @ q # qs"
  proof (cases T)
    case Nil
    then show ?thesis using e' \<open>A \<noteq> []\<close> by (cases A) simp_all
  next
    case (Cons t ts)
    then show ?thesis using e' \<open>A \<noteq> []\<close> by simp
  qed
  ultimately show ?thesis by (simp add: strict_prefix_def)
qed

end
