(* ===== verification/Daemon_Backup.thy ===== *)
theory Daemon_Backup
  imports File_System Exchange_Sort "HOL-Library.Char_ord" "HOL-Library.List_Lexorder"
begin

text \<open>
  \<open>daemon/backup/backup.go\<close>: archives of a directory with their metadata, restoring them, and the
  retention.  Parameters: tar, gzip, SHA-256 and JSON (\<open>backup_lib\<close>), what the walk over the source
  finds and which calls of the system fail during a backup (\<open>backup_run\<close>).  The mutex of the manager
  is not reentrant; a method that would wait for ever \<open>Blocks\<close>.
\<close>

unbundle bit_operations_syntax

section \<open>Data\<close>

datatype backup_error =
    BackupNotFound | InvalidBackup | RestoreInProgress
  | Cancelled
  | Escapes string
  | BadMode string int
  | BadSize string int
  | SystemError string
  | FsError fs_error

type_synonym backup_type = string

definition backup_type_full :: backup_type where "backup_type_full = ''full''"
definition backup_type_incremental :: backup_type where "backup_type_incremental = ''incremental''"

type_synonym backup_status = string

definition backup_running :: backup_status where "backup_running = ''running''"
definition backup_completed :: backup_status where "backup_completed = ''completed''"
definition backup_failed :: backup_status where "backup_failed = ''failed''"

lemmas backup_status_defs = backup_running_def backup_completed_def backup_failed_def

record backup_metadata =
  bm_id :: string
  bm_type :: backup_type
  bm_status :: backup_status
  bm_start :: instant
  bm_end :: instant
  bm_size :: int
  bm_checksum :: string
  bm_source :: string
  bm_path :: string
  bm_files :: "string list"
  bm_base :: string
  bm_encrypted :: bool
  bm_compressed :: bool
  bm_version :: string
  bm_error :: "backup_error option"

record backup_config =
  bc_dir :: string
  bc_compression :: bool
  bc_encryption :: bool
  bc_key :: "byte list"
  bc_max :: int
  bc_days :: int
  bc_buffer :: int
  bc_workers :: int
  bc_checksum_type :: string
  bc_auto :: bool
  bc_interval :: duration
  bc_auto_source :: string
  bc_auto_type :: backup_type

definition default_backup_config :: backup_config where
  "default_backup_config =
     \<lparr>bc_dir = ''./backups'', bc_compression = True, bc_encryption = False, bc_key = [], bc_max = 10, bc_days = 30,
      bc_buffer = 32 * 1024, bc_workers = 4, bc_checksum_type = ''sha256'', bc_auto = False, bc_interval = 24 * hour,
      bc_auto_source = [], bc_auto_type = backup_type_full\<rparr>"

section \<open>Archives\<close>

datatype tar_type = TarDir | TarReg | TarOther

record tar_entry =
  te_name :: string
  te_type :: tar_type
  te_mode :: int
  te_size :: int
  te_data :: "byte list"

text \<open>
  The libraries: writing a list of entries, plain or compressed, and reading it again, which ends
  after some entries with or without an error; opening the compressed stream may fail at once.
\<close>

record backup_lib =
  bl_cwd :: string
  bl_umask :: int
  bl_pack :: "bool \<Rightarrow> tar_entry list \<Rightarrow> byte list"
  bl_unpack :: "bool \<Rightarrow> byte list \<Rightarrow> string + tar_entry list \<times> string option"
  bl_sha :: "byte list \<Rightarrow> string"
  bl_json :: "backup_metadata \<Rightarrow> byte list"
  bl_unjson :: "byte list \<Rightarrow> backup_metadata option"

text \<open>
  The mode a new file or directory gets for a mode asked for: \<open>os.FileMode\<close> of the number in the
  archive keeps no bit above the permissions where \<open>os\<close> looks for set-user-id, set-group-id and
  sticky, and the system takes the bits of the file mode creation mask away.
\<close>

definition created_mode :: "backup_lib \<Rightarrow> int \<Rightarrow> int" where
  "created_mode L m = m AND 511 AND NOT (bl_umask L)"

text \<open>One call of the function given to \<open>fs.WalkDir\<close>, with what its calls return.\<close>

datatype walk_kind = WalkDir | WalkReg | WalkSocket | WalkOther

record walk_item =
  wi_name :: string
  wi_kind :: walk_kind
  wi_mode :: int
  wi_size :: int
  wi_data :: "byte list"
  wi_walk_error :: "string option"
  wi_cancelled :: bool
  wi_info_error :: "string option"
  wi_open_error :: "string option"
  wi_copy_error :: "string option"

fun tar_type_of :: "walk_kind \<Rightarrow> tar_type" where
  "tar_type_of WalkDir = TarDir"
| "tar_type_of WalkReg = TarReg"
| "tar_type_of k = TarOther"

definition header_of :: "walk_item \<Rightarrow> tar_entry" where
  "header_of i = \<lparr>te_name = wi_name i, te_type = tar_type_of (wi_kind i), te_mode = wi_mode i,
     te_size = (if wi_kind i = WalkReg then wi_size i else 0), te_data = []\<rparr>"

text \<open>
  The walk, with the entries written, the files recorded, and whether the last entry is shorter
  than its header says, which the next use of the writer reports.
\<close>

fun walk_source ::
  "walk_item list \<Rightarrow> bool \<Rightarrow> tar_entry list \<Rightarrow> string list \<Rightarrow> backup_error option \<times> bool \<times> tar_entry list \<times> string list" where
  "walk_source [] short es files = (None, short, es, files)"
| "walk_source (i # is) short es files =
     (case wi_walk_error i of
        Some e \<Rightarrow> (Some (SystemError e), short, es, files)
      | None \<Rightarrow>
     (if wi_cancelled i then (Some Cancelled, short, es, files)
      else case wi_info_error i of
        Some e \<Rightarrow> (Some (SystemError e), short, es, files)
      | None \<Rightarrow>
     (if wi_kind i = WalkSocket then (Some (SystemError ''archive/tar: sockets not supported''), short, es, files)
      else if short then (Some (SystemError ''archive/tar: missed writing''), short, es, files)
      else if wi_kind i \<noteq> WalkReg then walk_source is False (es @ [header_of i]) files
      else case wi_open_error i of
        Some e \<Rightarrow> (Some (SystemError e), short, es @ [header_of i], files)
      | None \<Rightarrow>
     (case wi_copy_error i of
        Some e \<Rightarrow> (Some (SystemError e), short, es @ [header_of i], files)
      | None \<Rightarrow>
     (if wi_size i < int (length (wi_data i)) then (Some (SystemError ''archive/tar: write too long''), short, es @ [header_of i], files)
      else walk_source is (int (length (wi_data i)) < wi_size i)
             (es @ [header_of i\<lparr>te_data := wi_data i\<rparr>]) (files @ [wi_name i]))))))"

section \<open>The manager\<close>

text \<open>\<open>bk_held\<close>: the mutex is held by a goroutine that waits for it itself.\<close>

record backup_manager =
  bk_config :: backup_config
  bk_backups :: "(string, backup_metadata) gomap"
  bk_restoring :: bool
  bk_held :: bool
  bk_stopped :: bool

datatype 'a answer = Answers 'a | Blocks

definition backup_key :: "backup_lib \<Rightarrow> string \<Rightarrow> fs_key" where
  "backup_key L p = fs_key_of (bl_cwd L) p"

text \<open>What the system does during one backup, with the readings of the clock.\<close>

record backup_run =
  br_unix :: int
  br_start :: instant
  br_end :: instant
  br_create :: "string option"
  br_root :: "string option"
  br_walk :: "walk_item list"
  br_partial :: "byte list"
  br_tar_close :: "string option"
  br_gzip_close :: "string option"
  br_close :: "string option"
  br_stat :: "string option"
  br_open :: "string option"
  br_read :: "string option"
  br_save :: "string option"

definition generate_backup_id :: "int \<Rightarrow> string" where
  "generate_backup_id t = ''backup-'' @ dec_int t"

text \<open>The first of several calls that failed, if one did.\<close>

definition first_error :: "string option list \<Rightarrow> backup_error option" where
  "first_error es = (case filter (\<lambda>e. e \<noteq> None) es of [] \<Rightarrow> None | e # es' \<Rightarrow> map_option SystemError e)"

definition perform_backup ::
  "backup_lib \<Rightarrow> backup_run \<Rightarrow> backup_config \<Rightarrow> backup_metadata \<Rightarrow> fs \<Rightarrow> backup_error option \<times> backup_metadata \<times> fs" where
  "perform_backup L run c md s =
     (case br_create run of
        Some e \<Rightarrow> (Some (SystemError e), md, s)
      | None \<Rightarrow>
     (case create_file (created_mode L 438) (backup_key L (bm_path md)) s of
        (Some e, s) \<Rightarrow> (Some (FsError e), md, s)
      | (None, s) \<Rightarrow>
     (case br_root run of
        Some e \<Rightarrow> (Some (SystemError e), md, s)
      | None \<Rightarrow>
     (case walk_source (br_walk run) False [] (bm_files md) of
        (Some e, short, es, files) \<Rightarrow>
          (Some e, md\<lparr>bm_files := files\<rparr>, write_file (backup_key L (bm_path md)) (br_partial run) s)
      | (None, short, es, files) \<Rightarrow>
          (let md = md\<lparr>bm_files := files\<rparr>; data = bl_pack L (bc_compression c) es
           in case first_error [if short then Some ''archive/tar: missed writing'' else br_tar_close run,
                     if bc_compression c then br_gzip_close run else None, br_close run] of
                Some e \<Rightarrow> (Some e, md, write_file (backup_key L (bm_path md)) (br_partial run) s)
              | None \<Rightarrow>
                  (let s = write_file (backup_key L (bm_path md)) data s
                   in case br_stat run of
                        Some e \<Rightarrow> (Some (SystemError e), md, s)
                      | None \<Rightarrow>
                          (let md = md\<lparr>bm_size := int (length data)\<rparr>
                           in case first_error [br_open run, br_read run] of
                                Some e \<Rightarrow> (Some e, md, s)
                              | None \<Rightarrow> (None, md\<lparr>bm_checksum := bl_sha L data\<rparr>, s))))))))"

definition metadata_path :: "backup_config \<Rightarrow> string \<Rightarrow> string" where
  "metadata_path c i = path_join (bc_dir c) (i @ ''.json'')"

definition save_metadata ::
  "backup_lib \<Rightarrow> string option \<Rightarrow> backup_config \<Rightarrow> backup_metadata \<Rightarrow> fs \<Rightarrow> backup_error option \<times> fs" where
  "save_metadata L err c md s =
     (case err of
        Some e \<Rightarrow> (Some (SystemError e), s)
      | None \<Rightarrow>
          (case create_file (created_mode L 384) (backup_key L (metadata_path c (bm_id md))) s of
             (Some e, s) \<Rightarrow> (Some (FsError e), s)
           | (None, s) \<Rightarrow> (None, write_file (backup_key L (metadata_path c (bm_id md))) (bl_json L md) s)))"

definition new_backup :: "backup_run \<Rightarrow> backup_config \<Rightarrow> string \<Rightarrow> backup_type \<Rightarrow> backup_metadata" where
  "new_backup run c src ty =
     (let i = generate_backup_id (br_unix run)
      in \<lparr>bm_id = i, bm_type = ty, bm_status = backup_running, bm_start = br_start run, bm_end = 0, bm_size = 0,
          bm_checksum = [], bm_source = src, bm_path = path_join (bc_dir c) (i @ ''.tar.gz''), bm_files = [],
          bm_base = [], bm_encrypted = bc_encryption c, bm_compressed = bc_compression c, bm_version = ''1.0'',
          bm_error = None\<rparr>)"

definition finish_backup ::
  "backup_lib \<Rightarrow> backup_run \<Rightarrow> backup_metadata \<Rightarrow> backup_manager \<Rightarrow> fs \<Rightarrow>
   (backup_metadata \<times> backup_error option) \<times> backup_manager \<times> fs" where
  "finish_backup L run md m s =
     (let keep = (\<lambda>md. m\<lparr>bk_backups := gm_put (bm_id md) md (bk_backups m)\<rparr>)
      in case perform_backup L run (bk_config m) md s of
           (Some e, md, s) \<Rightarrow>
             (let md = md\<lparr>bm_status := backup_failed, bm_error := Some e, bm_end := br_end run\<rparr> in ((md, Some e), keep md, s))
         | (None, md, s) \<Rightarrow>
             (let md = md\<lparr>bm_status := backup_completed, bm_end := br_end run\<rparr>
              in case save_metadata L (br_save run) (bk_config m) md s of (e, s) \<Rightarrow> ((md, e), keep md, s)))"

text \<open>\<open>CreateBackup\<close>; the retention that follows a success is a goroutine of its own.\<close>

definition create_backup ::
  "backup_lib \<Rightarrow> backup_run \<Rightarrow> string \<Rightarrow> backup_type \<Rightarrow> backup_manager \<Rightarrow> fs \<Rightarrow>
   (backup_metadata \<times> backup_error option) answer \<times> backup_manager \<times> fs" where
  "create_backup L run src ty m s =
     (if bk_held m then (Blocks, m, s)
      else let md = new_backup run (bk_config m) src ty;
               m = m\<lparr>bk_backups := gm_put (bm_id md) md (bk_backups m)\<rparr>
           in apfst Answers (finish_backup L run md m s))"

section \<open>Restoring\<close>

text \<open>What \<open>io.CopyN\<close> delivers of an entry: as much as the header says, or what there is of it.\<close>

definition restore_entry :: "backup_lib \<Rightarrow> string \<Rightarrow> tar_entry \<Rightarrow> fs \<Rightarrow> backup_error option \<times> fs" where
  "restore_entry L target e s =
     (let clean = path_clean target; path = path_join clean (te_name e); k = backup_key L path
      in if path \<noteq> clean \<and> \<not> prefix (clean @ [slash]) path then (Some (Escapes (te_name e)), s)
         else if te_mode e < 0 \<or> 4095 < te_mode e then (Some (BadMode (te_name e) (te_mode e)), s)
         else if te_type e = TarDir then apfst (map_option FsError) (mkdir_all (created_mode L (te_mode e)) k s)
         else case mkdir_all (created_mode L 488) (backup_key L (path_dir path)) s of
                (Some err, s) \<Rightarrow> (Some (FsError err), s)
              | (None, s) \<Rightarrow>
                  (case create_file (created_mode L (te_mode e)) k s of
                     (Some err, s) \<Rightarrow> (Some (FsError err), s)
                   | (None, s) \<Rightarrow>
                       if te_size e < 0 then (Some (BadSize (te_name e) (te_size e)), s)
                       else (None, write_file k (take (nat (te_size e)) (te_data e)) s)))"

text \<open>The loop over the archive; \<open>done\<close> says before which entries the context is cancelled.\<close>

fun restore_entries ::
  "backup_lib \<Rightarrow> string \<Rightarrow> (nat \<Rightarrow> bool) \<Rightarrow> nat \<Rightarrow> tar_entry list \<Rightarrow> string option \<Rightarrow> fs \<Rightarrow> backup_error option \<times> fs" where
  "restore_entries L target cancelled i [] end_error s =
     (if cancelled i then (Some Cancelled, s) else (map_option SystemError end_error, s))"
| "restore_entries L target cancelled i (e # es) end_error s =
     (if cancelled i then (Some Cancelled, s)
      else case restore_entry L target e s of
             (Some err, s) \<Rightarrow> (Some err, s)
           | (None, s) \<Rightarrow> restore_entries L target cancelled (Suc i) es end_error s)"

definition perform_restore ::
  "backup_lib \<Rightarrow> (nat \<Rightarrow> bool) \<Rightarrow> backup_metadata \<Rightarrow> string \<Rightarrow> fs \<Rightarrow> backup_error option \<times> fs" where
  "perform_restore L cancelled md target s =
     (case read_file (backup_key L (bm_path md)) s of
        Inl e \<Rightarrow> (Some (FsError e), s)
      | Inr data \<Rightarrow>
          (case bl_unpack L (bm_compressed md) data of
             Inl e \<Rightarrow> (Some (SystemError e), s)
           | Inr (es, end_error) \<Rightarrow> restore_entries L target cancelled 0 es end_error s))"

definition verify_backup :: "backup_lib \<Rightarrow> backup_metadata \<Rightarrow> fs \<Rightarrow> backup_error option" where
  "verify_backup L md s =
     (case read_file (backup_key L (bm_path md)) s of
        Inl e \<Rightarrow> Some (FsError e)
      | Inr data \<Rightarrow> if bl_sha L data \<noteq> bm_checksum md then Some InvalidBackup else None)"

text \<open>
  \<open>RestoreBackup\<close>, in two steps: a restore is entered, which refuses a second one, and run, which
  reads the mutex; the flag is reset when it returns.
\<close>

definition enter_restore :: "backup_manager \<Rightarrow> backup_error option \<times> backup_manager" where
  "enter_restore m = (if bk_restoring m then (Some RestoreInProgress, m) else (None, m\<lparr>bk_restoring := True\<rparr>))"

definition run_restore ::
  "backup_lib \<Rightarrow> (nat \<Rightarrow> bool) \<Rightarrow> string \<Rightarrow> string \<Rightarrow> backup_manager \<Rightarrow> fs \<Rightarrow> backup_error option answer \<times> backup_manager \<times> fs" where
  "run_restore L cancelled i target m s =
     (if bk_held m then (Blocks, m, s)
      else let (e, s) = (case gm_get (bk_backups m) i of
             None \<Rightarrow> (Some BackupNotFound, s)
           | Some md \<Rightarrow> (case verify_backup L md s of Some e \<Rightarrow> (Some e, s) | None \<Rightarrow> perform_restore L cancelled md target s))
           in (Answers e, m\<lparr>bk_restoring := False\<rparr>, s))"

definition restore_backup ::
  "backup_lib \<Rightarrow> (nat \<Rightarrow> bool) \<Rightarrow> string \<Rightarrow> string \<Rightarrow> backup_manager \<Rightarrow> fs \<Rightarrow> backup_error option answer \<times> backup_manager \<times> fs" where
  "restore_backup L cancelled i target m s =
     (case enter_restore m of
        (Some e, m) \<Rightarrow> (Answers (Some e), m, s)
      | (None, m) \<Rightarrow> run_restore L cancelled i target m s)"

section \<open>Queries, deletion and retention\<close>

definition list_backups :: "backup_manager \<Rightarrow> backup_metadata list answer" where
  "list_backups m = (if bk_held m then Blocks else Answers (map snd (bk_backups m)))"

definition get_backup :: "string \<Rightarrow> backup_manager \<Rightarrow> (backup_error + backup_metadata) answer" where
  "get_backup i m =
     (if bk_held m then Blocks
      else Answers (case gm_get (bk_backups m) i of None \<Rightarrow> Inl BackupNotFound | Some md \<Rightarrow> Inr md))"

definition remove_if_there :: "fs_key \<Rightarrow> fs \<Rightarrow> backup_error option \<times> fs" where
  "remove_if_there k s =
     (case remove_node k s of
        (Some e, s) \<Rightarrow> (if e = NotExist then None else Some (FsError e), s)
      | (None, s) \<Rightarrow> (None, s))"

definition delete_backup :: "backup_lib \<Rightarrow> string \<Rightarrow> backup_manager \<Rightarrow> fs \<Rightarrow> backup_error option answer \<times> backup_manager \<times> fs" where
  "delete_backup L i m s =
     (if bk_held m then (Blocks, m, s)
      else case gm_get (bk_backups m) i of
        None \<Rightarrow> (Answers (Some BackupNotFound), m, s)
      | Some md \<Rightarrow>
          (case remove_if_there (backup_key L (bm_path md)) s of
             (Some e, s) \<Rightarrow> (Answers (Some e), m, s)
           | (None, s) \<Rightarrow>
               (case remove_if_there (backup_key L (metadata_path (bk_config m) i)) s of
                  (Some e, s) \<Rightarrow> (Answers (Some e), m, s)
                | (None, s) \<Rightarrow> (Answers None, m\<lparr>bk_backups := gm_del i (bk_backups m)\<rparr>, s))))"

text \<open>
  The loop of the retention over the backups, oldest first, with the mutex held: the deletions are
  calls of \<open>DeleteBackup\<close>, whose errors are only logged.  When such a call waits for ever so does the
  loop; the second component is the backup it waits to delete.
\<close>

fun retention_loop ::
  "backup_lib \<Rightarrow> instant \<Rightarrow> int \<Rightarrow> int \<Rightarrow> (string \<times> instant) list \<Rightarrow> backup_manager \<Rightarrow> fs \<Rightarrow>
   (unit answer \<times> string option) \<times> backup_manager \<times> fs" where
  "retention_loop L now n i [] m s = ((Answers (), None), m, s)"
| "retention_loop L now n i ((k, t) # bts) m s =
     (if i < n - bc_max (bk_config m) \<or>
         0 < bc_days (bk_config m) \<and> wrap64 (wrap64 (bc_days (bk_config m) * 24) * hour) < now - t
      then (case delete_backup L k m s of
              (Blocks, m, s) \<Rightarrow> ((Blocks, Some k), m, s)
            | (Answers e, m, s) \<Rightarrow> retention_loop L now n (i + 1) bts m s)
      else retention_loop L now n (i + 1) bts m s)"

definition backup_times :: "backup_manager \<Rightarrow> (string \<times> instant) list" where
  "backup_times m = exchange_sort (\<lambda>a b. snd a < snd b) (map (\<lambda>(i, md). (i, bm_start md)) (bk_backups m))"

definition apply_retention ::
  "backup_lib \<Rightarrow> instant \<Rightarrow> backup_manager \<Rightarrow> fs \<Rightarrow> (unit answer \<times> string option) \<times> backup_manager \<times> fs" where
  "apply_retention L now m s =
     (if bk_held m then ((Blocks, None), m, s)
      else case retention_loop L now (int (length (bk_backups m))) 0 (backup_times m) (m\<lparr>bk_held := True\<rparr>) s of
             ((Blocks, w), m, s) \<Rightarrow> ((Blocks, w), m, s)
           | ((Answers u, w), m, s) \<Rightarrow> ((Answers u, w), m\<lparr>bk_held := False\<rparr>, s))"

section \<open>Starting\<close>

text \<open>The metadata files of the directory in lexical order, those that can be read and decoded.\<close>

definition backup_metadata_files :: "backup_lib \<Rightarrow> backup_config \<Rightarrow> fs \<Rightarrow> fs_key list" where
  "backup_metadata_files L c s =
     sort_key last (filter (\<lambda>k. k \<noteq> [] \<and> butlast k = backup_key L (bc_dir c) \<and> suffix ''.json'' (last k)) (remdups (map fst s)))"

definition load_one :: "backup_lib \<Rightarrow> fs \<Rightarrow> fs_key \<Rightarrow> (string, backup_metadata) gomap \<Rightarrow> (string, backup_metadata) gomap" where
  "load_one L s k m =
     (case read_file k s of
        Inl e \<Rightarrow> m
      | Inr data \<Rightarrow> (case bl_unjson L data of None \<Rightarrow> m | Some md \<Rightarrow> gm_put (bm_id md) md m))"

definition load_backups :: "backup_lib \<Rightarrow> backup_config \<Rightarrow> fs \<Rightarrow> (string, backup_metadata) gomap" where
  "load_backups L c s = fold (load_one L s) (backup_metadata_files L c s) []"

definition new_backup_manager :: "backup_lib \<Rightarrow> backup_config option \<Rightarrow> fs \<Rightarrow> (backup_error + backup_manager) \<times> fs" where
  "new_backup_manager L oc s =
     (let c = (case oc of None \<Rightarrow> default_backup_config | Some c \<Rightarrow> c)
      in case mkdir_all (created_mode L 488) (backup_key L (bc_dir c)) s of
           (Some e, s) \<Rightarrow> (Inl (FsError e), s)
         | (None, s) \<Rightarrow>
             (Inr \<lparr>bk_config = c, bk_backups = load_backups L c s, bk_restoring = False, bk_held = False, bk_stopped = False\<rparr>, s))"

text \<open>The loop of the automatic backups: whether it is started, and one tick of it.\<close>

definition starts_auto_backup :: "backup_config \<Rightarrow> bool" where
  "starts_auto_backup c \<longleftrightarrow> bc_auto c \<and> bc_auto_source c \<noteq> []"

definition auto_backup_tick ::
  "backup_lib \<Rightarrow> backup_run \<Rightarrow> backup_manager \<Rightarrow> fs \<Rightarrow>
   (backup_metadata \<times> backup_error option) answer \<times> backup_manager \<times> fs" where
  "auto_backup_tick L run m s = create_backup L run (bc_auto_source (bk_config m)) (bc_auto_type (bk_config m)) m s"

text \<open>\<open>Stop\<close> closes a channel, which panics the second time.\<close>

definition stop_backup :: "backup_manager \<Rightarrow> backup_manager option" where
  "stop_backup m = (if bk_stopped m then None else Some (m\<lparr>bk_stopped := True\<rparr>))"

section \<open>A restore stays inside its target\<close>

lemma joined_is_rendered:
  assumes "is_abs p"
  shows "\<exists>K. (\<forall>c \<in> set K. normal c) \<and> path_join p n = render_path True K \<and> fs_key_of cwd (path_join p n) = K"
proof -
  obtain q where q: "path_join p n = path_clean q" "is_abs q"
    using assms by (cases p) (auto simp: path_join_def is_abs_def)
  then have "path_join p n = render_path True (clean_parts q)" by (simp add: path_clean_def)
  moreover have "\<forall>c \<in> set (clean_parts q). normal c" using q(2) by (simp add: clean_parts_rooted)
  ultimately show ?thesis by (metis fs_key_abs is_abs_render clean_render_rooted)
qed

lemma target_is_rendered:
  "is_abs p \<Longrightarrow> path_clean p = render_path True (fs_key_of cwd p) \<and> (\<forall>c \<in> set (fs_key_of cwd p). normal c)"
  by (simp add: path_clean_def fs_key_abs clean_parts_rooted)

text \<open>The test on the joined path, in terms of the components.\<close>

lemma contained_path:
  assumes "is_abs t" and "path_join (path_clean t) n = path_clean t \<or> prefix (path_clean t @ [slash]) (path_join (path_clean t) n)"
  shows "prefix (fs_key_of cwd t) (fs_key_of cwd (path_join (path_clean t) n))"
proof -
  have "is_abs (path_clean t)" using assms(1) by simp
  then obtain K where K: "\<forall>c \<in> set K. normal c" "path_join (path_clean t) n = render_path True K"
      "fs_key_of cwd (path_join (path_clean t) n) = K"
    using joined_is_rendered by blast
  have T: "path_clean t = render_path True (fs_key_of cwd t)" "\<forall>c \<in> set (fs_key_of cwd t). normal c"
    using target_is_rendered [OF assms(1)] by blast+
  from assms(2) show ?thesis
  proof
    assume "path_join (path_clean t) n = path_clean t"
    then have "K = fs_key_of cwd t" using K(2) T by (metis K(1) clean_render_rooted)
    then show ?thesis using K(3) by simp
  next
    assume "prefix (path_clean t @ [slash]) (path_join (path_clean t) n)"
    then show ?thesis using prefix_of_render [OF T(2) K(1)] K T(1) by (auto simp: strict_prefix_def)
  qed
qed

definition inside_or_above :: "fs_key \<Rightarrow> fs \<Rightarrow> fs \<Rightarrow> fs_key \<Rightarrow> bool" where
  "inside_or_above t s s' k \<longleftrightarrow> prefix t k \<or> (strict_prefix k t \<and> gm_get s k = None \<and> (\<exists>m. gm_get s' k = Some (DirNode m)))"

lemma mkdir_inside:
  assumes "mkdir_all m p s = (e, s')" and "prefix t p \<or> prefix p t" and "gm_get s' k \<noteq> gm_get s k"
  shows "inside_or_above t s s' k"
proof -
  have k: "prefix k p" "gm_get s k = None" "gm_get s' k = Some (DirNode m)"
    using mkdir_all_only [OF assms(1,3)] by blast+
  have "prefix t k \<or> strict_prefix k t"
    using assms(2) k(1) prefix_same_cases [of t p k] prefix_order.trans [of k p t] by (auto simp: strict_prefix_def)
  then show ?thesis using k by (auto simp: inside_or_above_def)
qed

lemma inside_trans:
  assumes "\<And>k. gm_get s1 k \<noteq> gm_get s k \<Longrightarrow> inside_or_above t s s1 k"
    and "\<And>k. gm_get s2 k \<noteq> gm_get s1 k \<Longrightarrow> inside_or_above t s1 s2 k" and "gm_get s2 k \<noteq> gm_get s k"
  shows "inside_or_above t s s2 k"
  using assms(1) [of k] assms(2) [of k] assms(3)
  by (cases "gm_get s1 k = gm_get s k"; cases "gm_get s2 k = gm_get s1 k") (auto simp: inside_or_above_def)

lemma restore_entry_inside:
  assumes "is_abs (bl_cwd L)" and "is_abs t" and "restore_entry L t e s = (r, s')" and "gm_get s' k \<noteq> gm_get s k"
  shows "inside_or_above (backup_key L t) s s' k"
proof -
  define path where "path = path_join (path_clean t) (te_name e)"
  define T where "T = backup_key L t"
  have run: "restore_entry L t e s =
     (if path \<noteq> path_clean t \<and> \<not> prefix (path_clean t @ [slash]) path then (Some (Escapes (te_name e)), s)
      else if te_mode e < 0 \<or> 4095 < te_mode e then (Some (BadMode (te_name e) (te_mode e)), s)
      else if te_type e = TarDir then apfst (map_option FsError) (mkdir_all (created_mode L (te_mode e)) (backup_key L path) s)
      else case mkdir_all (created_mode L 488) (backup_key L (path_dir path)) s of
             (Some err, s) \<Rightarrow> (Some (FsError err), s)
           | (None, s) \<Rightarrow>
               (case create_file (created_mode L (te_mode e)) (backup_key L path) s of
                  (Some err, s) \<Rightarrow> (Some (FsError err), s)
                | (None, s) \<Rightarrow>
                    if te_size e < 0 then (Some (BadSize (te_name e) (te_size e)), s)
                    else (None, write_file (backup_key L path) (take (nat (te_size e)) (te_data e)) s)))"
    unfolding restore_entry_def Let_def path_def by (rule refl)
  show ?thesis
  proof (cases "path \<noteq> path_clean t \<and> \<not> prefix (path_clean t @ [slash]) path")
    case True
    then show ?thesis using run assms(3,4) by simp
  next
    case False
    then have P: "prefix T (backup_key L path)"
      using contained_path [OF assms(2), of "te_name e" "bl_cwd L"] by (simp add: T_def backup_key_def path_def)
    obtain K where K: "\<forall>c \<in> set K. normal c" "path = render_path True K" "backup_key L path = K"
      using joined_is_rendered [of "path_clean t" "te_name e" "bl_cwd L"] assms(2) by (auto simp: path_def backup_key_def)
    have D: "backup_key L (path_dir path) = butlast K" using fs_key_dir [OF K(1)] K(2) by (simp add: backup_key_def)
    have above: "prefix T (butlast K) \<or> prefix (butlast K) T"
      using P K(3) prefixeq_butlast [of K] prefix_same_cases [of T K "butlast K"] by auto
    show ?thesis
    proof (cases "te_type e = TarDir")
      case True
      then obtain e1 where "mkdir_all (created_mode L (te_mode e)) (backup_key L path) s = (e1, s')"
        using run False assms(3,4) by (auto simp: apfst_def map_prod_def split: if_splits prod.splits)
      then show ?thesis using mkdir_inside [OF _ disjI1 [OF P] assms(4)] by (simp add: T_def)
    next
      case no_dir: False
      obtain e1 s1 where m: "mkdir_all (created_mode L 488) (butlast K) s = (e1, s1)" by fastforce
      have 1: "inside_or_above T s s1 j" if "gm_get s1 j \<noteq> gm_get s j" for j
        using mkdir_inside [OF m above that] .
      have 2: "inside_or_above T s1 s' j" if "gm_get s' j \<noteq> gm_get s1 j" for j
      proof -
        have "j = K"
        proof (cases e1)
          case (Some x)
          then show ?thesis using that run False no_dir assms(3,4) m D by (auto split: if_splits)
        next
          case None
          obtain e2 s2 where c: "create_file (created_mode L (te_mode e)) K s1 = (e2, s2)" by fastforce
          have j: "j = K" if "gm_get s2 j \<noteq> gm_get s1 j" using create_file_only [OF c that] .
          have "s' = s2 \<or> s' = write_file K (take (nat (te_size e)) (te_data e)) s2"
            using run False no_dir assms(3,4) m D None c K(3) by (auto split: if_splits option.splits)
          then show ?thesis using j that write_file_only [of K _ s2 j] by metis
        qed
        then show ?thesis using P K(3) by (simp add: inside_or_above_def)
      qed
      show ?thesis using inside_trans [OF 1 2 assms(4)] by (simp add: T_def)
    qed
  qed
qed

lemma restore_entries_inside:
  assumes "is_abs (bl_cwd L)" and "is_abs t"
  shows "restore_entries L t cancelled i es ee s = (r, s') \<Longrightarrow> gm_get s' k \<noteq> gm_get s k \<Longrightarrow> inside_or_above (backup_key L t) s s' k"
proof (induction es arbitrary: i s)
  case (Cons e es)
  obtain r1 s1 where e: "restore_entry L t e s = (r1, s1)" by fastforce
  show ?case
  proof (cases "cancelled i \<or> r1 \<noteq> None")
    case True
    then show ?thesis using Cons.prems e restore_entry_inside [OF assms e] by (auto split: if_splits)
  next
    case False
    then have r: "restore_entries L t cancelled (Suc i) es ee s1 = (r, s')" using Cons.prems(1) e by simp
    have 1: "\<And>j. gm_get s1 j \<noteq> gm_get s j \<Longrightarrow> inside_or_above (backup_key L t) s s1 j" using restore_entry_inside [OF assms e] .
    show ?thesis
      using 1 [of k] Cons.IH [OF r] Cons.prems(2)
      by (cases "gm_get s1 k = gm_get s k"; cases "gm_get s' k = gm_get s1 k") (auto simp: inside_or_above_def)
  qed
qed (auto split: if_splits)

text \<open>
  C34: whatever the archive holds, and however the restore ends, an absolute target bounds what it
  changes: the files at and below the target, and directories above it that were missing.
\<close>

theorem restore_stays_inside:
  assumes "is_abs (bl_cwd L)" and "is_abs target"
    and "restore_backup L cancelled i target m s = (a, m', s')" and "gm_get s' k \<noteq> gm_get s k"
  shows "prefix (backup_key L target) k
    \<or> strict_prefix k (backup_key L target) \<and> gm_get s k = None \<and> (\<exists>md. gm_get s' k = Some (DirNode md))"
proof -
  have "\<exists>es ee. \<exists>r. restore_entries L target cancelled 0 es ee s = (r, s') \<or> s' = s"
    using assms(3)
    by (auto simp: restore_backup_def enter_restore_def run_restore_def perform_restore_def Let_def
        split: if_splits option.splits prod.splits sum.splits)
  then obtain es ee r where "restore_entries L target cancelled 0 es ee s = (r, s')" using assms(4) by blast
  then show ?thesis using restore_entries_inside [OF assms(1,2)] assms(4) by (auto simp: inside_or_above_def)
qed

definition crafted_lib :: backup_lib where
  "crafted_lib =
     \<lparr>bl_cwd = ''/'', bl_umask = 18, bl_pack = (\<lambda>c es. []),
      bl_unpack = (\<lambda>c d. Inr ([\<lparr>te_name = ''x'', te_type = TarReg, te_mode = 420, te_size = 1, te_data = [7, 7]\<rparr>,
                        \<lparr>te_name = ''../etc'', te_type = TarReg, te_mode = 420, te_size = 1, te_data = [9]\<rparr>], None)),
      bl_sha = (\<lambda>d. ''h''), bl_json = (\<lambda>md. []), bl_unjson = (\<lambda>d. None)\<rparr>"

definition crafted_manager :: backup_manager where
  "crafted_manager =
     \<lparr>bk_config = default_backup_config,
      bk_backups = [(''b'', \<lparr>bm_id = ''b'', bm_type = backup_type_full, bm_status = backup_completed, bm_start = 0, bm_end = 0,
        bm_size = 0, bm_checksum = ''h'', bm_source = [], bm_path = ''/b'', bm_files = [], bm_base = [], bm_encrypted = False,
        bm_compressed = True, bm_version = ''1.0'', bm_error = None\<rparr>)],
      bk_restoring = False, bk_held = False, bk_stopped = False\<rparr>"

lemma crafted_run:
  "restore_backup crafted_lib (\<lambda>n. False) ''b'' ''/t'' crafted_manager [([''b''], FileNode 420 [])] =
     (Answers (Some (Escapes ''../etc'')), crafted_manager,
      [([''b''], FileNode 420 []), ([''t''], DirNode 488), ([''t'', ''x''], FileNode 420 [7])])"
  by code_simp

theorem restore_stays_inside_witness:
  "is_abs (bl_cwd crafted_lib) \<and> is_abs ''/t'' \<and> backup_key crafted_lib ''/t'' = [''t''] \<and> prefix [''t''] [''t'', ''x'']"
proof -
  have c: "is_abs (bl_cwd crafted_lib)" "is_abs ''/t''" "backup_key crafted_lib ''/t'' = [''t'']" by code_simp+
  have "gm_get [([''b''], FileNode 420 []), ([''t''], DirNode 488), ([''t'', ''x''], FileNode 420 [7])] [''t'', ''x'']
    \<noteq> gm_get [([''b''], FileNode 420 [])] [''t'', ''x'']" by simp
  from restore_stays_inside [OF c(1,2) crafted_run this] show ?thesis using c by auto
qed

text \<open>
  The test compares strings: below the root, and below the working directory written as a dot, every
  entry is refused; below a relative path that climbs, entries may climb on.
\<close>

lemma dot_targets_refuse:
  "restore_entry crafted_lib ''/'' \<lparr>te_name = ''x'', te_type = TarReg, te_mode = 420, te_size = 0, te_data = []\<rparr> [] =
     (Some (Escapes ''x''), [])"
  "restore_entry crafted_lib ''.'' \<lparr>te_name = ''x'', te_type = TarReg, te_mode = 420, te_size = 0, te_data = []\<rparr> [] =
     (Some (Escapes ''x''), [])"
  by code_simp+

lemma climbing_target_escapes:
  "restore_entry (crafted_lib\<lparr>bl_cwd := ''/a/b/c''\<rparr>) ''..''
     \<lparr>te_name = ''../etc'', te_type = TarReg, te_mode = 420, te_size = 1, te_data = [9]\<rparr> [([''a''], DirNode 0)] =
     (None, [([''a''], DirNode 0), ([''a'', ''etc''], FileNode 420 [9])])"
  "backup_key (crafted_lib\<lparr>bl_cwd := ''/a/b/c''\<rparr>) ''..'' = [''a'', ''b'']"
  by code_simp+

section \<open>The retention\<close>

definition aged :: "backup_config \<Rightarrow> instant \<Rightarrow> instant \<Rightarrow> bool" where
  "aged c now t \<longleftrightarrow> 0 < bc_days c \<and> wrap64 (wrap64 (bc_days c * 24) * hour) < now - t"

text \<open>The first backup of the list to which the loop comes for a deletion.\<close>

fun first_due :: "backup_config \<Rightarrow> instant \<Rightarrow> int \<Rightarrow> int \<Rightarrow> (string \<times> instant) list \<Rightarrow> string option" where
  "first_due c now n i [] = None"
| "first_due c now n i ((k, t) # bts) =
     (if i < n - bc_max c \<or> aged c now t then Some k else first_due c now n (i + 1) bts)"

lemma delete_waits: "bk_held m \<Longrightarrow> delete_backup L k m s = (Blocks, m, s)"
  by (simp add: delete_backup_def)

lemma retention_loop_waits:
  assumes "bk_held m"
  shows "retention_loop L now n i bts m s =
    (case first_due (bk_config m) now n i bts of
       None \<Rightarrow> ((Answers (), None), m, s) | Some k \<Rightarrow> ((Blocks, Some k), m, s))"
proof (induction bts arbitrary: i)
  case (Cons b bts)
  obtain k t where b: "b = (k, t)" by fastforce
  show ?case using Cons.IH [of "i + 1"] by (simp add: b delete_waits [OF assms] aged_def)
qed simp

lemma first_due_none: "first_due c now n i bts = None \<longleftrightarrow> (bts = [] \<or> n - bc_max c \<le> i) \<and> (\<forall>(k, t) \<in> set bts. \<not> aged c now t)"
proof (induction bts arbitrary: i)
  case (Cons b bts)
  obtain k t where b: "b = (k, t)" by fastforce
  show ?case using Cons.IH [of "i + 1"] by (auto simp: b)
qed simp

text \<open>Of a list with the oldest first the first one is due if any is.\<close>

lemma first_due_head:
  assumes "sorted_wrt (\<lambda>a b. \<not> snd b < snd a) bts" and "first_due c now n i bts = Some k"
  shows "\<exists>t bts'. bts = (k, t) # bts'"
proof (cases bts)
  case Nil
  then show ?thesis using assms(2) by simp
next
  case (Cons b rest)
  obtain k0 t0 where b: "b = (k0, t0)" by fastforce
  show ?thesis
  proof (cases "i < n - bc_max c \<or> aged c now t0")
    case True
    then show ?thesis using assms(2) Cons b by simp
  next
    case False
    have "\<not> aged c now t" if "(k', t) \<in> set rest" for k' t
      using assms(1) that False by (fastforce simp: Cons b aged_def)
    then have "first_due c now n (i + 1) rest = None" using False by (auto simp: first_due_none)
    then show ?thesis using assms(2) Cons b False by simp
  qed
qed

lemma set_backup_times: "set (backup_times m) = (\<lambda>(i, md). (i, bm_start md)) ` set (bk_backups m)"
  by (simp add: backup_times_def)

interpretation backup_age: heap_less "\<lambda>(a :: string \<times> instant) b. snd a < snd b"
  by unfold_locales auto

lemma backup_times_sorted: "sorted_wrt (\<lambda>a b. \<not> snd b < snd a) (backup_times m)"
  unfolding backup_times_def by (rule backup_age.exchange_sort_sorted)

definition retention_due :: "instant \<Rightarrow> backup_manager \<Rightarrow> bool" where
  "retention_due now m \<longleftrightarrow>
     list_ex (\<lambda>(i, md). bc_max (bk_config m) < int (length (bk_backups m)) \<or> aged (bk_config m) now (bm_start md)) (bk_backups m)"

lemma retention_result:
  assumes "\<not> bk_held m"
  shows "\<not> retention_due now m \<Longrightarrow> apply_retention L now m s = ((Answers (), None), m, s)"
    and "retention_due now m \<Longrightarrow> \<exists>k. apply_retention L now m s = ((Blocks, Some k), m\<lparr>bk_held := True\<rparr>, s)
      \<and> (\<exists>md. (k, md) \<in> set (bk_backups m) \<and> (\<forall>(k', md') \<in> set (bk_backups m). bm_start md \<le> bm_start md'))"
proof -
  let ?n = "int (length (bk_backups m))"
  let ?w = "first_due (bk_config m) now ?n 0 (backup_times m)"
  have e: "backup_times m = [] \<longleftrightarrow> bk_backups m = []" using set_backup_times [of m] by (metis image_is_empty set_empty)
  have due: "?w = None \<longleftrightarrow> \<not> retention_due now m"
    unfolding first_due_none set_backup_times e
    by (cases "bk_backups m") (auto simp: retention_due_def list_ex_iff)
  have run: "retention_loop L now ?n 0 (backup_times m) (m\<lparr>bk_held := True\<rparr>) s =
      (case ?w of None \<Rightarrow> ((Answers (), None), m\<lparr>bk_held := True\<rparr>, s)
       | Some k \<Rightarrow> ((Blocks, Some k), m\<lparr>bk_held := True\<rparr>, s))"
    using retention_loop_waits [of "m\<lparr>bk_held := True\<rparr>" L now ?n 0 "backup_times m" s] by simp
  have same: "m\<lparr>bk_held := False\<rparr> = m" using assms by (cases m) simp
  show "apply_retention L now m s = ((Answers (), None), m, s)" if "\<not> retention_due now m"
    using that due run assms same by (simp add: apply_retention_def)
  assume "retention_due now m"
  then obtain k where k: "?w = Some k" using due by auto
  obtain t bts where bts: "backup_times m = (k, t) # bts" using first_due_head [OF backup_times_sorted k] by blast
  have "(k, t) \<in> set (backup_times m)" by (simp add: bts)
  then obtain md where md: "(k, md) \<in> set (bk_backups m)" "t = bm_start md" unfolding set_backup_times by auto
  have "bm_start md \<le> bm_start md'" if "(k', md') \<in> set (bk_backups m)" for k' md'
  proof -
    have "(k', bm_start md') \<in> set (backup_times m)" using that unfolding set_backup_times by force
    then show ?thesis using backup_times_sorted [of m] md(2) by (auto simp: bts not_less)
  qed
  then show "\<exists>k. apply_retention L now m s = ((Blocks, Some k), m\<lparr>bk_held := True\<rparr>, s)
      \<and> (\<exists>md. (k, md) \<in> set (bk_backups m) \<and> (\<forall>(k', md') \<in> set (bk_backups m). bm_start md \<le> bm_start md'))"
    using k run assms md(1) by (auto simp: apply_retention_def)
qed

text \<open>
  C35: the retention never deletes anything.  It runs to its end only when there is nothing to
  delete.  When a backup is too old, or there are too many, it comes to the deletion of an oldest one,
  whose call waits for the mutex that the retention holds; from then on every backup, deletion, query
  and retention waits too, the first restore waits with its flag set, and later ones are refused.
\<close>

theorem retention_never_deletes:
  assumes "\<not> bk_held m" and "apply_retention L now m s = ((a, w), m', s')"
  shows "bk_backups m' = bk_backups m \<and> s' = s
    \<and> (if retention_due now m
       then a = Blocks
         \<and> (\<exists>k md. w = Some k \<and> (k, md) \<in> set (bk_backups m) \<and> delete_backup L k m' s' = (Blocks, m', s')
              \<and> (\<forall>(k', md') \<in> set (bk_backups m). bm_start md \<le> bm_start md'))
         \<and> create_backup L run src ty m' s' = (Blocks, m', s') \<and> delete_backup L i m' s' = (Blocks, m', s')
         \<and> get_backup i m' = Blocks \<and> list_backups m' = Blocks
         \<and> apply_retention L now' m' s' = ((Blocks, None), m', s')
         \<and> (\<not> bk_restoring m \<longrightarrow>
              restore_backup L cancelled i target m' s' = (Blocks, m'\<lparr>bk_restoring := True\<rparr>, s')
              \<and> restore_backup L cancelled' i' target' (m'\<lparr>bk_restoring := True\<rparr>) s' =
                  (Answers (Some RestoreInProgress), m'\<lparr>bk_restoring := True\<rparr>, s'))
       else a = Answers () \<and> m' = m)"
proof (cases "retention_due now m")
  case True
  obtain k md where r: "apply_retention L now m s = ((Blocks, Some k), m\<lparr>bk_held := True\<rparr>, s)"
    "(k, md) \<in> set (bk_backups m)" "\<forall>(k', md') \<in> set (bk_backups m). bm_start md \<le> bm_start md'"
    using retention_result(2) [OF assms(1) True] by blast
  then have "a = Blocks" "w = Some k" "m' = m\<lparr>bk_held := True\<rparr>" "s' = s" using assms(2) by simp_all
  then show ?thesis using True r(2,3)
    by (auto simp: create_backup_def delete_waits get_backup_def list_backups_def apply_retention_def
        restore_backup_def enter_restore_def run_restore_def)
next
  case False
  then show ?thesis using retention_result(1) [OF assms(1) False, of L s] assms(2) by simp
qed

theorem retention_never_deletes_witness:
  "apply_retention crafted_lib (31 * 24 * hour) crafted_manager [] =
      ((Blocks, Some ''b''), crafted_manager\<lparr>bk_held := True\<rparr>, [])
    \<and> list_backups (crafted_manager\<lparr>bk_held := True\<rparr>) = Blocks"
proof -
  have r: "apply_retention crafted_lib (31 * 24 * hour) crafted_manager [] =
      ((Blocks, Some ''b''), crafted_manager\<lparr>bk_held := True\<rparr>, [])" by code_simp
  have "\<not> bk_held crafted_manager" "retention_due (31 * 24 * hour) crafted_manager"
    by (simp_all add: crafted_manager_def retention_due_def aged_def default_backup_config_def time_units wrap64_id in64_def)
  from retention_never_deletes [OF this(1) r] this(2) r show ?thesis by simp
qed

section \<open>Restoring what was backed up\<close>

subsection \<open>What the walk finds, and what it writes\<close>

definition item_key :: "walk_item \<Rightarrow> fs_key" where
  "item_key i = clean_parts (wi_name i)"

definition item_node :: "backup_lib \<Rightarrow> walk_item \<Rightarrow> fs_node" where
  "item_node L i = (if wi_kind i = WalkDir then DirNode (created_mode L (wi_mode i))
     else FileNode (created_mode L (wi_mode i)) (wi_data i))"

definition item_entry :: "walk_item \<Rightarrow> tar_entry" where
  "item_entry i = header_of i\<lparr>te_data := (if wi_kind i = WalkReg then wi_data i else [])\<rparr>"

text \<open>
  The names of a walk: relative, cleaned, a directory before what it holds, the root first; here of
  a tree with directories and regular files only.
\<close>

definition plain_item :: "walk_item \<Rightarrow> bool" where
  "plain_item i \<longleftrightarrow> (wi_kind i = WalkDir \<or> wi_kind i = WalkReg) \<and> 0 \<le> wi_mode i \<and> wi_mode i \<le> 4095
     \<and> wi_name i = render_path False (item_key i) \<and> list_all normal (item_key i)"

fun lists_tree :: "walk_item list \<Rightarrow> walk_item list \<Rightarrow> bool" where
  "lists_tree seen [] \<longleftrightarrow> True"
| "lists_tree seen (i # is) \<longleftrightarrow>
     plain_item i \<and> item_key i \<notin> item_key ` set seen
     \<and> (if seen = [] then item_key i = [] \<and> wi_kind i = WalkDir
        else item_key i \<noteq> [] \<and> list_ex (\<lambda>p. item_key p = butlast (item_key i) \<and> wi_kind p = WalkDir) seen)
     \<and> lists_tree (seen @ [i]) is"

definition tree_of :: "backup_lib \<Rightarrow> walk_item list \<Rightarrow> (fs_key, fs_node) gomap" where
  "tree_of L is = map (\<lambda>i. (item_key i, item_node L i)) is"

lemma tree_of_dom: "gm_get (tree_of L is) k = None \<longleftrightarrow> k \<notin> item_key ` set is"
  by (auto simp: tree_of_def map_of_eq_None_iff image_image)

lemma tree_of_snoc:
  assumes "item_key i \<notin> item_key ` set is"
  shows "gm_get (tree_of L (is @ [i])) k = (if k = item_key i then Some (item_node L i) else gm_get (tree_of L is) k)"
proof -
  have "gm_get (tree_of L is) (item_key i) = None" using assms tree_of_dom by blast
  then show ?thesis by (auto simp: tree_of_def map_add_def split: option.splits)
qed

lemma walk_written:
  "walk_source is short es files = (None, False, es', files') \<Longrightarrow> list_all plain_item is \<Longrightarrow> 
     es' = es @ map item_entry is \<and> list_all (\<lambda>i. wi_kind i = WalkReg \<longrightarrow> wi_size i = int (length (wi_data i))) is
     \<and> (is \<noteq> [] \<longrightarrow> \<not> short)"
proof (induction "is" arbitrary: short es files)
  case (Cons i "is")
  have k: "wi_kind i = WalkDir \<or> wi_kind i = WalkReg" using Cons.prems(2) by (simp add: plain_item_def)
  have ok: "wi_walk_error i = None" "\<not> wi_cancelled i" "wi_info_error i = None" "\<not> short"
    using Cons.prems(1) by (auto split: if_splits option.splits)
  show ?case
  proof (cases "wi_kind i = WalkReg")
    case True
    then have r: "int (length (wi_data i)) \<le> wi_size i"
        "walk_source is (int (length (wi_data i)) < wi_size i) (es @ [header_of i\<lparr>te_data := wi_data i\<rparr>])
           (files @ [wi_name i]) = (None, False, es', files')"
      using Cons.prems(1) ok by (auto split: if_splits option.splits)
    have len: "\<not> int (length (wi_data i)) < wi_size i"
      using r(2) Cons.IH [OF r(2)] Cons.prems(2) by (cases "is") auto
    then show ?thesis using Cons.IH [OF r(2)] Cons.prems(2) True r(1) ok by (simp add: item_entry_def)
  next
    case False
    then have "walk_source is False (es @ [header_of i]) files = (None, False, es', files')"
      using Cons.prems(1) ok k by simp
    from Cons.IH [OF this] show ?thesis using Cons.prems(2) False ok by (simp add: item_entry_def header_of_def)
  qed
qed simp

subsection \<open>Restoring one entry\<close>

lemma make_dirs_ok:
  assumes "\<forall>j \<in> set ks. \<forall>m d. gm_get s j \<noteq> Some (FileNode m d)"
  shows "\<exists>s'. make_dirs mode ks s = (None, s')
    \<and> (\<forall>j. gm_get s' j = (if j \<in> set ks \<and> gm_get s j = None then Some (DirNode mode) else gm_get s j))"
  using assms
proof (induction ks arbitrary: s)
  case (Cons k ks)
  show ?case
  proof (cases "gm_get s k")
    case None
    have "\<forall>j \<in> set ks. \<forall>m d. gm_get (gm_put k (DirNode mode) s) j \<noteq> Some (FileNode m d)"
      using Cons.prems by (auto simp: map_ops)
    from Cons.IH [OF this] show ?thesis using None by (auto simp: map_ops)
  next
    case (Some n)
    then obtain m where n: "n = DirNode m" using Cons.prems by (cases n) auto
    have "\<forall>j \<in> set ks. \<forall>m d. gm_get s j \<noteq> Some (FileNode m d)" using Cons.prems by simp
    from Cons.IH [OF this] show ?thesis using Some n by auto
  qed
qed simp

lemma mkdir_all_ok:
  assumes "\<And>j m d. prefix j k \<Longrightarrow> j \<noteq> [] \<Longrightarrow> gm_get s j \<noteq> Some (FileNode m d)"
  shows "\<exists>s'. mkdir_all mode k s = (None, s')
    \<and> (\<forall>j. gm_get s' j = (if prefix j k \<and> j \<noteq> [] \<and> gm_get s j = None then Some (DirNode mode) else gm_get s j))"
proof -
  have "\<forall>j \<in> set (tl (prefixes k)). \<forall>m d. gm_get s j \<noteq> Some (FileNode m d)" using assms proper_prefixes by blast
  from make_dirs_ok [OF this] show ?thesis unfolding mkdir_all_def proper_prefixes by (auto simp: conj_assoc)
qed

lemma split_item_name:
  assumes "plain_item i"
  shows "clean_stack True (split_slash (wi_name i)) st = rev (item_key i) @ st"
proof (cases "item_key i = []")
  case True
  then have "wi_name i = ''.''" using assms by (simp add: plain_item_def render_path_def)
  moreover have "split_slash ''.'' = [''.'']" by simp
  ultimately show ?thesis using True by (simp add: clean_stack_def clean_step_def)
next
  case False
  have n: "\<forall>c \<in> set (item_key i). normal c" using assms by (simp add: plain_item_def list_all_iff)
  then have "split_slash (wi_name i) = item_key i"
    using assms False split_join [OF False] by (simp add: plain_item_def render_path_def normal_def)
  then show ?thesis using clean_stack_normals [OF n] by simp
qed

lemma joined_item:
  assumes "is_abs cwd" and "is_abs t" and "plain_item i"
  shows "fs_key_of cwd (path_join (path_clean t) (wi_name i)) = fs_key_of cwd t @ item_key i"
    and "path_join (path_clean t) (wi_name i) = render_path True (fs_key_of cwd t @ item_key i)"
proof -
  show k: "fs_key_of cwd (path_join (path_clean t) (wi_name i)) = fs_key_of cwd t @ item_key i"
    using fs_key_join [OF assms(1), of "path_clean t" "wi_name i"] assms
    by (simp add: split_item_name fs_key_clean)
  obtain K where "path_join (path_clean t) (wi_name i) = render_path True K"
      "fs_key_of cwd (path_join (path_clean t) (wi_name i)) = K"
    using joined_is_rendered [of "path_clean t" "wi_name i" cwd] assms(2) by auto
  then show "path_join (path_clean t) (wi_name i) = render_path True (fs_key_of cwd t @ item_key i)" using k by simp
qed

lemma contained_item:
  assumes "is_abs cwd" and "is_abs t" and "plain_item i" and "fs_key_of cwd t \<noteq> []"
  shows "path_join (path_clean t) (wi_name i) = path_clean t
    \<or> prefix (path_clean t @ [slash]) (path_join (path_clean t) (wi_name i))"
proof (cases "item_key i = []")
  case True
  then show ?thesis using joined_item(2) [OF assms(1-3)] target_is_rendered [OF assms(2)] by simp
next
  case False
  have "render_path True (fs_key_of cwd t @ item_key i) = render_path True (fs_key_of cwd t) @ slash # join_slash (item_key i)"
    using join_append [OF assms(4) False] by (simp add: render_path_def)
  then show ?thesis using joined_item(2) [OF assms(1-3)] target_is_rendered [OF assms(2), of cwd] by (simp add: prefix_def)
qed

subsection \<open>The loop\<close>

text \<open>After some items: below the target exactly these, above it directories.\<close>

definition restored :: "backup_lib \<Rightarrow> fs_key \<Rightarrow> walk_item list \<Rightarrow> fs \<Rightarrow> bool" where
  "restored L t seen s \<longleftrightarrow>
     (\<forall>k. gm_get s (t @ k) = gm_get (tree_of L seen) k)
     \<and> (\<forall>j m d. strict_prefix j t \<longrightarrow> j \<noteq> [] \<longrightarrow> gm_get s j \<noteq> Some (FileNode m d))
     \<and> (\<forall>k j m. gm_get (tree_of L seen) k = Some (DirNode m) \<longrightarrow> prefix j k \<longrightarrow> (\<exists>m'. gm_get (tree_of L seen) j = Some (DirNode m')))"

definition next_item :: "walk_item list \<Rightarrow> walk_item \<Rightarrow> bool" where
  "next_item seen i \<longleftrightarrow> plain_item i \<and> item_key i \<notin> item_key ` set seen
     \<and> (if seen = [] then item_key i = [] \<and> wi_kind i = WalkDir
        else item_key i \<noteq> [] \<and> list_ex (\<lambda>p. item_key p = butlast (item_key i) \<and> wi_kind p = WalkDir) seen)
     \<and> (wi_kind i = WalkReg \<longrightarrow> wi_size i = int (length (wi_data i)))"

lemma strict_prefix_butlast: "strict_prefix j k \<Longrightarrow> prefix j (butlast k)"
  by (cases k rule: rev_cases) (auto simp: strict_prefix_def)

lemma tree_of_member:
  "distinct (map item_key seen) \<Longrightarrow> p \<in> set seen \<Longrightarrow> gm_get (tree_of L seen) (item_key p) = Some (item_node L p)"
  by (rule map_of_is_SomeI) (auto simp: tree_of_def comp_def)

lemma parents_there:
  assumes "restored L t seen s" and "next_item seen i" and "distinct (map item_key seen)" and "strict_prefix j (item_key i)"
  shows "\<exists>m. gm_get (tree_of L seen) j = Some (DirNode m)"
proof -
  have "item_key i \<noteq> []" using assms(4) by auto
  then have "list_ex (\<lambda>p. item_key p = butlast (item_key i) \<and> wi_kind p = WalkDir) seen"
    using assms(2) by (simp add: next_item_def split: if_splits)
  then obtain p where p: "p \<in> set seen" "item_key p = butlast (item_key i)" "wi_kind p = WalkDir"
    by (auto simp: list_ex_iff)
  then have "gm_get (tree_of L seen) (butlast (item_key i)) = Some (DirNode (created_mode L (wi_mode p)))"
    using tree_of_member [OF assms(3) p(1)] by (simp add: item_node_def)
  then show ?thesis using assms(1) strict_prefix_butlast [OF assms(4)] by (simp add: restored_def) blast
qed

lemma no_file_above:
  assumes "restored L t seen s" and "next_item seen i" and "distinct (map item_key seen)"
    and "prefix j (t @ item_key i)" and "j \<noteq> []"
  shows "gm_get s j \<noteq> Some (FileNode m d)"
proof (cases "strict_prefix j t")
  case True
  then show ?thesis using assms(1,5) by (simp add: restored_def)
next
  case False
  then obtain j' where j: "j = t @ j'" "prefix j' (item_key i)"
    using assms(4) by (auto simp: prefix_append strict_prefix_def)
  have g: "gm_get s j = gm_get (tree_of L seen) j'" using assms(1) j(1) by (simp add: restored_def)
  show ?thesis
  proof (cases "j' = item_key i")
    case True
    then have "gm_get (tree_of L seen) j' = None" using assms(2) tree_of_dom by (auto simp: next_item_def)
    then show ?thesis using g by simp
  next
    case False
    then show ?thesis using parents_there [OF assms(1-3), of j'] j(2) g by (auto simp: strict_prefix_def)
  qed
qed

lemma restored_snoc:
  assumes "restored L t seen s" and "next_item seen i" and "distinct (map item_key seen)"
    and "\<And>k. gm_get s' (t @ k) = (if k = item_key i then Some (item_node L i) else gm_get s (t @ k))"
    and "\<And>j m d. strict_prefix j t \<Longrightarrow> j \<noteq> [] \<Longrightarrow> gm_get s' j \<noteq> Some (FileNode m d)"
  shows "restored L t (seen @ [i]) s'"
proof -
  have i: "item_key i \<notin> item_key ` set seen" using assms(2) by (simp add: next_item_def)
  note sn = tree_of_snoc [OF i]
  have "\<exists>m'. gm_get (tree_of L (seen @ [i])) j = Some (DirNode m')"
    if k: "gm_get (tree_of L (seen @ [i])) k = Some (DirNode m)" "prefix j k" for k j m
  proof (cases "j = item_key i \<and> k = item_key i")
    case True
    then show ?thesis using k(1) by auto
  next
    case False
    have "\<exists>m'. gm_get (tree_of L seen) j = Some (DirNode m')"
    proof (cases "k = item_key i")
      case True
      then show ?thesis using parents_there [OF assms(1-3)] k(2) False by (auto simp: strict_prefix_def)
    next
      case other: False
      then have "gm_get (tree_of L seen) k = Some (DirNode m)" using k(1) sn by simp
      then show ?thesis using assms(1) k(2) unfolding restored_def by blast
    qed
    moreover have "gm_get (tree_of L seen) (item_key i) = None" using i tree_of_dom by blast
    ultimately show ?thesis using sn by (cases "j = item_key i") auto
  qed
  moreover have "\<forall>k. gm_get s' (t @ k) = gm_get (tree_of L (seen @ [i])) k"
    using assms(1,4) sn by (simp add: restored_def)
  ultimately show ?thesis using assms(5) unfolding restored_def by blast
qed

lemma restore_dir_item:
  assumes L: "is_abs (bl_cwd L)" "is_abs t" "backup_key L t \<noteq> []" and "wi_kind i = WalkDir"
    and r: "restored L (backup_key L t) seen s" "next_item seen i" "distinct (map item_key seen)"
  shows "\<exists>s'. restore_entry L t (item_entry i) s = (None, s') \<and> restored L (backup_key L t) (seen @ [i]) s'"
proof -
  define T where "T = backup_key L t"
  have p: "plain_item i" using r(2) by (simp add: next_item_def)
  note J = joined_item [OF L(1,2) p, folded backup_key_def]
  note C = contained_item [OF L(1,2) p L(3) [unfolded backup_key_def]]
  obtain s' where s': "mkdir_all (created_mode L (wi_mode i)) (T @ item_key i) s = (None, s')"
    and g: "\<And>j. gm_get s' j = (if prefix j (T @ item_key i) \<and> j \<noteq> [] \<and> gm_get s j = None then Some (DirNode (created_mode L (wi_mode i))) else gm_get s j)"
    using mkdir_all_ok [OF no_file_above [OF r]] by (fastforce simp: T_def)
  have "restore_entry L t (item_entry i) s = apfst (map_option FsError) (mkdir_all (created_mode L (wi_mode i)) (T @ item_key i) s)"
    using C p assms(4) J(1) by (auto simp: restore_entry_def Let_def item_entry_def header_of_def plain_item_def T_def)
  then have run: "restore_entry L t (item_entry i) s = (None, s')" using s' by simp
  have "gm_get s' (T @ k) = (if k = item_key i then Some (item_node L i) else gm_get s (T @ k))" for k
  proof (cases "k = item_key i")
    case True
    have "gm_get (tree_of L seen) k = None" using r(2) True tree_of_dom by (auto simp: next_item_def)
    then have "gm_get s (T @ k) = None" using r(1) by (simp add: restored_def T_def)
    then show ?thesis using g [of "T @ k"] True assms(4) L(3) by (simp add: item_node_def T_def)
  next
    case False
    then have "gm_get s (T @ k) \<noteq> None" if "prefix k (item_key i)"
      using parents_there [OF r, of k] that r(1) by (auto simp: strict_prefix_def restored_def T_def)
    then show ?thesis using g [of "T @ k"] False by auto
  qed
  moreover have "gm_get s' j \<noteq> Some (FileNode m d)" if "strict_prefix j T" "j \<noteq> []" for j m d
    using g [of j] that r(1) by (auto simp: restored_def T_def)
  ultimately show ?thesis using restored_snoc [OF r] run by (auto simp: T_def)
qed

lemma restore_file_item:
  assumes L: "is_abs (bl_cwd L)" "is_abs t" "backup_key L t \<noteq> []" and k: "wi_kind i = WalkReg"
    and r: "restored L (backup_key L t) seen s" "next_item seen i" "distinct (map item_key seen)"
  shows "\<exists>s'. restore_entry L t (item_entry i) s = (None, s') \<and> restored L (backup_key L t) (seen @ [i]) s'"
proof -
  define T where "T = backup_key L t"
  define K where "K = T @ item_key i"
  have p: "plain_item i" and sz: "wi_size i = int (length (wi_data i))" and ne: "item_key i \<noteq> []"
    using r(2) k by (auto simp: next_item_def split: if_splits)
  note J = joined_item [OF L(1,2) p, folded backup_key_def]
  note C = contained_item [OF L(1,2) p L(3) [unfolded backup_key_def]]
  have T: "\<forall>c \<in> set K. normal c" using fs_key_normal [OF L(1), of t] p by (auto simp: K_def T_def backup_key_def plain_item_def list_all_iff)
  have D: "backup_key L (path_dir (path_join (path_clean t) (wi_name i))) = T @ butlast (item_key i)"
    using fs_key_dir [OF T] J(2) ne by (simp add: K_def T_def backup_key_def butlast_append)
  have there: "gm_get s j \<noteq> None" if h: "prefix T j" "prefix j (T @ butlast (item_key i))" for j
  proof -
    obtain j' where "j = T @ j'" using h(1) by (rule prefixE)
    then have j: "j = T @ j'" "prefix j' (butlast (item_key i))" using h(2) by simp_all
    then have "strict_prefix j' (item_key i)" using ne by (cases "item_key i" rule: rev_cases) (auto simp: strict_prefix_def prefix_def)
    then obtain m where "gm_get (tree_of L seen) j' = Some (DirNode m)" using parents_there [OF r] by blast
    then show ?thesis using r(1) j(1) by (simp add: restored_def T_def)
  qed
  have nf: "gm_get s j \<noteq> Some (FileNode m d)" if "prefix j (T @ butlast (item_key i))" "j \<noteq> []" for j m d
    using no_file_above [OF r, of j] that prefix_order.trans [OF that(1), of K] prefixeq_butlast [of "item_key i"]
    by (auto simp: K_def T_def)
  obtain s1 where m: "mkdir_all (created_mode L 488) (T @ butlast (item_key i)) s = (None, s1)"
    and g: "\<And>j. gm_get s1 j = (if prefix j (T @ butlast (item_key i)) \<and> j \<noteq> [] \<and> gm_get s j = None then Some (DirNode (created_mode L 488)) else gm_get s j)"
    using mkdir_all_ok [OF nf] by blast
  have below: "gm_get s1 (T @ k) = gm_get s (T @ k)" for k using g [of "T @ k"] there [of "T @ k"] by auto
  have "gm_get (tree_of L seen) (item_key i) = None" using r(2) tree_of_dom by (auto simp: next_item_def)
  then have new: "gm_get s1 K = None" using below [of "item_key i"] r(1) by (simp add: K_def restored_def T_def)
  have "is_dir_at (butlast K) s1" using mkdir_all_done [OF m] ne by (simp add: K_def butlast_append)
  then have c: "create_file (created_mode L (wi_mode i)) K s1 = (None, gm_put K (FileNode (created_mode L (wi_mode i)) []) s1)"
    using new L(3) by (simp add: create_file_def K_def T_def)
  have w: "write_file K (wi_data i) (gm_put K (FileNode (created_mode L (wi_mode i)) []) s1)
      = gm_put K (FileNode (created_mode L (wi_mode i)) (wi_data i)) (gm_put K (FileNode (created_mode L (wi_mode i)) []) s1)"
    by (simp add: write_file_def)
  define s' where "s' = gm_put K (FileNode (created_mode L (wi_mode i)) (wi_data i)) (gm_put K (FileNode (created_mode L (wi_mode i)) []) s1)"
  have run: "restore_entry L t (item_entry i) s = (None, s')"
    using C p k J(1) D m c w sz
    by (auto simp: restore_entry_def Let_def item_entry_def header_of_def plain_item_def s'_def K_def T_def)
  have "gm_get s' (T @ k') = (if k' = item_key i then Some (item_node L i) else gm_get s (T @ k'))" for k'
    using below k by (auto simp: s'_def K_def item_node_def map_ops)
  moreover have "gm_get s' j \<noteq> Some (FileNode m d)" if "strict_prefix j T" "j \<noteq> []" for j m d
  proof -
    have "j \<noteq> K" using that(1) by (auto simp: K_def strict_prefix_def prefix_def)
    then show ?thesis using g [of j] that r(1) by (auto simp: s'_def restored_def T_def map_ops)
  qed
  ultimately show ?thesis using restored_snoc [OF r] run by (auto simp: T_def)
qed

lemma restore_items:
  assumes L: "is_abs (bl_cwd L)" "is_abs t" "backup_key L t \<noteq> []"
  shows "lists_tree seen is \<Longrightarrow> list_all (\<lambda>i. wi_kind i = WalkReg \<longrightarrow> wi_size i = int (length (wi_data i))) is \<Longrightarrow>
    restored L (backup_key L t) seen s \<Longrightarrow> distinct (map item_key seen) \<Longrightarrow>
    \<exists>s'. restore_entries L t (\<lambda>n. False) n (map item_entry is) None s = (None, s')
      \<and> restored L (backup_key L t) (seen @ is) s'"
proof (induction "is" arbitrary: seen s n)
  case (Cons i "is")
  have nx: "next_item seen i" using Cons.prems(1,2) by (simp add: next_item_def)
  have k: "wi_kind i = WalkDir \<or> wi_kind i = WalkReg" using nx by (simp add: next_item_def plain_item_def)
  obtain s1 where s1: "restore_entry L t (item_entry i) s = (None, s1)" "restored L (backup_key L t) (seen @ [i]) s1"
    using k restore_dir_item [OF L _ Cons.prems(3) nx Cons.prems(4)] restore_file_item [OF L _ Cons.prems(3) nx Cons.prems(4)]
    by blast
  have "lists_tree (seen @ [i]) is" "distinct (map item_key (seen @ [i]))" using Cons.prems by auto
  from Cons.IH [OF this(1) _ s1(2) this(2), of "Suc n"] show ?case using Cons.prems(2) s1(1) by simp
qed simp

subsection \<open>What a backup leaves behind\<close>

lemma first_error_None: "first_error es = None \<longleftrightarrow> list_all (\<lambda>e. e = None) es"
  by (induction es) (auto simp: first_error_def)

lemma backup_written:
  assumes "perform_backup L run c md s = (None, md', s')" and "bm_files md = []"
  shows "\<exists>es files. walk_source (br_walk run) False [] [] = (None, False, es, files)
    \<and> read_file (backup_key L (bm_path md)) s' = Inr (bl_pack L (bc_compression c) es)
    \<and> md' = md\<lparr>bm_files := files, bm_size := int (length (bl_pack L (bc_compression c) es)),
              bm_checksum := bl_sha L (bl_pack L (bc_compression c) es)\<rparr>"
proof -
  define k where "k = backup_key L (bm_path md)"
  have a: "br_create run = None" "br_root run = None"
    using assms(1) by (auto simp: perform_backup_def split: option.splits prod.splits)
  obtain s1 where s1: "create_file (created_mode L 438) k s = (None, s1)"
    using assms(1) a by (auto simp: perform_backup_def k_def split: option.splits prod.splits)
  obtain short es files where w: "walk_source (br_walk run) False [] [] = (None, short, es, files)"
    using assms a s1 by (auto simp: perform_backup_def k_def split: option.splits prod.splits)
  define data where "data = bl_pack L (bc_compression c) es"
  have f: "first_error [if short then Some ''archive/tar: missed writing'' else br_tar_close run,
      if bc_compression c then br_gzip_close run else None, br_close run] = None"
    using assms a s1 w by (auto simp: perform_backup_def k_def Let_def split: option.splits)
  then have "\<not> short" by (auto simp: first_error_None split: if_splits)
  have "br_stat run = None" using assms a s1 w f by (auto simp: perform_backup_def k_def Let_def split: option.splits)
  then have "md' = md\<lparr>bm_files := files, bm_size := int (length data), bm_checksum := bl_sha L data\<rparr> \<and> s' = write_file k data s1"
    using assms a s1 w f by (auto simp: perform_backup_def k_def data_def Let_def split: option.splits)
  moreover obtain m' where "gm_get (write_file k data s1) k = Some (FileNode m' data)" using create_then_write [OF s1] by blast
  ultimately show ?thesis using w \<open>\<not> short\<close> by (auto simp: read_file_def k_def data_def)
qed

lemma dec_nat_no_slash: "slash \<notin> set (dec_nat n)"
  using dec_nat_digits [of slash n] by auto

lemma backup_id_normal: "normal (generate_backup_id n @ ''.json'')" "normal (generate_backup_id n @ ''.tar.gz'')"
  using dec_nat_no_slash by (auto simp: normal_def generate_backup_id_def dec_int_def)

lemma save_metadata_only:
  "save_metadata L e c md s = (r, s') \<Longrightarrow> k \<noteq> backup_key L (metadata_path c (bm_id md)) \<Longrightarrow> gm_get s' k = gm_get s k"
proof -
  assume a: "save_metadata L e c md s = (r, s')" "k \<noteq> backup_key L (metadata_path c (bm_id md))"
  define j where "j = backup_key L (metadata_path c (bm_id md))"
  obtain e1 s1 where c: "create_file (created_mode L 384) j s = (e1, s1)" by fastforce
  have "gm_get s1 k = gm_get s k" "\<And>d. gm_get (write_file j d s1) k = gm_get s1 k"
    using create_file_only [OF c, of k] write_file_only [of j _ s1 k] a(2) by (auto simp: j_def)
  then show ?thesis using a(1) c by (cases e; cases e1) (auto simp: save_metadata_def simp flip: j_def)
qed

lemma backup_created:
  assumes "is_abs (bl_cwd L)" and "create_backup L run src ty m s = (Answers (md, None), m', s')"
  shows "\<exists>es files. walk_source (br_walk run) False [] [] = (None, False, es, files)
    \<and> read_file (backup_key L (bm_path md)) s' = Inr (bl_pack L (bc_compression (bk_config m)) es)
    \<and> bm_checksum md = bl_sha L (bl_pack L (bc_compression (bk_config m)) es)
    \<and> bm_compressed md = bc_compression (bk_config m)
    \<and> gm_get (bk_backups m') (bm_id md) = Some md
    \<and> bk_held m' = False \<and> bk_restoring m' = bk_restoring m"
proof -
  define c where "c = bk_config m"
  define md0 where "md0 = new_backup run c src ty"
  have h: "\<not> bk_held m" using assms(2) by (auto simp: create_backup_def split: if_splits)
  obtain md1 s1 where p: "perform_backup L run c md0 s = (None, md1, s1)"
    using assms(2) h
    by (auto simp: create_backup_def finish_backup_def Let_def c_def md0_def split: option.splits prod.splits)
  have f: "bm_files md0 = []" by (simp add: md0_def new_backup_def Let_def)
  obtain es files where w: "walk_source (br_walk run) False [] [] = (None, False, es, files)"
    and r: "read_file (backup_key L (bm_path md0)) s1 = Inr (bl_pack L (bc_compression c) es)"
    and md1: "md1 = md0\<lparr>bm_files := files, bm_size := int (length (bl_pack L (bc_compression c) es)),
              bm_checksum := bl_sha L (bl_pack L (bc_compression c) es)\<rparr>"
    using backup_written [OF p f] by blast
  have md: "md = md1\<lparr>bm_status := backup_completed, bm_end := br_end run\<rparr>"
    and s': "save_metadata L (br_save run) c md s1 = (None, s')"
    and m': "gm_get (bk_backups m') (bm_id md) = Some md" "bk_held m' = False" "bk_restoring m' = bk_restoring m"
    using assms(2) h p
    by (auto simp: create_backup_def finish_backup_def Let_def c_def md0_def split: prod.splits)
  define i where "i = generate_backup_id (br_unix run)"
  have i: "bm_id md = i" "bm_path md = path_join (bc_dir c) (i @ ''.tar.gz'')" "bm_path md0 = bm_path md" "bm_compressed md = bc_compression c"
    by (simp_all add: md md1 md0_def new_backup_def Let_def i_def)
  have "backup_key L (bm_path md) \<noteq> backup_key L (metadata_path c i)"
    using fs_key_in_dir [OF assms(1) backup_id_normal(1), of "bc_dir c" "br_unix run"]
      fs_key_in_dir [OF assms(1) backup_id_normal(2), of "bc_dir c" "br_unix run"]
    by (simp add: i backup_key_def metadata_path_def i_def)
  then have "gm_get s' (backup_key L (bm_path md)) = gm_get s1 (backup_key L (bm_path md))"
    using save_metadata_only [OF s'] i(1) by simp
  then have "read_file (backup_key L (bm_path md)) s' = Inr (bl_pack L (bc_compression c) es)"
    using r i(3) by (simp add: read_file_def)
  moreover have "bm_checksum md = bl_sha L (bl_pack L (bc_compression c) es)" by (simp add: md md1)
  ultimately show ?thesis using w m' i(4) unfolding c_def by blast
qed

text \<open>What the archive libraries promise: an archive of valid entries is read back, to its end.\<close>

definition valid_entry :: "tar_entry \<Rightarrow> bool" where
  "valid_entry e \<longleftrightarrow> te_size e = int (length (te_data e)) \<and> 0 \<le> te_mode e \<and> te_mode e \<le> 4095
     \<and> te_name e \<noteq> [] \<and> CHR 0x00 \<notin> set (te_name e)"

definition archive_law :: "backup_lib \<Rightarrow> bool" where
  "archive_law L \<longleftrightarrow> (\<forall>c es. list_all valid_entry es \<longrightarrow> bl_unpack L c (bl_pack L c es) = Inr (es, None))"

text \<open>Nothing at or below the target yet, and no file where a directory above it is needed.\<close>

definition fresh_target :: "fs_key \<Rightarrow> fs \<Rightarrow> bool" where
  "fresh_target t s \<longleftrightarrow> list_all (\<lambda>(k, n). \<not> prefix t k \<and> (strict_prefix k t \<longrightarrow> k = [] \<or> n = DirNode (node_mode n))) s"

lemma fresh_restored: "fresh_target t s \<Longrightarrow> restored L t [] s"
proof -
  assume a: "fresh_target t s"
  have "gm_get s (t @ k) = None" for k
  proof (cases "gm_get s (t @ k)")
    case (Some n)
    then show ?thesis using a gm_get_in [OF Some] by (auto simp: fresh_target_def list_all_iff)
  qed
  moreover have "gm_get s j \<noteq> Some (FileNode m d)" if "strict_prefix j t" "j \<noteq> []" for j m d
    using a gm_get_in [of s j "FileNode m d"] that by (auto simp: fresh_target_def list_all_iff)
  ultimately show ?thesis by (simp add: restored_def tree_of_def)
qed

lemma lists_tree_plain: "lists_tree seen is \<Longrightarrow> list_all plain_item is"
  by (induction seen "is" rule: lists_tree.induct) auto

lemma plain_names:
  assumes "plain_item i" shows "wi_name i \<noteq> []"
proof -
  show ?thesis
  proof
    assume e: "wi_name i = []"
    then have "item_key i = []" by (simp add: item_key_def clean_parts_def is_abs_def)
    then show False using assms e by (simp add: plain_item_def render_path_def)
  qed
qed

text \<open>
  C33: a backup of a tree of directories and regular files that succeeds is a backup.  Restored by a
  process that permissions do not stop into a target where nothing is yet, the tree below the target
  is the tree that was walked, with the same contents, and nothing else; of the modes the permission
  bits are kept that the file mode creation mask leaves.  The retention that follows the backup must
  have nothing to delete: it then ends and changes nothing, so it does not matter when it runs.
\<close>

theorem backups_restore_the_tree:
  assumes "archive_law L" and "is_abs (bl_cwd L)" and "is_abs target" and "backup_key L target \<noteq> []"
    and "create_backup L run src ty m s = (Answers (md, None), m1, s1)" and "\<not> bk_restoring m"
    and "lists_tree [] (br_walk run)" and "list_all (\<lambda>i. CHR 0x00 \<notin> set (wi_name i)) (br_walk run)"
    and "fresh_target (backup_key L target) s1" and "\<not> retention_due now m1"
  shows "apply_retention L now m1 s1 = ((Answers (), None), m1, s1)
    \<and> (\<exists>s2. restore_backup L (\<lambda>n. False) (bm_id md) target m1 s1 = (Answers None, m1, s2)
         \<and> (\<forall>k. gm_get s2 (backup_key L target @ k) = gm_get (tree_of L (br_walk run)) k))"
proof -
  define c where "c = bc_compression (bk_config m)"
  obtain es files where w: "walk_source (br_walk run) False [] [] = (None, False, es, files)"
    and r: "read_file (backup_key L (bm_path md)) s1 = Inr (bl_pack L c es)"
    and md: "bm_checksum md = bl_sha L (bl_pack L c es)" "bm_compressed md = c"
    and m1: "gm_get (bk_backups m1) (bm_id md) = Some md" "bk_held m1 = False" "bk_restoring m1 = bk_restoring m"
    using backup_created [OF assms(2,5)] by (auto simp: c_def)
  note plain = lists_tree_plain [OF assms(7)]
  have es: "es = map item_entry (br_walk run)"
    and sz: "list_all (\<lambda>i. wi_kind i = WalkReg \<longrightarrow> wi_size i = int (length (wi_data i))) (br_walk run)"
    using walk_written [OF w plain] by simp_all
  have "list_all valid_entry es"
    using plain sz assms(8) plain_names
    by (auto simp: es list_all_iff valid_entry_def item_entry_def header_of_def plain_item_def)
  then have u: "bl_unpack L c (bl_pack L c es) = Inr (es, None)" using assms(1) by (simp add: archive_law_def)
  obtain s2 where s2: "restore_entries L target (\<lambda>n. False) 0 es None s1 = (None, s2)"
      "restored L (backup_key L target) (br_walk run) s2"
    using restore_items [OF assms(2-4,7) sz fresh_restored [OF assms(9)], of 0] es by auto
  have "m1\<lparr>bk_restoring := False\<rparr> = m1" using m1(3) assms(6) by (cases m1) simp
  then have "restore_backup L (\<lambda>n. False) (bm_id md) target m1 s1 = (Answers None, m1, s2)"
    using assms(6) m1 r md u s2(1)
    by (simp add: restore_backup_def enter_restore_def run_restore_def verify_backup_def perform_restore_def)
  then show ?thesis using s2(2) retention_result(1) [of m1 now L s1] m1(2) assms(10) by (auto simp: restored_def)
qed

text \<open>An archive format that keeps the promise, for the concrete inputs: numbers in unary, then the bytes.\<close>

definition put_nat :: "nat \<Rightarrow> byte list" where
  "put_nat n = replicate n 1 @ [0]"

fun cut_nat :: "byte list \<Rightarrow> nat \<times> byte list" where
  "cut_nat [] = (0, [])"
| "cut_nat (b # bs) = (if b = 0 then (0, bs) else apfst Suc (cut_nat bs))"

lemma cut_put_nat [simp]: "cut_nat (put_nat n @ r) = (n, r)"
  unfolding put_nat_def by (induction n) auto

definition put_bytes :: "byte list \<Rightarrow> byte list" where
  "put_bytes d = put_nat (length d) @ d"

definition cut_bytes :: "byte list \<Rightarrow> byte list \<times> byte list" where
  "cut_bytes bs = (case cut_nat bs of (n, r) \<Rightarrow> (take n r, drop n r))"

lemma cut_put_bytes [simp]: "cut_bytes (put_bytes d @ r) = (d, r)"
  by (simp add: cut_bytes_def put_bytes_def)

fun tar_code :: "tar_type \<Rightarrow> nat" where
  "tar_code TarDir = 0" | "tar_code TarReg = 1" | "tar_code TarOther = 2"

definition put_entry :: "tar_entry \<Rightarrow> byte list" where
  "put_entry e = put_nat (tar_code (te_type e)) @ put_nat (nat (te_mode e))
     @ put_bytes (map (\<lambda>c. of_nat (of_char c)) (te_name e)) @ put_bytes (te_data e)"

definition cut_entry :: "byte list \<Rightarrow> tar_entry \<times> byte list" where
  "cut_entry bs =
     (case cut_nat bs of (t, bs) \<Rightarrow> case cut_nat bs of (m, bs) \<Rightarrow> case cut_bytes bs of (n, bs) \<Rightarrow> case cut_bytes bs of (d, bs) \<Rightarrow>
        (\<lparr>te_name = map (\<lambda>b. char_of (unat b)) n, te_type = (if t = 0 then TarDir else if t = 1 then TarReg else TarOther),
          te_mode = int m, te_size = int (length d), te_data = d\<rparr>, bs))"

lemma byte_of_char: "char_of (unat (of_nat (of_char c) :: byte)) = (c :: char)"
  by (simp add: unat_of_nat)

lemma cut_put_entry:
  assumes "valid_entry e"
  shows "cut_entry (put_entry e @ r) = (e, r)"
proof -
  have "map (\<lambda>b. char_of (unat b)) (map (\<lambda>c. of_nat (of_char c) :: byte) (te_name e)) = te_name e"
    by (simp add: comp_def byte_of_char)
  then show ?thesis using assms
    by (cases "te_type e") (simp_all add: cut_entry_def put_entry_def valid_entry_def)
qed

definition put_stream :: "tar_entry list \<Rightarrow> byte list" where
  "put_stream es = concat (map (\<lambda>e. 1 # put_entry e) es) @ [0]"

fun cut_stream :: "nat \<Rightarrow> byte list \<Rightarrow> tar_entry list" where
  "cut_stream 0 bs = []"
| "cut_stream (Suc n) [] = []"
| "cut_stream (Suc n) (b # bs) = (if b = 0 then [] else case cut_entry bs of (e, r) \<Rightarrow> e # cut_stream n r)"

lemma cut_put_stream: "list_all valid_entry es \<Longrightarrow> length es < n \<Longrightarrow> cut_stream n (put_stream es) = es"
proof (induction es arbitrary: n)
  case Nil
  then show ?case by (cases n) (simp_all add: put_stream_def)
next
  case (Cons e es)
  then obtain m where n: "n = Suc m" "length es < m" by (cases n) auto
  have "put_stream (e # es) = 1 # put_entry e @ put_stream es" by (simp add: put_stream_def)
  then show ?case using Cons.IH [OF _ n(2)] Cons.prems(1) n(1) cut_put_entry [of e] by simp
qed

lemma put_stream_length: "length es < length (put_stream es)"
  by (induction es) (simp_all add: put_stream_def)

definition sample_lib :: backup_lib where
  "sample_lib =
     \<lparr>bl_cwd = ''/'', bl_umask = 18, bl_pack = (\<lambda>c es. put_stream es), bl_unpack = (\<lambda>c d. Inr (cut_stream (length d) d, None)),
      bl_sha = (\<lambda>d. dec_nat (length d)), bl_json = (\<lambda>md. []), bl_unjson = (\<lambda>d. None)\<rparr>"

lemma sample_archives: "archive_law sample_lib"
  by (simp add: archive_law_def sample_lib_def cut_put_stream put_stream_length)

definition sample_item :: "string \<Rightarrow> walk_kind \<Rightarrow> byte list \<Rightarrow> walk_item" where
  "sample_item n k d = \<lparr>wi_name = n, wi_kind = k, wi_mode = 7, wi_size = int (length d), wi_data = d, wi_walk_error = None,
     wi_cancelled = False, wi_info_error = None, wi_open_error = None, wi_copy_error = None\<rparr>"

definition sample_run :: backup_run where
  "sample_run = \<lparr>br_unix = 5, br_start = 5, br_end = 6, br_create = None, br_root = None,
     br_walk = [sample_item ''.'' WalkDir [], sample_item ''d'' WalkDir [], sample_item ''d/f'' WalkReg [1, 2], sample_item ''e'' WalkReg []],
     br_partial = [], br_tar_close = None, br_gzip_close = None, br_close = None, br_stat = None, br_open = None,
     br_read = None, br_save = None\<rparr>"

definition sample_backup where
  "sample_backup = create_backup sample_lib sample_run ''/src'' backup_type_full
     \<lparr>bk_config = default_backup_config, bk_backups = [], bk_restoring = False, bk_held = False, bk_stopped = False\<rparr> [([''backups''], DirNode 488)]"

lemma sample_backup_succeeds:
  "case sample_backup of
     (Answers (md, e), m1, s1) \<Rightarrow> e = None \<and> fresh_target (backup_key sample_lib ''/t'') s1 \<and> \<not> retention_due 6 m1 \<and> bm_id md = ''backup-5''
   | _ \<Rightarrow> False"
  by code_simp

lemma sample_walk:
  "lists_tree [] (br_walk sample_run)" "list_all (\<lambda>i. CHR 0x00 \<notin> set (wi_name i)) (br_walk sample_run)"
  "is_abs (bl_cwd sample_lib)" "is_abs ''/t''" "backup_key sample_lib ''/t'' = [''t'']"
  "gm_get (tree_of sample_lib (br_walk sample_run)) [''d'', ''f''] = Some (FileNode 5 [1, 2])"
  by code_simp+

theorem backups_restore_the_tree_witness:
  "\<exists>md m1 s1 s2. sample_backup = (Answers (md, None), m1, s1)
     \<and> restore_backup sample_lib (\<lambda>n. False) (bm_id md) ''/t'' m1 s1 = (Answers None, m1, s2)
     \<and> gm_get s2 [''t'', ''d'', ''f''] = Some (FileNode 5 [1, 2])"
proof -
  obtain md m1 s1 where b: "sample_backup = (Answers (md, None), m1, s1)" and f: "fresh_target (backup_key sample_lib ''/t'') s1"
    and due: "\<not> retention_due 6 m1"
    using sample_backup_succeeds by (auto split: prod.splits answer.splits)
  have "backup_key sample_lib ''/t'' \<noteq> []" by (simp add: sample_walk(5))
  from backups_restore_the_tree [OF sample_archives sample_walk(3,4) this b [unfolded sample_backup_def] _ sample_walk(1,2) f due]
  obtain s2 where "restore_backup sample_lib (\<lambda>n. False) (bm_id md) ''/t'' m1 s1 = (Answers None, m1, s2)"
      "\<And>k. gm_get s2 (backup_key sample_lib ''/t'' @ k) = gm_get (tree_of sample_lib (br_walk sample_run)) k" by auto
  then have "gm_get s2 [''t'', ''d'', ''f''] = Some (FileNode 5 [1, 2])"
    using sample_walk(5,6) by (metis append_Cons append_Nil)
  then show ?thesis using b \<open>restore_backup sample_lib _ _ _ m1 s1 = _\<close> by blast
qed

text \<open>
  Modes do not survive in general: with the usual mask a directory that everybody may write to and
  that is sticky, like \<open>/tmp\<close>, comes back without either, and a set-user-id program without that bit.
\<close>

lemma modes_may_change: "created_mode sample_lib 1023 = 493" "created_mode sample_lib 2541 = 493"
  by code_simp+

text \<open>Identifiers are seconds: the second backup of a second replaces the first, archive and record.\<close>

lemma same_second_collides:
  "case sample_backup of
     (a, m1, s1) \<Rightarrow> (case create_backup sample_lib sample_run ''/other'' backup_type_full m1 s1 of
        (a', m2, s2) \<Rightarrow> map fst (bk_backups m2) = [''backup-5''] \<and> map fst s2 = map fst s1)"
  by code_simp

end
