(* ===== verification/Connection_Pool.thy ===== *)
theory Connection_Pool
  imports Go_Prelude
begin

text \<open>
  \<open>providers/vsphere/pool.go\<close>: a bounded pool of connections.  A connection is its number in
  \<open>pl_heap\<close>, and so is its client, since each is created with one.  \<open>Get\<close> is cut where other
  goroutines can come between its channel operation and its critical sections; \<open>Put\<close>, the health
  check and \<open>Close\<close> hold the mutex throughout.  Parameters: the clock and whether a login succeeds.
\<close>

section \<open>Data\<close>

record pool_config =
  pcf_max :: int
  pcf_idle :: duration
  pcf_check :: duration

definition default_pool_config :: pool_config where
  "default_pool_config = \<lparr>pcf_max = 5, pcf_idle = 5 * minute, pcf_check = 30 * second\<rparr>"

record pooled_connection =
  pn_created :: instant
  pn_last_used :: instant
  pn_in_use :: bool

text \<open>\<open>pl_logged_out\<close>: the clients whose \<open>Logout\<close> was called, in that order.\<close>

record connection_pool =
  pl_config :: pool_config
  pl_heap :: "pooled_connection list"
  pl_connections :: "nat list"
  pl_available :: "nat list"
  pl_closed :: bool
  pl_logged_out :: "nat list"
  pl_created :: int
  pl_reused :: int

text \<open>A negative capacity panics.\<close>

definition new_connection_pool :: "pool_config option \<Rightarrow> connection_pool option" where
  "new_connection_pool oc =
     (let c = (case oc of None \<Rightarrow> default_pool_config | Some c \<Rightarrow> c)
      in if pcf_max c < 0 then None
         else Some \<lparr>pl_config = c, pl_heap = [], pl_connections = [], pl_available = [], pl_closed = False,
                    pl_logged_out = [], pl_created = 0, pl_reused = 0\<rparr>)"

definition close_connection :: "nat \<Rightarrow> connection_pool \<Rightarrow> connection_pool" where
  "close_connection c p = p\<lparr>pl_logged_out := pl_logged_out p @ [c]\<rparr>"

definition is_full :: "connection_pool \<Rightarrow> bool" where
  "is_full p \<longleftrightarrow> pcf_max (pl_config p) \<le> int (length (pl_connections p))"

section \<open>Get\<close>

datatype get_result = GotClient nat | GetCancelled | PoolExhausted int | LoginFailed string | NilConnection

text \<open>Where a call of \<open>Get\<close> is between two sections.\<close>

datatype get_call = Marking nat | Closing nat | Counting | Creating | Waiting

datatype get_step = Continues get_call | Returns get_result

text \<open>The first \<open>select\<close>, when it receives; a closed channel that is empty delivers nil.\<close>

definition get_receive :: "instant \<Rightarrow> connection_pool \<Rightarrow> get_step \<times> connection_pool" where
  "get_receive now p =
     (case pl_available p of
        [] \<Rightarrow> (Returns NilConnection, p)
      | c # cs \<Rightarrow>
          (Continues (if pcf_idle (pl_config p) < now - pn_last_used (pl_heap p ! c) then Closing c else Marking c),
           p\<lparr>pl_available := cs\<rparr>))"

text \<open>The second \<open>select\<close>, which does not look at the age.\<close>

definition get_wait_receive :: "connection_pool \<Rightarrow> get_step \<times> connection_pool" where
  "get_wait_receive p =
     (case pl_available p of
        [] \<Rightarrow> (Returns NilConnection, p)
      | c # cs \<Rightarrow> (Continues (Marking c), p\<lparr>pl_available := cs\<rparr>))"

definition get_mark :: "instant \<Rightarrow> nat \<Rightarrow> connection_pool \<Rightarrow> get_step \<times> connection_pool" where
  "get_mark now c p =
     (Returns (GotClient c),
      p\<lparr>pl_heap := (pl_heap p)[c := (pl_heap p ! c)\<lparr>pn_in_use := True, pn_last_used := now\<rparr>], pl_reused := pl_reused p + 1\<rparr>)"

definition get_count :: "connection_pool \<Rightarrow> get_step" where
  "get_count p = Continues (if is_full p then Waiting else Creating)"

definition create_new_connection :: "instant \<Rightarrow> string option \<Rightarrow> connection_pool \<Rightarrow> get_step \<times> connection_pool" where
  "create_new_connection now login p =
     (if is_full p then (Returns (PoolExhausted (pcf_max (pl_config p))), p)
      else case login of
        Some e \<Rightarrow> (Returns (LoginFailed e), p)
      | None \<Rightarrow>
          (Returns (GotClient (length (pl_heap p))),
           p\<lparr>pl_heap := pl_heap p @ [\<lparr>pn_created = now, pn_last_used = now, pn_in_use = True\<rparr>],
             pl_connections := pl_connections p @ [length (pl_heap p)], pl_created := pl_created p + 1\<rparr>))"

text \<open>The next section of a call; the second \<open>select\<close> is not one of them.\<close>

fun get_advance :: "instant \<Rightarrow> string option \<Rightarrow> get_call \<Rightarrow> connection_pool \<Rightarrow> (get_step \<times> connection_pool) option" where
  "get_advance now login (Marking c) p = Some (get_mark now c p)"
| "get_advance now login (Closing c) p = Some (Continues Creating, close_connection c p)"
| "get_advance now login Counting p = Some (get_count p, p)"
| "get_advance now login Creating p = Some (create_new_connection now login p)"
| "get_advance now login Waiting p = None"

section \<open>Put, the health check, closing and statistics\<close>

text \<open>
  Sending on a closed channel panics, also in a \<open>select\<close> with a default: a call of \<open>Get\<close> can put a
  connection in the slice after \<open>Close\<close> has emptied it.
\<close>

definition pool_put :: "instant \<Rightarrow> nat option \<Rightarrow> connection_pool \<Rightarrow> connection_pool option" where
  "pool_put now oc p =
     (case oc of
        None \<Rightarrow> Some p
      | Some c \<Rightarrow>
          if c \<in> set (pl_connections p)
          then let p = p\<lparr>pl_heap := (pl_heap p)[c := (pl_heap p ! c)\<lparr>pn_in_use := False, pn_last_used := now\<rparr>]\<rparr>
               in if pl_closed p then None
                  else if int (length (pl_available p)) < pcf_max (pl_config p) then Some (p\<lparr>pl_available := pl_available p @ [c]\<rparr>)
                  else Some (close_connection c p)
          else Some (close_connection c p))"

definition too_idle :: "instant \<Rightarrow> connection_pool \<Rightarrow> nat \<Rightarrow> bool" where
  "too_idle now p c \<longleftrightarrow> \<not> pn_in_use (pl_heap p ! c) \<and> pcf_idle (pl_config p) < now - pn_last_used (pl_heap p ! c)"

text \<open>The loop runs from the last connection to the first.\<close>

definition perform_health_check :: "instant \<Rightarrow> connection_pool \<Rightarrow> connection_pool" where
  "perform_health_check now p =
     p\<lparr>pl_connections := filter (\<lambda>c. \<not> too_idle now p c) (pl_connections p),
       pl_logged_out := pl_logged_out p @ rev (filter (too_idle now p) (pl_connections p))\<rparr>"

text \<open>Closing a closed channel panics.\<close>

definition close_pool :: "connection_pool \<Rightarrow> connection_pool option" where
  "close_pool p =
     (if pl_closed p then None
      else Some (p\<lparr>pl_logged_out := pl_logged_out p @ pl_connections p, pl_connections := [], pl_closed := True\<rparr>))"

record pool_stats_view =
  psv_total :: nat
  psv_in_use :: nat
  psv_idle :: nat
  psv_max :: int
  psv_created :: int
  psv_reused :: int

definition pool_stats :: "connection_pool \<Rightarrow> pool_stats_view" where
  "pool_stats p =
     \<lparr>psv_total = length (pl_connections p), psv_in_use = length (filter (\<lambda>c. pn_in_use (pl_heap p ! c)) (pl_connections p)),
      psv_idle = length (filter (\<lambda>c. \<not> pn_in_use (pl_heap p ! c)) (pl_connections p)), psv_max = pcf_max (pl_config p),
      psv_created = pl_created p, psv_reused = pl_reused p\<rparr>"

section \<open>The pool and its clients\<close>

text \<open>
  Calls in progress by number, the connections that clients hold, and the clock.  Clients put back
  what they hold.
\<close>

record pool_system =
  ps_pool :: connection_pool
  ps_calls :: "(nat, get_call) gomap"
  ps_held :: "nat list"
  ps_now :: instant

datatype pool_event =
    Receives nat
  | FindsNone nat
  | Advances nat "string option"
  | WaitReceives nat
  | GivesUp nat
  | PutsBack nat
  | HealthCheck
  | Passes duration
  | ClosesPool

definition settle :: "nat \<Rightarrow> get_step \<times> connection_pool \<Rightarrow> pool_system \<Rightarrow> pool_system" where
  "settle t r s =
     (case r of
        (Continues k, p) \<Rightarrow> s\<lparr>ps_pool := p, ps_calls := gm_put t k (ps_calls s)\<rparr>
      | (Returns a, p) \<Rightarrow>
          s\<lparr>ps_pool := p, ps_calls := gm_del t (ps_calls s),
            ps_held := (case a of GotClient c \<Rightarrow> ps_held s @ [c] | _ \<Rightarrow> ps_held s)\<rparr>)"

fun pool_step :: "pool_event \<Rightarrow> pool_system \<Rightarrow> pool_system option" where
  "pool_step (Receives t) s =
     (if gm_get (ps_calls s) t = None \<and> (pl_available (ps_pool s) \<noteq> [] \<or> pl_closed (ps_pool s))
      then Some (settle t (get_receive (ps_now s) (ps_pool s)) s) else None)"
| "pool_step (FindsNone t) s =
     (if gm_get (ps_calls s) t = None \<and> pl_available (ps_pool s) = [] \<and> \<not> pl_closed (ps_pool s)
      then Some (s\<lparr>ps_calls := gm_put t Counting (ps_calls s)\<rparr>) else None)"
| "pool_step (Advances t login) s =
     (case gm_get (ps_calls s) t of
        None \<Rightarrow> None
      | Some k \<Rightarrow> map_option (\<lambda>r. settle t r s) (get_advance (ps_now s) login k (ps_pool s)))"
| "pool_step (WaitReceives t) s =
     (if gm_get (ps_calls s) t = Some Waiting \<and> (pl_available (ps_pool s) \<noteq> [] \<or> pl_closed (ps_pool s))
      then Some (settle t (get_wait_receive (ps_pool s)) s) else None)"
| "pool_step (GivesUp t) s =
     (if gm_get (ps_calls s) t = Some Waiting then Some (s\<lparr>ps_calls := gm_del t (ps_calls s)\<rparr>) else None)"
| "pool_step (PutsBack c) s =
     (if c \<in> set (ps_held s)
      then map_option (\<lambda>p. s\<lparr>ps_pool := p, ps_held := remove1 c (ps_held s)\<rparr>) (pool_put (ps_now s) (Some c) (ps_pool s)) else None)"
| "pool_step HealthCheck s =
     (if pl_closed (ps_pool s) then None else Some (s\<lparr>ps_pool := perform_health_check (ps_now s) (ps_pool s)\<rparr>))"
| "pool_step (Passes d) s = (if 0 \<le> d then Some (s\<lparr>ps_now := ps_now s + d\<rparr>) else None)"
| "pool_step ClosesPool s = map_option (\<lambda>p. s\<lparr>ps_pool := p\<rparr>) (close_pool (ps_pool s))"

text \<open>The states reached by events that \<open>P\<close> allows.\<close>

inductive pool_reachable :: "(pool_event \<Rightarrow> pool_system \<Rightarrow> bool) \<Rightarrow> pool_config \<Rightarrow> pool_system \<Rightarrow> bool"
  for P :: "pool_event \<Rightarrow> pool_system \<Rightarrow> bool" and c :: pool_config where
  start: "new_connection_pool (Some c) = Some p \<Longrightarrow>
     pool_reachable P c \<lparr>ps_pool = p, ps_calls = [], ps_held = [], ps_now = now\<rparr>"
| step: "pool_reachable P c s \<Longrightarrow> P e s \<Longrightarrow> pool_step e s = Some s' \<Longrightarrow> pool_reachable P c s'"

fun pool_run :: "pool_event list \<Rightarrow> pool_system \<Rightarrow> pool_system option" where
  "pool_run [] s = Some s"
| "pool_run (e # es) s = (case pool_step e s of None \<Rightarrow> None | Some s \<Rightarrow> pool_run es s)"

section \<open>Every connection has one owner\<close>

fun claim_of :: "get_call \<Rightarrow> nat option" where
  "claim_of (Marking c) = Some c"
| "claim_of (Closing c) = Some c"
| "claim_of k = None"

definition claimed :: "pool_system \<Rightarrow> nat \<Rightarrow> nat option" where
  "claimed s t = Option.bind (gm_get (ps_calls s) t) claim_of"

definition one_owner :: "pool_system \<Rightarrow> bool" where
  "one_owner s \<longleftrightarrow> distinct (ps_held s @ pl_available (ps_pool s))
     \<and> (\<forall>t c. claimed s t = Some c \<longrightarrow> c \<notin> set (ps_held s @ pl_available (ps_pool s)))
     \<and> (\<forall>t t' c. claimed s t = Some c \<longrightarrow> claimed s t' = Some c \<longrightarrow> t = t')"

definition known_connections :: "pool_system \<Rightarrow> bool" where
  "known_connections s \<longleftrightarrow>
     (\<forall>c \<in> set (ps_held s @ pl_available (ps_pool s) @ pl_connections (ps_pool s) @ pl_logged_out (ps_pool s)).
        c < length (pl_heap (ps_pool s)))
     \<and> (\<forall>t c. claimed s t = Some c \<longrightarrow> c < length (pl_heap (ps_pool s)))"

definition pool_bounded :: "pool_config \<Rightarrow> pool_system \<Rightarrow> bool" where
  "pool_bounded cfg s \<longleftrightarrow> pl_config (ps_pool s) = cfg \<and> distinct (pl_connections (ps_pool s))
     \<and> int (length (pl_connections (ps_pool s))) \<le> pcf_max cfg \<and> int (length (pl_available (ps_pool s))) \<le> pcf_max cfg"

lemmas pool_fields = close_connection_def get_receive_def get_wait_receive_def get_mark_def create_new_connection_def
  pool_put_def perform_health_check_def close_pool_def get_count_def

lemma claimed_put: "claimed (s\<lparr>ps_calls := gm_put t k cs\<rparr>) u = (if u = t then claim_of k else Option.bind (gm_get cs u) claim_of)"
  by (simp add: claimed_def map_ops)

lemma claimed_del: "claimed (s\<lparr>ps_calls := gm_del t cs\<rparr>) u = (if u = t then None else Option.bind (gm_get cs u) claim_of)"
  by (simp add: claimed_def map_ops)

text \<open>What a step of a call changes.\<close>

lemma claimed_settle:
  "claimed (settle t (r, p) s) u =
     (if u = t then (case r of Continues k \<Rightarrow> claim_of k | Returns a \<Rightarrow> None) else claimed s u)"
  by (cases r) (auto simp: settle_def claimed_def map_ops)

lemma settle_fields:
  "ps_pool (settle t (r, p) s) = p"
  "ps_now (settle t (r, p) s) = ps_now s"
  "ps_held (settle t (r, p) s) = (case r of Returns (GotClient c) \<Rightarrow> ps_held s @ [c] | _ \<Rightarrow> ps_held s)"
  "gm_get (ps_calls (settle t (r, p) s)) u =
     (if u = t then (case r of Continues k \<Rightarrow> Some k | Returns a \<Rightarrow> None) else gm_get (ps_calls s) u)"
  by (cases r; auto simp: settle_def map_ops split: get_result.splits)+

lemma receive_owner:
  assumes "one_owner s" and "known_connections s" and "pool_bounded cfg s"
    and "pl_available (ps_pool s) = c # cs" and "claim_of k = Some c" and "gm_get (ps_calls s) t = None \<or> gm_get (ps_calls s) t = Some Waiting"
    and "settle t (Continues k, (ps_pool s)\<lparr>pl_available := cs\<rparr>) s = s'"
  shows "one_owner s' \<and> known_connections s' \<and> pool_bounded cfg s'"
proof -
  have n: "claimed s t = None" using assms(6) by (auto simp: claimed_def)
  show ?thesis using assms(1-6) n unfolding assms(7) [symmetric]
    by (simp add: one_owner_def known_connections_def pool_bounded_def claimed_settle settle_fields split: if_splits) blast
qed

lemma nil_owner:
  assumes "one_owner s" and "known_connections s" and "pool_bounded cfg s" and "settle t (Returns NilConnection, ps_pool s) s = s'"
  shows "one_owner s' \<and> known_connections s' \<and> pool_bounded cfg s'"
  using assms(1-3) unfolding assms(4) [symmetric]
  by (simp add: one_owner_def known_connections_def pool_bounded_def claimed_settle settle_fields)

lemma step_owner:
  assumes "one_owner s" and "known_connections s" and "pool_bounded cfg s" and "pool_step e s = Some s'"
  shows "one_owner s' \<and> known_connections s' \<and> pool_bounded cfg s'"
proof (cases e)
  case (Receives t)
  show ?thesis
  proof (cases "pl_available (ps_pool s)")
    case Nil
    then show ?thesis using assms(4) Receives nil_owner [OF assms(1-3)] by (auto simp add: get_receive_def split: if_splits)
  next
    case (Cons c cs)
    then show ?thesis using assms(4) Receives receive_owner [OF assms(1-3) Cons, of "Marking c" t s']
        receive_owner [OF assms(1-3) Cons, of "Closing c" t s']
      by (simp add: get_receive_def split: if_splits)
  qed
next
  case (WaitReceives t)
  show ?thesis
  proof (cases "pl_available (ps_pool s)")
    case Nil
    then show ?thesis using assms(4) WaitReceives nil_owner [OF assms(1-3)] by (auto simp add: get_wait_receive_def split: if_splits)
  next
    case (Cons c cs)
    then show ?thesis using assms(4) WaitReceives receive_owner [OF assms(1-3) Cons, of "Marking c" t s']
      by (simp add: get_wait_receive_def split: if_splits)
  qed
next
  case (FindsNone t)
  then have s': "s' = s\<lparr>ps_calls := gm_put t Counting (ps_calls s)\<rparr>" and t: "gm_get (ps_calls s) t = None"
    using assms(4) by (auto split: if_splits)
  have "claimed s' u = claimed s u" for u using t by (simp add: s' claimed_def map_ops)
  then show ?thesis using assms(1-3) by (simp add: one_owner_def known_connections_def pool_bounded_def) (simp add: s')
next
  case (GivesUp t)
  then have s': "s' = s\<lparr>ps_calls := gm_del t (ps_calls s)\<rparr>" and t: "gm_get (ps_calls s) t = Some Waiting"
    using assms(4) by (auto split: if_splits)
  have "claimed s' u = claimed s u" for u using t by (simp add: s' claimed_def map_ops)
  then show ?thesis using assms(1-3) by (simp add: one_owner_def known_connections_def pool_bounded_def) (simp add: s')
next
  case (Advances t login)
  then obtain k r where k: "gm_get (ps_calls s) t = Some k" "get_advance (ps_now s) login k (ps_pool s) = Some r"
      "s' = settle t r s"
    using assms(4) by (auto split: option.splits)
  show ?thesis
  proof (cases k)
    case (Marking c)
    then have c: "claimed s t = Some c" using k(1) by (simp add: claimed_def)
    then have "c \<notin> set (ps_held s @ pl_available (ps_pool s))" "c < length (pl_heap (ps_pool s))"
        "\<And>u. u \<noteq> t \<Longrightarrow> claimed s u \<noteq> Some c"
      using assms(1,2) by (auto simp: one_owner_def known_connections_def)
    then show ?thesis using assms(1-3) k Marking
      by (auto simp: get_mark_def one_owner_def known_connections_def pool_bounded_def claimed_settle settle_fields split: if_splits)
  next
    case (Closing c)
    then have c: "claimed s t = Some c" using k(1) by (simp add: claimed_def)
    then show ?thesis using assms(1-3) k Closing
      by (auto simp: close_connection_def one_owner_def known_connections_def pool_bounded_def claimed_settle settle_fields split: if_splits)
  next
    case Counting
    then show ?thesis using assms(1-3) k
      by (auto simp: get_count_def one_owner_def known_connections_def pool_bounded_def claimed_settle settle_fields split: if_splits)
  next
    case Creating
    have n: "length (pl_heap (ps_pool s)) \<notin> set (ps_held s @ pl_available (ps_pool s) @ pl_connections (ps_pool s))"
        "claimed s u \<noteq> Some (length (pl_heap (ps_pool s)))" for u
      using assms(2) by (auto simp: known_connections_def)
    show ?thesis
    proof (cases "is_full (ps_pool s) \<or> login \<noteq> None")
      case True
      then show ?thesis using assms(1-3) k Creating
        by (auto simp: create_new_connection_def one_owner_def known_connections_def pool_bounded_def claimed_settle settle_fields
            split: if_splits option.splits)
    next
      case False
      then have s': "s' = settle t (create_new_connection (ps_now s) None (ps_pool s)) s" "\<not> is_full (ps_pool s)" using k Creating by auto
      have "one_owner s'" using assms(1) n s'
        by (auto simp: create_new_connection_def one_owner_def claimed_settle settle_fields)
      moreover have "known_connections s'" using assms(2) s'
        by (auto simp: create_new_connection_def known_connections_def claimed_settle settle_fields intro: less_SucI split: if_splits)
      moreover have "pool_bounded cfg s'" using assms(3) n(1) s'
        by (auto simp: create_new_connection_def pool_bounded_def settle_fields is_full_def)
      ultimately show ?thesis by blast
    qed
  next
    case Waiting
    then show ?thesis using k by simp
  qed
next
  case (PutsBack c)
  then obtain p where p: "pool_put (ps_now s) (Some c) (ps_pool s) = Some p"
      and s': "s' = s\<lparr>ps_pool := p, ps_held := remove1 c (ps_held s)\<rparr>" and c: "c \<in> set (ps_held s)"
    using assms(4) by (auto split: if_splits)
  have d: "distinct (ps_held s)" "c \<notin> set (pl_available (ps_pool s))" "c < length (pl_heap (ps_pool s))"
    using assms(1,2) c by (auto simp: one_owner_def known_connections_def)
  have cl: "claimed s' u = claimed s u" for u by (simp add: s' claimed_def)
  have "one_owner s'" using assms(1) c d cl p
    by (auto simp: one_owner_def s' pool_put_def close_connection_def Let_def split: if_splits)
  moreover have "known_connections s'" using assms(2) c d cl p
    by (auto simp: known_connections_def s' pool_put_def close_connection_def Let_def split: if_splits)
  moreover have "pool_bounded cfg s'" using assms(3) p
    by (auto simp: pool_bounded_def s' pool_put_def close_connection_def Let_def split: if_splits)
  ultimately show ?thesis by blast
next
  case HealthCheck
  then have s': "s' = s\<lparr>ps_pool := perform_health_check (ps_now s) (ps_pool s)\<rparr>" using assms(4) by (auto split: if_splits)
  have cl: "claimed s' u = claimed s u" for u by (simp add: s' claimed_def)
  have le: "int (length (filter P (pl_connections (ps_pool s)))) \<le> int (length (pl_connections (ps_pool s)))" for P by simp
  show ?thesis using assms(1-3) cl le order.trans [OF le]
    by (auto simp: one_owner_def known_connections_def pool_bounded_def s' perform_health_check_def)
next
  case (Passes d)
  then have s': "s' = s\<lparr>ps_now := ps_now s + d\<rparr>" using assms(4) by (auto split: if_splits)
  then show ?thesis using assms(1-3) by (simp add: one_owner_def known_connections_def pool_bounded_def claimed_def)
next
  case ClosesPool
  then show ?thesis using assms
    by (auto simp: one_owner_def known_connections_def pool_bounded_def claimed_def close_pool_def split: if_splits)
qed

lemma reachable_owner: "pool_reachable P cfg s \<Longrightarrow> one_owner s \<and> known_connections s \<and> pool_bounded cfg s"
proof (induction rule: pool_reachable.induct)
  case (start p now)
  then show ?case
    by (auto simp: new_connection_pool_def one_owner_def known_connections_def pool_bounded_def claimed_def split: if_splits)
next
  case (step s e s')
  then show ?case using step_owner by blast
qed

text \<open>
  C36: under every interleaving of the calls of \<open>Get\<close>, of clients that put back what they hold, of
  health checks and closing, the pool never has more than its maximum of connections, no connection is
  handed to two clients at a time, and none is handed out that waits in the channel or is being handed
  to another call.
\<close>

theorem pool_is_exclusive:
  assumes "pool_reachable P cfg s"
  shows "distinct (ps_held s @ pl_available (ps_pool s))
    \<and> (\<forall>t c. claimed s t = Some c \<longrightarrow> c \<notin> set (ps_held s @ pl_available (ps_pool s)))
    \<and> (\<forall>t t' c. claimed s t = Some c \<longrightarrow> claimed s t' = Some c \<longrightarrow> t = t')
    \<and> int (length (pl_connections (ps_pool s))) \<le> pcf_max cfg \<and> int (length (pl_available (ps_pool s))) \<le> pcf_max cfg"
  using reachable_owner [OF assms] by (simp add: one_owner_def pool_bounded_def)

section \<open>What is handed out is logged in\<close>

text \<open>
  A health check may close a connection that a call has taken from the channel and not yet marked, and
  closing the pool logs out the connections that clients hold.  Careful schedules check only while no
  call of \<open>Get\<close> is under way, and do not close the pool.
\<close>

definition careful :: "pool_event \<Rightarrow> pool_system \<Rightarrow> bool" where
  "careful e s \<longleftrightarrow> e \<noteq> ClosesPool \<and> (e = HealthCheck \<longrightarrow> ps_calls s = [])"

definition live_pool :: "pool_system \<Rightarrow> bool" where
  "live_pool s \<longleftrightarrow>
     \<not> pl_closed (ps_pool s)
     \<and> (\<forall>c \<in> set (pl_available (ps_pool s)). c \<in> set (pl_logged_out (ps_pool s)) \<longrightarrow>
          pcf_idle (pl_config (ps_pool s)) < ps_now s - pn_last_used (pl_heap (ps_pool s) ! c))
     \<and> (\<forall>t c. gm_get (ps_calls s) t = Some (Marking c) \<longrightarrow> c \<notin> set (pl_logged_out (ps_pool s)))
     \<and> (\<forall>c \<in> set (ps_held s). c \<notin> set (pl_logged_out (ps_pool s)) \<and> pn_in_use (pl_heap (ps_pool s) ! c))
     \<and> (\<forall>t k. gm_get (ps_calls s) t = Some k \<longrightarrow> k = Counting \<or> k = Waiting \<longrightarrow>
          set (pl_available (ps_pool s)) \<inter> set (pl_logged_out (ps_pool s)) = {})"

lemma live_start: "new_connection_pool (Some cfg) = Some p \<Longrightarrow> live_pool \<lparr>ps_pool = p, ps_calls = [], ps_held = [], ps_now = now\<rparr>"
  by (auto simp: new_connection_pool_def live_pool_def split: if_splits)

lemma live_take:
  assumes "live_pool s" and "pl_available (ps_pool s) = c # cs" and "k = Closing c \<or> (k = Marking c \<and> c \<notin> set (pl_logged_out (ps_pool s)))"
  shows "live_pool (settle t (Continues k, (ps_pool s)\<lparr>pl_available := cs\<rparr>) s)"
  using assms by (auto simp: live_pool_def settle_fields split: if_splits)

lemma live_mark:
  assumes "live_pool s" and "one_owner s" and "known_connections s" and "gm_get (ps_calls s) t = Some (Marking c)"
  shows "live_pool (settle t (get_mark (ps_now s) c (ps_pool s)) s)"
proof -
  have c: "claimed s t = Some c" using assms(4) by (simp add: claimed_def)
  then have "c \<notin> set (ps_held s @ pl_available (ps_pool s))" "c < length (pl_heap (ps_pool s))"
    using assms(2,3) by (auto simp: one_owner_def known_connections_def)
  moreover have "c \<notin> set (pl_logged_out (ps_pool s))" using assms(1,4) unfolding live_pool_def by blast
  ultimately show ?thesis using assms(1)
    by (auto simp: live_pool_def get_mark_def settle_fields nth_list_update split: if_splits)
qed

lemma live_closing:
  assumes "live_pool s" and "one_owner s" and "gm_get (ps_calls s) t = Some (Closing c)"
  shows "live_pool (settle t (Continues Creating, close_connection c (ps_pool s)) s)"
proof -
  have c: "claimed s t = Some c" using assms(3) by (simp add: claimed_def)
  then have "c \<notin> set (ps_held s @ pl_available (ps_pool s))" using assms(2) by (auto simp: one_owner_def)
  moreover have "gm_get (ps_calls s) u \<noteq> Some (Marking c)" for u
  proof
    assume "gm_get (ps_calls s) u = Some (Marking c)"
    then have "claimed s u = Some c" by (simp add: claimed_def)
    then show False using c assms(2,3) \<open>gm_get (ps_calls s) u = Some (Marking c)\<close> unfolding one_owner_def by fastforce
  qed
  ultimately show ?thesis using assms(1)
    by (auto simp: live_pool_def close_connection_def settle_fields split: if_splits)
qed

lemma live_create:
  assumes "live_pool s" and "known_connections s" and "gm_get (ps_calls s) t = Some Creating"
  shows "live_pool (settle t (create_new_connection (ps_now s) login (ps_pool s)) s)"
proof -
  have h: "c < length (pl_heap (ps_pool s))" if "c \<in> set (ps_held s) \<or> c \<in> set (pl_available (ps_pool s)) \<or> c \<in> set (pl_logged_out (ps_pool s))" for c
    using assms(2) that by (auto simp: known_connections_def)
  then have "length (pl_heap (ps_pool s)) \<notin> set (pl_logged_out (ps_pool s))" by blast
  then show ?thesis using assms(1) h
    by (auto simp: live_pool_def create_new_connection_def settle_fields nth_append split: if_splits option.splits)
qed

lemma live_put:
  assumes "live_pool s" and "one_owner s" and "known_connections s" and "c \<in> set (ps_held s)"
    and "pool_put (ps_now s) (Some c) (ps_pool s) = Some p"
  shows "live_pool (s\<lparr>ps_pool := p, ps_held := remove1 c (ps_held s)\<rparr>)"
proof -
  have d: "distinct (ps_held s)" "c \<notin> set (pl_available (ps_pool s))" "c < length (pl_heap (ps_pool s))"
    using assms(2-4) by (auto simp: one_owner_def known_connections_def)
  have m: "gm_get (ps_calls s) u \<noteq> Some (Marking c)" for u
  proof
    assume "gm_get (ps_calls s) u = Some (Marking c)"
    then have "claimed s u = Some c" by (simp add: claimed_def)
    then show False using assms(2,4) unfolding one_owner_def by auto
  qed
  have nl: "c \<notin> set (pl_logged_out (ps_pool s))" using assms(1,4) by (simp add: live_pool_def)
  let ?q = "(ps_pool s)\<lparr>pl_heap := (pl_heap (ps_pool s))[c := (pl_heap (ps_pool s) ! c)\<lparr>pn_in_use := False, pn_last_used := ps_now s\<rparr>]\<rparr>"
  have "p = ?q\<lparr>pl_available := pl_available (ps_pool s) @ [c]\<rparr> \<or> p = close_connection c ?q \<or> p = close_connection c (ps_pool s)"
    using assms(5) by (auto simp: pool_put_def Let_def split: if_splits)
  then show ?thesis using assms(1) d m nl
    by (elim disjE) (auto simp: live_pool_def close_connection_def nth_list_update)
qed

lemma live_check:
  assumes "live_pool s" and "ps_calls s = []"
  shows "live_pool (s\<lparr>ps_pool := perform_health_check (ps_now s) (ps_pool s)\<rparr>)"
  using assms by (auto simp: live_pool_def perform_health_check_def too_idle_def)

lemma live_pool_step:
  assumes "live_pool s" and "one_owner s" and "known_connections s" and "careful e s" and "pool_step e s = Some s'"
  shows "live_pool s'"
proof (cases e)
  case (Receives t)
  obtain c cs where a: "pl_available (ps_pool s) = c # cs"
    using assms(1,5) Receives by (cases "pl_available (ps_pool s)") (auto simp: live_pool_def)
  have "c \<notin> set (pl_logged_out (ps_pool s))" if "\<not> pcf_idle (pl_config (ps_pool s)) < ps_now s - pn_last_used (pl_heap (ps_pool s) ! c)"
    using assms(1) a that by (auto simp: live_pool_def)
  then show ?thesis using assms(5) Receives a live_take [OF assms(1) a, of "Marking c"] live_take [OF assms(1) a, of "Closing c"]
    by (auto simp: get_receive_def split: if_splits)
next
  case (WaitReceives t)
  then have w: "gm_get (ps_calls s) t = Some Waiting" using assms(5) by (auto split: if_splits)
  obtain c cs where a: "pl_available (ps_pool s) = c # cs"
    using assms(1,5) WaitReceives by (cases "pl_available (ps_pool s)") (auto simp: live_pool_def)
  have "set (pl_available (ps_pool s)) \<inter> set (pl_logged_out (ps_pool s)) = {}" using assms(1) w unfolding live_pool_def by blast
  then have "c \<notin> set (pl_logged_out (ps_pool s))" using a by auto
  then show ?thesis using assms(5) WaitReceives a live_take [OF assms(1) a, of "Marking c"]
    by (auto simp: get_wait_receive_def split: if_splits)
next
  case (FindsNone t)
  then show ?thesis using assms(1,5) by (auto simp: live_pool_def map_ops split: if_splits)
next
  case (GivesUp t)
  then have w: "gm_get (ps_calls s) t = Some Waiting" "s' = s\<lparr>ps_calls := gm_del t (ps_calls s)\<rparr>"
    using assms(5) by (auto split: if_splits)
  have "set (pl_available (ps_pool s)) \<inter> set (pl_logged_out (ps_pool s)) = {}" using assms(1) w(1) unfolding live_pool_def by blast
  then show ?thesis using assms(1) w(2) by (simp add: live_pool_def map_ops)
next
  case (Advances t login)
  then obtain k r where k: "gm_get (ps_calls s) t = Some k" "get_advance (ps_now s) login k (ps_pool s) = Some r"
      "s' = settle t r s"
    using assms(5) by (auto split: option.splits)
  show ?thesis
  proof (cases k)
    case (Marking c)
    then show ?thesis using live_mark [OF assms(1-3)] k by auto
  next
    case (Closing c)
    then show ?thesis using live_closing [OF assms(1,2)] k by auto
  next
    case Counting
    then have "set (pl_available (ps_pool s)) \<inter> set (pl_logged_out (ps_pool s)) = {}" using assms(1) k(1) unfolding live_pool_def by blast
    then show ?thesis using assms(1) k Counting by (auto simp: live_pool_def get_count_def settle_fields split: if_splits)
  next
    case Creating
    then show ?thesis using live_create [OF assms(1,3)] k by auto
  next
    case Waiting
    then show ?thesis using k by simp
  qed
next
  case (PutsBack c)
  then show ?thesis using assms(5) live_put [OF assms(1-3)] by (auto split: if_splits)
next
  case HealthCheck
  then show ?thesis using assms(4,5) live_check [OF assms(1)] by (auto simp: careful_def split: if_splits)
next
  case (Passes d)
  then have s': "s' = s\<lparr>ps_now := ps_now s + d\<rparr>" "0 \<le> d" using assms(5) by (auto split: if_splits)
  have "\<forall>c \<in> set (pl_available (ps_pool s)). c \<in> set (pl_logged_out (ps_pool s)) \<longrightarrow>
      pcf_idle (pl_config (ps_pool s)) < ps_now s + d - pn_last_used (pl_heap (ps_pool s) ! c)"
    using assms(1) s'(2) by (auto simp: live_pool_def)
  then show ?thesis using assms(1) unfolding live_pool_def s'(1) by simp
next
  case ClosesPool
  then show ?thesis using assms(4) by (simp add: careful_def)
qed

text \<open>
  C37: until the pool is closed, and as long as health checks run only while no call of \<open>Get\<close> is under
  way, a client never holds a connection that the pool has logged out, although the pool leaves
  logged-out connections in its channel and in its slice.
\<close>

theorem held_connections_are_live:
  assumes "pool_reachable careful cfg s" and "c \<in> set (ps_held s)"
  shows "c \<notin> set (pl_logged_out (ps_pool s))"
proof -
  have "live_pool s" using assms(1)
  proof (induction rule: pool_reachable.induct)
    case (start p now)
    then show ?case by (rule live_start)
  next
    case (step s e s')
    then show ?case using live_pool_step reachable_owner [OF step(1)] by blast
  qed
  then show ?thesis using assms(2) by (simp add: live_pool_def)
qed

lemma run_reachable:
  "pool_run es s = Some s' \<Longrightarrow> pool_reachable P cfg s \<Longrightarrow> (\<And>e t. e \<in> set es \<Longrightarrow> P e t) \<Longrightarrow> pool_reachable P cfg s'"
proof (induction es arbitrary: s)
  case (Cons e es)
  then obtain s1 where s1: "pool_step e s = Some s1" "pool_run es s1 = Some s'" by (auto split: option.splits)
  show ?case using Cons.IH [OF s1(2) pool_reachable.step [OF Cons.prems(2) _ s1(1)]] Cons.prems(3) by simp
qed simp

section \<open>Concrete runs\<close>

definition small_pool :: "int \<Rightarrow> pool_system" where
  "small_pool n =
     \<lparr>ps_pool = \<lparr>pl_config = \<lparr>pcf_max = n, pcf_idle = 10, pcf_check = 3\<rparr>, pl_heap = [], pl_connections = [], pl_available = [],
        pl_closed = False, pl_logged_out = [], pl_created = 0, pl_reused = 0\<rparr>,
      ps_calls = [], ps_held = [], ps_now = 0\<rparr>"

lemma small_pool_reachable: "0 \<le> n \<Longrightarrow> pool_reachable P \<lparr>pcf_max = n, pcf_idle = 10, pcf_check = 3\<rparr> (small_pool n)"
  unfolding small_pool_def by (rule pool_reachable.start) (simp add: new_connection_pool_def)

definition first_use :: "pool_event list" where
  "first_use = [FindsNone 1, Advances 1 None, Advances 1 None, PutsBack 0]"

text \<open>A connection is created, put back, reused, and handed to the second client after the first.\<close>

definition reuse_run :: "pool_event list" where
  "reuse_run = first_use @ [Passes 5, Receives 2, Advances 2 None]"

lemma reuse_result:
  "map_option (\<lambda>s. (ps_held s, pl_connections (ps_pool s), pl_logged_out (ps_pool s))) (pool_run reuse_run (small_pool 1)) = Some ([0], [0], [])"
  by (simp add: reuse_run_def first_use_def small_pool_def settle_def pool_fields is_full_def Let_def)

lemma reuse_careful: "e \<in> set reuse_run \<Longrightarrow> careful e s"
  by (auto simp: reuse_run_def first_use_def careful_def)

theorem pool_is_exclusive_witness:
  "\<exists>s. pool_run reuse_run (small_pool 1) = Some s \<and> distinct (ps_held s @ pl_available (ps_pool s)) \<and> ps_held s = [0]"
proof -
  obtain s where s: "pool_run reuse_run (small_pool 1) = Some s" "ps_held s = [0]" using reuse_result by auto
  have "pool_reachable careful \<lparr>pcf_max = 1, pcf_idle = 10, pcf_check = 3\<rparr> s"
    using run_reachable [OF s(1) small_pool_reachable] reuse_careful by auto
  from pool_is_exclusive [OF this] show ?thesis using s by blast
qed

theorem held_connections_are_live_witness:
  "\<exists>s. pool_run reuse_run (small_pool 1) = Some s \<and> 0 \<in> set (ps_held s) \<and> 0 \<notin> set (pl_logged_out (ps_pool s))"
proof -
  obtain s where s: "pool_run reuse_run (small_pool 1) = Some s" "ps_held s = [0]" using reuse_result by auto
  have "pool_reachable careful \<lparr>pcf_max = 1, pcf_idle = 10, pcf_check = 3\<rparr> s"
    using run_reachable [OF s(1) small_pool_reachable] reuse_careful by auto
  from held_connections_are_live [OF this] show ?thesis using s by auto
qed

text \<open>
  Without the care: a connection is taken from the channel while it is young enough, and closed by a
  health check before the call marks it.
\<close>

lemma closed_connection_is_handed_out:
  "map_option (\<lambda>s. (ps_held s, pl_connections (ps_pool s), pl_logged_out (ps_pool s)))
     (pool_run (first_use @ [Passes 10, Receives 2, Passes 1, HealthCheck, Advances 2 None]) (small_pool 1)) = Some ([0], [], [0])"
  by (simp add: first_use_def small_pool_def settle_def pool_fields is_full_def Let_def too_idle_def)

text \<open>
  An expired connection is closed but keeps its place in the slice: the call that closed it is told
  that the pool is exhausted, although nobody holds a connection.
\<close>

lemma expired_connection_exhausts:
  assumes "pl_available p = c # cs" and "pcf_idle (pl_config p) < now - pn_last_used (pl_heap p ! c)" and "is_full p"
  shows "get_receive now p = (Continues (Closing c), p\<lparr>pl_available := cs\<rparr>)"
    and "get_advance now login (Closing c) (p\<lparr>pl_available := cs\<rparr>) = Some (Continues Creating, close_connection c (p\<lparr>pl_available := cs\<rparr>))"
    and "get_advance now login Creating (close_connection c (p\<lparr>pl_available := cs\<rparr>)) =
      Some (Returns (PoolExhausted (pcf_max (pl_config p))), close_connection c (p\<lparr>pl_available := cs\<rparr>))"
  using assms by (simp_all add: pool_fields is_full_def)

lemma idle_pool_is_exhausted:
  "map_option (\<lambda>s. (ps_held s, ps_calls s, pl_connections (ps_pool s), pl_logged_out (ps_pool s)))
     (pool_run (first_use @ [Passes 11, Receives 2, Advances 2 None, Advances 2 None]) (small_pool 1)) = Some ([], [], [0], [0])"
  by (simp add: first_use_def small_pool_def settle_def pool_fields is_full_def Let_def)

text \<open>Closing the pool logs out a connection that a client holds.\<close>

lemma closing_logs_out_held_connections:
  "map_option (\<lambda>s. (ps_held s, pl_logged_out (ps_pool s))) (pool_run [FindsNone 1, Advances 1 None, Advances 1 None, ClosesPool] (small_pool 1)) =
     Some ([0], [0])"
  by (simp add: small_pool_def settle_def pool_fields is_full_def)

text \<open>
  A call of \<open>Get\<close> that creates its connection after the pool was closed has it in the slice again: it
  is never logged out, and putting it back panics.
\<close>

lemma put_after_close_panics:
  assumes "c \<in> set (pl_connections p)" and "pl_closed p"
  shows "pool_put now (Some c) p = None"
  using assms by (simp add: pool_put_def)

lemma late_get_makes_put_panic:
  "map_option (\<lambda>s. (ps_held s, pl_connections (ps_pool s), pl_logged_out (ps_pool s), pool_put 0 (Some 0) (ps_pool s)))
     (pool_run [FindsNone 1, Advances 1 None, ClosesPool, Advances 1 None] (small_pool 1)) = Some ([0], [0], [], None)"
  by (simp add: small_pool_def settle_def pool_fields is_full_def)

text \<open>A client that puts a connection back twice has it handed to two others.\<close>

lemma double_put_shares:
  "map_option pl_available (Option.bind (pool_put 0 (Some 0)
     \<lparr>pl_config = default_pool_config, pl_heap = [\<lparr>pn_created = 0, pn_last_used = 0, pn_in_use = True\<rparr>], pl_connections = [0],
      pl_available = [], pl_closed = False, pl_logged_out = [], pl_created = 1, pl_reused = 0\<rparr>) (pool_put 0 (Some 0))) = Some [0, 0]"
  by (simp add: pool_put_def default_pool_config_def)

end
