(* ===== verification/Network_Monitor.thy ===== *)
theory Network_Monitor
  imports Go_Prelude
begin

text \<open>
  \<open>network/monitor.go\<close>: the state of the network, its listeners, and waiting for it.  An update
  writes the state under the lock and notifies afterwards under a second one; a wait reads the state,
  subscribes and listens.  Both are cut there.  Parameters: which hosts can be reached at which port,
  and what netlink reports.  The statistics of interfaces and the logging are not modelled.
\<close>

section \<open>Data\<close>

datatype net_state = StateUnknown | StateUp | StateDown | StateDegraded

fun net_state_string :: "net_state \<Rightarrow> string" where
  "net_state_string StateUp = ''up''"
| "net_state_string StateDown = ''down''"
| "net_state_string StateDegraded = ''degraded''"
| "net_state_string StateUnknown = ''unknown''"

record monitor_config =
  mf_interval :: duration
  mf_timeout :: duration
  mf_hosts :: "string list"
  mf_on_change :: bool
  mf_netlink :: bool
  mf_ifaces :: "string list"

text \<open>The channel of a listener, of capacity ten.\<close>

record listener_channel =
  lc_buffer :: "net_state list"
  lc_closed :: bool

text \<open>A channel is its number in \<open>mo_channels\<close>; the listeners are those that are notified.\<close>

record monitor =
  mo_config :: monitor_config
  mo_state :: net_state
  mo_channels :: "listener_channel list"
  mo_listeners :: "nat list"
  mo_stopped :: bool

definition new_monitor :: "monitor_config option \<Rightarrow> monitor" where
  "new_monitor oc =
     (let c = (case oc of None \<Rightarrow> \<lparr>mf_interval = 0, mf_timeout = 0, mf_hosts = [], mf_on_change = False, mf_netlink = False, mf_ifaces = []\<rparr>
                 | Some c \<Rightarrow> c);
          c = (if mf_interval c = 0 then c\<lparr>mf_interval := 10 * second\<rparr> else c);
          c = (if mf_timeout c = 0 then c\<lparr>mf_timeout := 5 * second\<rparr> else c);
          c = (if mf_hosts c = [] then c\<lparr>mf_hosts := [''8.8.8.8'', ''1.1.1.1'', ''8.8.4.4'']\<rparr> else c);
          c = (if oc = None then c\<lparr>mf_on_change := True, mf_netlink := True\<rparr> else c)
      in \<lparr>mo_config = c, mo_state = StateUnknown, mo_channels = [], mo_listeners = [], mo_stopped = False\<rparr>)"

section \<open>Checks\<close>

definition can_reach :: "(string \<Rightarrow> string \<Rightarrow> bool) \<Rightarrow> string \<Rightarrow> bool" where
  "can_reach dial host = list_ex (dial host) [''53'', ''443'']"

definition check_connectivity :: "(string \<Rightarrow> string \<Rightarrow> bool) \<Rightarrow> monitor \<Rightarrow> net_state" where
  "check_connectivity dial m =
     (let hosts = mf_hosts (mo_config m); ok = length (filter (can_reach dial) hosts)
      in if 0 < ok then if ok = length hosts then StateUp else StateDegraded else StateDown)"

record link_attrs =
  la_name :: string
  la_loopback :: bool
  la_up :: bool

text \<open>What an event of netlink makes of the state, if anything.\<close>

definition handle_link_update :: "(string \<Rightarrow> string \<Rightarrow> bool) \<Rightarrow> link_attrs \<Rightarrow> monitor \<Rightarrow> net_state option" where
  "handle_link_update dial a m =
     (if la_loopback a then None
      else if mf_ifaces (mo_config m) \<noteq> [] \<and> la_name a \<notin> set (mf_ifaces (mo_config m)) then None
      else if \<not> la_up a then Some StateDown
      else Some (check_connectivity dial m))"

definition get_state :: "monitor \<Rightarrow> net_state" where
  "get_state m = mo_state m"

definition is_up :: "monitor \<Rightarrow> bool" where
  "is_up m \<longleftrightarrow> get_state m = StateUp"

section \<open>Updates and listeners\<close>

definition monitor_subscribe :: "monitor \<Rightarrow> nat \<times> monitor" where
  "monitor_subscribe m =
     (length (mo_channels m),
      m\<lparr>mo_channels := mo_channels m @ [\<lparr>lc_buffer = [], lc_closed = False\<rparr>],
        mo_listeners := mo_listeners m @ [length (mo_channels m)]\<rparr>)"

text \<open>The two sections of \<open>updateState\<close>: the first answers the old state.\<close>

definition set_state :: "net_state \<Rightarrow> monitor \<Rightarrow> net_state \<times> monitor" where
  "set_state new m = (mo_state m, m\<lparr>mo_state := new\<rparr>)"

definition offer :: "net_state \<Rightarrow> nat \<Rightarrow> listener_channel list \<Rightarrow> listener_channel list" where
  "offer new ch cs =
     (if length (lc_buffer (cs ! ch)) < 10 then cs[ch := (cs ! ch)\<lparr>lc_buffer := lc_buffer (cs ! ch) @ [new]\<rparr>] else cs)"

definition monitor_notify :: "net_state \<Rightarrow> net_state \<Rightarrow> monitor \<Rightarrow> monitor" where
  "monitor_notify old new m =
     (if \<not> mf_on_change (mo_config m) \<or> old \<noteq> new
      then m\<lparr>mo_channels := fold (offer new) (mo_listeners m) (mo_channels m)\<rparr> else m)"

definition update_state :: "net_state \<Rightarrow> monitor \<Rightarrow> monitor" where
  "update_state new m = (case set_state new m of (old, m) \<Rightarrow> monitor_notify old new m)"

text \<open>\<open>Start\<close>: the first check, before the goroutines; whether one of them listens to netlink.\<close>

definition start_monitor :: "(string \<Rightarrow> string \<Rightarrow> bool) \<Rightarrow> monitor \<Rightarrow> bool \<times> monitor" where
  "start_monitor dial m = (mf_netlink (mo_config m), update_state (check_connectivity dial m) m)"

text \<open>\<open>Stop\<close>, once the goroutines have ended; the second time it panics.\<close>

definition stop_monitor :: "monitor \<Rightarrow> monitor option" where
  "stop_monitor m =
     (if mo_stopped m then None
      else Some (m\<lparr>mo_channels := fold (\<lambda>ch cs. cs[ch := (cs ! ch)\<lparr>lc_closed := True\<rparr>]) (mo_listeners m) (mo_channels m),
                   mo_listeners := [], mo_stopped := True\<rparr>))"

section \<open>Waiting for the network\<close>

datatype wait_pc = Subscribing | Listening nat

datatype wait_step = WaitsOn wait_pc | NetworkUp

definition wait_begin :: "monitor \<Rightarrow> wait_step" where
  "wait_begin m = (if is_up m then NetworkUp else WaitsOn Subscribing)"

definition wait_subscribe :: "monitor \<Rightarrow> wait_step \<times> monitor" where
  "wait_subscribe m = (case monitor_subscribe m of (ch, m) \<Rightarrow> (WaitsOn (Listening ch), m))"

text \<open>A receive; a closed channel delivers the zero state for ever, an open empty one nothing.\<close>

definition wait_hear :: "nat \<Rightarrow> monitor \<Rightarrow> (wait_step \<times> monitor) option" where
  "wait_hear ch m =
     (case lc_buffer (mo_channels m ! ch) of
        [] \<Rightarrow> if lc_closed (mo_channels m ! ch) then Some (WaitsOn (Listening ch), m) else None
      | st # sts \<Rightarrow>
          Some (if st = StateUp then NetworkUp else WaitsOn (Listening ch),
                m\<lparr>mo_channels := (mo_channels m)[ch := (mo_channels m ! ch)\<lparr>lc_buffer := sts\<rparr>]\<rparr>))"

section \<open>The monitor, its goroutines and the waits\<close>

text \<open>
  Updates under way with the old and the new state, waits under way, the waits that returned without
  an error, and \<open>nw_seen\<close>, the waits during which the network was up at some time.
\<close>

record net_world =
  nw_monitor :: monitor
  nw_updates :: "(nat, net_state \<times> net_state) gomap"
  nw_waits :: "(nat, wait_pc) gomap"
  nw_returned :: "nat list"
  nw_seen :: "nat list"

datatype net_event =
    Sets nat net_state
  | Notifies nat
  | Begins nat
  | Subscribes nat
  | Hears nat
  | Cancels nat
  | Stops

definition settle_wait :: "nat \<Rightarrow> wait_step \<Rightarrow> net_world \<Rightarrow> net_world" where
  "settle_wait t r w =
     (case r of
        WaitsOn pc \<Rightarrow> w\<lparr>nw_waits := gm_put t pc (nw_waits w)\<rparr>
      | NetworkUp \<Rightarrow> w\<lparr>nw_waits := gm_del t (nw_waits w), nw_returned := t # nw_returned w\<rparr>)"

fun net_step :: "net_event \<Rightarrow> net_world \<Rightarrow> net_world option" where
  "net_step (Sets u new) w =
     (if gm_get (nw_updates w) u = None \<and> \<not> mo_stopped (nw_monitor w)
      then case set_state new (nw_monitor w) of
             (old, m) \<Rightarrow> Some (w\<lparr>nw_monitor := m, nw_updates := gm_put u (old, new) (nw_updates w),
                                nw_seen := (if new = StateUp then map fst (nw_waits w) @ nw_seen w else nw_seen w)\<rparr>)
      else None)"
| "net_step (Notifies u) w =
     (case gm_get (nw_updates w) u of
        None \<Rightarrow> None
      | Some (old, new) \<Rightarrow>
          Some (w\<lparr>nw_monitor := monitor_notify old new (nw_monitor w), nw_updates := gm_del u (nw_updates w)\<rparr>))"
| "net_step (Begins t) w =
     (if gm_get (nw_waits w) t = None \<and> t \<notin> set (nw_returned w) \<and> t \<notin> set (nw_seen w)
      then Some (settle_wait t (wait_begin (nw_monitor w))
                  (w\<lparr>nw_seen := (if is_up (nw_monitor w) then t # nw_seen w else nw_seen w)\<rparr>))
      else None)"
| "net_step (Subscribes t) w =
     (if gm_get (nw_waits w) t = Some Subscribing
      then case wait_subscribe (nw_monitor w) of (r, m) \<Rightarrow> Some (settle_wait t r (w\<lparr>nw_monitor := m\<rparr>))
      else None)"
| "net_step (Hears t) w =
     (case gm_get (nw_waits w) t of
        Some (Listening ch) \<Rightarrow> map_option (\<lambda>(r, m). settle_wait t r (w\<lparr>nw_monitor := m\<rparr>)) (wait_hear ch (nw_monitor w))
      | _ \<Rightarrow> None)"
| "net_step (Cancels t) w =
     (if gm_get (nw_waits w) t = None then None else Some (w\<lparr>nw_waits := gm_del t (nw_waits w)\<rparr>))"
| "net_step Stops w =
     (if nw_updates w \<noteq> [] then None
      else map_option (\<lambda>m. w\<lparr>nw_monitor := m\<rparr>) (stop_monitor (nw_monitor w)))"

inductive net_reachable :: "(net_event \<Rightarrow> net_world \<Rightarrow> bool) \<Rightarrow> monitor_config option \<Rightarrow> net_world \<Rightarrow> bool"
  for P :: "net_event \<Rightarrow> net_world \<Rightarrow> bool" and oc :: "monitor_config option" where
  start: "net_reachable P oc \<lparr>nw_monitor = new_monitor oc, nw_updates = [], nw_waits = [], nw_returned = [], nw_seen = []\<rparr>"
| step: "net_reachable P oc w \<Longrightarrow> P e w \<Longrightarrow> net_step e w = Some w' \<Longrightarrow> net_reachable P oc w'"

fun net_run :: "net_event list \<Rightarrow> net_world \<Rightarrow> net_world option" where
  "net_run [] w = Some w"
| "net_run (e # es) w = (case net_step e w of None \<Rightarrow> None | Some w \<Rightarrow> net_run es w)"

section \<open>Notifying\<close>

lemma offer_length [simp]: "length (offer new ch cs) = length cs"
  by (simp add: offer_def)

lemma offers_length [simp]: "length (fold (offer new) chs cs) = length cs"
  by (induction chs arbitrary: cs) simp_all

lemma offer_other: "i \<noteq> ch \<Longrightarrow> offer new ch cs ! i = cs ! i"
  by (simp add: offer_def)

text \<open>A listener gets the new state, or its channel is full; nothing else is ever put in a channel.\<close>

lemma offer_entries: "st \<in> set (lc_buffer (offer new ch cs ! i)) \<Longrightarrow> st \<in> set (lc_buffer (cs ! i)) \<or> st = new"
  by (cases "i = ch"; cases "ch < length cs") (auto simp: offer_def nth_list_update list_update_beyond split: if_splits)

lemma offers_entries: "st \<in> set (lc_buffer (fold (offer new) chs cs ! i)) \<Longrightarrow> st \<in> set (lc_buffer (cs ! i)) \<or> st = new"
proof (induction chs arbitrary: cs)
  case (Cons ch chs)
  then show ?case using offer_entries [of st new ch cs i] by fastforce
qed simp

lemma offers_not_listed: "i \<notin> set chs \<Longrightarrow> fold (offer new) chs cs ! i = cs ! i"
  by (induction chs arbitrary: cs) (simp_all add: offer_other)

lemma offers_delivered:
  "distinct chs \<Longrightarrow> i \<in> set chs \<Longrightarrow> i < length cs \<Longrightarrow> length (lc_buffer (cs ! i)) < 10 \<Longrightarrow>
     fold (offer new) chs cs ! i = (cs ! i)\<lparr>lc_buffer := lc_buffer (cs ! i) @ [new]\<rparr>"
proof (induction chs arbitrary: cs)
  case (Cons ch chs)
  show ?case
  proof (cases "i = ch")
    case True
    then have "offer new ch cs ! i = (cs ! i)\<lparr>lc_buffer := lc_buffer (cs ! i) @ [new]\<rparr>" using Cons.prems by (simp add: offer_def)
    then show ?thesis using Cons.prems True offers_not_listed [of i chs new] by simp
  next
    case False
    then show ?thesis using Cons.IH [of "offer new ch cs"] Cons.prems by (simp add: offer_other)
  qed
qed simp

section \<open>A wait that returns has seen the network up\<close>

text \<open>One update at a time, as when netlink is not listened to.\<close>

definition one_updater :: "net_event \<Rightarrow> net_world \<Rightarrow> bool" where
  "one_updater e w \<longleftrightarrow> (\<forall>u st. e = Sets u st \<longrightarrow> nw_updates w = [])"

definition honest :: "net_world \<Rightarrow> bool" where
  "honest w \<longleftrightarrow>
     (\<forall>u old new. gm_get (nw_updates w) u = Some (old, new) \<longrightarrow> nw_updates w = [(u, old, new)] \<and> mo_state (nw_monitor w) = new)
     \<and> (\<forall>t ch. gm_get (nw_waits w) t = Some (Listening ch) \<longrightarrow> ch < length (mo_channels (nw_monitor w)))
     \<and> (\<forall>t t' ch. gm_get (nw_waits w) t = Some (Listening ch) \<longrightarrow> gm_get (nw_waits w) t' = Some (Listening ch) \<longrightarrow> t = t')
     \<and> (\<forall>t ch. gm_get (nw_waits w) t = Some (Listening ch) \<longrightarrow> StateUp \<in> set (lc_buffer (mo_channels (nw_monitor w) ! ch)) \<longrightarrow>
          t \<in> set (nw_seen w))
     \<and> (\<forall>t. gm_get (nw_waits w) t \<noteq> None \<longrightarrow> mo_state (nw_monitor w) = StateUp \<longrightarrow> t \<in> set (nw_seen w))
     \<and> set (nw_returned w) \<subseteq> set (nw_seen w)"

lemma honestD:
  assumes "honest w"
  shows "gm_get (nw_updates w) u = Some (old, new) \<Longrightarrow> nw_updates w = [(u, old, new)] \<and> mo_state (nw_monitor w) = new"
    and "gm_get (nw_waits w) t = Some (Listening ch) \<Longrightarrow> ch < length (mo_channels (nw_monitor w))"
    and "gm_get (nw_waits w) t = Some (Listening ch) \<Longrightarrow> gm_get (nw_waits w) t' = Some (Listening ch) \<Longrightarrow> t = t'"
    and "gm_get (nw_waits w) t = Some (Listening ch) \<Longrightarrow> StateUp \<in> set (lc_buffer (mo_channels (nw_monitor w) ! ch)) \<Longrightarrow> t \<in> set (nw_seen w)"
    and "gm_get (nw_waits w) t = Some pc \<Longrightarrow> mo_state (nw_monitor w) = StateUp \<Longrightarrow> t \<in> set (nw_seen w)"
    and "set (nw_returned w) \<subseteq> set (nw_seen w)"
  using assms unfolding honest_def by blast+

lemma waiting_key: "gm_get ws t = Some pc \<Longrightarrow> t \<in> fst ` set ws"
  by (metis gm_get_in fst_conv image_eqI)

lemma honest_sets:
  assumes "honest w" and "nw_updates w = []"
  shows "honest (w\<lparr>nw_monitor := (nw_monitor w)\<lparr>mo_state := new\<rparr>, nw_updates := gm_put u (mo_state (nw_monitor w), new) (nw_updates w),
    nw_seen := (if new = StateUp then map fst (nw_waits w) @ nw_seen w else nw_seen w)\<rparr>)"
proof -
  note h = honestD [OF assms(1)]
  show ?thesis using h(2) h(3) h(4) h(6) assms(2) waiting_key
    by (auto simp: honest_def split: if_splits)
qed

lemma honest_notifies:
  assumes "honest w" and "gm_get (nw_updates w) u = Some (old, new)"
  shows "honest (w\<lparr>nw_monitor := monitor_notify old new (nw_monitor w), nw_updates := gm_del u (nw_updates w)\<rparr>)"
proof -
  note h = honestD [OF assms(1)]
  have u: "nw_updates w = [(u, old, new)]" "mo_state (nw_monitor w) = new" using h(1) [OF assms(2)] by simp_all
  have n: "mo_state (monitor_notify old new (nw_monitor w)) = new"
    "length (mo_channels (monitor_notify old new (nw_monitor w))) = length (mo_channels (nw_monitor w))"
    using u(2) by (simp_all add: monitor_notify_def)
  have e: "st \<in> set (lc_buffer (mo_channels (nw_monitor w) ! i)) \<or> st = new"
    if "st \<in> set (lc_buffer (mo_channels (monitor_notify old new (nw_monitor w)) ! i))" for st i
    using that offers_entries by (fastforce simp: monitor_notify_def split: if_splits)
  have b: "t \<in> set (nw_seen w)" if "gm_get (nw_waits w) t = Some (Listening ch)"
      "StateUp \<in> set (lc_buffer (mo_channels (monitor_notify old new (nw_monitor w)) ! ch))" for t ch
    using e [OF that(2)] h(4) [OF that(1)] h(5) [OF that(1)] u(2) by blast
  show ?thesis unfolding honest_def using h(2) h(3) b h(5) h(6) u n by auto
qed

lemma honest_leaves:
  assumes "honest w" and "honest_wait = gm_del t (nw_waits w)"
  shows "honest (w\<lparr>nw_waits := honest_wait\<rparr>)"
  using honestD [OF assms(1)] unfolding honest_def assms(2) by (simp add: map_ops) blast

lemma honest_begins:
  assumes "honest w" and "gm_get (nw_waits w) t = None"
  shows "honest (settle_wait t (wait_begin (nw_monitor w)) (w\<lparr>nw_seen := (if is_up (nw_monitor w) then t # nw_seen w else nw_seen w)\<rparr>))"
proof (cases "is_up (nw_monitor w)")
  case True
  have "gm_del t (nw_waits w) = nw_waits w" using assms(2) by (metis gm_del_notin map_of_eq_None_iff)
  then show ?thesis using True honestD [OF assms(1)]
    by (auto simp: honest_def settle_wait_def wait_begin_def)
next
  case False
  then have "mo_state (nw_monitor w) \<noteq> StateUp" by (simp add: is_up_def get_state_def)
  then show ?thesis using False honestD [OF assms(1)] by (auto simp: honest_def settle_wait_def wait_begin_def map_ops split: if_splits)
qed

lemma honest_subscribes:
  assumes "honest w" and "gm_get (nw_waits w) t = Some Subscribing" and "wait_subscribe (nw_monitor w) = (r, m)"
  shows "honest (settle_wait t r (w\<lparr>nw_monitor := m\<rparr>))"
proof -
  note h = honestD [OF assms(1)]
  define l where "l = length (mo_channels (nw_monitor w))"
  have r: "r = WaitsOn (Listening l)" "mo_state m = mo_state (nw_monitor w)"
    "mo_channels m = mo_channels (nw_monitor w) @ [\<lparr>lc_buffer = [], lc_closed = False\<rparr>]"
    using assms(3) by (auto simp: wait_subscribe_def monitor_subscribe_def l_def)
  have n: "gm_get (nw_waits w) t' \<noteq> Some (Listening l)" for t' using h(2) [of t' l] by (auto simp: l_def)
  show ?thesis unfolding honest_def settle_wait_def r(1)
    using h(1) h(2) h(3) h(4) h(5) h(6) assms(2) r(2,3) n
    by (auto simp: map_ops nth_append l_def less_Suc_eq split: if_splits)
qed

lemma honest_monitor:
  assumes "honest w" and "mo_state m = mo_state (nw_monitor w)" and "length (mo_channels m) = length (mo_channels (nw_monitor w))"
    and "\<And>t i. gm_get (nw_waits w) t = Some (Listening i) \<Longrightarrow> StateUp \<in> set (lc_buffer (mo_channels m ! i)) \<Longrightarrow> t \<in> set (nw_seen w)"
  shows "honest (w\<lparr>nw_monitor := m\<rparr>)"
proof -
  have w: "nw_monitor (w\<lparr>nw_monitor := m\<rparr>) = m" "nw_updates (w\<lparr>nw_monitor := m\<rparr>) = nw_updates w"
    "nw_waits (w\<lparr>nw_monitor := m\<rparr>) = nw_waits w" "nw_seen (w\<lparr>nw_monitor := m\<rparr>) = nw_seen w"
    "nw_returned (w\<lparr>nw_monitor := m\<rparr>) = nw_returned w" by simp_all
  show ?thesis using assms(1,4) unfolding honest_def w assms(2,3) by blast
qed

lemma honest_returns:
  assumes "honest w" and "t \<in> set (nw_seen w)"
  shows "honest (w\<lparr>nw_returned := t # nw_returned w\<rparr>)"
  using assms unfolding honest_def by simp

lemma honest_hears:
  assumes "honest w" and "gm_get (nw_waits w) t = Some (Listening ch)" and "wait_hear ch (nw_monitor w) = Some (r, m)"
  shows "honest (settle_wait t r (w\<lparr>nw_monitor := m\<rparr>))"
proof (cases "lc_buffer (mo_channels (nw_monitor w) ! ch)")
  case Nil
  then have r: "r = WaitsOn (Listening ch)" "m = nw_monitor w" using assms(3) by (auto simp: wait_hear_def split: if_splits)
  have "gm_get (gm_put t (Listening ch) (nw_waits w)) = gm_get (nw_waits w)" using assms(2) by (auto simp: map_ops)
  then show ?thesis using assms(1) r by (simp add: settle_wait_def honest_def)
next
  case (Cons st sts)
  note h = honestD [OF assms(1)]
  have m: "m = (nw_monitor w)\<lparr>mo_channels := (mo_channels (nw_monitor w))[ch := (mo_channels (nw_monitor w) ! ch)\<lparr>lc_buffer := sts\<rparr>]\<rparr>"
    and r: "r = (if st = StateUp then NetworkUp else WaitsOn (Listening ch))"
    using assms(3) Cons by (auto simp: wait_hear_def)
  have st: "st = StateUp \<Longrightarrow> t \<in> set (nw_seen w)" using h(4) [OF assms(2)] Cons by simp
  have b: "StateUp \<in> set (lc_buffer (mo_channels m ! i)) \<Longrightarrow> StateUp \<in> set (lc_buffer (mo_channels (nw_monitor w) ! i))"
    if "i < length (mo_channels (nw_monitor w))" for i
    using that Cons by (cases "i = ch") (auto simp: m)
  have s: "mo_state m = mo_state (nw_monitor w)" "length (mo_channels m) = length (mo_channels (nw_monitor w))"
    by (simp_all add: m)
  have b': "t' \<in> set (nw_seen w)" if "gm_get (nw_waits w) t' = Some (Listening i)" "StateUp \<in> set (lc_buffer (mo_channels m ! i))" for t' i
    using b [OF h(2) [OF that(1)] that(2)] h(4) [OF that(1)] by blast
  have w: "honest (w\<lparr>nw_monitor := m\<rparr>)" using honest_monitor [OF assms(1) s b'] .
  show ?thesis
  proof (cases "st = StateUp")
    case True
    have r': "r = NetworkUp" using r True by simp
    have d: "honest (w\<lparr>nw_monitor := m, nw_waits := gm_del t (nw_waits w)\<rparr>)" using honest_leaves [OF w] by simp
    have "t \<in> set (nw_seen (w\<lparr>nw_monitor := m, nw_waits := gm_del t (nw_waits w)\<rparr>))" using st True by simp
    from honest_returns [OF d this] show ?thesis unfolding r' settle_wait_def by simp
  next
    case False
    have "gm_get (gm_put t (Listening ch) (nw_waits w)) = gm_get (nw_waits w)" using assms(2) by (auto simp: map_ops)
    then have "honest (w\<lparr>nw_monitor := m, nw_waits := gm_put t (Listening ch) (nw_waits w)\<rparr>)"
      using w unfolding honest_def by simp
    then show ?thesis using r False by (simp add: settle_wait_def)
  qed
qed

lemma closed_buffers:
  "lc_buffer (fold (\<lambda>ch cs. cs[ch := (cs ! ch)\<lparr>lc_closed := True\<rparr>]) chs cs ! i) = lc_buffer (cs ! i)
   \<and> length (fold (\<lambda>ch cs. cs[ch := (cs ! ch)\<lparr>lc_closed := True\<rparr>]) chs cs) = length cs"
proof (induction chs arbitrary: cs)
  case (Cons ch chs)
  have "lc_buffer (cs[ch := (cs ! ch)\<lparr>lc_closed := True\<rparr>] ! i) = lc_buffer (cs ! i)"
    by (cases "i = ch"; cases "ch < length cs") (auto simp: list_update_beyond)
  then show ?case using Cons.IH [of "cs[ch := (cs ! ch)\<lparr>lc_closed := True\<rparr>]"] by simp
qed simp

lemma honest_step:
  assumes "honest w" and "one_updater e w" and "net_step e w = Some w'"
  shows "honest w'"
proof (cases e)
  case (Sets u new)
  then have "nw_updates w = []" using assms(2) by (simp add: one_updater_def)
  then show ?thesis using honest_sets [OF assms(1), of new u] assms(3) Sets by (auto simp: set_state_def split: if_splits)
next
  case (Notifies u)
  then show ?thesis using honest_notifies [OF assms(1)] assms(3) by (auto split: option.splits)
next
  case (Begins t)
  then show ?thesis using honest_begins [OF assms(1)] assms(3) by (auto split: if_splits)
next
  case (Subscribes t)
  then show ?thesis using honest_subscribes [OF assms(1)] assms(3) by (auto split: if_splits prod.splits)
next
  case (Hears t)
  then show ?thesis using honest_hears [OF assms(1)] assms(3) by (auto split: option.splits wait_pc.splits)
next
  case (Cancels t)
  then show ?thesis using honest_leaves [OF assms(1)] assms(3) by (auto split: if_splits)
next
  case Stops
  then obtain m where m: "stop_monitor (nw_monitor w) = Some m" "w' = w\<lparr>nw_monitor := m\<rparr>" using assms(3) by (auto split: if_splits)
  have b: "mo_state m = mo_state (nw_monitor w)" "length (mo_channels m) = length (mo_channels (nw_monitor w))"
    "\<And>i. lc_buffer (mo_channels m ! i) = lc_buffer (mo_channels (nw_monitor w) ! i)"
    using m(1) by (auto simp: stop_monitor_def closed_buffers split: if_splits)
  show ?thesis using assms(1) unfolding honest_def m(2) by (simp add: b)
qed

text \<open>
  C38: while one goroutine updates the state, a wait returns without an error only if the network was
  up at some time during the wait.
\<close>

theorem waits_are_honest:
  assumes "net_reachable one_updater oc w" and "t \<in> set (nw_returned w)"
  shows "t \<in> set (nw_seen w)"
proof -
  have "honest w" using assms(1)
  proof (induction rule: net_reachable.induct)
    case start
    then show ?case by (simp add: honest_def)
  next
    case (step w e w')
    then show ?case using honest_step by blast
  qed
  then show ?thesis using assms(2) honestD(6) by blast
qed

section \<open>A listener is told\<close>

definition listed :: "net_world \<Rightarrow> bool" where
  "listed w \<longleftrightarrow>
     distinct (mo_listeners (nw_monitor w)) \<and> (\<forall>ch \<in> set (mo_listeners (nw_monitor w)). ch < length (mo_channels (nw_monitor w)))
     \<and> (mo_stopped (nw_monitor w) \<longrightarrow> nw_updates w = [])
     \<and> (\<not> mo_stopped (nw_monitor w) \<longrightarrow> (\<forall>t ch. gm_get (nw_waits w) t = Some (Listening ch) \<longrightarrow> ch \<in> set (mo_listeners (nw_monitor w))))"

lemma listed_step:
  assumes "listed w" and "net_step e w = Some w'"
  shows "listed w'"
proof (cases e)
  case (Sets u new)
  then show ?thesis using assms by (auto simp: listed_def set_state_def split: if_splits)
next
  case (Notifies u)
  then show ?thesis using assms by (auto simp: listed_def monitor_notify_def split: option.splits if_splits)
next
  case (Begins t)
  then show ?thesis using assms
    by (auto simp: listed_def settle_wait_def wait_begin_def map_ops split: if_splits)
next
  case (Subscribes t)
  then show ?thesis using assms
    by (auto simp: listed_def settle_wait_def wait_subscribe_def monitor_subscribe_def map_ops less_SucI split: if_splits)
next
  case (Hears t)
  then obtain ch r m where h: "gm_get (nw_waits w) t = Some (Listening ch)" "wait_hear ch (nw_monitor w) = Some (r, m)"
      "w' = settle_wait t r (w\<lparr>nw_monitor := m\<rparr>)"
    using assms(2) by (auto split: option.splits wait_pc.splits)
  have m: "mo_listeners m = mo_listeners (nw_monitor w)" "mo_stopped m = mo_stopped (nw_monitor w)"
      "length (mo_channels m) = length (mo_channels (nw_monitor w))" "r = NetworkUp \<or> r = WaitsOn (Listening ch)"
    using h(2) by (auto simp: wait_hear_def split: list.splits if_splits)
  show ?thesis using m(4) assms(1) h(1) m(1-3) unfolding h(3)
    by (elim disjE) (simp_all add: listed_def settle_wait_def map_ops)
next
  case (Cancels t)
  then show ?thesis using assms by (auto simp: listed_def map_ops split: if_splits)
next
  case Stops
  then show ?thesis using assms by (auto simp: listed_def stop_monitor_def split: if_splits)
qed

lemma reachable_listed: "net_reachable P oc w \<Longrightarrow> listed w"
proof (induction rule: net_reachable.induct)
  case start
  then show ?case by (simp add: listed_def new_monitor_def Let_def)
next
  case (step w e w')
  then show ?case using listed_step by blast
qed

lemma offer_extends: "\<exists>ys. lc_buffer (offer new ch cs ! i) = lc_buffer (cs ! i) @ ys"
  by (cases "i = ch"; cases "ch < length cs") (auto simp: offer_def list_update_beyond)

lemma offers_extend: "\<exists>ys. lc_buffer (fold (offer new) chs cs ! i) = lc_buffer (cs ! i) @ ys"
proof (induction chs arbitrary: cs)
  case (Cons ch chs)
  obtain xs where "lc_buffer (offer new ch cs ! i) = lc_buffer (cs ! i) @ xs" using offer_extends by blast
  moreover obtain ys where "lc_buffer (fold (offer new) chs (offer new ch cs) ! i) = lc_buffer (offer new ch cs ! i) @ ys"
    using Cons.IH by blast
  ultimately show ?case by simp
qed simp

text \<open>Every wait listens at a channel of its own.\<close>

definition own_channels :: "net_world \<Rightarrow> bool" where
  "own_channels w \<longleftrightarrow>
     (\<forall>t ch. gm_get (nw_waits w) t = Some (Listening ch) \<longrightarrow> ch < length (mo_channels (nw_monitor w)))
     \<and> (\<forall>t t' ch. gm_get (nw_waits w) t = Some (Listening ch) \<longrightarrow> gm_get (nw_waits w) t' = Some (Listening ch) \<longrightarrow> t = t')"

lemma hears_result:
  assumes "net_step (Hears t) w = Some w'"
  obtains ch r m where "gm_get (nw_waits w) t = Some (Listening ch)" and "wait_hear ch (nw_monitor w) = Some (r, m)"
    and "w' = settle_wait t r (w\<lparr>nw_monitor := m\<rparr>)" and "r = NetworkUp \<or> r = WaitsOn (Listening ch)"
    and "length (mo_channels m) = length (mo_channels (nw_monitor w))"
    and "\<And>i. i \<noteq> ch \<Longrightarrow> mo_channels m ! i = mo_channels (nw_monitor w) ! i"
proof -
  obtain ch r m where h: "gm_get (nw_waits w) t = Some (Listening ch)" "wait_hear ch (nw_monitor w) = Some (r, m)"
      "w' = settle_wait t r (w\<lparr>nw_monitor := m\<rparr>)"
    using assms by (auto split: option.splits wait_pc.splits)
  moreover have "r = NetworkUp \<or> r = WaitsOn (Listening ch)" "length (mo_channels m) = length (mo_channels (nw_monitor w))"
      "\<And>i. i \<noteq> ch \<Longrightarrow> mo_channels m ! i = mo_channels (nw_monitor w) ! i"
    using h(2) by (auto simp: wait_hear_def split: list.splits if_splits)
  ultimately show ?thesis using that by blast
qed

lemma own_channels_step:
  assumes "own_channels w" and "net_step e w = Some w'"
  shows "own_channels w'"
proof (cases e)
  case (Hears t)
  from hears_result [OF assms(2) [unfolded Hears]] obtain ch r m where h: "gm_get (nw_waits w) t = Some (Listening ch)"
      "w' = settle_wait t r (w\<lparr>nw_monitor := m\<rparr>)" "r = NetworkUp \<or> r = WaitsOn (Listening ch)"
      "length (mo_channels m) = length (mo_channels (nw_monitor w))"
    by metis
  have "gm_get (nw_waits w') v = Some (Listening c) \<Longrightarrow> gm_get (nw_waits w) v = Some (Listening c)" for v c
    using h(1,3) unfolding h(2) by (auto simp: settle_wait_def map_ops split: if_splits)
  moreover have "mo_channels (nw_monitor w') = mo_channels m" using h(3) unfolding h(2) by (auto simp: settle_wait_def)
  ultimately show ?thesis using assms(1) h(4) unfolding own_channels_def by metis
next
  case (Subscribes t)
  then have w': "w' = settle_wait t (fst (wait_subscribe (nw_monitor w))) (w\<lparr>nw_monitor := snd (wait_subscribe (nw_monitor w))\<rparr>)"
    using assms(2) by (auto split: if_splits prod.splits)
  show ?thesis using assms(1) unfolding w'
    by (fastforce simp: own_channels_def settle_wait_def wait_subscribe_def monitor_subscribe_def map_ops less_SucI split: if_splits)
next
  case (Stops)
  then obtain m where m: "stop_monitor (nw_monitor w) = Some m" "w' = w\<lparr>nw_monitor := m\<rparr>" using assms(2) by (auto split: if_splits)
  then have "length (mo_channels m) = length (mo_channels (nw_monitor w))" by (auto simp: stop_monitor_def closed_buffers split: if_splits)
  then show ?thesis using assms(1) m(2) by (simp add: own_channels_def)
next
  case (Begins t)
  then show ?thesis using assms by (auto simp: own_channels_def settle_wait_def wait_begin_def map_ops split: if_splits)
next
  case (Cancels t)
  then show ?thesis using assms by (auto simp: own_channels_def map_ops split: if_splits)
qed (use assms in \<open>auto simp: own_channels_def set_state_def monitor_notify_def split: if_splits option.splits\<close>)

lemma reachable_own_channels: "net_reachable P oc w \<Longrightarrow> own_channels w"
proof (induction rule: net_reachable.induct)
  case (step w e w')
  then show ?case using own_channels_step by blast
qed (simp add: own_channels_def)

text \<open>The wait has returned, or listens and has an up among the first \<open>n\<close> changes and one.\<close>

definition up_ahead :: "nat \<Rightarrow> nat \<Rightarrow> nat \<Rightarrow> net_world \<Rightarrow> bool" where
  "up_ahead t ch n w \<longleftrightarrow> t \<in> set (nw_returned w)
     \<or> (gm_get (nw_waits w) t = Some (Listening ch)
        \<and> (\<exists>pre suf. lc_buffer (mo_channels (nw_monitor w) ! ch) = pre @ StateUp # suf \<and> length pre \<le> n))"

lemma up_ahead_kept:
  assumes "up_ahead t ch n w" and "gm_get (nw_waits w') t = gm_get (nw_waits w) t" and "set (nw_returned w) \<subseteq> set (nw_returned w')"
    and "\<exists>ys. lc_buffer (mo_channels (nw_monitor w') ! ch) = lc_buffer (mo_channels (nw_monitor w) ! ch) @ ys"
  shows "up_ahead t ch n w'"
proof -
  obtain ys where "lc_buffer (mo_channels (nw_monitor w') ! ch) = lc_buffer (mo_channels (nw_monitor w) ! ch) @ ys" using assms(4) by blast
  then have "pre @ StateUp # suf = lc_buffer (mo_channels (nw_monitor w) ! ch) \<Longrightarrow>
      lc_buffer (mo_channels (nw_monitor w') ! ch) = pre @ StateUp # (suf @ ys)" for pre suf
    by (metis append.assoc append_Cons)
  then show ?thesis using assms(1-3) unfolding up_ahead_def by (metis subsetD)
qed

lemma settle_wait_fields:
  "nw_monitor (settle_wait t r w) = nw_monitor w"
  "v \<noteq> t \<Longrightarrow> gm_get (nw_waits (settle_wait t r w)) v = gm_get (nw_waits w) v"
  "set (nw_returned w) \<subseteq> set (nw_returned (settle_wait t r w))"
  by (cases r; auto simp: settle_wait_def map_ops)+

lemma begins_result:
  assumes "net_step (Begins t) w = Some w'"
  obtains xs where "w' = settle_wait t (wait_begin (nw_monitor w)) (w\<lparr>nw_seen := xs\<rparr>)" and "gm_get (nw_waits w) t = None"
proof (rule that)
  let ?xs = "if is_up (nw_monitor w) then t # nw_seen w else nw_seen w"
  show "w' = settle_wait t (wait_begin (nw_monitor w)) (w\<lparr>nw_seen := ?xs\<rparr>)" and "gm_get (nw_waits w) t = None"
    using assms by (simp_all split: if_split_asm)
qed

lemma returned_step:
  assumes "net_step e w = Some w'"
  shows "set (nw_returned w) \<subseteq> set (nw_returned w')"
proof (cases e)
  case (Hears t)
  from hears_result [OF assms [unfolded Hears]] obtain r m where "w' = settle_wait t r (w\<lparr>nw_monitor := m\<rparr>)" by metis
  then show ?thesis using settle_wait_fields(3) [of "w\<lparr>nw_monitor := m\<rparr>" t r] by simp
next
  case (Begins t)
  from begins_result [OF assms [unfolded Begins]] obtain xs where "w' = settle_wait t (wait_begin (nw_monitor w)) (w\<lparr>nw_seen := xs\<rparr>)"
    by metis
  then show ?thesis using settle_wait_fields(3) [of "w\<lparr>nw_seen := xs\<rparr>"] by simp
qed (use assms in \<open>auto simp: settle_wait_def wait_subscribe_def set_state_def split: if_splits option.splits prod.splits\<close>)

lemma returned_kept: "net_run es w = Some w' \<Longrightarrow> set (nw_returned w) \<subseteq> set (nw_returned w')"
proof (induction es arbitrary: w)
  case (Cons e es)
  then obtain w1 where w1: "net_step e w = Some w1" "net_run es w1 = Some w'" by (auto split: option.splits)
  have "set (nw_returned w) \<subseteq> set (nw_returned w1)" by (rule returned_step [OF w1(1)])
  then show ?case using Cons.IH [OF w1(2)] by blast
qed simp

lemma up_ahead_other_step:
  assumes "up_ahead t ch n w" and "own_channels w" and "net_step e w = Some w'" and "e \<noteq> Cancels t" and "e \<noteq> Hears t"
  shows "up_ahead t ch n w'"
proof (cases "t \<in> set (nw_returned w)")
  case True
  then show ?thesis using returned_step [OF assms(3)] by (auto simp: up_ahead_def)
next
  case False
  then have l: "gm_get (nw_waits w) t = Some (Listening ch)" "ch < length (mo_channels (nw_monitor w))"
    using assms(1,2) by (auto simp: up_ahead_def own_channels_def)
  show ?thesis
  proof (rule up_ahead_kept [OF assms(1)])
    show "gm_get (nw_waits w') t = gm_get (nw_waits w) t"
    proof (cases e)
      case (Hears v)
      then have v: "v \<noteq> t" using assms(5) by blast
      from hears_result [OF assms(3) [unfolded Hears]] obtain r m where "w' = settle_wait v r (w\<lparr>nw_monitor := m\<rparr>)" by metis
      then show ?thesis using settle_wait_fields(2) [of t v r "w\<lparr>nw_monitor := m\<rparr>"] v by simp
    next
      case (Begins v)
      from begins_result [OF assms(3) [unfolded Begins]] obtain xs
        where "w' = settle_wait v (wait_begin (nw_monitor w)) (w\<lparr>nw_seen := xs\<rparr>)" and "gm_get (nw_waits w) v = None"
        by metis
      moreover from this(2) have "t \<noteq> v" using l(1) by auto
      ultimately show ?thesis using settle_wait_fields(2) [of t v _ "w\<lparr>nw_seen := xs\<rparr>"] by simp
    qed (use assms(3-5) l(1) in \<open>auto simp: settle_wait_def wait_subscribe_def set_state_def map_ops split: if_splits option.splits prod.splits\<close>)
    show "set (nw_returned w) \<subseteq> set (nw_returned w')" by (rule returned_step [OF assms(3)])
    show "\<exists>ys. lc_buffer (mo_channels (nw_monitor w') ! ch) = lc_buffer (mo_channels (nw_monitor w) ! ch) @ ys"
    proof (cases e)
      case (Hears v)
      from hears_result [OF assms(3) [unfolded Hears]] obtain c r m where h: "gm_get (nw_waits w) v = Some (Listening c)"
          "w' = settle_wait v r (w\<lparr>nw_monitor := m\<rparr>)" "\<And>i. i \<noteq> c \<Longrightarrow> mo_channels m ! i = mo_channels (nw_monitor w) ! i"
        by metis
      have "v \<noteq> t" using assms(5) Hears by blast
      then have "ch \<noteq> c" using h(1) l(1) assms(2) unfolding own_channels_def by blast
      moreover have "nw_monitor w' = m" unfolding h(2) by (cases r) (auto simp: settle_wait_def)
      ultimately show ?thesis using h(3) by simp
    next
      case (Notifies u)
      then show ?thesis using assms(3) offers_extend by (auto simp: monitor_notify_def split: option.splits)
    next
      case Stops
      then show ?thesis using assms(3) by (auto simp: stop_monitor_def closed_buffers split: if_splits)
    qed (use assms(3) l(2) in \<open>auto simp: set_state_def settle_wait_def wait_begin_def wait_subscribe_def monitor_subscribe_def nth_append
          split: if_splits prod.splits wait_step.splits\<close>)
  qed
qed

lemma up_ahead_hears:
  assumes "up_ahead t ch n w" and "own_channels w" and "net_step (Hears t) w = Some w'"
  shows "t \<in> set (nw_returned w') \<or> (0 < n \<and> up_ahead t ch (n - 1) w')"
proof -
  from hears_result [OF assms(3)] obtain c r m where h: "gm_get (nw_waits w) t = Some (Listening c)"
      "wait_hear c (nw_monitor w) = Some (r, m)" "w' = settle_wait t r (w\<lparr>nw_monitor := m\<rparr>)" "r = NetworkUp \<or> r = WaitsOn (Listening c)"
    by metis
  show ?thesis
  proof (cases "t \<in> set (nw_returned w)")
    case True
    then show ?thesis using h(3,4) by (auto simp: settle_wait_def)
  next
    case False
    then obtain pre suf where b: "c = ch" "lc_buffer (mo_channels (nw_monitor w) ! ch) = pre @ StateUp # suf" "length pre \<le> n"
        "ch < length (mo_channels (nw_monitor w))"
      using assms(1,2) h(1) by (auto simp: up_ahead_def own_channels_def)
    show ?thesis
    proof (cases pre)
      case Nil
      then show ?thesis using h(2,3) b by (auto simp: wait_hear_def settle_wait_def)
    next
      case (Cons st sts)
      then have "r = NetworkUp \<or> (r = WaitsOn (Listening ch) \<and> lc_buffer (mo_channels m ! ch) = sts @ StateUp # suf)"
        using h(2) b by (auto simp: wait_hear_def split: if_splits)
      moreover have "0 < n" "length sts \<le> n - 1" using b(3) Cons by auto
      ultimately show ?thesis using h(3) unfolding up_ahead_def by (elim disjE) (simp_all add: settle_wait_def map_ops, blast)
    qed
  qed
qed

lemma up_ahead_run_ends:
  "up_ahead t ch n w \<Longrightarrow> own_channels w \<Longrightarrow> net_run es w = Some w' \<Longrightarrow> Cancels t \<notin> set es \<Longrightarrow>
     t \<in> set (nw_returned w') \<or> (count_list es (Hears t) \<le> n \<and> up_ahead t ch (n - count_list es (Hears t)) w')"
proof (induction es arbitrary: n w)
  case (Cons e es)
  obtain w1 where w1: "net_step e w = Some w1" "net_run es w1 = Some w'" using Cons.prems(3) by (auto split: option.splits)
  have o: "own_channels w1" using own_channels_step [OF Cons.prems(2) w1(1)] .
  have c: "Cancels t \<notin> set es" "e \<noteq> Cancels t" using Cons.prems(4) by auto
  show ?case
  proof (cases "e = Hears t")
    case False
    then show ?thesis using Cons.IH [OF up_ahead_other_step [OF Cons.prems(1,2) w1(1) c(2) False] o w1(2) c(1)] by simp
  next
    case True
    from up_ahead_hears [OF Cons.prems(1,2) w1(1) [unfolded True]] have "0 < n \<and> up_ahead t ch (n - 1) w1 \<or> up_ahead t ch 0 w1 \<and> t \<in> set (nw_returned w1)"
      by (auto simp: up_ahead_def)
    then show ?thesis
    proof (elim disjE conjE)
      assume n: "0 < n" "up_ahead t ch (n - 1) w1"
      show ?thesis using Cons.IH [OF n(2) o w1(2) c(1)] n(1) True by auto
    next
      assume "t \<in> set (nw_returned w1)"
      then show ?thesis using returned_kept [OF w1(2)] by blast
    qed
  qed
qed simp

lemma up_ahead_hears_on:
  assumes "up_ahead t ch n w" and "t \<notin> set (nw_returned w)"
  shows "gm_get (nw_waits w) t = Some (Listening ch)" and "net_step (Hears t) w \<noteq> None"
  using assms by (auto simp: up_ahead_def wait_hear_def split: list.splits)

text \<open>
  C39: when the change of the state to up is notified to a wait that listens, whose channel is then not
  full, the wait returns without an error unless it is cancelled: whatever else happens, it has
  returned as soon as it has received once more than there were changes it had not looked at, at most
  ten times, and until then a receive never blocks.
\<close>

theorem listening_waits_return:
  assumes "net_reachable P oc w" and "gm_get (nw_waits w) t = Some (Listening ch)"
    and "gm_get (nw_updates w) u = Some (old, StateUp)" and "old \<noteq> StateUp"
    and "length (lc_buffer (mo_channels (nw_monitor w) ! ch)) < 10"
    and "net_run (Notifies u # es) w = Some w'" and "Cancels t \<notin> set es"
  shows "t \<in> set (nw_returned w')
    \<or> (count_list es (Hears t) \<le> length (lc_buffer (mo_channels (nw_monitor w) ! ch))
       \<and> gm_get (nw_waits w') t = Some (Listening ch) \<and> net_step (Hears t) w' \<noteq> None)"
proof -
  have l: "listed w" using reachable_listed [OF assms(1)] .
  then have "\<not> mo_stopped (nw_monitor w)" using assms(3) by (auto simp: listed_def)
  then have ch: "ch \<in> set (mo_listeners (nw_monitor w))" "ch < length (mo_channels (nw_monitor w))"
    using l assms(2) by (auto simp: listed_def)
  define w1 where "w1 = w\<lparr>nw_monitor := monitor_notify old StateUp (nw_monitor w), nw_updates := gm_del u (nw_updates w)\<rparr>"
  have n: "net_step (Notifies u) w = Some w1" using assms(3) by (simp add: w1_def)
  have "distinct (mo_listeners (nw_monitor w))" using l by (simp add: listed_def)
  from offers_delivered [OF this ch assms(5), of StateUp]
  have b: "lc_buffer (mo_channels (nw_monitor w1) ! ch) = lc_buffer (mo_channels (nw_monitor w) ! ch) @ [StateUp]"
    using assms(4) by (simp add: w1_def monitor_notify_def)
  have "gm_get (nw_waits w1) t = Some (Listening ch)" using assms(2) by (simp add: w1_def)
  then have "up_ahead t ch (length (lc_buffer (mo_channels (nw_monitor w) ! ch))) w1" using b by (auto simp: up_ahead_def)
  moreover have "own_channels w1" using own_channels_step [OF reachable_own_channels [OF assms(1)] n] .
  moreover have "net_run es w1 = Some w'" using assms(6) n by simp
  ultimately show ?thesis using up_ahead_run_ends [of t ch _ w1 es w'] assms(7) up_ahead_hears_on [of t ch _ w'] by blast
qed

section \<open>Concrete runs\<close>

definition idle_world :: net_world where
  "idle_world = \<lparr>nw_monitor = new_monitor None, nw_updates = [], nw_waits = [], nw_returned = [], nw_seen = []\<rparr>"

lemma run_net_reachable:
  "net_run es w = Some w' \<Longrightarrow> net_reachable P oc w \<Longrightarrow>
    (\<And>as e bs v. es = as @ e # bs \<Longrightarrow> net_run as w = Some v \<Longrightarrow> P e v) \<Longrightarrow> net_reachable P oc w'"
proof (induction es arbitrary: w)
  case (Cons e es)
  then obtain w1 where w1: "net_step e w = Some w1" "net_run es w1 = Some w'" by (auto split: option.splits)
  have e: "P e w" using Cons.prems(3) [of "[]" e es w] by simp
  show ?case
  proof (rule Cons.IH [OF w1(2) net_reachable.step [OF Cons.prems(2) e w1(1)]])
    fix as f bs v
    assume "es = as @ f # bs" "net_run as w1 = Some v"
    then show "P f v" using Cons.prems(3) [of "e # as" f bs v] w1(1) by simp
  qed
qed simp

lemma one_step_reachable:
  "net_reachable P oc w \<Longrightarrow> P e w \<Longrightarrow> net_step e w = Some w' \<Longrightarrow> net_reachable P oc w'"
  by (rule net_reachable.step)

definition told_run :: "net_event list" where
  "told_run = [Sets 0 StateDown, Notifies 0, Begins 1, Subscribes 1, Sets 0 StateUp, Notifies 0, Hears 1]"

lemma told_result:
  "map_option (\<lambda>w. (nw_returned w, nw_seen w)) (net_run told_run idle_world) = Some ([1], [1])"
  by code_simp

fun lone_updates :: "net_event list \<Rightarrow> net_world \<Rightarrow> bool" where
  "lone_updates [] w \<longleftrightarrow> True"
| "lone_updates (e # es) w \<longleftrightarrow>
     (case e of Sets u st \<Rightarrow> nw_updates w = [] | _ \<Rightarrow> True) \<and> (case net_step e w of None \<Rightarrow> True | Some w \<Rightarrow> lone_updates es w)"

lemma lone_reachable:
  "net_run es w = Some w' \<Longrightarrow> lone_updates es w \<Longrightarrow> net_reachable one_updater oc w \<Longrightarrow> net_reachable one_updater oc w'"
proof (induction es arbitrary: w)
  case (Cons e es)
  then obtain w1 where w1: "net_step e w = Some w1" "net_run es w1 = Some w'" by (auto split: option.splits)
  have "one_updater e w" using Cons.prems(2) by (cases e) (auto simp: one_updater_def)
  then have "net_reachable one_updater oc w1" using net_reachable.step [OF Cons.prems(3) _ w1(1)] by blast
  then show ?case using Cons.IH [OF w1(2)] Cons.prems(2) w1(1) by simp
qed simp

theorem waits_are_honest_witness: "\<exists>w. net_run told_run idle_world = Some w \<and> 1 \<in> set (nw_returned w) \<and> 1 \<in> set (nw_seen w)"
proof -
  obtain w where w: "net_run told_run idle_world = Some w" "nw_returned w = [1]" using told_result by auto
  have "net_reachable one_updater None idle_world" unfolding idle_world_def by (rule net_reachable.start)
  moreover have "lone_updates told_run idle_world" by code_simp
  ultimately have "net_reachable one_updater None w" using lone_reachable [OF w(1)] by blast
  from waits_are_honest [OF this, of 1] show ?thesis using w by simp
qed

definition waiting_run :: "net_event list" where
  "waiting_run = [Sets 0 StateDown, Notifies 0, Begins 1, Subscribes 1, Sets 0 StateUp]"

lemma waiting_result:
  "map_option (\<lambda>w. (nw_waits w, nw_updates w, map lc_buffer (mo_channels (nw_monitor w)))) (net_run waiting_run idle_world) =
     Some ([(1, Listening 0)], [(0, StateDown, StateUp)], [[]])"
  by code_simp

theorem listening_waits_return_witness:
  "\<exists>w w'. net_run waiting_run idle_world = Some w
     \<and> net_run [Notifies 0, Sets 0 StateDown, Notifies 0, Begins 2, Hears 1] w = Some w' \<and> 1 \<in> set (nw_returned w')"
proof -
  obtain w where w: "net_run waiting_run idle_world = Some w" "nw_waits w = [(1, Listening 0)]" "nw_updates w = [(0, StateDown, StateUp)]"
      "map lc_buffer (mo_channels (nw_monitor w)) = [[]]"
    using waiting_result by auto
  have "net_reachable (\<lambda>e w. True) None idle_world" unfolding idle_world_def by (rule net_reachable.start)
  then have r: "net_reachable (\<lambda>e w. True) None w" using run_net_reachable [OF w(1)] by blast
  have b: "lc_buffer (mo_channels (nw_monitor w) ! 0) = []" using w(4) by auto
  let ?es = "[Sets 0 StateDown, Notifies 0, Begins 2, Hears 1]"
  have "map_option (\<lambda>w. nw_seen w) (Option.bind (net_run waiting_run idle_world) (net_run (Notifies 0 # ?es))) = Some [1]"
    by code_simp
  then obtain w' where w': "net_run (Notifies 0 # ?es) w = Some w'" using w(1) by auto
  have "1 \<in> set (nw_returned w')" using listening_waits_return [OF r, of 1 0 0 StateDown ?es w'] w(2,3) b w' by simp
  then show ?thesis using w(1) w' by blast
qed

text \<open>
  The channel that is full when the change is notified drops it.  Here another update fills it in
  between; after ten receives the wait listens on, and the network is up.
\<close>

definition flood :: "net_event list" where
  "flood = concat (replicate 5 [Sets 0 StateDegraded, Notifies 0, Sets 0 StateDown, Notifies 0])"

lemma full_channel_drops_up:
  "map_option (\<lambda>w. (mo_state (nw_monitor w), nw_waits w, map lc_buffer (mo_channels (nw_monitor w)), nw_updates w))
     (net_run ([Sets 0 StateDown, Notifies 0, Begins 1, Subscribes 1] @ butlast (butlast flood) @
        [Sets 1 StateDown, Sets 0 StateUp, Notifies 1, Notifies 0] @ replicate 10 (Hears 1)) idle_world) =
   Some (StateUp, [(1, Listening 0)], [[]], [])"
  by code_simp

text \<open>
  A change to up between the reading of the state and the subscription is not heard, and the checks
  that follow change nothing: the wait goes on although the network is up.
\<close>

lemma wake_up_is_lost:
  "map_option (\<lambda>w. (mo_state (nw_monitor w), nw_waits w, map lc_buffer (mo_channels (nw_monitor w)), nw_updates w))
     (net_run [Sets 0 StateDown, Notifies 0, Begins 1, Sets 0 StateUp, Notifies 0, Subscribes 1, Sets 0 StateUp, Notifies 0] idle_world) =
   Some (StateUp, [(1, Listening 0)], [[]], [])"
  by code_simp

text \<open>
  With two updaters, the periodic check and netlink, a notification may be late: a wait returns
  although the network has been down since before it began.
\<close>

lemma late_notification_lies:
  "map_option (\<lambda>w. (mo_state (nw_monitor w), nw_returned w, nw_seen w))
     (net_run [Sets 0 StateUp, Sets 1 StateDown, Begins 1, Subscribes 1, Notifies 0, Hears 1] idle_world) =
   Some (StateDown, [1], [])"
  by code_simp

end
