(* ===== verification/Backup_Jobs.thy ===== *)
theory Backup_Jobs
  imports Operator_Types Job_Manager
begin

declare split_paired_All [simp del] split_paired_Ex [simp del]

text \<open>
  Backups and restores as custom resources: \<open>pkg/apis/transiva/v1alpha1/types.go\<close> and the controllers
  of \<open>backupjob_controller.go\<close>, \<open>backupschedule_controller.go\<close> and \<open>restorejob_controller.go\<close>.  They change
  the object they are given, which their \<open>UpdateStatus\<close> does not store; backups are submitted to the
  job manager.  The clock, fresh identifiers and the cron parser are arguments.  Dereferencing an
  absent progress panics.  Of the events recorded nothing is read, and they are left out.
\<close>

section \<open>Resources\<close>

subsection \<open>Backups\<close>

record backup_source =
  bsr_provider :: string
  bsr_namespace :: string
  bsr_vm_name :: string
  bsr_vm_path :: string
  bsr_vm_id :: string
  bsr_tags :: "(string, string) gomap"

record secret_reference =
  scr_name :: string
  scr_namespace :: string

record credentials_ref =
  crr_secret :: secret_reference

record backup_destination =
  bde_type :: string
  bde_bucket :: string
  bde_prefix :: string
  bde_region :: string
  bde_storage_class :: string
  bde_endpoint :: string
  bde_credentials :: "credentials_ref option"

record backup_format =
  bfo_type :: string
  bfo_compression :: bool
  bfo_level :: int

record incremental_options =
  inc_enabled :: bool
  inc_base :: string

record carbon_aware =
  caw_enabled :: bool
  caw_zone :: string
  caw_max_intensity :: real
  caw_max_delay_hours :: real

record keep_policy =
  rpo_daily :: int
  rpo_weekly :: int
  rpo_monthly :: int
  rpo_yearly :: int

record backup_job_spec =
  bjs_source :: backup_source
  bjs_destination :: backup_destination
  bjs_format :: "backup_format option"
  bjs_incremental :: "incremental_options option"
  bjs_carbon :: "carbon_aware option"
  bjs_retention :: "keep_policy option"
  bjs_metadata :: "(string, string) gomap"

type_synonym job_phase = string

definition jp_pending :: job_phase where "jp_pending = ''Pending''"
definition jp_running :: job_phase where "jp_running = ''Running''"
definition jp_completed :: job_phase where "jp_completed = ''Completed''"
definition jp_failed :: job_phase where "jp_failed = ''Failed''"
definition jp_cancelled :: job_phase where "jp_cancelled = ''Cancelled''"

lemmas jp_defs = jp_pending_def jp_running_def jp_completed_def jp_failed_def jp_cancelled_def

record transfer_progress =
  tpr_percentage :: real
  tpr_transferred :: int
  tpr_total :: int
  tpr_phase :: string
  tpr_estimated :: "instant option"

record backup_condition =
  bco_type :: string
  bco_status :: string
  bco_transition :: instant
  bco_reason :: string
  bco_message :: string

record backup_job_status =
  bjt_phase :: job_phase
  bjt_start :: "instant option"
  bjt_completion :: "instant option"
  bjt_progress :: "transfer_progress option"
  bjt_conditions :: "backup_condition list"
  bjt_output :: string
  bjt_size :: int
  bjt_carbon_intensity :: real
  bjt_carbon_savings :: real
  bjt_error :: string

record backup_job =
  bj_meta :: object_meta
  bj_spec :: backup_job_spec
  bj_status :: backup_job_status

subsection \<open>Schedules\<close>

record backup_job_template =
  bjm_meta :: object_meta
  bjm_spec :: backup_job_spec

record backup_schedule_spec =
  bss_schedule :: string
  bss_timezone :: string
  bss_suspend :: bool
  bss_concurrency :: string
  bss_deadline :: "int option"
  bss_success_limit :: "int option"
  bss_failed_limit :: "int option"
  bss_template :: backup_job_template

record active_job =
  acj_name :: string
  acj_namespace :: string
  acj_uid :: string

record backup_schedule_status =
  bsx_active :: "active_job list"
  bsx_last_schedule :: "instant option"
  bsx_last_success :: "instant option"
  bsx_conditions :: "backup_condition list"

record backup_schedule =
  bsc_meta :: object_meta
  bsc_spec :: backup_schedule_spec
  bsc_status :: backup_schedule_status

subsection \<open>Restores\<close>

record backup_job_ref =
  bjr_name :: string
  bjr_namespace :: string

record restore_source =
  rso_type :: string
  rso_bucket :: string
  rso_path :: string
  rso_region :: string
  rso_endpoint :: string
  rso_ref :: "backup_job_ref option"
  rso_credentials :: "credentials_ref option"

record restore_destination =
  rde_provider :: string
  rde_namespace :: string
  rde_vm_name :: string
  rde_datacenter :: string
  rde_resource_pool :: string
  rde_datastore :: string
  rde_network :: string
  rde_folder :: string
  rde_storage_class :: string

record network_config =
  ncf_name :: string
  ncf_type :: string

record vm_customization =
  vcu_memory :: string
  vcu_cpu :: int
  vcu_networks :: "network_config list"

record restore_options =
  rop_power_on :: bool
  rop_overwrite :: bool
  rop_rename :: string
  rop_convert :: string
  rop_customization :: "vm_customization option"

record restore_job_spec =
  rjs_source :: restore_source
  rjs_destination :: restore_destination
  rjs_options :: "restore_options option"
  rjs_metadata :: "(string, string) gomap"

record restore_job_status =
  rjt_phase :: job_phase
  rjt_start :: "instant option"
  rjt_completion :: "instant option"
  rjt_progress :: "transfer_progress option"
  rjt_conditions :: "backup_condition list"
  rjt_vm_name :: string
  rjt_vm_id :: string
  rjt_error :: string

record restore_job =
  rj_meta :: object_meta
  rj_spec :: restore_job_spec
  rj_status :: restore_job_status

section \<open>The controller of backups\<close>

text \<open>How a call ends: with an error or without, or in a panic.\<close>

datatype call_end = Ends "string option" | NilPanic

definition first_progress :: transfer_progress where
  "first_progress = \<lparr>tpr_percentage = 0, tpr_transferred = 0, tpr_total = 0, tpr_phase = ''Initializing'', tpr_estimated = None\<rparr>"

definition initialize_backup_job :: "instant \<Rightarrow> backup_job \<Rightarrow> backup_job" where
  "initialize_backup_job now b =
     b\<lparr>bj_status := (bj_status b)\<lparr>bjt_phase := jp_pending, bjt_start := Some now, bjt_progress := Some first_progress,
        bjt_conditions := bjt_conditions (bj_status b) @
          [\<lparr>bco_type = ''Initialized'', bco_status = ''True'', bco_transition = now, bco_reason = ''BackupJobCreated'',
            bco_message = ''BackupJob has been created and initialized''\<rparr>]\<rparr>\<rparr>"

text \<open>The check is not implemented and always allows.\<close>

definition backup_carbon_check :: "backup_job \<Rightarrow> string + bool \<times> duration" where
  "backup_carbon_check b = Inr (True, 0)"

definition backup_vm_path :: "backup_source \<Rightarrow> string" where
  "backup_vm_path s =
     (if bsr_provider s = ''kubevirt''
      then if bsr_namespace s \<noteq> [] \<and> bsr_vm_name s \<noteq> [] then bsr_namespace s @ ''/'' @ bsr_vm_name s else bsr_vm_name s
      else if bsr_provider s = ''vsphere'' then bsr_vm_path s
      else bsr_vm_name s)"

definition build_job_definition :: "backup_job \<Rightarrow> job_definition" where
  "build_job_definition b =
     (let sp = bj_spec b;
          dir = (if bde_type (bjs_destination sp) = ''local'' then bde_bucket (bjs_destination sp) else ''/tmp/backups'');
          fmt = (case bjs_format sp of Some f \<Rightarrow> if bfo_type f \<noteq> [] then bfo_type f else ''ovf'' | None \<Rightarrow> ''ovf'');
          md = [(''backupJob'', MetaString (om_namespace (bj_meta b) @ ''/'' @ om_name (bj_meta b))),
                (''provider'', MetaString (bsr_provider (bjs_source sp)))];
          md = (case bjs_carbon sp of
                  Some c \<Rightarrow> if caw_enabled c
                            then md @ [(''carbon_aware'', MetaOther), (''carbon_zone'', MetaString (caw_zone c)), (''carbon_max_intensity'', MetaOther)]
                            else md
                | None \<Rightarrow> md);
          md = (case bjs_incremental sp of
                  Some i \<Rightarrow> if inc_enabled i
                            then md @ [(''incremental'', MetaOther)] @ (if inc_base i \<noteq> [] then [(''base_backup_ref'', MetaString (inc_base i))] else [])
                            else md
                | None \<Rightarrow> md)
      in zero_job_definition\<lparr>jd_vm_path := backup_vm_path (bjs_source sp), jd_output_dir := dir, jd_format := fmt, jd_metadata := Some md\<rparr>)"

text \<open>The text of the error of a submission; the others are not returned by it.\<close>

fun submit_error_text :: "jm_error \<Rightarrow> string" where
  "submit_error_text (JobAlreadyExists i) = ''job with ID '' @ i @ '' already exists''"
| "submit_error_text (JobNotFound i) = ''job not found: '' @ i"
| "submit_error_text (CannotCancel i st) = ''cannot cancel job''"

definition start_backup ::
  "instant \<Rightarrow> string \<Rightarrow> backup_job \<Rightarrow> manager \<Rightarrow> call_end \<times> backup_job \<times> manager" where
  "start_backup now uuid b m =
     (case submit_job now uuid (build_job_definition b) m of
        Inl e \<Rightarrow>
          (Ends (Some (submit_error_text e)),
           b\<lparr>bj_status := (bj_status b)\<lparr>bjt_phase := jp_failed, bjt_error := submit_error_text e\<rparr>\<rparr>, m)
      | Inr (i, m) \<Rightarrow>
          (let b = b\<lparr>bj_status := (bj_status b)\<lparr>bjt_phase := jp_running\<rparr>\<rparr>
           in case bjt_progress (bj_status b) of
                None \<Rightarrow> (NilPanic, b, m)
              | Some p \<Rightarrow>
                  (Ends None,
                   b\<lparr>bj_status := (bj_status b)\<lparr>bjt_progress := Some (p\<lparr>tpr_phase := ''Backup in progress''\<rparr>),
                      bjt_conditions := bjt_conditions (bj_status b) @
                        [\<lparr>bco_type = ''Running'', bco_status = ''True'', bco_transition = now, bco_reason = ''BackupStarted'',
                          bco_message = ''Backup job started with ID: '' @ i\<rparr>]\<rparr>\<rparr>, m)))"

definition handle_pending_job ::
  "(duration \<Rightarrow> string) \<Rightarrow> instant \<Rightarrow> string \<Rightarrow> backup_job \<Rightarrow> manager \<Rightarrow> call_end \<times> backup_job \<times> manager" where
  "handle_pending_job show_duration now uuid b m =
     (if (case bjs_carbon (bj_spec b) of Some c \<Rightarrow> caw_enabled c | None \<Rightarrow> False)
      then case backup_carbon_check b of
        Inl e \<Rightarrow> start_backup now uuid b m
      | Inr (ok, delay) \<Rightarrow>
          if ok then start_backup now uuid b m
          else (case bjt_progress (bj_status b) of
                  None \<Rightarrow> (NilPanic, b, m)
                | Some p \<Rightarrow>
                    (Ends (Some (''delaying backup: '' @ show_duration delay)),
                     b\<lparr>bj_status := (bj_status b)\<lparr>bjt_progress :=
                       Some (p\<lparr>tpr_phase := ''Delayed for '' @ show_duration delay @ '' (carbon-aware)''\<rparr>)\<rparr>\<rparr>, m))
      else start_backup now uuid b m)"

text \<open>\<open>monitorRunningJob\<close> and \<open>applyRetentionPolicy\<close> only log.\<close>

definition monitor_running_job :: "backup_job \<Rightarrow> backup_job" where
  "monitor_running_job b = b"

definition apply_retention_policy :: "backup_job \<Rightarrow> backup_job" where
  "apply_retention_policy b = b"

definition reconcile_backup_job ::
  "(duration \<Rightarrow> string) \<Rightarrow> instant \<Rightarrow> string \<Rightarrow> backup_job \<Rightarrow> manager \<Rightarrow> call_end \<times> backup_job \<times> manager" where
  "reconcile_backup_job show_duration now uuid b m =
     (let ph = bjt_phase (bj_status b)
      in if ph = [] then (Ends None, initialize_backup_job now b, m)
         else if ph = jp_pending then handle_pending_job show_duration now uuid b m
         else if ph = jp_running then (Ends None, monitor_running_job b, m)
         else if ph = jp_completed \<and> bjs_retention (bj_spec b) \<noteq> None then (Ends None, apply_retention_policy b, m)
         else (Ends None, b, m))"

section \<open>The controller of restores\<close>

definition validate_restore_source :: "restore_source \<Rightarrow> string option" where
  "validate_restore_source s =
     (if rso_type s \<in> set [''s3'', ''azure-blob'', ''gcs'']
      then if rso_bucket s = [] then Some (''bucket is required for '' @ rso_type s @ '' source'')
           else if rso_path s = [] then Some (''path is required for '' @ rso_type s @ '' source'') else None
      else if rso_type s \<in> set [''local'', ''nfs'']
      then if rso_path s = [] then Some (''path is required for '' @ rso_type s @ '' source'') else None
      else if rso_type s = ''backup-ref''
      then (case rso_ref s of
              None \<Rightarrow> Some ''backupJobRef is required for backup-ref source type''
            | Some r \<Rightarrow> if bjr_name r = [] then Some ''backupJobRef.name is required'' else None)
      else Some (''unknown source type: '' @ rso_type s))"

definition initialize_restore_job :: "instant \<Rightarrow> restore_job \<Rightarrow> call_end \<times> restore_job" where
  "initialize_restore_job now r =
     (case validate_restore_source (rjs_source (rj_spec r)) of
        Some e \<Rightarrow> (Ends (Some e), r\<lparr>rj_status := (rj_status r)\<lparr>rjt_phase := jp_failed, rjt_error := e\<rparr>\<rparr>)
      | None \<Rightarrow>
          (Ends None,
           r\<lparr>rj_status := (rj_status r)\<lparr>rjt_phase := jp_pending, rjt_start := Some now, rjt_progress := Some first_progress,
              rjt_conditions := rjt_conditions (rj_status r) @
                [\<lparr>bco_type = ''Initialized'', bco_status = ''True'', bco_transition = now, bco_reason = ''RestoreJobCreated'',
                  bco_message = ''RestoreJob has been created and initialized''\<rparr>]\<rparr>\<rparr>))"

text \<open>\<open>None\<close> is the panic on an absent reference.\<close>

definition resolve_source_path :: "restore_job \<Rightarrow> (string + string) option" where
  "resolve_source_path r =
     (let s = rjs_source (rj_spec r)
      in if rso_type s = ''s3'' then Some (Inr (''s3://'' @ rso_bucket s @ ''/'' @ rso_path s))
         else if rso_type s = ''azure-blob'' then Some (Inr (''azure://'' @ rso_bucket s @ ''/'' @ rso_path s))
         else if rso_type s = ''gcs'' then Some (Inr (''gs://'' @ rso_bucket s @ ''/'' @ rso_path s))
         else if rso_type s \<in> set [''local'', ''nfs''] then Some (Inr (rso_path s))
         else if rso_type s = ''backup-ref''
         then map_option (\<lambda>f. Inr (''/backups/'' @ (if bjr_namespace f = [] then om_namespace (rj_meta r) else bjr_namespace f)
                @ ''/'' @ bjr_name f)) (rso_ref s)
         else Some (Inl (''unknown source type: '' @ rso_type s)))"

definition set_if :: "string \<Rightarrow> string \<Rightarrow> (string \<times> metaval) list" where
  "set_if k v = (if v \<noteq> [] then [(k, MetaString v)] else [])"

definition build_restore_job_definition :: "restore_job \<Rightarrow> string \<Rightarrow> job_definition" where
  "build_restore_job_definition r path =
     (let d = rjs_destination (rj_spec r); o' = rjs_options (rj_spec r);
          name = (case o' of Some p \<Rightarrow> if rop_rename p \<noteq> [] then rop_rename p else rde_vm_name d | None \<Rightarrow> rde_vm_name d);
          md = [(''restoreJob'', MetaString (om_namespace (rj_meta r) @ ''/'' @ om_name (rj_meta r))),
                (''provider'', MetaString (rde_provider d)), (''vmName'', MetaString name), (''operation'', MetaString ''restore'')]
               @ set_if ''namespace'' (rde_namespace d) @ set_if ''datacenter'' (rde_datacenter d)
               @ set_if ''resourcePool'' (rde_resource_pool d)
               @ (case o' of None \<Rightarrow> []
                  | Some p \<Rightarrow>
                      (if rop_power_on p then [(''powerOn'', MetaOther)] else [])
                      @ (if rop_overwrite p then [(''overwrite'', MetaOther)] else [])
                      @ (case rop_customization p of None \<Rightarrow> []
                         | Some u \<Rightarrow> set_if ''customMemory'' (vcu_memory u) @ (if 0 < vcu_cpu u then [(''customCPU'', MetaOther)] else [])));
          fmt = (case o' of Some p \<Rightarrow> if rop_convert p \<noteq> [] then rop_convert p else ''ovf'' | None \<Rightarrow> ''ovf'')
      in zero_job_definition\<lparr>jd_vm_path := path, jd_output_dir := ''/tmp/restores'', jd_format := fmt, jd_metadata := Some md\<rparr>)"

text \<open>The definition is built and logged; nothing is submitted.\<close>

definition start_restore :: "instant \<Rightarrow> int \<Rightarrow> restore_job \<Rightarrow> call_end \<times> restore_job" where
  "start_restore now unix r =
     (case resolve_source_path r of
        None \<Rightarrow> (NilPanic, r)
      | Some (Inl e) \<Rightarrow> (Ends (Some e), r\<lparr>rj_status := (rj_status r)\<lparr>rjt_phase := jp_failed, rjt_error := e\<rparr>\<rparr>)
      | Some (Inr path) \<Rightarrow>
          (let r = r\<lparr>rj_status := (rj_status r)\<lparr>rjt_phase := jp_running\<rparr>\<rparr>
           in case rjt_progress (rj_status r) of
                None \<Rightarrow> (NilPanic, r)
              | Some p \<Rightarrow>
                  (Ends None,
                   r\<lparr>rj_status := (rj_status r)\<lparr>rjt_progress := Some (p\<lparr>tpr_phase := ''Restore in progress''\<rparr>),
                      rjt_conditions := rjt_conditions (rj_status r) @
                        [\<lparr>bco_type = ''Running'', bco_status = ''True'', bco_transition = now, bco_reason = ''RestoreStarted'',
                          bco_message = ''Restore job started with ID: restore-'' @ om_name (rj_meta r) @ ''-'' @ dec_int unix\<rparr>]\<rparr>\<rparr>)))"

definition reconcile_restore_job :: "instant \<Rightarrow> int \<Rightarrow> restore_job \<Rightarrow> call_end \<times> restore_job" where
  "reconcile_restore_job now unix r =
     (let ph = rjt_phase (rj_status r)
      in if ph = [] then initialize_restore_job now r
         else if ph = jp_pending then start_restore now unix r
         else (Ends None, r))"

section \<open>The controller of schedules\<close>

text \<open>
  A parsed schedule maps an instant to the next one.  The zone only changes how the current time is
  written, not the instants that are compared.
\<close>

record schedule_env =
  se_parse :: "string \<Rightarrow> string + (instant \<Rightarrow> instant)"
  se_now :: instant
  se_unix :: int
  se_scheduled_at :: string
  se_after :: instant

text \<open>\<open>Inl\<close> for an unknown policy.\<close>

definition check_concurrency_policy :: "backup_schedule \<Rightarrow> string + bool" where
  "check_concurrency_policy x =
     (let p = (if bss_concurrency (bsc_spec x) = [] then ''Forbid'' else bss_concurrency (bsc_spec x))
      in if p = ''Allow'' then Inr True
         else if p = ''Forbid'' then Inr (bsx_active (bsc_status x) = [])
         else if p = ''Replace'' then Inr True
         else Inl (''unknown concurrency policy: '' @ p))"

definition scheduled_backup_job :: "schedule_env \<Rightarrow> backup_schedule \<Rightarrow> backup_job" where
  "scheduled_backup_job env x =
     (let t = bss_template (bsc_spec x); n = om_name (bsc_meta x);
          ls = fold (\<lambda>(k, v). gm_put k v) (om_labels (bjm_meta t))
                 [(''app'', ''transiva''), (''transiva.zyvor.ai/schedule'', n), (''transiva.zyvor.ai/scheduled-backup'', ''true'')];
          as = fold (\<lambda>(k, v). gm_put k v) (om_annotations (bjm_meta t)) [(''transiva.zyvor.ai/scheduled-at'', se_scheduled_at env)]
      in \<lparr>bj_meta = (plain_meta (n @ ''-'' @ dec_int (se_unix env)) (om_namespace (bsc_meta x)) ls)\<lparr>om_annotations := as\<rparr>,
          bj_spec = bjm_spec t,
          bj_status = \<lparr>bjt_phase = [], bjt_start = None, bjt_completion = None, bjt_progress = None, bjt_conditions = [], bjt_output = [],
            bjt_size = 0, bjt_carbon_intensity = 0, bjt_carbon_savings = 0, bjt_error = []\<rparr>\<rparr>)"

text \<open>The job is logged and noted as active; the call that would create it is missing.\<close>

definition create_scheduled_job :: "schedule_env \<Rightarrow> backup_schedule \<Rightarrow> backup_schedule" where
  "create_scheduled_job env x =
     x\<lparr>bsc_status := (bsc_status x)\<lparr>bsx_active := bsx_active (bsc_status x) @
        [\<lparr>acj_name = om_name (bj_meta (scheduled_backup_job env x)), acj_namespace = om_namespace (bsc_meta x), acj_uid = []\<rparr>]\<rparr>\<rparr>"

definition cleanup_old_jobs :: "backup_schedule \<Rightarrow> backup_schedule" where
  "cleanup_old_jobs x = x"

definition missed_deadline :: "schedule_env \<Rightarrow> instant \<Rightarrow> backup_schedule \<Rightarrow> bool" where
  "missed_deadline env next_run x =
     (case bss_deadline (bsc_spec x) of None \<Rightarrow> False | Some d \<Rightarrow> next_run + wrap64 (d * second) < se_now env)"

definition reconcile_backup_schedule :: "schedule_env \<Rightarrow> backup_schedule \<Rightarrow> string option \<times> backup_schedule" where
  "reconcile_backup_schedule env x =
     (if bss_suspend (bsc_spec x) then (None, x)
      else case se_parse env (bss_schedule (bsc_spec x)) of
        Inl e \<Rightarrow> (Some e, x)
      | Inr cron \<Rightarrow>
          (let next_run = cron (case bsx_last_schedule (bsc_status x) of None \<Rightarrow> 0 | Some t \<Rightarrow> t)
           in if next_run \<le> se_now env
              then if missed_deadline env next_run x
                   then (None, x\<lparr>bsc_status := (bsc_status x)\<lparr>bsx_last_schedule := Some next_run\<rparr>\<rparr>)
                   else case check_concurrency_policy x of
                          Inl e \<Rightarrow> (Some e, x)
                        | Inr ok \<Rightarrow>
                            if \<not> ok then (None, x)
                            else let x = create_scheduled_job env x;
                                     x = x\<lparr>bsc_status := (bsc_status x)\<lparr>bsx_last_schedule := Some (se_after env)\<rparr>\<rparr>
                                 in (None, cleanup_old_jobs x)
              else (None, cleanup_old_jobs x)))"

text \<open>Keeps every job it finds.\<close>

definition update_active_jobs :: "backup_schedule \<Rightarrow> backup_schedule" where
  "update_active_jobs x = x"

section \<open>A backup is submitted once\<close>

text \<open>A backup's resource beside the job manager with all its goroutines; \<open>bw_submitted\<close> are the jobs it led to.\<close>

record backup_world =
  bw_job :: backup_job
  bw_sys :: jm_sys
  bw_submitted :: "string list"

inductive backup_world_step :: "backup_world \<Rightarrow> backup_world \<Rightarrow> bool" where
  reconciles: "reconcile_backup_job sd now uuid (bw_job w) (js_mgr (bw_sys w)) = (e, b', js_mgr (bw_sys w)) \<Longrightarrow>
    backup_world_step w (w\<lparr>bw_job := b'\<rparr>)"
| submits: "reconcile_backup_job sd now uuid (bw_job w) (js_mgr (bw_sys w)) = (e, b', m') \<Longrightarrow>
    submit_job now uuid (build_job_definition (bw_job w)) (js_mgr (bw_sys w)) = Inr (k, m') \<Longrightarrow>
    backup_world_step w (w\<lparr>bw_job := b', bw_sys := \<lparr>js_mgr = m', js_threads = (js_threads (bw_sys w))(k \<mapsto> Spawned)\<rparr>,
      bw_submitted := bw_submitted w @ [k]\<rparr>)"
| manages: "jm_step (bw_sys w) s' \<Longrightarrow> backup_world_step w (w\<lparr>bw_sys := s'\<rparr>)"

inductive backup_world_reachable :: "backup_job \<Rightarrow> instant \<Rightarrow> detector \<Rightarrow> backup_world \<Rightarrow> bool" for b now d where
  init: "backup_world_reachable b now d \<lparr>bw_job = b, bw_sys = init_sys now d, bw_submitted = []\<rparr>"
| step: "backup_world_reachable b now d w \<Longrightarrow> backup_world_step w w' \<Longrightarrow> backup_world_reachable b now d w'"

lemma phases_differ [simp]:
  "[] \<noteq> jp_pending" "[] \<noteq> jp_running" "[] \<noteq> jp_failed" "[] \<noteq> jp_completed"
  "jp_pending \<noteq> []" "jp_running \<noteq> []" "jp_failed \<noteq> []" "jp_pending \<noteq> jp_running" "jp_running \<noteq> jp_pending"
  "jp_failed \<noteq> jp_pending" "jp_failed \<noteq> jp_running" "jp_completed \<noteq> jp_running" "jp_running \<noteq> jp_completed"
  "jp_completed \<noteq> jp_failed" "jp_failed \<noteq> jp_completed" "jp_completed \<noteq> jp_pending" "jp_pending \<noteq> jp_completed" "jp_completed \<noteq> []"
  "jp_pending \<noteq> jp_failed" "jp_running \<noteq> jp_failed"
  by (simp_all add: jp_defs)

lemma pending_starts: "handle_pending_job sd now uuid b m = start_backup now uuid b m"
  by (auto simp: handle_pending_job_def backup_carbon_check_def split: option.splits)

text \<open>Every reconciliation is one of these steps: the manager changes by one submission or not at all.\<close>

lemma reconcile_backup_cases:
  assumes "reconcile_backup_job sd now uuid b m = (e, b', m')"
  shows "m' = m \<or> (\<exists>k. submit_job now uuid (build_job_definition b) m = Inr (k, m'))"
  using assms
  by (auto simp: reconcile_backup_job_def pending_starts start_backup_def Let_def split: if_splits sum.splits prod.splits option.splits)

lemma submitted_manager_differs: "submit_job now uuid d m = Inr (k, m') \<Longrightarrow> find_job m k = None \<and> find_job m' k \<noteq> None"
  by (auto simp: submit_job_def Let_def split: if_splits)

definition backup_tracked :: "job_phase \<Rightarrow> string list \<Rightarrow> bool" where
  "backup_tracked ph ks \<longleftrightarrow> (ph \<in> {[], jp_pending, jp_failed} \<and> ks = []) \<or> (ph = jp_running \<and> (\<exists>k. ks = [k]))"

lemma reconcile_tracked:
  assumes "reconcile_backup_job sd now uuid b m = (e, b', m')" and "backup_tracked (bjt_phase (bj_status b)) ks"
  shows "(m' = m \<and> backup_tracked (bjt_phase (bj_status b')) ks) \<or>
    (\<exists>k. submit_job now uuid (build_job_definition b) m = Inr (k, m') \<and> m' \<noteq> m \<and> backup_tracked (bjt_phase (bj_status b')) (ks @ [k]))"
proof -
  have d: "m' \<noteq> m" if "submit_job now uuid (build_job_definition b) m = Inr (k, m')" for k
    using submitted_manager_differs [OF that] by auto
  show ?thesis
  proof (cases "bjt_phase (bj_status b) = jp_pending")
    case True
    then have r: "start_backup now uuid b m = (e, b', m')" and ks: "ks = []"
      using assms by (auto simp: reconcile_backup_job_def pending_starts Let_def backup_tracked_def)
    show ?thesis
    proof (cases "submit_job now uuid (build_job_definition b) m")
      case (Inl x)
      then show ?thesis using r ks by (auto simp: start_backup_def backup_tracked_def)
    next
      case (Inr km)
      obtain k m1 where km: "km = (k, m1)" by fastforce
      then have "m1 = m'" "bjt_phase (bj_status b') = jp_running"
        using r Inr by (auto simp: start_backup_def Let_def split: option.splits)
      then show ?thesis using Inr km ks d by (auto simp: backup_tracked_def)
    qed
  next
    case False
    then have "m' = m" "backup_tracked (bjt_phase (bj_status b')) ks"
      using assms
      by (auto simp: reconcile_backup_job_def Let_def backup_tracked_def initialize_backup_job_def monitor_running_job_def
          apply_retention_policy_def split: if_splits)
    then show ?thesis by blast
  qed
qed

lemma jm_step_submits:
  "submit_job now uuid d (js_mgr s) = Inr (k, m') \<Longrightarrow> jm_step s \<lparr>js_mgr = m', js_threads = (js_threads s)(k \<mapsto> Spawned)\<rparr>"
  by (rule jm_step.submit)

lemma backup_world_inv:
  assumes "backup_world_reachable b now d w" and "bjt_phase (bj_status b) = []"
  shows "jm_reachable now d (bw_sys w) \<and> backup_tracked (bjt_phase (bj_status (bw_job w))) (bw_submitted w)"
  using assms(1)
proof (induction rule: backup_world_reachable.induct)
  case init
  then show ?case using assms(2) by (simp add: jm_reachable.init backup_tracked_def)
next
  case (step w w')
  from step(2) show ?case
  proof cases
    case (reconciles sd t uuid e b')
    then show ?thesis using step(3) reconcile_tracked [OF reconciles(2)] by auto
  next
    case (submits sd t uuid e b' m' k)
    have "m' \<noteq> js_mgr (bw_sys w)" using submitted_manager_differs [OF submits(3)] by auto
    then have "backup_tracked (bjt_phase (bj_status b')) (bw_submitted w @ [k])"
      using reconcile_tracked [OF submits(2)] step(3) submits(3) by auto
    moreover have "jm_reachable now d \<lparr>js_mgr = m', js_threads = (js_threads (bw_sys w))(k \<mapsto> Spawned)\<rparr>"
      using jm_reachable.step [OF _ jm_step_submits [OF submits(3)]] step(3) by blast
    ultimately show ?thesis using submits(1) by simp
  next
    case (manages s')
    then show ?thesis using step(3) jm_reachable.step by auto
  qed
qed

text \<open>
  However its reconciliations and the goroutines of the job manager interleave, a backup leads to
  at most one job; it is running exactly when it has led to one, and it is never completed, because
  nothing asks the manager what became of the job.
\<close>

theorem a_backup_is_submitted_once:
  assumes "backup_world_reachable b now d w" and "bjt_phase (bj_status b) = []"
  shows "length (bw_submitted w) \<le> 1 \<and> (bjt_phase (bj_status (bw_job w)) = jp_running \<longleftrightarrow> bw_submitted w \<noteq> [])
    \<and> bjt_phase (bj_status (bw_job w)) \<noteq> jp_completed \<and> jm_reachable now d (bw_sys w)"
  using backup_world_inv [OF assms] by (auto simp: backup_tracked_def)

section \<open>Restores\<close>

text \<open>A source that was validated resolves to a path; nothing else in a restore can fail.\<close>

lemma validated_sources_resolve:
  "validate_restore_source (rjs_source (rj_spec r)) = None \<Longrightarrow> \<exists>path. resolve_source_path r = Some (Inr path)"
  by (auto simp: validate_restore_source_def resolve_source_path_def Let_def split: if_splits option.splits)

definition restore_tracked :: "restore_job \<Rightarrow> bool" where
  "restore_tracked r \<longleftrightarrow>
     rjt_phase (rj_status r) \<in> {[], jp_running, jp_failed} \<or>
     (rjt_phase (rj_status r) = jp_pending \<and> rjt_progress (rj_status r) \<noteq> None
      \<and> validate_restore_source (rjs_source (rj_spec r)) = None)"

fun reconcile_restores :: "(instant \<times> int) list \<Rightarrow> restore_job \<Rightarrow> call_end list \<times> restore_job" where
  "reconcile_restores [] r = ([], r)"
| "reconcile_restores ((t, u) # ts) r =
     (let (e, r) = reconcile_restore_job t u r; (es, r) = reconcile_restores ts r in (e # es, r))"

lemma restore_step:
  assumes "reconcile_restore_job t u r = (e, r')" and "restore_tracked r"
  shows "restore_tracked r' \<and> e \<noteq> NilPanic"
proof (cases "rjt_phase (rj_status r) = jp_pending")
  case True
  then have v: "validate_restore_source (rjs_source (rj_spec r)) = None" "rjt_progress (rj_status r) \<noteq> None"
    using assms(2) by (auto simp: restore_tracked_def)
  obtain p path where "rjt_progress (rj_status r) = Some p" "resolve_source_path r = Some (Inr path)"
    using v validated_sources_resolve [OF v(1)] by blast
  then show ?thesis using assms(1) True
    by (auto simp: reconcile_restore_job_def start_restore_def restore_tracked_def Let_def)
next
  case False
  then show ?thesis using assms
    by (auto simp: reconcile_restore_job_def initialize_restore_job_def restore_tracked_def Let_def split: if_splits option.splits)
qed

text \<open>
  The reconciliations of a restore that starts without a phase never panic, and fail at most for
  its source; it never comes to an end other than a failed validation.
\<close>

theorem restores_do_not_panic:
  assumes "rjt_phase (rj_status r) = []" and "reconcile_restores ts r = (es, r')"
  shows "NilPanic \<notin> set es \<and> rjt_phase (rj_status r') \<noteq> jp_completed"
proof -
  have "restore_tracked r' \<and> NilPanic \<notin> set es" if "restore_tracked r" "reconcile_restores ts r = (es, r')" for r ts es r'
    using that
  proof (induction ts r arbitrary: es rule: reconcile_restores.induct)
    case (2 t u ts r)
    obtain e r1 where 1: "reconcile_restore_job t u r = (e, r1)" by fastforce
    obtain es1 r2 where 2: "reconcile_restores ts r1 = (es1, r2)" by fastforce
    have s: "restore_tracked r1" "e \<noteq> NilPanic" using restore_step [OF 1 "2.prems"(1)] by simp_all
    have "es = e # es1" "r' = r2" using "2.prems"(2) 1 2 by simp_all
    then show ?case using "2.IH" [OF 1 [symmetric] refl s(1), of es1] 2 s(2) by auto
  qed simp
  from this [OF _ assms(2)] show ?thesis using assms(1) by (auto simp: restore_tracked_def)
qed

section \<open>Schedules\<close>

fun reconcile_all_schedules :: "schedule_env list \<Rightarrow> backup_schedule \<Rightarrow> backup_schedule" where
  "reconcile_all_schedules [] x = x"
| "reconcile_all_schedules (env # envs) x = reconcile_all_schedules envs (update_active_jobs (snd (reconcile_backup_schedule env x)))"

lemma reconcile_spec_kept [simp]: "bsc_spec (snd (reconcile_backup_schedule env x)) = bsc_spec x"
  by (auto simp: reconcile_backup_schedule_def create_scheduled_job_def cleanup_old_jobs_def Let_def split: sum.splits)

definition forbids :: "backup_schedule \<Rightarrow> bool" where
  "forbids x \<longleftrightarrow> bss_concurrency (bsc_spec x) \<in> {[], ''Forbid''}"

lemma forbidding_step:
  assumes "forbids x" and "length (bsx_active (bsc_status x)) \<le> 1"
  shows "length (bsx_active (bsc_status (snd (reconcile_backup_schedule env x)))) \<le> 1
    \<and> (bsx_active (bsc_status x) \<noteq> [] \<longrightarrow> bsx_active (bsc_status (snd (reconcile_backup_schedule env x))) = bsx_active (bsc_status x))"
  using assms
  by (auto simp: reconcile_backup_schedule_def forbids_def check_concurrency_policy_def create_scheduled_job_def cleanup_old_jobs_def
      Let_def split: sum.splits)

text \<open>
  Under the default policy, which forbids jobs at the same time, a schedule leads to one job at
  most, ever: the list of active jobs is never cleared.
\<close>

theorem forbidding_schedules_run_once:
  assumes "forbids x" and "bsx_active (bsc_status x) = []"
  shows "length (bsx_active (bsc_status (reconcile_all_schedules envs x))) \<le> 1"
proof -
  have "length (bsx_active (bsc_status y)) \<le> 1 \<Longrightarrow> forbids y \<Longrightarrow> length (bsx_active (bsc_status (reconcile_all_schedules envs y))) \<le> 1" for y
  proof (induction envs arbitrary: y)
    case (Cons env envs)
    have "forbids (snd (reconcile_backup_schedule env y))" using Cons.prems(2) by (simp add: forbids_def)
    then show ?case using Cons.IH forbidding_step [OF Cons.prems(2,1)] by (simp add: update_active_jobs_def)
  qed simp
  then show ?thesis using assms by simp
qed

definition last_run :: "backup_schedule \<Rightarrow> instant" where
  "last_run x = (case bsx_last_schedule (bsc_status x) of None \<Rightarrow> 0 | Some t \<Rightarrow> t)"

lemma lagging_step:
  assumes "bss_deadline (bsc_spec x) = Some d" and "se_parse env (bss_schedule (bsc_spec x)) = Inr cron"
    and "\<And>t. cron t \<le> t + period" and "last_run x + period + wrap64 (d * second) < se_now env" and "0 \<le> wrap64 (d * second)"
    and "\<not> bss_suspend (bsc_spec x)"
  shows "snd (reconcile_backup_schedule env x) = x\<lparr>bsc_status := (bsc_status x)\<lparr>bsx_last_schedule := Some (cron (last_run x))\<rparr>\<rparr>"
proof -
  have c: "cron (last_run x) + wrap64 (d * second) < se_now env" using assms(3) [of "last_run x"] assms(4) by linarith
  then have "cron (last_run x) \<le> se_now env" using assms(5) by linarith
  then show ?thesis using assms(1,2,6) c
    by (simp add: reconcile_backup_schedule_def missed_deadline_def last_run_def [symmetric] Let_def)
qed

lemma lagging_runs:
  assumes "bss_deadline (bsc_spec x) = Some d" and "0 \<le> wrap64 (d * second)" and "\<not> bss_suspend (bsc_spec x)"
    and "\<And>env. env \<in> set envs \<Longrightarrow> se_parse env (bss_schedule (bsc_spec x)) = Inr cron \<and> now \<le> se_now env"
    and "\<And>t. cron t \<le> t + period" and "0 \<le> period" and "last_run x + int (length envs) * period + wrap64 (d * second) < now"
  shows "reconcile_all_schedules envs x = (if envs = [] then x
    else x\<lparr>bsc_status := (bsc_status x)\<lparr>bsx_last_schedule := Some ((cron ^^ length envs) (last_run x))\<rparr>\<rparr>)"
  using assms(1,3,4,7)
proof (induction envs arbitrary: x)
  case (Cons env envs)
  define y where "y = x\<lparr>bsc_status := (bsc_status x)\<lparr>bsx_last_schedule := Some (cron (last_run x))\<rparr>\<rparr>"
  have ex: "int (length (env # envs)) * period = period + int (length envs) * period" by (simp add: distrib_right)
  have "0 \<le> int (length envs) * period" using assms(6) by simp
  then have l: "last_run x + period + wrap64 (d * second) < se_now env" using Cons.prems(3) [of env] Cons.prems(4) ex by simp
  have "se_parse env (bss_schedule (bsc_spec x)) = Inr cron" using Cons.prems(3) by simp
  from lagging_step [OF Cons.prems(1) this assms(5) l assms(2) Cons.prems(2)]
  have y: "snd (reconcile_backup_schedule env x) = y" by (simp add: y_def)
  have ly: "last_run y = cron (last_run x)" "bsc_spec y = bsc_spec x" by (simp_all add: y_def last_run_def)
  have "reconcile_all_schedules envs y = (if envs = [] then y
      else y\<lparr>bsc_status := (bsc_status y)\<lparr>bsx_last_schedule := Some ((cron ^^ length envs) (last_run y))\<rparr>\<rparr>)"
    using Cons.IH [of y] Cons.prems ly assms(5) [of "last_run x"] ex by simp
  then have "reconcile_all_schedules (env # envs) x = y\<lparr>bsc_status := (bsc_status y)\<lparr>bsx_last_schedule := Some ((cron ^^ length envs) (last_run y))\<rparr>\<rparr>"
    by (auto simp: y update_active_jobs_def ly) (simp add: y_def)
  also have "\<dots> = x\<lparr>bsc_status := (bsc_status x)\<lparr>bsx_last_schedule := Some ((cron ^^ length (env # envs)) (last_run x))\<rparr>\<rparr>"
    by (simp add: y_def ly funpow_swap1) (simp add: last_run_def)
  finally show ?case by simp
qed simp

text \<open>
  C40: a schedule with a starting deadline that has not run counts its runs from the zero time, in the
  year one, and moves on by exactly one of them in every reconciliation: after \<open>n\<close> reconciliations the
  last schedule time is the \<open>n\<close>th run after the zero time and nothing else has changed, so no job was
  noted.  This goes on as long as \<open>n\<close> times the longest gap between two runs, and the deadline, end
  before now, for a schedule that is not suspended and does not change.
\<close>

theorem deadline_schedules_lag:
  assumes "bss_deadline (bsc_spec x) = Some d" and "0 \<le> wrap64 (d * second)" and "\<not> bss_suspend (bsc_spec x)"
    and "bsx_last_schedule (bsc_status x) = None" and "envs \<noteq> []"
    and "\<And>env. env \<in> set envs \<Longrightarrow> se_parse env (bss_schedule (bsc_spec x)) = Inr cron \<and> now \<le> se_now env"
    and "\<And>t. cron t \<le> t + period" and "0 \<le> period" and "int (length envs) * period + wrap64 (d * second) < now"
  shows "reconcile_all_schedules envs x =
    x\<lparr>bsc_status := (bsc_status x)\<lparr>bsx_last_schedule := Some ((cron ^^ length envs) 0)\<rparr>\<rparr>"
proof -
  have "last_run x = 0" using assms(4) by (simp add: last_run_def)
  then show ?thesis using lagging_runs [OF assms(1-3,6-8)] assms(5,9) by simp
qed

section \<open>Concrete objects\<close>

definition new_status :: backup_job_status where
  "new_status = \<lparr>bjt_phase = [], bjt_start = None, bjt_completion = None, bjt_progress = None, bjt_conditions = [], bjt_output = [],
     bjt_size = 0, bjt_carbon_intensity = 0, bjt_carbon_savings = 0, bjt_error = []\<rparr>"

definition demo_backup_spec :: backup_job_spec where
  "demo_backup_spec =
     \<lparr>bjs_source = \<lparr>bsr_provider = ''vsphere'', bsr_namespace = [], bsr_vm_name = ''web'', bsr_vm_path = ''/dc/vm/web'', bsr_vm_id = [], bsr_tags = []\<rparr>,
      bjs_destination = \<lparr>bde_type = ''local'', bde_bucket = ''/backups'', bde_prefix = [], bde_region = [], bde_storage_class = [],
        bde_endpoint = [], bde_credentials = None\<rparr>,
      bjs_format = None, bjs_incremental = None, bjs_carbon = None, bjs_retention = None, bjs_metadata = []\<rparr>"

definition demo_backup :: backup_job where
  "demo_backup = \<lparr>bj_meta = plain_meta ''nightly'' ''prod'' [], bj_spec = demo_backup_spec, bj_status = new_status\<rparr>"

lemma demo_definition:
  "build_job_definition demo_backup =
     zero_job_definition\<lparr>jd_vm_path := ''/dc/vm/web'', jd_output_dir := ''/backups'', jd_format := ''ovf'',
       jd_metadata := Some [(''backupJob'', MetaString ''prod/nightly''), (''provider'', MetaString ''vsphere'')]\<rparr>"
  by (simp add: build_job_definition_def demo_backup_def demo_backup_spec_def plain_meta_def backup_vm_path_def)

lemma demo_backup_runs:
  "\<exists>w. backup_world_reachable demo_backup now d w \<and> bw_submitted w = [''u'']"
proof -
  define b1 where "b1 = initialize_backup_job 1 demo_backup"
  define w1 where "w1 = \<lparr>bw_job = b1, bw_sys = init_sys now d, bw_submitted = []\<rparr>"
  have "reconcile_backup_job (\<lambda>x. []) 1 [] demo_backup (js_mgr (init_sys now d)) = (Ends None, b1, js_mgr (init_sys now d))"
    by (simp add: reconcile_backup_job_def demo_backup_def new_status_def b1_def)
  then have "backup_world_step \<lparr>bw_job = demo_backup, bw_sys = init_sys now d, bw_submitted = []\<rparr> w1"
    using backup_world_step.reconciles [of "\<lambda>x. []" 1 "[]" "\<lparr>bw_job = demo_backup, bw_sys = init_sys now d, bw_submitted = []\<rparr>"]
    by (simp add: w1_def)
  then have r1: "backup_world_reachable demo_backup now d w1"
    using backup_world_reachable.init [of demo_backup now d] backup_world_reachable.step by blast
  obtain m' where m': "submit_job 2 ''u'' (build_job_definition b1) (js_mgr (init_sys now d)) = Inr (''u'', m')"
    by (auto simp: submit_job_def build_job_definition_def zero_job_definition_def init_sys_def Let_def)
  obtain e b2 where "reconcile_backup_job (\<lambda>x. []) 2 ''u'' b1 (js_mgr (init_sys now d)) = (e, b2, m')"
    using m' by (auto simp: reconcile_backup_job_def pending_starts start_backup_def b1_def initialize_backup_job_def Let_def)
  then have "backup_world_step w1 (w1\<lparr>bw_job := b2, bw_sys := \<lparr>js_mgr = m', js_threads = (js_threads (bw_sys w1))(''u'' \<mapsto> Spawned)\<rparr>,
      bw_submitted := bw_submitted w1 @ [''u'']\<rparr>)"
    using backup_world_step.submits [of "\<lambda>x. []" 2 "''u''" w1 e b2 m' "''u''"] m' by (simp add: w1_def)
  then have "backup_world_reachable demo_backup now d (w1\<lparr>bw_job := b2, bw_sys := \<lparr>js_mgr = m', js_threads = (js_threads (bw_sys w1))(''u'' \<mapsto> Spawned)\<rparr>,
      bw_submitted := bw_submitted w1 @ [''u'']\<rparr>)"
    using r1 backup_world_reachable.step by blast
  moreover have "bw_submitted w1 = []" by (simp add: w1_def)
  ultimately show ?thesis by (intro exI conjI) auto
qed

theorem a_backup_is_submitted_once_witness:
  "\<exists>w. backup_world_reachable demo_backup 0 web_detector w \<and> bw_submitted w = [''u''] \<and> bjt_phase (bj_status (bw_job w)) = jp_running"
proof -
  obtain w where w: "backup_world_reachable demo_backup 0 web_detector w" "bw_submitted w = [''u'']" using demo_backup_runs by blast
  have "bjt_phase (bj_status demo_backup) = []" by (simp add: demo_backup_def new_status_def)
  from a_backup_is_submitted_once [OF w(1) this] show ?thesis using w by auto
qed

definition demo_restore :: "restore_source \<Rightarrow> restore_job" where
  "demo_restore s =
     \<lparr>rj_meta = plain_meta ''undo'' ''prod'' [],
      rj_spec = \<lparr>rjs_source = s, rjs_destination = \<lparr>rde_provider = ''vsphere'', rde_namespace = [], rde_vm_name = ''web'', rde_datacenter = [],
        rde_resource_pool = [], rde_datastore = [], rde_network = [], rde_folder = [], rde_storage_class = []\<rparr>, rjs_options = None, rjs_metadata = []\<rparr>,
      rj_status = \<lparr>rjt_phase = [], rjt_start = None, rjt_completion = None, rjt_progress = None, rjt_conditions = [], rjt_vm_name = [],
        rjt_vm_id = [], rjt_error = []\<rparr>\<rparr>"

definition ref_source :: restore_source where
  "ref_source = \<lparr>rso_type = ''backup-ref'', rso_bucket = [], rso_path = [], rso_region = [], rso_endpoint = [],
     rso_ref = Some \<lparr>bjr_name = ''nightly'', bjr_namespace = []\<rparr>, rso_credentials = None\<rparr>"

theorem restores_do_not_panic_witness:
  "\<exists>es r'. reconcile_restores [(1, 1), (2, 2), (3, 3)] (demo_restore ref_source) = (es, r') \<and> NilPanic \<notin> set es"
proof -
  obtain es r' where r: "reconcile_restores [(1, 1), (2, 2), (3, 3)] (demo_restore ref_source) = (es, r')" by fastforce
  have "rjt_phase (rj_status (demo_restore ref_source)) = []" by (simp add: demo_restore_def)
  from restores_do_not_panic [OF this r] show ?thesis using r by blast
qed

definition demo_backup_schedule :: "string \<Rightarrow> int option \<Rightarrow> backup_schedule" where
  "demo_backup_schedule policy deadline =
     \<lparr>bsc_meta = plain_meta ''nightly'' ''prod'' [],
      bsc_spec = \<lparr>bss_schedule = ''* * * * *'', bss_timezone = [], bss_suspend = False, bss_concurrency = policy, bss_deadline = deadline,
        bss_success_limit = None, bss_failed_limit = None, bss_template = \<lparr>bjm_meta = plain_meta [] [] [], bjm_spec = demo_backup_spec\<rparr>\<rparr>,
      bsc_status = \<lparr>bsx_active = [], bsx_last_schedule = None, bsx_last_success = None, bsx_conditions = []\<rparr>\<rparr>"

definition minutely_env :: "instant \<Rightarrow> schedule_env" where
  "minutely_env t = \<lparr>se_parse = (\<lambda>s. Inr (\<lambda>t. t + minute)), se_now = t, se_unix = t div second, se_scheduled_at = [], se_after = t\<rparr>"

lemma forbidden_second_run:
  "map acj_name (bsx_active (bsc_status (reconcile_all_schedules [minutely_env (10 * minute), minutely_env (20 * minute)]
     (demo_backup_schedule [] None)))) = [''nightly-600'']"
  by code_simp

theorem forbidding_schedules_run_once_witness:
  "length (bsx_active (bsc_status (reconcile_all_schedules (replicate 1000 (minutely_env (10 * minute))) (demo_backup_schedule [] None)))) \<le> 1"
  by (rule forbidding_schedules_run_once) (simp_all add: forbids_def demo_backup_schedule_def)

lemma minutely_runs: "((\<lambda>t. t + minute) ^^ n) t = t + int n * minute"
  by (induction n) (simp_all add: distrib_right)

theorem deadline_schedules_lag_witness:
  "bsx_last_schedule (bsc_status (reconcile_all_schedules (replicate 1000000 (minutely_env (63000000000 * second)))
     (demo_backup_schedule ''Allow'' (Some 3600)))) = Some (1000000 * minute)"
proof -
  have w: "wrap64 (3600 * second) = 3600 * second" by (rule wrap64_id) (simp add: in64_def second_def)
  let ?x = "demo_backup_schedule ''Allow'' (Some 3600)"
  let ?envs = "replicate 1000000 (minutely_env (63000000000 * second))"
  have "reconcile_all_schedules ?envs ?x =
      ?x\<lparr>bsc_status := (bsc_status ?x)\<lparr>bsx_last_schedule := Some (((\<lambda>t. t + minute) ^^ length ?envs) 0)\<rparr>\<rparr>"
    by (rule deadline_schedules_lag [where d = 3600 and cron = "\<lambda>t. t + minute" and period = minute and now = "63000000000 * second"])
      (simp_all add: demo_backup_schedule_def minutely_env_def w, simp_all add: time_units)
  then show ?thesis by (simp add: minutely_runs)
qed

end
