(* ===== verification/Spec2Isabelle.thy ===== *)
theory Spec2Isabelle
  imports Go_Prelude Go_Heap Exchange_Sort Go_Path Models Job_Queue Mem_Cache Redis_Cache Capabilities Job_Manager
    Dep_Tracker Backoff Job_Retry Time_Window Adv_Queue Job_Scheduler Retryer Rbac Cloud_Storage
    Batch_Orchestrator Batch_Execute Checkpoint Vm_Download Incremental_Tracker Artifact_Manifest
    Progress_Tracker Audit_Log Job_Webhooks Migration_Webhooks Migration_Orchestrator
    Rate_Limit Rate_Traffic Daemon_Audit
    Vm_Operation_Effects Vm_Backup_Schedule Vm_Controller Operator_Pipeline
    Migration_Policy Migration_Pipeline Daemon_Backup Connection_Pool Network_Monitor Backup_Jobs
begin

text \<open>
  Transiva exports and migrates virtual machines.  Its daemon (\<open>daemon/\<close>) accepts export jobs, runs
  them with the best tool available and schedules them; the providers (\<open>providers/\<close>) download,
  convert and upload images, in batches and incrementally; an operator (\<open>pkg/operator/\<close>) runs virtual
  machines in a Kubernetes cluster.  The development models the core of the three.

  \<^bold>\<open>Shared theories.\<close>
  \<^item> \<open>Go_Prelude\<close>: Go's times, 64-bit wrap-around, maps (association lists in iteration order),
    strings, decimal rendering; the interface \<open>key_store\<close> of a map.  \<open>Go_Heap\<close>: the algorithms of
    \<open>container/heap\<close> over an order given by the client (\<open>heap_less\<close>).  \<open>Exchange_Sort\<close>: the sort by
    exchanges that several files write out.  \<open>Go_Path\<close>: \<open>path/filepath\<close>.  \<open>File_System\<close>: the calls of
    \<open>os\<close> on a tree of nodes without links, and the keys of paths in it.

  \<^bold>\<open>The daemon.\<close>
  \<^item> \<open>Models\<close>: \<open>daemon/models\<close>, one record per struct.  \<open>Job_Manager\<close>: \<open>daemon/jobs/manager.go\<close>;
    \<open>executeJob\<close> is cut at its critical sections into \<open>execute_begin\<close>, \<open>announce_start\<close>, \<open>run_export\<close>,
    \<open>store_result\<close> and \<open>execute_end\<close>, which \<open>jm_step\<close> interleaves for all jobs with the clients' calls and
    with the progress reports of exporters, which nobody waits for.
    \<open>Capabilities\<close>: \<open>daemon/capabilities/detector.go\<close> and the factory of \<open>daemon/exporters/exporter.go\<close>,
    which route an export.
  \<^item> \<open>Job_Scheduler\<close>: \<open>daemon/scheduler/scheduler.go\<close>, loads from the store among its steps; schedules are
    shared objects behind references, which cron's entries hold too.  It submits through \<open>job_executor\<close>, the contract of \<open>JobExecutor\<close>
    that \<open>Job_Manager\<close> provides.  \<open>Job_Retry\<close>, \<open>Backoff\<close>, \<open>Time_Window\<close>, \<open>Adv_Queue\<close> and \<open>Dep_Tracker\<close>:
    the other files of \<open>daemon/scheduler\<close>.
  \<^item> \<open>Job_Queue\<close>: \<open>daemon/queue/queue.go\<close>.  \<open>Mem_Cache\<close> and \<open>Redis_Cache\<close>: \<open>daemon/cache/cache.go\<close>,
    with the contract \<open>cache_backend\<close>.  \<open>Rbac\<close>: \<open>daemon/rbac/rbac.go\<close>.  \<open>Rate_Limit\<close> and
    \<open>Rate_Traffic\<close>: \<open>daemon/ratelimit/ratelimit.go\<close>, in the second theory with the requests cut where
    \<open>GetLimiter\<close> has released its mutex and interleaved with clean-ups.  \<open>Daemon_Audit\<close>:
    \<open>daemon/audit/audit.go\<close>, with its goroutine that deletes old files.  \<open>Job_Webhooks\<close>:
    \<open>daemon/webhooks/webhooks.go\<close>.  \<open>Daemon_Backup\<close>: \<open>daemon/backup/backup.go\<close>, on \<open>File_System\<close>.
  \<^item> \<open>Retryer\<close>: \<open>retry/retry.go\<close>.  \<open>Network_Monitor\<close>: \<open>network/monitor.go\<close>, cut where an update writes and
    notifies and where a wait reads, subscribes and listens.

  \<^bold>\<open>The providers.\<close>
  \<^item> \<open>Batch_Orchestrator\<close> (configuration, stages and retries of one machine) and \<open>Batch_Execute\<close> (the
    goroutines, the semaphore and the collector as transitions): \<open>providers/common/batch_orchestrator.go\<close>.
    \<open>Migration_Orchestrator\<close>: \<open>migration_orchestrator.go\<close>, \<open>conversion_manager.go\<close> and \<open>metrics.go\<close>, which
    tells \<open>Progress_Tracker\<close> (\<open>progress_api.go\<close>), \<open>Audit_Log\<close> (\<open>audit.go\<close>) and \<open>Migration_Webhooks\<close>
    (\<open>webhooks.go\<close>).  \<open>Checkpoint\<close>: \<open>checkpoint.go\<close>.  \<open>Cloud_Storage\<close>: \<open>cloud_storage.go\<close>.
  \<^item> \<open>Vm_Download\<close>: the names and the parallel download of \<open>providers/vsphere/export.go\<close>, with its
    checkpoint.  \<open>Connection_Pool\<close>: \<open>providers/vsphere/pool.go\<close>, \<open>Get\<close> cut at its channel operations and
    critical sections.  \<open>Incremental_Tracker\<close>: \<open>providers/incremental/tracker.go\<close>.  \<open>Artifact_Manifest\<close>:
    \<open>manifest/\<close>.

  \<^bold>\<open>The operator.\<close>
  \<^item> \<open>Operator_Types\<close>: the resources of \<open>pkg/apis/transiva/v1alpha1/vm_types.go\<close>.  \<open>Kube_Client\<close>: the API
    the controllers call, with its laws (\<open>kube_laws\<close>): what a call may change, also when it fails.
    \<open>Kube_Sim\<close>: an API over lists that has them.
  \<^item> \<open>Vm_Operation\<close>, \<open>Vm_Snapshot\<close>, \<open>Vm_Backup_Schedule\<close>, \<open>Vm_Controller\<close> and \<open>Migration_Policy\<close>: the
    controllers of the same names under \<open>pkg/operator/controllers\<close>, each a function from the key and
    the cluster to the result and the new cluster.  \<open>Vm_Operation_Effects\<close>: an abstract effect of every
    kind of operation, which the executors refine.  \<open>Operator_Pipeline\<close> and \<open>Migration_Pipeline\<close>:
    several controllers in turn on one cluster.  \<open>Backup_Jobs\<close>: the resources of \<open>types.go\<close> and the
    controllers of backups, their schedules and restores, beside the job manager they submit to.

  \<^bold>\<open>How code became definitions.\<close>  A struct is a record, a method a function from the state to its
  result and the new state, an error a value of a sum or an option, one constructor per message
  where the code compares them.  A mutex makes a method one step; where the code releases it, the
  method is cut there and a step relation, a step function or a list of events interleaves the
  pieces.  \<open>time.Now()\<close>, random numbers, fresh identifiers and iteration orders are arguments, so every
  lemma holds for all of them.  Code outside the repository is an argument as well: the exporters'
  tools, the cron library (\<open>cron_laws\<close>), the token bucket (\<open>limiter_laws\<close>), the Redis client, the zone
  database, HTTP exchanges, JSON, tar, gzip, SHA-256, system errors, floating-point arithmetic and the
  Kubernetes API.  The laws relied on are hypotheses that name documented behaviour, and a concrete
  instance satisfies each in the witnesses.  Integers that cannot overflow in practice are
  unbounded; delays, attempt counters and durations made of configured numbers wrap at 64 bits.

  \<^bold>\<open>What is shown.\<close>
  \<^item> Invariants over all interleavings: jobs agree with their goroutines and their outcomes are final,
    though late reports still change the progress;
    the queue keeps its order, capacity and metrics; the cache keeps its limit; enabled schedules are
    wired to cron; a batch accounts for every machine; a connection of the pool has one owner; a
    listener of the progress tracker sees the updates sent; checkpoints never claim a file that was
    not downloaded; a wait for the network that ends well has seen it up; clients of an open pool hold
    live connections unless a health check comes inside \<open>Get\<close>.
  \<^item> Refinement: access control refines a table of rights, the checkpoint a finite map, the limiter a
    bucket per user whatever is cleaned up, an operation its abstract effect.
  \<^item> Liveness and termination: accepted jobs can finish, batches end, the retry loop and the chain of
    retries end, operations finish, a requested snapshot is made, machines leave nodes under
    maintenance, a listening wait that is told of the change to up ends in every later run unless it
    is cancelled.  \<open>retry_chain\<close> takes a bound, besides the contexts that may be done and what other
    goroutines do to the records in between, and \<open>Suc (retries_left rm sj)\<close> is proved to be enough; the
    other loops are structural.
  \<^item> Safety whatever the API or the archive answers: operations, machines and policies only advance,
    deletion leaves nothing behind, a policy keeps to its limits, a restore and the directories of
    the tracker stay inside their roots.
  \<^item> Round trips: a backup restores the tree it was made of, with the permission bits that the umask
    leaves; logged events are found again unless a clean-up deletes their file; a cached value is read
    back, a saved checkpoint is loaded.
  \<^item> Several theorems and lemmas state behaviour that the code does not mean; their texts say so.  The
    retention of backups waits for the mutex it holds and never deletes; a schedule with a deadline
    counts its runs from the year one; a full channel drops the news that the network is up; putting
    back a connection created after the pool was closed panics; a cron expression without a next run
    makes every reconciliation back up.

  \<^bold>\<open>Simplifications.\<close>  Logging is dropped.  Shutting down waits for goroutines and is not modelled,
  except where it changes the state that is left.  The definition a job's goroutine works on is a
  copy, but its options are shared with the stored job in the code, so that a reader may see merged
  pipeline flags before the export ends.  A run of a worker is one step of the queue.  Time windows
  are proved right for locations with a fixed offset; \<open>date_in\<close> is defined for all.  Reads of the
  Kubernetes API are not stale and its times not truncated to seconds; a reconciliation reads the
  clock once, those of policies excepted; owner references and the 32-bit width of counters are left
  out; a panic ends a reconciliation with an error.  In \<open>File_System\<close> there are no links, and
  permissions are recorded and not enforced.

  \<^bold>\<open>Not modelled.\<close>  The clients of clouds and hypervisors under \<open>providers\<close> (calls of SDKs and of
  external programs); the HTTP handlers under \<open>daemon/api\<close>, dashboards, tracing and metrics (decoding,
  a call into a component above, encoding); the SQL stores and the secret services; cost and carbon
  estimates (floating-point tables over external data); the command line and its terminal interface;
  generated deep copies; the controller of templates, which counts and writes conditions.
\<close>

end
